(* ===== verification/Prelude.thy ===== *)
theory Prelude
  imports Main "HOL-Library.Word" "HOL-Library.AList"
begin

text \<open>
  What every component of the development shares: the names of the machine types, the
  result type of fallible functions with its sequencing operators, big-endian codecs,
  byte slices, and the two dictionary models. A fallible function of the source returns
  \<open>'e + 'a\<close>: \<open>Inl\<close> is the error it reports, \<open>Inr\<close> its value. The collection
  \<open>result_simps\<close> holds the inversion rules of the sequencing operators.
\<close>

unbundle bit_operations_syntax

named_theorems result_simps

type_synonym u8 = "8 word"
type_synonym u16 = "16 word"
type_synonym u32 = "32 word"
type_synonym u64 = "64 word"
type_synonym bytes = "u8 list"

section \<open>Results\<close>

text \<open>\<open>and_then r f\<close> is the source's \<open>f(r?)\<close>: an error returns early.\<close>

definition and_then :: "'e + 'a \<Rightarrow> ('a \<Rightarrow> 'e + 'b) \<Rightarrow> 'e + 'b" where
  "and_then r f = (case r of Inl e \<Rightarrow> Inl e | Inr x \<Rightarrow> f x)"

text \<open>\<open>ensure b e k\<close> is \<open>ensure!(b, e); k\<close>.\<close>

definition ensure :: "bool \<Rightarrow> 'e \<Rightarrow> 'e + 'a \<Rightarrow> 'e + 'a" where
  "ensure b e k = (if b then k else Inl e)"

text \<open>\<open>ok_or e o\<close> is \<open>o.ok_or_else(|| e)\<close>.\<close>

definition ok_or :: "'e \<Rightarrow> 'a option \<Rightarrow> 'e + 'a" where
  "ok_or e opt = (case opt of None \<Rightarrow> Inl e | Some x \<Rightarrow> Inr x)"

definition is_ok :: "'e + 'a \<Rightarrow> bool" where
  "is_ok r = (case r of Inl _ \<Rightarrow> False | Inr _ \<Rightarrow> True)"

lemma and_then_simps [simp]:
  "and_then (Inl e) f = Inl e"
  "and_then (Inr x) f = f x"
  by (simp_all add: and_then_def)

lemma ensure_simps [simp]:
  "ensure True e k = k"
  "ensure False e k = Inl e"
  by (simp_all add: ensure_def)

lemma ok_or_simps [simp]:
  "ok_or e None = Inl e"
  "ok_or e (Some x) = Inr x"
  by (simp_all add: ok_or_def)

lemma is_ok_simps [simp]:
  "is_ok (Inl e) = False"
  "is_ok (Inr x) = True"
  by (simp_all add: is_ok_def)

lemma and_then_Inr_iff [result_simps]:
  "and_then r f = Inr y \<longleftrightarrow> (\<exists>x. r = Inr x \<and> f x = Inr y)"
  by (cases r) auto

lemma ensure_Inr_iff [result_simps]:
  "ensure b e k = Inr y \<longleftrightarrow> b \<and> k = Inr y"
  by (cases b) auto

lemma ok_or_Inr_iff [result_simps]:
  "ok_or e opt = Inr y \<longleftrightarrow> opt = Some y"
  by (cases opt) auto

lemma is_ok_iff: "is_ok r \<longleftrightarrow> (\<exists>x. r = Inr x)"
  by (cases r) auto

lemma and_then_cong [fundef_cong]:
  "r = r' \<Longrightarrow> (\<And>x. r' = Inr x \<Longrightarrow> f x = f' x) \<Longrightarrow> and_then r f = and_then r' f'"
  by (cases r') auto

lemma and_then_assoc: "and_then (and_then r f) g = and_then r (\<lambda>x. and_then (f x) g)"
  by (cases r) auto

text \<open>
  \<open>run_all f s xs\<close> feeds a list of inputs to a fallible state transformer and stops at the
  first error; \<open>produce f n s\<close> runs a fallible producer \<open>n\<close> times and collects its outputs.
\<close>

fun run_all :: "('s \<Rightarrow> 'a \<Rightarrow> 'e + 's) \<Rightarrow> 's \<Rightarrow> 'a list \<Rightarrow> 'e + 's" where
  "run_all f s [] = Inr s"
| "run_all f s (x # xs) = and_then (f s x) (\<lambda>s. run_all f s xs)"

fun produce :: "('s \<Rightarrow> 'e + ('a \<times> 's)) \<Rightarrow> nat \<Rightarrow> 's \<Rightarrow> 'e + ('a list \<times> 's)" where
  "produce f 0 s = Inr ([], s)"
| "produce f (Suc n) s = and_then (produce f n s) (\<lambda>(xs, s). and_then (f s) (\<lambda>(x, s). Inr (xs @ [x], s)))"

section \<open>Slices and big-endian integers\<close>

text \<open>\<open>subrange lo hi xs\<close> is \<open>&xs[lo..hi]\<close>, \<open>None\<close> where the source panics.\<close>

definition subrange :: "nat \<Rightarrow> nat \<Rightarrow> 'a list \<Rightarrow> 'a list option" where
  "subrange lo hi xs = (if lo \<le> hi \<and> hi \<le> length xs then Some (take (hi - lo) (drop lo xs)) else None)"

lemma subrange_Some_iff [result_simps]:
  "subrange lo hi xs = Some ys \<longleftrightarrow> lo \<le> hi \<and> hi \<le> length xs \<and> ys = take (hi - lo) (drop lo xs)"
  by (auto simp: subrange_def)

lemma length_subrange: "subrange lo hi xs = Some ys \<Longrightarrow> length ys = hi - lo"
  by (auto simp: subrange_def split: if_splits)

definition u16_to_be :: "u16 \<Rightarrow> bytes" where
  "u16_to_be w = [ucast (drop_bit 8 w), ucast w]"

definition u16_from_be :: "u8 \<Rightarrow> u8 \<Rightarrow> u16" where
  "u16_from_be hi lo = push_bit 8 (ucast hi) OR ucast lo"

definition u64_to_be :: "u64 \<Rightarrow> bytes" where
  "u64_to_be w = map (\<lambda>i. ucast (drop_bit (56 - 8 * i) w)) [0..<8]"

lemma length_u16_to_be [simp]: "length (u16_to_be w) = 2"
  by (simp add: u16_to_be_def)

lemma length_u64_to_be [simp]: "length (u64_to_be w) = 8"
  by (simp add: u64_to_be_def)

lemma u64_to_be_inject: "u64_to_be a = u64_to_be b \<longleftrightarrow> a = b"
proof
  assume eq: "u64_to_be a = u64_to_be b"
  have byte: "(ucast (drop_bit (56 - 8 * i) a) :: u8) = ucast (drop_bit (56 - 8 * i) b)" if "i < 8" for i
    using arg_cong[OF eq, of "\<lambda>l. l ! i"] that by (simp add: u64_to_be_def)
  show "a = b"
  proof (rule bit_word_eqI)
    fix n assume n: "n < LENGTH(64)"
    let ?i = "7 - n div 8"
    have "8 * (n div 8) \<le> 56" using n by auto
    then have "56 - 8 * ?i = 8 * (n div 8)" by (simp add: diff_mult_distrib2)
    then have i: "?i < 8" "56 - 8 * ?i + n mod 8 = n" by auto
    have "bit (ucast (drop_bit (56 - 8 * ?i) a) :: u8) (n mod 8) = bit (ucast (drop_bit (56 - 8 * ?i) b) :: u8) (n mod 8)"
      using byte[OF i(1)] by simp
    then show "bit a n = bit b n" using i n by (simp add: bit_simps)
  qed
qed simp

lemma u16_from_to_be [simp]: "u16_from_be (ucast (drop_bit 8 w)) (ucast w) = w"
  unfolding u16_from_be_def
  by (rule bit_word_eqI) (auto simp: bit_simps)

lemma u16_to_from_be [simp]: "u16_to_be (u16_from_be hi lo) = [hi, lo]"
proof -
  have "(ucast (drop_bit 8 (u16_from_be hi lo)) :: u8) = hi"
    unfolding u16_from_be_def by (rule bit_word_eqI) (auto simp: bit_simps dest: bit_imp_le_length)
  moreover have "(ucast (u16_from_be hi lo) :: u8) = lo"
    unfolding u16_from_be_def by (rule bit_word_eqI) (auto simp: bit_simps)
  ultimately show ?thesis by (simp add: u16_to_be_def)
qed

definition u32_to_be :: "u32 \<Rightarrow> bytes" where
  "u32_to_be w = [ucast (drop_bit 24 w), ucast (drop_bit 16 w), ucast (drop_bit 8 w), ucast w]"

definition u32_from_be :: "bytes \<Rightarrow> u32" where
  "u32_from_be bs = push_bit 24 (ucast (bs ! 0)) OR push_bit 16 (ucast (bs ! 1))
     OR push_bit 8 (ucast (bs ! 2)) OR ucast (bs ! 3)"

lemma length_u32_to_be [simp]: "length (u32_to_be w) = 4"
  by (simp add: u32_to_be_def)

lemma u32_from_to_be [simp]: "u32_from_be (u32_to_be w) = w"
proof (rule bit_word_eqI)
  fix n
  assume "n < LENGTH(32)"
  then consider "n < 8" | "8 \<le> n" "n < 16" | "16 \<le> n" "n < 24" | "24 \<le> n" "n < 32" by force
  then show "bit (u32_from_be (u32_to_be w)) n = bit w n"
    by cases (auto simp: u32_from_be_def u32_to_be_def bit_simps)
qed

lemma u32_to_from_be:
  assumes "length bs = 4"
  shows "u32_to_be (u32_from_be bs) = bs"
proof -
  obtain a b c d where bs: "bs = [a, b, c, d]"
    using assms by (auto simp: length_Suc_conv eval_nat_numeral)
  have "ucast (drop_bit 24 (u32_from_be bs)) = a" "ucast (drop_bit 16 (u32_from_be bs)) = b"
    "ucast (drop_bit 8 (u32_from_be bs)) = c" "ucast (u32_from_be bs) = d"
    unfolding u32_from_be_def bs
    by (rule bit_word_eqI; auto simp: bit_simps dest: bit_imp_le_length)+
  then show ?thesis by (simp add: u32_to_be_def bs)
qed

text \<open>Byte-string labels, as the bytes of their ASCII text.\<close>

definition ascii :: "string \<Rightarrow> bytes" where
  "ascii s = map of_char s"

section \<open>Ordered maps\<close>

text \<open>
  \<open>BTreeMap\<close>: an association list with strictly increasing keys, which is the order its
  iterators follow. Insertion replaces the value of a key that is present.
\<close>

fun bt_insert :: "'k::linorder \<Rightarrow> 'v \<Rightarrow> ('k \<times> 'v) list \<Rightarrow> ('k \<times> 'v) list" where
  "bt_insert k v [] = [(k, v)]"
| "bt_insert k v ((k', v') # m) =
     (if k < k' then (k, v) # (k', v') # m
      else if k = k' then (k, v) # m
      else (k', v') # bt_insert k v m)"

definition bt_wf :: "('k::linorder \<times> 'v) list \<Rightarrow> bool" where
  "bt_wf m \<longleftrightarrow> sorted_wrt (<) (map fst m)"

lemma bt_wf_Nil [simp]: "bt_wf []"
  by (simp add: bt_wf_def)

lemma keys_bt_insert: "fst ` set (bt_insert k v m) = insert k (fst ` set m)"
  by (induction k v m rule: bt_insert.induct) auto

lemma bt_wf_insert: "bt_wf m \<Longrightarrow> bt_wf (bt_insert k v m)"
proof (induction k v m rule: bt_insert.induct)
  case (2 k v k' v' m)
  have "fst ` set (bt_insert k v m) = insert k (fst ` set m)" by (rule keys_bt_insert)
  then show ?case using 2 by (force simp: bt_wf_def)
qed (simp add: bt_wf_def)

lemma map_of_bt_insert: "map_of (bt_insert k v m) = (map_of m)(k \<mapsto> v)"
  by (induction k v m rule: bt_insert.induct) (auto simp: fun_eq_iff)

lemma bt_wf_distinct: "bt_wf m \<Longrightarrow> distinct (map fst m)"
  by (simp add: bt_wf_def strict_sorted_iff)

lemma length_bt_insert:
  "map_of m k = None \<Longrightarrow> length (bt_insert k v m) = Suc (length m)"
  by (induction k v m rule: bt_insert.induct) (auto split: if_splits)

lemma values_bt_insert:
  "snd ` set (bt_insert k v m) \<subseteq> insert v (snd ` set m)"
  by (induction k v m rule: bt_insert.induct) auto

text \<open>
  Further operations: \<open>get_or\<close> is \<open>get(..).cloned().unwrap_or(d)\<close>, \<open>bt_update\<close> the
  \<open>entry(..).or_default()\<close> idiom, \<open>bt_remove\<close> is \<open>remove\<close> and \<open>bt_of_list\<close> collects.
\<close>

definition get_or :: "'v \<Rightarrow> ('k \<times> 'v) list \<Rightarrow> 'k \<Rightarrow> 'v" where
  "get_or d m k = (case map_of m k of None \<Rightarrow> d | Some v \<Rightarrow> v)"

definition bt_update :: "'v \<Rightarrow> 'k::linorder \<Rightarrow> ('v \<Rightarrow> 'v) \<Rightarrow> ('k \<times> 'v) list \<Rightarrow> ('k \<times> 'v) list" where
  "bt_update d k f m = bt_insert k (f (get_or d m k)) m"

definition bt_remove :: "'k \<Rightarrow> ('k \<times> 'v) list \<Rightarrow> ('k \<times> 'v) list" where
  "bt_remove k m = filter (\<lambda>(k', _). k' \<noteq> k) m"

definition bt_of_list :: "('k::linorder \<times> 'v) list \<Rightarrow> ('k \<times> 'v) list" where
  "bt_of_list kvs = fold (\<lambda>(k, v). bt_insert k v) kvs []"

lemma map_of_bt_update: "map_of (bt_update d k f m) = (map_of m)(k \<mapsto> f (get_or d m k))"
  by (simp add: bt_update_def map_of_bt_insert)

lemma get_or_bt_insert [simp]: "get_or d (bt_insert k v m) k' = (if k' = k then v else get_or d m k')"
  by (simp add: get_or_def map_of_bt_insert)

lemma get_or_bt_update [simp]:
  "get_or d (bt_update d k f m) k' = (if k' = k then f (get_or d m k) else get_or d m k')"
  by (simp add: bt_update_def)

lemma get_or_Nil [simp]: "get_or d [] k = d"
  by (simp add: get_or_def)

lemma map_of_bt_remove: "map_of (bt_remove k m) = (map_of m)(k := None)"
  by (induction m) (auto simp: bt_remove_def fun_eq_iff)

lemma bt_wf_remove: "bt_wf m \<Longrightarrow> bt_wf (bt_remove k m)"
  by (auto simp: bt_wf_def bt_remove_def sorted_wrt_map intro: sorted_wrt_filter)

lemma bt_wf_update: "bt_wf m \<Longrightarrow> bt_wf (bt_update d k f m)"
  by (simp add: bt_update_def bt_wf_insert)

lemma keys_bt_update: "fst ` set (bt_update d k f m) = insert k (fst ` set m)"
  by (simp add: bt_update_def keys_bt_insert)

text \<open>Two ordered maps with the same lookups are the same list.\<close>

lemma bt_mem: "bt_wf m \<Longrightarrow> (k, v) \<in> set m \<longleftrightarrow> map_of m k = Some v"
  by (metis bt_wf_distinct map_of_SomeD map_of_is_SomeI)

lemma bt_ext:
  assumes "bt_wf m" "bt_wf m'" "map_of m = map_of m'"
  shows "m = m'"
proof (rule map_sorted_distinct_set_unique[where f = fst])
  have eq: "set m = set m'"
    using assms bt_mem[OF assms(1)] bt_mem[OF assms(2)] by (metis (no_types, lifting) subsetI subset_antisym surj_pair)
  have "inj_on fst (set m)"
    using bt_wf_distinct[OF assms(1)] by (simp add: distinct_map)
  then show "inj_on fst (set m \<union> set m')" using eq by simp
  show "sorted (map fst m)" "distinct (map fst m)" "sorted (map fst m')" "distinct (map fst m')"
    using assms by (simp_all add: bt_wf_def strict_sorted_iff)
  show "set m = set m'" by (rule eq)
qed

section \<open>Loops over lists\<close>

text \<open>\<open>check_each f xs\<close> is a loop whose body only checks.\<close>

definition check_each :: "('a \<Rightarrow> 'e + unit) \<Rightarrow> 'a list \<Rightarrow> 'e + unit" where
  "check_each f xs = run_all (\<lambda>_ x. f x) () xs"

lemma check_each_Inr [result_simps]: "check_each f xs = Inr u \<longleftrightarrow> (\<forall>x\<in>set xs. f x = Inr ())"
proof (induction xs)
  case (Cons x xs)
  then show ?case by (cases "f x") (auto simp: check_each_def)
qed (simp add: check_each_def)

text \<open>A property every step keeps holds at the end of a loop.\<close>

lemma run_all_invariant:
  assumes "run_all f s xs = Inr s'" "P s"
    and "\<And>s x s'. x \<in> set xs \<Longrightarrow> P s \<Longrightarrow> f s x = Inr s' \<Longrightarrow> P s'"
  shows "P s'"
  using assms
proof (induction xs arbitrary: s)
  case (Cons x xs)
  from Cons.prems(1) obtain s1 where s1: "f s x = Inr s1" "run_all f s1 xs = Inr s'"
    by (auto simp: result_simps)
  have "P s1" by (rule Cons.prems(3)[OF _ Cons.prems(2) s1(1)]) simp
  then show ?case by (rule Cons.IH[OF s1(2)]) (auto intro: Cons.prems(3))
qed simp

lemma run_all_append: "run_all f s (xs @ ys) = and_then (run_all f s xs) (\<lambda>s. run_all f s ys)"
  by (induction xs arbitrary: s) (auto simp: and_then_assoc)

lemma run_all_cong [fundef_cong]:
  "xs = ys \<Longrightarrow> s = t \<Longrightarrow> (\<And>s x. x \<in> set ys \<Longrightarrow> f s x = g s x) \<Longrightarrow> run_all f s xs = run_all g t ys"
  by (induction xs arbitrary: ys s t) (auto intro!: and_then_cong)

section \<open>Hash maps\<close>

text \<open>
  \<open>HashMap\<close>: an association list with distinct keys whose order means nothing; every
  operation that observes an order in the source sorts first.
\<close>

abbreviation hm_get :: "('k \<times> 'v) list \<Rightarrow> 'k \<Rightarrow> 'v option" where
  "hm_get \<equiv> map_of"

abbreviation hm_insert :: "'k \<Rightarrow> 'v \<Rightarrow> ('k \<times> 'v) list \<Rightarrow> ('k \<times> 'v) list" where
  "hm_insert \<equiv> AList.update"

abbreviation hm_remove :: "'k \<Rightarrow> ('k \<times> 'v) list \<Rightarrow> ('k \<times> 'v) list" where
  "hm_remove \<equiv> AList.delete"

definition hm_contains :: "('k \<times> 'v) list \<Rightarrow> 'k \<Rightarrow> bool" where
  "hm_contains m k \<longleftrightarrow> map_of m k \<noteq> None"

definition hm_wf :: "('k \<times> 'v) list \<Rightarrow> bool" where
  "hm_wf m \<longleftrightarrow> distinct (map fst m)"

lemma hm_wf_Nil [simp]: "hm_wf []"
  by (simp add: hm_wf_def)

lemma hm_wf_insert [simp]: "hm_wf m \<Longrightarrow> hm_wf (hm_insert k v m)"
  by (simp add: hm_wf_def distinct_update)

lemma hm_wf_remove [simp]: "hm_wf m \<Longrightarrow> hm_wf (hm_remove k m)"
  by (simp add: hm_wf_def distinct_delete)

lemma hm_get_insert [simp]: "hm_get (hm_insert k v m) k' = (if k = k' then Some v else hm_get m k')"
  by (simp add: update_conv')

lemma hm_get_remove [simp]: "hm_get (hm_remove k m) k' = (if k = k' then None else hm_get m k')"
  by (simp add: delete_conv')

lemma hm_contains_iff: "hm_contains m k \<longleftrightarrow> k \<in> fst ` set m"
  by (simp add: hm_contains_def map_of_eq_None_iff)

end
