(* ===== verification/Braid_Base.thy ===== *)
theory Braid_Base
  imports Prelude
begin

text \<open>
  Constants and errors of the braid (\<open>secure_mesh_mlkem_braid/constants.rs\<close>). Each
  message of an \<open>ensure!\<close>, \<open>anyhow!\<close> or \<open>bail!\<close> of the component is a constructor of
  \<open>braid_error\<close>; \<open>Panic\<close> stands for an index or slice out of range.
\<close>

definition ML_KEM_BRAID_CHUNK_BYTES :: nat where "ML_KEM_BRAID_CHUNK_BYTES = 32"
definition ML_KEM_BRAID_HEADER_BYTES :: nat where "ML_KEM_BRAID_HEADER_BYTES = 64"
definition ML_KEM_BRAID_EK_BYTES :: nat where "ML_KEM_BRAID_EK_BYTES = 1536"
definition ML_KEM_BRAID_CT1_BYTES :: nat where "ML_KEM_BRAID_CT1_BYTES = 1408"
definition ML_KEM_BRAID_CT2_BYTES :: nat where "ML_KEM_BRAID_CT2_BYTES = 160"
definition ML_KEM_BRAID_MAC_BYTES :: nat where "ML_KEM_BRAID_MAC_BYTES = 32"
definition INITIAL_EPOCH :: u64 where "INITIAL_EPOCH = 1"
definition MAX_SOURCE_CHUNKS :: nat where
  "MAX_SOURCE_CHUNKS = ML_KEM_BRAID_EK_BYTES div ML_KEM_BRAID_CHUNK_BYTES"
definition GF_REDUCTION_POLYNOMIAL :: u32 where "GF_REDUCTION_POLYNOMIAL = 0x100b"
definition PERSISTENCE_REVISION :: u8 where "PERSISTENCE_REVISION = 2"

definition PROTOCOL_INFO :: bytes where
  "PROTOCOL_INFO = ascii ''LicoMesh_MLKEM1024_HMAC-SHA256''"
definition AUTH_UPDATE_LABEL :: bytes where "AUTH_UPDATE_LABEL = ascii '':Authenticator Update''"
definition OUTPUT_KEY_LABEL :: bytes where "OUTPUT_KEY_LABEL = ascii '':SCKA Key''"
definition HEADER_MAC_LABEL :: bytes where "HEADER_MAC_LABEL = ascii '':ekheader''"
definition CIPHERTEXT_MAC_LABEL :: bytes where "CIPHERTEXT_MAC_LABEL = ascii '':ciphertext''"

lemmas braid_sizes =
  ML_KEM_BRAID_CHUNK_BYTES_def ML_KEM_BRAID_HEADER_BYTES_def ML_KEM_BRAID_EK_BYTES_def
  ML_KEM_BRAID_CT1_BYTES_def ML_KEM_BRAID_CT2_BYTES_def ML_KEM_BRAID_MAC_BYTES_def

lemma MAX_SOURCE_CHUNKS_eq: "MAX_SOURCE_CHUNKS = 48"
  by (simp add: MAX_SOURCE_CHUNKS_def braid_sizes)

datatype braid_error =
    Panic
  | FieldInverseOfZero
  | FieldDenominatorIsZero
  | ErasureMessageSizeInvalid
  | ErasureMessageExceedsLimit
  | ErasureDomainExhausted
  | ErasurePointOverflow
  | SourceChunkLengthInvalid
  | PersistedEncoderSourceCountInvalid
  | PersistedEncoderChunkLengthInvalid
  | PersistedEncoderPointInvalid
  | PersistedEncoderSizeInvalid
  | DecoderMessageSizeInvalid
  | DecoderExceedsLimit
  | DecoderDataAfterCompletion
  | DuplicateErasureChunk
  | DecoderResourceLimitExceeded
  | MessageIncomplete
  | SystematicChunkMissing
  | PersistedActiveDecoderInvalid
  | PersistedDecoderSizeInvalid
  | PersistedDecoderChunksInvalid
  | PersistedDecodedMessageInvalid
  | EpochZeroInvalid
  | TypeDataCombinationInvalid
  | EpochUnderflow
  | EpochExhausted
  | MessageDataMissing
  | SecretLengthInvalid
  | AuthenticatorKdfFailed
  | MacKeyInvalid
  | MacLengthInvalid
  | AuthenticationFailed
  | OutputKeyKdfFailed
  | EncapsulationKeyLengthInvalid
  | EncapsulationKeyIntegrityFailed
  | EncapsulationInputLengthInvalid
  | CiphertextLengthInvalid
  | EncapsulationStateInvalid
  | EncapsulationVectorInvalid
  | Encaps1Failed
  | GeneratedKeyInvalid
  | SessionPoisoned
  | StateDispatchFailed
  | PersistedEpochInvalid
  | PersistedEkLengthInvalid
  | PersistedCt1LengthInvalid
  | PersistedHeaderLengthInvalid
  | PersistedSampledLengthInvalid
  | PersistedAcknowledgedLengthInvalid

type_synonym 'a braid_result = "braid_error + 'a"

end
