(* ===== verification/Lagrange.thy ===== *)
theory Lagrange
  imports Complex_Main
begin

text \<open>
  Interpolation over an arbitrary field, the mathematics behind the erasure code of the
  secure-mesh braid: functions that are polynomials of bounded degree, the uniqueness of
  such a function through enough points, and the Lagrange form that both the encoder and
  the decoder of the code evaluate. Nothing here models code; the field is instantiated by
  the arithmetic of \<open>erasure_gf.rs\<close> in theory \<open>Gf16\<close>.
\<close>

definition degree_lt :: "nat \<Rightarrow> ('a::field \<Rightarrow> 'a) \<Rightarrow> bool" where
  "degree_lt k f \<longleftrightarrow> (\<exists>c. \<forall>x. f x = (\<Sum>i<k. c i * x ^ i))"

lemma degree_lt_zero: "degree_lt k (\<lambda>x. 0)"
  unfolding degree_lt_def by (rule exI[of _ "\<lambda>_. 0"]) simp

lemma degree_lt_add:
  assumes "degree_lt k f" and "degree_lt k g"
  shows "degree_lt k (\<lambda>x. f x + g x)"
proof -
  obtain c d where c: "\<And>x. f x = (\<Sum>i<k. c i * x ^ i)" and d: "\<And>x. g x = (\<Sum>i<k. d i * x ^ i)"
    using assms unfolding degree_lt_def by blast
  have "f x + g x = (\<Sum>i<k. (c i + d i) * x ^ i)" for x
    by (simp add: c d distrib_right sum.distrib)
  then show ?thesis unfolding degree_lt_def by (intro exI[of _ "\<lambda>i. c i + d i"]) simp
qed

lemma degree_lt_scale:
  assumes "degree_lt k f"
  shows "degree_lt k (\<lambda>x. a * f x)"
proof -
  obtain c where c: "\<And>x. f x = (\<Sum>i<k. c i * x ^ i)"
    using assms unfolding degree_lt_def by blast
  have "a * f x = (\<Sum>i<k. (a * c i) * x ^ i)" for x
    by (simp add: c sum_distrib_left mult.assoc)
  then show ?thesis unfolding degree_lt_def by (intro exI[of _ "\<lambda>i. a * c i"]) simp
qed

lemma degree_lt_sum:
  "(\<And>i. i \<in> S \<Longrightarrow> degree_lt k (f i)) \<Longrightarrow> degree_lt k (\<lambda>x. \<Sum>i\<in>S. f i x)"
  by (induction S rule: infinite_finite_induct) (simp_all add: degree_lt_zero degree_lt_add)

lemma degree_lt_one: "degree_lt (Suc 0) (\<lambda>x. 1)"
  unfolding degree_lt_def by (rule exI[of _ "\<lambda>_. 1"]) simp

lemma degree_lt_Suc:
  assumes "degree_lt k f"
  shows "degree_lt (Suc k) f"
proof -
  obtain c where c: "\<And>x. f x = (\<Sum>i<k. c i * x ^ i)"
    using assms unfolding degree_lt_def by blast
  have "f x = (\<Sum>i<Suc k. (if i < k then c i else 0) * x ^ i)" for x
    by (simp add: c)
  then show ?thesis unfolding degree_lt_def by (intro exI[of _ "\<lambda>i. if i < k then c i else 0"]) simp
qed

lemma degree_lt_times_var:
  assumes "degree_lt k f"
  shows "degree_lt (Suc k) (\<lambda>x. x * f x)"
proof -
  obtain c where c: "\<And>x. f x = (\<Sum>i<k. c i * x ^ i)"
    using assms unfolding degree_lt_def by blast
  have "x * f x = (\<Sum>i<Suc k. (case i of 0 \<Rightarrow> 0 | Suc j \<Rightarrow> c j) * x ^ i)" for x
    unfolding sum.lessThan_Suc_shift
    by (simp add: c sum_distrib_left mult.left_commute mult.assoc)
  then show ?thesis
    unfolding degree_lt_def by (intro exI[of _ "\<lambda>i. case i of 0 \<Rightarrow> 0 | Suc j \<Rightarrow> c j"]) blast
qed

lemma degree_lt_linear:
  assumes "degree_lt k f"
  shows "degree_lt (Suc k) (\<lambda>x. (x - a) * f x)"
proof -
  have "(\<lambda>x. (x - a) * f x) = (\<lambda>x. x * f x + (- a) * f x)"
    by (simp add: algebra_simps)
  then show ?thesis
    using degree_lt_add[OF degree_lt_times_var[OF assms] degree_lt_Suc[OF degree_lt_scale[OF assms, of "- a"]]]
    by simp
qed

lemma degree_lt_prod:
  "finite S \<Longrightarrow> degree_lt (Suc (card S)) (\<lambda>x. \<Prod>j\<in>S. x - p j)"
  by (induction S rule: finite_induct) (auto intro: degree_lt_one degree_lt_linear)

lemma degree_lt_root_factor:
  assumes "degree_lt (Suc k) f" and "f a = 0"
  obtains g where "degree_lt k g" and "\<And>x. f x = (x - a) * g x"
proof -
  obtain c where c: "\<And>x. f x = (\<Sum>i\<le>k. c i * x ^ i)"
    using assms(1) unfolding degree_lt_def lessThan_Suc_atMost by blast
  then have "(\<Sum>i\<le>k. c i * a ^ i) = 0" using assms(2) by simp
  then obtain b where "\<And>z. (\<Sum>i\<le>k. c i * z ^ i) = (z - a) * (\<Sum>i<k. b i * z ^ i)"
    using polyfun_linear_factor_root by blast
  then show ?thesis
    using that[of "\<lambda>x. \<Sum>i<k. b i * x ^ i"] c unfolding degree_lt_def by auto
qed

text \<open>A polynomial with as many distinct roots as coefficients is zero everywhere.\<close>

lemma degree_lt_roots_zero:
  "degree_lt k f \<Longrightarrow> length ps = k \<Longrightarrow> distinct ps \<Longrightarrow> (\<And>p. p \<in> set ps \<Longrightarrow> f p = 0) \<Longrightarrow> f x = 0"
proof (induction ps arbitrary: k f)
  case Nil
  then show ?case by (simp add: degree_lt_def)
next
  case (Cons p ps)
  from Cons.prems have deg: "degree_lt (Suc (length ps)) f" and fp: "f p = 0" by auto
  obtain g where g: "degree_lt (length ps) g" and fg: "\<And>x. f x = (x - p) * g x"
    using degree_lt_root_factor[OF deg fp] by blast
  have "g q = 0" if "q \<in> set ps" for q
  proof -
    have "f q = 0" and "q \<noteq> p" using Cons.prems that by auto
    then show ?thesis using fg[of q] by simp
  qed
  then have "g x = 0" using Cons.IH[OF g] Cons.prems(3) by simp
  then show ?case by (simp add: fg)
qed

definition lag_basis :: "'a::field list \<Rightarrow> nat \<Rightarrow> 'a \<Rightarrow> 'a" where
  "lag_basis ps i x =
     (\<Prod>j\<in>{..<length ps} - {i}. x - ps ! j) / (\<Prod>j\<in>{..<length ps} - {i}. ps ! i - ps ! j)"

definition lag_interp :: "'a::field list \<Rightarrow> (nat \<Rightarrow> 'a) \<Rightarrow> 'a \<Rightarrow> 'a" where
  "lag_interp ps ys x = (\<Sum>i<length ps. ys i * lag_basis ps i x)"

lemma degree_lt_lag_basis:
  assumes "i < length ps"
  shows "degree_lt (length ps) (lag_basis ps i)"
proof -
  let ?S = "{..<length ps} - {i}"
  have "Suc (card ?S) = length ps" using assms by simp
  then have "degree_lt (length ps) (\<lambda>x. inverse (\<Prod>j\<in>?S. ps ! i - ps ! j) * (\<Prod>j\<in>?S. x - ps ! j))"
    using degree_lt_scale[OF degree_lt_prod[of ?S "\<lambda>j. ps ! j"]] by simp
  then show ?thesis
    by (simp add: lag_basis_def[abs_def] divide_inverse mult.commute)
qed

lemma degree_lt_lag_interp: "degree_lt (length ps) (lag_interp ps ys)"
  unfolding lag_interp_def[abs_def]
  by (rule degree_lt_sum) (simp add: degree_lt_scale degree_lt_lag_basis)

lemma lag_basis_at_point:
  assumes "distinct ps" and "i < length ps" and "k < length ps"
  shows "lag_basis ps i (ps ! k) = (if i = k then 1 else 0)"
proof (cases "i = k")
  case True
  have "(\<Prod>j\<in>{..<length ps} - {k}. ps ! k - ps ! j) \<noteq> 0"
    using assms by (auto simp: nth_eq_iff_index_eq)
  with True show ?thesis by (simp add: lag_basis_def)
next
  case False
  then have "(\<Prod>j\<in>{..<length ps} - {i}. ps ! k - ps ! j) = 0"
    using assms by (intro prod_zero) auto
  with False show ?thesis by (simp add: lag_basis_def)
qed

lemma lag_interp_at_point:
  assumes "distinct ps" and "k < length ps"
  shows "lag_interp ps ys (ps ! k) = ys k"
proof -
  have "lag_interp ps ys (ps ! k) = (\<Sum>i<length ps. if i = k then ys i else 0)"
    unfolding lag_interp_def by (rule sum.cong) (use assms in \<open>auto simp: lag_basis_at_point\<close>)
  then show ?thesis using assms by simp
qed

text \<open>Interpolating a polynomial of degree below the number of points gives it back.\<close>

lemma lag_interp_unique:
  assumes "degree_lt (length ps) f" and "distinct ps"
  shows "lag_interp ps (\<lambda>i. f (ps ! i)) x = f x"
proof -
  let ?d = "\<lambda>x. f x + (- 1) * lag_interp ps (\<lambda>i. f (ps ! i)) x"
  have "degree_lt (length ps) ?d"
    by (intro degree_lt_add degree_lt_scale assms degree_lt_lag_interp)
  moreover have "?d p = 0" if "p \<in> set ps" for p
  proof -
    obtain k where "k < length ps" and "p = ps ! k" using \<open>p \<in> set ps\<close> by (metis in_set_conv_nth)
    then show ?thesis using assms(2) by (simp add: lag_interp_at_point)
  qed
  ultimately have "?d x = 0" using degree_lt_roots_zero[of "length ps" ?d ps] assms(2) by blast
  then show ?thesis by simp
qed

text \<open>
  The interpolant through \<open>ps\<close> does not depend on the points it is rebuilt from: taking the
  values of one interpolant at any other \<open>length ps\<close> distinct points and interpolating again
  gives the same function.
\<close>

lemma lag_interp_resample:
  assumes "distinct qs" and "length qs = length ps"
  shows "lag_interp qs (\<lambda>i. lag_interp ps ys (qs ! i)) x = lag_interp ps ys x"
proof (rule lag_interp_unique [where f = "lag_interp ps ys"])
  show "degree_lt (length qs) (lag_interp ps ys)"
    unfolding assms(2) by (rule degree_lt_lag_interp)
qed (fact assms(1))

end
