(* ===== verification/Gf16.thy ===== *)
theory Gf16
  imports Braid_Base Lagrange
begin

text \<open>
  The field arithmetic of the erasure code (\<open>secure_mesh_mlkem_braid/erasure_gf.rs\<close>): the
  carry-less product modulo x^16 + x^12 + x^3 + x + 1, inversion by exponentiation and the
  batched inversion with one field inversion. The theory shows that these routines are the
  operations of a field on all 2^16 values, which makes \<open>gf\<close> an instance of the library's
  \<open>field\<close>.
\<close>

section \<open>The code\<close>

text \<open>One iteration of the loop of \<open>gf_mul\<close>, over \<open>(left, right, product)\<close>.\<close>

definition gf_mul_step :: "u32 \<times> u16 \<times> u32 \<Rightarrow> u32 \<times> u16 \<times> u32" where
  "gf_mul_step s = (case s of (left, right, product) \<Rightarrow>
     let product = (if right AND 1 \<noteq> 0 then product XOR left else product);
         right = drop_bit 1 right;
         carry = left AND 0x8000;
         left = push_bit 1 left AND 0xffff;
         left = (if carry \<noteq> 0 then left XOR GF_REDUCTION_POLYNOMIAL else left)
     in (left, right, product))"

definition gf_mul :: "u16 \<Rightarrow> u16 \<Rightarrow> u16" where
  "gf_mul left right = (case (gf_mul_step ^^ 16) (ucast left, right, 0) of (_, _, product) \<Rightarrow> ucast product)"

text \<open>The square-and-multiply loop of \<open>gf_inverse\<close>.\<close>

fun gf_power_loop :: "nat \<Rightarrow> u16 \<Rightarrow> u16 \<Rightarrow> u16" where
  "gf_power_loop exponent base result =
     (if exponent = 0 then result
      else gf_power_loop (exponent div 2) (gf_mul base base)
             (if odd exponent then gf_mul result base else result))"

declare gf_power_loop.simps [simp del]

definition gf_inverse :: "u16 \<Rightarrow> u16 braid_result" where
  "gf_inverse v = ensure (v \<noteq> 0) FieldInverseOfZero (Inr (gf_power_loop 65534 v 1))"

text \<open>The forward pass of \<open>batch_inverse_into\<close>: all prefix products.\<close>

fun gf_prefixes :: "u16 list \<Rightarrow> u16 list \<Rightarrow> u16 list" where
  "gf_prefixes prefixes [] = prefixes"
| "gf_prefixes prefixes (v # vs) =
     gf_prefixes (prefixes @ [gf_mul (if prefixes = [] then 1 else last prefixes) v]) vs"

text \<open>The backward pass, from the last index down.\<close>

fun batch_inverse_back :: "nat \<Rightarrow> u16 list \<Rightarrow> u16 list \<Rightarrow> u16 \<Rightarrow> u16 list \<Rightarrow> u16 list" where
  "batch_inverse_back 0 vs prefixes inverse_product out = out"
| "batch_inverse_back (Suc i) vs prefixes inverse_product out =
     batch_inverse_back i vs prefixes (gf_mul inverse_product (vs ! i))
       (out[i := gf_mul inverse_product (prefixes ! i)])"

definition batch_inverse_into :: "u16 list \<Rightarrow> u16 list braid_result" where
  "batch_inverse_into vs =
     (if vs = [] then Inr []
      else ensure (\<forall>v\<in>set vs. v \<noteq> 0) FieldDenominatorIsZero
        (let prefixes = gf_prefixes [1] vs in
         and_then (gf_inverse (last prefixes)) (\<lambda>inverse_product.
           Inr (batch_inverse_back (length vs) vs prefixes inverse_product (replicate (length vs) 0)))))"

definition batch_inverse :: "u16 list \<Rightarrow> u16 list braid_result" where
  "batch_inverse vs = batch_inverse_into vs"

text \<open>
  \<open>combine_codewords\<close>: symbol \<open>s\<close> of a codeword is its bytes \<open>2s\<close> and \<open>2s + 1\<close>; reading
  them panics where the codeword is too short.
\<close>

definition codeword_symbol :: "bytes \<Rightarrow> nat \<Rightarrow> u16" where
  "codeword_symbol cw s = u16_from_be (cw ! (s * 2)) (cw ! (s * 2 + 1))"

definition combine_symbol :: "bytes list \<Rightarrow> u16 list \<Rightarrow> nat \<Rightarrow> u16" where
  "combine_symbol codewords coefficients s =
     foldl (\<lambda>acc (cw, c). acc XOR gf_mul (codeword_symbol cw s) c) 0 (zip codewords coefficients)"

definition combine_codewords :: "bytes list \<Rightarrow> u16 list \<Rightarrow> bytes braid_result" where
  "combine_codewords codewords coefficients =
     (if \<forall>(cw, c)\<in>set (zip codewords coefficients). ML_KEM_BRAID_CHUNK_BYTES \<le> length cw
      then Inr (concat (map (\<lambda>s. u16_to_be (combine_symbol codewords coefficients s))
                  [0..<ML_KEM_BRAID_CHUNK_BYTES div 2]))
      else Inl Panic)"

section \<open>Multiplication by x and the product as a sum\<close>

declare push_bit_Suc [simp del] drop_bit_Suc [simp del] push_bit_of_1 [simp del]

definition xtime :: "u16 \<Rightarrow> u16" where
  "xtime a = push_bit 1 a XOR (if bit a 15 then 0x100b else 0)"

fun xsum :: "nat \<Rightarrow> u16 \<Rightarrow> u16 \<Rightarrow> u16" where
  "xsum 0 a b = 0"
| "xsum (Suc n) a b = xsum n a b XOR (if bit b n then (xtime ^^ n) a else 0)"

lemma xtime_xor: "xtime (a XOR b) = xtime a XOR xtime b"
  by (rule bit_word_eqI) (auto simp: xtime_def bit_simps)

lemma xtime_0 [simp]: "xtime 0 = 0"
  by (simp add: xtime_def)

lemma xtime_pow_xor: "(xtime ^^ n) (a XOR b) = (xtime ^^ n) a XOR (xtime ^^ n) b"
  by (induction n) (simp_all add: xtime_xor)

lemma xtime_pow_0 [simp]: "(xtime ^^ n) 0 = 0"
  by (induction n) simp_all

lemma gf_mul_step_eq:
  "gf_mul_step (ucast l, r, ucast p) =
     (ucast (xtime l), drop_bit 1 r, ucast (if bit r 0 then p XOR l else p))"
proof -
  have right: "(r AND 1 \<noteq> 0) = bit r 0"
    by (simp add: and_one_eq bit_0 odd_iff_mod_2_eq_one)
  have carry: "((ucast l :: u32) AND 0x8000 \<noteq> 0) = bit l 15"
  proof -
    have "((ucast l :: u32) AND 2 ^ 15 = 0) = (\<not> bit (ucast l :: u32) 15)"
      by (rule and_exp_eq_0_iff_not_bit)
    then show ?thesis by (simp add: bit_simps)
  qed
  have left: "push_bit 1 (ucast l :: u32) AND 0xffff = ucast (push_bit 1 l)"
  proof (rule bit_word_eqI)
    fix n assume "n < LENGTH(32)"
    have ffff: "(0xffff :: u32) = mask 16" by (simp add: mask_eq_exp_minus_1)
    show "bit (push_bit 1 (ucast l :: u32) AND 0xffff) n = bit (ucast (push_bit 1 l) :: u32) n"
      unfolding ffff bit_and_iff bit_mask_iff
      using \<open>n < LENGTH(32)\<close> by (auto simp: bit_simps dest: bit_imp_le_length)
  qed
  have poly: "(ucast a :: u32) XOR GF_REDUCTION_POLYNOMIAL = ucast (a XOR 0x100b)" for a :: u16
  proof -
    have "(0x100b :: u32) = ucast (0x100b :: u16)" by simp
    then show ?thesis unfolding GF_REDUCTION_POLYNOMIAL_def by (simp add: unsigned_xor_eq)
  qed
  have xor: "(ucast p :: u32) XOR ucast l = ucast (p XOR l)"
    by (simp add: unsigned_xor_eq)
  show ?thesis
    by (simp only: gf_mul_step_def Let_def prod.case right carry left poly xor xtime_def)
      (simp add: xor.right_neutral)
qed

lemma gf_mul_loop_eq:
  "(gf_mul_step ^^ n) (ucast l, r, 0) = (ucast ((xtime ^^ n) l), drop_bit n r, ucast (xsum n l r))"
proof (induction n)
  case 0
  then show ?case by simp
next
  case (Suc n)
  have b: "bit (drop_bit n r) 0 = bit r n" by (simp add: bit_simps)
  have "(gf_mul_step ^^ Suc n) (ucast l, r, 0) =
      gf_mul_step (ucast ((xtime ^^ n) l), drop_bit n r, ucast (xsum n l r))"
    using Suc by simp
  also have "\<dots> = (ucast ((xtime ^^ Suc n) l), drop_bit (Suc n) r, ucast (xsum (Suc n) l r))"
    unfolding gf_mul_step_eq b by (auto simp: drop_bit_drop_bit)
  finally show ?case .
qed

lemma gf_mul_xsum: "gf_mul a b = xsum 16 a b"
  unfolding gf_mul_def gf_mul_loop_eq by (simp add: ucast_up_ucast_id is_up)

section \<open>Ring laws\<close>

lemma xsum_xor_left: "xsum n (a XOR b) c = xsum n a c XOR xsum n b c"
  by (induction n) (simp_all add: xtime_pow_xor ac_simps)

lemma xsum_xor_right: "xsum n a (b XOR c) = xsum n a b XOR xsum n a c"
  by (induction n) (auto simp: bit_simps ac_simps)

lemma xsum_xtime_left: "xsum n (xtime a) b = xtime (xsum n a b)"
  by (induction n) (simp_all add: xtime_xor funpow_swap1)

lemma xsum_0_right [simp]: "xsum n a 0 = 0"
  by (induction n) simp_all

lemma xsum_0_left [simp]: "xsum n 0 a = 0"
  by (induction n) simp_all

lemma xsum_unit:
  assumes "i < 16"
  shows "xsum n a (push_bit i 1) = (if i < n then (xtime ^^ i) a else 0)"
proof (induction n)
  case (Suc n)
  have "bit (push_bit i 1 :: u16) n = (n = i)"
    using assms by (auto simp: bit_simps)
  with Suc show ?case by auto
qed simp

lemma gf_mul_xor_left: "gf_mul (a XOR b) c = gf_mul a c XOR gf_mul b c"
  by (simp add: gf_mul_xsum xsum_xor_left)

lemma gf_mul_xor_right: "gf_mul a (b XOR c) = gf_mul a b XOR gf_mul a c"
  by (simp add: gf_mul_xsum xsum_xor_right)

lemma gf_mul_zero [simp]: "gf_mul 0 a = 0" "gf_mul a 0 = 0"
  by (simp_all add: gf_mul_xsum)

lemma gf_mul_unit: "i < 16 \<Longrightarrow> gf_mul a (push_bit i 1) = (xtime ^^ i) a"
  by (simp add: gf_mul_xsum xsum_unit)

lemma gf_mul_xtime_left: "gf_mul (xtime a) b = xtime (gf_mul a b)"
  by (simp add: gf_mul_xsum xsum_xtime_left)

lemma gf_mul_xtime_pow_left: "gf_mul ((xtime ^^ n) a) b = (xtime ^^ n) (gf_mul a b)"
  by (induction n) (simp_all add: gf_mul_xtime_left)

text \<open>Two additive functions that agree on the single bits agree everywhere.\<close>

lemma u16_xor_induct [case_names zero unit xor]:
  fixes w :: u16
  assumes zero: "P 0" and unit: "\<And>i. i < 16 \<Longrightarrow> P (push_bit i 1)"
    and xor: "\<And>a b. P a \<Longrightarrow> P b \<Longrightarrow> P (a XOR b)"
  shows "P w"
proof -
  have "n \<le> 16 \<Longrightarrow> P (take_bit n w)" for n
  proof (induction n)
    case 0
    then show ?case by (simp add: zero)
  next
    case (Suc n)
    have "take_bit (Suc n) w = take_bit n w XOR (if bit w n then push_bit n 1 else 0)"
      by (rule bit_word_eqI) (auto simp: bit_simps less_Suc_eq)
    moreover have "P (if bit w n then push_bit n 1 else 0)"
      using Suc.prems by (simp add: zero unit)
    ultimately show ?case using Suc by (simp only: xor Suc_leD)
  qed
  from this[of 16] show ?thesis by (simp add: take_bit_word_eq_self)
qed

lemma xtime_unit:
  assumes "Suc i < 16"
  shows "xtime (push_bit i 1) = push_bit (Suc i) 1"
proof -
  have "\<not> bit (push_bit i 1 :: u16) 15" using assms by (auto simp: bit_simps)
  then show ?thesis by (simp add: xtime_def)
qed

lemma xtime_pow_one: "i < 16 \<Longrightarrow> (xtime ^^ i) 1 = push_bit i 1"
  by (induction i) (simp_all add: xtime_unit push_bit_of_1[of 0])

lemma gf_mul_unit_left:
  assumes "i < 16"
  shows "gf_mul (push_bit i 1) b = (xtime ^^ i) b"
proof (induction b rule: u16_xor_induct)
  case (unit j)
  have "gf_mul (push_bit i 1) (push_bit j 1) = (xtime ^^ j) ((xtime ^^ i) 1)"
    using unit assms by (simp add: gf_mul_unit xtime_pow_one)
  also have "\<dots> = (xtime ^^ i) ((xtime ^^ j) 1)"
    by (simp add: add.commute flip: funpow_add[THEN fun_cong, unfolded comp_apply])
  finally show ?case using unit by (simp add: xtime_pow_one)
qed (simp_all add: gf_mul_xor_right xtime_pow_xor)

lemma gf_mul_commute: "gf_mul a b = gf_mul b a"
proof (induction a rule: u16_xor_induct)
  case (unit i)
  then show ?case by (simp add: gf_mul_unit gf_mul_unit_left)
qed (simp_all add: gf_mul_xor_right gf_mul_xor_left)

lemma gf_mul_assoc: "gf_mul (gf_mul a b) c = gf_mul a (gf_mul b c)"
proof (induction c rule: u16_xor_induct)
  case (unit i)
  have "gf_mul a ((xtime ^^ i) b) = (xtime ^^ i) (gf_mul a b)"
    by (metis gf_mul_commute gf_mul_xtime_pow_left)
  with unit show ?case by (simp add: gf_mul_unit)
qed (simp_all add: gf_mul_xor_right)

lemma gf_mul_one [simp]: "gf_mul a 1 = a" "gf_mul 1 a = a"
  using gf_mul_unit[of 0 a] gf_mul_unit_left[of 0 a] by simp_all


section \<open>Every nonzero value is invertible\<close>

text \<open>
  Squaring is additive. The square map iterated 16 times fixes the single bits, hence
  everything: a^65536 = a. Its difference with the identity, v^2 + v, has kernel {0, 1},
  which the matrix \<open>artin_schreier_inverse\<close> shows: applied to v^2 + v it gives back all
  bits of v but the lowest. So the idempotent a^65535 is 0 or 1, and it is 0 only for a = 0.
\<close>

definition gf_square :: "u16 \<Rightarrow> u16" where
  "gf_square a = gf_mul a a"

lemma gf_square_xor: "gf_square (a XOR b) = gf_square a XOR gf_square b"
  by (simp add: gf_square_def gf_mul_xor_left gf_mul_xor_right gf_mul_commute ac_simps)

lemma gf_square_mul: "gf_square (gf_mul a b) = gf_mul (gf_square a) (gf_square b)"
  unfolding gf_square_def by (metis gf_mul_assoc gf_mul_commute)

lemma gf_square_pow_xor: "(gf_square ^^ n) (a XOR b) = (gf_square ^^ n) a XOR (gf_square ^^ n) b"
  by (induction n) (simp_all add: gf_square_xor)

lemma gf_square_pow_mul: "(gf_square ^^ n) (gf_mul a b) = gf_mul ((gf_square ^^ n) a) ((gf_square ^^ n) b)"
  by (induction n) (simp_all add: gf_square_mul)

lemma gf_square_pow_zero [simp]: "(gf_square ^^ n) 0 = 0"
  by (induction n) (simp_all add: gf_square_def)

lemma gf_square_pow_one [simp]: "(gf_square ^^ n) 1 = 1"
  by (induction n) (simp_all add: gf_square_def)

lemma gf_square_chain:
  "gf_square 2 = 4" "gf_square 4 = 16" "gf_square 16 = 256" "gf_square 256 = 4107"
  "gf_square 4107 = 7166" "gf_square 7166 = 23588" "gf_square 23588 = 58951"
  "gf_square 58951 = 2863" "gf_square 2863 = 5790" "gf_square 5790 = 2680"
  "gf_square 2680 = 6016" "gf_square 6016 = 6951" "gf_square 6951 = 3429"
  "gf_square 3429 = 22093" "gf_square 22093 = 61638" "gf_square 61638 = 2"
  by code_simp+

lemma gf_square_16_x: "(gf_square ^^ 16) 2 = 2"
  by (simp add: eval_nat_numeral gf_square_chain)


lemma xtime_gf_mul: "xtime a = gf_mul 2 a"
proof -
  have "push_bit 1 (1 :: u16) = 2" by (simp add: push_bit_of_1)
  then show ?thesis using gf_mul_unit_left[of 1 a] by simp
qed

lemma gf_square_16: "(gf_square ^^ 16) a = a"
proof (induction a rule: u16_xor_induct)
  case (unit i)
  have "(gf_square ^^ 16) ((xtime ^^ n) 1) = (xtime ^^ n) 1" for n
    by (induction n) (simp_all add: xtime_gf_mul gf_square_pow_mul gf_square_16_x)
  from this[of i] unit show ?case by (simp add: xtime_pow_one)
qed (simp_all add: gf_square_pow_xor)

primrec xor_columns :: "u16 list \<Rightarrow> u16 \<Rightarrow> u16" where
  "xor_columns [] w = 0"
| "xor_columns (c # cs) w = (if bit w 0 then c else 0) XOR xor_columns cs (drop_bit 1 w)"

definition artin_schreier_inverse :: "u16 \<Rightarrow> u16" where
  "artin_schreier_inverse = xor_columns
     [350, 42420, 42422, 7412, 42418, 10272, 7420, 1328, 42402, 38610, 10240, 5068, 7356, 0, 1456, 21936]"

lemma xor_columns_xor: "xor_columns cs (a XOR b) = xor_columns cs a XOR xor_columns cs b"
  by (induction cs arbitrary: a b) (auto simp: bit_simps ac_simps drop_bit_xor)

lemma xor_columns_zero [simp]: "xor_columns cs 0 = 0"
  by (induction cs) simp_all

lemma artin_schreier_bits:
  "artin_schreier_inverse (gf_square 1 XOR 1) = 0"
  "artin_schreier_inverse (gf_square 2 XOR 2) = 2"
  "artin_schreier_inverse (gf_square 4 XOR 4) = 4"
  "artin_schreier_inverse (gf_square 8 XOR 8) = 8"
  "artin_schreier_inverse (gf_square 16 XOR 16) = 16"
  "artin_schreier_inverse (gf_square 32 XOR 32) = 32"
  "artin_schreier_inverse (gf_square 64 XOR 64) = 64"
  "artin_schreier_inverse (gf_square 128 XOR 128) = 128"
  "artin_schreier_inverse (gf_square 256 XOR 256) = 256"
  "artin_schreier_inverse (gf_square 512 XOR 512) = 512"
  "artin_schreier_inverse (gf_square 1024 XOR 1024) = 1024"
  "artin_schreier_inverse (gf_square 2048 XOR 2048) = 2048"
  "artin_schreier_inverse (gf_square 4096 XOR 4096) = 4096"
  "artin_schreier_inverse (gf_square 8192 XOR 8192) = 8192"
  "artin_schreier_inverse (gf_square 16384 XOR 16384) = 16384"
  "artin_schreier_inverse (gf_square 32768 XOR 32768) = 32768"
  by code_simp+

lemma artin_schreier_units:
  assumes "i < 16"
  shows "artin_schreier_inverse (gf_square (push_bit i 1) XOR push_bit i 1) = (if i = 0 then 0 else push_bit i 1)"
proof -
  let ?bits = "[0, 1, 2, 3, 4, 5, 6, 7, 8, 9, 10, 11, 12, 13, 14, 15 :: nat]"
  have "[0..<16] = ?bits" by code_simp
  then have "i \<in> set ?bits" using assms by (metis atLeast0LessThan lessThan_iff set_upt)
  then show ?thesis
    by (auto simp: push_bit_of_1 artin_schreier_bits)
qed

lemma artin_schreier: "artin_schreier_inverse (gf_square v XOR v) = v AND NOT 1"
proof (induction v rule: u16_xor_induct)
  case zero
  then show ?case by (simp add: artin_schreier_inverse_def gf_square_def)
next
  case (unit i)
  have "push_bit i 1 AND NOT 1 = (if i = 0 then 0 else push_bit i (1 :: u16))"
    by (rule bit_word_eqI) (auto simp: bit_simps)
  with unit artin_schreier_units show ?case by simp
next
  case (xor a b)
  have "gf_square (a XOR b) XOR (a XOR b) = (gf_square a XOR a) XOR (gf_square b XOR b)"
    by (simp add: gf_square_xor ac_simps)
  then have "artin_schreier_inverse (gf_square (a XOR b) XOR (a XOR b)) = (a AND NOT 1) XOR (b AND NOT 1)"
    using xor by (simp add: artin_schreier_inverse_def xor_columns_xor)
  also have "\<dots> = (a XOR b) AND NOT 1"
    by (rule bit_word_eqI) (auto simp: bit_simps)
  finally show ?case .
qed

lemma gf_idempotent:
  assumes "gf_square e = e"
  shows "e = 0 \<or> e = 1"
proof -
  have clear: "e AND NOT 1 = 0"
    using artin_schreier[of e] assms by (simp add: artin_schreier_inverse_def)
  have "\<not> bit e n" if "n \<noteq> 0" for n
  proof
    assume "bit e n"
    with that have "bit (e AND NOT 1) n"
      by (auto simp: bit_simps dest: bit_imp_le_length)
    with clear show False by simp
  qed
  then have "e = of_bool (bit e 0)"
    by (intro bit_word_eqI) (metis bit_of_bool_iff)
  then show ?thesis by (cases "bit e 0") auto
qed

section \<open>The field instance\<close>

text \<open>
  \<open>gf\<close> wraps the values of the code so that the library's algebra applies to them: addition
  is XOR and multiplication is \<open>gf_mul\<close>.
\<close>

datatype gf = GF (raw: u16)

instantiation gf :: comm_ring_1
begin

definition zero_gf :: gf where "0 = GF 0"
definition one_gf :: gf where "1 = GF 1"
definition plus_gf :: "gf \<Rightarrow> gf \<Rightarrow> gf" where "a + b = GF (raw a XOR raw b)"
definition minus_gf :: "gf \<Rightarrow> gf \<Rightarrow> gf" where "a - b = GF (raw a XOR raw b)"
definition uminus_gf :: "gf \<Rightarrow> gf" where "- a = (a :: gf)"
definition times_gf :: "gf \<Rightarrow> gf \<Rightarrow> gf" where "a * b = GF (gf_mul (raw a) (raw b))"

instance
proof
  fix a b c :: gf
  show "a * b * c = a * (b * c)" by (simp add: times_gf_def gf_mul_assoc)
  show "a * b = b * a" by (simp add: times_gf_def gf_mul_commute)
  show "1 * a = a" by (simp add: times_gf_def one_gf_def)
  show "a + b + c = a + (b + c)" by (simp add: plus_gf_def ac_simps)
  show "a + b = b + a" by (simp add: plus_gf_def ac_simps)
  show "0 + a = a" by (simp add: plus_gf_def zero_gf_def)
  show "- a + a = 0" by (simp add: plus_gf_def uminus_gf_def zero_gf_def)
  show "a - b = a + - b" by (simp add: plus_gf_def minus_gf_def uminus_gf_def)
  show "(a + b) * c = a * c + b * c" by (simp add: plus_gf_def times_gf_def gf_mul_xor_left)
  show "(0 :: gf) \<noteq> 1" by (simp add: zero_gf_def one_gf_def)
qed

end

lemma GF_xor: "GF (a XOR b) = GF a + GF b"
  by (simp add: plus_gf_def)

lemma GF_xor_minus: "GF (a XOR b) = GF a - GF b"
  by (simp add: minus_gf_def)

lemma GF_mul: "GF (gf_mul a b) = GF a * GF b"
  by (simp add: times_gf_def)

lemma GF_zero: "GF 0 = 0" and GF_one: "GF 1 = 1"
  by (simp_all add: zero_gf_def one_gf_def)

lemma GF_raw [simp]: "GF (raw x) = x"
  by (cases x) simp

lemma raw_one [simp]: "raw 1 = 1" and raw_zero [simp]: "raw 0 = 0"
  by (simp_all add: one_gf_def zero_gf_def)

lemma raw_times: "raw (a * b) = gf_mul (raw a) (raw b)"
  by (simp add: times_gf_def)

lemma GF_eq_0_iff [simp]: "GF a = 0 \<longleftrightarrow> a = 0"
  by (simp add: zero_gf_def)

lemmas GF_hom = GF_xor GF_mul GF_zero GF_one

lemma GF_square_pow: "GF ((gf_square ^^ n) a) = GF a ^ (2 ^ n)"
  by (induction n) (simp_all add: gf_square_def GF_mul mult_2 power_add)

lemma gf_power_65535:
  assumes "a \<noteq> (0 :: gf)"
  shows "a ^ 65535 = 1"
proof -
  obtain x where x: "a = GF x" by (cases a)
  have whole: "a ^ 65536 = a"
    using GF_square_pow[of 16 x] by (simp only: gf_square_16 x) simp
  define e where "e = raw (a ^ 65535)"
  have e: "GF e = a ^ 65535" by (simp add: e_def)
  have "GF (gf_square e) = a ^ 65536 * a ^ 65534"
    by (simp add: gf_square_def GF_mul e flip: power_add)
  also have "\<dots> = a * a ^ 65534" by (simp only: whole)
  also have "\<dots> = a ^ 65535" by (simp flip: power_Suc)
  finally have "gf_square e = e" using e by (metis gf.inject)
  then consider "e = 0" | "e = 1" using gf_idempotent by blast
  then show ?thesis
  proof cases
    case 1
    then have "a * a ^ 65535 = 0" using e by (simp add: GF_zero)
    then have "a ^ 65536 = 0" by (simp flip: power_Suc)
    with whole assms show ?thesis by simp
  next
    case 2
    with e show ?thesis by (simp add: GF_one)
  qed
qed


section \<open>Inversion\<close>

lemma GF_power_loop: "GF (gf_power_loop n b r) = GF r * GF b ^ n"
proof (induction n b r rule: gf_power_loop.induct)
  case (1 n b r)
  show ?case
  proof (cases "n = 0")
    case True
    then show ?thesis by (subst gf_power_loop.simps) simp
  next
    case False
    have "GF b ^ n = (GF b * GF b) ^ (n div 2) * (if odd n then GF b else 1)"
    proof -
      have "n = 2 * (n div 2) + (if odd n then 1 else 0)" by presburger
      then have "GF b ^ n = GF b ^ (2 * (n div 2)) * GF b ^ (if odd n then 1 else 0)"
        by (metis power_add)
      then show ?thesis by (simp add: power_mult power2_eq_square)
    qed
    then show ?thesis
      using False 1 by (simp add: gf_power_loop.simps[of n b r] GF_mul ac_simps)
  qed
qed

definition inverse_of :: "u16 \<Rightarrow> u16" where
  "inverse_of a = (if a = 0 then 0 else gf_power_loop 65534 a 1)"

lemma gf_mul_inverse:
  assumes "a \<noteq> 0"
  shows "GF (gf_power_loop 65534 a 1) * GF a = 1"
proof -
  have "GF (gf_power_loop 65534 a 1) * GF a = GF a ^ 65535"
    by (simp add: GF_power_loop GF_one flip: power_Suc2)
  then show ?thesis using assms by (simp add: gf_power_65535)
qed

instantiation gf :: field
begin

definition inverse_gf :: "gf \<Rightarrow> gf" where "inverse a = GF (inverse_of (raw a))"
definition divide_gf :: "gf \<Rightarrow> gf \<Rightarrow> gf" where "a div b = a * inverse (b :: gf)"

instance
proof
  fix a b :: gf
  show "a \<noteq> 0 \<Longrightarrow> inverse a * a = 1"
    by (cases a) (simp add: inverse_gf_def inverse_of_def gf_mul_inverse)
  show "a div b = a * inverse b" by (simp add: divide_gf_def)
  show "inverse (0 :: gf) = 0" by (simp add: inverse_gf_def inverse_of_def zero_gf_def)
qed

end

lemma gf_inverse_eq: "gf_inverse v = (if v = 0 then Inl FieldInverseOfZero else Inr (raw (inverse (GF v))))"
  by (simp add: gf_inverse_def inverse_gf_def inverse_of_def)

text \<open>
  The batched inversion computes every inverse. The prefix products are the products of the
  initial segments, and the running inverse product of the backward pass at index \<open>i\<close> is the
  inverse of the product of the first \<open>i\<close> values.
\<close>

lemma gf_prefixes_eq:
  "prefixes \<noteq> [] \<Longrightarrow> gf_prefixes prefixes vs =
     prefixes @ map (\<lambda>i. raw (GF (last prefixes) * prod_list (map GF (take (Suc i) vs)))) [0..<length vs]"
proof (induction prefixes vs rule: gf_prefixes.induct)
  case (2 prefixes v vs)
  have "[0..<length (v # vs)] = 0 # map Suc [0..<length vs]" by (simp add: map_Suc_upt upt_conv_Cons del: upt_Suc)
  then show ?case
    using 2 by (simp add: GF_mul raw_times comp_def mult.assoc)
qed simp

lemma nth_gf_prefixes:
  assumes "i \<le> length vs"
  shows "gf_prefixes [1] vs ! i = raw (prod_list (map GF (take i vs)))"
  using assms by (cases i) (simp_all add: gf_prefixes_eq GF_one nth_append)

lemma length_gf_prefixes: "length (gf_prefixes [1] vs) = Suc (length vs)"
  by (simp add: gf_prefixes_eq)

lemma batch_inverse_back_eq:
  assumes nz: "\<forall>v\<in>set vs. v \<noteq> 0"
  shows "i \<le> length vs \<Longrightarrow> length out = length vs \<Longrightarrow>
    GF ip * prod_list (map GF (take i vs)) = 1 \<Longrightarrow>
    batch_inverse_back i vs (gf_prefixes [1] vs) ip out =
      map (\<lambda>v. raw (inverse (GF v))) (take i vs) @ drop i out"
proof (induction i arbitrary: ip out)
  case 0
  then show ?case by simp
next
  case (Suc i)
  let ?P = "prod_list (map GF (take i vs))"
  have i: "i < length vs" using Suc.prems by simp
  then have v: "GF (vs ! i) \<noteq> 0" using nz by (simp add: nth_mem)
  have tk: "take (Suc i) vs = take i vs @ [vs ! i]" using i by (rule take_Suc_conv_app_nth)
  have eq: "GF ip * (?P * GF (vs ! i)) = 1" using Suc.prems(3) by (simp add: tk)
  have inv: "GF (gf_mul ip (gf_prefixes [1] vs ! i)) = inverse (GF (vs ! i))"
    using eq v i by (simp add: nth_gf_prefixes GF_mul field_simps)
  have step: "GF (gf_mul ip (vs ! i)) * ?P = 1"
    using eq by (simp add: GF_mul ac_simps)
  have "batch_inverse_back (Suc i) vs (gf_prefixes [1] vs) ip out =
      map (\<lambda>v. raw (inverse (GF v))) (take i vs) @ drop i (out[i := gf_mul ip (gf_prefixes [1] vs ! i)])"
    using Suc.IH[OF _ _ step] i Suc.prems by simp
  also have "drop i (out[i := gf_mul ip (gf_prefixes [1] vs ! i)]) =
      raw (inverse (GF (vs ! i))) # drop (Suc i) out"
    using i Suc.prems(2) inv by (simp add: drop_update_swap Cons_nth_drop_Suc[symmetric]) (metis gf.sel)
  finally show ?case by (simp add: tk)
qed

lemma batch_inverse_eq:
  "batch_inverse vs =
     (if \<forall>v\<in>set vs. v \<noteq> 0 then Inr (map (\<lambda>v. raw (inverse (GF v))) vs) else Inl FieldDenominatorIsZero)"
proof (cases "(\<forall>v\<in>set vs. v \<noteq> 0) \<and> vs \<noteq> []")
  case True
  then have nz: "\<forall>v\<in>set vs. v \<noteq> 0" and ne: "vs \<noteq> []" by auto
  have "last (gf_prefixes [1] vs) = gf_prefixes [1] vs ! length vs"
    using length_gf_prefixes[of vs] by (metis diff_Suc_1 last_conv_nth list.size(3) nat.distinct(1))
  then have last: "last (gf_prefixes [1] vs) = raw (prod_list (map GF vs))"
    by (simp add: nth_gf_prefixes)
  have prod: "prod_list (map GF vs) \<noteq> 0" using nz by (auto simp: prod_list_zero_iff)
  then have rawnz: "raw (prod_list (map GF vs)) \<noteq> 0" by (metis GF_eq_0_iff gf.collapse)
  have "GF (raw (inverse (prod_list (map GF vs)))) * prod_list (map GF (take (length vs) vs)) = 1"
    using prod by simp
  from batch_inverse_back_eq[OF nz _ _ this, of "replicate (length vs) 0"]
  show ?thesis
    using nz ne rawnz by (simp add: batch_inverse_def batch_inverse_into_def last gf_inverse_eq Let_def ensure_def)
next
  case False
  then show ?thesis by (auto simp: batch_inverse_def batch_inverse_into_def ensure_def)
qed


section \<open>Properties\<close>

text \<open>
  The arithmetic of the erasure code is that of a field. \<open>gf_mul\<close> is associative,
  commutative, distributes over XOR and has unit 1; \<open>gf_inverse\<close> refuses exactly zero and
  otherwise returns the multiplicative inverse.
\<close>

theorem gf_field_arithmetic:
  "gf_mul (gf_mul a b) c = gf_mul a (gf_mul b c)
   \<and> gf_mul a b = gf_mul b a
   \<and> gf_mul a (b XOR c) = gf_mul a b XOR gf_mul a c
   \<and> gf_mul a 1 = a
   \<and> (case gf_inverse a of Inl e \<Rightarrow> a = 0 \<and> e = FieldInverseOfZero
        | Inr b \<Rightarrow> a \<noteq> 0 \<and> gf_mul a b = 1)"
proof -
  have "gf_mul a (raw (inverse (GF a))) = 1" if "a \<noteq> 0"
    using that gf_mul_inverse[OF that]
    by (metis GF_eq_0_iff GF_mul GF_one GF_raw gf.inject right_inverse)
  then have inverse: "case gf_inverse a of Inl e \<Rightarrow> a = 0 \<and> e = FieldInverseOfZero
        | Inr b \<Rightarrow> a \<noteq> 0 \<and> gf_mul a b = 1"
    by (simp add: gf_inverse_eq)
  show ?thesis
    by (intro conjI gf_mul_assoc gf_mul_commute gf_mul_xor_right inverse) simp
qed

text \<open>
  The batched inversion, which performs one field inversion for the whole slice, returns
  the pointwise inverses, and fails exactly when one of the values is zero.
\<close>

theorem batch_inverse_pointwise:
  "batch_inverse vs =
     (if 0 \<in> set vs then Inl FieldDenominatorIsZero
      else Inr (map (\<lambda>v. projr (gf_inverse v)) vs))"
proof -
  have "map (\<lambda>v. projr (gf_inverse v)) vs = map (\<lambda>v. raw (inverse (GF v))) vs" if "0 \<notin> set vs"
    using that by (intro map_cong) (auto simp: gf_inverse_eq)
  then show ?thesis by (auto simp: batch_inverse_eq)
qed

end
