(* ===== verification/Erasure.thy ===== *)
theory Erasure
  imports Gf16
begin

text \<open>
  The systematic erasure code of the braid: \<open>erasure_encoder.rs\<close>, \<open>erasure_decoder.rs\<close> and the
  chunk type of \<open>wire.rs\<close>. A message of \<open>k\<close> chunks of 32 bytes is the table of values, at the
  points 0 to k - 1, of 16 polynomials of degree below \<open>k\<close>; the encoder emits their values
  at the points 0, 1, 2, ... and the decoder rebuilds the message from any \<open>k\<close> of them.
\<close>

section \<open>The code\<close>

record braid_chunk =
  chunk_point :: u16
  chunk_bytes :: bytes

record encoder =
  enc_source :: "bytes list"
  enc_next_point :: u32
  enc_denominator_inverses :: "u16 list"

record decoder =
  dec_message_bytes :: nat
  dec_chunks :: "(u16 \<times> bytes) list"
  dec_decoded :: "bytes option"

text \<open>\<open>chunks_exact(32)\<close>: the full chunks in order.\<close>

function chunks_exact :: "bytes \<Rightarrow> bytes list" where
  "chunks_exact xs =
     (if length xs < ML_KEM_BRAID_CHUNK_BYTES then []
      else take ML_KEM_BRAID_CHUNK_BYTES xs # chunks_exact (drop ML_KEM_BRAID_CHUNK_BYTES xs))"
  by pat_completeness auto
termination
  by (relation "measure length") (auto simp: braid_sizes)

declare chunks_exact.simps [simp del]

text \<open>The inner loops \<open>for other in 0..n { if other != index { .. } }\<close>.\<close>

definition skip_product :: "nat \<Rightarrow> (nat \<Rightarrow> u16) \<Rightarrow> nat \<Rightarrow> u16" where
  "skip_product n factor index =
     foldl (\<lambda>acc other. if other \<noteq> index then gf_mul acc (factor other) else acc) 1 [0..<n]"

definition encoder_message_bytes :: "encoder \<Rightarrow> nat" where
  "encoder_message_bytes enc = length (enc_source enc) * ML_KEM_BRAID_CHUNK_BYTES"

definition rebuild_cache :: "encoder \<Rightarrow> encoder braid_result" where
  "rebuild_cache enc =
     (let n = length (enc_source enc) in
      ensure (enc_source enc \<noteq> [] \<and> n \<le> MAX_SOURCE_CHUNKS) PersistedEncoderSourceCountInvalid
      (ensure (\<forall>c\<in>set (enc_source enc). length c = ML_KEM_BRAID_CHUNK_BYTES) PersistedEncoderChunkLengthInvalid
      (ensure (enc_next_point enc \<le> 0x10000) PersistedEncoderPointInvalid
      (and_then
        (batch_inverse (map (\<lambda>point. skip_product n (\<lambda>other. of_nat point XOR of_nat other) point) [0..<n]))
        (\<lambda>inverses. Inr (enc\<lparr>enc_denominator_inverses := inverses\<rparr>))))))"

definition encoder_new :: "bytes \<Rightarrow> encoder braid_result" where
  "encoder_new message =
     ensure (message \<noteq> [] \<and> length message mod ML_KEM_BRAID_CHUNK_BYTES = 0) ErasureMessageSizeInvalid
     (let source = chunks_exact message in
      ensure (length source \<le> MAX_SOURCE_CHUNKS) ErasureMessageExceedsLimit
      (rebuild_cache \<lparr>enc_source = source, enc_next_point = 0, enc_denominator_inverses = []\<rparr>))"

text \<open>
  \<open>evaluate\<close>: a source chunk as it is, any other point by the Lagrange form. The indexings of
  the coefficient array and of the cached inverses panic out of range.
\<close>

definition evaluate :: "encoder \<Rightarrow> u16 \<Rightarrow> bytes braid_result" where
  "evaluate enc point =
     (let source_count = length (enc_source enc) in
      if unat point < source_count
      then (let chunk = enc_source enc ! unat point in
            ensure (length chunk = ML_KEM_BRAID_CHUNK_BYTES) SourceChunkLengthInvalid (Inr chunk))
      else if source_count \<le> MAX_SOURCE_CHUNKS \<and> source_count \<le> length (enc_denominator_inverses enc)
      then combine_codewords (enc_source enc)
             (map (\<lambda>source_point.
                gf_mul (skip_product source_count (\<lambda>other. point XOR of_nat other) source_point)
                       (enc_denominator_inverses enc ! source_point)) [0..<source_count])
      else Inl Panic)"

definition next_chunk :: "encoder \<Rightarrow> (braid_chunk \<times> encoder) braid_result" where
  "next_chunk enc =
     ensure (enc_next_point enc \<le> 0xffff) ErasureDomainExhausted
     (let point = ucast (enc_next_point enc) in
      and_then (evaluate enc point) (\<lambda>bytes.
      ensure (enc_next_point enc \<noteq> - 1) ErasurePointOverflow
      (Inr (\<lparr>chunk_point = point, chunk_bytes = bytes\<rparr>,
            enc\<lparr>enc_next_point := enc_next_point enc + 1\<rparr>))))"

definition source_count :: "decoder \<Rightarrow> nat" where
  "source_count dec = dec_message_bytes dec div ML_KEM_BRAID_CHUNK_BYTES"

definition decoder_new :: "nat \<Rightarrow> decoder braid_result" where
  "decoder_new message_bytes =
     ensure (message_bytes \<noteq> 0 \<and> message_bytes mod ML_KEM_BRAID_CHUNK_BYTES = 0) DecoderMessageSizeInvalid
     (ensure (message_bytes div ML_KEM_BRAID_CHUNK_BYTES \<le> MAX_SOURCE_CHUNKS) DecoderExceedsLimit
     (Inr \<lparr>dec_message_bytes = message_bytes, dec_chunks = [], dec_decoded = None\<rparr>))"

fun decode_systematic :: "(u16 \<times> bytes) list \<Rightarrow> nat list \<Rightarrow> bytes braid_result" where
  "decode_systematic chunks [] = Inr []"
| "decode_systematic chunks (point # points) =
     and_then (ok_or SystematicChunkMissing (map_of chunks (of_nat point))) (\<lambda>c.
     and_then (decode_systematic chunks points) (\<lambda>rest. Inr (c @ rest)))"

text \<open>The interpolation of one missing target: differences, their inverses and coefficients.\<close>

definition interpolate_target :: "u16 list \<Rightarrow> bytes list \<Rightarrow> u16 list \<Rightarrow> u16 \<Rightarrow> bytes braid_result" where
  "interpolate_target points codewords weights target =
     (let differences = map (\<lambda>point. target XOR point) points in
      and_then (batch_inverse_into differences) (\<lambda>inverse_differences.
      (let all_differences = foldl gf_mul 1 differences in
       combine_codewords codewords
         (map (\<lambda>(weight, inverse). gf_mul (gf_mul weight all_differences) inverse)
           (zip weights inverse_differences)))))"

fun decode_targets ::
    "(u16 \<times> bytes) list \<Rightarrow> u16 list \<Rightarrow> nat list \<Rightarrow> bytes braid_result" where
  "decode_targets chunks weights [] = Inr []"
| "decode_targets chunks weights (target # targets) =
     and_then (case map_of chunks (of_nat target) of
         Some existing \<Rightarrow> Inr existing
       | None \<Rightarrow> interpolate_target (map fst chunks) (map snd chunks) weights (of_nat target)) (\<lambda>c.
     and_then (decode_targets chunks weights targets) (\<lambda>rest. Inr (c @ rest)))"

definition decode :: "decoder \<Rightarrow> bytes braid_result" where
  "decode dec =
     (let count = source_count dec; points = map fst (dec_chunks dec) in
      if list_all (\<lambda>point. map_of (dec_chunks dec) (of_nat point) \<noteq> None) [0..<count]
      then decode_systematic (dec_chunks dec) [0..<count]
      else and_then
        (batch_inverse (map (\<lambda>index. skip_product (length points) (\<lambda>other. points ! index XOR points ! other) index)
           [0..<length points]))
        (\<lambda>weights. decode_targets (dec_chunks dec) weights [0..<count]))"

definition add_chunk :: "decoder \<Rightarrow> braid_chunk \<Rightarrow> decoder braid_result" where
  "add_chunk dec chunk =
     ensure (dec_decoded dec = None) DecoderDataAfterCompletion
     (ensure (map_of (dec_chunks dec) (chunk_point chunk) = None) DuplicateErasureChunk
     (ensure (length (dec_chunks dec) < source_count dec) DecoderResourceLimitExceeded
     (let dec = dec\<lparr>dec_chunks := bt_insert (chunk_point chunk) (chunk_bytes chunk) (dec_chunks dec)\<rparr> in
      if length (dec_chunks dec) = source_count dec
      then and_then (decode dec) (\<lambda>message. Inr (dec\<lparr>dec_decoded := Some message\<rparr>))
      else Inr dec)))"

definition has_message :: "decoder \<Rightarrow> bool" where
  "has_message dec \<longleftrightarrow> dec_decoded dec \<noteq> None"

definition take_message :: "decoder \<Rightarrow> (bytes \<times> decoder) braid_result" where
  "take_message dec =
     and_then (ok_or MessageIncomplete (dec_decoded dec)) (\<lambda>message. Inr (message, dec\<lparr>dec_decoded := None\<rparr>))"

definition decoder_validate :: "decoder \<Rightarrow> unit braid_result" where
  "decoder_validate dec =
     ensure (dec_message_bytes dec \<noteq> 0 \<and> dec_message_bytes dec mod ML_KEM_BRAID_CHUNK_BYTES = 0
        \<and> source_count dec \<le> MAX_SOURCE_CHUNKS) PersistedDecoderSizeInvalid
     (ensure (length (dec_chunks dec) \<le> source_count dec
        \<and> (\<forall>(_, c)\<in>set (dec_chunks dec). length c = ML_KEM_BRAID_CHUNK_BYTES)) PersistedDecoderChunksInvalid
     (case dec_decoded dec of
        None \<Rightarrow> Inr ()
      | Some decoded \<Rightarrow>
          ensure (length decoded = dec_message_bytes dec \<and> length (dec_chunks dec) = source_count dec)
            PersistedDecodedMessageInvalid (Inr ())))"

definition validate_active :: "decoder \<Rightarrow> nat \<Rightarrow> unit braid_result" where
  "validate_active dec expected_bytes =
     and_then (decoder_validate dec) (\<lambda>_.
     ensure (dec_message_bytes dec = expected_bytes \<and> dec_decoded dec = None
        \<and> length (dec_chunks dec) < source_count dec) PersistedActiveDecoderInvalid (Inr ()))"

section \<open>Chunks and symbols\<close>

lemma chunks_exact_props:
  "length xs mod ML_KEM_BRAID_CHUNK_BYTES = 0 \<Longrightarrow>
     concat (chunks_exact xs) = xs \<and> (\<forall>c\<in>set (chunks_exact xs). length c = ML_KEM_BRAID_CHUNK_BYTES)"
proof (induction xs rule: chunks_exact.induct)
  case (1 xs)
  show ?case
  proof (cases "length xs < ML_KEM_BRAID_CHUNK_BYTES")
    case True
    then have "xs = []" using 1 by simp
    then show ?thesis by (subst (1 2) chunks_exact.simps) (simp add: braid_sizes)
  next
    case False
    then have "length (drop ML_KEM_BRAID_CHUNK_BYTES xs) mod ML_KEM_BRAID_CHUNK_BYTES = 0"
      using 1(2) by (simp add: le_mod_geq)
    note ih = 1(1)[OF False this]
    have eq: "chunks_exact xs = take ML_KEM_BRAID_CHUNK_BYTES xs # chunks_exact (drop ML_KEM_BRAID_CHUNK_BYTES xs)"
      using False by (subst chunks_exact.simps) simp
    have "length (take ML_KEM_BRAID_CHUNK_BYTES xs) = ML_KEM_BRAID_CHUNK_BYTES"
      using False by simp
    then show ?thesis
      by (simp only: eq concat.simps ih append_take_drop_id list.set ball_simps) (use ih in blast)
  qed
qed

lemma length_concat_chunks:
  "\<forall>c\<in>set cs. length c = n \<Longrightarrow> length (concat cs) = length cs * n"
  by (induction cs) simp_all

lemma length_chunks_exact:
  assumes "length xs mod ML_KEM_BRAID_CHUNK_BYTES = 0"
  shows "length (chunks_exact xs) = length xs div ML_KEM_BRAID_CHUNK_BYTES"
proof -
  have "length xs = length (chunks_exact xs) * ML_KEM_BRAID_CHUNK_BYTES"
    using chunks_exact_props[OF assms] length_concat_chunks by metis
  then show ?thesis by (metis ML_KEM_BRAID_CHUNK_BYTES_def nonzero_mult_div_cancel_right zero_neq_numeral)
qed

lemma concat_pairs_take:
  "2 * n \<le> length xs \<Longrightarrow> concat (map (\<lambda>s. [xs ! (s * 2), xs ! (s * 2 + 1)]) [0..<n]) = take (2 * n) xs"
proof (induction n)
  case (Suc n)
  then have "take (2 * Suc n) xs = take (2 * n) xs @ [xs ! (2 * n), xs ! Suc (2 * n)]"
    by (simp add: take_Suc_conv_app_nth)
  with Suc show ?case by (simp add: mult.commute)
qed simp

lemma concat_pairs_nth:
  assumes "s < n"
  shows "concat (map (\<lambda>s. [a s, b s]) [0..<n]) ! (s * 2) = a s"
    and "concat (map (\<lambda>s. [a s, b s]) [0..<n]) ! (s * 2 + 1) = b s"
proof -
  have len: "length (concat (map (\<lambda>s. [a s, b s]) [0..<n])) = 2 * n" for n
    by (induction n) simp_all
  have "concat (map (\<lambda>s. [a s, b s]) [0..<n]) ! (s * 2) = a s \<and>
        concat (map (\<lambda>s. [a s, b s]) [0..<n]) ! (s * 2 + 1) = b s"
    using assms by (induction n) (auto simp: nth_append len less_Suc_eq)
  then show "concat (map (\<lambda>s. [a s, b s]) [0..<n]) ! (s * 2) = a s"
    and "concat (map (\<lambda>s. [a s, b s]) [0..<n]) ! (s * 2 + 1) = b s" by auto
qed

definition from_symbols :: "(nat \<Rightarrow> u16) \<Rightarrow> bytes" where
  "from_symbols f = concat (map (\<lambda>s. u16_to_be (f s)) [0..<ML_KEM_BRAID_CHUNK_BYTES div 2])"

lemma from_codeword_symbols:
  assumes "length cw = ML_KEM_BRAID_CHUNK_BYTES"
  shows "from_symbols (codeword_symbol cw) = cw"
proof -
  have "from_symbols (codeword_symbol cw) = take (2 * 16) cw"
    unfolding from_symbols_def codeword_symbol_def u16_to_from_be
    using assms concat_pairs_take[of 16 cw] by (simp add: braid_sizes)
  then show ?thesis using assms by (simp add: braid_sizes)
qed

lemma codeword_symbol_from_symbols:
  assumes "s < 16"
  shows "codeword_symbol (from_symbols f) s = f s"
  unfolding codeword_symbol_def from_symbols_def u16_to_be_def
  using concat_pairs_nth[OF assms, where a = "\<lambda>s. ucast (drop_bit 8 (f s)) :: u8" and b = "\<lambda>s. ucast (f s)"]
  by (simp add: braid_sizes)

lemma length_from_symbols [simp]: "length (from_symbols f) = ML_KEM_BRAID_CHUNK_BYTES"
  by (simp add: from_symbols_def length_concat comp_def braid_sizes sum_list_triv)

lemma from_symbols_cong:
  "(\<And>s. s < 16 \<Longrightarrow> f s = g s) \<Longrightarrow> from_symbols f = from_symbols g"
  unfolding from_symbols_def by (rule arg_cong[of _ _ concat]) (simp add: braid_sizes)

section \<open>The loops as field expressions\<close>

lemma GF_foldl_skip:
  "GF (foldl (\<lambda>acc j. if j \<noteq> i then gf_mul acc (f j) else acc) a js) =
     GF a * (\<Prod>j\<leftarrow>filter (\<lambda>j. j \<noteq> i) js. GF (f j))"
  by (induction js arbitrary: a) (simp_all add: GF_mul ac_simps)

lemma GF_skip_product: "GF (skip_product n f i) = (\<Prod>j\<in>{..<n} - {i}. GF (f j))"
proof -
  have "set (filter (\<lambda>j. j \<noteq> i) [0..<n]) = {..<n} - {i}" by auto
  moreover have "distinct (filter (\<lambda>j. j \<noteq> i) [0..<n])" by simp
  ultimately have "(\<Prod>j\<leftarrow>filter (\<lambda>j. j \<noteq> i) [0..<n]. GF (f j)) = (\<Prod>j\<in>{..<n} - {i}. GF (f j))"
    using prod.distinct_set_conv_list by metis
  then show ?thesis unfolding skip_product_def by (simp add: GF_foldl_skip GF_one)
qed

lemma GF_foldl_mul: "GF (foldl gf_mul a js) = GF a * (\<Prod>j\<leftarrow>js. GF j)"
  by (induction js arbitrary: a) (simp_all add: GF_mul ac_simps)

lemma GF_foldl_xor:
  "GF (foldl (\<lambda>acc (cw, c). acc XOR gf_mul (f cw) c) a ps) =
     GF a + (\<Sum>(cw, c)\<leftarrow>ps. GF (f cw) * GF c)"
  by (induction ps arbitrary: a) (auto simp: GF_xor GF_mul ac_simps)

lemma GF_combine_symbol:
  assumes "length codewords = length coefficients"
  shows "GF (combine_symbol codewords coefficients s) =
     (\<Sum>i<length codewords. GF (codeword_symbol (codewords ! i) s) * GF (coefficients ! i))"
proof -
  have "map (\<lambda>(cw, c). GF (codeword_symbol cw s) * GF c) (zip codewords coefficients) =
      map (\<lambda>i. GF (codeword_symbol (codewords ! i) s) * GF (coefficients ! i)) [0..<length codewords]"
    using assms by (intro nth_equalityI) auto
  then show ?thesis
    unfolding combine_symbol_def GF_foldl_xor
    by (simp add: GF_zero interv_sum_list_conv_sum_set_nat atLeast0LessThan)
qed

lemma combine_codewords_eq:
  assumes "\<forall>cw\<in>set codewords. length cw = ML_KEM_BRAID_CHUNK_BYTES"
  shows "combine_codewords codewords coefficients = Inr (from_symbols (combine_symbol codewords coefficients))"
  using assms by (auto simp: combine_codewords_def from_symbols_def dest: set_zip_leftD)

section \<open>The codeword at a point\<close>

text \<open>
  \<open>codeword_at source x\<close> is the specification of both sides: symbol \<open>s\<close> is the value at \<open>x\<close> of
  the polynomial of degree below \<open>length source\<close> through symbol \<open>s\<close> of the source chunks.
\<close>

definition index_points :: "nat \<Rightarrow> gf list" where
  "index_points n = map (\<lambda>i. GF (of_nat i)) [0..<n]"

definition symbol_poly :: "bytes list \<Rightarrow> nat \<Rightarrow> gf \<Rightarrow> gf" where
  "symbol_poly source s = lag_interp (index_points (length source)) (\<lambda>j. GF (codeword_symbol (source ! j) s))"

definition codeword_at :: "bytes list \<Rightarrow> gf \<Rightarrow> bytes" where
  "codeword_at source x = from_symbols (\<lambda>s. raw (symbol_poly source s x))"

lemma length_index_points [simp]: "length (index_points n) = n"
  by (simp add: index_points_def)

lemma nth_index_points [simp]: "i < n \<Longrightarrow> index_points n ! i = GF (of_nat i)"
  by (simp add: index_points_def)

lemma of_nat_u16_inj: "inj_on (of_nat :: nat \<Rightarrow> u16) {..<65536}"
proof (rule inj_onI)
  fix i j :: nat
  assume "i \<in> {..<65536}" "j \<in> {..<65536}" "(of_nat i :: u16) = of_nat j"
  then have "unat (of_nat i :: u16) = unat (of_nat j :: u16)" "i < 65536" "j < 65536" by simp_all
  then show "i = j" by (simp add: unat_of_nat)
qed

lemma distinct_index_points: "n \<le> 65536 \<Longrightarrow> distinct (index_points n)"
  unfolding index_points_def
  by (auto simp: distinct_map intro!: inj_onI dest: of_nat_u16_inj[THEN inj_onD])

lemma length_codeword_at [simp]: "length (codeword_at source x) = ML_KEM_BRAID_CHUNK_BYTES"
  by (simp add: codeword_at_def)

lemma codeword_at_source:
  assumes "i < length source" and "length source \<le> 65536" and "length (source ! i) = ML_KEM_BRAID_CHUNK_BYTES"
  shows "codeword_at source (GF (of_nat i)) = source ! i"
proof -
  have "symbol_poly source s (GF (of_nat i)) = GF (codeword_symbol (source ! i) s)" for s
    unfolding symbol_poly_def
    using lag_interp_at_point[OF distinct_index_points, of "length source" i] assms by simp
  then have "codeword_at source (GF (of_nat i)) = from_symbols (codeword_symbol (source ! i))"
    by (simp add: codeword_at_def)
  then show ?thesis using from_codeword_symbols[OF assms(3)] by simp
qed


section \<open>The encoder computes the codeword\<close>

text \<open>An encoder is consistent when rebuilding its cache changes nothing.\<close>

definition encoder_ok :: "encoder \<Rightarrow> bool" where
  "encoder_ok enc \<longleftrightarrow> rebuild_cache enc = Inr enc"

lemma of_nat_u16_eq_iff: "i < 65536 \<Longrightarrow> j < 65536 \<Longrightarrow> (of_nat i :: u16) = of_nat j \<longleftrightarrow> i = j"
  using of_nat_u16_inj by (auto dest: inj_onD)

lemma xor_u16_eq_0: "(a :: u16) XOR b = 0 \<longleftrightarrow> a = b"
  by (metis GF_eq_0_iff GF_xor_minus gf.inject right_minus_eq)

lemma GF_raw_divide: "GF (gf_mul a (raw (inverse x))) = GF a / x"
  by (simp add: GF_mul divide_inverse)

lemma skip_product_nonzero:
  assumes "\<And>j. j < n \<Longrightarrow> j \<noteq> i \<Longrightarrow> f j \<noteq> 0"
  shows "skip_product n f i \<noteq> 0"
proof -
  have "GF (skip_product n f i) \<noteq> 0"
    unfolding GF_skip_product using assms by (simp add: prod_zero_iff)
  then show ?thesis by simp
qed

lemma cache_denominators:
  assumes "n \<le> 65536"
  shows "batch_inverse (map (\<lambda>i. skip_product n (\<lambda>j. of_nat i XOR of_nat j) i) [0..<n]) =
    Inr (map (\<lambda>i. raw (inverse (\<Prod>j\<in>{..<n} - {i}. index_points n ! i - index_points n ! j))) [0..<n])"
proof -
  have nz: "skip_product n (\<lambda>j. of_nat i XOR of_nat j) i \<noteq> 0" if "i < n" for i
    using that assms by (intro skip_product_nonzero) (auto simp: of_nat_u16_eq_iff xor_u16_eq_0)
  have prod: "(\<Prod>j\<in>{..<n} - {i}. GF (of_nat i XOR of_nat j)) =
      (\<Prod>j\<in>{..<n} - {i}. index_points n ! i - index_points n ! j)" if "i < n" for i
    by (rule prod.cong) (use that in \<open>auto simp: GF_xor_minus\<close>)
  show ?thesis
    unfolding batch_inverse_eq using nz by (auto simp: GF_skip_product prod)
qed

definition source_ok :: "bytes list \<Rightarrow> bool" where
  "source_ok source \<longleftrightarrow> source \<noteq> [] \<and> length source \<le> MAX_SOURCE_CHUNKS
     \<and> (\<forall>c\<in>set source. length c = ML_KEM_BRAID_CHUNK_BYTES)"

definition denominator_cache :: "nat \<Rightarrow> u16 list" where
  "denominator_cache n = map (\<lambda>i. raw (inverse
     (\<Prod>j\<in>{..<n} - {i}. index_points n ! i - index_points n ! j))) [0..<n]"

lemma length_denominator_cache [simp]: "length (denominator_cache n) = n"
  by (simp add: denominator_cache_def)

definition encoder_shape :: "encoder \<Rightarrow> bool" where
  "encoder_shape enc \<longleftrightarrow> source_ok (enc_source enc) \<and> enc_next_point enc \<le> 0x10000"

lemma rebuild_cache_Inr_iff:
  "rebuild_cache enc = Inr enc' \<longleftrightarrow> encoder_shape enc \<and>
     enc' = enc\<lparr>enc_denominator_inverses := denominator_cache (length (enc_source enc))\<rparr>"
proof (cases "length (enc_source enc) \<le> 48")
  case True
  then have "length (enc_source enc) \<le> 65536" by simp
  then show ?thesis
    unfolding rebuild_cache_def Let_def encoder_shape_def source_ok_def
    by (auto simp: result_simps cache_denominators denominator_cache_def)
next
  case False
  then show ?thesis
    by (simp add: rebuild_cache_def Let_def encoder_shape_def source_ok_def result_simps MAX_SOURCE_CHUNKS_eq)
qed

lemma encoder_ok_iff:
  "encoder_ok enc \<longleftrightarrow> encoder_shape enc \<and>
     enc_denominator_inverses enc = denominator_cache (length (enc_source enc))"
  unfolding encoder_ok_def rebuild_cache_Inr_iff by (cases enc) auto

text \<open>A consistent encoder gives the codeword at every point, systematic or not.\<close>

lemma evaluate_codeword:
  assumes ok: "encoder_ok enc"
  shows "evaluate enc point = Inr (codeword_at (enc_source enc) (GF point))"
proof -
  let ?src = "enc_source enc" and ?n = "length (enc_source enc)"
  have src: "\<forall>c\<in>set ?src. length c = ML_KEM_BRAID_CHUNK_BYTES" and n48: "?n \<le> MAX_SOURCE_CHUNKS"
    and dinv: "enc_denominator_inverses enc = denominator_cache ?n"
    using ok by (simp_all add: encoder_ok_iff encoder_shape_def source_ok_def)
  then have n: "?n \<le> 65536" by (simp add: MAX_SOURCE_CHUNKS_eq)
  show ?thesis
  proof (cases "unat point < ?n")
    case True
    then have "codeword_at ?src (GF (of_nat (unat point))) = ?src ! unat point"
      using codeword_at_source n src by (metis nth_mem)
    with True src show ?thesis by (simp add: evaluate_def Let_def)
  next
    case False
    let ?c = "\<lambda>i. gf_mul (skip_product ?n (\<lambda>j. point XOR of_nat j) i) (enc_denominator_inverses enc ! i)"
    have coeff: "GF (?c i) = lag_basis (index_points ?n) i (GF point)" if "i < ?n" for i
    proof -
      have "(\<Prod>j\<in>{..<?n} - {i}. GF (point XOR of_nat j)) = (\<Prod>j\<in>{..<?n} - {i}. GF point - index_points ?n ! j)"
        by (rule prod.cong) (auto simp: GF_xor_minus)
      then show ?thesis
        using that by (simp add: dinv denominator_cache_def GF_raw_divide GF_skip_product lag_basis_def)
    qed
    have "GF (combine_symbol ?src (map ?c [0..<?n]) s) = symbol_poly ?src s (GF point)" for s
      by (simp add: GF_combine_symbol coeff symbol_poly_def lag_interp_def)
    then have "combine_symbol ?src (map ?c [0..<?n]) = (\<lambda>s. raw (symbol_poly ?src s (GF point)))"
      by (intro ext) (metis gf.sel)
    then have "combine_codewords ?src (map ?c [0..<?n]) = Inr (codeword_at ?src (GF point))"
      using combine_codewords_eq[OF src] by (simp add: codeword_at_def)
    moreover have "length (enc_denominator_inverses enc) = ?n" by (simp add: dinv)
    ultimately show ?thesis
      using False n48 by (simp add: evaluate_def Let_def)
  qed
qed


section \<open>Any k codewords decode\<close>

text \<open>
  \<open>holds_codewords src m\<close>: every entry of the chunk map \<open>m\<close> is the codeword of \<open>src\<close> at its
  point. The next lemmas follow \<open>decode\<close> on such a map.
\<close>

definition holds_codewords :: "bytes list \<Rightarrow> (u16 \<times> bytes) list \<Rightarrow> bool" where
  "holds_codewords source m \<longleftrightarrow> (\<forall>(p, c)\<in>set m. c = codeword_at source (GF p))"

lemma lagrange_weights:
  assumes "distinct ps"
  shows "batch_inverse (map (\<lambda>i. skip_product (length ps) (\<lambda>j. ps ! i XOR ps ! j) i) [0..<length ps]) =
    Inr (map (\<lambda>i. raw (inverse (\<Prod>j\<in>{..<length ps} - {i}. map GF ps ! i - map GF ps ! j))) [0..<length ps])"
proof -
  have nz: "skip_product (length ps) (\<lambda>j. ps ! i XOR ps ! j) i \<noteq> 0" if "i < length ps" for i
    using that assms by (intro skip_product_nonzero) (auto simp: xor_u16_eq_0 nth_eq_iff_index_eq)
  have prod: "(\<Prod>j\<in>{..<length ps} - {i}. GF (ps ! i XOR ps ! j)) =
      (\<Prod>j\<in>{..<length ps} - {i}. map GF ps ! i - map GF ps ! j)" if "i < length ps" for i
    by (rule prod.cong) (use that in \<open>auto simp: GF_xor_minus\<close>)
  show ?thesis
    unfolding batch_inverse_eq using nz by (auto simp: GF_skip_product prod)
qed

lemma all_differences:
  "GF (foldl gf_mul 1 (map (\<lambda>p. t XOR p) ps)) = (\<Prod>j<length ps. GF t - map GF ps ! j)"
proof -
  have "(\<Prod>j<length ps. GF t - map GF ps ! j) = (\<Prod>j\<leftarrow>[0..<length ps]. GF t - GF (ps ! j))"
    by (simp add: prod.distinct_set_conv_list[symmetric] atLeast0LessThan)
  also have "\<dots> = (\<Prod>p\<leftarrow>ps. GF t - GF p)"
    by (rule arg_cong[of _ _ prod_list]) (rule nth_equalityI, simp_all)
  finally show ?thesis
    by (simp add: GF_foldl_mul GF_one comp_def GF_xor_minus)
qed

lemma lag_basis_by_differences:
  assumes "distinct ps" and "i < length ps" and "x \<noteq> ps ! i"
  shows "inverse (\<Prod>j\<in>{..<length ps} - {i}. ps ! i - ps ! j) * (\<Prod>j<length ps. x - ps ! j) * inverse (x - ps ! i)
     = lag_basis ps i x"
proof -
  have "(\<Prod>j<length ps. x - ps ! j) = (x - ps ! i) * (\<Prod>j\<in>{..<length ps} - {i}. x - ps ! j)"
    using assms(2) by (intro prod.remove) auto
  then have "(\<Prod>j<length ps. x - ps ! j) * inverse (x - ps ! i) = (\<Prod>j\<in>{..<length ps} - {i}. x - ps ! j)"
    using assms(3) by simp
  then show ?thesis
    by (simp only: lag_basis_def divide_inverse mult.assoc) (simp only: mult.commute)
qed

lemma interpolate_target_eq:
  assumes m: "holds_codewords source m" and dist: "distinct (map fst m)"
    and len: "length m = length source" and t: "t \<notin> fst ` set m"
    and w: "weights = map (\<lambda>i. raw (inverse (\<Prod>j\<in>{..<length m} - {i}. map (GF \<circ> fst) m ! i - map (GF \<circ> fst) m ! j))) [0..<length m]"
  shows "interpolate_target (map fst m) (map snd m) weights t = Inr (codeword_at source (GF t))"
proof -
  let ?g = "map (GF \<circ> fst) m" and ?n = "length m"
  let ?inv = "map (\<lambda>p. raw (inverse (GF (t XOR p)))) (map fst m)"
  let ?c = "map (\<lambda>(weight, inverse). gf_mul (gf_mul weight (foldl gf_mul 1 (map (\<lambda>p. t XOR p) (map fst m)))) inverse) (zip weights ?inv)"
  have g: "map GF (map fst m) = ?g" by simp
  have distg: "distinct ?g" using dist by (simp add: distinct_map comp_inj_on inj_on_def)
  have val: "m ! i = (p, c) \<Longrightarrow> i < ?n \<Longrightarrow> c = codeword_at source (GF p)" for i p c
    using m unfolding holds_codewords_def by (metis (mono_tags, lifting) case_prodD nth_mem)
  have inv: "batch_inverse_into (map (\<lambda>p. t XOR p) (map fst m)) = Inr ?inv"
    using t batch_inverse_eq[of "map (\<lambda>p. t XOR p) (map fst m)"]
    by (auto simp: batch_inverse_def xor_u16_eq_0)
  have coeff: "GF (?c ! i) = lag_basis ?g i (GF t)" if "i < ?n" for i
  proof -
    have ne: "GF t \<noteq> ?g ! i" using t that by (auto simp: image_iff)
    have "GF (?c ! i) = inverse (\<Prod>j\<in>{..<?n} - {i}. ?g ! i - ?g ! j) * (\<Prod>j<?n. GF t - ?g ! j) * inverse (GF t - ?g ! i)"
      using that all_differences[of t "map fst m"] by (simp add: w GF_mul GF_xor_minus del: map_map)
    then show ?thesis using lag_basis_by_differences[OF distg, of i "GF t"] that ne by simp
  qed
  have lenc: "length ?c = ?n" by (simp add: w)
  have comb: "combine_symbol (map snd m) ?c s = raw (symbol_poly source s (GF t))" if s: "s < 16" for s
  proof -
    have "GF (combine_symbol (map snd m) ?c s) =
        (\<Sum>i<?n. symbol_poly source s (?g ! i) * lag_basis ?g i (GF t))"
      unfolding GF_combine_symbol[OF trans[OF length_map lenc[symmetric]]] length_map
    proof (rule sum.cong[OF refl])
      fix i assume i: "i \<in> {..<?n}"
      then have "map snd m ! i = codeword_at source (?g ! i)"
        using val[of i "fst (m ! i)" "snd (m ! i)"] by simp
      then show "GF (codeword_symbol (map snd m ! i) s) * GF (?c ! i) =
          symbol_poly source s (?g ! i) * lag_basis ?g i (GF t)"
        using i coeff s by (simp add: codeword_at_def codeword_symbol_from_symbols)
    qed
    also have "\<dots> = lag_interp ?g (\<lambda>i. symbol_poly source s (?g ! i)) (GF t)"
      by (simp add: lag_interp_def)
    also have "\<dots> = symbol_poly source s (GF t)"
      unfolding symbol_poly_def by (rule lag_interp_resample) (use distg len in simp_all)
    finally show ?thesis by (metis gf.sel)
  qed
  have "\<forall>cw\<in>set (map snd m). length cw = ML_KEM_BRAID_CHUNK_BYTES"
    using m by (auto simp: holds_codewords_def)
  then have "combine_codewords (map snd m) ?c = Inr (codeword_at source (GF t))"
    using combine_codewords_eq from_symbols_cong[OF comb] by (simp add: codeword_at_def)
  then show ?thesis
    unfolding interpolate_target_def Let_def inv by simp
qed


lemma holds_codewords_lookup:
  "holds_codewords source m \<Longrightarrow> map_of m p = Some c \<Longrightarrow> c = codeword_at source (GF p)"
  unfolding holds_codewords_def by (auto dest: map_of_SomeD)

lemma decode_systematic_eq:
  assumes "holds_codewords source m"
  shows "list_all (\<lambda>p. map_of m (of_nat p) \<noteq> None) ts \<Longrightarrow>
    decode_systematic m ts = Inr (concat (map (\<lambda>t. codeword_at source (GF (of_nat t))) ts))"
  by (induction ts) (auto dest: holds_codewords_lookup[OF assms])

lemma decode_targets_eq:
  assumes "holds_codewords source m" and "distinct (map fst m)" and "length m = length source"
    and "weights = map (\<lambda>i. raw (inverse (\<Prod>j\<in>{..<length m} - {i}. map (GF \<circ> fst) m ! i - map (GF \<circ> fst) m ! j))) [0..<length m]"
  shows "decode_targets m weights ts = Inr (concat (map (\<lambda>t. codeword_at source (GF (of_nat t))) ts))"
proof (induction ts)
  case (Cons t ts)
  have "(case map_of m (of_nat t) of Some existing \<Rightarrow> Inr existing
       | None \<Rightarrow> interpolate_target (map fst m) (map snd m) weights (of_nat t)) = Inr (codeword_at source (GF (of_nat t)))"
  proof (cases "map_of m (of_nat t :: u16)")
    case None
    then have "of_nat t \<notin> fst ` set m" by (simp add: map_of_eq_None_iff)
    with None show ?thesis using interpolate_target_eq[OF assms(1,2,3) _ assms(4)] by simp
  qed (auto dest: holds_codewords_lookup[OF assms(1)])
  with Cons show ?case by simp
qed simp

lemma codewords_of_source:
  assumes "\<forall>c\<in>set source. length c = ML_KEM_BRAID_CHUNK_BYTES" and "length source \<le> 65536"
  shows "map (\<lambda>t. codeword_at source (GF (of_nat t))) [0..<length source] = source"
proof (rule nth_equalityI)
  fix i assume "i < length (map (\<lambda>t. codeword_at source (GF (of_nat t))) [0..<length source])"
  then have i: "i < length source" by simp
  then have "length (source ! i) = ML_KEM_BRAID_CHUNK_BYTES" using assms(1) by (metis nth_mem)
  then show "map (\<lambda>t. codeword_at source (GF (of_nat t))) [0..<length source] ! i = source ! i"
    using codeword_at_source[OF i assms(2)] i by simp
qed simp

lemma decode_codewords:
  assumes m: "holds_codewords source (dec_chunks dec)" and wf: "bt_wf (dec_chunks dec)"
    and len: "length (dec_chunks dec) = length source" "source_count dec = length source"
    and src: "\<forall>c\<in>set source. length c = ML_KEM_BRAID_CHUNK_BYTES" "length source \<le> 65536"
  shows "decode dec = Inr (concat source)"
proof -
  let ?m = "dec_chunks dec"
  have dist: "distinct (map fst ?m)" using wf by (rule bt_wf_distinct)
  let ?w = "map (\<lambda>i. raw (inverse (\<Prod>j\<in>{..<length ?m} - {i}. map (GF \<circ> fst) ?m ! i - map (GF \<circ> fst) ?m ! j))) [0..<length ?m]"
  have w: "batch_inverse (map (\<lambda>i. skip_product (length (map fst ?m)) (\<lambda>j. map fst ?m ! i XOR map fst ?m ! j) i) [0..<length (map fst ?m)]) = Inr ?w"
    using lagrange_weights[OF dist] by simp
  have "decode dec = Inr (concat (map (\<lambda>t. codeword_at source (GF (of_nat t))) [0..<length source]))"
    unfolding decode_def Let_def len(2) w
    using decode_systematic_eq[OF m] decode_targets_eq[OF m dist len(1) refl] by simp
  then show ?thesis using codewords_of_source[OF src] by simp
qed

text \<open>
  Decoding never fails on chunks of the right size at distinct points, genuine or not, and
  returns a message of the announced length.
\<close>

definition chunks_typed :: "(u16 \<times> bytes) list \<Rightarrow> bool" where
  "chunks_typed m \<longleftrightarrow> (\<forall>(_, c)\<in>set m. length c = ML_KEM_BRAID_CHUNK_BYTES)"

lemma chunks_typed_lookup: "chunks_typed m \<Longrightarrow> map_of m p = Some c \<Longrightarrow> length c = ML_KEM_BRAID_CHUNK_BYTES"
  unfolding chunks_typed_def by (auto dest: map_of_SomeD)

lemma chunks_typed_insert:
  "chunks_typed m \<Longrightarrow> length c = ML_KEM_BRAID_CHUNK_BYTES \<Longrightarrow> chunks_typed (bt_insert p c m)"
  by (induction p c m rule: bt_insert.induct) (auto simp: chunks_typed_def)

lemma decode_systematic_typed:
  "chunks_typed m \<Longrightarrow> list_all (\<lambda>p. map_of m (of_nat p) \<noteq> None) ts \<Longrightarrow>
   \<exists>out. decode_systematic m ts = Inr out \<and> length out = length ts * ML_KEM_BRAID_CHUNK_BYTES"
  by (induction ts) (auto dest: chunks_typed_lookup)

lemma interpolate_target_typed:
  assumes "chunks_typed m" and "t \<notin> fst ` set m"
  shows "\<exists>c. interpolate_target (map fst m) (map snd m) weights t = Inr c \<and> length c = ML_KEM_BRAID_CHUNK_BYTES"
proof -
  have "\<forall>cw\<in>set (map snd m). length cw = ML_KEM_BRAID_CHUNK_BYTES"
    using assms(1) by (auto simp: chunks_typed_def)
  note comb = combine_codewords_eq[OF this]
  have "\<forall>v\<in>set (map (\<lambda>p. t XOR p) (map fst m)). v \<noteq> 0"
    using assms(2) by (auto simp: xor_u16_eq_0)
  then obtain out where "batch_inverse_into (map (\<lambda>p. t XOR p) (map fst m)) = Inr out"
    using batch_inverse_eq[of "map (\<lambda>p. t XOR p) (map fst m)"] by (auto simp: batch_inverse_def)
  then show ?thesis unfolding interpolate_target_def Let_def by (simp add: comb)
qed

lemma decode_targets_typed:
  assumes "chunks_typed m"
  shows "\<exists>out. decode_targets m weights ts = Inr out \<and> length out = length ts * ML_KEM_BRAID_CHUNK_BYTES"
proof (induction ts)
  case (Cons t ts)
  have "\<exists>c. (case map_of m (of_nat t) of Some existing \<Rightarrow> Inr existing
       | None \<Rightarrow> interpolate_target (map fst m) (map snd m) weights (of_nat t)) = Inr c
      \<and> length c = ML_KEM_BRAID_CHUNK_BYTES"
  proof (cases "map_of m (of_nat t :: u16)")
    case None
    then have "of_nat t \<notin> fst ` set m" by (simp add: map_of_eq_None_iff)
    with None show ?thesis using interpolate_target_typed[OF assms] by simp
  qed (simp add: chunks_typed_lookup[OF assms])
  with Cons show ?case by auto
qed simp

lemma decode_typed:
  assumes typed: "chunks_typed (dec_chunks dec)" and "bt_wf (dec_chunks dec)"
  shows "\<exists>out. decode dec = Inr out \<and> length out = source_count dec * ML_KEM_BRAID_CHUNK_BYTES"
proof (cases "list_all (\<lambda>p. map_of (dec_chunks dec) (of_nat p) \<noteq> None) [0..<source_count dec]")
  case True
  then show ?thesis using decode_systematic_typed[OF typed True] by (simp add: decode_def)
next
  case False
  obtain w where "batch_inverse (map (\<lambda>i. skip_product (length (map fst (dec_chunks dec)))
      (\<lambda>j. map fst (dec_chunks dec) ! i XOR map fst (dec_chunks dec) ! j) i) [0..<length (map fst (dec_chunks dec))]) = Inr w"
    using lagrange_weights[OF bt_wf_distinct[OF assms(2)]] by blast
  then have "decode dec = decode_targets (dec_chunks dec) w [0..<source_count dec]"
    unfolding decode_def Let_def using False by (simp only: if_False and_then_simps)
  then show ?thesis using decode_targets_typed[OF typed, of w "[0..<source_count dec]"] by simp
qed

section \<open>Decoder progress\<close>

text \<open>
  \<open>decoder_tracks source dec\<close>: all chunks the decoder holds are codewords of \<open>source\<close>, and
  the decoded message is there exactly when there are enough of them, and is the right one.
\<close>

definition decoder_tracks :: "bytes list \<Rightarrow> decoder \<Rightarrow> bool" where
  "decoder_tracks source dec \<longleftrightarrow> source_ok source
     \<and> dec_message_bytes dec = length source * ML_KEM_BRAID_CHUNK_BYTES
     \<and> bt_wf (dec_chunks dec) \<and> holds_codewords source (dec_chunks dec)
     \<and> length (dec_chunks dec) \<le> length source
     \<and> dec_decoded dec = (if length (dec_chunks dec) = length source then Some (concat source) else None)"

definition genuine_chunk :: "bytes list \<Rightarrow> braid_chunk \<Rightarrow> bool" where
  "genuine_chunk source c \<longleftrightarrow> chunk_bytes c = codeword_at source (GF (chunk_point c))"

lemma source_ok_length: "source_ok source \<Longrightarrow> length source \<le> 65536"
  by (simp add: source_ok_def MAX_SOURCE_CHUNKS_eq)

lemma decoder_tracks_source_count:
  "decoder_tracks source dec \<Longrightarrow> source_count dec = length source"
  by (simp add: decoder_tracks_def source_count_def braid_sizes)

lemma holds_codewords_insert:
  "holds_codewords source m \<Longrightarrow> c = codeword_at source (GF p) \<Longrightarrow> holds_codewords source (bt_insert p c m)"
  by (induction p c m rule: bt_insert.induct) (auto simp: holds_codewords_def)

lemma decoder_new_tracks:
  assumes "source_ok source" and "decoder_new (length source * ML_KEM_BRAID_CHUNK_BYTES) = Inr dec"
  shows "decoder_tracks source dec" and "dec_chunks dec = []"
  using assms by (auto simp: decoder_new_def decoder_tracks_def holds_codewords_def source_ok_def result_simps)

lemma decoder_new_ok:
  "source_ok source \<Longrightarrow> \<exists>dec. decoder_new (length source * ML_KEM_BRAID_CHUNK_BYTES) = Inr dec"
  by (auto simp: decoder_new_def source_ok_def braid_sizes)

text \<open>A genuine chunk at a new point is accepted while chunks are missing.\<close>

lemma add_chunk_tracks:
  assumes tr: "decoder_tracks source dec" and g: "genuine_chunk source c"
    and new: "map_of (dec_chunks dec) (chunk_point c) = None"
    and room: "length (dec_chunks dec) < length source"
  shows "\<exists>dec'. add_chunk dec c = Inr dec' \<and> decoder_tracks source dec'
     \<and> dec_chunks dec' = bt_insert (chunk_point c) (chunk_bytes c) (dec_chunks dec)"
proof -
  let ?m = "bt_insert (chunk_point c) (chunk_bytes c) (dec_chunks dec)"
  let ?d = "dec\<lparr>dec_chunks := ?m\<rparr>"
  have count: "source_count dec = length source" and count': "source_count ?d = length source"
    using decoder_tracks_source_count[OF tr] by (simp_all add: source_count_def)
  have len: "length ?m = Suc (length (dec_chunks dec))" using new by (rule length_bt_insert)
  have hold: "holds_codewords source ?m"
    using tr g holds_codewords_insert by (auto simp: decoder_tracks_def genuine_chunk_def)
  have wf: "bt_wf ?m" using tr bt_wf_insert by (auto simp: decoder_tracks_def)
  have src: "source_ok source" and bytes: "dec_message_bytes dec = length source * ML_KEM_BRAID_CHUNK_BYTES"
    and none: "dec_decoded dec = None" using tr room by (auto simp: decoder_tracks_def)
  show ?thesis
  proof (cases "length ?m = length source")
    case True
    then have "decode ?d = Inr (concat source)"
      using decode_codewords[of source ?d] hold wf count' src source_ok_length
      by (simp add: source_ok_def)
    with True show ?thesis
      using new room count count' none hold wf src bytes by (simp add: add_chunk_def Let_def decoder_tracks_def)
  next
    case False
    with len show ?thesis
      using new room count count' none hold wf src bytes by (simp add: add_chunk_def Let_def decoder_tracks_def)
  qed
qed

lemma add_chunk_Inr:
  assumes "add_chunk dec c = Inr dec'"
  shows "dec_decoded dec = None" and "map_of (dec_chunks dec) (chunk_point c) = None"
    and "length (dec_chunks dec) < source_count dec"
    and "dec_chunks dec' = bt_insert (chunk_point c) (chunk_bytes c) (dec_chunks dec)"
    and "dec_message_bytes dec' = dec_message_bytes dec"
  using assms by (auto simp: add_chunk_def Let_def result_simps split: if_splits)


section \<open>Encoder progress\<close>

lemma encoder_new_Inr:
  assumes "encoder_new message = Inr enc"
  shows "enc_source enc = chunks_exact message" and "enc_next_point enc = 0" and "encoder_ok enc"
    and "source_ok (enc_source enc)" and "concat (enc_source enc) = message"
    and "length message = length (enc_source enc) * ML_KEM_BRAID_CHUNK_BYTES"
proof -
  let ?e = "\<lparr>enc_source = chunks_exact message, enc_next_point = 0, enc_denominator_inverses = []\<rparr>"
  have e: "message \<noteq> []" "length message mod ML_KEM_BRAID_CHUNK_BYTES = 0" "rebuild_cache ?e = Inr enc"
    using assms by (auto simp: encoder_new_def Let_def result_simps)
  then show src: "enc_source enc = chunks_exact message" and "enc_next_point enc = 0"
    and ok: "source_ok (enc_source enc)" and "encoder_ok enc"
    by (auto simp: rebuild_cache_Inr_iff encoder_ok_iff encoder_shape_def)
  show "concat (enc_source enc) = message" using chunks_exact_props[OF e(2)] src by simp
  then show "length message = length (enc_source enc) * ML_KEM_BRAID_CHUNK_BYTES"
    using length_concat_chunks[of "enc_source enc" ML_KEM_BRAID_CHUNK_BYTES] ok
    by (simp add: source_ok_def)
qed

lemma encoder_new_ok:
  assumes "message \<noteq> []" and "length message mod ML_KEM_BRAID_CHUNK_BYTES = 0" and "length message \<le> 1536"
  shows "\<exists>enc. encoder_new message = Inr enc"
proof -
  have len: "length (chunks_exact message) = length message div ML_KEM_BRAID_CHUNK_BYTES"
    using length_chunks_exact[OF assms(2)] .
  have "chunks_exact message \<noteq> []"
    using chunks_exact_props[OF assms(2)] assms(1) by auto
  moreover have "length (chunks_exact message) \<le> 48"
    using assms(3) unfolding len by (simp add: braid_sizes)
  ultimately show ?thesis
    using assms chunks_exact_props[OF assms(2)]
    by (auto simp: encoder_new_def Let_def result_simps rebuild_cache_Inr_iff encoder_shape_def
        source_ok_def MAX_SOURCE_CHUNKS_eq)
qed

lemma next_chunk_eq:
  assumes ok: "encoder_ok enc"
  shows "next_chunk enc =
    (if enc_next_point enc \<le> 0xffff
     then Inr (\<lparr>chunk_point = ucast (enc_next_point enc),
                chunk_bytes = codeword_at (enc_source enc) (GF (ucast (enc_next_point enc)))\<rparr>,
               enc\<lparr>enc_next_point := enc_next_point enc + 1\<rparr>)
     else Inl ErasureDomainExhausted)"
proof -
  have "enc_next_point enc \<le> 0xffff \<Longrightarrow> enc_next_point enc \<noteq> - 1"
    by (auto simp: word_le_nat_alt unsigned_minus_1_eq_mask mask_eq_exp_minus_1)
  then show ?thesis by (auto simp: next_chunk_def evaluate_codeword[OF ok] Let_def ensure_def)
qed

lemma u32_Suc_le: "(w :: u32) \<le> 0xffff \<Longrightarrow> w + 1 \<le> 0x10000"
  by (simp add: word_le_nat_alt unat_word_ariths)

lemma rebuild_cache_next_point:
  "encoder_ok enc \<Longrightarrow> p \<le> 0x10000 \<Longrightarrow> encoder_ok (enc\<lparr>enc_next_point := p\<rparr>)"
  by (simp add: encoder_ok_iff encoder_shape_def)

lemma next_chunk_ok:
  assumes ok: "encoder_ok enc" and nc: "next_chunk enc = Inr (c, enc')"
  shows "encoder_ok enc'" and "enc_source enc' = enc_source enc"
    and "genuine_chunk (enc_source enc) c" and "enc_next_point enc' = enc_next_point enc + 1"
    and "chunk_point c = ucast (enc_next_point enc)" and "enc_next_point enc \<le> 0xffff"
  using nc rebuild_cache_next_point[OF ok u32_Suc_le]
  by (auto simp: next_chunk_eq[OF ok] genuine_chunk_def split: if_splits)

text \<open>The first \<open>n\<close> chunks an encoder emits.\<close>

abbreviation emit :: "nat \<Rightarrow> encoder \<Rightarrow> (braid_chunk list \<times> encoder) braid_result" where
  "emit \<equiv> produce next_chunk"

abbreviation add_chunks :: "decoder \<Rightarrow> braid_chunk list \<Rightarrow> decoder braid_result" where
  "add_chunks \<equiv> run_all add_chunk"

definition chunks_at :: "encoder \<Rightarrow> u16 list \<Rightarrow> braid_chunk list" where
  "chunks_at enc ps = map (\<lambda>p. \<lparr>chunk_point = p, chunk_bytes = projr (evaluate enc p)\<rparr>) ps"

lemma emit_steps:
  assumes "encoder_ok enc" and "enc_next_point enc = 0"
  shows "n \<le> 65536 \<Longrightarrow> \<exists>enc'. emit n enc = Inr (chunks_at enc (map of_nat [0..<n]), enc')
    \<and> encoder_ok enc' \<and> enc_source enc' = enc_source enc \<and> enc_next_point enc' = of_nat n"
proof (induction n)
  case 0
  then show ?case using assms by (simp add: chunks_at_def)
next
  case (Suc n)
  then obtain enc' where e: "emit n enc = Inr (chunks_at enc (map of_nat [0..<n]), enc')"
      "encoder_ok enc'" "enc_source enc' = enc_source enc" "enc_next_point enc' = of_nat n" by auto
  have small: "(of_nat n :: u32) \<le> 0xffff" using Suc.prems by (simp add: word_le_nat_alt unat_of_nat)
  have cast: "(ucast (of_nat n :: u32) :: u16) = of_nat n"
    by (rule word_unat_eq_iff[THEN iffD2]) (use Suc.prems in \<open>simp add: unat_of_nat unsigned_ucast_eq take_bit_eq_mod\<close>)
  obtain c enc'' where nc: "next_chunk enc' = Inr (c, enc'')"
    using small by (simp add: next_chunk_eq[OF e(2)] e(4))
  note k = next_chunk_ok[OF e(2) nc]
  have "c = \<lparr>chunk_point = of_nat n, chunk_bytes = projr (evaluate enc (of_nat n))\<rparr>"
    using k(3,5) e(3,4) cast by (simp add: evaluate_codeword[OF assms(1)] genuine_chunk_def)
  then have "emit (Suc n) enc = Inr (chunks_at enc (map of_nat [0..<Suc n]), enc'')"
    using e(1) nc by (simp add: chunks_at_def)
  then show ?case using k(1,2,4) e(3,4) by (auto simp: add.commute)
qed

lemma add_chunks_tracks:
  assumes ok: "encoder_ok enc"
  shows "decoder_tracks (enc_source enc) dec \<Longrightarrow> distinct ps \<Longrightarrow>
    set ps \<inter> fst ` set (dec_chunks dec) = {} \<Longrightarrow>
    length (dec_chunks dec) + length ps \<le> length (enc_source enc) \<Longrightarrow>
    \<exists>dec'. add_chunks dec (chunks_at enc ps) = Inr dec' \<and> decoder_tracks (enc_source enc) dec'
      \<and> length (dec_chunks dec') = length (dec_chunks dec) + length ps"
proof (induction ps arbitrary: dec)
  case Nil
  then show ?case by (simp add: chunks_at_def)
next
  case (Cons p ps)
  let ?c = "\<lparr>chunk_point = p, chunk_bytes = projr (evaluate enc p)\<rparr>"
  have g: "genuine_chunk (enc_source enc) ?c" by (simp add: genuine_chunk_def evaluate_codeword[OF ok])
  have new: "map_of (dec_chunks dec) (chunk_point ?c) = None"
    using Cons.prems(3) by (simp add: map_of_eq_None_iff)
  have room: "length (dec_chunks dec) < length (enc_source enc)" using Cons.prems(4) by simp
  obtain dec1 where d1: "add_chunk dec ?c = Inr dec1" "decoder_tracks (enc_source enc) dec1"
      "dec_chunks dec1 = bt_insert p (chunk_bytes ?c) (dec_chunks dec)"
    using add_chunk_tracks[OF Cons.prems(1) g new room] by auto
  have len: "length (dec_chunks dec1) = Suc (length (dec_chunks dec))"
    using new d1(3) by (simp add: length_bt_insert)
  have keys: "set ps \<inter> fst ` set (dec_chunks dec1) = {}"
    using Cons.prems(2,3) unfolding d1(3) keys_bt_insert by auto
  have "length (dec_chunks dec1) + length ps \<le> length (enc_source enc)"
    using Cons.prems(4) len by simp
  from Cons.IH[OF d1(2) _ keys this] Cons.prems(2) show ?case
    using d1(1) len by (auto simp: chunks_at_def)
qed


section \<open>The erasure channel\<close>

text \<open>
  What the protocol relies on when it sends a message in chunks: the provider keeps, for a
  message, an invariant of the encoder, an invariant of the decoder and a notion of genuine
  chunk. Whatever genuine chunks reach the decoder, in whatever order, the only message it
  can come out with is the one that was encoded.
\<close>

locale erasure_channel =
  fixes enc_new :: "'m \<Rightarrow> 'e + 'enc"
    and enc_next :: "'enc \<Rightarrow> 'e + ('c \<times> 'enc)"
    and dec_new :: "'m \<Rightarrow> 'e + 'dec"
    and dec_add :: "'dec \<Rightarrow> 'c \<Rightarrow> 'e + 'dec"
    and dec_message :: "'dec \<Rightarrow> 'm option"
    and enc_inv :: "'m \<Rightarrow> 'enc \<Rightarrow> bool"
    and dec_inv :: "'m \<Rightarrow> 'dec \<Rightarrow> bool"
    and genuine :: "'m \<Rightarrow> 'c \<Rightarrow> bool"
  assumes enc_new: "enc_new m = Inr e \<Longrightarrow> enc_inv m e"
    and enc_next: "enc_inv m e \<Longrightarrow> enc_next e = Inr (c, e') \<Longrightarrow> genuine m c \<and> enc_inv m e'"
    and dec_new: "enc_new m = Inr e \<Longrightarrow> \<exists>d. dec_new m = Inr d \<and> dec_inv m d"
    and dec_add: "dec_inv m d \<Longrightarrow> genuine m c \<Longrightarrow> dec_add d c = Inr d' \<Longrightarrow> dec_inv m d'"
    and dec_message: "dec_inv m d \<Longrightarrow> dec_message d = Some m' \<Longrightarrow> m' = m"
begin

lemma produce_genuine:
  "enc_inv m e \<Longrightarrow> produce enc_next n e = Inr (cs, e') \<Longrightarrow> enc_inv m e' \<and> (\<forall>c\<in>set cs. genuine m c)"
proof (induction n arbitrary: cs e')
  case (Suc n)
  from Suc.prems(2) obtain cs1 e1 c where r: "produce enc_next n e = Inr (cs1, e1)" "enc_next e1 = Inr (c, e')" "cs = cs1 @ [c]"
    by (auto simp: result_simps split: prod.splits)
  have "enc_inv m e1 \<and> (\<forall>c\<in>set cs1. genuine m c)" using Suc.IH[OF Suc.prems(1) r(1)] .
  then show ?case using enc_next[of m e1 c e'] r(2,3) by auto
qed auto

lemma run_all_inv:
  "dec_inv m d \<Longrightarrow> \<forall>c\<in>set cs. genuine m c \<Longrightarrow> run_all dec_add d cs = Inr d' \<Longrightarrow> dec_inv m d'"
  by (induction cs arbitrary: d) (auto simp: result_simps dest: dec_add)

lemma channel_faithful:
  assumes "enc_new m = Inr e" and "produce enc_next n e = Inr (cs, e')" and "set ds \<subseteq> set cs"
    and "dec_new m = Inr d" and "run_all dec_add d ds = Inr d'" and "dec_message d' = Some m'"
  shows "m' = m"
proof -
  have "\<forall>c\<in>set cs. genuine m c" using produce_genuine[OF enc_new[OF assms(1)] assms(2)] by blast
  moreover have "dec_inv m d" using dec_new[OF assms(1)] assms(4) by auto
  ultimately have "dec_inv m d'" using run_all_inv[of m d ds d'] assms(3,5) by auto
  then show ?thesis using assms(6) dec_message by blast
qed

end

text \<open>
  The encoder and decoder of the code provide the channel. The decoder is opened for the
  length of the message only; a chunk it refuses ends the run with an error, so accepted
  chunks have new points.
\<close>

definition encodes :: "bytes \<Rightarrow> encoder \<Rightarrow> bool" where
  "encodes m enc \<longleftrightarrow> encoder_ok enc \<and> enc_source enc = chunks_exact m \<and> concat (chunks_exact m) = m"

definition decodes :: "bytes \<Rightarrow> decoder \<Rightarrow> bool" where
  "decodes m dec \<longleftrightarrow> decoder_tracks (chunks_exact m) dec \<and> concat (chunks_exact m) = m"

lemma add_chunk_decodes:
  assumes "decodes m dec" and "genuine_chunk (chunks_exact m) c" and "add_chunk dec c = Inr dec'"
  shows "decodes m dec'"
proof -
  have tr: "decoder_tracks (chunks_exact m) dec" using assms(1) by (simp add: decodes_def)
  note a = add_chunk_Inr[OF assms(3)]
  have "length (dec_chunks dec) < length (chunks_exact m)"
    using a(3) decoder_tracks_source_count[OF tr] by simp
  from add_chunk_tracks[OF tr assms(2) a(2) this] assms(1,3) show ?thesis
    by (auto simp: decodes_def)
qed

lemma decoder_new_decodes:
  assumes "encoder_new m = Inr enc"
  shows "\<exists>dec. decoder_new (length m) = Inr dec \<and> decodes m dec \<and> dec_chunks dec = []"
proof -
  note e = encoder_new_Inr[OF assms]
  have ok: "source_ok (chunks_exact m)" using e(1,4) by simp
  obtain dec where d: "decoder_new (length m) = Inr dec"
    using decoder_new_ok[OF ok] e(1,6) by auto
  then show ?thesis
    using decoder_new_tracks[OF ok] e(1,5,6) by (auto simp: decodes_def)
qed

interpretation braid_channel: erasure_channel
  encoder_new next_chunk "\<lambda>m. decoder_new (length m)" add_chunk dec_decoded
  encodes decodes "\<lambda>m. genuine_chunk (chunks_exact m)"
proof unfold_locales
  show "encodes m enc" if "encoder_new m = Inr enc" for m enc
    using encoder_new_Inr[OF that] by (simp add: encodes_def)
  show "genuine_chunk (chunks_exact m) c \<and> encodes m enc'"
    if "encodes m enc" and "next_chunk enc = Inr (c, enc')" for m enc c enc'
    using next_chunk_ok[of enc c enc'] that by (simp add: encodes_def)
  show "\<exists>dec. decoder_new (length m) = Inr dec \<and> decodes m dec" if "encoder_new m = Inr enc" for m enc
    using decoder_new_decodes[OF that] by blast
  show "decodes m dec'"
    if "decodes m dec" and "genuine_chunk (chunks_exact m) c" and "add_chunk dec c = Inr dec'" for m dec c dec'
    using add_chunk_decodes that by blast
  show "m' = m" if "decodes m dec" and "dec_decoded dec = Some m'" for m dec m'
    using that by (auto simp: decodes_def decoder_tracks_def split: if_splits)
qed


section \<open>Properties\<close>

text \<open>
  C1: the erasure code is maximum distance separable. For an accepted message of \<open>k\<close> chunks,
  the codeword at every one of the 65536 points is defined, and a fresh decoder fed the
  codewords at any distinct points, at most \<open>k\<close> of them and in any order, accepts them all; it
  holds the original message once it has \<open>k\<close> of them and no message before.
\<close>

theorem any_k_chunks_decode:
  assumes "encoder_new msg = Inr enc" and "distinct ps" and "length ps \<le> length msg div ML_KEM_BRAID_CHUNK_BYTES"
  shows "is_ok (evaluate enc p)
    \<and> (\<exists>dec. and_then (decoder_new (length msg)) (\<lambda>d. add_chunks d (chunks_at enc ps)) = Inr dec
         \<and> dec_decoded dec = (if length ps = length msg div ML_KEM_BRAID_CHUNK_BYTES then Some msg else None))"
proof -
  note e = encoder_new_Inr[OF assms(1)]
  have k: "length msg div ML_KEM_BRAID_CHUNK_BYTES = length (enc_source enc)"
    using e(6) by (simp add: braid_sizes)
  obtain d0 where d0: "decoder_new (length msg) = Inr d0" "decodes msg d0" "dec_chunks d0 = []"
    using decoder_new_decodes[OF assms(1)] by blast
  have "decoder_tracks (enc_source enc) d0" using d0(2) e(1) by (simp add: decodes_def)
  from add_chunks_tracks[OF e(3) this assms(2)] d0(3) assms(3) obtain dec where
    dec: "add_chunks d0 (chunks_at enc ps) = Inr dec" "decoder_tracks (enc_source enc) dec"
      "length (dec_chunks dec) = length ps" by (auto simp: k)
  have "dec_decoded dec = (if length ps = length (enc_source enc) then Some msg else None)"
    using dec(2,3) e(5) by (simp add: decoder_tracks_def)
  then show ?thesis using d0(1) dec(1) k by (simp add: evaluate_codeword[OF e(3)])
qed

lemma two_chunk_encoder: "\<exists>enc. encoder_new (replicate 64 7) = Inr enc"
  by (rule encoder_new_ok) (simp_all add: braid_sizes)

theorem any_k_chunks_decode_witness:
  "\<exists>enc dec. encoder_new (replicate 64 7) = Inr enc
     \<and> and_then (decoder_new 64) (\<lambda>d. add_chunks d (chunks_at enc [65535, 9])) = Inr dec
     \<and> dec_decoded dec = Some (replicate 64 7)"
proof -
  obtain enc where enc: "encoder_new (replicate 64 7) = Inr enc" using two_chunk_encoder by blast
  show ?thesis
    using any_k_chunks_decode[OF enc, of "[65535, 9]" 0] enc by (auto simp: braid_sizes)
qed

text \<open>
  the encoder emits the codewords at the points 0, 1, 2, ... in order, each point once,
  until the whole 16-bit domain is used, and then refuses with the exhaustion error instead
  of wrapping around to a point it has used.
\<close>

theorem emission_never_repeats:
  assumes "encoder_new msg = Inr enc" and "n \<le> 65536"
  shows "\<exists>enc'. emit n enc = Inr (chunks_at enc (map of_nat [0..<n]), enc')
    \<and> distinct (map chunk_point (chunks_at enc (map of_nat [0..<n])))
    \<and> (next_chunk enc' = Inl ErasureDomainExhausted \<longleftrightarrow> n = 65536)"
proof -
  note e = encoder_new_Inr[OF assms(1)]
  obtain enc' where enc': "emit n enc = Inr (chunks_at enc (map of_nat [0..<n]), enc')" "encoder_ok enc'"
      "enc_next_point enc' = of_nat n" using emit_steps[OF e(3,2) assms(2)] by blast
  have "map chunk_point (chunks_at enc ps) = ps" for ps by (simp add: chunks_at_def comp_def)
  moreover have "distinct (map (of_nat :: nat \<Rightarrow> u16) [0..<n])"
    using assms(2) by (auto simp: distinct_map intro!: inj_on_subset[OF of_nat_u16_inj])
  moreover have "(of_nat n :: u32) \<le> 0xffff \<longleftrightarrow> n \<noteq> 65536"
    using assms(2) by (auto simp: word_le_nat_alt unat_of_nat)
  ultimately show ?thesis using enc' by (auto simp: next_chunk_eq[OF enc'(2)])
qed

theorem emission_never_repeats_witness:
  "\<exists>enc enc'. encoder_new (replicate 64 7) = Inr enc \<and> emit 3 enc = Inr (chunks_at enc [0, 1, 2], enc')"
proof -
  obtain enc where enc: "encoder_new (replicate 64 7) = Inr enc" using two_chunk_encoder by blast
  have "map of_nat [0..<3] = [0, 1, 2 :: u16]" by (simp add: eval_nat_numeral)
  then show ?thesis using emission_never_repeats[OF enc, of 3] enc by auto
qed

text \<open>
  C2: a transfer over the erasure channel is faithful. If a decoder opened for the length of
  the message accepts chunks that all come out of the encoder, lost, reordered or repeated in
  any way, then a message it completes is the message that was encoded.
\<close>

theorem chunked_transfer_faithful:
  assumes "encoder_new msg = Inr enc" and "emit n enc = Inr (sent, enc')" and "set received \<subseteq> set sent"
    and "and_then (decoder_new (length msg)) (\<lambda>d. add_chunks d received) = Inr dec"
    and "take_message dec = Inr (msg', dec')"
  shows "msg' = msg"
proof -
  obtain d0 where d0: "decoder_new (length msg) = Inr d0" "add_chunks d0 received = Inr dec"
    using assms(4) by (auto simp: result_simps)
  have "dec_decoded dec = Some msg'" using assms(5) by (auto simp: take_message_def result_simps)
  then show ?thesis by (rule braid_channel.channel_faithful[OF assms(1,2,3) d0])
qed

theorem chunked_transfer_faithful_witness:
  "\<exists>enc sent enc' dec dec' m. encoder_new (replicate 64 7) = Inr enc \<and> emit 3 enc = Inr (sent, enc')
     \<and> and_then (decoder_new 64) (\<lambda>d. add_chunks d [sent ! 2, sent ! 0]) = Inr dec
     \<and> take_message dec = Inr (m, dec') \<and> m = replicate 64 7"
proof -
  obtain enc where enc: "encoder_new (replicate 64 7) = Inr enc" using two_chunk_encoder by blast
  note e = encoder_new_Inr[OF enc]
  have three: "map of_nat [0..<3] = [0, 1, 2 :: u16]" by (simp add: eval_nat_numeral)
  obtain enc' where em: "emit 3 enc = Inr (chunks_at enc [0, 1, 2], enc')"
    using emit_steps[OF e(3,2), of 3] three by auto
  obtain d0 where d0: "decoder_new 64 = Inr d0" "decodes (replicate 64 7) d0" "dec_chunks d0 = []"
    using decoder_new_decodes[OF enc] by auto
  have tr: "decoder_tracks (enc_source enc) d0" using d0(2) e(1) by (simp add: decodes_def)
  have k: "length (enc_source enc) = 2" using e(6) by (simp add: braid_sizes)
  obtain dec where dec: "add_chunks d0 (chunks_at enc [2, 0]) = Inr dec" "decoder_tracks (enc_source enc) dec"
      "length (dec_chunks dec) = 2"
    using add_chunks_tracks[OF e(3) tr, of "[2, 0]"] d0(3) k by auto
  have out: "take_message dec = Inr (replicate 64 7, dec\<lparr>dec_decoded := None\<rparr>)"
    using dec(2,3) k e(5) by (simp add: decoder_tracks_def take_message_def)
  let ?sent = "chunks_at enc [0, 1, 2]"
  have pick: "[?sent ! 2, ?sent ! 0] = chunks_at enc [2, 0]" by (simp add: chunks_at_def)
  have run: "and_then (decoder_new (length (replicate 64 (7::u8)))) (\<lambda>d. add_chunks d [?sent ! 2, ?sent ! 0]) = Inr dec"
    using d0(1) dec(1) pick by simp
  have "set [?sent ! 2, ?sent ! 0] \<subseteq> set ?sent" by (simp add: chunks_at_def)
  from chunked_transfer_faithful[OF enc em this run out] show ?thesis
    using enc em run out by auto
qed

end
