(* ===== verification/Braid_Wire.thy ===== *)
theory Braid_Wire
  imports Erasure
begin

text \<open>
  Messages of the braid and the bookkeeping of a transition: \<open>wire.rs\<close>, \<open>output.rs\<close> and
  \<open>transition.rs\<close>. The base64 engine that the chunk codec calls is a pair of parameters.
\<close>

section \<open>Messages\<close>

datatype message_type = MsgNone | Hdr | Ek | EkCt1Ack | Ct1Ack | Ct1 | Ct2

definition carries_data :: "message_type \<Rightarrow> bool" where
  "carries_data ty \<longleftrightarrow> ty \<noteq> MsgNone \<and> ty \<noteq> Ct1Ack"

record message =
  msg_epoch :: u64
  msg_type :: message_type
  msg_data :: "braid_chunk option"

definition payload :: "u64 \<Rightarrow> message_type \<Rightarrow> braid_chunk \<Rightarrow> message" where
  "payload epoch ty chunk = \<lparr>msg_epoch = epoch, msg_type = ty, msg_data = Some chunk\<rparr>"

definition empty_message :: "u64 \<Rightarrow> message_type \<Rightarrow> message" where
  "empty_message epoch ty = \<lparr>msg_epoch = epoch, msg_type = ty, msg_data = None\<rparr>"

definition message_validate :: "message \<Rightarrow> unit braid_result" where
  "message_validate m =
     ensure (msg_epoch m \<noteq> 0) EpochZeroInvalid
     (ensure (carries_data (msg_type m) = (msg_data m \<noteq> None)) TypeDataCombinationInvalid (Inr ()))"

text \<open>\<open>[u8; 32]\<close> is a type in the source; here it is a predicate on messages.\<close>

definition chunk_typed :: "braid_chunk \<Rightarrow> bool" where
  "chunk_typed c \<longleftrightarrow> length (chunk_bytes c) = ML_KEM_BRAID_CHUNK_BYTES"

definition message_typed :: "message \<Rightarrow> bool" where
  "message_typed m \<longleftrightarrow> pred_option chunk_typed (msg_data m)"

section \<open>The chunk codec\<close>

datatype codec_error = DataLengthInvalid | Base64Failed | DataNonCanonical

definition ENCODED_CHUNK_BYTES :: nat where
  "ENCODED_CHUNK_BYTES = ((ML_KEM_BRAID_CHUNK_BYTES + 2) * 8 + 5) div 6"

definition chunk_serialize :: "(bytes \<Rightarrow> bytes) \<Rightarrow> braid_chunk \<Rightarrow> bytes" where
  "chunk_serialize b64_encode c = b64_encode (u16_to_be (chunk_point c) @ chunk_bytes c)"

text \<open>
  \<open>decode_slice\<close> writes into a buffer of 34 zero bytes, fails when the text is not base64 or
  does not fit, and returns the number of bytes written; \<open>b64_decode\<close> is the bytes written.
\<close>

definition chunk_deserialize ::
    "(bytes \<Rightarrow> bytes) \<Rightarrow> (bytes \<Rightarrow> bytes option) \<Rightarrow> bytes \<Rightarrow> codec_error + braid_chunk" where
  "chunk_deserialize b64_encode b64_decode encoded =
     ensure (length encoded = ENCODED_CHUNK_BYTES) DataLengthInvalid
     (and_then (ok_or Base64Failed
        (case b64_decode encoded of
           Some d \<Rightarrow> if length d \<le> ML_KEM_BRAID_CHUNK_BYTES + 2 then Some d else None
         | None \<Rightarrow> None)) (\<lambda>written.
     (let decoded = written @ replicate (ML_KEM_BRAID_CHUNK_BYTES + 2 - length written) 0 in
      ensure (length written = ML_KEM_BRAID_CHUNK_BYTES + 2 \<and> b64_encode decoded = encoded) DataNonCanonical
      (Inr \<lparr>chunk_point = u16_from_be (decoded ! 0) (decoded ! 1), chunk_bytes = drop 2 decoded\<rparr>))))"

definition message_deserialize :: "u64 \<Rightarrow> message_type \<Rightarrow> braid_chunk option \<Rightarrow> message braid_result" where
  "message_deserialize epoch ty data =
     (let m = \<lparr>msg_epoch = epoch, msg_type = ty, msg_data = data\<rparr> in
      and_then (message_validate m) (\<lambda>_. Inr m))"

section \<open>Outputs\<close>

record output_key =
  key_epoch :: u64
  key_bytes :: bytes

record send_out =
  out_message :: message
  sending_epoch :: u64
  sent_key :: "output_key option"

record receive_out =
  receiving_epoch :: u64
  received_key :: "output_key option"

definition previous_epoch :: "u64 \<Rightarrow> u64 braid_result" where
  "previous_epoch epoch = (if epoch = 0 then Inl EpochUnderflow else Inr (epoch - 1))"

definition checked_next_epoch :: "u64 \<Rightarrow> u64 braid_result" where
  "checked_next_epoch epoch = (if epoch = - 1 then Inl EpochExhausted else Inr (epoch + 1))"

definition send_output :: "message \<Rightarrow> u64 \<Rightarrow> output_key option \<Rightarrow> send_out braid_result" where
  "send_output m state_epoch key =
     and_then (previous_epoch state_epoch) (\<lambda>e.
       Inr \<lparr>out_message = m, sending_epoch = e, sent_key = key\<rparr>)"

definition receive_output :: "u64 \<Rightarrow> output_key option \<Rightarrow> receive_out braid_result" where
  "receive_output state_epoch key =
     and_then (previous_epoch state_epoch) (\<lambda>e.
       Inr \<lparr>receiving_epoch = e, received_key = key\<rparr>)"

definition is_payload :: "message \<Rightarrow> u64 \<Rightarrow> message_type \<Rightarrow> bool" where
  "is_payload m epoch ty \<longleftrightarrow> msg_epoch m = epoch \<and> msg_type m = ty"

definition required_data :: "message \<Rightarrow> braid_chunk braid_result" where
  "required_data m = ok_or MessageDataMissing (msg_data m)"

section \<open>Lemmas\<close>

lemma previous_epoch_Inr_iff [result_simps]:
  "previous_epoch e = Inr e' \<longleftrightarrow> e \<noteq> 0 \<and> e' = e - 1"
  by (auto simp: previous_epoch_def)

lemma checked_next_epoch_Inr_iff [result_simps]:
  "checked_next_epoch e = Inr e' \<longleftrightarrow> e \<noteq> - 1 \<and> e' = e + 1"
  by (auto simp: checked_next_epoch_def)

lemma send_output_Inr_iff [result_simps]:
  "send_output m e k = Inr r \<longleftrightarrow> e \<noteq> 0 \<and> r = \<lparr>out_message = m, sending_epoch = e - 1, sent_key = k\<rparr>"
  by (auto simp: send_output_def result_simps)

lemma receive_output_Inr_iff [result_simps]:
  "receive_output e k = Inr r \<longleftrightarrow> e \<noteq> 0 \<and> r = \<lparr>receiving_epoch = e - 1, received_key = k\<rparr>"
  by (auto simp: receive_output_def result_simps)

lemma required_data_Inr_iff [result_simps]:
  "required_data m = Inr c \<longleftrightarrow> msg_data m = Some c"
  by (simp add: required_data_def result_simps)

lemma next_epoch_nonzero: "e \<noteq> - 1 \<Longrightarrow> e + 1 \<noteq> (0 :: u64)"
  by (metis add.commute eq_neg_iff_add_eq_0)

lemma next_epoch_unat: "e \<noteq> (- 1 :: u64) \<Longrightarrow> unat (e + 1) = Suc (unat e)"
  by (metis add.commute unatSuc next_epoch_nonzero)

lemma message_validate_ok [simp]:
  "e \<noteq> 0 \<Longrightarrow> carries_data ty \<Longrightarrow> message_validate (payload e ty c) = Inr ()"
  "e \<noteq> 0 \<Longrightarrow> \<not> carries_data ty \<Longrightarrow> message_validate (empty_message e ty) = Inr ()"
  by (simp_all add: message_validate_def payload_def empty_message_def)

lemma message_validate_Inr_iff [result_simps]:
  "message_validate m = Inr u \<longleftrightarrow>
     msg_epoch m \<noteq> 0 \<and> carries_data (msg_type m) = (msg_data m \<noteq> None)"
  by (auto simp: message_validate_def result_simps)

text \<open>The codec: what is accepted re-encodes to the text that was read, and every chunk is accepted.\<close>

lemma chunk_codec:
  assumes "length (chunk_bytes c) = ML_KEM_BRAID_CHUNK_BYTES"
    and "\<And>b. length b = 34 \<Longrightarrow> length (enc b) = 46 \<and> dec (enc b) = Some b"
  shows "chunk_deserialize enc dec (chunk_serialize enc c) = Inr c"
  using assms
  by (simp add: chunk_deserialize_def chunk_serialize_def ENCODED_CHUNK_BYTES_def braid_sizes u16_to_be_def)

lemma chunk_codec_canonical:
  assumes "chunk_deserialize enc dec text = Inr c"
  shows "chunk_serialize enc c = text" and "length (chunk_bytes c) = ML_KEM_BRAID_CHUNK_BYTES"
proof -
  from assms obtain d where d: "length d = 34" "enc d = text"
      "c = \<lparr>chunk_point = u16_from_be (d ! 0) (d ! 1), chunk_bytes = drop 2 d\<rparr>"
    by (auto simp: chunk_deserialize_def Let_def result_simps braid_sizes split: option.splits if_splits)
  have "d = d ! 0 # d ! 1 # drop 2 d"
    using d(1) by (metis Cons_nth_drop_Suc One_nat_def Suc_1 drop0 pos2 less_numeral_extra(1) numeral_less_iff
        order.strict_trans one_less_numeral_iff semiring_norm(76) zero_less_numeral)
  then show "chunk_serialize enc c = text"
    using d by (simp add: chunk_serialize_def)
  show "length (chunk_bytes c) = ML_KEM_BRAID_CHUNK_BYTES" using d by (simp add: braid_sizes)
qed

end
