(* ===== verification/Braid_Crypto.thy ===== *)
theory Braid_Crypto
  imports Braid_Wire
begin

text \<open>
  The cryptographic services of the braid, \<open>authenticator.rs\<close>, \<open>secret.rs\<close> and
  \<open>encapsulation_kdf.rs\<close>. The primitives of the packages the code calls (incremental
  ML-KEM-1024 of libcrux, HKDF-SHA256 and HMAC-SHA256) are the fields of a record \<open>crypto\<close>
  that every definition takes as its argument; \<open>crypto_sizes\<close> and \<open>kem_correct\<close> state
  what the code relies on: the documented lengths of the outputs, and that decapsulation
  returns the secret of the encapsulation.
\<close>

section \<open>The external primitives\<close>

record crypto =
  keygen_seed_len :: nat
  encaps_state_len :: nat
  pk2_len :: nat
  generate_key_pair :: "bytes \<Rightarrow> bytes"
  validate_pk_bytes :: "bytes \<Rightarrow> bytes \<Rightarrow> bool"
  encapsulate1 :: "bytes \<Rightarrow> bytes \<Rightarrow> (bytes \<times> bytes \<times> bytes) option"
  encapsulate2 :: "bytes \<Rightarrow> bytes \<Rightarrow> bytes"
  decapsulate_key :: "bytes \<Rightarrow> bytes \<Rightarrow> bytes \<Rightarrow> bytes"
  hkdf_sha256 :: "bytes \<Rightarrow> bytes \<Rightarrow> bytes \<Rightarrow> nat \<Rightarrow> bytes option"
  hmac_sha256 :: "bytes \<Rightarrow> bytes \<Rightarrow> bytes option"

text \<open>
  \<open>encapsulate1 header randomness\<close> is the first ciphertext with the contents of the two
  output buffers, the encapsulation state and the shared secret.
\<close>

definition header_of_key_pair :: "crypto \<Rightarrow> bytes \<Rightarrow> bytes" where
  "header_of_key_pair c kp = take ML_KEM_BRAID_HEADER_BYTES (drop (pk2_len c * 2) kp)"

definition ek_of_key_pair :: "crypto \<Rightarrow> bytes \<Rightarrow> bytes" where
  "ek_of_key_pair c kp = take ML_KEM_BRAID_EK_BYTES (drop (pk2_len c) kp)"

definition crypto_sizes :: "crypto \<Rightarrow> bool" where
  "crypto_sizes c \<longleftrightarrow> pk2_len c = ML_KEM_BRAID_EK_BYTES
     \<and> (\<forall>seed. pk2_len c * 2 + ML_KEM_BRAID_HEADER_BYTES \<le> length (generate_key_pair c seed))
     \<and> (\<forall>h r ct1 st ss. encapsulate1 c h r = Some (ct1, st, ss) \<longrightarrow>
           length ct1 = ML_KEM_BRAID_CT1_BYTES \<and> length st = encaps_state_len c \<and> length ss = 32)
     \<and> (\<forall>st ek. length (encapsulate2 c st ek) = ML_KEM_BRAID_CT2_BYTES)
     \<and> (\<forall>salt ikm info n out. hkdf_sha256 c salt ikm info n = Some out \<longrightarrow> length out = n)
     \<and> (\<forall>k m tag. hmac_sha256 c k m = Some tag \<longrightarrow> length tag = ML_KEM_BRAID_MAC_BYTES)"

definition kem_correct :: "crypto \<Rightarrow> bool" where
  "kem_correct c \<longleftrightarrow> (\<forall>seed r ct1 st ss.
     let kp = generate_key_pair c seed in
     length seed = keygen_seed_len c \<longrightarrow>
     encapsulate1 c (header_of_key_pair c kp) r = Some (ct1, st, ss) \<longrightarrow>
     decapsulate_key c kp ct1 (encapsulate2 c st (ek_of_key_pair c kp)) = ss)"

section \<open>Secrets and the ratcheted authenticator\<close>

definition secret_ensure_len :: "bytes \<Rightarrow> nat \<Rightarrow> unit braid_result" where
  "secret_ensure_len s expected = ensure (length s = expected) SecretLengthInvalid (Inr ())"

record authenticator =
  root_key :: bytes
  mac_key :: bytes

definition auth_update :: "crypto \<Rightarrow> u64 \<Rightarrow> bytes \<Rightarrow> authenticator \<Rightarrow> authenticator braid_result" where
  "auth_update c epoch key auth =
     (let info = PROTOCOL_INFO @ AUTH_UPDATE_LABEL @ u64_to_be epoch in
      and_then (ok_or AuthenticatorKdfFailed (hkdf_sha256 c (root_key auth) key info 64)) (\<lambda>expanded.
      ensure (length (root_key auth) = length (take 32 expanded)
         \<and> length (mac_key auth) = length (drop 32 expanded)) Panic
      (Inr (auth\<lparr>root_key := take 32 expanded, mac_key := drop 32 expanded\<rparr>))))"

definition auth_initialize :: "crypto \<Rightarrow> u64 \<Rightarrow> bytes \<Rightarrow> authenticator braid_result" where
  "auth_initialize c epoch key =
     auth_update c epoch key \<lparr>root_key = replicate 32 0, mac_key = replicate 32 0\<rparr>"

definition auth_mac :: "crypto \<Rightarrow> authenticator \<Rightarrow> bytes \<Rightarrow> u64 \<Rightarrow> bytes \<Rightarrow> bytes braid_result" where
  "auth_mac c auth label epoch body =
     ok_or MacKeyInvalid
       (hmac_sha256 c (mac_key auth) (PROTOCOL_INFO @ label @ u64_to_be epoch @ body))"

definition auth_verify ::
    "crypto \<Rightarrow> authenticator \<Rightarrow> bytes \<Rightarrow> u64 \<Rightarrow> bytes \<Rightarrow> bytes \<Rightarrow> unit braid_result" where
  "auth_verify c auth label epoch body expected =
     ensure (length expected = ML_KEM_BRAID_MAC_BYTES) MacLengthInvalid
     (and_then (ok_or MacKeyInvalid
       (hmac_sha256 c (mac_key auth) (PROTOCOL_INFO @ label @ u64_to_be epoch @ body))) (\<lambda>tag.
      ensure (expected = tag) AuthenticationFailed (Inr ())))"

definition mac_header :: "crypto \<Rightarrow> authenticator \<Rightarrow> u64 \<Rightarrow> bytes \<Rightarrow> bytes braid_result" where
  "mac_header c auth epoch header = auth_mac c auth HEADER_MAC_LABEL epoch header"

definition mac_ciphertext :: "crypto \<Rightarrow> authenticator \<Rightarrow> u64 \<Rightarrow> bytes \<Rightarrow> bytes braid_result" where
  "mac_ciphertext c auth epoch ciphertext = auth_mac c auth CIPHERTEXT_MAC_LABEL epoch ciphertext"

definition verify_header ::
    "crypto \<Rightarrow> authenticator \<Rightarrow> u64 \<Rightarrow> bytes \<Rightarrow> bytes \<Rightarrow> unit braid_result" where
  "verify_header c auth epoch header expected = auth_verify c auth HEADER_MAC_LABEL epoch header expected"

definition verify_ciphertext ::
    "crypto \<Rightarrow> authenticator \<Rightarrow> u64 \<Rightarrow> bytes \<Rightarrow> bytes \<Rightarrow> unit braid_result" where
  "verify_ciphertext c auth epoch ciphertext expected =
     auth_verify c auth CIPHERTEXT_MAC_LABEL epoch ciphertext expected"

definition auth_validate :: "authenticator \<Rightarrow> unit braid_result" where
  "auth_validate auth =
     and_then (secret_ensure_len (root_key auth) 32) (\<lambda>_. secret_ensure_len (mac_key auth) 32)"

section \<open>Encapsulation and key derivation\<close>

definition derive_output_key :: "crypto \<Rightarrow> bytes \<Rightarrow> u64 \<Rightarrow> output_key braid_result" where
  "derive_output_key c raw_shared_secret epoch =
     (let info = PROTOCOL_INFO @ OUTPUT_KEY_LABEL @ u64_to_be epoch in
      and_then (ok_or OutputKeyKdfFailed (hkdf_sha256 c (replicate 32 0) raw_shared_secret info 32))
        (\<lambda>out. Inr \<lparr>key_epoch = epoch, key_bytes = out\<rparr>))"

definition validate_encapsulation_key :: "crypto \<Rightarrow> bytes \<Rightarrow> bytes \<Rightarrow> unit braid_result" where
  "validate_encapsulation_key c header ek_vector =
     ensure (length header = ML_KEM_BRAID_HEADER_BYTES \<and> length ek_vector = ML_KEM_BRAID_EK_BYTES)
       EncapsulationKeyLengthInvalid
     (ensure (validate_pk_bytes c header ek_vector) EncapsulationKeyIntegrityFailed (Inr ()))"

definition complete_encapsulation ::
    "crypto \<Rightarrow> authenticator \<Rightarrow> u64 \<Rightarrow> bytes \<Rightarrow> bytes \<Rightarrow> bytes \<Rightarrow> encoder braid_result" where
  "complete_encapsulation c auth epoch encaps_state ct1 ek_vector =
     and_then (secret_ensure_len encaps_state (encaps_state_len c)) (\<lambda>_.
     ensure (length ct1 = ML_KEM_BRAID_CT1_BYTES \<and> length ek_vector = ML_KEM_BRAID_EK_BYTES)
       EncapsulationInputLengthInvalid
     (ensure (length encaps_state = encaps_state_len c) EncapsulationStateInvalid
     (ensure (length ek_vector = pk2_len c) EncapsulationVectorInvalid
     (let ciphertext2 = encapsulate2 c encaps_state ek_vector in
      and_then (mac_ciphertext c auth epoch (ct1 @ ciphertext2)) (\<lambda>mac.
        encoder_new (ciphertext2 @ mac))))))"

definition decapsulate :: "crypto \<Rightarrow> bytes \<Rightarrow> bytes \<Rightarrow> bytes \<Rightarrow> bytes braid_result" where
  "decapsulate c key_seed ct1 ct2 =
     and_then (secret_ensure_len key_seed (keygen_seed_len c)) (\<lambda>_.
     ensure (length ct1 = ML_KEM_BRAID_CT1_BYTES \<and> length ct2 = ML_KEM_BRAID_CT2_BYTES)
       CiphertextLengthInvalid
     (Inr (decapsulate_key c (generate_key_pair c key_seed) ct1 ct2)))"

section \<open>Lemmas\<close>

definition auth_ok :: "authenticator \<Rightarrow> bool" where
  "auth_ok auth \<longleftrightarrow> length (root_key auth) = 32 \<and> length (mac_key auth) = 32"

lemma secret_ensure_len_Inr_iff [result_simps]:
  "secret_ensure_len s n = Inr u \<longleftrightarrow> length s = n"
  by (auto simp: secret_ensure_len_def result_simps)

lemma auth_validate_Inr_iff [result_simps]: "auth_validate auth = Inr u \<longleftrightarrow> auth_ok auth"
  by (auto simp: auth_validate_def auth_ok_def result_simps)

lemma auth_update_ok:
  assumes "crypto_sizes c" and "auth_update c epoch key auth = Inr auth'"
  shows "auth_ok auth'"
proof -
  obtain x where "hkdf_sha256 c (root_key auth) key (PROTOCOL_INFO @ AUTH_UPDATE_LABEL @ u64_to_be epoch) 64 = Some x"
      "auth' = auth\<lparr>root_key := take 32 x, mac_key := drop 32 x\<rparr>"
    using assms(2) by (auto simp: auth_update_def Let_def result_simps)
  moreover from this have "length x = 64" using assms(1) unfolding crypto_sizes_def by blast
  ultimately show ?thesis by (simp add: auth_ok_def)
qed

lemma auth_initialize_ok:
  "crypto_sizes c \<Longrightarrow> auth_initialize c epoch key = Inr auth \<Longrightarrow> auth_ok auth"
  unfolding auth_initialize_def by (rule auth_update_ok)

lemma auth_mac_length:
  "crypto_sizes c \<Longrightarrow> auth_mac c auth label epoch body = Inr tag \<Longrightarrow> length tag = ML_KEM_BRAID_MAC_BYTES"
  unfolding crypto_sizes_def auth_mac_def result_simps by blast

text \<open>A tag verifies exactly when it is the one the same authenticator computes.\<close>

lemma auth_verify_iff [result_simps]:
  "auth_verify c auth label epoch body expected = Inr u \<longleftrightarrow>
     length expected = ML_KEM_BRAID_MAC_BYTES \<and> auth_mac c auth label epoch body = Inr expected"
  by (auto simp: auth_verify_def auth_mac_def result_simps)

lemma validate_encapsulation_key_Inr_iff [result_simps]:
  "validate_encapsulation_key c header ek = Inr u \<longleftrightarrow>
     length header = ML_KEM_BRAID_HEADER_BYTES \<and> length ek = ML_KEM_BRAID_EK_BYTES \<and> validate_pk_bytes c header ek"
  by (auto simp: validate_encapsulation_key_def result_simps)

lemma derive_output_key_Inr:
  assumes "derive_output_key c ss epoch = Inr k"
  shows "key_epoch k = epoch"
  using assms by (auto simp: derive_output_key_def Let_def result_simps)

lemma complete_encapsulation_Inr:
  assumes "crypto_sizes c" and "complete_encapsulation c auth epoch st ct1 ek = Inr enc"
  shows "\<exists>mac. mac_ciphertext c auth epoch (ct1 @ encapsulate2 c st ek) = Inr mac
    \<and> encoder_new (encapsulate2 c st ek @ mac) = Inr enc
    \<and> length (encapsulate2 c st ek @ mac) = ML_KEM_BRAID_CT2_BYTES + ML_KEM_BRAID_MAC_BYTES
    \<and> length st = encaps_state_len c \<and> length ct1 = ML_KEM_BRAID_CT1_BYTES \<and> length ek = ML_KEM_BRAID_EK_BYTES"
proof -
  obtain mac where mac: "mac_ciphertext c auth epoch (ct1 @ encapsulate2 c st ek) = Inr mac"
      "encoder_new (encapsulate2 c st ek @ mac) = Inr enc"
      "length st = encaps_state_len c" "length ct1 = ML_KEM_BRAID_CT1_BYTES" "length ek = ML_KEM_BRAID_EK_BYTES"
    using assms(2) by (auto simp: complete_encapsulation_def Let_def result_simps)
  moreover have "length mac = ML_KEM_BRAID_MAC_BYTES"
    using mac(1) auth_mac_length[OF assms(1)] by (simp add: mac_ciphertext_def)
  moreover have "length (encapsulate2 c st ek) = ML_KEM_BRAID_CT2_BYTES"
    using assms(1) by (simp add: crypto_sizes_def)
  ultimately show ?thesis by auto
qed

lemma decapsulate_Inr_iff [result_simps]:
  "decapsulate c seed ct1 ct2 = Inr ss \<longleftrightarrow> length seed = keygen_seed_len c
     \<and> length ct1 = ML_KEM_BRAID_CT1_BYTES \<and> length ct2 = ML_KEM_BRAID_CT2_BYTES
     \<and> ss = decapsulate_key c (generate_key_pair c seed) ct1 ct2"
  by (auto simp: decapsulate_def result_simps)

end
