(* ===== verification/Braid_State.thy ===== *)
theory Braid_State
  imports Braid_Crypto
begin

text \<open>
  The states of a braid session and the check a restored state has to pass:
  \<open>protocol_state.rs\<close>, \<open>validation.rs\<close>. The constructors take their fields in the order of
  the source.
\<close>

datatype protocol_state =
    KeysUnsampled (state_epoch: u64) authenticator
      \<comment> \<open>epoch, auth\<close>
  | KeysSampled (state_epoch: u64) authenticator bytes bytes encoder
      \<comment> \<open>epoch, auth, key seed, ek vector, header encoder\<close>
  | HeaderSent (state_epoch: u64) authenticator bytes decoder encoder
      \<comment> \<open>epoch, auth, key seed, ct1 decoder, ek encoder\<close>
  | Ct1Received (state_epoch: u64) authenticator bytes bytes encoder
      \<comment> \<open>epoch, auth, key seed, ct1, ek encoder\<close>
  | EkSentCt1Received (state_epoch: u64) authenticator bytes bytes decoder
      \<comment> \<open>epoch, auth, key seed, ct1, ct2 decoder\<close>
  | NoHeaderReceived (state_epoch: u64) authenticator decoder
      \<comment> \<open>epoch, auth, header decoder\<close>
  | HeaderReceived (state_epoch: u64) authenticator bytes decoder
      \<comment> \<open>epoch, auth, header, ek decoder\<close>
  | Ct1Sampled (state_epoch: u64) authenticator bytes bytes bytes encoder decoder
      \<comment> \<open>epoch, auth, header, encaps state, ct1, ct1 encoder, ek decoder\<close>
  | EkReceivedCt1Sampled (state_epoch: u64) authenticator bytes bytes bytes encoder
      \<comment> \<open>epoch, auth, encaps state, ct1, ek vector, ct1 encoder\<close>
  | Ct1Acknowledged (state_epoch: u64) authenticator bytes bytes bytes decoder
      \<comment> \<open>epoch, auth, header, encaps state, ct1, ek decoder\<close>
  | Ct2Sampled (state_epoch: u64) authenticator encoder
      \<comment> \<open>epoch, auth, ct2 encoder\<close>
  | Poisoned (state_epoch: u64)

datatype braid_state_name =
    KeysUnsampledN | KeysSampledN | HeaderSentN | Ct1ReceivedN | EkSentCt1ReceivedN
  | NoHeaderReceivedN | HeaderReceivedN | Ct1SampledN | EkReceivedCt1SampledN
  | Ct1AcknowledgedN | Ct2SampledN | PoisonedN

fun state_name :: "protocol_state \<Rightarrow> braid_state_name" where
  "state_name (KeysUnsampled _ _) = KeysUnsampledN"
| "state_name (KeysSampled _ _ _ _ _) = KeysSampledN"
| "state_name (HeaderSent _ _ _ _ _) = HeaderSentN"
| "state_name (Ct1Received _ _ _ _ _) = Ct1ReceivedN"
| "state_name (EkSentCt1Received _ _ _ _ _) = EkSentCt1ReceivedN"
| "state_name (NoHeaderReceived _ _ _) = NoHeaderReceivedN"
| "state_name (HeaderReceived _ _ _ _) = HeaderReceivedN"
| "state_name (Ct1Sampled _ _ _ _ _ _ _) = Ct1SampledN"
| "state_name (EkReceivedCt1Sampled _ _ _ _ _ _) = EkReceivedCt1SampledN"
| "state_name (Ct1Acknowledged _ _ _ _ _ _) = Ct1AcknowledgedN"
| "state_name (Ct2Sampled _ _ _) = Ct2SampledN"
| "state_name (Poisoned _) = PoisonedN"

section \<open>Validation of a restored state\<close>

definition validate_encoder :: "encoder \<Rightarrow> nat \<Rightarrow> encoder braid_result" where
  "validate_encoder enc expected_bytes =
     and_then (rebuild_cache enc) (\<lambda>enc.
     ensure (encoder_message_bytes enc = expected_bytes) PersistedEncoderSizeInvalid (Inr enc))"

fun validate_fields :: "crypto \<Rightarrow> protocol_state \<Rightarrow> protocol_state braid_result" where
  "validate_fields c (KeysUnsampled epoch auth) =
     and_then (auth_validate auth) (\<lambda>_. Inr (KeysUnsampled epoch auth))"
| "validate_fields c (KeysSampled epoch auth key_seed ek_vector header_encoder) =
     and_then (auth_validate auth) (\<lambda>_.
     and_then (secret_ensure_len key_seed (keygen_seed_len c)) (\<lambda>_.
     ensure (length ek_vector = ML_KEM_BRAID_EK_BYTES) PersistedEkLengthInvalid
     (and_then (validate_encoder header_encoder (ML_KEM_BRAID_HEADER_BYTES + ML_KEM_BRAID_MAC_BYTES)) (\<lambda>header_encoder.
     Inr (KeysSampled epoch auth key_seed ek_vector header_encoder)))))"
| "validate_fields c (HeaderSent epoch auth key_seed ct1_decoder ek_encoder) =
     and_then (auth_validate auth) (\<lambda>_.
     and_then (secret_ensure_len key_seed (keygen_seed_len c)) (\<lambda>_.
     and_then (validate_active ct1_decoder ML_KEM_BRAID_CT1_BYTES) (\<lambda>_.
     and_then (validate_encoder ek_encoder ML_KEM_BRAID_EK_BYTES) (\<lambda>ek_encoder.
     Inr (HeaderSent epoch auth key_seed ct1_decoder ek_encoder)))))"
| "validate_fields c (Ct1Received epoch auth key_seed ct1 ek_encoder) =
     and_then (auth_validate auth) (\<lambda>_.
     and_then (secret_ensure_len key_seed (keygen_seed_len c)) (\<lambda>_.
     ensure (length ct1 = ML_KEM_BRAID_CT1_BYTES) PersistedCt1LengthInvalid
     (and_then (validate_encoder ek_encoder ML_KEM_BRAID_EK_BYTES) (\<lambda>ek_encoder.
     Inr (Ct1Received epoch auth key_seed ct1 ek_encoder)))))"
| "validate_fields c (EkSentCt1Received epoch auth key_seed ct1 ct2_decoder) =
     and_then (auth_validate auth) (\<lambda>_.
     and_then (secret_ensure_len key_seed (keygen_seed_len c)) (\<lambda>_.
     ensure (length ct1 = ML_KEM_BRAID_CT1_BYTES) PersistedCt1LengthInvalid
     (and_then (validate_active ct2_decoder (ML_KEM_BRAID_CT2_BYTES + ML_KEM_BRAID_MAC_BYTES)) (\<lambda>_.
     Inr (EkSentCt1Received epoch auth key_seed ct1 ct2_decoder)))))"
| "validate_fields c (NoHeaderReceived epoch auth header_decoder) =
     and_then (auth_validate auth) (\<lambda>_.
     and_then (validate_active header_decoder (ML_KEM_BRAID_HEADER_BYTES + ML_KEM_BRAID_MAC_BYTES)) (\<lambda>_.
     Inr (NoHeaderReceived epoch auth header_decoder)))"
| "validate_fields c (HeaderReceived epoch auth header ek_decoder) =
     and_then (auth_validate auth) (\<lambda>_.
     ensure (length header = ML_KEM_BRAID_HEADER_BYTES) PersistedHeaderLengthInvalid
     (and_then (validate_active ek_decoder ML_KEM_BRAID_EK_BYTES) (\<lambda>_.
     Inr (HeaderReceived epoch auth header ek_decoder))))"
| "validate_fields c (Ct1Sampled epoch auth header encaps_state ct1 ct1_encoder ek_decoder) =
     and_then (auth_validate auth) (\<lambda>_.
     ensure (length header = ML_KEM_BRAID_HEADER_BYTES \<and> length ct1 = ML_KEM_BRAID_CT1_BYTES) PersistedSampledLengthInvalid
     (and_then (secret_ensure_len encaps_state (encaps_state_len c)) (\<lambda>_.
     and_then (validate_encoder ct1_encoder ML_KEM_BRAID_CT1_BYTES) (\<lambda>ct1_encoder.
     and_then (validate_active ek_decoder ML_KEM_BRAID_EK_BYTES) (\<lambda>_.
     Inr (Ct1Sampled epoch auth header encaps_state ct1 ct1_encoder ek_decoder))))))"
| "validate_fields c (EkReceivedCt1Sampled epoch auth encaps_state ct1 ek_vector ct1_encoder) =
     and_then (auth_validate auth) (\<lambda>_.
     and_then (secret_ensure_len encaps_state (encaps_state_len c)) (\<lambda>_.
     ensure (length ct1 = ML_KEM_BRAID_CT1_BYTES \<and> length ek_vector = ML_KEM_BRAID_EK_BYTES) PersistedSampledLengthInvalid
     (and_then (validate_encoder ct1_encoder ML_KEM_BRAID_CT1_BYTES) (\<lambda>ct1_encoder.
     Inr (EkReceivedCt1Sampled epoch auth encaps_state ct1 ek_vector ct1_encoder)))))"
| "validate_fields c (Ct1Acknowledged epoch auth header encaps_state ct1 ek_decoder) =
     and_then (auth_validate auth) (\<lambda>_.
     and_then (secret_ensure_len encaps_state (encaps_state_len c)) (\<lambda>_.
     ensure (length header = ML_KEM_BRAID_HEADER_BYTES \<and> length ct1 = ML_KEM_BRAID_CT1_BYTES) PersistedAcknowledgedLengthInvalid
     (and_then (validate_active ek_decoder ML_KEM_BRAID_EK_BYTES) (\<lambda>_.
     Inr (Ct1Acknowledged epoch auth header encaps_state ct1 ek_decoder)))))"
| "validate_fields c (Ct2Sampled epoch auth ct2_encoder) =
     and_then (auth_validate auth) (\<lambda>_.
     and_then (validate_encoder ct2_encoder (ML_KEM_BRAID_CT2_BYTES + ML_KEM_BRAID_MAC_BYTES)) (\<lambda>ct2_encoder.
     Inr (Ct2Sampled epoch auth ct2_encoder)))"
| "validate_fields c (Poisoned epoch) = Inr (Poisoned epoch)"

definition validate_restored_state :: "crypto \<Rightarrow> protocol_state \<Rightarrow> protocol_state braid_result" where
  "validate_restored_state c s =
     ensure (state_epoch s \<noteq> 0) PersistedEpochInvalid (validate_fields c s)"

section \<open>The invariant of a live session\<close>

text \<open>
  \<open>encoder_for n\<close> and \<open>decoder_for n\<close> are the encoders and decoders of messages of \<open>n\<close>
  bytes that a transition leaves behind; \<open>state_ok\<close> asks them of the fields of a state.
\<close>

definition encoder_for :: "nat \<Rightarrow> encoder \<Rightarrow> bool" where
  "encoder_for n enc \<longleftrightarrow> encoder_ok enc \<and> length (enc_source enc) * ML_KEM_BRAID_CHUNK_BYTES = n"

definition decoder_for :: "nat \<Rightarrow> decoder \<Rightarrow> bool" where
  "decoder_for n dec \<longleftrightarrow> bt_wf (dec_chunks dec) \<and> validate_active dec n = Inr ()"

fun fields_ok :: "crypto \<Rightarrow> protocol_state \<Rightarrow> bool" where
  "fields_ok c (KeysUnsampled e auth) = auth_ok auth"
| "fields_ok c (KeysSampled e auth seed ek enc) =
     (auth_ok auth \<and> length seed = keygen_seed_len c \<and> length ek = ML_KEM_BRAID_EK_BYTES \<and> encoder_for 96 enc)"
| "fields_ok c (HeaderSent e auth seed dec enc) =
     (auth_ok auth \<and> length seed = keygen_seed_len c \<and> decoder_for 1408 dec \<and> encoder_for 1536 enc)"
| "fields_ok c (Ct1Received e auth seed ct1 enc) =
     (auth_ok auth \<and> length seed = keygen_seed_len c \<and> length ct1 = ML_KEM_BRAID_CT1_BYTES \<and> encoder_for 1536 enc)"
| "fields_ok c (EkSentCt1Received e auth seed ct1 dec) =
     (auth_ok auth \<and> length seed = keygen_seed_len c \<and> length ct1 = ML_KEM_BRAID_CT1_BYTES \<and> decoder_for 192 dec)"
| "fields_ok c (NoHeaderReceived e auth dec) = (auth_ok auth \<and> decoder_for 96 dec)"
| "fields_ok c (HeaderReceived e auth header dec) =
     (auth_ok auth \<and> length header = ML_KEM_BRAID_HEADER_BYTES \<and> decoder_for 1536 dec)"
| "fields_ok c (Ct1Sampled e auth header st ct1 enc dec) =
     (auth_ok auth \<and> length header = ML_KEM_BRAID_HEADER_BYTES \<and> length st = encaps_state_len c
      \<and> length ct1 = ML_KEM_BRAID_CT1_BYTES \<and> encoder_for 1408 enc \<and> decoder_for 1536 dec)"
| "fields_ok c (EkReceivedCt1Sampled e auth st ct1 ek enc) =
     (auth_ok auth \<and> length st = encaps_state_len c \<and> length ct1 = ML_KEM_BRAID_CT1_BYTES
      \<and> length ek = ML_KEM_BRAID_EK_BYTES \<and> encoder_for 1408 enc)"
| "fields_ok c (Ct1Acknowledged e auth header st ct1 dec) =
     (auth_ok auth \<and> length header = ML_KEM_BRAID_HEADER_BYTES \<and> length st = encaps_state_len c
      \<and> length ct1 = ML_KEM_BRAID_CT1_BYTES \<and> decoder_for 1536 dec)"
| "fields_ok c (Ct2Sampled e auth enc) = (auth_ok auth \<and> encoder_for 192 enc)"
| "fields_ok c (Poisoned e) = True"

definition state_ok :: "crypto \<Rightarrow> protocol_state \<Rightarrow> bool" where
  "state_ok c s \<longleftrightarrow> state_epoch s \<noteq> 0 \<and> fields_ok c s"

text \<open>
  The encoder cache is not part of the persisted image: \<open>forget_caches\<close> is what serialising
  and deserialising a state leaves of it.
\<close>

definition forget_cache :: "encoder \<Rightarrow> encoder" where
  "forget_cache enc = enc\<lparr>enc_denominator_inverses := []\<rparr>"

fun forget_caches :: "protocol_state \<Rightarrow> protocol_state" where
  "forget_caches (KeysSampled e auth seed ek enc) = KeysSampled e auth seed ek (forget_cache enc)"
| "forget_caches (HeaderSent e auth seed dec enc) = HeaderSent e auth seed dec (forget_cache enc)"
| "forget_caches (Ct1Received e auth seed ct1 enc) = Ct1Received e auth seed ct1 (forget_cache enc)"
| "forget_caches (Ct1Sampled e auth header st ct1 enc dec) = Ct1Sampled e auth header st ct1 (forget_cache enc) dec"
| "forget_caches (EkReceivedCt1Sampled e auth st ct1 ek enc) = EkReceivedCt1Sampled e auth st ct1 ek (forget_cache enc)"
| "forget_caches (Ct2Sampled e auth enc) = Ct2Sampled e auth (forget_cache enc)"
| "forget_caches s = s"

section \<open>Lemmas on encoders and decoders of a given size\<close>

lemma encoder_for_new:
  "encoder_new msg = Inr enc \<Longrightarrow> length msg = n \<Longrightarrow> encoder_for n enc"
  using encoder_new_Inr(3,6)[of msg enc] by (simp add: encoder_for_def)

lemma encoder_for_next:
  "encoder_for n enc \<Longrightarrow> next_chunk enc = Inr (ch, enc') \<Longrightarrow> encoder_for n enc'"
  using next_chunk_ok(1,2)[of enc ch enc'] by (simp add: encoder_for_def)

lemma next_chunk_typed:
  "encoder_ok enc \<Longrightarrow> next_chunk enc = Inr (ch, enc') \<Longrightarrow> chunk_typed ch"
  by (auto simp: next_chunk_eq chunk_typed_def split: if_splits)

lemma validate_encoder_forget:
  assumes "encoder_for n enc"
  shows "validate_encoder (forget_cache enc) n = Inr enc"
proof -
  have ok: "rebuild_cache enc = Inr enc" and n: "encoder_message_bytes enc = n"
    using assms by (simp_all add: encoder_for_def encoder_ok_def encoder_message_bytes_def)
  then have shape: "encoder_shape enc"
    and enc: "enc = enc\<lparr>enc_denominator_inverses := denominator_cache (length (enc_source enc))\<rparr>"
    unfolding rebuild_cache_Inr_iff by simp_all
  have "enc = (forget_cache enc)\<lparr>enc_denominator_inverses := denominator_cache (length (enc_source (forget_cache enc)))\<rparr>"
    using enc by (simp add: forget_cache_def)
  moreover have "encoder_shape (forget_cache enc)"
    using shape by (simp add: forget_cache_def encoder_shape_def)
  ultimately have "rebuild_cache (forget_cache enc) = Inr enc"
    unfolding rebuild_cache_Inr_iff by blast
  then show ?thesis using n by (simp add: validate_encoder_def)
qed

lemma decoder_for_new:
  assumes "decoder_new n = Inr dec"
  shows "decoder_for n dec"
  using assms
  by (auto simp: decoder_for_def decoder_new_def validate_active_def decoder_validate_def source_count_def
      result_simps)

lemma validate_forget_caches:
  assumes "state_ok c s"
  shows "validate_restored_state c (forget_caches s) = Inr s"
  using assms
  by (cases s) (auto simp: state_ok_def validate_restored_state_def result_simps braid_sizes decoder_for_def
      validate_encoder_forget)

end
