(* ===== verification/Braid_Send.thy ===== *)
theory Braid_Send
  imports Braid_State
begin

text \<open>
  \<open>send_transition.rs\<close>: the message a session emits in each of its states, and the state it
  moves to. One definition per arm of \<open>send_state\<close>. The randomness source is the argument
  \<open>fill\<close>: \<open>fill n\<close> is what \<open>fill_bytes\<close> writes into a buffer of \<open>n\<close> bytes during this
  send, which asks for randomness at most once.
\<close>

section \<open>The arms of \<open>send_state\<close>\<close>

definition send_keys_unsampled ::
    "crypto \<Rightarrow> (nat \<Rightarrow> bytes) \<Rightarrow> u64 \<Rightarrow> authenticator \<Rightarrow> (protocol_state \<times> send_out) braid_result" where
  "send_keys_unsampled c fill epoch auth =
     (let key_seed = fill (keygen_seed_len c);
          key_pair = generate_key_pair c key_seed;
          ek_offset = pk2_len c;
          header_offset = ek_offset * 2 in
      and_then (ok_or Panic (subrange header_offset (header_offset + ML_KEM_BRAID_HEADER_BYTES) key_pair)) (\<lambda>header.
      and_then (ok_or Panic (subrange ek_offset (ek_offset + ML_KEM_BRAID_EK_BYTES) key_pair)) (\<lambda>ek_vector.
      ensure (validate_pk_bytes c header ek_vector) GeneratedKeyInvalid
      (and_then (mac_header c auth epoch header) (\<lambda>mac.
      and_then (encoder_new (header @ mac)) (\<lambda>header_encoder.
      and_then (next_chunk header_encoder) (\<lambda>(chunk, header_encoder).
      and_then (send_output (payload epoch Hdr chunk) epoch None) (\<lambda>out.
      Inr (KeysSampled epoch auth key_seed ek_vector header_encoder, out)))))))))"

definition send_keys_sampled ::
    "u64 \<Rightarrow> authenticator \<Rightarrow> bytes \<Rightarrow> bytes \<Rightarrow> encoder \<Rightarrow> (protocol_state \<times> send_out) braid_result" where
  "send_keys_sampled epoch auth key_seed ek_vector header_encoder =
     and_then (next_chunk header_encoder) (\<lambda>(chunk, header_encoder).
     and_then (send_output (payload epoch Hdr chunk) epoch None) (\<lambda>out.
     Inr (KeysSampled epoch auth key_seed ek_vector header_encoder, out)))"

definition send_header_sent ::
    "u64 \<Rightarrow> authenticator \<Rightarrow> bytes \<Rightarrow> decoder \<Rightarrow> encoder \<Rightarrow> (protocol_state \<times> send_out) braid_result" where
  "send_header_sent epoch auth key_seed ct1_decoder ek_encoder =
     and_then (next_chunk ek_encoder) (\<lambda>(chunk, ek_encoder).
     and_then (send_output (payload epoch Ek chunk) epoch None) (\<lambda>out.
     Inr (HeaderSent epoch auth key_seed ct1_decoder ek_encoder, out)))"

definition send_ct1_received ::
    "u64 \<Rightarrow> authenticator \<Rightarrow> bytes \<Rightarrow> bytes \<Rightarrow> encoder \<Rightarrow> (protocol_state \<times> send_out) braid_result" where
  "send_ct1_received epoch auth key_seed ct1 ek_encoder =
     and_then (next_chunk ek_encoder) (\<lambda>(chunk, ek_encoder).
     and_then (send_output (payload epoch EkCt1Ack chunk) epoch None) (\<lambda>out.
     Inr (Ct1Received epoch auth key_seed ct1 ek_encoder, out)))"

definition send_ek_sent_ct1_received ::
    "u64 \<Rightarrow> authenticator \<Rightarrow> bytes \<Rightarrow> bytes \<Rightarrow> decoder \<Rightarrow> (protocol_state \<times> send_out) braid_result" where
  "send_ek_sent_ct1_received epoch auth key_seed ct1 ct2_decoder =
     and_then (send_output (empty_message epoch MsgNone) epoch None) (\<lambda>out.
     Inr (EkSentCt1Received epoch auth key_seed ct1 ct2_decoder, out))"

definition send_no_header_received ::
    "u64 \<Rightarrow> authenticator \<Rightarrow> decoder \<Rightarrow> (protocol_state \<times> send_out) braid_result" where
  "send_no_header_received epoch auth header_decoder =
     and_then (send_output (empty_message epoch MsgNone) epoch None) (\<lambda>out.
     Inr (NoHeaderReceived epoch auth header_decoder, out))"

definition send_header_received ::
    "crypto \<Rightarrow> (nat \<Rightarrow> bytes) \<Rightarrow> u64 \<Rightarrow> authenticator \<Rightarrow> bytes \<Rightarrow> decoder \<Rightarrow>
      (protocol_state \<times> send_out) braid_result" where
  "send_header_received c fill epoch auth header ek_decoder =
     (let randomness = fill 32 in
      and_then (ok_or Encaps1Failed (encapsulate1 c header randomness)) (\<lambda>(ct1, encaps_state, raw_shared_secret).
      and_then (derive_output_key c raw_shared_secret epoch) (\<lambda>output_key.
      and_then (auth_update c epoch (key_bytes output_key) auth) (\<lambda>auth.
      and_then (encoder_new ct1) (\<lambda>ct1_encoder.
      and_then (next_chunk ct1_encoder) (\<lambda>(chunk, ct1_encoder).
      and_then (send_output (payload epoch Ct1 chunk) epoch (Some output_key)) (\<lambda>out.
      Inr (Ct1Sampled epoch auth header encaps_state ct1 ct1_encoder ek_decoder, out))))))))"

definition send_ct1_sampled ::
    "u64 \<Rightarrow> authenticator \<Rightarrow> bytes \<Rightarrow> bytes \<Rightarrow> bytes \<Rightarrow> encoder \<Rightarrow> decoder \<Rightarrow>
      (protocol_state \<times> send_out) braid_result" where
  "send_ct1_sampled epoch auth header encaps_state ct1 ct1_encoder ek_decoder =
     and_then (next_chunk ct1_encoder) (\<lambda>(chunk, ct1_encoder).
     and_then (send_output (payload epoch Ct1 chunk) epoch None) (\<lambda>out.
     Inr (Ct1Sampled epoch auth header encaps_state ct1 ct1_encoder ek_decoder, out)))"

definition send_ek_received_ct1_sampled ::
    "u64 \<Rightarrow> authenticator \<Rightarrow> bytes \<Rightarrow> bytes \<Rightarrow> bytes \<Rightarrow> encoder \<Rightarrow>
      (protocol_state \<times> send_out) braid_result" where
  "send_ek_received_ct1_sampled epoch auth encaps_state ct1 ek_vector ct1_encoder =
     and_then (next_chunk ct1_encoder) (\<lambda>(chunk, ct1_encoder).
     and_then (send_output (payload epoch Ct1 chunk) epoch None) (\<lambda>out.
     Inr (EkReceivedCt1Sampled epoch auth encaps_state ct1 ek_vector ct1_encoder, out)))"

definition send_ct1_acknowledged ::
    "u64 \<Rightarrow> authenticator \<Rightarrow> bytes \<Rightarrow> bytes \<Rightarrow> bytes \<Rightarrow> decoder \<Rightarrow>
      (protocol_state \<times> send_out) braid_result" where
  "send_ct1_acknowledged epoch auth header encaps_state ct1 ek_decoder =
     and_then (send_output (empty_message epoch MsgNone) epoch None) (\<lambda>out.
     Inr (Ct1Acknowledged epoch auth header encaps_state ct1 ek_decoder, out))"

definition send_ct2_sampled ::
    "u64 \<Rightarrow> authenticator \<Rightarrow> encoder \<Rightarrow> (protocol_state \<times> send_out) braid_result" where
  "send_ct2_sampled epoch auth ct2_encoder =
     and_then (next_chunk ct2_encoder) (\<lambda>(chunk, ct2_encoder).
     and_then (send_output (payload epoch Ct2 chunk) epoch None) (\<lambda>out.
     Inr (Ct2Sampled epoch auth ct2_encoder, out)))"

fun send_state :: "crypto \<Rightarrow> (nat \<Rightarrow> bytes) \<Rightarrow> protocol_state \<Rightarrow> (protocol_state \<times> send_out) braid_result" where
  "send_state c fill (KeysUnsampled epoch auth) = send_keys_unsampled c fill epoch auth"
| "send_state c fill (KeysSampled epoch auth key_seed ek_vector header_encoder) =
     send_keys_sampled epoch auth key_seed ek_vector header_encoder"
| "send_state c fill (HeaderSent epoch auth key_seed ct1_decoder ek_encoder) =
     send_header_sent epoch auth key_seed ct1_decoder ek_encoder"
| "send_state c fill (Ct1Received epoch auth key_seed ct1 ek_encoder) =
     send_ct1_received epoch auth key_seed ct1 ek_encoder"
| "send_state c fill (EkSentCt1Received epoch auth key_seed ct1 ct2_decoder) =
     send_ek_sent_ct1_received epoch auth key_seed ct1 ct2_decoder"
| "send_state c fill (NoHeaderReceived epoch auth header_decoder) =
     send_no_header_received epoch auth header_decoder"
| "send_state c fill (HeaderReceived epoch auth header ek_decoder) =
     send_header_received c fill epoch auth header ek_decoder"
| "send_state c fill (Ct1Sampled epoch auth header encaps_state ct1 ct1_encoder ek_decoder) =
     send_ct1_sampled epoch auth header encaps_state ct1 ct1_encoder ek_decoder"
| "send_state c fill (EkReceivedCt1Sampled epoch auth encaps_state ct1 ek_vector ct1_encoder) =
     send_ek_received_ct1_sampled epoch auth encaps_state ct1 ek_vector ct1_encoder"
| "send_state c fill (Ct1Acknowledged epoch auth header encaps_state ct1 ek_decoder) =
     send_ct1_acknowledged epoch auth header encaps_state ct1 ek_decoder"
| "send_state c fill (Ct2Sampled epoch auth ct2_encoder) = send_ct2_sampled epoch auth ct2_encoder"
| "send_state c fill (Poisoned epoch) = Inl SessionPoisoned"

lemmas send_arms =
  send_keys_unsampled_def send_keys_sampled_def send_header_sent_def send_ct1_received_def
  send_ek_sent_ct1_received_def send_no_header_received_def send_header_received_def
  send_ct1_sampled_def send_ek_received_ct1_sampled_def send_ct1_acknowledged_def send_ct2_sampled_def

section \<open>Lemmas\<close>

text \<open>A send never changes the epoch, and its message is of that epoch and valid.\<close>

lemma send_state_epoch:
  assumes "send_state c fill s = Inr (s', out)"
  shows "state_epoch s' = state_epoch s" and "state_epoch s \<noteq> 0"
    and "msg_epoch (out_message out) = state_epoch s" and "sending_epoch out = state_epoch s - 1"
    and "message_validate (out_message out) = Inr ()"
  using assms
  by (cases s; force simp: send_arms Let_def result_simps payload_def empty_message_def carries_data_def)+

lemma send_step_encoder:
  assumes "encoder_for n enc" "next_chunk enc = Inr (ch, enc')"
  shows "encoder_for n enc' \<and> chunk_typed ch"
  using encoder_for_next[OF assms] next_chunk_typed[OF _ assms(2)] assms(1) by (simp add: encoder_for_def)

lemma send_keys_unsampled_ok:
  assumes "crypto_sizes c" "\<And>n. length (fill n) = n" "auth_ok auth"
    and "send_keys_unsampled c fill epoch auth = Inr (s', out)"
  shows "fields_ok c s'" and "message_typed (out_message out)"
proof -
  let ?kp = "generate_key_pair c (fill (keygen_seed_len c))"
  let ?header = "take ML_KEM_BRAID_HEADER_BYTES (drop (pk2_len c * 2) ?kp)"
  obtain mac enc enc' ch where
      mac: "mac_header c auth epoch ?header = Inr mac"
      and enc: "encoder_new (?header @ mac) = Inr enc" "next_chunk enc = Inr (ch, enc')"
      and len: "ML_KEM_BRAID_HEADER_BYTES + pk2_len c * 2 \<le> length ?kp" "ML_KEM_BRAID_EK_BYTES + pk2_len c \<le> length ?kp"
      and s': "s' = KeysSampled epoch auth (fill (keygen_seed_len c)) (take ML_KEM_BRAID_EK_BYTES (drop (pk2_len c) ?kp)) enc'"
      and out: "out_message out = payload epoch Hdr ch"
    using assms(4)
    by (auto simp: send_keys_unsampled_def Let_def result_simps add.commute)
  have "encoder_for 96 enc"
    using encoder_for_new[OF enc(1)] len(1) mac auth_mac_length[OF assms(1)]
    by (simp add: mac_header_def braid_sizes)
  from send_step_encoder[OF this enc(2)] show "fields_ok c s'" "message_typed (out_message out)"
    using assms(2,3) s' out len(2) by (auto simp: message_typed_def payload_def)
qed

lemma send_header_received_ok:
  assumes "crypto_sizes c" "length header = ML_KEM_BRAID_HEADER_BYTES" "decoder_for 1536 ek_decoder"
    and "send_header_received c fill epoch auth header ek_decoder = Inr (s', out)"
  shows "fields_ok c s'" and "message_typed (out_message out)"
proof -
  obtain ct1 st ss auth' k enc enc' ch where
      en: "encapsulate1 c header (fill 32) = Some (ct1, st, ss)"
      and auth': "auth_update c epoch k auth = Inr auth'"
      and enc: "encoder_new ct1 = Inr enc" "next_chunk enc = Inr (ch, enc')"
      and s': "s' = Ct1Sampled epoch auth' header st ct1 enc' ek_decoder"
      and out: "out_message out = payload epoch Ct1 ch"
    using assms(4)
    by (fastforce simp: send_header_received_def Let_def result_simps)
  have len: "length ct1 = ML_KEM_BRAID_CT1_BYTES" "length st = encaps_state_len c"
    using en assms(1) unfolding crypto_sizes_def by blast+
  then have "encoder_for 1408 enc"
    using encoder_for_new[OF enc(1)] by (simp add: braid_sizes)
  from send_step_encoder[OF this enc(2)] show "fields_ok c s'" "message_typed (out_message out)"
    using assms(2,3) s' out len auth_update_ok[OF assms(1) auth'] by (auto simp: message_typed_def payload_def)
qed

lemma send_state_ok:
  assumes "crypto_sizes c" "\<And>n. length (fill n) = n" "state_ok c s"
    and "send_state c fill s = Inr (s', out)"
  shows "state_ok c s' \<and> message_typed (out_message out)"
proof -
  note epoch = send_state_epoch(1,2)[OF assms(4)]
  have "fields_ok c s' \<and> message_typed (out_message out)"
  proof (cases s)
    case (KeysUnsampled e a)
    then show ?thesis
      using assms send_keys_unsampled_ok[OF assms(1,2), of a e s' out] by (simp add: state_ok_def)
  next
    case (HeaderReceived e a h d)
    then show ?thesis
      using assms send_header_received_ok[OF assms(1), of h d fill e a s' out] by (simp add: state_ok_def)
  qed (use assms(3,4) in \<open>auto simp: send_arms result_simps state_ok_def message_typed_def payload_def
        empty_message_def dest: send_step_encoder\<close>)
  then show ?thesis using epoch by (simp add: state_ok_def)
qed

end
