(* ===== verification/Braid_Receive.thy ===== *)
theory Braid_Receive
  imports Braid_State
begin

text \<open>
  \<open>receive_transition.rs\<close>: what a session does with a message in each of its states. One
  definition per arm of \<open>receive_state\<close> and of \<open>receive_state_after_header\<close>; the numbers
  are those of the transitions in the source.
\<close>

section \<open>The arms of \<open>receive_state\<close>\<close>

definition receive_keys_unsampled ::
    "message \<Rightarrow> u64 \<Rightarrow> authenticator \<Rightarrow> (protocol_state \<times> receive_out) braid_result" where
  "receive_keys_unsampled m epoch auth =
     and_then (receive_output epoch None) (\<lambda>out. Inr (KeysUnsampled epoch auth, out))"

text \<open>Transition 2.\<close>

definition receive_keys_sampled ::
    "message \<Rightarrow> u64 \<Rightarrow> authenticator \<Rightarrow> bytes \<Rightarrow> bytes \<Rightarrow> encoder \<Rightarrow> (protocol_state \<times> receive_out) braid_result" where
  "receive_keys_sampled m epoch auth key_seed ek_vector header_encoder =
     (if is_payload m epoch Ct1 then
        and_then (decoder_new ML_KEM_BRAID_CT1_BYTES) (\<lambda>ct1_decoder.
        and_then (required_data m) (\<lambda>chunk.
        and_then (add_chunk ct1_decoder chunk) (\<lambda>ct1_decoder.
        and_then (encoder_new ek_vector) (\<lambda>ek_encoder.
        and_then (receive_output epoch None) (\<lambda>out.
        Inr (HeaderSent epoch auth key_seed ct1_decoder ek_encoder, out))))))
      else
        and_then (receive_output epoch None) (\<lambda>out.
        Inr (KeysSampled epoch auth key_seed ek_vector header_encoder, out)))"

text \<open>Transition 3.\<close>

definition receive_header_sent ::
    "message \<Rightarrow> u64 \<Rightarrow> authenticator \<Rightarrow> bytes \<Rightarrow> decoder \<Rightarrow> encoder \<Rightarrow> (protocol_state \<times> receive_out) braid_result" where
  "receive_header_sent m epoch auth key_seed ct1_decoder ek_encoder =
     (let stay = (\<lambda>ct1_decoder. and_then (receive_output epoch None) (\<lambda>out.
          Inr (HeaderSent epoch auth key_seed ct1_decoder ek_encoder, out))) in
      if is_payload m epoch Ct1 then
        and_then (required_data m) (\<lambda>chunk.
        and_then (add_chunk ct1_decoder chunk) (\<lambda>ct1_decoder.
        if has_message ct1_decoder then
          and_then (take_message ct1_decoder) (\<lambda>(ct1, _).
          and_then (receive_output epoch None) (\<lambda>out.
          Inr (Ct1Received epoch auth key_seed ct1 ek_encoder, out)))
        else stay ct1_decoder))
      else stay ct1_decoder)"

text \<open>Transition 4.\<close>

definition receive_ct1_received ::
    "message \<Rightarrow> u64 \<Rightarrow> authenticator \<Rightarrow> bytes \<Rightarrow> bytes \<Rightarrow> encoder \<Rightarrow> (protocol_state \<times> receive_out) braid_result" where
  "receive_ct1_received m epoch auth key_seed ct1 ek_encoder =
     (if is_payload m epoch Ct2 then
        and_then (decoder_new (ML_KEM_BRAID_CT2_BYTES + ML_KEM_BRAID_MAC_BYTES)) (\<lambda>ct2_decoder.
        and_then (required_data m) (\<lambda>chunk.
        and_then (add_chunk ct2_decoder chunk) (\<lambda>ct2_decoder.
        and_then (receive_output epoch None) (\<lambda>out.
        Inr (EkSentCt1Received epoch auth key_seed ct1 ct2_decoder, out)))))
      else
        and_then (receive_output epoch None) (\<lambda>out.
        Inr (Ct1Received epoch auth key_seed ct1 ek_encoder, out)))"

text \<open>Transition 5: the second ciphertext is complete, and the keys of the epoch are derived.\<close>

definition finish_decapsulation ::
    "crypto \<Rightarrow> u64 \<Rightarrow> authenticator \<Rightarrow> bytes \<Rightarrow> bytes \<Rightarrow> bytes \<Rightarrow> (protocol_state \<times> receive_out) braid_result" where
  "finish_decapsulation c epoch auth key_seed ct1 ct2_with_mac =
     and_then (ok_or Panic (subrange 0 ML_KEM_BRAID_CT2_BYTES ct2_with_mac)) (\<lambda>ct2.
     and_then (ok_or Panic (subrange ML_KEM_BRAID_CT2_BYTES (length ct2_with_mac) ct2_with_mac)) (\<lambda>mac.
     and_then (decapsulate c key_seed ct1 ct2) (\<lambda>raw_shared_secret.
     and_then (derive_output_key c raw_shared_secret epoch) (\<lambda>output_key.
     and_then (auth_update c epoch (key_bytes output_key) auth) (\<lambda>auth.
     and_then (verify_ciphertext c auth epoch (ct1 @ ct2) mac) (\<lambda>_.
     and_then (checked_next_epoch epoch) (\<lambda>next_epoch.
     and_then (decoder_new (ML_KEM_BRAID_HEADER_BYTES + ML_KEM_BRAID_MAC_BYTES)) (\<lambda>header_decoder.
     and_then (previous_epoch epoch) (\<lambda>receiving.
     Inr (NoHeaderReceived next_epoch auth header_decoder,
          \<lparr>receiving_epoch = receiving, received_key = Some output_key\<rparr>))))))))))"

definition receive_ek_sent_ct1_received ::
    "crypto \<Rightarrow> message \<Rightarrow> u64 \<Rightarrow> authenticator \<Rightarrow> bytes \<Rightarrow> bytes \<Rightarrow> decoder \<Rightarrow>
      (protocol_state \<times> receive_out) braid_result" where
  "receive_ek_sent_ct1_received c m epoch auth key_seed ct1 ct2_decoder =
     (let stay = (\<lambda>ct2_decoder. and_then (receive_output epoch None) (\<lambda>out.
          Inr (EkSentCt1Received epoch auth key_seed ct1 ct2_decoder, out))) in
      if is_payload m epoch Ct2 then
        and_then (required_data m) (\<lambda>chunk.
        and_then (add_chunk ct2_decoder chunk) (\<lambda>ct2_decoder.
        if has_message ct2_decoder then
          and_then (take_message ct2_decoder) (\<lambda>(ct2_with_mac, _).
          finish_decapsulation c epoch auth key_seed ct1 ct2_with_mac)
        else stay ct2_decoder))
      else stay ct2_decoder)"

text \<open>Transition 6: the header is complete and its tag is checked.\<close>

definition receive_no_header_received ::
    "crypto \<Rightarrow> message \<Rightarrow> u64 \<Rightarrow> authenticator \<Rightarrow> decoder \<Rightarrow> (protocol_state \<times> receive_out) braid_result" where
  "receive_no_header_received c m epoch auth header_decoder =
     (let stay = (\<lambda>header_decoder. and_then (receive_output epoch None) (\<lambda>out.
          Inr (NoHeaderReceived epoch auth header_decoder, out))) in
      if is_payload m epoch Hdr then
        and_then (required_data m) (\<lambda>chunk.
        and_then (add_chunk header_decoder chunk) (\<lambda>header_decoder.
        if has_message header_decoder then
          and_then (take_message header_decoder) (\<lambda>(header_with_mac, _).
          and_then (ok_or Panic (subrange 0 ML_KEM_BRAID_HEADER_BYTES header_with_mac)) (\<lambda>header.
          and_then (ok_or Panic (subrange ML_KEM_BRAID_HEADER_BYTES (length header_with_mac) header_with_mac)) (\<lambda>mac.
          and_then (verify_header c auth epoch header mac) (\<lambda>_.
          and_then (decoder_new ML_KEM_BRAID_EK_BYTES) (\<lambda>ek_decoder.
          and_then (receive_output epoch None) (\<lambda>out.
          Inr (HeaderReceived epoch auth header ek_decoder, out)))))))
        else stay header_decoder))
      else stay header_decoder)"

definition receive_header_received ::
    "message \<Rightarrow> u64 \<Rightarrow> authenticator \<Rightarrow> bytes \<Rightarrow> decoder \<Rightarrow> (protocol_state \<times> receive_out) braid_result" where
  "receive_header_received m epoch auth header ek_decoder =
     and_then (receive_output epoch None) (\<lambda>out. Inr (HeaderReceived epoch auth header ek_decoder, out))"

section \<open>The arms of \<open>receive_state_after_header\<close>\<close>

text \<open>Transitions 10, 9 and 8.\<close>

definition receive_ct1_sampled ::
    "crypto \<Rightarrow> message \<Rightarrow> u64 \<Rightarrow> authenticator \<Rightarrow> bytes \<Rightarrow> bytes \<Rightarrow> bytes \<Rightarrow> encoder \<Rightarrow> decoder \<Rightarrow>
      (protocol_state \<times> receive_out) braid_result" where
  "receive_ct1_sampled c m epoch auth header encaps_state ct1 ct1_encoder ek_decoder =
     (let stay = (\<lambda>ek_decoder. and_then (receive_output epoch None) (\<lambda>out.
          Inr (Ct1Sampled epoch auth header encaps_state ct1 ct1_encoder ek_decoder, out))) in
      if is_payload m epoch Ek then
        and_then (required_data m) (\<lambda>chunk.
        and_then (add_chunk ek_decoder chunk) (\<lambda>ek_decoder.
        if has_message ek_decoder then
          and_then (take_message ek_decoder) (\<lambda>(ek_vector, _).
          and_then (validate_encapsulation_key c header ek_vector) (\<lambda>_.
          and_then (receive_output epoch None) (\<lambda>out.
          Inr (EkReceivedCt1Sampled epoch auth encaps_state ct1 ek_vector ct1_encoder, out))))
        else stay ek_decoder))
      else if is_payload m epoch EkCt1Ack then
        and_then (required_data m) (\<lambda>chunk.
        and_then (add_chunk ek_decoder chunk) (\<lambda>ek_decoder.
        if has_message ek_decoder then
          and_then (take_message ek_decoder) (\<lambda>(ek_vector, _).
          and_then (validate_encapsulation_key c header ek_vector) (\<lambda>_.
          and_then (complete_encapsulation c auth epoch encaps_state ct1 ek_vector) (\<lambda>ct2_encoder.
          and_then (receive_output epoch None) (\<lambda>out.
          Inr (Ct2Sampled epoch auth ct2_encoder, out)))))
        else
          and_then (receive_output epoch None) (\<lambda>out.
          Inr (Ct1Acknowledged epoch auth header encaps_state ct1 ek_decoder, out))))
      else stay ek_decoder)"

text \<open>Transition 12.\<close>

definition receive_ek_received_ct1_sampled ::
    "crypto \<Rightarrow> message \<Rightarrow> u64 \<Rightarrow> authenticator \<Rightarrow> bytes \<Rightarrow> bytes \<Rightarrow> bytes \<Rightarrow> encoder \<Rightarrow>
      (protocol_state \<times> receive_out) braid_result" where
  "receive_ek_received_ct1_sampled c m epoch auth encaps_state ct1 ek_vector ct1_encoder =
     (if is_payload m epoch EkCt1Ack then
        and_then (complete_encapsulation c auth epoch encaps_state ct1 ek_vector) (\<lambda>ct2_encoder.
        and_then (receive_output epoch None) (\<lambda>out.
        Inr (Ct2Sampled epoch auth ct2_encoder, out)))
      else
        and_then (receive_output epoch None) (\<lambda>out.
        Inr (EkReceivedCt1Sampled epoch auth encaps_state ct1 ek_vector ct1_encoder, out)))"

text \<open>Transition 11.\<close>

definition receive_ct1_acknowledged ::
    "crypto \<Rightarrow> message \<Rightarrow> u64 \<Rightarrow> authenticator \<Rightarrow> bytes \<Rightarrow> bytes \<Rightarrow> bytes \<Rightarrow> decoder \<Rightarrow>
      (protocol_state \<times> receive_out) braid_result" where
  "receive_ct1_acknowledged c m epoch auth header encaps_state ct1 ek_decoder =
     (let stay = (\<lambda>ek_decoder. and_then (receive_output epoch None) (\<lambda>out.
          Inr (Ct1Acknowledged epoch auth header encaps_state ct1 ek_decoder, out))) in
      if is_payload m epoch EkCt1Ack then
        and_then (required_data m) (\<lambda>chunk.
        and_then (add_chunk ek_decoder chunk) (\<lambda>ek_decoder.
        if has_message ek_decoder then
          and_then (take_message ek_decoder) (\<lambda>(ek_vector, _).
          and_then (validate_encapsulation_key c header ek_vector) (\<lambda>_.
          and_then (complete_encapsulation c auth epoch encaps_state ct1 ek_vector) (\<lambda>ct2_encoder.
          and_then (receive_output epoch None) (\<lambda>out.
          Inr (Ct2Sampled epoch auth ct2_encoder, out)))))
        else stay ek_decoder))
      else stay ek_decoder)"

text \<open>Transition 13: a message of the next epoch closes this one.\<close>

definition receive_ct2_sampled ::
    "message \<Rightarrow> u64 \<Rightarrow> authenticator \<Rightarrow> encoder \<Rightarrow> (protocol_state \<times> receive_out) braid_result" where
  "receive_ct2_sampled m epoch auth ct2_encoder =
     and_then (checked_next_epoch epoch) (\<lambda>next_epoch.
     if msg_epoch m = next_epoch then
       Inr (KeysUnsampled next_epoch auth, \<lparr>receiving_epoch = epoch, received_key = None\<rparr>)
     else
       and_then (receive_output epoch None) (\<lambda>out. Inr (Ct2Sampled epoch auth ct2_encoder, out)))"

fun receive_state_after_header ::
    "crypto \<Rightarrow> protocol_state \<Rightarrow> message \<Rightarrow> (protocol_state \<times> receive_out) braid_result" where
  "receive_state_after_header c (Ct1Sampled epoch auth header encaps_state ct1 ct1_encoder ek_decoder) m =
     receive_ct1_sampled c m epoch auth header encaps_state ct1 ct1_encoder ek_decoder"
| "receive_state_after_header c (EkReceivedCt1Sampled epoch auth encaps_state ct1 ek_vector ct1_encoder) m =
     receive_ek_received_ct1_sampled c m epoch auth encaps_state ct1 ek_vector ct1_encoder"
| "receive_state_after_header c (Ct1Acknowledged epoch auth header encaps_state ct1 ek_decoder) m =
     receive_ct1_acknowledged c m epoch auth header encaps_state ct1 ek_decoder"
| "receive_state_after_header c (Ct2Sampled epoch auth ct2_encoder) m =
     receive_ct2_sampled m epoch auth ct2_encoder"
| "receive_state_after_header c (Poisoned epoch) m = Inl SessionPoisoned"
| "receive_state_after_header c _ m = Inl StateDispatchFailed"

fun receive_state ::
    "crypto \<Rightarrow> protocol_state \<Rightarrow> message \<Rightarrow> (protocol_state \<times> receive_out) braid_result" where
  "receive_state c (KeysUnsampled epoch auth) m = receive_keys_unsampled m epoch auth"
| "receive_state c (KeysSampled epoch auth key_seed ek_vector header_encoder) m =
     receive_keys_sampled m epoch auth key_seed ek_vector header_encoder"
| "receive_state c (HeaderSent epoch auth key_seed ct1_decoder ek_encoder) m =
     receive_header_sent m epoch auth key_seed ct1_decoder ek_encoder"
| "receive_state c (Ct1Received epoch auth key_seed ct1 ek_encoder) m =
     receive_ct1_received m epoch auth key_seed ct1 ek_encoder"
| "receive_state c (EkSentCt1Received epoch auth key_seed ct1 ct2_decoder) m =
     receive_ek_sent_ct1_received c m epoch auth key_seed ct1 ct2_decoder"
| "receive_state c (NoHeaderReceived epoch auth header_decoder) m =
     receive_no_header_received c m epoch auth header_decoder"
| "receive_state c (HeaderReceived epoch auth header ek_decoder) m =
     receive_header_received m epoch auth header ek_decoder"
| "receive_state c remaining m = receive_state_after_header c remaining m"

lemmas receive_arms =
  receive_keys_unsampled_def receive_keys_sampled_def receive_header_sent_def receive_ct1_received_def
  receive_ek_sent_ct1_received_def receive_no_header_received_def receive_header_received_def
  receive_ct1_sampled_def receive_ek_received_ct1_sampled_def receive_ct1_acknowledged_def
  receive_ct2_sampled_def

section \<open>One chunk into a decoder\<close>

lemma decoder_for_iff:
  "decoder_for n dec \<longleftrightarrow> bt_wf (dec_chunks dec) \<and> chunks_typed (dec_chunks dec) \<and> dec_message_bytes dec = n
     \<and> n \<noteq> 0 \<and> n mod ML_KEM_BRAID_CHUNK_BYTES = 0 \<and> source_count dec \<le> MAX_SOURCE_CHUNKS
     \<and> dec_decoded dec = None \<and> length (dec_chunks dec) < source_count dec"
  by (auto simp: decoder_for_def validate_active_def decoder_validate_def chunks_typed_def result_simps)

lemma source_count_bytes:
  "decoder_for n dec \<Longrightarrow> source_count dec * ML_KEM_BRAID_CHUNK_BYTES = n"
  by (auto simp: decoder_for_iff source_count_def)

lemma add_chunk_for:
  assumes dec: "decoder_for n dec" and ch: "chunk_typed ch"
  shows "add_chunk dec ch =
    (if map_of (dec_chunks dec) (chunk_point ch) \<noteq> None then Inl DuplicateErasureChunk
     else let dec' = dec\<lparr>dec_chunks := bt_insert (chunk_point ch) (chunk_bytes ch) (dec_chunks dec)\<rparr> in
       if Suc (length (dec_chunks dec)) = source_count dec
       then Inr (dec'\<lparr>dec_decoded := Some (projr (decode dec'))\<rparr>) else Inr dec')"
    and "map_of (dec_chunks dec) (chunk_point ch) = None \<Longrightarrow>
      length (projr (decode (dec\<lparr>dec_chunks := bt_insert (chunk_point ch) (chunk_bytes ch) (dec_chunks dec)\<rparr>))) = n"
proof -
  let ?d = "dec\<lparr>dec_chunks := bt_insert (chunk_point ch) (chunk_bytes ch) (dec_chunks dec)\<rparr>"
  have typed: "chunks_typed (dec_chunks ?d)" "bt_wf (dec_chunks ?d)"
    using dec ch by (auto simp: decoder_for_iff chunk_typed_def intro: chunks_typed_insert bt_wf_insert)
  obtain out where out: "decode ?d = Inr out" "length out = source_count ?d * ML_KEM_BRAID_CHUNK_BYTES"
    using decode_typed[OF typed] by blast
  have count: "source_count ?d = source_count dec" by (simp add: source_count_def)
  show "add_chunk dec ch =
    (if map_of (dec_chunks dec) (chunk_point ch) \<noteq> None then Inl DuplicateErasureChunk
     else let dec' = ?d in
       if Suc (length (dec_chunks dec)) = source_count dec
       then Inr (dec'\<lparr>dec_decoded := Some (projr (decode dec'))\<rparr>) else Inr dec')"
    using dec out(1)
    by (cases "map_of (dec_chunks dec) (chunk_point ch)")
      (simp_all add: add_chunk_def decoder_for_iff Let_def count length_bt_insert)
  show "length (projr (decode ?d)) = n"
    using out count source_count_bytes[OF dec] by simp
qed

lemma decoder_for_insert:
  assumes dec: "decoder_for n dec" and ch: "chunk_typed ch"
    and "map_of (dec_chunks dec) (chunk_point ch) = None" and "Suc (length (dec_chunks dec)) \<noteq> source_count dec"
  shows "decoder_for n (dec\<lparr>dec_chunks := bt_insert (chunk_point ch) (chunk_bytes ch) (dec_chunks dec)\<rparr>)"
  using assms
  by (auto simp: decoder_for_iff chunk_typed_def length_bt_insert source_count_def
      intro: chunks_typed_insert bt_wf_insert)

text \<open>
  A chunk offered to a live decoder is refused as a duplicate, leaves a live decoder, or
  completes a message of the right length.
\<close>

lemma add_chunk_cases:
  assumes "decoder_for n dec" and "chunk_typed ch"
  obtains (duplicate) "add_chunk dec ch = Inl DuplicateErasureChunk"
    | (more) dec' where "add_chunk dec ch = Inr dec'" "decoder_for n dec'" "\<not> has_message dec'"
    | (complete) dec' msg where "add_chunk dec ch = Inr dec'" "has_message dec'" "length msg = n"
        "take_message dec' = Inr (msg, dec'\<lparr>dec_decoded := None\<rparr>)"
proof -
  let ?d = "dec\<lparr>dec_chunks := bt_insert (chunk_point ch) (chunk_bytes ch) (dec_chunks dec)\<rparr>"
  consider "map_of (dec_chunks dec) (chunk_point ch) \<noteq> None"
    | "map_of (dec_chunks dec) (chunk_point ch) = None" "Suc (length (dec_chunks dec)) = source_count dec"
    | "map_of (dec_chunks dec) (chunk_point ch) = None" "Suc (length (dec_chunks dec)) \<noteq> source_count dec"
    by blast
  then show ?thesis
  proof cases
    case 1
    then show ?thesis using add_chunk_for(1)[OF assms] duplicate by simp
  next
    case 2
    then show ?thesis
      using add_chunk_for[OF assms] by (intro complete) (auto simp: Let_def has_message_def take_message_def)
  next
    case 3
    have "dec_decoded ?d = None" using assms(1) by (simp add: decoder_for_iff)
    with 3 show ?thesis
      using add_chunk_for(1)[OF assms] decoder_for_insert[OF assms 3] by (intro more[of ?d]) (auto simp: has_message_def)
  qed
qed

section \<open>Receiving keeps the invariant and never panics\<close>

text \<open>
  What a decoder arm does with the chunk of a message: the continuation \<open>full\<close> on the
  completed message, \<open>part\<close> on the decoder that still waits.
\<close>

definition offer_chunk ::
    "message \<Rightarrow> decoder \<Rightarrow> (bytes \<Rightarrow> 'a braid_result) \<Rightarrow> (decoder \<Rightarrow> 'a braid_result) \<Rightarrow> 'a braid_result" where
  "offer_chunk m dec full part =
     and_then (required_data m) (\<lambda>chunk.
     and_then (add_chunk dec chunk) (\<lambda>dec.
     if has_message dec then and_then (take_message dec) (\<lambda>(msg, _). full msg) else part dec))"

lemma offer_chunk_cases:
  assumes "decoder_for n dec" and "message_typed m"
  obtains e where "offer_chunk m dec full part = Inl e" "e \<noteq> Panic"
    | dec' where "offer_chunk m dec full part = part dec'" "decoder_for n dec'"
    | msg where "offer_chunk m dec full part = full msg" "length msg = n"
proof (cases "msg_data m")
  case None
  then show ?thesis using that(1)[of MessageDataMissing] by (simp add: offer_chunk_def required_data_def)
next
  case (Some ch)
  then have "chunk_typed ch" using assms(2) by (simp add: message_typed_def)
  from add_chunk_cases[OF assms(1) this] show ?thesis
    by cases (use Some that in \<open>auto simp: offer_chunk_def required_data_def\<close>)
qed

lemma offer_chunk_outcome:
  assumes "decoder_for n dec" and "message_typed m"
    and "\<And>msg. length msg = n \<Longrightarrow> P (full msg)" and "\<And>dec'. decoder_for n dec' \<Longrightarrow> P (part dec')"
    and "\<And>e. e \<noteq> Panic \<Longrightarrow> P (Inl e)"
  shows "P (offer_chunk m dec full part)"
  using offer_chunk_cases[OF assms(1,2), of full part] assms(3-5) by metis

text \<open>\<open>fine c r\<close>: the outcome is a state that keeps the invariant, or an error that is no panic.\<close>

definition fine :: "crypto \<Rightarrow> (protocol_state \<times> 'o) braid_result \<Rightarrow> bool" where
  "fine c r \<longleftrightarrow> (case r of Inl e \<Rightarrow> e \<noteq> Panic | Inr (s, out) \<Rightarrow> state_ok c s)"

lemma fine_simps [simp]:
  "fine c (Inl e) \<longleftrightarrow> e \<noteq> Panic"
  "fine c (Inr (s, out)) \<longleftrightarrow> state_ok c s"
  by (simp_all add: fine_def)

lemma fine_and_then:
  assumes "r \<noteq> Inl Panic" and "\<And>x. r = Inr x \<Longrightarrow> fine c (k x)"
  shows "fine c (and_then r k)"
  using assms by (cases r) auto

lemma receive_output_no_panic: "receive_output e k \<noteq> Inl Panic"
  by (simp add: receive_output_def previous_epoch_def)

lemma fine_receive_output:
  "(e \<noteq> 0 \<Longrightarrow> state_ok c s) \<Longrightarrow> fine c (and_then (receive_output e k) (\<lambda>out. Inr (s, out)))"
  by (intro fine_and_then) (auto simp: receive_output_no_panic result_simps)

lemma no_panic [simp]:
  "decoder_new n \<noteq> Inl Panic"
  "encoder_new msg \<noteq> Inl Panic"
  "checked_next_epoch e \<noteq> Inl Panic"
  "previous_epoch e \<noteq> Inl Panic"
  "validate_encapsulation_key c header ek \<noteq> Inl Panic"
  "decapsulate c seed ct1 ct2 \<noteq> Inl Panic"
  "derive_output_key c ss e \<noteq> Inl Panic"
  "auth_mac c auth label e body \<noteq> Inl Panic"
  "auth_verify c auth label e body expected \<noteq> Inl Panic"
  by (auto simp: decoder_new_def encoder_new_def rebuild_cache_def batch_inverse_eq checked_next_epoch_def
      previous_epoch_def validate_encapsulation_key_def decapsulate_def secret_ensure_len_def
      derive_output_key_def auth_mac_def auth_verify_def Let_def ensure_def ok_or_def and_then_def
      split: if_splits option.splits sum.splits)

lemma complete_encapsulation_no_panic [simp]:
  "complete_encapsulation c auth e st ct1 ek \<noteq> Inl Panic"
proof -
  have "and_then (mac_ciphertext c auth e x) (\<lambda>mac. encoder_new (y @ mac)) \<noteq> Inl Panic" for x y
    by (cases "mac_ciphertext c auth e x") (use no_panic(8) in \<open>auto simp: mac_ciphertext_def\<close>)
  then show ?thesis
    by (simp add: complete_encapsulation_def secret_ensure_len_def ensure_def Let_def)
qed

lemma auth_update_no_panic:
  assumes "crypto_sizes c" and "auth_ok auth"
  shows "auth_update c e key auth \<noteq> Inl Panic"
proof (cases "hkdf_sha256 c (root_key auth) key (PROTOCOL_INFO @ AUTH_UPDATE_LABEL @ u64_to_be e) 64")
  case (Some x)
  then have "length x = 64" using assms(1) unfolding crypto_sizes_def by blast
  then show ?thesis using Some assms(2) by (simp add: auth_update_def auth_ok_def)
qed (simp add: auth_update_def)

lemma finish_decapsulation_fine:
  assumes "crypto_sizes c" "auth_ok auth" "length ct2_with_mac = 192"
  shows "fine c (finish_decapsulation c e auth seed ct1 ct2_with_mac)"
  unfolding finish_decapsulation_def verify_ciphertext_def
  using assms auth_update_ok[OF assms(1)] decoder_for_new
  by (intro fine_and_then auth_update_no_panic)
    (auto simp: result_simps braid_sizes subrange_def state_ok_def next_epoch_nonzero)

lemma finish_decapsulation_Inr:
  assumes "finish_decapsulation c e auth seed ct1 ct2_with_mac = Inr (s', out)"
  obtains ct2 mac key auth' hd where "ct2_with_mac = ct2 @ mac" "length ct2 = ML_KEM_BRAID_CT2_BYTES"
    "and_then (decapsulate c seed ct1 ct2) (\<lambda>ss. derive_output_key c ss e) = Inr key"
    "auth_update c e (key_bytes key) auth = Inr auth'" "mac_ciphertext c auth' e (ct1 @ ct2) = Inr mac"
    "e \<noteq> - 1" "decoder_new (ML_KEM_BRAID_HEADER_BYTES + ML_KEM_BRAID_MAC_BYTES) = Inr hd"
    "s' = NoHeaderReceived (e + 1) auth' hd" "out = \<lparr>receiving_epoch = e - 1, received_key = Some key\<rparr>"
  using assms that[of "take ML_KEM_BRAID_CT2_BYTES ct2_with_mac" "drop ML_KEM_BRAID_CT2_BYTES ct2_with_mac"]
  by (auto simp: finish_decapsulation_def verify_ciphertext_def mac_ciphertext_def result_simps)

lemma receive_ek_sent_ct1_received_Inr:
  assumes "receive_ek_sent_ct1_received c m e auth seed ct1 dec = Inr (s', out)"
  obtains dec' where "s' = EkSentCt1Received e auth seed ct1 dec'" "out = \<lparr>receiving_epoch = e - 1, received_key = None\<rparr>"
      "is_payload m e Ct2 \<longrightarrow> (\<exists>ch. msg_data m = Some ch \<and> add_chunk dec ch = Inr dec' \<and> \<not> has_message dec')"
      "\<not> is_payload m e Ct2 \<longrightarrow> dec' = dec"
    | ch dec' x where "is_payload m e Ct2" "msg_data m = Some ch" "add_chunk dec ch = Inr dec'"
      "dec_decoded dec' = Some x" "finish_decapsulation c e auth seed ct1 x = Inr (s', out)"
  using assms
  by (auto simp: receive_ek_sent_ct1_received_def Let_def result_simps take_message_def split: if_splits)

text \<open>The first chunk into a fresh decoder of at least two chunks leaves it waiting.\<close>

lemma first_chunk_fine:
  assumes "message_typed m" and "2 * ML_KEM_BRAID_CHUNK_BYTES \<le> n"
    and "\<And>d. decoder_for n d \<Longrightarrow> fine c (k d)"
  shows "fine c (and_then (decoder_new n) (\<lambda>d. and_then (required_data m) (\<lambda>ch. and_then (add_chunk d ch) k)))"
proof (intro fine_and_then)
  fix d ch assume new: "decoder_new n = Inr d" and "required_data m = Inr ch"
  then have ch: "chunk_typed ch" using assms(1) by (simp add: message_typed_def result_simps)
  note d = decoder_for_new[OF new]
  have "2 \<le> source_count d" "dec_chunks d = []"
    using new assms(2) by (auto simp: decoder_new_def source_count_def result_simps braid_sizes)
  then obtain d' where d': "add_chunk d ch = Inr d'" "decoder_for n d'"
    using add_chunk_for(1)[OF d ch] decoder_for_insert[OF d ch] by (simp add: Let_def)
  then show "add_chunk d ch \<noteq> Inl Panic" and "add_chunk d ch = Inr x \<Longrightarrow> fine c (k x)" for x
    using assms(3) by auto
qed (auto simp: required_data_def ok_or_def split: option.splits)

lemma receive_keys_sampled_fine:
  assumes "message_typed m" "fields_ok c (KeysSampled e a seed ek enc)"
  shows "fine c (receive_keys_sampled m e a seed ek enc)"
  using assms encoder_for_new[of ek _ 1536]
  by (auto simp: receive_keys_sampled_def state_ok_def braid_sizes
      intro!: fine_receive_output first_chunk_fine fine_and_then[of "encoder_new ek"])

lemma receive_ct1_received_fine:
  assumes "message_typed m" "fields_ok c (Ct1Received e a seed ct1 enc)"
  shows "fine c (receive_ct1_received m e a seed ct1 enc)"
  using assms
  by (auto simp: receive_ct1_received_def state_ok_def braid_sizes intro!: fine_receive_output first_chunk_fine)

lemma receive_header_sent_fine:
  assumes "message_typed m" "fields_ok c (HeaderSent e a seed dec enc)"
  shows "fine c (receive_header_sent m e a seed dec enc)"
proof -
  have "receive_header_sent m e a seed dec enc =
      (let stay = (\<lambda>d. and_then (receive_output e None) (\<lambda>out. Inr (HeaderSent e a seed d enc, out))) in
       if is_payload m e Ct1 then offer_chunk m dec
         (\<lambda>ct1. and_then (receive_output e None) (\<lambda>out. Inr (Ct1Received e a seed ct1 enc, out))) stay
       else stay dec)"
    by (simp add: receive_header_sent_def offer_chunk_def)
  then show ?thesis
    using assms
    by (auto simp: Let_def state_ok_def braid_sizes
        intro!: fine_receive_output offer_chunk_outcome[where n = 1408 and P = "fine c"])
qed

lemma receive_ek_sent_ct1_received_fine:
  assumes "crypto_sizes c" "message_typed m" "fields_ok c (EkSentCt1Received e a seed ct1 dec)"
  shows "fine c (receive_ek_sent_ct1_received c m e a seed ct1 dec)"
proof -
  have "receive_ek_sent_ct1_received c m e a seed ct1 dec =
      (let stay = (\<lambda>d. and_then (receive_output e None) (\<lambda>out. Inr (EkSentCt1Received e a seed ct1 d, out))) in
       if is_payload m e Ct2 then offer_chunk m dec (finish_decapsulation c e a seed ct1) stay else stay dec)"
    by (simp add: receive_ek_sent_ct1_received_def offer_chunk_def)
  then show ?thesis
    using assms
    by (auto simp: Let_def state_ok_def
        intro!: fine_receive_output finish_decapsulation_fine offer_chunk_outcome[where n = 192 and P = "fine c"])
qed

lemma receive_no_header_received_fine:
  assumes "message_typed m" "fields_ok c (NoHeaderReceived e a dec)"
  shows "fine c (receive_no_header_received c m e a dec)"
proof -
  let ?full = "\<lambda>x. and_then (ok_or Panic (subrange 0 ML_KEM_BRAID_HEADER_BYTES x)) (\<lambda>header.
          and_then (ok_or Panic (subrange ML_KEM_BRAID_HEADER_BYTES (length x) x)) (\<lambda>mac.
          and_then (verify_header c a e header mac) (\<lambda>_.
          and_then (decoder_new ML_KEM_BRAID_EK_BYTES) (\<lambda>ek_decoder.
          and_then (receive_output e None) (\<lambda>out.
          Inr (HeaderReceived e a header ek_decoder, out))))))"
  have "receive_no_header_received c m e a dec =
      (let stay = (\<lambda>d. and_then (receive_output e None) (\<lambda>out. Inr (NoHeaderReceived e a d, out))) in
       if is_payload m e Hdr then offer_chunk m dec ?full stay else stay dec)"
    by (simp add: receive_no_header_received_def offer_chunk_def)
  moreover have "fine c (?full x)" if "length x = 96" for x
    using that assms(2) decoder_for_new
    by (auto simp: subrange_def braid_sizes verify_header_def state_ok_def result_simps
        intro!: fine_and_then fine_receive_output)
  ultimately show ?thesis
    using assms
    by (auto simp: Let_def state_ok_def
        intro!: fine_receive_output offer_chunk_outcome[where n = 96 and P = "fine c"])
qed

lemma complete_encapsulation_fine:
  assumes "crypto_sizes c" "auth_ok a"
  shows "fine c (and_then (complete_encapsulation c a e st ct1 ek)
    (\<lambda>enc. and_then (receive_output e None) (\<lambda>out. Inr (Ct2Sampled e a enc, out))))"
proof (rule fine_and_then)
  fix enc assume "complete_encapsulation c a e st ct1 ek = Inr enc"
  then have "encoder_for 192 enc"
    using complete_encapsulation_Inr[OF assms(1)] encoder_for_new by (fastforce simp: braid_sizes)
  then show "fine c (and_then (receive_output e None) (\<lambda>out. Inr (Ct2Sampled e a enc, out)))"
    using assms(2) by (intro fine_receive_output) (simp add: state_ok_def)
qed simp

lemma receive_ct1_sampled_fine:
  assumes "crypto_sizes c" "message_typed m" "fields_ok c (Ct1Sampled e a header st ct1 enc dec)"
  shows "fine c (receive_ct1_sampled c m e a header st ct1 enc dec)"
proof -
  let ?ek = "\<lambda>x. and_then (validate_encapsulation_key c header x) (\<lambda>_. and_then (receive_output e None) (\<lambda>out.
          Inr (EkReceivedCt1Sampled e a st ct1 x enc, out)))"
  let ?ack = "\<lambda>x. and_then (validate_encapsulation_key c header x) (\<lambda>_.
          and_then (complete_encapsulation c a e st ct1 x) (\<lambda>enc. and_then (receive_output e None) (\<lambda>out.
          Inr (Ct2Sampled e a enc, out))))"
  have "receive_ct1_sampled c m e a header st ct1 enc dec =
      (let stay = (\<lambda>d. and_then (receive_output e None) (\<lambda>out. Inr (Ct1Sampled e a header st ct1 enc d, out)));
           acked = (\<lambda>d. and_then (receive_output e None) (\<lambda>out. Inr (Ct1Acknowledged e a header st ct1 d, out))) in
       if is_payload m e Ek then offer_chunk m dec ?ek stay
       else if is_payload m e EkCt1Ack then offer_chunk m dec ?ack acked else stay dec)"
    by (simp add: receive_ct1_sampled_def offer_chunk_def)
  moreover have "fine c (?ek x)" for x
    using assms(3)
    by (auto simp: state_ok_def result_simps intro!: fine_and_then[of "validate_encapsulation_key c header x"] fine_receive_output)
  moreover have "fine c (?ack x)" for x
    using assms(1,3)
    by (auto intro!: fine_and_then[of "validate_encapsulation_key c header x"] complete_encapsulation_fine)
  ultimately show ?thesis
    using assms(2,3)
    by (auto simp: Let_def state_ok_def
        intro!: fine_receive_output offer_chunk_outcome[where n = 1536 and P = "fine c"])
qed

lemma receive_ct1_acknowledged_fine:
  assumes "crypto_sizes c" "message_typed m" "fields_ok c (Ct1Acknowledged e a header st ct1 dec)"
  shows "fine c (receive_ct1_acknowledged c m e a header st ct1 dec)"
proof -
  let ?ack = "\<lambda>x. and_then (validate_encapsulation_key c header x) (\<lambda>_.
          and_then (complete_encapsulation c a e st ct1 x) (\<lambda>enc. and_then (receive_output e None) (\<lambda>out.
          Inr (Ct2Sampled e a enc, out))))"
  have "receive_ct1_acknowledged c m e a header st ct1 dec =
      (let stay = (\<lambda>d. and_then (receive_output e None) (\<lambda>out. Inr (Ct1Acknowledged e a header st ct1 d, out))) in
       if is_payload m e EkCt1Ack then offer_chunk m dec ?ack stay else stay dec)"
    by (simp add: receive_ct1_acknowledged_def offer_chunk_def)
  moreover have "fine c (?ack x)" for x
    using assms(1,3)
    by (auto intro!: fine_and_then[of "validate_encapsulation_key c header x"] complete_encapsulation_fine)
  ultimately show ?thesis
    using assms(2,3)
    by (auto simp: Let_def state_ok_def
        intro!: fine_receive_output offer_chunk_outcome[where n = 1536 and P = "fine c"])
qed

lemma receive_ct2_sampled_fine:
  assumes "fields_ok c (Ct2Sampled e a enc)"
  shows "fine c (receive_ct2_sampled m e a enc)"
  using assms
  by (auto simp: receive_ct2_sampled_def state_ok_def result_simps next_epoch_nonzero
      intro!: fine_and_then[of "checked_next_epoch e"] fine_receive_output)

lemma receive_state_fine:
  assumes "crypto_sizes c" "message_typed m" "state_ok c s"
  shows "fine c (receive_state c s m)"
proof (cases s)
  case (EkReceivedCt1Sampled e a st ct1 ek enc)
  then show ?thesis
    using assms
    by (auto simp: state_ok_def receive_ek_received_ct1_sampled_def intro!: fine_receive_output complete_encapsulation_fine)
qed (use assms in \<open>auto simp: state_ok_def receive_keys_unsampled_def receive_header_received_def
      intro!: fine_receive_output receive_keys_sampled_fine receive_ct1_received_fine receive_header_sent_fine
        receive_ek_sent_ct1_received_fine receive_no_header_received_fine receive_ct1_sampled_fine
        receive_ct1_acknowledged_fine receive_ct2_sampled_fine\<close>)

end
