(* ===== verification/Braid_Session.thy ===== *)
theory Braid_Session
  imports Braid_Send Braid_Receive
begin

text \<open>
  \<open>session.rs\<close> and \<open>persistence.rs\<close>: the session object around the state machine. Every
  operation takes the state out of the session and leaves \<open>Poisoned\<close> behind, so an error on
  any path below it poisons the session. An operation on \<open>&mut self\<close> returns its result
  and the session afterwards.
\<close>

section \<open>The session\<close>

record session =
  sess_state :: protocol_state

definition new_initiator :: "crypto \<Rightarrow> bytes \<Rightarrow> session braid_result" where
  "new_initiator c shared_secret =
     and_then (auth_initialize c INITIAL_EPOCH shared_secret) (\<lambda>auth.
     Inr \<lparr>sess_state = KeysUnsampled INITIAL_EPOCH auth\<rparr>)"

definition new_responder :: "crypto \<Rightarrow> bytes \<Rightarrow> session braid_result" where
  "new_responder c shared_secret =
     and_then (auth_initialize c INITIAL_EPOCH shared_secret) (\<lambda>auth.
     and_then (decoder_new (ML_KEM_BRAID_HEADER_BYTES + ML_KEM_BRAID_MAC_BYTES)) (\<lambda>header_decoder.
     Inr \<lparr>sess_state = NoHeaderReceived INITIAL_EPOCH auth header_decoder\<rparr>))"

definition session_epoch :: "session \<Rightarrow> u64" where
  "session_epoch ses = state_epoch (sess_state ses)"

definition is_poisoned :: "session \<Rightarrow> bool" where
  "is_poisoned ses \<longleftrightarrow> state_name (sess_state ses) = PoisonedN"

definition destroy :: "session \<Rightarrow> session" where
  "destroy ses = ses\<lparr>sess_state := Poisoned (state_epoch (sess_state ses))\<rparr>"

definition session_send :: "crypto \<Rightarrow> (nat \<Rightarrow> bytes) \<Rightarrow> session \<Rightarrow> send_out braid_result \<times> session" where
  "session_send c fill ses =
     (let epoch = state_epoch (sess_state ses) in
      if is_poisoned ses then (Inl SessionPoisoned, ses)
      else case send_state c fill (sess_state ses) of
          Inr (s, out) \<Rightarrow> (Inr out, ses\<lparr>sess_state := s\<rparr>)
        | Inl e \<Rightarrow> (Inl e, ses\<lparr>sess_state := Poisoned epoch\<rparr>))"

definition session_receive :: "crypto \<Rightarrow> session \<Rightarrow> message \<Rightarrow> receive_out braid_result \<times> session" where
  "session_receive c ses m =
     (let epoch = state_epoch (sess_state ses) in
      case message_validate m of
        Inl e \<Rightarrow> (Inl e, ses\<lparr>sess_state := Poisoned epoch\<rparr>)
      | Inr _ \<Rightarrow>
          if is_poisoned ses then (Inl SessionPoisoned, ses)
          else case receive_state c (sess_state ses) m of
              Inr (s, out) \<Rightarrow> (Inr out, ses\<lparr>sess_state := s\<rparr>)
            | Inl e \<Rightarrow> (Inl e, ses\<lparr>sess_state := Poisoned epoch\<rparr>))"

section \<open>Persistence\<close>

text \<open>
  The JSON library is the pair \<open>json_encode\<close>, \<open>json_decode\<close>; the derive attributes of the
  source decide what it is given: the revision and the state without its encoder caches.
\<close>

datatype persist_error =
    SerializationFailed
  | PersistedStateTooLarge
  | PersistedStateInvalid
  | RevisionUnsupported
  | RestoredStateInvalid braid_error

definition MAX_PERSISTED_SESSION_BYTES :: nat where
  "MAX_PERSISTED_SESSION_BYTES = 512 * 1024"

definition persist :: "(u8 \<times> protocol_state \<Rightarrow> bytes option) \<Rightarrow> session \<Rightarrow> persist_error + bytes" where
  "persist json_encode ses =
     ok_or SerializationFailed (json_encode (PERSISTENCE_REVISION, forget_caches (sess_state ses)))"

definition restore ::
    "(bytes \<Rightarrow> (u8 \<times> protocol_state) option) \<Rightarrow> crypto \<Rightarrow> bytes \<Rightarrow> persist_error + session" where
  "restore json_decode c encoded =
     ensure (length encoded \<le> MAX_PERSISTED_SESSION_BYTES) PersistedStateTooLarge
     (and_then (ok_or PersistedStateInvalid (json_decode encoded)) (\<lambda>(revision, s).
      ensure (revision = PERSISTENCE_REVISION) RevisionUnsupported
      (case validate_restored_state c s of
         Inl e \<Rightarrow> Inl (RestoredStateInvalid e)
       | Inr s \<Rightarrow> Inr \<lparr>sess_state = s\<rparr>)))"

section \<open>Lemmas\<close>

lemma is_poisoned_iff: "is_poisoned ses \<longleftrightarrow> (\<exists>e. sess_state ses = Poisoned e)"
  by (cases "sess_state ses") (auto simp: is_poisoned_def)

lemma new_initiator_ok:
  "crypto_sizes c \<Longrightarrow> new_initiator c secret = Inr ses \<Longrightarrow> state_ok c (sess_state ses)"
  by (auto simp: new_initiator_def result_simps state_ok_def INITIAL_EPOCH_def dest: auth_initialize_ok)

lemma new_responder_ok:
  "crypto_sizes c \<Longrightarrow> new_responder c secret = Inr ses \<Longrightarrow> state_ok c (sess_state ses)"
  using decoder_for_new[of 96]
  by (auto simp: new_responder_def result_simps state_ok_def INITIAL_EPOCH_def braid_sizes dest: auth_initialize_ok)

lemma send_keys_unsampled_no_panic:
  assumes "crypto_sizes c"
  shows "send_keys_unsampled c fill e a \<noteq> Inl Panic"
proof -
  let ?kp = "generate_key_pair c (fill (keygen_seed_len c))"
  have "pk2_len c * 2 + ML_KEM_BRAID_HEADER_BYTES \<le> length ?kp" "pk2_len c = ML_KEM_BRAID_EK_BYTES"
    using assms unfolding crypto_sizes_def by blast+
  then obtain h k where hk: "subrange (pk2_len c * 2) (pk2_len c * 2 + ML_KEM_BRAID_HEADER_BYTES) ?kp = Some h"
      "subrange (pk2_len c) (pk2_len c + ML_KEM_BRAID_EK_BYTES) ?kp = Some k"
    by (auto simp: subrange_def braid_sizes)
  have "next_chunk enc \<noteq> Inl Panic" if "encoder_new msg = Inr enc" for msg enc
    using next_chunk_eq encoder_new_Inr(3)[OF that] by simp
  then show ?thesis
    unfolding send_keys_unsampled_def Let_def hk
    by (auto simp: mac_header_def send_output_def previous_epoch_def and_then_def ensure_def
        split: sum.splits dest: sym)
qed

lemma next_chunk_no_panic: "encoder_ok enc \<Longrightarrow> next_chunk enc \<noteq> Inl Panic"
  by (simp add: next_chunk_eq)

lemma send_header_received_no_panic:
  assumes "crypto_sizes c" "auth_ok a"
  shows "send_header_received c fill e a h d \<noteq> Inl Panic"
proof -
  have "next_chunk enc \<noteq> Inl Panic" if "encoder_new msg = Inr enc" for msg enc
    using next_chunk_no_panic encoder_new_Inr(3)[OF that] by simp
  then show ?thesis
    using auth_update_no_panic[OF assms]
    unfolding send_header_received_def Let_def
    by (auto simp: send_output_def previous_epoch_def and_then_def ensure_def ok_or_def
        split: sum.splits option.splits dest: sym)
qed

lemma send_state_no_panic:
  assumes "crypto_sizes c" "state_ok c s"
  shows "send_state c fill s \<noteq> Inl Panic"
proof (cases s)
  case (HeaderReceived e a h d)
  then show ?thesis using assms send_header_received_no_panic by (simp add: state_ok_def)
next
  case (KeysUnsampled e a)
  then show ?thesis using assms(1) send_keys_unsampled_no_panic by simp
qed (use assms next_chunk_no_panic in \<open>auto simp: state_ok_def encoder_for_def send_arms send_output_def
      previous_epoch_def and_then_def split: sum.splits\<close>)

section \<open>Steps of a session\<close>

text \<open>
  What a caller can do with a session: send with any randomness, deliver any well-typed
  message, genuine or forged, and destroy it.
\<close>

inductive session_step :: "crypto \<Rightarrow> session \<Rightarrow> session \<Rightarrow> bool" for c where
  step_send: "(\<And>n. length (fill n) = n) \<Longrightarrow> session_send c fill ses = (r, ses') \<Longrightarrow> session_step c ses ses'"
| step_receive: "message_typed m \<Longrightarrow> session_receive c ses m = (r, ses') \<Longrightarrow> session_step c ses ses'"
| step_destroy: "session_step c ses (destroy ses)"

inductive session_reach :: "crypto \<Rightarrow> session \<Rightarrow> session \<Rightarrow> bool" for c where
  reach_refl: "session_reach c ses ses"
| reach_step: "session_reach c ses ses' \<Longrightarrow> session_step c ses' ses'' \<Longrightarrow> session_reach c ses ses''"

inductive_cases session_stepE: "session_step c ses ses'"

lemma poison_ok: "state_ok c s \<Longrightarrow> state_ok c (Poisoned (state_epoch s))"
  by (simp add: state_ok_def)

lemma session_send_outcome:
  assumes "session_send c fill ses = (r, ses')"
  obtains s' out where "send_state c fill (sess_state ses) = Inr (s', out)" "r = Inr out" "sess_state ses' = s'"
    | e where "r = Inl e" "sess_state ses' = Poisoned (state_epoch (sess_state ses))"
        "is_poisoned ses \<or> send_state c fill (sess_state ses) = Inl e"
  using assms
  by (auto simp: session_send_def Let_def is_poisoned_iff split: if_splits sum.splits prod.splits)

lemma session_receive_outcome:
  assumes "session_receive c ses m = (r, ses')"
  obtains s' out where "receive_state c (sess_state ses) m = Inr (s', out)" "r = Inr out" "sess_state ses' = s'"
      "message_validate m = Inr ()"
    | e where "r = Inl e" "sess_state ses' = Poisoned (state_epoch (sess_state ses))"
        "is_poisoned ses \<or> receive_state c (sess_state ses) m = Inl e \<or> message_validate m = Inl e"
  using assms
  by (auto simp: session_receive_def Let_def is_poisoned_iff split: if_splits sum.splits prod.splits)

lemma session_step_ok:
  assumes "crypto_sizes c" "session_step c ses ses'" "state_ok c (sess_state ses)"
  shows "state_ok c (sess_state ses')"
  using assms(2)
proof cases
  case (step_send fill r)
  from session_send_outcome[OF step_send(2)] show ?thesis
    by cases (use assms(3) send_state_ok[OF assms(1) step_send(1) assms(3)] poison_ok in auto)
next
  case (step_receive m r)
  from session_receive_outcome[OF step_receive(2)] show ?thesis
    by cases (use assms(3) receive_state_fine[OF assms(1) step_receive(1) assms(3)] poison_ok in auto)
next
  case step_destroy
  then show ?thesis using assms(3) by (simp add: destroy_def poison_ok)
qed

lemma session_reach_ok:
  assumes "crypto_sizes c" "session_reach c ses ses'" "state_ok c (sess_state ses)"
  shows "state_ok c (sess_state ses')"
  using assms(2,3) by (induction rule: session_reach.induct) (auto intro: session_step_ok[OF assms(1)])

section \<open>The transition table\<close>

text \<open>The thirteen transitions, in the numbering of the source.\<close>

definition braid_edges :: "(braid_state_name \<times> braid_state_name) list" where
  "braid_edges =
    [(KeysUnsampledN, KeysSampledN), (KeysSampledN, HeaderSentN), (HeaderSentN, Ct1ReceivedN),
     (Ct1ReceivedN, EkSentCt1ReceivedN), (EkSentCt1ReceivedN, NoHeaderReceivedN),
     (NoHeaderReceivedN, HeaderReceivedN), (HeaderReceivedN, Ct1SampledN),
     (Ct1SampledN, Ct1AcknowledgedN), (Ct1SampledN, Ct2SampledN), (Ct1SampledN, EkReceivedCt1SampledN),
     (Ct1AcknowledgedN, Ct2SampledN), (EkReceivedCt1SampledN, Ct2SampledN), (Ct2SampledN, KeysUnsampledN)]"

definition closes_epoch :: "braid_state_name \<Rightarrow> braid_state_name \<Rightarrow> bool" where
  "closes_epoch n n' \<longleftrightarrow> (n, n') = (EkSentCt1ReceivedN, NoHeaderReceivedN) \<or> (n, n') = (Ct2SampledN, KeysUnsampledN)"

lemma braid_edges_index:
  "i < 13 \<Longrightarrow> closes_epoch (fst (braid_edges ! i)) (snd (braid_edges ! i)) \<longleftrightarrow> i = 4 \<or> i = 12"
proof -
  have "\<forall>i\<in>set [0..<13]. closes_epoch (fst (braid_edges ! i)) (snd (braid_edges ! i)) \<longleftrightarrow> i = 4 \<or> i = 12"
    by code_simp
  then show "i < 13 \<Longrightarrow> closes_epoch (fst (braid_edges ! i)) (snd (braid_edges ! i)) \<longleftrightarrow> i = 4 \<or> i = 12"
    by simp
qed

lemma braid_edges_nth:
  assumes "(n, n') \<in> set braid_edges"
  obtains i where "i < 13" "braid_edges ! i = (n, n')" "closes_epoch n n' \<longleftrightarrow> i = 4 \<or> i = 12"
proof -
  have "length braid_edges = 13" by (simp add: braid_edges_def)
  then obtain i where i: "i < 13" "braid_edges ! i = (n, n')" using assms by (auto simp: in_set_conv_nth)
  with braid_edges_index[OF i(1)] that show ?thesis by simp
qed

definition edge_ok :: "protocol_state \<Rightarrow> protocol_state \<Rightarrow> bool" where
  "edge_ok s s' \<longleftrightarrow>
     state_name s' = state_name s \<and> state_epoch s' = state_epoch s
     \<or> state_name s' = PoisonedN \<and> state_epoch s' = state_epoch s
     \<or> (state_name s, state_name s') \<in> set braid_edges
       \<and> (if closes_epoch (state_name s) (state_name s')
          then state_epoch s \<noteq> - 1 \<and> state_epoch s' = state_epoch s + 1
          else state_epoch s' = state_epoch s)"

lemmas edge_defs = edge_ok_def braid_edges_def closes_epoch_def

lemma send_state_edge: "send_state c fill s = Inr (s', out) \<Longrightarrow> edge_ok s s'"
  by (cases s; force simp: send_arms Let_def result_simps edge_defs)

lemma finish_decapsulation_edge:
  "finish_decapsulation c e a seed ct1 x = Inr (s', out) \<Longrightarrow> e \<noteq> - 1 \<and> state_name s' = NoHeaderReceivedN \<and> state_epoch s' = e + 1"
  by (auto simp: finish_decapsulation_def result_simps)

lemma receive_state_edge: "receive_state c s m = Inr (s', out) \<Longrightarrow> edge_ok s s'"
  by (cases s; auto simp: receive_arms Let_def result_simps edge_defs split: if_splits
      dest!: finish_decapsulation_edge)

lemma session_step_edge:
  assumes "session_step c ses ses'"
  shows "edge_ok (sess_state ses) (sess_state ses')"
  using assms
proof cases
  case (step_send fill r)
  from session_send_outcome[OF step_send(2)] show ?thesis
    by cases (auto simp: edge_ok_def dest: send_state_edge)
next
  case (step_receive m r)
  from session_receive_outcome[OF step_receive(2)] show ?thesis
    by cases (auto simp: edge_ok_def dest: receive_state_edge)
qed (simp add: destroy_def edge_ok_def)

lemma poisoned_step:
  assumes "session_step c ses ses'" "is_poisoned ses"
  shows "sess_state ses' = sess_state ses"
  using assms
proof cases
  case (step_send fill r)
  then show ?thesis using assms(2) by (auto simp: session_send_def is_poisoned_iff Let_def)
next
  case (step_receive m r)
  then show ?thesis
    using assms(2) by (auto simp: session_receive_def is_poisoned_iff Let_def split: sum.splits)
qed (auto simp: destroy_def is_poisoned_iff)

section \<open>A concrete instance of the primitives\<close>

text \<open>
  A key encapsulation that is correct and has the sizes of the real one, to run the model on:
  the secret travels in the first ciphertext, and tags depend on the key and the message length.
\<close>

definition pad :: "nat \<Rightarrow> bytes \<Rightarrow> bytes" where
  "pad n b = take n b @ replicate (n - length b) 0"

definition sample_crypto :: crypto where
  "sample_crypto = \<lparr>keygen_seed_len = 64, encaps_state_len = 32, pk2_len = 1536,
     generate_key_pair = (\<lambda>seed. pad 3168 seed),
     validate_pk_bytes = (\<lambda>header ek. True),
     encapsulate1 = (\<lambda>header r. Some (pad 1408 (pad 32 r), pad 32 r, pad 32 r)),
     encapsulate2 = (\<lambda>st ek. pad 160 st),
     decapsulate_key = (\<lambda>kp ct1 ct2. take 32 ct1),
     hkdf_sha256 = (\<lambda>salt ikm info n. Some (pad n (ikm @ salt @ info))),
     hmac_sha256 = (\<lambda>key msg. Some (pad 32 (of_nat (length msg) # key)))\<rparr>"

lemma length_pad [simp]: "length (pad n b) = n"
  by (simp add: pad_def)

lemma sample_crypto_sizes: "crypto_sizes sample_crypto"
  by (auto simp: crypto_sizes_def sample_crypto_def braid_sizes)

lemma sample_crypto_kem: "kem_correct sample_crypto"
proof -
  have "take 32 (pad 1408 (pad 32 r)) = pad 32 r" for r
    by (simp add: pad_def[of 1408])
  then show ?thesis by (auto simp: kem_correct_def sample_crypto_def Let_def)
qed

lemma sample_initiator: "\<exists>ses auth. new_initiator sample_crypto (replicate 32 9) = Inr ses \<and> sess_state ses = KeysUnsampled 1 auth"
  by (simp add: new_initiator_def auth_initialize_def auth_update_def sample_crypto_def INITIAL_EPOCH_def Let_def)

lemma sample_first_send:
  assumes "sess_state ses = KeysUnsampled 1 a"
  shows "\<exists>ses' out. session_send sample_crypto (\<lambda>n. replicate n 7) ses = (Inr out, ses')
    \<and> state_name (sess_state ses') = KeysSampledN"
proof -
  let ?kp = "generate_key_pair sample_crypto (replicate 64 7)"
  let ?header = "take 64 (drop 3072 ?kp)"
  obtain mac where mac: "mac_header sample_crypto a 1 ?header = Inr mac" "length mac = 32"
    by (simp add: mac_header_def auth_mac_def sample_crypto_def)
  have len: "length (?header @ mac) = 96" using mac(2) by (simp add: sample_crypto_def)
  then have "?header @ mac \<noteq> []" by (metis list.size(3) zero_neq_numeral)
  then obtain enc where enc: "encoder_new (?header @ mac) = Inr enc"
    using encoder_new_ok[of "?header @ mac", unfolded len] by (auto simp: braid_sizes)
  obtain ch enc' where nxt: "next_chunk enc = Inr (ch, enc')"
    using next_chunk_eq encoder_new_Inr(2,3)[OF enc] by auto
  have "send_state sample_crypto (\<lambda>n. replicate n 7) (sess_state ses) =
      Inr (KeysSampled 1 a (replicate 64 7) (take 1536 (drop 1536 ?kp)) enc',
        \<lparr>out_message = payload 1 Hdr ch, sending_epoch = 0, sent_key = None\<rparr>)"
    using mac enc nxt
    by (simp add: assms send_keys_unsampled_def Let_def subrange_def braid_sizes send_output_def previous_epoch_def
        sample_crypto_def)
  then show ?thesis using assms by (simp add: session_send_def is_poisoned_iff)
qed

end
