(* ===== verification/Braid_Properties.thy ===== *)
theory Braid_Properties
  imports Braid_Session
begin

text \<open>
  What a braid session guarantees on its own, whatever its caller, its peer and the network
  do: it stays well formed, it never panics, it follows the transition table, an error ends
  it for good, a persisted session comes back as it was, and no peer material is used before
  its tag is checked.
\<close>

text \<open>
  C3: a session that starts as initiator or responder stays well formed through any sequence of
  sends, deliveries of arbitrary messages and destructions: all lengths are right, the encoder
  caches are consistent, the decoders are active. Consequently no operation ever reaches an
  index or slice panic.
\<close>

theorem session_stays_well_formed:
  assumes "crypto_sizes c" and "new_initiator c secret = Inr ses \<or> new_responder c secret = Inr ses"
    and "session_reach c ses ses'"
  shows "state_ok c (sess_state ses') \<and> fst (session_send c fill ses') \<noteq> Inl Panic
    \<and> (message_typed m \<longrightarrow> fst (session_receive c ses' m) \<noteq> Inl Panic)"
proof -
  have ok: "state_ok c (sess_state ses')"
    using assms session_reach_ok new_initiator_ok new_responder_ok by blast
  have "fst (session_send c fill ses') \<noteq> Inl Panic"
    using send_state_no_panic[OF assms(1) ok, of fill]
    by (auto simp: session_send_def Let_def split: sum.splits)
  moreover have "fst (session_receive c ses' m) \<noteq> Inl Panic" if "message_typed m"
    using receive_state_fine[OF assms(1) that ok]
    by (auto simp: session_receive_def Let_def message_validate_def ensure_def fine_def split: sum.splits prod.splits)
  ultimately show ?thesis using ok by simp
qed

theorem session_stays_well_formed_witness:
  "\<exists>ses ses'. new_initiator sample_crypto (replicate 32 9) = Inr ses \<and> session_reach sample_crypto ses ses'
     \<and> state_name (sess_state ses') = KeysSampledN \<and> state_ok sample_crypto (sess_state ses')"
proof -
  obtain ses a where ses: "new_initiator sample_crypto (replicate 32 9) = Inr ses" "sess_state ses = KeysUnsampled 1 a"
    using sample_initiator by blast
  obtain ses' out where send: "session_send sample_crypto (\<lambda>n. replicate n 7) ses = (Inr out, ses')"
      "state_name (sess_state ses') = KeysSampledN"
    using sample_first_send[OF ses(2)] by blast
  have reach: "session_reach sample_crypto ses ses'"
    by (rule reach_step[OF reach_refl]) (rule step_send[OF _ send(1)], simp)
  show ?thesis
    using session_stays_well_formed[OF sample_crypto_sizes _ reach] ses(1) send(2) reach by blast
qed

text \<open>
  C4: the state machine follows its table. A step keeps state and epoch, or poisons the session
  in its epoch, or takes one of the thirteen numbered transitions; the epoch grows by exactly
  one, without wrap-around, on transitions 5 and 13 and on no other.
\<close>

theorem session_follows_table:
  assumes "session_step c ses ses'"
  shows "let s = sess_state ses; s' = sess_state ses' in
    state_name s' = state_name s \<and> state_epoch s' = state_epoch s
    \<or> state_name s' = PoisonedN \<and> state_epoch s' = state_epoch s
    \<or> (\<exists>i<13. braid_edges ! i = (state_name s, state_name s')
        \<and> unat (state_epoch s') = unat (state_epoch s) + (if i = 4 \<or> i = 12 then 1 else 0))"
proof -
  let ?s = "sess_state ses" and ?s' = "sess_state ses'"
  have "edge_ok ?s ?s'" by (rule session_step_edge[OF assms])
  then consider "state_name ?s' = state_name ?s" "state_epoch ?s' = state_epoch ?s"
    | "state_name ?s' = PoisonedN" "state_epoch ?s' = state_epoch ?s"
    | "(state_name ?s, state_name ?s') \<in> set braid_edges"
        "unat (state_epoch ?s') = unat (state_epoch ?s) + (if closes_epoch (state_name ?s) (state_name ?s') then 1 else 0)"
    unfolding edge_ok_def by (auto simp: next_epoch_unat split: if_splits)
  then show ?thesis
  proof cases
    case 3
    from braid_edges_nth[OF 3(1)] obtain i where i: "i < 13" "braid_edges ! i = (state_name ?s, state_name ?s')"
        "closes_epoch (state_name ?s) (state_name ?s') \<longleftrightarrow> i = 4 \<or> i = 12" by blast
    show ?thesis unfolding Let_def by (intro disjI2 exI[of _ i] conjI) (use i 3(2) in simp_all)
  qed (simp_all add: Let_def)
qed

theorem session_follows_table_witness:
  "\<exists>ses ses'. session_step sample_crypto ses ses' \<and> state_name (sess_state ses) = KeysUnsampledN
     \<and> state_name (sess_state ses') = KeysSampledN \<and> unat (state_epoch (sess_state ses')) \<le> 2"
proof -
  obtain ses a where ses: "new_initiator sample_crypto (replicate 32 9) = Inr ses" "sess_state ses = KeysUnsampled 1 a"
    using sample_initiator by blast
  obtain ses' out where send: "session_send sample_crypto (\<lambda>n. replicate n 7) ses = (Inr out, ses')"
      "state_name (sess_state ses') = KeysSampledN"
    using sample_first_send[OF ses(2)] by blast
  have step: "session_step sample_crypto ses ses'" by (rule step_send[OF _ send(1)]) simp
  have "unat (state_epoch (sess_state ses')) \<le> 2"
    using session_follows_table[OF step] ses(2) send(2) by (auto simp: Let_def split: if_splits)
  then show ?thesis using step send(2) ses(2) by (intro exI[of _ ses] exI[of _ ses']) simp
qed

text \<open>
  errors are final. When a send or a receive reports an error the session is poisoned in
  the same epoch, and from a poisoned session every send and receive fails and nothing
  changes any more.
\<close>

theorem errors_poison_for_good:
  assumes "fst (session_send c fill ses) = Inl e \<and> ses' = snd (session_send c fill ses)
    \<or> fst (session_receive c ses m) = Inl e \<and> ses' = snd (session_receive c ses m)"
    and "session_reach c ses' ses''"
  shows "is_poisoned ses'' \<and> session_epoch ses'' = session_epoch ses
    \<and> fst (session_send c fill' ses'') = Inl SessionPoisoned \<and> \<not> is_ok (fst (session_receive c ses'' m'))"
proof -
  consider "session_send c fill ses = (Inl e, ses')" | "session_receive c ses m = (Inl e, ses')"
    using assms(1) by (metis prod.collapse)
  then have ses': "sess_state ses' = Poisoned (session_epoch ses)"
    by cases (auto elim!: session_send_outcome session_receive_outcome simp: session_epoch_def)
  have "sess_state ses'' = Poisoned (session_epoch ses)"
    using assms(2) ses'
    by (induction rule: session_reach.induct) (auto dest: poisoned_step simp: is_poisoned_iff)
  then show ?thesis
    by (auto simp: is_poisoned_iff session_epoch_def session_send_def session_receive_def Let_def split: sum.splits)
qed

theorem errors_poison_for_good_witness:
  "\<exists>ses ses'. new_initiator sample_crypto (replicate 32 9) = Inr ses
     \<and> session_receive sample_crypto ses (empty_message 0 MsgNone) = (Inl EpochZeroInvalid, ses') \<and> is_poisoned ses'"
proof -
  obtain ses where ses: "new_initiator sample_crypto (replicate 32 9) = Inr ses" using sample_initiator by blast
  let ?m = "empty_message 0 MsgNone"
  have r: "fst (session_receive sample_crypto ses ?m) = Inl EpochZeroInvalid"
    by (simp add: session_receive_def message_validate_def empty_message_def)
  let ?s = "snd (session_receive sample_crypto ses ?m)"
  have "is_poisoned ?s"
    using errors_poison_for_good[where m = ?m and ses' = ?s and ses'' = ?s, OF _ reach_refl] r by blast
  then show ?thesis using ses r by (metis prod.collapse)
qed

text \<open>
  persistence loses nothing. Restoring the bytes a reachable session persists gives back
  that session, encoder caches included, whenever the JSON library reads back what it wrote
  and the bytes stay within the size limit.
\<close>

theorem restore_after_persist:
  assumes "crypto_sizes c" and "new_initiator c secret = Inr ses \<or> new_responder c secret = Inr ses"
    and "session_reach c ses ses'"
    and "\<And>x b. json_encode x = Some b \<Longrightarrow> json_decode b = Some x"
    and "persist json_encode ses' = Inr encoded" and "length encoded \<le> MAX_PERSISTED_SESSION_BYTES"
  shows "restore json_decode c encoded = Inr ses'"
proof -
  have "state_ok c (sess_state ses')"
    using assms session_reach_ok new_initiator_ok new_responder_ok by blast
  moreover have "json_decode encoded = Some (PERSISTENCE_REVISION, forget_caches (sess_state ses'))"
    using assms(4,5) by (simp add: persist_def result_simps)
  ultimately show ?thesis
    using assms(6) by (simp add: restore_def validate_forget_caches)
qed

theorem restore_after_persist_witness:
  "\<exists>ses encoded. new_initiator sample_crypto (replicate 32 9) = Inr ses
     \<and> persist (\<lambda>x. if x = (PERSISTENCE_REVISION, sess_state ses) then Some [1] else None) ses = Inr encoded
     \<and> restore (\<lambda>b. if b = [1] then Some (PERSISTENCE_REVISION, sess_state ses) else None) sample_crypto encoded = Inr ses"
proof -
  obtain ses a where ses: "new_initiator sample_crypto (replicate 32 9) = Inr ses" "sess_state ses = KeysUnsampled 1 a"
    using sample_initiator by blast
  let ?enc = "\<lambda>x. if x = (PERSISTENCE_REVISION, sess_state ses) then Some [1 :: u8] else None"
  let ?dec = "\<lambda>b. if b = [1 :: u8] then Some (PERSISTENCE_REVISION, sess_state ses) else None"
  have p: "persist ?enc ses = Inr [1]" using ses(2) by (simp add: persist_def)
  have "restore ?dec sample_crypto [1] = Inr ses"
    by (rule restore_after_persist[OF sample_crypto_sizes _ reach_refl _ p])
      (use ses(1) in \<open>auto simp: MAX_PERSISTED_SESSION_BYTES_def split: if_splits\<close>)
  then show ?thesis using ses(1) p by blast
qed

text \<open>
  C5: nothing of the peer is used before its tag is checked. A session accepts a header only
  when the decoded message is the header followed by its tag under the current authenticator;
  it reports a key and opens the next epoch on the decapsulating side only when the decoded
  message is the second ciphertext followed by the tag of both ciphertexts under the
  authenticator updated with exactly that key.
\<close>

theorem tags_checked_before_use:
  assumes "receive_state c s m = Inr (s', out)"
  shows "(case s' of HeaderReceived e auth header dec \<Rightarrow>
        s = s' \<or> (\<exists>dec0 ch dec1 mac. s = NoHeaderReceived e auth dec0 \<and> msg_data m = Some ch \<and> is_payload m e Hdr
          \<and> add_chunk dec0 ch = Inr dec1 \<and> dec_decoded dec1 = Some (header @ mac)
          \<and> length header = ML_KEM_BRAID_HEADER_BYTES \<and> mac_header c auth e header = Inr mac)
      | _ \<Rightarrow> True)
    \<and> (case received_key out of None \<Rightarrow> True
      | Some key \<Rightarrow> \<exists>e auth seed ct1 dec0 ch dec1 ct2 mac auth' hd. s = EkSentCt1Received e auth seed ct1 dec0
          \<and> is_payload m e Ct2 \<and> msg_data m = Some ch \<and> add_chunk dec0 ch = Inr dec1
          \<and> dec_decoded dec1 = Some (ct2 @ mac) \<and> length ct2 = ML_KEM_BRAID_CT2_BYTES
          \<and> and_then (decapsulate c seed ct1 ct2) (\<lambda>ss. derive_output_key c ss e) = Inr key
          \<and> auth_update c e (key_bytes key) auth = Inr auth' \<and> mac_ciphertext c auth' e (ct1 @ ct2) = Inr mac
          \<and> s' = NoHeaderReceived (e + 1) auth' hd)"
proof (cases s)
  case (NoHeaderReceived e auth dec0)
  then show ?thesis
    using assms
    by (auto simp: receive_no_header_received_def Let_def result_simps verify_header_def mac_header_def
        take_message_def split: if_splits)
next
  case (EkSentCt1Received e auth seed ct1 dec0)
  then have "receive_ek_sent_ct1_received c m e auth seed ct1 dec0 = Inr (s', out)" using assms by simp
  then show ?thesis
  proof (cases rule: receive_ek_sent_ct1_received_Inr)
    case (2 ch dec' x)
    from 2(5) show ?thesis
      by (rule finish_decapsulation_Inr) (use EkSentCt1Received 2 in auto)
  qed simp
qed (use assms in \<open>auto simp: receive_arms Let_def result_simps split: if_splits\<close>)

theorem tags_checked_before_use_witness:
  "let auth = \<lparr>root_key = replicate 32 0, mac_key = replicate 32 5\<rparr>;
       dec = \<lparr>dec_message_bytes = 96, dec_chunks = [(0, replicate 32 0), (1, replicate 32 0)], dec_decoded = None\<rparr>;
       m = payload 1 Hdr \<lparr>chunk_point = 2, chunk_bytes = 111 # replicate 31 5\<rparr> in
   receive_state sample_crypto (NoHeaderReceived 1 auth dec) m =
     Inr (HeaderReceived 1 auth (replicate 64 0) \<lparr>dec_message_bytes = 1536, dec_chunks = [], dec_decoded = None\<rparr>,
          \<lparr>receiving_epoch = 0, received_key = None\<rparr>)
   \<and> (\<exists>mac. mac_header sample_crypto auth 1 (replicate 64 0) = Inr mac)"
proof -
  let ?auth = "\<lparr>root_key = replicate 32 0, mac_key = replicate 32 5\<rparr>"
  let ?dec = "\<lparr>dec_message_bytes = 96, dec_chunks = [(0, replicate 32 0), (1, replicate 32 0)], dec_decoded = None\<rparr>"
  have r: "receive_state sample_crypto (NoHeaderReceived 1 ?auth ?dec)
      (payload 1 Hdr \<lparr>chunk_point = 2, chunk_bytes = 111 # replicate 31 5\<rparr>) =
     Inr (HeaderReceived 1 ?auth (replicate 64 0) \<lparr>dec_message_bytes = 1536, dec_chunks = [], dec_decoded = None\<rparr>,
          \<lparr>receiving_epoch = 0, received_key = None\<rparr>)"
    by code_simp
  from tags_checked_before_use[OF r]
  have "\<exists>mac. mac_header sample_crypto ?auth 1 (replicate 64 0) = Inr mac" by auto
  with r show ?thesis by (simp add: Let_def)
qed

end
