(* ===== verification/Stateful.thy ===== *)
theory Stateful
  imports Prelude
begin

text \<open>
  Methods on \<open>&mut self\<close> that fail: they return their result and the state they leave behind,
  which is observable after an error too. \<open>st_bind\<close> is \<open>let x = self.f()?; ...\<close>, \<open>st_ensure\<close>
  is \<open>ensure!\<close> and \<open>st_try\<close> a fallible computation that does not touch the state.
\<close>

definition st_bind :: "('e + 'a) \<times> 's \<Rightarrow> ('a \<Rightarrow> 's \<Rightarrow> ('e + 'b) \<times> 's) \<Rightarrow> ('e + 'b) \<times> 's" where
  "st_bind p f = (case p of (Inl e, s) \<Rightarrow> (Inl e, s) | (Inr x, s) \<Rightarrow> f x s)"

definition st_ensure :: "bool \<Rightarrow> 'e \<Rightarrow> 's \<Rightarrow> ('e + 'a) \<times> 's \<Rightarrow> ('e + 'a) \<times> 's" where
  "st_ensure b e s k = (if b then k else (Inl e, s))"

definition st_try :: "'e + 'a \<Rightarrow> 's \<Rightarrow> ('a \<Rightarrow> ('e + 'b) \<times> 's) \<Rightarrow> ('e + 'b) \<times> 's" where
  "st_try r s f = (case r of Inl e \<Rightarrow> (Inl e, s) | Inr x \<Rightarrow> f x)"

text \<open>\<open>on_error g\<close> is \<open>map_err\<close>, here also for the context \<open>anyhow\<close> puts around an error.\<close>

definition map_err :: "('e \<Rightarrow> 'f) \<Rightarrow> 'e + 'a \<Rightarrow> 'f + 'a" where
  "map_err g r = (case r of Inl e \<Rightarrow> Inl (g e) | Inr x \<Rightarrow> Inr x)"

lemma st_bind_simps [simp]:
  "st_bind (Inl e, s) f = (Inl e, s)"
  "st_bind (Inr x, s) f = f x s"
  by (simp_all add: st_bind_def)

lemma st_ensure_simps [simp]:
  "st_ensure True e s k = k"
  "st_ensure False e s k = (Inl e, s)"
  by (simp_all add: st_ensure_def)

lemma st_try_simps [simp]:
  "st_try (Inl e) s f = (Inl e, s)"
  "st_try (Inr x) s f = f x"
  by (simp_all add: st_try_def)

lemma map_err_simps [simp]:
  "map_err g (Inl e) = Inl (g e)"
  "map_err g (Inr x) = Inr x"
  by (simp_all add: map_err_def)

lemma map_err_Inr_iff [result_simps]: "map_err g r = Inr y \<longleftrightarrow> r = Inr y"
  by (cases r) auto

lemma st_bind_Inr_iff [result_simps]:
  "st_bind p f = (Inr y, s') \<longleftrightarrow> (\<exists>x s. p = (Inr x, s) \<and> f x s = (Inr y, s'))"
  by (auto simp: st_bind_def split: prod.splits sum.splits)

lemma st_ensure_Inr_iff [result_simps]:
  "st_ensure b e s k = (Inr y, s') \<longleftrightarrow> b \<and> k = (Inr y, s')"
  by (auto simp: st_ensure_def)

lemma st_try_Inr_iff [result_simps]:
  "st_try r s f = (Inr y, s') \<longleftrightarrow> (\<exists>x. r = Inr x \<and> f x = (Inr y, s'))"
  by (auto simp: st_try_def split: sum.splits)

text \<open>Errors of the combinators come from one of their parts.\<close>

lemma st_bind_InlE:
  assumes "st_bind p f = (Inl e, s')"
  obtains "p = (Inl e, s')" | x s where "p = (Inr x, s)" "f x s = (Inl e, s')"
  using assms by (auto simp: st_bind_def split: prod.splits sum.splits)

lemma st_bind_cong [fundef_cong]:
  "p = p' \<Longrightarrow> (\<And>x s. p' = (Inr x, s) \<Longrightarrow> f x s = f' x s) \<Longrightarrow> st_bind p f = st_bind p' f'"
  by (auto simp: st_bind_def split: prod.splits sum.splits)

lemma st_try_cong [fundef_cong]:
  "r = r' \<Longrightarrow> s = s' \<Longrightarrow> (\<And>x. r' = Inr x \<Longrightarrow> f x = f' x) \<Longrightarrow> st_try r s f = st_try r' s' f'"
  by (auto simp: st_try_def split: sum.splits)

end
