(* ===== verification/Spq_Ratchet.thy ===== *)
theory Spq_Ratchet
  imports Stateful Braid_Session
begin

text \<open>
  The sparse post-quantum ratchet (\<open>secure_mesh_sparse_pq_ratchet.rs\<close>): one symmetric chain per
  direction and epoch, a new epoch whenever the braid outputs a key, and the keys of skipped
  messages. The ratchet reaches its braid session only through its methods, which the record
  \<open>scka\<close> lists; \<open>braid_scka\<close> is the instance the code uses. A method on \<open>&mut self\<close> returns its
  result with the ratchet it leaves behind, also when it fails half-way.
\<close>

section \<open>Constants, errors and data\<close>

definition SPQR_PERSISTENCE_REVISION :: u8 where "SPQR_PERSISTENCE_REVISION = 2"
definition SPQR_KEY_BYTES :: nat where "SPQR_KEY_BYTES = 32"
definition SPQR_MAX_SKIPPED_KEYS :: nat where "SPQR_MAX_SKIPPED_KEYS = 32"
definition SPQR_MAX_PERSISTED_STATE_BYTES :: nat where "SPQR_MAX_PERSISTED_STATE_BYTES = 1024 * 1024"
definition SPQR_KEY_BASE64URL_BYTES :: nat where "SPQR_KEY_BASE64URL_BYTES = (SPQR_KEY_BYTES * 8 + 5) div 6"
definition SPQR_MAX_ENCODED_BRAID_BYTES :: nat where "SPQR_MAX_ENCODED_BRAID_BYTES = (512 * 1024 * 8 + 5) div 6"
definition SPQR_PROTOCOL_INFO :: bytes where
  "SPQR_PROTOCOL_INFO = ascii ''licomesh.secure-mesh.spqr.mlkem1024-braid.v1''"
definition SPQR_CHAIN_START_LABEL :: bytes where "SPQR_CHAIN_START_LABEL = ascii '' Chain Start''"
definition SPQR_CHAIN_ADD_EPOCH_LABEL :: bytes where "SPQR_CHAIN_ADD_EPOCH_LABEL = ascii '' Chain Add Epoch''"
definition SPQR_CHAIN_STEP_LABEL :: bytes where "SPQR_CHAIN_STEP_LABEL = ascii '' Chain Step''"
definition TRIPLE_RATCHET_PROTOCOL_INFO :: bytes where
  "TRIPLE_RATCHET_PROTOCOL_INFO = ascii ''licomesh.secure-mesh.triple-ratchet.pqxdh-mlkem1024.v1''"

datatype spq_error =
    RatchetPoisoned
  | BraidFailed braid_error
  | SendingEpochNotContiguous
  | PreviousSendingChainUnavailable
  | SendingChainUnavailable
  | SendingCounterExhausted
  | MessageNumberInvalid
  | MessageEpochInvalid
  | ReceivingEpochNotContiguous
  | ReceivingEpochSkippedChain
  | PreviousReceivingEpochUnavailable
  | MessageEpochOutsideWindow
  | DelayedKeyUnavailable
  | MessageNumberUnderflow
  | ReceivingChainUnavailable
  | MessageKeyStale
  | RatchetEpochExhausted
  | OutputEpochNotContiguous
  | EpochAlreadyExists
  | PreviousLengthRegressed
  | SkippedLimitExceeded
  | ReceivingCounterExhausted
  | RootDerivationFailed
  | ChainDerivationFailed
  | HybridDerivationFailed
  | SessionBindingRequired
  | TripleContextTooLarge
  | RoleUnsupported
  | SpqSerializationFailed
  | BraidPersistFailed persist_error
  | SpqPersistedTooLarge
  | SpqPersistedInvalid
  | SpqRevisionUnsupported
  | PersistedEpochsInconsistent
  | PersistedResourcesExceeded
  | PersistedChainEpochOutside
  | PersistedChainDuplicated
  | PersistedCurrentChainsUnavailable
  | PersistedSkippedInvalid
  | PersistedBraidTooLarge
  | PersistedBraidNotBase64
  | PersistedBraidNonCanonical
  | BraidRestoreFailed persist_error
  | BraidEpochInconsistent
  | SpqKeyLengthInvalid
  | SpqKeyNotBase64
  | SpqKeyNonCanonical

type_synonym 'a spq_result = "spq_error + 'a"

datatype spq_role = SpqInitiator | SpqResponder

fun spq_role_as_str :: "spq_role \<Rightarrow> bytes" where
  "spq_role_as_str SpqInitiator = ascii ''initiator''"
| "spq_role_as_str SpqResponder = ascii ''responder''"

definition spq_role_from_str :: "bytes \<Rightarrow> spq_role spq_result" where
  "spq_role_from_str value =
     (if value = ascii ''initiator'' then Inr SpqInitiator
      else if value = ascii ''responder'' then Inr SpqResponder
      else Inl RoleUnsupported)"

record spq_header =
  hdr_braid_message :: message
  hdr_message_number :: u64
  hdr_previous_chain_length :: u64

record spq_send =
  sent_header :: spq_header
  sent_message_key :: bytes

record kdf_chain =
  chain_key :: bytes
  chain_counter :: u64

record epoch_chains =
  send_chain :: "kdf_chain option"
  receive_chain :: "kdf_chain option"

record skipped_key =
  skipped_epoch :: u64
  skipped_number :: u64
  skipped_message_key :: bytes

record 's spq_ratchet =
  spq_role :: spq_role
  spq_root_key :: bytes
  spq_epoch :: u64
  spq_sending_epoch :: u64
  spq_receiving_epoch :: u64
  spq_previous_length :: u64
  spq_chains :: "(u64 \<times> epoch_chains) list"
  spq_skipped :: "skipped_key list"
  spq_braid :: 's

text \<open>The session methods the ratchet calls. Sending draws randomness, the argument \<open>fill\<close>.\<close>

record 's scka =
  scka_send :: "(nat \<Rightarrow> bytes) \<Rightarrow> 's \<Rightarrow> send_out braid_result \<times> 's"
  scka_receive :: "'s \<Rightarrow> message \<Rightarrow> receive_out braid_result \<times> 's"
  scka_poisoned :: "'s \<Rightarrow> bool"
  scka_destroy :: "'s \<Rightarrow> 's"

definition braid_scka :: "crypto \<Rightarrow> session scka" where
  "braid_scka c = \<lparr>scka_send = session_send c, scka_receive = session_receive c,
     scka_poisoned = is_poisoned, scka_destroy = destroy\<rparr>"

section \<open>Key derivation\<close>

definition derive_three_keys :: "crypto \<Rightarrow> bytes \<Rightarrow> bytes \<Rightarrow> bytes \<Rightarrow> (bytes \<times> bytes \<times> bytes) spq_result" where
  "derive_three_keys c salt input label =
     and_then (ok_or RootDerivationFailed (hkdf_sha256 c salt input (SPQR_PROTOCOL_INFO @ label) 96)) (\<lambda>output.
     Inr (take 32 output, take 32 (drop 32 output), drop 64 output))"

definition derive_initial_chains :: "crypto \<Rightarrow> bytes \<Rightarrow> (bytes \<times> bytes \<times> bytes) spq_result" where
  "derive_initial_chains c shared_secret =
     derive_three_keys c (replicate 32 0) shared_secret SPQR_CHAIN_START_LABEL"

definition derive_added_epoch :: "crypto \<Rightarrow> bytes \<Rightarrow> bytes \<Rightarrow> (bytes \<times> bytes \<times> bytes) spq_result" where
  "derive_added_epoch c root_k out_key = derive_three_keys c root_k out_key SPQR_CHAIN_ADD_EPOCH_LABEL"

text \<open>The next chain key and the message key of the message with number \<open>counter\<close>.\<close>

definition derive_chain_step :: "crypto \<Rightarrow> bytes \<Rightarrow> u64 \<Rightarrow> (bytes \<times> bytes) spq_result" where
  "derive_chain_step c key counter =
     and_then (ok_or ChainDerivationFailed
       (hkdf_sha256 c (replicate 32 0) key (SPQR_PROTOCOL_INFO @ SPQR_CHAIN_STEP_LABEL @ u64_to_be counter) 64)) (\<lambda>output.
     Inr (take 32 output, drop 32 output))"

definition append_binding_len_prefixed :: "bytes \<Rightarrow> bytes \<Rightarrow> bytes spq_result" where
  "append_binding_len_prefixed out value =
     ensure (length value < 2 ^ 32) TripleContextTooLarge
     (Inr (out @ u32_to_be (of_nat (length value)) @ value))"

definition derive_hybrid_message_key :: "crypto \<Rightarrow> bytes \<Rightarrow> bytes \<Rightarrow> bytes \<Rightarrow> bytes spq_result" where
  "derive_hybrid_message_key c classical_message_key post_quantum_message_key session_binding =
     ensure (session_binding \<noteq> []) SessionBindingRequired
     (and_then (append_binding_len_prefixed TRIPLE_RATCHET_PROTOCOL_INFO session_binding) (\<lambda>info.
      ok_or HybridDerivationFailed
        (hkdf_sha256 c post_quantum_message_key classical_message_key info 32)))"

section \<open>The ratchet\<close>

definition chain_of_role :: "spq_role \<Rightarrow> bytes \<Rightarrow> bytes \<Rightarrow> bytes \<times> bytes" where
  "chain_of_role role a_to_b b_to_a =
     (case role of SpqInitiator \<Rightarrow> (a_to_b, b_to_a) | SpqResponder \<Rightarrow> (b_to_a, a_to_b))"

definition new_chains :: "bytes \<times> bytes \<Rightarrow> epoch_chains" where
  "new_chains = (\<lambda>(snd_key, rcv_key).
     \<lparr>send_chain = Some \<lparr>chain_key = snd_key, chain_counter = 0\<rparr>,
      receive_chain = Some \<lparr>chain_key = rcv_key, chain_counter = 0\<rparr>\<rparr>)"

definition spq_new :: "crypto \<Rightarrow> (spq_role \<Rightarrow> 's braid_result) \<Rightarrow> spq_role \<Rightarrow> bytes \<Rightarrow> 's spq_ratchet spq_result" where
  "spq_new c new_braid role shared_secret =
     and_then (derive_initial_chains c shared_secret) (\<lambda>(root_k, a_to_b, b_to_a).
     and_then (map_err BraidFailed (new_braid role)) (\<lambda>braid.
     Inr \<lparr>spq_role = role, spq_root_key = root_k, spq_epoch = 0, spq_sending_epoch = 0, spq_receiving_epoch = 0,
          spq_previous_length = 0, spq_chains = [(0, new_chains (chain_of_role role a_to_b b_to_a))],
          spq_skipped = [], spq_braid = braid\<rparr>))"

definition new_braid :: "crypto \<Rightarrow> bytes \<Rightarrow> spq_role \<Rightarrow> session braid_result" where
  "new_braid c shared_secret role =
     (case role of SpqInitiator \<Rightarrow> new_initiator c shared_secret | SpqResponder \<Rightarrow> new_responder c shared_secret)"

definition spq_new_initiator :: "crypto \<Rightarrow> bytes \<Rightarrow> session spq_ratchet spq_result" where
  "spq_new_initiator c shared_secret = spq_new c (new_braid c shared_secret) SpqInitiator shared_secret"

definition spq_new_responder :: "crypto \<Rightarrow> bytes \<Rightarrow> session spq_ratchet spq_result" where
  "spq_new_responder c shared_secret = spq_new c (new_braid c shared_secret) SpqResponder shared_secret"

definition spq_is_poisoned :: "'s scka \<Rightarrow> 's spq_ratchet \<Rightarrow> bool" where
  "spq_is_poisoned ops r \<longleftrightarrow> scka_poisoned ops (spq_braid r)"

definition zero_chain :: "kdf_chain \<Rightarrow> kdf_chain" where
  "zero_chain ch = ch\<lparr>chain_key := replicate SPQR_KEY_BYTES 0\<rparr>"

definition spq_destroy :: "'s scka \<Rightarrow> 's spq_ratchet \<Rightarrow> 's spq_ratchet" where
  "spq_destroy ops r = r\<lparr>spq_root_key := replicate SPQR_KEY_BYTES 0,
     spq_chains := map (\<lambda>(e, cs). (e, \<lparr>send_chain = map_option zero_chain (send_chain cs),
       receive_chain = map_option zero_chain (receive_chain cs)\<rparr>)) (spq_chains r),
     spq_skipped := [], spq_braid := scka_destroy ops (spq_braid r)\<rparr>"

definition oldest_epoch :: "u64 \<Rightarrow> u64" where
  "oldest_epoch epoch = (if epoch = 0 then 0 else epoch - 1)"

definition prune_old_epochs :: "'s spq_ratchet \<Rightarrow> 's spq_ratchet" where
  "prune_old_epochs r =
     (let oldest = oldest_epoch (spq_epoch r) in
      r\<lparr>spq_chains := filter (\<lambda>(epoch, _). oldest \<le> epoch) (spq_chains r),
        spq_skipped := filter (\<lambda>k. oldest \<le> skipped_epoch k) (spq_skipped r)\<rparr>)"

definition add_epoch :: "crypto \<Rightarrow> output_key \<Rightarrow> 's spq_ratchet \<Rightarrow> unit spq_result \<times> 's spq_ratchet" where
  "add_epoch c out_key r =
     st_ensure (spq_epoch r \<noteq> - 1) RatchetEpochExhausted r
     (let expected_epoch = spq_epoch r + 1 in
      st_ensure (key_epoch out_key = expected_epoch) OutputEpochNotContiguous r
      (st_try (derive_added_epoch c (spq_root_key r) (key_bytes out_key)) r (\<lambda>(root_k, a_to_b, b_to_a).
       let existing = map_of (spq_chains r) expected_epoch;
           r = r\<lparr>spq_chains := bt_insert expected_epoch (new_chains (chain_of_role (spq_role r) a_to_b b_to_a)) (spq_chains r)\<rparr> in
       st_ensure (existing = None) EpochAlreadyExists r
       (Inr (), prune_old_epochs (r\<lparr>spq_root_key := root_k, spq_epoch := expected_epoch\<rparr>)))))"

text \<open>\<open>chains.get(&epoch)\<close> and the change of an entry through \<open>get_mut\<close>.\<close>

definition send_chain_of :: "'s spq_ratchet \<Rightarrow> u64 \<Rightarrow> kdf_chain option" where
  "send_chain_of r epoch = Option.bind (map_of (spq_chains r) epoch) send_chain"

definition receive_chain_of :: "'s spq_ratchet \<Rightarrow> u64 \<Rightarrow> kdf_chain option" where
  "receive_chain_of r epoch = Option.bind (map_of (spq_chains r) epoch) receive_chain"

definition modify_chains :: "u64 \<Rightarrow> (epoch_chains \<Rightarrow> epoch_chains) \<Rightarrow> 's spq_ratchet \<Rightarrow> 's spq_ratchet" where
  "modify_chains epoch f r =
     r\<lparr>spq_chains := map (\<lambda>(e, cs). (e, if e = epoch then f cs else cs)) (spq_chains r)\<rparr>"

abbreviation put_send_chain :: "u64 \<Rightarrow> kdf_chain option \<Rightarrow> 's spq_ratchet \<Rightarrow> 's spq_ratchet" where
  "put_send_chain epoch ch \<equiv> modify_chains epoch (\<lambda>cs. cs\<lparr>send_chain := ch\<rparr>)"

abbreviation put_receive_chain :: "u64 \<Rightarrow> kdf_chain option \<Rightarrow> 's spq_ratchet \<Rightarrow> 's spq_ratchet" where
  "put_receive_chain epoch ch \<equiv> modify_chains epoch (\<lambda>cs. cs\<lparr>receive_chain := ch\<rparr>)"

lemma map_of_modify_chains:
  "map_of (spq_chains (modify_chains e f r)) e' =
     map_option (if e' = e then f else id) (map_of (spq_chains r) e')"
proof -
  have "map_of (map (\<lambda>(e'', cs). (e'', if e'' = e then f cs else cs)) m) e' =
     map_option (if e' = e then f else id) (map_of m e')" for m
    by (induction m) auto
  then show ?thesis by (simp add: modify_chains_def)
qed

lemma receive_chain_of_modify:
  "receive_chain_of (modify_chains e f r) e' =
     Option.bind (map_of (spq_chains r) e') (\<lambda>cs. receive_chain ((if e' = e then f else id) cs))"
  "send_chain_of (modify_chains e f r) e' =
     Option.bind (map_of (spq_chains r) e') (\<lambda>cs. send_chain ((if e' = e then f else id) cs))"
  by (cases "map_of (spq_chains r) e'"; simp add: receive_chain_of_def send_chain_of_def map_of_modify_chains)+

text \<open>The loop of \<open>skip_until\<close>: every key up to \<open>until\<close> is derived and stored.\<close>

function skip_loop :: "crypto \<Rightarrow> u64 \<Rightarrow> u64 \<Rightarrow> 's spq_ratchet \<Rightarrow> unit spq_result \<times> 's spq_ratchet" where
  "skip_loop c epoch until r =
     (case receive_chain_of r epoch of
        None \<Rightarrow> (Inr (), r)
      | Some ch \<Rightarrow>
          if chain_counter ch < until then
            st_ensure (chain_counter ch \<noteq> - 1) ReceivingCounterExhausted r
            (let message_number = chain_counter ch + 1 in
             st_try (derive_chain_step c (chain_key ch) message_number) r (\<lambda>(next_chain, message_key).
             skip_loop c epoch until
               ((put_receive_chain epoch (Some \<lparr>chain_key = next_chain, chain_counter = message_number\<rparr>) r)
                 \<lparr>spq_skipped := spq_skipped r @ [\<lparr>skipped_epoch = epoch, skipped_number = message_number,
                   skipped_message_key = message_key\<rparr>]\<rparr>)))
          else (Inr (), r))"
  by pat_completeness auto
termination
proof (relation "measure (\<lambda>(c, epoch, until, r). case receive_chain_of r epoch of
      None \<Rightarrow> 0 | Some ch \<Rightarrow> unat until - unat (chain_counter ch))", goal_cases)
  case (2 c epoch until r ch n step nk mk)
  have chains: "receive_chain_of (r'\<lparr>spq_skipped := ks\<rparr>) e = receive_chain_of r' e" for r' :: "'a spq_ratchet" and ks e
    by (simp add: receive_chain_of_def)
  have "receive_chain_of (put_receive_chain epoch (Some x) r) epoch = Some x" for x
    using 2(1) by (auto simp: receive_chain_of_def map_of_modify_chains bind_eq_Some_conv)
  moreover have "chain_counter ch \<noteq> - 1" using 2(2) by (metis word_order.extremum_strict)
  then have "unat (chain_counter ch + 1) = Suc (unat (chain_counter ch))" by (rule next_epoch_unat)
  moreover have "unat (chain_counter ch) < unat until" using 2(2) by (simp add: word_less_nat_alt)
  ultimately show ?case using 2 by (simp add: chains)
qed simp

declare skip_loop.simps [simp del]

definition skip_until :: "crypto \<Rightarrow> u64 \<Rightarrow> u64 \<Rightarrow> 's spq_ratchet \<Rightarrow> unit spq_result \<times> 's spq_ratchet" where
  "skip_until c epoch until r =
     st_try (ok_or ReceivingChainUnavailable (map_option chain_counter (receive_chain_of r epoch))) r (\<lambda>current.
     st_ensure (current \<le> until) PreviousLengthRegressed r
     (let missing = until - current in
      st_ensure (unat missing \<le> SPQR_MAX_SKIPPED_KEYS - length (spq_skipped r)) SkippedLimitExceeded r
      (skip_loop c epoch until r)))"

definition advance_sending :: "u64 \<Rightarrow> 's spq_ratchet \<Rightarrow> unit spq_result \<times> 's spq_ratchet" where
  "advance_sending new_epoch r =
     (if spq_sending_epoch r < new_epoch then
        case send_chain_of r (spq_sending_epoch r) of
          None \<Rightarrow> (Inl PreviousSendingChainUnavailable, r)
        | Some previous \<Rightarrow> (Inr (), (put_send_chain (spq_sending_epoch r) None r)
            \<lparr>spq_previous_length := chain_counter previous, spq_sending_epoch := new_epoch\<rparr>)
      else (Inr (), r))"

definition add_output :: "crypto \<Rightarrow> output_key option \<Rightarrow> 's spq_ratchet \<Rightarrow> unit spq_result \<times> 's spq_ratchet" where
  "add_output c out_key r = (case out_key of None \<Rightarrow> (Inr (), r) | Some k \<Rightarrow> add_epoch c k r)"

text \<open>\<open>previous + 1 = next\<close> without wrap-around: \<open>next.checked_sub(1) == Some(previous)\<close>.\<close>

definition follows :: "u64 \<Rightarrow> u64 \<Rightarrow> bool" where
  "follows next_epoch previous \<longleftrightarrow> next_epoch \<noteq> 0 \<and> next_epoch - 1 = previous"

definition send_on_chain :: "crypto \<Rightarrow> message \<Rightarrow> 's spq_ratchet \<Rightarrow> spq_send spq_result \<times> 's spq_ratchet" where
  "send_on_chain c braid_message r =
     st_try (ok_or SendingChainUnavailable (send_chain_of r (spq_sending_epoch r))) r (\<lambda>chain.
     st_ensure (chain_counter chain \<noteq> - 1) SendingCounterExhausted r
     (let message_number = chain_counter chain + 1 in
      st_try (derive_chain_step c (chain_key chain) message_number) r (\<lambda>(next_chain, message_key).
      let r = put_send_chain (spq_sending_epoch r) (Some \<lparr>chain_key = next_chain, chain_counter = message_number\<rparr>) r;
          r = prune_old_epochs r in
      (Inr \<lparr>sent_header = \<lparr>hdr_braid_message = braid_message, hdr_message_number = message_number,
              hdr_previous_chain_length = spq_previous_length r\<rparr>,
            sent_message_key = message_key\<rparr>, r))))"

definition send_key ::
    "crypto \<Rightarrow> 's scka \<Rightarrow> (nat \<Rightarrow> bytes) \<Rightarrow> 's spq_ratchet \<Rightarrow> spq_send spq_result \<times> 's spq_ratchet" where
  "send_key c ops fill r =
     st_ensure (\<not> spq_is_poisoned ops r) RatchetPoisoned r
     (let (sent, braid) = scka_send ops fill (spq_braid r); r = r\<lparr>spq_braid := braid\<rparr> in
      st_try (map_err BraidFailed sent) r (\<lambda>out.
      st_bind (add_output c (sent_key out) r) (\<lambda>_ r.
      st_ensure (sending_epoch out = spq_sending_epoch r \<or> follows (sending_epoch out) (spq_sending_epoch r))
        SendingEpochNotContiguous r
      (st_bind (advance_sending (sending_epoch out) r) (\<lambda>_ r.
       send_on_chain c (out_message out) r)))))"

definition advance_receiving :: "crypto \<Rightarrow> u64 \<Rightarrow> u64 \<Rightarrow> 's spq_ratchet \<Rightarrow> unit spq_result \<times> 's spq_ratchet" where
  "advance_receiving c new_epoch previous_length r =
     (if spq_receiving_epoch r < new_epoch then
        st_ensure (follows new_epoch (spq_receiving_epoch r)) ReceivingEpochSkippedChain r
        (st_bind (skip_until c (spq_receiving_epoch r) previous_length r) (\<lambda>_ r.
         st_ensure (map_of (spq_chains r) (spq_receiving_epoch r) \<noteq> None) PreviousReceivingEpochUnavailable r
         (Inr (), (put_receive_chain (spq_receiving_epoch r) None r)\<lparr>spq_receiving_epoch := new_epoch\<rparr>)))
      else (Inr (), r))"

definition receive_on_chain :: "crypto \<Rightarrow> u64 \<Rightarrow> u64 \<Rightarrow> 's spq_ratchet \<Rightarrow> bytes spq_result \<times> 's spq_ratchet" where
  "receive_on_chain c message_epoch message_number r =
     st_ensure (message_number \<noteq> 0) MessageNumberUnderflow r
     (st_bind (skip_until c message_epoch (message_number - 1) r) (\<lambda>_ r.
      st_try (ok_or ReceivingChainUnavailable (receive_chain_of r message_epoch)) r (\<lambda>chain.
      st_ensure (chain_counter chain \<noteq> - 1 \<and> chain_counter chain + 1 = message_number) MessageKeyStale r
      (st_try (derive_chain_step c (chain_key chain) message_number) r (\<lambda>(next_chain, message_key).
       let r = put_receive_chain message_epoch (Some \<lparr>chain_key = next_chain, chain_counter = message_number\<rparr>) r in
       (Inr message_key, prune_old_epochs r))))))"

text \<open>The key of a skipped message is taken out of the store: \<open>position\<close> and \<open>remove\<close>.\<close>

fun take_skipped :: "u64 \<Rightarrow> u64 \<Rightarrow> skipped_key list \<Rightarrow> (bytes \<times> skipped_key list) option" where
  "take_skipped epoch number [] = None"
| "take_skipped epoch number (k # ks) =
     (if skipped_epoch k = epoch \<and> skipped_number k = number then Some (skipped_message_key k, ks)
      else map_option (\<lambda>(key, ks'). (key, k # ks')) (take_skipped epoch number ks))"

definition receive_in_window :: "crypto \<Rightarrow> u64 \<Rightarrow> u64 \<Rightarrow> 's spq_ratchet \<Rightarrow> bytes spq_result \<times> 's spq_ratchet" where
  "receive_in_window c message_epoch message_number r =
     st_ensure (message_epoch = spq_receiving_epoch r
         \<or> message_epoch \<noteq> - 1 \<and> message_epoch + 1 = spq_receiving_epoch r) MessageEpochOutsideWindow r
     (case take_skipped message_epoch message_number (spq_skipped r) of
        Some (key, rest) \<Rightarrow> (Inr key, r\<lparr>spq_skipped := rest\<rparr>)
      | None \<Rightarrow>
          st_ensure (message_epoch = spq_receiving_epoch r) DelayedKeyUnavailable r
          (receive_on_chain c message_epoch message_number r))"

definition receive_key ::
    "crypto \<Rightarrow> 's scka \<Rightarrow> 's spq_ratchet \<Rightarrow> spq_header \<Rightarrow> bytes spq_result \<times> 's spq_ratchet" where
  "receive_key c ops r header =
     st_ensure (\<not> spq_is_poisoned ops r) RatchetPoisoned r
     (st_ensure (0 < hdr_message_number header) MessageNumberInvalid r
     (st_ensure (msg_epoch (hdr_braid_message header) \<noteq> 0) MessageEpochInvalid r
     (let message_epoch = msg_epoch (hdr_braid_message header) - 1;
          (received, braid) = scka_receive ops (spq_braid r) (hdr_braid_message header);
          r = r\<lparr>spq_braid := braid\<rparr> in
      st_try (map_err BraidFailed received) r (\<lambda>out.
      st_bind (add_output c (received_key out) r) (\<lambda>_ r.
      st_ensure (receiving_epoch out \<le> spq_receiving_epoch r \<or> follows (receiving_epoch out) (spq_receiving_epoch r))
        ReceivingEpochNotContiguous r
      (st_bind (advance_receiving c (receiving_epoch out) (hdr_previous_chain_length header) r) (\<lambda>_ r.
       receive_in_window c message_epoch (hdr_message_number header) r)))))))"

definition spq_try_clone :: "'s spq_ratchet \<Rightarrow> 's spq_ratchet spq_result" where
  "spq_try_clone r = Inr r"

section \<open>Persistence\<close>

text \<open>
  The persisted form, with base64url text for key material. The JSON library is the pair
  \<open>json_encode\<close>, \<open>json_decode\<close> over it, the base64 engine the pair \<open>b64_encode\<close>, \<open>b64_decode\<close>;
  the braid session persists itself through \<open>persist\<close> and \<open>restore\<close>. Keys and the bytes of the
  session are encoded alike (\<open>encode_key\<close> is the engine's \<open>encode\<close>).
\<close>

record persisted_kdf_chain =
  pkc_key :: bytes
  pkc_counter :: u64

record persisted_epoch_chains =
  pec_epoch :: u64
  pec_send :: "persisted_kdf_chain option"
  pec_receive :: "persisted_kdf_chain option"

record persisted_skipped_key =
  psk_epoch :: u64
  psk_number :: u64
  psk_key :: bytes

record persisted_spq =
  ps_revision :: u8
  ps_role :: bytes
  ps_root_key :: bytes
  ps_epoch :: u64
  ps_sending_epoch :: u64
  ps_receiving_epoch :: u64
  ps_previous_length :: u64
  ps_chains :: "persisted_epoch_chains list"
  ps_skipped :: "persisted_skipped_key list"
  ps_braid :: bytes

record spq_codec =
  b64_encode :: "bytes \<Rightarrow> bytes"
  b64_decode :: "bytes \<Rightarrow> bytes option"
  spq_json_encode :: "persisted_spq \<Rightarrow> bytes option"
  spq_json_decode :: "bytes \<Rightarrow> persisted_spq option"
  braid_json_encode :: "u8 \<times> protocol_state \<Rightarrow> bytes option"
  braid_json_decode :: "bytes \<Rightarrow> (u8 \<times> protocol_state) option"

text \<open>\<open>decode_slice\<close> refuses text that is not base64 or decodes to more than the buffer holds.\<close>

definition decode_key :: "spq_codec \<Rightarrow> bytes \<Rightarrow> bytes spq_result" where
  "decode_key cd value =
     ensure (length value = SPQR_KEY_BASE64URL_BYTES) SpqKeyLengthInvalid
     (and_then (ok_or SpqKeyNotBase64
        (case b64_decode cd value of
           Some d \<Rightarrow> if length d \<le> SPQR_KEY_BYTES then Some d else None
         | None \<Rightarrow> None)) (\<lambda>key.
      ensure (length key = SPQR_KEY_BYTES) SpqKeyLengthInvalid
      (ensure (b64_encode cd key = value) SpqKeyNonCanonical (Inr key))))"

definition persist_kdf_chain :: "(bytes \<Rightarrow> bytes) \<Rightarrow> kdf_chain \<Rightarrow> persisted_kdf_chain" where
  "persist_kdf_chain encode ch = \<lparr>pkc_key = encode (chain_key ch), pkc_counter = chain_counter ch\<rparr>"

definition restore_kdf_chain :: "spq_codec \<Rightarrow> persisted_kdf_chain \<Rightarrow> kdf_chain spq_result" where
  "restore_kdf_chain cd value =
     and_then (decode_key cd (pkc_key value)) (\<lambda>key. Inr \<lparr>chain_key = key, chain_counter = pkc_counter value\<rparr>)"

definition persisted_form :: "(bytes \<Rightarrow> bytes) \<Rightarrow> 's spq_ratchet \<Rightarrow> bytes \<Rightarrow> persisted_spq" where
  "persisted_form encode r braid = \<lparr>ps_revision = SPQR_PERSISTENCE_REVISION, ps_role = spq_role_as_str (spq_role r),
     ps_root_key = encode (spq_root_key r), ps_epoch = spq_epoch r,
     ps_sending_epoch = spq_sending_epoch r, ps_receiving_epoch = spq_receiving_epoch r,
     ps_previous_length = spq_previous_length r,
     ps_chains = map (\<lambda>(epoch, cs). \<lparr>pec_epoch = epoch,
       pec_send = map_option (persist_kdf_chain encode) (send_chain cs),
       pec_receive = map_option (persist_kdf_chain encode) (receive_chain cs)\<rparr>) (spq_chains r),
     ps_skipped = map (\<lambda>k. \<lparr>psk_epoch = skipped_epoch k, psk_number = skipped_number k,
       psk_key = encode (skipped_message_key k)\<rparr>) (spq_skipped r),
     ps_braid = encode braid\<rparr>"

definition spq_persist :: "spq_codec \<Rightarrow> session spq_ratchet \<Rightarrow> bytes spq_result" where
  "spq_persist cd r =
     and_then (map_err BraidPersistFailed (persist (braid_json_encode cd) (spq_braid r))) (\<lambda>braid.
     ok_or SpqSerializationFailed (spq_json_encode cd (persisted_form (b64_encode cd) r braid)))"

text \<open>\<open>Option::transpose\<close>.\<close>

definition transpose_option :: "('e + 'a) option \<Rightarrow> 'e + 'a option" where
  "transpose_option opt = (case opt of None \<Rightarrow> Inr None | Some r \<Rightarrow> and_then r (\<lambda>x. Inr (Some x)))"

definition restore_chain ::
    "spq_codec \<Rightarrow> u64 \<Rightarrow> (u64 \<times> epoch_chains) list \<Rightarrow> persisted_epoch_chains \<Rightarrow> (u64 \<times> epoch_chains) list spq_result" where
  "restore_chain cd epoch acc value =
     ensure (oldest_epoch epoch \<le> pec_epoch value \<and> pec_epoch value \<le> epoch) PersistedChainEpochOutside
     (and_then (transpose_option (map_option (restore_kdf_chain cd) (pec_send value))) (\<lambda>snd_chain.
      and_then (transpose_option (map_option (restore_kdf_chain cd) (pec_receive value))) (\<lambda>rcv_chain.
      ensure (map_of acc (pec_epoch value) = None) PersistedChainDuplicated
      (Inr (bt_insert (pec_epoch value) \<lparr>send_chain = snd_chain, receive_chain = rcv_chain\<rparr> acc)))))"

definition restore_skipped :: "spq_codec \<Rightarrow> u64 \<Rightarrow> skipped_key list \<Rightarrow> persisted_skipped_key \<Rightarrow> skipped_key list spq_result" where
  "restore_skipped cd epoch skipped value =
     ensure (oldest_epoch epoch \<le> psk_epoch value \<and> psk_epoch value \<le> epoch \<and> 0 < psk_number value) PersistedSkippedInvalid
     (and_then (decode_key cd (psk_key value)) (\<lambda>key.
      Inr (skipped @ [\<lparr>skipped_epoch = psk_epoch value, skipped_number = psk_number value, skipped_message_key = key\<rparr>])))"

definition spq_restore :: "spq_codec \<Rightarrow> crypto \<Rightarrow> bytes \<Rightarrow> session spq_ratchet spq_result" where
  "spq_restore cd c encoded =
     ensure (length encoded \<le> SPQR_MAX_PERSISTED_STATE_BYTES) SpqPersistedTooLarge
     (and_then (ok_or SpqPersistedInvalid (spq_json_decode cd encoded)) (\<lambda>p.
      ensure (ps_revision p = SPQR_PERSISTENCE_REVISION) SpqRevisionUnsupported
      (and_then (spq_role_from_str (ps_role p)) (\<lambda>role.
      ensure (ps_sending_epoch p \<le> ps_epoch p \<and> ps_receiving_epoch p \<le> ps_epoch p) PersistedEpochsInconsistent
      (ensure (length (ps_chains p) \<le> 2 \<and> length (ps_skipped p) \<le> SPQR_MAX_SKIPPED_KEYS) PersistedResourcesExceeded
      (and_then (run_all (restore_chain cd (ps_epoch p)) [] (ps_chains p)) (\<lambda>restored.
      ensure (Option.bind (map_of restored (ps_sending_epoch p)) send_chain \<noteq> None
          \<and> Option.bind (map_of restored (ps_receiving_epoch p)) receive_chain \<noteq> None) PersistedCurrentChainsUnavailable
      (and_then (run_all (restore_skipped cd (ps_epoch p)) [] (ps_skipped p)) (\<lambda>skipped.
      ensure (length (ps_braid p) \<le> SPQR_MAX_ENCODED_BRAID_BYTES) PersistedBraidTooLarge
      (and_then (ok_or PersistedBraidNotBase64 (b64_decode cd (ps_braid p))) (\<lambda>braid_bytes.
      ensure (b64_encode cd braid_bytes = ps_braid p) PersistedBraidNonCanonical
      (and_then (map_err BraidRestoreFailed (restore (braid_json_decode cd) c braid_bytes)) (\<lambda>braid.
      ensure (session_epoch braid = ps_epoch p \<or> follows (session_epoch braid) (ps_epoch p)) BraidEpochInconsistent
      (and_then (decode_key cd (ps_root_key p)) (\<lambda>root_k.
      Inr \<lparr>spq_role = role, spq_root_key = root_k, spq_epoch = ps_epoch p, spq_sending_epoch = ps_sending_epoch p,
           spq_receiving_epoch = ps_receiving_epoch p, spq_previous_length = ps_previous_length p,
           spq_chains = restored, spq_skipped = skipped, spq_braid = braid\<rparr>)))))))))))))))"

end
