(* ===== verification/Spq_Chains.thy ===== *)
theory Spq_Chains
  imports Spq_Ratchet
begin

text \<open>
  The chains of the ratchet: what each of its steps does to the views \<open>send_chain_of\<close>,
  \<open>receive_chain_of\<close> and to the store of skipped keys, and the reference definition of the
  keys: \<open>message_key_at\<close> is the key of a message as a function of the seed of its chain and its
  number, \<open>epoch_secrets\<close> the seeds of an epoch as a function of the initial secret and of the
  keys the braid has output.
\<close>

section \<open>Views\<close>

definition present :: "'s spq_ratchet \<Rightarrow> u64 \<Rightarrow> bool" where
  "present r e \<longleftrightarrow> map_of (spq_chains r) e \<noteq> None"

lemma views_update [simp]:
  "send_chain_of (r\<lparr>spq_braid := b\<rparr>) e = send_chain_of r e"
  "send_chain_of (r\<lparr>spq_skipped := ks\<rparr>) e = send_chain_of r e"
  "send_chain_of (r\<lparr>spq_previous_length := n\<rparr>) e = send_chain_of r e"
  "send_chain_of (r\<lparr>spq_sending_epoch := n\<rparr>) e = send_chain_of r e"
  "send_chain_of (r\<lparr>spq_receiving_epoch := n\<rparr>) e = send_chain_of r e"
  "receive_chain_of (r\<lparr>spq_braid := b\<rparr>) e = receive_chain_of r e"
  "receive_chain_of (r\<lparr>spq_skipped := ks\<rparr>) e = receive_chain_of r e"
  "receive_chain_of (r\<lparr>spq_previous_length := n\<rparr>) e = receive_chain_of r e"
  "receive_chain_of (r\<lparr>spq_sending_epoch := n\<rparr>) e = receive_chain_of r e"
  "receive_chain_of (r\<lparr>spq_receiving_epoch := n\<rparr>) e = receive_chain_of r e"
  "present (r\<lparr>spq_braid := b\<rparr>) e = present r e"
  "present (r\<lparr>spq_skipped := ks\<rparr>) e = present r e"
  "present (r\<lparr>spq_previous_length := n\<rparr>) e = present r e"
  "present (r\<lparr>spq_sending_epoch := n\<rparr>) e = present r e"
  "present (r\<lparr>spq_receiving_epoch := n\<rparr>) e = present r e"
  by (simp_all add: send_chain_of_def receive_chain_of_def present_def)

lemma send_chain_present: "send_chain_of r e = Some ch \<Longrightarrow> present r e"
  by (auto simp: send_chain_of_def present_def bind_eq_Some_conv)

lemma receive_chain_present: "receive_chain_of r e = Some ch \<Longrightarrow> present r e"
  by (auto simp: receive_chain_of_def present_def bind_eq_Some_conv)

lemma views_put [simp]:
  "present (modify_chains e f r) e' = present r e'"
  "send_chain_of (put_receive_chain e ch r) e' = send_chain_of r e'"
  "receive_chain_of (put_send_chain e ch r) e' = receive_chain_of r e'"
  "send_chain_of (put_send_chain e ch r) e' = (if e' = e \<and> present r e then ch else send_chain_of r e')"
  "receive_chain_of (put_receive_chain e ch r) e' = (if e' = e \<and> present r e then ch else receive_chain_of r e')"
  by (cases "map_of (spq_chains r) e'"; auto simp: send_chain_of_def receive_chain_of_def present_def map_of_modify_chains)+

lemma fields_modify [simp]:
  "spq_role (modify_chains e f r) = spq_role r"
  "spq_root_key (modify_chains e f r) = spq_root_key r"
  "spq_epoch (modify_chains e f r) = spq_epoch r"
  "spq_sending_epoch (modify_chains e f r) = spq_sending_epoch r"
  "spq_receiving_epoch (modify_chains e f r) = spq_receiving_epoch r"
  "spq_previous_length (modify_chains e f r) = spq_previous_length r"
  "spq_skipped (modify_chains e f r) = spq_skipped r"
  "spq_braid (modify_chains e f r) = spq_braid r"
  by (simp_all add: modify_chains_def)

lemma keys_modify: "map fst (spq_chains (modify_chains e f r)) = map fst (spq_chains r)"
  by (induction "spq_chains r") (auto simp: modify_chains_def split: prod.splits)

lemma map_of_filter_key: "map_of (filter (\<lambda>(k, _). P k) m) k = (if P k then map_of m k else None)"
  by (induction m) auto

lemma views_prune [simp]:
  "present (prune_old_epochs r) e \<longleftrightarrow> present r e \<and> oldest_epoch (spq_epoch r) \<le> e"
  "send_chain_of (prune_old_epochs r) e = (if oldest_epoch (spq_epoch r) \<le> e then send_chain_of r e else None)"
  "receive_chain_of (prune_old_epochs r) e = (if oldest_epoch (spq_epoch r) \<le> e then receive_chain_of r e else None)"
  by (auto simp: prune_old_epochs_def Let_def present_def send_chain_of_def receive_chain_of_def map_of_filter_key)

lemma fields_prune [simp]:
  "spq_role (prune_old_epochs r) = spq_role r"
  "spq_root_key (prune_old_epochs r) = spq_root_key r"
  "spq_epoch (prune_old_epochs r) = spq_epoch r"
  "spq_sending_epoch (prune_old_epochs r) = spq_sending_epoch r"
  "spq_receiving_epoch (prune_old_epochs r) = spq_receiving_epoch r"
  "spq_previous_length (prune_old_epochs r) = spq_previous_length r"
  "spq_skipped (prune_old_epochs r) = filter (\<lambda>k. oldest_epoch (spq_epoch r) \<le> skipped_epoch k) (spq_skipped r)"
  "spq_braid (prune_old_epochs r) = spq_braid r"
  by (simp_all add: prune_old_epochs_def Let_def)

lemma bt_wf_filter: "bt_wf m \<Longrightarrow> bt_wf (filter P m)"
  by (auto simp: bt_wf_def sorted_wrt_map intro: sorted_wrt_filter)

lemma bt_wf_prune [simp]: "bt_wf (spq_chains r) \<Longrightarrow> bt_wf (spq_chains (prune_old_epochs r))"
  by (simp add: prune_old_epochs_def Let_def bt_wf_filter)

lemma bt_wf_modify [simp]: "bt_wf (spq_chains (modify_chains e f r)) = bt_wf (spq_chains r)"
  by (simp add: bt_wf_def keys_modify)

lemma oldest_epoch_le: "oldest_epoch k \<le> e \<longleftrightarrow> unat k \<le> Suc (unat e)"
proof (cases "k = 0")
  case False
  then have "unat (k - 1) = unat k - 1" by (rule unat_minus_one)
  moreover have "0 < unat k" using False by (simp add: unat_gt_0)
  ultimately show ?thesis using False by (simp add: oldest_epoch_def word_le_nat_alt, arith)
qed (simp add: oldest_epoch_def)

lemma follows_iff: "follows m n \<longleftrightarrow> unat m = Suc (unat n)"
proof (cases "m = 0")
  case False
  then have "unat (m - 1) = unat m - 1" by (rule unat_minus_one)
  moreover have "0 < unat m" using False by (simp add: unat_gt_0)
  ultimately show ?thesis using False by (auto simp: follows_def word_unat_eq_iff)
qed (simp add: follows_def)

lemma next_word_iff: "x \<noteq> - 1 \<and> x + 1 = y \<longleftrightarrow> unat y = Suc (unat (x :: u64))"
proof
  assume "x \<noteq> - 1 \<and> x + 1 = y"
  then show "unat y = Suc (unat x)" using next_epoch_unat by blast
next
  assume y: "unat y = Suc (unat x)"
  have "unat y < 2 ^ LENGTH(64)" by (rule unsigned_less)
  with y have ne: "x \<noteq> - 1" by (auto simp: unsigned_minus_1_eq_mask mask_eq_exp_minus_1)
  have "unat (x + 1) = unat y" using next_epoch_unat[OF ne] y by simp
  then show "x \<noteq> - 1 \<and> x + 1 = y" using ne by (simp add: word_unat_eq_iff)
qed

section \<open>The reference keys\<close>

fun chain_at :: "crypto \<Rightarrow> bytes \<Rightarrow> nat \<Rightarrow> bytes spq_result" where
  "chain_at c seed 0 = Inr seed"
| "chain_at c seed (Suc n) =
     and_then (chain_at c seed n) (\<lambda>key. and_then (derive_chain_step c key (of_nat (Suc n))) (\<lambda>(next_chain, _). Inr next_chain))"

definition message_key_at :: "crypto \<Rightarrow> bytes \<Rightarrow> nat \<Rightarrow> bytes spq_result" where
  "message_key_at c seed n =
     and_then (chain_at c seed (n - 1)) (\<lambda>key. and_then (derive_chain_step c key (of_nat n)) (\<lambda>(_, message_key). Inr message_key))"

lemma chain_step:
  assumes "chain_at c seed (unat n) = Inr key" "n \<noteq> - 1" "derive_chain_step c key (n + 1) = Inr (nk, mk)"
  shows "chain_at c seed (unat (n + 1)) = Inr nk \<and> message_key_at c seed (unat (n + 1)) = Inr mk"
proof -
  have "unat (n + 1) = Suc (unat n)" by (rule next_epoch_unat[OF assms(2)])
  moreover have "(of_nat (Suc (unat n)) :: u64) = n + 1" by simp
  ultimately show ?thesis using assms(1,3) by (simp add: message_key_at_def add.commute)
qed

text \<open>The root and the seeds of both directions after the output keys of a history, newest first.\<close>

fun epoch_secrets :: "crypto \<Rightarrow> bytes \<Rightarrow> bytes list \<Rightarrow> (bytes \<times> bytes \<times> bytes) spq_result" where
  "epoch_secrets c secret [] = derive_initial_chains c secret"
| "epoch_secrets c secret (k # older) =
     and_then (epoch_secrets c secret older) (\<lambda>(root_k, _). derive_added_epoch c root_k k)"

definition epoch_seeds :: "crypto \<Rightarrow> bytes \<Rightarrow> spq_role \<Rightarrow> bytes list \<Rightarrow> nat \<Rightarrow> (bytes \<times> bytes) spq_result" where
  "epoch_seeds c secret role hist e =
     and_then (epoch_secrets c secret (drop (length hist - e) hist)) (\<lambda>(_, a_to_b, b_to_a). Inr (chain_of_role role a_to_b b_to_a))"

lemma epoch_seeds_older: "e \<le> length hist \<Longrightarrow> epoch_seeds c secret role (k # hist) e = epoch_seeds c secret role hist e"
  by (simp add: epoch_seeds_def Suc_diff_le)

section \<open>The skip loop\<close>

definition skipped_id :: "skipped_key \<Rightarrow> nat \<times> nat" where
  "skipped_id k = (unat (skipped_epoch k), unat (skipped_number k))"

text \<open>What receiving leaves alone while it skips.\<close>

definition same_side :: "'s spq_ratchet \<Rightarrow> 's spq_ratchet \<Rightarrow> bool" where
  "same_side r r' \<longleftrightarrow> spq_role r' = spq_role r \<and> spq_root_key r' = spq_root_key r \<and> spq_epoch r' = spq_epoch r
     \<and> spq_sending_epoch r' = spq_sending_epoch r \<and> spq_receiving_epoch r' = spq_receiving_epoch r
     \<and> spq_previous_length r' = spq_previous_length r \<and> spq_braid r' = spq_braid r
     \<and> bt_wf (spq_chains r') = bt_wf (spq_chains r)
     \<and> (\<forall>e. present r' e = present r e \<and> send_chain_of r' e = send_chain_of r e)"

lemma same_side_refl [simp]: "same_side r r"
  by (simp add: same_side_def)

lemma same_side_trans: "same_side r r' \<Longrightarrow> same_side r' r'' \<Longrightarrow> same_side r r''"
  by (simp add: same_side_def)

definition skipped_to :: "crypto \<Rightarrow> u64 \<Rightarrow> u64 \<Rightarrow> kdf_chain \<Rightarrow> 's spq_ratchet \<Rightarrow> 's spq_ratchet \<Rightarrow> bool" where
  "skipped_to c e until ch r r' \<longleftrightarrow> same_side r r' \<and> (\<exists>ch' ks.
     (\<forall>e'. receive_chain_of r' e' = (if e' = e then Some ch' else receive_chain_of r e'))
     \<and> chain_counter ch' = until \<and> spq_skipped r' = spq_skipped r @ ks
     \<and> map skipped_id ks = map (Pair (unat e)) [Suc (unat (chain_counter ch))..<Suc (unat until)]
     \<and> (\<forall>seed. chain_at c seed (unat (chain_counter ch)) = Inr (chain_key ch) \<longrightarrow>
          chain_at c seed (unat until) = Inr (chain_key ch')
          \<and> (\<forall>k\<in>set ks. message_key_at c seed (unat (skipped_number k)) = Inr (skipped_message_key k))))"

lemma skip_loop_Inr:
  assumes "skip_loop c e until r = (Inr u, r')" "receive_chain_of r e = Some ch" "chain_counter ch \<le> until"
  shows "skipped_to c e until ch r r'"
  using assms
proof (induction c e until r arbitrary: ch rule: skip_loop.induct)
  case (1 c e until r)
  show ?case
  proof (cases "chain_counter ch < until")
    case False
    then have "r' = r" "chain_counter ch = until"
      using 1(2,3,4) by (simp_all add: skip_loop.simps[of c e until r])
    then show ?thesis
      using 1(3) unfolding skipped_to_def by (intro conjI exI[of _ ch] exI[of _ "[]"]) auto
  next
    case True
    let ?n = "chain_counter ch + 1"
    have ne: "chain_counter ch \<noteq> - 1" using True by (metis word_order.extremum_strict)
    obtain nk mk where d: "derive_chain_step c (chain_key ch) ?n = Inr (nk, mk)"
      using 1(2,3) True ne by (auto simp: skip_loop.simps[of c e until r] result_simps Let_def)
    let ?ch1 = "\<lparr>chain_key = nk, chain_counter = ?n\<rparr>"
    let ?k = "\<lparr>skipped_epoch = e, skipped_number = ?n, skipped_message_key = mk\<rparr>"
    let ?r1 = "(put_receive_chain e (Some ?ch1) r)\<lparr>spq_skipped := spq_skipped r @ [?k]\<rparr>"
    have rec: "skip_loop c e until ?r1 = (Inr u, r')"
      using 1(2,3) True ne d by (simp add: skip_loop.simps[of c e until r] Let_def)
    have n: "unat ?n = Suc (unat (chain_counter ch))" by (rule next_epoch_unat[OF ne])
    have pr: "present r e" by (rule receive_chain_present[OF 1(3)])
    have "?n \<le> until" using True n by (simp add: word_le_nat_alt word_less_nat_alt)
    then have "skipped_to c e until ?ch1 ?r1 r'"
      by (intro 1(1)[OF 1(3) True _ _ _ rec]) (use pr d in simp_all)
    then obtain ch' ks where ks: "same_side ?r1 r'"
        "\<forall>e'. receive_chain_of r' e' = (if e' = e then Some ch' else receive_chain_of ?r1 e')"
        "chain_counter ch' = until" "spq_skipped r' = spq_skipped ?r1 @ ks"
        "map skipped_id ks = map (Pair (unat e)) [Suc (unat ?n)..<Suc (unat until)]"
        "\<forall>seed. chain_at c seed (unat ?n) = Inr nk \<longrightarrow> chain_at c seed (unat until) = Inr (chain_key ch')
          \<and> (\<forall>k\<in>set ks. message_key_at c seed (unat (skipped_number k)) = Inr (skipped_message_key k))"
      unfolding skipped_to_def by auto
    have "same_side r r'" using ks(1) by (simp add: same_side_def)
    moreover have "\<forall>e'. receive_chain_of r' e' = (if e' = e then Some ch' else receive_chain_of r e')"
      using ks(2) by simp
    moreover have "spq_skipped r' = spq_skipped r @ ?k # ks" using ks(4) by simp
    moreover have "map skipped_id (?k # ks) = map (Pair (unat e)) [Suc (unat (chain_counter ch))..<Suc (unat until)]"
    proof -
      have "[Suc (unat (chain_counter ch))..<Suc (unat until)] = unat ?n # [Suc (unat ?n)..<Suc (unat until)]"
        using True by (subst upt_conv_Cons) (simp_all add: n word_less_nat_alt)
      then show ?thesis using ks(5) by (simp add: skipped_id_def)
    qed
    moreover have "chain_at c seed (unat until) = Inr (chain_key ch')
          \<and> (\<forall>k\<in>set (?k # ks). message_key_at c seed (unat (skipped_number k)) = Inr (skipped_message_key k))"
      if "chain_at c seed (unat (chain_counter ch)) = Inr (chain_key ch)" for seed
      using chain_step[OF that ne d] ks(6) by auto
    ultimately show ?thesis unfolding skipped_to_def using ks(3) by blast
  qed
qed

lemma skip_until_InrE:
  assumes "skip_until c e until r = (Inr u, r')"
  obtains ch where "receive_chain_of r e = Some ch" "chain_counter ch \<le> until" "skipped_to c e until ch r r'"
    "unat until - unat (chain_counter ch) + length (spq_skipped r) \<le> max SPQR_MAX_SKIPPED_KEYS (length (spq_skipped r))"
proof -
  from assms obtain ch where ch: "receive_chain_of r e = Some ch" "chain_counter ch \<le> until"
      "unat (until - chain_counter ch) \<le> SPQR_MAX_SKIPPED_KEYS - length (spq_skipped r)" "skip_loop c e until r = (Inr u, r')"
    by (auto simp: skip_until_def result_simps Let_def)
  have "unat (until - chain_counter ch) = unat until - unat (chain_counter ch)"
    using ch(2) by (simp add: unat_sub word_le_nat_alt)
  then have "unat until - unat (chain_counter ch) + length (spq_skipped r) \<le> max SPQR_MAX_SKIPPED_KEYS (length (spq_skipped r))"
    using ch(3) by linarith
  then show thesis by (rule that[OF ch(1,2) skip_loop_Inr[OF ch(4,1,2)]])
qed

end
