(* ===== verification/Spq_Invariant.thy ===== *)
theory Spq_Invariant
  imports Spq_Chains
begin

text \<open>
  The invariant of the ratchet, step by step: which chains are there, which skipped keys are
  stored, that every stored key is the reference key of its epoch and number, and that what
  has been sent or received once stays used up.
\<close>

definition chains_ok :: "'s spq_ratchet \<Rightarrow> bool" where
  "chains_ok r \<longleftrightarrow> bt_wf (spq_chains r) \<and> spq_sending_epoch r \<le> spq_epoch r \<and> spq_receiving_epoch r \<le> spq_epoch r
     \<and> (\<forall>e. present r e \<longleftrightarrow> unat e \<le> unat (spq_epoch r) \<and> unat (spq_epoch r) \<le> Suc (unat e))
     \<and> (\<forall>e. send_chain_of r e \<noteq> None \<longleftrightarrow> present r e \<and> spq_sending_epoch r \<le> e)
     \<and> (\<forall>e. receive_chain_of r e \<noteq> None \<longleftrightarrow> present r e \<and> spq_receiving_epoch r \<le> e)"

definition skipped_ok :: "'s spq_ratchet \<Rightarrow> bool" where
  "skipped_ok r \<longleftrightarrow> length (spq_skipped r) \<le> SPQR_MAX_SKIPPED_KEYS \<and> distinct (map skipped_id (spq_skipped r))
     \<and> (\<forall>k\<in>set (spq_skipped r). present r (skipped_epoch k) \<and> skipped_epoch k \<le> spq_receiving_epoch r \<and> skipped_number k \<noteq> 0
          \<and> (\<forall>ch. receive_chain_of r (skipped_epoch k) = Some ch \<longrightarrow> skipped_number k \<le> chain_counter ch))"

definition keys_ok :: "crypto \<Rightarrow> bytes \<Rightarrow> bytes list \<Rightarrow> 's spq_ratchet \<Rightarrow> bool" where
  "keys_ok c secret hist r \<longleftrightarrow> length hist = unat (spq_epoch r)
     \<and> (\<exists>ab. epoch_secrets c secret hist = Inr (spq_root_key r, ab))
     \<and> (\<forall>e ch. send_chain_of r e = Some ch \<longrightarrow> (\<exists>a b. epoch_seeds c secret (spq_role r) hist (unat e) = Inr (a, b)
          \<and> chain_at c a (unat (chain_counter ch)) = Inr (chain_key ch)))
     \<and> (\<forall>e ch. receive_chain_of r e = Some ch \<longrightarrow> (\<exists>a b. epoch_seeds c secret (spq_role r) hist (unat e) = Inr (a, b)
          \<and> chain_at c b (unat (chain_counter ch)) = Inr (chain_key ch)))
     \<and> (\<forall>k\<in>set (spq_skipped r). \<exists>a b. epoch_seeds c secret (spq_role r) hist (unat (skipped_epoch k)) = Inr (a, b)
          \<and> message_key_at c b (unat (skipped_number k)) = Inr (skipped_message_key k))"

definition core :: "crypto \<Rightarrow> bytes \<Rightarrow> bytes list \<Rightarrow> 's spq_ratchet \<Rightarrow> bool" where
  "core c secret hist r \<longleftrightarrow> chains_ok r \<and> skipped_ok r \<and> keys_ok c secret hist r"

text \<open>Message numbers that can be received or sent no more.\<close>

definition spent :: "'s spq_ratchet \<Rightarrow> u64 \<Rightarrow> u64 \<Rightarrow> bool" where
  "spent r e n \<longleftrightarrow> (e < spq_receiving_epoch r
       \<or> e = spq_receiving_epoch r \<and> (\<forall>ch. receive_chain_of r e = Some ch \<longrightarrow> n \<le> chain_counter ch))
     \<and> (unat e, unat n) \<notin> skipped_id ` set (spq_skipped r)"

definition sent :: "'s spq_ratchet \<Rightarrow> u64 \<Rightarrow> u64 \<Rightarrow> bool" where
  "sent r e n \<longleftrightarrow> e < spq_sending_epoch r
     \<or> e = spq_sending_epoch r \<and> (\<forall>ch. send_chain_of r e = Some ch \<longrightarrow> n \<le> chain_counter ch)"

definition uses_up :: "'s spq_ratchet \<Rightarrow> 's spq_ratchet \<Rightarrow> bool" where
  "uses_up r r' \<longleftrightarrow> (\<forall>e n. (spent r e n \<longrightarrow> spent r' e n) \<and> (sent r e n \<longrightarrow> sent r' e n))"

lemma uses_up_refl [simp]: "uses_up r r"
  by (simp add: uses_up_def)

lemma uses_up_trans [trans]: "uses_up r r' \<Longrightarrow> uses_up r' r'' \<Longrightarrow> uses_up r r''"
  by (simp add: uses_up_def)

lemmas core_defs = core_def chains_ok_def skipped_ok_def keys_ok_def

lemma core_braid [simp]:
  "core c secret hist (r\<lparr>spq_braid := b\<rparr>) = core c secret hist r"
  "uses_up (r\<lparr>spq_braid := b\<rparr>) r' = uses_up r r'"
  "uses_up r (r'\<lparr>spq_braid := b\<rparr>) = uses_up r r'"
  by (simp_all add: core_defs uses_up_def spent_def sent_def)

lemma core_views:
  assumes "core c secret hist r" "same_side r r'" "\<And>e. receive_chain_of r' e = receive_chain_of r e"
    "spq_skipped r' = spq_skipped r"
  shows "core c secret hist r'"
proof -
  have views: "present r' = present r" "send_chain_of r' = send_chain_of r" "receive_chain_of r' = receive_chain_of r"
    using assms(2,3) by (auto simp: same_side_def fun_eq_iff)
  have fields: "spq_role r' = spq_role r" "spq_root_key r' = spq_root_key r" "spq_epoch r' = spq_epoch r"
      "spq_sending_epoch r' = spq_sending_epoch r" "spq_receiving_epoch r' = spq_receiving_epoch r"
      "bt_wf (spq_chains r') = bt_wf (spq_chains r)"
    using assms(2) by (simp_all add: same_side_def)
  show ?thesis
    unfolding core_defs views fields assms(4) by (rule assms(1)[unfolded core_defs])
qed

section \<open>Pruning\<close>

text \<open>Pruning drops only what has become unreachable.\<close>

lemma uses_up_prune: "uses_up r (prune_old_epochs r)"
  by (auto simp: uses_up_def spent_def sent_def split: if_splits)

lemma core_prune:
  assumes "core c secret hist r"
  shows "core c secret hist (prune_old_epochs r)"
proof (rule core_views[OF assms])
  have keep: "oldest_epoch (spq_epoch r) \<le> e" if "present r e" for e
    using assms that unfolding core_def chains_ok_def oldest_epoch_le by blast
  have snd: "send_chain_of (prune_old_epochs r) e = send_chain_of r e" for e
    using keep[of e] send_chain_present[of r e] by (cases "send_chain_of r e") auto
  have wf: "bt_wf (spq_chains r)" using assms by (simp add: core_def chains_ok_def)
  show "same_side r (prune_old_epochs r)"
    unfolding same_side_def using keep snd wf by (simp add: bt_wf_prune) blast
  show "receive_chain_of (prune_old_epochs r) e = receive_chain_of r e" for e
    using keep[of e] receive_chain_present[of r e] by (cases "receive_chain_of r e") auto
  have "\<forall>k\<in>set (spq_skipped r). present r (skipped_epoch k)"
    using assms unfolding core_def skipped_ok_def by blast
  then show "spq_skipped (prune_old_epochs r) = spq_skipped r"
    unfolding fields_prune using keep by (intro filter_True) blast
qed

section \<open>A new epoch\<close>

lemma new_chains_simps [simp]:
  "send_chain (new_chains (a, b)) = Some \<lparr>chain_key = a, chain_counter = 0\<rparr>"
  "receive_chain (new_chains (a, b)) = Some \<lparr>chain_key = b, chain_counter = 0\<rparr>"
  by (simp_all add: new_chains_def)

lemma add_epoch_InrE:
  assumes "add_epoch c k r = (Inr u, r')"
  obtains root_k ab a b where "spq_epoch r \<noteq> - 1" "key_epoch k = spq_epoch r + 1"
    "derive_added_epoch c (spq_root_key r) (key_bytes k) = Inr (root_k, ab)"
    "chain_of_role (spq_role r) (fst ab) (snd ab) = (a, b)" "\<not> present r (spq_epoch r + 1)"
    "r' = prune_old_epochs (r\<lparr>spq_chains := bt_insert (spq_epoch r + 1) (new_chains (a, b)) (spq_chains r),
       spq_root_key := root_k, spq_epoch := spq_epoch r + 1\<rparr>)"
  using assms unfolding add_epoch_def
  by (auto simp: result_simps Let_def present_def split: prod.splits) (metis fst_conv snd_conv surj_pair)

lemma add_epoch_core:
  assumes "core c secret hist r" "add_epoch c k r = (Inr u, r')"
  shows "core c secret (key_bytes k # hist) r' \<and> uses_up r r' \<and> spq_epoch r' = spq_epoch r + 1 \<and> spq_epoch r \<noteq> - 1
    \<and> spq_braid r' = spq_braid r \<and> spq_sending_epoch r' = spq_sending_epoch r
    \<and> spq_receiving_epoch r' = spq_receiving_epoch r \<and> spq_role r' = spq_role r \<and> key_epoch k = spq_epoch r + 1"
proof -
  obtain root_k ab a b where k: "spq_epoch r \<noteq> - 1" "key_epoch k = spq_epoch r + 1"
    "derive_added_epoch c (spq_root_key r) (key_bytes k) = Inr (root_k, ab)"
    "chain_of_role (spq_role r) (fst ab) (snd ab) = (a, b)" "\<not> present r (spq_epoch r + 1)"
    "r' = prune_old_epochs (r\<lparr>spq_chains := bt_insert (spq_epoch r + 1) (new_chains (a, b)) (spq_chains r),
       spq_root_key := root_k, spq_epoch := spq_epoch r + 1\<rparr>)"
    using add_epoch_InrE[OF assms(2)] by metis
  let ?e = "spq_epoch r + 1"
  let ?q = "r\<lparr>spq_chains := bt_insert ?e (new_chains (a, b)) (spq_chains r), spq_root_key := root_k, spq_epoch := ?e\<rparr>"
  have n: "unat ?e = Suc (unat (spq_epoch r))" by (rule next_epoch_unat[OF k(1)])
  have pr: "present ?q e \<longleftrightarrow> e = ?e \<or> present r e" for e
    by (simp add: present_def map_of_bt_insert)
  have snd: "send_chain_of ?q e = (if e = ?e then Some \<lparr>chain_key = a, chain_counter = 0\<rparr> else send_chain_of r e)" for e
    by (simp add: send_chain_of_def map_of_bt_insert)
  have rcv: "receive_chain_of ?q e = (if e = ?e then Some \<lparr>chain_key = b, chain_counter = 0\<rparr> else receive_chain_of r e)" for e
    by (simp add: receive_chain_of_def map_of_bt_insert)
  note C = assms(1)[unfolded core_def chains_ok_def skipped_ok_def keys_ok_def]
  have proj: "spq_sending_epoch ?q = spq_sending_epoch r" "spq_receiving_epoch ?q = spq_receiving_epoch r"
      "spq_skipped ?q = spq_skipped r" "spq_epoch ?q = ?e" "spq_role ?q = spq_role r" "spq_root_key ?q = root_k" "spq_braid ?q = spq_braid r"
    by simp_all
  have hist: "length hist = unat (spq_epoch r)" and wf: "bt_wf (spq_chains r)"
    and win: "\<And>e. present r e \<longleftrightarrow> unat e \<le> unat (spq_epoch r) \<and> unat (spq_epoch r) \<le> Suc (unat e)"
    using assms(1) unfolding core_def chains_ok_def keys_ok_def by blast+
  have seeds: "epoch_seeds c secret (spq_role r) (key_bytes k # hist) (unat e) = epoch_seeds c secret (spq_role r) hist (unat e)"
    if "present r e" for e
    using win[of e] that hist by (intro epoch_seeds_older) simp
  obtain x where x: "epoch_secrets c secret hist = Inr (spq_root_key r, x)"
    using assms(1) unfolding core_def keys_ok_def by blast
  have sec: "epoch_secrets c secret (key_bytes k # hist) = Inr (root_k, ab)"
    using x k(3) by (simp split: prod.splits)
  have new: "epoch_seeds c secret (spq_role r) (key_bytes k # hist) (unat ?e) = Inr (a, b)"
    using sec k(4) hist n by (cases ab) (simp add: epoch_seeds_def)
  have kept: "oldest_epoch ?e \<le> e \<longleftrightarrow> unat (spq_epoch r) \<le> unat e" for e
    by (simp add: oldest_epoch_le n)
  have ge: "unat ?e = unat e \<longleftrightarrow> e = ?e" for e by (auto simp: word_unat_eq_iff)
  have pr': "present r' e \<longleftrightarrow> unat e \<le> unat ?e \<and> unat ?e \<le> Suc (unat e)" for e
    unfolding k(6) views_prune proj kept pr win using ge[of e] n by auto
  have old: "present r e" if "present r' e" "e \<noteq> ?e" for e
    using that(1)[unfolded pr'] that(2) ge[of e] n win[of e] by auto
  have snd': "send_chain_of r' e = (if e = ?e then Some \<lparr>chain_key = a, chain_counter = 0\<rparr>
      else if present r' e then send_chain_of r e else None)" for e
    unfolding k(6) views_prune proj kept pr snd
    using send_chain_present[of r e] n by (cases "send_chain_of r e") (auto simp: pr)
  have rcv': "receive_chain_of r' e = (if e = ?e then Some \<lparr>chain_key = b, chain_counter = 0\<rparr>
      else if present r' e then receive_chain_of r e else None)" for e
    unfolding k(6) views_prune proj kept pr rcv
    using receive_chain_present[of r e] n by (cases "receive_chain_of r e") (auto simp: pr)
  have fields: "spq_epoch r' = ?e" "spq_sending_epoch r' = spq_sending_epoch r" "spq_receiving_epoch r' = spq_receiving_epoch r"
      "spq_role r' = spq_role r" "spq_root_key r' = root_k" "spq_braid r' = spq_braid r"
      "spq_skipped r' = filter (\<lambda>k. oldest_epoch ?e \<le> skipped_epoch k) (spq_skipped r)"
    unfolding k(6) by simp_all
  have C: "spq_sending_epoch r \<le> ?e" "spq_receiving_epoch r \<le> ?e"
      "\<And>e. send_chain_of r e \<noteq> None \<longleftrightarrow> present r e \<and> spq_sending_epoch r \<le> e"
      "\<And>e. receive_chain_of r e \<noteq> None \<longleftrightarrow> present r e \<and> spq_receiving_epoch r \<le> e"
    using assms(1) n unfolding core_def chains_ok_def word_le_nat_alt by auto
  have bt: "bt_wf (spq_chains r')"
    unfolding k(6) using wf by (intro bt_wf_prune) (simp add: bt_wf_insert)
  have "chains_ok r'"
    unfolding chains_ok_def fields
  proof (intro conjI allI bt C(1,2) pr')
    show "send_chain_of r' e \<noteq> None \<longleftrightarrow> present r' e \<and> spq_sending_epoch r \<le> e" for e
      using C(1) C(3)[of e] old pr'[of e] n unfolding snd' by auto
    show "receive_chain_of r' e \<noteq> None \<longleftrightarrow> present r' e \<and> spq_receiving_epoch r \<le> e" for e
      using C(2) C(4)[of e] old pr'[of e] n unfolding rcv' by auto
  qed
  moreover have "skipped_ok r'"
    unfolding skipped_ok_def fields
  proof (intro conjI ballI)
    have sk: "skipped_ok r" using assms(1) by (simp add: core_def)
    show "length (filter (\<lambda>k. oldest_epoch ?e \<le> skipped_epoch k) (spq_skipped r)) \<le> SPQR_MAX_SKIPPED_KEYS"
      using sk length_filter_le[of _ "spq_skipped r"] unfolding skipped_ok_def by (meson order_trans)
    show "distinct (map skipped_id (filter (\<lambda>k. oldest_epoch ?e \<le> skipped_epoch k) (spq_skipped r)))"
      using sk unfolding skipped_ok_def by (simp add: distinct_map_filter)
    fix x assume x: "x \<in> set (filter (\<lambda>k. oldest_epoch ?e \<le> skipped_epoch k) (spq_skipped r))"
    then have X: "present r (skipped_epoch x)" "skipped_epoch x \<le> spq_receiving_epoch r" "skipped_number x \<noteq> 0"
        "\<forall>ch. receive_chain_of r (skipped_epoch x) = Some ch \<longrightarrow> skipped_number x \<le> chain_counter ch"
      using sk unfolding skipped_ok_def by auto
    have ne: "skipped_epoch x \<noteq> ?e" using X(1) k(5) by auto
    show "present r' (skipped_epoch x)"
      using X(1) x by (auto simp: pr' win kept n)
    show "skipped_epoch x \<le> spq_receiving_epoch r" "skipped_number x \<noteq> 0" using X by simp_all
    show "\<forall>ch. receive_chain_of r' (skipped_epoch x) = Some ch \<longrightarrow> skipped_number x \<le> chain_counter ch"
      using X(4) ne by (auto simp: rcv')
  qed
  moreover have "keys_ok c secret (key_bytes k # hist) r'"
    unfolding keys_ok_def fields
  proof (intro conjI allI impI ballI)
    have ko: "keys_ok c secret hist r" using assms(1) by (simp add: core_def)
    show "length (key_bytes k # hist) = unat ?e" using hist n by simp
    show "\<exists>ab. epoch_secrets c secret (key_bytes k # hist) = Inr (root_k, ab)" using sec by blast
    show "\<exists>a b. epoch_seeds c secret (spq_role r) (key_bytes k # hist) (unat e) = Inr (a, b)
        \<and> chain_at c a (unat (chain_counter ch)) = Inr (chain_key ch)" if "send_chain_of r' e = Some ch" for e ch
    proof (cases "e = ?e")
      case False
      then have "send_chain_of r e = Some ch" "present r' e" using that by (auto simp: snd' split: if_splits)
      then show ?thesis using ko seeds[OF old[OF _ False]] unfolding keys_ok_def by auto
    qed (use that new in \<open>auto simp: snd'\<close>)
    show "\<exists>a b. epoch_seeds c secret (spq_role r) (key_bytes k # hist) (unat e) = Inr (a, b)
        \<and> chain_at c b (unat (chain_counter ch)) = Inr (chain_key ch)" if "receive_chain_of r' e = Some ch" for e ch
    proof (cases "e = ?e")
      case False
      then have "receive_chain_of r e = Some ch" "present r' e" using that by (auto simp: rcv' split: if_splits)
      then show ?thesis using ko seeds[OF old[OF _ False]] unfolding keys_ok_def by auto
    qed (use that new in \<open>auto simp: rcv'\<close>)
    fix x assume "x \<in> set (filter (\<lambda>k. oldest_epoch ?e \<le> skipped_epoch k) (spq_skipped r))"
    then have x: "x \<in> set (spq_skipped r)" by simp
    then have "present r (skipped_epoch x)" using assms(1) unfolding core_def skipped_ok_def by blast
    then show "\<exists>a b. epoch_seeds c secret (spq_role r) (key_bytes k # hist) (unat (skipped_epoch x)) = Inr (a, b)
        \<and> message_key_at c b (unat (skipped_number x)) = Inr (skipped_message_key x)"
      using ko x seeds unfolding keys_ok_def by auto
  qed
  moreover have "uses_up r r'"
  proof -
    have "spq_receiving_epoch r < ?e" "spq_sending_epoch r < ?e"
      using assms(1) n unfolding core_def chains_ok_def word_le_nat_alt word_less_nat_alt by auto
    then show ?thesis
      unfolding uses_up_def spent_def sent_def fields by (auto simp: snd' rcv')
  qed
  ultimately show ?thesis using k(1,2) by (simp add: core_def fields)
qed

section \<open>Sending\<close>

lemma core_seeds:
  assumes "core c secret hist r"
  shows "send_chain_of r e = Some ch \<Longrightarrow> \<exists>a b. epoch_seeds c secret (spq_role r) hist (unat e) = Inr (a, b)
      \<and> chain_at c a (unat (chain_counter ch)) = Inr (chain_key ch)"
    and "receive_chain_of r e = Some ch \<Longrightarrow> \<exists>a b. epoch_seeds c secret (spq_role r) hist (unat e) = Inr (a, b)
      \<and> chain_at c b (unat (chain_counter ch)) = Inr (chain_key ch)"
  using assms unfolding core_def keys_ok_def by blast+

lemma advance_sending_core:
  assumes "core c secret hist r" "advance_sending n r = (Inr u, r')" "n = spq_sending_epoch r \<or> follows n (spq_sending_epoch r)"
    "n \<le> spq_epoch r"
  shows "core c secret hist r' \<and> uses_up r r' \<and> spq_sending_epoch r' = n \<and> spq_epoch r' = spq_epoch r
    \<and> spq_receiving_epoch r' = spq_receiving_epoch r \<and> spq_braid r' = spq_braid r \<and> spq_role r' = spq_role r"
proof (cases "n = spq_sending_epoch r")
  case True
  then show ?thesis using assms(1,2) by (simp add: advance_sending_def)
next
  case False
  let ?s = "spq_sending_epoch r"
  from False have n: "unat n = Suc (unat ?s)" using assms(3) by (simp add: follows_iff)
  then have lt: "?s < n" by (simp add: word_less_nat_alt)
  obtain ch where ch: "send_chain_of r ?s = Some ch"
      "r' = (put_send_chain ?s None r)\<lparr>spq_previous_length := chain_counter ch, spq_sending_epoch := n\<rparr>"
    using assms(2) lt by (auto simp: advance_sending_def split: option.splits)
  have pr: "present r ?s" by (rule send_chain_present[OF ch(1)])
  have step: "?s \<le> e \<longleftrightarrow> e = ?s \<or> n \<le> e" for e
    using n by (auto simp: word_le_nat_alt word_unat_eq_iff)
  have "chains_ok r'"
    using assms(1,4) pr lt unfolding core_def chains_ok_def ch(2) by (auto simp: step)
  moreover have "skipped_ok r'" using assms(1) unfolding core_def skipped_ok_def ch(2) by simp
  moreover have "keys_ok c secret hist r'" using assms(1) unfolding core_def keys_ok_def ch(2) by simp
  moreover have "uses_up r r'"
    using lt unfolding uses_up_def spent_def sent_def ch(2) by auto
  ultimately show ?thesis unfolding core_def ch(2) by simp
qed

lemma send_on_chain_InrE:
  assumes "send_on_chain c m r = (Inr out, r')"
  obtains ch nk mk where "send_chain_of r (spq_sending_epoch r) = Some ch" "chain_counter ch \<noteq> - 1"
    "derive_chain_step c (chain_key ch) (chain_counter ch + 1) = Inr (nk, mk)"
    "r' = prune_old_epochs (put_send_chain (spq_sending_epoch r) (Some \<lparr>chain_key = nk, chain_counter = chain_counter ch + 1\<rparr>) r)"
    "out = \<lparr>sent_header = \<lparr>hdr_braid_message = m, hdr_message_number = chain_counter ch + 1,
        hdr_previous_chain_length = spq_previous_length r\<rparr>, sent_message_key = mk\<rparr>"
  using assms unfolding send_on_chain_def by (auto simp: result_simps Let_def)

text \<open>A sent message has a new number and its key is the reference key.\<close>

lemma send_on_chain_core:
  assumes "core c secret hist r" "send_on_chain c m r = (Inr out, r')"
  shows "core c secret hist r' \<and> uses_up r r' \<and> spq_sending_epoch r' = spq_sending_epoch r \<and> spq_epoch r' = spq_epoch r
    \<and> spq_receiving_epoch r' = spq_receiving_epoch r \<and> spq_braid r' = spq_braid r \<and> spq_role r' = spq_role r
    \<and> hdr_braid_message (sent_header out) = m \<and> hdr_message_number (sent_header out) \<noteq> 0
    \<and> (let e = spq_sending_epoch r; n = hdr_message_number (sent_header out) in
        \<not> sent r e n \<and> sent r' e n
        \<and> (\<exists>a b. epoch_seeds c secret (spq_role r) hist (unat e) = Inr (a, b) \<and> message_key_at c a (unat n) = Inr (sent_message_key out)))"
proof -
  let ?s = "spq_sending_epoch r"
  obtain ch nk mk where o: "send_chain_of r ?s = Some ch" "chain_counter ch \<noteq> - 1"
    "derive_chain_step c (chain_key ch) (chain_counter ch + 1) = Inr (nk, mk)"
    "r' = prune_old_epochs (put_send_chain ?s (Some \<lparr>chain_key = nk, chain_counter = chain_counter ch + 1\<rparr>) r)"
    "out = \<lparr>sent_header = \<lparr>hdr_braid_message = m, hdr_message_number = chain_counter ch + 1,
        hdr_previous_chain_length = spq_previous_length r\<rparr>, sent_message_key = mk\<rparr>"
    using send_on_chain_InrE[OF assms(2)] by metis
  let ?ch = "\<lparr>chain_key = nk, chain_counter = chain_counter ch + 1\<rparr>"
  let ?q = "put_send_chain ?s (Some ?ch) r"
  have pr: "present r ?s" by (rule send_chain_present[OF o(1)])
  have n: "unat (chain_counter ch + 1) = Suc (unat (chain_counter ch))" by (rule next_epoch_unat[OF o(2)])
  obtain a b where ab: "epoch_seeds c secret (spq_role r) hist (unat ?s) = Inr (a, b)"
      "chain_at c a (unat (chain_counter ch)) = Inr (chain_key ch)"
    using core_seeds(1)[OF assms(1) o(1)] by blast
  note st = chain_step[OF ab(2) o(2,3)]
  have "chains_ok ?q" using assms(1) pr o(1) unfolding core_def chains_ok_def by auto
  moreover have "skipped_ok ?q" using assms(1) unfolding core_def skipped_ok_def by simp
  moreover have "keys_ok c secret hist ?q" using assms(1) pr ab st unfolding core_def keys_ok_def by auto
  ultimately have core': "core c secret hist r'" unfolding o(4) by (intro core_prune) (simp add: core_def)
  have "uses_up r ?q"
    using o(1) pr n unfolding uses_up_def spent_def sent_def by (auto simp: word_le_nat_alt)
  then have "uses_up r r'" unfolding o(4) by (rule uses_up_trans[OF _ uses_up_prune])
  moreover have "\<not> sent r ?s (chain_counter ch + 1)"
    using o(1) n by (auto simp: sent_def word_le_nat_alt)
  moreover have "sent r' ?s (chain_counter ch + 1)"
  proof -
    have "sent ?q ?s (chain_counter ch + 1)" using pr by (simp add: sent_def)
    then show ?thesis unfolding o(4) using uses_up_prune unfolding uses_up_def by blast
  qed
  moreover have "chain_counter ch + 1 \<noteq> 0" using n by (metis nat.distinct(1) unsigned_0)
  ultimately show ?thesis using core' ab(1) st unfolding o(4,5) by (auto simp: Let_def)
qed

section \<open>Receiving\<close>

text \<open>Skipping on the current receiving chain stores exactly the keys passed over.\<close>

lemma skip_until_core:
  assumes "core c secret hist r" "skip_until c e until r = (Inr u, r')" "e = spq_receiving_epoch r"
  shows "core c secret hist r' \<and> same_side r r' \<and> uses_up r r'
    \<and> (\<exists>ch. receive_chain_of r' e = Some ch \<and> chain_counter ch = until)"
proof -
  obtain ch where ch: "receive_chain_of r e = Some ch" "chain_counter ch \<le> until" "skipped_to c e until ch r r'"
    "unat until - unat (chain_counter ch) + length (spq_skipped r) \<le> max SPQR_MAX_SKIPPED_KEYS (length (spq_skipped r))"
    using skip_until_InrE[OF assms(2)] by metis
  obtain ch' ks where k: "same_side r r'"
      "\<And>e'. receive_chain_of r' e' = (if e' = e then Some ch' else receive_chain_of r e')"
      "chain_counter ch' = until" "spq_skipped r' = spq_skipped r @ ks"
      "map skipped_id ks = map (Pair (unat e)) [Suc (unat (chain_counter ch))..<Suc (unat until)]"
      "\<And>seed. chain_at c seed (unat (chain_counter ch)) = Inr (chain_key ch) \<Longrightarrow>
          chain_at c seed (unat until) = Inr (chain_key ch')
          \<and> (\<forall>k\<in>set ks. message_key_at c seed (unat (skipped_number k)) = Inr (skipped_message_key k))"
    using ch(3) unfolding skipped_to_def by blast
  have pr: "present r e" by (rule receive_chain_present[OF ch(1)])
  have same: "spq_role r' = spq_role r" "spq_root_key r' = spq_root_key r" "spq_epoch r' = spq_epoch r"
      "spq_sending_epoch r' = spq_sending_epoch r" "spq_receiving_epoch r' = spq_receiving_epoch r"
      "bt_wf (spq_chains r') = bt_wf (spq_chains r)" "present r' = present r" "send_chain_of r' = send_chain_of r"
    using k(1) by (auto simp: same_side_def fun_eq_iff)
  have sk: "skipped_ok r" and co: "chains_ok r" and ko: "keys_ok c secret hist r" using assms(1) by (simp_all add: core_def)
  have ids: "skipped_id k \<in> Pair (unat e) ` {Suc (unat (chain_counter ch))..<Suc (unat until)}" if "k \<in> set ks" for k
    using k(5) that by (metis image_eqI set_map set_upt)
  have new: "skipped_epoch k = e \<and> chain_counter ch < skipped_number k \<and> skipped_number k \<le> until" if "k \<in> set ks" for k
    using ids[OF that] by (auto simp: skipped_id_def word_unat_eq_iff word_less_nat_alt word_le_nat_alt)
  have old: "skipped_number k \<le> chain_counter ch" if "k \<in> set (spq_skipped r)" "skipped_epoch k = e" for k
    using sk ch(1) that unfolding skipped_ok_def by blast
  obtain a b where ab: "epoch_seeds c secret (spq_role r) hist (unat e) = Inr (a, b)"
      "chain_at c b (unat (chain_counter ch)) = Inr (chain_key ch)"
    using core_seeds(2)[OF assms(1) ch(1)] by blast
  have "length ks = unat until - unat (chain_counter ch)"
    using arg_cong[OF k(5), of length] by (simp del: upt_Suc)
  have "chains_ok r'"
    using co pr assms(3) unfolding chains_ok_def same k(2) by auto
  moreover have "skipped_ok r'"
    unfolding skipped_ok_def k(4)
  proof (intro conjI ballI)
    show "length (spq_skipped r @ ks) \<le> SPQR_MAX_SKIPPED_KEYS"
      using \<open>length ks = _\<close> ch(4) sk unfolding skipped_ok_def by simp
    have "distinct (map skipped_id ks)" unfolding k(5) by (simp add: distinct_map inj_on_def)
    moreover have ne: "skipped_id x \<noteq> skipped_id y" if "x \<in> set (spq_skipped r)" "y \<in> set ks" for x y
      using old[OF that(1)] new[OF that(2)] by (auto simp: skipped_id_def word_less_nat_alt word_le_nat_alt word_unat_eq_iff)
    have "skipped_id ` set (spq_skipped r) \<inter> skipped_id ` set ks = {}" using ne by blast
    ultimately show "distinct (map skipped_id (spq_skipped r @ ks))"
      using sk unfolding skipped_ok_def by simp
    fix x assume "x \<in> set (spq_skipped r @ ks)"
    then consider "x \<in> set (spq_skipped r)" | "x \<in> set ks" by auto
    then have "present r (skipped_epoch x) \<and> skipped_epoch x \<le> spq_receiving_epoch r \<and> skipped_number x \<noteq> 0
        \<and> (\<forall>ch. receive_chain_of r' (skipped_epoch x) = Some ch \<longrightarrow> skipped_number x \<le> chain_counter ch)"
    proof cases
      case 1
      moreover have "skipped_number x \<le> until" if "skipped_epoch x = e" using old[OF 1 that] ch(2) by (rule order_trans)
      ultimately show ?thesis using sk k(3) unfolding skipped_ok_def k(2) by auto
    next
      case 2
      then show ?thesis using new[OF 2] pr assms(3) k(3) by (auto simp: k(2) word_less_nat_alt)
    qed
    then show "present r' (skipped_epoch x)" "skipped_epoch x \<le> spq_receiving_epoch r'" "skipped_number x \<noteq> 0"
        "\<forall>ch. receive_chain_of r' (skipped_epoch x) = Some ch \<longrightarrow> skipped_number x \<le> chain_counter ch"
      by (simp_all add: same)
  qed
  moreover have "keys_ok c secret hist r'"
    using ko ab k(3) k(6)[OF ab(2)] new unfolding keys_ok_def same k(2,4) by auto
  moreover have "uses_up r r'"
  proof -
    have "(unat e', unat n) \<notin> skipped_id ` set ks"
      if "e' = spq_receiving_epoch r \<longrightarrow> n \<le> chain_counter ch" for e' n
      using new that assms(3) by (force simp: skipped_id_def word_less_nat_alt word_le_nat_alt word_unat_eq_iff)
    then show ?thesis
      using ch(1,2) k(3) assms(3) unfolding uses_up_def spent_def sent_def same k(2,4) by (fastforce simp: image_Un)
  qed
  ultimately show ?thesis using k(1,2,3) by (auto simp: core_def)
qed

lemma advance_receiving_core:
  assumes "core c secret hist r" "advance_receiving c n len r = (Inr u, r')" "n \<le> spq_epoch r"
  shows "core c secret hist r' \<and> uses_up r r' \<and> spq_receiving_epoch r' = max (spq_receiving_epoch r) n
    \<and> (spq_receiving_epoch r < n \<longrightarrow> follows n (spq_receiving_epoch r))
    \<and> spq_epoch r' = spq_epoch r \<and> spq_sending_epoch r' = spq_sending_epoch r \<and> spq_braid r' = spq_braid r \<and> spq_role r' = spq_role r"
proof (cases "spq_receiving_epoch r < n")
  case False
  then show ?thesis using assms(1,2) by (simp add: advance_receiving_def max_def)
next
  case True
  let ?e = "spq_receiving_epoch r"
  obtain q where q0: "skip_until c ?e len r = (Inr (), q)" "follows n ?e"
      "r' = (put_receive_chain (spq_receiving_epoch q) None q)\<lparr>spq_receiving_epoch := n\<rparr>"
    using assms(2) True unfolding advance_receiving_def by (auto simp: result_simps)
  note S = skip_until_core[OF assms(1) q0(1) refl]
  have q: "skip_until c ?e len r = (Inr (), q)" "follows n ?e"
      "r' = (put_receive_chain ?e None q)\<lparr>spq_receiving_epoch := n\<rparr>"
    using q0 S by (simp_all add: same_side_def)
  have n: "unat n = Suc (unat ?e)" using q(2) by (simp add: follows_iff)
  have side: "spq_epoch q = spq_epoch r" "spq_receiving_epoch q = ?e" "spq_sending_epoch q = spq_sending_epoch r"
      "spq_braid q = spq_braid r" "spq_role q = spq_role r"
    using S by (simp_all add: same_side_def)
  obtain ch where ch: "receive_chain_of q ?e = Some ch" using S by blast
  have pr: "present q ?e" by (rule receive_chain_present[OF ch])
  have step: "?e \<le> e \<longleftrightarrow> e = ?e \<or> n \<le> e" for e
    using n by (auto simp: word_le_nat_alt word_unat_eq_iff)
  have "chains_ok r'"
    using S assms(3) pr True unfolding core_def chains_ok_def q(3) by (auto simp: side step)
  moreover have "skipped_ok r'"
    using S True unfolding core_def skipped_ok_def q(3) by (auto simp: side dest: order.strict_trans1 less_imp_le)
  moreover have "keys_ok c secret hist r'" using S unfolding core_def keys_ok_def q(3) by auto
  moreover have "uses_up q r'"
    using True unfolding uses_up_def spent_def sent_def q(3) side by (auto simp: side)
  ultimately show ?thesis
    using S True q(2) uses_up_trans[of r q r'] unfolding core_def q(3)
    by (simp add: side max_def less_imp_le)
qed

lemma take_skipped_Some:
  assumes "take_skipped e n ks = Some (key, rest)" "distinct (map skipped_id ks)"
  shows "\<exists>k\<in>set ks. skipped_epoch k = e \<and> skipped_number k = n \<and> skipped_message_key k = key
    \<and> set rest = set ks - {k} \<and> length rest < length ks \<and> distinct (map skipped_id rest)
    \<and> (unat e, unat n) \<notin> skipped_id ` set rest"
  using assms
proof (induction ks arbitrary: rest)
  case (Cons k ks)
  show ?case
  proof (cases "skipped_epoch k = e \<and> skipped_number k = n")
    case True
    then show ?thesis using Cons.prems by (auto simp: skipped_id_def)
  next
    case False
    then obtain rest' where r: "take_skipped e n ks = Some (key, rest')" "rest = k # rest'"
      using Cons.prems(1) by auto
    from Cons.IH[OF r(1)] Cons.prems(2) obtain k' where "k' \<in> set ks" "skipped_epoch k' = e" "skipped_number k' = n"
        "skipped_message_key k' = key" "set rest' = set ks - {k'}" "length rest' < length ks" "distinct (map skipped_id rest')"
        "(unat e, unat n) \<notin> skipped_id ` set rest'" by auto
    moreover have "skipped_id k \<noteq> (unat e, unat n)" using False by (auto simp: skipped_id_def word_unat_eq_iff)
    moreover have "skipped_id k \<notin> skipped_id ` set ks" "k \<noteq> k'" using Cons.prems(2) \<open>k' \<in> set ks\<close> by auto
    ultimately show ?thesis using r(2) by (intro bexI[of _ k']) auto
  qed
qed simp

lemma take_skipped_None: "take_skipped e n ks = None \<longleftrightarrow> (unat e, unat n) \<notin> skipped_id ` set ks"
  by (induction ks) (auto simp: skipped_id_def word_unat_eq_iff)

text \<open>
  A key is handed out for a number that was not spent before and is afterwards, and it is
  the reference key; on a spent number receiving fails.
\<close>

lemma receive_on_chain_core:
  assumes "core c secret hist r" "receive_on_chain c e n r = (Inr key, r')" "e = spq_receiving_epoch r"
    "(unat e, unat n) \<notin> skipped_id ` set (spq_skipped r)"
  shows "core c secret hist r' \<and> uses_up r r' \<and> \<not> spent r e n \<and> spent r' e n
    \<and> (\<exists>a b. epoch_seeds c secret (spq_role r) hist (unat e) = Inr (a, b) \<and> message_key_at c b (unat n) = Inr key)
    \<and> spq_epoch r' = spq_epoch r \<and> spq_sending_epoch r' = spq_sending_epoch r
    \<and> spq_receiving_epoch r' = spq_receiving_epoch r \<and> spq_braid r' = spq_braid r \<and> spq_role r' = spq_role r"
proof -
  obtain q ch nk where q: "n \<noteq> 0" "skip_until c e (n - 1) r = (Inr (), q)" "receive_chain_of q e = Some ch"
      "chain_counter ch \<noteq> - 1" "chain_counter ch + 1 = n" "derive_chain_step c (chain_key ch) n = Inr (nk, key)"
      "r' = prune_old_epochs (put_receive_chain e (Some \<lparr>chain_key = nk, chain_counter = n\<rparr>) q)"
    using assms(2) unfolding receive_on_chain_def by (auto simp: result_simps Let_def)
  note S = skip_until_core[OF assms(1) q(2) assms(3)]
  let ?q = "put_receive_chain e (Some \<lparr>chain_key = nk, chain_counter = n\<rparr>) q"
  have side: "spq_epoch q = spq_epoch r" "spq_receiving_epoch q = spq_receiving_epoch r" "spq_sending_epoch q = spq_sending_epoch r"
      "spq_braid q = spq_braid r" "spq_role q = spq_role r"
    using S by (simp_all add: same_side_def)
  have cq: "core c secret hist q" using S by blast
  have n: "unat n = Suc (unat (chain_counter ch))" using q(4,5) next_word_iff by blast
  have pr: "present q e" by (rule receive_chain_present[OF q(3)])
  obtain a b where ab: "epoch_seeds c secret (spq_role q) hist (unat e) = Inr (a, b)"
      "chain_at c b (unat (chain_counter ch)) = Inr (chain_key ch)"
    using core_seeds(2)[OF cq q(3)] by blast
  note st = chain_step[OF ab(2) q(4), unfolded q(5), OF q(6)]
  have "chains_ok ?q" using cq pr assms(3) unfolding core_def chains_ok_def by (auto simp: side)
  moreover have "skipped_ok ?q"
    using cq q(3) n unfolding core_def skipped_ok_def by (auto simp: word_le_nat_alt)
  moreover have "keys_ok c secret hist ?q" using cq pr ab st unfolding core_def keys_ok_def by auto
  ultimately have core': "core c secret hist r'" unfolding q(7) by (intro core_prune) (simp add: core_def)
  have "uses_up q ?q"
    using q(3) pr n unfolding uses_up_def spent_def sent_def by (auto simp: word_le_nat_alt)
  then have up: "uses_up r r'" unfolding q(7) using S uses_up_prune uses_up_trans by blast
  have unsp: "\<not> spent r e n"
  proof
    assume sp: "spent r e n"
    obtain ch0 where ch0: "receive_chain_of r e = Some ch0" "chain_counter ch0 \<le> n - 1"
      using skip_until_InrE[OF q(2)] by metis
    have "n \<le> chain_counter ch0" using sp assms(3) ch0(1) by (auto simp: spent_def)
    then show False using ch0(2) n q(5) by (auto simp: word_le_nat_alt)
  qed
  have "(unat e, unat n) \<notin> skipped_id ` set (spq_skipped q)"
  proof
    assume "(unat e, unat n) \<in> skipped_id ` set (spq_skipped q)"
    then obtain k where "k \<in> set (spq_skipped q)" "skipped_epoch k = e" "skipped_number k = n"
      by (auto simp: skipped_id_def word_unat_eq_iff)
    then have "n \<le> chain_counter ch" using cq q(3) unfolding core_def skipped_ok_def by auto
    then show False using n by (simp add: word_le_nat_alt)
  qed
  then have "spent ?q e n" using pr assms(3) by (simp add: spent_def side)
  then have "spent r' e n" unfolding q(7) using uses_up_prune unfolding uses_up_def by blast
  then show ?thesis using core' up unsp ab(1) st unfolding q(7) by (simp add: side)
qed

lemma receive_in_window_core:
  assumes "core c secret hist r" "receive_in_window c e n r = (Inr key, r')"
  shows "core c secret hist r' \<and> uses_up r r' \<and> \<not> spent r e n \<and> spent r' e n
    \<and> (\<exists>a b. epoch_seeds c secret (spq_role r) hist (unat e) = Inr (a, b) \<and> message_key_at c b (unat n) = Inr key)
    \<and> spq_epoch r' = spq_epoch r \<and> spq_sending_epoch r' = spq_sending_epoch r
    \<and> spq_receiving_epoch r' = spq_receiving_epoch r \<and> spq_braid r' = spq_braid r \<and> spq_role r' = spq_role r"
proof (cases "take_skipped e n (spq_skipped r)")
  case None
  then have "e = spq_receiving_epoch r" "receive_on_chain c e n r = (Inr key, r')"
    using assms(2) by (auto simp: receive_in_window_def result_simps)
  then show ?thesis using receive_on_chain_core[OF assms(1)] None take_skipped_None by blast
next
  case (Some p)
  then obtain rest where r': "take_skipped e n (spq_skipped r) = Some (key, rest)" "r' = r\<lparr>spq_skipped := rest\<rparr>"
    using assms(2) by (cases p) (auto simp: receive_in_window_def result_simps)
  have sk: "skipped_ok r" using assms(1) by (simp add: core_def)
  obtain k where k: "k \<in> set (spq_skipped r)" "skipped_epoch k = e" "skipped_number k = n" "skipped_message_key k = key"
      "set rest = set (spq_skipped r) - {k}" "length rest < length (spq_skipped r)" "distinct (map skipped_id rest)"
      "(unat e, unat n) \<notin> skipped_id ` set rest"
    using take_skipped_Some[OF r'(1)] sk unfolding skipped_ok_def by auto
  have "chains_ok r'" using assms(1) unfolding core_def chains_ok_def r'(2) by simp
  moreover have "skipped_ok r'" using sk k(5,6,7) unfolding skipped_ok_def r'(2) by auto
  moreover have "keys_ok c secret hist r'" using assms(1) k(5) unfolding core_def keys_ok_def r'(2) by auto
  moreover have "uses_up r r'" using k(5) unfolding uses_up_def spent_def sent_def r'(2) by auto
  moreover have "\<not> spent r e n" using k(1,2,3) by (auto simp: spent_def skipped_id_def)
  moreover have "spent r' e n"
    using sk k(1,2,3,8) unfolding skipped_ok_def spent_def r'(2) by (auto simp: order.order_iff_strict)
  moreover have "\<exists>a b. epoch_seeds c secret (spq_role r) hist (unat e) = Inr (a, b) \<and> message_key_at c b (unat n) = Inr key"
    using assms(1) k(1-4) unfolding core_def keys_ok_def by auto
  ultimately show ?thesis unfolding core_def r'(2) by simp
qed

lemma new_core:
  assumes "spq_new c new_session role secret = Inr r"
  shows "core c secret [] r \<and> spq_epoch r = 0 \<and> spq_sending_epoch r = 0 \<and> spq_receiving_epoch r = 0 \<and> spq_role r = role
    \<and> new_session role = Inr (spq_braid r)"
proof -
  obtain root_k ab ba s where r: "derive_initial_chains c secret = Inr (root_k, ab, ba)" "new_session role = Inr s"
      "r = \<lparr>spq_role = role, spq_root_key = root_k, spq_epoch = 0, spq_sending_epoch = 0, spq_receiving_epoch = 0,
          spq_previous_length = 0, spq_chains = [(0, new_chains (chain_of_role role ab ba))],
          spq_skipped = [], spq_braid = s\<rparr>"
    using assms unfolding spq_new_def by (auto simp: result_simps)
  obtain a b where cr: "chain_of_role role ab ba = (a, b)" by (meson surj_pair)
  have pr: "present r e \<longleftrightarrow> e = 0" for e by (simp add: r(3) present_def)
  have snd: "send_chain_of r e = (if e = 0 then Some \<lparr>chain_key = a, chain_counter = 0\<rparr> else None)" for e
    by (simp add: r(3) send_chain_of_def cr)
  have rcv: "receive_chain_of r e = (if e = 0 then Some \<lparr>chain_key = b, chain_counter = 0\<rparr> else None)" for e
    by (simp add: r(3) receive_chain_of_def cr)
  have seeds: "epoch_seeds c secret role [] 0 = Inr (a, b)" using r(1) cr by (simp add: epoch_seeds_def)
  have "chains_ok r"
    unfolding chains_ok_def pr snd rcv by (auto simp: r(3) bt_wf_def unsigned_eq_0_iff)
  moreover have "skipped_ok r" by (simp add: skipped_ok_def r(3))
  moreover have "keys_ok c secret [] r"
    unfolding keys_ok_def pr snd rcv using r(1) seeds by (auto simp: r(3))
  ultimately show ?thesis using r(2) by (simp add: core_def r(3))
qed

end
