(* ===== verification/Spq_Agreement.thy ===== *)
theory Spq_Agreement
  imports Spq_Invariant
begin

text \<open>
  The interface between the ratchet and its braid session. The locale states what the ratchet
  relies on: \<open>cur\<close> is the epoch of the session, \<open>keyed\<close> the epoch of the last key it has output,
  \<open>spoken\<close> and \<open>heard\<close> that a send, respectively a receive, has reported the epoch before it. The
  ratchet's lemmas are proved from these laws; the session of the braid satisfies them.
\<close>

section \<open>Runs\<close>

fun sent_keys :: "send_out braid_result \<Rightarrow> bytes list" where
  "sent_keys (Inl _) = []"
| "sent_keys (Inr out) = (case sent_key out of None \<Rightarrow> [] | Some k \<Rightarrow> [key_bytes k])"

fun received_keys :: "receive_out braid_result \<Rightarrow> bytes list" where
  "received_keys (Inl _) = []"
| "received_keys (Inr out) = (case received_key out of None \<Rightarrow> [] | Some k \<Rightarrow> [key_bytes k])"

text \<open>
  The caller works on a clone and keeps it when an operation succeeds, so a run consists of
  successful operations. The randomness source fills the buffers it is given and a chunk has 32
  bytes, which are types in the source. The list holds the keys the session has output on the way, newest
  first.
\<close>

inductive spq_run :: "crypto \<Rightarrow> 's scka \<Rightarrow> 's spq_ratchet \<Rightarrow> 's spq_ratchet \<Rightarrow> bytes list \<Rightarrow> bool" for c ops r0 where
  run_start: "spq_run c ops r0 r0 []"
| run_send: "spq_run c ops r0 r hist \<Longrightarrow> (\<And>n. length (fill n) = n) \<Longrightarrow> send_key c ops fill r = (Inr out, r')
    \<Longrightarrow> spq_run c ops r0 r' (sent_keys (fst (scka_send ops fill (spq_braid r))) @ hist)"
| run_receive: "spq_run c ops r0 r hist \<Longrightarrow> message_typed (hdr_braid_message header) \<Longrightarrow> receive_key c ops r header = (Inr key, r')
    \<Longrightarrow> spq_run c ops r0 r' (received_keys (fst (scka_receive ops (spq_braid r) (hdr_braid_message header))) @ hist)"

inductive_cases spq_runE: "spq_run c ops r0 r hist"

section \<open>The interface\<close>

definition message_epoch :: "spq_header \<Rightarrow> u64" where
  "message_epoch header = msg_epoch (hdr_braid_message header) - 1"

locale key_agreement =
  fixes ops :: "'s scka" and live :: "'s \<Rightarrow> bool" and cur keyed :: "'s \<Rightarrow> nat" and spoken heard :: "'s \<Rightarrow> bool"
  assumes window: "live s \<Longrightarrow> 0 < cur s \<and> (keyed s = cur s \<and> spoken s \<and> heard s \<or> Suc (keyed s) = cur s)"
    and send_law: "live s \<Longrightarrow> scka_send ops fill s = (Inr out, s') \<Longrightarrow>
      live s' \<and> cur s' = cur s \<and> (heard s' \<longleftrightarrow> heard s) \<and> Suc (unat (sending_epoch out)) = cur s
      \<and> msg_epoch (out_message out) = sending_epoch out + 1 \<and> sending_epoch out \<noteq> - 1
      \<and> keyed s' = keyed s + length (sent_keys (Inr out))"
    and receive_law: "live s \<Longrightarrow> scka_receive ops s m = (Inr ro, s') \<Longrightarrow>
      live s' \<and> (spoken s' \<longrightarrow> spoken s \<and> cur s' = cur s) \<and> keyed s' = keyed s + length (received_keys (Inr ro))
      \<and> (cur s' = cur s \<and> received_key ro = None \<and> Suc (unat (receiving_epoch ro)) = cur s
         \<or> cur s' = Suc (cur s) \<and> spoken s \<and> heard s \<and> received_key ro \<noteq> None \<and> Suc (unat (receiving_epoch ro)) = cur s \<and> \<not> heard s'
         \<or> cur s' = Suc (cur s) \<and> spoken s \<and> heard s \<and> received_key ro = None \<and> unat (receiving_epoch ro) = cur s)"
begin

definition in_step :: "crypto \<Rightarrow> bytes \<Rightarrow> bytes list \<Rightarrow> 's spq_ratchet \<Rightarrow> bool" where
  "in_step c secret hist r \<longleftrightarrow> core c secret hist r \<and> live (spq_braid r) \<and> unat (spq_epoch r) = keyed (spq_braid r)
     \<and> unat (spq_sending_epoch r) < cur (spq_braid r) \<and> cur (spq_braid r) \<le> unat (spq_sending_epoch r) + 2
     \<and> (spoken (spq_braid r) \<longrightarrow> cur (spq_braid r) = Suc (unat (spq_sending_epoch r)))
     \<and> unat (spq_receiving_epoch r) < cur (spq_braid r) \<and> cur (spq_braid r) \<le> unat (spq_receiving_epoch r) + 2
     \<and> (heard (spq_braid r) \<longrightarrow> cur (spq_braid r) = Suc (unat (spq_receiving_epoch r)))"

lemma send_step:
  assumes "in_step c secret hist r" "send_key c ops fill r = (Inr out, r')"
  shows "in_step c secret (sent_keys (fst (scka_send ops fill (spq_braid r))) @ hist) r' \<and> uses_up r r' \<and> spq_role r' = spq_role r
    \<and> spq_sending_epoch r' = message_epoch (sent_header out)
    \<and> (let e = message_epoch (sent_header out); n = hdr_message_number (sent_header out) in
        \<not> sent r e n \<and> sent r' e n
        \<and> (\<exists>a b. epoch_seeds c secret (spq_role r) (sent_keys (fst (scka_send ops fill (spq_braid r))) @ hist) (unat e) = Inr (a, b)
            \<and> message_key_at c a (unat n) = Inr (sent_message_key out)))"
proof -
  obtain so s' where so: "scka_send ops fill (spq_braid r) = (Inr so, s')"
    using assms(2) unfolding send_key_def by (auto simp: result_simps Let_def split: prod.splits)
  obtain r1 r2 where r1: "add_output c (sent_key so) (r\<lparr>spq_braid := s'\<rparr>) = (Inr (), r1)"
      and gap: "sending_epoch so = spq_sending_epoch r1 \<or> follows (sending_epoch so) (spq_sending_epoch r1)"
      and r2: "advance_sending (sending_epoch so) r1 = (Inr (), r2)"
      and r': "send_on_chain c (out_message so) r2 = (Inr out, r')"
    using assms(2) unfolding send_key_def by (auto simp: so result_simps Let_def)
  let ?h = "sent_keys (Inr so) @ hist"
  note I = assms(1)[unfolded in_step_def]
  have live: "live (spq_braid r)" using I by blast
  note L = send_law[OF live so]
  have c1: "core c secret ?h r1 \<and> uses_up r r1 \<and> spq_sending_epoch r1 = spq_sending_epoch r \<and> spq_receiving_epoch r1 = spq_receiving_epoch r
      \<and> spq_braid r1 = s' \<and> spq_role r1 = spq_role r \<and> unat (spq_epoch r1) = keyed s'"
  proof (cases "sent_key so")
    case None
    then show ?thesis using r1 I L by (auto simp: add_output_def)
  next
    case (Some k)
    then have "add_epoch c k (r\<lparr>spq_braid := s'\<rparr>) = (Inr (), r1)" using r1 by (simp add: add_output_def)
    from add_epoch_core[OF _ this, of secret hist] I L Some next_epoch_unat[of "spq_epoch r"] show ?thesis by simp
  qed
  have "sending_epoch so \<le> spq_epoch r1"
    using c1 L window[OF live] I by (auto simp: word_le_nat_alt)
  from advance_sending_core[OF c1[THEN conjunct1] r2 gap this] c1
  have c2: "core c secret ?h r2 \<and> uses_up r r2 \<and> spq_sending_epoch r2 = sending_epoch so \<and> spq_receiving_epoch r2 = spq_receiving_epoch r
      \<and> spq_braid r2 = s' \<and> spq_role r2 = spq_role r \<and> unat (spq_epoch r2) = keyed s'"
    using uses_up_trans by (metis (no_types, lifting))
  from send_on_chain_core[OF c2[THEN conjunct1] r'] c2
  have c3: "core c secret ?h r' \<and> uses_up r2 r' \<and> spq_sending_epoch r' = sending_epoch so \<and> spq_receiving_epoch r' = spq_receiving_epoch r
      \<and> spq_braid r' = s' \<and> spq_role r' = spq_role r \<and> unat (spq_epoch r') = keyed s'
      \<and> hdr_braid_message (sent_header out) = out_message so
      \<and> (let e = sending_epoch so; n = hdr_message_number (sent_header out) in
          \<not> sent r2 e n \<and> sent r' e n
          \<and> (\<exists>a b. epoch_seeds c secret (spq_role r) ?h (unat e) = Inr (a, b) \<and> message_key_at c a (unat n) = Inr (sent_message_key out)))"
    by (simp add: Let_def)
  have e: "message_epoch (sent_header out) = sending_epoch so"
    using c3 L by (simp add: message_epoch_def)
  have "in_step c secret ?h r'"
    using c3 L I unfolding in_step_def by auto
  moreover have "uses_up r r'" using c2 c3 uses_up_trans by blast
  moreover have "\<not> sent r (sending_epoch so) (hdr_message_number (sent_header out))"
    using c2 c3 unfolding uses_up_def Let_def by blast
  ultimately show ?thesis using c3 unfolding so fst_conv e Let_def by blast
qed

lemma receive_step:
  assumes "in_step c secret hist r" "receive_key c ops r header = (Inr key, r')"
  shows "in_step c secret (received_keys (fst (scka_receive ops (spq_braid r) (hdr_braid_message header))) @ hist) r' \<and> uses_up r r'
    \<and> spq_role r' = spq_role r
    \<and> (let e = message_epoch header; n = hdr_message_number header in
        \<not> spent r e n \<and> spent r' e n
        \<and> (\<exists>a b. epoch_seeds c secret (spq_role r)
              (received_keys (fst (scka_receive ops (spq_braid r) (hdr_braid_message header))) @ hist) (unat e) = Inr (a, b)
            \<and> message_key_at c b (unat n) = Inr key))"
proof -
  obtain ro s' where ro: "scka_receive ops (spq_braid r) (hdr_braid_message header) = (Inr ro, s')"
    using assms(2) unfolding receive_key_def by (auto simp: result_simps Let_def split: prod.splits)
  obtain r1 r2 where r1: "add_output c (received_key ro) (r\<lparr>spq_braid := s'\<rparr>) = (Inr (), r1)"
      and r2: "advance_receiving c (receiving_epoch ro) (hdr_previous_chain_length header) r1 = (Inr (), r2)"
      and r': "receive_in_window c (message_epoch header) (hdr_message_number header) r2 = (Inr key, r')"
    using assms(2) unfolding receive_key_def by (auto simp: ro result_simps Let_def message_epoch_def)
  let ?h = "received_keys (Inr ro) @ hist"
  note I = assms(1)[unfolded in_step_def]
  have live: "live (spq_braid r)" using I by blast
  note L = receive_law[OF live ro]
  have c1: "core c secret ?h r1 \<and> uses_up r r1 \<and> spq_sending_epoch r1 = spq_sending_epoch r \<and> spq_receiving_epoch r1 = spq_receiving_epoch r
      \<and> spq_braid r1 = s' \<and> spq_role r1 = spq_role r \<and> unat (spq_epoch r1) = keyed s'"
  proof (cases "received_key ro")
    case None
    then show ?thesis using r1 I L by (auto simp: add_output_def)
  next
    case (Some k)
    then have "add_epoch c k (r\<lparr>spq_braid := s'\<rparr>) = (Inr (), r1)" using r1 by (simp add: add_output_def)
    from add_epoch_core[OF _ this, of secret hist] I L Some next_epoch_unat[of "spq_epoch r"] show ?thesis by simp
  qed
  have W: "0 < cur (spq_braid r)" "live s'" using window[OF live] L by auto
  have "receiving_epoch ro \<le> spq_epoch r1"
    using c1 L window[OF live] window[OF W(2)] I by (auto simp: word_le_nat_alt)
  from advance_receiving_core[OF c1[THEN conjunct1] r2 this] c1
  have c2: "core c secret ?h r2 \<and> uses_up r r2 \<and> spq_receiving_epoch r2 = max (spq_receiving_epoch r) (receiving_epoch ro)
      \<and> spq_sending_epoch r2 = spq_sending_epoch r
      \<and> spq_braid r2 = s' \<and> spq_role r2 = spq_role r \<and> unat (spq_epoch r2) = keyed s'"
    using uses_up_trans by (metis (no_types, lifting))
  from receive_in_window_core[OF c2[THEN conjunct1] r'] c2
  have c3: "core c secret ?h r' \<and> uses_up r2 r' \<and> spq_sending_epoch r' = spq_sending_epoch r
      \<and> spq_receiving_epoch r' = max (spq_receiving_epoch r) (receiving_epoch ro)
      \<and> spq_braid r' = s' \<and> spq_role r' = spq_role r \<and> unat (spq_epoch r') = keyed s'
      \<and> (let e = message_epoch header; n = hdr_message_number header in
          \<not> spent r2 e n \<and> spent r' e n
          \<and> (\<exists>a b. epoch_seeds c secret (spq_role r) ?h (unat e) = Inr (a, b) \<and> message_key_at c b (unat n) = Inr key))"
    by (simp add: Let_def)
  have mx: "unat (max (spq_receiving_epoch r) (receiving_epoch ro)) = max (unat (spq_receiving_epoch r)) (unat (receiving_epoch ro))"
    by (simp add: max_def word_le_nat_alt)
  have "in_step c secret ?h r'"
    unfolding in_step_def
  proof (intro conjI)
    show "cur (spq_braid r') \<le> unat (spq_receiving_epoch r') + 2" "unat (spq_receiving_epoch r') < cur (spq_braid r')"
      "heard (spq_braid r') \<longrightarrow> cur (spq_braid r') = Suc (unat (spq_receiving_epoch r'))"
      using c3 L I by (auto simp: mx)
    show "unat (spq_sending_epoch r') < cur (spq_braid r')" "cur (spq_braid r') \<le> unat (spq_sending_epoch r') + 2"
      "spoken (spq_braid r') \<longrightarrow> cur (spq_braid r') = Suc (unat (spq_sending_epoch r'))"
      using c3 L I by auto
  qed (use c3 W in auto)
  moreover have "uses_up r r'" using c2 c3 uses_up_trans by blast
  moreover have "\<not> spent r (message_epoch header) (hdr_message_number header)"
    using c2 c3 unfolding uses_up_def Let_def by blast
  ultimately show ?thesis using c3 unfolding ro fst_conv Let_def by blast
qed

lemma in_step_window:
  assumes "in_step c secret hist r"
  shows "unat (spq_epoch r) \<le> Suc (unat (spq_sending_epoch r))" "unat (spq_epoch r) \<le> Suc (unat (spq_receiving_epoch r))"
    and "unat (spq_epoch r) = cur (spq_braid r) \<or> Suc (unat (spq_epoch r)) = cur (spq_braid r)"
    and "send_chain_of r (spq_sending_epoch r) \<noteq> None" "receive_chain_of r (spq_receiving_epoch r) \<noteq> None"
proof -
  note I = assms[unfolded in_step_def]
  note W = window[of "spq_braid r"]
  show s: "unat (spq_epoch r) \<le> Suc (unat (spq_sending_epoch r))" "unat (spq_epoch r) \<le> Suc (unat (spq_receiving_epoch r))"
    and "unat (spq_epoch r) = cur (spq_braid r) \<or> Suc (unat (spq_epoch r)) = cur (spq_braid r)"
    using I W by auto
  have C: "spq_sending_epoch r \<le> spq_epoch r" "spq_receiving_epoch r \<le> spq_epoch r"
    "\<And>e. present r e \<longleftrightarrow> unat e \<le> unat (spq_epoch r) \<and> unat (spq_epoch r) \<le> Suc (unat e)"
    "\<And>e. send_chain_of r e \<noteq> None \<longleftrightarrow> present r e \<and> spq_sending_epoch r \<le> e"
    "\<And>e. receive_chain_of r e \<noteq> None \<longleftrightarrow> present r e \<and> spq_receiving_epoch r \<le> e"
    using I unfolding core_def chains_ok_def by blast+
  show "send_chain_of r (spq_sending_epoch r) \<noteq> None" "receive_chain_of r (spq_receiving_epoch r) \<noteq> None"
    unfolding C(4,5) C(3) using s C(1,2) by (simp_all add: word_le_nat_alt)
qed

lemma run_steps:
  assumes "spq_run c ops r r' new" "in_step c secret hist r"
  shows "in_step c secret (new @ hist) r' \<and> uses_up r r' \<and> spq_role r' = spq_role r"
  using assms
proof (induction rule: spq_run.induct)
  case (run_send q h fill out q')
  then show ?case using send_step[OF _ run_send(3)] uses_up_trans by fastforce
next
  case (run_receive q h header key q')
  then show ?case using receive_step[OF _ run_receive(3)] uses_up_trans by fastforce
qed simp

end

section \<open>The braid session provides the interface\<close>

fun state_keyed :: "protocol_state \<Rightarrow> nat" where
  "state_keyed (Ct1Sampled e _ _ _ _ _ _) = unat e"
| "state_keyed (EkReceivedCt1Sampled e _ _ _ _ _) = unat e"
| "state_keyed (Ct1Acknowledged e _ _ _ _ _) = unat e"
| "state_keyed (Ct2Sampled e _ _) = unat e"
| "state_keyed s = unat (state_epoch s) - 1"

fun state_spoken :: "protocol_state \<Rightarrow> bool" where
  "state_spoken (KeysUnsampled _ _) = False"
| "state_spoken (NoHeaderReceived _ _ _) = False"
| "state_spoken (HeaderReceived _ _ _ _) = False"
| "state_spoken (Poisoned _) = False"
| "state_spoken _ = True"

fun state_heard :: "protocol_state \<Rightarrow> bool" where
  "state_heard (NoHeaderReceived _ _ _) = False"
| "state_heard (Poisoned _) = False"
| "state_heard _ = True"

lemma unat_pred: "e \<noteq> 0 \<Longrightarrow> Suc (unat (e - 1 :: u64)) = unat e"
  by (simp add: unat_minus_one unat_gt_0)

lemma send_state_law:
  assumes "send_state c fill s = (Inr (s', out))"
  shows "state_epoch s \<noteq> 0 \<and> state_epoch s' = state_epoch s \<and> (state_heard s' \<longleftrightarrow> state_heard s)
    \<and> sending_epoch out = state_epoch s - 1 \<and> msg_epoch (out_message out) = state_epoch s
    \<and> state_keyed s' = state_keyed s + length (sent_keys (Inr out))"
  using assms
  by (cases s; auto simp: send_arms Let_def result_simps payload_def empty_message_def unat_gt_0 dest: unat_pred)

lemma receive_state_stays:
  assumes "receive_state c s m = Inr (s', out)" "state_name s \<noteq> EkSentCt1ReceivedN" "state_name s \<noteq> Ct2SampledN"
  shows "state_epoch s \<noteq> 0 \<and> state_epoch s' = state_epoch s \<and> received_key out = None
    \<and> receiving_epoch out = state_epoch s - 1 \<and> state_keyed s' = state_keyed s \<and> state_spoken s' = state_spoken s"
  using assms
  by (cases s; (auto simp: receive_arms Let_def and_then_Inr_iff ensure_Inr_iff ok_or_Inr_iff receive_output_Inr_iff
      split: if_splits prod.splits; fail)?; simp)

lemma receive_state_law:
  assumes "receive_state c s m = Inr (s', out)" "state_epoch s \<noteq> 0"
  shows "state_epoch s' \<noteq> 0 \<and> (state_spoken s' \<longrightarrow> state_spoken s \<and> state_epoch s' = state_epoch s)
    \<and> state_keyed s' = state_keyed s + length (received_keys (Inr out))
    \<and> (state_epoch s' = state_epoch s \<and> received_key out = None \<and> receiving_epoch out = state_epoch s - 1
       \<or> state_epoch s \<noteq> - 1 \<and> state_epoch s' = state_epoch s + 1 \<and> state_spoken s \<and> state_heard s
         \<and> received_key out \<noteq> None \<and> receiving_epoch out = state_epoch s - 1 \<and> \<not> state_heard s'
       \<or> state_epoch s \<noteq> - 1 \<and> state_epoch s' = state_epoch s + 1 \<and> state_spoken s \<and> state_heard s
         \<and> received_key out = None \<and> receiving_epoch out = state_epoch s)"
proof (cases s)
  case (EkSentCt1Received e a seed ct1 dec)
  then have "receive_ek_sent_ct1_received c m e a seed ct1 dec = Inr (s', out)" using assms(1) by simp
  then show ?thesis
  proof (cases rule: receive_ek_sent_ct1_received_Inr)
    case (1 dec')
    then show ?thesis using EkSentCt1Received assms(2) by simp
  next
    case (2 ch dec' x)
    from 2(5) obtain key auth' hd where "e \<noteq> - 1" "s' = NoHeaderReceived (e + 1) auth' hd"
        "out = \<lparr>receiving_epoch = e - 1, received_key = Some key\<rparr>"
      by (rule finish_decapsulation_Inr)
    then show ?thesis
      using EkSentCt1Received assms(2) next_epoch_unat[of e] unat_pred[of e] next_epoch_nonzero[of e] by simp
  qed
next
  case (Ct2Sampled e a enc)
  then consider "e \<noteq> - 1" "s' = KeysUnsampled (e + 1) a" "out = \<lparr>receiving_epoch = e, received_key = None\<rparr>"
    | "s' = s" "out = \<lparr>receiving_epoch = e - 1, received_key = None\<rparr>"
    using assms(1) by (auto simp: receive_ct2_sampled_def result_simps split: if_splits)
  then show ?thesis
    using Ct2Sampled assms(2) next_epoch_unat[of e] next_epoch_nonzero[of e] by cases simp_all
qed (use receive_state_stays[OF assms(1)] assms(2) in simp_all)

definition session_live :: "session \<Rightarrow> bool" where
  "session_live ses \<longleftrightarrow> state_epoch (sess_state ses) \<noteq> 0"

abbreviation session_cur :: "session \<Rightarrow> nat" where
  "session_cur ses \<equiv> unat (session_epoch ses)"

abbreviation session_keyed :: "session \<Rightarrow> nat" where
  "session_keyed ses \<equiv> state_keyed (sess_state ses)"

abbreviation session_spoken :: "session \<Rightarrow> bool" where
  "session_spoken ses \<equiv> state_spoken (sess_state ses)"

abbreviation session_heard :: "session \<Rightarrow> bool" where
  "session_heard ses \<equiv> state_heard (sess_state ses)"

interpretation braid: key_agreement "braid_scka c" session_live session_cur session_keyed session_spoken session_heard
  for c
proof unfold_locales
  fix s s' :: session
  show "0 < session_cur s \<and> (session_keyed s = session_cur s \<and> session_spoken s \<and> session_heard s
      \<or> Suc (session_keyed s) = session_cur s)" if "session_live s"
    using that by (cases "sess_state s") (auto simp: session_live_def session_epoch_def unat_gt_0)
  show "session_live s' \<and> session_cur s' = session_cur s \<and> (session_heard s' \<longleftrightarrow> session_heard s)
      \<and> Suc (unat (sending_epoch out)) = session_cur s \<and> msg_epoch (out_message out) = sending_epoch out + 1
      \<and> sending_epoch out \<noteq> - 1 \<and> session_keyed s' = session_keyed s + length (sent_keys (Inr out))"
    if "session_live s" "scka_send (braid_scka c) fill s = (Inr out, s')" for fill out
  proof -
    have "send_state c fill (sess_state s) = Inr (sess_state s', out)"
      using that(2) by (auto simp: braid_scka_def elim!: session_send_outcome)
    from send_state_law[OF this] show ?thesis
      using unat_pred[of "state_epoch (sess_state s)"] by (auto simp: session_live_def session_epoch_def)
  qed
  show "session_live s' \<and> (session_spoken s' \<longrightarrow> session_spoken s \<and> session_cur s' = session_cur s)
      \<and> session_keyed s' = session_keyed s + length (received_keys (Inr ro))
      \<and> (session_cur s' = session_cur s \<and> received_key ro = None \<and> Suc (unat (receiving_epoch ro)) = session_cur s
         \<or> session_cur s' = Suc (session_cur s) \<and> session_spoken s \<and> session_heard s \<and> received_key ro \<noteq> None
           \<and> Suc (unat (receiving_epoch ro)) = session_cur s \<and> \<not> session_heard s'
         \<or> session_cur s' = Suc (session_cur s) \<and> session_spoken s \<and> session_heard s \<and> received_key ro = None
           \<and> unat (receiving_epoch ro) = session_cur s)"
    if "session_live s" "scka_receive (braid_scka c) s m = (Inr ro, s')" for m ro
  proof -
    have "receive_state c (sess_state s) m = Inr (sess_state s', ro)"
      using that(2) by (auto simp: braid_scka_def elim!: session_receive_outcome)
    from receive_state_law[OF this] show ?thesis
      using that(1) unat_pred[of "state_epoch (sess_state s)"] next_epoch_unat[of "state_epoch (sess_state s)"]
      by (auto simp: session_live_def session_epoch_def)
  qed
qed

end
