(* ===== verification/Spq_Properties.thy ===== *)
theory Spq_Properties
  imports Spq_Agreement
begin

text \<open>
  What the sparse post-quantum ratchet guarantees over its braid session: bounded state with
  its current chains at hand, keys that both peers derive alike and that are released once,
  and persistence that loses nothing.
\<close>

section \<open>Runs over the braid\<close>

lemma new_in_step:
  assumes "spq_new c (new_braid c secret) role secret = Inr r"
  shows "braid.in_step c secret [] r \<and> spq_role r = role"
proof -
  note N = new_core[OF assms]
  have "session_live (spq_braid r) \<and> session_cur (spq_braid r) = 1 \<and> session_keyed (spq_braid r) = 0"
  proof -
    have "(\<exists>a. spq_braid r = \<lparr>sess_state = KeysUnsampled 1 a\<rparr>) \<or> (\<exists>a d. spq_braid r = \<lparr>sess_state = NoHeaderReceived 1 a d\<rparr>)"
      using N by (cases role) (simp_all add: new_braid_def new_initiator_def new_responder_def result_simps INITIAL_EPOCH_def, metis+)
    then show ?thesis by (auto simp: session_live_def session_epoch_def)
  qed
  then show ?thesis using N unfolding braid.in_step_def by simp
qed

lemma run_in_step:
  assumes "spq_new c (new_braid c secret) role secret = Inr r0" "spq_run c (braid_scka c) r0 r hist"
  shows "braid.in_step c secret hist r \<and> spq_role r = role"
  using braid.run_steps[OF assms(2)] new_in_step[OF assms(1)] by fastforce

text \<open>A run of the ratchet is a run of its session, so the session stays well formed.\<close>

lemma send_key_braid:
  assumes "send_key c ops fill r = (Inr out, r')"
  shows "spq_braid r' = snd (scka_send ops fill (spq_braid r))"
proof -
  obtain so s' where so: "scka_send ops fill (spq_braid r) = (Inr so, s')"
    using assms unfolding send_key_def by (auto simp: result_simps Let_def split: prod.splits)
  obtain r1 r2 where r1: "add_output c (sent_key so) (r\<lparr>spq_braid := s'\<rparr>) = (Inr (), r1)"
      and r2: "advance_sending (sending_epoch so) r1 = (Inr (), r2)"
      and r': "send_on_chain c (out_message so) r2 = (Inr out, r')"
    using assms unfolding send_key_def by (auto simp: so result_simps Let_def)
  have "spq_braid r1 = s'"
    using r1 by (auto simp: add_output_def split: option.splits elim!: add_epoch_InrE)
  moreover have "spq_braid r2 = spq_braid r1"
    using r2 by (auto simp: advance_sending_def split: if_splits option.splits)
  moreover have "spq_braid r' = spq_braid r2" using r' by (auto elim!: send_on_chain_InrE)
  ultimately show ?thesis by (simp add: so)
qed

lemma skip_until_braid: "skip_until c e n r = (Inr u, r') \<Longrightarrow> spq_braid r' = spq_braid r"
  by (auto elim!: skip_until_InrE simp: skipped_to_def same_side_def)

lemma receive_key_braid:
  assumes "receive_key c ops r header = (Inr key, r')"
  shows "spq_braid r' = snd (scka_receive ops (spq_braid r) (hdr_braid_message header))"
proof -
  obtain ro s' where ro: "scka_receive ops (spq_braid r) (hdr_braid_message header) = (Inr ro, s')"
    using assms unfolding receive_key_def by (auto simp: result_simps Let_def split: prod.splits)
  obtain r1 r2 where r1: "add_output c (received_key ro) (r\<lparr>spq_braid := s'\<rparr>) = (Inr (), r1)"
      and r2: "advance_receiving c (receiving_epoch ro) (hdr_previous_chain_length header) r1 = (Inr (), r2)"
      and r': "receive_in_window c (message_epoch header) (hdr_message_number header) r2 = (Inr key, r')"
    using assms unfolding receive_key_def by (auto simp: ro result_simps Let_def message_epoch_def)
  have "spq_braid r1 = s'"
    using r1 by (auto simp: add_output_def split: option.splits elim!: add_epoch_InrE)
  moreover have "spq_braid r2 = spq_braid r1"
    using r2 by (auto simp: advance_receiving_def result_simps split: if_splits dest: skip_until_braid)
  moreover have "spq_braid r' = spq_braid r2"
    using r' by (auto simp: receive_in_window_def receive_on_chain_def result_simps Let_def
        split: option.splits dest: skip_until_braid)
  ultimately show ?thesis by (simp add: ro)
qed

lemma run_session:
  assumes "spq_run c (braid_scka c) r0 r hist"
  shows "session_reach c (spq_braid r0) (spq_braid r)"
  using assms
proof (induction rule: spq_run.induct)
  case (run_send q h fill out q')
  have "session_step c (spq_braid q) (spq_braid q')"
    using send_key_braid[OF run_send(3)] by (intro step_send[OF run_send(2)]) (auto simp: braid_scka_def intro: prod_eqI)
  then show ?case by (rule reach_step[OF run_send(4)])
next
  case (run_receive q h header key q')
  have "session_step c (spq_braid q) (spq_braid q')"
    using receive_key_braid[OF run_receive(3)] by (intro step_receive[OF run_receive(2)]) (auto simp: braid_scka_def intro: prod_eqI)
  then show ?case by (rule reach_step[OF run_receive(4)])
qed (rule reach_refl)

lemma run_session_ok:
  assumes "crypto_sizes c" "spq_new c (new_braid c secret) role secret = Inr r0" "spq_run c (braid_scka c) r0 r hist"
  shows "state_ok c (sess_state (spq_braid r))"
proof -
  have "new_braid c secret role = Inr (spq_braid r0)" using new_core[OF assms(2)] by blast
  then have "state_ok c (sess_state (spq_braid r0))"
    using assms(1) by (cases role) (auto simp: new_braid_def intro: new_initiator_ok new_responder_ok)
  then show ?thesis by (rule session_reach_ok[OF assms(1) run_session[OF assms(3)]])
qed

section \<open>Lengths of keys\<close>

lemma hkdf_length: "crypto_sizes c \<Longrightarrow> hkdf_sha256 c salt ikm info n = Some out \<Longrightarrow> length out = n"
  unfolding crypto_sizes_def by blast

lemma three_keys_length:
  assumes "crypto_sizes c" "derive_three_keys c salt input label = Inr (x, y, z)"
  shows "length x = 32 \<and> length y = 32 \<and> length z = 32"
  using assms(2) hkdf_length[OF assms(1)] by (auto simp: derive_three_keys_def result_simps)

lemma epoch_secrets_length:
  assumes "crypto_sizes c" "epoch_secrets c secret hist = Inr (x, y, z)"
  shows "length x = 32 \<and> length y = 32 \<and> length z = 32"
  using assms(2) three_keys_length[OF assms(1)]
  by (cases hist) (auto simp: derive_initial_chains_def derive_added_epoch_def result_simps split: prod.splits)

lemma epoch_seeds_length:
  assumes "crypto_sizes c" "epoch_seeds c secret role hist e = Inr (a, b)"
  shows "length a = 32 \<and> length b = 32"
  using assms(2) epoch_secrets_length[OF assms(1)]
  by (cases role) (auto simp: epoch_seeds_def chain_of_role_def result_simps)

lemma chain_step_length:
  "crypto_sizes c \<Longrightarrow> derive_chain_step c key n = Inr (x, y) \<Longrightarrow> length x = 32 \<and> length y = 32"
  using hkdf_length[of c] by (fastforce simp: derive_chain_step_def result_simps)

lemma chain_at_length:
  assumes "crypto_sizes c" "length seed = 32" "chain_at c seed n = Inr key"
  shows "length key = 32"
  using assms(2,3) chain_step_length[OF assms(1)] by (cases n) (auto simp: result_simps)

lemma message_key_length:
  "crypto_sizes c \<Longrightarrow> message_key_at c seed n = Inr key \<Longrightarrow> length key = 32"
  using chain_step_length[of c] by (fastforce simp: message_key_at_def result_simps)

lemma core_lengths:
  assumes "crypto_sizes c" "core c secret hist r"
  shows "length (spq_root_key r) = 32"
    and "send_chain_of r e = Some ch \<Longrightarrow> length (chain_key ch) = 32"
    and "receive_chain_of r e = Some ch \<Longrightarrow> length (chain_key ch) = 32"
    and "k \<in> set (spq_skipped r) \<Longrightarrow> length (skipped_message_key k) = 32"
proof -
  show "length (spq_root_key r) = 32"
    using assms(2) epoch_secrets_length[OF assms(1)] unfolding core_def keys_ok_def by (metis surj_pair)
  show "send_chain_of r e = Some ch \<Longrightarrow> length (chain_key ch) = 32"
    using core_seeds(1)[OF assms(2)] epoch_seeds_length[OF assms(1)] chain_at_length[OF assms(1)] by metis
  show "receive_chain_of r e = Some ch \<Longrightarrow> length (chain_key ch) = 32"
    using core_seeds(2)[OF assms(2)] epoch_seeds_length[OF assms(1)] chain_at_length[OF assms(1)] by metis
  show "k \<in> set (spq_skipped r) \<Longrightarrow> length (skipped_message_key k) = 32"
    using assms(2) message_key_length[OF assms(1)] unfolding core_def keys_ok_def by blast
qed

section \<open>Persistence\<close>

text \<open>What the ratchet relies on of its base64 engine and of the JSON library.\<close>

definition codec_ok :: "spq_codec \<Rightarrow> bool" where
  "codec_ok cd \<longleftrightarrow> (\<forall>b. length (b64_encode cd b) = (length b * 8 + 5) div 6 \<and> b64_decode cd (b64_encode cd b) = Some b)
     \<and> (\<forall>x b. spq_json_encode cd x = Some b \<longrightarrow> spq_json_decode cd b = Some x)
     \<and> (\<forall>x b. braid_json_encode cd x = Some b \<longrightarrow> braid_json_decode cd b = Some x)"

lemma restore_persisted_session:
  assumes "codec_ok cd" "state_ok c (sess_state ses)" "persist (braid_json_encode cd) ses = Inr b"
    "length b \<le> MAX_PERSISTED_SESSION_BYTES"
  shows "restore (braid_json_decode cd) c b = Inr ses"
proof -
  have "braid_json_decode cd b = Some (PERSISTENCE_REVISION, forget_caches (sess_state ses))"
    using assms(1,3) by (auto simp: codec_ok_def persist_def result_simps)
  then show ?thesis using assms(2,4) by (simp add: restore_def validate_forget_caches)
qed

lemma decode_encode_key: "codec_ok cd \<Longrightarrow> length key = 32 \<Longrightarrow> decode_key cd (b64_encode cd key) = Inr key"
  by (simp add: codec_ok_def decode_key_def SPQR_KEY_BASE64URL_BYTES_def SPQR_KEY_BYTES_def)

lemma restore_persist_chain:
  "codec_ok cd \<Longrightarrow> length (chain_key ch) = 32 \<Longrightarrow> restore_kdf_chain cd (persist_kdf_chain (b64_encode cd) ch) = Inr ch"
  by (simp add: restore_kdf_chain_def persist_kdf_chain_def decode_encode_key)

lemma bt_insert_last: "\<forall>k'\<in>fst ` set m. k' < k \<Longrightarrow> bt_insert k v m = m @ [(k, v)]"
  by (induction m) (auto simp: not_less_iff_gr_or_eq)

lemma restore_chains:
  assumes "codec_ok cd" "bt_wf (acc @ m)"
    and "\<And>e cs. (e, cs) \<in> set m \<Longrightarrow> oldest_epoch epoch \<le> e \<and> e \<le> epoch
      \<and> (\<forall>ch. send_chain cs = Some ch \<longrightarrow> length (chain_key ch) = 32)
      \<and> (\<forall>ch. receive_chain cs = Some ch \<longrightarrow> length (chain_key ch) = 32)"
  shows "run_all (restore_chain cd epoch) acc (map (\<lambda>(e, cs). \<lparr>pec_epoch = e,
         pec_send = map_option (persist_kdf_chain (b64_encode cd)) (send_chain cs),
         pec_receive = map_option (persist_kdf_chain (b64_encode cd)) (receive_chain cs)\<rparr>) m) = Inr (acc @ m)"
  using assms(2,3)
proof (induction m arbitrary: acc)
  case (Cons p m)
  obtain e cs where p: "p = (e, cs)" by (cases p)
  have W: "oldest_epoch epoch \<le> e" "e \<le> epoch" "\<forall>ch. send_chain cs = Some ch \<longrightarrow> length (chain_key ch) = 32"
      "\<forall>ch. receive_chain cs = Some ch \<longrightarrow> length (chain_key ch) = 32"
    using Cons.prems(2)[of e cs] p by auto
  have tr: "transpose_option (map_option (restore_kdf_chain cd) (map_option (persist_kdf_chain (b64_encode cd)) x)) = Inr x"
    if "\<forall>ch. x = Some ch \<longrightarrow> length (chain_key ch) = 32" for x
    using that restore_persist_chain[OF assms(1)] by (cases x) (simp_all add: transpose_option_def)
  have lt: "\<forall>k'\<in>fst ` set acc. k' < e" using Cons.prems(1) p by (auto simp: bt_wf_def sorted_wrt_append)
  then have "map_of acc e = None" by (force simp: map_of_eq_None_iff)
  moreover have "bt_insert e cs acc = acc @ [(e, cs)]" by (rule bt_insert_last[OF lt])
  ultimately have "restore_chain cd epoch acc \<lparr>pec_epoch = e, pec_send = map_option (persist_kdf_chain (b64_encode cd)) (send_chain cs),
         pec_receive = map_option (persist_kdf_chain (b64_encode cd)) (receive_chain cs)\<rparr> = Inr (acc @ [(e, cs)])"
    using W tr[OF W(3)] tr[OF W(4)] by (cases cs) (simp add: restore_chain_def)
  moreover have "bt_wf ((acc @ [p]) @ m)" using Cons.prems(1) by simp
  from Cons.IH[OF this Cons.prems(2)] have "run_all (restore_chain cd epoch) (acc @ [p]) (map (\<lambda>(e, cs). \<lparr>pec_epoch = e,
         pec_send = map_option (persist_kdf_chain (b64_encode cd)) (send_chain cs),
         pec_receive = map_option (persist_kdf_chain (b64_encode cd)) (receive_chain cs)\<rparr>) m) = Inr (acc @ p # m)"
    by simp
  ultimately show ?case by (simp add: p)
qed simp

lemma restore_skipped_keys:
  assumes "codec_ok cd" "\<And>k. k \<in> set ks \<Longrightarrow> oldest_epoch epoch \<le> skipped_epoch k \<and> skipped_epoch k \<le> epoch
      \<and> skipped_number k \<noteq> 0 \<and> length (skipped_message_key k) = 32"
  shows "run_all (restore_skipped cd epoch) acc (map (\<lambda>k. \<lparr>psk_epoch = skipped_epoch k, psk_number = skipped_number k,
         psk_key = b64_encode cd (skipped_message_key k)\<rparr>) ks) = Inr (acc @ ks)"
  using assms(2)
proof (induction ks arbitrary: acc)
  case (Cons k ks)
  have "restore_skipped cd epoch acc \<lparr>psk_epoch = skipped_epoch k, psk_number = skipped_number k,
         psk_key = b64_encode cd (skipped_message_key k)\<rparr> = Inr (acc @ [k])"
    using Cons.prems[of k] decode_encode_key[OF assms(1)] by (simp add: restore_skipped_def word_gt_0)
  moreover have "run_all (restore_skipped cd epoch) (acc @ [k]) (map (\<lambda>k. \<lparr>psk_epoch = skipped_epoch k,
         psk_number = skipped_number k, psk_key = b64_encode cd (skipped_message_key k)\<rparr>) ks) = Inr (acc @ k # ks)"
    using Cons.IH[of "acc @ [k]"] Cons.prems by simp
  ultimately show ?case by simp
qed simp

lemma core_two_chains:
  assumes "core c secret hist r"
  shows "length (spq_chains r) \<le> 2"
proof -
  have C: "bt_wf (spq_chains r)"
    and win: "\<And>e. present r e \<longleftrightarrow> unat e \<le> unat (spq_epoch r) \<and> unat (spq_epoch r) \<le> Suc (unat e)"
    using assms unfolding core_def chains_ok_def by blast+
  have "fst ` set (spq_chains r) \<subseteq> {spq_epoch r, spq_epoch r - 1}"
  proof
    fix e assume "e \<in> fst ` set (spq_chains r)"
    then have "present r e" by (auto simp: present_def map_of_eq_None_iff)
    then have "unat e = unat (spq_epoch r) \<or> unat (spq_epoch r) = Suc (unat e)" using win by (metis le_SucE le_antisym)
    then show "e \<in> {spq_epoch r, spq_epoch r - 1}"
      using follows_iff[of "spq_epoch r" e] by (auto simp: word_unat_eq_iff follows_def)
  qed
  then have "card (fst ` set (spq_chains r)) \<le> card {spq_epoch r, spq_epoch r - 1}" by (intro card_mono) auto
  also have "\<dots> \<le> 2" by (simp add: card_insert_if)
  finally show ?thesis using bt_wf_distinct[OF C] by (metis distinct_card length_map list.set_map)
qed

lemma spq_restore_persist:
  assumes "codec_ok cd" "crypto_sizes c" "braid.in_step c secret hist r" "state_ok c (sess_state (spq_braid r))"
    and "persist (braid_json_encode cd) (spq_braid r) = Inr b" "length b \<le> MAX_PERSISTED_SESSION_BYTES"
    and "spq_persist cd r = Inr encoded" "length encoded \<le> SPQR_MAX_PERSISTED_STATE_BYTES"
  shows "spq_restore cd c encoded = Inr r"
proof -
  note I = assms(3)[unfolded braid.in_step_def]
  have core: "core c secret hist r" using I by blast
  note len = core_lengths[OF assms(2) core]
  let ?chains = "map (\<lambda>(e, cs). \<lparr>pec_epoch = e, pec_send = map_option (persist_kdf_chain (b64_encode cd)) (send_chain cs),
         pec_receive = map_option (persist_kdf_chain (b64_encode cd)) (receive_chain cs)\<rparr>) (spq_chains r)"
  let ?skipped = "map (\<lambda>k. \<lparr>psk_epoch = skipped_epoch k, psk_number = skipped_number k,
         psk_key = b64_encode cd (skipped_message_key k)\<rparr>) (spq_skipped r)"
  have dec: "spq_json_decode cd encoded = Some (persisted_form (b64_encode cd) r b)"
    using assms(1,5,7) by (auto simp: spq_persist_def codec_ok_def result_simps)
  have form: "persisted_form (b64_encode cd) r b = \<lparr>ps_revision = SPQR_PERSISTENCE_REVISION, ps_role = spq_role_as_str (spq_role r),
       ps_root_key = b64_encode cd (spq_root_key r), ps_epoch = spq_epoch r,
       ps_sending_epoch = spq_sending_epoch r, ps_receiving_epoch = spq_receiving_epoch r,
       ps_previous_length = spq_previous_length r, ps_chains = ?chains, ps_skipped = ?skipped,
       ps_braid = b64_encode cd b\<rparr>"
    by (simp add: persisted_form_def)
  have C: "bt_wf (spq_chains r)" "spq_sending_epoch r \<le> spq_epoch r" "spq_receiving_epoch r \<le> spq_epoch r"
    and win: "\<And>e. present r e \<longleftrightarrow> unat e \<le> unat (spq_epoch r) \<and> unat (spq_epoch r) \<le> Suc (unat e)"
    and snd: "\<And>e. send_chain_of r e \<noteq> None \<longleftrightarrow> present r e \<and> spq_sending_epoch r \<le> e"
    and rcv: "\<And>e. receive_chain_of r e \<noteq> None \<longleftrightarrow> present r e \<and> spq_receiving_epoch r \<le> e"
    using core unfolding core_def chains_ok_def by blast+
  have mem: "map_of (spq_chains r) e = Some cs" if "(e, cs) \<in> set (spq_chains r)" for e cs
    using bt_mem[OF C(1)] that by blast
  have "run_all (restore_chain cd (spq_epoch r)) [] ?chains = Inr ([] @ spq_chains r)"
  proof (rule restore_chains[OF assms(1)])
    fix e cs assume m: "(e, cs) \<in> set (spq_chains r)"
    then have "present r e" using mem by (simp add: present_def)
    then have "oldest_epoch (spq_epoch r) \<le> e \<and> e \<le> spq_epoch r" using win oldest_epoch_le word_le_nat_alt by metis
    then show "oldest_epoch (spq_epoch r) \<le> e \<and> e \<le> spq_epoch r
        \<and> (\<forall>ch. send_chain cs = Some ch \<longrightarrow> length (chain_key ch) = 32)
        \<and> (\<forall>ch. receive_chain cs = Some ch \<longrightarrow> length (chain_key ch) = 32)"
      using mem[OF m] len(2,3)[of e] by (simp add: send_chain_of_def receive_chain_of_def)
  qed (simp add: C(1))
  moreover have "run_all (restore_skipped cd (spq_epoch r)) [] ?skipped = Inr ([] @ spq_skipped r)"
  proof (rule restore_skipped_keys[OF assms(1)])
    fix k assume k: "k \<in> set (spq_skipped r)"
    then have "present r (skipped_epoch k)" "skipped_number k \<noteq> 0"
      using core unfolding core_def skipped_ok_def by blast+
    then show "oldest_epoch (spq_epoch r) \<le> skipped_epoch k \<and> skipped_epoch k \<le> spq_epoch r
      \<and> skipped_number k \<noteq> 0 \<and> length (skipped_message_key k) = 32"
      using len(4)[OF k] win oldest_epoch_le word_le_nat_alt by metis
  qed
  moreover have "length (spq_chains r) \<le> 2" by (rule core_two_chains[OF core])
  moreover have "length (spq_skipped r) \<le> SPQR_MAX_SKIPPED_KEYS" using core unfolding core_def skipped_ok_def by blast
  moreover have "Option.bind (map_of (spq_chains r) (spq_sending_epoch r)) send_chain \<noteq> None"
    "Option.bind (map_of (spq_chains r) (spq_receiving_epoch r)) receive_chain \<noteq> None"
    using braid.in_step_window(4,5)[OF assms(3)] by (simp_all add: send_chain_of_def receive_chain_of_def)
  moreover have "restore (braid_json_decode cd) c b = Inr (spq_braid r)"
    by (rule restore_persisted_session[OF assms(1,4,5,6)])
  moreover have "session_epoch (spq_braid r) = spq_epoch r \<or> follows (session_epoch (spq_braid r)) (spq_epoch r)"
    using braid.in_step_window(3)[OF assms(3)] by (auto simp: follows_iff word_unat_eq_iff)
  moreover have "length (b64_encode cd b) \<le> SPQR_MAX_ENCODED_BRAID_BYTES" "b64_decode cd (b64_encode cd b) = Some b"
    using assms(1,6) by (auto simp: codec_ok_def SPQR_MAX_ENCODED_BRAID_BYTES_def MAX_PERSISTED_SESSION_BYTES_def)
  moreover have "spq_role_from_str (spq_role_as_str (spq_role r)) = Inr (spq_role r)"
    by (cases "spq_role r") (simp_all add: spq_role_from_str_def ascii_def)
  moreover have "decode_key cd (b64_encode cd (spq_root_key r)) = Inr (spq_root_key r)"
    by (rule decode_encode_key[OF assms(1) len(1)])
  ultimately show ?thesis
    using assms(8) C(2,3) by (simp add: spq_restore_def dec form)
qed

section \<open>Samples\<close>

text \<open>
  Two ratchets over the sample primitives; the responder starts with two messages that carry
  no chunk, which the initiator receives in the opposite order.
\<close>

definition sample_secret :: bytes where
  "sample_secret = replicate 32 9"

definition sample_alice :: "session spq_ratchet" where
  "sample_alice = projr (spq_new sample_crypto (new_braid sample_crypto sample_secret) SpqInitiator sample_secret)"

definition sample_bob :: "session spq_ratchet" where
  "sample_bob = projr (spq_new sample_crypto (new_braid sample_crypto sample_secret) SpqResponder sample_secret)"

definition sample_sending :: "session spq_ratchet \<Rightarrow> spq_send spq_result \<times> session spq_ratchet" where
  "sample_sending = send_key sample_crypto (braid_scka sample_crypto) (\<lambda>n. replicate n 7)"

definition sample_bob1 :: "session spq_ratchet" where "sample_bob1 = snd (sample_sending sample_bob)"
definition sample_bob2 :: "session spq_ratchet" where "sample_bob2 = snd (sample_sending sample_bob1)"
definition sample_sent1 :: spq_send where "sample_sent1 = projr (fst (sample_sending sample_bob))"
definition sample_sent2 :: spq_send where "sample_sent2 = projr (fst (sample_sending sample_bob1))"

definition sample_receiving :: "session spq_ratchet \<Rightarrow> spq_header \<Rightarrow> bytes spq_result \<times> session spq_ratchet" where
  "sample_receiving = receive_key sample_crypto (braid_scka sample_crypto)"

definition sample_alice1 :: "session spq_ratchet" where
  "sample_alice1 = snd (sample_receiving sample_alice (sent_header sample_sent2))"

lemma is_ok_pair: "is_ok (fst p) \<Longrightarrow> p = (Inr (projr (fst p)), snd p)"
  by (cases p; cases "fst p") auto

lemma sample_new:
  "spq_new sample_crypto (new_braid sample_crypto sample_secret) SpqInitiator sample_secret = Inr sample_alice"
  "spq_new sample_crypto (new_braid sample_crypto sample_secret) SpqResponder sample_secret = Inr sample_bob"
  by code_simp+

lemma sample_sends:
  "send_key sample_crypto (braid_scka sample_crypto) (\<lambda>n. replicate n 7) sample_bob = (Inr sample_sent1, sample_bob1)"
  "send_key sample_crypto (braid_scka sample_crypto) (\<lambda>n. replicate n 7) sample_bob1 = (Inr sample_sent2, sample_bob2)"
proof -
  have "is_ok (fst (sample_sending sample_bob))" "is_ok (fst (sample_sending sample_bob1))" by code_simp+
  from this[THEN is_ok_pair]
  show "send_key sample_crypto (braid_scka sample_crypto) (\<lambda>n. replicate n 7) sample_bob = (Inr sample_sent1, sample_bob1)"
    "send_key sample_crypto (braid_scka sample_crypto) (\<lambda>n. replicate n 7) sample_bob1 = (Inr sample_sent2, sample_bob2)"
    by (simp_all add: sample_sent1_def sample_sent2_def sample_bob1_def sample_bob2_def sample_sending_def)
qed

lemma sample_receives:
  "\<exists>key. receive_key sample_crypto (braid_scka sample_crypto) sample_alice (sent_header sample_sent2) = (Inr key, sample_alice1)"
  "\<exists>key r. receive_key sample_crypto (braid_scka sample_crypto) sample_alice1 (sent_header sample_sent1) = (Inr key, r)"
proof -
  have "is_ok (fst (sample_receiving sample_alice (sent_header sample_sent2)))"
    "is_ok (fst (sample_receiving sample_alice1 (sent_header sample_sent1)))" by code_simp+
  from this[THEN is_ok_pair]
  show "\<exists>key. receive_key sample_crypto (braid_scka sample_crypto) sample_alice (sent_header sample_sent2) = (Inr key, sample_alice1)"
    "\<exists>key r. receive_key sample_crypto (braid_scka sample_crypto) sample_alice1 (sent_header sample_sent1) = (Inr key, r)"
    unfolding sample_alice1_def sample_receiving_def by blast+
qed

lemma sample_runs:
  "\<exists>hist. spq_run sample_crypto (braid_scka sample_crypto) sample_bob sample_bob2 hist"
  "\<exists>hist. spq_run sample_crypto (braid_scka sample_crypto) sample_bob sample_bob1 hist"
proof -
  note one = run_send[OF run_start length_replicate sample_sends(1)]
  show "\<exists>hist. spq_run sample_crypto (braid_scka sample_crypto) sample_bob sample_bob2 hist"
    using run_send[OF one length_replicate sample_sends(2)] by blast
  show "\<exists>hist. spq_run sample_crypto (braid_scka sample_crypto) sample_bob sample_bob1 hist"
    using one by blast
qed

section \<open>Properties\<close>

text \<open>
  C6: whatever a ratchet sends and receives, genuine or forged, it stays within its bounds and
  never loses its current chains: at most two epochs of chains, at most 32 skipped keys, no two for
  the same message, the sending and receiving epoch at most one behind the last key epoch,
  which counts the keys the braid session has output, and both current chains present, so that
  the state it persists passes every check of a restore.
\<close>

theorem ratchet_within_bounds:
  assumes "spq_new c (new_braid c secret) role secret = Inr r0" and "spq_run c (braid_scka c) r0 r hist"
  shows "length hist = unat (spq_epoch r) \<and> length (spq_chains r) \<le> 2 \<and> length (spq_skipped r) \<le> SPQR_MAX_SKIPPED_KEYS
    \<and> distinct (map skipped_id (spq_skipped r))
    \<and> spq_sending_epoch r \<le> spq_epoch r \<and> unat (spq_epoch r) \<le> Suc (unat (spq_sending_epoch r))
    \<and> spq_receiving_epoch r \<le> spq_epoch r \<and> unat (spq_epoch r) \<le> Suc (unat (spq_receiving_epoch r))
    \<and> send_chain_of r (spq_sending_epoch r) \<noteq> None \<and> receive_chain_of r (spq_receiving_epoch r) \<noteq> None"
proof -
  have I: "braid.in_step c secret hist r" using run_in_step[OF assms] by blast
  then have "core c secret hist r" unfolding braid.in_step_def by blast
  then show ?thesis
    using braid.in_step_window[OF I] core_two_chains[of c secret hist r]
    unfolding core_def chains_ok_def skipped_ok_def keys_ok_def by blast
qed

theorem ratchet_within_bounds_witness:
  "\<exists>r hist. spq_run sample_crypto (braid_scka sample_crypto) sample_bob r hist \<and> length (spq_chains r) \<le> 2
    \<and> send_chain_of r (spq_sending_epoch r) \<noteq> None"
proof -
  obtain hist where run: "spq_run sample_crypto (braid_scka sample_crypto) sample_bob sample_bob2 hist"
    using sample_runs by blast
  then show ?thesis using ratchet_within_bounds[OF sample_new(2) run] by blast
qed

text \<open>
  C8: every message key is used once. After a key was released for a message, no later receive
  releases a key for the same epoch and number, and after a message was sent, no later message
  carries its epoch and number again.
\<close>

theorem keys_used_once:
  assumes "spq_new c (new_braid c secret) role secret = Inr r0" and "spq_run c (braid_scka c) r0 r hist"
    and "receive_key c (braid_scka c) r h = (Inr key, r1) \<and> receive_key c (braid_scka c) r2 h' = (Inr key', r3)
     \<or> send_key c (braid_scka c) fill r = (Inr out, r1) \<and> send_key c (braid_scka c) fill' r2 = (Inr out', r3)
      \<and> h = sent_header out \<and> h' = sent_header out'"
    and "spq_run c (braid_scka c) r1 r2 hist'"
  shows "(message_epoch h, hdr_message_number h) \<noteq> (message_epoch h', hdr_message_number h')"
proof -
  have R: "braid.in_step c secret hist r" using run_in_step[OF assms(1,2)] by blast
  from assms(3) show ?thesis
  proof (elim disjE conjE)
    assume s: "receive_key c (braid_scka c) r h = (Inr key, r1)" "receive_key c (braid_scka c) r2 h' = (Inr key', r3)"
    obtain k where I1: "braid.in_step c secret k r1" and u: "spent r1 (message_epoch h) (hdr_message_number h)"
      using braid.receive_step[OF R s(1)] by (auto simp: Let_def)
    have I2: "braid.in_step c secret (hist' @ k) r2" and "uses_up r1 r2"
      using braid.run_steps[OF assms(4) I1] by auto
    then have "spent r2 (message_epoch h) (hdr_message_number h)" using u unfolding uses_up_def by blast
    moreover have "\<not> spent r2 (message_epoch h') (hdr_message_number h')"
      using braid.receive_step[OF I2 s(2)] by (auto simp: Let_def)
    ultimately show ?thesis by auto
  next
    assume s: "send_key c (braid_scka c) fill r = (Inr out, r1)" "send_key c (braid_scka c) fill' r2 = (Inr out', r3)"
      and h: "h = sent_header out" "h' = sent_header out'"
    obtain k where I1: "braid.in_step c secret k r1" and u: "sent r1 (message_epoch h) (hdr_message_number h)"
      using braid.send_step[OF R s(1)] h by (auto simp: Let_def)
    have I2: "braid.in_step c secret (hist' @ k) r2" and "uses_up r1 r2"
      using braid.run_steps[OF assms(4) I1] by auto
    then have "sent r2 (message_epoch h) (hdr_message_number h)" using u unfolding uses_up_def by blast
    moreover have "\<not> sent r2 (message_epoch h') (hdr_message_number h')"
      using braid.send_step[OF I2 s(2)] h by (auto simp: Let_def)
    ultimately show ?thesis by auto
  qed
qed

theorem keys_used_once_witness:
  "message_epoch (sent_header sample_sent1) = message_epoch (sent_header sample_sent2)
    \<and> hdr_message_number (sent_header sample_sent1) \<noteq> hdr_message_number (sent_header sample_sent2)"
proof -
  have "(message_epoch (sent_header sample_sent1), hdr_message_number (sent_header sample_sent1))
      \<noteq> (message_epoch (sent_header sample_sent2), hdr_message_number (sent_header sample_sent2))"
    by (rule keys_used_once[OF sample_new(2) run_start _ run_start[of _ _ sample_bob1]]) (use sample_sends in blast)
  moreover have "message_epoch (sent_header sample_sent1) = message_epoch (sent_header sample_sent2)" by code_simp
  ultimately show ?thesis by simp
qed

text \<open>
  C9: a ratchet restored from what it persisted is the ratchet itself, its chains, skipped keys
  and braid session included, whenever base64 and JSON read back what they wrote and the bytes
  are within the limits of the restore.
\<close>

theorem ratchet_restores_itself:
  assumes "crypto_sizes c" and "codec_ok cd"
    and "spq_new c (new_braid c secret) role secret = Inr r0" and "spq_run c (braid_scka c) r0 r hist"
    and "persist (braid_json_encode cd) (spq_braid r) = Inr b" and "length b \<le> MAX_PERSISTED_SESSION_BYTES"
    and "spq_persist cd r = Inr encoded" and "length encoded \<le> SPQR_MAX_PERSISTED_STATE_BYTES"
  shows "spq_restore cd c encoded = Inr r"
  using spq_restore_persist[OF assms(2,1) _ run_session_ok[OF assms(1,3,4)] assms(5-8)] run_in_step[OF assms(3,4)] by blast

text \<open>A base64 engine of the right lengths, and a JSON library that knows one value each.\<close>

definition sample_b64 :: "bytes \<Rightarrow> bytes" where
  "sample_b64 b = b @ replicate ((length b * 8 + 5) div 6 - length b) 0"

definition sample_codec :: "session spq_ratchet \<Rightarrow> spq_codec" where
  "sample_codec r =
     (let ses = (PERSISTENCE_REVISION, forget_caches (sess_state (spq_braid r)));
          form = persisted_form sample_b64 r [1] in
      \<lparr>b64_encode = sample_b64, b64_decode = (\<lambda>x. Some (take (length x * 6 div 8) x)),
       spq_json_encode = (\<lambda>x. if x = form then Some [2] else None),
       spq_json_decode = (\<lambda>b. if b = [2] then Some form else None),
       braid_json_encode = (\<lambda>x. if x = ses then Some [1] else None),
       braid_json_decode = (\<lambda>b. if b = [1] then Some ses else None)\<rparr>)"

lemma sample_codec_ok: "codec_ok (sample_codec r)"
proof -
  have "length (sample_b64 b) = (length b * 8 + 5) div 6" for b by (simp add: sample_b64_def)
  moreover have "take ((length b * 8 + 5) div 6 * 6 div 8) (sample_b64 b) = b" for b
  proof -
    have "(length b * 8 + 5) div 6 * 6 div 8 = length b" by presburger
    then show ?thesis by (simp add: sample_b64_def)
  qed
  ultimately show ?thesis by (auto simp: codec_ok_def sample_codec_def Let_def split: if_splits)
qed

theorem ratchet_restores_itself_witness:
  "spq_persist (sample_codec sample_bob2) sample_bob2 = Inr [2]
    \<and> spq_restore (sample_codec sample_bob2) sample_crypto [2] = Inr sample_bob2"
proof -
  obtain hist where run: "spq_run sample_crypto (braid_scka sample_crypto) sample_bob sample_bob2 hist"
    using sample_runs by blast
  have b: "persist (braid_json_encode (sample_codec sample_bob2)) (spq_braid sample_bob2) = Inr [1]"
    by (simp add: persist_def sample_codec_def Let_def)
  have p: "spq_persist (sample_codec sample_bob2) sample_bob2 = Inr [2]"
    by (simp add: spq_persist_def b) (simp add: sample_codec_def Let_def)
  show ?thesis
    using ratchet_restores_itself[OF sample_crypto_sizes sample_codec_ok sample_new(2) run b _ p] p
    by (simp add: MAX_PERSISTED_SESSION_BYTES_def SPQR_MAX_PERSISTED_STATE_BYTES_def)
qed

section \<open>The end of the first epoch\<close>

text \<open>
  The previous chain length a header carries belongs to the epoch before the one it is sent
  in. While a ratchet sends in epoch 0 it is 0.
\<close>

lemma previous_length_sent:
  assumes "send_key c ops fill r = (Inr out, r')" "spq_sending_epoch r = 0 \<Longrightarrow> spq_previous_length r = 0"
  shows "(spq_sending_epoch r' = 0 \<longrightarrow> spq_previous_length r' = 0)
    \<and> hdr_previous_chain_length (sent_header out) = spq_previous_length r'"
proof -
  obtain so s' where so: "scka_send ops fill (spq_braid r) = (Inr so, s')"
    using assms(1) unfolding send_key_def by (auto simp: result_simps Let_def split: prod.splits)
  obtain r1 r2 where r1: "add_output c (sent_key so) (r\<lparr>spq_braid := s'\<rparr>) = (Inr (), r1)"
      and r2: "advance_sending (sending_epoch so) r1 = (Inr (), r2)"
      and r': "send_on_chain c (out_message so) r2 = (Inr out, r')"
    using assms(1) unfolding send_key_def by (auto simp: so result_simps Let_def)
  have "spq_sending_epoch r1 = spq_sending_epoch r" "spq_previous_length r1 = spq_previous_length r"
    using r1 by (auto simp: add_output_def split: option.splits elim!: add_epoch_InrE)
  then have "spq_sending_epoch r2 = 0 \<longrightarrow> spq_previous_length r2 = 0"
    using r2 assms(2) by (auto simp: advance_sending_def split: if_splits option.splits)
  then show ?thesis using r' by (auto elim!: send_on_chain_InrE)
qed

lemma previous_length_received:
  assumes "receive_key c ops r header = (Inr key, r')"
  shows "spq_sending_epoch r' = spq_sending_epoch r \<and> spq_previous_length r' = spq_previous_length r"
proof -
  have skip: "spq_sending_epoch y = spq_sending_epoch x \<and> spq_previous_length y = spq_previous_length x"
    if "skip_until c e n x = (Inr u, y)" for e n x u and y :: "'a spq_ratchet"
    using that by (auto elim!: skip_until_InrE simp: skipped_to_def same_side_def)
  obtain ro s' where ro: "scka_receive ops (spq_braid r) (hdr_braid_message header) = (Inr ro, s')"
    using assms unfolding receive_key_def by (auto simp: result_simps Let_def split: prod.splits)
  obtain r1 r2 where r1: "add_output c (received_key ro) (r\<lparr>spq_braid := s'\<rparr>) = (Inr (), r1)"
      and r2: "advance_receiving c (receiving_epoch ro) (hdr_previous_chain_length header) r1 = (Inr (), r2)"
      and r': "receive_in_window c (message_epoch header) (hdr_message_number header) r2 = (Inr key, r')"
    using assms unfolding receive_key_def by (auto simp: ro result_simps Let_def message_epoch_def)
  have "spq_sending_epoch r1 = spq_sending_epoch r" "spq_previous_length r1 = spq_previous_length r"
    using r1 by (auto simp: add_output_def split: option.splits elim!: add_epoch_InrE)
  moreover have "spq_sending_epoch r2 = spq_sending_epoch r1 \<and> spq_previous_length r2 = spq_previous_length r1"
    using r2 by (auto simp: advance_receiving_def result_simps split: if_splits dest: skip)
  moreover have "spq_sending_epoch r' = spq_sending_epoch r2 \<and> spq_previous_length r' = spq_previous_length r2"
    using r' by (auto simp: receive_in_window_def receive_on_chain_def result_simps Let_def split: option.splits dest: skip)
  ultimately show ?thesis by simp
qed

lemma run_previous_length:
  assumes "spq_new c new_session role secret = Inr r0" "spq_run c ops r0 r hist"
  shows "spq_sending_epoch r = 0 \<longrightarrow> spq_previous_length r = 0"
  using assms(2)
proof (induction rule: spq_run.induct)
  case run_start
  show ?case using assms(1) by (auto simp: spq_new_def result_simps)
next
  case (run_send q h fill out q')
  then show ?case using previous_length_sent[OF run_send(3)] by blast
next
  case (run_receive q h header key q')
  then show ?case using previous_length_received[OF run_receive(3)] by simp
qed

text \<open>
  C10: a defect at the end of the first epoch. A ratchet has decapsulated the key of epoch 1 and has
  received nothing since: its session waits for a header in epoch 2, its receiving epoch is
  still 0. From then on it refuses every message its peer sends in epoch 0, the next one in
  order included, because it takes the previous chain length of the header for the length of
  the chain of epoch 0, which the header does not carry.
\<close>

theorem end_of_epoch_refuses_messages:
  assumes "spq_new c (new_braid c secret) role secret = Inr a0" and "spq_run c (braid_scka c) a0 a hist"
    and "send_key c (braid_scka c) fill a = (Inr out, a')" and "message_epoch (sent_header out) = 0"
    and "core c secret hist' b" and "sess_state (spq_braid b) = NoHeaderReceived 2 auth dec" and "spq_receiving_epoch b = 0"
  shows "\<not> is_ok (fst (receive_key c (braid_scka c) b (sent_header out)))"
proof
  let ?h = "sent_header out"
  assume "is_ok (fst (receive_key c (braid_scka c) b ?h))"
  then obtain key b' where r: "receive_key c (braid_scka c) b ?h = (Inr key, b')"
    by (auto simp: is_ok_iff) (metis prod.collapse)
  have A: "braid.in_step c secret hist a" using run_in_step[OF assms(1,2)] by blast
  have "spq_sending_epoch a' = 0" using braid.send_step[OF A assms(3)] assms(4) by (auto simp: Let_def)
  then have prev: "hdr_previous_chain_length ?h = 0"
    using previous_length_sent[OF assms(3)] run_previous_length[OF assms(1,2)] by simp
  obtain ro s' where ro: "scka_receive (braid_scka c) (spq_braid b) (hdr_braid_message ?h) = (Inr ro, s')"
    using r unfolding receive_key_def by (auto simp: result_simps Let_def split: prod.splits)
  then have "receive_state c (NoHeaderReceived 2 auth dec) (hdr_braid_message ?h) = Inr (sess_state s', ro)"
    using assms(6) by (auto simp: braid_scka_def elim!: session_receive_outcome)
  from receive_state_stays[OF this] have law: "received_key ro = None" "receiving_epoch ro = 1" by simp_all
  obtain r1 r2 where r1: "add_output c (received_key ro) (b\<lparr>spq_braid := s'\<rparr>) = (Inr (), r1)"
      and r2: "advance_receiving c (receiving_epoch ro) (hdr_previous_chain_length ?h) r1 = (Inr (), r2)"
      and r': "receive_in_window c (message_epoch ?h) (hdr_message_number ?h) r2 = (Inr key, b')"
    using r unfolding receive_key_def by (auto simp: ro result_simps Let_def message_epoch_def)
  have r1': "r1 = b\<lparr>spq_braid := s'\<rparr>" using r1 law(1) by (simp add: add_output_def)
  have "spq_receiving_epoch r1 < receiving_epoch ro" using law(2) assms(7) by (simp add: r1' word_less_nat_alt)
  then obtain q where q: "skip_until c (spq_receiving_epoch r1) 0 r1 = (Inr (), q)"
      "r2 = (put_receive_chain (spq_receiving_epoch q) None q)\<lparr>spq_receiving_epoch := receiving_epoch ro\<rparr>"
    using r2 prev unfolding advance_receiving_def by (auto simp: result_simps)
  have "core c secret hist' r1" using assms(5) by (simp add: r1')
  note S = skip_until_core[OF this q(1) refl]
  have q0: "skipped_ok q" "spq_receiving_epoch q = 0"
    using S assms(7) by (simp_all add: core_def same_side_def r1')
  obtain ch where "receive_chain_of q 0 = Some ch" "chain_counter ch = 0" using S assms(7) by (auto simp: r1')
  then have none: "skipped_epoch k \<noteq> 0" if "k \<in> set (spq_skipped q)" for k
    using q0(1) that unfolding skipped_ok_def by force
  have "take_skipped 0 (hdr_message_number ?h) (spq_skipped r2) = None"
    unfolding take_skipped_None q(2) using none by (auto simp: skipped_id_def unsigned_eq_0_iff)
  moreover have "receiving_epoch ro \<noteq> 0" using law(2) by simp
  ultimately show False
    using r' assms(4) by (simp add: receive_in_window_def q(2) result_simps)
qed

text \<open>The initiator of the sample, with the first key added and its session in epoch 2.\<close>

definition sample_late :: "session spq_ratchet" where
  "sample_late = (snd (add_epoch sample_crypto \<lparr>key_epoch = 1, key_bytes = replicate 32 5\<rparr> sample_alice))
     \<lparr>spq_braid := \<lparr>sess_state = NoHeaderReceived 2 \<lparr>root_key = [], mac_key = []\<rparr>
        \<lparr>dec_message_bytes = 96, dec_chunks = [], dec_decoded = None\<rparr>\<rparr>\<rparr>"

theorem end_of_epoch_refuses_messages_witness:
  "sample_sending sample_bob = (Inr sample_sent1, sample_bob1)
    \<and> \<not> is_ok (fst (sample_receiving sample_late (sent_header sample_sent1)))"
proof -
  let ?add = "add_epoch sample_crypto \<lparr>key_epoch = 1, key_bytes = replicate 32 5\<rparr> sample_alice"
  have "is_ok (fst ?add)" by code_simp
  from add_epoch_core[OF new_core[OF sample_new(1), THEN conjunct1] is_ok_pair[OF this]]
  have core: "core sample_crypto sample_secret [replicate 32 5] (snd ?add)" "spq_receiving_epoch (snd ?add) = 0"
    using new_core[OF sample_new(1)] by simp_all
  have e: "message_epoch (sent_header sample_sent1) = 0" by code_simp
  have "\<not> is_ok (fst (receive_key sample_crypto (braid_scka sample_crypto) sample_late (sent_header sample_sent1)))"
    by (rule end_of_epoch_refuses_messages[OF sample_new(2) run_start sample_sends(1) e])
      (use core in \<open>auto simp: sample_late_def\<close>)
  then show ?thesis using sample_sends(1) by (simp add: sample_sending_def sample_receiving_def)
qed

end
