(* ===== verification/Braid_Agreement.thy ===== *)
theory Braid_Agreement
  imports Spq_Agreement
begin

text \<open>
  Two braid sessions over a network that loses, repeats and reorders messages but does not forge
  them. What the peers draw at random determines everything they exchange and derive: \<open>draws\<close>
  records the key generation seed and the encapsulation randomness of each epoch, and the
  definitions below give the messages, keys and authenticators as functions of it. \<open>agrees\<close>
  is the invariant of one session: its state is the one these functions describe.
\<close>

section \<open>What is drawn, and what follows from it\<close>

record draws =
  drawn_seed :: "nat \<Rightarrow> bytes option"
  drawn_randomness :: "nat \<Rightarrow> bytes option"

definition right :: "'e + 'a \<Rightarrow> 'a option" where
  "right r = (case r of Inl _ \<Rightarrow> None | Inr x \<Rightarrow> Some x)"

definition pair_of :: "crypto \<Rightarrow> draws \<Rightarrow> nat \<Rightarrow> bytes option" where
  "pair_of c g n = map_option (generate_key_pair c) (drawn_seed g n)"

definition header_of :: "crypto \<Rightarrow> draws \<Rightarrow> nat \<Rightarrow> bytes option" where
  "header_of c g n = map_option (header_of_key_pair c) (pair_of c g n)"

definition vector_of :: "crypto \<Rightarrow> draws \<Rightarrow> nat \<Rightarrow> bytes option" where
  "vector_of c g n = map_option (ek_of_key_pair c) (pair_of c g n)"

definition encaps_of :: "crypto \<Rightarrow> draws \<Rightarrow> nat \<Rightarrow> (bytes \<times> bytes \<times> bytes) option" where
  "encaps_of c g n = Option.bind (header_of c g n) (\<lambda>header. Option.bind (drawn_randomness g n) (encapsulate1 c header))"

definition key_of :: "crypto \<Rightarrow> draws \<Rightarrow> nat \<Rightarrow> output_key option" where
  "key_of c g n = Option.bind (encaps_of c g n) (\<lambda>(_, _, ss). right (derive_output_key c ss (of_nat n)))"

primrec auth_after :: "crypto \<Rightarrow> bytes \<Rightarrow> draws \<Rightarrow> nat \<Rightarrow> authenticator option" where
  "auth_after c secret g 0 = right (auth_initialize c INITIAL_EPOCH secret)"
| "auth_after c secret g (Suc n) = Option.bind (auth_after c secret g n) (\<lambda>auth. Option.bind (key_of c g (Suc n)) (\<lambda>k.
     right (auth_update c (of_nat (Suc n)) (key_bytes k) auth)))"

definition tagged_header :: "crypto \<Rightarrow> bytes \<Rightarrow> draws \<Rightarrow> nat \<Rightarrow> bytes option" where
  "tagged_header c secret g n = Option.bind (header_of c g n) (\<lambda>header. Option.bind (auth_after c secret g (n - 1)) (\<lambda>auth.
     map_option (\<lambda>mac. header @ mac) (right (mac_header c auth (of_nat n) header))))"

definition tagged_ciphertext :: "crypto \<Rightarrow> bytes \<Rightarrow> draws \<Rightarrow> nat \<Rightarrow> bytes option" where
  "tagged_ciphertext c secret g n = Option.bind (encaps_of c g n) (\<lambda>(ct1, st, _). Option.bind (vector_of c g n) (\<lambda>ek.
     Option.bind (auth_after c secret g n) (\<lambda>auth. map_option (\<lambda>mac. encapsulate2 c st ek @ mac)
       (right (mac_ciphertext c auth (of_nat n) (ct1 @ encapsulate2 c st ek))))))"

text \<open>The message that the chunks of a type carry in an epoch, and a chunk of it.\<close>

fun carried :: "crypto \<Rightarrow> bytes \<Rightarrow> draws \<Rightarrow> nat \<Rightarrow> message_type \<Rightarrow> bytes option" where
  "carried c secret g n Hdr = tagged_header c secret g n"
| "carried c secret g n Ek = vector_of c g n"
| "carried c secret g n EkCt1Ack = vector_of c g n"
| "carried c secret g n Ct1 = map_option fst (encaps_of c g n)"
| "carried c secret g n Ct2 = tagged_ciphertext c secret g n"
| "carried c secret g n _ = None"

definition honest_message :: "crypto \<Rightarrow> bytes \<Rightarrow> draws \<Rightarrow> message \<Rightarrow> bool" where
  "honest_message c secret g m \<longleftrightarrow> (\<forall>ch. msg_data m = Some ch \<longrightarrow>
     (\<exists>b. carried c secret g (unat (msg_epoch m)) (msg_type m) = Some b \<and> genuine_chunk (chunks_exact b) ch))"

section \<open>Drawing more\<close>

definition draws_more :: "spq_role \<Rightarrow> draws \<Rightarrow> draws \<Rightarrow> bool" where
  "draws_more p g g' \<longleftrightarrow> (\<forall>n v. drawn_seed g n = Some v \<longrightarrow> drawn_seed g' n = Some v)
     \<and> (\<forall>n v. drawn_randomness g n = Some v \<longrightarrow> drawn_randomness g' n = Some v)
     \<and> (\<forall>n. if (p = SpqInitiator) = odd n then drawn_randomness g' n = drawn_randomness g n
        else drawn_seed g' n = drawn_seed g n)"

definition owns :: "spq_role \<Rightarrow> nat \<Rightarrow> bool" where
  "owns p n \<longleftrightarrow> (p = SpqInitiator) = odd n"

definition undrawn :: "spq_role \<Rightarrow> draws \<Rightarrow> nat \<Rightarrow> bool" where
  "undrawn p g n \<longleftrightarrow> (\<forall>m\<ge>n. (if owns p m then drawn_seed g m else drawn_randomness g m) = None)"

lemma right_Some_iff [simp]: "right r = Some x \<longleftrightarrow> r = Inr x"
  by (simp add: right_def split: sum.splits)

lemma draws_more_refl [simp]: "draws_more p g g"
  by (simp add: draws_more_def)

lemmas option_simps = bind_eq_Some_conv map_option_eq_Some

lemma more_pair: "draws_more p g g' \<Longrightarrow> pair_of c g n = Some v \<Longrightarrow> pair_of c g' n = Some v"
  by (auto simp: pair_of_def draws_more_def)

lemma more_header: "draws_more p g g' \<Longrightarrow> header_of c g n = Some v \<Longrightarrow> header_of c g' n = Some v"
  using more_pair by (fastforce simp: header_of_def)

lemma more_vector: "draws_more p g g' \<Longrightarrow> vector_of c g n = Some v \<Longrightarrow> vector_of c g' n = Some v"
  using more_pair by (fastforce simp: vector_of_def)

lemma more_encaps:
  assumes "draws_more p g g'" "encaps_of c g n = Some v"
  shows "encaps_of c g' n = Some v"
  using assms(2) more_header[OF assms(1)] assms(1) by (auto simp: encaps_of_def draws_more_def option_simps)

lemma more_key: "draws_more p g g' \<Longrightarrow> key_of c g n = Some v \<Longrightarrow> key_of c g' n = Some v"
  using more_encaps by (fastforce simp: key_of_def option_simps)

lemma more_auth:
  assumes "draws_more p g g'"
  shows "auth_after c secret g n = Some v \<Longrightarrow> auth_after c secret g' n = Some v"
proof (induction n arbitrary: v)
  case (Suc n)
  then show ?case using more_key[OF assms] by (fastforce simp: option_simps)
qed simp

lemma more_tagged_header:
  assumes "draws_more p g g'" "tagged_header c secret g n = Some v"
  shows "tagged_header c secret g' n = Some v"
  using assms(2) more_header[OF assms(1)] more_auth[OF assms(1)] by (fastforce simp: tagged_header_def option_simps)

lemma more_tagged_ciphertext:
  assumes "draws_more p g g'" "tagged_ciphertext c secret g n = Some v"
  shows "tagged_ciphertext c secret g' n = Some v"
  using assms(2) more_encaps[OF assms(1)] more_vector[OF assms(1)] more_auth[OF assms(1)]
  by (fastforce simp: tagged_ciphertext_def option_simps)

lemma more_carried:
  assumes "draws_more p g g'" "carried c secret g n ty = Some v"
  shows "carried c secret g' n ty = Some v"
  using assms(2) more_encaps[OF assms(1)] more_vector[OF assms(1)] more_tagged_header[OF assms(1)]
    more_tagged_ciphertext[OF assms(1)]
  by (cases ty) (auto simp: option_simps)

lemma more_honest: "draws_more p g g' \<Longrightarrow> honest_message c secret g m \<Longrightarrow> honest_message c secret g' m"
  using more_carried by (fastforce simp: honest_message_def)

lemma more_seed: "draws_more p g g' \<Longrightarrow> drawn_seed g n = Some v \<Longrightarrow> drawn_seed g' n = Some v"
  by (auto simp: draws_more_def)

lemmas more_all = more_seed more_header more_vector more_encaps more_key more_auth more_tagged_header more_tagged_ciphertext

section \<open>Sizes\<close>

definition carried_bytes :: "message_type \<Rightarrow> nat" where
  "carried_bytes ty = (case ty of Hdr \<Rightarrow> 96 | Ct1 \<Rightarrow> 1408 | Ct2 \<Rightarrow> 192 | _ \<Rightarrow> 1536)"

lemma pair_parts:
  assumes "crypto_sizes c"
  shows "length (header_of_key_pair c (generate_key_pair c seed)) = 64"
    and "length (ek_of_key_pair c (generate_key_pair c seed)) = 1536"
proof -
  have "pk2_len c * 2 + 64 \<le> length (generate_key_pair c seed)" "pk2_len c = 1536"
    using assms unfolding crypto_sizes_def braid_sizes by blast+
  then show "length (header_of_key_pair c (generate_key_pair c seed)) = 64"
    "length (ek_of_key_pair c (generate_key_pair c seed)) = 1536"
    by (simp_all add: header_of_key_pair_def ek_of_key_pair_def braid_sizes)
qed

lemma header_of_length: "crypto_sizes c \<Longrightarrow> header_of c g n = Some h \<Longrightarrow> length h = 64"
  using pair_parts by (auto simp: header_of_def pair_of_def)

lemma vector_of_length: "crypto_sizes c \<Longrightarrow> vector_of c g n = Some v \<Longrightarrow> length v = 1536"
  using pair_parts by (auto simp: vector_of_def pair_of_def)

lemma encaps_of_length:
  assumes "crypto_sizes c" "encaps_of c g n = Some (ct1, st, ss)"
  shows "length ct1 = 1408"
proof -
  obtain h r where "encapsulate1 c h r = Some (ct1, st, ss)" using assms(2) by (auto simp: encaps_of_def option_simps)
  then show ?thesis using assms(1) unfolding crypto_sizes_def ML_KEM_BRAID_CT1_BYTES_def by blast
qed

lemma tagged_headerE:
  assumes "crypto_sizes c" "tagged_header c secret g n = Some x"
  obtains h mac auth where "x = h @ mac" "header_of c g n = Some h" "length h = 64" "length mac = 32"
    "auth_after c secret g (n - 1) = Some auth" "mac_header c auth (of_nat n) h = Inr mac"
  using assms header_of_length[OF assms(1)] auth_mac_length[OF assms(1)]
  by (auto simp: tagged_header_def option_simps mac_header_def ML_KEM_BRAID_MAC_BYTES_def)

lemma tagged_ciphertextE:
  assumes "crypto_sizes c" "tagged_ciphertext c secret g n = Some x"
  obtains ct1 st ss ek mac auth where "x = encapsulate2 c st ek @ mac" "encaps_of c g n = Some (ct1, st, ss)"
    "vector_of c g n = Some ek" "length (encapsulate2 c st ek) = 160" "length mac = 32"
    "auth_after c secret g n = Some auth" "mac_ciphertext c auth (of_nat n) (ct1 @ encapsulate2 c st ek) = Inr mac"
proof -
  have "length (encapsulate2 c st ek) = 160" for st ek
    using assms(1) by (simp add: crypto_sizes_def ML_KEM_BRAID_CT2_BYTES_def)
  then show thesis
    using assms(2) auth_mac_length[OF assms(1)] that
    by (auto simp: tagged_ciphertext_def option_simps mac_ciphertext_def ML_KEM_BRAID_MAC_BYTES_def)
qed

lemma carried_length:
  assumes "crypto_sizes c" "carried c secret g n ty = Some b"
  shows "length b = carried_bytes ty"
proof (cases ty)
  case Hdr
  then show ?thesis using assms(2) by (auto simp: carried_bytes_def elim!: tagged_headerE[OF assms(1)])
next
  case Ct2
  then show ?thesis using assms(2) by (auto simp: carried_bytes_def elim!: tagged_ciphertextE[OF assms(1)])
next
  case Ct1
  then show ?thesis using assms(2) encaps_of_length[OF assms(1)] by (auto simp: carried_bytes_def)
qed (use assms vector_of_length in \<open>auto simp: carried_bytes_def\<close>)

section \<open>Coding the messages\<close>

lemma fresh_decodes:
  assumes "decoder_new (length b) = Inr dec"
  shows "decodes b dec"
proof -
  have b: "length b mod 32 = 0" "b \<noteq> []" "length b \<le> 1536"
    using assms by (auto simp: decoder_new_def result_simps braid_sizes MAX_SOURCE_CHUNKS_eq)
  then obtain enc where "encoder_new b = Inr enc" using encoder_new_ok[of b] by (auto simp: braid_sizes)
  from decoder_new_decodes[OF this] assms show ?thesis by auto
qed

lemma next_chunk_encodes:
  "encodes b enc \<Longrightarrow> next_chunk enc = Inr (ch, enc') \<Longrightarrow> genuine_chunk (chunks_exact b) ch \<and> encodes b enc'"
  by (rule braid_channel.enc_next)

lemma encoder_new_encodes: "encoder_new b = Inr enc \<Longrightarrow> encodes b enc"
  by (rule braid_channel.enc_new)

lemma decodes_message: "decodes b dec \<Longrightarrow> dec_decoded dec = Some x \<Longrightarrow> x = b"
  by (rule braid_channel.dec_message)

section \<open>The invariant of a session\<close>

fun agrees :: "crypto \<Rightarrow> bytes \<Rightarrow> spq_role \<Rightarrow> draws \<Rightarrow> protocol_state \<Rightarrow> bool" where
  "agrees c secret p g (KeysUnsampled e auth) = (owns p (unat e) \<and> auth_after c secret g (unat e - 1) = Some auth
     \<and> undrawn p g (unat e))"
| "agrees c secret p g (KeysSampled e auth seed ek enc) = (owns p (unat e) \<and> auth_after c secret g (unat e - 1) = Some auth
     \<and> undrawn p g (Suc (unat e)) \<and> drawn_seed g (unat e) = Some seed \<and> vector_of c g (unat e) = Some ek
     \<and> (\<exists>x. tagged_header c secret g (unat e) = Some x \<and> encodes x enc))"
| "agrees c secret p g (HeaderSent e auth seed dec enc) = (owns p (unat e) \<and> auth_after c secret g (unat e - 1) = Some auth
     \<and> undrawn p g (Suc (unat e)) \<and> drawn_seed g (unat e) = Some seed
     \<and> (\<exists>ct1 x. encaps_of c g (unat e) = Some (ct1, x) \<and> decodes ct1 dec)
     \<and> (\<exists>ek. vector_of c g (unat e) = Some ek \<and> encodes ek enc))"
| "agrees c secret p g (Ct1Received e auth seed ct1 enc) = (owns p (unat e) \<and> auth_after c secret g (unat e - 1) = Some auth
     \<and> undrawn p g (Suc (unat e)) \<and> drawn_seed g (unat e) = Some seed \<and> (\<exists>x. encaps_of c g (unat e) = Some (ct1, x))
     \<and> (\<exists>ek. vector_of c g (unat e) = Some ek \<and> encodes ek enc))"
| "agrees c secret p g (EkSentCt1Received e auth seed ct1 dec) = (owns p (unat e) \<and> auth_after c secret g (unat e - 1) = Some auth
     \<and> undrawn p g (Suc (unat e)) \<and> drawn_seed g (unat e) = Some seed \<and> (\<exists>x. encaps_of c g (unat e) = Some (ct1, x))
     \<and> (\<exists>x. tagged_ciphertext c secret g (unat e) = Some x \<and> decodes x dec))"
| "agrees c secret p g (NoHeaderReceived e auth dec) = (\<not> owns p (unat e) \<and> auth_after c secret g (unat e - 1) = Some auth
     \<and> undrawn p g (unat e) \<and> (decoder_new 96 = Inr dec \<or> (\<exists>x. tagged_header c secret g (unat e) = Some x \<and> decodes x dec)))"
| "agrees c secret p g (HeaderReceived e auth header dec) = (\<not> owns p (unat e) \<and> auth_after c secret g (unat e - 1) = Some auth
     \<and> undrawn p g (unat e) \<and> header_of c g (unat e) = Some header
     \<and> (\<exists>ek. vector_of c g (unat e) = Some ek \<and> decodes ek dec))"
| "agrees c secret p g (Ct1Sampled e auth header st ct1 enc dec) = (\<not> owns p (unat e) \<and> auth_after c secret g (unat e) = Some auth
     \<and> undrawn p g (Suc (unat e)) \<and> (\<exists>ss. encaps_of c g (unat e) = Some (ct1, st, ss)) \<and> encodes ct1 enc
     \<and> (\<exists>ek. vector_of c g (unat e) = Some ek \<and> decodes ek dec))"
| "agrees c secret p g (EkReceivedCt1Sampled e auth st ct1 ek enc) = (\<not> owns p (unat e) \<and> auth_after c secret g (unat e) = Some auth
     \<and> undrawn p g (Suc (unat e)) \<and> (\<exists>ss. encaps_of c g (unat e) = Some (ct1, st, ss)) \<and> encodes ct1 enc
     \<and> vector_of c g (unat e) = Some ek)"
| "agrees c secret p g (Ct1Acknowledged e auth header st ct1 dec) = (\<not> owns p (unat e) \<and> auth_after c secret g (unat e) = Some auth
     \<and> undrawn p g (Suc (unat e)) \<and> (\<exists>ss. encaps_of c g (unat e) = Some (ct1, st, ss))
     \<and> (\<exists>ek. vector_of c g (unat e) = Some ek \<and> decodes ek dec))"
| "agrees c secret p g (Ct2Sampled e auth enc) = (\<not> owns p (unat e) \<and> auth_after c secret g (unat e) = Some auth
     \<and> undrawn p g (Suc (unat e)) \<and> (\<exists>x. tagged_ciphertext c secret g (unat e) = Some x \<and> encodes x enc))"
| "agrees c secret p g (Poisoned e) = False"

text \<open>What the peer draws does not touch it.\<close>

lemma owns_peer: "p \<noteq> q \<Longrightarrow> owns q n \<longleftrightarrow> \<not> owns p n"
  by (cases p; cases q) (auto simp: owns_def)

lemma owns_Suc [simp]: "owns p (Suc n) \<longleftrightarrow> \<not> owns p n"
  by (auto simp: owns_def)

lemma undrawn_peer:
  assumes "draws_more p g g'" "q \<noteq> p" "undrawn q g n"
  shows "undrawn q g' n"
  using assms owns_peer[OF assms(2)] by (auto simp: undrawn_def draws_more_def owns_def[of p])

lemma agrees_peer:
  assumes "draws_more p g g'" "q \<noteq> p" "agrees c secret q g s"
  shows "agrees c secret q g' s"
  using assms(3)
  by (cases s) (auto dest: more_all[OF assms(1)] undrawn_peer[OF assms(1,2)])

section \<open>Sending\<close>

definition draw :: "spq_role \<Rightarrow> nat \<Rightarrow> bytes \<Rightarrow> draws \<Rightarrow> draws" where
  "draw p n v g = (if owns p n then g\<lparr>drawn_seed := (drawn_seed g)(n \<mapsto> v)\<rparr>
     else g\<lparr>drawn_randomness := (drawn_randomness g)(n \<mapsto> v)\<rparr>)"

lemma draw_more: "undrawn p g n \<Longrightarrow> draws_more p g (draw p n v g)"
  by (auto simp: undrawn_def draws_more_def draw_def owns_def)

lemma draw_undrawn: "undrawn p g n \<Longrightarrow> undrawn p (draw p n v g) (Suc n)"
  unfolding undrawn_def draw_def by (auto dest: Suc_leD)

lemma undrawn_Suc: "undrawn p g n \<Longrightarrow> undrawn p g (Suc n)"
  unfolding undrawn_def by (auto dest: Suc_leD)

lemma honest_payload:
  "honest_message c secret g (payload e ty ch) \<longleftrightarrow>
     (\<exists>b. carried c secret g (unat e) ty = Some b \<and> genuine_chunk (chunks_exact b) ch)"
  by (simp add: honest_message_def payload_def)

lemma honest_empty [simp]: "honest_message c secret g (empty_message e ty)"
  by (simp add: honest_message_def empty_message_def)

lemma send_keys_unsampled_agrees:
  assumes "agrees c secret p g (KeysUnsampled e auth)" "send_keys_unsampled c fill e auth = Inr (s', out)"
  shows "\<exists>g'. draws_more p g g' \<and> agrees c secret p g' s' \<and> honest_message c secret g' (out_message out) \<and> sent_key out = None"
proof -
  let ?seed = "fill (keygen_seed_len c)"
  let ?h = "header_of_key_pair c (generate_key_pair c ?seed)" and ?ek = "ek_of_key_pair c (generate_key_pair c ?seed)"
  obtain mac enc enc' ch where
      mac: "mac_header c auth e ?h = Inr mac"
      and enc: "encoder_new (?h @ mac) = Inr enc" "next_chunk enc = Inr (ch, enc')"
      and s': "s' = KeysSampled e auth ?seed ?ek enc'"
      and out: "out_message out = payload e Hdr ch" "sent_key out = None"
    using assms(2)
    by (auto simp: send_keys_unsampled_def Let_def result_simps header_of_key_pair_def ek_of_key_pair_def add.commute)
  note A = assms(1)[unfolded agrees.simps]
  let ?g = "draw p (unat e) ?seed g"
  have more: "draws_more p g ?g" and un: "undrawn p ?g (Suc (unat e))" using A draw_more draw_undrawn by blast+
  have seed: "drawn_seed ?g (unat e) = Some ?seed" using A by (simp add: draw_def)
  have auth: "auth_after c secret ?g (unat e - 1) = Some auth" using A more_auth[OF more] by blast
  have h: "tagged_header c secret ?g (unat e) = Some (?h @ mac)"
    using seed auth mac by (simp add: tagged_header_def header_of_def pair_of_def option_simps)
  have "genuine_chunk (chunks_exact (?h @ mac)) ch \<and> encodes (?h @ mac) enc'"
    by (rule next_chunk_encodes[OF encoder_new_encodes[OF enc(1)] enc(2)])
  then show ?thesis
    using A more un seed auth h out
    by (intro exI[of _ ?g]) (simp add: s' honest_payload vector_of_def pair_of_def)
qed

lemma auth_after_key:
  assumes "e \<noteq> 0" "auth_after c secret g (unat e - 1) = Some auth" "key_of c g (unat e) = Some k"
    "auth_update c e (key_bytes k) auth = Inr auth'"
  shows "auth_after c secret g (unat e) = Some auth'"
proof -
  obtain n where n: "unat e = Suc n" using assms(1) by (metis not0_implies_Suc unsigned_eq_0_iff)
  have "of_nat (unat e) = e" by simp
  then have "of_nat (Suc n) = e" by (simp only: n)
  then show ?thesis using assms n by (simp add: option_simps)
qed

lemma send_header_received_agrees:
  assumes "agrees c secret p g (HeaderReceived e auth header dec)" "send_header_received c fill e auth header dec = Inr (s', out)"
  shows "\<exists>g'. draws_more p g g' \<and> agrees c secret p g' s' \<and> honest_message c secret g' (out_message out)
    \<and> (\<exists>k. sent_key out = Some k \<and> key_of c g' (unat e) = Some k)"
proof -
  obtain ct1 st ss k auth' enc enc' ch where
      en: "encapsulate1 c header (fill 32) = Some (ct1, st, ss)"
      and k: "derive_output_key c ss e = Inr k"
      and auth': "auth_update c e (key_bytes k) auth = Inr auth'"
      and enc: "encoder_new ct1 = Inr enc" "next_chunk enc = Inr (ch, enc')"
      and s': "s' = Ct1Sampled e auth' header st ct1 enc' dec"
      and out: "out_message out = payload e Ct1 ch" "sent_key out = Some k" and e: "e \<noteq> 0"
    using assms(2) by (fastforce simp: send_header_received_def Let_def result_simps)
  note A = assms(1)[unfolded agrees.simps]
  let ?g = "draw p (unat e) (fill 32) g"
  have more: "draws_more p g ?g" and un: "undrawn p ?g (Suc (unat e))" using A draw_more draw_undrawn by blast+
  have rnd: "drawn_randomness ?g (unat e) = Some (fill 32)" using A by (simp add: draw_def)
  have "header_of c ?g (unat e) = Some header" using A more_header[OF more] by blast
  then have encaps: "encaps_of c ?g (unat e) = Some (ct1, st, ss)"
    using rnd en by (simp add: encaps_of_def)
  then have key: "key_of c ?g (unat e) = Some k" using k by (simp add: key_of_def)
  have "auth_after c secret ?g (unat e - 1) = Some auth" using A more_auth[OF more] by blast
  from auth_after_key[OF e this key auth'] have auth: "auth_after c secret ?g (unat e) = Some auth'" .
  have "genuine_chunk (chunks_exact ct1) ch \<and> encodes ct1 enc'"
    by (rule next_chunk_encodes[OF encoder_new_encodes[OF enc(1)] enc(2)])
  moreover have "\<exists>ek. vector_of c ?g (unat e) = Some ek \<and> decodes ek dec" using A more_vector[OF more] by blast
  ultimately show ?thesis
    using A more un encaps auth key out
    by (intro exI[of _ ?g]) (simp add: s' honest_payload)
qed

lemma send_stays:
  assumes "agrees c secret p g s" "send_state c fill s = Inr (s', out)"
    and "state_name s \<noteq> KeysUnsampledN" "state_name s \<noteq> HeaderReceivedN"
  shows "agrees c secret p g s' \<and> honest_message c secret g (out_message out) \<and> sent_key out = None"
proof (cases s)
  case (KeysSampled e auth seed ek enc)
  then show ?thesis using assms
    by (auto simp: send_keys_sampled_def result_simps honest_payload dest: next_chunk_encodes)
next
  case (HeaderSent e auth seed dec enc)
  then show ?thesis using assms
    by (auto simp: send_header_sent_def result_simps honest_payload dest: next_chunk_encodes)
next
  case (Ct1Received e auth seed ct1 enc)
  then show ?thesis using assms
    by (auto simp: send_ct1_received_def result_simps honest_payload dest: next_chunk_encodes)
next
  case (Ct1Sampled e auth header st ct1 enc dec)
  then show ?thesis using assms
    by (auto simp: send_ct1_sampled_def result_simps honest_payload dest: next_chunk_encodes)
next
  case (EkReceivedCt1Sampled e auth st ct1 ek enc)
  then show ?thesis using assms
    by (auto simp: send_ek_received_ct1_sampled_def result_simps honest_payload dest: next_chunk_encodes)
next
  case (Ct2Sampled e auth enc)
  then show ?thesis using assms
    by (auto simp: send_ct2_sampled_def result_simps honest_payload dest: next_chunk_encodes)
qed (use assms in \<open>auto simp: send_ek_sent_ct1_received_def send_no_header_received_def send_ct1_acknowledged_def result_simps\<close>)

lemma send_agrees:
  assumes "agrees c secret p g s" "send_state c fill s = Inr (s', out)"
  shows "\<exists>g'. draws_more p g g' \<and> agrees c secret p g' s' \<and> honest_message c secret g' (out_message out)
    \<and> (\<forall>k. sent_key out = Some k \<longrightarrow> key_of c g' (unat (state_epoch s)) = Some k)"
proof (cases s)
  case (KeysUnsampled e auth)
  from send_keys_unsampled_agrees[OF assms[unfolded KeysUnsampled send_state.simps]]
  show ?thesis by auto
next
  case (HeaderReceived e auth header dec)
  from send_header_received_agrees[OF assms[unfolded HeaderReceived send_state.simps]]
  show ?thesis using HeaderReceived by fastforce
qed (use send_stays[OF assms] in \<open>auto intro: exI[of _ g]\<close>)

section \<open>Receiving\<close>

lemma honest_chunk:
  assumes "honest_message c secret g m" "is_payload m e ty" "msg_data m = Some ch"
  shows "\<exists>b. carried c secret g (unat e) ty = Some b \<and> genuine_chunk (chunks_exact b) ch"
  using assms by (auto simp: honest_message_def is_payload_def)

text \<open>A chunk for a decoder that holds chunks of the same message, and the first chunk of one.\<close>

lemma chunk_into:
  assumes "honest_message c secret g m" "is_payload m e ty" "msg_data m = Some ch" "add_chunk dec ch = Inr dec'"
    and "carried c secret g (unat e) ty = Some b" "decodes b dec"
  shows "decodes b dec'"
  using honest_chunk[OF assms(1-3)] assms(5) add_chunk_decodes[OF assms(6) _ assms(4)] by auto

lemma first_chunk_into:
  assumes "crypto_sizes c" "honest_message c secret g m" "is_payload m e ty" "msg_data m = Some ch"
    and "decoder_new (carried_bytes ty) = Inr dec" "add_chunk dec ch = Inr dec'"
  shows "\<exists>b. carried c secret g (unat e) ty = Some b \<and> decodes b dec'"
proof -
  obtain b where b: "carried c secret g (unat e) ty = Some b" "genuine_chunk (chunks_exact b) ch"
    using honest_chunk[OF assms(2-4)] by blast
  have "decodes b dec" using assms(5) carried_length[OF assms(1) b(1)] by (intro fresh_decodes) simp
  from add_chunk_decodes[OF this b(2) assms(6)] b(1) show ?thesis by blast
qed

lemma receive_keys_sampled_agrees:
  assumes "crypto_sizes c" "agrees c secret p g (KeysSampled e auth seed ek enc)" "honest_message c secret g m"
    and "receive_keys_sampled m e auth seed ek enc = Inr (s', out)"
  shows "agrees c secret p g s' \<and> received_key out = None"
proof (cases "is_payload m e Ct1")
  case True
  then obtain dec ch dec' enc' where r: "decoder_new ML_KEM_BRAID_CT1_BYTES = Inr dec" "msg_data m = Some ch"
      "add_chunk dec ch = Inr dec'" "encoder_new ek = Inr enc'" "s' = HeaderSent e auth seed dec' enc'" "received_key out = None"
    using assms(4) by (auto simp: receive_keys_sampled_def result_simps)
  have "decoder_new (carried_bytes Ct1) = Inr dec" using r(1) by (simp add: carried_bytes_def ML_KEM_BRAID_CT1_BYTES_def)
  from first_chunk_into[OF assms(1,3) True r(2) this r(3)] show ?thesis
    using assms(2) r(5,6) encoder_new_encodes[OF r(4)] by (auto simp: option_simps)
qed (use assms in \<open>auto simp: receive_keys_sampled_def result_simps\<close>)

lemma receive_header_sent_agrees:
  assumes "agrees c secret p g (HeaderSent e auth seed dec enc)" "honest_message c secret g m"
    and "receive_header_sent m e auth seed dec enc = Inr (s', out)"
  shows "agrees c secret p g s' \<and> received_key out = None"
proof (cases "is_payload m e Ct1")
  case True
  obtain ct1 x where ct1: "encaps_of c g (unat e) = Some (ct1, x)" "decodes ct1 dec" using assms(1) by auto
  obtain ch dec' where r: "msg_data m = Some ch" "add_chunk dec ch = Inr dec'" "received_key out = None"
      "(\<exists>y. dec_decoded dec' = Some y \<and> s' = Ct1Received e auth seed y enc) \<or> s' = HeaderSent e auth seed dec' enc"
    using assms(3) True by (auto simp: receive_header_sent_def Let_def result_simps take_message_def split: if_splits)
  have "decodes ct1 dec'" by (rule chunk_into[OF assms(2) True r(1,2) _ ct1(2)]) (simp add: ct1(1))
  then show ?thesis using assms(1) r(3,4) ct1(1) decodes_message[of ct1 dec'] by auto
qed (use assms in \<open>auto simp: receive_header_sent_def Let_def result_simps\<close>)

lemma receive_ct1_received_agrees:
  assumes "crypto_sizes c" "agrees c secret p g (Ct1Received e auth seed ct1 enc)" "honest_message c secret g m"
    and "receive_ct1_received m e auth seed ct1 enc = Inr (s', out)"
  shows "agrees c secret p g s' \<and> received_key out = None"
proof (cases "is_payload m e Ct2")
  case True
  then obtain dec ch dec' where r: "decoder_new (ML_KEM_BRAID_CT2_BYTES + ML_KEM_BRAID_MAC_BYTES) = Inr dec"
      "msg_data m = Some ch" "add_chunk dec ch = Inr dec'" "s' = EkSentCt1Received e auth seed ct1 dec'" "received_key out = None"
    using assms(4) by (auto simp: receive_ct1_received_def result_simps)
  have "decoder_new (carried_bytes Ct2) = Inr dec" using r(1) by (simp add: carried_bytes_def braid_sizes)
  from first_chunk_into[OF assms(1,3) True r(2) this r(3)] show ?thesis
    using assms(2) r(4,5) by (auto simp: option_simps)
qed (use assms in \<open>auto simp: receive_ct1_received_def result_simps\<close>)

text \<open>The end of an epoch on the side that decapsulates: the key is the one the peer has derived.\<close>

lemma finish_decapsulation_agrees:
  assumes "crypto_sizes c" "kem_correct c" "agrees c secret p g (EkSentCt1Received e auth seed ct1 dec)"
    and "tagged_ciphertext c secret g (unat e) = Some x" "finish_decapsulation c e auth seed ct1 x = Inr (s', out)" "e \<noteq> 0"
  shows "agrees c secret p g s' \<and> (\<exists>k. received_key out = Some k \<and> key_of c g (unat e) = Some k)"
proof -
  note A = assms(3)[unfolded agrees.simps]
  from assms(5) obtain ct2 mac k auth' hd where r: "x = ct2 @ mac" "length ct2 = ML_KEM_BRAID_CT2_BYTES"
    "and_then (decapsulate c seed ct1 ct2) (\<lambda>ss. derive_output_key c ss e) = Inr k"
    "auth_update c e (key_bytes k) auth = Inr auth'" "mac_ciphertext c auth' e (ct1 @ ct2) = Inr mac"
    "e \<noteq> - 1" "decoder_new (ML_KEM_BRAID_HEADER_BYTES + ML_KEM_BRAID_MAC_BYTES) = Inr hd"
    "s' = NoHeaderReceived (e + 1) auth' hd" "out = \<lparr>receiving_epoch = e - 1, received_key = Some k\<rparr>"
    by (rule finish_decapsulation_Inr)
  obtain ct1' st ss ek mac' auth0 where t: "x = encapsulate2 c st ek @ mac'" "encaps_of c g (unat e) = Some (ct1', st, ss)"
    "vector_of c g (unat e) = Some ek" "length (encapsulate2 c st ek) = 160"
    by (rule tagged_ciphertextE[OF assms(1,4)])
  have ct1: "ct1' = ct1" using A t(2) by auto
  have ct2: "ct2 = encapsulate2 c st ek" using r(1,2) t(1,4) by (simp add: append_eq_append_conv ML_KEM_BRAID_CT2_BYTES_def)
  let ?kp = "generate_key_pair c seed"
  have ek: "ek = ek_of_key_pair c ?kp" and hd: "header_of c g (unat e) = Some (header_of_key_pair c ?kp)"
    using A t(3) by (auto simp: vector_of_def header_of_def pair_of_def)
  obtain r where en: "encapsulate1 c (header_of_key_pair c ?kp) r = Some (ct1, st, ss)"
    using t(2) hd ct1 by (auto simp: encaps_of_def option_simps)
  have dec: "length seed = keygen_seed_len c" "derive_output_key c (decapsulate_key c ?kp ct1 ct2) e = Inr k"
    using r(3) by (auto simp: result_simps)
  have "decapsulate_key c ?kp ct1 ct2 = ss"
    using assms(2) dec(1) en unfolding ct2 ek kem_correct_def Let_def by blast
  then have key: "key_of c g (unat e) = Some k" using dec(2) t(2) by (simp add: key_of_def)
  have "auth_after c secret g (unat e) = Some auth'"
    using A auth_after_key[OF assms(6) _ key r(4)] by blast
  then show ?thesis
    using A key r(7-9) next_epoch_unat[OF r(6)] by (simp add: braid_sizes)
qed

lemma receive_ek_sent_agrees:
  assumes "crypto_sizes c" "kem_correct c" "agrees c secret p g (EkSentCt1Received e auth seed ct1 dec)"
    and "honest_message c secret g m" "receive_ek_sent_ct1_received c m e auth seed ct1 dec = Inr (s', out)" "e \<noteq> 0"
  shows "agrees c secret p g s' \<and> (\<forall>k. received_key out = Some k \<longrightarrow> key_of c g (unat e) = Some k)"
proof -
  obtain x where x: "tagged_ciphertext c secret g (unat e) = Some x" "decodes x dec" using assms(3) by auto
  have into: "decodes x dec'" if "is_payload m e Ct2" "msg_data m = Some ch" "add_chunk dec ch = Inr dec'" for ch dec'
    by (rule chunk_into[OF assms(4) that _ x(2)]) (simp add: x(1))
  from assms(5) show ?thesis
  proof (cases rule: receive_ek_sent_ct1_received_Inr)
    case (1 dec')
    then have "decodes x dec'" using into x(2) by (cases "is_payload m e Ct2") auto
    then show ?thesis using 1 assms(3) x(1) by auto
  next
    case (2 ch dec' y)
    have "y = x" by (rule decodes_message[OF into[OF 2(1-3)] 2(4)])
    from finish_decapsulation_agrees[OF assms(1-3) x(1) 2(5)[unfolded this] assms(6)] show ?thesis by auto
  qed
qed

lemma receive_no_header_agrees:
  assumes "crypto_sizes c" "agrees c secret p g (NoHeaderReceived e auth dec)" "honest_message c secret g m"
    and "receive_no_header_received c m e auth dec = Inr (s', out)"
  shows "agrees c secret p g s' \<and> received_key out = None"
proof (cases "is_payload m e Hdr")
  case True
  obtain ch dec' where r: "msg_data m = Some ch" "add_chunk dec ch = Inr dec'" "received_key out = None"
      "(\<exists>y kd. dec_decoded dec' = Some y \<and> decoder_new 1536 = Inr kd
         \<and> s' = HeaderReceived e auth (take 64 y) kd) \<or> s' = NoHeaderReceived e auth dec'"
    using assms(4) True
    by (auto simp: receive_no_header_received_def Let_def result_simps take_message_def braid_sizes split: if_splits)
  have "\<exists>x. tagged_header c secret g (unat e) = Some x \<and> decodes x dec'"
  proof (cases "decoder_new 96 = Inr dec")
    case True
    then have "decoder_new (carried_bytes Hdr) = Inr dec" by (simp add: carried_bytes_def)
    from first_chunk_into[OF assms(1,3) \<open>is_payload m e Hdr\<close> r(1) this r(2)] show ?thesis by simp
  next
    case False
    then obtain x where x: "tagged_header c secret g (unat e) = Some x" "decodes x dec" using assms(2) by auto
    have "decodes x dec'" by (rule chunk_into[OF assms(3) True r(1,2) _ x(2)]) (simp add: x(1))
    then show ?thesis using x(1) by blast
  qed
  then obtain x where x: "tagged_header c secret g (unat e) = Some x" "decodes x dec'" by blast
  obtain h mac auth0 where h: "x = h @ mac" "header_of c g (unat e) = Some h" "length h = 64"
    by (rule tagged_headerE[OF assms(1) x(1)])
  obtain ek where ek: "vector_of c g (unat e) = Some ek" using h(2) by (auto simp: header_of_def vector_of_def)
  show ?thesis using r(4)
  proof (elim disjE exE conjE)
    fix y kd assume y: "dec_decoded dec' = Some y" "decoder_new 1536 = Inr kd" "s' = HeaderReceived e auth (take 64 y) kd"
    have "y = x" by (rule decodes_message[OF x(2) y(1)])
    moreover have "decodes ek kd" using y(2) vector_of_length[OF assms(1) ek] by (intro fresh_decodes) simp
    ultimately show ?thesis using assms(2) y(3) h ek r(3) by auto
  qed (use assms(2) x r(3) in auto)
qed (use assms in \<open>auto simp: receive_no_header_received_def Let_def result_simps\<close>)

text \<open>The side that encapsulates, once the key vector of the peer is there.\<close>

lemma complete_encapsulation_agrees:
  assumes "crypto_sizes c" "encaps_of c g (unat e) = Some (ct1, st, ss)" "vector_of c g (unat e) = Some ek"
    and "auth_after c secret g (unat e) = Some auth" "complete_encapsulation c auth e st ct1 ek = Inr enc"
  shows "\<exists>x. tagged_ciphertext c secret g (unat e) = Some x \<and> encodes x enc"
proof -
  obtain mac where "mac_ciphertext c auth e (ct1 @ encapsulate2 c st ek) = Inr mac"
    "encoder_new (encapsulate2 c st ek @ mac) = Inr enc"
    using complete_encapsulation_Inr[OF assms(1,5)] by blast
  then show ?thesis
    using assms(2-4) encoder_new_encodes[of "encapsulate2 c st ek @ mac"] by (simp add: tagged_ciphertext_def option_simps)
qed

lemma receive_ct1_sampled_agrees:
  assumes "crypto_sizes c" "agrees c secret p g (Ct1Sampled e auth header st ct1 enc dec)" "honest_message c secret g m"
    and "receive_ct1_sampled c m e auth header st ct1 enc dec = Inr (s', out)"
  shows "agrees c secret p g s' \<and> received_key out = None"
proof -
  note A = assms(2)[unfolded agrees.simps]
  obtain ss where ss: "encaps_of c g (unat e) = Some (ct1, st, ss)" using A by blast
  obtain ek where ek: "vector_of c g (unat e) = Some ek" "decodes ek dec" using A by blast
  have into: "decodes ek dec'" if "is_payload m e ty" "ty = Ek \<or> ty = EkCt1Ack" "msg_data m = Some ch" "add_chunk dec ch = Inr dec'"
    for ty ch dec'
    by (rule chunk_into[OF assms(3) that(1,3,4) _ ek(2)]) (use that(2) ek(1) in auto)
  consider "\<not> is_payload m e Ek" "\<not> is_payload m e EkCt1Ack" | "is_payload m e Ek" | "is_payload m e EkCt1Ack" "\<not> is_payload m e Ek"
    by blast
  then show ?thesis
  proof cases
    case 1
    then show ?thesis using assms(2,4) by (auto simp: receive_ct1_sampled_def Let_def result_simps)
  next
    case 2
    then obtain ch dec' where r: "msg_data m = Some ch" "add_chunk dec ch = Inr dec'" "received_key out = None"
      "(\<exists>y. dec_decoded dec' = Some y \<and> s' = EkReceivedCt1Sampled e auth st ct1 y enc)
        \<or> s' = Ct1Sampled e auth header st ct1 enc dec'"
      using assms(4) by (auto simp: receive_ct1_sampled_def Let_def result_simps take_message_def split: if_splits)
    have "decodes ek dec'" using into[OF 2 _ r(1,2)] by simp
    then show ?thesis using A ss ek r(3,4) decodes_message[of ek dec'] by auto
  next
    case 3
    then obtain ch dec' where r: "msg_data m = Some ch" "add_chunk dec ch = Inr dec'" "received_key out = None"
      "(\<exists>y enc'. dec_decoded dec' = Some y \<and> complete_encapsulation c auth e st ct1 y = Inr enc' \<and> s' = Ct2Sampled e auth enc')
        \<or> s' = Ct1Acknowledged e auth header st ct1 dec'"
      using assms(4) by (auto simp: receive_ct1_sampled_def Let_def result_simps take_message_def split: if_splits)
    have dec': "decodes ek dec'" using into[OF 3(1) _ r(1,2)] by simp
    from r(4) show ?thesis
    proof (elim disjE exE conjE)
      fix y enc' assume y: "dec_decoded dec' = Some y" "complete_encapsulation c auth e st ct1 y = Inr enc'" "s' = Ct2Sampled e auth enc'"
      have "y = ek" by (rule decodes_message[OF dec' y(1)])
      then show ?thesis using A r(3) y(2,3) complete_encapsulation_agrees[OF assms(1) ss ek(1)] by auto
    qed (use A r(3) ss ek(1) dec' in auto)
  qed
qed

lemma receive_ct1_acknowledged_agrees:
  assumes "crypto_sizes c" "agrees c secret p g (Ct1Acknowledged e auth header st ct1 dec)" "honest_message c secret g m"
    and "receive_ct1_acknowledged c m e auth header st ct1 dec = Inr (s', out)"
  shows "agrees c secret p g s' \<and> received_key out = None"
proof (cases "is_payload m e EkCt1Ack")
  case True
  note A = assms(2)[unfolded agrees.simps]
  obtain ss where ss: "encaps_of c g (unat e) = Some (ct1, st, ss)" using A by blast
  obtain ek where ek: "vector_of c g (unat e) = Some ek" "decodes ek dec" using A by blast
  obtain ch dec' where r: "msg_data m = Some ch" "add_chunk dec ch = Inr dec'" "received_key out = None"
    "(\<exists>y enc'. dec_decoded dec' = Some y \<and> complete_encapsulation c auth e st ct1 y = Inr enc' \<and> s' = Ct2Sampled e auth enc')
      \<or> s' = Ct1Acknowledged e auth header st ct1 dec'"
    using assms(4) True by (auto simp: receive_ct1_acknowledged_def Let_def result_simps take_message_def split: if_splits)
  have dec': "decodes ek dec'" by (rule chunk_into[OF assms(3) True r(1,2) _ ek(2)]) (simp add: ek(1))
  from r(4) show ?thesis
  proof (elim disjE exE conjE)
    fix y enc' assume y: "dec_decoded dec' = Some y" "complete_encapsulation c auth e st ct1 y = Inr enc'" "s' = Ct2Sampled e auth enc'"
    have "y = ek" by (rule decodes_message[OF dec' y(1)])
    then show ?thesis using A r(3) y(2,3) complete_encapsulation_agrees[OF assms(1) ss ek(1)] by auto
  qed (use A r(3) ss ek(1) dec' in auto)
qed (use assms in \<open>auto simp: receive_ct1_acknowledged_def Let_def result_simps\<close>)

lemma receive_ek_received_agrees:
  assumes "crypto_sizes c" "agrees c secret p g (EkReceivedCt1Sampled e auth st ct1 ek enc)"
    and "receive_ek_received_ct1_sampled c m e auth st ct1 ek enc = Inr (s', out)"
  shows "agrees c secret p g s' \<and> received_key out = None"
  using assms complete_encapsulation_agrees[OF assms(1)]
  by (auto simp: receive_ek_received_ct1_sampled_def result_simps split: if_splits)

lemma receive_ct2_sampled_agrees:
  assumes "agrees c secret p g (Ct2Sampled e auth enc)" "receive_ct2_sampled m e auth enc = Inr (s', out)"
  shows "agrees c secret p g s' \<and> received_key out = None"
  using assms next_epoch_unat[of e] by (auto simp: receive_ct2_sampled_def result_simps split: if_splits)

lemma receive_agrees:
  assumes "crypto_sizes c" "kem_correct c" "agrees c secret p g s" "honest_message c secret g m"
    and "receive_state c s m = Inr (s', out)" "state_epoch s \<noteq> 0"
  shows "agrees c secret p g s' \<and> (\<forall>k. received_key out = Some k \<longrightarrow> key_of c g (unat (state_epoch s)) = Some k)"
proof (cases s)
  case (KeysUnsampled e auth)
  then show ?thesis using assms(3,5) by (auto simp: receive_keys_unsampled_def result_simps)
next
  case (KeysSampled e auth seed ek enc)
  then show ?thesis using receive_keys_sampled_agrees[OF assms(1) _ assms(4)] assms(3,5) by auto
next
  case (HeaderSent e auth seed dec enc)
  then show ?thesis using receive_header_sent_agrees[OF _ assms(4)] assms(3,5) by auto
next
  case (Ct1Received e auth seed ct1 enc)
  then show ?thesis using receive_ct1_received_agrees[OF assms(1) _ assms(4)] assms(3,5) by auto
next
  case (EkSentCt1Received e auth seed ct1 dec)
  then show ?thesis using receive_ek_sent_agrees[OF assms(1,2) _ assms(4)] assms(3,5,6) by auto
next
  case (NoHeaderReceived e auth dec)
  then show ?thesis using receive_no_header_agrees[OF assms(1) _ assms(4)] assms(3,5) by auto
next
  case (HeaderReceived e auth header dec)
  then show ?thesis using assms(3,5) by (auto simp: receive_header_received_def result_simps)
next
  case (Ct1Sampled e auth header st ct1 enc dec)
  then show ?thesis using receive_ct1_sampled_agrees[OF assms(1) _ assms(4)] assms(3,5) by auto
next
  case (EkReceivedCt1Sampled e auth st ct1 ek enc)
  then show ?thesis using receive_ek_received_agrees[OF assms(1)] assms(3,5) by auto
next
  case (Ct1Acknowledged e auth header st ct1 dec)
  then show ?thesis using receive_ct1_acknowledged_agrees[OF assms(1) _ assms(4)] assms(3,5) by auto
next
  case (Ct2Sampled e auth enc)
  then show ?thesis using receive_ct2_sampled_agrees assms(3,5) by auto
qed (use assms(3) in simp)

section \<open>The initial sessions\<close>

definition no_draws :: draws where
  "no_draws = \<lparr>drawn_seed = (\<lambda>_. None), drawn_randomness = (\<lambda>_. None)\<rparr>"

lemma new_agrees:
  assumes "new_braid c secret p = Inr ses"
  shows "agrees c secret p no_draws (sess_state ses)"
proof -
  have un: "undrawn q no_draws n" for q n by (simp add: undrawn_def no_draws_def)
  have own: "owns q 0 \<longleftrightarrow> q = SpqResponder" for q by (cases q) (simp_all add: owns_def)
  show ?thesis
    using assms by (cases p) (auto simp: new_braid_def new_initiator_def new_responder_def result_simps un own INITIAL_EPOCH_def
        braid_sizes)
qed

end
