(* ===== verification/Spq_Network.thy ===== *)
theory Spq_Network
  imports Spq_Properties Braid_Agreement
begin

text \<open>
  Two ratchets that have exchanged nothing but a secret, over a network that loses, repeats and
  reorders messages. Whatever reaches a peer was sent by the other one; nothing is assumed of
  what the two braid sessions derive, it is proved.
\<close>

section \<open>The network\<close>

definition peer :: "spq_role \<Rightarrow> spq_role" where
  "peer p = (case p of SpqInitiator \<Rightarrow> SpqResponder | SpqResponder \<Rightarrow> SpqInitiator)"

record spq_net =
  net_party :: "spq_role \<Rightarrow> session spq_ratchet"
  net_sent :: "(spq_role \<times> spq_header \<times> bytes) set"
    \<comment> \<open>what was sent by whom, with the key the sender has for it\<close>

text \<open>
  The caller works on a clone and keeps it when an operation succeeds, so operations that fail
  leave the network as it is. A sent message stays deliverable, any number of times.
\<close>

inductive spq_net_reach :: "crypto \<Rightarrow> bytes \<Rightarrow> spq_net \<Rightarrow> bool" for c secret where
  net_start: "spq_new_initiator c secret = Inr a \<Longrightarrow> spq_new_responder c secret = Inr b \<Longrightarrow>
    spq_net_reach c secret \<lparr>net_party = (\<lambda>p. case p of SpqInitiator \<Rightarrow> a | SpqResponder \<Rightarrow> b), net_sent = {}\<rparr>"
| net_send: "spq_net_reach c secret n \<Longrightarrow> (\<And>k. length (fill k) = k) \<Longrightarrow>
    send_key c (braid_scka c) fill (net_party n p) = (Inr out, r) \<Longrightarrow>
    spq_net_reach c secret (n\<lparr>net_party := (net_party n)(p := r),
      net_sent := insert (p, sent_header out, sent_message_key out) (net_sent n)\<rparr>)"
| net_receive: "spq_net_reach c secret n \<Longrightarrow> (peer p, h, k) \<in> net_sent n \<Longrightarrow>
    receive_key c (braid_scka c) (net_party n p) h = (Inr key, r) \<Longrightarrow>
    spq_net_reach c secret (n\<lparr>net_party := (net_party n)(p := r)\<rparr>)"

lemma peer_simps [simp]: "peer (peer p) = p" "peer p \<noteq> p" "p \<noteq> peer p"
  by (cases p; simp add: peer_def)+

lemma peer_iff: "q \<noteq> p \<longleftrightarrow> q = peer p"
  by (cases p; cases q) (simp_all add: peer_def)

section \<open>An operation of the ratchet on its session\<close>

lemma send_key_session:
  assumes "send_key c (braid_scka c) fill r = (Inr out, r')"
  obtains so where "send_state c fill (sess_state (spq_braid r)) = Inr (sess_state (spq_braid r'), so)"
    "scka_send (braid_scka c) fill (spq_braid r) = (Inr so, spq_braid r')"
    "hdr_braid_message (sent_header out) = out_message so"
proof -
  obtain so s' where so: "scka_send (braid_scka c) fill (spq_braid r) = (Inr so, s')"
    using assms unfolding send_key_def by (auto simp: result_simps Let_def split: prod.splits)
  obtain r1 r2 where r': "send_on_chain c (out_message so) r2 = (Inr out, r')"
    using assms unfolding send_key_def by (auto simp: so result_simps Let_def)
  have s': "spq_braid r' = s'" using send_key_braid[OF assms] so by simp
  then have "send_state c fill (sess_state (spq_braid r)) = Inr (sess_state (spq_braid r'), so)"
    using so by (auto simp: braid_scka_def elim!: session_send_outcome)
  moreover have "hdr_braid_message (sent_header out) = out_message so" using r' by (auto elim!: send_on_chain_InrE)
  ultimately show thesis using so s' that by blast
qed

lemma receive_key_session:
  assumes "receive_key c (braid_scka c) r h = (Inr key, r')"
  obtains ro where "receive_state c (sess_state (spq_braid r)) (hdr_braid_message h) = Inr (sess_state (spq_braid r'), ro)"
    "scka_receive (braid_scka c) (spq_braid r) (hdr_braid_message h) = (Inr ro, spq_braid r')"
proof -
  obtain ro s' where ro: "scka_receive (braid_scka c) (spq_braid r) (hdr_braid_message h) = (Inr ro, s')"
    using assms unfolding receive_key_def by (auto simp: result_simps Let_def split: prod.splits)
  have s': "spq_braid r' = s'" using receive_key_braid[OF assms] ro by simp
  then have "receive_state c (sess_state (spq_braid r)) (hdr_braid_message h) = Inr (sess_state (spq_braid r'), ro)"
    using ro by (auto simp: braid_scka_def elim!: session_receive_outcome)
  then show thesis using ro s' that by blast
qed

section \<open>Histories of keys\<close>

text \<open>The keys a session has output, newest first, are those the draws determine.\<close>

definition keys_match :: "crypto \<Rightarrow> draws \<Rightarrow> bytes list \<Rightarrow> bool" where
  "keys_match c g ks \<longleftrightarrow> (\<forall>i<length ks. \<exists>k. key_of c g (length ks - i) = Some k \<and> ks ! i = key_bytes k)"

lemma keys_match_Nil [simp]: "keys_match c g []"
  by (simp add: keys_match_def)

lemma keys_match_Cons:
  assumes "keys_match c g ks" "key_of c g (Suc (length ks)) = Some k"
  shows "keys_match c g (key_bytes k # ks)"
  unfolding keys_match_def
proof (intro allI impI)
  fix i assume "i < length (key_bytes k # ks)"
  then show "\<exists>k'. key_of c g (length (key_bytes k # ks) - i) = Some k' \<and> (key_bytes k # ks) ! i = key_bytes k'"
    using assms by (cases i) (auto simp: keys_match_def)
qed

lemma keys_match_drop: "keys_match c g ks \<Longrightarrow> keys_match c g (drop j ks)"
  unfolding keys_match_def by (auto simp: less_diff_conv add.commute)

lemma keys_match_unique: "keys_match c g xs \<Longrightarrow> keys_match c g ys \<Longrightarrow> length xs = length ys \<Longrightarrow> xs = ys"
  unfolding keys_match_def by (rule nth_equalityI) (auto, metis option.inject)

lemma keys_match_more:
  assumes "draws_more p g g'" "keys_match c g ks"
  shows "keys_match c g' ks"
  using assms(2) more_key[OF assms(1)] unfolding keys_match_def by blast

lemma epoch_seeds_drop:
  "e \<le> length hist \<Longrightarrow> epoch_seeds c secret role hist e = epoch_seeds c secret role (drop (length hist - e) hist) e"
  by (simp add: epoch_seeds_def)

lemma seeds_of_peer:
  "epoch_seeds c secret (peer p) hist e = Inr (a, b) \<Longrightarrow> epoch_seeds c secret p hist e = Inr (b, a)"
  by (cases p) (auto simp: epoch_seeds_def chain_of_role_def peer_def result_simps)

section \<open>The invariant\<close>

definition party_ok :: "crypto \<Rightarrow> bytes \<Rightarrow> draws \<Rightarrow> spq_role \<Rightarrow> session spq_ratchet \<Rightarrow> bool" where
  "party_ok c secret g p r \<longleftrightarrow> spq_role r = p \<and> agrees c secret p g (sess_state (spq_braid r))
     \<and> (\<exists>hist. braid.in_step c secret hist r \<and> keys_match c g hist)"

definition entry_ok :: "crypto \<Rightarrow> bytes \<Rightarrow> draws \<Rightarrow> spq_role \<times> spq_header \<times> bytes \<Rightarrow> bool" where
  "entry_ok c secret g = (\<lambda>(p, h, k). honest_message c secret g (hdr_braid_message h)
     \<and> (\<exists>ks a b. keys_match c g ks \<and> length ks = unat (message_epoch h)
          \<and> epoch_seeds c secret p ks (length ks) = Inr (a, b)
          \<and> message_key_at c a (unat (hdr_message_number h)) = Inr k))"

definition net_ok :: "crypto \<Rightarrow> bytes \<Rightarrow> spq_net \<Rightarrow> bool" where
  "net_ok c secret n \<longleftrightarrow> (\<exists>g. (\<forall>p. party_ok c secret g p (net_party n p)) \<and> (\<forall>x\<in>net_sent n. entry_ok c secret g x))"

lemma party_ok_more: "draws_more p g g' \<Longrightarrow> q \<noteq> p \<Longrightarrow> party_ok c secret g q r \<Longrightarrow> party_ok c secret g' q r"
  using agrees_peer keys_match_more unfolding party_ok_def by metis

lemma entry_ok_more: "draws_more p g g' \<Longrightarrow> entry_ok c secret g x \<Longrightarrow> entry_ok c secret g' x"
  using more_honest keys_match_more unfolding entry_ok_def by (cases x) fastforce

lemma length_history:
  assumes "braid.in_step c secret hist r"
  shows "length hist = session_keyed (spq_braid r)" "length hist = unat (spq_epoch r)" "session_live (spq_braid r)"
  using assms unfolding braid.in_step_def core_def keys_ok_def by simp_all

lemma send_history:
  assumes "keys_match c g hist" "braid.in_step c secret hist r" "scka_send (braid_scka c) fill (spq_braid r) = (Inr so, s')"
    and "\<And>k. sent_key so = Some k \<Longrightarrow> key_of c g (session_cur (spq_braid r)) = Some k"
  shows "keys_match c g (sent_keys (Inr so) @ hist)"
proof (cases "sent_key so")
  case (Some k)
  note L = length_history[OF assms(2)]
  note S = braid.send_law[OF L(3) assms(3)]
  have "session_cur (spq_braid r) = Suc (length hist)"
    using braid.window[OF L(3)] braid.window[of s'] S L(1) Some by auto
  then show ?thesis using keys_match_Cons[OF assms(1)] assms(4)[OF Some] Some by simp
qed (use assms(1) in simp)

lemma receive_history:
  assumes "keys_match c g hist" "braid.in_step c secret hist r" "scka_receive (braid_scka c) (spq_braid r) m = (Inr ro, s')"
    and "\<And>k. received_key ro = Some k \<Longrightarrow> key_of c g (session_cur (spq_braid r)) = Some k"
  shows "keys_match c g (received_keys (Inr ro) @ hist)"
proof (cases "received_key ro")
  case (Some k)
  note L = length_history[OF assms(2)]
  note S = braid.receive_law[OF L(3) assms(3)]
  have "session_cur (spq_braid r) = Suc (length hist)"
    using braid.window[OF L(3)] braid.window[of s'] S L(1) Some by auto
  then show ?thesis using keys_match_Cons[OF assms(1)] assms(4)[OF Some] Some by simp
qed (use assms(1) in simp)

lemma spent_epoch:
  assumes "braid.in_step c secret hist r" "spent r e n"
  shows "unat e \<le> length hist"
proof -
  have "spq_receiving_epoch r \<le> spq_epoch r" "length hist = unat (spq_epoch r)"
    using assms(1) unfolding braid.in_step_def core_def chains_ok_def keys_ok_def by blast+
  then show ?thesis using assms(2) by (auto simp: spent_def word_less_nat_alt word_le_nat_alt)
qed

lemma sent_epoch:
  assumes "braid.in_step c secret hist r" "sent r e n"
  shows "unat e \<le> length hist"
proof -
  have "spq_sending_epoch r \<le> spq_epoch r" "length hist = unat (spq_epoch r)"
    using assms(1) unfolding braid.in_step_def core_def chains_ok_def keys_ok_def by blast+
  then show ?thesis using assms(2) by (auto simp: sent_def word_less_nat_alt word_le_nat_alt)
qed

text \<open>A party that sends, and a party that receives what its peer has sent.\<close>

lemma party_sends:
  assumes "party_ok c secret g p r" "send_key c (braid_scka c) fill r = (Inr out, r')"
  shows "\<exists>g'. draws_more p g g' \<and> party_ok c secret g' p r' \<and> entry_ok c secret g' (p, sent_header out, sent_message_key out)"
proof -
  obtain hist where P: "spq_role r = p" "agrees c secret p g (sess_state (spq_braid r))" "braid.in_step c secret hist r"
    "keys_match c g hist" using assms(1) unfolding party_ok_def by blast
  obtain so where so: "send_state c fill (sess_state (spq_braid r)) = Inr (sess_state (spq_braid r'), so)"
    "scka_send (braid_scka c) fill (spq_braid r) = (Inr so, spq_braid r')" "hdr_braid_message (sent_header out) = out_message so"
    by (rule send_key_session[OF assms(2)])
  obtain g' where g': "draws_more p g g'" "agrees c secret p g' (sess_state (spq_braid r'))" "honest_message c secret g' (out_message so)"
    "\<And>k. sent_key so = Some k \<Longrightarrow> key_of c g' (session_cur (spq_braid r)) = Some k"
    using send_agrees[OF P(2) so(1)] unfolding session_epoch_def by blast
  let ?h = "sent_keys (Inr so) @ hist" and ?e = "message_epoch (sent_header out)"
  have K: "keys_match c g' ?h" by (rule send_history[OF keys_match_more[OF g'(1) P(4)] P(3) so(2) g'(4)])
  note S = braid.send_step[OF P(3) assms(2), unfolded so(2) fst_conv P(1) Let_def]
  have le: "unat ?e \<le> length ?h" using S sent_epoch[of c secret ?h r'] by blast
  let ?ks = "drop (length ?h - unat ?e) ?h"
  have len: "length ?ks = unat ?e" using le by simp
  obtain a b where "epoch_seeds c secret p ?h (unat ?e) = Inr (a, b)"
    "message_key_at c a (unat (hdr_message_number (sent_header out))) = Inr (sent_message_key out)" using S by blast
  then have "keys_match c g' ?ks \<and> length ?ks = unat ?e \<and> epoch_seeds c secret p ?ks (length ?ks) = Inr (a, b)
    \<and> message_key_at c a (unat (hdr_message_number (sent_header out))) = Inr (sent_message_key out)"
    using keys_match_drop[OF K] epoch_seeds_drop[OF le] unfolding len by metis
  then have "entry_ok c secret g' (p, sent_header out, sent_message_key out)"
    using g'(3) so(3) unfolding entry_ok_def by auto
  moreover have "party_ok c secret g' p r'" using S g'(2) K P(1) unfolding party_ok_def by auto
  ultimately show ?thesis using g'(1) by blast
qed

lemma party_receives:
  assumes "crypto_sizes c" "kem_correct c" "party_ok c secret g p r" "entry_ok c secret g (peer p, h, k)"
    and "receive_key c (braid_scka c) r h = (Inr key, r')"
  shows "party_ok c secret g p r' \<and> key = k"
proof -
  obtain hist where P: "spq_role r = p" "agrees c secret p g (sess_state (spq_braid r))" "braid.in_step c secret hist r"
    "keys_match c g hist" using assms(3) unfolding party_ok_def by blast
  obtain ks a b where E: "honest_message c secret g (hdr_braid_message h)" "keys_match c g ks" "length ks = unat (message_epoch h)"
    "epoch_seeds c secret (peer p) ks (length ks) = Inr (a, b)" "message_key_at c a (unat (hdr_message_number h)) = Inr k"
    using assms(4) unfolding entry_ok_def by blast
  obtain ro where ro: "receive_state c (sess_state (spq_braid r)) (hdr_braid_message h) = Inr (sess_state (spq_braid r'), ro)"
    "scka_receive (braid_scka c) (spq_braid r) (hdr_braid_message h) = (Inr ro, spq_braid r')"
    by (rule receive_key_session[OF assms(5)])
  have "state_epoch (sess_state (spq_braid r)) \<noteq> 0" using length_history(3)[OF P(3)] by (simp add: session_live_def)
  from receive_agrees[OF assms(1,2) P(2) E(1) ro(1) this]
  have A: "agrees c secret p g (sess_state (spq_braid r'))"
    "\<And>k. received_key ro = Some k \<Longrightarrow> key_of c g (session_cur (spq_braid r)) = Some k"
    unfolding session_epoch_def by blast+
  let ?h = "received_keys (Inr ro) @ hist" and ?e = "message_epoch h"
  have K: "keys_match c g ?h" by (rule receive_history[OF P(4,3) ro(2) A(2)])
  note S = braid.receive_step[OF P(3) assms(5), unfolded ro(2) fst_conv P(1) Let_def]
  have le: "unat ?e \<le> length ?h" using S spent_epoch[of c secret ?h r'] by blast
  have ks: "drop (length ?h - unat ?e) ?h = ks"
    by (rule keys_match_unique[OF keys_match_drop[OF K] E(2)]) (use le E(3) in simp)
  obtain a' b' where s: "epoch_seeds c secret p ?h (unat ?e) = Inr (a', b')" "message_key_at c b' (unat (hdr_message_number h)) = Inr key"
    using S by blast
  have "b' = a" using s(1) seeds_of_peer[OF E(4)] unfolding epoch_seeds_drop[OF le] ks E(3) by simp
  then have "key = k" using s(2) E(5) by simp
  moreover have "party_ok c secret g p r'" using S A(1) K P(1) unfolding party_ok_def by auto
  ultimately show ?thesis by blast
qed

lemma net_reach_ok:
  assumes "crypto_sizes c" "kem_correct c" "spq_net_reach c secret n"
  shows "net_ok c secret n"
  using assms(3)
proof (induction rule: spq_net_reach.induct)
  case (net_start a b)
  have new: "party_ok c secret no_draws p r" if "spq_new c (new_braid c secret) p secret = Inr r" for p r
  proof -
    have "new_braid c secret p = Inr (spq_braid r)" using new_core[OF that] by blast
    from new_agrees[OF this] new_in_step[OF that] keys_match_Nil show ?thesis unfolding party_ok_def by blast
  qed
  have "party_ok c secret no_draws p (case p of SpqInitiator \<Rightarrow> a | SpqResponder \<Rightarrow> b)" for p
    using new net_start unfolding spq_new_initiator_def spq_new_responder_def by (cases p) simp_all
  then show ?case unfolding net_ok_def by auto
next
  case (net_send n fill p out r)
  obtain g where g: "\<And>p. party_ok c secret g p (net_party n p)" "\<And>x. x \<in> net_sent n \<Longrightarrow> entry_ok c secret g x"
    using net_send.IH unfolding net_ok_def by blast
  obtain g' where g': "draws_more p g g'" "party_ok c secret g' p r" "entry_ok c secret g' (p, sent_header out, sent_message_key out)"
    using party_sends[OF g(1) net_send(3)] by blast
  have "party_ok c secret g' q (((net_party n)(p := r)) q)" for q
    using g'(2) party_ok_more[OF g'(1) _ g(1)] by (cases "q = p") auto
  moreover have "entry_ok c secret g' x" if "x \<in> insert (p, sent_header out, sent_message_key out) (net_sent n)" for x
    using that g'(3) entry_ok_more[OF g'(1) g(2)] by blast
  ultimately show ?case unfolding net_ok_def by (intro exI[of _ g']) simp
next
  case (net_receive n p h k key r)
  obtain g where g: "\<And>p. party_ok c secret g p (net_party n p)" "\<And>x. x \<in> net_sent n \<Longrightarrow> entry_ok c secret g x"
    using net_receive.IH unfolding net_ok_def by blast
  have "party_ok c secret g p r" using party_receives[OF assms(1,2) g(1) g(2)[OF net_receive(2)] net_receive(3)] by blast
  then show ?case unfolding net_ok_def using g by auto
qed

section \<open>Pairs of ratchets\<close>

text \<open>Two ratchets that are the parties of a network, one way or the other.\<close>

definition net_pair :: "crypto \<Rightarrow> session spq_ratchet \<Rightarrow> session spq_ratchet \<Rightarrow> bool" where
  "net_pair c q r \<longleftrightarrow> (\<exists>secret n p. spq_net_reach c secret n \<and> net_party n p = q \<and> net_party n (peer p) = r)"

lemma net_pair_sym: "net_pair c q r \<longleftrightarrow> net_pair c r q"
  unfolding net_pair_def by (metis peer_simps(1))

lemma received_key_is_sent:
  assumes "crypto_sizes c" "kem_correct c" "spq_net_reach c secret n" "(peer p, h, k) \<in> net_sent n"
    and "receive_key c (braid_scka c) (net_party n p) h = (Inr key, r)"
  shows "key = k"
proof -
  obtain g where g: "\<And>p. party_ok c secret g p (net_party n p)" "\<And>x. x \<in> net_sent n \<Longrightarrow> entry_ok c secret g x"
    using net_reach_ok[OF assms(1-3)] unfolding net_ok_def by blast
  show ?thesis using party_receives[OF assms(1,2) g(1) g(2)[OF assms(4)] assms(5)] by blast
qed

lemma net_pair_delivers:
  assumes "crypto_sizes c" "kem_correct c" "net_pair c q r" "\<And>k. length (fill k) = k"
    and "send_key c (braid_scka c) fill q = (Inr out, q')"
    and "receive_key c (braid_scka c) r (sent_header out) = (Inr key, r')"
  shows "key = sent_message_key out \<and> net_pair c q' r'"
proof -
  obtain secret n p where n: "spq_net_reach c secret n" "net_party n p = q" "net_party n (peer p) = r"
    using assms(3) unfolding net_pair_def by blast
  let ?m = "n\<lparr>net_party := (net_party n)(p := q'), net_sent := insert (p, sent_header out, sent_message_key out) (net_sent n)\<rparr>"
  have m: "spq_net_reach c secret ?m" using n(2) assms(5) by (intro net_send[OF n(1) assms(4)]) simp
  have sent: "(peer (peer p), sent_header out, sent_message_key out) \<in> net_sent ?m" by simp
  have r: "receive_key c (braid_scka c) (net_party ?m (peer p)) (sent_header out) = (Inr key, r')"
    using n(3) assms(6) by simp
  let ?o = "?m\<lparr>net_party := (net_party ?m)(peer p := r')\<rparr>"
  have "spq_net_reach c secret ?o" by (rule net_receive[OF m sent r])
  moreover have "net_party ?o p = q'" "net_party ?o (peer p) = r'" by simp_all
  ultimately show ?thesis using received_key_is_sent[OF assms(1,2) m sent r] unfolding net_pair_def by blast
qed

section \<open>Both peers derive the same keys\<close>

text \<open>
  C7: Both peers derive the same message keys. Two ratchets start from one secret in opposite roles and
  exchange messages over a network that loses, repeats and reorders them, through any number of epochs and key
  exchanges of their braid sessions. Whenever a ratchet gets a key for a header of its peer, it is the key
  the peer had when it sent the header. Assumed are only the sizes of the primitives and that
  decapsulation returns the secret of the encapsulation.
\<close>

theorem peers_derive_same_keys:
  assumes "crypto_sizes c" and "kem_correct c" and "spq_net_reach c secret n"
    and "(peer p, header, k) \<in> net_sent n"
    and "receive_key c (braid_scka c) (net_party n p) header = (Inr key, r)"
  shows "key = k"
  by (rule received_key_is_sent[OF assms])

text \<open>The sample network: the responder sends twice, and the second message arrives first.\<close>

definition sample_net :: "session spq_ratchet \<Rightarrow> session spq_ratchet \<Rightarrow> (spq_role \<times> spq_header \<times> bytes) set \<Rightarrow> spq_net" where
  "sample_net a b msgs = \<lparr>net_party = (\<lambda>p. case p of SpqInitiator \<Rightarrow> a | SpqResponder \<Rightarrow> b), net_sent = msgs\<rparr>"

definition sample_entry :: "spq_send \<Rightarrow> spq_role \<times> spq_header \<times> bytes" where
  "sample_entry out = (SpqResponder, sent_header out, sent_message_key out)"

lemma sample_net_simps [simp]:
  "net_party (sample_net a b s) SpqInitiator = a" "net_party (sample_net a b s) SpqResponder = b" "net_sent (sample_net a b s) = s"
  "(net_party (sample_net a b s))(SpqInitiator := r) = net_party (sample_net r b s)"
  "(net_party (sample_net a b s))(SpqResponder := r) = net_party (sample_net a r s)"
  by (auto simp: sample_net_def fun_eq_iff split: spq_role.split)

lemma sample_net_update [simp]:
  "(sample_net a b s)\<lparr>net_party := net_party (sample_net a' b' s')\<rparr> = sample_net a' b' s"
  "(sample_net a b s)\<lparr>net_sent := s'\<rparr> = sample_net a b s'"
  by (simp_all add: sample_net_def)

lemma sample_net_start: "spq_net_reach sample_crypto sample_secret (sample_net sample_alice sample_bob {})"
  unfolding sample_net_def
  using sample_new by (intro net_start) (simp_all add: spq_new_initiator_def spq_new_responder_def)

lemma sample_net_sends:
  "spq_net_reach sample_crypto sample_secret
     (sample_net sample_alice sample_bob2 {sample_entry sample_sent2, sample_entry sample_sent1})"
proof -
  have one: "spq_net_reach sample_crypto sample_secret (sample_net sample_alice sample_bob1 {sample_entry sample_sent1})"
    using net_send[OF sample_net_start, of "\<lambda>n. replicate n 7" SpqResponder sample_sent1 sample_bob1] sample_sends(1)
    by (simp add: sample_entry_def)
  show ?thesis
    using net_send[OF one, of "\<lambda>n. replicate n 7" SpqResponder sample_sent2 sample_bob2] sample_sends(2)
    by (simp add: sample_entry_def)
qed

theorem peers_derive_same_keys_witness:
  "\<exists>n r. spq_net_reach sample_crypto sample_secret n \<and> net_party n SpqInitiator = sample_alice1
    \<and> receive_key sample_crypto (braid_scka sample_crypto) sample_alice1 (sent_header sample_sent1)
        = (Inr (sent_message_key sample_sent1), r)"
proof -
  obtain key2 where k2: "receive_key sample_crypto (braid_scka sample_crypto) sample_alice (sent_header sample_sent2) = (Inr key2, sample_alice1)"
    using sample_receives(1) by blast
  obtain key1 r where k1: "receive_key sample_crypto (braid_scka sample_crypto) sample_alice1 (sent_header sample_sent1) = (Inr key1, r)"
    using sample_receives(2) by blast
  let ?n = "sample_net sample_alice1 sample_bob2 {sample_entry sample_sent2, sample_entry sample_sent1}"
  have n: "spq_net_reach sample_crypto sample_secret ?n"
    using net_receive[OF sample_net_sends, of SpqInitiator "sent_header sample_sent2" "sent_message_key sample_sent2" key2 sample_alice1] k2
    by (simp add: sample_entry_def peer_def)
  have "key1 = sent_message_key sample_sent1"
    by (rule peers_derive_same_keys[OF sample_crypto_sizes sample_crypto_kem n, where p = SpqInitiator and header = "sent_header sample_sent1" and r = r])
      (simp_all add: sample_entry_def peer_def k1)
  then show ?thesis using n k1 by (intro exI[of _ ?n]) auto
qed

end
