(* ===== verification/Rust_Text.thy ===== *)
theory Rust_Text
  imports Prelude
begin

text \<open>
  Strings of the source: a \<open>str\<close> is the list of its Unicode code points, \<open>utf8\<close> its bytes
  (what \<open>len\<close> counts and what is hashed), \<open>trim\<close> removes code points with the Unicode
  property White_Space at both ends. \<open>lit\<close> reads a string literal.
\<close>

type_synonym rstr = "nat list"

definition lit :: "string \<Rightarrow> rstr" where
  "lit s = map of_char s"

definition utf8_char :: "nat \<Rightarrow> bytes" where
  "utf8_char c =
     (if c < 0x80 then [of_nat c]
      else if c < 0x800 then [of_nat (0xC0 + c div 64), of_nat (0x80 + c mod 64)]
      else if c < 0x10000 then
        [of_nat (0xE0 + c div 4096), of_nat (0x80 + c div 64 mod 64), of_nat (0x80 + c mod 64)]
      else [of_nat (0xF0 + c div 262144), of_nat (0x80 + c div 4096 mod 64),
            of_nat (0x80 + c div 64 mod 64), of_nat (0x80 + c mod 64)])"

definition utf8 :: "rstr \<Rightarrow> bytes" where
  "utf8 s = concat (map utf8_char s)"

definition str_len :: "rstr \<Rightarrow> nat" where
  "str_len s = length (utf8 s)"

definition white_space :: "nat \<Rightarrow> bool" where
  "white_space c \<longleftrightarrow> 9 \<le> c \<and> c \<le> 13 \<or> c = 32 \<or> c = 0x85 \<or> c = 0xA0 \<or> c = 0x1680
     \<or> 0x2000 \<le> c \<and> c \<le> 0x200A \<or> c = 0x2028 \<or> c = 0x2029 \<or> c = 0x202F \<or> c = 0x205F \<or> c = 0x3000"

definition trim :: "rstr \<Rightarrow> rstr" where
  "trim s = rev (dropWhile white_space (rev (dropWhile white_space s)))"

lemma utf8_Nil [simp]: "utf8 [] = []" and utf8_Cons [simp]: "utf8 (c # s) = utf8_char c @ utf8 s"
  by (simp_all add: utf8_def)

lemma utf8_append [simp]: "utf8 (s @ t) = utf8 s @ utf8 t"
  by (simp add: utf8_def)

lemma length_utf8_char_pos: "Suc 0 \<le> length (utf8_char c)"
  by (simp add: utf8_char_def)

lemma length_le_str_len: "length s \<le> str_len s"
proof (induction s)
  case (Cons c s)
  then show ?case
    using add_mono[OF length_utf8_char_pos[of c] Cons.IH] by (simp add: str_len_def)
qed (simp add: str_len_def)

lemma dropWhile_fixed: "dropWhile P (dropWhile P xs) = dropWhile P xs"
  by (induction xs) auto

lemma trim_Nil_iff: "trim s = [] \<longleftrightarrow> (\<forall>c\<in>set s. white_space c)"
proof -
  have "trim s = [] \<longleftrightarrow> (\<forall>c\<in>set (dropWhile white_space s). white_space c)"
    by (simp add: trim_def)
  also have "\<dots> \<longleftrightarrow> dropWhile white_space (dropWhile white_space s) = []"
    by (simp only: dropWhile_eq_Nil_conv)
  also have "\<dots> \<longleftrightarrow> (\<forall>c\<in>set s. white_space c)" by (simp add: dropWhile_fixed)
  finally show ?thesis .
qed

lemma trim_idem [simp]: "trim (trim s) = trim s"
proof -
  let ?d = "dropWhile white_space s"
  have "dropWhile white_space (trim s) = trim s"
  proof (cases "trim s")
    case (Cons c t)
    have "\<exists>u. ?d = trim s @ u"
      unfolding trim_def by (metis rev_append rev_rev_ident takeWhile_dropWhile_id)
    then obtain u where d: "?d = c # t @ u" using Cons by auto
    then have "\<not> white_space c" using hd_dropWhile[of white_space s] by (metis list.distinct(1) list.sel(1))
    then show ?thesis using Cons by simp
  qed simp
  moreover have "dropWhile white_space (rev (trim s)) = rev (trim s)"
    by (simp add: trim_def dropWhile_fixed)
  ultimately show ?thesis unfolding trim_def[of "trim s"] by simp
qed

end
