(* ===== verification/Utf8.thy ===== *)
theory Utf8
  imports Rust_Text
begin

text \<open>
  The strict decoder of the standard library, \<open>String::from_utf8\<close>: overlong forms, surrogates
  and truncated sequences are refused. It inverts \<open>utf8\<close> exactly on the strings of the
  source, which hold Unicode scalar values only (\<open>valid_str\<close>).
\<close>

definition scalar :: "nat \<Rightarrow> bool" where
  "scalar c \<longleftrightarrow> c < 0xD800 \<or> 0xE000 \<le> c \<and> c < 0x110000"

definition valid_str :: "rstr \<Rightarrow> bool" where
  "valid_str s \<longleftrightarrow> (\<forall>c\<in>set s. scalar c)"

definition continuation :: "u8 \<Rightarrow> bool" where
  "continuation b \<longleftrightarrow> unat b div 64 = 2"

definition low_bits :: "u8 \<Rightarrow> nat" where
  "low_bits b = unat b mod 64"

definition utf8_next2 :: "nat \<Rightarrow> bytes \<Rightarrow> (nat \<times> bytes) option" where
  "utf8_next2 x bs =
     (case bs of b # r \<Rightarrow>
        if continuation b then Some ((x - 0xC0) * 64 + low_bits b, r) else None
      | _ \<Rightarrow> None)"

definition utf8_next3 :: "nat \<Rightarrow> bytes \<Rightarrow> (nat \<times> bytes) option" where
  "utf8_next3 x bs =
     (case bs of b # c # r \<Rightarrow>
        let v = ((x - 0xE0) * 64 + low_bits b) * 64 + low_bits c in
        if continuation b \<and> continuation c \<and> 0x800 \<le> v \<and> scalar v then Some (v, r) else None
      | _ \<Rightarrow> None)"

definition utf8_next4 :: "nat \<Rightarrow> bytes \<Rightarrow> (nat \<times> bytes) option" where
  "utf8_next4 x bs =
     (case bs of b # c # d # r \<Rightarrow>
        let v = (((x - 0xF0) * 64 + low_bits b) * 64 + low_bits c) * 64 + low_bits d in
        if continuation b \<and> continuation c \<and> continuation d \<and> 0x10000 \<le> v \<and> scalar v
        then Some (v, r) else None
      | _ \<Rightarrow> None)"

fun utf8_next :: "bytes \<Rightarrow> (nat \<times> bytes) option" where
  "utf8_next [] = None"
| "utf8_next (a # r) =
     (let x = unat a in
      if x < 0x80 then Some (x, r)
      else if x < 0xC2 then None
      else if x < 0xE0 then utf8_next2 x r
      else if x < 0xF0 then utf8_next3 x r
      else if x < 0xF5 then utf8_next4 x r
      else None)"

lemma unat_byte: "n < 256 \<Longrightarrow> unat (of_nat n :: u8) = n"
  by (simp add: unat_of_nat)

lemma byte_eqI: "n < 256 \<Longrightarrow> n = unat b \<Longrightarrow> of_nat n = (b :: u8)"
  by simp

text \<open>Digits to the base 64.\<close>

lemma digit_of:
  assumes "n < (64 :: nat)"
  shows "(m * 64 + n) mod 64 = n" "(m * 64 + n) div 64 = m"
  using assms by simp_all

lemma two_digits: "c div 4096 * 64 + c div 64 mod 64 = c div (64 :: nat)"
proof -
  have "c div 4096 = c div 64 div 64" by (simp add: div_mult2_eq[symmetric])
  then show ?thesis by simp
qed

lemma three_digits: "c div 262144 * 64 + c div 4096 mod 64 = c div (4096 :: nat)"
proof -
  have "c div 262144 = c div 4096 div 64" by (simp add: div_mult2_eq[symmetric])
  then show ?thesis by simp
qed

lemma continuation_byte:
  assumes "n < 64"
  shows "continuation (of_nat (128 + n))" "low_bits (of_nat (128 + n)) = n"
  using assms digit_of[of n 2] by (simp_all add: continuation_def low_bits_def unat_byte del: of_nat_add)

lemma continuation_eq:
  assumes "continuation b"
  shows "of_nat (128 + low_bits b) = b" "low_bits b < 64"
proof -
  have "unat b = unat b div 64 * 64 + unat b mod 64" by (rule div_mult_mod_eq[symmetric])
  then have "128 + low_bits b = unat b" using assms unfolding continuation_def low_bits_def by linarith
  then show "of_nat (128 + low_bits b) = b"
    by (intro byte_eqI) (use unsigned_less[of b] in simp_all)
qed (simp add: low_bits_def)

text \<open>One character at a time, in both directions.\<close>

lemma utf8_next_char:
  assumes "scalar c"
  shows "utf8_next (utf8_char c @ r) = Some (c, r)"
proof -
  consider "c < 0x80" | "0x80 \<le> c" "c < 0x800" | "0x800 \<le> c" "c < 0x10000" | "0x10000 \<le> c" "c < 0x110000"
    using assms unfolding scalar_def by linarith
  then show ?thesis
  proof cases
    case 1
    then show ?thesis by (simp add: utf8_char_def unat_byte)
  next
    case 2
    have "unat (of_nat (0xC0 + c div 64) :: u8) = 0xC0 + c div 64" using 2 by (intro unat_byte) linarith
    moreover have "2 \<le> c div 64" "c div 64 < 32" using 2 by linarith+
    ultimately show ?thesis
      using 2 continuation_byte[of "c mod 64"] by (simp add: utf8_char_def utf8_next2_def del: of_nat_add)
  next
    case 3
    have "unat (of_nat (0xE0 + c div 4096) :: u8) = 0xE0 + c div 4096" using 3 by (intro unat_byte) linarith
    moreover have "c div 4096 < 16" using 3 by linarith
    moreover have "(c div 4096 * 64 + c div 64 mod 64) * 64 + c mod 64 = c" by (simp only: two_digits) simp
    ultimately show ?thesis
      using 3 assms continuation_byte[of "c mod 64"] continuation_byte[of "c div 64 mod 64"]
      by (simp add: utf8_char_def utf8_next3_def Let_def del: of_nat_add)
  next
    case 4
    have "unat (of_nat (0xF0 + c div 262144) :: u8) = 0xF0 + c div 262144" using 4 by (intro unat_byte) linarith
    moreover have "c div 262144 < 5" using 4 by linarith
    moreover have "((c div 262144 * 64 + c div 4096 mod 64) * 64 + c div 64 mod 64) * 64 + c mod 64 = c"
      by (simp only: two_digits three_digits) simp
    ultimately show ?thesis
      using 4 assms continuation_byte[of "c mod 64"] continuation_byte[of "c div 64 mod 64"]
        continuation_byte[of "c div 4096 mod 64"]
      by (simp add: utf8_char_def utf8_next4_def Let_def del: of_nat_add)
  qed
qed

lemma utf8_next_Some:
  assumes "utf8_next bs = Some (c, r)"
  shows "bs = utf8_char c @ r \<and> scalar c"
proof -
  obtain a t where bs: "bs = a # t" using assms by (cases bs) auto
  let ?x = "unat a"
  have x: "?x < 256" using unsigned_less[of a] by simp
  consider (one) "?x < 0x80" "c = ?x" "r = t"
    | (two) "0xC2 \<le> ?x" "?x < 0xE0" "utf8_next2 ?x t = Some (c, r)"
    | (three) "0xE0 \<le> ?x" "?x < 0xF0" "utf8_next3 ?x t = Some (c, r)"
    | (four) "0xF0 \<le> ?x" "?x < 0xF5" "utf8_next4 ?x t = Some (c, r)"
    using assms unfolding bs by (auto simp: Let_def split: if_splits)
  then show ?thesis
  proof cases
    case one
    then show ?thesis using bs by (simp add: utf8_char_def scalar_def)
  next
    case two
    then obtain b where b: "t = b # r" "continuation b" "c = (?x - 0xC0) * 64 + low_bits b"
      by (auto simp: utf8_next2_def split: list.splits if_splits)
    note l = continuation_eq[OF b(2)]
    have d: "c div 64 = ?x - 0xC0" "c mod 64 = low_bits b" using l b(3) by simp_all
    have "of_nat (0xC0 + c div 64) = a" using two d x by (intro byte_eqI) linarith+
    moreover have "0x80 \<le> c" "c < 0x800" using two b(3) l by linarith+
    ultimately show ?thesis using l(1) d(2) bs b(1) by (simp add: utf8_char_def scalar_def del: of_nat_add)
  next
    case three
    then obtain b d where b: "t = b # d # r" "continuation b" "continuation d"
        "c = ((?x - 0xE0) * 64 + low_bits b) * 64 + low_bits d" "0x800 \<le> c" "scalar c"
      by (auto simp: utf8_next3_def Let_def split: list.splits if_splits)
    note l = continuation_eq[OF b(2)] continuation_eq[OF b(3)]
    have d: "c mod 64 = low_bits d" "c div 64 = (?x - 0xE0) * 64 + low_bits b" unfolding b(4) by (rule digit_of[OF l(4)])+
    have e: "c div 64 mod 64 = low_bits b" "c div 64 div 64 = ?x - 0xE0"
unfolding d(2) by (rule digit_of[OF l(2)])+
    have "of_nat (0xE0 + c div 4096) = a"
      using three e(2) x by (intro byte_eqI) (simp_all add: div_mult2_eq[symmetric])
    moreover have "c < 0x10000"
    proof -
      have "(q * 64 + m) * 64 + n < 0x10000" if "q < 16" "m < 64" "n < 64" for q m n :: nat
      proof -
        have "q * 64 + m \<le> 1023" using that by simp
        then have "(q * 64 + m) * 64 \<le> 65472" by simp
        then show ?thesis using that(3) by simp
      qed
      from this[OF _ l(2,4), of "?x - 0xE0"] show ?thesis using three(2) b(4) by simp
    qed
    ultimately show ?thesis
      using l d(1) e(1) bs b(1,5,6) by (simp add: utf8_char_def del: of_nat_add)
  next
    case four
    then obtain b d e where b: "t = b # d # e # r" "continuation b" "continuation d" "continuation e"
        "c = (((?x - 0xF0) * 64 + low_bits b) * 64 + low_bits d) * 64 + low_bits e" "0x10000 \<le> c" "scalar c"
      by (auto simp: utf8_next4_def Let_def split: list.splits if_splits)
    note l = continuation_eq[OF b(2)] continuation_eq[OF b(3)] continuation_eq[OF b(4)]
    have d: "c mod 64 = low_bits e" "c div 64 = ((?x - 0xF0) * 64 + low_bits b) * 64 + low_bits d" unfolding b(5) by (rule digit_of[OF l(6)])+
    have f: "c div 64 mod 64 = low_bits d" "c div 64 div 64 = (?x - 0xF0) * 64 + low_bits b"
      unfolding d(2) by (rule digit_of[OF l(4)])+
    have g: "c div 64 div 64 mod 64 = low_bits b" "c div 64 div 64 div 64 = ?x - 0xF0"
      unfolding f(2) by (rule digit_of[OF l(2)])+
    have "of_nat (0xF0 + c div 262144) = a"
      using four g(2) x by (intro byte_eqI) (simp_all add: div_mult2_eq[symmetric])
    moreover have "c div 4096 mod 64 = low_bits b" using g(1) by (simp add: div_mult2_eq[symmetric])
    ultimately show ?thesis
      using l d(1) f(1) bs b(1,6,7) by (simp add: utf8_char_def del: of_nat_add)
  qed
qed

lemma utf8_next_shorter: "utf8_next bs = Some (c, r) \<Longrightarrow> length r < length bs"
  using utf8_next_Some[of bs c r] length_utf8_char_pos[of c] by auto

function from_utf8 :: "bytes \<Rightarrow> rstr option" where
  "from_utf8 bs =
     (if bs = [] then Some []
      else case utf8_next bs of
        None \<Rightarrow> None
      | Some (c, r) \<Rightarrow> map_option (Cons c) (from_utf8 r))"
  by auto
termination
  by (relation "measure length") (auto dest: utf8_next_shorter)

declare from_utf8.simps [simp del]

lemma utf8_char_nonempty [simp]: "utf8_char c \<noteq> []"
  using length_utf8_char_pos[of c] by auto

lemma from_utf8_Nil [simp]: "from_utf8 [] = Some []"
  by (simp add: from_utf8.simps)

lemma from_utf8_char: "scalar c \<Longrightarrow> from_utf8 (utf8_char c @ bs) = map_option (Cons c) (from_utf8 bs)"
  by (subst from_utf8.simps) (simp add: utf8_next_char)

lemma from_utf8_utf8: "valid_str s \<Longrightarrow> from_utf8 (utf8 s) = Some s"
  by (induction s) (simp_all add: valid_str_def from_utf8_char)

theorem from_utf8_iff: "from_utf8 bs = Some s \<longleftrightarrow> valid_str s \<and> utf8 s = bs"
proof
  show "from_utf8 bs = Some s \<Longrightarrow> valid_str s \<and> utf8 s = bs"
  proof (induction bs arbitrary: s rule: from_utf8.induct)
    case (1 bs)
    show ?case
    proof (cases "bs = []")
      case False
      then obtain c r t where n: "utf8_next bs = Some (c, r)" "from_utf8 r = Some t" "s = c # t"
        using "1.prems" by (subst (asm) from_utf8.simps) (auto split: option.splits)
      then show ?thesis
        using "1.IH"[OF False n(1) refl n(2)] utf8_next_Some[OF n(1)] by (simp add: valid_str_def)
    qed (use "1.prems" in \<open>simp add: valid_str_def\<close>)
  qed
qed (auto simp: from_utf8_utf8)

lemma utf8_inj: "valid_str s \<Longrightarrow> valid_str t \<Longrightarrow> utf8 s = utf8 t \<Longrightarrow> s = t"
  by (metis from_utf8_utf8 option.inject)

lemma valid_str_lit [simp]: "valid_str (lit s)"
proof -
  have "of_char c < (0xD800 :: nat)" for c
    by (rule less_trans[OF nat_of_char_less_256]) simp
  then show ?thesis by (auto simp: valid_str_def lit_def scalar_def)
qed

end
