(* ===== verification/Content_Frame.thy ===== *)
theory Content_Frame
  imports Stateful Utf8
begin

text \<open>
  Content encryption of the mesh (\<open>core/secure_mesh_crypto\<close>), first half: constants, data,
  validation, the length-prefixed reader and the two plaintext frames, and the padding to
  buckets. An error is a constructor; the public and the
  private-context wording of one failure share it, and a label in it is the field it names.
\<close>

section \<open>Constants and errors\<close>

definition SECURE_MESH_PROTOCOL_VERSION :: rstr where
  "SECURE_MESH_PROTOCOL_VERSION = lit ''licomesh.secure-mesh.v1''"
definition SECURE_MESH_CONTENT_CIPHER_SUITE :: rstr where
  "SECURE_MESH_CONTENT_CIPHER_SUITE = lit ''licomesh.secure-payload.v1.chacha20poly1305-hkdfsha256''"
definition CONTENT_KEY_LEN :: nat where "CONTENT_KEY_LEN = 32"
definition CONTENT_NONCE_LEN :: nat where "CONTENT_NONCE_LEN = 12"
definition AAD_HASH_LEN :: nat where "AAD_HASH_LEN = 32"
definition MAX_CONTENT_BYTES :: nat where "MAX_CONTENT_BYTES = 16 * 1024 * 1024"
definition MAX_CONTEXT_FIELD_BYTES :: nat where "MAX_CONTEXT_FIELD_BYTES = 4096"
definition MAX_CONTENT_TYPE_BYTES :: nat where "MAX_CONTENT_TYPE_BYTES = 255"
definition AEAD_TAG_LEN :: nat where "AEAD_TAG_LEN = 16"
definition MIN_PADDING_BUCKET_BYTES :: nat where "MIN_PADDING_BUCKET_BYTES = 256"
definition POWER_OF_TWO_PADDING_LIMIT_BYTES :: nat where "POWER_OF_TWO_PADDING_LIMIT_BYTES = 64 * 1024"
definition LARGE_PADDING_BUCKET_STEP_BYTES :: nat where "LARGE_PADDING_BUCKET_STEP_BYTES = 64 * 1024"
definition MAX_PADDING_BUCKET_BYTES :: nat where "MAX_PADDING_BUCKET_BYTES = 16 * 1024 * 1024"
definition MAX_SEALED_CONTENT_BYTES :: nat where "MAX_SEALED_CONTENT_BYTES = MAX_PADDING_BUCKET_BYTES"
definition AAD_MAGIC :: bytes where "AAD_MAGIC = ascii ''LCOSM-AAD-v1''"
definition PLAINTEXT_MAGIC :: bytes where "PLAINTEXT_MAGIC = ascii ''LCOSM-PT-v1''"
definition PADDED_PLAINTEXT_MAGIC :: bytes where "PADDED_PLAINTEXT_MAGIC = ascii ''LCOSM-PAD-v1''"
definition HEADER_MAGIC :: bytes where "HEADER_MAGIC = ascii ''LCOSM-HDR-v1''"
definition ADDITIONAL_AAD_MAGIC :: bytes where "ADDITIONAL_AAD_MAGIC = ascii ''LCOSM-ADDITIONAL-AAD-v1''"
definition HKDF_SALT_DOMAIN :: bytes where
  "HKDF_SALT_DOMAIN = ascii ''licomesh.secure-mesh.payload-aead.hkdf-salt.v1''"
definition HKDF_INFO_DOMAIN :: bytes where
  "HKDF_INFO_DOMAIN = ascii ''licomesh.secure-mesh.payload-aead.hkdf-info.v1''"
definition MAX_ADDITIONAL_AAD_BYTES :: nat where "MAX_ADDITIONAL_AAD_BYTES = 16 * 1024"
definition PRIVATE_CONTEXT_AEAD_AAD :: bytes where
  "PRIVATE_CONTEXT_AEAD_AAD = ascii ''licomesh.secure-mesh.private-context-aead.public-profile.v2''"
definition PRIVATE_CONTEXT_FRAME_MAGIC :: bytes where
  "PRIVATE_CONTEXT_FRAME_MAGIC = ascii ''LCOSM-PRIVATE-CONTEXT-FRAME-v2''"
definition PRIVATE_CONTEXT_HEADER_MAGIC :: bytes where
  "PRIVATE_CONTEXT_HEADER_MAGIC = ascii ''LCOSM-PRIVATE-CONTEXT-HEADER-v2''"
definition PRIVATE_CONTEXT_HKDF_SALT_DOMAIN :: bytes where
  "PRIVATE_CONTEXT_HKDF_SALT_DOMAIN = ascii ''licomesh.secure-mesh.private-context-aead.hkdf-salt.v2''"
definition PRIVATE_CONTEXT_HKDF_INFO_DOMAIN :: bytes where
  "PRIVATE_CONTEXT_HKDF_INFO_DOMAIN = ascii ''licomesh.secure-mesh.private-context-aead.hkdf-info.v2''"

datatype content_error =
    FieldTooLarge
  | FrameMagicInvalid
  | FrameLengthOverflow
  | FrameTruncated
  | KindTagUnsupported
  | ContextFieldRequired string
  | ContextFieldTooLarge string
  | BodyTooLarge
  | ContentTypeEmpty
  | ContentTypeTooLarge
  | AdditionalAadTooLarge
  | ContentTypeMarkerUnsupported
  | TrailingBytes
  | NotUtf8 string
  | StringOutsideBounds string
  | StringRequired string
  | PaddedLengthOverflow
  | BucketOverflow
  | MaximumBucketExceeded
  | BucketOutsideBounds
  | BucketNotPowerOfTwo
  | BucketNotAligned
  | BucketInvalid
  | TooLargeToPad
  | PaddedTruncated
  | PaddedMagicInvalid
  | PaddedLengthInvalid
  | PaddedBytesInvalid
  | ContentKeyLengthInvalid
  | ContentKeyDerivationFailed
  | HeaderTooLarge
  | HeaderNotBase64
  | HeaderLengthInvalid
  | HeaderMagicInvalid
  | DecoderBoundsInvalid
  | EncodedOutsideBounds string
  | NotBase64 string
  | DecodedOutsideBounds string
  | NotCanonicalBase64 string
  | HeaderProfileMismatch
  | ProtocolVersionUnsupported
  | CipherSuiteUnsupported
  | CiphertextSizeOutsideBounds
  | EncodedCiphertextTooLarge
  | AadHashMismatch
  | CiphertextNotBase64
  | CiphertextSizeMismatch
  | AuthenticationFailed
  | EncryptionFailed
  | KindMismatch

type_synonym 'a content_result = "content_error + 'a"

section \<open>Data\<close>

datatype payload_kind =
  Command | ResultPayload | Error | FileChunk | FileManifest | ServiceAction | TypingIndicator | ReadReceipt

fun kind_as_str :: "payload_kind \<Rightarrow> rstr" where
  "kind_as_str Command = lit ''command''"
| "kind_as_str ResultPayload = lit ''result''"
| "kind_as_str Error = lit ''error''"
| "kind_as_str FileChunk = lit ''file_chunk''"
| "kind_as_str FileManifest = lit ''file_manifest''"
| "kind_as_str ServiceAction = lit ''service_action''"
| "kind_as_str TypingIndicator = lit ''typing_indicator''"
| "kind_as_str ReadReceipt = lit ''read_receipt''"

fun kind_tag :: "payload_kind \<Rightarrow> u8" where
  "kind_tag Command = 1"
| "kind_tag ResultPayload = 2"
| "kind_tag Error = 3"
| "kind_tag FileChunk = 4"
| "kind_tag FileManifest = 5"
| "kind_tag ServiceAction = 6"
| "kind_tag TypingIndicator = 7"
| "kind_tag ReadReceipt = 8"

definition kind_from_tag :: "u8 \<Rightarrow> payload_kind content_result" where
  "kind_from_tag tag =
     (if tag = 1 then Inr Command else if tag = 2 then Inr ResultPayload
      else if tag = 3 then Inr Error else if tag = 4 then Inr FileChunk
      else if tag = 5 then Inr FileManifest else if tag = 6 then Inr ServiceAction
      else if tag = 7 then Inr TypingIndicator else if tag = 8 then Inr ReadReceipt
      else Inl KindTagUnsupported)"

record content_context =
  envelope_id :: rstr
  message_id :: rstr
  opaque_mailbox_id :: rstr
  sender_endpoint_id :: rstr
  recipient_endpoint_id :: rstr
  session_id :: rstr
  created_at :: rstr
  expires_at :: rstr

record mesh_plaintext =
  pt_kind :: payload_kind
  pt_body :: bytes
  pt_content_type :: "rstr option"

definition plaintext_new :: "payload_kind \<Rightarrow> bytes \<Rightarrow> mesh_plaintext" where
  "plaintext_new kind body = \<lparr>pt_kind = kind, pt_body = body, pt_content_type = None\<rparr>"

definition with_content_type :: "mesh_plaintext \<Rightarrow> rstr \<Rightarrow> mesh_plaintext" where
  "with_content_type pt content_type = pt\<lparr>pt_content_type := Some content_type\<rparr>"

record opened_payload =
  op_kind :: payload_kind
  op_body :: bytes
  op_content_type :: "rstr option"
  op_created_at :: rstr
  op_expires_at :: rstr

record opened_private_payload =
  opp_context :: content_context
  opp_payload :: opened_payload

section \<open>Validation\<close>

definition validate_context_field :: "string \<Rightarrow> rstr \<Rightarrow> unit content_result" where
  "validate_context_field label value =
     ensure (trim value \<noteq> []) (ContextFieldRequired label)
     (ensure (str_len value \<le> MAX_CONTEXT_FIELD_BYTES) (ContextFieldTooLarge label) (Inr ()))"

definition validate_context :: "content_context \<Rightarrow> unit content_result" where
  "validate_context ctx =
     and_then (validate_context_field ''envelope_id'' (envelope_id ctx)) (\<lambda>_.
     and_then (validate_context_field ''message_id'' (message_id ctx)) (\<lambda>_.
     and_then (validate_context_field ''opaque_mailbox_id'' (opaque_mailbox_id ctx)) (\<lambda>_.
     and_then (validate_context_field ''sender_endpoint_id'' (sender_endpoint_id ctx)) (\<lambda>_.
     and_then (validate_context_field ''recipient_endpoint_id'' (recipient_endpoint_id ctx)) (\<lambda>_.
     and_then (validate_context_field ''session_id'' (session_id ctx)) (\<lambda>_.
     and_then (validate_context_field ''created_at'' (created_at ctx)) (\<lambda>_.
     and_then (validate_context_field ''expires_at'' (expires_at ctx)) (\<lambda>_.
     Inr ()))))))))"

definition validate_plaintext :: "mesh_plaintext \<Rightarrow> unit content_result" where
  "validate_plaintext pt =
     ensure (length (pt_body pt) \<le> MAX_CONTENT_BYTES) BodyTooLarge
     (case pt_content_type pt of
        None \<Rightarrow> Inr ()
      | Some content_type \<Rightarrow>
          ensure (trim content_type \<noteq> []) ContentTypeEmpty
          (ensure (str_len content_type \<le> MAX_CONTENT_TYPE_BYTES) ContentTypeTooLarge (Inr ())))"

definition validate_additional_aad :: "bytes \<Rightarrow> unit content_result" where
  "validate_additional_aad additional =
     ensure (length additional \<le> MAX_ADDITIONAL_AAD_BYTES) AdditionalAadTooLarge (Inr ())"

section \<open>Length prefixes and the reader\<close>

definition append_field :: "bytes \<Rightarrow> bytes \<Rightarrow> bytes content_result" where
  "append_field out value =
     ensure (length value < 2 ^ 32) FieldTooLarge
     (Inr (out @ u32_to_be (of_nat (length value)) @ value))"

record slice_reader =
  rd_bytes :: bytes
  rd_offset :: nat

definition reader_new :: "bytes \<Rightarrow> slice_reader" where
  "reader_new bs = \<lparr>rd_bytes = bs, rd_offset = 0\<rparr>"

definition read_exact :: "nat \<Rightarrow> slice_reader \<Rightarrow> (bytes \<times> slice_reader) content_result" where
  "read_exact len r =
     ensure (rd_offset r + len < 2 ^ 64) FrameLengthOverflow
     (ensure (rd_offset r + len \<le> length (rd_bytes r)) FrameTruncated
     (Inr (take len (drop (rd_offset r) (rd_bytes r)), r\<lparr>rd_offset := rd_offset r + len\<rparr>)))"

definition expect_bytes :: "bytes \<Rightarrow> slice_reader \<Rightarrow> (unit \<times> slice_reader) content_result" where
  "expect_bytes expected r =
     and_then (read_exact (length expected) r) (\<lambda>(actual, r).
     ensure (actual = expected) FrameMagicInvalid (Inr ((), r)))"

definition read_u8 :: "slice_reader \<Rightarrow> (u8 \<times> slice_reader) content_result" where
  "read_u8 r = and_then (read_exact 1 r) (\<lambda>(bs, r). Inr (bs ! 0, r))"

definition read_field :: "slice_reader \<Rightarrow> (bytes \<times> slice_reader) content_result" where
  "read_field r = and_then (read_exact 4 r) (\<lambda>(len, r). read_exact (unat (u32_from_be len)) r)"

definition reader_is_empty :: "slice_reader \<Rightarrow> bool" where
  "reader_is_empty r \<longleftrightarrow> rd_offset r = length (rd_bytes r)"

section \<open>The public plaintext frame\<close>

definition append_content_type :: "bytes \<Rightarrow> rstr option \<Rightarrow> bytes content_result" where
  "append_content_type out content_type =
     (case content_type of
        Some t \<Rightarrow> append_field (out @ [1]) (utf8 t)
      | None \<Rightarrow> Inr (out @ [0]))"

definition encode_plaintext :: "content_context \<Rightarrow> mesh_plaintext \<Rightarrow> bytes content_result" where
  "encode_plaintext ctx pt =
     (let out = PLAINTEXT_MAGIC @ [kind_tag (pt_kind pt)] in
      and_then (append_field out (utf8 (created_at ctx))) (\<lambda>out.
      and_then (append_field out (utf8 (expires_at ctx))) (\<lambda>out.
      and_then (append_content_type out (pt_content_type pt)) (\<lambda>out.
      append_field out (pt_body pt)))))"

definition read_string :: "string \<Rightarrow> slice_reader \<Rightarrow> (rstr \<times> slice_reader) content_result" where
  "read_string label r =
     and_then (read_field r) (\<lambda>(bs, r).
     and_then (ok_or (NotUtf8 label) (from_utf8 bs)) (\<lambda>s. Inr (s, r)))"

definition read_content_type ::
    "(slice_reader \<Rightarrow> (rstr \<times> slice_reader) content_result) \<Rightarrow> slice_reader
       \<Rightarrow> (rstr option \<times> slice_reader) content_result" where
  "read_content_type read r =
     and_then (read_u8 r) (\<lambda>(marker, r).
       if marker = 0 then Inr (None, r)
       else if marker = 1 then and_then (read r) (\<lambda>(t, r). Inr (Some t, r))
       else Inl ContentTypeMarkerUnsupported)"

definition decode_plaintext :: "bytes \<Rightarrow> opened_payload content_result" where
  "decode_plaintext bs =
     and_then (expect_bytes PLAINTEXT_MAGIC (reader_new bs)) (\<lambda>(_, r).
     and_then (read_u8 r) (\<lambda>(tag, r).
     and_then (kind_from_tag tag) (\<lambda>kind.
     and_then (read_string ''created_at'' r) (\<lambda>(created, r).
     and_then (read_string ''expires_at'' r) (\<lambda>(expires, r).
     and_then (read_content_type (read_string ''content_type'') r) (\<lambda>(content_type, r).
     and_then (read_field r) (\<lambda>(body, r).
     ensure (reader_is_empty r) TrailingBytes
     (ensure (length body \<le> MAX_CONTENT_BYTES) BodyTooLarge
     (Inr \<lparr>op_kind = kind, op_body = body, op_content_type = content_type,
           op_created_at = created, op_expires_at = expires\<rparr>)))))))))"

section \<open>The private-context frame\<close>

definition encode_private_context_frame :: "content_context \<Rightarrow> mesh_plaintext \<Rightarrow> bytes content_result" where
  "encode_private_context_frame ctx pt =
     and_then (validate_context ctx) (\<lambda>_.
     and_then (validate_plaintext pt) (\<lambda>_.
     let out = PRIVATE_CONTEXT_FRAME_MAGIC @ [kind_tag (pt_kind pt)] in
     and_then (append_field out (utf8 (envelope_id ctx))) (\<lambda>out.
     and_then (append_field out (utf8 (message_id ctx))) (\<lambda>out.
     and_then (append_field out (utf8 (opaque_mailbox_id ctx))) (\<lambda>out.
     and_then (append_field out (utf8 (sender_endpoint_id ctx))) (\<lambda>out.
     and_then (append_field out (utf8 (recipient_endpoint_id ctx))) (\<lambda>out.
     and_then (append_field out (utf8 (session_id ctx))) (\<lambda>out.
     and_then (append_field out (utf8 (created_at ctx))) (\<lambda>out.
     and_then (append_field out (utf8 (expires_at ctx))) (\<lambda>out.
     and_then (append_content_type out (pt_content_type pt)) (\<lambda>out.
     append_field out (pt_body pt))))))))))))"

definition read_bounded_required_string ::
    "string \<Rightarrow> nat \<Rightarrow> slice_reader \<Rightarrow> (rstr \<times> slice_reader) content_result" where
  "read_bounded_required_string label maximum r =
     and_then (read_field r) (\<lambda>(bs, r).
     ensure (bs \<noteq> [] \<and> length bs \<le> maximum) (StringOutsideBounds label)
     (and_then (ok_or (NotUtf8 label) (from_utf8 bs)) (\<lambda>s.
      ensure (trim s \<noteq> []) (StringRequired label) (Inr (s, r)))))"

definition decode_private_context_frame :: "bytes \<Rightarrow> opened_private_payload content_result" where
  "decode_private_context_frame bs =
     and_then (expect_bytes PRIVATE_CONTEXT_FRAME_MAGIC (reader_new bs)) (\<lambda>(_, r).
     and_then (read_u8 r) (\<lambda>(tag, r).
     and_then (kind_from_tag tag) (\<lambda>kind.
     and_then (read_bounded_required_string ''envelope_id'' MAX_CONTEXT_FIELD_BYTES r) (\<lambda>(envelope, r).
     and_then (read_bounded_required_string ''message_id'' MAX_CONTEXT_FIELD_BYTES r) (\<lambda>(message, r).
     and_then (read_bounded_required_string ''opaque_mailbox_id'' MAX_CONTEXT_FIELD_BYTES r) (\<lambda>(mailbox, r).
     and_then (read_bounded_required_string ''sender_endpoint_id'' MAX_CONTEXT_FIELD_BYTES r) (\<lambda>(sender, r).
     and_then (read_bounded_required_string ''recipient_endpoint_id'' MAX_CONTEXT_FIELD_BYTES r) (\<lambda>(recipient, r).
     and_then (read_bounded_required_string ''session_id'' MAX_CONTEXT_FIELD_BYTES r) (\<lambda>(session, r).
     and_then (read_bounded_required_string ''created_at'' MAX_CONTEXT_FIELD_BYTES r) (\<lambda>(created, r).
     and_then (read_bounded_required_string ''expires_at'' MAX_CONTEXT_FIELD_BYTES r) (\<lambda>(expires, r).
     and_then (read_content_type (read_bounded_required_string ''content_type'' MAX_CONTENT_TYPE_BYTES) r)
       (\<lambda>(content_type, r).
     and_then (read_field r) (\<lambda>(body, r).
     ensure (length body \<le> MAX_CONTENT_BYTES) BodyTooLarge
     (ensure (reader_is_empty r) TrailingBytes
     (let ctx = \<lparr>envelope_id = envelope, message_id = message, opaque_mailbox_id = mailbox,
                 sender_endpoint_id = sender, recipient_endpoint_id = recipient, session_id = session,
                 created_at = created, expires_at = expires\<rparr> in
      and_then (validate_context ctx) (\<lambda>_.
      Inr \<lparr>opp_context = ctx,
           opp_payload = \<lparr>op_kind = kind, op_body = body, op_content_type = content_type,
                          op_created_at = created, op_expires_at = expires\<rparr>\<rparr>))))))))))))))))"

section \<open>Padding\<close>

text \<open>Checked arithmetic of \<open>usize\<close>.\<close>

definition usize_add :: "nat \<Rightarrow> nat \<Rightarrow> nat option" where
  "usize_add a b = (if a + b < 2 ^ 64 then Some (a + b) else None)"

fun next_power_of_two :: "nat \<Rightarrow> nat" where
  "next_power_of_two n = (if n \<le> 1 then 1 else 2 * next_power_of_two ((n + 1) div 2))"

fun is_power_of_two :: "nat \<Rightarrow> bool" where
  "is_power_of_two n = (if n = 0 then False else if n = 1 then True else even n \<and> is_power_of_two (n div 2))"

declare next_power_of_two.simps [simp del] is_power_of_two.simps [simp del]

definition checked_next_power_of_two :: "nat \<Rightarrow> nat option" where
  "checked_next_power_of_two n =
     (if next_power_of_two n < 2 ^ 64 then Some (next_power_of_two n) else None)"

definition framed_size_of :: "nat \<Rightarrow> nat option" where
  "framed_size_of unpadded =
     Option.bind (Option.bind (usize_add (length PADDED_PLAINTEXT_MAGIC) 4)
       (\<lambda>size. usize_add size unpadded)) (\<lambda>size. usize_add size AEAD_TAG_LEN)"

definition padding_bucket_for_ciphertext_size :: "nat \<Rightarrow> nat content_result" where
  "padding_bucket_for_ciphertext_size unpadded =
     and_then (ok_or PaddedLengthOverflow (framed_size_of unpadded)) (\<lambda>framed.
     and_then (if framed \<le> POWER_OF_TWO_PADDING_LIMIT_BYTES
               then ok_or BucketOverflow (checked_next_power_of_two (max framed MIN_PADDING_BUCKET_BYTES))
               else and_then (ok_or BucketOverflow (usize_add framed (LARGE_PADDING_BUCKET_STEP_BYTES - 1)))
                 (\<lambda>n. Inr (n div LARGE_PADDING_BUCKET_STEP_BYTES * LARGE_PADDING_BUCKET_STEP_BYTES))) (\<lambda>bucket.
     ensure (bucket \<le> MAX_PADDING_BUCKET_BYTES) MaximumBucketExceeded (Inr bucket)))"

definition validate_authenticated_padding_bucket :: "nat \<Rightarrow> unit content_result" where
  "validate_authenticated_padding_bucket ciphertext_size =
     ensure (MIN_PADDING_BUCKET_BYTES \<le> ciphertext_size \<and> ciphertext_size \<le> MAX_PADDING_BUCKET_BYTES) BucketOutsideBounds
     (if ciphertext_size \<le> POWER_OF_TWO_PADDING_LIMIT_BYTES
      then ensure (is_power_of_two ciphertext_size) BucketNotPowerOfTwo (Inr ())
      else ensure (ciphertext_size mod LARGE_PADDING_BUCKET_STEP_BYTES = 0) BucketNotAligned (Inr ()))"

text \<open>\<open>resize n xs\<close> is \<open>Vec::resize(n, 0)\<close>.\<close>

definition resize :: "nat \<Rightarrow> bytes \<Rightarrow> bytes" where
  "resize n xs = take n xs @ replicate (n - length xs) 0"

definition add_bucket_padding :: "bytes \<Rightarrow> bytes content_result" where
  "add_bucket_padding encoded =
     and_then (padding_bucket_for_ciphertext_size (length encoded)) (\<lambda>bucket.
     ensure (AEAD_TAG_LEN \<le> bucket) BucketInvalid
     (ensure (length encoded < 2 ^ 32) TooLargeToPad
     (Inr (resize (bucket - AEAD_TAG_LEN)
       (PADDED_PLAINTEXT_MAGIC @ u32_to_be (of_nat (length encoded)) @ encoded)))))"

definition remove_authenticated_padding :: "bytes \<Rightarrow> bytes content_result" where
  "remove_authenticated_padding padded =
     (let prefix_len = length PADDED_PLAINTEXT_MAGIC + 4 in
      ensure (prefix_len \<le> length padded) PaddedTruncated
      (ensure (take (length PADDED_PLAINTEXT_MAGIC) padded = PADDED_PLAINTEXT_MAGIC) PaddedMagicInvalid
      (let original_len = unat (u32_from_be (take 4 (drop (length PADDED_PLAINTEXT_MAGIC) padded))) in
       and_then (ok_or PaddedLengthOverflow (usize_add prefix_len original_len)) (\<lambda>end_pos.
       ensure (end_pos \<le> length padded) PaddedLengthInvalid
       (ensure (\<forall>b\<in>set (drop end_pos padded). b = 0) PaddedBytesInvalid
       (Inr (take (end_pos - prefix_len) (drop prefix_len padded))))))))"

end
