(* ===== verification/Content_Payload.thy ===== *)
theory Content_Payload
  imports Content_Frame
begin

text \<open>
  Content encryption, second half: associated data, key derivation, the encrypted header and
  the two operations on both payload forms. The AEAD cipher, HKDF, SHA-256 and base64url are
  parameters, collected in \<open>content_crypto\<close>; a nonce is the argument that the source draws
  from the operating system.
\<close>

record content_crypto =
  cc_sha256 :: "bytes \<Rightarrow> bytes"
  cc_hkdf :: "bytes \<Rightarrow> bytes \<Rightarrow> bytes \<Rightarrow> nat \<Rightarrow> bytes option"
  cc_encrypt :: "bytes \<Rightarrow> bytes \<Rightarrow> bytes \<Rightarrow> bytes \<Rightarrow> bytes option"
  cc_decrypt :: "bytes \<Rightarrow> bytes \<Rightarrow> bytes \<Rightarrow> bytes \<Rightarrow> bytes option"
  cc_base64 :: "bytes \<Rightarrow> rstr"
  cc_unbase64 :: "rstr \<Rightarrow> bytes option"

text \<open>
  \<open>cc_hkdf salt key info length\<close> extracts and expands; \<open>cc_encrypt\<close> and \<open>cc_decrypt\<close> take key,
  nonce, associated data and message.
\<close>

section \<open>Associated data and keys\<close>

definition build_aad_with_binding :: "content_context \<Rightarrow> payload_kind \<Rightarrow> bytes \<Rightarrow> bytes content_result" where
  "build_aad_with_binding ctx kind additional =
     and_then (validate_additional_aad additional) (\<lambda>_.
     and_then (append_field AAD_MAGIC (utf8 SECURE_MESH_PROTOCOL_VERSION)) (\<lambda>out.
     and_then (append_field out (utf8 SECURE_MESH_CONTENT_CIPHER_SUITE)) (\<lambda>out.
     and_then (append_field out (utf8 (envelope_id ctx))) (\<lambda>out.
     and_then (append_field out (utf8 (message_id ctx))) (\<lambda>out.
     and_then (append_field out (utf8 (opaque_mailbox_id ctx))) (\<lambda>out.
     and_then (append_field out (utf8 (sender_endpoint_id ctx))) (\<lambda>out.
     and_then (append_field out (utf8 (recipient_endpoint_id ctx))) (\<lambda>out.
     and_then (append_field out (utf8 (session_id ctx))) (\<lambda>out.
     and_then (append_field out (utf8 (kind_as_str kind))) (\<lambda>out.
     and_then (append_field out (utf8 (created_at ctx))) (\<lambda>out.
     and_then (append_field out (utf8 (expires_at ctx))) (\<lambda>out.
     if additional \<noteq> [] then append_field (out @ ADDITIONAL_AAD_MAGIC) additional
     else Inr out))))))))))))"

definition content_key_from_bytes :: "bytes \<Rightarrow> bytes" where
  "content_key_from_bytes bs = bs"

definition derive_aead_key ::
    "content_crypto \<Rightarrow> bytes \<Rightarrow> content_context \<Rightarrow> payload_kind \<Rightarrow> bytes \<Rightarrow> bytes content_result" where
  "derive_aead_key cc key ctx kind aad =
     ensure (length key = CONTENT_KEY_LEN) ContentKeyLengthInvalid
     (let salt = cc_sha256 cc (HKDF_SALT_DOMAIN @ aad) in
      and_then (append_field HKDF_INFO_DOMAIN (utf8 (session_id ctx))) (\<lambda>info.
      and_then (append_field info (utf8 (kind_as_str kind))) (\<lambda>info.
      and_then (append_field info (utf8 SECURE_MESH_CONTENT_CIPHER_SUITE)) (\<lambda>info.
      ok_or ContentKeyDerivationFailed (cc_hkdf cc salt key info CONTENT_KEY_LEN)))))"

definition derive_private_context_aead_key :: "content_crypto \<Rightarrow> bytes \<Rightarrow> bytes content_result" where
  "derive_private_context_aead_key cc key =
     ensure (length key = CONTENT_KEY_LEN) ContentKeyLengthInvalid
     (let salt = cc_sha256 cc (PRIVATE_CONTEXT_HKDF_SALT_DOMAIN @ PRIVATE_CONTEXT_AEAD_AAD) in
      and_then (append_field PRIVATE_CONTEXT_HKDF_INFO_DOMAIN PRIVATE_CONTEXT_AEAD_AAD) (\<lambda>info.
      ok_or ContentKeyDerivationFailed (cc_hkdf cc salt key info CONTENT_KEY_LEN)))"

section \<open>Headers\<close>

definition encoded_len_limit :: "nat \<Rightarrow> nat" where
  "encoded_len_limit decoded = (decoded + 2) div 3 * 4"

definition encode_header :: "content_crypto \<Rightarrow> bytes \<Rightarrow> bytes \<Rightarrow> rstr" where
  "encode_header cc nonce aad_hash = cc_base64 cc (HEADER_MAGIC @ nonce @ aad_hash)"

definition encode_private_context_header :: "content_crypto \<Rightarrow> bytes \<Rightarrow> rstr" where
  "encode_private_context_header cc nonce =
     cc_base64 cc (PRIVATE_CONTEXT_HEADER_MAGIC @ nonce @ cc_sha256 cc PRIVATE_CONTEXT_AEAD_AAD)"

definition decode_canonical_base64url ::
    "content_crypto \<Rightarrow> string \<Rightarrow> rstr \<Rightarrow> nat \<Rightarrow> nat \<Rightarrow> bytes content_result" where
  "decode_canonical_base64url cc label value minimum maximum =
     ensure (minimum \<le> maximum) DecoderBoundsInvalid
     (ensure (value \<noteq> [] \<and> str_len value \<le> encoded_len_limit maximum) (EncodedOutsideBounds label)
     (and_then (ok_or (NotBase64 label) (cc_unbase64 cc value)) (\<lambda>bs.
      ensure (minimum \<le> length bs \<and> length bs \<le> maximum) (DecodedOutsideBounds label)
      (ensure (cc_base64 cc bs = value) (NotCanonicalBase64 label) (Inr bs)))))"

definition decode_private_context_header :: "content_crypto \<Rightarrow> rstr \<Rightarrow> bytes content_result" where
  "decode_private_context_header cc value =
     (let expected_size = length PRIVATE_CONTEXT_HEADER_MAGIC + CONTENT_NONCE_LEN + AAD_HASH_LEN in
      and_then (decode_canonical_base64url cc ''private-context encrypted header'' value expected_size expected_size)
        (\<lambda>bs.
      ensure (take (length PRIVATE_CONTEXT_HEADER_MAGIC) bs = PRIVATE_CONTEXT_HEADER_MAGIC) HeaderMagicInvalid
      (let nonce_start = length PRIVATE_CONTEXT_HEADER_MAGIC;
           nonce = take CONTENT_NONCE_LEN (drop nonce_start bs) in
       ensure (drop (nonce_start + CONTENT_NONCE_LEN) bs = cc_sha256 cc PRIVATE_CONTEXT_AEAD_AAD)
         HeaderProfileMismatch
       (Inr nonce))))"

definition decode_header :: "content_crypto \<Rightarrow> rstr \<Rightarrow> (bytes \<times> bytes) content_result" where
  "decode_header cc value =
     (let size = length HEADER_MAGIC + CONTENT_NONCE_LEN + AAD_HASH_LEN in
      ensure (str_len value \<le> encoded_len_limit size) HeaderTooLarge
      (and_then (ok_or HeaderNotBase64 (cc_unbase64 cc value)) (\<lambda>bs.
       ensure (length bs = size) HeaderLengthInvalid
       (ensure (take (length HEADER_MAGIC) bs = HEADER_MAGIC) HeaderMagicInvalid
       (let nonce_start = length HEADER_MAGIC; hash_start = nonce_start + CONTENT_NONCE_LEN in
        Inr (take CONTENT_NONCE_LEN (drop nonce_start bs), take AAD_HASH_LEN (drop hash_start bs)))))))"

section \<open>Public payloads\<close>

record sealed_payload =
  sp_protocol_version :: rstr
  sp_cipher_suite :: rstr
  sp_encrypted_header :: rstr
  sp_ciphertext :: rstr
  sp_ciphertext_size :: nat

definition seal_payload_with_nonce_and_aad_binding ::
    "content_crypto \<Rightarrow> bytes \<Rightarrow> content_context \<Rightarrow> mesh_plaintext \<Rightarrow> bytes \<Rightarrow> bytes \<Rightarrow> sealed_payload content_result" where
  "seal_payload_with_nonce_and_aad_binding cc key ctx pt nonce additional =
     and_then (validate_context ctx) (\<lambda>_.
     and_then (validate_plaintext pt) (\<lambda>_.
     and_then (validate_additional_aad additional) (\<lambda>_.
     and_then (build_aad_with_binding ctx (pt_kind pt) additional) (\<lambda>aad.
     and_then (derive_aead_key cc key ctx (pt_kind pt) aad) (\<lambda>derived_key.
     and_then (encode_plaintext ctx pt) (\<lambda>encoded.
     and_then (add_bucket_padding encoded) (\<lambda>padded.
     and_then (ok_or EncryptionFailed (cc_encrypt cc derived_key nonce aad padded)) (\<lambda>ciphertext.
     Inr \<lparr>sp_protocol_version = SECURE_MESH_PROTOCOL_VERSION,
          sp_cipher_suite = SECURE_MESH_CONTENT_CIPHER_SUITE,
          sp_encrypted_header = encode_header cc nonce (cc_sha256 cc aad),
          sp_ciphertext = cc_base64 cc ciphertext,
          sp_ciphertext_size = length ciphertext\<rparr>))))))))"

definition seal_payload_with_aad_binding ::
    "content_crypto \<Rightarrow> bytes \<Rightarrow> bytes \<Rightarrow> content_context \<Rightarrow> mesh_plaintext \<Rightarrow> bytes \<Rightarrow> sealed_payload content_result" where
  "seal_payload_with_aad_binding cc nonce key ctx pt additional =
     seal_payload_with_nonce_and_aad_binding cc key ctx pt nonce additional"

definition seal_payload ::
    "content_crypto \<Rightarrow> bytes \<Rightarrow> bytes \<Rightarrow> content_context \<Rightarrow> mesh_plaintext \<Rightarrow> sealed_payload content_result" where
  "seal_payload cc nonce key ctx pt = seal_payload_with_aad_binding cc nonce key ctx pt []"

definition open_payload_with_aad_binding ::
    "content_crypto \<Rightarrow> bytes \<Rightarrow> content_context \<Rightarrow> sealed_payload \<Rightarrow> payload_kind \<Rightarrow> bytes \<Rightarrow> opened_payload content_result" where
  "open_payload_with_aad_binding cc key ctx sealed expected_kind additional =
     and_then (validate_context ctx) (\<lambda>_.
     and_then (validate_additional_aad additional) (\<lambda>_.
     ensure (sp_protocol_version sealed = SECURE_MESH_PROTOCOL_VERSION) ProtocolVersionUnsupported
     (ensure (sp_cipher_suite sealed = SECURE_MESH_CONTENT_CIPHER_SUITE) CipherSuiteUnsupported
     (ensure (0 < sp_ciphertext_size sealed \<and> sp_ciphertext_size sealed \<le> MAX_SEALED_CONTENT_BYTES)
        CiphertextSizeOutsideBounds
     (ensure (str_len (sp_ciphertext sealed) \<le> encoded_len_limit MAX_SEALED_CONTENT_BYTES)
        EncodedCiphertextTooLarge
     (and_then (decode_header cc (sp_encrypted_header sealed)) (\<lambda>(nonce, aad_hash).
      and_then (build_aad_with_binding ctx expected_kind additional) (\<lambda>aad.
      ensure (cc_sha256 cc aad = aad_hash) AadHashMismatch
      (and_then (ok_or CiphertextNotBase64 (cc_unbase64 cc (sp_ciphertext sealed))) (\<lambda>ciphertext.
       ensure (length ciphertext = sp_ciphertext_size sealed) CiphertextSizeMismatch
       (and_then (derive_aead_key cc key ctx expected_kind aad) (\<lambda>derived_key.
        and_then (ok_or AuthenticationFailed (cc_decrypt cc derived_key nonce aad ciphertext)) (\<lambda>plaintext.
        and_then (remove_authenticated_padding plaintext) (\<lambda>unpadded.
        and_then (decode_plaintext unpadded) (\<lambda>opened.
        ensure (op_kind opened = expected_kind) KindMismatch (Inr opened))))))))))))))))"

definition open_payload ::
    "content_crypto \<Rightarrow> bytes \<Rightarrow> content_context \<Rightarrow> sealed_payload \<Rightarrow> payload_kind \<Rightarrow> opened_payload content_result" where
  "open_payload cc key ctx sealed expected_kind =
     open_payload_with_aad_binding cc key ctx sealed expected_kind []"

section \<open>Private-context payloads\<close>

record sealed_private_payload =
  spp_encrypted_header :: rstr
  spp_ciphertext :: rstr
  spp_ciphertext_size :: nat

definition validate_sealed_private :: "content_crypto \<Rightarrow> sealed_private_payload \<Rightarrow> unit content_result" where
  "validate_sealed_private cc sealed =
     and_then (decode_private_context_header cc (spp_encrypted_header sealed)) (\<lambda>_.
     and_then (validate_authenticated_padding_bucket (spp_ciphertext_size sealed)) (\<lambda>_.
     and_then (decode_canonical_base64url cc ''private-context ciphertext'' (spp_ciphertext sealed)
       (spp_ciphertext_size sealed) (spp_ciphertext_size sealed)) (\<lambda>_.
     Inr ())))"

definition sealed_private_from_encoded_parts ::
    "content_crypto \<Rightarrow> rstr \<Rightarrow> rstr \<Rightarrow> nat \<Rightarrow> sealed_private_payload content_result" where
  "sealed_private_from_encoded_parts cc encrypted_header ciphertext ciphertext_size =
     (let sealed = \<lparr>spp_encrypted_header = encrypted_header, spp_ciphertext = ciphertext,
                    spp_ciphertext_size = ciphertext_size\<rparr> in
      and_then (validate_sealed_private cc sealed) (\<lambda>_. Inr sealed))"

definition seal_private_context_payload_with_nonce ::
    "content_crypto \<Rightarrow> bytes \<Rightarrow> content_context \<Rightarrow> mesh_plaintext \<Rightarrow> bytes \<Rightarrow> sealed_private_payload content_result" where
  "seal_private_context_payload_with_nonce cc key ctx pt nonce =
     and_then (validate_context ctx) (\<lambda>_.
     and_then (validate_plaintext pt) (\<lambda>_.
     and_then (encode_private_context_frame ctx pt) (\<lambda>encoded.
     and_then (add_bucket_padding encoded) (\<lambda>padded.
     and_then (derive_private_context_aead_key cc key) (\<lambda>derived_key.
     and_then (ok_or EncryptionFailed (cc_encrypt cc derived_key nonce PRIVATE_CONTEXT_AEAD_AAD padded))
       (\<lambda>ciphertext.
     sealed_private_from_encoded_parts cc (encode_private_context_header cc nonce)
       (cc_base64 cc ciphertext) (length ciphertext)))))))"

definition seal_private_context_payload ::
    "content_crypto \<Rightarrow> bytes \<Rightarrow> bytes \<Rightarrow> content_context \<Rightarrow> mesh_plaintext \<Rightarrow> sealed_private_payload content_result" where
  "seal_private_context_payload cc nonce key ctx pt =
     seal_private_context_payload_with_nonce cc key ctx pt nonce"

definition open_private_context_payload ::
    "content_crypto \<Rightarrow> bytes \<Rightarrow> sealed_private_payload \<Rightarrow> opened_private_payload content_result" where
  "open_private_context_payload cc key sealed =
     and_then (validate_sealed_private cc sealed) (\<lambda>_.
     and_then (decode_private_context_header cc (spp_encrypted_header sealed)) (\<lambda>nonce.
     and_then (decode_canonical_base64url cc ''private-context ciphertext'' (spp_ciphertext sealed)
       (spp_ciphertext_size sealed) (spp_ciphertext_size sealed)) (\<lambda>ciphertext.
     and_then (derive_private_context_aead_key cc key) (\<lambda>derived_key.
     and_then (ok_or AuthenticationFailed (cc_decrypt cc derived_key nonce PRIVATE_CONTEXT_AEAD_AAD ciphertext))
       (\<lambda>plaintext.
     and_then (remove_authenticated_padding plaintext) (\<lambda>unpadded.
     decode_private_context_frame unpadded))))))"

end
