(* ===== verification/Content_Codec.thy ===== *)
theory Content_Codec
  imports Content_Payload
begin

text \<open>
  The reader and the frames. An item codec relates a reader to the bytes its values are
  written as: what is written is read back, and what is read was written that way, so the
  written form is self-delimiting. The two frames are characterised exactly by it.
\<close>

section \<open>Readers\<close>

definition reader_at :: "bytes \<Rightarrow> bytes \<Rightarrow> slice_reader" where
  "reader_at before rest = \<lparr>rd_bytes = before @ rest, rd_offset = length before\<rparr>"

lemma reader_new_at: "reader_new bs = reader_at [] bs"
  by (simp add: reader_new_def reader_at_def)

lemma reader_is_empty_at [simp]: "reader_is_empty (reader_at p s) \<longleftrightarrow> s = []"
  by (simp add: reader_is_empty_def reader_at_def)

lemma read_exact_written:
  "length p + length x + length s < 2 ^ 64 \<Longrightarrow> length x = n \<Longrightarrow>
    read_exact n (reader_at p (x @ s)) = Inr (x, reader_at (p @ x) s)"
  by (simp add: read_exact_def reader_at_def)

lemma read_exact_read:
  assumes "read_exact n (reader_at p s) = Inr (x, r)"
  obtains s' where "s = x @ s'" "length x = n" "r = reader_at (p @ x) s'"
proof
  show "s = x @ drop n s" "length x = n" "r = reader_at (p @ x) (drop n s)"
    using assms by (auto simp: read_exact_def reader_at_def result_simps)
qed

locale item_codec =
  fixes read :: "slice_reader \<Rightarrow> ('a \<times> slice_reader) content_result"
    and written :: "'a \<Rightarrow> bytes"
    and good :: "'a \<Rightarrow> bool"
  assumes read_written: "good x \<Longrightarrow> length p + length (written x) + length s < 2 ^ 64 \<Longrightarrow>
      read (reader_at p (written x @ s)) = Inr (x, reader_at (p @ written x) s)"
    and written_read: "read (reader_at p s) = Inr (x, r) \<Longrightarrow>
      good x \<and> (\<exists>s'. s = written x @ s' \<and> r = reader_at (p @ written x) s')"
begin

lemma written_readE:
  assumes "read (reader_at p s) = Inr (x, r)"
  obtains s' where "good x" "s = written x @ s'" "r = reader_at (p @ written x) s'"
  using written_read[OF assms] by blast

lemma read_thenE:
  assumes "and_then (read (reader_at p s)) (\<lambda>(x, r). k x r) = Inr y"
  obtains x s' where "good x" "s = written x @ s'" "k x (reader_at (p @ written x) s') = Inr y"
proof -
  obtain x r where "read (reader_at p s) = Inr (x, r)" "k x r = Inr y"
    using assms by (auto simp: result_simps)
  then show thesis using that by (elim written_readE) auto
qed

text \<open>What is written first in a text is determined by the text.\<close>

lemma self_delimiting:
  assumes "written x @ s = written y @ t" "good x" "good y" "length (written x @ s) < 2 ^ 64"
  shows "x = y \<and> s = t"
proof -
  have n: "length (written x) + length s = length (written y) + length t"
    using arg_cong[OF assms(1), of length] by simp
  have "read (reader_at [] (written x @ s)) = Inr (x, reader_at (written x) s)"
    using read_written[of x "[]" s] assms(2,4) by simp
  moreover have "read (reader_at [] (written y @ t)) = Inr (y, reader_at (written y) t)"
    using read_written[of y "[]" t] assms(3,4) n by simp
  ultimately have "x = y" unfolding assms(1) by simp
  with assms(1) show ?thesis by simp
qed

end

definition field :: "bytes \<Rightarrow> bytes" where
  "field v = u32_to_be (of_nat (length v)) @ v"

definition fits32 :: "bytes \<Rightarrow> bool" where
  "fits32 v \<longleftrightarrow> length v < 2 ^ 32"

lemma length_field [simp]: "length (field v) = 4 + length v"
  by (simp add: field_def)

lemma append_field_eq: "append_field out v = ensure (fits32 v) FieldTooLarge (Inr (out @ field v))"
  by (simp add: append_field_def fits32_def field_def)

lemma unat_of_length: "fits32 v \<Longrightarrow> unat (of_nat (length v) :: u32) = length v"
  by (simp add: fits32_def unat_of_nat)

interpretation tag_byte: item_codec read_u8 "\<lambda>b. [b]" "\<lambda>_. True"
proof
  show "read_u8 (reader_at p ([b] @ s)) = Inr (b, reader_at (p @ [b]) s)"
    if "length p + length [b] + length s < 2 ^ 64" for b p s
    using that read_exact_written[of p "[b]" s 1] by (simp add: read_u8_def)
next
  fix p s b r
  assume "read_u8 (reader_at p s) = Inr (b, r)"
  then obtain x where x: "read_exact 1 (reader_at p s) = Inr (x, r)" "b = x ! 0"
    by (auto simp: read_u8_def result_simps)
  from read_exact_read[OF x(1)] obtain s' where "s = x @ s'" "length x = 1" "r = reader_at (p @ x) s'" .
  moreover have "x = [b]" using calculation(2) x(2) by (cases x) auto
  ultimately show "True \<and> (\<exists>s'. s = [b] @ s' \<and> r = reader_at (p @ [b]) s')" by blast
qed

interpretation field: item_codec read_field field fits32
proof
  show "read_field (reader_at p (field v @ s)) = Inr (v, reader_at (p @ field v) s)"
    if "fits32 v" "length p + length (field v) + length s < 2 ^ 64" for v p s
    using that(2) read_exact_written[of p "u32_to_be (of_nat (length v))" "v @ s" 4]
      read_exact_written[of "p @ u32_to_be (of_nat (length v))" v s "length v"]
    by (simp add: read_field_def field_def unat_of_length[OF that(1)])
next
  fix p s v r
  assume "read_field (reader_at p s) = Inr (v, r)"
  then obtain l r' where l: "read_exact 4 (reader_at p s) = Inr (l, r')"
      "read_exact (unat (u32_from_be l)) r' = Inr (v, r)"
    by (auto simp: read_field_def result_simps)
  from read_exact_read[OF l(1)] obtain s1 where s1: "s = l @ s1" "length l = 4" "r' = reader_at (p @ l) s1" .
  from read_exact_read[OF l(2)[unfolded s1(3)]] obtain s' where
    s': "s1 = v @ s'" "length v = unat (u32_from_be l)" "r = reader_at ((p @ l) @ v) s'" .
  have "field v = l @ v"
    using u32_to_from_be[OF s1(2)] by (simp add: field_def s'(2))
  moreover have "fits32 v" using unsigned_less[of "u32_from_be l"] by (simp add: fits32_def s'(2))
  ultimately show "fits32 v \<and> (\<exists>s'. s = field v @ s' \<and> r = reader_at (p @ field v) s')"
    using s1 s' by auto
qed

text \<open>Strings, in the two variants the frames read.\<close>

definition good_string :: "rstr \<Rightarrow> bool" where
  "good_string t \<longleftrightarrow> valid_str t \<and> str_len t < 2 ^ 32"

definition good_required :: "nat \<Rightarrow> rstr \<Rightarrow> bool" where
  "good_required maximum t \<longleftrightarrow> good_string t \<and> str_len t \<le> maximum \<and> trim t \<noteq> []"

lemma fits32_utf8: "fits32 (utf8 t) \<longleftrightarrow> str_len t < 2 ^ 32"
  by (simp add: fits32_def str_len_def)

lemma utf8_Nil_iff: "utf8 t = [] \<longleftrightarrow> t = []"
  by (cases t) simp_all

interpretation str: item_codec "read_string label" "\<lambda>t. field (utf8 t)" good_string for label
proof
  show "read_string label (reader_at p (field (utf8 t) @ s)) = Inr (t, reader_at (p @ field (utf8 t)) s)"
    if "good_string t" "length p + length (field (utf8 t)) + length s < 2 ^ 64" for t p s
    using that field.read_written[of "utf8 t" p s]
    by (simp add: read_string_def good_string_def fits32_utf8 from_utf8_utf8)
next
  fix p s t r
  assume "read_string label (reader_at p s) = Inr (t, r)"
  then obtain v where v: "read_field (reader_at p s) = Inr (v, r)" "from_utf8 v = Some t"
    by (auto simp: read_string_def result_simps)
  have t: "valid_str t" "utf8 t = v" using v(2) by (auto simp: from_utf8_iff)
  from field.written_readE[OF v(1)] obtain s' where
    "fits32 v" "s = field v @ s'" "r = reader_at (p @ field v) s'" .
  then show "good_string t \<and> (\<exists>s'. s = field (utf8 t) @ s' \<and> r = reader_at (p @ field (utf8 t)) s')"
    using t fits32_utf8[of t] by (auto simp: good_string_def)
qed

interpretation required: item_codec "read_bounded_required_string label maximum" "\<lambda>t. field (utf8 t)"
  "good_required maximum" for label maximum
proof
  show "read_bounded_required_string label maximum (reader_at p (field (utf8 t) @ s))
      = Inr (t, reader_at (p @ field (utf8 t)) s)"
    if "good_required maximum t" "length p + length (field (utf8 t)) + length s < 2 ^ 64" for t p s
  proof -
    have "t \<noteq> []" using that(1) by (auto simp: good_required_def trim_def)
    then show ?thesis
      using that field.read_written[of "utf8 t" p s]
      by (simp add: read_bounded_required_string_def good_required_def good_string_def fits32_utf8
          from_utf8_utf8 utf8_Nil_iff str_len_def)
  qed
next
  fix p s t r
  assume "read_bounded_required_string label maximum (reader_at p s) = Inr (t, r)"
  then obtain v where v: "read_field (reader_at p s) = Inr (v, r)" "from_utf8 v = Some t"
      "length v \<le> maximum" "trim t \<noteq> []"
    by (auto simp: read_bounded_required_string_def result_simps)
  have t: "valid_str t" "utf8 t = v" using v(2) by (auto simp: from_utf8_iff)
  from field.written_readE[OF v(1)] obtain s' where
    "fits32 v" "s = field v @ s'" "r = reader_at (p @ field v) s'" .
  then show "good_required maximum t \<and> (\<exists>s'. s = field (utf8 t) @ s' \<and> r = reader_at (p @ field (utf8 t)) s')"
    using t v(3,4) fits32_utf8[of t] by (auto simp: good_required_def good_string_def str_len_def)
qed

text \<open>An optional content type on top of either variant.\<close>

definition written_type :: "rstr option \<Rightarrow> bytes" where
  "written_type ct = (case ct of None \<Rightarrow> [0] | Some t \<Rightarrow> [1] @ field (utf8 t))"

lemma content_type_codec:
  assumes "item_codec read (\<lambda>t. field (utf8 t)) good"
  shows "item_codec (read_content_type read) written_type (pred_option good)"
proof -
  note item_written = item_codec.read_written[OF assms]
  note item_read = item_codec.written_readE[OF assms]
  show ?thesis
  proof
    show "read_content_type read (reader_at p (written_type ct @ s)) = Inr (ct, reader_at (p @ written_type ct) s)"
      if "pred_option good ct" "length p + length (written_type ct) + length s < 2 ^ 64" for ct p s
    proof (cases ct)
      case None
      then show ?thesis
        using that tag_byte.read_written[of p 0 s] by (simp add: read_content_type_def written_type_def)
    next
      case (Some t)
      then show ?thesis
        using that tag_byte.read_written[of p 1 "field (utf8 t) @ s"] item_written[of t "p @ [1]" s]
        by (simp add: read_content_type_def written_type_def)
    qed
  next
    fix p s ct r
    assume *: "read_content_type read (reader_at p s) = Inr (ct, r)"
    then obtain b r' where b: "read_u8 (reader_at p s) = Inr (b, r')"
      by (auto simp: read_content_type_def result_simps)
    from tag_byte.written_readE[OF b] obtain s1 where s1: "s = [b] @ s1" "r' = reader_at (p @ [b]) s1" by blast
    show "pred_option good ct \<and> (\<exists>s'. s = written_type ct @ s' \<and> r = reader_at (p @ written_type ct) s')"
    proof (cases ct)
      case None
      then have "b = 0" "r = r'" using * b by (auto simp: read_content_type_def result_simps split: if_splits)
      then show ?thesis using None s1 by (simp add: written_type_def)
    next
      case (Some t)
      then have "b = 1" and t: "read r' = Inr (t, r)"
        using * b by (auto simp: read_content_type_def result_simps split: if_splits)
      from item_read[OF t[unfolded s1(2)]] obtain s2 where
        "good t" "s1 = field (utf8 t) @ s2" "r = reader_at ((p @ [b]) @ field (utf8 t)) s2" .
      then show ?thesis using Some s1 \<open>b = 1\<close> by (simp add: written_type_def)
    qed
  qed
qed

interpretation public_type: item_codec "read_content_type (read_string label)" written_type "pred_option good_string"
  for label
  by (rule content_type_codec) (rule str.item_codec_axioms)

interpretation private_type: item_codec "read_content_type (read_bounded_required_string label maximum)"
  written_type "pred_option (good_required maximum)" for label maximum
  by (rule content_type_codec) (rule required.item_codec_axioms)

section \<open>The frames\<close>

text \<open>What a frame says of a payload, and the bytes that say it.\<close>

definition opened_of :: "content_context \<Rightarrow> mesh_plaintext \<Rightarrow> opened_payload" where
  "opened_of ctx pt = \<lparr>op_kind = pt_kind pt, op_body = pt_body pt, op_content_type = pt_content_type pt,
     op_created_at = created_at ctx, op_expires_at = expires_at ctx\<rparr>"

definition public_frame :: "opened_payload \<Rightarrow> bytes" where
  "public_frame p = PLAINTEXT_MAGIC @ [kind_tag (op_kind p)] @ field (utf8 (op_created_at p))
     @ field (utf8 (op_expires_at p)) @ written_type (op_content_type p) @ field (op_body p)"

definition public_good :: "opened_payload \<Rightarrow> bool" where
  "public_good p \<longleftrightarrow> good_string (op_created_at p) \<and> good_string (op_expires_at p)
     \<and> pred_option good_string (op_content_type p) \<and> length (op_body p) \<le> MAX_CONTENT_BYTES"

lemma kind_from_tag_eq: "kind_from_tag b = Inr k \<longleftrightarrow> b = kind_tag k"
  by (cases k) (auto simp: kind_from_tag_def)

lemma expect_bytes_written:
  "length p + length m + length s < 2 ^ 64 \<Longrightarrow> expect_bytes m (reader_at p (m @ s)) = Inr ((), reader_at (p @ m) s)"
  by (simp add: expect_bytes_def read_exact_written)

lemma expect_bytes_read:
  assumes "expect_bytes m (reader_at p s) = Inr (u, r)"
  obtains s' where "s = m @ s'" "r = reader_at (p @ m) s'"
proof -
  obtain x where x: "read_exact (length m) (reader_at p s) = Inr (x, r)" "x = m"
    using assms by (auto simp: expect_bytes_def result_simps)
  from read_exact_read[OF x(1)] x(2) that show thesis by blast
qed

lemma max_content_fits32: "length v \<le> MAX_CONTENT_BYTES \<Longrightarrow> fits32 v"
  by (simp add: MAX_CONTENT_BYTES_def fits32_def)

lemma decode_plaintext_frame:
  assumes "public_good p" "length (public_frame p) < 2 ^ 64"
  shows "decode_plaintext (public_frame p) = Inr p"
proof -
  have g: "good_string (op_created_at p)" "good_string (op_expires_at p)"
    "pred_option good_string (op_content_type p)" "length (op_body p) \<le> MAX_CONTENT_BYTES"
    using assms(1) by (simp_all add: public_good_def)
  note total = assms(2)[unfolded public_frame_def, simplified]
  have k: "kind_from_tag (kind_tag (op_kind p)) = Inr (op_kind p)" by (simp add: kind_from_tag_eq)
  show ?thesis
    unfolding decode_plaintext_def public_frame_def reader_new_at
    using total g
    by (simp add: expect_bytes_written[of "[]", simplified] tag_byte.read_written[where x = "kind_tag (op_kind p)", simplified]
        k str.read_written public_type.read_written field.read_written[where s = "[]", simplified] max_content_fits32)
qed

lemma expect_thenE:
  assumes "and_then (expect_bytes m (reader_at p s)) (\<lambda>(u, r). k u r) = Inr y"
  obtains s' where "s = m @ s'" "k () (reader_at (p @ m) s') = Inr y"
proof -
  obtain r where "expect_bytes m (reader_at p s) = Inr ((), r)" "k () r = Inr y"
    using assms by (auto simp: result_simps)
  then show thesis using that by (elim expect_bytes_read) auto
qed

lemma kind_thenE:
  assumes "and_then (kind_from_tag b) k = Inr y"
  obtains kind where "b = kind_tag kind" "k kind = Inr y"
  using assms by (auto simp: result_simps kind_from_tag_eq)

lemma and_thenE:
  assumes "and_then r f = Inr y"
  obtains x where "r = Inr x" "f x = Inr y"
  using assms by (auto simp: result_simps)

lemma and_then_pairE:
  assumes "and_then r (\<lambda>(a, b). f a b) = Inr y"
  obtains a b where "r = Inr (a, b)" "f a b = Inr y"
  using assms by (auto simp: result_simps)

lemma ok_orE:
  assumes "ok_or e opt = Inr y"
  obtains "opt = Some y"
  using assms by (auto simp: result_simps)

lemma ensureE:
  assumes "ensure b e k = Inr y"
  obtains b "k = Inr y"
  using assms by (auto simp: result_simps)

lemma decode_plaintext_read:
  assumes "decode_plaintext bs = Inr p"
  shows "public_good p \<and> bs = public_frame p"
  using assms unfolding decode_plaintext_def reader_new_at
  by (elim expect_thenE tag_byte.read_thenE kind_thenE str.read_thenE public_type.read_thenE field.read_thenE ensureE)
    (auto simp: public_good_def public_frame_def)

theorem decode_plaintext_iff:
  assumes "length bs < 2 ^ 64"
  shows "decode_plaintext bs = Inr p \<longleftrightarrow> public_good p \<and> bs = public_frame p"
  using decode_plaintext_read decode_plaintext_frame assms by blast

lemma encode_plaintext_iff:
  "encode_plaintext ctx pt = Inr bs \<longleftrightarrow> fits32 (utf8 (created_at ctx)) \<and> fits32 (utf8 (expires_at ctx))
     \<and> pred_option (\<lambda>t. fits32 (utf8 t)) (pt_content_type pt) \<and> fits32 (pt_body pt)
     \<and> bs = public_frame (opened_of ctx pt)"
  by (auto simp: encode_plaintext_def append_field_eq append_content_type_def result_simps public_frame_def
      opened_of_def written_type_def Let_def split: option.splits)

definition opened_private_of :: "content_context \<Rightarrow> mesh_plaintext \<Rightarrow> opened_private_payload" where
  "opened_private_of ctx pt = \<lparr>opp_context = ctx, opp_payload = opened_of ctx pt\<rparr>"

definition context_fields :: "content_context \<Rightarrow> rstr list" where
  "context_fields ctx = [envelope_id ctx, message_id ctx, opaque_mailbox_id ctx, sender_endpoint_id ctx,
     recipient_endpoint_id ctx, session_id ctx, created_at ctx, expires_at ctx]"

definition private_frame :: "opened_private_payload \<Rightarrow> bytes" where
  "private_frame q =
     (let ctx = opp_context q; p = opp_payload q in
      PRIVATE_CONTEXT_FRAME_MAGIC @ [kind_tag (op_kind p)] @ field (utf8 (envelope_id ctx))
        @ field (utf8 (message_id ctx)) @ field (utf8 (opaque_mailbox_id ctx))
        @ field (utf8 (sender_endpoint_id ctx)) @ field (utf8 (recipient_endpoint_id ctx))
        @ field (utf8 (session_id ctx)) @ field (utf8 (created_at ctx)) @ field (utf8 (expires_at ctx))
        @ written_type (op_content_type p) @ field (op_body p))"

definition private_good :: "opened_private_payload \<Rightarrow> bool" where
  "private_good q \<longleftrightarrow>
     (let ctx = opp_context q; p = opp_payload q in
      (\<forall>t\<in>set (context_fields ctx). good_required MAX_CONTEXT_FIELD_BYTES t)
      \<and> op_created_at p = created_at ctx \<and> op_expires_at p = expires_at ctx
      \<and> pred_option (good_required MAX_CONTENT_TYPE_BYTES) (op_content_type p)
      \<and> length (op_body p) \<le> MAX_CONTENT_BYTES)"

lemma validate_context_field_iff:
  "validate_context_field label t = Inr u \<longleftrightarrow> trim t \<noteq> [] \<and> str_len t \<le> MAX_CONTEXT_FIELD_BYTES"
  by (auto simp: validate_context_field_def result_simps)

lemma validate_context_iff:
  "validate_context ctx = Inr u \<longleftrightarrow>
     (\<forall>t\<in>set (context_fields ctx). trim t \<noteq> [] \<and> str_len t \<le> MAX_CONTEXT_FIELD_BYTES)"
  by (simp add: validate_context_def and_then_Inr_iff validate_context_field_iff context_fields_def conj_assoc)

lemma decode_private_frame:
  assumes "private_good q" "length (private_frame q) < 2 ^ 64"
  shows "decode_private_context_frame (private_frame q) = Inr q"
proof -
  define ctx p where d: "ctx = opp_context q" "p = opp_payload q"
  have g: "good_required MAX_CONTEXT_FIELD_BYTES (envelope_id ctx)" "good_required MAX_CONTEXT_FIELD_BYTES (message_id ctx)"
    "good_required MAX_CONTEXT_FIELD_BYTES (opaque_mailbox_id ctx)" "good_required MAX_CONTEXT_FIELD_BYTES (sender_endpoint_id ctx)"
    "good_required MAX_CONTEXT_FIELD_BYTES (recipient_endpoint_id ctx)" "good_required MAX_CONTEXT_FIELD_BYTES (session_id ctx)"
    "good_required MAX_CONTEXT_FIELD_BYTES (created_at ctx)" "good_required MAX_CONTEXT_FIELD_BYTES (expires_at ctx)"
    "pred_option (good_required MAX_CONTENT_TYPE_BYTES) (op_content_type p)" "length (op_body p) \<le> MAX_CONTENT_BYTES"
    and same: "op_created_at p = created_at ctx" "op_expires_at p = expires_at ctx"
    using assms(1) by (simp_all add: private_good_def context_fields_def Let_def d)
  have v: "validate_context ctx = Inr ()"
    using g by (simp add: validate_context_iff context_fields_def good_required_def)
  have q: "q = \<lparr>opp_context = ctx, opp_payload = p\<rparr>" by (simp add: d)
  note total = assms(2)[unfolded private_frame_def q, simplified]
  have p: "\<lparr>op_kind = op_kind p, op_body = op_body p, op_content_type = op_content_type p,
      op_created_at = created_at ctx, op_expires_at = expires_at ctx\<rparr> = p"
    by (simp add: same[symmetric])
  have c: "\<lparr>envelope_id = envelope_id ctx, message_id = message_id ctx, opaque_mailbox_id = opaque_mailbox_id ctx,
      sender_endpoint_id = sender_endpoint_id ctx, recipient_endpoint_id = recipient_endpoint_id ctx,
      session_id = session_id ctx, created_at = created_at ctx, expires_at = expires_at ctx\<rparr> = ctx"
    by simp
  have k: "kind_from_tag (kind_tag (op_kind p)) = Inr (op_kind p)" by (simp add: kind_from_tag_eq)
  show ?thesis
    unfolding decode_private_context_frame_def private_frame_def reader_new_at q
    using total g v same
    by (simp add: expect_bytes_written[of "[]", simplified] tag_byte.read_written[where x = "kind_tag (op_kind p)", simplified]
        k required.read_written private_type.read_written field.read_written[where s = "[]", simplified]
        max_content_fits32 Let_def p c)
qed

lemma decode_private_read:
  assumes "decode_private_context_frame bs = Inr q"
  shows "private_good q \<and> bs = private_frame q"
  using assms unfolding decode_private_context_frame_def reader_new_at Let_def
  by (elim expect_thenE tag_byte.read_thenE kind_thenE required.read_thenE private_type.read_thenE
      field.read_thenE ensureE)
    (auto simp: private_good_def private_frame_def context_fields_def result_simps)

theorem decode_private_iff:
  assumes "length bs < 2 ^ 64"
  shows "decode_private_context_frame bs = Inr q \<longleftrightarrow> private_good q \<and> bs = private_frame q"
  using decode_private_read decode_private_frame assms by blast

lemma encode_private_iff:
  "encode_private_context_frame ctx pt = Inr bs \<longleftrightarrow> validate_context ctx = Inr () \<and> validate_plaintext pt = Inr ()
     \<and> bs = private_frame (opened_private_of ctx pt)"
proof -
  have small: "fits32 (utf8 t)" if "str_len t \<le> MAX_CONTEXT_FIELD_BYTES" for t
    using that by (simp add: fits32_utf8 MAX_CONTEXT_FIELD_BYTES_def)
  have types: "fits32 (utf8 t)" if "str_len t \<le> MAX_CONTENT_TYPE_BYTES" for t
    using that by (simp add: fits32_utf8 MAX_CONTENT_TYPE_BYTES_def)
  show ?thesis
  proof (cases "validate_context ctx = Inr () \<and> validate_plaintext pt = Inr ()")
    case True
    then have "\<forall>t\<in>set (context_fields ctx). fits32 (utf8 t)" "fits32 (pt_body pt)"
      and t: "case pt_content_type pt of None \<Rightarrow> True | Some t \<Rightarrow> fits32 (utf8 t)"
      using small types by (auto simp: validate_context_iff validate_plaintext_def result_simps max_content_fits32
          split: option.splits)
    then show ?thesis
      using True by (cases "pt_content_type pt") (auto simp: encode_private_context_frame_def append_field_eq append_content_type_def
          context_fields_def private_frame_def opened_private_of_def opened_of_def written_type_def Let_def)
  next
    case False
    then show ?thesis by (auto simp: encode_private_context_frame_def result_simps)
  qed
qed

end
