(* ===== verification/Content_Padding.thy ===== *)
theory Content_Padding
  imports Content_Codec
begin

text \<open>
  Padding: the bucket of a payload is the least admissible ciphertext size that holds it, and
  removing the padding recovers exactly what was padded.
\<close>

section \<open>Powers of two\<close>

lemma next_power_of_two_one [simp]: "n \<le> 1 \<Longrightarrow> next_power_of_two n = 1"
  by (simp add: next_power_of_two.simps)

lemma next_power_of_two_step: "\<not> n \<le> 1 \<Longrightarrow> next_power_of_two n = 2 * next_power_of_two ((n + 1) div 2)"
  by (subst next_power_of_two.simps) simp

lemma next_power_of_two_ge: "n \<le> next_power_of_two n"
proof (induction n rule: next_power_of_two.induct)
  case (1 n)
  show ?case
  proof (cases "n \<le> 1")
    case False
    then show ?thesis using 1[OF False] by (simp add: next_power_of_two_step[OF False])
  qed simp
qed

lemma next_power_of_two_less: "0 < n \<Longrightarrow> next_power_of_two n < 2 * n"
proof (induction n rule: next_power_of_two.induct)
  case (1 n)
  show ?case
  proof (cases "n \<le> 1")
    case False
    then have "next_power_of_two ((n + 1) div 2) < 2 * ((n + 1) div 2)" using 1 by simp
    moreover have "even (next_power_of_two ((n + 1) div 2)) \<or> next_power_of_two ((n + 1) div 2) = 1"
      by (cases "(n + 1) div 2 \<le> 1") (simp_all add: next_power_of_two_step)
    ultimately show ?thesis
      unfolding next_power_of_two_step[OF False] using False by (elim disjE; presburger)
  qed (use 1 in auto)
qed

lemma is_power_of_two_one [simp]: "is_power_of_two (Suc 0)"
  by (simp add: is_power_of_two.simps)

lemma is_power_of_two_double [simp]: "is_power_of_two (2 * n) \<longleftrightarrow> is_power_of_two n"
  by (subst is_power_of_two.simps) (simp add: is_power_of_two.simps[of 0])

lemma is_power_of_two_power: "is_power_of_two (2 ^ k)"
  by (induction k) simp_all

lemma is_power_of_two_next: "is_power_of_two (next_power_of_two n)"
proof (induction n rule: next_power_of_two.induct)
  case (1 n)
  show ?case
  proof (cases "n \<le> 1")
    case False
    then show ?thesis using 1[OF False] by (simp add: next_power_of_two_step[OF False])
  qed simp
qed

lemma next_power_of_two_least: "is_power_of_two m \<Longrightarrow> n \<le> m \<Longrightarrow> next_power_of_two n \<le> m"
proof (induction n arbitrary: m rule: next_power_of_two.induct)
  case (1 n)
  show ?case
  proof (cases "n \<le> 1")
    case True
    have "m \<noteq> 0" using "1.prems"(1) by (intro notI) (simp add: is_power_of_two.simps)
    then show ?thesis using True by simp
  next
    case False
    have m: "even m" "is_power_of_two (m div 2)"
      using "1.prems" False by (auto simp: is_power_of_two.simps[of m] split: if_splits)
    have "(n + 1) div 2 \<le> m div 2" using "1.prems"(2) m(1) by presburger
    from "1.IH"[OF False m(2) this] m(1) show ?thesis
      unfolding next_power_of_two_step[OF False] by presburger
  qed
qed

section \<open>Buckets\<close>

definition bucket :: "nat \<Rightarrow> bool" where
  "bucket b \<longleftrightarrow> validate_authenticated_padding_bucket b = Inr ()"

lemmas padding_constants = MIN_PADDING_BUCKET_BYTES_def MAX_PADDING_BUCKET_BYTES_def
  POWER_OF_TWO_PADDING_LIMIT_BYTES_def LARGE_PADDING_BUCKET_STEP_BYTES_def AEAD_TAG_LEN_def

lemma bucket_iff:
  "bucket b \<longleftrightarrow> 256 \<le> b \<and> b \<le> 16777216 \<and> (if b \<le> 65536 then is_power_of_two b else b mod 65536 = 0)"
  by (auto simp: bucket_def validate_authenticated_padding_bucket_def padding_constants result_simps)

lemma length_padded_magic [simp]: "length PADDED_PLAINTEXT_MAGIC = 12"
  by (simp add: PADDED_PLAINTEXT_MAGIC_def ascii_def)

lemma framed_size_of_eq: "framed_size_of n = (if 32 + n < 2 ^ 64 then Some (32 + n) else None)"
  by (auto simp: framed_size_of_def usize_add_def padding_constants)

lemma limit_power: "is_power_of_two 65536"
  using is_power_of_two_power[of 16] by simp

text \<open>The bucket in plain arithmetic.\<close>

definition bucket_size :: "nat \<Rightarrow> nat" where
  "bucket_size framed =
     (if framed \<le> 65536 then next_power_of_two (max framed 256) else (framed + 65535) div 65536 * 65536)"

lemma small_bucket: "framed \<le> 65536 \<Longrightarrow> next_power_of_two (max framed 256) \<le> 65536"
  by (rule next_power_of_two_least[OF limit_power]) simp

lemma padding_bucket_eq:
  "padding_bucket_for_ciphertext_size n =
     (if \<not> 32 + n < 2 ^ 64 then Inl PaddedLengthOverflow
      else if \<not> 32 + n + 65535 < 2 ^ 64 then Inl BucketOverflow
      else if 16777216 < bucket_size (32 + n) then Inl MaximumBucketExceeded
      else Inr (bucket_size (32 + n)))"
proof (cases "32 + n \<le> 65536")
  case True
  then show ?thesis
    using small_bucket[OF True]
    by (simp add: padding_bucket_for_ciphertext_size_def framed_size_of_eq bucket_size_def
        checked_next_power_of_two_def padding_constants)
next
  case False
  then show ?thesis
    by (auto simp: padding_bucket_for_ciphertext_size_def framed_size_of_eq bucket_size_def usize_add_def
        padding_constants)
qed

lemma bucket_size_ge: "framed \<le> bucket_size framed"
proof (cases "framed \<le> 65536")
  case True
  have "max framed 256 \<le> next_power_of_two (max framed 256)" by (rule next_power_of_two_ge)
  then show ?thesis using True by (simp add: bucket_size_def)
next
  case False
  have "framed + 65535 = (framed + 65535) div 65536 * 65536 + (framed + 65535) mod 65536"
    by (rule div_mult_mod_eq[symmetric])
  moreover have "(framed + 65535) mod 65536 \<le> 65535" by simp
  ultimately show ?thesis using False by (simp add: bucket_size_def)
qed

lemma bucket_size_bucket:
  assumes "bucket_size framed \<le> 16777216"
  shows "bucket (bucket_size framed)"
proof (cases "framed \<le> 65536")
  case True
  have "max framed 256 \<le> next_power_of_two (max framed 256)" by (rule next_power_of_two_ge)
  then show ?thesis
    using True small_bucket[OF True] by (simp add: bucket_iff bucket_size_def is_power_of_two_next)
next
  case False
  then have "65536 < bucket_size framed" using bucket_size_ge[of framed] by simp
  then show ?thesis using False assms by (simp add: bucket_iff) (simp add: bucket_size_def)
qed

lemma bucket_size_least:
  assumes "bucket b" "framed \<le> b"
  shows "bucket_size framed \<le> b"
proof (cases "framed \<le> 65536")
  case True
  show ?thesis
  proof (cases "b \<le> 65536")
    case inner: True
    then have "next_power_of_two (max framed 256) \<le> b"
      using assms by (intro next_power_of_two_least) (auto simp: bucket_iff)
    then show ?thesis using True by (simp add: bucket_size_def)
  next
    case False
    then show ?thesis using small_bucket[OF True] True by (simp add: bucket_size_def)
  qed
next
  case False
  then have "b mod 65536 = 0" using assms by (simp add: bucket_iff)
  then obtain q where q: "b = 65536 * q" by (auto simp: mod_eq_0_iff_dvd)
  then have "(framed + 65535) div 65536 \<le> (65536 * q + 65535) div 65536"
    using assms(2) by (intro div_le_mono) simp
  also have "\<dots> = q" by simp
  finally show ?thesis using False q by (simp add: bucket_size_def)
qed

lemma bucket_size_bound: "bucket_size framed \<le> max 256 (2 * framed)"
proof (cases "framed \<le> 65536")
  case True
  have "next_power_of_two 256 \<le> 256"
    using next_power_of_two_least[OF is_power_of_two_power[of 8], of 256] by simp
  then show ?thesis
    using True next_power_of_two_less[of framed] by (cases "256 \<le> framed") (simp_all add: bucket_size_def)
next
  case False
  have "(framed + 65535) div 65536 * 65536 \<le> framed + 65535" by (rule div_times_less_eq_dividend)
  then show ?thesis using False by (simp add: bucket_size_def)
qed

section \<open>Adding and removing\<close>

lemma add_padding_Inr:
  "add_bucket_padding bs = Inr padded \<longleftrightarrow>
     (\<exists>b. padding_bucket_for_ciphertext_size (length bs) = Inr b \<and>
        padded = PADDED_PLAINTEXT_MAGIC @ field bs @ replicate (b - 32 - length bs) 0)"
proof -
  have "resize (b - 16) (PADDED_PLAINTEXT_MAGIC @ u32_to_be (of_nat (length bs)) @ bs)
      = PADDED_PLAINTEXT_MAGIC @ field bs @ replicate (b - 32 - length bs) 0 \<and> 16 \<le> b \<and> length bs < 2 ^ 32"
    if "padding_bucket_for_ciphertext_size (length bs) = Inr b" for b
  proof -
    have b: "b = bucket_size (32 + length bs)" "b \<le> 16777216"
      using that by (simp_all add: padding_bucket_eq split: if_splits)
    then have "32 + length bs \<le> b" using bucket_size_ge by simp
    then show ?thesis using b(2) by (simp add: resize_def field_def)
  qed
  then show ?thesis
    by (auto simp: add_bucket_padding_def result_simps padding_constants)
qed

lemma remove_padding_Inr:
  "remove_authenticated_padding padded = Inr bs \<longleftrightarrow>
     fits32 bs \<and> (\<exists>n. padded = PADDED_PLAINTEXT_MAGIC @ field bs @ replicate n 0)"
proof
  assume *: "remove_authenticated_padding padded = Inr bs"
  let ?l = "take 4 (drop 12 padded)" and ?t = "drop 16 padded"
  let ?n = "unat (u32_from_be ?l)"
  have len: "16 \<le> length padded" "take 12 padded = PADDED_PLAINTEXT_MAGIC" "16 + ?n \<le> length padded"
    and zeros: "\<forall>b\<in>set (drop (16 + ?n) padded). b = 0" and bs: "bs = take ?n ?t"
    using * by (auto simp: remove_authenticated_padding_def usize_add_def Let_def result_simps split: if_splits)
  have n: "length bs = ?n" using len(3) bs by simp
  have "drop (16 + ?n) padded = replicate (length padded - (16 + ?n)) 0"
    using zeros by (intro replicate_eqI) auto
  then have t: "?t = bs @ replicate (length padded - (16 + ?n)) 0"
    using append_take_drop_id[of ?n ?t] bs by (simp add: add.commute)
  have "field bs = ?l @ bs"
    using u32_to_from_be[of ?l] len(1) by (simp add: field_def n)
  moreover have "padded = take 12 padded @ ?l @ ?t"
    using append_take_drop_id[of 12 padded] append_take_drop_id[of 4 "drop 12 padded"] by simp
  ultimately have "padded = PADDED_PLAINTEXT_MAGIC @ field bs @ replicate (length padded - (16 + ?n)) 0"
    using len(2) t by simp
  moreover have "fits32 bs" using unsigned_less[of "u32_from_be ?l"] by (simp add: fits32_def n)
  ultimately show "fits32 bs \<and> (\<exists>n. padded = PADDED_PLAINTEXT_MAGIC @ field bs @ replicate n 0)" by blast
next
  assume "fits32 bs \<and> (\<exists>n. padded = PADDED_PLAINTEXT_MAGIC @ field bs @ replicate n 0)"
  then obtain n where fit: "fits32 bs" and p: "padded = PADDED_PLAINTEXT_MAGIC @ field bs @ replicate n 0" by blast
  have "length bs < 2 ^ 32" using fit by (simp add: fits32_def)
  then show "remove_authenticated_padding padded = Inr bs"
    by (simp add: remove_authenticated_padding_def p field_def usize_add_def Let_def unat_of_length[OF fit])
qed

end
