(* ===== verification/Content_Proofs.thy ===== *)
theory Content_Proofs
  imports Content_Padding
begin

text \<open>
  Sealing and opening taken apart: the laws the packages are used under, the associated data
  and what it determines, headers, and the steps a successful seal or open went through.
\<close>

section \<open>Laws of the packages\<close>

definition content_laws :: "content_crypto \<Rightarrow> bool" where
  "content_laws cc \<longleftrightarrow>
     (\<forall>bs. cc_unbase64 cc (cc_base64 cc bs) = Some bs \<and> str_len (cc_base64 cc bs) = (4 * length bs + 2) div 3)
     \<and> (\<forall>bs. length (cc_sha256 cc bs) = AAD_HASH_LEN)
     \<and> (\<forall>k n a m c. cc_encrypt cc k n a m = Some c \<longrightarrow>
          length c = length m + AEAD_TAG_LEN \<and> cc_decrypt cc k n a c = Some m)"

lemma content_lawsD:
  assumes "content_laws cc"
  shows "cc_unbase64 cc (cc_base64 cc bs) = Some bs" "str_len (cc_base64 cc bs) = (4 * length bs + 2) div 3"
    "length (cc_sha256 cc bs) = 32"
    "cc_encrypt cc k n a m = Some c \<Longrightarrow> length c = length m + 16"
    "cc_encrypt cc k n a m = Some c \<Longrightarrow> cc_decrypt cc k n a c = Some m"
  using assms by (auto simp: content_laws_def AAD_HASH_LEN_def AEAD_TAG_LEN_def)

lemma encoded_within_limit: "(4 * n + 2) div 3 \<le> encoded_len_limit n"
proof -
  have "(4 * n + 2) div 3 \<le> (n + 2) div 3 * 4" by presburger
  then show ?thesis by (simp add: encoded_len_limit_def)
qed

lemma encoded_len_limit_mono: "m \<le> n \<Longrightarrow> encoded_len_limit m \<le> encoded_len_limit n"
  by (auto simp: encoded_len_limit_def intro!: div_le_mono)

section \<open>Associated data\<close>

definition additional_part :: "bytes \<Rightarrow> bytes" where
  "additional_part additional = (if additional = [] then [] else ADDITIONAL_AAD_MAGIC @ field additional)"

definition aad_bytes :: "content_context \<Rightarrow> payload_kind \<Rightarrow> bytes \<Rightarrow> bytes" where
  "aad_bytes ctx kind additional =
     AAD_MAGIC @ field (utf8 SECURE_MESH_PROTOCOL_VERSION) @ field (utf8 SECURE_MESH_CONTENT_CIPHER_SUITE)
     @ field (utf8 (envelope_id ctx)) @ field (utf8 (message_id ctx)) @ field (utf8 (opaque_mailbox_id ctx))
     @ field (utf8 (sender_endpoint_id ctx)) @ field (utf8 (recipient_endpoint_id ctx))
     @ field (utf8 (session_id ctx)) @ field (utf8 (kind_as_str kind)) @ field (utf8 (created_at ctx))
     @ field (utf8 (expires_at ctx))
     @ additional_part additional"

lemma context_fields_fit:
  assumes "validate_context ctx = Inr ()" "t \<in> set (context_fields ctx)"
  shows "fits32 (utf8 t)" "str_len t \<le> 4096"
  using assms by (auto simp: validate_context_iff fits32_utf8 MAX_CONTEXT_FIELD_BYTES_def)

lemma str_len_bound: "str_len t \<le> 4 * length t"
proof (induction t)
  case (Cons c t)
  have "length (utf8_char c) \<le> 4" by (simp add: utf8_char_def)
  then show ?case using Cons.IH by (simp add: str_len_def)
qed (simp add: str_len_def)

lemma literal_lengths:
  "str_len SECURE_MESH_PROTOCOL_VERSION \<le> 300" "str_len SECURE_MESH_CONTENT_CIPHER_SUITE \<le> 300"
  "str_len (kind_as_str kind) \<le> 300"
proof -
  have "length SECURE_MESH_PROTOCOL_VERSION \<le> 75" "length SECURE_MESH_CONTENT_CIPHER_SUITE \<le> 75"
    "length (kind_as_str kind) \<le> 75"
    by (simp_all add: SECURE_MESH_PROTOCOL_VERSION_def SECURE_MESH_CONTENT_CIPHER_SUITE_def lit_def) (cases kind; simp add: lit_def)
  then show "str_len SECURE_MESH_PROTOCOL_VERSION \<le> 300" "str_len SECURE_MESH_CONTENT_CIPHER_SUITE \<le> 300"
    "str_len (kind_as_str kind) \<le> 300"
    by (auto intro: order.trans[OF str_len_bound])
qed

lemma constants_fit:
  "fits32 (utf8 SECURE_MESH_PROTOCOL_VERSION)" "fits32 (utf8 SECURE_MESH_CONTENT_CIPHER_SUITE)"
  "fits32 (utf8 (kind_as_str kind))" "fits32 PRIVATE_CONTEXT_AEAD_AAD"
  using literal_lengths(1,2) literal_lengths(3)[of kind]
  by (simp_all add: fits32_utf8) (simp add: fits32_def PRIVATE_CONTEXT_AEAD_AAD_def ascii_def)

lemma additional_fits: "length additional \<le> MAX_ADDITIONAL_AAD_BYTES \<Longrightarrow> fits32 additional"
  by (simp add: fits32_def MAX_ADDITIONAL_AAD_BYTES_def)

lemma build_aad_eq:
  assumes "validate_context ctx = Inr ()"
  shows "build_aad_with_binding ctx kind additional =
    (if length additional \<le> MAX_ADDITIONAL_AAD_BYTES then Inr (aad_bytes ctx kind additional)
     else Inl AdditionalAadTooLarge)"
  using context_fields_fit(1)[OF assms] additional_fits[of additional]
  by (simp add: build_aad_with_binding_def validate_additional_aad_def append_field_eq constants_fit
      context_fields_def aad_bytes_def additional_part_def)

lemma kind_as_str_inj: "kind_as_str k = kind_as_str k' \<longleftrightarrow> k = k'"
  by (cases k; cases k'; simp add: lit_def)

lemma valid_str_kind [simp]: "valid_str (kind_as_str k)"
  by (cases k) simp_all

text \<open>A sequence of fields is determined by its bytes.\<close>

lemma fields_cancel:
  assumes "concat (map field vs) @ s = concat (map field ws) @ t" "length vs = length ws"
    and "\<forall>v\<in>set vs \<union> set ws. fits32 v" "length (concat (map field vs) @ s) < 2 ^ 64"
  shows "vs = ws \<and> s = t"
  using assms(2,1,3,4)
proof (induction vs ws rule: list_induct2)
  case (Cons v vs w ws)
  have "v = w \<and> concat (map field vs) @ s = concat (map field ws) @ t"
    using Cons.prems by (intro field.self_delimiting) simp_all
  then show ?case using Cons by simp
qed simp

text \<open>The associated data determines everything it binds.\<close>

definition context_strings :: "content_context \<Rightarrow> bool" where
  "context_strings ctx \<longleftrightarrow> (\<forall>t\<in>set (context_fields ctx). valid_str t)"

lemma aad_bytes_inj:
  assumes "validate_context ctx = Inr ()" "validate_context ctx' = Inr ()"
    and "context_strings ctx" "context_strings ctx'"
    and "length additional \<le> MAX_ADDITIONAL_AAD_BYTES" "length additional' \<le> MAX_ADDITIONAL_AAD_BYTES"
    and "aad_bytes ctx kind additional = aad_bytes ctx' kind' additional'"
  shows "ctx = ctx' \<and> kind = kind' \<and> additional = additional'"
proof -
  define vs where "vs ctx kind = map utf8 [SECURE_MESH_PROTOCOL_VERSION, SECURE_MESH_CONTENT_CIPHER_SUITE,
      envelope_id ctx, message_id ctx, opaque_mailbox_id ctx, sender_endpoint_id ctx, recipient_endpoint_id ctx,
      session_id ctx, kind_as_str kind, created_at ctx, expires_at ctx]" for ctx :: content_context and kind
  have aad: "aad_bytes ctx kind additional = AAD_MAGIC @ concat (map field (vs ctx kind)) @ additional_part additional"
    for ctx kind additional by (simp add: aad_bytes_def vs_def)
  have fit: "\<forall>v\<in>set (vs ctx kind). length v \<le> 4096" if "validate_context ctx = Inr ()" for ctx kind
    using context_fields_fit(2)[OF that] literal_lengths(1,2) literal_lengths(3)[of kind]
    by (auto simp: vs_def context_fields_def str_len_def intro: order.trans[of _ 300])
  have part: "length (additional_part additional) \<le> 20000"
    using assms(5) by (simp add: additional_part_def ADDITIONAL_AAD_MAGIC_def ascii_def MAX_ADDITIONAL_AAD_BYTES_def)
  have "length (concat (map field (vs ctx kind))) \<le> 11 * 4100"
    using fit[OF assms(1), of kind] by (simp add: vs_def)
  moreover have "vs ctx kind = vs ctx' kind' \<and> additional_part additional = additional_part additional'"
  proof (rule fields_cancel)
    show "\<forall>v\<in>set (vs ctx kind) \<union> set (vs ctx' kind'). fits32 v"
      using fit[OF assms(1)] fit[OF assms(2)] by (force simp: fits32_def)
    show "concat (map field (vs ctx kind)) @ additional_part additional
        = concat (map field (vs ctx' kind')) @ additional_part additional'"
      using assms(7) by (simp only: aad same_append_eq)
    show "length (concat (map field (vs ctx kind)) @ additional_part additional) < 2 ^ 64"
      unfolding length_append by (rule le_less_trans[OF add_mono[OF calculation part]]) simp
  qed (simp add: vs_def)
  ultimately have same: "map utf8 (context_fields ctx) = map utf8 (context_fields ctx')"
    "utf8 (kind_as_str kind) = utf8 (kind_as_str kind')"
    "additional_part additional = additional_part additional'"
    by (simp_all add: vs_def context_fields_def)
  have valid: "\<forall>t\<in>set (context_fields ctx). valid_str t" "\<forall>t\<in>set (context_fields ctx'). valid_str t"
    using assms(3,4) by (simp_all add: context_strings_def)
  have "context_fields ctx = context_fields ctx'"
  proof (rule map_inj_on[OF same(1)])
    show "inj_on utf8 (set (context_fields ctx) \<union> set (context_fields ctx'))"
      using valid by (intro inj_onI) (auto intro: utf8_inj)
  qed
  then have "ctx = ctx'" by (simp add: context_fields_def)
  moreover have "kind = kind'" using utf8_inj[OF _ _ same(2)] by (simp add: kind_as_str_inj)
  moreover have "additional = additional'"
    using same(3) fields_cancel[of "[additional]" "[]" "[additional']" "[]"] additional_fits assms(5,6)
    by (auto simp: additional_part_def ADDITIONAL_AAD_MAGIC_def ascii_def MAX_ADDITIONAL_AAD_BYTES_def split: if_splits)
  ultimately show ?thesis by simp
qed

section \<open>What sealing and opening do\<close>

lemma validate_plaintext_body: "validate_plaintext pt = Inr u \<Longrightarrow> length (pt_body pt) \<le> MAX_CONTENT_BYTES"
  by (simp add: validate_plaintext_def result_simps)

lemma seal_payload_Inr:
  assumes "seal_payload_with_aad_binding cc nonce key ctx pt additional = Inr sealed"
  obtains derived encoded padded ciphertext where
    "validate_context ctx = Inr ()" "validate_plaintext pt = Inr ()" "length additional \<le> MAX_ADDITIONAL_AAD_BYTES"
    "derive_aead_key cc key ctx (pt_kind pt) (aad_bytes ctx (pt_kind pt) additional) = Inr derived"
    "encode_plaintext ctx pt = Inr encoded" "add_bucket_padding encoded = Inr padded"
    "cc_encrypt cc derived nonce (aad_bytes ctx (pt_kind pt) additional) padded = Some ciphertext"
    "sealed = \<lparr>sp_protocol_version = SECURE_MESH_PROTOCOL_VERSION, sp_cipher_suite = SECURE_MESH_CONTENT_CIPHER_SUITE,
       sp_encrypted_header = encode_header cc nonce (cc_sha256 cc (aad_bytes ctx (pt_kind pt) additional)),
       sp_ciphertext = cc_base64 cc ciphertext, sp_ciphertext_size = length ciphertext\<rparr>"
proof -
  have "validate_context ctx = Inr ()"
    using assms by (auto simp: seal_payload_with_aad_binding_def seal_payload_with_nonce_and_aad_binding_def result_simps)
  note aad = build_aad_eq[OF this, of "pt_kind pt" additional]
  from assms show thesis
    unfolding seal_payload_with_aad_binding_def seal_payload_with_nonce_and_aad_binding_def
    by (elim and_thenE ok_orE) (rule that; auto simp: aad split: if_splits)
qed

lemma open_payload_Inr:
  assumes "open_payload_with_aad_binding cc key ctx sealed kind additional = Inr p"
  obtains nonce derived ciphertext padded unpadded where
    "validate_context ctx = Inr ()" "length additional \<le> MAX_ADDITIONAL_AAD_BYTES"
    "decode_header cc (sp_encrypted_header sealed) = Inr (nonce, cc_sha256 cc (aad_bytes ctx kind additional))"
    "cc_unbase64 cc (sp_ciphertext sealed) = Some ciphertext" "length ciphertext = sp_ciphertext_size sealed"
    "derive_aead_key cc key ctx kind (aad_bytes ctx kind additional) = Inr derived"
    "cc_decrypt cc derived nonce (aad_bytes ctx kind additional) ciphertext = Some padded"
    "remove_authenticated_padding padded = Inr unpadded" "decode_plaintext unpadded = Inr p" "op_kind p = kind"
proof -
  have "validate_context ctx = Inr ()"
    using assms by (auto simp: open_payload_with_aad_binding_def result_simps)
  note aad = build_aad_eq[OF this, of kind additional]
  from assms show thesis
    unfolding open_payload_with_aad_binding_def
    by (elim and_then_pairE and_thenE ok_orE ensureE) (rule that; auto simp: aad split: if_splits)
qed

lemma padded_size:
  assumes "add_bucket_padding encoded = Inr padded"
  obtains b where "bucket b" "length padded + 16 = b" "length encoded + 32 \<le> b"
    "padding_bucket_for_ciphertext_size (length encoded) = Inr b"
proof -
  obtain b where b: "padding_bucket_for_ciphertext_size (length encoded) = Inr b"
      "padded = PADDED_PLAINTEXT_MAGIC @ field encoded @ replicate (b - 32 - length encoded) 0"
    using assms by (auto simp: add_padding_Inr)
  have "b = bucket_size (32 + length encoded)" "b \<le> 16777216"
    using b(1) by (simp_all add: padding_bucket_eq split: if_splits)
  then have "bucket b" "32 + length encoded \<le> b" using bucket_size_bucket bucket_size_ge by simp_all
  then show thesis using b by (intro that[of b]) simp_all
qed

lemma remove_add_padding: "add_bucket_padding encoded = Inr padded \<Longrightarrow> remove_authenticated_padding padded = Inr encoded"
proof -
  assume *: "add_bucket_padding encoded = Inr padded"
  then obtain b where b: "padding_bucket_for_ciphertext_size (length encoded) = Inr b"
      "padded = PADDED_PLAINTEXT_MAGIC @ field encoded @ replicate (b - 32 - length encoded) 0"
    by (auto simp: add_padding_Inr)
  from padded_size[OF *] obtain b' where "length padded + 16 = b'" "bucket b'" "length encoded + 32 \<le> b'" by blast
  then have "fits32 encoded" by (simp add: fits32_def bucket_iff)
  then show ?thesis using b(2) by (auto simp: remove_padding_Inr)
qed

lemma decode_header_encoded:
  assumes "content_laws cc" "length nonce = CONTENT_NONCE_LEN"
  shows "decode_header cc (encode_header cc nonce (cc_sha256 cc x)) = Inr (nonce, cc_sha256 cc x)"
  using content_lawsD[OF assms(1)] assms(2) encoded_within_limit[of 56]
  by (simp add: decode_header_def encode_header_def Let_def HEADER_MAGIC_def ascii_def CONTENT_NONCE_LEN_def AAD_HASH_LEN_def)

lemma decode_canonical_encoded:
  assumes "content_laws cc" "minimum \<le> length bs" "length bs \<le> maximum" "bs \<noteq> []"
  shows "decode_canonical_base64url cc label (cc_base64 cc bs) minimum maximum = Inr bs"
proof -
  note laws = content_lawsD[OF assms(1)]
  have "0 < length bs" using assms(4) by simp
  then have "0 < (4 * length bs + 2) div 3" by linarith
  then have "cc_base64 cc bs \<noteq> []" using laws(2)[of bs] by (auto simp: str_len_def)
  moreover have "str_len (cc_base64 cc bs) \<le> encoded_len_limit maximum"
    unfolding laws(2) by (rule order.trans[OF encoded_within_limit encoded_len_limit_mono[OF assms(3)]])
  ultimately show ?thesis
    using assms(2,3) laws(1) by (simp add: decode_canonical_base64url_def)
qed

lemma decode_private_header_encoded:
  assumes "content_laws cc" "length nonce = CONTENT_NONCE_LEN"
  shows "decode_private_context_header cc (encode_private_context_header cc nonce) = Inr nonce"
  using decode_canonical_encoded[OF assms(1), of 75 "PRIVATE_CONTEXT_HEADER_MAGIC @ nonce @ cc_sha256 cc PRIVATE_CONTEXT_AEAD_AAD" 75]
    content_lawsD[OF assms(1)] assms(2)
  by (simp add: decode_private_context_header_def encode_private_context_header_def Let_def
      PRIVATE_CONTEXT_HEADER_MAGIC_def ascii_def CONTENT_NONCE_LEN_def AAD_HASH_LEN_def)

lemma seal_private_Inr:
  assumes "seal_private_context_payload cc nonce key ctx pt = Inr sealed"
  obtains encoded padded derived ciphertext where
    "validate_context ctx = Inr ()" "validate_plaintext pt = Inr ()"
    "encode_private_context_frame ctx pt = Inr encoded" "add_bucket_padding encoded = Inr padded"
    "derive_private_context_aead_key cc key = Inr derived"
    "cc_encrypt cc derived nonce PRIVATE_CONTEXT_AEAD_AAD padded = Some ciphertext"
    "validate_sealed_private cc sealed = Inr ()"
    "sealed = \<lparr>spp_encrypted_header = encode_private_context_header cc nonce,
       spp_ciphertext = cc_base64 cc ciphertext, spp_ciphertext_size = length ciphertext\<rparr>"
  using assms
  unfolding seal_private_context_payload_def seal_private_context_payload_with_nonce_def
    sealed_private_from_encoded_parts_def Let_def
  by (elim and_thenE ok_orE) (rule that; auto)

text \<open>Opening inverts sealing.\<close>

lemma open_sealed:
  assumes "content_laws cc" "length nonce = CONTENT_NONCE_LEN"
    and "context_strings ctx" "pred_option valid_str (pt_content_type pt)"
    and "seal_payload_with_aad_binding cc nonce key ctx pt additional = Inr sealed"
  shows "open_payload_with_aad_binding cc key ctx sealed (pt_kind pt) additional = Inr (opened_of ctx pt)"
proof -
  from seal_payload_Inr[OF assms(5)] obtain derived encoded padded ciphertext where
    valid: "validate_context ctx = Inr ()" "validate_plaintext pt = Inr ()" "length additional \<le> MAX_ADDITIONAL_AAD_BYTES"
    and derived: "derive_aead_key cc key ctx (pt_kind pt) (aad_bytes ctx (pt_kind pt) additional) = Inr derived"
    and encoded: "encode_plaintext ctx pt = Inr encoded" and padded: "add_bucket_padding encoded = Inr padded"
    and cipher: "cc_encrypt cc derived nonce (aad_bytes ctx (pt_kind pt) additional) padded = Some ciphertext"
    and sealed: "sealed = \<lparr>sp_protocol_version = SECURE_MESH_PROTOCOL_VERSION, sp_cipher_suite = SECURE_MESH_CONTENT_CIPHER_SUITE,
       sp_encrypted_header = encode_header cc nonce (cc_sha256 cc (aad_bytes ctx (pt_kind pt) additional)),
       sp_ciphertext = cc_base64 cc ciphertext, sp_ciphertext_size = length ciphertext\<rparr>" .
  note laws = content_lawsD[OF assms(1)]
  from padded_size[OF padded] obtain b where b: "bucket b" "length padded + 16 = b" "length encoded + 32 \<le> b" by blast
  have size: "length ciphertext = b" using laws(4)[OF cipher] b(2) by simp
  then have limits: "0 < length ciphertext" "length ciphertext \<le> MAX_SEALED_CONTENT_BYTES"
    using b(1) by (simp_all add: bucket_iff MAX_SEALED_CONTENT_BYTES_def padding_constants)
  have coded: "str_len (cc_base64 cc ciphertext) \<le> encoded_len_limit MAX_SEALED_CONTENT_BYTES"
    unfolding laws(2) by (rule order.trans[OF encoded_within_limit encoded_len_limit_mono[OF limits(2)]])
  have frame: "encoded = public_frame (opened_of ctx pt)" using encoded by (simp add: encode_plaintext_iff)
  have good: "public_good (opened_of ctx pt)"
    using encoded valid(2) assms(3,4)
    by (auto simp: encode_plaintext_iff public_good_def opened_of_def good_string_def fits32_utf8 context_strings_def
        context_fields_def validate_plaintext_def result_simps option.pred_set)
  have "length encoded < 2 ^ 64" using b by (simp add: bucket_iff)
  then have "decode_plaintext encoded = Inr (opened_of ctx pt)"
    using decode_plaintext_frame[OF good] frame by simp
  then show ?thesis
    using valid derived limits coded laws(1) laws(5)[OF cipher]
    by (simp add: open_payload_with_aad_binding_def sealed validate_additional_aad_def
        decode_header_encoded[OF assms(1,2)] build_aad_eq remove_add_padding[OF padded] opened_of_def)
qed

end
