(* ===== verification/Content_Samples.thy ===== *)
theory Content_Samples
  imports Content_Proofs
begin

text \<open>
  A concrete instance of the packages, with the base64url grouping written out, on which the
  theorems about content encryption are applied.
\<close>

section \<open>Base64 groups\<close>

fun sample_base64 :: "bytes \<Rightarrow> rstr" where
  "sample_base64 (a # b # c # r) =
     [48 + unat a div 4, 48 + unat a mod 4 * 16 + unat b div 16, 48 + unat b mod 16 * 4 + unat c div 64,
      48 + unat c mod 64] @ sample_base64 r"
| "sample_base64 [a, b] =
     [48 + unat a div 4, 48 + unat a mod 4 * 16 + unat b div 16, 48 + unat b mod 16 * 4]"
| "sample_base64 [a] = [48 + unat a div 4, 48 + unat a mod 4 * 16]"
| "sample_base64 [] = []"

fun sample_unbase64 :: "rstr \<Rightarrow> bytes option" where
  "sample_unbase64 (x # y # z # w # r) =
     map_option ((@) [of_nat ((x - 48) * 4 + (y - 48) div 16), of_nat ((y - 48) mod 16 * 16 + (z - 48) div 4),
        of_nat ((z - 48) mod 4 * 64 + (w - 48))]) (sample_unbase64 r)"
| "sample_unbase64 [x, y, z] =
     Some [of_nat ((x - 48) * 4 + (y - 48) div 16), of_nat ((y - 48) mod 16 * 16 + (z - 48) div 4)]"
| "sample_unbase64 [x, y] = Some [of_nat ((x - 48) * 4 + (y - 48) div 16)]"
| "sample_unbase64 [x] = None"
| "sample_unbase64 [] = Some []"

lemma byte_less: "unat (a :: u8) < 256"
  using unsigned_less[of a, where ?'a = nat] by simp

lemma byte_low: "n < 16 \<Longrightarrow> of_nat (unat a div 4 * 4 + (unat a mod 4 * 16 + n) div 16) = (a :: u8)"
proof -
  assume "n < 16"
  then have "(unat a mod 4 * 16 + n) div 16 = unat a mod 4" by simp
  then show ?thesis by simp
qed

lemma byte_middle:
  assumes "k < 4" "m < 4"
  shows "of_nat ((k * 16 + unat a div 16) mod 16 * 16 + (unat a mod 16 * 4 + m) div 4) = (a :: u8)"
proof -
  have "unat a div 16 < 16" using byte_less[of a] by linarith
  then have "(k * 16 + unat a div 16) mod 16 = unat a div 16" by simp
  moreover have "(unat a mod 16 * 4 + m) div 4 = unat a mod 16" using assms(2) by simp
  ultimately show ?thesis by simp
qed

lemma byte_high: "of_nat ((k * 4 + unat a div 64) mod 4 * 64 + unat a mod 64) = (a :: u8)"
proof -
  have "unat a div 64 < 4" using byte_less[of a] by linarith
  then have "(k * 4 + unat a div 64) mod 4 = unat a div 64" by simp
  then show ?thesis by simp
qed

lemma byte_div: "unat (a :: u8) div 16 < 16" "unat (a :: u8) div 64 < 4"
  using byte_less[of a] by linarith+

lemma sample_unbase64_base64: "sample_unbase64 (sample_base64 bs) = Some bs"
proof (induction bs rule: sample_base64.induct)
  case (1 a b c r)
  then show ?case
    using byte_low[OF byte_div(1), of a b] byte_middle[OF _ byte_div(2), of "unat a mod 4" b c]
      byte_high[of "unat b mod 16" c]
    by (simp del: of_nat_add of_nat_mult)
next
  case (2 a b)
  show ?case
    using byte_low[OF byte_div(1), of a b] byte_middle[of "unat a mod 4" 0 b]
    by (simp del: of_nat_add of_nat_mult)
next
  case (3 a)
  show ?case using byte_low[of 0 a] by (simp del: of_nat_add of_nat_mult)
qed simp

lemma str_len_sample_base64: "str_len (sample_base64 bs) = (4 * length bs + 2) div 3"
proof -
  have digit: "length (utf8_char c) = 1" if "c < 128" for c using that by (simp add: utf8_char_def)
  have "length (utf8 (sample_base64 bs)) = (4 * length bs + 2) div 3"
  proof (induction bs rule: sample_base64.induct)
    case (1 a b c r)
    have "unat a div 4 < 64" "unat b div 16 < 16" "unat c div 64 < 4" "unat a mod 4 < 4" "unat b mod 16 < 16"
      "unat c mod 64 < 64" using byte_less[of a] byte_div by simp_all
    then have "48 + unat a div 4 < 128" "48 + unat a mod 4 * 16 + unat b div 16 < 128"
      "48 + unat b mod 16 * 4 + unat c div 64 < 128" "48 + unat c mod 64 < 128" by linarith+
    then show ?case using 1 digit by simp
  next
    case (2 a b)
    have "unat a div 4 < 64" "unat b div 16 < 16" "unat a mod 4 < 4" "unat b mod 16 < 16"
      using byte_less[of a] byte_div by simp_all
    then have "48 + unat a div 4 < 128" "48 + unat a mod 4 * 16 + unat b div 16 < 128"
      "48 + unat b mod 16 * 4 < 128" by linarith+
    then show ?case using digit by simp
  next
    case (3 a)
    have "unat a div 4 < 64" "unat a mod 4 < 4" using byte_less[of a] by simp_all
    then have "48 + unat a div 4 < 128" "48 + unat a mod 4 * 16 < 128" by linarith+
    then show ?case using digit by simp
  qed simp
  then show ?thesis by (simp add: str_len_def)
qed

section \<open>The packages and a payload\<close>

definition sample_cc :: content_crypto where
  "sample_cc = \<lparr>cc_sha256 = (\<lambda>bs. replicate 32 (of_nat (length bs))),
     cc_hkdf = (\<lambda>salt key info n. Some (replicate n 7)),
     cc_encrypt = (\<lambda>k n a m. Some (m @ replicate 16 9)),
     cc_decrypt = (\<lambda>k n a c. if 16 \<le> length c then Some (take (length c - 16) c) else None),
     cc_base64 = sample_base64, cc_unbase64 = sample_unbase64\<rparr>"

lemma sample_cc_laws: "content_laws sample_cc"
  by (simp add: content_laws_def sample_cc_def sample_unbase64_base64 str_len_sample_base64 AAD_HASH_LEN_def
      AEAD_TAG_LEN_def)

definition sample_content_context :: content_context where
  "sample_content_context = \<lparr>envelope_id = lit ''env'', message_id = lit ''msg'', opaque_mailbox_id = lit ''box'',
     sender_endpoint_id = lit ''from'', recipient_endpoint_id = lit ''to'', session_id = lit ''s'',
     created_at = lit ''t0'', expires_at = lit ''t1''\<rparr>"

definition sample_plaintext :: mesh_plaintext where
  "sample_plaintext = with_content_type (plaintext_new FileChunk [1, 2, 3]) (lit ''text/plain'')"

definition sample_nonce :: bytes where "sample_nonce = replicate 12 5"
definition sample_key :: bytes where "sample_key = content_key_from_bytes (replicate 32 1)"
definition sample_additional :: bytes where "sample_additional = [42]"

lemma sample_content_context_valid: "validate_context sample_content_context = Inr ()" "context_strings sample_content_context"
proof -
  have "str_len t \<le> 4096" if "t \<in> set (context_fields sample_content_context)" for t
    using that by (intro order.trans[OF str_len_bound]) (auto simp: sample_content_context_def context_fields_def lit_def)
  moreover have "trim t \<noteq> []" if "t \<in> set (context_fields sample_content_context)" for t
    using that by (auto simp: sample_content_context_def context_fields_def lit_def trim_Nil_iff white_space_def)
  ultimately show "validate_context sample_content_context = Inr ()"
    by (simp add: validate_context_iff MAX_CONTEXT_FIELD_BYTES_def)
  show "context_strings sample_content_context"
    by (simp add: context_strings_def context_fields_def sample_content_context_def)
qed

lemma sample_plaintext_valid:
  "validate_plaintext sample_plaintext = Inr ()" "pred_option valid_str (pt_content_type sample_plaintext)"
proof -
  have "str_len (lit ''text/plain'') \<le> 255"
    by (intro order.trans[OF str_len_bound]) (simp add: lit_def)
  moreover have "trim (lit ''text/plain'') \<noteq> []" by (simp add: lit_def trim_Nil_iff white_space_def)
  ultimately show "validate_plaintext sample_plaintext = Inr ()"
    by (simp add: validate_plaintext_def sample_plaintext_def with_content_type_def plaintext_new_def
        MAX_CONTENT_BYTES_def MAX_CONTENT_TYPE_BYTES_def)
qed (simp add: sample_plaintext_def with_content_type_def plaintext_new_def)

lemma sample_nonce_length: "length sample_nonce = CONTENT_NONCE_LEN"
  by (simp add: sample_nonce_def CONTENT_NONCE_LEN_def)

lemma small_padding:
  assumes "length encoded \<le> 224"
  obtains padded where "add_bucket_padding encoded = Inr padded"
proof -
  have "bucket 256" using is_power_of_two_power[of 8] by (simp add: bucket_iff)
  then have "bucket_size (32 + length encoded) \<le> 256" using assms by (intro bucket_size_least) simp_all
  then have "\<exists>b. padding_bucket_for_ciphertext_size (length encoded) = Inr b"
    using assms by (auto simp: padding_bucket_eq)
  then show thesis using that by (auto simp: add_padding_Inr)
qed

lemmas sample_data = sample_content_context_def sample_plaintext_def with_content_type_def plaintext_new_def lit_def utf8_char_def

lemma sample_encodes: "\<exists>encoded. encode_plaintext sample_content_context sample_plaintext = Inr encoded \<and> length encoded \<le> 224"
  by (simp add: encode_plaintext_iff sample_data fits32_def public_frame_def opened_of_def PLAINTEXT_MAGIC_def
      ascii_def written_type_def)

lemma sample_private_encodes:
  "\<exists>encoded. encode_private_context_frame sample_content_context sample_plaintext = Inr encoded \<and> length encoded \<le> 224"
proof -
  have "length (private_frame (opened_private_of sample_content_context sample_plaintext)) \<le> 224"
    by (simp add: private_frame_def opened_private_of_def opened_of_def sample_data PRIVATE_CONTEXT_FRAME_MAGIC_def
        ascii_def written_type_def)
  then show ?thesis using sample_content_context_valid(1) sample_plaintext_valid(1) by (simp add: encode_private_iff)
qed

lemma sample_key_length: "length sample_key = CONTENT_KEY_LEN"
  by (simp add: sample_key_def content_key_from_bytes_def CONTENT_KEY_LEN_def)

lemma sample_seals_any:
  assumes "length key = CONTENT_KEY_LEN" "length additional \<le> MAX_ADDITIONAL_AAD_BYTES"
  shows "\<exists>sealed. seal_payload_with_aad_binding sample_cc sample_nonce key sample_content_context sample_plaintext
     additional = Inr sealed"
proof -
  obtain encoded where e: "encode_plaintext sample_content_context sample_plaintext = Inr encoded" "length encoded \<le> 224"
    using sample_encodes by blast
  obtain padded where "add_bucket_padding encoded = Inr padded" using small_padding[OF e(2)] .
  moreover have "fits32 (utf8 (session_id sample_content_context))"
    using context_fields_fit(1)[OF sample_content_context_valid(1)] by (simp add: context_fields_def)
  ultimately show ?thesis
    using sample_content_context_valid(1) sample_plaintext_valid(1) e(1) assms
    by (simp add: seal_payload_with_aad_binding_def seal_payload_with_nonce_and_aad_binding_def build_aad_eq
        validate_additional_aad_def derive_aead_key_def append_field_eq constants_fit Let_def)
      (simp add: sample_cc_def)
qed

lemma sample_seals:
  "\<exists>sealed. seal_payload_with_aad_binding sample_cc sample_nonce sample_key sample_content_context sample_plaintext
     sample_additional = Inr sealed"
  by (rule sample_seals_any[OF sample_key_length]) (simp add: sample_additional_def MAX_ADDITIONAL_AAD_BYTES_def)

lemma sample_private_seals:
  "\<exists>sealed. seal_private_context_payload sample_cc sample_nonce sample_key sample_content_context sample_plaintext = Inr sealed"
proof -
  obtain encoded where e: "encode_private_context_frame sample_content_context sample_plaintext = Inr encoded" "length encoded \<le> 224"
    using sample_private_encodes by blast
  obtain padded where padded: "add_bucket_padding encoded = Inr padded" using small_padding[OF e(2)] .
  from padded_size[OF padded] obtain b where b: "bucket b" "length padded + 16 = b" by blast
  let ?c = "padded @ replicate 16 9"
  have "?c \<noteq> []" by simp
  note decoded = decode_canonical_encoded[OF sample_cc_laws order.refl order.refl this]
  have "cc_base64 sample_cc ?c = sample_base64 ?c" by (simp add: sample_cc_def)
  then show ?thesis
    using sample_content_context_valid(1) sample_plaintext_valid(1) e(1) padded b decoded
      decode_private_header_encoded[OF sample_cc_laws sample_nonce_length]
    by (simp add: seal_private_context_payload_def seal_private_context_payload_with_nonce_def
        derive_private_context_aead_key_def sample_key_length append_field_eq constants_fit Let_def
        sealed_private_from_encoded_parts_def validate_sealed_private_def bucket_def)
      (simp add: sample_cc_def)
qed

definition sample_sealed :: sealed_payload where
  "sample_sealed = projr (seal_payload_with_aad_binding sample_cc sample_nonce sample_key sample_content_context sample_plaintext
     sample_additional)"

lemma sample_sealed:
  "seal_payload_with_aad_binding sample_cc sample_nonce sample_key sample_content_context sample_plaintext sample_additional
     = Inr sample_sealed"
  using sample_seals by (auto simp: sample_sealed_def)

lemma sample_opens:
  "open_payload_with_aad_binding sample_cc sample_key sample_content_context sample_sealed (pt_kind sample_plaintext)
     sample_additional = Inr (opened_of sample_content_context sample_plaintext)"
  by (rule open_sealed[OF sample_cc_laws sample_nonce_length sample_content_context_valid(2) sample_plaintext_valid(2) sample_sealed])

end
