(* ===== verification/Content_Properties.thy ===== *)
theory Content_Properties
  imports Content_Samples
begin

text \<open>
  What content encryption guarantees: sealed payloads open to what was sealed, under their own
  context only; what is opened was authenticated and has one reading; the size of a
  ciphertext says no more than its bucket.
\<close>

text \<open>
  Whatever is sealed, with or without additional associated data, opens under the same key,
  context and kind to exactly the kind, body and content type that were sealed, with the
  times of the context.
\<close>

theorem sealed_payload_opens:
  assumes "content_laws cc" "length nonce = CONTENT_NONCE_LEN"
    and "context_strings ctx" "pred_option valid_str (pt_content_type pt)"
    and "seal_payload_with_aad_binding cc nonce key ctx pt additional = Inr sealed"
  shows "open_payload_with_aad_binding cc key ctx sealed (pt_kind pt) additional = Inr (opened_of ctx pt)"
  by (rule open_sealed[OF assms])

theorem sealed_payload_opens_witness:
  "open_payload_with_aad_binding sample_cc sample_key sample_content_context sample_sealed (pt_kind sample_plaintext)
     sample_additional = Inr (opened_of sample_content_context sample_plaintext)"
  by (rule sealed_payload_opens[OF sample_cc_laws sample_nonce_length sample_content_context_valid(2) sample_plaintext_valid(2)
        sample_sealed])

text \<open>
  C11: A payload sealed with its context inside opens to the payload and the whole context, and its
  size is an admissible bucket.
\<close>

theorem private_payload_opens:
  assumes "content_laws cc" "length nonce = CONTENT_NONCE_LEN"
    and "context_strings ctx" "pred_option valid_str (pt_content_type pt)"
    and "seal_private_context_payload cc nonce key ctx pt = Inr sealed"
  shows "open_private_context_payload cc key sealed
      = Inr \<lparr>opp_context = ctx, opp_payload = opened_of ctx pt\<rparr>
    \<and> validate_authenticated_padding_bucket (spp_ciphertext_size sealed) = Inr ()"
proof -
  from seal_private_Inr[OF assms(5)] obtain encoded padded derived ciphertext where
    valid: "validate_context ctx = Inr ()" "validate_plaintext pt = Inr ()"
    and encoded: "encode_private_context_frame ctx pt = Inr encoded" and padded: "add_bucket_padding encoded = Inr padded"
    and derived: "derive_private_context_aead_key cc key = Inr derived"
    and cipher: "cc_encrypt cc derived nonce PRIVATE_CONTEXT_AEAD_AAD padded = Some ciphertext"
    and checked: "validate_sealed_private cc sealed = Inr ()"
    and sealed: "sealed = \<lparr>spp_encrypted_header = encode_private_context_header cc nonce,
       spp_ciphertext = cc_base64 cc ciphertext, spp_ciphertext_size = length ciphertext\<rparr>" .
  note laws = content_lawsD[OF assms(1)]
  from padded_size[OF padded] obtain b where b: "bucket b" "length padded + 16 = b" "length encoded + 32 \<le> b" by blast
  have size: "length ciphertext = b" using laws(4)[OF cipher] b(2) by simp
  have bucket: "bucket (length ciphertext)" using b(1) size by simp
  then have "ciphertext \<noteq> []" by (auto simp: bucket_iff)
  note coded = decode_canonical_encoded[OF assms(1) order.refl order.refl this]
  let ?q = "\<lparr>opp_context = ctx, opp_payload = opened_of ctx pt\<rparr>"
  have frame: "encoded = private_frame ?q" using encoded by (simp add: encode_private_iff opened_private_of_def)
  have good: "private_good ?q"
    using valid assms(3,4)
    by (auto simp: private_good_def Let_def opened_of_def good_required_def good_string_def validate_context_iff
        context_strings_def validate_plaintext_def result_simps option.pred_set MAX_CONTEXT_FIELD_BYTES_def
        MAX_CONTENT_TYPE_BYTES_def context_fields_def)
  have "length encoded < 2 ^ 64" using b by (simp add: bucket_iff)
  then have "decode_private_context_frame encoded = Inr ?q"
    using decode_private_frame[OF good] frame by simp
  then have "open_private_context_payload cc key sealed = Inr ?q"
    using checked derived laws(5)[OF cipher] coded
    by (simp add: open_private_context_payload_def sealed decode_private_header_encoded[OF assms(1,2)]
        remove_add_padding[OF padded])
  then show ?thesis using bucket by (simp add: sealed bucket_def)
qed

theorem private_payload_opens_witness:
  "\<exists>sealed. seal_private_context_payload sample_cc sample_nonce sample_key sample_content_context sample_plaintext = Inr sealed
     \<and> open_private_context_payload sample_cc sample_key sealed
         = Inr \<lparr>opp_context = sample_content_context, opp_payload = opened_of sample_content_context sample_plaintext\<rparr>"
  using private_payload_opens[OF sample_cc_laws sample_nonce_length sample_content_context_valid(2) sample_plaintext_valid(2)]
    sample_private_seals by blast

text \<open>
  C12: A sealed payload opens under no other context, kind or additional data than it was sealed
  with, unless two different associated data have one SHA-256 digest.
\<close>

theorem payload_bound_to_context:
  assumes "content_laws cc" "length nonce = CONTENT_NONCE_LEN"
    and "context_strings ctx" "context_strings ctx'"
    and "seal_payload_with_aad_binding cc nonce key ctx pt additional = Inr sealed"
    and "open_payload_with_aad_binding cc key' ctx' sealed kind' additional' = Inr opened"
  shows "ctx' = ctx \<and> kind' = pt_kind pt \<and> additional' = additional
    \<or> aad_bytes ctx (pt_kind pt) additional \<noteq> aad_bytes ctx' kind' additional'
      \<and> cc_sha256 cc (aad_bytes ctx (pt_kind pt) additional) = cc_sha256 cc (aad_bytes ctx' kind' additional')"
proof -
  from seal_payload_Inr[OF assms(5)] obtain derived encoded padded ciphertext where
    valid: "validate_context ctx = Inr ()" "validate_plaintext pt = Inr ()" "length additional \<le> MAX_ADDITIONAL_AAD_BYTES"
    and "derive_aead_key cc key ctx (pt_kind pt) (aad_bytes ctx (pt_kind pt) additional) = Inr derived"
    and sealed: "sealed = \<lparr>sp_protocol_version = SECURE_MESH_PROTOCOL_VERSION, sp_cipher_suite = SECURE_MESH_CONTENT_CIPHER_SUITE,
       sp_encrypted_header = encode_header cc nonce (cc_sha256 cc (aad_bytes ctx (pt_kind pt) additional)),
       sp_ciphertext = cc_base64 cc ciphertext, sp_ciphertext_size = length ciphertext\<rparr>" .
  then have header: "sp_encrypted_header sealed = encode_header cc nonce (cc_sha256 cc (aad_bytes ctx (pt_kind pt) additional))"
    by simp
  from open_payload_Inr[OF assms(6)] obtain n derived c padded plain where
    valid': "validate_context ctx' = Inr ()" "length additional' \<le> MAX_ADDITIONAL_AAD_BYTES"
    and opened: "decode_header cc (sp_encrypted_header sealed) = Inr (n, cc_sha256 cc (aad_bytes ctx' kind' additional'))"
    by blast
  have "cc_sha256 cc (aad_bytes ctx' kind' additional') = cc_sha256 cc (aad_bytes ctx (pt_kind pt) additional)"
    using opened unfolding header decode_header_encoded[OF assms(1,2)] by simp
  then show ?thesis
    using aad_bytes_inj[OF valid(1) valid'(1) assms(3,4) valid(3) valid'(2)] by metis
qed

theorem payload_bound_to_context_witness:
  "open_payload_with_aad_binding sample_cc sample_key sample_content_context sample_sealed (pt_kind sample_plaintext)
     sample_additional = Inr (opened_of sample_content_context sample_plaintext)
   \<and> (let aad = aad_bytes sample_content_context (pt_kind sample_plaintext) sample_additional in
      sample_content_context = sample_content_context \<and> pt_kind sample_plaintext = pt_kind sample_plaintext \<and> sample_additional = sample_additional
      \<or> aad \<noteq> aad \<and> cc_sha256 sample_cc aad = cc_sha256 sample_cc aad)"
  unfolding Let_def
  by (rule conjI[OF sample_opens]) (rule payload_bound_to_context[OF sample_cc_laws sample_nonce_length
      sample_content_context_valid(2) sample_content_context_valid(2) sample_sealed sample_opens])

text \<open>
  C13: What is opened was decrypted under the key derived for this context and kind with the
  associated data of this context, and the decrypted bytes are the one canonical frame of the
  payload that is returned.
\<close>

theorem opened_payload_authentic:
  assumes "open_payload_with_aad_binding cc key ctx sealed kind additional = Inr p"
  shows "\<exists>nonce derived ciphertext n.
      decode_header cc (sp_encrypted_header sealed) = Inr (nonce, cc_sha256 cc (aad_bytes ctx kind additional))
    \<and> derive_aead_key cc key ctx kind (aad_bytes ctx kind additional) = Inr derived
    \<and> cc_unbase64 cc (sp_ciphertext sealed) = Some ciphertext \<and> length ciphertext = sp_ciphertext_size sealed
    \<and> cc_decrypt cc derived nonce (aad_bytes ctx kind additional) ciphertext
        = Some (PADDED_PLAINTEXT_MAGIC @ field (public_frame p) @ replicate n 0)
    \<and> public_good p \<and> op_kind p = kind"
proof -
  from open_payload_Inr[OF assms] obtain nonce derived ciphertext padded unpadded where
    opened: "decode_header cc (sp_encrypted_header sealed) = Inr (nonce, cc_sha256 cc (aad_bytes ctx kind additional))"
      "cc_unbase64 cc (sp_ciphertext sealed) = Some ciphertext" "length ciphertext = sp_ciphertext_size sealed"
      "derive_aead_key cc key ctx kind (aad_bytes ctx kind additional) = Inr derived"
      "cc_decrypt cc derived nonce (aad_bytes ctx kind additional) ciphertext = Some padded" "op_kind p = kind"
    and plain: "remove_authenticated_padding padded = Inr unpadded" "decode_plaintext unpadded = Inr p" .
  obtain n where "padded = PADDED_PLAINTEXT_MAGIC @ field unpadded @ replicate n 0"
    using plain(1) by (auto simp: remove_padding_Inr)
  then show ?thesis using opened decode_plaintext_read[OF plain(2)] by auto
qed

theorem opened_payload_authentic_witness:
  "\<exists>nonce derived ciphertext n.
      decode_header sample_cc (sp_encrypted_header sample_sealed)
        = Inr (nonce, cc_sha256 sample_cc (aad_bytes sample_content_context (pt_kind sample_plaintext) sample_additional))
    \<and> cc_decrypt sample_cc derived nonce (aad_bytes sample_content_context (pt_kind sample_plaintext) sample_additional) ciphertext
        = Some (PADDED_PLAINTEXT_MAGIC @ field (public_frame (opened_of sample_content_context sample_plaintext)) @ replicate n 0)"
  using opened_payload_authentic[OF sample_opens] by blast

text \<open>
  C14: The size of a sealed payload is the least admissible bucket that holds the frame with its
  overhead. It is at most the larger of 256 bytes, the smallest bucket, and twice what the frame
  with its overhead needs. Two payloads of one bucket cannot be told apart by their size.
\<close>

theorem only_bucket_revealed:
  assumes "content_laws cc" "seal_payload_with_aad_binding cc nonce key ctx pt additional = Inr sealed"
    and "encode_plaintext ctx pt = Inr encoded"
    and "needed = length PADDED_PLAINTEXT_MAGIC + 4 + length encoded + AEAD_TAG_LEN"
  shows "padding_bucket_for_ciphertext_size (length encoded) = Inr (sp_ciphertext_size sealed)
    \<and> validate_authenticated_padding_bucket (sp_ciphertext_size sealed) = Inr ()
    \<and> needed \<le> sp_ciphertext_size sealed \<and> sp_ciphertext_size sealed \<le> max 256 (2 * needed)
    \<and> (\<forall>b. validate_authenticated_padding_bucket b = Inr () \<and> needed \<le> b \<longrightarrow> sp_ciphertext_size sealed \<le> b)
    \<and> str_len (sp_ciphertext sealed) = (4 * sp_ciphertext_size sealed + 2) div 3"
proof -
  from seal_payload_Inr[OF assms(2)] obtain derived e padded ciphertext where
    e: "encode_plaintext ctx pt = Inr e" "add_bucket_padding e = Inr padded"
    and cipher: "cc_encrypt cc derived nonce (aad_bytes ctx (pt_kind pt) additional) padded = Some ciphertext"
    and s: "sealed = \<lparr>sp_protocol_version = SECURE_MESH_PROTOCOL_VERSION, sp_cipher_suite = SECURE_MESH_CONTENT_CIPHER_SUITE,
       sp_encrypted_header = encode_header cc nonce (cc_sha256 cc (aad_bytes ctx (pt_kind pt) additional)),
       sp_ciphertext = cc_base64 cc ciphertext, sp_ciphertext_size = length ciphertext\<rparr>" .
  have padded: "add_bucket_padding encoded = Inr padded" using e assms(3) by simp
  have sealed: "sp_ciphertext sealed = cc_base64 cc ciphertext" "sp_ciphertext_size sealed = length ciphertext"
    using s by simp_all
  note laws = content_lawsD[OF assms(1)]
  from padded_size[OF padded] obtain b where b: "bucket b" "length padded + 16 = b" "length encoded + 32 \<le> b"
    "padding_bucket_for_ciphertext_size (length encoded) = Inr b" .
  have size: "length ciphertext = b" using laws(4)[OF cipher] b(2) by simp
  have needed: "needed = 32 + length encoded" by (simp add: assms(4) AEAD_TAG_LEN_def)
  have "b = bucket_size needed" using b(4) by (simp add: padding_bucket_eq needed split: if_splits)
  then show ?thesis
    using b bucket_size_least bucket_size_bound[of needed] laws(2) needed
    by (simp add: sealed size bucket_def add.commute)
qed

theorem only_bucket_revealed_witness:
  "\<exists>needed. needed \<le> sp_ciphertext_size sample_sealed \<and> sp_ciphertext_size sample_sealed \<le> max 256 (2 * needed)
     \<and> validate_authenticated_padding_bucket (sp_ciphertext_size sample_sealed) = Inr ()"
proof -
  obtain encoded where "encode_plaintext sample_content_context sample_plaintext = Inr encoded" using sample_encodes by blast
  from only_bucket_revealed[OF sample_cc_laws sample_sealed this refl] show ?thesis by blast
qed

end
