(* ===== verification/Json.thy ===== *)
theory Json
  imports Rust_Text "HOL-Library.List_Lexorder"
begin

text \<open>
  JSON values as \<open>serde_json::Value\<close> has them: numbers are unsigned or negative 64-bit
  integers or floats (by their bits), objects are maps sorted by key (the crate is built
  without \<open>preserve_order\<close>). Strings compare by code points, which is the order of their
  UTF-8 bytes. The text of a value is a parameter of the components that print or parse it.
\<close>

type_synonym i64 = int

datatype json_number = PosInt u64 | NegInt i64 | Float64 u64

datatype json =
    JNull
  | JBool bool
  | JNumber json_number
  | JString rstr
  | JArray "json list"
  | JObject "(rstr \<times> json) list"

definition json_i64 :: "i64 \<Rightarrow> json" where
  "json_i64 i = JNumber (if 0 \<le> i then PosInt (of_int i) else NegInt i)"

definition json_u64 :: "u64 \<Rightarrow> json" where
  "json_u64 n = JNumber (PosInt n)"

fun json_get :: "json \<Rightarrow> rstr \<Rightarrow> json option" where
  "json_get (JObject m) k = map_of m k"
| "json_get _ k = None"

fun as_str :: "json \<Rightarrow> rstr option" where
  "as_str (JString s) = Some s"
| "as_str _ = None"

fun as_bool :: "json \<Rightarrow> bool option" where
  "as_bool (JBool b) = Some b"
| "as_bool _ = None"

fun as_array :: "json \<Rightarrow> json list option" where
  "as_array (JArray xs) = Some xs"
| "as_array _ = None"

fun as_object :: "json \<Rightarrow> (rstr \<times> json) list option" where
  "as_object (JObject m) = Some m"
| "as_object _ = None"

fun as_i64 :: "json \<Rightarrow> i64 option" where
  "as_i64 (JNumber (PosInt n)) = (if uint n < 2 ^ 63 then Some (uint n) else None)"
| "as_i64 (JNumber (NegInt i)) = Some i"
| "as_i64 _ = None"

fun as_u64 :: "json \<Rightarrow> u64 option" where
  "as_u64 (JNumber (PosInt n)) = Some n"
| "as_u64 _ = None"

text \<open>\<open>BTreeMap::from\<close> and \<open>Map::from_iter\<close>: later entries replace earlier ones.\<close>

definition json_map :: "(rstr \<times> json) list \<Rightarrow> (rstr \<times> json) list" where
  "json_map kvs = fold (\<lambda>(k, v). bt_insert k v) kvs []"

lemma as_i64_json_i64: "- (2 ^ 63) \<le> i \<Longrightarrow> i < 2 ^ 63 \<Longrightarrow> as_i64 (json_i64 i) = Some i"
proof -
  assume i: "- (2 ^ 63) \<le> i" "i < 2 ^ 63"
  show ?thesis
  proof (cases "0 \<le> i")
    case True
    then have "uint (of_int i :: u64) = i"
      using i by (simp add: unsigned_of_int take_bit_int_eq_self)
    then show ?thesis using True i by (simp add: json_i64_def)
  qed (simp add: json_i64_def)
qed

lemma lookup_json_map: "map_of (json_map kvs) k = map_of (rev kvs) k"
proof -
  have "map_of (fold (\<lambda>(k, v). bt_insert k v) kvs m) k = (map_of m ++ map_of (rev kvs)) k" for m
    by (induction kvs arbitrary: m) (auto simp: map_of_bt_insert map_add_def split: option.splits)
  then show ?thesis by (simp add: json_map_def)
qed

end
