(* ===== verification/KT_Merkle.thy ===== *)
theory KT_Merkle
  imports Prelude
begin

text \<open>
  The RFC 9162 log of the transparency component (\<open>secure_mesh_transparency/proofs/\<close>): leaf
  and node hashes, the Merkle tree hash, and the generation and verification of inclusion and
  consistency proofs. SHA-256 is the parameter \<open>H\<close>; a hash is the list of its bytes.
\<close>

type_synonym hash = bytes

datatype kt_error =
    TreeEmpty | IndexInvalid | ExtraHashes | ProofTruncated | PathExceedsBound
  | ConsistencySizesInvalid | EmptyTreeProofNotEmpty | EmptyTreeRootInvalid
  | EqualSizeProofNotEmpty | EqualSizeRootsDiffer | ConsistencySizeInvalid
  | FirstRootMismatch | SecondRootMismatch
  | TextRequired | TextTooLarge | NotHexDigest | HashNotHex | SignatureNotHex
  | ProofExceedsHashBound | ProtocolVersionUnsupported | LogIdNotPinned | KeyIdNotPinned
  | IntegerUnsafe | SignatureInvalid | PinnedKeyInvalid | FromFuture | Stale
  | InclusionSizeMismatch | InclusionTooManyHashes | InclusionRootMismatch
  | CachedSizeMismatch | CachedRootMismatch | SecondSizeMismatch | ConsistencyTooManyHashes
  | LabelSubstitution | EntryAbsent | EntryPresent | LeafNotLatest | VersionNotLatest
  | RevocationMismatch | MapDepthInvalid | MapVersionUnsafe | MapRootMismatch
  | MaxAgeNotPositive | MaxAgeExceedsLimit | FutureSkewExceedsLimit

definition MAX_INCLUSION_PROOF_HASHES :: nat where "MAX_INCLUSION_PROOF_HASHES = 64"
definition MAX_CONSISTENCY_PROOF_HASHES :: nat where "MAX_CONSISTENCY_PROOF_HASHES = 65"

section \<open>Hashes\<close>

definition kt_log_leaf_hash :: "(bytes \<Rightarrow> hash) \<Rightarrow> bytes \<Rightarrow> hash" where
  "kt_log_leaf_hash H b = H (0 # b)"

definition log_node_hash :: "(bytes \<Rightarrow> hash) \<Rightarrow> hash \<Rightarrow> hash \<Rightarrow> hash" where
  "log_node_hash H left right = H (1 # left @ right)"

definition empty_log_root :: "(bytes \<Rightarrow> hash) \<Rightarrow> hash" where
  "empty_log_root H = H []"

text \<open>\<open>usize::BITS - 1 - leading_zeros\<close>: the index of the highest bit that is set.\<close>

fun highest_bit :: "nat \<Rightarrow> nat" where
  "highest_bit n = (if n \<le> 1 then 0 else Suc (highest_bit (n div 2)))"

declare highest_bit.simps [simp del]

definition largest_power_of_two_less_than :: "nat \<Rightarrow> nat" where
  "largest_power_of_two_less_than v = 2 ^ highest_bit (v - 1)"

lemma highest_bit_bounds: "0 < n \<Longrightarrow> 2 ^ highest_bit n \<le> n \<and> n < 2 ^ Suc (highest_bit n)"
proof (induction n rule: highest_bit.induct)
  case (1 n)
  show ?case
  proof (cases "n \<le> 1")
    case False
    then have "2 ^ highest_bit (n div 2) \<le> n div 2 \<and> n div 2 < 2 ^ Suc (highest_bit (n div 2))"
      using 1 by simp
    then show ?thesis using False by (subst (1 2) highest_bit.simps) auto
  qed (use 1 in \<open>simp add: highest_bit.simps\<close>)
qed

lemma split_bounds:
  assumes "1 < n"
  shows "0 < largest_power_of_two_less_than n" "largest_power_of_two_less_than n < n"
    "n \<le> 2 * largest_power_of_two_less_than n"
  using highest_bit_bounds[of "n - 1"] assms
  by (auto simp: largest_power_of_two_less_than_def)

lemma split_parts: "1 < n \<Longrightarrow> largest_power_of_two_less_than n < n \<and> n - largest_power_of_two_less_than n < n"
  using split_bounds[of n] by simp

text \<open>The split of a tree of \<open>n\<close> nodes is twice the split of the next level.\<close>

lemma split_halves:
  assumes "2 < n"
  shows "largest_power_of_two_less_than n = 2 * largest_power_of_two_less_than ((n + 1) div 2)"
proof -
  have "(n - 1) div 2 = (n + 1) div 2 - 1" by arith
  then show ?thesis
    using assms unfolding largest_power_of_two_less_than_def
    by (subst highest_bit.simps) auto
qed

function merkle_tree_hash :: "(bytes \<Rightarrow> hash) \<Rightarrow> hash list \<Rightarrow> hash" where
  "merkle_tree_hash H leaves =
     (if leaves = [] then empty_log_root H
      else if length leaves = 1 then hd leaves
      else let split = largest_power_of_two_less_than (length leaves) in
        log_node_hash H (merkle_tree_hash H (take split leaves)) (merkle_tree_hash H (drop split leaves)))"
  by pat_completeness auto
termination
proof (relation "measure (\<lambda>(H, leaves). length leaves)", goal_cases)
  case (2 H leaves x)
  then have "1 < length leaves" by (cases leaves) auto
  with 2 split_bounds(2) show ?case by auto
next
  case (3 H leaves x)
  then have "1 < length leaves" by (cases leaves) auto
  with 3 split_bounds(1) show ?case by auto
qed simp

declare merkle_tree_hash.simps [simp del]

section \<open>Inclusion proofs\<close>

text \<open>\<open>while fn_index & 1 == 0 && fn_index != 0\<close>.\<close>

function skip_even :: "nat \<Rightarrow> nat \<Rightarrow> nat \<times> nat" where
  "skip_even fn sn = (if even fn \<and> fn \<noteq> 0 then skip_even (fn div 2) (sn div 2) else (fn, sn))"
  by pat_completeness auto
termination by (relation "measure fst") auto

declare skip_even.simps [simp del]

fun fold_path :: "(bytes \<Rightarrow> hash) \<Rightarrow> hash \<Rightarrow> nat \<Rightarrow> nat \<Rightarrow> hash list \<Rightarrow> kt_error + hash" where
  "fold_path H h fn sn [] = ensure (sn = 0) ProofTruncated (Inr h)"
| "fold_path H h fn sn (sibling # path) =
     ensure (sn > 0) ExtraHashes
     (if odd fn \<or> fn = sn then
        (let (fn, sn) = skip_even fn sn in
         fold_path H (log_node_hash H sibling h) (fn div 2) (sn div 2) path)
      else fold_path H (log_node_hash H h sibling) (fn div 2) (sn div 2) path)"

definition fold_rfc9162_inclusion ::
    "(bytes \<Rightarrow> hash) \<Rightarrow> hash \<Rightarrow> nat \<Rightarrow> nat \<Rightarrow> hash list \<Rightarrow> kt_error + hash" where
  "fold_rfc9162_inclusion H h leaf_index tree_size path =
     ensure (tree_size > 0) TreeEmpty
     (ensure (leaf_index < tree_size) IndexInvalid
     (fold_path H h leaf_index (tree_size - 1) path))"

function inclusion_recurse :: "(bytes \<Rightarrow> hash) \<Rightarrow> hash list \<Rightarrow> nat \<Rightarrow> hash list" where
  "inclusion_recurse H leaves index =
     (if length leaves \<le> 1 then []
      else let split = largest_power_of_two_less_than (length leaves) in
        if index < split
        then inclusion_recurse H (take split leaves) index @ [merkle_tree_hash H (drop split leaves)]
        else inclusion_recurse H (drop split leaves) (index - split) @ [merkle_tree_hash H (take split leaves)])"
  by pat_completeness auto
termination
  by (relation "measure (\<lambda>(H, leaves, index). length leaves)")
    (use split_parts in \<open>auto simp: not_le\<close>)

declare inclusion_recurse.simps [simp del]

definition rfc9162_inclusion_path ::
    "(bytes \<Rightarrow> hash) \<Rightarrow> hash list \<Rightarrow> nat \<Rightarrow> kt_error + hash list" where
  "rfc9162_inclusion_path H leaves leaf_index =
     ensure (leaf_index < length leaves) IndexInvalid
     (let path = inclusion_recurse H leaves leaf_index in
      ensure (length path \<le> MAX_INCLUSION_PROOF_HASHES) PathExceedsBound (Inr path))"

section \<open>Consistency proofs\<close>

text \<open>\<open>while fn_index & 1 == 1\<close>.\<close>

function skip_odd :: "nat \<Rightarrow> nat \<Rightarrow> nat \<times> nat" where
  "skip_odd fn sn = (if odd fn then skip_odd (fn div 2) (sn div 2) else (fn, sn))"
  by pat_completeness auto
termination by (relation "measure fst") (auto elim: oddE)

declare skip_odd.simps [simp del]

fun consistency_fold ::
    "(bytes \<Rightarrow> hash) \<Rightarrow> hash \<Rightarrow> hash \<Rightarrow> nat \<Rightarrow> nat \<Rightarrow> hash list \<Rightarrow> kt_error + hash \<times> hash" where
  "consistency_fold H first second fn sn [] = ensure (sn = 0) ProofTruncated (Inr (first, second))"
| "consistency_fold H first second fn sn (node # path) =
     ensure (sn > 0) ExtraHashes
     (if odd fn \<or> fn = sn then
        (let (fn, sn) = skip_even fn sn in
         consistency_fold H (log_node_hash H node first) (log_node_hash H node second) (fn div 2) (sn div 2) path)
      else consistency_fold H first (log_node_hash H second node) (fn div 2) (sn div 2) path)"

definition verify_rfc9162_consistency ::
    "(bytes \<Rightarrow> hash) \<Rightarrow> nat \<Rightarrow> nat \<Rightarrow> hash \<Rightarrow> hash \<Rightarrow> hash list \<Rightarrow> kt_error + unit" where
  "verify_rfc9162_consistency H first_size second_size first_root second_root path =
     ensure (first_size \<le> second_size) ConsistencySizesInvalid
     (if first_size = 0 then
        ensure (path = []) EmptyTreeProofNotEmpty
        (ensure (first_root = empty_log_root H) EmptyTreeRootInvalid (Inr ()))
      else if first_size = second_size then
        ensure (path = []) EqualSizeProofNotEmpty
        (ensure (first_root = second_root) EqualSizeRootsDiffer (Inr ()))
      else
        (let (fn, sn) = skip_odd (first_size - 1) (second_size - 1) in
         and_then (if fn = 0 then Inr (first_root, path)
                   else case path of [] \<Rightarrow> Inl ProofTruncated | seed # rest \<Rightarrow> Inr (seed, rest)) (\<lambda>(seed, remaining).
         and_then (consistency_fold H seed seed fn sn remaining) (\<lambda>(first_hash, second_hash).
         ensure (first_hash = first_root) FirstRootMismatch
         (ensure (second_hash = second_root) SecondRootMismatch (Inr ()))))))"

text \<open>
  A recursive call always has \<open>0 < first_size \<le> length leaves\<close>, so a single leaf is complete;
  the test on the length makes the definition total.
\<close>

function subproof :: "(bytes \<Rightarrow> hash) \<Rightarrow> hash list \<Rightarrow> nat \<Rightarrow> bool \<Rightarrow> hash list" where
  "subproof H leaves first_size complete_subtree =
     (if first_size = length leaves \<or> length leaves \<le> 1 then
        (if complete_subtree then [] else [merkle_tree_hash H leaves])
      else let split = largest_power_of_two_less_than (length leaves) in
        if first_size \<le> split
        then subproof H (take split leaves) first_size complete_subtree @ [merkle_tree_hash H (drop split leaves)]
        else subproof H (drop split leaves) (first_size - split) False @ [merkle_tree_hash H (take split leaves)])"
  by pat_completeness auto
termination
  by (relation "measure (\<lambda>(H, leaves, first_size, c). length leaves)")
    (use split_parts in \<open>auto simp: not_le\<close>)

declare subproof.simps [simp del]

definition rfc9162_consistency_path ::
    "(bytes \<Rightarrow> hash) \<Rightarrow> hash list \<Rightarrow> nat \<Rightarrow> kt_error + hash list" where
  "rfc9162_consistency_path H leaves first_size =
     ensure (first_size \<le> length leaves) ConsistencySizeInvalid
     (if first_size = 0 \<or> first_size = length leaves then Inr []
      else let path = subproof H leaves first_size True in
        ensure (length path \<le> MAX_CONSISTENCY_PROOF_HASHES) PathExceedsBound (Inr path))"

section \<open>The tree level by level\<close>

text \<open>One level up: neighbours are hashed in pairs, an odd last node is promoted.\<close>

fun level_up :: "(bytes \<Rightarrow> hash) \<Rightarrow> hash list \<Rightarrow> hash list" where
  "level_up H (a # b # xs) = log_node_hash H a b # level_up H xs"
| "level_up H xs = xs"

lemma length_level_up [simp]: "length (level_up H xs) = (length xs + 1) div 2"
  by (induction H xs rule: level_up.induct) auto

lemma level_up_append: "even (length xs) \<Longrightarrow> level_up H (xs @ ys) = level_up H xs @ level_up H ys"
  by (induction H xs rule: level_up.induct) auto

lemma level_up_take: "even k \<Longrightarrow> k \<le> length xs \<Longrightarrow> level_up H (take k xs) = take (k div 2) (level_up H xs)"
proof -
  assume k: "even k" "k \<le> length xs"
  have "level_up H xs = level_up H (take k xs) @ level_up H (drop k xs)"
    using level_up_append[of "take k xs" H "drop k xs"] k by simp
  moreover have "length (level_up H (take k xs)) = k div 2" using k by (auto elim: evenE)
  ultimately show "level_up H (take k xs) = take (k div 2) (level_up H xs)" by simp
qed

lemma level_up_drop: "even k \<Longrightarrow> k \<le> length xs \<Longrightarrow> level_up H (drop k xs) = drop (k div 2) (level_up H xs)"
proof -
  assume k: "even k" "k \<le> length xs"
  have "level_up H xs = level_up H (take k xs) @ level_up H (drop k xs)"
    using level_up_append[of "take k xs" H "drop k xs"] k by simp
  moreover have "length (level_up H (take k xs)) = k div 2" using k by (auto elim: evenE)
  ultimately show "level_up H (drop k xs) = drop (k div 2) (level_up H xs)" by simp
qed

lemma level_up_nth:
  assumes "i < length (level_up H xs)"
  shows "level_up H xs ! i = (if 2 * i + 1 < length xs then log_node_hash H (xs ! (2 * i)) (xs ! (2 * i + 1)) else xs ! (2 * i))"
  using assms
proof (induction H xs arbitrary: i rule: level_up.induct)
  case (1 H a b xs)
  then show ?case by (cases i) auto
qed auto

lemma merkle_tree_hash_single [simp]: "merkle_tree_hash H [x] = x"
  by (simp add: merkle_tree_hash.simps)

lemma merkle_tree_hash_Nil [simp]: "merkle_tree_hash H [] = empty_log_root H"
  by (subst merkle_tree_hash.simps) simp

lemma merkle_tree_hash_split:
  "1 < length xs \<Longrightarrow> merkle_tree_hash H xs =
    log_node_hash H (merkle_tree_hash H (take (largest_power_of_two_less_than (length xs)) xs))
      (merkle_tree_hash H (drop (largest_power_of_two_less_than (length xs)) xs))"
  by (subst merkle_tree_hash.simps) (auto simp: Let_def)

lemma split_two [simp]: "largest_power_of_two_less_than 2 = 1" "largest_power_of_two_less_than (Suc (Suc 0)) = 1"
  by (simp_all add: largest_power_of_two_less_than_def highest_bit.simps)

lemma level_up_single: "length xs \<le> 1 \<Longrightarrow> level_up H xs = xs"
  by (cases "(H, xs)" rule: level_up.cases) auto

text \<open>The recursive tree hash does not change when its leaves are replaced by the next level.\<close>

lemma merkle_level_up: "merkle_tree_hash H (level_up H xs) = merkle_tree_hash H xs"
proof (induction "length xs" arbitrary: xs rule: less_induct)
  case less
  let ?n = "length xs" and ?k = "largest_power_of_two_less_than (length xs)"
  consider "?n \<le> 1" | "?n = 2" | "2 < ?n" by linarith
  then show ?case
  proof cases
    case 1
    then show ?thesis by (simp add: level_up_single)
  next
    case 2
    then obtain a b where "xs = [a, b]" by (metis (no_types) length_0_conv length_Suc_conv numeral_2_eq_2)
    then show ?thesis by (simp add: merkle_tree_hash_split)
  next
    case 3
    let ?k' = "largest_power_of_two_less_than (length (level_up H xs))"
    have k: "?k = 2 * ?k'" "?k < ?n" "0 < ?k'" using split_halves[OF 3] split_bounds[of ?n] 3 by auto
    have "merkle_tree_hash H (level_up H xs) = log_node_hash H
        (merkle_tree_hash H (take ?k' (level_up H xs))) (merkle_tree_hash H (drop ?k' (level_up H xs)))"
      using 3 by (intro merkle_tree_hash_split) simp
    also have "take ?k' (level_up H xs) = level_up H (take ?k xs)"
      using k by (simp add: level_up_take)
    also have "drop ?k' (level_up H xs) = level_up H (drop ?k xs)"
      using k by (simp add: level_up_drop)
    also have "merkle_tree_hash H (level_up H (take ?k xs)) = merkle_tree_hash H (take ?k xs)"
      using k by (intro less) simp
    also have "merkle_tree_hash H (level_up H (drop ?k xs)) = merkle_tree_hash H (drop ?k xs)"
      using k by (intro less) simp
    finally show ?thesis using 3 merkle_tree_hash_split[of xs H] by simp
  qed
qed

end
