(* ===== verification/KT_Codec.thy ===== *)
theory KT_Codec
  imports KT_Merkle Rust_Text
begin

text \<open>
  Hexadecimal codecs, field validation, the transcript a signed tree head is signed over, and
  the pinned key and freshness rules of the transparency component: \<open>json_codec.rs\<close>,
  \<open>constants.rs\<close>, \<open>signature.rs\<close>. Ed25519 is a pair of parameters: which public keys decode,
  and strict verification.
\<close>

section \<open>Constants\<close>

definition HASH_LEN :: nat where "HASH_LEN = 32"
definition SPARSE_MAP_DEPTH :: nat where "SPARSE_MAP_DEPTH = 256"
definition KT_JSON_SAFE_INTEGER_MAX :: u64 where "KT_JSON_SAFE_INTEGER_MAX = 9007199254740991"
definition MAX_TRANSPARENCY_FIELD_BYTES :: nat where "MAX_TRANSPARENCY_FIELD_BYTES = 8192"
definition KT_PROTOCOL_MAX_STH_AGE_SECONDS :: u64 where "KT_PROTOCOL_MAX_STH_AGE_SECONDS = 24 * 60 * 60"
definition KT_PROTOCOL_MAX_FUTURE_SKEW_SECONDS :: u64 where "KT_PROTOCOL_MAX_FUTURE_SKEW_SECONDS = 5 * 60"
definition SECURE_MESH_KT_PROTOCOL_VERSION :: rstr where
  "SECURE_MESH_KT_PROTOCOL_VERSION = lit ''licomesh.secure-mesh.kt.v2''"

definition STH_SIGN_MAGIC :: bytes where "STH_SIGN_MAGIC = ascii ''LCOSM-KT-STH-v2''"
definition MAP_KEY_DOMAIN :: bytes where "MAP_KEY_DOMAIN = ascii ''LCOSM-KT-MAP-KEY-v1''"
definition MAP_LEAF_DOMAIN :: bytes where "MAP_LEAF_DOMAIN = ascii ''LCOSM-KT-MAP-LEAF-v1''"
definition MAP_EMPTY_DOMAIN :: bytes where "MAP_EMPTY_DOMAIN = ascii ''LCOSM-KT-MAP-EMPTY-v1''"
definition MAP_NODE_DOMAIN :: bytes where "MAP_NODE_DOMAIN = ascii ''LCOSM-KT-MAP-NODE-v1''"
definition COMBINED_MAP_ROOT_LOG_ENTRY_DOMAIN :: bytes where
  "COMBINED_MAP_ROOT_LOG_ENTRY_DOMAIN = ascii ''LCOSM-KT-COMBINED-MAP-ROOT-v1''"

section \<open>Validation and hexadecimal digits\<close>

definition validate_kt_text :: "rstr \<Rightarrow> kt_error + unit" where
  "validate_kt_text v =
     ensure (trim v \<noteq> []) TextRequired
     (ensure (str_len v \<le> MAX_TRANSPARENCY_FIELD_BYTES) TextTooLarge (Inr ()))"

definition is_hexdigit :: "nat \<Rightarrow> bool" where
  "is_hexdigit c \<longleftrightarrow> 48 \<le> c \<and> c \<le> 57 \<or> 65 \<le> c \<and> c \<le> 70 \<or> 97 \<le> c \<and> c \<le> 102"

definition hex_value :: "nat \<Rightarrow> nat" where
  "hex_value c = (if c \<le> 57 then c - 48 else if c \<le> 70 then c - 55 else c - 87)"

definition hex_digit :: "nat \<Rightarrow> nat" where
  "hex_digit v = (if v < 10 then 48 + v else 87 + v)"

text \<open>
  The bytes of a string are all ASCII hexadecimal digits exactly when its code points are:
  every byte of a longer encoding is at least 128.
\<close>

definition validate_hex_hash :: "rstr \<Rightarrow> kt_error + unit" where
  "validate_hex_hash v =
     and_then (validate_kt_text v) (\<lambda>_.
     ensure (str_len v = HASH_LEN * 2 \<and> (\<forall>c\<in>set v. is_hexdigit c)) NotHexDigest (Inr ()))"

fun parse_hex_pairs :: "rstr \<Rightarrow> bytes" where
  "parse_hex_pairs (a # b # v) = of_nat (16 * hex_value a + hex_value b) # parse_hex_pairs v"
| "parse_hex_pairs _ = []"

definition parse_hash :: "rstr \<Rightarrow> kt_error + hash" where
  "parse_hash v = and_then (validate_hex_hash v) (\<lambda>_. Inr (parse_hex_pairs v))"

fun parse_hashes :: "rstr list \<Rightarrow> kt_error + hash list" where
  "parse_hashes [] = Inr []"
| "parse_hashes (v # vs) = and_then (parse_hash v) (\<lambda>h. and_then (parse_hashes vs) (\<lambda>hs. Inr (h # hs)))"

definition parse_hash_path :: "rstr list \<Rightarrow> nat \<Rightarrow> kt_error + hash list" where
  "parse_hash_path vs bound = ensure (length vs \<le> bound) ProofExceedsHashBound (parse_hashes vs)"

definition parse_signature :: "rstr \<Rightarrow> kt_error + bytes" where
  "parse_signature v =
     ensure (str_len v = 128 \<and> (\<forall>c\<in>set v. is_hexdigit c)) SignatureNotHex (Inr (parse_hex_pairs v))"

definition hex_encode :: "bytes \<Rightarrow> rstr" where
  "hex_encode bs = concat (map (\<lambda>b. [hex_digit (unat b div 16), hex_digit (unat b mod 16)]) bs)"

definition domain_hash :: "(bytes \<Rightarrow> hash) \<Rightarrow> bytes \<Rightarrow> bytes \<Rightarrow> hash" where
  "domain_hash H domain b = H (domain @ b)"

definition append_len_prefixed :: "bytes \<Rightarrow> bytes \<Rightarrow> bytes" where
  "append_len_prefixed out v = out @ u64_to_be (of_nat (length v)) @ v"

definition map_root_log_leaf_hash :: "(bytes \<Rightarrow> hash) \<Rightarrow> rstr \<Rightarrow> kt_error + hash" where
  "map_root_log_leaf_hash H map_root_hash =
     and_then (parse_hash map_root_hash) (\<lambda>h.
       Inr (kt_log_leaf_hash H (COMBINED_MAP_ROOT_LOG_ENTRY_DOMAIN @ h)))"

section \<open>Signed tree heads\<close>

record signed_tree_head =
  sth_protocol_version :: rstr
  sth_log_id :: rstr
  sth_key_id :: rstr
  sth_tree_size :: u64
  sth_root_hash :: rstr
  sth_map_root_hash :: rstr
  sth_issued_at :: u64
  sth_signature :: rstr

definition sth_sign_payload :: "signed_tree_head \<Rightarrow> kt_error + bytes" where
  "sth_sign_payload sth =
     and_then (validate_kt_text (sth_log_id sth)) (\<lambda>_.
     and_then (validate_kt_text (sth_key_id sth)) (\<lambda>_.
     and_then (validate_hex_hash (sth_root_hash sth)) (\<lambda>_.
     and_then (validate_hex_hash (sth_map_root_hash sth)) (\<lambda>_.
     let out = append_len_prefixed STH_SIGN_MAGIC (utf8 (sth_protocol_version sth));
         out = append_len_prefixed out (utf8 (sth_log_id sth));
         out = append_len_prefixed out (utf8 (sth_key_id sth));
         out = out @ u64_to_be (sth_tree_size sth) in
     and_then (parse_hash (sth_root_hash sth)) (\<lambda>root.
     and_then (parse_hash (sth_map_root_hash sth)) (\<lambda>map_root.
     Inr (out @ root @ map_root @ u64_to_be (sth_issued_at sth))))))))"

record ed25519 =
  valid_public_key :: "bytes \<Rightarrow> bool"
  verify_strict :: "bytes \<Rightarrow> bytes \<Rightarrow> bytes \<Rightarrow> bool"

text \<open>The second provenance exists only in test and acceptance builds.\<close>

datatype kt_provenance = UserConfiguredExternal | LocalAcceptanceMock

record pinned_key =
  pin_log_id :: rstr
  pin_key_id :: rstr
  pin_public_key :: bytes
  pin_provenance :: kt_provenance

definition pin_from_user_configured :: "ed25519 \<Rightarrow> rstr \<Rightarrow> rstr \<Rightarrow> bytes \<Rightarrow> kt_error + pinned_key" where
  "pin_from_user_configured ed log_id key_id public_key =
     and_then (validate_kt_text log_id) (\<lambda>_.
     and_then (validate_kt_text key_id) (\<lambda>_.
     ensure (valid_public_key ed public_key) PinnedKeyInvalid
     (Inr \<lparr>pin_log_id = log_id, pin_key_id = key_id, pin_public_key = public_key,
           pin_provenance = UserConfiguredExternal\<rparr>)))"

record freshness_policy =
  max_sth_age :: u64
  max_future_skew :: u64

definition freshness_strict :: "u64 \<Rightarrow> u64 \<Rightarrow> kt_error + freshness_policy" where
  "freshness_strict max_age max_skew =
     ensure (max_age > 0) MaxAgeNotPositive
     (ensure (max_age \<le> KT_PROTOCOL_MAX_STH_AGE_SECONDS) MaxAgeExceedsLimit
     (ensure (max_skew \<le> KT_PROTOCOL_MAX_FUTURE_SKEW_SECONDS) FutureSkewExceedsLimit
     (Inr \<lparr>max_sth_age = max_age, max_future_skew = max_skew\<rparr>)))"

record verified_freshness =
  fresh_observed_at :: u64
  fresh_issued_at :: u64
  fresh_max_age :: u64
  fresh_max_skew :: u64

definition saturating_add :: "u64 \<Rightarrow> u64 \<Rightarrow> u64" where
  "saturating_add a b = (if unat a + unat b < 2 ^ 64 then a + b else - 1)"

definition verify_authenticity :: "ed25519 \<Rightarrow> pinned_key \<Rightarrow> signed_tree_head \<Rightarrow> kt_error + unit" where
  "verify_authenticity ed pin sth =
     ensure (sth_protocol_version sth = SECURE_MESH_KT_PROTOCOL_VERSION) ProtocolVersionUnsupported
     (ensure (sth_log_id sth = pin_log_id pin) LogIdNotPinned
     (ensure (sth_key_id sth = pin_key_id pin) KeyIdNotPinned
     (ensure (sth_tree_size sth \<le> KT_JSON_SAFE_INTEGER_MAX \<and> sth_issued_at sth \<le> KT_JSON_SAFE_INTEGER_MAX) IntegerUnsafe
     (and_then (validate_hex_hash (sth_root_hash sth)) (\<lambda>_.
     and_then (validate_hex_hash (sth_map_root_hash sth)) (\<lambda>_.
     and_then (sth_sign_payload sth) (\<lambda>payload.
     and_then (parse_signature (sth_signature sth)) (\<lambda>signature.
     ensure (valid_public_key ed (pin_public_key pin)) PinnedKeyInvalid
     (ensure (verify_strict ed (pin_public_key pin) payload signature) SignatureInvalid (Inr ()))))))))))"

definition verify_freshness :: "freshness_policy \<Rightarrow> u64 \<Rightarrow> signed_tree_head \<Rightarrow> kt_error + verified_freshness" where
  "verify_freshness policy now sth =
     ensure (sth_issued_at sth \<le> saturating_add now (max_future_skew policy)) FromFuture
     (ensure (now \<le> saturating_add (sth_issued_at sth) (max_sth_age policy)) Stale
     (Inr \<lparr>fresh_observed_at = now, fresh_issued_at = sth_issued_at sth,
           fresh_max_age = max_sth_age policy, fresh_max_skew = max_future_skew policy\<rparr>))"

definition sth_verify ::
    "ed25519 \<Rightarrow> pinned_key \<Rightarrow> freshness_policy \<Rightarrow> u64 \<Rightarrow> signed_tree_head \<Rightarrow> kt_error + verified_freshness" where
  "sth_verify ed pin policy now sth =
     and_then (verify_authenticity ed pin sth) (\<lambda>_. verify_freshness policy now sth)"

section \<open>Hexadecimal round trips\<close>

lemma hexdigit_ascii: "is_hexdigit c \<Longrightarrow> utf8_char c = [of_nat c]"
  by (auto simp: is_hexdigit_def utf8_char_def)

lemma hex_str_len: "\<forall>c\<in>set v. is_hexdigit c \<Longrightarrow> str_len v = length v"
  by (induction v) (auto simp: str_len_def hexdigit_ascii)

lemma hexdigit_not_space: "is_hexdigit c \<Longrightarrow> \<not> white_space c"
  by (auto simp: is_hexdigit_def white_space_def)

lemma hex_value_digit: "v < 16 \<Longrightarrow> is_hexdigit (hex_digit v) \<and> hex_value (hex_digit v) = v"
  by (auto simp: is_hexdigit_def hex_digit_def hex_value_def)

lemma hex_value_bound: "is_hexdigit c \<Longrightarrow> hex_value c < 16"
  by (auto simp: is_hexdigit_def hex_value_def)

lemma validate_hex_hash_Inr_iff [result_simps]:
  "validate_hex_hash v = Inr u \<longleftrightarrow> length v = 64 \<and> (\<forall>c\<in>set v. is_hexdigit c)"
proof
  assume "validate_hex_hash v = Inr u"
  then show "length v = 64 \<and> (\<forall>c\<in>set v. is_hexdigit c)"
    using hex_str_len by (auto simp: validate_hex_hash_def result_simps HASH_LEN_def)
next
  assume v: "length v = 64 \<and> (\<forall>c\<in>set v. is_hexdigit c)"
  then obtain c where "c \<in> set v" by (cases v) auto
  then have "trim v \<noteq> []" using v hexdigit_not_space by (auto simp: trim_Nil_iff)
  then show "validate_hex_hash v = Inr u"
    using v hex_str_len[of v]
    by (simp add: validate_hex_hash_def validate_kt_text_def result_simps HASH_LEN_def MAX_TRANSPARENCY_FIELD_BYTES_def)
qed

lemma length_parse_hex_pairs: "length (parse_hex_pairs v) = length v div 2"
  by (induction v rule: parse_hex_pairs.induct) auto

lemma parse_hash_Inr_iff [result_simps]:
  "parse_hash v = Inr h \<longleftrightarrow> length v = 64 \<and> (\<forall>c\<in>set v. is_hexdigit c) \<and> h = parse_hex_pairs v"
  by (auto simp: parse_hash_def result_simps)

lemma parse_hash_length: "parse_hash v = Inr h \<Longrightarrow> length h = 32"
  by (auto simp: result_simps length_parse_hex_pairs)

lemma unat_u8: "unat (b :: u8) < 256"
  using unsigned_less[of b] by simp

lemma parse_hex_encode: "parse_hex_pairs (hex_encode bs) = bs"
proof (induction bs)
  case (Cons b bs)
  have "unat b div 16 < 16" "unat b mod 16 < 16"
    using unat_u8[of b] by (simp_all add: less_mult_imp_div_less)
  then have "hex_value (hex_digit (unat b div 16)) = unat b div 16" "hex_value (hex_digit (unat b mod 16)) = unat b mod 16"
    using hex_value_digit by blast+
  then show ?case using Cons by (simp add: hex_encode_def)
qed (simp add: hex_encode_def)

lemma hex_encode_digits: "\<forall>c\<in>set (hex_encode bs). is_hexdigit c"
proof -
  have "unat b div 16 < 16" "unat b mod 16 < 16" for b :: u8
    using unat_u8[of b] by (simp_all add: less_mult_imp_div_less)
  then show ?thesis using hex_value_digit by (auto simp: hex_encode_def)
qed

lemma length_hex_encode [simp]: "length (hex_encode bs) = 2 * length bs"
  by (induction bs) (auto simp: hex_encode_def)

lemma parse_hash_hex_encode: "length h = 32 \<Longrightarrow> parse_hash (hex_encode h) = Inr h"
  using hex_encode_digits[of h] by (simp add: parse_hash_Inr_iff parse_hex_encode)

lemma hex_encode_inject: "hex_encode a = hex_encode b \<longleftrightarrow> a = b"
  by (metis parse_hex_encode)

lemma parse_hashes_lengths: "parse_hashes vs = Inr hs \<Longrightarrow> length hs = length vs \<and> (\<forall>h\<in>set hs. length h = 32)"
  by (induction vs arbitrary: hs) (auto simp: and_then_Inr_iff dest: parse_hash_length)

end
