(* ===== verification/Digest.thy ===== *)
theory Digest
  imports Json KT_Codec
begin

text \<open>
  Digests of texts. SHA-256 and the JSON printer of \<open>serde_json\<close> are parameters, collected in
  \<open>digest_env\<close>; a digest is printed as lower-case hexadecimal digits. \<open>dec\<close> prints a number in
  decimal, as \<open>format!\<close> does.
\<close>

record digest_env =
  env_sha256 :: "bytes \<Rightarrow> bytes"
  env_json_text :: "json \<Rightarrow> rstr"

definition sha256_hex :: "digest_env \<Rightarrow> rstr \<Rightarrow> rstr" where
  "sha256_hex env v = hex_encode (env_sha256 env (utf8 v))"

fun dec_digits :: "nat \<Rightarrow> rstr" where
  "dec_digits n = (if n < 10 then [48 + n] else dec_digits (n div 10) @ [48 + n mod 10])"

declare dec_digits.simps [simp del]

definition dec :: "nat \<Rightarrow> rstr" where
  "dec n = dec_digits n"

end
