(* ===== verification/Pairwise_Session.thy ===== *)
theory Pairwise_Session
  imports Spq_Ratchet Content_Payload Digest
begin

text \<open>
  The pairwise session (\<open>core/secure_mesh_pairwise\<close>): the Double Ratchet with encrypted
  headers, whose message keys are combined with those of the sparse post-quantum ratchet. A
  session comes out of the handshake, which is not modelled; capability proofs and the
  negotiated capabilities are opaque to it. Sealing and opening work on a clone of the session
  that replaces it only on success.
\<close>

section \<open>Constants, errors and data\<close>

definition SECURE_MESH_PAIRWISE_CIPHER_SUITE :: rstr where
  "SECURE_MESH_PAIRWISE_CIPHER_SUITE =
     lit ''licomesh.pqxdh-triple-ratchet.v1.x25519-ed25519-mlkem1024-hkdfsha256-chacha20poly1305''"
definition ROOT_KEY_LEN :: nat where "ROOT_KEY_LEN = 32"
definition CHAIN_KEY_LEN :: nat where "CHAIN_KEY_LEN = 32"
definition MESSAGE_KEY_LEN :: nat where "MESSAGE_KEY_LEN = 32"
definition HEADER_KEY_LEN :: nat where "HEADER_KEY_LEN = 32"
definition NONCE_LEN :: nat where "NONCE_LEN = 12"
definition PUBLIC_KEY_LEN :: nat where "PUBLIC_KEY_LEN = 32"
definition MAX_SKIPPED_KEYS :: nat where "MAX_SKIPPED_KEYS = 32"
definition MAX_REPLAY_IDS :: nat where "MAX_REPLAY_IDS = 256"
definition MAX_CIPHERTEXT_BYTES :: nat where "MAX_CIPHERTEXT_BYTES = 16 * 1024 * 1024"
definition MAX_CONTENT_ENCRYPTED_HEADER_BYTES :: nat where "MAX_CONTENT_ENCRYPTED_HEADER_BYTES = 1024"
definition MAX_SPARSE_PQ_HEADER_BYTES :: nat where "MAX_SPARSE_PQ_HEADER_BYTES = 512"
definition MAX_MESSAGE_ID_LEN :: nat where "MAX_MESSAGE_ID_LEN = 255"
definition CHAIN_INFO_DOMAIN :: bytes where
  "CHAIN_INFO_DOMAIN = ascii ''licomesh.secure-mesh.double-ratchet.chain.v1''"
definition ROOT_INFO_DOMAIN :: bytes where
  "ROOT_INFO_DOMAIN = ascii ''licomesh.secure-mesh.double-ratchet.root.v1''"
definition MESSAGE_AAD_MAGIC :: bytes where "MESSAGE_AAD_MAGIC = ascii ''LCOSM-PAIRWISE-AAD-v1''"
definition PAYLOAD_AAD_BINDING_MAGIC :: bytes where
  "PAYLOAD_AAD_BINDING_MAGIC = ascii ''LCOSM-PAIRWISE-PAYLOAD-AAD-v1''"

datatype pairwise_error =
    SessionRevoked
  | NegotiationIncomplete
  | KeyConfirmationIncomplete
  | PwTextRequired string
  | MessageIdTooLarge
  | MessageBodyTooLarge
  | PwFieldTooLarge
  | PwKeyLengthInvalid string
  | NonContributory
  | RootRatchetFailed
  | ChainAdvanceFailed
  | RemoteRatchetKeyUnavailable
  | RatchetNeedsRemote
  | PqMessageNumberInvalid
  | PqHeaderUnserializable
  | PqHeaderTooLarge
  | MessageProtocolUnsupported
  | MessageSessionMismatch
  | MessageEndpointMismatch
  | PwCiphertextSizeOutsideBounds
  | PwEncodedCiphertextTooLarge
  | EncryptedHeaderTooLarge
  | ReplayDetected
  | PwCiphertextNotBase64
  | PwCiphertextSizeMismatch
  | EncryptedHeaderNotBase64
  | NonceLengthInvalid
  | MessageEncryptionFailed
  | MessageAuthenticationFailed
  | PwPreviousLengthRegressed
  | SkippedLimitBeforeRatchet
  | EpochMustAdvanceOnce
  | MessageEpochMismatch
  | StaleChainIndex
  | PwSkippedLimitExceeded
  | SkippedKeyUnavailable
  | ContextSessionMismatch
  | ContextMessageMismatch
  | ContextEndpointMismatch
  | ContextLocalEndpointMismatch
  | SparsePqFailed spq_error
  | ContentFailed content_error
  | SkipLoopUnfinished

type_synonym 'a pairwise_result = "pairwise_error + 'a"

text \<open>
  \<open>SkipLoopUnfinished\<close> is no error of the source: it stands for a loop over skipped messages
  that has not ended within the bound the model gives it.
\<close>

datatype pairwise_role = PairwiseInitiator | PairwiseResponder

record pairwise_skipped =
  sk_message_id :: rstr
  sk_dh_epoch :: u64
  sk_chain_index :: u64
  sk_sender_key :: bytes
  sk_message_key :: bytes

record ('p, 'n, 's) pairwise_session =
  pws_session_id :: rstr
  pws_local_endpoint :: rstr
  pws_remote_endpoint :: rstr
  pws_role :: pairwise_role
  pws_root_key :: bytes
  pws_sending_chain :: bytes
  pws_receiving_chain :: bytes
  pws_sending_header_key :: bytes
  pws_receiving_header_key :: bytes
  pws_next_sending_header_key :: bytes
  pws_next_receiving_header_key :: bytes
  pws_skipped_header_keys :: "bytes list"
  pws_local_secret :: bytes
  pws_local_public :: bytes
  pws_remote_public :: bytes
  pws_transcript_hash :: bytes
  pws_dh_epoch :: u64
  pws_receiving_epoch :: u64
  pws_sending_index :: u64
  pws_receiving_index :: u64
  pws_previous_length :: u64
  pws_skipped :: "pairwise_skipped list"
  pws_received_ids :: "rstr list"
  pws_pending_ratchet :: bool
  pws_key_confirmed :: bool
  pws_local_proof :: 'p
  pws_negotiation :: "'n option"
  pws_sparse_pq :: "'s spq_ratchet"
  pws_revoked :: bool

record pairwise_message =
  pm_protocol_version :: rstr
  pm_cipher_suite :: rstr
  pm_session_id :: rstr
  pm_message_id :: rstr
  pm_sender :: rstr
  pm_recipient :: rstr
  pm_dh_epoch :: u64
  pm_chain_index :: u64
  pm_previous_length :: u64
  pm_sender_key :: bytes
  pm_pq_header :: spq_header
  pm_encrypted_header :: rstr
  pm_ciphertext :: rstr
  pm_ciphertext_size :: nat

record opened_message =
  om_message_id :: rstr
  om_sender :: rstr
  om_body :: bytes

text \<open>
  The packages: the parameters of the sparse post-quantum ratchet, those of content encryption,
  the two operations of X25519 and the JSON text of a post-quantum header.
\<close>

record 's pairwise_env =
  pw_crypto :: crypto
  pw_scka :: "'s scka"
  pw_content :: content_crypto
  pw_public :: "bytes \<Rightarrow> bytes"
  pw_dh :: "bytes \<Rightarrow> bytes \<Rightarrow> bytes"
  pw_header_text :: "spq_header \<Rightarrow> bytes option"

section \<open>Support\<close>

definition parse_key_bytes :: "bytes \<Rightarrow> string \<Rightarrow> bytes pairwise_result" where
  "parse_key_bytes bs label = ensure (length bs = PUBLIC_KEY_LEN) (PwKeyLengthInvalid label) (Inr bs)"

definition append_pairwise_field :: "bytes \<Rightarrow> bytes \<Rightarrow> bytes pairwise_result" where
  "append_pairwise_field out value =
     ensure (length value < 2 ^ 32) PwFieldTooLarge
     (Inr (out @ u32_to_be (of_nat (length value)) @ value))"

definition pairwise_encoded_limit :: "nat \<Rightarrow> nat" where
  "pairwise_encoded_limit decoded = min ((decoded + 2) div 3 * 4) (2 ^ 64 - 1)"

definition require_pairwise_text :: "rstr \<Rightarrow> string \<Rightarrow> rstr pairwise_result" where
  "require_pairwise_text value label = ensure (trim value \<noteq> []) (PwTextRequired label) (Inr value)"

definition validate_message_id :: "rstr \<Rightarrow> unit pairwise_result" where
  "validate_message_id value =
     and_then (require_pairwise_text value ''message id'') (\<lambda>value.
     ensure (str_len value \<le> MAX_MESSAGE_ID_LEN) MessageIdTooLarge (Inr ()))"

definition hash_bytes :: "content_crypto \<Rightarrow> bytes \<Rightarrow> rstr" where
  "hash_bytes cc bs = lit ''sha256:'' @ hex_encode (cc_sha256 cc bs)"

section \<open>Codecs\<close>

definition sparse_pq_header_bytes :: "'s pairwise_env \<Rightarrow> spq_header \<Rightarrow> bytes pairwise_result" where
  "sparse_pq_header_bytes E header =
     ensure (0 < hdr_message_number header) PqMessageNumberInvalid
     (and_then (ok_or PqHeaderUnserializable (pw_header_text E header)) (\<lambda>encoded.
      ensure (length encoded \<le> MAX_SPARSE_PQ_HEADER_BYTES) PqHeaderTooLarge (Inr encoded)))"

text \<open>The fields both kinds of associated data share, after the magic.\<close>

definition append_message_binding :: "'s pairwise_env \<Rightarrow> bytes \<Rightarrow> pairwise_message \<Rightarrow> bytes pairwise_result" where
  "append_message_binding E magic msg =
     and_then (append_pairwise_field magic (utf8 (pm_protocol_version msg))) (\<lambda>out.
     and_then (append_pairwise_field out (utf8 (pm_cipher_suite msg))) (\<lambda>out.
     and_then (append_pairwise_field out (utf8 (pm_session_id msg))) (\<lambda>out.
     and_then (append_pairwise_field out (utf8 (pm_message_id msg))) (\<lambda>out.
     and_then (append_pairwise_field out (utf8 (pm_sender msg))) (\<lambda>out.
     and_then (append_pairwise_field out (utf8 (pm_recipient msg))) (\<lambda>out.
     let out = out @ u64_to_be (pm_dh_epoch msg) @ u64_to_be (pm_chain_index msg)
           @ u64_to_be (pm_previous_length msg) in
     and_then (append_pairwise_field out (pm_sender_key msg)) (\<lambda>out.
     and_then (sparse_pq_header_bytes E (pm_pq_header msg)) (\<lambda>header.
     append_pairwise_field out header))))))))"

definition message_aad :: "'s pairwise_env \<Rightarrow> pairwise_message \<Rightarrow> bytes pairwise_result" where
  "message_aad E msg =
     and_then (append_message_binding E MESSAGE_AAD_MAGIC msg) (\<lambda>out.
     append_pairwise_field out (utf8 (pm_encrypted_header msg)))"

definition pairwise_payload_aad_binding :: "'s pairwise_env \<Rightarrow> pairwise_message \<Rightarrow> bytes pairwise_result" where
  "pairwise_payload_aad_binding E msg = append_message_binding E PAYLOAD_AAD_BINDING_MAGIC msg"

definition combine_pairwise_and_extra_aad ::
    "'s pairwise_env \<Rightarrow> pairwise_message \<Rightarrow> bytes \<Rightarrow> bytes pairwise_result" where
  "combine_pairwise_and_extra_aad E msg extra =
     and_then (pairwise_payload_aad_binding E msg) (\<lambda>out.
     Inr (if extra \<noteq> [] then out @ extra else out))"

definition message_replay_fingerprint :: "'s pairwise_env \<Rightarrow> pairwise_message \<Rightarrow> rstr pairwise_result" where
  "message_replay_fingerprint E msg =
     and_then (validate_message_id (pm_message_id msg)) (\<lambda>_.
     and_then (parse_key_bytes (pm_sender_key msg) ''replay sender ratchet public key'') (\<lambda>sender_key.
     let ciphertext_hash = hash_bytes (pw_content E) (utf8 (pm_ciphertext msg)) in
     and_then (append_pairwise_field [] (utf8 (pm_session_id msg))) (\<lambda>out.
     and_then (append_pairwise_field out sender_key) (\<lambda>out.
     let out = out @ u64_to_be (pm_dh_epoch msg) @ u64_to_be (pm_chain_index msg) in
     and_then (append_pairwise_field out (utf8 (pm_message_id msg))) (\<lambda>out.
     and_then (append_pairwise_field out (utf8 ciphertext_hash)) (\<lambda>out.
     Inr (hash_bytes (pw_content E) out)))))))"

section \<open>Key derivation\<close>

definition diffie_hellman :: "'s pairwise_env \<Rightarrow> bytes \<Rightarrow> bytes \<Rightarrow> bytes pairwise_result" where
  "diffie_hellman E secret remote_public_key =
     and_then (parse_key_bytes remote_public_key ''remote public key'') (\<lambda>remote.
     let shared_secret = pw_dh E secret remote in
     ensure (shared_secret \<noteq> replicate PUBLIC_KEY_LEN 0) NonContributory (Inr shared_secret))"

definition derive_ratchet_root ::
    "'s pairwise_env \<Rightarrow> bytes \<Rightarrow> bytes \<Rightarrow> u64 \<Rightarrow> (bytes \<times> bytes \<times> bytes) pairwise_result" where
  "derive_ratchet_root E root_k dh_secret dh_epoch =
     (let salt = cc_sha256 (pw_content E) (ROOT_INFO_DOMAIN @ root_k @ u64_to_be dh_epoch) in
      and_then (append_pairwise_field [] (utf8 SECURE_MESH_PAIRWISE_CIPHER_SUITE)) (\<lambda>info.
      and_then (append_pairwise_field info (ascii ''dh-ratchet'')) (\<lambda>info.
      and_then (ok_or RootRatchetFailed
        (cc_hkdf (pw_content E) salt dh_secret info (ROOT_KEY_LEN + CHAIN_KEY_LEN + HEADER_KEY_LEN))) (\<lambda>out.
      Inr (take ROOT_KEY_LEN out, take CHAIN_KEY_LEN (drop ROOT_KEY_LEN out),
           drop (ROOT_KEY_LEN + CHAIN_KEY_LEN) out)))))"

definition advance_chain :: "'s pairwise_env \<Rightarrow> bytes \<Rightarrow> u64 \<Rightarrow> u64 \<Rightarrow> bytes \<Rightarrow> (bytes \<times> bytes) pairwise_result" where
  "advance_chain E key dh_epoch index label =
     (let salt = cc_sha256 (pw_content E) (CHAIN_INFO_DOMAIN @ key @ u64_to_be dh_epoch @ u64_to_be index) in
      and_then (append_pairwise_field [] (utf8 SECURE_MESH_PAIRWISE_CIPHER_SUITE)) (\<lambda>info.
      and_then (append_pairwise_field info label) (\<lambda>info.
      and_then (ok_or ChainAdvanceFailed
        (cc_hkdf (pw_content E) salt key info (CHAIN_KEY_LEN + MESSAGE_KEY_LEN))) (\<lambda>out.
      Inr (take CHAIN_KEY_LEN out, drop CHAIN_KEY_LEN out)))))"

text \<open>The base point operation \<open>public_key\<close>, and the loop that keeps the newest entries of a list.\<close>

definition keep_newest :: "nat \<Rightarrow> 'a list \<Rightarrow> 'a list" where
  "keep_newest limit xs = drop (length xs - limit) xs"

section \<open>Guards\<close>

definition require_capability_negotiation :: "('p, 'n, 's) pairwise_session \<Rightarrow> unit pairwise_result" where
  "require_capability_negotiation s = ensure (pws_negotiation s \<noteq> None) NegotiationIncomplete (Inr ())"

text \<open>The three guards every protected operation starts with.\<close>

definition session_ready :: "('p, 'n, 's) pairwise_session \<Rightarrow> unit pairwise_result" where
  "session_ready s =
     ensure (\<not> pws_revoked s) SessionRevoked
     (and_then (require_capability_negotiation s) (\<lambda>_.
      ensure (pws_key_confirmed s) KeyConfirmationIncomplete (Inr ())))"

definition ensure_message_for_session ::
    "'s pairwise_env \<Rightarrow> ('p, 'n, 's) pairwise_session \<Rightarrow> pairwise_message \<Rightarrow> unit pairwise_result" where
  "ensure_message_for_session E s msg =
     ensure (pm_protocol_version msg = SECURE_MESH_PROTOCOL_VERSION
         \<and> pm_cipher_suite msg = SECURE_MESH_PAIRWISE_CIPHER_SUITE) MessageProtocolUnsupported
     (ensure (pm_session_id msg = pws_session_id s) MessageSessionMismatch
     (ensure (pm_sender msg = pws_remote_endpoint s \<and> pm_recipient msg = pws_local_endpoint s) MessageEndpointMismatch
     (and_then (validate_message_id (pm_message_id msg)) (\<lambda>_.
      ensure (0 < pm_ciphertext_size msg \<and> pm_ciphertext_size msg \<le> MAX_CIPHERTEXT_BYTES)
        PwCiphertextSizeOutsideBounds
      (ensure (str_len (pm_ciphertext msg) \<le> pairwise_encoded_limit MAX_CIPHERTEXT_BYTES)
        PwEncodedCiphertextTooLarge
      (ensure (str_len (pm_encrypted_header msg) \<le> pairwise_encoded_limit MAX_CONTENT_ENCRYPTED_HEADER_BYTES)
        EncryptedHeaderTooLarge
      (and_then (sparse_pq_header_bytes E (pm_pq_header msg)) (\<lambda>_. Inr ()))))))))"

definition ensure_pairwise_context_for_send ::
    "('p, 'n, 's) pairwise_session \<Rightarrow> content_context \<Rightarrow> unit pairwise_result" where
  "ensure_pairwise_context_for_send s ctx =
     ensure (session_id ctx = pws_session_id s) ContextSessionMismatch
     (ensure (sender_endpoint_id ctx = pws_local_endpoint s \<and> recipient_endpoint_id ctx = pws_remote_endpoint s)
       ContextEndpointMismatch
     (and_then (validate_message_id (message_id ctx)) (\<lambda>_. Inr ())))"

definition ensure_pairwise_context_for_open ::
    "('p, 'n, 's) pairwise_session \<Rightarrow> content_context \<Rightarrow> pairwise_message \<Rightarrow> unit pairwise_result" where
  "ensure_pairwise_context_for_open s ctx msg =
     ensure (session_id ctx = pm_session_id msg \<and> session_id ctx = pws_session_id s) ContextSessionMismatch
     (ensure (message_id ctx = pm_message_id msg) ContextMessageMismatch
     (ensure (sender_endpoint_id ctx = pm_sender msg \<and> recipient_endpoint_id ctx = pm_recipient msg)
       ContextEndpointMismatch
     (ensure (sender_endpoint_id ctx = pws_remote_endpoint s \<and> recipient_endpoint_id ctx = pws_local_endpoint s)
       ContextLocalEndpointMismatch (Inr ()))))"

section \<open>The ratchet\<close>

text \<open>
  A rotation that fails after it has replaced the ratchet secret leaves that change behind; its
  callers work on a clone.
\<close>

definition rotate_sending_ratchet_with_secret ::
    "'s pairwise_env \<Rightarrow> bytes \<Rightarrow> ('p, 'n, 's) pairwise_session \<Rightarrow> unit pairwise_result \<times> ('p, 'n, 's) pairwise_session" where
  "rotate_sending_ratchet_with_secret E secret s =
     st_try (session_ready s) s (\<lambda>_.
     st_ensure (pws_remote_public s \<noteq> replicate PUBLIC_KEY_LEN 0) RemoteRatchetKeyUnavailable s
     (let s = s\<lparr>pws_previous_length := pws_sending_index s, pws_local_secret := secret,
                pws_local_public := pw_public E secret\<rparr> in
      st_try (diffie_hellman E (pws_local_secret s) (pws_remote_public s)) s (\<lambda>dh_secret.
      st_try (derive_ratchet_root E (pws_root_key s) dh_secret (pws_dh_epoch s + 1)) s (\<lambda>(root_k, chain_k, next_header).
      (Inr (), s\<lparr>pws_root_key := root_k, pws_sending_chain := chain_k,
         pws_sending_header_key := pws_next_sending_header_key s, pws_next_sending_header_key := next_header,
         pws_dh_epoch := pws_dh_epoch s + 1, pws_sending_index := 0, pws_pending_ratchet := False\<rparr>)))))"

definition rotate_sending_ratchet ::
    "'s pairwise_env \<Rightarrow> bytes \<Rightarrow> ('p, 'n, 's) pairwise_session \<Rightarrow> unit pairwise_result \<times> ('p, 'n, 's) pairwise_session" where
  "rotate_sending_ratchet E secret s =
     st_ensure (pws_pending_ratchet s) RatchetNeedsRemote s (rotate_sending_ratchet_with_secret E secret s)"

definition prepare_sending_ratchet_for_send ::
    "'s pairwise_env \<Rightarrow> bytes \<Rightarrow> ('p, 'n, 's) pairwise_session \<Rightarrow> unit pairwise_result \<times> ('p, 'n, 's) pairwise_session" where
  "prepare_sending_ratchet_for_send E secret s =
     (if pws_pending_ratchet s then rotate_sending_ratchet E secret s else (Inr (), s))"

definition push_skipped_message_key ::
    "pairwise_skipped \<Rightarrow> ('p, 'n, 's) pairwise_session \<Rightarrow> ('p, 'n, 's) pairwise_session" where
  "push_skipped_message_key k s = s\<lparr>pws_skipped := keep_newest MAX_SKIPPED_KEYS (pws_skipped s @ [k])\<rparr>"

definition skipped_id :: "rstr \<Rightarrow> u64 \<Rightarrow> u64 \<Rightarrow> rstr" where
  "skipped_id session epoch index = session @ lit '':'' @ dec (unat epoch) @ lit '':'' @ dec (unat index)"

text \<open>
  The loop over skipped messages, which derives and stores every key before \<open>target\<close>. It has
  as many steps as the store can hold keys.
\<close>

fun store_skipped_loop ::
    "nat \<Rightarrow> 's pairwise_env \<Rightarrow> u64 \<Rightarrow> bytes \<Rightarrow> u64 \<Rightarrow> ('p, 'n, 's) pairwise_session
       \<Rightarrow> unit pairwise_result \<times> ('p, 'n, 's) pairwise_session" where
  "store_skipped_loop 0 E epoch sender target s =
     (if pws_receiving_index s < target then (Inl SkipLoopUnfinished, s) else (Inr (), s))"
| "store_skipped_loop (Suc fuel) E epoch sender target s =
     (if pws_receiving_index s < target then
        let index = pws_receiving_index s in
        st_try (advance_chain E (pws_receiving_chain s) epoch index (ascii ''message'')) s (\<lambda>(next_chain, key).
        store_skipped_loop fuel E epoch sender target
          (push_skipped_message_key \<lparr>sk_message_id = skipped_id (pws_session_id s) epoch index, sk_dh_epoch = epoch,
             sk_chain_index = index, sk_sender_key = sender, sk_message_key = key\<rparr>
            (s\<lparr>pws_receiving_chain := next_chain, pws_receiving_index := index + 1\<rparr>)))
      else (Inr (), s))"

definition store_skipped_message_keys_until ::
    "'s pairwise_env \<Rightarrow> u64 \<Rightarrow> bytes \<Rightarrow> u64 \<Rightarrow> ('p, 'n, 's) pairwise_session
       \<Rightarrow> unit pairwise_result \<times> ('p, 'n, 's) pairwise_session" where
  "store_skipped_message_keys_until E epoch sender previous_length s =
     st_ensure (pws_receiving_index s \<le> previous_length) PwPreviousLengthRegressed s
     (let missing = previous_length - pws_receiving_index s in
      st_ensure (unat missing \<le> MAX_SKIPPED_KEYS - length (pws_skipped s)) SkippedLimitBeforeRatchet s
      (store_skipped_loop MAX_SKIPPED_KEYS E epoch sender previous_length s))"

text \<open>A new ratchet key of the peer: finish the old chain, then step the root.\<close>

definition receive_remote_ratchet ::
    "'s pairwise_env \<Rightarrow> pairwise_message \<Rightarrow> bytes \<Rightarrow> ('p, 'n, 's) pairwise_session
       \<Rightarrow> unit pairwise_result \<times> ('p, 'n, 's) pairwise_session" where
  "receive_remote_ratchet E msg sender s =
     st_ensure (pws_dh_epoch s \<noteq> - 1 \<and> pws_dh_epoch s + 1 = pm_dh_epoch msg) EpochMustAdvanceOnce s
     (st_bind (store_skipped_message_keys_until E (pws_receiving_epoch s) (pws_remote_public s) (pm_previous_length msg) s)
       (\<lambda>_ s.
      st_try (diffie_hellman E (pws_local_secret s) sender) s (\<lambda>dh_secret.
      st_try (derive_ratchet_root E (pws_root_key s) dh_secret (pm_dh_epoch msg)) s (\<lambda>(root_k, chain_k, next_header).
      (Inr (), s\<lparr>pws_root_key := root_k, pws_receiving_chain := chain_k,
         pws_skipped_header_keys := keep_newest MAX_SKIPPED_KEYS (pws_skipped_header_keys s @ [pws_receiving_header_key s]),
         pws_receiving_header_key := pws_next_receiving_header_key s, pws_next_receiving_header_key := next_header,
         pws_remote_public := sender, pws_dh_epoch := pm_dh_epoch msg, pws_receiving_epoch := pm_dh_epoch msg,
         pws_receiving_index := 0, pws_pending_ratchet := True\<rparr>)))))"

definition advance_receiving_chain_to ::
    "'s pairwise_env \<Rightarrow> pairwise_message \<Rightarrow> bytes \<Rightarrow> ('p, 'n, 's) pairwise_session
       \<Rightarrow> bytes pairwise_result \<times> ('p, 'n, 's) pairwise_session" where
  "advance_receiving_chain_to E msg sender s =
     st_bind (if sender \<noteq> pws_remote_public s then receive_remote_ratchet E msg sender s
              else st_ensure (pm_dh_epoch msg = pws_receiving_epoch s) MessageEpochMismatch s (Inr (), s)) (\<lambda>_ s.
     st_ensure (pws_receiving_index s \<le> pm_chain_index msg) StaleChainIndex s
     (let missing = pm_chain_index msg - pws_receiving_index s in
      st_ensure (unat missing \<le> MAX_SKIPPED_KEYS - length (pws_skipped s)) PwSkippedLimitExceeded s
      (st_bind (store_skipped_loop MAX_SKIPPED_KEYS E (pm_dh_epoch msg) sender (pm_chain_index msg) s) (\<lambda>_ s.
       st_try (advance_chain E (pws_receiving_chain s) (pm_dh_epoch msg) (pws_receiving_index s) (ascii ''message'')) s
         (\<lambda>(next_chain, key).
       (Inr key, s\<lparr>pws_receiving_chain := next_chain, pws_receiving_index := pws_receiving_index s + 1\<rparr>))))))"

definition skipped_matches :: "u64 \<Rightarrow> u64 \<Rightarrow> bytes \<Rightarrow> pairwise_skipped \<Rightarrow> bool" where
  "skipped_matches epoch index sender k \<longleftrightarrow>
     sk_dh_epoch k = epoch \<and> sk_chain_index k = index \<and> sk_sender_key k = sender"

fun take_matching :: "('a \<Rightarrow> bool) \<Rightarrow> 'a list \<Rightarrow> ('a \<times> 'a list) option" where
  "take_matching P [] = None"
| "take_matching P (x # xs) =
     (if P x then Some (x, xs) else map_option (\<lambda>(y, ys). (y, x # ys)) (take_matching P xs))"

definition skipped_message_key_position ::
    "('p, 'n, 's) pairwise_session \<Rightarrow> u64 \<Rightarrow> u64 \<Rightarrow> bytes \<Rightarrow> bool" where
  "skipped_message_key_position s epoch index sender \<longleftrightarrow> list_ex (skipped_matches epoch index sender) (pws_skipped s)"

definition take_skipped_message_key ::
    "u64 \<Rightarrow> u64 \<Rightarrow> bytes \<Rightarrow> ('p, 'n, 's) pairwise_session
       \<Rightarrow> bytes pairwise_result \<times> ('p, 'n, 's) pairwise_session" where
  "take_skipped_message_key epoch index sender s =
     (case take_matching (skipped_matches epoch index sender) (pws_skipped s) of
        Some (k, rest) \<Rightarrow> (Inr (sk_message_key k), s\<lparr>pws_skipped := rest\<rparr>)
      | None \<Rightarrow> (Inl SkippedKeyUnavailable, s))"

definition message_key_for_open ::
    "'s pairwise_env \<Rightarrow> pairwise_message \<Rightarrow> ('p, 'n, 's) pairwise_session
       \<Rightarrow> bytes pairwise_result \<times> ('p, 'n, 's) pairwise_session" where
  "message_key_for_open E msg s =
     st_try (parse_key_bytes (pm_sender_key msg) ''sender ratchet public key'') s (\<lambda>sender.
     if skipped_message_key_position s (pm_dh_epoch msg) (pm_chain_index msg) sender
     then take_skipped_message_key (pm_dh_epoch msg) (pm_chain_index msg) sender s
     else if sender \<noteq> pws_remote_public s then advance_receiving_chain_to E msg sender s
     else if pm_chain_index msg < pws_receiving_index s then (Inl SkippedKeyUnavailable, s)
     else advance_receiving_chain_to E msg sender s)"

definition record_received_message_id ::
    "rstr \<Rightarrow> ('p, 'n, 's) pairwise_session \<Rightarrow> ('p, 'n, 's) pairwise_session" where
  "record_received_message_id fingerprint s =
     s\<lparr>pws_received_ids := keep_newest MAX_REPLAY_IDS (pws_received_ids s @ [fingerprint])\<rparr>"

end
