(* ===== verification/Pairwise_Messages.thy ===== *)
theory Pairwise_Messages
  imports Pairwise_Session
begin

text \<open>
  Sealing and opening on a pairwise session: messages with a body of their own and payloads of
  content encryption. Both share the step that derives a message key; \<open>commit\<close> is the
  assignment of the clone that was worked on. What is drawn from the operating system is an
  argument: \<open>secret\<close> for the next ratchet key, \<open>fill\<close> for the braid, \<open>nonce\<close> for the cipher.
\<close>

definition pairwise_try_clone :: "('p, 'n, 's) pairwise_session \<Rightarrow> ('p, 'n, 's) pairwise_session pairwise_result" where
  "pairwise_try_clone s =
     and_then (map_err SparsePqFailed (spq_try_clone (pws_sparse_pq s))) (\<lambda>r. Inr (s\<lparr>pws_sparse_pq := r\<rparr>))"

definition commit :: "'s \<Rightarrow> ('e + 'a) \<times> 's \<Rightarrow> ('e + 'a) \<times> 's" where
  "commit s p = (case p of (Inl e, _) \<Rightarrow> (Inl e, s) | (Inr x, candidate) \<Rightarrow> (Inr x, candidate))"

definition pq_send_key ::
    "'s pairwise_env \<Rightarrow> (nat \<Rightarrow> bytes) \<Rightarrow> ('p, 'n, 's) pairwise_session
       \<Rightarrow> spq_send pairwise_result \<times> ('p, 'n, 's) pairwise_session" where
  "pq_send_key E fill s =
     (let (r, q) = send_key (pw_crypto E) (pw_scka E) fill (pws_sparse_pq s) in
      (map_err SparsePqFailed r, s\<lparr>pws_sparse_pq := q\<rparr>))"

definition pq_receive_key ::
    "'s pairwise_env \<Rightarrow> spq_header \<Rightarrow> ('p, 'n, 's) pairwise_session
       \<Rightarrow> bytes pairwise_result \<times> ('p, 'n, 's) pairwise_session" where
  "pq_receive_key E header s =
     (let (r, q) = receive_key (pw_crypto E) (pw_scka E) (pws_sparse_pq s) header in
      (map_err SparsePqFailed r, s\<lparr>pws_sparse_pq := q\<rparr>))"

section \<open>Message keys\<close>

definition sending_keys ::
    "'s pairwise_env \<Rightarrow> bytes \<Rightarrow> (nat \<Rightarrow> bytes) \<Rightarrow> ('p, 'n, 's) pairwise_session
       \<Rightarrow> (bytes \<times> bytes \<times> spq_header) pairwise_result \<times> ('p, 'n, 's) pairwise_session" where
  "sending_keys E secret fill s =
     st_bind (prepare_sending_ratchet_for_send E secret s) (\<lambda>_ s.
     st_try (advance_chain E (pws_sending_chain s) (pws_dh_epoch s) (pws_sending_index s) (ascii ''message'')) s
       (\<lambda>(next_chain, classical_key).
     st_bind (pq_send_key E fill s) (\<lambda>sent s.
     st_try (map_err SparsePqFailed (derive_hybrid_message_key (pw_crypto E) classical_key (sent_message_key sent)
       (utf8 (pws_session_id s)))) s (\<lambda>key.
     (Inr (next_chain, key, sent_header sent), s)))))"

definition receiving_keys ::
    "'s pairwise_env \<Rightarrow> pairwise_message \<Rightarrow> ('p, 'n, 's) pairwise_session
       \<Rightarrow> bytes pairwise_result \<times> ('p, 'n, 's) pairwise_session" where
  "receiving_keys E msg s =
     st_bind (message_key_for_open E msg s) (\<lambda>classical_key s.
     st_bind (pq_receive_key E (pm_pq_header msg) s) (\<lambda>pq_key s.
     st_try (map_err SparsePqFailed (derive_hybrid_message_key (pw_crypto E) classical_key pq_key
       (utf8 (pws_session_id s)))) s (\<lambda>key.
     (Inr key, s))))"

definition unsealed_message ::
    "('p, 'n, 's) pairwise_session \<Rightarrow> rstr \<Rightarrow> spq_header \<Rightarrow> rstr \<Rightarrow> pairwise_message" where
  "unsealed_message s mid header encrypted_header =
     \<lparr>pm_protocol_version = SECURE_MESH_PROTOCOL_VERSION, pm_cipher_suite = SECURE_MESH_PAIRWISE_CIPHER_SUITE,
      pm_session_id = pws_session_id s, pm_message_id = mid, pm_sender = pws_local_endpoint s,
      pm_recipient = pws_remote_endpoint s, pm_dh_epoch = pws_dh_epoch s, pm_chain_index = pws_sending_index s,
      pm_previous_length = pws_previous_length s, pm_sender_key = pws_local_public s, pm_pq_header = header,
      pm_encrypted_header = encrypted_header, pm_ciphertext = [], pm_ciphertext_size = 0\<rparr>"

definition finish_sending :: "bytes \<Rightarrow> ('p, 'n, 's) pairwise_session \<Rightarrow> ('p, 'n, 's) pairwise_session" where
  "finish_sending next_chain s = s\<lparr>pws_sending_chain := next_chain, pws_sending_index := pws_sending_index s + 1\<rparr>"

section \<open>Messages\<close>

definition seal_message_with_nonce ::
    "'s pairwise_env \<Rightarrow> bytes \<Rightarrow> (nat \<Rightarrow> bytes) \<Rightarrow> rstr \<Rightarrow> bytes \<Rightarrow> bytes \<Rightarrow> ('p, 'n, 's) pairwise_session
       \<Rightarrow> pairwise_message pairwise_result \<times> ('p, 'n, 's) pairwise_session" where
  "seal_message_with_nonce E secret fill mid body nonce s =
     st_try (session_ready s) s (\<lambda>_.
     st_try (require_pairwise_text mid ''message id'') s (\<lambda>mid.
     st_try (validate_message_id mid) s (\<lambda>_.
     st_ensure (length body \<le> MAX_CIPHERTEXT_BYTES) MessageBodyTooLarge s
     (st_try (pairwise_try_clone s) s (\<lambda>candidate.
      commit s (st_bind (sending_keys E secret fill candidate) (\<lambda>(next_chain, key, header) candidate.
      let msg = unsealed_message candidate mid header (cc_base64 (pw_content E) nonce) in
      st_try (message_aad E msg) candidate (\<lambda>aad.
      st_try (ok_or MessageEncryptionFailed (cc_encrypt (pw_content E) key nonce aad body)) candidate (\<lambda>ciphertext.
      (Inr (msg\<lparr>pm_ciphertext_size := length ciphertext, pm_ciphertext := cc_base64 (pw_content E) ciphertext\<rparr>),
       finish_sending next_chain candidate))))))))))"

definition seal_message ::
    "'s pairwise_env \<Rightarrow> bytes \<Rightarrow> (nat \<Rightarrow> bytes) \<Rightarrow> bytes \<Rightarrow> rstr \<Rightarrow> bytes \<Rightarrow> ('p, 'n, 's) pairwise_session
       \<Rightarrow> pairwise_message pairwise_result \<times> ('p, 'n, 's) pairwise_session" where
  "seal_message E secret fill nonce mid body s = seal_message_with_nonce E secret fill mid body nonce s"

definition open_message ::
    "'s pairwise_env \<Rightarrow> pairwise_message \<Rightarrow> ('p, 'n, 's) pairwise_session
       \<Rightarrow> opened_message pairwise_result \<times> ('p, 'n, 's) pairwise_session" where
  "open_message E msg s =
     st_try (session_ready s) s (\<lambda>_.
     st_try (ensure_message_for_session E s msg) s (\<lambda>_.
     st_try (message_replay_fingerprint E msg) s (\<lambda>fingerprint.
     st_ensure (fingerprint \<notin> set (pws_received_ids s)) ReplayDetected s
     (st_try (message_aad E msg) s (\<lambda>aad.
      st_try (ok_or PwCiphertextNotBase64 (cc_unbase64 (pw_content E) (pm_ciphertext msg))) s (\<lambda>ciphertext.
      st_ensure (length ciphertext = pm_ciphertext_size msg) PwCiphertextSizeMismatch s
      (st_try (ok_or EncryptedHeaderNotBase64 (cc_unbase64 (pw_content E) (pm_encrypted_header msg))) s (\<lambda>nonce.
       st_ensure (length nonce = NONCE_LEN) NonceLengthInvalid s
       (st_try (pairwise_try_clone s) s (\<lambda>candidate.
        commit s (st_bind (receiving_keys E msg candidate) (\<lambda>key candidate.
        st_try (ok_or MessageAuthenticationFailed (cc_decrypt (pw_content E) key nonce aad ciphertext)) candidate
          (\<lambda>plaintext.
        (Inr \<lparr>om_message_id = pm_message_id msg, om_sender = pm_sender msg, om_body = plaintext\<rparr>,
         record_received_message_id fingerprint candidate))))))))))))))"

section \<open>Payloads\<close>

definition pairwise_seal_payload_with_extra_aad ::
    "'s pairwise_env \<Rightarrow> bytes \<Rightarrow> (nat \<Rightarrow> bytes) \<Rightarrow> bytes \<Rightarrow> content_context \<Rightarrow> mesh_plaintext \<Rightarrow> bytes
       \<Rightarrow> ('p, 'n, 's) pairwise_session \<Rightarrow> pairwise_message pairwise_result \<times> ('p, 'n, 's) pairwise_session" where
  "pairwise_seal_payload_with_extra_aad E secret fill nonce ctx pt extra s =
     st_try (session_ready s) s (\<lambda>_.
     st_try (ensure_pairwise_context_for_send s ctx) s (\<lambda>_.
     st_try (pairwise_try_clone s) s (\<lambda>candidate.
     commit s (st_bind (sending_keys E secret fill candidate) (\<lambda>(next_chain, key, header) candidate.
     let content_key = content_key_from_bytes key; msg = unsealed_message candidate (message_id ctx) header [] in
     st_try (combine_pairwise_and_extra_aad E msg extra) candidate (\<lambda>combined_aad.
     st_try (map_err ContentFailed
       (seal_payload_with_aad_binding (pw_content E) nonce content_key ctx pt combined_aad)) candidate (\<lambda>sealed.
     (Inr (msg\<lparr>pm_encrypted_header := sp_encrypted_header sealed, pm_ciphertext := sp_ciphertext sealed,
            pm_ciphertext_size := sp_ciphertext_size sealed\<rparr>),
      finish_sending next_chain candidate))))))))"

definition pairwise_seal_payload ::
    "'s pairwise_env \<Rightarrow> bytes \<Rightarrow> (nat \<Rightarrow> bytes) \<Rightarrow> bytes \<Rightarrow> content_context \<Rightarrow> mesh_plaintext
       \<Rightarrow> ('p, 'n, 's) pairwise_session \<Rightarrow> pairwise_message pairwise_result \<times> ('p, 'n, 's) pairwise_session" where
  "pairwise_seal_payload E secret fill nonce ctx pt s =
     pairwise_seal_payload_with_extra_aad E secret fill nonce ctx pt [] s"

definition pairwise_open_payload_with_extra_aad ::
    "'s pairwise_env \<Rightarrow> content_context \<Rightarrow> pairwise_message \<Rightarrow> payload_kind \<Rightarrow> bytes
       \<Rightarrow> ('p, 'n, 's) pairwise_session \<Rightarrow> opened_payload pairwise_result \<times> ('p, 'n, 's) pairwise_session" where
  "pairwise_open_payload_with_extra_aad E ctx msg expected_kind extra s =
     st_try (session_ready s) s (\<lambda>_.
     st_try (ensure_message_for_session E s msg) s (\<lambda>_.
     st_try (ensure_pairwise_context_for_open s ctx msg) s (\<lambda>_.
     st_try (message_replay_fingerprint E msg) s (\<lambda>fingerprint.
     st_ensure (fingerprint \<notin> set (pws_received_ids s)) ReplayDetected s
     (st_try (pairwise_try_clone s) s (\<lambda>candidate.
      commit s (st_bind (receiving_keys E msg candidate) (\<lambda>key candidate.
      let content_key = content_key_from_bytes key in
      st_try (combine_pairwise_and_extra_aad E msg extra) candidate (\<lambda>combined_aad.
      let sealed = \<lparr>sp_protocol_version = SECURE_MESH_PROTOCOL_VERSION,
            sp_cipher_suite = SECURE_MESH_CONTENT_CIPHER_SUITE, sp_encrypted_header = pm_encrypted_header msg,
            sp_ciphertext = pm_ciphertext msg, sp_ciphertext_size = pm_ciphertext_size msg\<rparr> in
      st_try (map_err ContentFailed
        (open_payload_with_aad_binding (pw_content E) content_key ctx sealed expected_kind combined_aad)) candidate
        (\<lambda>opened.
      (Inr opened, record_received_message_id fingerprint candidate)))))))))))"

definition pairwise_open_payload ::
    "'s pairwise_env \<Rightarrow> content_context \<Rightarrow> pairwise_message \<Rightarrow> payload_kind
       \<Rightarrow> ('p, 'n, 's) pairwise_session \<Rightarrow> opened_payload pairwise_result \<times> ('p, 'n, 's) pairwise_session" where
  "pairwise_open_payload E ctx msg expected_kind s = pairwise_open_payload_with_extra_aad E ctx msg expected_kind [] s"

section \<open>Revocation\<close>

definition revoke_session ::
    "'s pairwise_env \<Rightarrow> ('p, 'n, 's) pairwise_session \<Rightarrow> ('p, 'n, 's) pairwise_session" where
  "revoke_session E s = s\<lparr>pws_revoked := True, pws_root_key := replicate ROOT_KEY_LEN 0,
     pws_sending_chain := replicate CHAIN_KEY_LEN 0, pws_receiving_chain := replicate CHAIN_KEY_LEN 0,
     pws_sending_header_key := replicate HEADER_KEY_LEN 0, pws_receiving_header_key := replicate HEADER_KEY_LEN 0,
     pws_next_sending_header_key := replicate HEADER_KEY_LEN 0,
     pws_next_receiving_header_key := replicate HEADER_KEY_LEN 0, pws_skipped_header_keys := [], pws_skipped := [],
     pws_local_secret := replicate PUBLIC_KEY_LEN 0, pws_sparse_pq := spq_destroy (pw_scka E) (pws_sparse_pq s),
     pws_pending_ratchet := False, pws_key_confirmed := False, pws_negotiation := None\<rparr>"

end
