(* ===== verification/Pairwise_Window.thy ===== *)
theory Pairwise_Window
  imports Pairwise_Messages
begin

text \<open>
  What the receiving side of a session promises, without keys: a frontier, below which every
  position of the peer's chains was either opened or left as a gap, and the gaps. The abstract
  steps are \<open>receives\<close>; on it no position is ever received twice. The keys in the store are the
  gaps of a session, and deriving the key of a message refines a step.
\<close>

section \<open>The window\<close>

type_synonym position = "nat \<times> nat"
type_synonym window = "nat \<times> nat \<times> position set"

inductive receives :: "window \<Rightarrow> position \<Rightarrow> window \<Rightarrow> bool" where
  fill_gap: "p \<in> G \<Longrightarrow> receives (e, i, G) p (e, i, G - {p})"
| same_chain: "i \<le> j \<Longrightarrow> receives (e, i, G) (e, j) (e, Suc j, G \<union> Pair e ` {i..<j})"
| next_chain: "e < e' \<Longrightarrow> i \<le> l \<Longrightarrow>
    receives (e, i, G) (e', j) (e', Suc j, G \<union> Pair e ` {i..<l} \<union> Pair e' ` {..<j})"

inductive_cases receivesE: "receives (e, i, G) p w"

definition below :: "nat \<Rightarrow> nat \<Rightarrow> position \<Rightarrow> bool" where
  "below e i p \<longleftrightarrow> fst p < e \<or> fst p = e \<and> snd p < i"

text \<open>Everything opened or missing is below the frontier, and nothing is both.\<close>

definition window_ok :: "position set \<Rightarrow> window \<Rightarrow> bool" where
  "window_ok opened w = (case w of (e, i, G) \<Rightarrow> (\<forall>p\<in>opened \<union> G. below e i p) \<and> opened \<inter> G = {})"

lemma window_okD:
  assumes "window_ok opened (e, i, G)" "p \<in> opened \<union> G"
  shows "below e i p"
  using assms by (simp add: window_ok_def)

lemma below_mono: "below e i p \<Longrightarrow> e < e' \<or> e = e' \<and> i \<le> i' \<Longrightarrow> below e' i' p"
  by (auto simp: below_def)

lemma not_below: "below e i (e', j) \<Longrightarrow> e < e' \<or> e = e' \<and> i \<le> j \<Longrightarrow> False"
  by (auto simp: below_def)

lemma receives_new:
  assumes "receives w p w'" "window_ok opened w"
  shows "p \<notin> opened \<and> window_ok (insert p opened) w'"
  using assms
proof cases
  case (fill_gap G e i)
  then show ?thesis using assms(2) by (auto simp: window_ok_def)
next
  case (same_chain i j e G)
  note ok = assms(2)[unfolded same_chain(1)]
  have old: "below e (Suc j) q" if "q \<in> opened \<union> G" for q
    using window_okD[OF ok that] same_chain(4) by (auto simp: below_def)
  have fresh: "(e, k) \<notin> opened \<union> G" if "i \<le> k" for k
    using window_okD[OF ok, of "(e, k)"] that by (auto simp: below_def)
  have "below e (Suc j) (e, k)" if "k \<le> j" for k using that by (simp add: below_def)
  then show ?thesis
    using old fresh ok same_chain by (auto simp: window_ok_def)
next
  case (next_chain e e' i l G j)
  note ok = assms(2)[unfolded next_chain(1)]
  have old: "below e' (Suc j) q" if "q \<in> opened \<union> G" for q
    using window_okD[OF ok that] next_chain(4) by (auto simp: below_def)
  have fresh: "(e', k) \<notin> opened \<union> G" for k
    using window_okD[OF ok, of "(e', k)"] next_chain(4) by (auto simp: below_def)
  have gap: "(e, k) \<notin> opened \<union> G" if "i \<le> k" for k
    using window_okD[OF ok, of "(e, k)"] that by (auto simp: below_def)
  have "below e' (Suc j) (e', k)" if "k \<le> j" for k using that by (simp add: below_def)
  moreover have "below e' (Suc j) (e, k)" for k using next_chain(4) by (simp add: below_def)
  ultimately show ?thesis
    using old gap fresh ok next_chain by (auto simp: window_ok_def)
qed

section \<open>Elimination rules\<close>

lemma st_bindE:
  assumes "st_bind p f = (Inr y, s')"
  obtains x s where "p = (Inr x, s)" "f x s = (Inr y, s')"
  using assms by (auto simp: result_simps)

lemma st_tryE:
  assumes "st_try r s f = (Inr y, s')"
  obtains x where "r = Inr x" "f x = (Inr y, s')"
  using assms by (auto simp: result_simps)

lemma st_ensureE:
  assumes "st_ensure b e s k = (Inr y, s')"
  obtains b "k = (Inr y, s')"
  using assms by (auto simp: result_simps)

lemma commit_Inr_iff: "commit s p = (Inr y, s') \<longleftrightarrow> p = (Inr y, s')"
  by (auto simp: commit_def split: prod.splits sum.splits)

lemma commit_keeps: "fst (commit s p) = Inl e \<Longrightarrow> snd (commit s p) = s"
  by (auto simp: commit_def split: prod.splits sum.splits)

lemma pairwise_try_clone_eq [simp]: "pairwise_try_clone s = Inr s"
  by (simp add: pairwise_try_clone_def spq_try_clone_def)

section \<open>The skip loop\<close>

definition skipped_position :: "pairwise_skipped \<Rightarrow> position" where
  "skipped_position k = (unat (sk_dh_epoch k), unat (sk_chain_index k))"

lemma keep_newest_all: "length xs \<le> limit \<Longrightarrow> keep_newest limit xs = xs"
  by (simp add: keep_newest_def)

lemma length_keep_newest: "length (keep_newest limit xs) \<le> limit"
  by (simp add: keep_newest_def)

text \<open>
  Within the limit the loop appends the keys of exactly the positions between the index of the
  chain and the target.
\<close>

lemma store_skipped_loop_Inr:
  assumes "store_skipped_loop fuel E epoch sender target s = (Inr (), s')" "pws_receiving_index s \<le> target"
    and "length (pws_skipped s) + (unat target - unat (pws_receiving_index s)) \<le> MAX_SKIPPED_KEYS"
  obtains chain ks where
    "s' = s\<lparr>pws_receiving_chain := chain, pws_receiving_index := target, pws_skipped := pws_skipped s @ ks\<rparr>"
    "map skipped_position ks = map (Pair (unat epoch)) [unat (pws_receiving_index s)..<unat target]"
    "\<forall>k\<in>set ks. sk_sender_key k = sender"
  using assms
proof (induction fuel arbitrary: s thesis)
  case 0
  then have "pws_receiving_index s = target" "s' = s" by (auto split: if_splits)
  then show ?case by (intro "0.prems"(1)[where chain = "pws_receiving_chain s" and ks = "[]"]) simp_all
next
  case (Suc fuel)
  show ?case
  proof (cases "pws_receiving_index s < target")
    case False
    then have "pws_receiving_index s = target" "s' = s" using Suc.prems by auto
    then show ?thesis by (intro Suc.prems(1)[where chain = "pws_receiving_chain s" and ks = "[]"]) simp_all
  next
    case True
    let ?i = "pws_receiving_index s"
    have less: "unat ?i < unat target" using True by (simp add: word_less_nat_alt)
    have next_i: "unat (?i + 1) = Suc (unat ?i)"
      using True by (intro next_epoch_unat) (metis word_order.extremum_strict)
    define k where "k key = \<lparr>sk_message_id = skipped_id (pws_session_id s) epoch ?i, sk_dh_epoch = epoch,
       sk_chain_index = ?i, sk_sender_key = sender, sk_message_key = key\<rparr>" for key
    obtain nc key where step: "advance_chain E (pws_receiving_chain s) epoch ?i (ascii ''message'') = Inr (nc, key)"
      and rec: "store_skipped_loop fuel E epoch sender target
        (push_skipped_message_key (k key) (s\<lparr>pws_receiving_chain := nc, pws_receiving_index := ?i + 1\<rparr>)) = (Inr (), s')"
      using Suc.prems(2) True by (auto simp: result_simps Let_def k_def)
    let ?t = "s\<lparr>pws_receiving_chain := nc, pws_receiving_index := ?i + 1, pws_skipped := pws_skipped s @ [k key]\<rparr>"
    have push: "push_skipped_message_key (k key) (s\<lparr>pws_receiving_chain := nc, pws_receiving_index := ?i + 1\<rparr>) = ?t"
      using Suc.prems(4) less by (simp add: push_skipped_message_key_def keep_newest_all)
    have "?i + 1 \<le> target" using less next_i by (simp add: word_le_nat_alt)
    moreover have "length (pws_skipped ?t) + (unat target - unat (pws_receiving_index ?t)) \<le> MAX_SKIPPED_KEYS"
      using Suc.prems(4) less next_i by simp
    ultimately obtain chain ks where
      r: "s' = ?t\<lparr>pws_receiving_chain := chain, pws_receiving_index := target, pws_skipped := pws_skipped ?t @ ks\<rparr>"
        "map skipped_position ks = map (Pair (unat epoch)) [unat (pws_receiving_index ?t)..<unat target]"
        "\<forall>k\<in>set ks. sk_sender_key k = sender"
      using Suc.IH[OF _ rec[unfolded push]] by auto
    show ?thesis
    proof (rule Suc.prems(1)[where chain = chain and ks = "k key # ks"])
      show "map skipped_position (k key # ks) = map (Pair (unat epoch)) [unat ?i..<unat target]"
        using r(2) next_i less by (simp add: upt_conv_Cons skipped_position_def k_def del: upt_Suc)
    qed (use r in \<open>simp_all add: k_def\<close>)
  qed
qed

section \<open>The store of a session\<close>

definition window_of :: "('p, 'n, 's) pairwise_session \<Rightarrow> window" where
  "window_of s = (unat (pws_receiving_epoch s), unat (pws_receiving_index s), skipped_position ` set (pws_skipped s))"

definition store_ok :: "('p, 'n, 's) pairwise_session \<Rightarrow> bool" where
  "store_ok s \<longleftrightarrow> length (pws_skipped s) \<le> MAX_SKIPPED_KEYS \<and> distinct (map skipped_position (pws_skipped s))
     \<and> (\<forall>k\<in>set (pws_skipped s). below (unat (pws_receiving_epoch s)) (unat (pws_receiving_index s)) (skipped_position k))
     \<and> pws_receiving_epoch s \<le> pws_dh_epoch s"

definition message_position :: "pairwise_message \<Rightarrow> position" where
  "message_position msg = (unat (pm_dh_epoch msg), unat (pm_chain_index msg))"

text \<open>What receiving a key does to the rest of the session.\<close>

definition same_frame :: "('p, 'n, 's) pairwise_session \<Rightarrow> ('p, 'n, 's) pairwise_session \<Rightarrow> bool" where
  "same_frame s s' \<longleftrightarrow> pws_received_ids s' = pws_received_ids s \<and> pws_session_id s' = pws_session_id s
     \<and> pws_local_endpoint s' = pws_local_endpoint s \<and> pws_remote_endpoint s' = pws_remote_endpoint s
     \<and> pws_local_secret s' = pws_local_secret s \<and> pws_local_public s' = pws_local_public s
     \<and> pws_sending_chain s' = pws_sending_chain s \<and> pws_sending_index s' = pws_sending_index s
     \<and> pws_negotiation s' = pws_negotiation s \<and> pws_key_confirmed s' = pws_key_confirmed s
     \<and> pws_sparse_pq s' = pws_sparse_pq s \<and> pws_revoked s' = pws_revoked s"

lemma same_frame_refl [simp]: "same_frame s s"
  by (simp add: same_frame_def)

lemma same_frame_trans: "same_frame s t \<Longrightarrow> same_frame t u \<Longrightarrow> same_frame s u"
  by (simp add: same_frame_def)

lemma unat_diff: "i \<le> t \<Longrightarrow> unat (t - i :: u64) = unat t - unat i"
  by (simp add: unat_sub)

lemma loop_window:
  assumes "store_skipped_loop fuel E (pws_receiving_epoch s) sender target s = (Inr (), s')" "store_ok s"
    and "pws_receiving_index s \<le> target" "unat (target - pws_receiving_index s) \<le> MAX_SKIPPED_KEYS - length (pws_skipped s)"
  shows "store_ok s'" "same_frame s s'"
    and "window_of s' = (unat (pws_receiving_epoch s), unat target, skipped_position ` set (pws_skipped s)
      \<union> Pair (unat (pws_receiving_epoch s)) ` {unat (pws_receiving_index s)..<unat target})"
    and "pws_dh_epoch s' = pws_dh_epoch s" "pws_receiving_epoch s' = pws_receiving_epoch s"
    and "pws_receiving_index s' = target" "pws_remote_public s' = pws_remote_public s"
    and "pws_skipped_header_keys s' = pws_skipped_header_keys s"
    and "length (pws_skipped s') = length (pws_skipped s) + (unat target - unat (pws_receiving_index s))"
proof -
  let ?e = "unat (pws_receiving_epoch s)" and ?i = "unat (pws_receiving_index s)" and ?t = "unat target"
  have room: "length (pws_skipped s) + (?t - ?i) \<le> MAX_SKIPPED_KEYS"
  proof -
    have "length (pws_skipped s) \<le> MAX_SKIPPED_KEYS" using assms(2) by (simp add: store_ok_def)
    then show ?thesis using assms(4) unat_diff[OF assms(3)] by linarith
  qed
  from store_skipped_loop_Inr[OF assms(1,3) room] obtain chain ks where
    s': "s' = s\<lparr>pws_receiving_chain := chain, pws_receiving_index := target, pws_skipped := pws_skipped s @ ks\<rparr>"
    and ks: "map skipped_position ks = map (Pair ?e) [?i..<?t]" by blast
  have new: "skipped_position ` set ks = Pair ?e ` {?i..<?t}"
    using arg_cong[OF ks, of set] by simp
  have len: "length ks = ?t - ?i" using arg_cong[OF ks, of length] by simp
  have le: "?i \<le> ?t" using assms(3) by (simp add: word_le_nat_alt)
  have old: "\<forall>k\<in>set (pws_skipped s). below ?e ?i (skipped_position k)" using assms(2) by (simp add: store_ok_def)
  have "distinct (map skipped_position (pws_skipped s @ ks))"
  proof -
    have "skipped_position k \<noteq> (?e, j)" if "k \<in> set (pws_skipped s)" "?i \<le> j" for k j
      using bspec[OF old that(1)] that(2) by (auto simp: below_def)
    then have "set (map skipped_position (pws_skipped s)) \<inter> set (map (Pair ?e) [?i..<?t]) = {}" by fastforce
    moreover have "distinct (map (Pair ?e) [?i..<?t])" by (simp add: distinct_map inj_on_def)
    ultimately show ?thesis using assms(2) by (simp add: ks store_ok_def del: set_map)
  qed
  moreover have "\<forall>k\<in>set (pws_skipped s @ ks). below ?e ?t (skipped_position k)"
  proof
    fix k
    assume "k \<in> set (pws_skipped s @ ks)"
    then consider "k \<in> set (pws_skipped s)" | "skipped_position k \<in> Pair ?e ` {?i..<?t}"
      using new by auto
    then show "below ?e ?t (skipped_position k)"
      using old le by cases (auto simp: below_def)
  qed
  ultimately show "store_ok s'" using assms(2) room len s' by (simp add: store_ok_def)
  show "window_of s' = (?e, ?t, skipped_position ` set (pws_skipped s) \<union> Pair ?e ` {?i..<?t})"
    using s' new by (simp add: window_of_def image_Un)
  show "same_frame s s'" "pws_dh_epoch s' = pws_dh_epoch s" "pws_receiving_epoch s' = pws_receiving_epoch s"
    "pws_receiving_index s' = target" "pws_remote_public s' = pws_remote_public s"
    "pws_skipped_header_keys s' = pws_skipped_header_keys s"
    "length (pws_skipped s') = length (pws_skipped s) + (?t - ?i)"
    using s' len by (simp_all add: same_frame_def)
qed

section \<open>Receiving\<close>

lemma receive_remote_ratchet_Inr:
  assumes "receive_remote_ratchet E msg sender s = (Inr (), s')" "store_ok s"
  obtains "store_ok s'" "same_frame s s'" "pws_dh_epoch s' = pm_dh_epoch msg" "pws_receiving_epoch s' = pm_dh_epoch msg"
    "unat (pm_dh_epoch msg) = Suc (unat (pws_dh_epoch s))" "pws_receiving_index s' = 0" "pws_remote_public s' = sender"
    "pws_receiving_index s \<le> pm_previous_length msg" "length (pws_skipped_header_keys s') \<le> MAX_SKIPPED_KEYS"
    "window_of s' = (unat (pm_dh_epoch msg), 0, skipped_position ` set (pws_skipped s)
       \<union> Pair (unat (pws_receiving_epoch s)) ` {unat (pws_receiving_index s)..<unat (pm_previous_length msg)})"
proof -
  have epoch: "pws_dh_epoch s \<noteq> - 1" "pws_dh_epoch s + 1 = pm_dh_epoch msg"
    using assms(1) by (auto simp: receive_remote_ratchet_def result_simps)
  obtain t where guards: "pws_receiving_index s \<le> pm_previous_length msg"
      "unat (pm_previous_length msg - pws_receiving_index s) \<le> MAX_SKIPPED_KEYS - length (pws_skipped s)"
    and loop: "store_skipped_loop MAX_SKIPPED_KEYS E (pws_receiving_epoch s) (pws_remote_public s) (pm_previous_length msg) s
      = (Inr (), t)"
    and s': "\<exists>root_k chain_k next_header. s' = t\<lparr>pws_root_key := root_k, pws_receiving_chain := chain_k,
       pws_skipped_header_keys := keep_newest MAX_SKIPPED_KEYS (pws_skipped_header_keys t @ [pws_receiving_header_key t]),
       pws_receiving_header_key := pws_next_receiving_header_key t, pws_next_receiving_header_key := next_header,
       pws_remote_public := sender, pws_dh_epoch := pm_dh_epoch msg, pws_receiving_epoch := pm_dh_epoch msg,
       pws_receiving_index := 0, pws_pending_ratchet := True\<rparr>"
    using assms(1) unfolding receive_remote_ratchet_def store_skipped_message_keys_until_def Let_def
    by (auto elim!: st_bindE st_tryE st_ensureE)
  note w = loop_window[OF loop assms(2) guards]
  have e: "unat (pm_dh_epoch msg) = Suc (unat (pws_dh_epoch s))" using next_epoch_unat[OF epoch(1)] epoch(2) by simp
  have le: "unat (pws_receiving_epoch s) \<le> unat (pws_dh_epoch s)"
    using assms(2) by (simp add: store_ok_def word_le_nat_alt)
  show thesis
  proof (rule that)
    have "below (unat (pm_dh_epoch msg)) 0 (skipped_position k)" if "k \<in> set (pws_skipped t)" for k
    proof -
      have "below (unat (pws_receiving_epoch s)) (unat (pm_previous_length msg)) (skipped_position k)"
        using w(1,5,6) that by (simp add: store_ok_def)
      then show ?thesis using e le by (auto simp: below_def)
    qed
    then show "store_ok s'" using w(1) s' by (auto simp: store_ok_def)
    show "same_frame s s'" using w(2) s' by (auto simp: same_frame_def)
    show "window_of s' = (unat (pm_dh_epoch msg), 0, skipped_position ` set (pws_skipped s)
       \<union> Pair (unat (pws_receiving_epoch s)) ` {unat (pws_receiving_index s)..<unat (pm_previous_length msg)})"
      using w(3) s' by (auto simp: window_of_def)
  qed (use s' e guards length_keep_newest in auto)
qed

text \<open>The end of a receipt, on the chain of the message: skip to the message and take its key.\<close>

lemma finish_receipt:
  assumes "st_bind (store_skipped_loop MAX_SKIPPED_KEYS E (pm_dh_epoch msg) sender (pm_chain_index msg) s) (\<lambda>_ s.
       st_try (advance_chain E (pws_receiving_chain s) (pm_dh_epoch msg) (pws_receiving_index s) (ascii ''message'')) s
         (\<lambda>(next_chain, key).
       (Inr key, s\<lparr>pws_receiving_chain := next_chain, pws_receiving_index := pws_receiving_index s + 1\<rparr>))) = (Inr key, s')"
    and "store_ok s" "pm_dh_epoch msg = pws_receiving_epoch s" "pm_chain_index msg \<noteq> - 1"
    and "pws_receiving_index s \<le> pm_chain_index msg"
    and "unat (pm_chain_index msg - pws_receiving_index s) \<le> MAX_SKIPPED_KEYS - length (pws_skipped s)"
  shows "store_ok s'" "same_frame s s'" "pws_dh_epoch s' = pws_dh_epoch s"
    and "pws_skipped_header_keys s' = pws_skipped_header_keys s"
    and "window_of s' = (unat (pm_dh_epoch msg), Suc (unat (pm_chain_index msg)), skipped_position ` set (pws_skipped s)
       \<union> Pair (unat (pm_dh_epoch msg)) ` {unat (pws_receiving_index s)..<unat (pm_chain_index msg)})"
proof -
  obtain t where loop: "store_skipped_loop MAX_SKIPPED_KEYS E (pws_receiving_epoch s) sender (pm_chain_index msg) s = (Inr (), t)"
    and s': "\<exists>chain. s' = t\<lparr>pws_receiving_chain := chain, pws_receiving_index := pws_receiving_index t + 1\<rparr>"
    using assms(1) unfolding assms(3) by (auto elim!: st_bindE st_tryE)
  note w = loop_window[OF loop assms(2,5,6)]
  have next_i: "unat (pm_chain_index msg + 1) = Suc (unat (pm_chain_index msg))" by (rule next_epoch_unat[OF assms(4)])
  have "below e (Suc i) (skipped_position k)" if "below e i (skipped_position k)" for e i k
    using that by (auto simp: below_def)
  then show "store_ok s'" using w(1,6) s' next_i by (auto simp: store_ok_def)
  show "same_frame s s'" "pws_dh_epoch s' = pws_dh_epoch s" "pws_skipped_header_keys s' = pws_skipped_header_keys s"
    using w(2,4,8) s' by (auto simp: same_frame_def)
  show "window_of s' = (unat (pm_dh_epoch msg), Suc (unat (pm_chain_index msg)), skipped_position ` set (pws_skipped s)
       \<union> Pair (unat (pm_dh_epoch msg)) ` {unat (pws_receiving_index s)..<unat (pm_chain_index msg)})"
    using w(3,6) s' next_i assms(3) by (auto simp: window_of_def)
qed

text \<open>The facts a receipt establishes, for the whole session.\<close>

definition receipt ::
    "pairwise_message \<Rightarrow> ('p, 'n, 's) pairwise_session \<Rightarrow> ('p, 'n, 's) pairwise_session \<Rightarrow> bool" where
  "receipt msg s s' \<longleftrightarrow> store_ok s' \<and> same_frame s s' \<and> receives (window_of s) (message_position msg) (window_of s')
     \<and> unat (pws_dh_epoch s') \<le> Suc (unat (pws_dh_epoch s))
     \<and> (length (pws_skipped_header_keys s) \<le> MAX_SKIPPED_KEYS \<longrightarrow> length (pws_skipped_header_keys s') \<le> MAX_SKIPPED_KEYS)"

lemma advance_receipt:
  assumes "advance_receiving_chain_to E msg sender s = (Inr key, s')" "store_ok s" "pm_chain_index msg \<noteq> - 1"
  shows "receipt msg s s'"
proof (cases "sender = pws_remote_public s")
  case True
  have "pm_dh_epoch msg = pws_receiving_epoch s" "pws_receiving_index s \<le> pm_chain_index msg"
    "unat (pm_chain_index msg - pws_receiving_index s) \<le> MAX_SKIPPED_KEYS - length (pws_skipped s)"
    and fin: "st_bind (store_skipped_loop MAX_SKIPPED_KEYS E (pm_dh_epoch msg) sender (pm_chain_index msg) s) (\<lambda>_ s.
       st_try (advance_chain E (pws_receiving_chain s) (pm_dh_epoch msg) (pws_receiving_index s) (ascii ''message'')) s
         (\<lambda>(next_chain, key).
       (Inr key, s\<lparr>pws_receiving_chain := next_chain, pws_receiving_index := pws_receiving_index s + 1\<rparr>))) = (Inr key, s')"
    using assms(1) True unfolding advance_receiving_chain_to_def Let_def
    by (auto elim!: st_ensureE simp: st_bind_Inr_iff[of "st_ensure _ _ _ _"] st_ensure_Inr_iff)
  note w = finish_receipt[OF fin assms(2) this(1) assms(3) this(2,3)]
  have "unat (pws_receiving_index s) \<le> unat (pm_chain_index msg)"
    using \<open>pws_receiving_index s \<le> pm_chain_index msg\<close> by (simp add: word_le_nat_alt)
  then show ?thesis
    using w \<open>pm_dh_epoch msg = pws_receiving_epoch s\<close>
    by (simp add: receipt_def message_position_def window_of_def[of s] same_chain)
next
  case False
  then obtain t where remote: "receive_remote_ratchet E msg sender s = (Inr (), t)"
    and guards: "pws_receiving_index t \<le> pm_chain_index msg"
      "unat (pm_chain_index msg - pws_receiving_index t) \<le> MAX_SKIPPED_KEYS - length (pws_skipped t)"
    and fin: "st_bind (store_skipped_loop MAX_SKIPPED_KEYS E (pm_dh_epoch msg) sender (pm_chain_index msg) t) (\<lambda>_ s.
       st_try (advance_chain E (pws_receiving_chain s) (pm_dh_epoch msg) (pws_receiving_index s) (ascii ''message'')) s
         (\<lambda>(next_chain, key).
       (Inr key, s\<lparr>pws_receiving_chain := next_chain, pws_receiving_index := pws_receiving_index s + 1\<rparr>))) = (Inr key, s')"
    using assms(1) unfolding advance_receiving_chain_to_def Let_def
    by (auto simp: st_bind_Inr_iff[of "receive_remote_ratchet _ _ _ _"] st_ensure_Inr_iff)
  from receive_remote_ratchet_Inr[OF remote assms(2)] have r: "store_ok t" "same_frame s t"
    "pws_dh_epoch t = pm_dh_epoch msg" "pws_receiving_epoch t = pm_dh_epoch msg"
    "unat (pm_dh_epoch msg) = Suc (unat (pws_dh_epoch s))" "pws_receiving_index t = 0"
    "pws_receiving_index s \<le> pm_previous_length msg" "length (pws_skipped_header_keys t) \<le> MAX_SKIPPED_KEYS"
    "window_of t = (unat (pm_dh_epoch msg), 0, skipped_position ` set (pws_skipped s)
       \<union> Pair (unat (pws_receiving_epoch s)) ` {unat (pws_receiving_index s)..<unat (pm_previous_length msg)})"
    by blast+
  note w = finish_receipt[OF fin r(1) r(4)[symmetric] assms(3) guards]
  have "unat (pws_receiving_epoch s) < unat (pm_dh_epoch msg)"
    using assms(2) r(5) by (simp add: store_ok_def word_le_nat_alt)
  moreover have "unat (pws_receiving_index s) \<le> unat (pm_previous_length msg)" using r(7) by (simp add: word_le_nat_alt)
  ultimately have "receives (window_of s) (message_position msg) (window_of s')"
    using w(5) r(6,9) next_chain[of _ "unat (pm_dh_epoch msg)"]
    by (simp add: window_of_def[of s] window_of_def[of t] message_position_def atLeast0LessThan)
  then show ?thesis
    using w r same_frame_trans[OF r(2) w(2)] by (simp add: receipt_def)
qed

lemma take_matching_Some:
  assumes "take_matching P xs = Some (x, ys)"
  shows "P x \<and> (\<exists>us vs. xs = us @ x # vs \<and> ys = us @ vs)"
  using assms
proof (induction xs arbitrary: ys)
  case (Cons z zs)
  show ?case
  proof (cases "P z")
    case False
    then obtain ws where "take_matching P zs = Some (x, ws)" "ys = z # ws" using Cons.prems by auto
    then show ?thesis using Cons.IH[of ws] by (metis append_Cons)
  qed (use Cons.prems in \<open>auto intro: exI[of _ "[]"]\<close>)
qed simp

lemma take_receipt:
  assumes "take_skipped_message_key (pm_dh_epoch msg) (pm_chain_index msg) sender s = (Inr key, s')" "store_ok s"
  shows "receipt msg s s'"
proof -
  obtain k rest where t: "take_matching (skipped_matches (pm_dh_epoch msg) (pm_chain_index msg) sender) (pws_skipped s)
      = Some (k, rest)" and s': "s' = s\<lparr>pws_skipped := rest\<rparr>"
    using assms(1) by (auto simp: take_skipped_message_key_def split: option.splits)
  from take_matching_Some[OF t] obtain us vs where split: "pws_skipped s = us @ k # vs" "rest = us @ vs"
    and k: "skipped_position k = message_position msg"
    by (auto simp: skipped_matches_def skipped_position_def message_position_def)
  have "distinct (map skipped_position (us @ k # vs))" using assms(2) split(1) by (simp add: store_ok_def)
  then have gaps: "skipped_position ` set rest = skipped_position ` set (pws_skipped s) - {message_position msg}"
    using k split by auto
  have "message_position msg \<in> skipped_position ` set (pws_skipped s)" using split(1) k by force
  then have "receives (window_of s) (message_position msg) (window_of s')"
    using gaps s' by (simp add: window_of_def fill_gap)
  moreover have "store_ok s'" using assms(2) split s' by (auto simp: store_ok_def)
  ultimately show ?thesis by (simp add: receipt_def s' same_frame_def)
qed

theorem message_key_receipt:
  assumes "message_key_for_open E msg s = (Inr key, s')" "store_ok s" "pm_chain_index msg \<noteq> - 1"
  shows "receipt msg s s'"
  using assms advance_receipt take_receipt
  by (auto simp: message_key_for_open_def st_try_Inr_iff split: if_splits)

end
