(* ===== verification/Pairwise_Run.thy ===== *)
theory Pairwise_Run
  imports Pairwise_Window
begin

text \<open>
  Everything a caller may do to a session, as steps, and the invariant of a session over the
  positions it has opened.
\<close>

datatype pairwise_op =
    OpSeal bytes "nat \<Rightarrow> bytes" bytes rstr bytes
  | OpOpen pairwise_message
  | OpSealPayload bytes "nat \<Rightarrow> bytes" bytes content_context mesh_plaintext bytes
  | OpOpenPayload content_context pairwise_message payload_kind bytes
  | OpRotate bytes
  | OpRevoke

definition opened_position :: "pairwise_message \<Rightarrow> 'a pairwise_result \<Rightarrow> position list" where
  "opened_position msg r = (case r of Inl _ \<Rightarrow> [] | Inr _ \<Rightarrow> [message_position msg])"

definition pairwise_step ::
    "'s pairwise_env \<Rightarrow> pairwise_op \<Rightarrow> ('p, 'n, 's) pairwise_session \<Rightarrow> position list \<times> ('p, 'n, 's) pairwise_session" where
  "pairwise_step E op s = (case op of
       OpSeal secret fill nonce mid body \<Rightarrow> ([], snd (seal_message E secret fill nonce mid body s))
     | OpOpen msg \<Rightarrow> (let (r, s') = open_message E msg s in (opened_position msg r, s'))
     | OpSealPayload secret fill nonce ctx pt extra \<Rightarrow>
         ([], snd (pairwise_seal_payload_with_extra_aad E secret fill nonce ctx pt extra s))
     | OpOpenPayload ctx msg kind extra \<Rightarrow>
         (let (r, s') = pairwise_open_payload_with_extra_aad E ctx msg kind extra s in (opened_position msg r, s'))
     | OpRotate secret \<Rightarrow> ([], snd (rotate_sending_ratchet E secret s))
     | OpRevoke \<Rightarrow> ([], revoke_session E s))"

fun pairwise_run ::
    "'s pairwise_env \<Rightarrow> pairwise_op list \<Rightarrow> ('p, 'n, 's) pairwise_session \<Rightarrow> position list \<times> ('p, 'n, 's) pairwise_session" where
  "pairwise_run E [] s = ([], s)"
| "pairwise_run E (op # ops) s =
     (let (opened, s) = pairwise_step E op s; (rest, s) = pairwise_run E ops s in (opened @ rest, s))"

text \<open>The last position of a chain, \<open>2^64 - 1\<close>, is the one whose successor wraps around.\<close>

definition op_message :: "pairwise_op \<Rightarrow> pairwise_message option" where
  "op_message op = (case op of OpOpen msg \<Rightarrow> Some msg | OpOpenPayload _ msg _ _ \<Rightarrow> Some msg | _ \<Rightarrow> None)"

definition op_in_range :: "pairwise_op \<Rightarrow> bool" where
  "op_in_range op = pred_option (\<lambda>msg. pm_chain_index msg \<noteq> - 1) (op_message op)"

section \<open>The invariant\<close>

definition session_ok :: "position set \<Rightarrow> ('p, 'n, 's) pairwise_session \<Rightarrow> bool" where
  "session_ok opened s \<longleftrightarrow> store_ok s \<and> window_ok opened (window_of s)
     \<and> length (pws_received_ids s) \<le> MAX_REPLAY_IDS \<and> length (pws_skipped_header_keys s) \<le> MAX_SKIPPED_KEYS"

text \<open>A session as the handshake leaves it, with nothing opened.\<close>

definition fresh_session :: "('p, 'n, 's) pairwise_session \<Rightarrow> bool" where
  "fresh_session s \<longleftrightarrow> pws_skipped s = [] \<and> pws_received_ids s = [] \<and> pws_skipped_header_keys s = []
     \<and> pws_dh_epoch s = 0 \<and> pws_receiving_epoch s = 0 \<and> pws_sending_index s = 0 \<and> pws_receiving_index s = 0"

lemma fresh_session_ok: "fresh_session s \<Longrightarrow> session_ok {} s"
  by (simp add: fresh_session_def session_ok_def store_ok_def window_ok_def window_of_def)

section \<open>Sending keeps the receiving side\<close>

definition receiving_view :: "('p, 'n, 's) pairwise_session \<Rightarrow> pairwise_skipped list \<times> u64 \<times> u64 \<times> rstr list \<times> bytes list" where
  "receiving_view s = (pws_skipped s, pws_receiving_epoch s, pws_receiving_index s, pws_received_ids s,
     pws_skipped_header_keys s)"

lemma rotate_view:
  "receiving_view (snd (rotate_sending_ratchet E secret s)) = receiving_view s
   \<and> (pws_dh_epoch (snd (rotate_sending_ratchet E secret s)) = pws_dh_epoch s
      \<or> pws_dh_epoch (snd (rotate_sending_ratchet E secret s)) = pws_dh_epoch s + 1)"
  by (auto simp: rotate_sending_ratchet_def rotate_sending_ratchet_with_secret_def st_try_def st_ensure_def Let_def
      receiving_view_def split: sum.splits prod.splits)

lemma prepare_view:
  assumes "prepare_sending_ratchet_for_send E secret s = (r, s')"
  shows "receiving_view s' = receiving_view s" "pws_dh_epoch s' = pws_dh_epoch s \<or> pws_dh_epoch s' = pws_dh_epoch s + 1"
  using assms rotate_view[of E secret s] by (auto simp: prepare_sending_ratchet_for_send_def split: if_splits)

lemma pq_send_view: "pq_send_key E fill s = (r, s') \<Longrightarrow> \<exists>q. s' = s\<lparr>pws_sparse_pq := q\<rparr>"
  by (auto simp: pq_send_key_def split: prod.splits)

lemma sending_keys_view:
  assumes "sending_keys E secret fill s = (Inr x, s')"
  shows "receiving_view s' = receiving_view s" "pws_dh_epoch s' = pws_dh_epoch s \<or> pws_dh_epoch s' = pws_dh_epoch s + 1"
proof -
  obtain t where t: "prepare_sending_ratchet_for_send E secret s = (Inr (), t)" "\<exists>q. s' = t\<lparr>pws_sparse_pq := q\<rparr>"
    using assms unfolding sending_keys_def by (auto elim!: st_bindE st_tryE dest!: pq_send_view)
  have "receiving_view s' = receiving_view t" "pws_dh_epoch s' = pws_dh_epoch t"
    using t(2) by (auto simp: receiving_view_def)
  then show "receiving_view s' = receiving_view s" "pws_dh_epoch s' = pws_dh_epoch s \<or> pws_dh_epoch s' = pws_dh_epoch s + 1"
    using prepare_view[OF t(1)] by simp_all
qed

lemma finish_sending_view [simp]:
  "receiving_view (finish_sending c s) = receiving_view s" "pws_dh_epoch (finish_sending c s) = pws_dh_epoch s"
  by (simp_all add: finish_sending_def receiving_view_def)

section \<open>Operations are atomic\<close>

text \<open>\<open>atomic s p\<close>: an operation that failed left the session \<open>s\<close> it was called on.\<close>

definition atomic :: "'s \<Rightarrow> ('e + 'a) \<times> 's \<Rightarrow> bool" where
  "atomic s p \<longleftrightarrow> (\<forall>e. fst p = Inl e \<longrightarrow> snd p = s)"

lemma atomic_intros:
  "(\<And>x. r = Inr x \<Longrightarrow> atomic s (f x)) \<Longrightarrow> atomic s (st_try r s f)"
  "atomic s k \<Longrightarrow> atomic s (st_ensure b e s k)"
  "atomic s (commit s p)"
  by (auto simp: atomic_def st_try_def st_ensure_def commit_def split: sum.splits prod.splits)

lemma atomicD: "atomic s p \<Longrightarrow> p = (Inl e, s') \<Longrightarrow> s' = s"
  by (auto simp: atomic_def)

lemma seal_message_atomic: "atomic s (seal_message E secret fill nonce mid body s)"
  unfolding seal_message_def seal_message_with_nonce_def pairwise_try_clone_eq by (intro atomic_intros)

lemma open_message_atomic: "atomic s (open_message E msg s)"
  unfolding open_message_def pairwise_try_clone_eq by (intro atomic_intros)

lemma seal_payload_atomic: "atomic s (pairwise_seal_payload_with_extra_aad E secret fill nonce ctx pt extra s)"
  unfolding pairwise_seal_payload_with_extra_aad_def pairwise_try_clone_eq by (intro atomic_intros)

lemma open_payload_atomic: "atomic s (pairwise_open_payload_with_extra_aad E ctx msg kind extra s)"
  unfolding pairwise_open_payload_with_extra_aad_def pairwise_try_clone_eq by (intro atomic_intros)

section \<open>Successful operations\<close>

lemma seal_message_Inr:
  assumes "seal_message E secret fill nonce mid body s = (Inr msg, s')"
  obtains next_chain key header c where "sending_keys E secret fill s = (Inr (next_chain, key, header), c)"
    "s' = finish_sending next_chain c"
  using assms unfolding seal_message_def seal_message_with_nonce_def pairwise_try_clone_eq Let_def
  by (auto elim!: st_tryE st_ensureE st_bindE simp: commit_Inr_iff split: prod.splits)

lemma pairwise_seal_payload_Inr:
  assumes "pairwise_seal_payload_with_extra_aad E secret fill nonce ctx pt extra s = (Inr msg, s')"
  obtains next_chain key header c where "sending_keys E secret fill s = (Inr (next_chain, key, header), c)"
    "s' = finish_sending next_chain c"
  using assms unfolding pairwise_seal_payload_with_extra_aad_def pairwise_try_clone_eq Let_def
  by (auto elim!: st_tryE st_ensureE st_bindE simp: commit_Inr_iff split: prod.splits)

lemma receiving_keys_Inr:
  assumes "receiving_keys E msg s = (Inr key, s')"
  obtains classical c q where "message_key_for_open E msg s = (Inr classical, c)" "s' = c\<lparr>pws_sparse_pq := q\<rparr>"
  using assms unfolding receiving_keys_def
  by (auto elim!: st_bindE st_tryE simp: pq_receive_key_def split: prod.splits)

lemma open_message_Inr:
  assumes "open_message E msg s = (Inr opened, s')"
  obtains key c fingerprint where "receiving_keys E msg s = (Inr key, c)" "session_ready s = Inr ()"
    "ensure_message_for_session E s msg = Inr ()" "message_replay_fingerprint E msg = Inr fingerprint"
    "fingerprint \<notin> set (pws_received_ids s)" "s' = record_received_message_id fingerprint c"
  using assms unfolding open_message_def pairwise_try_clone_eq
  by (auto elim!: st_tryE st_ensureE st_bindE simp: commit_Inr_iff)

lemma pairwise_open_payload_Inr:
  assumes "pairwise_open_payload_with_extra_aad E ctx msg kind extra s = (Inr opened, s')"
  obtains key c fingerprint where "receiving_keys E msg s = (Inr key, c)" "session_ready s = Inr ()"
    "ensure_message_for_session E s msg = Inr ()" "message_replay_fingerprint E msg = Inr fingerprint"
    "fingerprint \<notin> set (pws_received_ids s)" "s' = record_received_message_id fingerprint c"
  using assms unfolding pairwise_open_payload_with_extra_aad_def pairwise_try_clone_eq Let_def
  by (auto elim!: st_tryE st_ensureE st_bindE simp: commit_Inr_iff)

section \<open>Steps keep the invariant\<close>

definition same_receiving :: "('p, 'n, 's) pairwise_session \<Rightarrow> ('p, 'n, 's) pairwise_session \<Rightarrow> bool" where
  "same_receiving s s' \<longleftrightarrow> receiving_view s' = receiving_view s
     \<and> (pws_dh_epoch s' = pws_dh_epoch s \<or> pws_dh_epoch s' = pws_dh_epoch s + 1)"

lemma same_receiving_refl [simp]: "same_receiving s s"
  by (simp add: same_receiving_def)

lemma same_receiving_ok:
  assumes "same_receiving s s'" "session_ok opened s" "pws_dh_epoch s \<noteq> - 1"
  shows "session_ok opened s'" "unat (pws_dh_epoch s') \<le> Suc (unat (pws_dh_epoch s))"
proof -
  have view: "pws_skipped s' = pws_skipped s" "pws_receiving_epoch s' = pws_receiving_epoch s"
    "pws_receiving_index s' = pws_receiving_index s" "pws_received_ids s' = pws_received_ids s"
    "pws_skipped_header_keys s' = pws_skipped_header_keys s"
    using assms(1) by (simp_all add: same_receiving_def receiving_view_def)
  note next_e = next_epoch_unat[OF assms(3)]
  have "pws_dh_epoch s \<le> pws_dh_epoch s'" using assms(1) next_e by (auto simp: same_receiving_def word_le_nat_alt)
  then show "session_ok opened s'"
    using assms(2) view by (auto simp: session_ok_def store_ok_def window_of_def)
  show "unat (pws_dh_epoch s') \<le> Suc (unat (pws_dh_epoch s))"
    using assms(1) next_e by (auto simp: same_receiving_def)
qed

lemma seal_message_receiving: "same_receiving s (snd (seal_message E secret fill nonce mid body s))"
proof (cases "seal_message E secret fill nonce mid body s")
  case (Pair r s')
  show ?thesis
  proof (cases r)
    case (Inl e)
    from atomicD[OF seal_message_atomic Pair[unfolded Inl]] show ?thesis using Pair by simp
  next
    case (Inr msg)
    from seal_message_Inr[OF Pair[unfolded Inr]] sending_keys_view show ?thesis
      unfolding Pair same_receiving_def by (metis finish_sending_view snd_conv)
  qed
qed

lemma seal_payload_receiving:
  "same_receiving s (snd (pairwise_seal_payload_with_extra_aad E secret fill nonce ctx pt extra s))"
proof (cases "pairwise_seal_payload_with_extra_aad E secret fill nonce ctx pt extra s")
  case (Pair r s')
  show ?thesis
  proof (cases r)
    case (Inl e)
    from atomicD[OF seal_payload_atomic Pair[unfolded Inl]] show ?thesis using Pair by simp
  next
    case (Inr msg)
    from pairwise_seal_payload_Inr[OF Pair[unfolded Inr]] sending_keys_view show ?thesis
      unfolding Pair same_receiving_def by (metis finish_sending_view snd_conv)
  qed
qed

text \<open>A message that was opened.\<close>

lemma opened_ok:
  assumes "receiving_keys E msg s = (Inr key, c)" "session_ok opened s" "pm_chain_index msg \<noteq> - 1"
  shows "session_ok (insert (message_position msg) opened) (record_received_message_id fingerprint c)"
    and "message_position msg \<notin> opened"
    and "receives (window_of s) (message_position msg) (window_of (record_received_message_id fingerprint c))"
    and "unat (pws_dh_epoch (record_received_message_id fingerprint c)) \<le> Suc (unat (pws_dh_epoch s))"
proof -
  let ?s' = "record_received_message_id fingerprint c"
  obtain classical t q where k: "message_key_for_open E msg s = (Inr classical, t)" "c = t\<lparr>pws_sparse_pq := q\<rparr>"
    using receiving_keys_Inr[OF assms(1)] by blast
  have r: "receipt msg s t" using message_key_receipt[OF k(1) _ assms(3)] assms(2) by (simp add: session_ok_def)
  have same: "window_of ?s' = window_of t" "store_ok ?s' = store_ok t" "pws_dh_epoch ?s' = pws_dh_epoch t"
    "pws_skipped_header_keys ?s' = pws_skipped_header_keys t"
    by (simp_all add: k(2) record_received_message_id_def window_of_def store_ok_def)
  show rec: "receives (window_of s) (message_position msg) (window_of ?s')" using r same by (simp add: receipt_def)
  have ok: "window_ok opened (window_of s)" using assms(2) by (simp add: session_ok_def)
  from receives_new[OF rec ok] show "message_position msg \<notin> opened" by simp
  show "unat (pws_dh_epoch ?s') \<le> Suc (unat (pws_dh_epoch s))" using r same by (simp add: receipt_def)
  show "session_ok (insert (message_position msg) opened) ?s'"
    using receives_new[OF rec ok] r same assms(2) length_keep_newest[of MAX_REPLAY_IDS]
    by (simp add: session_ok_def receipt_def record_received_message_id_def)
qed

lemma revoke_ok: "session_ok opened s \<Longrightarrow> session_ok opened (revoke_session E s)"
  by (auto simp: session_ok_def revoke_session_def store_ok_def window_ok_def window_of_def)

theorem pairwise_step_ok:
  assumes "pairwise_step E op s = (new, s')" "session_ok opened s" "op_in_range op" "pws_dh_epoch s \<noteq> - 1"
  shows "session_ok (set new \<union> opened) s' \<and> distinct new \<and> set new \<inter> opened = {}
    \<and> unat (pws_dh_epoch s') \<le> Suc (unat (pws_dh_epoch s))"
proof (cases op)
  case (OpSeal secret fill nonce mid body)
  then show ?thesis
    using assms same_receiving_ok[OF seal_message_receiving assms(2,4)] by (auto simp: pairwise_step_def)
next
  case (OpOpen msg)
  show ?thesis
  proof (cases "open_message E msg s")
    case (Pair r t)
    show ?thesis
    proof (cases r)
      case (Inl e)
      have "t = s" by (rule atomicD[OF open_message_atomic Pair[unfolded Inl]])
      then have "new = [] \<and> s' = s" using assms(1) OpOpen Pair Inl by (simp add: pairwise_step_def opened_position_def)
      then show ?thesis using assms(2) by simp
    next
      case (Inr x)
      from open_message_Inr[OF Pair[unfolded Inr]] obtain key c f where
        k: "receiving_keys E msg s = (Inr key, c)" and t: "t = record_received_message_id f c" by blast
      have range: "pm_chain_index msg \<noteq> - 1" using assms(3) OpOpen by (simp add: op_in_range_def op_message_def)
      have "new = [message_position msg] \<and> s' = record_received_message_id f c"
        using assms(1) OpOpen Pair Inr t by (simp add: pairwise_step_def opened_position_def)
      then show ?thesis
        using opened_ok(1)[OF k assms(2) range, of f] opened_ok(2)[OF k assms(2) range]
          opened_ok(4)[OF k assms(2) range, of f] by simp
    qed
  qed
next
  case (OpSealPayload secret fill nonce ctx pt extra)
  then show ?thesis
    using assms same_receiving_ok[OF seal_payload_receiving assms(2,4)] by (auto simp: pairwise_step_def)
next
  case (OpOpenPayload ctx msg kind extra)
  show ?thesis
  proof (cases "pairwise_open_payload_with_extra_aad E ctx msg kind extra s")
    case (Pair r t)
    show ?thesis
    proof (cases r)
      case (Inl e)
      have "t = s" by (rule atomicD[OF open_payload_atomic Pair[unfolded Inl]])
      then have "new = [] \<and> s' = s" using assms(1) OpOpenPayload Pair Inl by (simp add: pairwise_step_def opened_position_def)
      then show ?thesis using assms(2) by simp
    next
      case (Inr x)
      from pairwise_open_payload_Inr[OF Pair[unfolded Inr]] obtain key c f where
        k: "receiving_keys E msg s = (Inr key, c)" and t: "t = record_received_message_id f c" by blast
      have range: "pm_chain_index msg \<noteq> - 1" using assms(3) OpOpenPayload by (simp add: op_in_range_def op_message_def)
      have "new = [message_position msg] \<and> s' = record_received_message_id f c"
        using assms(1) OpOpenPayload Pair Inr t by (simp add: pairwise_step_def opened_position_def)
      then show ?thesis
        using opened_ok(1)[OF k assms(2) range, of f] opened_ok(2)[OF k assms(2) range]
          opened_ok(4)[OF k assms(2) range, of f] by simp
    qed
  qed
next
  case (OpRotate secret)
  have "same_receiving s (snd (rotate_sending_ratchet E secret s))" using rotate_view by (simp add: same_receiving_def)
  from same_receiving_ok[OF this assms(2,4)] show ?thesis using assms(1) OpRotate by (auto simp: pairwise_step_def)
next
  case OpRevoke
  then show ?thesis using assms revoke_ok by (auto simp: pairwise_step_def revoke_session_def)
qed

theorem pairwise_run_ok:
  assumes "pairwise_run E ops s = (new, s')" "session_ok opened s" "\<forall>op\<in>set ops. op_in_range op"
    and "unat (pws_dh_epoch s) + length ops < 2 ^ 64"
  shows "session_ok (set new \<union> opened) s' \<and> distinct new \<and> set new \<inter> opened = {}"
  using assms
proof (induction ops arbitrary: s new opened)
  case (Cons op ops)
  obtain n1 t where step: "pairwise_step E op s = (n1, t)" by (cases "pairwise_step E op s")
  obtain n2 where run: "pairwise_run E ops t = (n2, s')" and new: "new = n1 @ n2"
    using Cons.prems(1) step by (auto split: prod.splits)
  have "pws_dh_epoch s \<noteq> - 1"
  proof
    assume "pws_dh_epoch s = - 1"
    then have "unat (pws_dh_epoch s) = 2 ^ 64 - 1" by (simp add: unsigned_minus_1_eq_mask mask_eq_exp_minus_1)
    then show False using Cons.prems(4) by simp
  qed
  note one = pairwise_step_ok[OF step Cons.prems(2) _ this]
  have "unat (pws_dh_epoch t) + length ops < 2 ^ 64" using one Cons.prems(3,4) by simp
  from Cons.IH[OF run _ _ this, of "set n1 \<union> opened"] one show ?case
    using Cons.prems(3) new by (auto simp: Un_assoc Un_commute Un_left_commute)
qed simp

end
