(* ===== verification/Pairwise_Sync.thy ===== *)
theory Pairwise_Sync
  imports Pairwise_Run Content_Proofs
begin

text \<open>
  Two sessions in step: what one of them derives to seal a message, the other derives to open
  it, on the current chain as well as over a new ratchet key.
\<close>

section \<open>Laws of the packages\<close>

definition pairwise_laws :: "'s pairwise_env \<Rightarrow> bool" where
  "pairwise_laws E \<longleftrightarrow> content_laws (pw_content E) \<and> (\<forall>a. length (pw_public E a) = PUBLIC_KEY_LEN)
     \<and> (\<forall>a b. pw_dh E a (pw_public E b) = pw_dh E b (pw_public E a))"

section \<open>Deriving the key of the next message\<close>

lemma loop_at_target [simp]: "store_skipped_loop fuel E e k (pws_receiving_index s) s = (Inr (), s)"
  by (cases fuel) simp_all

lemma not_in_store:
  assumes "store_ok s" "\<not> below (unat (pws_receiving_epoch s)) (unat (pws_receiving_index s)) (unat e, unat i)"
  shows "\<not> skipped_message_key_position s e i k"
  using assms by (auto simp: skipped_message_key_position_def list_ex_iff skipped_matches_def store_ok_def skipped_position_def)

definition on_chain :: "bytes \<Rightarrow> ('p, 'n, 's) pairwise_session \<Rightarrow> ('p, 'n, 's) pairwise_session" where
  "on_chain chain s = s\<lparr>pws_receiving_chain := chain, pws_receiving_index := pws_receiving_index s + 1\<rparr>"

lemma key_in_chain:
  assumes "store_ok s" "pm_sender_key msg = pws_remote_public s" "length (pws_remote_public s) = PUBLIC_KEY_LEN"
    and "pm_dh_epoch msg = pws_receiving_epoch s" "pm_chain_index msg = pws_receiving_index s"
    and "advance_chain E (pws_receiving_chain s) (pm_dh_epoch msg) (pm_chain_index msg) (ascii ''message'') = Inr (nc, key)"
  shows "message_key_for_open E msg s = (Inr key, on_chain nc s)"
proof -
  have "\<not> skipped_message_key_position s (pm_dh_epoch msg) (pm_chain_index msg) (pws_remote_public s)"
    using assms(1,4,5) by (intro not_in_store) (simp_all add: below_def)
  then show ?thesis
    using assms(2-) by (simp add: message_key_for_open_def parse_key_bytes_def advance_receiving_chain_to_def Let_def on_chain_def)
qed

definition on_new_chain ::
    "bytes \<Rightarrow> bytes \<Rightarrow> bytes \<Rightarrow> bytes \<Rightarrow> ('p, 'n, 's) pairwise_session \<Rightarrow> ('p, 'n, 's) pairwise_session" where
  "on_new_chain sender root_k chain next_header s = s\<lparr>pws_root_key := root_k, pws_receiving_chain := chain,
     pws_skipped_header_keys := keep_newest MAX_SKIPPED_KEYS (pws_skipped_header_keys s @ [pws_receiving_header_key s]),
     pws_receiving_header_key := pws_next_receiving_header_key s, pws_next_receiving_header_key := next_header,
     pws_remote_public := sender, pws_dh_epoch := pws_dh_epoch s + 1, pws_receiving_epoch := pws_dh_epoch s + 1,
     pws_receiving_index := 0, pws_pending_ratchet := True\<rparr>"

lemma key_next_chain:
  assumes "store_ok s" "length (pm_sender_key msg) = PUBLIC_KEY_LEN" "pm_sender_key msg \<noteq> pws_remote_public s"
    and "pws_dh_epoch s \<noteq> - 1" "pm_dh_epoch msg = pws_dh_epoch s + 1" "pm_chain_index msg = 0"
    and "pm_previous_length msg = pws_receiving_index s"
    and "diffie_hellman E (pws_local_secret s) (pm_sender_key msg) = Inr dh"
    and "derive_ratchet_root E (pws_root_key s) dh (pm_dh_epoch msg) = Inr (root_k, chain, next_header)"
    and "advance_chain E chain (pm_dh_epoch msg) 0 (ascii ''message'') = Inr (nc, key)"
  shows "message_key_for_open E msg s = (Inr key, on_chain nc (on_new_chain (pm_sender_key msg) root_k chain next_header s))"
proof -
  let ?t = "on_new_chain (pm_sender_key msg) root_k chain next_header s"
  have "unat (pws_receiving_epoch s) \<le> unat (pws_dh_epoch s)" using assms(1) by (simp add: store_ok_def word_le_nat_alt)
  then have "\<not> skipped_message_key_position s (pm_dh_epoch msg) (pm_chain_index msg) (pm_sender_key msg)"
    using assms(1,5) next_epoch_unat[OF assms(4)] by (intro not_in_store) (simp_all add: below_def)
  moreover have "receive_remote_ratchet E msg (pm_sender_key msg) s = (Inr (), ?t)"
    using assms(4-9) by (simp add: receive_remote_ratchet_def store_skipped_message_keys_until_def Let_def on_new_chain_def
        loop_at_target[of MAX_SKIPPED_KEYS E _ _ s])
  moreover have "store_skipped_loop MAX_SKIPPED_KEYS E e k 0 ?t = (Inr (), ?t)" for e k
    using loop_at_target[of MAX_SKIPPED_KEYS E e k ?t] by (simp add: on_new_chain_def)
  ultimately show ?thesis
    using assms(2,3,6,10)
    by (simp add: message_key_for_open_def parse_key_bytes_def advance_receiving_chain_to_def Let_def on_chain_def)
      (simp add: on_new_chain_def assms(5))
qed

section \<open>What sending derives\<close>

lemma rotated:
  assumes "rotate_sending_ratchet E secret s = (Inr (), t)"
  obtains dh root_k chain next_header where
    "diffie_hellman E secret (pws_remote_public s) = Inr dh"
    "derive_ratchet_root E (pws_root_key s) dh (pws_dh_epoch s + 1) = Inr (root_k, chain, next_header)"
    "t = s\<lparr>pws_previous_length := pws_sending_index s, pws_local_secret := secret,
       pws_local_public := pw_public E secret, pws_root_key := root_k, pws_sending_chain := chain,
       pws_sending_header_key := pws_next_sending_header_key s, pws_next_sending_header_key := next_header,
       pws_dh_epoch := pws_dh_epoch s + 1, pws_sending_index := 0, pws_pending_ratchet := False\<rparr>"
  using assms unfolding rotate_sending_ratchet_def rotate_sending_ratchet_with_secret_def Let_def
  by (elim st_ensureE st_tryE) (auto intro: that)

lemma sending_keys_Inr:
  assumes "sending_keys E secret fill s = (Inr (nc, key, header), c)"
  obtains t classical sent q where
    "prepare_sending_ratchet_for_send E secret s = (Inr (), t)"
    "advance_chain E (pws_sending_chain t) (pws_dh_epoch t) (pws_sending_index t) (ascii ''message'') = Inr (nc, classical)"
    "send_key (pw_crypto E) (pw_scka E) fill (pws_sparse_pq t) = (Inr sent, q)"
    "derive_hybrid_message_key (pw_crypto E) classical (sent_message_key sent) (utf8 (pws_session_id t)) = Inr key"
    "c = t\<lparr>pws_sparse_pq := q\<rparr>" "header = sent_header sent"
proof -
  from assms obtain t where t: "prepare_sending_ratchet_for_send E secret s = (Inr (), t)"
    and rest: "st_try (advance_chain E (pws_sending_chain t) (pws_dh_epoch t) (pws_sending_index t) (ascii ''message'')) t
       (\<lambda>(next_chain, classical_key).
     st_bind (pq_send_key E fill t) (\<lambda>sent s.
     st_try (map_err SparsePqFailed (derive_hybrid_message_key (pw_crypto E) classical_key (sent_message_key sent)
       (utf8 (pws_session_id s)))) s (\<lambda>key.
     (Inr (next_chain, key, sent_header sent), s)))) = (Inr (nc, key, header), c)"
    unfolding sending_keys_def by (elim st_bindE) simp
  from rest show thesis
    by (auto elim!: st_tryE st_bindE intro: that[OF t] simp: pq_send_key_def map_err_Inr_iff split: prod.splits)
qed

section \<open>Sessions in step\<close>

text \<open>
  One direction: what \<open>s\<close> sends next is what \<open>r\<close> expects next. The chain \<open>s\<close> sends on is the
  current one unless it is about to step the ratchet.
\<close>

definition half :: "'s pairwise_env \<Rightarrow> ('p, 'n, 's) pairwise_session \<Rightarrow> ('p, 'n, 's) pairwise_session \<Rightarrow> bool" where
  "half E s r \<longleftrightarrow> pws_sending_chain s = pws_receiving_chain r \<and> pws_sending_index s = pws_receiving_index r
     \<and> pws_remote_public r = pws_local_public s \<and> pws_local_public s = pw_public E (pws_local_secret s)
     \<and> (pws_pending_ratchet s \<or> pws_receiving_epoch r = pws_dh_epoch s)"

definition synced :: "'s pairwise_env \<Rightarrow> ('p, 'n, 's) pairwise_session \<Rightarrow> ('p, 'n, 's) pairwise_session \<Rightarrow> bool" where
  "synced E s r \<longleftrightarrow> pws_session_id s = pws_session_id r \<and> pws_local_endpoint s = pws_remote_endpoint r
     \<and> pws_remote_endpoint s = pws_local_endpoint r \<and> session_ready s = Inr () \<and> session_ready r = Inr ()
     \<and> pws_root_key s = pws_root_key r \<and> pws_dh_epoch s = pws_dh_epoch r
     \<and> half E s r \<and> half E r s \<and> store_ok s \<and> store_ok r"

lemma synced_sym: "synced E s r \<longleftrightarrow> synced E r s"
  by (auto simp: synced_def)

definition sealed_by :: "('p, 'n, 's) pairwise_session \<Rightarrow> spq_header \<Rightarrow> pairwise_message \<Rightarrow> bool" where
  "sealed_by c header msg \<longleftrightarrow> pm_dh_epoch msg = pws_dh_epoch c \<and> pm_chain_index msg = pws_sending_index c
     \<and> pm_previous_length msg = pws_previous_length c \<and> pm_sender_key msg = pws_local_public c \<and> pm_pq_header msg = header"

lemma store_ok_simps [simp]:
  "store_ok (finish_sending nc s) = store_ok s"
  "store_ok (s\<lparr>pws_sparse_pq := x\<rparr>) = store_ok s"
  "store_ok (record_received_message_id f s) = store_ok s"
  by (simp_all add: store_ok_def finish_sending_def record_received_message_id_def)

lemma session_ready_iff:
  "session_ready s = Inr () \<longleftrightarrow> \<not> pws_revoked s \<and> pws_negotiation s \<noteq> None \<and> pws_key_confirmed s"
  by (auto simp: session_ready_def require_capability_negotiation_def result_simps)

text \<open>
  The two sides of a receipt, for either kind of step: the receiver derives the classical key of
  the sender, and the rest is up to its post-quantum ratchet.
\<close>

lemma keys_agree:
  assumes "pairwise_laws E" "synced E s r" "sending_keys E secret fill s = (Inr (nc, key, header), c)"
    and "sealed_by c header msg" "pws_dh_epoch s \<noteq> - 1" "pws_sending_index s \<noteq> - 1"
    and "pws_pending_ratchet s \<longrightarrow> pw_public E secret \<noteq> pws_local_public s"
  obtains sent u where "send_key (pw_crypto E) (pw_scka E) fill (pws_sparse_pq s) = (Inr sent, pws_sparse_pq c)"
    "header = sent_header sent"
    "\<And>q. receive_key (pw_crypto E) (pw_scka E) (pws_sparse_pq r) header = (Inr (sent_message_key sent), q) \<Longrightarrow>
       receiving_keys E msg r = (Inr key, u\<lparr>pws_sparse_pq := q\<rparr>)"
    "\<And>e q. receive_key (pw_crypto E) (pw_scka E) (pws_sparse_pq r) header = (Inl e, q) \<Longrightarrow>
       receiving_keys E msg r = (Inl (SparsePqFailed e), u\<lparr>pws_sparse_pq := q\<rparr>)"
    "\<And>f x. synced E (finish_sending nc c) (record_received_message_id f (u\<lparr>pws_sparse_pq := x\<rparr>))"
proof -
  obtain t classical sent p where k: "prepare_sending_ratchet_for_send E secret s = (Inr (), t)"
    "advance_chain E (pws_sending_chain t) (pws_dh_epoch t) (pws_sending_index t) (ascii ''message'') = Inr (nc, classical)"
    "send_key (pw_crypto E) (pw_scka E) fill (pws_sparse_pq t) = (Inr sent, p)"
    "derive_hybrid_message_key (pw_crypto E) classical (sent_message_key sent) (utf8 (pws_session_id t)) = Inr key"
    "c = t\<lparr>pws_sparse_pq := p\<rparr>" "header = sent_header sent"
    by (rule sending_keys_Inr[OF assms(3)])
  note sync = assms(2)[unfolded synced_def half_def]
  have sealed: "pm_dh_epoch msg = pws_dh_epoch t" "pm_chain_index msg = pws_sending_index t"
    "pm_previous_length msg = pws_previous_length t" "pm_sender_key msg = pws_local_public t" "pm_pq_header msg = header"
    using assms(4) k(5) by (simp_all add: sealed_by_def)
  have public: "length (pw_public E a) = PUBLIC_KEY_LEN" "pw_dh E a (pw_public E b) = pw_dh E b (pw_public E a)" for a b
    using assms(1) by (simp_all add: pairwise_laws_def)
  have "pws_sparse_pq t = pws_sparse_pq s \<and> pws_session_id t = pws_session_id s"
    using k(1) by (auto simp: prepare_sending_ratchet_for_send_def split: if_splits elim!: rotated)
  then have same: "pws_sparse_pq t = pws_sparse_pq s" "pws_session_id t = pws_session_id r" using sync by simp_all
  obtain u where u: "message_key_for_open E msg r = (Inr classical, u)"
    and step: "pws_sparse_pq u = pws_sparse_pq r" "pws_session_id u = pws_session_id r"
      "\<And>f x. synced E (finish_sending nc c) (record_received_message_id f (u\<lparr>pws_sparse_pq := x\<rparr>))"
  proof (cases "pws_pending_ratchet s")
    case False
    then have t: "t = s" using k(1) by (simp add: prepare_sending_ratchet_for_send_def)
    have open_key: "message_key_for_open E msg r = (Inr classical, on_chain nc r)"
      using sync False public(1) k(2) by (intro key_in_chain) (simp_all add: sealed t)
    have "pm_chain_index msg \<noteq> - 1" using sealed t assms(6) by simp
    from message_key_receipt[OF open_key _ this] have "store_ok (on_chain nc r)" using sync by (simp add: receipt_def)
    then show thesis
      using sync False by (intro that[OF open_key]) (simp_all add: synced_def half_def session_ready_iff k(5) t,
        simp_all add: finish_sending_def on_chain_def record_received_message_id_def)
  next
    case True
    then have "rotate_sending_ratchet E secret s = (Inr (), t)" using k(1) by (simp add: prepare_sending_ratchet_for_send_def)
    then obtain dh root_k chain next_header where
      d: "diffie_hellman E secret (pws_remote_public s) = Inr dh"
        "derive_ratchet_root E (pws_root_key s) dh (pws_dh_epoch s + 1) = Inr (root_k, chain, next_header)"
      and t: "t = s\<lparr>pws_previous_length := pws_sending_index s, pws_local_secret := secret,
       pws_local_public := pw_public E secret, pws_root_key := root_k, pws_sending_chain := chain,
       pws_sending_header_key := pws_next_sending_header_key s, pws_next_sending_header_key := next_header,
       pws_dh_epoch := pws_dh_epoch s + 1, pws_sending_index := 0, pws_pending_ratchet := False\<rparr>"
      by (rule rotated)
    have dh: "diffie_hellman E (pws_local_secret r) (pw_public E secret) = Inr dh"
      using d(1) sync public by (auto simp: diffie_hellman_def parse_key_bytes_def result_simps Let_def)
    let ?u = "on_chain nc (on_new_chain (pm_sender_key msg) root_k chain next_header r)"
    have open_key: "message_key_for_open E msg r = (Inr classical, ?u)"
      using sync True public(1) k(2) d(2) dh assms(5,7) by (intro key_next_chain) (simp_all add: sealed t)
    have "pm_chain_index msg \<noteq> - 1" using sealed t by simp
    from message_key_receipt[OF open_key _ this] have u_ok: "store_ok ?u" using sync by (simp add: receipt_def)
    have "pws_dh_epoch s \<le> pws_dh_epoch s + 1" using next_epoch_unat[OF assms(5)] by (simp add: word_le_nat_alt)
    then have t_ok: "store_ok t" using sync by (auto simp: store_ok_def t)
    show thesis
      using sync True u_ok t_ok by (intro that[OF open_key]) (simp_all add: synced_def half_def session_ready_iff k(5),
        simp_all add: finish_sending_def t on_chain_def on_new_chain_def sealed record_received_message_id_def)
  qed
  have "receiving_keys E msg r = (Inr key, u\<lparr>pws_sparse_pq := q\<rparr>)"
    if "receive_key (pw_crypto E) (pw_scka E) (pws_sparse_pq r) header = (Inr (sent_message_key sent), q)" for q
    using that u step(1,2) sealed(5) k(4) same by (simp add: receiving_keys_def pq_receive_key_def)
  moreover have "receiving_keys E msg r = (Inl (SparsePqFailed e), u\<lparr>pws_sparse_pq := q\<rparr>)"
    if "receive_key (pw_crypto E) (pw_scka E) (pws_sparse_pq r) header = (Inl e, q)" for e q
    using that u step(1) sealed(5) by (simp add: receiving_keys_def pq_receive_key_def)
  ultimately show thesis using step(3) k(3,5,6) same(1) by (intro that[of sent u]) simp_all
qed

end
