(* ===== verification/Pairwise_Delivery.thy ===== *)
theory Pairwise_Delivery
  imports Pairwise_Sync Spq_Network
begin

text \<open>
  Delivery between two sessions in step: what a seal went through, and that the peer accepts
  and opens the message it made.
\<close>

section \<open>Sealed messages\<close>

lemma append_pairwise_fieldE:
  assumes "append_pairwise_field out v = Inr out'"
  obtains "length v < 2 ^ 32" "out' = out @ u32_to_be (of_nat (length v)) @ v"
  using assms by (auto simp: append_pairwise_field_def result_simps)

lemma message_binding_simps [simp]:
  "append_message_binding E magic (m\<lparr>pm_encrypted_header := h\<rparr>) = append_message_binding E magic m"
  "append_message_binding E magic (m\<lparr>pm_ciphertext_size := n\<rparr>) = append_message_binding E magic m"
  "append_message_binding E magic (m\<lparr>pm_ciphertext := c\<rparr>) = append_message_binding E magic m"
  by (simp_all add: append_message_binding_def)

lemma message_aad_simps [simp]:
  "message_aad E (m\<lparr>pm_ciphertext_size := n\<rparr>) = message_aad E m"
  "message_aad E (m\<lparr>pm_ciphertext := c\<rparr>) = message_aad E m"
  by (simp_all add: message_aad_def)

lemma message_binding_header:
  assumes "append_message_binding E magic m = Inr out"
  shows "\<exists>h. sparse_pq_header_bytes E (pm_pq_header m) = Inr h"
  using assms unfolding append_message_binding_def Let_def by (elim and_thenE) blast

lemma seal_message_InrE:
  assumes "seal_message E secret fill nonce mid body s = (Inr msg, s')"
  obtains nc key header c aad ct where
    "sending_keys E secret fill s = (Inr (nc, key, header), c)" "s' = finish_sending nc c"
    "session_ready s = Inr ()" "validate_message_id mid = Inr ()"
    "message_aad E (unsealed_message c mid header (cc_base64 (pw_content E) nonce)) = Inr aad"
    "cc_encrypt (pw_content E) key nonce aad body = Some ct"
    "msg = (unsealed_message c mid header (cc_base64 (pw_content E) nonce))
       \<lparr>pm_ciphertext_size := length ct, pm_ciphertext := cc_base64 (pw_content E) ct\<rparr>"
proof -
  have mid: "m = mid" if "require_pairwise_text mid ''message id'' = Inr m" for m
    using that by (auto simp: require_pairwise_text_def result_simps)
  show thesis
    using assms unfolding seal_message_def seal_message_with_nonce_def pairwise_try_clone_eq Let_def
    by (elim st_tryE st_ensureE) (auto simp: commit_Inr_iff result_simps Let_def split: prod.splits dest!: mid intro: that)
qed

lemma base64_within: "content_laws cc \<Longrightarrow> length bs \<le> n \<Longrightarrow> n < 2 ^ 60 \<Longrightarrow> str_len (cc_base64 cc bs) \<le> pairwise_encoded_limit n"
proof -
  assume "content_laws cc" "length bs \<le> n" "n < 2 ^ 60"
  have "(4 * length bs + 2) div 3 \<le> (n + 2) div 3 * 4" using \<open>length bs \<le> n\<close> by linarith
  moreover have "(n + 2) div 3 * 4 \<le> 2 ^ 64 - 1" using \<open>n < 2 ^ 60\<close> by simp
  ultimately show ?thesis
    using content_lawsD(2)[OF \<open>content_laws cc\<close>] by (simp add: pairwise_encoded_limit_def)
qed

lemma sealed_by_unsealed [simp]: "sealed_by c header (unsealed_message c mid header h)"
  "sealed_by c header (m\<lparr>pm_ciphertext_size := n\<rparr>) = sealed_by c header m"
  "sealed_by c header (m\<lparr>pm_ciphertext := ct\<rparr>) = sealed_by c header m"
  "sealed_by c header (m\<lparr>pm_encrypted_header := h\<rparr>) = sealed_by c header m"
  by (simp_all add: sealed_by_def unsealed_message_def)

lemma sending_identity:
  assumes "sending_keys E secret fill s = (Inr (nc, key, header), c)"
  shows "pws_session_id c = pws_session_id s" "pws_local_endpoint c = pws_local_endpoint s"
    "pws_remote_endpoint c = pws_remote_endpoint s"
  using assms by (auto simp: prepare_sending_ratchet_for_send_def split: if_splits elim!: sending_keys_Inr rotated)

text \<open>The peer's checks on the envelope of such a message.\<close>

lemma peer_accepts:
  assumes "synced E s r" "sending_keys E secret fill s = (Inr (nc, key, header), c)" "validate_message_id mid = Inr ()"
    and "append_message_binding E magic (unsealed_message c mid header h) = Inr out"
    and "0 < length ct" "length ct \<le> MAX_CIPHERTEXT_BYTES" "content_laws (pw_content E)"
    and "str_len h \<le> pairwise_encoded_limit MAX_CONTENT_ENCRYPTED_HEADER_BYTES"
    and "msg = (unsealed_message c mid header h)\<lparr>pm_ciphertext_size := length ct, pm_ciphertext := cc_base64 (pw_content E) ct\<rparr>"
  shows "ensure_message_for_session E r msg = Inr ()"
proof -
  have "pws_session_id c = pws_session_id r" "pws_local_endpoint c = pws_remote_endpoint r"
    "pws_remote_endpoint c = pws_local_endpoint r"
    using assms(1) sending_identity[OF assms(2)] by (simp_all add: synced_def)
  moreover obtain hb where "sparse_pq_header_bytes E header = Inr hb"
    using message_binding_header[OF assms(4)] by (auto simp: unsealed_message_def)
  moreover have "str_len (cc_base64 (pw_content E) ct) \<le> pairwise_encoded_limit MAX_CIPHERTEXT_BYTES"
    using assms(6,7) by (intro base64_within) (simp_all add: MAX_CIPHERTEXT_BYTES_def)
  ultimately show ?thesis
    using assms(3,5,6,8) by (simp add: assms(9) ensure_message_for_session_def unsealed_message_def)
qed

lemma append_pairwise_field_iff:
  "append_pairwise_field out v = Inr out' \<longleftrightarrow> length v < 2 ^ 32 \<and> out' = out @ field v"
  by (auto simp: append_pairwise_field_def result_simps field_def)

definition bound_strings :: "pairwise_message \<Rightarrow> rstr list" where
  "bound_strings m = [pm_protocol_version m, pm_cipher_suite m, pm_session_id m, pm_message_id m, pm_sender m, pm_recipient m]"

lemma message_binding_iff:
  "append_message_binding E magic m = Inr out \<longleftrightarrow> (\<forall>t\<in>set (bound_strings m). length (utf8 t) < 2 ^ 32)
     \<and> length (pm_sender_key m) < 2 ^ 32
     \<and> (\<exists>header. sparse_pq_header_bytes E (pm_pq_header m) = Inr header \<and> length header < 2 ^ 32
         \<and> out = magic @ field (utf8 (pm_protocol_version m)) @ field (utf8 (pm_cipher_suite m))
             @ field (utf8 (pm_session_id m)) @ field (utf8 (pm_message_id m)) @ field (utf8 (pm_sender m))
             @ field (utf8 (pm_recipient m)) @ u64_to_be (pm_dh_epoch m) @ u64_to_be (pm_chain_index m)
             @ u64_to_be (pm_previous_length m) @ field (pm_sender_key m) @ field header)"
  by (auto simp: append_message_binding_def Let_def result_simps append_pairwise_field_iff bound_strings_def)

lemma hash_text_short: "content_laws cc \<Longrightarrow> str_len (hash_bytes cc bs) \<le> 300"
proof -
  assume "content_laws cc"
  have "length (hex_encode xs) = 2 * length xs" for xs by (induction xs) (simp_all add: hex_encode_def)
  then have "length (hash_bytes cc bs) \<le> 75"
    using content_lawsD(3)[OF \<open>content_laws cc\<close>] by (simp add: hash_bytes_def lit_def)
  then show ?thesis by (intro order.trans[OF str_len_bound]) simp
qed

lemma fingerprint_total:
  assumes "content_laws (pw_content E)" "validate_message_id (pm_message_id m) = Inr ()"
    and "length (pm_sender_key m) = PUBLIC_KEY_LEN" "append_message_binding E magic m = Inr out"
  shows "\<exists>f. message_replay_fingerprint E m = Inr f"
proof -
  have "length (utf8 (hash_bytes (pw_content E) bs)) < 2 ^ 32" for bs
    using hash_text_short[OF assms(1), of bs] by (simp add: str_len_def)
  then show ?thesis
    using assms(2-4)
    by (auto simp: message_replay_fingerprint_def Let_def result_simps append_pairwise_field_iff message_binding_iff
        bound_strings_def parse_key_bytes_def)
qed

text \<open>
  The post-quantum ratchets of the two sessions are the parties of a network, over primitives that
  keep their documented laws; and the conditions on a send: the counters have room, a new
  ratchet key differs from the old one, the randomness source fills its buffers.
\<close>

definition braid_laws :: "session pairwise_env \<Rightarrow> bool" where
  "braid_laws E \<longleftrightarrow> pw_scka E = braid_scka (pw_crypto E) \<and> crypto_sizes (pw_crypto E) \<and> kem_correct (pw_crypto E)"

definition linked ::
    "session pairwise_env \<Rightarrow> ('p, 'n, session) pairwise_session \<Rightarrow> ('p, 'n, session) pairwise_session \<Rightarrow> bool" where
  "linked E s r \<longleftrightarrow> net_pair (pw_crypto E) (pws_sparse_pq s) (pws_sparse_pq r)"

definition can_send :: "'s pairwise_env \<Rightarrow> bytes \<Rightarrow> (nat \<Rightarrow> bytes) \<Rightarrow> ('p, 'n, 's) pairwise_session \<Rightarrow> bool" where
  "can_send E secret fill s \<longleftrightarrow> pws_dh_epoch s \<noteq> - 1 \<and> pws_sending_index s \<noteq> - 1
     \<and> (pws_pending_ratchet s \<longrightarrow> pw_public E secret \<noteq> pws_local_public s) \<and> (\<forall>n. length (fill n) = n)"

definition paired :: "session pairwise_env \<Rightarrow> ('p, 'n, session) pairwise_session \<Rightarrow> ('p, 'n, session) pairwise_session \<Rightarrow> bool" where
  "paired E s r \<longleftrightarrow> synced E s r \<and> linked E s r"

lemma paired_sym: "paired E s r \<longleftrightarrow> paired E r s"
  using synced_sym net_pair_sym unfolding paired_def linked_def by blast

text \<open>What the post-quantum ratchet of the receiver says to the header of a message.\<close>

definition pq_verdict :: "'s pairwise_env \<Rightarrow> ('p, 'n, 's) pairwise_session \<Rightarrow> pairwise_message \<Rightarrow> bytes spq_result" where
  "pq_verdict E r msg = fst (receive_key (pw_crypto E) (pw_scka E) (pws_sparse_pq r) (pm_pq_header msg))"

lemma receiving_outcome:
  assumes "pairwise_laws E" "braid_laws E" "paired E s r" "can_send E secret fill s"
    and "sending_keys E secret fill s = (Inr (nc, key, header), c)" "sealed_by c header msg"
  obtains (refused) e t where "pq_verdict E r msg = Inl e" "receiving_keys E msg r = (Inl (SparsePqFailed e), t)"
    | (accepted) k t where "pq_verdict E r msg = Inr k" "receiving_keys E msg r = (Inr key, t)"
      "\<And>f. paired E (finish_sending nc c) (record_received_message_id f t)"
proof -
  let ?c = "pw_crypto E" and ?ops = "pw_scka E"
  have sy: "synced E s r" and link: "net_pair ?c (pws_sparse_pq s) (pws_sparse_pq r)"
    using assms(3) by (simp_all add: paired_def linked_def)
  have send: "pws_dh_epoch s \<noteq> - 1" "pws_sending_index s \<noteq> - 1"
      "pws_pending_ratchet s \<longrightarrow> pw_public E secret \<noteq> pws_local_public s" and fill: "\<And>n. length (fill n) = n"
    using assms(4) by (simp_all add: can_send_def)
  have laws: "?ops = braid_scka ?c" "crypto_sizes ?c" "kem_correct ?c" using assms(2) by (simp_all add: braid_laws_def)
  have header: "pm_pq_header msg = header" using assms(6) by (simp add: sealed_by_def)
  obtain sent u where K: "send_key ?c ?ops fill (pws_sparse_pq s) = (Inr sent, pws_sparse_pq c)" "header = sent_header sent"
    "\<And>q. receive_key ?c ?ops (pws_sparse_pq r) header = (Inr (sent_message_key sent), q) \<Longrightarrow>
       receiving_keys E msg r = (Inr key, u\<lparr>pws_sparse_pq := q\<rparr>)"
    "\<And>e q. receive_key ?c ?ops (pws_sparse_pq r) header = (Inl e, q) \<Longrightarrow>
       receiving_keys E msg r = (Inl (SparsePqFailed e), u\<lparr>pws_sparse_pq := q\<rparr>)"
    "\<And>f x. synced E (finish_sending nc c) (record_received_message_id f (u\<lparr>pws_sparse_pq := x\<rparr>))"
    by (rule keys_agree[OF assms(1) sy assms(5,6) send]) (rule that; blast)
  obtain v q where v: "receive_key ?c ?ops (pws_sparse_pq r) header = (v, q)"
    by (cases "receive_key ?c ?ops (pws_sparse_pq r) header")
  show thesis
  proof (cases v)
    case (Inl e)
    then show thesis using refused K(4) v by (simp add: pq_verdict_def header)
  next
    case (Inr k)
    have "k = sent_message_key sent \<and> net_pair ?c (pws_sparse_pq c) q"
      by (rule net_pair_delivers[OF laws(2,3) link fill K(1)[unfolded laws(1)]]) (use v Inr K(2) laws(1) in simp)
    then have "receiving_keys E msg r = (Inr key, u\<lparr>pws_sparse_pq := q\<rparr>)"
      "\<And>f. paired E (finish_sending nc c) (record_received_message_id f (u\<lparr>pws_sparse_pq := q\<rparr>))"
      using K(3,5) v Inr by (simp_all add: paired_def linked_def finish_sending_def record_received_message_id_def)
    then show thesis using accepted v Inr by (simp add: pq_verdict_def header)
  qed
qed

text \<open>The sender key of a sealed message, whether or not its seal has stepped the ratchet.\<close>

lemma sealed_sender_key:
  assumes "pairwise_laws E" "synced E s r" "sending_keys E secret fill s = (Inr (nc, key, header), c)" "sealed_by c header msg"
  shows "length (pm_sender_key msg) = PUBLIC_KEY_LEN"
proof -
  have local: "\<exists>a. pws_local_public s = pw_public E a" using assms(2) unfolding synced_def half_def by blast
  obtain t x where t: "prepare_sending_ratchet_for_send E secret s = (Inr (), t)" "c = t\<lparr>pws_sparse_pq := x\<rparr>"
    by (rule sending_keys_Inr[OF assms(3)])
  have "\<exists>a. pws_local_public t = pw_public E a"
  proof (cases "pws_pending_ratchet s")
    case True
    then have "rotate_sending_ratchet E secret s = (Inr (), t)" using t(1) by (simp add: prepare_sending_ratchet_for_send_def)
    then show ?thesis by (rule rotated) auto
  next
    case False
    then show ?thesis using local t(1) by (simp add: prepare_sending_ratchet_for_send_def)
  qed
  then show ?thesis using assms(1,4) t(2) by (auto simp: sealed_by_def pairwise_laws_def)
qed

lemma message_delivered:
  assumes "pairwise_laws E" "braid_laws E" "paired E s r" "can_send E secret fill s"
    and "seal_message E secret fill nonce mid body s = (Inr msg, s')"
    and "length nonce = NONCE_LEN" "length body + AEAD_TAG_LEN \<le> MAX_CIPHERTEXT_BYTES"
    and "message_replay_fingerprint E msg \<notin> Inr ` set (pws_received_ids r)"
  shows "case pq_verdict E r msg of
      Inl e \<Rightarrow> open_message E msg r = (Inl (SparsePqFailed e), r)
    | Inr _ \<Rightarrow> \<exists>r'. open_message E msg r = (Inr \<lparr>om_message_id = mid, om_sender = pws_local_endpoint s, om_body = body\<rparr>, r')
        \<and> paired E s' r'"
proof -
  let ?b64 = "cc_base64 (pw_content E)"
  obtain nc key header c aad ct where keys: "sending_keys E secret fill s = (Inr (nc, key, header), c)"
    and seal: "s' = finish_sending nc c" "validate_message_id mid = Inr ()"
      "message_aad E (unsealed_message c mid header (?b64 nonce)) = Inr aad"
      "cc_encrypt (pw_content E) key nonce aad body = Some ct"
    and msg: "msg = (unsealed_message c mid header (?b64 nonce))\<lparr>pm_ciphertext_size := length ct, pm_ciphertext := ?b64 ct\<rparr>"
    by (rule seal_message_InrE[OF assms(5)])
  have sy: "synced E s r" using assms(3) by (simp add: paired_def)
  have laws: "content_laws (pw_content E)" using assms(1) by (simp add: pairwise_laws_def)
  note L = content_lawsD[OF laws]
  have size: "length ct = length body + 16" by (rule L(4)[OF seal(4)])
  obtain out where binding: "append_message_binding E MESSAGE_AAD_MAGIC (unsealed_message c mid header (?b64 nonce)) = Inr out"
    using seal(3) unfolding message_aad_def by (elim and_thenE)
  note binding
  moreover have "str_len (?b64 nonce) \<le> pairwise_encoded_limit MAX_CONTENT_ENCRYPTED_HEADER_BYTES"
    using assms(6) by (intro base64_within[OF laws]) (simp_all add: NONCE_LEN_def MAX_CONTENT_ENCRYPTED_HEADER_BYTES_def)
  ultimately have accepts: "ensure_message_for_session E r msg = Inr ()"
    using assms(7) size by (intro peer_accepts[OF sy keys seal(2) _ _ _ laws _ msg]) (simp_all add: AEAD_TAG_LEN_def)
  have sealed_by: "sealed_by c header msg" by (simp add: msg)
  have "length (pm_sender_key msg) = PUBLIC_KEY_LEN" by (rule sealed_sender_key[OF assms(1) sy keys sealed_by])
  moreover have "validate_message_id (pm_message_id msg) = Inr ()" using seal(2) by (simp add: msg unsealed_message_def)
  ultimately obtain f where f: "message_replay_fingerprint E msg = Inr f"
    using fingerprint_total[OF laws, of msg] binding by (auto simp: msg)
  then have new: "f \<notin> set (pws_received_ids r)" using assms(8) by force
  have fields: "pm_ciphertext msg = ?b64 ct" "pm_ciphertext_size msg = length ct" "pm_encrypted_header msg = ?b64 nonce"
    "pm_message_id msg = mid" "pm_sender msg = pws_local_endpoint s" "message_aad E msg = Inr aad"
    using seal(3) sending_identity[OF keys] by (simp_all add: msg) (simp_all add: unsealed_message_def)
  note opens = open_message_def synced_def fields commit_def
  show ?thesis
  proof (rule receiving_outcome[OF assms(1-4) keys sealed_by])
    fix e t assume "pq_verdict E r msg = Inl e" "receiving_keys E msg r = (Inl (SparsePqFailed e), t)"
    then show ?thesis using sy assms(6) f new accepts L(1) by (simp add: opens)
  next
    fix k t assume a: "pq_verdict E r msg = Inr k" "receiving_keys E msg r = (Inr key, t)"
      "\<And>f. paired E (finish_sending nc c) (record_received_message_id f t)"
    then have "open_message E msg r
        = (Inr \<lparr>om_message_id = mid, om_sender = pws_local_endpoint s, om_body = body\<rparr>, record_received_message_id f t)"
      using sy assms(6) f new accepts L(1) L(5)[OF seal(4)] by (simp add: opens)
    then show ?thesis using a(1,3) by (simp add: seal(1))
  qed
qed

section \<open>Sealed payloads\<close>

lemma seal_payload_InrE:
  assumes "pairwise_seal_payload_with_extra_aad E secret fill nonce ctx pt extra s = (Inr msg, s')"
  obtains nc key header c aad sealed where
    "sending_keys E secret fill s = (Inr (nc, key, header), c)" "s' = finish_sending nc c"
    "ensure_pairwise_context_for_send s ctx = Inr ()"
    "combine_pairwise_and_extra_aad E (unsealed_message c (message_id ctx) header []) extra = Inr aad"
    "seal_payload_with_aad_binding (pw_content E) nonce (content_key_from_bytes key) ctx pt aad = Inr sealed"
    "msg = (unsealed_message c (message_id ctx) header (sp_encrypted_header sealed))
       \<lparr>pm_ciphertext_size := sp_ciphertext_size sealed, pm_ciphertext := sp_ciphertext sealed\<rparr>"
proof -
  from assms obtain nc key header c where keys: "sending_keys E secret fill s = (Inr (nc, key, header), c)"
    and ctx: "ensure_pairwise_context_for_send s ctx = Inr ()"
    and rest: "st_try (combine_pairwise_and_extra_aad E (unsealed_message c (message_id ctx) header []) extra) c (\<lambda>combined_aad.
     st_try (map_err ContentFailed
       (seal_payload_with_aad_binding (pw_content E) nonce (content_key_from_bytes key) ctx pt combined_aad)) c (\<lambda>sealed.
     (Inr ((unsealed_message c (message_id ctx) header [])\<lparr>pm_encrypted_header := sp_encrypted_header sealed,
            pm_ciphertext := sp_ciphertext sealed, pm_ciphertext_size := sp_ciphertext_size sealed\<rparr>),
      finish_sending nc c))) = (Inr msg, s')"
    unfolding pairwise_seal_payload_with_extra_aad_def pairwise_try_clone_eq Let_def commit_Inr_iff
    by (auto elim!: st_tryE st_bindE simp: commit_Inr_iff split: prod.splits)
  from rest show thesis
    by (elim st_tryE) (rule that[OF keys _ ctx], auto simp: map_err_Inr_iff unsealed_message_def)
qed

lemma payload_delivered:
  assumes "pairwise_laws E" "braid_laws E" "paired E s r" "can_send E secret fill s"
    and "pairwise_seal_payload_with_extra_aad E secret fill nonce ctx pt extra s = (Inr msg, s')"
    and "length nonce = CONTENT_NONCE_LEN" "context_strings ctx" "pred_option valid_str (pt_content_type pt)"
    and "message_replay_fingerprint E msg \<notin> Inr ` set (pws_received_ids r)"
  shows "case pq_verdict E r msg of
      Inl e \<Rightarrow> pairwise_open_payload_with_extra_aad E ctx msg (pt_kind pt) extra r = (Inl (SparsePqFailed e), r)
    | Inr _ \<Rightarrow> \<exists>r'. pairwise_open_payload_with_extra_aad E ctx msg (pt_kind pt) extra r = (Inr (opened_of ctx pt), r')
        \<and> paired E s' r'"
proof -
  obtain nc key header c aad sealed where keys: "sending_keys E secret fill s = (Inr (nc, key, header), c)"
    and seal: "s' = finish_sending nc c" "ensure_pairwise_context_for_send s ctx = Inr ()"
      "combine_pairwise_and_extra_aad E (unsealed_message c (message_id ctx) header []) extra = Inr aad"
      "seal_payload_with_aad_binding (pw_content E) nonce (content_key_from_bytes key) ctx pt aad = Inr sealed"
    and msg: "msg = (unsealed_message c (message_id ctx) header (sp_encrypted_header sealed))
       \<lparr>pm_ciphertext_size := sp_ciphertext_size sealed, pm_ciphertext := sp_ciphertext sealed\<rparr>"
    by (rule seal_payload_InrE[OF assms(5)])
  have sy: "synced E s r" using assms(3) by (simp add: paired_def)
  have laws: "content_laws (pw_content E)" using assms(1) by (simp add: pairwise_laws_def)
  obtain hb where hb: "length hb \<le> 1024" "sp_encrypted_header sealed = cc_base64 (pw_content E) hb"
    and ct: "\<exists>ct. sp_ciphertext sealed = cc_base64 (pw_content E) ct \<and> sp_ciphertext_size sealed = length ct
      \<and> 0 < length ct \<and> length ct \<le> MAX_CIPHERTEXT_BYTES"
    and suite: "sp_protocol_version sealed = SECURE_MESH_PROTOCOL_VERSION" "sp_cipher_suite sealed = SECURE_MESH_CONTENT_CIPHER_SUITE"
  proof -
    obtain derived encoded padded ciphertext where
      "validate_context ctx = Inr ()" "validate_plaintext pt = Inr ()" "length aad \<le> MAX_ADDITIONAL_AAD_BYTES"
      "derive_aead_key (pw_content E) (content_key_from_bytes key) ctx (pt_kind pt) (aad_bytes ctx (pt_kind pt) aad) = Inr derived"
      "encode_plaintext ctx pt = Inr encoded"
      and padded: "add_bucket_padding encoded = Inr padded"
      and cipher: "cc_encrypt (pw_content E) derived nonce (aad_bytes ctx (pt_kind pt) aad) padded = Some ciphertext"
      and sealed: "sealed = \<lparr>sp_protocol_version = SECURE_MESH_PROTOCOL_VERSION, sp_cipher_suite = SECURE_MESH_CONTENT_CIPHER_SUITE,
         sp_encrypted_header = encode_header (pw_content E) nonce (cc_sha256 (pw_content E) (aad_bytes ctx (pt_kind pt) aad)),
         sp_ciphertext = cc_base64 (pw_content E) ciphertext, sp_ciphertext_size = length ciphertext\<rparr>"
      by (rule seal_payload_Inr[OF seal(4)])
    from padded_size[OF padded] obtain b where "bucket b" "length padded + 16 = b" by blast
    then have "0 < length ciphertext" "length ciphertext \<le> MAX_CIPHERTEXT_BYTES"
      using content_lawsD(4)[OF laws cipher] by (auto simp: bucket_iff MAX_CIPHERTEXT_BYTES_def)
    then show thesis
      using assms(6) content_lawsD(3)[OF laws]
      by (intro that[of "HEADER_MAGIC @ nonce @ cc_sha256 (pw_content E) (aad_bytes ctx (pt_kind pt) aad)"])
        (auto simp: sealed encode_header_def HEADER_MAGIC_def ascii_def CONTENT_NONCE_LEN_def)
  qed
  from ct obtain ct where ct: "sp_ciphertext sealed = cc_base64 (pw_content E) ct" "sp_ciphertext_size sealed = length ct"
    "0 < length ct" "length ct \<le> MAX_CIPHERTEXT_BYTES" by blast
  have ids: "session_id ctx = pws_session_id s" "sender_endpoint_id ctx = pws_local_endpoint s"
    "recipient_endpoint_id ctx = pws_remote_endpoint s" "validate_message_id (message_id ctx) = Inr ()"
    using seal(2) by (auto simp: ensure_pairwise_context_for_send_def result_simps)
  have combined: "combine_pairwise_and_extra_aad E msg extra = Inr aad"
  proof -
    have "append_message_binding E magic (unsealed_message c (message_id ctx) header x)
        = append_message_binding E magic (unsealed_message c (message_id ctx) header [])" for magic x
      by (simp add: append_message_binding_def unsealed_message_def)
    then have "append_message_binding E magic msg = append_message_binding E magic (unsealed_message c (message_id ctx) header [])"
      for magic by (metis msg message_binding_simps(2,3))
    then show ?thesis using seal(3) by (simp add: combine_pairwise_and_extra_aad_def pairwise_payload_aad_binding_def)
  qed
  obtain out where binding: "append_message_binding E PAYLOAD_AAD_BINDING_MAGIC
      (unsealed_message c (message_id ctx) header (sp_encrypted_header sealed)) = Inr out"
    using combined unfolding combine_pairwise_and_extra_aad_def pairwise_payload_aad_binding_def msg
    by (elim and_thenE) simp
  note binding
  moreover have "str_len (sp_encrypted_header sealed) \<le> pairwise_encoded_limit MAX_CONTENT_ENCRYPTED_HEADER_BYTES"
    using hb by (simp add: base64_within[OF laws] MAX_CONTENT_ENCRYPTED_HEADER_BYTES_def)
  ultimately have accepts: "ensure_message_for_session E r msg = Inr ()"
    by (intro peer_accepts[OF sy keys ids(4) _ ct(3,4) laws]) (simp_all add: msg ct(1,2))
  have sealed_by: "sealed_by c header msg" by (simp add: msg)
  have "length (pm_sender_key msg) = PUBLIC_KEY_LEN" by (rule sealed_sender_key[OF assms(1) sy keys sealed_by])
  moreover have "validate_message_id (pm_message_id msg) = Inr ()" using ids(4) by (simp add: msg unsealed_message_def)
  ultimately obtain f where f: "message_replay_fingerprint E msg = Inr f"
    using fingerprint_total[OF laws, of msg] binding by (auto simp: msg)
  then have new: "f \<notin> set (pws_received_ids r)" using assms(9) by force
  have fields: "pm_ciphertext msg = sp_ciphertext sealed" "pm_ciphertext_size msg = sp_ciphertext_size sealed"
    "pm_encrypted_header msg = sp_encrypted_header sealed" "pm_message_id msg = message_id ctx"
    "pm_sender msg = pws_local_endpoint s" "pm_recipient msg = pws_remote_endpoint s" "pm_session_id msg = pws_session_id s"
    using sending_identity[OF keys] by (simp_all add: msg) (simp_all add: unsealed_message_def)
  have context_ok: "ensure_pairwise_context_for_open r ctx msg = Inr ()"
    using sy ids by (simp add: ensure_pairwise_context_for_open_def fields synced_def)
  have same: "\<lparr>sp_protocol_version = SECURE_MESH_PROTOCOL_VERSION, sp_cipher_suite = SECURE_MESH_CONTENT_CIPHER_SUITE,
      sp_encrypted_header = sp_encrypted_header sealed, sp_ciphertext = sp_ciphertext sealed,
      sp_ciphertext_size = sp_ciphertext_size sealed\<rparr> = sealed"
    using suite by (cases sealed) simp
  note opens = pairwise_open_payload_with_extra_aad_def synced_def fields commit_def same Let_def
  show ?thesis
  proof (rule receiving_outcome[OF assms(1-4) keys sealed_by])
    fix e t assume "pq_verdict E r msg = Inl e" "receiving_keys E msg r = (Inl (SparsePqFailed e), t)"
    then show ?thesis using sy f new accepts context_ok by (simp add: opens)
  next
    fix k t assume a: "pq_verdict E r msg = Inr k" "receiving_keys E msg r = (Inr key, t)"
      "\<And>f. paired E (finish_sending nc c) (record_received_message_id f t)"
    then have "pairwise_open_payload_with_extra_aad E ctx msg (pt_kind pt) extra r
        = (Inr (opened_of ctx pt), record_received_message_id f t)"
      using sy f new accepts context_ok combined open_sealed[OF laws assms(6,7,8) seal(4)] by (simp add: opens)
    then show ?thesis using a(1,3) by (simp add: seal(1))
  qed
qed

end
