(* ===== verification/Pairwise_Limits.thy ===== *)
theory Pairwise_Limits
  imports Pairwise_Run
begin

text \<open>
  The limits of a session: the loop over skipped messages ends, a run is a trace of the window,
  and a store full of keys of lost messages stays full.
\<close>

section \<open>The loop ends\<close>

definition finishes :: "'a pairwise_result \<Rightarrow> bool" where
  "finishes r \<longleftrightarrow> r \<noteq> Inl SkipLoopUnfinished"

lemma finishes_intros:
  "finishes (Inr any)"
  "e \<noteq> SkipLoopUnfinished \<Longrightarrow> finishes (Inl e)"
  "e \<noteq> SkipLoopUnfinished \<Longrightarrow> finishes k \<Longrightarrow> finishes (ensure b e k)"
  "finishes r \<Longrightarrow> (\<And>x. r = Inr x \<Longrightarrow> finishes (f x)) \<Longrightarrow> finishes (and_then r f)"
  "e \<noteq> SkipLoopUnfinished \<Longrightarrow> finishes (ok_or e opt)"
  "(\<And>e. g e \<noteq> SkipLoopUnfinished) \<Longrightarrow> finishes (map_err g r')"
  "finishes r \<Longrightarrow> (\<And>x. r = Inr x \<Longrightarrow> finishes (fst (h x))) \<Longrightarrow> finishes (fst (st_try r s h))"
  "e \<noteq> SkipLoopUnfinished \<Longrightarrow> (b \<Longrightarrow> finishes (fst p)) \<Longrightarrow> finishes (fst (st_ensure b e s p))"
  "finishes (fst p) \<Longrightarrow> (\<And>x s. p = (Inr x, s) \<Longrightarrow> finishes (fst (c x s))) \<Longrightarrow> finishes (fst (st_bind p c))"
  "finishes (fst q) \<Longrightarrow> finishes (fst (commit s q))"
  by (auto simp: finishes_def ensure_def and_then_def ok_or_def map_err_def st_try_def st_ensure_def st_bind_def commit_def
      split: sum.splits option.splits prod.splits)

lemma finishes_parts:
  "finishes (append_pairwise_field out v)"
  "finishes (parse_key_bytes bs l)"
  "finishes (require_pairwise_text t l)"
  unfolding append_pairwise_field_def parse_key_bytes_def require_pairwise_text_def
  by (auto intro!: finishes_intros)

lemma finishes_checks:
  "finishes (validate_message_id t)"
  "finishes (sparse_pq_header_bytes E h)"
  "finishes (require_capability_negotiation s)"
  "finishes (diffie_hellman E k r)"
  "finishes (derive_ratchet_root E root_k dh e)"
  "finishes (advance_chain E key e i l)"
  unfolding validate_message_id_def sparse_pq_header_bytes_def require_capability_negotiation_def diffie_hellman_def
    derive_ratchet_root_def advance_chain_def Let_def
  by (auto intro!: finishes_intros finishes_parts)

lemma finishes_binding: "finishes (append_message_binding E magic m)"
  unfolding append_message_binding_def Let_def by (auto intro!: finishes_intros finishes_parts finishes_checks)

lemma finishes_envelope:
  "finishes (message_aad E m)"
  "finishes (combine_pairwise_and_extra_aad E m extra)"
  "finishes (message_replay_fingerprint E m)"
  "finishes (session_ready s)"
  "finishes (ensure_message_for_session E s m)"
  "finishes (ensure_pairwise_context_for_open s ctx m)"
  unfolding message_aad_def combine_pairwise_and_extra_aad_def pairwise_payload_aad_binding_def message_replay_fingerprint_def
    session_ready_def ensure_message_for_session_def ensure_pairwise_context_for_open_def Let_def
  by (auto intro!: finishes_intros finishes_parts finishes_checks finishes_binding)

lemma loop_finishes:
  "unat target - unat (pws_receiving_index s) \<le> fuel \<Longrightarrow> finishes (fst (store_skipped_loop fuel E e k target s))"
proof (induction fuel arbitrary: s)
  case 0
  then have "\<not> pws_receiving_index s < target" by (simp add: word_less_nat_alt)
  then show ?case by (simp add: finishes_intros)
next
  case (Suc fuel)
  show ?case
  proof (cases "pws_receiving_index s < target")
    case True
    then have "unat (pws_receiving_index s + 1) = Suc (unat (pws_receiving_index s))"
      by (intro next_epoch_unat) (metis word_order.extremum_strict)
    then have "finishes (fst (store_skipped_loop fuel E e k target (push_skipped_message_key x
        (s\<lparr>pws_receiving_chain := nc, pws_receiving_index := pws_receiving_index s + 1\<rparr>))))" for x nc
      using Suc.prems by (intro Suc.IH) (simp add: push_skipped_message_key_def)
    then show ?thesis
      using True by (auto simp: Let_def intro!: finishes_intros finishes_checks split: prod.splits)
  qed (simp add: finishes_intros)
qed

lemma guarded_loop_finishes:
  assumes "pws_receiving_index s \<le> target" "unat (target - pws_receiving_index s) \<le> MAX_SKIPPED_KEYS - n"
  shows "finishes (fst (store_skipped_loop MAX_SKIPPED_KEYS E e k target s))"
  using assms unat_diff[OF assms(1)] by (intro loop_finishes) simp

lemma advance_finishes: "finishes (fst (advance_receiving_chain_to E msg sender s))"
  unfolding advance_receiving_chain_to_def receive_remote_ratchet_def store_skipped_message_keys_until_def Let_def
  by (auto intro!: finishes_intros finishes_checks guarded_loop_finishes split: prod.splits)

lemma key_for_open_finishes: "finishes (fst (message_key_for_open E msg s))"
  unfolding message_key_for_open_def take_skipped_message_key_def
  by (auto intro!: finishes_intros finishes_parts advance_finishes split: option.splits)

lemma receiving_keys_finish: "finishes (fst (receiving_keys E msg s))"
  unfolding receiving_keys_def pq_receive_key_def
  by (auto intro!: finishes_intros key_for_open_finishes split: prod.splits)

lemma open_finishes:
  "finishes (fst (open_message E msg s))"
  "finishes (fst (pairwise_open_payload_with_extra_aad E ctx msg kind extra s))"
  unfolding open_message_def pairwise_open_payload_with_extra_aad_def pairwise_try_clone_eq Let_def
  by (auto intro!: finishes_intros finishes_envelope receiving_keys_finish)

section \<open>Runs are traces of the window\<close>

inductive window_trace :: "window \<Rightarrow> position list \<Rightarrow> window \<Rightarrow> bool" where
  trace_end: "window_trace w [] w"
| trace_receive: "receives w p w' \<Longrightarrow> window_trace w' ps w'' \<Longrightarrow> window_trace w (p # ps) w''"
| trace_forget: "window_trace (e, i, {}) ps w \<Longrightarrow> window_trace (e, i, G) ps w"

lemma step_refines:
  assumes "pairwise_step E op s = (new, s')" "session_ok opened s" "op_in_range op" "window_trace (window_of s') ps w"
  shows "window_trace (window_of s) (new @ ps) w"
proof (cases op)
  case (OpOpen msg)
  obtain r t where o: "open_message E msg s = (r, t)" by (cases "open_message E msg s")
  show ?thesis
  proof (cases r)
    case (Inl e)
    have "t = s" by (rule atomicD[OF open_message_atomic o[unfolded Inl]])
    then show ?thesis using assms(1,4) OpOpen o Inl by (simp add: pairwise_step_def opened_position_def)
  next
    case (Inr x)
    from open_message_Inr[OF o[unfolded Inr]] obtain key c f where
      k: "receiving_keys E msg s = (Inr key, c)" and t: "t = record_received_message_id f c" by blast
    have range: "pm_chain_index msg \<noteq> - 1" using assms(3) OpOpen by (simp add: op_in_range_def op_message_def)
    have "new = [message_position msg] \<and> s' = record_received_message_id f c"
      using assms(1) OpOpen o Inr t by (simp add: pairwise_step_def opened_position_def)
    then show ?thesis using trace_receive[OF opened_ok(3)[OF k assms(2) range, of f]] assms(4) by simp
  qed
next
  case (OpOpenPayload ctx msg kind extra)
  obtain r t where o: "pairwise_open_payload_with_extra_aad E ctx msg kind extra s = (r, t)"
    by (cases "pairwise_open_payload_with_extra_aad E ctx msg kind extra s")
  show ?thesis
  proof (cases r)
    case (Inl e)
    have "t = s" by (rule atomicD[OF open_payload_atomic o[unfolded Inl]])
    then show ?thesis using assms(1,4) OpOpenPayload o Inl by (simp add: pairwise_step_def opened_position_def)
  next
    case (Inr x)
    from pairwise_open_payload_Inr[OF o[unfolded Inr]] obtain key c f where
      k: "receiving_keys E msg s = (Inr key, c)" and t: "t = record_received_message_id f c" by blast
    have range: "pm_chain_index msg \<noteq> - 1" using assms(3) OpOpenPayload by (simp add: op_in_range_def op_message_def)
    have "new = [message_position msg] \<and> s' = record_received_message_id f c"
      using assms(1) OpOpenPayload o Inr t by (simp add: pairwise_step_def opened_position_def)
    then show ?thesis using trace_receive[OF opened_ok(3)[OF k assms(2) range, of f]] assms(4) by simp
  qed
next
  case OpRevoke
  then show ?thesis
    using assms(1,4) by (auto simp: pairwise_step_def revoke_session_def window_of_def intro: trace_forget)
next
  case (OpSeal secret fill nonce mid body)
  then show ?thesis using assms(1,4) seal_message_receiving[of s E secret fill nonce mid body]
    by (auto simp: pairwise_step_def same_receiving_def receiving_view_def window_of_def)
next
  case (OpSealPayload secret fill nonce ctx pt extra)
  then show ?thesis using assms(1,4) seal_payload_receiving[of s E secret fill nonce ctx pt extra]
    by (auto simp: pairwise_step_def same_receiving_def receiving_view_def window_of_def)
next
  case (OpRotate secret)
  then show ?thesis using assms(1,4) rotate_view[of E secret s]
    by (auto simp: pairwise_step_def receiving_view_def window_of_def)
qed

lemma epoch_not_max: "unat (e :: u64) + Suc n < 2 ^ 64 \<Longrightarrow> e \<noteq> - 1"
  by (auto simp: unsigned_minus_1_eq_mask mask_eq_exp_minus_1)

lemma run_refines:
  assumes "pairwise_run E ops s = (new, s')" "session_ok opened s" "\<forall>op\<in>set ops. op_in_range op"
    and "unat (pws_dh_epoch s) + length ops < 2 ^ 64"
  shows "window_trace (window_of s) new (window_of s')"
  using assms
proof (induction ops arbitrary: s new opened)
  case (Cons op ops)
  obtain n1 t where step: "pairwise_step E op s = (n1, t)" by (cases "pairwise_step E op s")
  obtain n2 where run: "pairwise_run E ops t = (n2, s')" and new: "new = n1 @ n2"
    using Cons.prems(1) step by (auto split: prod.splits)
  have range: "op_in_range op" using Cons.prems(3) by simp
  have "pws_dh_epoch s \<noteq> - 1" using Cons.prems(4) by (intro epoch_not_max[of _ "length ops"]) simp
  note one = pairwise_step_ok[OF step Cons.prems(2) range this]
  then have "unat (pws_dh_epoch t) + length ops < 2 ^ 64" using Cons.prems(4) by simp
  from Cons.IH[OF run _ _ this, of "set n1 \<union> opened"] one Cons.prems(3)
  have "window_trace (window_of t) n2 (window_of s')" by simp
  then show ?case unfolding new by (rule step_refines[OF step Cons.prems(2) range])
qed (simp add: trace_end)

end
