(* ===== verification/Pairwise_Binding.thy ===== *)
theory Pairwise_Binding
  imports Pairwise_Delivery Pairwise_Limits
begin

text \<open>
  What the associated data of a message binds, and messages a session can never open: those
  behind a store full of lost messages, and bodies that fill the last bytes of the limit.
\<close>

section \<open>Associated data\<close>

lemma field_cancel:
  assumes "length v < 2 ^ 32" "length w < 2 ^ 32"
  shows "field v @ s = field w @ t \<longleftrightarrow> v = w \<and> s = t"
proof -
  have "v = w \<and> s = t" if "field v @ s = field w @ t"
  proof -
    have "u32_to_be (of_nat (length v)) = u32_to_be (of_nat (length w)) \<and> v @ s = w @ t"
      using that by (simp add: field_def)
    then have "(of_nat (length v) :: u32) = of_nat (length w)" "v @ s = w @ t" by (metis u32_from_to_be)+
    moreover have "unat (of_nat (length v) :: u32) = length v" "unat (of_nat (length w) :: u32) = length w"
      using assms unat_of_length by (simp_all add: fits32_def)
    ultimately show ?thesis by (metis append_eq_append_conv)
  qed
  then show ?thesis by auto
qed

text \<open>What the model asks of the JSON library: one text for one header.\<close>

definition header_text_injective :: "'s pairwise_env \<Rightarrow> bool" where
  "header_text_injective E \<longleftrightarrow> (\<forall>h h' t. pw_header_text E h = Some t \<and> pw_header_text E h' = Some t \<longrightarrow> h = h')"

lemma sparse_pq_header_bytes_inj:
  "header_text_injective E \<Longrightarrow> sparse_pq_header_bytes E h = Inr b \<Longrightarrow> sparse_pq_header_bytes E h' = Inr b \<Longrightarrow> h = h'"
  by (auto simp: header_text_injective_def sparse_pq_header_bytes_def result_simps)

definition message_strings :: "pairwise_message \<Rightarrow> bool" where
  "message_strings m \<longleftrightarrow> (\<forall>t\<in>set (bound_strings m) \<union> {pm_encrypted_header m}. valid_str t)"

lemma u64_to_be_cancel: "u64_to_be a @ s = u64_to_be b @ t \<longleftrightarrow> a = b \<and> s = t"
  by (auto simp: u64_to_be_inject)

lemma message_binding_cancel:
  assumes "header_text_injective E" "message_strings m" "message_strings m'"
    and "append_message_binding E magic m = Inr out" "append_message_binding E magic m' = Inr out'"
    and "out @ s = out' @ t"
  shows "m\<lparr>pm_encrypted_header := [], pm_ciphertext := [], pm_ciphertext_size := 0\<rparr>
      = m'\<lparr>pm_encrypted_header := [], pm_ciphertext := [], pm_ciphertext_size := 0\<rparr> \<and> s = t"
proof -
  from assms(4) obtain h where h: "sparse_pq_header_bytes E (pm_pq_header m) = Inr h" "length h < 2 ^ 32"
    "\<forall>t\<in>set (bound_strings m). length (utf8 t) < 2 ^ 32" "length (pm_sender_key m) < 2 ^ 32"
    "out = magic @ field (utf8 (pm_protocol_version m)) @ field (utf8 (pm_cipher_suite m))
             @ field (utf8 (pm_session_id m)) @ field (utf8 (pm_message_id m)) @ field (utf8 (pm_sender m))
             @ field (utf8 (pm_recipient m)) @ u64_to_be (pm_dh_epoch m) @ u64_to_be (pm_chain_index m)
             @ u64_to_be (pm_previous_length m) @ field (pm_sender_key m) @ field h"
    by (auto simp: message_binding_iff)
  from assms(5) obtain h' where h': "sparse_pq_header_bytes E (pm_pq_header m') = Inr h'" "length h' < 2 ^ 32"
    "\<forall>t\<in>set (bound_strings m'). length (utf8 t) < 2 ^ 32" "length (pm_sender_key m') < 2 ^ 32"
    "out' = magic @ field (utf8 (pm_protocol_version m')) @ field (utf8 (pm_cipher_suite m'))
             @ field (utf8 (pm_session_id m')) @ field (utf8 (pm_message_id m')) @ field (utf8 (pm_sender m'))
             @ field (utf8 (pm_recipient m')) @ u64_to_be (pm_dh_epoch m') @ u64_to_be (pm_chain_index m')
             @ u64_to_be (pm_previous_length m') @ field (pm_sender_key m') @ field h'"
    by (auto simp: message_binding_iff)
  have same: "utf8 (pm_protocol_version m) = utf8 (pm_protocol_version m')" "utf8 (pm_cipher_suite m) = utf8 (pm_cipher_suite m')"
    "utf8 (pm_session_id m) = utf8 (pm_session_id m')" "utf8 (pm_message_id m) = utf8 (pm_message_id m')"
    "utf8 (pm_sender m) = utf8 (pm_sender m')" "utf8 (pm_recipient m) = utf8 (pm_recipient m')"
    "pm_dh_epoch m = pm_dh_epoch m'" "pm_chain_index m = pm_chain_index m'" "pm_previous_length m = pm_previous_length m'"
    "pm_sender_key m = pm_sender_key m'" "h = h'" "s = t"
    using assms(6) h(2-4) h'(2-4) unfolding h(5) h'(5)
    by (simp_all add: field_cancel u64_to_be_cancel bound_strings_def)
  have "pm_pq_header m = pm_pq_header m'" using sparse_pq_header_bytes_inj[OF assms(1) h(1)] h'(1) same(11) by simp
  moreover have "bound_strings m = bound_strings m'"
  proof (rule map_inj_on)
    show "map utf8 (bound_strings m) = map utf8 (bound_strings m')" using same(1-6) by (simp add: bound_strings_def)
    show "inj_on utf8 (set (bound_strings m) \<union> set (bound_strings m'))"
      using assms(2,3) by (intro inj_onI) (auto simp: message_strings_def intro: utf8_inj)
  qed
  ultimately show ?thesis using same(7-10,12) by (simp add: bound_strings_def)
qed

lemma message_aad_cancel:
  assumes "header_text_injective E" "message_strings m" "message_strings m'"
    and "message_aad E m = Inr a" "message_aad E m' = Inr a"
  shows "m\<lparr>pm_ciphertext := [], pm_ciphertext_size := 0\<rparr> = m'\<lparr>pm_ciphertext := [], pm_ciphertext_size := 0\<rparr>"
proof -
  obtain out out' where out: "append_message_binding E MESSAGE_AAD_MAGIC m = Inr out"
      "append_message_binding E MESSAGE_AAD_MAGIC m' = Inr out'"
    and eq: "out @ field (utf8 (pm_encrypted_header m)) = out' @ field (utf8 (pm_encrypted_header m'))"
    and short: "length (utf8 (pm_encrypted_header m)) < 2 ^ 32" "length (utf8 (pm_encrypted_header m')) < 2 ^ 32"
    using assms(4,5) by (auto simp: message_aad_def result_simps append_pairwise_field_iff)
  note same = message_binding_cancel[OF assms(1-3) out eq]
  have "utf8 (pm_encrypted_header m) = utf8 (pm_encrypted_header m')"
    using same field_cancel[OF short, of "[]" "[]"] by simp
  then have "pm_encrypted_header m = pm_encrypted_header m'"
    using assms(2,3) by (auto simp: message_strings_def intro: utf8_inj)
  then show ?thesis using same by (cases m; cases m') simp
qed

lemma combined_aad_cancel:
  assumes "header_text_injective E" "message_strings m" "message_strings m'"
    and "combine_pairwise_and_extra_aad E m x = Inr a" "combine_pairwise_and_extra_aad E m' x' = Inr a"
  shows "m\<lparr>pm_encrypted_header := [], pm_ciphertext := [], pm_ciphertext_size := 0\<rparr>
      = m'\<lparr>pm_encrypted_header := [], pm_ciphertext := [], pm_ciphertext_size := 0\<rparr> \<and> x = x'"
proof -
  obtain out out' where "append_message_binding E PAYLOAD_AAD_BINDING_MAGIC m = Inr out"
      "append_message_binding E PAYLOAD_AAD_BINDING_MAGIC m' = Inr out'" "out @ x = out' @ x'"
    using assms(4,5)
    by (auto simp: combine_pairwise_and_extra_aad_def pairwise_payload_aad_binding_def result_simps split: if_splits)
  then show ?thesis by (rule message_binding_cancel[OF assms(1-3)])
qed

lemma aad_kinds_differ: "\<not> (message_aad E m = Inr a \<and> combine_pairwise_and_extra_aad E m' x = Inr a)"
  by (auto simp: message_aad_def combine_pairwise_and_extra_aad_def pairwise_payload_aad_binding_def result_simps
      append_pairwise_field_iff message_binding_iff MESSAGE_AAD_MAGIC_def PAYLOAD_AAD_BINDING_MAGIC_def ascii_def)

section \<open>A store full of lost messages\<close>

text \<open>
  A message that leaves a gap behind: another message of its chain, or of the chain before it, has
  not been seen yet.
\<close>

definition leaves_gap :: "('p, 'n, 's) pairwise_session \<Rightarrow> pairwise_message \<Rightarrow> bool" where
  "leaves_gap s msg \<longleftrightarrow>
     (if pm_sender_key msg = pws_remote_public s then pws_receiving_index s < pm_chain_index msg
      else pws_receiving_index s < pm_previous_length msg \<or> 0 < pm_chain_index msg)"

definition stored_position :: "('p, 'n, 's) pairwise_session \<Rightarrow> position set" where
  "stored_position s = skipped_position ` set (pws_skipped s)"

lemma full_store_target:
  assumes "i \<le> t" "unat (t - i :: u64) \<le> 0"
  shows "t = i"
  using assms by (simp add: unat_diff word_unat_eq_iff word_le_nat_alt)

lemma full_store_key:
  assumes "message_key_for_open E msg s = (Inr key, t)" "length (pws_skipped s) = MAX_SKIPPED_KEYS"
    and "message_position msg \<notin> stored_position s"
  shows "pws_skipped t = pws_skipped s \<and> \<not> leaves_gap s msg"
proof -
  let ?k = "pm_sender_key msg"
  have none: "take_matching (skipped_matches (pm_dh_epoch msg) (pm_chain_index msg) ?k) (pws_skipped s) = None"
  proof (cases "take_matching (skipped_matches (pm_dh_epoch msg) (pm_chain_index msg) ?k) (pws_skipped s)")
    case (Some p)
    then obtain k rest where "take_matching (skipped_matches (pm_dh_epoch msg) (pm_chain_index msg) ?k) (pws_skipped s)
        = Some (k, rest)" by (cases p) simp
    from take_matching_Some[OF this] have "k \<in> set (pws_skipped s)" "skipped_position k = message_position msg"
      by (auto simp: skipped_matches_def skipped_position_def message_position_def)
    then show ?thesis using assms(3) by (metis image_eqI stored_position_def)
  qed simp
  have adv: "advance_receiving_chain_to E msg ?k s = (Inr key, t)"
    using assms(1) none by (auto simp: message_key_for_open_def take_skipped_message_key_def parse_key_bytes_def result_simps
        split: if_splits)
  show ?thesis
  proof (cases "?k = pws_remote_public s")
    case True
    then have "pws_receiving_index s \<le> pm_chain_index msg" "unat (pm_chain_index msg - pws_receiving_index s) \<le> 0"
      using adv assms(2) unfolding advance_receiving_chain_to_def Let_def by (auto simp: st_bind_Inr_iff st_ensure_Inr_iff)
    from full_store_target[OF this] have i: "pm_chain_index msg = pws_receiving_index s" .
    then show ?thesis
      using adv True unfolding advance_receiving_chain_to_def Let_def
      by (auto simp: result_simps leaves_gap_def)
  next
    case False
    obtain u where u: "receive_remote_ratchet E msg ?k s = (Inr (), u)"
      and guards: "pws_receiving_index u \<le> pm_chain_index msg"
        "unat (pm_chain_index msg - pws_receiving_index u) \<le> MAX_SKIPPED_KEYS - length (pws_skipped u)"
      and fin: "st_bind (store_skipped_loop MAX_SKIPPED_KEYS E (pm_dh_epoch msg) ?k (pm_chain_index msg) u) (\<lambda>_ s.
       st_try (advance_chain E (pws_receiving_chain s) (pm_dh_epoch msg) (pws_receiving_index s) (ascii ''message'')) s
         (\<lambda>(next_chain, key).
       (Inr key, s\<lparr>pws_receiving_chain := next_chain, pws_receiving_index := pws_receiving_index s + 1\<rparr>))) = (Inr key, t)"
      using adv False unfolding advance_receiving_chain_to_def Let_def
      by (auto simp: st_bind_Inr_iff[of "receive_remote_ratchet _ _ _ _"] st_ensure_Inr_iff)
    have before: "pws_receiving_index s \<le> pm_previous_length msg" "unat (pm_previous_length msg - pws_receiving_index s) \<le> 0"
      using u assms(2) unfolding receive_remote_ratchet_def store_skipped_message_keys_until_def Let_def
      by (auto elim!: st_bindE st_tryE st_ensureE)
    from full_store_target[OF this] have prev: "pm_previous_length msg = pws_receiving_index s" .
    have same: "pws_skipped u = pws_skipped s" "pws_receiving_index u = 0"
      using u unfolding receive_remote_ratchet_def store_skipped_message_keys_until_def Let_def prev
      by (auto elim!: st_bindE st_tryE st_ensureE)
    have "pm_chain_index msg = pws_receiving_index u"
      using guards same assms(2) by (intro full_store_target) simp_all
    then have i: "pm_chain_index msg = 0" "pm_chain_index msg = pws_receiving_index u" using same(2) by simp_all
    have "pws_skipped t = pws_skipped u" using fin unfolding i(2) by (auto simp: result_simps)
    then show ?thesis using same(1) prev False i(1) by (simp add: leaves_gap_def)
  qed
qed

lemma receiving_keys_full:
  assumes "receiving_keys E msg s = (Inr key, c)" "length (pws_skipped s) = MAX_SKIPPED_KEYS"
    and "message_position msg \<notin> stored_position s"
  shows "pws_skipped c = pws_skipped s \<and> \<not> leaves_gap s msg"
proof -
  obtain classical t q where "message_key_for_open E msg s = (Inr classical, t)" "c = t\<lparr>pws_sparse_pq := q\<rparr>"
    using receiving_keys_Inr[OF assms(1)] by blast
  then show ?thesis using full_store_key[OF _ assms(2,3)] by simp
qed

lemma full_store_refuses:
  assumes "length (pws_skipped s) = MAX_SKIPPED_KEYS" "message_position msg \<notin> stored_position s" "leaves_gap s msg"
  shows "\<exists>e. open_message E msg s = (Inl e, s)"
    and "\<exists>e. pairwise_open_payload_with_extra_aad E ctx msg kind extra s = (Inl e, s)"
proof -
  obtain r t where o: "open_message E msg s = (r, t)" by (cases "open_message E msg s")
  show "\<exists>e. open_message E msg s = (Inl e, s)"
  proof (cases r)
    case (Inl e)
    then show ?thesis using atomicD[OF open_message_atomic o[unfolded Inl]] o by simp
  next
    case (Inr x)
    from open_message_Inr[OF o[unfolded Inr]] obtain key c where "receiving_keys E msg s = (Inr key, c)" by blast
    then show ?thesis using receiving_keys_full[OF _ assms(1,2)] assms(3) by blast
  qed
  obtain r' t' where o': "pairwise_open_payload_with_extra_aad E ctx msg kind extra s = (r', t')"
    by (cases "pairwise_open_payload_with_extra_aad E ctx msg kind extra s")
  show "\<exists>e. pairwise_open_payload_with_extra_aad E ctx msg kind extra s = (Inl e, s)"
  proof (cases r')
    case (Inl e)
    then show ?thesis using atomicD[OF open_payload_atomic o'[unfolded Inl]] o' by simp
  next
    case (Inr x)
    from pairwise_open_payload_Inr[OF o'[unfolded Inr]] obtain key c where "receiving_keys E msg s = (Inr key, c)" by blast
    then show ?thesis using receiving_keys_full[OF _ assms(1,2)] assms(3) by blast
  qed
qed

lemma full_store_step:
  assumes "pairwise_step E op s = (new, s')" "length (pws_skipped s) = MAX_SKIPPED_KEYS" "op \<noteq> OpRevoke"
    and "set new \<inter> stored_position s = {}"
  shows "pws_skipped s' = pws_skipped s"
proof (cases op)
  case (OpOpen msg)
  obtain r t where o: "open_message E msg s = (r, t)" by (cases "open_message E msg s")
  show ?thesis
  proof (cases r)
    case (Inl e)
    then show ?thesis using atomicD[OF open_message_atomic o[unfolded Inl]] o assms(1) OpOpen by (simp add: pairwise_step_def)
  next
    case (Inr x)
    from open_message_Inr[OF o[unfolded Inr]] obtain key c f where
      k: "receiving_keys E msg s = (Inr key, c)" and t: "t = record_received_message_id f c" by blast
    have "new = [message_position msg] \<and> s' = t"
      using assms(1) OpOpen o Inr by (simp add: pairwise_step_def opened_position_def)
    then show ?thesis
      using receiving_keys_full[OF k assms(2)] assms(4) t by (simp add: record_received_message_id_def)
  qed
next
  case (OpOpenPayload ctx msg kind extra)
  obtain r t where o: "pairwise_open_payload_with_extra_aad E ctx msg kind extra s = (r, t)"
    by (cases "pairwise_open_payload_with_extra_aad E ctx msg kind extra s")
  show ?thesis
  proof (cases r)
    case (Inl e)
    then show ?thesis using atomicD[OF open_payload_atomic o[unfolded Inl]] o assms(1) OpOpenPayload by (simp add: pairwise_step_def)
  next
    case (Inr x)
    from pairwise_open_payload_Inr[OF o[unfolded Inr]] obtain key c f where
      k: "receiving_keys E msg s = (Inr key, c)" and t: "t = record_received_message_id f c" by blast
    have "new = [message_position msg] \<and> s' = t"
      using assms(1) OpOpenPayload o Inr by (simp add: pairwise_step_def opened_position_def)
    then show ?thesis
      using receiving_keys_full[OF k assms(2)] assms(4) t by (simp add: record_received_message_id_def)
  qed
next
  case (OpSeal secret fill nonce mid body)
  then show ?thesis using assms(1) seal_message_receiving[of s E secret fill nonce mid body]
    by (auto simp: pairwise_step_def same_receiving_def receiving_view_def)
next
  case (OpSealPayload secret fill nonce ctx pt extra)
  then show ?thesis using assms(1) seal_payload_receiving[of s E secret fill nonce ctx pt extra]
    by (auto simp: pairwise_step_def same_receiving_def receiving_view_def)
next
  case (OpRotate secret)
  then show ?thesis using assms(1) rotate_view[of E secret s] by (auto simp: pairwise_step_def receiving_view_def)
qed (use assms in simp)

lemma full_store_run:
  assumes "pairwise_run E ops s = (new, s')" "length (pws_skipped s) = MAX_SKIPPED_KEYS" "OpRevoke \<notin> set ops"
    and "set new \<inter> stored_position s = {}"
  shows "pws_skipped s' = pws_skipped s"
  using assms
proof (induction ops arbitrary: s new)
  case (Cons op ops)
  obtain n1 t where step: "pairwise_step E op s = (n1, t)" by (cases "pairwise_step E op s")
  obtain n2 where run: "pairwise_run E ops t = (n2, s')" and new: "new = n1 @ n2"
    using Cons.prems(1) step by (auto split: prod.splits)
  have "pws_skipped t = pws_skipped s"
    using Cons.prems new by (intro full_store_step[OF step]) auto
  moreover have "pws_skipped s' = pws_skipped t"
    using Cons.prems new calculation by (intro Cons.IH[OF run]) (auto simp: stored_position_def)
  ultimately show ?case by simp
qed simp

section \<open>The largest bodies\<close>

lemma oversized_refused:
  assumes "MAX_CIPHERTEXT_BYTES < pm_ciphertext_size msg"
  shows "\<exists>e. open_message E msg r = (Inl e, r)"
proof -
  obtain x t where o: "open_message E msg r = (x, t)" by (cases "open_message E msg r")
  show ?thesis
  proof (cases x)
    case (Inl e)
    then show ?thesis using atomicD[OF open_message_atomic o[unfolded Inl]] o by simp
  next
    case (Inr opened)
    from open_message_Inr[OF o[unfolded Inr]] have "ensure_message_for_session E r msg = Inr ()" by blast
    then show ?thesis using assms by (auto simp: ensure_message_for_session_def result_simps)
  qed
qed

end
