(* ===== verification/Pairwise_Samples.thy ===== *)
theory Pairwise_Samples
  imports Pairwise_Binding Content_Samples Spq_Network
begin

text \<open>
  Two concrete sessions in step, over the sample packages, the sample ratchets and their braid
  sessions, on which the theorems are applied. The sender is about to step its ratchet.
\<close>

definition sample_pw :: "session pairwise_env" where
  "sample_pw = \<lparr>pw_crypto = sample_crypto, pw_scka = braid_scka sample_crypto, pw_content = sample_cc,
     pw_public = pad 32, pw_dh = (\<lambda>_ _. replicate 32 7),
     pw_header_text = (\<lambda>h. if h = sent_header sample_sent1 then Some [1] else None)\<rparr>"

definition sample_pairwise ::
    "rstr \<Rightarrow> rstr \<Rightarrow> bytes \<Rightarrow> bytes \<Rightarrow> bool \<Rightarrow> session spq_ratchet \<Rightarrow> (unit, unit, session) pairwise_session" where
  "sample_pairwise local remote secret remote_secret pending pq =
     \<lparr>pws_session_id = lit ''s'', pws_local_endpoint = local, pws_remote_endpoint = remote, pws_role = PairwiseInitiator,
      pws_root_key = replicate 32 1, pws_sending_chain = replicate 32 2, pws_receiving_chain = replicate 32 2,
      pws_sending_header_key = replicate 32 3, pws_receiving_header_key = replicate 32 3,
      pws_next_sending_header_key = replicate 32 4, pws_next_receiving_header_key = replicate 32 4,
      pws_skipped_header_keys = [], pws_local_secret = secret, pws_local_public = pad 32 secret,
      pws_remote_public = pad 32 remote_secret, pws_transcript_hash = replicate 32 5, pws_dh_epoch = 0,
      pws_receiving_epoch = 0, pws_sending_index = 0, pws_receiving_index = 0, pws_previous_length = 0,
      pws_skipped = [], pws_received_ids = [], pws_pending_ratchet = pending, pws_key_confirmed = True,
      pws_local_proof = (), pws_negotiation = Some (), pws_sparse_pq = pq, pws_revoked = False\<rparr>"

definition sample_sender :: "(unit, unit, session) pairwise_session" where
  "sample_sender = sample_pairwise (lit ''from'') (lit ''to'') [1] [2] True sample_bob"

definition sample_receiver :: "(unit, unit, session) pairwise_session" where
  "sample_receiver = sample_pairwise (lit ''to'') (lit ''from'') [2] [1] False sample_alice"

abbreviation sample_fill :: "nat \<Rightarrow> bytes" where "sample_fill \<equiv> \<lambda>n. replicate n 7"

lemma sample_pw_laws: "pairwise_laws sample_pw"
  using sample_cc_laws by (simp add: pairwise_laws_def sample_pw_def PUBLIC_KEY_LEN_def)

lemma sample_fresh: "fresh_session sample_sender" "fresh_session sample_receiver"
  by (simp_all add: fresh_session_def sample_sender_def sample_receiver_def sample_pairwise_def)

lemma sample_synced: "synced sample_pw sample_sender sample_receiver"
  by (simp add: synced_def half_def session_ready_iff store_ok_def sample_sender_def sample_receiver_def
      sample_pairwise_def sample_pw_def)

lemma sample_pq:
  "send_key sample_crypto (braid_scka sample_crypto) sample_fill sample_bob = (Inr sample_sent1, sample_bob1)"
  "\<exists>r. receive_key sample_crypto (braid_scka sample_crypto) sample_alice (sent_header sample_sent1)
     = (Inr (sent_message_key sample_sent1), r)"
proof -
  have "fst (sample_receiving sample_alice (sent_header sample_sent1)) = Inr (sent_message_key sample_sent1)"
    by code_simp
  then show "\<exists>r. receive_key sample_crypto (braid_scka sample_crypto) sample_alice (sent_header sample_sent1)
     = (Inr (sent_message_key sample_sent1), r)"
    unfolding sample_receiving_def by (metis prod.collapse)
  show "send_key sample_crypto (braid_scka sample_crypto) sample_fill sample_bob = (Inr sample_sent1, sample_bob1)"
    by (rule sample_sends(1))
qed

lemma sample_number: "hdr_message_number (sent_header sample_sent1) = 1"
  by code_simp

lemma pad_head: "a \<noteq> b \<Longrightarrow> pad 32 [a] \<noteq> pad 32 [b]"
  by (simp add: pad_def)

lemma sample_braid_laws: "braid_laws sample_pw"
  using sample_crypto_sizes sample_crypto_kem by (simp add: braid_laws_def sample_pw_def)

lemma sample_paired: "paired sample_pw sample_sender sample_receiver"
proof -
  have "net_pair sample_crypto sample_bob sample_alice"
    unfolding net_pair_def
    using sample_net_start by (intro exI[of _ sample_secret] exI[of _ "sample_net sample_alice sample_bob {}"] exI[of _ SpqResponder])
      (simp add: peer_def)
  then show ?thesis
    using sample_synced by (simp add: paired_def linked_def sample_pw_def sample_sender_def sample_receiver_def sample_pairwise_def)
qed

lemma sample_can_send: "can_send sample_pw [5] sample_fill sample_sender"
  using pad_head[of 5 1] by (simp add: can_send_def sample_sender_def sample_pairwise_def sample_pw_def)

lemma sample_verdict:
  assumes "pm_pq_header msg = sent_header sample_sent1"
  shows "\<exists>k. pq_verdict sample_pw sample_receiver msg = Inr k"
  using sample_pq(2) by (auto simp: pq_verdict_def assms sample_pw_def sample_receiver_def sample_pairwise_def)

lemma sample_session_ready: "session_ready sample_sender = Inr ()"
  using sample_synced by (simp add: synced_def)

lemma short_literal:
  "length (utf8 SECURE_MESH_PROTOCOL_VERSION) < 2 ^ 32" "length (utf8 SECURE_MESH_PAIRWISE_CIPHER_SUITE) < 2 ^ 32"
proof -
  have "length SECURE_MESH_PAIRWISE_CIPHER_SUITE \<le> 100" "length SECURE_MESH_PROTOCOL_VERSION \<le> 100"
    by (simp_all add: SECURE_MESH_PAIRWISE_CIPHER_SUITE_def SECURE_MESH_PROTOCOL_VERSION_def lit_def)
  then show "length (utf8 SECURE_MESH_PROTOCOL_VERSION) < 2 ^ 32" "length (utf8 SECURE_MESH_PAIRWISE_CIPHER_SUITE) < 2 ^ 32"
    using str_len_bound[of SECURE_MESH_PAIRWISE_CIPHER_SUITE] str_len_bound[of SECURE_MESH_PROTOCOL_VERSION]
    by (simp_all add: str_len_def)
qed

lemma sample_sending_keys:
  "\<exists>nc key c. sending_keys sample_pw [5] sample_fill sample_sender = (Inr (nc, key, sent_header sample_sent1), c)
     \<and> length key = 32 \<and> pws_local_public c = pad 32 [5]"
proof -
  have advance: "advance_chain sample_pw ck e n (ascii ''message'') = Inr (replicate 32 7, replicate 32 7)" for ck e n
    using short_literal(2)
    by (simp add: advance_chain_def append_pairwise_field_def ascii_def Let_def CHAIN_KEY_LEN_def MESSAGE_KEY_LEN_def)
      (simp add: sample_pw_def sample_cc_def)
  have root_keys: "derive_ratchet_root sample_pw rk dh e = Inr (replicate 32 7, replicate 32 7, replicate 32 7)" for rk dh e
    using short_literal(2)
    by (simp add: derive_ratchet_root_def append_pairwise_field_def ascii_def Let_def CHAIN_KEY_LEN_def ROOT_KEY_LEN_def
        HEADER_KEY_LEN_def) (simp add: sample_pw_def sample_cc_def)
  have "pad 32 [2] \<noteq> replicate 32 (0 :: u8)" "replicate 32 (7 :: u8) \<noteq> replicate 32 0" by code_simp+
  then have "\<exists>t. prepare_sending_ratchet_for_send sample_pw [5] sample_sender = (Inr (), t) \<and> pws_sparse_pq t = sample_bob
      \<and> pws_session_id t = lit ''s'' \<and> pws_local_public t = pad 32 [5]"
    using sample_session_ready
    by (simp add: prepare_sending_ratchet_for_send_def rotate_sending_ratchet_def rotate_sending_ratchet_with_secret_def
        Let_def root_keys diffie_hellman_def parse_key_bytes_def PUBLIC_KEY_LEN_def)
      (simp add: sample_sender_def sample_pairwise_def sample_pw_def)
  then obtain t where t: "prepare_sending_ratchet_for_send sample_pw [5] sample_sender = (Inr (), t)"
    "pws_sparse_pq t = sample_bob" "pws_session_id t = lit ''s''" "pws_local_public t = pad 32 [5]" by blast
  have "\<exists>key. derive_hybrid_message_key (pw_crypto sample_pw) ck pk (utf8 (lit ''s'')) = Inr key \<and> length key = 32" for ck pk
    by (simp add: derive_hybrid_message_key_def append_binding_len_prefixed_def sample_pw_def)
      (simp add: sample_crypto_def lit_def utf8_char_def)
  then obtain key where "derive_hybrid_message_key (pw_crypto sample_pw) (replicate 32 7) (sent_message_key sample_sent1)
      (utf8 (lit ''s'')) = Inr key" "length key = 32" by blast
  moreover have "pq_send_key sample_pw sample_fill t = (Inr sample_sent1, t\<lparr>pws_sparse_pq := sample_bob1\<rparr>)"
    using sample_pq(1) t(2) by (simp add: pq_send_key_def sample_pw_def)
  ultimately show ?thesis
    using t by (simp add: sending_keys_def advance)
qed

lemma sample_header_bytes: "sparse_pq_header_bytes sample_pw (sent_header sample_sent1) = Inr [1]"
  by (simp add: sparse_pq_header_bytes_def sample_number sample_pw_def MAX_SPARSE_PQ_HEADER_BYTES_def)

lemma sample_binding:
  assumes "sending_keys sample_pw [5] sample_fill sample_sender = (Inr (nc, key, sent_header sample_sent1), c)"
    and "pws_local_public c = pad 32 [5]"
  shows "\<exists>out. append_message_binding sample_pw magic (unsealed_message c (lit ''msg'') (sent_header sample_sent1) h) = Inr out
    \<and> length out \<le> length magic + 900"
proof -
  have ids: "pws_session_id c = lit ''s''" "pws_local_endpoint c = lit ''from''" "pws_remote_endpoint c = lit ''to''"
    using sending_identity[OF assms(1)] by (simp_all add: sample_sender_def sample_pairwise_def)
  have "str_len SECURE_MESH_PAIRWISE_CIPHER_SUITE \<le> 400"
    by (rule order.trans[OF str_len_bound]) (simp add: SECURE_MESH_PAIRWISE_CIPHER_SUITE_def lit_def)
  moreover have "str_len SECURE_MESH_PROTOCOL_VERSION \<le> 200"
    by (rule order.trans[OF str_len_bound]) (simp add: SECURE_MESH_PROTOCOL_VERSION_def lit_def)
  ultimately show ?thesis
    using short_literal
    by (simp add: message_binding_iff bound_strings_def unsealed_message_def ids assms(2) sample_header_bytes)
      (simp add: lit_def utf8_char_def str_len_def)
qed

lemma sample_id_valid: "validate_message_id (lit ''msg'') = Inr ()"
  by (simp add: validate_message_id_def require_pairwise_text_def MAX_MESSAGE_ID_LEN_def str_len_def)
    (simp add: lit_def utf8_char_def trim_Nil_iff white_space_def)

lemma sample_message:
  assumes "length body \<le> MAX_CIPHERTEXT_BYTES"
  shows "\<exists>msg s'. seal_message sample_pw [5] sample_fill sample_nonce (lit ''msg'') body sample_sender = (Inr msg, s')
    \<and> pm_pq_header msg = sent_header sample_sent1"
proof -
  obtain nc key c where keys: "sending_keys sample_pw [5] sample_fill sample_sender = (Inr (nc, key, sent_header sample_sent1), c)"
      "length key = 32" "pws_local_public c = pad 32 [5]"
    using sample_sending_keys by blast
  let ?h = "cc_base64 (pw_content sample_pw) sample_nonce"
  obtain out where out: "append_message_binding sample_pw MESSAGE_AAD_MAGIC
      (unsealed_message c (lit ''msg'') (sent_header sample_sent1) ?h) = Inr out"
    using sample_binding[OF keys(1,3)] by blast
  have "length (utf8 ?h) < 2 ^ 32"
    using content_lawsD(2)[OF sample_cc_laws, of sample_nonce] by (simp add: sample_pw_def str_len_def sample_nonce_def)
  moreover have "pm_encrypted_header (unsealed_message c (lit ''msg'') (sent_header sample_sent1) ?h) = ?h"
    by (simp add: unsealed_message_def)
  ultimately obtain aad where "message_aad sample_pw (unsealed_message c (lit ''msg'') (sent_header sample_sent1) ?h) = Inr aad"
    using out by (simp add: message_aad_def append_pairwise_field_def)
  moreover have "require_pairwise_text (lit ''msg'') ''message id'' = Inr (lit ''msg'')"
    using sample_id_valid by (auto simp: validate_message_id_def require_pairwise_text_def result_simps)
  moreover have "cc_encrypt (pw_content sample_pw) k n a m = Some (m @ replicate 16 9)" for k n a m
    by (simp add: sample_pw_def sample_cc_def)
  ultimately show ?thesis
    using assms keys(1) sample_session_ready sample_id_valid
    by (simp add: seal_message_def seal_message_with_nonce_def commit_def Let_def) (simp add: unsealed_message_def)
qed

lemma sample_payload:
  "\<exists>msg s'. pairwise_seal_payload_with_extra_aad sample_pw [5] sample_fill sample_nonce sample_content_context sample_plaintext
     sample_additional sample_sender = (Inr msg, s') \<and> pm_pq_header msg = sent_header sample_sent1"
proof -
  obtain nc key c where keys: "sending_keys sample_pw [5] sample_fill sample_sender = (Inr (nc, key, sent_header sample_sent1), c)"
      "length key = 32" "pws_local_public c = pad 32 [5]"
    using sample_sending_keys by blast
  have ctx: "message_id sample_content_context = lit ''msg''" by (simp add: sample_content_context_def)
  obtain out where out: "append_message_binding sample_pw PAYLOAD_AAD_BINDING_MAGIC
      (unsealed_message c (lit ''msg'') (sent_header sample_sent1) []) = Inr out" "length out \<le> length PAYLOAD_AAD_BINDING_MAGIC + 900"
    using sample_binding[OF keys(1,3)] by blast
  have short: "length (out @ sample_additional) \<le> MAX_ADDITIONAL_AAD_BYTES"
    using out(2) by (simp add: PAYLOAD_AAD_BINDING_MAGIC_def ascii_def sample_additional_def MAX_ADDITIONAL_AAD_BYTES_def)
  have "length (content_key_from_bytes key) = CONTENT_KEY_LEN"
    using keys(2) by (simp add: content_key_from_bytes_def CONTENT_KEY_LEN_def)
  from sample_seals_any[OF this short] obtain sealed where
    "seal_payload_with_aad_binding sample_cc sample_nonce (content_key_from_bytes key) sample_content_context sample_plaintext
       (out @ sample_additional) = Inr sealed" by blast
  moreover have "ensure_pairwise_context_for_send sample_sender sample_content_context = Inr ()"
    using sample_id_valid
    by (simp add: ensure_pairwise_context_for_send_def sample_sender_def sample_pairwise_def sample_content_context_def)
  moreover have "combine_pairwise_and_extra_aad sample_pw (unsealed_message c (lit ''msg'') (sent_header sample_sent1) [])
      sample_additional = Inr (out @ sample_additional)"
    using out(1) by (simp add: combine_pairwise_and_extra_aad_def pairwise_payload_aad_binding_def sample_additional_def)
  moreover have "pw_content sample_pw = sample_cc" by (simp add: sample_pw_def)
  ultimately show ?thesis
    using keys(1) sample_session_ready
    by (simp add: pairwise_seal_payload_with_extra_aad_def commit_def Let_def ctx) (simp add: unsealed_message_def)
qed

text \<open>A receiver whose store is full of the keys of lost messages.\<close>

definition sample_full :: "(unit, unit, session) pairwise_session" where
  "sample_full = sample_receiver\<lparr>pws_receiving_index := 32, pws_skipped := map (\<lambda>i. \<lparr>sk_message_id = [], sk_dh_epoch = 0,
     sk_chain_index = of_nat i, sk_sender_key = pad 32 [1], sk_message_key = replicate 32 0\<rparr>) [0..<32]\<rparr>"

definition sample_later :: pairwise_message where
  "sample_later = (unsealed_message sample_sender (lit ''msg'') (sent_header sample_sent1) [])\<lparr>pm_chain_index := 33\<rparr>"

lemma sample_full_store:
  "length (pws_skipped sample_full) = MAX_SKIPPED_KEYS"
  "leaves_gap sample_full sample_later" "message_position sample_later \<notin> stored_position sample_full"
proof -
  show "length (pws_skipped sample_full) = MAX_SKIPPED_KEYS" by (simp add: sample_full_def MAX_SKIPPED_KEYS_def)
  show "leaves_gap sample_full sample_later"
    by (simp add: leaves_gap_def sample_full_def sample_later_def sample_receiver_def sample_sender_def sample_pairwise_def
        unsealed_message_def)
  have "unat (of_nat i :: u64) < 32" if "i < 32" for i
    using that by (simp add: unat_of_nat)
  then have "unat (sk_chain_index k) < 32" if "k \<in> set (pws_skipped sample_full)" for k
    using that by (auto simp: sample_full_def)
  moreover have "snd (message_position sample_later) = 33"
    by (simp add: message_position_def sample_later_def)
  ultimately show "message_position sample_later \<notin> stored_position sample_full"
    by (force simp: stored_position_def skipped_position_def)
qed

lemma sample_header_injective: "header_text_injective sample_pw"
  by (simp add: header_text_injective_def sample_pw_def)

lemma sample_later_aad:
  "\<exists>a. message_aad sample_pw sample_later = Inr a" "\<exists>a. message_aad sample_pw (sample_later\<lparr>pm_chain_index := 7\<rparr>) = Inr a"
  using short_literal
  by (simp_all add: message_aad_def result_simps append_pairwise_field_iff message_binding_iff bound_strings_def sample_later_def
      unsealed_message_def sample_header_bytes sample_sender_def sample_pairwise_def)
    (simp_all add: lit_def utf8_char_def)

end
