(* ===== verification/Pairwise_Properties.thy ===== *)
theory Pairwise_Properties
  imports Pairwise_Samples
begin

text \<open>
  What a pairwise session guarantees: delivery between sessions in step, no message opened twice,
  a bounded window that every run follows, headers that are bound as a whole; and the two kinds
  of message it can never open.
\<close>

section \<open>Delivery\<close>

text \<open>
  C15: Two sessions are in step, and their post-quantum ratchets are the two ends of a network that has
  carried any messages before. A message sealed on one of them, whether or not sealing steps the Double Ratchet,
  opens on the other to exactly its body, id and sender, and the sessions are in step again afterwards, in
  both directions, unless the post-quantum ratchet of the receiver refuses the header: then opening reports
  its error and changes nothing. That both ratchets derive the same keys is proved, not assumed. The conditions
  are that the counters of the sender have room and a new ratchet key differs from the old one, that
  body and tag are within the ciphertext limit, and that the receiver does not hold the fingerprint of the message.
\<close>

theorem sealed_message_opens:
  assumes "pairwise_laws E" "braid_laws E" "paired E s r" "can_send E secret fill s"
    and "seal_message E secret fill nonce mid body s = (Inr msg, s')"
    and "length nonce = NONCE_LEN" "length body + AEAD_TAG_LEN \<le> MAX_CIPHERTEXT_BYTES"
    and "message_replay_fingerprint E msg \<notin> Inr ` set (pws_received_ids r)"
  shows "case pq_verdict E r msg of
      Inl e \<Rightarrow> open_message E msg r = (Inl (SparsePqFailed e), r)
    | Inr _ \<Rightarrow> \<exists>r'. open_message E msg r = (Inr \<lparr>om_message_id = mid, om_sender = pws_local_endpoint s, om_body = body\<rparr>, r')
        \<and> paired E s' r' \<and> paired E r' s'"
  using message_delivered[OF assms] paired_sym[of E s'] by (auto split: sum.splits)

lemma sample_delivered:
  obtains msg s' where
    "seal_message sample_pw [5] sample_fill sample_nonce (lit ''msg'') [1, 2, 3] sample_sender = (Inr msg, s')"
    "message_replay_fingerprint sample_pw msg \<notin> Inr ` set (pws_received_ids sample_receiver)"
    "\<exists>k. pq_verdict sample_pw sample_receiver msg = Inr k"
proof -
  have "length [1 :: u8, 2, 3] \<le> MAX_CIPHERTEXT_BYTES" by (simp add: MAX_CIPHERTEXT_BYTES_def)
  from sample_message[OF this] show thesis
    using sample_verdict by (auto intro: that simp: sample_receiver_def sample_pairwise_def)
qed

lemma sample_lengths: "length sample_nonce = NONCE_LEN" "length [1 :: u8, 2, 3] + AEAD_TAG_LEN \<le> MAX_CIPHERTEXT_BYTES"
  by (simp_all add: sample_nonce_def NONCE_LEN_def AEAD_TAG_LEN_def MAX_CIPHERTEXT_BYTES_def)

lemmas sample_delivery = message_delivered[OF sample_pw_laws sample_braid_laws sample_paired sample_can_send _ sample_lengths]

theorem sealed_message_opens_witness:
  "\<exists>msg s' r'. seal_message sample_pw [5] sample_fill sample_nonce (lit ''msg'') [1, 2, 3] sample_sender = (Inr msg, s')
    \<and> open_message sample_pw msg sample_receiver = (Inr \<lparr>om_message_id = lit ''msg'',
        om_sender = pws_local_endpoint sample_sender, om_body = [1, 2, 3]\<rparr>, r')
    \<and> paired sample_pw s' r'"
proof (rule sample_delivered)
  fix msg s' assume seal: "seal_message sample_pw [5] sample_fill sample_nonce (lit ''msg'') [1, 2, 3] sample_sender = (Inr msg, s')"
    and fp: "message_replay_fingerprint sample_pw msg \<notin> Inr ` set (pws_received_ids sample_receiver)"
    and v: "\<exists>k. pq_verdict sample_pw sample_receiver msg = Inr k"
  from sealed_message_opens[OF sample_pw_laws sample_braid_laws sample_paired sample_can_send seal sample_lengths fp] v seal
  show ?thesis by auto
qed

text \<open>
  C16: Between two such sessions a payload, with any additional data, opens on the receiver to the kind, body and
  content type that were sealed, and the sessions are in step again: the Double Ratchet, the post-quantum
  ratchet and content encryption agree on every key and every byte of associated data. The one exception is again
  that the post-quantum ratchet of the receiver refuses the header, which opening reports without changing anything.
  The conditions are those on the counters, the ratchet key and the fingerprint of the message.
\<close>

theorem sealed_payload_reaches_peer:
  assumes "pairwise_laws E" "braid_laws E" "paired E s r" "can_send E secret fill s"
    and "pairwise_seal_payload_with_extra_aad E secret fill nonce ctx pt extra s = (Inr msg, s')"
    and "length nonce = CONTENT_NONCE_LEN" "context_strings ctx" "pred_option valid_str (pt_content_type pt)"
    and "message_replay_fingerprint E msg \<notin> Inr ` set (pws_received_ids r)"
  shows "case pq_verdict E r msg of
      Inl e \<Rightarrow> pairwise_open_payload_with_extra_aad E ctx msg (pt_kind pt) extra r = (Inl (SparsePqFailed e), r)
    | Inr _ \<Rightarrow> \<exists>r'. pairwise_open_payload_with_extra_aad E ctx msg (pt_kind pt) extra r = (Inr (opened_of ctx pt), r')
        \<and> paired E s' r' \<and> paired E r' s'"
  using payload_delivered[OF assms] paired_sym[of E s'] by (auto split: sum.splits)

theorem sealed_payload_reaches_peer_witness:
  "\<exists>msg s' r'. pairwise_seal_payload_with_extra_aad sample_pw [5] sample_fill sample_nonce sample_content_context
      sample_plaintext sample_additional sample_sender = (Inr msg, s')
    \<and> pairwise_open_payload_with_extra_aad sample_pw sample_content_context msg (pt_kind sample_plaintext) sample_additional
        sample_receiver = (Inr (opened_of sample_content_context sample_plaintext), r')
    \<and> paired sample_pw s' r'"
proof -
  obtain msg s' where seal: "pairwise_seal_payload_with_extra_aad sample_pw [5] sample_fill sample_nonce sample_content_context
      sample_plaintext sample_additional sample_sender = (Inr msg, s')" and header: "pm_pq_header msg = sent_header sample_sent1"
    using sample_payload by blast
  have "message_replay_fingerprint sample_pw msg \<notin> Inr ` set (pws_received_ids sample_receiver)"
    by (simp add: sample_receiver_def sample_pairwise_def)
  from sealed_payload_reaches_peer[OF sample_pw_laws sample_braid_laws sample_paired sample_can_send seal sample_nonce_length
      sample_content_context_valid(2) sample_plaintext_valid(2) this] sample_verdict[OF header] seal
  show ?thesis by auto
qed

section \<open>Replay and the window\<close>

text \<open>
  C17: Whatever is done to a session, with genuine, forged, repeated or reordered messages, no position
  of the peer's chains is opened twice, and no key is kept for a position that was opened. The
  replay list only holds the last 256 messages; the window does not depend on it.
\<close>

theorem no_message_opened_twice:
  assumes "pairwise_run E ops s = (new, s')" "fresh_session s"
    and "\<forall>op\<in>set ops. op_in_range op" "length ops < 2 ^ 64"
  shows "distinct new \<and> set new \<inter> stored_position s' = {}"
proof -
  have "unat (pws_dh_epoch s) + length ops < 2 ^ 64" using assms(2,4) by (simp add: fresh_session_def)
  from pairwise_run_ok[OF assms(1) fresh_session_ok[OF assms(2)] assms(3) this]
  show ?thesis by (simp add: session_ok_def window_ok_def window_of_def stored_position_def)
qed

lemma sample_message_range:
  assumes "seal_message sample_pw [5] sample_fill sample_nonce (lit ''msg'') [1, 2, 3] sample_sender = (Inr msg, s')"
  shows "op_in_range (OpOpen msg)"
proof -
  obtain nc key header c where keys: "sending_keys sample_pw [5] sample_fill sample_sender = (Inr (nc, key, header), c)"
    and msg: "pm_chain_index msg = pws_sending_index c"
    by (rule seal_message_InrE[OF assms]) (simp add: unsealed_message_def)
  have "pws_sending_index c = 0"
    by (rule sending_keys_Inr[OF keys])
      (auto simp: prepare_sending_ratchet_for_send_def sample_sender_def sample_pairwise_def elim!: rotated)
  then show ?thesis by (simp add: op_in_range_def op_message_def msg)
qed

theorem no_message_opened_twice_witness:
  "\<exists>msg p s'. pairwise_run sample_pw [OpOpen msg, OpOpen msg] sample_receiver = ([p], s') \<and> p \<notin> stored_position s'"
proof -
  obtain msg s1 where seal: "seal_message sample_pw [5] sample_fill sample_nonce (lit ''msg'') [1, 2, 3] sample_sender = (Inr msg, s1)"
    and fp: "message_replay_fingerprint sample_pw msg \<notin> Inr ` set (pws_received_ids sample_receiver)"
    and v: "\<exists>k. pq_verdict sample_pw sample_receiver msg = Inr k"
    by (rule sample_delivered)
  from sample_delivery[OF seal fp] v obtain r' x where opened: "open_message sample_pw msg sample_receiver = (Inr x, r')" by auto
  obtain y r2 where again: "open_message sample_pw msg r' = (y, r2)" by (cases "open_message sample_pw msg r'")
  have run: "pairwise_run sample_pw [OpOpen msg, OpOpen msg] sample_receiver
      = (message_position msg # opened_position msg y, r2)"
    by (simp add: pairwise_step_def opened again opened_position_def)
  have "distinct (message_position msg # opened_position msg y) \<and> set (message_position msg # opened_position msg y) \<inter> stored_position r2 = {}"
    by (rule no_message_opened_twice[OF run sample_fresh(2)]) (simp_all add: sample_message_range[OF seal])
  moreover have "opened_position msg y = []" using calculation by (cases y) (simp_all add: opened_position_def)
  ultimately have "pairwise_run sample_pw [OpOpen msg, OpOpen msg] sample_receiver = ([message_position msg], r2)"
    "message_position msg \<notin> stored_position r2"
    using run by simp_all
  then show ?thesis by blast
qed

text \<open>
  C18: A run of a session refines a run of the abstract window: every message that opens either fills
  a gap, or moves the frontier of its chain or to a new chain, and everything it passes over becomes a
  gap. Along the way at most 32 gaps, 32 old header keys and 256 fingerprints are held.
\<close>

theorem run_refines_window:
  assumes "pairwise_run E ops s = (new, s')" "fresh_session s"
    and "\<forall>op\<in>set ops. op_in_range op" "length ops < 2 ^ 64"
  shows "window_trace (0, 0, {}) new (window_of s') \<and> length (pws_skipped s') \<le> MAX_SKIPPED_KEYS
    \<and> length (pws_skipped_header_keys s') \<le> MAX_SKIPPED_KEYS \<and> length (pws_received_ids s') \<le> MAX_REPLAY_IDS"
proof -
  have n: "unat (pws_dh_epoch s) + length ops < 2 ^ 64" using assms(2,4) by (simp add: fresh_session_def)
  have w: "window_of s = (0, 0, {})" using assms(2) by (simp add: fresh_session_def window_of_def)
  from run_refines[OF assms(1) fresh_session_ok[OF assms(2)] assms(3) n]
    pairwise_run_ok[OF assms(1) fresh_session_ok[OF assms(2)] assms(3) n]
  show ?thesis by (simp add: w session_ok_def store_ok_def)
qed

theorem run_refines_window_witness:
  "\<exists>msg s'. pairwise_run sample_pw [OpOpen msg] sample_receiver = ([message_position msg], s')
    \<and> window_trace (0, 0, {}) [message_position msg] (window_of s')"
proof -
  obtain msg s1 where seal: "seal_message sample_pw [5] sample_fill sample_nonce (lit ''msg'') [1, 2, 3] sample_sender = (Inr msg, s1)"
    and fp: "message_replay_fingerprint sample_pw msg \<notin> Inr ` set (pws_received_ids sample_receiver)"
    and v: "\<exists>k. pq_verdict sample_pw sample_receiver msg = Inr k"
    by (rule sample_delivered)
  from sample_delivery[OF seal fp] v obtain r' x where opened: "open_message sample_pw msg sample_receiver = (Inr x, r')" by auto
  have run: "pairwise_run sample_pw [OpOpen msg] sample_receiver = ([message_position msg], r')"
    by (simp add: pairwise_step_def opened opened_position_def)
  have "window_trace (0, 0, {}) [message_position msg] (window_of r')"
    using run_refines_window[OF run sample_fresh(2)] sample_message_range[OF seal] by simp
  then show ?thesis using run by blast
qed

text \<open>
  C19: Opening always returns: whatever indices a message claims, the limit on missing messages
  is checked before the loop over them, so that the loop is through after at most 32 steps.
\<close>

theorem opening_terminates:
  "fst (open_message E msg s) \<noteq> Inl SkipLoopUnfinished
   \<and> fst (pairwise_open_payload_with_extra_aad E ctx msg kind extra s) \<noteq> Inl SkipLoopUnfinished"
  using open_finishes unfolding finishes_def by blast

section \<open>Headers\<close>

text \<open>
  C20: The associated data of a message determines every field of the message except the ciphertext and its
  size, the binding of a payload every field except those and the encrypted header, together with the additional
  data, and nothing is bound both as a message and as a payload.
\<close>

theorem message_headers_bound:
  assumes "header_text_injective E" "message_strings m" "message_strings m'"
  shows "(message_aad E m = Inr a \<and> message_aad E m' = Inr a \<longrightarrow>
      m\<lparr>pm_ciphertext := [], pm_ciphertext_size := 0\<rparr> = m'\<lparr>pm_ciphertext := [], pm_ciphertext_size := 0\<rparr>)
    \<and> (combine_pairwise_and_extra_aad E m x = Inr a \<and> combine_pairwise_and_extra_aad E m' x' = Inr a \<longrightarrow>
      m\<lparr>pm_encrypted_header := [], pm_ciphertext := [], pm_ciphertext_size := 0\<rparr>
        = m'\<lparr>pm_encrypted_header := [], pm_ciphertext := [], pm_ciphertext_size := 0\<rparr> \<and> x = x')
    \<and> \<not> (message_aad E m = Inr a \<and> combine_pairwise_and_extra_aad E m' x' = Inr a)"
  using message_aad_cancel[OF assms, of a] combined_aad_cancel[OF assms, of x a x'] aad_kinds_differ[of E m a m' x']
  by blast

theorem message_headers_bound_witness:
  "\<exists>a b. message_aad sample_pw sample_later = Inr a \<and> message_aad sample_pw (sample_later\<lparr>pm_chain_index := 7\<rparr>) = Inr b \<and> a \<noteq> b"
proof -
  have "valid_str []" by (simp add: valid_str_def)
  then have strings: "message_strings sample_later" "message_strings (sample_later\<lparr>pm_chain_index := 7\<rparr>)"
    by (simp_all add: message_strings_def bound_strings_def sample_later_def unsealed_message_def sample_sender_def
        sample_pairwise_def SECURE_MESH_PROTOCOL_VERSION_def SECURE_MESH_PAIRWISE_CIPHER_SUITE_def)
  obtain a b where ab: "message_aad sample_pw sample_later = Inr a" "message_aad sample_pw (sample_later\<lparr>pm_chain_index := 7\<rparr>) = Inr b"
    using sample_later_aad by blast
  have "sample_later\<lparr>pm_ciphertext := [], pm_ciphertext_size := 0\<rparr>
      \<noteq> sample_later\<lparr>pm_chain_index := 7, pm_ciphertext := [], pm_ciphertext_size := 0\<rparr>"
    by (simp add: sample_later_def unsealed_message_def)
  then show ?thesis
    using message_headers_bound[OF sample_header_injective strings, of a "[]" "[]"] ab by auto
qed

section \<open>Messages that never open\<close>

text \<open>
  C21: Once 32 messages of the peer are lost, the session has a store full of their keys that nothing but
  opening one of them or revoking the session empties: whatever else is sent and opened, the store stays as it is and
  every message that leaves a further gap is refused, in both forms.
\<close>

theorem lost_messages_block_session:
  assumes "pairwise_run E ops s = (new, s')" "length (pws_skipped s) = MAX_SKIPPED_KEYS" "OpRevoke \<notin> set ops"
    and "set new \<inter> stored_position s = {}" "message_position msg \<notin> stored_position s" "leaves_gap s' msg"
  shows "pws_skipped s' = pws_skipped s \<and> (\<exists>e. open_message E msg s' = (Inl e, s'))
    \<and> (\<exists>e. pairwise_open_payload_with_extra_aad E ctx msg kind extra s' = (Inl e, s'))"
proof -
  have same: "pws_skipped s' = pws_skipped s" by (rule full_store_run[OF assms(1-4)])
  then have "length (pws_skipped s') = MAX_SKIPPED_KEYS" "message_position msg \<notin> stored_position s'"
    using assms(2,5) by (simp_all add: stored_position_def)
  from full_store_refuses[OF this assms(6)] same show ?thesis by blast
qed

theorem lost_messages_block_session_witness:
  "\<exists>e. open_message sample_pw sample_later sample_full = (Inl e, sample_full)"
proof -
  have "pairwise_run sample_pw [] sample_full = ([], sample_full)" by simp
  from lost_messages_block_session[OF this sample_full_store(1) _ _ sample_full_store(3,2)] show ?thesis by simp
qed

text \<open>
  C22: A body within the limit on bodies whose ciphertext, 16 bytes longer, exceeds the limit on ciphertexts
  is sealed and moves the sending chain on, but no session ever opens the message.
\<close>

theorem largest_bodies_never_open:
  assumes "content_laws (pw_content E)" "seal_message E secret fill nonce mid body s = (Inr msg, s')"
    and "MAX_CIPHERTEXT_BYTES - AEAD_TAG_LEN < length body"
  shows "length body \<le> MAX_CIPHERTEXT_BYTES
    \<and> (pws_sending_index s' = 1 \<or> pws_sending_index s' = pws_sending_index s + 1)
    \<and> (\<exists>e. open_message E msg r = (Inl e, r))"
proof -
  obtain nc key header c aad ct where keys: "sending_keys E secret fill s = (Inr (nc, key, header), c)"
    and seal: "s' = finish_sending nc c" "cc_encrypt (pw_content E) key nonce aad body = Some ct"
      "pm_ciphertext_size msg = length ct"
    by (rule seal_message_InrE[OF assms(2)]) simp
  have "length ct = length body + 16" by (rule content_lawsD(4)[OF assms(1) seal(2)])
  then have "MAX_CIPHERTEXT_BYTES < pm_ciphertext_size msg"
    using assms(3) seal(3) by (simp add: AEAD_TAG_LEN_def MAX_CIPHERTEXT_BYTES_def)
  moreover have "length body \<le> MAX_CIPHERTEXT_BYTES"
    using assms(2) unfolding seal_message_def seal_message_with_nonce_def by (elim st_tryE st_ensureE)
  moreover have "pws_sending_index c = 0 \<or> pws_sending_index c = pws_sending_index s"
    by (rule sending_keys_Inr[OF keys]) (auto simp: prepare_sending_ratchet_for_send_def split: if_splits elim!: rotated)
  ultimately show ?thesis using oversized_refused by (auto simp: seal(1) finish_sending_def)
qed

theorem largest_bodies_never_open_witness:
  "\<exists>msg s'. seal_message sample_pw [5] sample_fill sample_nonce (lit ''msg'') (replicate MAX_CIPHERTEXT_BYTES 0) sample_sender
      = (Inr msg, s')
    \<and> (\<exists>e. open_message sample_pw msg sample_receiver = (Inl e, sample_receiver))"
proof -
  have "length (replicate MAX_CIPHERTEXT_BYTES (0 :: u8)) \<le> MAX_CIPHERTEXT_BYTES" by simp
  from sample_message[OF this] obtain msg s' where seal: "seal_message sample_pw [5] sample_fill sample_nonce (lit ''msg'')
      (replicate MAX_CIPHERTEXT_BYTES 0) sample_sender = (Inr msg, s')" by blast
  have "content_laws (pw_content sample_pw)" using sample_cc_laws by (simp add: sample_pw_def)
  moreover have "MAX_CIPHERTEXT_BYTES - AEAD_TAG_LEN < length (replicate MAX_CIPHERTEXT_BYTES (0 :: u8))"
    unfolding length_replicate by (simp add: MAX_CIPHERTEXT_BYTES_def AEAD_TAG_LEN_def)
  ultimately show ?thesis using largest_bodies_never_open[OF _ seal, of sample_receiver] seal by blast
qed

end
