(* ===== verification/KT_Proofs.thy ===== *)
theory KT_Proofs
  imports KT_Merkle
begin

text \<open>
  Completeness and soundness of the log proofs. Both sides are related to a verifier that
  walks the tree level by level: \<open>level_fold\<close> for an inclusion proof, \<open>level_fold2\<close> for the two
  roots of a consistency proof. Soundness assumes of SHA-256 only that no two of the finitely
  many inputs hashed in the verifications at hand collide.
\<close>

section \<open>Verification level by level\<close>

function level_fold :: "(bytes \<Rightarrow> hash) \<Rightarrow> hash \<Rightarrow> nat \<Rightarrow> nat \<Rightarrow> hash list \<Rightarrow> kt_error + hash" where
  "level_fold H h fn sn path =
     (if sn = 0 then (if path = [] then Inr h else Inl ExtraHashes)
      else if even fn \<and> fn = sn then level_fold H h (fn div 2) (sn div 2) path
      else case path of [] \<Rightarrow> Inl ProofTruncated
        | sibling # rest \<Rightarrow>
            level_fold H (if odd fn then log_node_hash H sibling h else log_node_hash H h sibling)
              (fn div 2) (sn div 2) rest)"
  by pat_completeness auto
termination by (relation "measure (\<lambda>(H, h, fn, sn, path). sn)") auto

declare level_fold.simps [simp del]

lemma level_fold_done:
  "level_fold H h fn 0 [] = Inr h" "level_fold H h fn 0 (x # p) = Inl ExtraHashes"
  by (subst level_fold.simps, simp)+

lemma level_fold_promote:
  "0 < n \<Longrightarrow> even n \<Longrightarrow> level_fold H h n n path = level_fold H h (n div 2) (n div 2) path"
  by (subst level_fold.simps) simp

lemma level_fold_left:
  "0 < sn \<Longrightarrow> odd fn \<Longrightarrow> level_fold H h fn sn (x # p) = level_fold H (log_node_hash H x h) (fn div 2) (sn div 2) p"
  by (subst level_fold.simps) simp

lemma level_fold_right:
  "0 < sn \<Longrightarrow> even fn \<Longrightarrow> fn \<noteq> sn \<Longrightarrow>
     level_fold H h fn sn (x # p) = level_fold H (log_node_hash H h x) (fn div 2) (sn div 2) p"
  by (subst level_fold.simps) simp

lemma level_fold_truncated:
  "0 < sn \<Longrightarrow> odd fn \<Longrightarrow> level_fold H h fn sn [] = Inl ProofTruncated"
  "0 < sn \<Longrightarrow> fn \<noteq> sn \<Longrightarrow> level_fold H h fn sn [] = Inl ProofTruncated"
  by (subst level_fold.simps, simp)+

lemmas level_fold_simps = level_fold_done level_fold_promote level_fold_left level_fold_right level_fold_truncated

text \<open>The inner \<open>while\<close> of the source, entered at the right edge of the tree.\<close>

lemma level_fold_skip:
  assumes "0 < n"
  shows "level_fold H h n n (x # p) =
    (let (fn, sn) = skip_even n n in level_fold H (log_node_hash H x h) (fn div 2) (sn div 2) p)"
  using assms
proof (induction n rule: less_induct)
  case (less n)
  show ?case
  proof (cases "even n")
    case True
    then have "0 < n div 2" "n div 2 < n" using less.prems by auto
    moreover have "skip_even n n = skip_even (n div 2) (n div 2)"
      using True less.prems by (subst skip_even.simps) simp
    ultimately show ?thesis
      using less.IH[of "n div 2"] level_fold_promote[OF less.prems True, of H h "x # p"] by simp
  next
    case False
    moreover have "skip_even n n = (n, n)" using False by (subst skip_even.simps) simp
    ultimately show ?thesis using less.prems by (simp add: level_fold_left)
  qed
qed

lemma level_fold_empty_edge: "0 < n \<Longrightarrow> level_fold H h n n [] = Inl ProofTruncated"
proof (induction n rule: less_induct)
  case (less n)
  show ?case
  proof (cases "even n")
    case True
    then have "0 < n div 2" "n div 2 < n" using less.prems by auto
    with less.IH[of "n div 2"] level_fold_promote[OF less.prems True] show ?thesis by simp
  qed (use less.prems in \<open>simp add: level_fold_truncated\<close>)
qed

lemma skip_even_same: "fst (skip_even n n) = snd (skip_even n n)"
  by (induction n rule: less_induct) (subst (1 2) skip_even.simps, auto)

lemma fold_path_level: "fn \<le> sn \<Longrightarrow> fold_path H h fn sn path = level_fold H h fn sn path"
proof (induction path arbitrary: h fn sn)
  case Nil
  then show ?case
    by (cases "sn = 0"; cases "fn = sn") (auto simp: level_fold_simps level_fold_empty_edge)
next
  case (Cons x p)
  show ?case
  proof (cases "sn = 0")
    case True
    then show ?thesis by (simp add: level_fold_simps)
  next
    case sn: False
    consider "fn = sn" | "odd fn" "fn \<noteq> sn" | "even fn" "fn \<noteq> sn" by blast
    then show ?thesis
    proof cases
      case 1
      obtain a b where ab: "skip_even sn sn = (a, b)" by fastforce
      then have "a = b" using skip_even_same[of sn] by simp
      with 1 sn ab Cons.IH show ?thesis by (simp add: level_fold_skip)
    next
      case 2
      then have "fn div 2 \<le> sn div 2" using Cons.prems by (simp add: div_le_mono)
      with 2 sn Cons.IH show ?thesis by (simp add: level_fold_simps skip_even.simps)
    next
      case 3
      then have "fn div 2 \<le> sn div 2" using Cons.prems by (simp add: div_le_mono)
      with 3 sn Cons.IH show ?thesis by (simp add: level_fold_simps)
    qed
  qed
qed

section \<open>Generated inclusion paths level by level\<close>

lemma inclusion_recurse_split:
  "1 < length xs \<Longrightarrow> inclusion_recurse H xs i =
    (let k = largest_power_of_two_less_than (length xs) in
     if i < k then inclusion_recurse H (take k xs) i @ [merkle_tree_hash H (drop k xs)]
     else inclusion_recurse H (drop k xs) (i - k) @ [merkle_tree_hash H (take k xs)])"
  by (subst inclusion_recurse.simps) simp

lemma inclusion_recurse_small [simp]: "length xs \<le> 1 \<Longrightarrow> inclusion_recurse H xs i = []"
  by (simp add: inclusion_recurse.simps)

definition level_sibling :: "hash list \<Rightarrow> nat \<Rightarrow> hash list" where
  "level_sibling xs i = (if odd i then [xs ! (i - 1)] else if i + 1 < length xs then [xs ! (i + 1)] else [])"

lemma level_sibling_drop:
  assumes "even k" "k \<le> i" "i < length xs"
  shows "level_sibling (drop k xs) (i - k) = level_sibling xs i"
proof (cases "odd i")
  case True
  then have "k \<noteq> i" using assms(1) by auto
  then have "k + (i - k - 1) = i - 1" using assms(2) by simp
  then show ?thesis using True assms by (simp add: level_sibling_def)
qed (use assms in \<open>auto simp: level_sibling_def\<close>)

lemma inclusion_recurse_level:
  "1 < length xs \<Longrightarrow> i < length xs \<Longrightarrow>
    inclusion_recurse H xs i = level_sibling xs i @ inclusion_recurse H (level_up H xs) (i div 2)"
proof (induction "length xs" arbitrary: xs i rule: less_induct)
  case less
  let ?n = "length xs" and ?k = "largest_power_of_two_less_than (length xs)"
  show ?case
  proof (cases "?n = 2")
    case True
    then obtain a b where xs: "xs = [a, b]" by (metis (no_types) length_0_conv length_Suc_conv numeral_2_eq_2)
    then have "i = 0 \<or> i = 1" using less.prems by auto
    then show ?thesis by (auto simp: xs inclusion_recurse_split level_sibling_def)
  next
    case False
    then have n: "2 < ?n" using less.prems by simp
    let ?k' = "largest_power_of_two_less_than (length (level_up H xs))"
    have k: "?k = 2 * ?k'" "?k < ?n" "0 < ?k'" using split_halves[OF n] split_bounds[of ?n] n by auto
    then have k1: "1 < ?k" by linarith
    have up: "1 < length (level_up H xs)" using n by simp
    have tk: "take ?k' (level_up H xs) = level_up H (take ?k xs)" and dr: "drop ?k' (level_up H xs) = level_up H (drop ?k xs)"
      using k by (simp_all add: level_up_take level_up_drop)
    have upper: "inclusion_recurse H (level_up H xs) (i div 2) =
        (if i div 2 < ?k' then inclusion_recurse H (level_up H (take ?k xs)) (i div 2) @ [merkle_tree_hash H (drop ?k xs)]
         else inclusion_recurse H (level_up H (drop ?k xs)) (i div 2 - ?k') @ [merkle_tree_hash H (take ?k xs)])"
      unfolding inclusion_recurse_split[OF up] Let_def tk dr merkle_level_up ..
    show ?thesis
    proof (cases "i < ?k")
      case True
      have ih: "inclusion_recurse H (take ?k xs) i =
          level_sibling (take ?k xs) i @ inclusion_recurse H (level_up H (take ?k xs)) (i div 2)"
        using True k k1 by (intro less.hyps) auto
      have "even i \<Longrightarrow> i + 1 < ?k" using True k(1) by (auto elim!: evenE)
      then have sib: "level_sibling (take ?k xs) i = level_sibling xs i"
        using True k(2) by (auto simp: level_sibling_def)
      have "i div 2 < ?k'" using True k(1) by auto
      then show ?thesis
        unfolding upper using inclusion_recurse_split[OF less.prems(1), of H i] True ih sib by (simp add: Let_def)
    next
      case False
      have sib: "level_sibling (drop ?k xs) (i - ?k) = level_sibling xs i"
        using False k(1) less.prems by (intro level_sibling_drop) auto
      have half: "(i - ?k) div 2 = i div 2 - ?k'" "\<not> i div 2 < ?k'" using False k(1) by auto
      have ih: "inclusion_recurse H (drop ?k xs) (i - ?k) =
          level_sibling (drop ?k xs) (i - ?k) @ inclusion_recurse H (level_up H (drop ?k xs)) ((i - ?k) div 2)"
      proof (cases "length (drop ?k xs) = 1")
        case True
        then have "i - ?k = 0" using False less.prems by auto
        then show ?thesis using True by (simp add: level_sibling_def)
      next
        case F: False
        show ?thesis using False k k1 less.prems F by (intro less.hyps) auto
      qed
      then show ?thesis
        unfolding upper using inclusion_recurse_split[OF less.prems(1), of H i] False sib half by (simp add: Let_def)
    qed
  qed
qed

lemma level_step_node:
  assumes "i < length xs"
  shows "level_up H xs ! (i div 2) =
    (if odd i then log_node_hash H (xs ! (i - 1)) (xs ! i)
     else if i + 1 < length xs then log_node_hash H (xs ! i) (xs ! (i + 1)) else xs ! i)"
proof -
  have "i div 2 < length (level_up H xs)" using assms by simp
  then show ?thesis using assms by (auto simp: level_up_nth elim!: oddE evenE)
qed

text \<open>Completeness: the generated path verifies to the root of the tree.\<close>

lemma level_fold_complete:
  "i < length xs \<Longrightarrow> level_fold H (xs ! i) i (length xs - 1) (inclusion_recurse H xs i) = Inr (merkle_tree_hash H xs)"
proof (induction "length xs" arbitrary: xs i rule: less_induct)
  case less
  show ?case
  proof (cases "length xs \<le> 1")
    case True
    then obtain x where "xs = [x]" using less.prems by (cases xs) auto
    then show ?thesis using less.prems by (simp add: level_fold_simps)
  next
    case False
    let ?u = "level_up H xs"
    have half: "(length xs - Suc 0) div 2 = Suc (length xs) div 2 - Suc 0" using False by auto
    have ih: "level_fold H (?u ! (i div 2)) (i div 2) (length ?u - 1) (inclusion_recurse H ?u (i div 2)) = Inr (merkle_tree_hash H ?u)"
      using False less.prems by (intro less.hyps) auto
    have edge: "length xs - Suc 0 = i" if "\<not> Suc i < length xs" using that less.prems by simp
    show ?thesis
      using ih less.prems False half edge
      by (cases "odd i"; cases "Suc i < length xs")
        (simp_all add: inclusion_recurse_level level_sibling_def level_fold_simps level_step_node merkle_level_up)
  qed
qed

lemma inclusion_recurse_length: "i < length xs \<Longrightarrow> length xs \<le> 2 ^ d \<Longrightarrow> length (inclusion_recurse H xs i) \<le> d"
proof (induction d arbitrary: xs i)
  case (Suc d)
  show ?case
  proof (cases "length xs \<le> 1")
    case False
    have "length (inclusion_recurse H (level_up H xs) (i div 2)) \<le> d"
      using Suc.prems by (intro Suc.IH) auto
    then show ?thesis using False Suc.prems by (simp add: inclusion_recurse_level level_sibling_def)
  qed simp
qed simp

section \<open>Hashed inputs\<close>

text \<open>
  The inputs a level-by-level verification passes to the node hash, and those of the
  computation of a tree hash.
\<close>

function level_inputs :: "(bytes \<Rightarrow> hash) \<Rightarrow> hash \<Rightarrow> nat \<Rightarrow> nat \<Rightarrow> hash list \<Rightarrow> bytes set" where
  "level_inputs H h fn sn path =
     (if sn = 0 then {}
      else if even fn \<and> fn = sn then level_inputs H h (fn div 2) (sn div 2) path
      else case path of [] \<Rightarrow> {}
        | sibling # rest \<Rightarrow>
            (let x = 1 # (if odd fn then sibling @ h else h @ sibling) in
             insert x (level_inputs H (H x) (fn div 2) (sn div 2) rest)))"
  by pat_completeness auto
termination by (relation "measure (\<lambda>(H, h, fn, sn, path). sn)") auto

declare level_inputs.simps [simp del]

function merkle_inputs :: "(bytes \<Rightarrow> hash) \<Rightarrow> hash list \<Rightarrow> bytes set" where
  "merkle_inputs H xs =
     (if length xs \<le> 1 then {}
      else let k = largest_power_of_two_less_than (length xs) in
        insert (1 # merkle_tree_hash H (take k xs) @ merkle_tree_hash H (drop k xs))
          (merkle_inputs H (take k xs) \<union> merkle_inputs H (drop k xs)))"
  by pat_completeness auto
termination
  by (relation "measure (\<lambda>(H, xs). length xs)") (use split_parts in \<open>auto simp: not_le\<close>)

declare merkle_inputs.simps [simp del]

fun pair_inputs :: "hash list \<Rightarrow> bytes set" where
  "pair_inputs (a # b # xs) = insert (1 # a @ b) (pair_inputs xs)"
| "pair_inputs xs = {}"

lemma pair_inputs_append: "even (length xs) \<Longrightarrow> pair_inputs (xs @ ys) = pair_inputs xs \<union> pair_inputs ys"
  by (induction xs rule: pair_inputs.induct) auto

lemma pair_inputs_nth:
  "2 * j + 1 < length xs \<Longrightarrow> 1 # xs ! (2 * j) @ xs ! (2 * j + 1) \<in> pair_inputs xs"
proof (induction xs arbitrary: j rule: pair_inputs.induct)
  case (1 a b xs)
  then show ?case by (cases j) auto
qed auto

lemma pair_inputs_small [simp]: "length xs \<le> 1 \<Longrightarrow> pair_inputs xs = {}"
  by (cases xs rule: pair_inputs.cases) auto

lemma merkle_inputs_small [simp]: "length xs \<le> 1 \<Longrightarrow> merkle_inputs H xs = {}"
  by (simp add: merkle_inputs.simps)

lemma merkle_inputs_split:
  "1 < length xs \<Longrightarrow> merkle_inputs H xs =
    (let k = largest_power_of_two_less_than (length xs) in
     insert (1 # merkle_tree_hash H (take k xs) @ merkle_tree_hash H (drop k xs))
       (merkle_inputs H (take k xs) \<union> merkle_inputs H (drop k xs)))"
  by (subst merkle_inputs.simps) simp

lemma merkle_inputs_level:
  "merkle_inputs H xs = pair_inputs xs \<union> merkle_inputs H (level_up H xs)"
proof (induction "length xs" arbitrary: xs rule: less_induct)
  case less
  let ?n = "length xs" and ?k = "largest_power_of_two_less_than (length xs)"
  consider "?n \<le> 1" | "?n = 2" | "2 < ?n" by linarith
  then show ?case
  proof cases
    case 1
    then show ?thesis by (simp add: level_up_single)
  next
    case 2
    then obtain a b where "xs = [a, b]" by (metis (no_types) length_0_conv length_Suc_conv numeral_2_eq_2)
    then show ?thesis by (simp add: merkle_inputs_split)
  next
    case 3
    let ?k' = "largest_power_of_two_less_than (length (level_up H xs))"
    have k: "?k = 2 * ?k'" "?k < ?n" "0 < ?k'" using split_halves[OF 3] split_bounds[of ?n] 3 by auto
    have up: "1 < length (level_up H xs)" using 3 by simp
    have tk: "take ?k' (level_up H xs) = level_up H (take ?k xs)" and dr: "drop ?k' (level_up H xs) = level_up H (drop ?k xs)"
      using k by (simp_all add: level_up_take level_up_drop)
    have "pair_inputs xs = pair_inputs (take ?k xs) \<union> pair_inputs (drop ?k xs)"
      using pair_inputs_append[of "take ?k xs" "drop ?k xs"] k by simp
    moreover have "merkle_inputs H (take ?k xs) = pair_inputs (take ?k xs) \<union> merkle_inputs H (level_up H (take ?k xs))"
        "merkle_inputs H (drop ?k xs) = pair_inputs (drop ?k xs) \<union> merkle_inputs H (level_up H (drop ?k xs))"
      using k by (intro less; simp)+
    moreover have "merkle_inputs H (level_up H xs) = insert (1 # merkle_tree_hash H (take ?k xs) @ merkle_tree_hash H (drop ?k xs))
        (merkle_inputs H (level_up H (take ?k xs)) \<union> merkle_inputs H (level_up H (drop ?k xs)))"
      unfolding merkle_inputs_split[OF up] Let_def tk dr merkle_level_up ..
    ultimately show ?thesis using merkle_inputs_split[of xs H] 3 by (simp add: Let_def) blast
  qed
qed

lemma level_inputs_tree:
  "i < length xs \<Longrightarrow>
    level_inputs H (xs ! i) i (length xs - 1) (inclusion_recurse H xs i) \<subseteq> merkle_inputs H xs"
proof (induction "length xs" arbitrary: xs i rule: less_induct)
  case less
  show ?case
  proof (cases "length xs \<le> 1")
    case True
    then have "length xs - 1 = 0" by simp
    then show ?thesis by (subst level_inputs.simps) simp
  next
    case False
    let ?u = "level_up H xs"
    have half: "(length xs - Suc 0) div 2 = Suc (length xs) div 2 - Suc 0" using False by auto
    have ih: "level_inputs H (?u ! (i div 2)) (i div 2) (Suc (length xs) div 2 - Suc 0) (inclusion_recurse H ?u (i div 2)) \<subseteq> merkle_inputs H ?u"
      using False less.prems less.hyps[of ?u "i div 2"] by simp
    have edge: "length xs - Suc 0 = i" if "\<not> Suc i < length xs" using that less.prems by simp
    have inner: "i \<noteq> length xs - Suc 0" if "Suc i < length xs" using that by simp
    have pair: "odd i \<Longrightarrow> 1 # xs ! (i - Suc 0) @ xs ! i \<in> pair_inputs xs"
        "even i \<Longrightarrow> Suc i < length xs \<Longrightarrow> 1 # xs ! i @ xs ! Suc i \<in> pair_inputs xs"
      using pair_inputs_nth[of "i div 2" xs] less.prems by (auto elim!: oddE evenE)
    show ?thesis
      using ih pair edge inner less.prems False half
      by (subst level_inputs.simps, subst merkle_inputs_level, cases "odd i"; cases "Suc i < length xs")
        (simp_all add: inclusion_recurse_level level_sibling_def level_step_node log_node_hash_def Let_def le_supI2)
  qed
qed

section \<open>Soundness of inclusion\<close>

text \<open>\<open>hashes ps\<close>: \<open>[u8; 32]\<close> is a type in the source; here a predicate on lists.\<close>

definition hashes :: "hash list \<Rightarrow> bool" where
  "hashes hs \<longleftrightarrow> (\<forall>h\<in>set hs. length h = 32)"

definition hash_function :: "(bytes \<Rightarrow> hash) \<Rightarrow> bool" where
  "hash_function H \<longleftrightarrow> (\<forall>b. length (H b) = 32)"

lemma length_hash [simp]: "hash_function H \<Longrightarrow> length (H b) = 32"
  by (simp add: hash_function_def)

lemma hashes_simps [simp]: "hashes []" "hashes (h # hs) \<longleftrightarrow> length h = 32 \<and> hashes hs"
  "hashes (xs @ ys) \<longleftrightarrow> hashes xs \<and> hashes ys"
  by (auto simp: hashes_def)

lemma hashes_nth: "hashes hs \<Longrightarrow> i < length hs \<Longrightarrow> length (hs ! i) = 32"
  by (simp add: hashes_def)

lemma hashes_take_drop: "hashes hs \<Longrightarrow> hashes (take k hs)" "hashes hs \<Longrightarrow> hashes (drop k hs)"
  by (auto simp: hashes_def dest: in_set_takeD in_set_dropD)

lemma hashes_level_up: "hash_function H \<Longrightarrow> hashes hs \<Longrightarrow> hashes (level_up H hs)"
  by (induction H hs rule: level_up.induct) (auto simp: log_node_hash_def)

lemma length_merkle: "hash_function H \<Longrightarrow> hashes hs \<Longrightarrow> length (merkle_tree_hash H hs) = 32"
  by (cases hs; cases "tl hs") (auto simp: merkle_tree_hash.simps empty_log_root_def log_node_hash_def Let_def)

lemma hashes_inclusion:
  "hash_function H \<Longrightarrow> hashes hs \<Longrightarrow> hashes (inclusion_recurse H hs i)"
proof (induction H hs i rule: inclusion_recurse.induct)
  case (1 H leaves index)
  then show ?case
    by (subst inclusion_recurse.simps) (auto simp: Let_def length_merkle hashes_take_drop)
qed

text \<open>
  Two verifications at the same position that reach the same root have the same leaf and the
  same path, unless the hash collides on inputs of these very verifications.
\<close>

lemma level_fold_unique:
  assumes "hash_function H"
  shows "level_fold H h fn sn p = Inr r \<Longrightarrow> level_fold H h' fn sn p' = Inr r \<Longrightarrow>
    length h = 32 \<Longrightarrow> length h' = 32 \<Longrightarrow> hashes p \<Longrightarrow> hashes p' \<Longrightarrow>
    inj_on H (level_inputs H h fn sn p \<union> level_inputs H h' fn sn p') \<Longrightarrow> h = h' \<and> p = p'"
proof (induction sn arbitrary: h h' fn p p' rule: less_induct)
  case (less sn)
  consider "sn = 0" | "0 < sn" "even fn" "fn = sn" | "0 < sn" "odd fn \<or> fn \<noteq> sn" by blast
  then show ?case
  proof cases
    case 1
    then show ?thesis
      using less.prems(1,2) by (cases p; cases p') (auto simp: level_fold_done)
  next
    case 2
    have "level_inputs H x fn sn q = level_inputs H x (fn div 2) (sn div 2) q" for x q
      using 2 by (subst level_inputs.simps) simp
    then show ?thesis
      using less.IH[of "sn div 2" h "fn div 2" p h' p'] less.prems 2 level_fold_promote[of sn H _ _] by simp
  next
    case 3
    obtain x q where p: "p = x # q" using less.prems(1) 3 by (cases p) (auto simp: level_fold_truncated)
    obtain x' q' where p': "p' = x' # q'" using less.prems(2) 3 by (cases p') (auto simp: level_fold_truncated)
    let ?in = "\<lambda>x h. 1 # (if odd fn then x @ h else h @ x)"
    have step: "level_fold H h fn sn (x # q) = level_fold H (H (?in x h)) (fn div 2) (sn div 2) q" for x h q
      using 3 by (subst level_fold.simps) (auto simp: log_node_hash_def)
    have inputs: "level_inputs H h fn sn (x # q) = insert (?in x h) (level_inputs H (H (?in x h)) (fn div 2) (sn div 2) q)" for x h q
      using 3 by (subst level_inputs.simps) (auto simp: Let_def)
    have inj: "inj_on H (level_inputs H h fn sn p \<union> level_inputs H h' fn sn p')" by (rule less.prems(7))
    have "H (?in x h) = H (?in x' h') \<and> q = q'"
    proof (rule less.IH[of "sn div 2"])
      show "sn div 2 < sn" using 3 by simp
      show "inj_on H (level_inputs H (H (?in x h)) (fn div 2) (sn div 2) q \<union> level_inputs H (H (?in x' h')) (fn div 2) (sn div 2) q')"
        by (rule inj_on_subset[OF inj]) (auto simp: p p' inputs)
    qed (use less.prems assms in \<open>simp_all add: p p' step\<close>)
    moreover have "?in x h \<in> level_inputs H h fn sn p \<union> level_inputs H h' fn sn p'"
        "?in x' h' \<in> level_inputs H h fn sn p \<union> level_inputs H h' fn sn p'"
      by (auto simp: p p' inputs)
    ultimately have "?in x h = ?in x' h'" "q = q'" using inj_onD[OF inj, of "?in x h" "?in x' h'"] by blast+
    then show ?thesis
      using less.prems(3-6) by (cases "odd fn") (simp_all add: p p')
  qed
qed

lemma level_fold_genuine:
  assumes "hash_function H" "hashes leaves" "i < length leaves" "length h = 32" "hashes p"
    and "level_fold H h i (length leaves - 1) p = Inr (merkle_tree_hash H leaves)"
    and "inj_on H (level_inputs H h i (length leaves - 1) p \<union> merkle_inputs H leaves)"
  shows "h = leaves ! i \<and> p = inclusion_recurse H leaves i"
proof (rule level_fold_unique[OF assms(1) assms(6) level_fold_complete[OF assms(3)]])
  show "inj_on H (level_inputs H h i (length leaves - 1) p \<union>
      level_inputs H (leaves ! i) i (length leaves - 1) (inclusion_recurse H leaves i))"
    by (rule inj_on_subset[OF assms(7)]) (use level_inputs_tree[OF assms(3)] in blast)
qed (use assms hashes_inclusion hashes_nth in auto)

section \<open>Consistency level by level\<close>

text \<open>
  The fold of a consistency proof runs the inclusion fold on its second component, while the
  first component only takes the left siblings.
\<close>

function level_fold2 ::
    "(bytes \<Rightarrow> hash) \<Rightarrow> hash \<Rightarrow> hash \<Rightarrow> nat \<Rightarrow> nat \<Rightarrow> hash list \<Rightarrow> kt_error + hash \<times> hash" where
  "level_fold2 H f s fn sn path =
     (if sn = 0 then (if path = [] then Inr (f, s) else Inl ExtraHashes)
      else if even fn \<and> fn = sn then level_fold2 H f s (fn div 2) (sn div 2) path
      else case path of [] \<Rightarrow> Inl ProofTruncated
        | x # rest \<Rightarrow>
            if odd fn then level_fold2 H (log_node_hash H x f) (log_node_hash H x s) (fn div 2) (sn div 2) rest
            else level_fold2 H f (log_node_hash H s x) (fn div 2) (sn div 2) rest)"
  by pat_completeness auto
termination by (relation "measure (\<lambda>(H, f, s, fn, sn, path). sn)") auto

declare level_fold2.simps [simp del]

lemma level_fold2_done:
  "level_fold2 H f s fn 0 [] = Inr (f, s)" "level_fold2 H f s fn 0 (x # p) = Inl ExtraHashes"
  by (subst level_fold2.simps, simp)+

lemma level_fold2_promote:
  "0 < n \<Longrightarrow> even n \<Longrightarrow> level_fold2 H f s n n path = level_fold2 H f s (n div 2) (n div 2) path"
  by (subst level_fold2.simps) simp

lemma level_fold2_left:
  "0 < sn \<Longrightarrow> odd fn \<Longrightarrow> level_fold2 H f s fn sn (x # p) =
     level_fold2 H (log_node_hash H x f) (log_node_hash H x s) (fn div 2) (sn div 2) p"
  by (subst level_fold2.simps) simp

lemma level_fold2_right:
  "0 < sn \<Longrightarrow> even fn \<Longrightarrow> fn \<noteq> sn \<Longrightarrow>
     level_fold2 H f s fn sn (x # p) = level_fold2 H f (log_node_hash H s x) (fn div 2) (sn div 2) p"
  by (subst level_fold2.simps) simp

lemma level_fold2_truncated:
  "0 < sn \<Longrightarrow> odd fn \<Longrightarrow> level_fold2 H f s fn sn [] = Inl ProofTruncated"
  "0 < sn \<Longrightarrow> fn \<noteq> sn \<Longrightarrow> level_fold2 H f s fn sn [] = Inl ProofTruncated"
  by (subst level_fold2.simps, simp)+

lemmas level_fold2_simps = level_fold2_done level_fold2_promote level_fold2_left level_fold2_right level_fold2_truncated

lemma level_fold2_skip:
  assumes "0 < n"
  shows "level_fold2 H f s n n (x # p) =
    (let (fn, sn) = skip_even n n in
     level_fold2 H (log_node_hash H x f) (log_node_hash H x s) (fn div 2) (sn div 2) p)"
  using assms
proof (induction n rule: less_induct)
  case (less n)
  show ?case
  proof (cases "even n")
    case True
    then have "0 < n div 2" "n div 2 < n" using less.prems by auto
    moreover have "skip_even n n = skip_even (n div 2) (n div 2)"
      using True less.prems by (subst skip_even.simps) simp
    ultimately show ?thesis
      using less.IH[of "n div 2"] level_fold2_promote[OF less.prems True, of H f s "x # p"] by simp
  next
    case False
    moreover have "skip_even n n = (n, n)" using False by (subst skip_even.simps) simp
    ultimately show ?thesis using less.prems by (simp add: level_fold2_left)
  qed
qed

lemma level_fold2_empty_edge: "0 < n \<Longrightarrow> level_fold2 H f s n n [] = Inl ProofTruncated"
proof (induction n rule: less_induct)
  case (less n)
  show ?case
  proof (cases "even n")
    case True
    then have "0 < n div 2" "n div 2 < n" using less.prems by auto
    with less.IH[of "n div 2"] level_fold2_promote[OF less.prems True] show ?thesis by simp
  qed (use less.prems in \<open>simp add: level_fold2_truncated\<close>)
qed

lemma consistency_fold_level:
  "fn \<le> sn \<Longrightarrow> consistency_fold H f s fn sn path = level_fold2 H f s fn sn path"
proof (induction path arbitrary: f s fn sn)
  case Nil
  then show ?case
    by (cases "sn = 0"; cases "fn = sn") (auto simp: level_fold2_simps level_fold2_empty_edge)
next
  case (Cons x p)
  show ?case
  proof (cases "sn = 0")
    case True
    then show ?thesis by (simp add: level_fold2_simps)
  next
    case sn: False
    consider "fn = sn" | "odd fn" "fn \<noteq> sn" | "even fn" "fn \<noteq> sn" by blast
    then show ?thesis
    proof cases
      case 1
      obtain a b where ab: "skip_even sn sn = (a, b)" by fastforce
      then have "a = b" using skip_even_same[of sn] by simp
      with 1 sn ab Cons.IH show ?thesis by (simp add: level_fold2_skip)
    next
      case 2
      then have "fn div 2 \<le> sn div 2" using Cons.prems by (simp add: div_le_mono)
      with 2 sn Cons.IH show ?thesis by (simp add: level_fold2_simps skip_even.simps)
    next
      case 3
      then have "fn div 2 \<le> sn div 2" using Cons.prems by (simp add: div_le_mono)
      with 3 sn Cons.IH show ?thesis by (simp add: level_fold2_simps)
    qed
  qed
qed

lemma level_fold2_second:
  "level_fold2 H f s fn sn path = Inr (r1, r2) \<Longrightarrow> level_fold H s fn sn path = Inr r2"
proof (induction sn arbitrary: f s fn path rule: less_induct)
  case (less sn)
  consider "sn = 0" | "0 < sn" "even fn" "fn = sn" | "0 < sn" "odd fn" | "0 < sn" "even fn" "fn \<noteq> sn" by blast
  then show ?case
  proof cases
    case 1
    then show ?thesis using less.prems by (cases path) (auto simp: level_fold_done level_fold2_done)
  next
    case 2
    then show ?thesis
      using less.prems less.IH[of "sn div 2"] level_fold2_promote[of sn H f s path] level_fold_promote[of sn H s path] by simp
  next
    case 3
    then show ?thesis
      using less.prems less.IH[of "sn div 2"]
      by (cases path) (auto simp: level_fold_left level_fold2_left level_fold2_truncated)
  next
    case 4
    then show ?thesis
      using less.prems less.IH[of "sn div 2"]
      by (cases path) (auto simp: level_fold_right level_fold2_right level_fold2_truncated)
  qed
qed

lemma level_up_first_tree:
  assumes "i < length xs"
  shows "level_up H (take i xs @ [f]) =
    take (i div 2) (level_up H xs) @ [if odd i then log_node_hash H (xs ! (i - 1)) f else f]"
proof (cases "odd i")
  case True
  then have "take i xs = take (i - 1) xs @ [xs ! (i - 1)]"
    using assms by (metis Suc_diff_1 less_imp_diff_less odd_pos take_Suc_conv_app_nth)
  then have "level_up H (take i xs @ [f]) = level_up H (take (i - 1) xs @ [xs ! (i - 1), f])" by simp
  also have "\<dots> = level_up H (take (i - 1) xs) @ [log_node_hash H (xs ! (i - 1)) f]"
    using True assms by (subst level_up_append) (auto elim: oddE)
  also have "level_up H (take (i - 1) xs) = take (i div 2) (level_up H xs)"
    using True assms by (subst level_up_take) (auto elim: oddE)
  finally show ?thesis using True by simp
next
  case False
  then have "level_up H (take i xs @ [f]) = level_up H (take i xs) @ [f]"
    using assms by (subst level_up_append) auto
  then show ?thesis using False assms by (simp add: level_up_take)
qed

text \<open>
  Completeness level by level: the first component rebuilds the root of the first tree, whose
  last node at this level is \<open>f\<close>.
\<close>

lemma level_fold2_complete:
  "i < length xs \<Longrightarrow> level_fold2 H f (xs ! i) i (length xs - 1) (inclusion_recurse H xs i) =
     Inr (merkle_tree_hash H (take i xs @ [f]), merkle_tree_hash H xs)"
proof (induction "length xs" arbitrary: xs i f rule: less_induct)
  case less
  show ?case
  proof (cases "length xs \<le> 1")
    case True
    then obtain x where "xs = [x]" using less.prems by (cases xs) auto
    then show ?thesis using less.prems by (simp add: level_fold2_done)
  next
    case False
    let ?u = "level_up H xs" and ?f = "if odd i then log_node_hash H (xs ! (i - 1)) f else f"
    have half: "(length xs - Suc 0) div 2 = Suc (length xs) div 2 - Suc 0" using False by auto
    have "level_fold2 H ?f (?u ! (i div 2)) (i div 2) (length ?u - 1) (inclusion_recurse H ?u (i div 2)) =
        Inr (merkle_tree_hash H (take (i div 2) ?u @ [?f]), merkle_tree_hash H ?u)"
      using False less.prems by (intro less.hyps) auto
    also have "merkle_tree_hash H (take (i div 2) ?u @ [?f]) = merkle_tree_hash H (take i xs @ [f])"
      using level_up_first_tree[OF less.prems, of H f] merkle_level_up[of H "take i xs @ [f]"] by simp
    finally have ih: "level_fold2 H ?f (?u ! (i div 2)) (i div 2) (length ?u - 1) (inclusion_recurse H ?u (i div 2)) =
        Inr (merkle_tree_hash H (take i xs @ [f]), merkle_tree_hash H xs)" by (simp add: merkle_level_up)
    have edge: "length xs - Suc 0 = i" if "\<not> Suc i < length xs" using that less.prems by simp
    show ?thesis
      using ih less.prems False half edge
      by (cases "odd i"; cases "Suc i < length xs")
        (simp_all add: inclusion_recurse_level level_sibling_def level_fold2_simps level_step_node)
  qed
qed

section \<open>Generated consistency paths level by level\<close>

lemma subproof_split:
  "m \<noteq> length xs \<Longrightarrow> 1 < length xs \<Longrightarrow> subproof H xs m b =
    (let k = largest_power_of_two_less_than (length xs) in
     if m \<le> k then subproof H (take k xs) m b @ [merkle_tree_hash H (drop k xs)]
     else subproof H (drop k xs) (m - k) False @ [merkle_tree_hash H (take k xs)])"
  by (subst subproof.simps) (simp add: not_le)

lemma subproof_full: "subproof H xs (length xs) b = (if b then [] else [merkle_tree_hash H xs])"
  by (subst subproof.simps) simp

lemma subproof_level:
  "even m \<Longrightarrow> 0 < m \<Longrightarrow> m < length xs \<Longrightarrow> subproof H xs m b = subproof H (level_up H xs) (m div 2) b"
proof (induction "length xs" arbitrary: xs m b rule: less_induct)
  case less
  let ?n = "length xs" and ?k = "largest_power_of_two_less_than (length xs)"
  have n: "2 < ?n" using less.prems by (auto elim!: evenE)
  let ?k' = "largest_power_of_two_less_than (length (level_up H xs))"
  have k: "?k = 2 * ?k'" "?k < ?n" "0 < ?k'" using split_halves[OF n] split_bounds[of ?n] n by auto
  have up: "m div 2 \<noteq> length (level_up H xs)" "1 < length (level_up H xs)" using n less.prems by auto
  have tk: "take ?k' (level_up H xs) = level_up H (take ?k xs)" and dr: "drop ?k' (level_up H xs) = level_up H (drop ?k xs)"
    using k by (simp_all add: level_up_take level_up_drop)
  have upper: "subproof H (level_up H xs) (m div 2) b =
      (if m div 2 \<le> ?k' then subproof H (level_up H (take ?k xs)) (m div 2) b @ [merkle_tree_hash H (drop ?k xs)]
       else subproof H (level_up H (drop ?k xs)) (m div 2 - ?k') False @ [merkle_tree_hash H (take ?k xs)])"
    unfolding subproof_split[OF up] Let_def tk dr merkle_level_up ..
  have lower: "subproof H xs m b =
      (if m \<le> ?k then subproof H (take ?k xs) m b @ [merkle_tree_hash H (drop ?k xs)]
       else subproof H (drop ?k xs) (m - ?k) False @ [merkle_tree_hash H (take ?k xs)])"
    using subproof_split[of m xs H b] n less.prems by (simp add: Let_def)
  consider "m < ?k" | "m = ?k" | "?k < m" by linarith
  then show ?case
  proof cases
    case 1
    then have "subproof H (take ?k xs) m b = subproof H (level_up H (take ?k xs)) (m div 2) b"
      using less.prems k(2) by (intro less.hyps) auto
    then show ?thesis unfolding upper lower using 1 k(1) by auto
  next
    case 2
    have "length (take ?k xs) = ?k" "length (level_up H (take ?k xs)) = ?k'" using k by auto
    then have "subproof H (take ?k xs) ?k b = subproof H (level_up H (take ?k xs)) ?k' b"
      using subproof_full[of H "take ?k xs" b] subproof_full[of H "level_up H (take ?k xs)" b] by (simp add: merkle_level_up)
    then show ?thesis unfolding upper lower using 2 k(1) by simp
  next
    case 3
    then have "subproof H (drop ?k xs) (m - ?k) False = subproof H (level_up H (drop ?k xs)) ((m - ?k) div 2) False"
      using less.prems k by (intro less.hyps) auto
    moreover have "(m - ?k) div 2 = m div 2 - ?k'" "\<not> m div 2 \<le> ?k'" using 3 k(1) less.prems(1) by (auto elim!: evenE)
    ultimately show ?thesis unfolding upper lower using 3 by simp
  qed
qed

lemma subproof_odd:
  "odd m \<Longrightarrow> m < length xs \<Longrightarrow>
    subproof H xs m b = (if b \<and> m = 1 then [] else [xs ! (m - 1)]) @ inclusion_recurse H xs (m - 1)"
proof (induction "length xs" arbitrary: xs m b rule: less_induct)
  case less
  let ?n = "length xs" and ?k = "largest_power_of_two_less_than (length xs)"
  have m: "0 < m" using less.prems(1) by (rule odd_pos)
  have n: "1 < ?n" using less.prems m by simp
  have k: "0 < ?k" "?k < ?n" using split_bounds[OF n] by auto
  have lower: "subproof H xs m b =
      (if m \<le> ?k then subproof H (take ?k xs) m b @ [merkle_tree_hash H (drop ?k xs)]
       else subproof H (drop ?k xs) (m - ?k) False @ [merkle_tree_hash H (take ?k xs)])"
    using subproof_split[of m xs H b] n less.prems by (simp add: Let_def)
  have path: "inclusion_recurse H xs (m - 1) =
      (if m - 1 < ?k then inclusion_recurse H (take ?k xs) (m - 1) @ [merkle_tree_hash H (drop ?k xs)]
       else inclusion_recurse H (drop ?k xs) (m - 1 - ?k) @ [merkle_tree_hash H (take ?k xs)])"
    using inclusion_recurse_split[OF n, of H "m - 1"] by (simp add: Let_def)
  have even: "?k = 1 \<or> even ?k"
    by (cases "highest_bit (length xs - 1)") (simp_all add: largest_power_of_two_less_than_def)
  consider "m < ?k" | "m = ?k" | "?k < m" by linarith
  then show ?case
  proof cases
    case 1
    then have "subproof H (take ?k xs) m b = (if b \<and> m = 1 then [] else [take ?k xs ! (m - 1)]) @ inclusion_recurse H (take ?k xs) (m - 1)"
      using less.prems k by (intro less.hyps) auto
    then show ?thesis unfolding lower path using 1 by auto
  next
    case 2
    then have k1: "?k = 1" "m = 1" using even less.prems(1) by auto
    then obtain x where x: "take ?k xs = [x]" "xs ! 0 = x" using n by (cases xs) auto
    show ?thesis unfolding lower path using k1 x subproof_full[of H "[x]" b] by simp
  next
    case 3
    show ?thesis
    proof (cases "?k = 1")
      case True
      then have "?n = 2" using split_bounds(3)[OF n] n by simp
      then show ?thesis using 3 less.prems True by simp
    next
      case False
      then have odd': "odd (m - ?k)" using even 3 less.prems(1) by auto
      have "subproof H (drop ?k xs) (m - ?k) False =
          (if False \<and> m - ?k = 1 then [] else [drop ?k xs ! (m - ?k - 1)]) @ inclusion_recurse H (drop ?k xs) (m - ?k - 1)"
        using odd' less.prems k 3 by (intro less.hyps) auto
      moreover have "drop ?k xs ! (m - ?k - 1) = xs ! (m - 1)" "m - ?k - 1 = m - 1 - ?k" "m \<noteq> 1"
        using 3 k less.prems by auto
      ultimately show ?thesis unfolding lower path using 3 by auto
    qed
  qed
qed

text \<open>
  The leading loop of the verifier climbs to the level where the last complete subtree of the
  first tree is a left node.
\<close>

lemma skip_odd_level:
  "0 < m \<Longrightarrow> m < length xs \<Longrightarrow> \<exists>fn L. skip_odd (m - 1) (length xs - 1) = (fn, length L - 1)
    \<and> even fn \<and> Suc fn < length L \<and> merkle_tree_hash H (take (Suc fn) L) = merkle_tree_hash H (take m xs)
    \<and> merkle_tree_hash H L = merkle_tree_hash H xs \<and> merkle_inputs H L \<subseteq> merkle_inputs H xs
    \<and> (hash_function H \<longrightarrow> hashes xs \<longrightarrow> hashes L)
    \<and> subproof H xs m True = subproof H L (Suc fn) True \<and> length L \<le> length xs"
proof (induction m arbitrary: xs rule: less_induct)
  case (less m)
  show ?case
  proof (cases "even m")
    case True
    let ?u = "level_up H xs"
    have half: "(m - 1) div 2 = m div 2 - 1" "(length xs - 1) div 2 = length ?u - 1" "odd (m - 1)"
      using True less.prems by auto
    have take: "level_up H (take m xs) = take (m div 2) ?u" using True less.prems by (simp add: level_up_take)
    have "m div 2 < m" "0 < m div 2" "m div 2 < length ?u" using True less.prems by auto
    from less.IH[OF this] show ?thesis
      using merkle_inputs_level[of H xs] hashes_level_up[of H xs] subproof_level[OF True less.prems]
        merkle_level_up[of H xs] merkle_level_up[of H "take m xs"] half
      unfolding take by (subst skip_odd.simps) (fastforce simp del: length_level_up)
  next
    case False
    then show ?thesis
      using less.prems by (intro exI[of _ "m - 1"] exI[of _ xs], subst skip_odd.simps) simp
  qed
qed

definition consistency_inputs :: "(bytes \<Rightarrow> hash) \<Rightarrow> nat \<Rightarrow> nat \<Rightarrow> hash \<Rightarrow> hash list \<Rightarrow> bytes set" where
  "consistency_inputs H first_size second_size first_root path =
     (let (fn, sn) = skip_odd (first_size - 1) (second_size - 1) in
      if fn = 0 then level_inputs H first_root fn sn path
      else case path of [] \<Rightarrow> {} | seed # rest \<Rightarrow> level_inputs H seed fn sn rest)"

lemma consistency_path_complete:
  assumes "m \<le> length leaves" "length leaves \<le> 2 ^ 64"
  shows "\<exists>path. rfc9162_consistency_path H leaves m = Inr path
    \<and> verify_rfc9162_consistency H m (length leaves) (merkle_tree_hash H (take m leaves)) (merkle_tree_hash H leaves) path = Inr ()"
proof (cases "m = 0 \<or> m = length leaves")
  case True
  then show ?thesis
    by (elim disjE) (simp_all add: rfc9162_consistency_path_def verify_rfc9162_consistency_def)
next
  case False
  then have m: "0 < m" "m < length leaves" using assms(1) by auto
  then obtain fn L where L: "skip_odd (m - 1) (length leaves - 1) = (fn, length L - 1)" "even fn" "Suc fn < length L"
      "merkle_tree_hash H (take (Suc fn) L) = merkle_tree_hash H (take m leaves)" "merkle_tree_hash H L = merkle_tree_hash H leaves"
      "subproof H leaves m True = subproof H L (Suc fn) True" "length L \<le> length leaves"
    using skip_odd_level[of m leaves H] by blast
  have path: "subproof H leaves m True = (if fn = 0 then [] else [L ! fn]) @ inclusion_recurse H L fn"
    unfolding L(6) using subproof_odd[of "Suc fn" L H True] L(2,3) by simp
  have "length (inclusion_recurse H L fn) \<le> 64"
    using inclusion_recurse_length[of fn L 64 H] L(3,7) assms(2) by linarith
  then have "length (subproof H leaves m True) \<le> 65" unfolding path by (cases "fn = 0") auto
  then have gen: "rfc9162_consistency_path H leaves m = Inr (subproof H leaves m True)"
    using False assms(1) by (simp add: rfc9162_consistency_path_def MAX_CONSISTENCY_PROOF_HASHES_def)
  have first: "take fn L @ [L ! fn] = take (Suc fn) L" using L(3) by (simp add: take_Suc_conv_app_nth)
  have seed: "fn = 0 \<Longrightarrow> L ! fn = merkle_tree_hash H (take m leaves)"
    using L(4) first by (metis append_Nil merkle_tree_hash_single take0)
  have "consistency_fold H (L ! fn) (L ! fn) fn (length L - 1) (inclusion_recurse H L fn) =
      Inr (merkle_tree_hash H (take m leaves), merkle_tree_hash H leaves)"
    using level_fold2_complete[of fn L H "L ! fn"] L(3,4,5) first by (simp add: consistency_fold_level)
  then have "verify_rfc9162_consistency H m (length leaves) (merkle_tree_hash H (take m leaves)) (merkle_tree_hash H leaves)
      (subproof H leaves m True) = Inr ()"
    using m L(1) seed by (cases "fn = 0") (simp_all add: verify_rfc9162_consistency_def path)
  with gen show ?thesis by blast
qed

lemma consistency_path_sound:
  assumes hf: "hash_function H" "hashes leaves" "length first_root = 32" "hashes path" and m: "m \<le> length leaves"
    and ok: "verify_rfc9162_consistency H m (length leaves) first_root (merkle_tree_hash H leaves) path = Inr ()"
    and inj: "inj_on H (consistency_inputs H m (length leaves) first_root path \<union> merkle_inputs H leaves)"
  shows "first_root = merkle_tree_hash H (take m leaves)"
proof (cases "m = 0 \<or> m = length leaves")
  case True
  then show ?thesis
    using ok by (elim disjE) (simp_all add: verify_rfc9162_consistency_def result_simps split: if_splits)
next
  case False
  then have "0 < m" "m < length leaves" using m by auto
  then obtain fn L where L: "skip_odd (m - 1) (length leaves - 1) = (fn, length L - 1)" "even fn" "Suc fn < length L"
      "merkle_tree_hash H (take (Suc fn) L) = merkle_tree_hash H (take m leaves)" "merkle_tree_hash H L = merkle_tree_hash H leaves"
      "merkle_inputs H L \<subseteq> merkle_inputs H leaves" "hashes L"
    using skip_odd_level[of m leaves H] hf(1,2) by blast
  obtain seed rest where seed: "(if fn = 0 then Inr (first_root, path)
        else case path of [] \<Rightarrow> Inl ProofTruncated | seed # rest \<Rightarrow> Inr (seed, rest)) = Inr (seed, rest)"
      "consistency_fold H seed seed fn (length L - 1) rest = Inr (first_root, merkle_tree_hash H leaves)"
    using ok False L(1) by (auto simp: verify_rfc9162_consistency_def result_simps split: prod.splits)
  have len: "length seed = 32" "hashes rest"
    using seed(1) hf(3,4) by (auto split: if_splits list.splits)
  have fold2: "level_fold2 H seed seed fn (length L - 1) rest = Inr (first_root, merkle_tree_hash H L)"
    using seed(2) L(3,5) by (simp add: consistency_fold_level)
  have "consistency_inputs H m (length leaves) first_root path = level_inputs H seed fn (length L - 1) rest"
    using seed(1) L(1) by (auto simp: consistency_inputs_def split: if_splits list.splits)
  then have "inj_on H (level_inputs H seed fn (length L - 1) rest \<union> merkle_inputs H L)"
    using inj L(6) by (auto intro: inj_on_subset)
  then have gen: "seed = L ! fn \<and> rest = inclusion_recurse H L fn"
    using level_fold_genuine[OF hf(1) L(7) _ len level_fold2_second[OF fold2]] L(3) by simp
  have "take fn L @ [L ! fn] = take (Suc fn) L" using L(3) by (simp add: take_Suc_conv_app_nth)
  then show ?thesis
    using fold2 level_fold2_complete[of fn L H "L ! fn"] gen L(3,4) by simp
qed

section \<open>Properties\<close>

text \<open>
  C23: inclusion proofs are complete. For every leaf of a log of at most 2^64 leaves the
  generator returns a path within the bound, and the iterative verifier folds it to the
  recursively defined tree hash.
\<close>

theorem inclusion_proof_complete:
  assumes "i < length leaves" and "length leaves \<le> 2 ^ 64"
  shows "\<exists>path. rfc9162_inclusion_path H leaves i = Inr path
    \<and> fold_rfc9162_inclusion H (leaves ! i) i (length leaves) path = Inr (merkle_tree_hash H leaves)"
proof -
  have "length (inclusion_recurse H leaves i) \<le> 64" by (rule inclusion_recurse_length[OF assms])
  moreover have "fold_path H (leaves ! i) i (length leaves - 1) (inclusion_recurse H leaves i) = Inr (merkle_tree_hash H leaves)"
    using level_fold_complete[OF assms(1), of H] assms(1) by (simp add: fold_path_level)
  moreover have "0 < length leaves" using assms(1) by linarith
  ultimately show ?thesis
    using assms(1)
    by (simp add: rfc9162_inclusion_path_def MAX_INCLUSION_PROOF_HASHES_def fold_rfc9162_inclusion_def)
qed

theorem inclusion_proof_complete_witness:
  "\<exists>path. rfc9162_inclusion_path rev [[1], [2], [3]] 2 = Inr path
    \<and> fold_rfc9162_inclusion rev [3] 2 3 path = Inr (merkle_tree_hash rev [[1], [2], [3]])"
  using inclusion_proof_complete[of 2 "[[1], [2], [3]]" rev] by (simp add: numeral_3_eq_3)

text \<open>
  C24: inclusion proofs are sound. If the verifier folds a leaf hash and a path to the root of
  a log of this size, the leaf hash is the one the log holds at that index and the path is the
  generated one, unless the hash collides among the inputs of the verification and of the tree.
\<close>

theorem inclusion_proof_sound:
  assumes "hash_function H" and "hashes leaves" and "length h = 32" and "hashes path"
    and "fold_rfc9162_inclusion H h i (length leaves) path = Inr (merkle_tree_hash H leaves)"
    and "inj_on H (level_inputs H h i (length leaves - 1) path \<union> merkle_inputs H leaves)"
  shows "i < length leaves \<and> h = leaves ! i \<and> path = inclusion_recurse H leaves i"
proof -
  have i: "i < length leaves" and "fold_path H h i (length leaves - 1) path = Inr (merkle_tree_hash H leaves)"
    using assms(5) by (auto simp: fold_rfc9162_inclusion_def result_simps)
  then have "level_fold H h i (length leaves - 1) path = Inr (merkle_tree_hash H leaves)"
    by (simp add: fold_path_level)
  from level_fold_genuine[OF assms(1,2) i assms(3,4) this assms(6)] i show ?thesis by simp
qed

text \<open>A two-leaf log to run the soundness theorems on.\<close>

definition sample_hash :: "bytes \<Rightarrow> hash" where
  "sample_hash b = take 32 (b @ replicate 32 0)"

definition leaf_of :: "u8 \<Rightarrow> hash" where
  "leaf_of v = replicate 32 v"

lemma sample_log:
  "hash_function sample_hash" "hashes [leaf_of 1, leaf_of 2]" "length (leaf_of v) = 32" "hashes [leaf_of 2]"
  "merkle_inputs sample_hash [leaf_of 1, leaf_of 2] = {1 # leaf_of 1 @ leaf_of 2}"
  "level_inputs sample_hash (leaf_of 1) 0 (Suc 0) [leaf_of 2] = {1 # leaf_of 1 @ leaf_of 2}"
  "fold_rfc9162_inclusion sample_hash (leaf_of 1) 0 (Suc (Suc 0)) [leaf_of 2] = Inr (merkle_tree_hash sample_hash [leaf_of 1, leaf_of 2])"
  "verify_rfc9162_consistency sample_hash (Suc 0) (Suc (Suc 0)) (leaf_of 1) (merkle_tree_hash sample_hash [leaf_of 1, leaf_of 2]) [leaf_of 2] = Inr ()"
  "skip_odd 0 (Suc 0) = (0, Suc 0)"
proof -
  have empty: "level_inputs sample_hash h 0 0 [] = {}" for h by (subst level_inputs.simps) simp
  show skip: "skip_odd 0 (Suc 0) = (0, Suc 0)" by (subst skip_odd.simps) simp
  show "merkle_inputs sample_hash [leaf_of 1, leaf_of 2] = {1 # leaf_of 1 @ leaf_of 2}"
    by (simp add: merkle_inputs_split)
  show "level_inputs sample_hash (leaf_of 1) 0 (Suc 0) [leaf_of 2] = {1 # leaf_of 1 @ leaf_of 2}"
    by (subst level_inputs.simps) (simp add: empty)
  show "fold_rfc9162_inclusion sample_hash (leaf_of 1) 0 (Suc (Suc 0)) [leaf_of 2] = Inr (merkle_tree_hash sample_hash [leaf_of 1, leaf_of 2])"
    by (simp add: fold_rfc9162_inclusion_def merkle_tree_hash_split)
  show "verify_rfc9162_consistency sample_hash (Suc 0) (Suc (Suc 0)) (leaf_of 1) (merkle_tree_hash sample_hash [leaf_of 1, leaf_of 2]) [leaf_of 2] = Inr ()"
    by (simp add: verify_rfc9162_consistency_def skip merkle_tree_hash_split)
qed (auto simp: hash_function_def sample_hash_def leaf_of_def min_def)

theorem inclusion_proof_sound_witness:
  "fold_rfc9162_inclusion sample_hash (leaf_of 1) 0 (Suc (Suc 0)) [leaf_of 2] = Inr (merkle_tree_hash sample_hash [leaf_of 1, leaf_of 2])
   \<and> inclusion_recurse sample_hash [leaf_of 1, leaf_of 2] 0 = [leaf_of 2]"
  using inclusion_proof_sound[of sample_hash "[leaf_of 1, leaf_of 2]" "leaf_of 1" "[leaf_of 2]" 0] sample_log
  by simp

text \<open>
  C25: consistency proofs are complete: for every prefix of a log of at most 2^64 leaves the
  generated path is within the bound and is accepted for the two tree hashes.
\<close>

theorem consistency_proof_complete:
  assumes "m \<le> length leaves" and "length leaves \<le> 2 ^ 64"
  shows "\<exists>path. rfc9162_consistency_path H leaves m = Inr path
    \<and> verify_rfc9162_consistency H m (length leaves) (merkle_tree_hash H (take m leaves)) (merkle_tree_hash H leaves) path = Inr ()"
  by (rule consistency_path_complete[OF assms])

theorem consistency_proof_complete_witness:
  "\<exists>path. rfc9162_consistency_path rev [[1], [2], [3]] 2 = Inr path
    \<and> verify_rfc9162_consistency rev 2 3 (merkle_tree_hash rev [[1], [2]]) (merkle_tree_hash rev [[1], [2], [3]]) path = Inr ()"
  using consistency_proof_complete[of 2 "[[1], [2], [3]]" rev] by (simp add: numeral_3_eq_3)

text \<open>
  C26: a log is append-only for a client that checks consistency. If the verifier accepts an old
  root of size \<open>m\<close> against the root of the present log, the old root is the tree hash of the
  first \<open>m\<close> leaves of the present log, unless the hash collides among the inputs of the
  verification and of the tree.
\<close>

theorem consistency_proof_sound:
  assumes "hash_function H" and "hashes leaves" and "length first_root = 32" and "hashes path"
    and "verify_rfc9162_consistency H m (length leaves) first_root (merkle_tree_hash H leaves) path = Inr ()"
    and "inj_on H (consistency_inputs H m (length leaves) first_root path \<union> merkle_inputs H leaves)"
  shows "m \<le> length leaves \<and> first_root = merkle_tree_hash H (take m leaves)"
proof -
  have "m \<le> length leaves" using assms(5) by (auto simp: verify_rfc9162_consistency_def result_simps)
  with consistency_path_sound[OF assms(1-4) _ assms(5,6)] show ?thesis by blast
qed

theorem consistency_proof_sound_witness:
  "verify_rfc9162_consistency sample_hash (Suc 0) (Suc (Suc 0)) (leaf_of 1) (merkle_tree_hash sample_hash [leaf_of 1, leaf_of 2]) [leaf_of 2] = Inr ()
   \<and> leaf_of 1 = merkle_tree_hash sample_hash (take (Suc 0) [leaf_of 1, leaf_of 2])"
  using consistency_proof_sound[of sample_hash "[leaf_of 1, leaf_of 2]" "leaf_of 1" "[leaf_of 2]" "Suc 0"] sample_log
  by (simp add: consistency_inputs_def)

end
