(* ===== verification/KT_Directory.thy ===== *)
theory KT_Directory
  imports KT_Codec KT_Proofs
begin

text \<open>
  The authenticated directory: the sparse map of \<open>sparse_map.rs\<close> and the verifiers of whole
  proof objects (\<open>verify_kt_inclusion\<close>, \<open>verify_kt_consistency\<close>, \<open>verify_kt_map_inclusion\<close>,
  \<open>verify_kt_non_inclusion\<close>) with their models of \<open>model.rs\<close>.
\<close>

section \<open>Proof objects\<close>

record inclusion_proof =
  inc_leaf_index :: u64
  inc_tree_size :: u64
  inc_leaf_hash :: rstr
  inc_siblings :: "rstr list"
  inc_sth :: signed_tree_head

record consistency_proof =
  con_first_tree_size :: u64
  con_second_tree_size :: u64
  con_first_root_hash :: rstr
  con_path :: "rstr list"
  con_second_sth :: signed_tree_head

record map_entry =
  entry_leaf_hash :: rstr
  entry_version :: u64
  entry_revoked :: bool

record map_proof =
  map_stable_label :: rstr
  map_entry_opt :: "map_entry option"
  map_siblings :: "rstr list"
  map_sth :: signed_tree_head

record checkpoint =
  cp_tree_size :: u64
  cp_root_hash :: rstr
  cp_map_root_hash :: rstr
  cp_issued_at :: u64

section \<open>Log proofs\<close>

definition verify_kt_inclusion ::
    "(bytes \<Rightarrow> hash) \<Rightarrow> ed25519 \<Rightarrow> pinned_key \<Rightarrow> freshness_policy \<Rightarrow> u64 \<Rightarrow> inclusion_proof \<Rightarrow>
      kt_error + verified_freshness" where
  "verify_kt_inclusion H ed pin policy now pf =
     and_then (sth_verify ed pin policy now (inc_sth pf)) (\<lambda>freshness.
     ensure (inc_tree_size pf = sth_tree_size (inc_sth pf)) InclusionSizeMismatch
     (ensure (inc_tree_size pf > 0) TreeEmpty
     (ensure (inc_leaf_index pf < inc_tree_size pf) IndexInvalid
     (ensure (length (inc_siblings pf) \<le> MAX_INCLUSION_PROOF_HASHES) InclusionTooManyHashes
     (and_then (parse_hash (inc_leaf_hash pf)) (\<lambda>leaf.
     and_then (parse_hash_path (inc_siblings pf) MAX_INCLUSION_PROOF_HASHES) (\<lambda>path.
     and_then (fold_rfc9162_inclusion H leaf (unat (inc_leaf_index pf)) (unat (inc_tree_size pf)) path) (\<lambda>root.
     ensure (hex_encode root = sth_root_hash (inc_sth pf)) InclusionRootMismatch (Inr freshness)))))))))"

definition checkpoint_from_sth :: "signed_tree_head \<Rightarrow> checkpoint" where
  "checkpoint_from_sth sth =
     \<lparr>cp_tree_size = sth_tree_size sth, cp_root_hash = sth_root_hash sth,
      cp_map_root_hash = sth_map_root_hash sth, cp_issued_at = sth_issued_at sth\<rparr>"

definition verify_kt_consistency ::
    "(bytes \<Rightarrow> hash) \<Rightarrow> ed25519 \<Rightarrow> pinned_key \<Rightarrow> freshness_policy \<Rightarrow> u64 \<Rightarrow> consistency_proof \<Rightarrow> checkpoint \<Rightarrow>
      kt_error + checkpoint" where
  "verify_kt_consistency H ed pin policy now pf cached =
     and_then (sth_verify ed pin policy now (con_second_sth pf)) (\<lambda>_.
     ensure (con_first_tree_size pf = cp_tree_size cached) CachedSizeMismatch
     (ensure (con_first_root_hash pf = cp_root_hash cached) CachedRootMismatch
     (ensure (con_second_tree_size pf = sth_tree_size (con_second_sth pf)) SecondSizeMismatch
     (ensure (con_first_tree_size pf \<le> con_second_tree_size pf) ConsistencySizesInvalid
     (ensure (con_first_tree_size pf \<le> KT_JSON_SAFE_INTEGER_MAX
        \<and> con_second_tree_size pf \<le> KT_JSON_SAFE_INTEGER_MAX) IntegerUnsafe
     (ensure (length (con_path pf) \<le> MAX_CONSISTENCY_PROOF_HASHES) ConsistencyTooManyHashes
     (and_then (parse_hash (con_first_root_hash pf)) (\<lambda>first_root.
     and_then (parse_hash (sth_root_hash (con_second_sth pf))) (\<lambda>second_root.
     and_then (parse_hash_path (con_path pf) MAX_CONSISTENCY_PROOF_HASHES) (\<lambda>path.
     and_then (verify_rfc9162_consistency H (unat (con_first_tree_size pf)) (unat (con_second_tree_size pf))
       first_root second_root path) (\<lambda>_.
     Inr (checkpoint_from_sth (con_second_sth pf)))))))))))))"

section \<open>The sparse map\<close>

definition sparse_map_key :: "(bytes \<Rightarrow> hash) \<Rightarrow> rstr \<Rightarrow> hash" where
  "sparse_map_key H stable_label = domain_hash H MAP_KEY_DOMAIN (utf8 stable_label)"

definition sparse_map_leaf_hash :: "(bytes \<Rightarrow> hash) \<Rightarrow> hash \<Rightarrow> map_entry \<Rightarrow> hash" where
  "sparse_map_leaf_hash H key entry =
     (let digest = (case parse_hash (entry_leaf_hash entry) of Inr h \<Rightarrow> h | Inl _ \<Rightarrow> replicate HASH_LEN 0) in
      domain_hash H MAP_LEAF_DOMAIN
        (key @ digest @ u64_to_be (entry_version entry) @ [if entry_revoked entry then 1 else 0]))"

definition sparse_map_node_hash :: "(bytes \<Rightarrow> hash) \<Rightarrow> hash \<Rightarrow> hash \<Rightarrow> hash" where
  "sparse_map_node_hash H left right = domain_hash H MAP_NODE_DOMAIN (left @ right)"

text \<open>\<open>sparse_map_default_hashes()[SPARSE_MAP_DEPTH - k]\<close>: the root of an empty subtree of height \<open>k\<close>.\<close>

primrec sparse_map_default :: "(bytes \<Rightarrow> hash) \<Rightarrow> nat \<Rightarrow> hash" where
  "sparse_map_default H 0 = domain_hash H MAP_EMPTY_DOMAIN []"
| "sparse_map_default H (Suc k) = sparse_map_node_hash H (sparse_map_default H k) (sparse_map_default H k)"

definition sparse_map_default_hashes :: "(bytes \<Rightarrow> hash) \<Rightarrow> hash list" where
  "sparse_map_default_hashes H = map (\<lambda>depth. sparse_map_default H (SPARSE_MAP_DEPTH - depth)) [0..<SPARSE_MAP_DEPTH + 1]"

definition bit_at :: "hash \<Rightarrow> nat \<Rightarrow> u8" where
  "bit_at key depth = drop_bit (7 - depth mod 8) (key ! (depth div 8)) AND 1"

fun map_fold :: "(bytes \<Rightarrow> hash) \<Rightarrow> hash \<Rightarrow> nat \<Rightarrow> hash list \<Rightarrow> hash \<Rightarrow> hash" where
  "map_fold H key offset [] current = current"
| "map_fold H key offset (sibling # siblings) current =
     (let depth = SPARSE_MAP_DEPTH - 1 - offset in
      map_fold H key (Suc offset) siblings
        (if bit_at key depth = 0 then sparse_map_node_hash H current sibling
         else sparse_map_node_hash H sibling current))"

definition map_proof_leaf :: "(bytes \<Rightarrow> hash) \<Rightarrow> hash \<Rightarrow> map_entry option \<Rightarrow> kt_error + hash" where
  "map_proof_leaf H key entry_opt =
     (case entry_opt of
        Some entry \<Rightarrow>
          and_then (validate_hex_hash (entry_leaf_hash entry)) (\<lambda>_.
          ensure (entry_version entry \<le> KT_JSON_SAFE_INTEGER_MAX) MapVersionUnsafe
          (Inr (sparse_map_leaf_hash H key entry)))
      | None \<Rightarrow> Inr (sparse_map_default_hashes H ! SPARSE_MAP_DEPTH))"

definition verify_kt_map_proof ::
    "(bytes \<Rightarrow> hash) \<Rightarrow> ed25519 \<Rightarrow> pinned_key \<Rightarrow> freshness_policy \<Rightarrow> u64 \<Rightarrow> map_proof \<Rightarrow>
      kt_error + verified_freshness" where
  "verify_kt_map_proof H ed pin policy now pf =
     and_then (sth_verify ed pin policy now (map_sth pf)) (\<lambda>freshness.
     and_then (validate_hex_hash (map_stable_label pf)) (\<lambda>_.
     ensure (length (map_siblings pf) = SPARSE_MAP_DEPTH) MapDepthInvalid
     (let key = sparse_map_key H (map_stable_label pf) in
      and_then (map_proof_leaf H key (map_entry_opt pf)) (\<lambda>current.
      and_then (parse_hash_path (map_siblings pf) SPARSE_MAP_DEPTH) (\<lambda>siblings.
      ensure (hex_encode (map_fold H key 0 siblings current) = sth_map_root_hash (map_sth pf)) MapRootMismatch
      (Inr freshness))))))"

definition verify_kt_map_inclusion ::
    "(bytes \<Rightarrow> hash) \<Rightarrow> ed25519 \<Rightarrow> pinned_key \<Rightarrow> freshness_policy \<Rightarrow> u64 \<Rightarrow> map_proof \<Rightarrow>
      rstr \<Rightarrow> rstr \<Rightarrow> u64 \<Rightarrow> bool \<Rightarrow> kt_error + verified_freshness" where
  "verify_kt_map_inclusion H ed pin policy now pf label leaf_hash version revoked =
     ensure (map_stable_label pf = label) LabelSubstitution
     (and_then (ok_or EntryAbsent (map_entry_opt pf)) (\<lambda>entry.
      ensure (entry_leaf_hash entry = leaf_hash) LeafNotLatest
      (ensure (entry_version entry = version) VersionNotLatest
      (ensure (entry_revoked entry = revoked) RevocationMismatch
      (verify_kt_map_proof H ed pin policy now pf)))))"

definition verify_kt_non_inclusion ::
    "(bytes \<Rightarrow> hash) \<Rightarrow> ed25519 \<Rightarrow> pinned_key \<Rightarrow> freshness_policy \<Rightarrow> u64 \<Rightarrow> map_proof \<Rightarrow> rstr \<Rightarrow>
      kt_error + verified_freshness" where
  "verify_kt_non_inclusion H ed pin policy now pf label =
     ensure (map_stable_label pf = label) LabelSubstitution
     (ensure (map_entry_opt pf = None) EntryPresent
     (verify_kt_map_proof H ed pin policy now pf))"

section \<open>Binding of the sparse map\<close>

text \<open>The inputs hashed from the leaf to the root of a map proof.\<close>

definition map_leaf_input :: "hash \<Rightarrow> map_entry option \<Rightarrow> bytes" where
  "map_leaf_input key entry_opt = (case entry_opt of
     None \<Rightarrow> MAP_EMPTY_DOMAIN
   | Some entry \<Rightarrow> MAP_LEAF_DOMAIN @ key @ parse_hex_pairs (entry_leaf_hash entry)
        @ u64_to_be (entry_version entry) @ [if entry_revoked entry then 1 else 0])"

fun map_path_inputs :: "(bytes \<Rightarrow> hash) \<Rightarrow> hash \<Rightarrow> nat \<Rightarrow> hash list \<Rightarrow> hash \<Rightarrow> bytes set" where
  "map_path_inputs H key offset [] current = {}"
| "map_path_inputs H key offset (sibling # siblings) current =
     (let x = MAP_NODE_DOMAIN @ (if bit_at key (SPARSE_MAP_DEPTH - 1 - offset) = 0 then current @ sibling else sibling @ current) in
      insert x (map_path_inputs H key (Suc offset) siblings (H x)))"

definition map_proof_inputs :: "(bytes \<Rightarrow> hash) \<Rightarrow> map_proof \<Rightarrow> bytes set" where
  "map_proof_inputs H pf =
     (let key = sparse_map_key H (map_stable_label pf);
          leaf = map_leaf_input key (map_entry_opt pf) in
      insert leaf (map_path_inputs H key 0 (map parse_hex_pairs (map_siblings pf)) (H leaf)))"

lemma map_fold_node:
  "map_fold H key offset (s # ss) cur = map_fold H key (Suc offset) ss
     (H (MAP_NODE_DOMAIN @ (if bit_at key (SPARSE_MAP_DEPTH - 1 - offset) = 0 then cur @ s else s @ cur)))"
  by (simp add: sparse_map_node_hash_def domain_hash_def Let_def)

lemma map_fold_unique:
  assumes "hash_function H"
  shows "map_fold H key offset ss cur = map_fold H key offset ss' cur' \<Longrightarrow> length ss = length ss' \<Longrightarrow>
    hashes ss \<Longrightarrow> hashes ss' \<Longrightarrow> length cur = 32 \<Longrightarrow> length cur' = 32 \<Longrightarrow>
    inj_on H (map_path_inputs H key offset ss cur \<union> map_path_inputs H key offset ss' cur') \<Longrightarrow> cur = cur'"
proof (induction ss arbitrary: ss' cur cur' offset)
  case (Cons s ss)
  obtain t ts where t: "ss' = t # ts" using Cons.prems(2) by (cases ss') auto
  let ?in = "\<lambda>s cur. MAP_NODE_DOMAIN @ (if bit_at key (SPARSE_MAP_DEPTH - 1 - offset) = 0 then cur @ s else s @ cur)"
  have inj: "inj_on H (insert (?in s cur) (map_path_inputs H key (Suc offset) ss (H (?in s cur)))
      \<union> insert (?in t cur') (map_path_inputs H key (Suc offset) ts (H (?in t cur'))))"
    using Cons.prems(7) by (simp add: t Let_def)
  have "H (?in s cur) = H (?in t cur')"
  proof (rule Cons.IH)
    show "map_fold H key (Suc offset) ss (H (?in s cur)) = map_fold H key (Suc offset) ts (H (?in t cur'))"
      using Cons.prems(1) unfolding t map_fold_node .
    show "inj_on H (map_path_inputs H key (Suc offset) ss (H (?in s cur)) \<union> map_path_inputs H key (Suc offset) ts (H (?in t cur')))"
      by (rule inj_on_subset[OF inj]) blast
  qed (use Cons.prems assms in \<open>auto simp: t\<close>)
  then have "?in s cur = ?in t cur'" using inj_onD[OF inj] by blast
  then show ?case using Cons.prems(3-6) by (auto simp: t split: if_splits)
qed simp

lemma map_proof_leaf_Inr:
  assumes "map_proof_leaf H key entry_opt = Inr cur"
  shows "cur = H (map_leaf_input key entry_opt)"
proof (cases entry_opt)
  case (Some e)
  then have "validate_hex_hash (entry_leaf_hash e) = Inr ()"
    using assms by (auto simp: map_proof_leaf_def and_then_Inr_iff)
  then show ?thesis
    using assms Some
    by (simp add: map_proof_leaf_def map_leaf_input_def sparse_map_leaf_hash_def domain_hash_def parse_hash_def
        Let_def ensure_Inr_iff)
qed (use assms in \<open>auto simp: map_proof_leaf_def map_leaf_input_def sparse_map_default_hashes_def domain_hash_def
      SPARSE_MAP_DEPTH_def nth_append\<close>)

lemma map_leaf_input_inject:
  assumes "map_leaf_input key e = map_leaf_input key e'"
    and "\<And>x. e = Some x \<Longrightarrow> length (entry_leaf_hash x) = 64" "\<And>x. e' = Some x \<Longrightarrow> length (entry_leaf_hash x) = 64"
  shows "(case (e, e') of
      (None, None) \<Rightarrow> True
    | (Some x, Some y) \<Rightarrow> parse_hex_pairs (entry_leaf_hash x) = parse_hex_pairs (entry_leaf_hash y)
        \<and> entry_version x = entry_version y \<and> entry_revoked x = entry_revoked y
    | _ \<Rightarrow> False)"
  using assms
  by (cases e; cases e')
    (auto simp: map_leaf_input_def MAP_EMPTY_DOMAIN_def MAP_LEAF_DOMAIN_def ascii_def length_parse_hex_pairs
      u64_to_be_inject split: if_splits)

lemma parse_hash_ok: "is_ok (parse_hash v) \<Longrightarrow> parse_hash v = Inr (parse_hex_pairs v)"
  by (auto simp: is_ok_iff result_simps)

lemma parse_hashes_map: "parse_hashes vs = Inr hs \<Longrightarrow> hs = map parse_hex_pairs vs"
  by (induction vs arbitrary: hs) (auto simp: result_simps)

lemma verify_kt_map_proof_Inr:
  assumes "verify_kt_map_proof H ed pin policy now p = Inr f"
  shows "length (map_siblings p) = SPARSE_MAP_DEPTH"
    and "hashes (map parse_hex_pairs (map_siblings p))"
    and "hex_encode (map_fold H (sparse_map_key H (map_stable_label p)) 0 (map parse_hex_pairs (map_siblings p))
      (H (map_leaf_input (sparse_map_key H (map_stable_label p)) (map_entry_opt p)))) = sth_map_root_hash (map_sth p)"
    and "\<And>x. map_entry_opt p = Some x \<Longrightarrow> length (entry_leaf_hash x) = 64"
proof -
  obtain cur hs where c: "map_proof_leaf H (sparse_map_key H (map_stable_label p)) (map_entry_opt p) = Inr cur"
      "parse_hashes (map_siblings p) = Inr hs" "length (map_siblings p) = SPARSE_MAP_DEPTH"
      "hex_encode (map_fold H (sparse_map_key H (map_stable_label p)) 0 hs cur) = sth_map_root_hash (map_sth p)"
    using assms by (auto simp: verify_kt_map_proof_def Let_def result_simps parse_hash_path_def)
  show "length (map_siblings p) = SPARSE_MAP_DEPTH" by (rule c(3))
  show "hashes (map parse_hex_pairs (map_siblings p))"
    using parse_hashes_map[OF c(2)] parse_hashes_lengths[OF c(2)] by (simp add: hashes_def)
  show "hex_encode (map_fold H (sparse_map_key H (map_stable_label p)) 0 (map parse_hex_pairs (map_siblings p))
      (H (map_leaf_input (sparse_map_key H (map_stable_label p)) (map_entry_opt p)))) = sth_map_root_hash (map_sth p)"
    using c(4) parse_hashes_map[OF c(2)] map_proof_leaf_Inr[OF c(1)] by simp
  show "length (entry_leaf_hash x) = 64" if "map_entry_opt p = Some x" for x
    using c(1) that by (auto simp: map_proof_leaf_def result_simps)
qed

text \<open>
  C27: the directory is a function. Two map proofs for one label that verify against the same
  map root, in any order and at any time, make the same claim: both that the label is absent,
  or both the same entry digest, version and revocation; in particular inclusion and
  non-inclusion of a label never both verify. The hash may not collide on the inputs of the
  two verifications.
\<close>

theorem map_proofs_agree:
  assumes "hash_function H"
    and "verify_kt_map_proof H ed pin policy now p = Inr f" and "verify_kt_map_proof H ed' pin' policy' now' q = Inr g"
    and "map_stable_label p = map_stable_label q" and "sth_map_root_hash (map_sth p) = sth_map_root_hash (map_sth q)"
    and inj: "inj_on H (map_proof_inputs H p \<union> map_proof_inputs H q)"
  shows "case (map_entry_opt p, map_entry_opt q) of
      (None, None) \<Rightarrow> True
    | (Some x, Some y) \<Rightarrow> parse_hash (entry_leaf_hash x) = parse_hash (entry_leaf_hash y)
        \<and> entry_version x = entry_version y \<and> entry_revoked x = entry_revoked y
    | _ \<Rightarrow> False"
proof -
  note P = verify_kt_map_proof_Inr[OF assms(2)] and Q = verify_kt_map_proof_Inr[OF assms(3)]
  let ?key = "sparse_map_key H (map_stable_label q)"
  let ?in = "\<lambda>r. map_leaf_input ?key (map_entry_opt r)" and ?ss = "\<lambda>r. map parse_hex_pairs (map_siblings r)"
  have fold: "map_fold H ?key 0 (?ss p) (H (?in p)) = map_fold H ?key 0 (?ss q) (H (?in q))"
    using P(3) Q(3) assms(4,5) hex_encode_inject by metis
  have sets: "map_proof_inputs H p = insert (?in p) (map_path_inputs H ?key 0 (?ss p) (H (?in p)))"
      "map_proof_inputs H q = insert (?in q) (map_path_inputs H ?key 0 (?ss q) (H (?in q)))"
    using assms(4) by (simp_all add: map_proof_inputs_def Let_def)
  have "H (?in p) = H (?in q)"
  proof (rule map_fold_unique[OF assms(1) fold])
    show "inj_on H (map_path_inputs H ?key 0 (?ss p) (H (?in p)) \<union> map_path_inputs H ?key 0 (?ss q) (H (?in q)))"
      by (rule inj_on_subset[OF inj]) (auto simp: sets)
  qed (use P(1,2) Q(1,2) assms(1) in simp_all)
  then have "?in p = ?in q" using inj_onD[OF inj, of "?in p" "?in q"] sets by blast
  from map_leaf_input_inject[OF this P(4) Q(4)] have "case (map_entry_opt p, map_entry_opt q) of
      (None, None) \<Rightarrow> True
    | (Some x, Some y) \<Rightarrow> parse_hex_pairs (entry_leaf_hash x) = parse_hex_pairs (entry_leaf_hash y)
        \<and> entry_version x = entry_version y \<and> entry_revoked x = entry_revoked y
    | _ \<Rightarrow> False" by blast
  moreover have "parse_hash v = parse_hash w" if "parse_hex_pairs v = parse_hex_pairs w" "is_ok (parse_hash v)" "is_ok (parse_hash w)" for v w
    using that by (simp add: parse_hash_ok)
  moreover have "is_ok (parse_hash (entry_leaf_hash x))" if "map_entry_opt r = Some x" "verify_kt_map_proof H e k po n r = Inr h" for r x e k po n h
    using that by (auto simp: verify_kt_map_proof_def map_proof_leaf_def Let_def result_simps is_ok_iff)
  ultimately show ?thesis
    using assms(2,3) by (cases "map_entry_opt p"; cases "map_entry_opt q") auto
qed

text \<open>
  A run of the verifier: a hash that counts the levels above a leaf, so that the inputs of one
  proof do not collide, and a proof that a label is absent from the empty map.
\<close>

definition count_bytes :: "nat \<Rightarrow> hash" where
  "count_bytes n = [of_nat (n mod 256), of_nat (n div 256)] @ replicate 30 0"

definition counting_hash :: "bytes \<Rightarrow> hash" where
  "counting_hash b =
     (if length b = 84 then count_bytes (Suc (unat (b ! 20) + 256 * unat (b ! 21))) else count_bytes 0)"

definition sample_ed25519 :: ed25519 where
  "sample_ed25519 = \<lparr>valid_public_key = (\<lambda>_. True), verify_strict = (\<lambda>_ _ _. True)\<rparr>"

definition sample_pin :: pinned_key where
  "sample_pin = \<lparr>pin_log_id = lit ''log'', pin_key_id = lit ''key'', pin_public_key = replicate 32 1,
     pin_provenance = UserConfiguredExternal\<rparr>"

definition sample_policy :: freshness_policy where
  "sample_policy = \<lparr>max_sth_age = 3600, max_future_skew = 60\<rparr>"

definition sample_sth :: "u64 \<Rightarrow> hash \<Rightarrow> hash \<Rightarrow> signed_tree_head" where
  "sample_sth n root map_root =
     \<lparr>sth_protocol_version = SECURE_MESH_KT_PROTOCOL_VERSION, sth_log_id = lit ''log'', sth_key_id = lit ''key'',
      sth_tree_size = n, sth_root_hash = hex_encode root, sth_map_root_hash = hex_encode map_root,
      sth_issued_at = 1000, sth_signature = replicate 128 48\<rparr>"

definition sample_absence :: map_proof where
  "sample_absence =
     \<lparr>map_stable_label = replicate 64 97, map_entry_opt = None,
      map_siblings = replicate 256 (replicate 64 48),
      map_sth = sample_sth 1 (replicate 32 0) (count_bytes 256)\<rparr>"

lemma length_count_bytes [simp]: "length (count_bytes n) = 32"
  by (simp add: count_bytes_def)

lemma counting_hash_function: "hash_function counting_hash"
  by (simp add: hash_function_def counting_hash_def)

lemma length_MAP_NODE_DOMAIN: "length MAP_NODE_DOMAIN = 20"
  by (simp add: MAP_NODE_DOMAIN_def ascii_def)

lemma counting_hash_node:
  assumes "k < 65535" "length s = 32"
  shows "counting_hash (MAP_NODE_DOMAIN @ count_bytes k @ s) = count_bytes (Suc k)"
proof -
  have "k div 256 < 256" using assms(1) by auto
  then have "unat (of_nat (k mod 256) :: u8) = k mod 256" "unat (of_nat (k div 256) :: u8) = k div 256"
    by (simp_all add: unat_of_nat)
  then show ?thesis
    using assms(2)
    by (simp add: counting_hash_def length_MAP_NODE_DOMAIN nth_append) (simp add: count_bytes_def)
qed

lemma bit_at_zero: "d < 256 \<Longrightarrow> bit_at (count_bytes 0) d = 0"
proof -
  assume d: "d < 256"
  then have "d div 8 < 32" by auto
  then have "count_bytes 0 ! (d div 8) = 0" by (auto simp: count_bytes_def nth_Cons split: nat.splits)
  then show ?thesis by (simp add: bit_at_def)
qed

lemma counting_path:
  "offset + n \<le> 256 \<Longrightarrow> k + n < 65535 \<Longrightarrow> length s = 32 \<Longrightarrow>
    map_fold counting_hash (count_bytes 0) offset (replicate n s) (count_bytes k) = count_bytes (k + n)
    \<and> map_path_inputs counting_hash (count_bytes 0) offset (replicate n s) (count_bytes k) =
        (\<lambda>j. MAP_NODE_DOMAIN @ count_bytes j @ s) ` {k..<k + n}"
proof (induction n arbitrary: offset k)
  case (Suc n)
  have bit: "bit_at (count_bytes 0) (SPARSE_MAP_DEPTH - 1 - offset) = 0"
    using Suc.prems(1) by (intro bit_at_zero) (simp add: SPARSE_MAP_DEPTH_def)
  have node: "counting_hash (MAP_NODE_DOMAIN @ count_bytes k @ s) = count_bytes (Suc k)"
    using Suc.prems by (intro counting_hash_node) auto
  have "{k..<k + Suc n} = insert k {Suc k..<Suc k + n}" by auto
  then show ?case
    using Suc.IH[of "Suc offset" "Suc k"] Suc.prems bit node
    by (simp add: map_fold_node Let_def del: map_fold.simps(2))
qed simp

lemma count_bytes_eq_iff: "i \<le> 256 \<Longrightarrow> j \<le> 256 \<Longrightarrow> count_bytes i = count_bytes j \<longleftrightarrow> i = j"
proof
  assume ij: "i \<le> 256" "j \<le> 256" "count_bytes i = count_bytes j"
  then have "(of_nat (i mod 256) :: u8) = of_nat (j mod 256)" "(of_nat (i div 256) :: u8) = of_nat (j div 256)"
    by (simp_all add: count_bytes_def)
  then have "unat (of_nat (i mod 256) :: u8) = unat (of_nat (j mod 256) :: u8)"
      "unat (of_nat (i div 256) :: u8) = unat (of_nat (j div 256) :: u8)" by simp_all
  moreover have "i div 256 < 256" "j div 256 < 256" using ij by auto
  ultimately have "i mod 256 = j mod 256" "i div 256 = j div 256" by (simp_all add: unat_of_nat)
  then show "i = j" by (metis div_mult_mod_eq)
qed simp

lemma parse_zeros: "parse_hex_pairs (replicate (2 * n) 48) = replicate n 0"
  by (induction n) (simp_all add: hex_value_def)

lemma sample_label:
  "sparse_map_key counting_hash (replicate 64 97) = count_bytes 0"
  "parse_hex_pairs (replicate 64 48) = replicate 32 0"
  "parse_hash (replicate 64 48) = Inr (replicate 32 0)"
  "counting_hash MAP_EMPTY_DOMAIN = count_bytes 0"
proof -
  have "length (utf8 (replicate 64 97)) = 64"
    using hex_str_len[of "replicate 64 97"] by (simp add: str_len_def is_hexdigit_def)
  then show "sparse_map_key counting_hash (replicate 64 97) = count_bytes 0"
    by (simp add: sparse_map_key_def domain_hash_def counting_hash_def MAP_KEY_DOMAIN_def ascii_def)
  show z: "parse_hex_pairs (replicate 64 48) = replicate 32 0" using parse_zeros[of 32] by simp
  show "parse_hash (replicate 64 48) = Inr (replicate 32 0)"
    using z by (simp add: parse_hash_Inr_iff is_hexdigit_def)
  show "counting_hash MAP_EMPTY_DOMAIN = count_bytes 0"
    by (simp add: counting_hash_def MAP_EMPTY_DOMAIN_def ascii_def)
qed

lemma sample_absence_inputs:
  "inj_on counting_hash (map_proof_inputs counting_hash sample_absence)"
proof -
  let ?z = "replicate 32 (0 :: u8)"
  have inputs: "map_proof_inputs counting_hash sample_absence =
      insert MAP_EMPTY_DOMAIN ((\<lambda>j. MAP_NODE_DOMAIN @ count_bytes j @ ?z) ` {0..<256})"
    using counting_path[of 0 256 0 ?z]
    by (simp add: map_proof_inputs_def sample_absence_def sample_label map_leaf_input_def Let_def)
  have node: "counting_hash (MAP_NODE_DOMAIN @ count_bytes j @ ?z) = count_bytes (Suc j)" if "j < 256" for j
    using that by (intro counting_hash_node) auto
  show ?thesis
    unfolding inputs
    by (intro inj_onI) (auto simp: node sample_label count_bytes_eq_iff)
qed

lemma sample_sth_verifies:
  assumes "length root = 32" "length map_root = 32" "n \<le> KT_JSON_SAFE_INTEGER_MAX"
  shows "sth_verify sample_ed25519 sample_pin sample_policy 1030 (sample_sth n root map_root) =
     Inr \<lparr>fresh_observed_at = 1030, fresh_issued_at = 1000, fresh_max_age = 3600, fresh_max_skew = 60\<rparr>"
proof -
  have hex: "validate_hex_hash (hex_encode h) = Inr ()" if "length h = 32" for h
    using hex_encode_digits[of h] that by (simp add: validate_hex_hash_Inr_iff)
  have names: "validate_kt_text (lit ''log'') = Inr ()" "validate_kt_text (lit ''key'') = Inr ()"
    by (simp_all add: validate_kt_text_def lit_def trim_Nil_iff white_space_def str_len_def utf8_char_def
        MAX_TRANSPARENCY_FIELD_BYTES_def)
  have sig: "parse_signature (replicate 128 48) = Inr (parse_hex_pairs (replicate 128 48))"
    using hex_str_len[of "replicate 128 48"] by (simp add: parse_signature_def is_hexdigit_def)
  have time: "(1000 :: u64) \<le> KT_JSON_SAFE_INTEGER_MAX" "(1000 :: u64) \<le> saturating_add 1030 60" "(1030 :: u64) \<le> saturating_add 1000 3600"
    by (simp_all add: KT_JSON_SAFE_INTEGER_MAX_def saturating_add_def)
  show ?thesis
    using assms hex names sig time
    by (simp add: sth_verify_def verify_authenticity_def verify_freshness_def sth_sign_payload_def sample_sth_def
        sample_pin_def sample_policy_def sample_ed25519_def parse_hash_hex_encode Let_def)
qed

lemma sample_absence_verifies:
  "verify_kt_map_proof counting_hash sample_ed25519 sample_pin sample_policy 1030 sample_absence =
     Inr \<lparr>fresh_observed_at = 1030, fresh_issued_at = 1000, fresh_max_age = 3600, fresh_max_skew = 60\<rparr>"
proof -
  let ?z = "replicate 32 (0 :: u8)"
  have sth: "sth_verify sample_ed25519 sample_pin sample_policy 1030 (sample_sth 1 (replicate 32 0) (count_bytes 256)) =
     Inr \<lparr>fresh_observed_at = 1030, fresh_issued_at = 1000, fresh_max_age = 3600, fresh_max_skew = 60\<rparr>"
    by (rule sample_sth_verifies) (simp_all add: KT_JSON_SAFE_INTEGER_MAX_def)
  have label: "validate_hex_hash (replicate 64 97) = Inr ()" by (simp add: validate_hex_hash_Inr_iff is_hexdigit_def)
  have path: "parse_hashes (replicate n (replicate 64 48)) = Inr (replicate n ?z)" for n
    by (induction n) (simp_all add: sample_label)
  have leaf: "map_proof_leaf counting_hash (count_bytes 0) None = Inr (count_bytes 0)"
    by (simp add: map_proof_leaf_def sparse_map_default_hashes_def SPARSE_MAP_DEPTH_def nth_append domain_hash_def sample_label)
  have fold: "map_fold counting_hash (count_bytes 0) 0 (replicate 256 ?z) (count_bytes 0) = count_bytes 256"
    using counting_path[of 0 256 0 ?z] by simp
  show ?thesis
    using sth
    by (simp add: verify_kt_map_proof_def sample_absence_def sample_label label leaf path parse_hash_path_def
        SPARSE_MAP_DEPTH_def fold Let_def) (simp add: sample_sth_def)
qed

theorem map_proofs_agree_witness:
  "\<exists>f. verify_kt_map_proof counting_hash sample_ed25519 sample_pin sample_policy 1030 sample_absence = Inr f
    \<and> map_entry_opt sample_absence = None"
proof -
  have inj: "inj_on counting_hash (map_proof_inputs counting_hash sample_absence \<union> map_proof_inputs counting_hash sample_absence)"
    using sample_absence_inputs by simp
  from map_proofs_agree[OF counting_hash_function sample_absence_verifies sample_absence_verifies refl refl inj]
  have "map_entry_opt sample_absence = None" by (simp add: sample_absence_def)
  then show ?thesis using sample_absence_verifies by blast
qed

section \<open>Signed tree heads and checkpoints\<close>

lemma saturating_add_le_iff: "a \<le> saturating_add b c \<longleftrightarrow> unat a \<le> unat b + unat c"
proof (cases "unat b + unat c < 2 ^ 64")
  case True
  then have "unat (b + c) = unat b + unat c" by (simp add: unat_word_ariths)
  then show ?thesis using True by (simp add: saturating_add_def word_le_nat_alt)
next
  case False
  moreover have "unat a < 2 ^ 64" using unsigned_less[of a] by simp
  ultimately show ?thesis by (simp add: saturating_add_def)
qed

text \<open>
  The freshness window is exact. A tree head is refused as from the future exactly when it
  was issued after the local time plus the skew, and as stale exactly when the local time is
  after its issue plus the maximal age, as unbounded sums: saturation never moves the window.
\<close>

theorem freshness_window:
  "verify_freshness policy now sth =
     (if unat now + unat (max_future_skew policy) < unat (sth_issued_at sth) then Inl FromFuture
      else if unat (sth_issued_at sth) + unat (max_sth_age policy) < unat now then Inl Stale
      else Inr \<lparr>fresh_observed_at = now, fresh_issued_at = sth_issued_at sth,
        fresh_max_age = max_sth_age policy, fresh_max_skew = max_future_skew policy\<rparr>)"
  by (simp add: verify_freshness_def saturating_add_le_iff ensure_def)

text \<open>
  the signed transcript is unambiguous. Two tree heads that are authentic under one pinned
  key and are signed over the same bytes agree in every signed field: tree size, root digest,
  map root digest, issue time and all identifiers.
\<close>

theorem signed_heads_unambiguous:
  assumes "verify_authenticity ed pin s = Inr ()" and "verify_authenticity ed pin t = Inr ()"
    and "sth_sign_payload s = Inr payload" and "sth_sign_payload t = Inr payload"
  shows "sth_tree_size s = sth_tree_size t \<and> sth_issued_at s = sth_issued_at t
    \<and> parse_hash (sth_root_hash s) = parse_hash (sth_root_hash t)
    \<and> parse_hash (sth_map_root_hash s) = parse_hash (sth_map_root_hash t)
    \<and> sth_protocol_version s = sth_protocol_version t \<and> sth_log_id s = sth_log_id t \<and> sth_key_id s = sth_key_id t"
proof -
  have ids: "sth_protocol_version s = sth_protocol_version t" "sth_log_id s = sth_log_id t" "sth_key_id s = sth_key_id t"
    using assms(1,2) by (auto simp: verify_authenticity_def result_simps)
  obtain r m where rm: "parse_hash (sth_root_hash s) = Inr r" "parse_hash (sth_map_root_hash s) = Inr m"
    using assms(3) by (auto simp: sth_sign_payload_def Let_def and_then_Inr_iff)
  obtain r' m' where rm': "parse_hash (sth_root_hash t) = Inr r'" "parse_hash (sth_map_root_hash t) = Inr m'"
    using assms(4) by (auto simp: sth_sign_payload_def Let_def and_then_Inr_iff)
  have "u64_to_be (sth_tree_size s) @ r @ m @ u64_to_be (sth_issued_at s) =
      u64_to_be (sth_tree_size t) @ r' @ m' @ u64_to_be (sth_issued_at t)"
    using assms(3,4) rm rm' ids
    by (auto simp: sth_sign_payload_def Let_def and_then_Inr_iff append_len_prefixed_def)
  then show ?thesis
    using ids rm rm' parse_hash_length[OF rm(1)] parse_hash_length[OF rm(2)] parse_hash_length[OF rm'(1)] parse_hash_length[OF rm'(2)]
    by (simp add: u64_to_be_inject)
qed

theorem signed_heads_unambiguous_witness:
  "\<exists>payload. verify_authenticity sample_ed25519 sample_pin (sample_sth 5 (replicate 32 1) (replicate 32 2)) = Inr ()
    \<and> sth_sign_payload (sample_sth 5 (replicate 32 1) (replicate 32 2)) = Inr payload
    \<and> parse_hash (sth_root_hash (sample_sth 5 (replicate 32 1) (replicate 32 2))) = Inr (replicate 32 1)"
proof -
  let ?s = "sample_sth 5 (replicate 32 1) (replicate 32 2)"
  have "sth_verify sample_ed25519 sample_pin sample_policy 1030 ?s =
     Inr \<lparr>fresh_observed_at = 1030, fresh_issued_at = 1000, fresh_max_age = 3600, fresh_max_skew = 60\<rparr>"
    by (rule sample_sth_verifies) (simp_all add: KT_JSON_SAFE_INTEGER_MAX_def)
  then have auth: "verify_authenticity sample_ed25519 sample_pin ?s = Inr ()"
    by (auto simp: sth_verify_def and_then_Inr_iff)
  then obtain p where p: "sth_sign_payload ?s = Inr p"
    by (auto simp: verify_authenticity_def ensure_Inr_iff and_then_Inr_iff)
  have "parse_hash (sth_root_hash ?s) = Inr (replicate 32 1)"
    using parse_hash_hex_encode[of "replicate 32 1"] by (simp add: sample_sth_def)
  with signed_heads_unambiguous[OF auth auth p p] auth p show ?thesis by blast
qed

text \<open>
  an accepted checkpoint never rewrites history. When the client advances from its cached
  checkpoint to a tree head that commits a log, the size does not shrink and the cached root
  was the tree hash of a prefix of that log, unless the hash collides on the inputs of the
  verification and of the tree.
\<close>

theorem checkpoint_commits_prefix:
  assumes "hash_function H" and "hashes leaves"
    and ok: "verify_kt_consistency H ed pin policy now pf cached = Inr cp"
    and sth: "sth_root_hash (con_second_sth pf) = hex_encode (merkle_tree_hash H leaves)"
      "unat (sth_tree_size (con_second_sth pf)) = length leaves"
    and inj: "inj_on H (consistency_inputs H (unat (cp_tree_size cached)) (length leaves)
        (parse_hex_pairs (cp_root_hash cached)) (map parse_hex_pairs (con_path pf)) \<union> merkle_inputs H leaves)"
  shows "cp = checkpoint_from_sth (con_second_sth pf) \<and> cp_tree_size cached \<le> cp_tree_size cp
    \<and> parse_hash (cp_root_hash cached) = Inr (merkle_tree_hash H (take (unat (cp_tree_size cached)) leaves))"
proof -
  obtain r1 r2 path where c: "parse_hash (cp_root_hash cached) = Inr r1"
      "parse_hash (sth_root_hash (con_second_sth pf)) = Inr r2" "parse_hashes (con_path pf) = Inr path"
      "verify_rfc9162_consistency H (unat (cp_tree_size cached)) (unat (sth_tree_size (con_second_sth pf))) r1 r2 path = Inr ()"
      "cp = checkpoint_from_sth (con_second_sth pf)" "cp_tree_size cached \<le> sth_tree_size (con_second_sth pf)"
    using ok by (auto simp: verify_kt_consistency_def and_then_Inr_iff ensure_Inr_iff parse_hash_path_def)
  have "r2 = merkle_tree_hash H leaves"
    using c(2) parse_hash_hex_encode[of "merkle_tree_hash H leaves"] length_merkle[OF assms(1,2)] sth(1) by simp
  moreover have "length r1 = 32" "hashes path" "r1 = parse_hex_pairs (cp_root_hash cached)" "path = map parse_hex_pairs (con_path pf)"
    using parse_hash_length[OF c(1)] parse_hashes_lengths[OF c(3)] parse_hashes_map[OF c(3)] c(1)
    by (auto simp: hashes_def parse_hash_Inr_iff)
  moreover have "unat (cp_tree_size cached) \<le> length leaves"
    using c(6) sth(2) by (simp add: word_le_nat_alt)
  ultimately have "r1 = merkle_tree_hash H (take (unat (cp_tree_size cached)) leaves)"
    using consistency_path_sound[OF assms(1,2), of r1 path "unat (cp_tree_size cached)"] c(4) sth(2) inj by simp
  then show ?thesis using c(1,5,6) by (simp add: checkpoint_from_sth_def)
qed

theorem checkpoint_commits_prefix_witness:
  "\<exists>cp. verify_kt_consistency sample_hash sample_ed25519 sample_pin sample_policy 1030
      \<lparr>con_first_tree_size = 1, con_second_tree_size = 2, con_first_root_hash = hex_encode (leaf_of 1),
       con_path = [hex_encode (leaf_of 2)],
       con_second_sth = sample_sth 2 (merkle_tree_hash sample_hash [leaf_of 1, leaf_of 2]) (replicate 32 0)\<rparr>
      \<lparr>cp_tree_size = 1, cp_root_hash = hex_encode (leaf_of 1), cp_map_root_hash = hex_encode (replicate 32 0), cp_issued_at = 5\<rparr> = Inr cp
    \<and> cp_tree_size cp = 2"
proof -
  let ?root = "merkle_tree_hash sample_hash [leaf_of 1, leaf_of 2]"
  let ?pf = "\<lparr>con_first_tree_size = 1, con_second_tree_size = 2, con_first_root_hash = hex_encode (leaf_of 1),
       con_path = [hex_encode (leaf_of 2)], con_second_sth = sample_sth 2 ?root (replicate 32 0)\<rparr>"
  let ?cached = "\<lparr>cp_tree_size = 1, cp_root_hash = hex_encode (leaf_of 1), cp_map_root_hash = hex_encode (replicate 32 0), cp_issued_at = 5\<rparr>"
  have len: "length ?root = 32" "length (leaf_of v) = 32" for v
    using length_merkle[OF sample_log(1,2)] by (simp_all add: leaf_of_def)
  have sth: "sth_verify sample_ed25519 sample_pin sample_policy 1030 (sample_sth 2 ?root (replicate 32 0)) =
     Inr \<lparr>fresh_observed_at = 1030, fresh_issued_at = 1000, fresh_max_age = 3600, fresh_max_skew = 60\<rparr>"
    by (rule sample_sth_verifies) (simp_all add: len KT_JSON_SAFE_INTEGER_MAX_def)
  have n: "unat (1::u64) = Suc 0" "unat (2::u64) = 2" by simp_all
  have fields: "sth_root_hash (sample_sth 2 ?root (replicate 32 0)) = hex_encode ?root"
      "sth_tree_size (sample_sth 2 ?root (replicate 32 0)) = 2"
    by (simp_all add: sample_sth_def)
  have ok: "verify_kt_consistency sample_hash sample_ed25519 sample_pin sample_policy 1030 ?pf ?cached =
      Inr (checkpoint_from_sth (sample_sth 2 ?root (replicate 32 0)))"
    using sample_log(8)[folded numeral_2_eq_2]
    by (simp add: verify_kt_consistency_def sth fields parse_hash_hex_encode len parse_hash_path_def
        KT_JSON_SAFE_INTEGER_MAX_def MAX_CONSISTENCY_PROOF_HASHES_def n)
  have inj: "inj_on sample_hash (consistency_inputs sample_hash 1 (Suc (Suc 0)) (leaf_of 1) [leaf_of 2]
      \<union> merkle_inputs sample_hash [leaf_of 1, leaf_of 2])"
    using sample_log by (simp add: consistency_inputs_def)
  have p1: "sth_root_hash (con_second_sth ?pf) = hex_encode ?root"
    and p2: "unat (sth_tree_size (con_second_sth ?pf)) = length [leaf_of 1, leaf_of 2]"
    by (simp_all add: fields)
  have p3: "inj_on sample_hash (consistency_inputs sample_hash (unat (cp_tree_size ?cached)) (length [leaf_of 1, leaf_of 2])
        (parse_hex_pairs (cp_root_hash ?cached)) (map parse_hex_pairs (con_path ?pf)) \<union> merkle_inputs sample_hash [leaf_of 1, leaf_of 2])"
    using inj by (simp add: n parse_hex_encode)
  have "cp_tree_size ?cached \<le> cp_tree_size (checkpoint_from_sth (sample_sth 2 ?root (replicate 32 0)))"
    using checkpoint_commits_prefix[OF sample_log(1,2) ok p1 p2 p3] by blast
  then show ?thesis using ok fields by (simp add: checkpoint_from_sth_def)
qed

end
