(* ===== verification/Catalog_Model.thy ===== *)
theory Catalog_Model
  imports Digest
begin

text \<open>
  Data of the catalog convergence crate (\<open>lico-catalog-convergence/src/model.rs\<close>): snapshots of
  a tool catalog per partition, invalidations, cohort entries, results, and the digest of a
  snapshot.
\<close>

section \<open>Targets\<close>

datatype client_target = Macos | Linux | Windows | Ios | Android

definition to_ascii_lowercase :: "rstr \<Rightarrow> rstr" where
  "to_ascii_lowercase s = map (\<lambda>c. if 65 \<le> c \<and> c \<le> 90 then c + 32 else c) s"

fun client_target_str :: "client_target \<Rightarrow> rstr" where
  "client_target_str Macos = lit ''macos''"
| "client_target_str Linux = lit ''linux''"
| "client_target_str Windows = lit ''windows''"
| "client_target_str Ios = lit ''ios''"
| "client_target_str Android = lit ''android''"

definition client_target_parse :: "rstr \<Rightarrow> client_target option" where
  "client_target_parse v =
     (let s = to_ascii_lowercase (trim v) in
      if s = lit ''macos'' then Some Macos
      else if s = lit ''linux'' then Some Linux
      else if s = lit ''windows'' then Some Windows
      else if s = lit ''ios'' then Some Ios
      else if s = lit ''android'' then Some Android
      else None)"

definition ALLOWED_CLIENT_TARGETS :: "rstr list" where
  "ALLOWED_CLIENT_TARGETS = [lit ''macos'', lit ''linux'', lit ''windows'', lit ''ios'', lit ''android'']"

section \<open>Records\<close>

record tool_entry =
  tool_name :: rstr
  tool_descriptor :: "(rstr \<times> json) list"

definition tool_named :: "rstr \<Rightarrow> tool_entry" where
  "tool_named name = \<lparr>tool_name = name, tool_descriptor = []\<rparr>"

record fetched_snapshot =
  fet_source_revision :: i64
  fet_catalog_revision :: rstr
  fet_audience_revision :: i64
  fet_tools :: "tool_entry list"

record snapshot =
  snap_partition_key :: rstr
  snap_source_revision :: i64
  snap_catalog_revision :: rstr
  snap_audience_revision :: i64
  snap_tools :: "tool_entry list"
  snap_tool_count :: nat
  snap_fetched_at :: rstr
  snap_digest :: rstr

record pending_invalidation =
  pend_partition_key :: rstr
  pend_audience_revision :: i64
  pend_catalog_revision :: rstr
  pend_source_revision :: i64
  pend_reason_code :: rstr
  pend_at :: rstr

record pull_context =
  pull_partition_key :: rstr
  pull_pending_invalidation :: "pending_invalidation option"

record notification =
  note_affected_partitions :: "rstr list"
  note_partition_key :: "rstr option"
  note_source_revision :: i64
  note_catalog_revision :: rstr
  note_audience_revision :: i64
  note_reason_code :: rstr

record invalidation_result =
  accepted_partition_keys :: "rstr list"
  pending_count :: nat

datatype refresh_outcome =
    Replaced | Unchanged | FetchFailed | RejectedStale | RejectedConflict | RejectedCapacity

record refresh_result =
  ref_outcome :: refresh_outcome
  ref_partition_key :: rstr
  ref_snapshot :: "snapshot option"
  ref_retained :: "snapshot option"

datatype cohort_outcome = CohortPending | CohortApplied | CohortDisconnected | CohortFenced

fun cohort_wire_name :: "cohort_outcome \<Rightarrow> rstr" where
  "cohort_wire_name CohortPending = lit ''pending''"
| "cohort_wire_name CohortApplied = lit ''applied''"
| "cohort_wire_name CohortDisconnected = lit ''disconnected''"
| "cohort_wire_name CohortFenced = lit ''fenced''"

record cohort_entry =
  coh_partition_key :: rstr
  coh_outcome :: cohort_outcome
  coh_audience_revision :: i64
  coh_catalog_revision :: rstr
  coh_source_revision :: i64
  coh_at :: rstr

record discovery_result =
  disc_ok :: bool
  disc_reason_code :: rstr
  disc_tools :: "tool_entry list"
  disc_source_revision :: "i64 option"
  disc_catalog_revision :: "rstr option"
  disc_audience_revision :: "i64 option"

section \<open>Digests\<close>

definition is_hex_digest :: "rstr \<Rightarrow> bool" where
  "is_hex_digest v =
     (let n = trim v in str_len n = 64 \<and> (\<forall>c\<in>set n. is_hexdigit c \<and> \<not> (65 \<le> c \<and> c \<le> 90)))"

definition is_opaque_partition_key :: "rstr \<Rightarrow> bool" where
  "is_opaque_partition_key v = (let n = trim v in is_hex_digest n \<or> str_len n \<ge> 43)"

text \<open>\<open>to_value\<close> of an entry: the name and the flattened descriptor in one object.\<close>

definition tool_json :: "tool_entry \<Rightarrow> json" where
  "tool_json t = JObject (json_map ((lit ''name'', JString (tool_name t)) # tool_descriptor t))"

definition canonical_json_map :: "digest_env \<Rightarrow> (rstr \<times> json) list \<Rightarrow> rstr" where
  "canonical_json_map env kvs = env_json_text env (JObject (json_map kvs))"

definition digest_catalog_snapshot ::
    "digest_env \<Rightarrow> rstr \<Rightarrow> i64 \<Rightarrow> rstr \<Rightarrow> i64 \<Rightarrow> tool_entry list \<Rightarrow> rstr" where
  "digest_catalog_snapshot env partition_key source_revision catalog_revision audience_revision tools =
     sha256_hex env (canonical_json_map env
       [(lit ''audienceRevision'', json_i64 audience_revision),
        (lit ''catalogRevision'', JString (trim catalog_revision)),
        (lit ''partitionKey'', JString (trim partition_key)),
        (lit ''sourceRevision'', json_i64 source_revision),
        (lit ''tools'', JArray (map tool_json tools))])"

definition snapshot_from_fetched :: "digest_env \<Rightarrow> rstr \<Rightarrow> fetched_snapshot \<Rightarrow> rstr \<Rightarrow> snapshot" where
  "snapshot_from_fetched env partition_key fetched fetched_at =
     (let key = trim partition_key; catalog_revision = trim (fet_catalog_revision fetched);
          tools = fet_tools fetched in
      \<lparr>snap_partition_key = key, snap_source_revision = fet_source_revision fetched,
       snap_catalog_revision = catalog_revision, snap_audience_revision = fet_audience_revision fetched,
       snap_tools = tools, snap_tool_count = length tools, snap_fetched_at = fetched_at,
       snap_digest = digest_catalog_snapshot env key (fet_source_revision fetched) catalog_revision
         (fet_audience_revision fetched) tools\<rparr>)"

section \<open>Revisions\<close>

definition revision_number :: "i64 \<Rightarrow> i64" where
  "revision_number v = (if v \<ge> 0 then v else - 1)"

definition is_stale_candidate :: "snapshot \<Rightarrow> i64 \<Rightarrow> i64 \<Rightarrow> rstr \<Rightarrow> bool" where
  "is_stale_candidate current source audience catalog =
     (if audience \<ge> 0 \<and> snap_audience_revision current \<ge> 0
         \<and> (audience < snap_audience_revision current
            \<or> audience = snap_audience_revision current \<and> trim catalog \<noteq> []
              \<and> trim (snap_catalog_revision current) \<noteq> []
              \<and> trim catalog \<noteq> trim (snap_catalog_revision current)
              \<and> source < snap_source_revision current)
      then True
      else source \<ge> 0 \<and> snap_source_revision current \<ge> 0 \<and> source < snap_source_revision current)"

lemma fresh_candidate_revisions:
  assumes "\<not> is_stale_candidate current source audience catalog"
    and "0 \<le> source" "0 \<le> audience" "0 \<le> snap_source_revision current" "0 \<le> snap_audience_revision current"
  shows "snap_source_revision current \<le> source" "snap_audience_revision current \<le> audience"
  using assms by (auto simp: is_stale_candidate_def split: if_splits)

lemma client_target_parse_str [simp]: "client_target_parse (client_target_str t) = Some t"
proof -
  have "trim (client_target_str t) = client_target_str t"
    by (cases t) (simp_all add: trim_def lit_def white_space_def)
  moreover have "to_ascii_lowercase (client_target_str t) = client_target_str t"
    by (cases t) (simp_all add: to_ascii_lowercase_def lit_def)
  ultimately show ?thesis
    by (cases t) (simp_all add: client_target_parse_def lit_def)
qed

end
