(* ===== verification/Catalog_Engine.thy ===== *)
theory Catalog_Engine
  imports Catalog_Model
begin

text \<open>
  The catalog convergence engine (\<open>engine.rs\<close>): its state behind the mutex and one definition per
  operation that holds the lock from start to end. The clock is the argument \<open>now\<close>. Hash maps are
  association lists with distinct keys, \<open>max_partitions\<close> is the engine's configuration.
  The refresh protocol, which releases the lock between its steps, is in \<open>Catalog_Refresh\<close>.
\<close>

definition MAX_TOOLS_PER_PARTITION :: nat where "MAX_TOOLS_PER_PARTITION = 4096"

record engine_state =
  eng_partitions :: "(rstr \<times> snapshot) list"
  eng_pending :: "(rstr \<times> pending_invalidation) list"
  eng_cohort :: "(rstr \<times> cohort_entry) list"
  eng_in_flight :: "(rstr \<times> nat) list"
  eng_reconnect_fences :: "rstr set"
  eng_last_known_audience_revision :: i64
  eng_ui_observed_revisions :: "(rstr \<times> i64) list"

definition engine_new :: engine_state where
  "engine_new = \<lparr>eng_partitions = [], eng_pending = [], eng_cohort = [], eng_in_flight = [],
     eng_reconnect_fences = {}, eng_last_known_audience_revision = - 1, eng_ui_observed_revisions = []\<rparr>"

definition tracked_partition_count :: "engine_state \<Rightarrow> nat" where
  "tracked_partition_count s =
     length (remdups (map fst (eng_partitions s) @ map fst (eng_pending s) @ map fst (eng_cohort s)))"

definition tracks_key :: "engine_state \<Rightarrow> rstr \<Rightarrow> bool" where
  "tracks_key s key \<longleftrightarrow> hm_contains (eng_partitions s) key \<or> hm_contains (eng_pending s) key
     \<or> hm_contains (eng_cohort s) key"

section \<open>Invalidation\<close>

definition invalidation_keys :: "notification \<Rightarrow> rstr list" where
  "invalidation_keys n =
     (if note_affected_partitions n \<noteq> [] then note_affected_partitions n
      else case note_partition_key n of
        None \<Rightarrow> []
      | Some v \<Rightarrow> if trim v = [] then [] else [trim v])"

definition invalidation_reason :: "notification \<Rightarrow> rstr" where
  "invalidation_reason n =
     (if trim (note_reason_code n) = [] then lit ''tool_list_changed'' else trim (note_reason_code n))"

definition invalidation_refused :: "nat \<Rightarrow> notification \<Rightarrow> engine_state \<Rightarrow> rstr \<Rightarrow> bool" where
  "invalidation_refused bound n s key \<longleftrightarrow>
     \<not> tracks_key s key \<and> tracked_partition_count s \<ge> bound
     \<or> (case hm_get (eng_partitions s) key of
          None \<Rightarrow> False
        | Some current \<Rightarrow> is_stale_candidate current (note_source_revision n)
            (note_audience_revision n) (trim (note_catalog_revision n)))
     \<or> (case hm_get (eng_pending s) key of
          None \<Rightarrow> False
        | Some prior \<Rightarrow>
            pend_audience_revision prior > note_audience_revision n
            \<or> pend_source_revision prior > note_source_revision n
            \<or> pend_audience_revision prior = note_audience_revision n
              \<and> pend_source_revision prior = note_source_revision n)"

definition mark_pending :: "notification \<Rightarrow> rstr \<Rightarrow> rstr \<Rightarrow> engine_state \<Rightarrow> engine_state" where
  "mark_pending n at key s =
     s\<lparr>eng_pending := hm_insert key
         \<lparr>pend_partition_key = key, pend_audience_revision = note_audience_revision n,
          pend_catalog_revision = trim (note_catalog_revision n), pend_source_revision = note_source_revision n,
          pend_reason_code = invalidation_reason n, pend_at = at\<rparr> (eng_pending s),
       eng_cohort := hm_insert key
         \<lparr>coh_partition_key = key, coh_outcome = CohortPending, coh_audience_revision = note_audience_revision n,
          coh_catalog_revision = trim (note_catalog_revision n), coh_source_revision = note_source_revision n,
          coh_at = at\<rparr> (eng_cohort s)\<rparr>"

fun invalidate_keys ::
    "nat \<Rightarrow> notification \<Rightarrow> rstr \<Rightarrow> rstr list \<Rightarrow> rstr set \<Rightarrow> rstr list \<Rightarrow> engine_state \<Rightarrow> rstr list \<times> engine_state" where
  "invalidate_keys bound n at [] seen accepted s = (accepted, s)"
| "invalidate_keys bound n at (raw # keys) seen accepted s =
     (let key = trim raw in
      if key = [] then invalidate_keys bound n at keys seen accepted s
      else if key \<in> seen then invalidate_keys bound n at keys seen accepted s
      else if invalidation_refused bound n s key then invalidate_keys bound n at keys (insert key seen) accepted s
      else invalidate_keys bound n at keys (insert key seen) (accepted @ [key]) (mark_pending n at key s))"

definition apply_invalidation ::
    "nat \<Rightarrow> rstr \<Rightarrow> notification \<Rightarrow> engine_state \<Rightarrow> invalidation_result \<times> engine_state" where
  "apply_invalidation bound now n s =
     (let (accepted, s) = invalidate_keys bound n now (invalidation_keys n) {} [] s;
          s = (if note_audience_revision n > eng_last_known_audience_revision s
               then s\<lparr>eng_last_known_audience_revision := note_audience_revision n\<rparr> else s) in
      (\<lparr>accepted_partition_keys = accepted, pending_count = length (eng_pending s)\<rparr>, s))"

section \<open>Replacement\<close>

definition snapshot_malformed :: "rstr \<Rightarrow> snapshot \<Rightarrow> bool" where
  "snapshot_malformed key snap \<longleftrightarrow>
     key = [] \<or> snap_source_revision snap < 0 \<or> snap_audience_revision snap < 0
     \<or> snap_catalog_revision snap = [] \<or> length (snap_tools snap) > MAX_TOOLS_PER_PARTITION
     \<or> (\<exists>t\<in>set (snap_tools snap). trim (tool_name t) = [])
     \<or> length (remdups (map tool_name (snap_tools snap))) \<noteq> length (snap_tools snap)"

definition refused :: "refresh_outcome \<Rightarrow> rstr \<Rightarrow> snapshot option \<Rightarrow> refresh_result" where
  "refused outcome key retained =
     \<lparr>ref_outcome = outcome, ref_partition_key = key, ref_snapshot = None, ref_retained = retained\<rparr>"

text \<open>The checks of \<open>replace_partition\<close> in order; \<open>None\<close> when the snapshot may be installed.\<close>

definition check_pending :: "rstr \<Rightarrow> snapshot \<Rightarrow> engine_state \<Rightarrow> refresh_result option" where
  "check_pending key snap s =
     (case hm_get (eng_pending s) key of
        None \<Rightarrow> None
      | Some pending \<Rightarrow>
          let behind = snap_source_revision snap < pend_source_revision pending
                \<or> snap_audience_revision snap < pend_audience_revision pending;
              conflicts = snap_source_revision snap = pend_source_revision pending
                \<and> snap_audience_revision snap = pend_audience_revision pending
                \<and> snap_catalog_revision snap \<noteq> pend_catalog_revision pending in
          if behind \<or> conflicts
          then Some (refused (if behind then RejectedStale else RejectedConflict) key (hm_get (eng_partitions s) key))
          else None)"

definition check_current :: "rstr \<Rightarrow> snapshot \<Rightarrow> engine_state \<Rightarrow> refresh_result option" where
  "check_current key snap s =
     (case hm_get (eng_partitions s) key of
        None \<Rightarrow> None
      | Some current \<Rightarrow>
          let same_revision = snap_source_revision current = snap_source_revision snap
                \<and> snap_audience_revision current = snap_audience_revision snap in
          if is_stale_candidate current (snap_source_revision snap) (snap_audience_revision snap) (snap_catalog_revision snap)
          then Some (refused RejectedStale key (Some current))
          else if same_revision \<and> snap_catalog_revision current \<noteq> snap_catalog_revision snap
          then Some (refused RejectedConflict key (Some current))
          else if same_revision \<and> snap_catalog_revision current = snap_catalog_revision snap
          then Some (refused (if snap_digest current = snap_digest snap then Unchanged else RejectedConflict) key (Some current))
          else None)"

definition install_snapshot :: "rstr \<Rightarrow> rstr \<Rightarrow> snapshot \<Rightarrow> engine_state \<Rightarrow> engine_state" where
  "install_snapshot key fetched_at snap s =
     s\<lparr>eng_partitions := hm_insert key snap (eng_partitions s),
       eng_pending := hm_remove key (eng_pending s),
       eng_reconnect_fences := eng_reconnect_fences s - {key},
       eng_cohort := hm_insert key
         \<lparr>coh_partition_key = key, coh_outcome = CohortApplied, coh_audience_revision = snap_audience_revision snap,
          coh_catalog_revision = snap_catalog_revision snap, coh_source_revision = snap_source_revision snap,
          coh_at = fetched_at\<rparr> (eng_cohort s)\<rparr>"

definition replace_partition ::
    "digest_env \<Rightarrow> nat \<Rightarrow> rstr \<Rightarrow> rstr \<Rightarrow> fetched_snapshot \<Rightarrow> engine_state \<Rightarrow> refresh_result \<times> engine_state" where
  "replace_partition env bound now partition_key fetched s =
     (let key = trim partition_key; snap = snapshot_from_fetched env key fetched now in
      if snapshot_malformed key snap then (refused RejectedConflict key None, s)
      else case check_pending key snap s of
        Some r \<Rightarrow> (r, s)
      | None \<Rightarrow>
      (case check_current key snap s of
        Some r \<Rightarrow> (r, s)
      | None \<Rightarrow>
        if length (eng_partitions s) \<ge> bound \<and> \<not> hm_contains (eng_partitions s) key
        then (refused RejectedCapacity key None, s)
        else (\<lparr>ref_outcome = Replaced, ref_partition_key = key, ref_snapshot = Some snap, ref_retained = None\<rparr>,
              install_snapshot key now snap s)))"

definition restore_partition ::
    "digest_env \<Rightarrow> nat \<Rightarrow> rstr \<Rightarrow> snapshot \<Rightarrow> engine_state \<Rightarrow> refresh_result \<times> engine_state" where
  "restore_partition env bound now snap s =
     (let expected = digest_catalog_snapshot env (snap_partition_key snap) (snap_source_revision snap)
            (snap_catalog_revision snap) (snap_audience_revision snap) (snap_tools snap) in
      if snap_tool_count snap \<noteq> length (snap_tools snap) \<or> snap_digest snap \<noteq> expected
      then (refused RejectedConflict (snap_partition_key snap) None, s)
      else replace_partition env bound now (snap_partition_key snap)
        \<lparr>fet_source_revision = snap_source_revision snap, fet_catalog_revision = snap_catalog_revision snap,
         fet_audience_revision = snap_audience_revision snap, fet_tools = snap_tools snap\<rparr> s)"

section \<open>Discovery\<close>

definition discovery_refused :: "rstr \<Rightarrow> discovery_result" where
  "discovery_refused reason =
     \<lparr>disc_ok = False, disc_reason_code = reason, disc_tools = [], disc_source_revision = None,
      disc_catalog_revision = None, disc_audience_revision = None\<rparr>"

definition list_tools :: "rstr \<Rightarrow> engine_state \<Rightarrow> discovery_result" where
  "list_tools partition_key s =
     (let key = trim partition_key in
      if key \<in> eng_reconnect_fences s \<or> hm_contains (eng_pending s) key
      then discovery_refused (lit ''catalog_reconciliation_required'')
      else case hm_get (eng_partitions s) key of
        None \<Rightarrow> discovery_refused (lit ''catalog_partition_missing'')
      | Some snap \<Rightarrow>
          \<lparr>disc_ok = True, disc_reason_code = lit ''ok'', disc_tools = snap_tools snap,
           disc_source_revision = Some (snap_source_revision snap),
           disc_catalog_revision = Some (snap_catalog_revision snap),
           disc_audience_revision = Some (snap_audience_revision snap)\<rparr>)"

definition discovery_blocked :: "engine_state \<Rightarrow> bool" where
  "discovery_blocked s \<longleftrightarrow> eng_reconnect_fences s \<noteq> {} \<or> eng_pending s \<noteq> []"

definition begin_reconnect :: "engine_state \<Rightarrow> json \<times> engine_state" where
  "begin_reconnect s =
     (let s = s\<lparr>eng_reconnect_fences := fst ` set (eng_partitions s)\<rparr> in
      (JObject (json_map
         [(lit ''reconnectFence'', JBool (eng_reconnect_fences s \<noteq> {})),
          (lit ''lastKnownAudienceRevision'', json_i64 (eng_last_known_audience_revision s)),
          (lit ''pendingInvalidationCount'', json_u64 (of_nat (length (eng_pending s))))]), s))"

section \<open>Cohort marks, removal, observation\<close>

definition mark_fenced ::
    "nat \<Rightarrow> rstr \<Rightarrow> rstr \<Rightarrow> i64 \<Rightarrow> rstr \<Rightarrow> i64 \<Rightarrow> engine_state \<Rightarrow> cohort_entry option \<times> engine_state" where
  "mark_fenced bound now partition_key audience catalog source s =
     (let key = trim partition_key in
      if key = [] then (None, s)
      else if \<not> tracks_key s key \<and> tracked_partition_count s \<ge> bound then (None, s)
      else let entry = \<lparr>coh_partition_key = key, coh_outcome = CohortFenced, coh_audience_revision = audience,
             coh_catalog_revision = trim catalog, coh_source_revision = source, coh_at = now\<rparr> in
        (Some entry, s\<lparr>eng_reconnect_fences := insert key (eng_reconnect_fences s),
                       eng_cohort := hm_insert key entry (eng_cohort s)\<rparr>))"

definition mark_disconnected ::
    "nat \<Rightarrow> rstr \<Rightarrow> rstr \<Rightarrow> i64 \<Rightarrow> engine_state \<Rightarrow> cohort_entry option \<times> engine_state" where
  "mark_disconnected bound now partition_key audience s =
     (let key = trim partition_key in
      if key = [] then (None, s)
      else if \<not> tracks_key s key \<and> tracked_partition_count s \<ge> bound then (None, s)
      else let entry = \<lparr>coh_partition_key = key, coh_outcome = CohortDisconnected, coh_audience_revision = audience,
             coh_catalog_revision = [], coh_source_revision = - 1, coh_at = now\<rparr> in
        (Some entry, s\<lparr>eng_cohort := hm_insert key entry (eng_cohort s)\<rparr>))"

definition remove_partition :: "rstr \<Rightarrow> engine_state \<Rightarrow> bool \<times> engine_state" where
  "remove_partition partition_key s =
     (let key = trim partition_key in
      (hm_contains (eng_partitions s) key,
       s\<lparr>eng_partitions := hm_remove key (eng_partitions s), eng_pending := hm_remove key (eng_pending s),
         eng_cohort := hm_remove key (eng_cohort s), eng_reconnect_fences := eng_reconnect_fences s - {key},
         eng_ui_observed_revisions := hm_remove key (eng_ui_observed_revisions s)\<rparr>))"

definition purge_all :: "engine_state \<Rightarrow> engine_state" where
  "purge_all s = s\<lparr>eng_partitions := [], eng_pending := [], eng_cohort := [], eng_in_flight := [],
     eng_reconnect_fences := {}, eng_last_known_audience_revision := - 1, eng_ui_observed_revisions := []\<rparr>"

definition max_or :: "i64 \<Rightarrow> i64 list \<Rightarrow> i64" where
  "max_or d vs = (case vs of [] \<Rightarrow> d | v # rest \<Rightarrow> fold max rest v)"

definition ui_observed_revision :: "engine_state \<Rightarrow> i64" where
  "ui_observed_revision s = max_or (- 1) (map snd (eng_ui_observed_revisions s))"

definition observe_ui_revision :: "rstr \<Rightarrow> engine_state \<Rightarrow> i64 option \<times> engine_state" where
  "observe_ui_revision partition_key s =
     (let key = trim partition_key in
      if hm_contains (eng_pending s) key \<or> key \<in> eng_reconnect_fences s then (None, s)
      else case hm_get (eng_partitions s) key of
        None \<Rightarrow> (None, s)
      | Some snap \<Rightarrow>
          (Some (snap_audience_revision snap),
           s\<lparr>eng_ui_observed_revisions := hm_insert key (snap_audience_revision snap) (eng_ui_observed_revisions s)\<rparr>))"

definition cohort_snapshot :: "engine_state \<Rightarrow> (rstr \<times> cohort_entry) list" where
  "cohort_snapshot s = sort_key fst (eng_cohort s)"

fun cohort_json :: "rstr \<times> cohort_entry \<Rightarrow> json" where
  "cohort_json (key, e) = JObject (json_map
     [(lit ''partitionKey'', JString key), (lit ''outcome'', JString (cohort_wire_name (coh_outcome e))),
      (lit ''audienceRevision'', json_i64 (coh_audience_revision e)),
      (lit ''catalogRevision'', JString (coh_catalog_revision e)),
      (lit ''sourceRevision'', json_i64 (coh_source_revision e)), (lit ''at'', JString (coh_at e))])"

definition CATALOG_CONVERGENCE_SCHEMA :: rstr where
  "CATALOG_CONVERGENCE_SCHEMA = lit ''v0.0.1:licoup:catalog-convergence-1''"

definition engine_state_json :: "engine_state \<Rightarrow> json" where
  "engine_state_json s = JObject (json_map
     [(lit ''schemaVersion'', JString CATALOG_CONVERGENCE_SCHEMA),
      (lit ''partitionCount'', json_u64 (of_nat (length (eng_partitions s)))),
      (lit ''inFlightCount'', json_u64 (of_nat (length (eng_in_flight s)))),
      (lit ''pendingInvalidationCount'', json_u64 (of_nat (length (eng_pending s)))),
      (lit ''reconnectFence'', JBool (eng_reconnect_fences s \<noteq> {})),
      (lit ''reconnectFenceCount'', json_u64 (of_nat (card (eng_reconnect_fences s)))),
      (lit ''lastKnownAudienceRevision'', json_i64 (eng_last_known_audience_revision s)),
      (lit ''uiObservedRevision'', json_i64 (ui_observed_revision s)),
      (lit ''cohort'', JArray (map cohort_json (cohort_snapshot s)))])"

end
