(* ===== verification/Catalog_Proofs.thy ===== *)
theory Catalog_Proofs
  imports Catalog_Engine
begin

text \<open>
  Correctness of the catalog engine: an invariant over every sequence of its operations (the
  maps are well formed, stored snapshots are the digests' snapshots, capacity), monotone
  revisions, and discovery that never serves a catalog older than an accepted invalidation.
\<close>

section \<open>Operations as data\<close>

datatype engine_op =
    OpInvalidate notification
  | OpReplace rstr fetched_snapshot
  | OpRestore snapshot
  | OpFence rstr i64 rstr i64
  | OpDisconnect rstr i64
  | OpRemove rstr
  | OpPurge
  | OpObserve rstr
  | OpReconnect

fun run_op :: "digest_env \<Rightarrow> nat \<Rightarrow> rstr \<Rightarrow> engine_op \<Rightarrow> engine_state \<Rightarrow> engine_state" where
  "run_op env bound now (OpInvalidate n) s = snd (apply_invalidation bound now n s)"
| "run_op env bound now (OpReplace k f) s = snd (replace_partition env bound now k f s)"
| "run_op env bound now (OpRestore snap) s = snd (restore_partition env bound now snap s)"
| "run_op env bound now (OpFence k a c r) s = snd (mark_fenced bound now k a c r s)"
| "run_op env bound now (OpDisconnect k a) s = snd (mark_disconnected bound now k a s)"
| "run_op env bound now (OpRemove k) s = snd (remove_partition k s)"
| "run_op env bound now OpPurge s = purge_all s"
| "run_op env bound now (OpObserve k) s = snd (observe_ui_revision k s)"
| "run_op env bound now OpReconnect s = snd (begin_reconnect s)"

fun run_ops :: "digest_env \<Rightarrow> nat \<Rightarrow> (rstr \<times> engine_op) list \<Rightarrow> engine_state \<Rightarrow> engine_state" where
  "run_ops env bound [] s = s"
| "run_ops env bound ((now, op) # ops) s = run_ops env bound ops (run_op env bound now op s)"

fun removes :: "rstr \<Rightarrow> engine_op \<Rightarrow> bool" where
  "removes key (OpRemove k) = (trim k = key)"
| "removes key OpPurge = True"
| "removes key _ = False"

section \<open>The invariant\<close>

abbreviation keys :: "('k \<times> 'v) list \<Rightarrow> 'k set" where
  "keys m \<equiv> fst ` set m"

definition stored_ok :: "digest_env \<Rightarrow> rstr \<Rightarrow> snapshot \<Rightarrow> bool" where
  "stored_ok env key snap \<longleftrightarrow>
     snap_partition_key snap = key \<and> trim key = key \<and> \<not> snapshot_malformed key snap
     \<and> trim (snap_catalog_revision snap) = snap_catalog_revision snap
     \<and> snap_tool_count snap = length (snap_tools snap)
     \<and> snap_digest snap = digest_catalog_snapshot env key (snap_source_revision snap)
         (snap_catalog_revision snap) (snap_audience_revision snap) (snap_tools snap)"

definition engine_ok :: "digest_env \<Rightarrow> nat \<Rightarrow> engine_state \<Rightarrow> bool" where
  "engine_ok env bound s \<longleftrightarrow>
     hm_wf (eng_partitions s) \<and> hm_wf (eng_pending s) \<and> hm_wf (eng_cohort s)
     \<and> hm_wf (eng_ui_observed_revisions s)
     \<and> length (eng_partitions s) \<le> bound
     \<and> keys (eng_partitions s) \<subseteq> keys (eng_cohort s) \<and> keys (eng_pending s) \<subseteq> keys (eng_cohort s)
     \<and> card (keys (eng_cohort s) - keys (eng_partitions s)) \<le> bound
     \<and> (\<forall>key snap. hm_get (eng_partitions s) key = Some snap \<longrightarrow> stored_ok env key snap)
     \<and> (\<forall>key v. hm_get (eng_ui_observed_revisions s) key = Some v \<longrightarrow>
          (\<exists>snap. hm_get (eng_partitions s) key = Some snap \<and> 0 \<le> v \<and> v \<le> snap_audience_revision snap))"

lemma hm_wf_length: "hm_wf m \<Longrightarrow> length m = card (keys m)"
  unfolding hm_wf_def by (metis distinct_card length_map list.set_map)

lemma keys_insert [simp]: "keys (hm_insert k v m) = insert k (keys m)"
  by (simp add: dom_update)

lemma keys_remove [simp]: "keys (hm_remove k m) = keys m - {k}"
  by (simp add: delete_keys[symmetric] flip: set_map) (metis delete_keys list.set_map set_minus_filter_out removeAll_filter_not_eq set_removeAll)

lemma tracked_card:
  assumes "engine_ok env bound s"
  shows "tracked_partition_count s = card (keys (eng_cohort s))"
proof -
  have "keys (eng_partitions s) \<union> (keys (eng_pending s) \<union> keys (eng_cohort s)) = keys (eng_cohort s)"
    using assms by (auto simp: engine_ok_def)
  then show ?thesis
    unfolding tracked_partition_count_def length_remdups_card_conv by simp
qed

lemma tracks_key_iff: "engine_ok env bound s \<Longrightarrow> tracks_key s key \<longleftrightarrow> key \<in> keys (eng_cohort s)"
  by (auto simp: tracks_key_def hm_contains_iff engine_ok_def)

lemma engine_new_ok: "engine_ok env bound engine_new"
  by (simp add: engine_ok_def engine_new_def)

lemma card_insert_bound:
  assumes "x \<in> A \<or> card A < n" "card (A - B) \<le> n" "finite A"
  shows "card (insert x A - B) \<le> n"
proof (cases "x \<in> A")
  case False
  have "card (insert x A - B) \<le> card (insert x A)" using assms(3) by (intro card_mono) auto
  also have "\<dots> \<le> n" using assms False by simp
  finally show ?thesis .
qed (use assms in \<open>simp add: insert_absorb\<close>)

text \<open>A step that only adds a cohort entry, under the guard every such operation has.\<close>

lemma ok_cohort:
  assumes ok: "engine_ok env bound s" and guard: "\<not> (\<not> tracks_key s key \<and> tracked_partition_count s \<ge> bound)"
  shows "engine_ok env bound (s\<lparr>eng_cohort := hm_insert key e (eng_cohort s)\<rparr>)"
proof -
  have g: "key \<in> keys (eng_cohort s) \<or> card (keys (eng_cohort s)) < bound"
    using guard tracks_key_iff[OF ok] tracked_card[OF ok] by auto
  have "card (insert key (keys (eng_cohort s)) - keys (eng_partitions s)) \<le> bound"
    by (rule card_insert_bound[OF g]) (use ok in \<open>auto simp: engine_ok_def\<close>)
  then show ?thesis using ok by (auto simp: engine_ok_def)
qed

lemma mark_pending_ok:
  assumes "engine_ok env bound s" "\<not> invalidation_refused bound n s key"
  shows "engine_ok env bound (mark_pending n at key s)"
proof -
  have "\<not> (\<not> tracks_key s key \<and> tracked_partition_count s \<ge> bound)"
    using assms(2) by (auto simp: invalidation_refused_def)
  from ok_cohort[OF assms(1) this] show ?thesis
    by (auto simp: engine_ok_def mark_pending_def)
qed

lemma invalidate_keys_ok:
  "engine_ok env bound s \<Longrightarrow> engine_ok env bound (snd (invalidate_keys bound n at ks seen acc s))"
  by (induction bound n at ks seen acc s rule: invalidate_keys.induct) (auto simp: Let_def mark_pending_ok)

lemma ok_update [simp]:
  "engine_ok env bound (s\<lparr>eng_last_known_audience_revision := v\<rparr>) = engine_ok env bound s"
  "engine_ok env bound (s\<lparr>eng_reconnect_fences := F\<rparr>) = engine_ok env bound s"
  "engine_ok env bound (s\<lparr>eng_in_flight := I\<rparr>) = engine_ok env bound s"
  by (simp_all add: engine_ok_def)

lemma apply_invalidation_state:
  "\<exists>v. snd (apply_invalidation bound now n s) =
     (snd (invalidate_keys bound n now (invalidation_keys n) {} [] s))\<lparr>eng_last_known_audience_revision := v\<rparr>"
  by (auto simp: apply_invalidation_def Let_def split: prod.splits)
    (metis engine_state.surjective engine_state.update_convs(6))

lemma apply_invalidation_ok:
  assumes "engine_ok env bound s"
  shows "engine_ok env bound (snd (apply_invalidation bound now n s))"
  using apply_invalidation_state[of bound now n s] invalidate_keys_ok[OF assms] by fastforce

section \<open>Replacement\<close>

lemma replace_partition_cases:
  obtains (refused) "snd (replace_partition env bound now k f s) = s"
      "ref_outcome (fst (replace_partition env bound now k f s)) \<noteq> Replaced"
      "ref_snapshot (fst (replace_partition env bound now k f s)) = None"
  | (replaced) snap where "snap = snapshot_from_fetched env (trim k) f now"
      "snd (replace_partition env bound now k f s) = install_snapshot (trim k) now snap s"
      "fst (replace_partition env bound now k f s) =
         \<lparr>ref_outcome = Replaced, ref_partition_key = trim k, ref_snapshot = Some snap, ref_retained = None\<rparr>"
      "\<not> snapshot_malformed (trim k) snap" "check_pending (trim k) snap s = None" "check_current (trim k) snap s = None"
      "length (eng_partitions s) < bound \<or> hm_contains (eng_partitions s) (trim k)"
proof (cases "snd (replace_partition env bound now k f s) = s
    \<and> ref_outcome (fst (replace_partition env bound now k f s)) \<noteq> Replaced
    \<and> ref_snapshot (fst (replace_partition env bound now k f s)) = None")
  case True then show thesis using refused by blast
next
  case False
  have pending: "check_pending k' sn s = Some r \<Longrightarrow> ref_outcome r \<noteq> Replaced \<and> ref_snapshot r = None" for k' sn r
    by (auto simp: check_pending_def refused_def Let_def split: option.splits if_splits)
  have current: "check_current k' sn s = Some r \<Longrightarrow> ref_outcome r \<noteq> Replaced \<and> ref_snapshot r = None" for k' sn r
    by (auto simp: check_current_def refused_def Let_def split: option.splits if_splits)
  show thesis
    by (rule replaced[OF refl])
      (use False in \<open>auto simp: replace_partition_def Let_def refused_def split: option.splits if_splits dest: pending current\<close>)
qed

lemma stored_from_fetched:
  assumes "\<not> snapshot_malformed (trim k) (snapshot_from_fetched env (trim k) f now)"
  shows "stored_ok env (trim k) (snapshot_from_fetched env (trim k) f now)"
  using assms by (simp add: stored_ok_def snapshot_from_fetched_def Let_def)

lemma stored_revisions:
  assumes "stored_ok env key snap"
  shows "0 \<le> snap_source_revision snap" "0 \<le> snap_audience_revision snap" "snap_catalog_revision snap \<noteq> []" "key \<noteq> []"
  using assms by (auto simp: stored_ok_def snapshot_malformed_def)

text \<open>What passes \<open>check_current\<close> is strictly ahead of the stored snapshot in one revision.\<close>

lemma check_current_ahead:
  assumes "check_current key snap s = None" "hm_get (eng_partitions s) key = Some current"
    and "stored_ok env key current" "\<not> snapshot_malformed key snap"
  shows "snap_source_revision current \<le> snap_source_revision snap"
    "snap_audience_revision current \<le> snap_audience_revision snap"
    "\<not> (snap_source_revision current = snap_source_revision snap \<and> snap_audience_revision current = snap_audience_revision snap)"
proof -
  have fresh: "\<not> is_stale_candidate current (snap_source_revision snap) (snap_audience_revision snap) (snap_catalog_revision snap)"
    and ne: "\<not> (snap_source_revision current = snap_source_revision snap \<and> snap_audience_revision current = snap_audience_revision snap)"
    using assms(1,2) by (auto simp: check_current_def Let_def split: if_splits)
  have "0 \<le> snap_source_revision snap" "0 \<le> snap_audience_revision snap"
    using assms(4) by (auto simp: snapshot_malformed_def)
  from fresh_candidate_revisions[OF fresh this stored_revisions(1,2)[OF assms(3)]]
  show "snap_source_revision current \<le> snap_source_revision snap"
    "snap_audience_revision current \<le> snap_audience_revision snap" .
  show "\<not> (snap_source_revision current = snap_source_revision snap \<and> snap_audience_revision current = snap_audience_revision snap)"
    by (rule ne)
qed

lemma ok_stored: "engine_ok env bound s \<Longrightarrow> hm_get (eng_partitions s) key = Some snap \<Longrightarrow> stored_ok env key snap"
  by (simp add: engine_ok_def)

lemma ok_observed:
  "engine_ok env bound s \<Longrightarrow> hm_get (eng_ui_observed_revisions s) key = Some v \<Longrightarrow>
     \<exists>snap. hm_get (eng_partitions s) key = Some snap \<and> 0 \<le> v \<and> v \<le> snap_audience_revision snap"
  by (simp add: engine_ok_def)

lemma install_ok:
  assumes ok: "engine_ok env bound s" and snap: "stored_ok env key snap"
    and room: "length (eng_partitions s) < bound \<or> hm_contains (eng_partitions s) key"
    and ahead: "check_current key snap s = None"
  shows "engine_ok env bound (install_snapshot key now snap s)"
proof -
  let ?P = "keys (eng_partitions s)" and ?C = "keys (eng_cohort s)"
  have fin: "finite ?P" "finite ?C" by auto
  have "card (insert key ?P) \<le> bound"
    using room ok hm_wf_length[of "eng_partitions s"] card_insert_le_m1[of bound ?P key]
    by (auto simp: engine_ok_def hm_contains_iff insert_absorb card_insert_if)
  then have len: "length (hm_insert key snap (eng_partitions s)) \<le> bound"
    using ok hm_wf_length[of "hm_insert key snap (eng_partitions s)"] by (simp add: engine_ok_def)
  have "insert key ?C - insert key ?P \<subseteq> ?C - ?P" by auto
  then have "card (insert key ?C - insert key ?P) \<le> card (?C - ?P)" by (intro card_mono) auto
  then have rest: "card (insert key ?C - insert key ?P) \<le> bound" using ok by (simp add: engine_ok_def)
  have ui: "\<exists>sn. hm_get (hm_insert key snap (eng_partitions s)) k = Some sn \<and> 0 \<le> v \<and> v \<le> snap_audience_revision sn"
    if v: "hm_get (eng_ui_observed_revisions s) k = Some v" for k v
  proof -
    obtain sn where sn: "hm_get (eng_partitions s) k = Some sn" "0 \<le> v" "v \<le> snap_audience_revision sn"
      using ok_observed[OF ok v] by blast
    show ?thesis
    proof (cases "k = key")
      case True
      have "snap_audience_revision sn \<le> snap_audience_revision snap"
        using check_current_ahead(2)[OF ahead _ ok_stored[OF ok]] sn(1) True snap by (auto simp: stored_ok_def)
      then show ?thesis using True sn by auto
    qed (use sn in auto)
  qed
  show ?thesis
    using ok len rest snap ui by (auto simp: engine_ok_def install_snapshot_def)
qed

lemma replace_partition_ok:
  assumes "engine_ok env bound s"
  shows "engine_ok env bound (snd (replace_partition env bound now k f s))"
proof (cases rule: replace_partition_cases[of env bound now k f s])
  case (replaced snap)
  then show ?thesis using install_ok[OF assms] stored_from_fetched by simp
qed (simp add: assms)

lemma restore_partition_ok:
  assumes "engine_ok env bound s"
  shows "engine_ok env bound (snd (restore_partition env bound now snap s))"
  using replace_partition_ok[OF assms] assms by (simp add: restore_partition_def Let_def)

section \<open>The other operations\<close>

lemma marks_ok:
  assumes "engine_ok env bound s"
  shows "engine_ok env bound (snd (mark_fenced bound now k a c r s))"
    "engine_ok env bound (snd (mark_disconnected bound now k a s))"
  using assms ok_cohort[OF assms]
  by (auto simp: mark_fenced_def mark_disconnected_def Let_def engine_ok_def)

lemma remove_ok:
  assumes "engine_ok env bound s"
  shows "engine_ok env bound (snd (remove_partition k s))"
proof -
  let ?k = "trim k" and ?P = "keys (eng_partitions s)" and ?C = "keys (eng_cohort s)"
  have "?C - {?k} - (?P - {?k}) \<subseteq> ?C - ?P" by auto
  then have rest: "card (?C - {?k} - (?P - {?k})) \<le> bound"
    using assms card_mono[of "?C - ?P" "?C - {?k} - (?P - {?k})"] by (simp add: engine_ok_def)
  have "length (hm_remove ?k (eng_partitions s)) \<le> length (eng_partitions s)"
    by (rule length_delete_le)
  then have len: "length (hm_remove ?k (eng_partitions s)) \<le> bound" using assms by (simp add: engine_ok_def)
  show ?thesis
    using assms rest len by (auto simp: engine_ok_def remove_partition_def Let_def split: if_splits)
qed

lemma observe_ok:
  assumes "engine_ok env bound s"
  shows "engine_ok env bound (snd (observe_ui_revision k s))"
  using assms stored_revisions(2)[OF ok_stored[OF assms]]
  by (auto simp: observe_ui_revision_def Let_def engine_ok_def split: option.splits)

lemma run_op_ok: "engine_ok env bound s \<Longrightarrow> engine_ok env bound (run_op env bound now op s)"
proof (cases op)
  case OpPurge
  then show ?thesis by (simp add: purge_all_def engine_ok_def)
next
  case OpReconnect
  moreover assume "engine_ok env bound s"
  ultimately show ?thesis by (simp add: begin_reconnect_def Let_def)
qed (simp_all add: apply_invalidation_ok replace_partition_ok restore_partition_ok marks_ok remove_ok observe_ok)

lemma run_ops_ok: "engine_ok env bound s \<Longrightarrow> engine_ok env bound (run_ops env bound ops s)"
  by (induction env bound ops s rule: run_ops.induct) (auto simp: run_op_ok)

section \<open>Revisions never go back\<close>

type_synonym revision = "i64 \<times> i64 \<times> rstr"

fun rev_le :: "revision \<Rightarrow> revision \<Rightarrow> bool" where
  "rev_le (source, audience, catalog) (source', audience', catalog') \<longleftrightarrow>
     source \<le> source' \<and> audience \<le> audience' \<and> (source = source' \<and> audience = audience' \<longrightarrow> catalog = catalog')"

definition snap_revision :: "snapshot \<Rightarrow> revision" where
  "snap_revision p = (snap_source_revision p, snap_audience_revision p, snap_catalog_revision p)"

definition pend_revision :: "pending_invalidation \<Rightarrow> revision" where
  "pend_revision q = (pend_source_revision q, pend_audience_revision q, pend_catalog_revision q)"

definition note_revision :: "notification \<Rightarrow> revision" where
  "note_revision n = (note_source_revision n, note_audience_revision n, trim (note_catalog_revision n))"

lemma rev_le_refl [simp]: "rev_le r r"
  by (cases r) simp

lemma rev_le_trans: "rev_le a b \<Longrightarrow> rev_le b c \<Longrightarrow> rev_le a c"
  by (cases a; cases b; cases c) auto

definition snapshot_advances :: "snapshot \<Rightarrow> snapshot \<Rightarrow> bool" where
  "snapshot_advances p p' \<longleftrightarrow> p' = p
     \<or> rev_le (snap_revision p) (snap_revision p')
       \<and> (snap_source_revision p, snap_audience_revision p) \<noteq> (snap_source_revision p', snap_audience_revision p')"

lemma snapshot_advances_trans:
  "snapshot_advances p p' \<Longrightarrow> snapshot_advances p' p'' \<Longrightarrow> snapshot_advances p p''"
  by (auto simp: snapshot_advances_def snap_revision_def)

lemma snapshot_advances_rev: "snapshot_advances p p' \<Longrightarrow> rev_le (snap_revision p) (snap_revision p')"
  by (auto simp: snapshot_advances_def)

lemma mark_pending_partitions [simp]: "eng_partitions (mark_pending n at key s) = eng_partitions s"
  by (simp add: mark_pending_def)

lemma invalidate_keys_partitions [simp]:
  "eng_partitions (snd (invalidate_keys bound n at ks seen acc s)) = eng_partitions s"
  by (induction bound n at ks seen acc s rule: invalidate_keys.induct) (auto simp: Let_def)

lemma apply_invalidation_partitions [simp]: "eng_partitions (snd (apply_invalidation bound now n s)) = eng_partitions s"
  using apply_invalidation_state[of bound now n s] by auto

lemma replace_advances:
  assumes ok: "engine_ok env bound s" and p: "hm_get (eng_partitions s) key = Some p"
  shows "\<exists>p'. hm_get (eng_partitions (snd (replace_partition env bound now k f s))) key = Some p' \<and> snapshot_advances p p'"
proof (cases rule: replace_partition_cases[of env bound now k f s])
  case refused
  then show ?thesis using p by (simp add: snapshot_advances_def)
next
  case (replaced snap)
  show ?thesis
  proof (cases "key = trim k")
    case True
    have "snapshot_advances p snap"
      using check_current_ahead[OF replaced(6) _ ok_stored[OF ok] replaced(4)] p True
      by (auto simp: snapshot_advances_def snap_revision_def)
    then show ?thesis using replaced True by (simp add: install_snapshot_def)
  qed (use replaced p in \<open>simp add: install_snapshot_def snapshot_advances_def\<close>)
qed

lemma run_op_advances:
  assumes "engine_ok env bound s" "hm_get (eng_partitions s) key = Some p" "\<not> removes key op"
  shows "\<exists>p'. hm_get (eng_partitions (run_op env bound now op s)) key = Some p' \<and> snapshot_advances p p'"
  using assms replace_advances[OF assms(1,2)]
  by (cases op) (auto simp: restore_partition_def Let_def mark_fenced_def mark_disconnected_def remove_partition_def
      observe_ui_revision_def begin_reconnect_def snapshot_advances_def split: option.splits)

lemma run_ops_advances:
  "engine_ok env bound s \<Longrightarrow> hm_get (eng_partitions s) key = Some p \<Longrightarrow> list_all (\<lambda>(_, op). \<not> removes key op) ops \<Longrightarrow>
     \<exists>p'. hm_get (eng_partitions (run_ops env bound ops s)) key = Some p' \<and> snapshot_advances p p'"
proof (induction env bound ops s arbitrary: p rule: run_ops.induct)
  case (2 env bound now op ops s)
  obtain p1 where p1: "hm_get (eng_partitions (run_op env bound now op s)) key = Some p1" "snapshot_advances p p1"
    using run_op_advances[OF 2(2,3)] 2(4) by auto
  obtain p2 where "hm_get (eng_partitions (run_ops env bound ops (run_op env bound now op s))) key = Some p2"
      "snapshot_advances p1 p2"
    using 2(1)[OF run_op_ok[OF 2(2)] p1(1)] 2(4) by auto
  then show ?case using snapshot_advances_trans[OF p1(2)] by auto
qed (simp add: snapshot_advances_def)

section \<open>An accepted invalidation is never lost\<close>

text \<open>The engine knows of a revision at a key: it is pending, or the stored snapshot has caught up.\<close>

definition knows :: "rstr \<Rightarrow> revision \<Rightarrow> engine_state \<Rightarrow> bool" where
  "knows key r s \<longleftrightarrow>
     (\<exists>q. hm_get (eng_pending s) key = Some q \<and> rev_le r (pend_revision q))
     \<or> (\<exists>p. hm_get (eng_partitions s) key = Some p \<and> rev_le r (snap_revision p))"

lemma mark_pending_knows:
  assumes "\<not> invalidation_refused bound n s k" "knows key r s"
  shows "knows key r (mark_pending n at k s)"
proof (cases "k = key")
  case True
  have "rev_le (pend_revision q) (note_revision n)" if "hm_get (eng_pending s) key = Some q" for q
    using assms(1) that True by (auto simp: invalidation_refused_def pend_revision_def note_revision_def)
  then show ?thesis
    using assms(2) True rev_le_trans[of r]
    by (fastforce simp: knows_def mark_pending_def pend_revision_def note_revision_def)
qed (use assms(2) in \<open>simp add: knows_def mark_pending_def\<close>)

lemma invalidate_keys_knows:
  "knows key r s \<Longrightarrow> knows key r (snd (invalidate_keys bound n at ks seen acc s))"
  by (induction bound n at ks seen acc s rule: invalidate_keys.induct) (auto simp: Let_def mark_pending_knows)

lemma knows_cong:
  "eng_pending s' = eng_pending s \<Longrightarrow> eng_partitions s' = eng_partitions s \<Longrightarrow> knows key r s' = knows key r s"
  by (simp add: knows_def)

lemma apply_invalidation_knows:
  "knows key r s \<Longrightarrow> knows key r (snd (apply_invalidation bound now n s))"
  using apply_invalidation_state[of bound now n s] invalidate_keys_knows[of key r s bound n now "invalidation_keys n" "{}" "[]"]
  by (auto simp: knows_def)

lemma replace_knows:
  assumes ok: "engine_ok env bound s" and k: "knows key r s"
  shows "knows key r (snd (replace_partition env bound now k f s))"
proof (cases rule: replace_partition_cases[of env bound now k f s])
  case (replaced snap)
  show ?thesis
  proof (cases "key = trim k")
    case True
    have "rev_le (pend_revision q) (snap_revision snap)" if "hm_get (eng_pending s) key = Some q" for q
      using replaced(5) that True
      by (auto simp: check_pending_def Let_def pend_revision_def snap_revision_def split: if_splits)
    moreover have "rev_le (snap_revision p) (snap_revision snap)" if "hm_get (eng_partitions s) key = Some p" for p
      using check_current_ahead[OF replaced(6) _ ok_stored[OF ok] replaced(4)] that True
      by (auto simp: snap_revision_def)
    ultimately have "rev_le r (snap_revision snap)"
      using k unfolding knows_def by (blast intro: rev_le_trans)
    then show ?thesis using replaced True by (simp add: knows_def install_snapshot_def)
  qed (use k replaced in \<open>simp add: knows_def install_snapshot_def\<close>)
qed (simp add: k)

lemma run_op_knows:
  assumes "engine_ok env bound s" "knows key r s" "\<not> removes key op"
  shows "knows key r (run_op env bound now op s)"
  using assms apply_invalidation_knows[OF assms(2)] replace_knows[OF assms(1,2)]
  by (cases op) (auto simp: restore_partition_def Let_def mark_fenced_def mark_disconnected_def remove_partition_def
      observe_ui_revision_def begin_reconnect_def knows_def split: option.splits)

lemma run_ops_knows:
  "engine_ok env bound s \<Longrightarrow> knows key r s \<Longrightarrow> list_all (\<lambda>(_, op). \<not> removes key op) ops \<Longrightarrow>
     knows key r (run_ops env bound ops s)"
  by (induction env bound ops s rule: run_ops.induct) (auto simp: run_op_ok run_op_knows)

text \<open>Every accepted key is pending at exactly the announced revision.\<close>

definition accepted_ok :: "notification \<Rightarrow> rstr list \<Rightarrow> engine_state \<Rightarrow> bool" where
  "accepted_ok n acc s \<longleftrightarrow>
     (\<forall>k\<in>set acc. trim k = k \<and> (\<exists>q. hm_get (eng_pending s) k = Some q \<and> pend_revision q = note_revision n))"

lemma accepted_ok_mark: "accepted_ok n acc s \<Longrightarrow> accepted_ok n (acc @ [trim raw]) (mark_pending n at (trim raw) s)"
  by (auto simp: accepted_ok_def mark_pending_def pend_revision_def note_revision_def)

lemma invalidate_keys_accepted:
  "accepted_ok n acc s \<Longrightarrow>
     accepted_ok n (fst (invalidate_keys bound n at ks seen acc s)) (snd (invalidate_keys bound n at ks seen acc s))"
  by (induction bound n at ks seen acc s rule: invalidate_keys.induct) (simp_all add: Let_def accepted_ok_mark)

lemma accepted_pending:
  assumes "apply_invalidation bound now n s = (r, s')" "key \<in> set (accepted_partition_keys r)"
  shows "trim key = key" "knows key (note_revision n) s'"
proof -
  let ?i = "invalidate_keys bound n now (invalidation_keys n) {} [] s"
  have r: "accepted_partition_keys r = fst ?i" and s': "eng_pending s' = eng_pending (snd ?i)"
    using assms(1) by (auto simp: apply_invalidation_def Let_def split: prod.splits if_splits)
  have "accepted_ok n (fst ?i) (snd ?i)" by (rule invalidate_keys_accepted) (simp add: accepted_ok_def)
  then have "trim key = key \<and> (\<exists>q. hm_get (eng_pending (snd ?i)) key = Some q \<and> pend_revision q = note_revision n)"
    using assms(2) r by (simp add: accepted_ok_def)
  then show "trim key = key" "knows key (note_revision n) s'" using s' by (auto simp: knows_def)
qed

lemma discovery_ok:
  assumes "disc_ok (list_tools k s)"
  obtains p where "hm_get (eng_partitions s) (trim k) = Some p" "hm_get (eng_pending s) (trim k) = None"
    "trim k \<notin> eng_reconnect_fences s" "disc_tools (list_tools k s) = snap_tools p"
    "disc_source_revision (list_tools k s) = Some (snap_source_revision p)"
    "disc_audience_revision (list_tools k s) = Some (snap_audience_revision p)"
    "disc_catalog_revision (list_tools k s) = Some (snap_catalog_revision p)"
  using assms by (auto simp: list_tools_def Let_def discovery_refused_def hm_contains_def split: if_splits option.splits)

end
