(* ===== verification/Catalog_Refresh.thy ===== *)
theory Catalog_Refresh
  imports Catalog_Proofs
begin

text \<open>
  The coalesced refresh of \<open>engine.rs\<close>: \<open>refresh_partition\<close> takes the engine lock several times
  and calls the fetcher in between, so it is a step relation over threads. A thread that finds a
  slot in flight waits for the slot's result; the first one leads, fetches, replaces the
  partition, completes the slot and removes it. A slot is a number; its result is set once.
  Every other operation of the engine may run between two steps.
\<close>

section \<open>Threads and slots\<close>

datatype phase =
    Idle
  | Joined rstr nat
  | Waiting rstr nat
  | Leading rstr nat
  | Fetching rstr nat pull_context
  | Publishing rstr nat refresh_result
  | Releasing rstr nat refresh_result
  | Returned rstr "nat option" refresh_result

record refresh_system =
  sys_engine :: engine_state
  sys_next_slot :: nat
  sys_waiters :: "nat \<Rightarrow> nat"
  sys_results :: "nat \<Rightarrow> refresh_result option"
  sys_threads :: "nat \<Rightarrow> phase"

definition refresh_init :: refresh_system where
  "refresh_init = \<lparr>sys_engine = engine_new, sys_next_slot = 0, sys_waiters = (\<lambda>_. 0),
     sys_results = (\<lambda>_. None), sys_threads = (\<lambda>_. Idle)\<rparr>"

abbreviation set_phase :: "nat \<Rightarrow> phase \<Rightarrow> refresh_system \<Rightarrow> refresh_system" where
  "set_phase t p y \<equiv> y\<lparr>sys_threads := (sys_threads y)(t := p)\<rparr>"

text \<open>The first lock of the call: join the slot in flight, or register a new one.\<close>

definition refresh_enter :: "nat \<Rightarrow> rstr \<Rightarrow> refresh_system \<Rightarrow> refresh_system" where
  "refresh_enter t partition_key y =
     (let key = trim partition_key in
      if key = [] then set_phase t (Returned key None (refused RejectedStale key None)) y
      else case hm_get (eng_in_flight (sys_engine y)) key of
        Some slot \<Rightarrow> set_phase t (Joined key slot) y
      | None \<Rightarrow> set_phase t (Leading key (sys_next_slot y))
          (y\<lparr>sys_engine := (sys_engine y)\<lparr>eng_in_flight := hm_insert key (sys_next_slot y) (eng_in_flight (sys_engine y))\<rparr>,
             sys_next_slot := Suc (sys_next_slot y)\<rparr>))"

definition slot_waiting :: "nat \<Rightarrow> rstr \<Rightarrow> nat \<Rightarrow> refresh_system \<Rightarrow> refresh_system" where
  "slot_waiting t key slot y =
     set_phase t (Waiting key slot) (y\<lparr>sys_waiters := (sys_waiters y)(slot := Suc (sys_waiters y slot))\<rparr>)"

definition refresh_pull :: "nat \<Rightarrow> rstr \<Rightarrow> nat \<Rightarrow> refresh_system \<Rightarrow> refresh_system" where
  "refresh_pull t key slot y =
     set_phase t (Fetching key slot
       \<lparr>pull_partition_key = key, pull_pending_invalidation = hm_get (eng_pending (sys_engine y)) key\<rparr>) y"

text \<open>The fetcher returned a snapshot, or panicked (\<open>None\<close>).\<close>

definition refresh_fetched ::
    "digest_env \<Rightarrow> nat \<Rightarrow> rstr \<Rightarrow> fetched_snapshot option \<Rightarrow> nat \<Rightarrow> rstr \<Rightarrow> nat \<Rightarrow> refresh_system \<Rightarrow> refresh_system" where
  "refresh_fetched env bound now fetched t key slot y =
     (case fetched of
        Some f \<Rightarrow> let (r, e) = replace_partition env bound now key f (sys_engine y) in
          set_phase t (Publishing key slot r) (y\<lparr>sys_engine := e\<rparr>)
      | None \<Rightarrow> set_phase t
          (Publishing key slot (refused FetchFailed key (hm_get (eng_partitions (sys_engine y)) key))) y)"

definition slot_complete :: "nat \<Rightarrow> rstr \<Rightarrow> nat \<Rightarrow> refresh_result \<Rightarrow> refresh_system \<Rightarrow> refresh_system" where
  "slot_complete t key slot r y =
     set_phase t (Releasing key slot r) (y\<lparr>sys_results := (sys_results y)(slot := Some r)\<rparr>)"

definition refresh_release :: "nat \<Rightarrow> rstr \<Rightarrow> nat \<Rightarrow> refresh_result \<Rightarrow> refresh_system \<Rightarrow> refresh_system" where
  "refresh_release t key slot r y =
     set_phase t (Returned key (Some slot) r)
       (y\<lparr>sys_engine := (sys_engine y)\<lparr>eng_in_flight := hm_remove key (eng_in_flight (sys_engine y))\<rparr>\<rparr>)"

definition refresh_waiter_count :: "rstr \<Rightarrow> refresh_system \<Rightarrow> nat" where
  "refresh_waiter_count partition_key y =
     (case hm_get (eng_in_flight (sys_engine y)) (trim partition_key) of
        None \<Rightarrow> 0
      | Some slot \<Rightarrow> sys_waiters y slot)"

text \<open>\<open>purge\<close> says whether \<open>purge_all\<close> may run concurrently.\<close>

inductive refresh_step :: "digest_env \<Rightarrow> nat \<Rightarrow> bool \<Rightarrow> refresh_system \<Rightarrow> refresh_system \<Rightarrow> bool"
  for env bound purge where
  enter: "sys_threads y t = Idle \<Longrightarrow> refresh_step env bound purge y (refresh_enter t k y)"
| wait: "sys_threads y t = Joined key slot \<Longrightarrow> refresh_step env bound purge y (slot_waiting t key slot y)"
| pull: "sys_threads y t = Leading key slot \<Longrightarrow> refresh_step env bound purge y (refresh_pull t key slot y)"
| fetch: "sys_threads y t = Fetching key slot ctx \<Longrightarrow>
    refresh_step env bound purge y (refresh_fetched env bound now fetched t key slot y)"
| complete: "sys_threads y t = Publishing key slot r \<Longrightarrow> refresh_step env bound purge y (slot_complete t key slot r y)"
| release: "sys_threads y t = Releasing key slot r \<Longrightarrow> refresh_step env bound purge y (refresh_release t key slot r y)"
| wake: "sys_threads y t = Waiting key slot \<Longrightarrow> sys_results y slot = Some r \<Longrightarrow>
    refresh_step env bound purge y (set_phase t (Returned key (Some slot) r) y)"
| operation: "op \<noteq> OpPurge \<or> purge \<Longrightarrow>
    refresh_step env bound purge y (y\<lparr>sys_engine := run_op env bound now op (sys_engine y)\<rparr>)"

definition refresh_reachable :: "digest_env \<Rightarrow> nat \<Rightarrow> bool \<Rightarrow> refresh_system \<Rightarrow> bool" where
  "refresh_reachable env bound purge y \<longleftrightarrow> (refresh_step env bound purge)\<^sup>*\<^sup>* refresh_init y"

section \<open>Invariants\<close>

text \<open>\<open>leads p key slot\<close>: a thread in phase \<open>p\<close> owns the slot; \<open>owes\<close>: it has yet to complete it.\<close>

definition owes :: "phase \<Rightarrow> rstr \<Rightarrow> nat \<Rightarrow> bool" where
  "owes p key slot \<longleftrightarrow> p = Leading key slot \<or> (\<exists>c. p = Fetching key slot c) \<or> (\<exists>r. p = Publishing key slot r)"

definition leads :: "phase \<Rightarrow> rstr \<Rightarrow> nat \<Rightarrow> bool" where
  "leads p key slot \<longleftrightarrow> owes p key slot \<or> (\<exists>r. p = Releasing key slot r)"

definition awaits :: "phase \<Rightarrow> nat \<Rightarrow> bool" where
  "awaits p slot \<longleftrightarrow> (\<exists>key. p = Joined key slot \<or> p = Waiting key slot)"

definition gave :: "phase \<Rightarrow> nat \<Rightarrow> refresh_result \<Rightarrow> bool" where
  "gave p slot r \<longleftrightarrow> (\<exists>key. p = Releasing key slot r \<or> p = Returned key (Some slot) r)"

lemmas phase_defs = owes_def leads_def awaits_def gave_def

lemma phase_simps [simp]:
  "\<not> owes Idle k n" "\<not> owes (Joined k' n') k n" "\<not> owes (Waiting k' n') k n" "\<not> owes (Releasing k' n' r) k n"
  "\<not> owes (Returned k' n'' r) k n"
  "owes (Leading k' n') k n = (k' = k \<and> n' = n)" "owes (Fetching k' n' c) k n = (k' = k \<and> n' = n)"
  "owes (Publishing k' n' r) k n = (k' = k \<and> n' = n)"
  "\<not> leads Idle k n" "\<not> leads (Joined k' n') k n" "\<not> leads (Waiting k' n') k n" "\<not> leads (Returned k' n'' r) k n"
  "leads (Leading k' n') k n = (k' = k \<and> n' = n)" "leads (Fetching k' n' c) k n = (k' = k \<and> n' = n)"
  "leads (Publishing k' n' r) k n = (k' = k \<and> n' = n)" "leads (Releasing k' n' r) k n = (k' = k \<and> n' = n)"
  "\<not> awaits Idle n" "awaits (Joined k' n') n = (n' = n)" "awaits (Waiting k' n') n = (n' = n)"
  "\<not> awaits (Leading k' n') n" "\<not> awaits (Fetching k' n' c) n" "\<not> awaits (Publishing k' n' r) n"
  "\<not> awaits (Releasing k' n' r) n" "\<not> awaits (Returned k' n'' r) n"
  "\<not> gave Idle n r'" "\<not> gave (Joined k' n') n r'" "\<not> gave (Waiting k' n') n r'" "\<not> gave (Leading k' n') n r'"
  "\<not> gave (Fetching k' n' c) n r'" "\<not> gave (Publishing k' n' r) n r'"
  "gave (Releasing k' n' r) n r' = (n' = n \<and> r = r')" "gave (Returned k' n'' r) n r' = (n'' = Some n \<and> r = r')"
  by (auto simp: phase_defs)

text \<open>
  Slots below the counter are the ones handed out. Each has one leader, whose key is the key it
  is registered under; it has a result exactly when no leader owes one; what a thread gave is
  the slot's result.
\<close>

definition slots_ok :: "refresh_system \<Rightarrow> bool" where
  "slots_ok y \<longleftrightarrow>
     (\<forall>key slot. hm_get (eng_in_flight (sys_engine y)) key = Some slot \<longrightarrow> slot < sys_next_slot y)
     \<and> (\<forall>t key slot. leads (sys_threads y t) key slot \<longrightarrow> slot < sys_next_slot y)
     \<and> (\<forall>t slot. awaits (sys_threads y t) slot \<longrightarrow> slot < sys_next_slot y)
     \<and> (\<forall>t t' key key' slot. leads (sys_threads y t) key slot \<longrightarrow> leads (sys_threads y t') key' slot \<longrightarrow> t = t')
     \<and> (\<forall>slot r. sys_results y slot = Some r \<longrightarrow> slot < sys_next_slot y \<and> (\<forall>t key. \<not> owes (sys_threads y t) key slot))
     \<and> (\<forall>slot < sys_next_slot y. sys_results y slot = None \<longrightarrow> (\<exists>t key. owes (sys_threads y t) key slot))
     \<and> (\<forall>t slot r. gave (sys_threads y t) slot r \<longrightarrow> sys_results y slot = Some r)"

definition flights_ok :: "refresh_system \<Rightarrow> bool" where
  "flights_ok y \<longleftrightarrow>
     (\<forall>t key slot. leads (sys_threads y t) key slot \<longrightarrow> hm_get (eng_in_flight (sys_engine y)) key = Some slot)"

lemma run_op_in_flight:
  "eng_in_flight (run_op env bound now op s) = (if op = OpPurge then [] else eng_in_flight s)"
proof -
  have "eng_in_flight (snd (invalidate_keys bound n now ks seen acc s)) = eng_in_flight s" for n ks seen acc s
    by (induction bound n now ks seen acc s rule: invalidate_keys.induct) (auto simp: Let_def mark_pending_def)
  then have inv: "eng_in_flight (snd (apply_invalidation bound now n s)) = eng_in_flight s" for n s
    using apply_invalidation_state[of bound now n s] by auto
  have rep: "eng_in_flight (snd (replace_partition env bound now k f s)) = eng_in_flight s" for k f
    by (cases rule: replace_partition_cases[of env bound now k f s]) (simp_all add: install_snapshot_def)
  show ?thesis
    by (cases op) (auto simp: inv rep restore_partition_def Let_def mark_fenced_def mark_disconnected_def remove_partition_def
        purge_all_def observe_ui_revision_def begin_reconnect_def split: option.splits)
qed

lemma replace_in_flight [simp]: "eng_in_flight (snd (replace_partition env bound now k f s)) = eng_in_flight s"
  using run_op_in_flight[of env bound now "OpReplace k f" s] by simp

lemma refresh_fetched_in_flight [simp]:
  "eng_in_flight (sys_engine (refresh_fetched env bound now fetched t key slot y)) = eng_in_flight (sys_engine y)"
proof (cases fetched)
  case (Some f)
  then show ?thesis
    using replace_in_flight[of env bound now key f "sys_engine y"]
    by (cases "replace_partition env bound now key f (sys_engine y)") (simp add: refresh_fetched_def)
qed (simp add: refresh_fetched_def)

text \<open>The components of \<open>slots_ok\<close>.\<close>

lemma slots_okD:
  assumes "slots_ok y"
  shows "hm_get (eng_in_flight (sys_engine y)) key = Some slot \<Longrightarrow> slot < sys_next_slot y"
    "leads (sys_threads y t) key slot \<Longrightarrow> slot < sys_next_slot y"
    "awaits (sys_threads y t) slot \<Longrightarrow> slot < sys_next_slot y"
    "leads (sys_threads y t) key slot \<Longrightarrow> leads (sys_threads y t') key' slot \<Longrightarrow> t = t'"
    "sys_results y slot = Some r \<Longrightarrow> slot < sys_next_slot y"
    "sys_results y slot = Some r \<Longrightarrow> \<not> owes (sys_threads y t) key slot"
    "slot < sys_next_slot y \<Longrightarrow> sys_results y slot = None \<Longrightarrow> \<exists>t key. owes (sys_threads y t) key slot"
    "gave (sys_threads y t) slot r \<Longrightarrow> sys_results y slot = Some r"
  using assms unfolding slots_ok_def by blast+

lemma slots_okI:
  assumes "\<And>key slot. hm_get (eng_in_flight (sys_engine y)) key = Some slot \<Longrightarrow> slot < sys_next_slot y"
    "\<And>t key slot. leads (sys_threads y t) key slot \<Longrightarrow> slot < sys_next_slot y"
    "\<And>t slot. awaits (sys_threads y t) slot \<Longrightarrow> slot < sys_next_slot y"
    "\<And>t t' key key' slot. leads (sys_threads y t) key slot \<Longrightarrow> leads (sys_threads y t') key' slot \<Longrightarrow> t = t'"
    "\<And>slot r. sys_results y slot = Some r \<Longrightarrow> slot < sys_next_slot y"
    "\<And>slot r t key. sys_results y slot = Some r \<Longrightarrow> \<not> owes (sys_threads y t) key slot"
    "\<And>slot. slot < sys_next_slot y \<Longrightarrow> sys_results y slot = None \<Longrightarrow> \<exists>t key. owes (sys_threads y t) key slot"
    "\<And>t slot r. gave (sys_threads y t) slot r \<Longrightarrow> sys_results y slot = Some r"
  shows "slots_ok y"
  using assms unfolding slots_ok_def by blast

text \<open>A step that changes one phase without touching who leads what.\<close>

lemma slots_ok_phase:
  assumes ok: "slots_ok y"
    and phase: "\<And>k n. owes p k n = owes (sys_threads y t) k n" "\<And>k n. leads p k n = leads (sys_threads y t) k n"
    and new: "\<And>n. awaits p n \<Longrightarrow> n < sys_next_slot y" "\<And>n r. gave p n r \<Longrightarrow> sys_results y n = Some r"
    and y': "sys_threads y' = (sys_threads y)(t := p)" "sys_next_slot y' = sys_next_slot y" "sys_results y' = sys_results y"
    and flight: "\<And>k n. hm_get (eng_in_flight (sys_engine y')) k = Some n \<Longrightarrow> hm_get (eng_in_flight (sys_engine y)) k = Some n"
  shows "slots_ok y'"
proof -
  have o: "owes (sys_threads y' u) k n = owes (sys_threads y u) k n" and l: "leads (sys_threads y' u) k n = leads (sys_threads y u) k n" for u k n
    using phase y'(1) by auto
  have aw: "awaits (sys_threads y' u) n \<Longrightarrow> n < sys_next_slot y" for u n
    using new(1)[of n] y'(1) slots_okD(3)[OF ok, of u n] by (cases "u = t") auto
  have gv: "gave (sys_threads y' u) n r \<Longrightarrow> sys_results y n = Some r" for u n r
    using new(2)[of n r] y'(1) slots_okD(8)[OF ok, of u n r] by (cases "u = t") auto
  show ?thesis
  proof (rule slots_okI, unfold y'(2,3) o l)
    show "n < sys_next_slot y" if "hm_get (eng_in_flight (sys_engine y')) k = Some n" for k n
      using flight[OF that] by (rule slots_okD(1)[OF ok])
    show "n < sys_next_slot y" if "leads (sys_threads y u) k n" for u k n
      using that by (rule slots_okD(2)[OF ok])
    show "n < sys_next_slot y" if "awaits (sys_threads y' u) n" for u n
      using that by (rule aw)
    show "u = u'" if "leads (sys_threads y u) k n" "leads (sys_threads y u') k' n" for u u' k k' n
      using that by (rule slots_okD(4)[OF ok])
    show "n < sys_next_slot y" if "sys_results y n = Some r" for n r
      using that by (rule slots_okD(5)[OF ok])
    show "\<not> owes (sys_threads y u) k n" if "sys_results y n = Some r" for n r u k
      using that by (rule slots_okD(6)[OF ok])
    show "\<exists>u k. owes (sys_threads y u) k n" if "n < sys_next_slot y" "sys_results y n = None" for n
      using that by (rule slots_okD(7)[OF ok])
    show "sys_results y n = Some r" if "gave (sys_threads y' u) n r" for u n r
      using that by (rule gv)
  qed
qed

text \<open>A step that changes one phase to that of a leader, or of one that has completed its slot.\<close>

lemma slots_ok_lead:
  assumes ok: "slots_ok y" and t: "sys_threads y t = Idle"
    and y': "sys_threads y' = (sys_threads y)(t := Leading key (sys_next_slot y))"
      "sys_next_slot y' = Suc (sys_next_slot y)" "sys_results y' = sys_results y"
      "eng_in_flight (sys_engine y') = hm_insert key (sys_next_slot y) (eng_in_flight (sys_engine y))"
  shows "slots_ok y'"
proof -
  let ?n = "sys_next_slot y"
  have fresh: "sys_results y ?n = None" "\<not> leads (sys_threads y u) k ?n" for u k
    using slots_okD(2,5)[OF ok, where slot = ?n] by (cases "sys_results y ?n"; auto)+
  show ?thesis
  proof (rule slots_okI)
    show "n < sys_next_slot y'" if "hm_get (eng_in_flight (sys_engine y')) k = Some n" for k n
      using that y'(2,4) slots_okD(1)[OF ok, of k n] by (auto split: if_splits)
    show "n < sys_next_slot y'" if "leads (sys_threads y' u) k n" for u k n
      using that y'(1,2) slots_okD(2)[OF ok, of u k n] by (auto split: if_splits)
    show "n < sys_next_slot y'" if "awaits (sys_threads y' u) n" for u n
      using that y'(1,2) slots_okD(3)[OF ok, of u n] by (auto split: if_splits)
    show "u = u'" if "leads (sys_threads y' u) k n" "leads (sys_threads y' u') k' n" for u u' k k' n
      using that y'(1) fresh(2) slots_okD(4)[OF ok, of u k n u' k'] by (auto split: if_splits)
    show "n < sys_next_slot y'" if "sys_results y' n = Some r" for n r
      using that y'(2,3) slots_okD(5)[OF ok, of n r] by simp
    show "\<not> owes (sys_threads y' u) k n" if "sys_results y' n = Some r" for n r u k
      using that y'(1,3) fresh(1) slots_okD(6)[OF ok, of n r u k] by auto
    show "\<exists>u k. owes (sys_threads y' u) k n" if n: "n < sys_next_slot y'" "sys_results y' n = None" for n
    proof (cases "n = ?n")
      case True
      then have "owes (sys_threads y' t) key n" using y'(1) by simp
      then show ?thesis by blast
    next
      case False
      then obtain u k where "owes (sys_threads y u) k n" using n y'(2,3) slots_okD(7)[OF ok, of n] by auto
      then have "owes (sys_threads y' u) k n" using y'(1) t by (cases "u = t") auto
      then show ?thesis by blast
    qed
    show "sys_results y' n = Some r" if "gave (sys_threads y' u) n r" for u n r
      using that y'(1,3) slots_okD(8)[OF ok, of u n r] by (auto split: if_splits)
  qed
qed

lemma slots_ok_complete:
  assumes ok: "slots_ok y" and t: "sys_threads y t = Publishing key slot r"
  shows "slots_ok (slot_complete t key slot r y)"
proof -
  let ?y = "slot_complete t key slot r y"
  have lead: "owes (sys_threads y t) key slot" "leads (sys_threads y t) key slot" using t by simp_all
  have lt: "slot < sys_next_slot y" by (rule slots_okD(2)[OF ok lead(2)])
  have none: "sys_results y slot = None"
    using slots_okD(6)[OF ok, of slot _ t key] lead(1) by (cases "sys_results y slot") auto
  have other: "u = t" if "leads (sys_threads y u) k slot" for u k
    using slots_okD(4)[OF ok that lead(2)] .
  have y': "sys_threads ?y = (sys_threads y)(t := Releasing key slot r)" "sys_next_slot ?y = sys_next_slot y"
      "sys_results ?y = (sys_results y)(slot := Some r)" "sys_engine ?y = sys_engine y"
    by (simp_all add: slot_complete_def)
  show ?thesis
  proof (rule slots_okI)
    show "n < sys_next_slot ?y" if "hm_get (eng_in_flight (sys_engine ?y)) k = Some n" for k n
      using that y'(2,4) slots_okD(1)[OF ok, of k n] by simp
    show "n < sys_next_slot ?y" if "leads (sys_threads ?y u) k n" for u k n
      using that y'(1,2) lt slots_okD(2)[OF ok, of u k n] by (auto split: if_splits)
    show "n < sys_next_slot ?y" if "awaits (sys_threads ?y u) n" for u n
      using that y'(1,2) slots_okD(3)[OF ok, of u n] by (auto split: if_splits)
    show "u = u'" if "leads (sys_threads ?y u) k n" "leads (sys_threads ?y u') k' n" for u u' k k' n
      using that y'(1) other slots_okD(4)[OF ok, of u k n u' k'] by (auto split: if_splits)
    show "n < sys_next_slot ?y" if "sys_results ?y n = Some r'" for n r'
      using that y'(2,3) lt slots_okD(5)[OF ok, of n r'] by (auto split: if_splits)
    show "\<not> owes (sys_threads ?y u) k n" if "sys_results ?y n = Some r'" for n r' u k
      using that y'(1,3) other[of u k] slots_okD(6)[OF ok, of n r' u k] by (auto simp: leads_def split: if_splits)
    show "\<exists>u k. owes (sys_threads ?y u) k n" if n: "n < sys_next_slot ?y" "sys_results ?y n = None" for n
    proof -
      have n': "n \<noteq> slot" "sys_results y n = None" "n < sys_next_slot y" using n y' by (auto split: if_splits)
      then obtain u k where u: "owes (sys_threads y u) k n" using slots_okD(7)[OF ok] by blast
      then have "u \<noteq> t" using t n'(1) by auto
      then have "owes (sys_threads ?y u) k n" using u y'(1) by simp
      then show ?thesis by blast
    qed
    show "sys_results ?y n = Some r'" if "gave (sys_threads ?y u) n r'" for u n r'
      using that y'(1,3) none slots_okD(8)[OF ok, of u n r'] by (auto split: if_splits)
  qed
qed

lemma slots_ok_release:
  assumes ok: "slots_ok y" and t: "sys_threads y t = Releasing key slot r"
  shows "slots_ok (refresh_release t key slot r y)"
proof -
  let ?y = "refresh_release t key slot r y"
  have res: "sys_results y slot = Some r" using t slots_okD(8)[OF ok, of t slot r] by simp
  have y': "sys_threads ?y = (sys_threads y)(t := Returned key (Some slot) r)" "sys_next_slot ?y = sys_next_slot y"
      "sys_results ?y = sys_results y"
      "eng_in_flight (sys_engine ?y) = hm_remove key (eng_in_flight (sys_engine y))"
    by (simp_all add: refresh_release_def)
  have leads: "leads (sys_threads ?y u) k n \<Longrightarrow> leads (sys_threads y u) k n" for u k n
    using y'(1) t by (auto split: if_splits)
  have awaits: "awaits (sys_threads ?y u) n \<Longrightarrow> awaits (sys_threads y u) n" for u n
    using y'(1) t by (auto split: if_splits)
  have gave: "gave (sys_threads ?y u) n r' \<Longrightarrow> gave (sys_threads y u) n r'" for u n r'
    using y'(1) t by (auto split: if_splits)
  have owes: "owes (sys_threads ?y u) k n = owes (sys_threads y u) k n" for u k n using y'(1) t by auto
  show ?thesis
  proof (rule slots_okI, unfold y'(2,3) owes)
    show "n < sys_next_slot y" if "hm_get (eng_in_flight (sys_engine ?y)) k = Some n" for k n
      using that y'(4) slots_okD(1)[OF ok, of k n] by (simp split: if_splits)
    show "n < sys_next_slot y" if "leads (sys_threads ?y u) k n" for u k n
      using leads[OF that] by (rule slots_okD(2)[OF ok])
    show "n < sys_next_slot y" if "awaits (sys_threads ?y u) n" for u n
      using awaits[OF that] by (rule slots_okD(3)[OF ok])
    show "u = u'" if "leads (sys_threads ?y u) k n" "leads (sys_threads ?y u') k' n" for u u' k k' n
      using leads[OF that(1)] leads[OF that(2)] by (rule slots_okD(4)[OF ok])
    show "n < sys_next_slot y" if "sys_results y n = Some r" for n r
      using that by (rule slots_okD(5)[OF ok])
    show "\<not> owes (sys_threads y u) k n" if "sys_results y n = Some r" for n r u k
      using that by (rule slots_okD(6)[OF ok])
    show "\<exists>u k. owes (sys_threads y u) k n" if "n < sys_next_slot y" "sys_results y n = None" for n
      using that by (rule slots_okD(7)[OF ok])
    show "sys_results y n = Some r'" if "gave (sys_threads ?y u) n r'" for u n r'
      using gave[OF that] by (rule slots_okD(8)[OF ok])
  qed
qed

lemma slots_ok_init: "slots_ok refresh_init"
  by (simp add: slots_ok_def refresh_init_def engine_new_def)

lemma slots_ok_step: "refresh_step env bound purge y y' \<Longrightarrow> slots_ok y \<Longrightarrow> slots_ok y'"
proof (induction rule: refresh_step.induct)
  case (enter y t k)
  show ?case
  proof (cases "trim k = []")
    case True
    show ?thesis
      by (rule slots_ok_phase[OF enter(2), where t = t and p = "Returned (trim k) None (refused RejectedStale (trim k) None)"])
        (use enter True in \<open>simp_all add: refresh_enter_def Let_def\<close>)
  next
    case key: False
    show ?thesis
    proof (cases "hm_get (eng_in_flight (sys_engine y)) (trim k)")
      case None
      show ?thesis
        by (rule slots_ok_lead[OF enter(2,1)]) (use None key in \<open>simp_all add: refresh_enter_def Let_def\<close>)
    next
      case (Some slot)
      then have "slot < sys_next_slot y" by (rule slots_okD(1)[OF enter(2)])
      then show ?thesis
        by (intro slots_ok_phase[OF enter(2), where t = t and p = "Joined (trim k) slot"])
          (use enter(1) Some key in \<open>simp_all add: refresh_enter_def Let_def\<close>)
    qed
  qed
next
  case (wait y t key slot)
  then have "slot < sys_next_slot y" using slots_okD(3)[OF wait(2), of t slot] by simp
  with wait show ?case by (intro slots_ok_phase[OF wait(2), where t = t and p = "Waiting key slot"]) (simp_all add: slot_waiting_def)
next
  case (pull y t key slot)
  then show ?case
    by (intro slots_ok_phase[OF pull(2), where t = t and p = "Fetching key slot
       \<lparr>pull_partition_key = key, pull_pending_invalidation = hm_get (eng_pending (sys_engine y)) key\<rparr>"])
      (simp_all add: refresh_pull_def)
next
  case (fetch y t key slot ctx now fetched)
  obtain r where r: "sys_threads (refresh_fetched env bound now fetched t key slot y) = (sys_threads y)(t := Publishing key slot r)"
    by (cases fetched; cases "replace_partition env bound now key (the fetched) (sys_engine y)")
      (auto simp: refresh_fetched_def Let_def)
  show ?case
  proof (rule slots_ok_phase[OF fetch(2) _ _ _ _ r])
    show "hm_get (eng_in_flight (sys_engine (refresh_fetched env bound now fetched t key slot y))) k = Some n \<Longrightarrow>
        hm_get (eng_in_flight (sys_engine y)) k = Some n" for k n
      by simp
  qed (use fetch in \<open>auto simp: refresh_fetched_def Let_def split: option.splits prod.splits\<close>)
next
  case (complete y t key slot r)
  then show ?case by (intro slots_ok_complete)
next
  case (release y t key slot r)
  then show ?case by (intro slots_ok_release)
next
  case (wake y t key slot r)
  then show ?case
    by (intro slots_ok_phase[OF wake(3), where t = t and p = "Returned key (Some slot) r"]) simp_all
next
  case (operation op y now)
  show ?case
    by (rule slots_ok_phase[OF operation(2), where t = 0 and p = "sys_threads y 0"])
      (use slots_okD(3,8)[OF operation(2), of 0] in \<open>auto simp: run_op_in_flight split: if_splits\<close>)
qed

lemma slots_ok_reachable: "refresh_reachable env bound purge y \<Longrightarrow> slots_ok y"
  unfolding refresh_reachable_def by (induction rule: rtranclp_induct) (auto simp: slots_ok_init slots_ok_step)

lemma flights_ok_phase:
  assumes "flights_ok y" "\<And>k n. leads p k n \<Longrightarrow> leads (sys_threads y t) k n"
    and "sys_threads y' = (sys_threads y)(t := p)" "eng_in_flight (sys_engine y') = eng_in_flight (sys_engine y)"
  shows "flights_ok y'"
proof -
  have "leads (sys_threads y u) k n" if "leads (sys_threads y' u) k n" for u k n
    using that assms(2,3) by (cases "u = t") simp_all
  then show ?thesis using assms(1) unfolding flights_ok_def assms(4) by blast
qed

lemma flights_ok_step:
  assumes "refresh_step env bound False y y'" "slots_ok y" "flights_ok y"
  shows "flights_ok y'"
  using assms
proof (induction rule: refresh_step.induct)
  case (enter y t k)
  show ?case unfolding flights_ok_def
  proof (intro allI impI)
    fix u key n assume lead: "leads (sys_threads (refresh_enter t k y) u) key n"
    have old: "hm_get (eng_in_flight (sys_engine y)) key = Some n" if "leads (sys_threads y u) key n"
      using enter(3) that by (simp add: flights_ok_def)
    show "hm_get (eng_in_flight (sys_engine (refresh_enter t k y))) key = Some n"
      using lead old enter(1)
      by (auto simp: refresh_enter_def Let_def split: if_splits option.splits)
  qed
next
  case (fetch y t key slot ctx now fetched)
  show ?case unfolding flights_ok_def
  proof (intro allI impI)
    fix u k n assume "leads (sys_threads (refresh_fetched env bound now fetched t key slot y) u) k n"
    then have "leads (sys_threads y u) k n"
      using fetch(1) by (auto simp: refresh_fetched_def Let_def split: option.splits prod.splits if_splits)
    then show "hm_get (eng_in_flight (sys_engine (refresh_fetched env bound now fetched t key slot y))) k = Some n"
      using fetch(3) by (simp add: flights_ok_def)
  qed
next
  case (release y t key slot r)
  show ?case unfolding flights_ok_def
  proof (intro allI impI)
    fix u k n assume "leads (sys_threads (refresh_release t key slot r y) u) k n"
    then have u: "u \<noteq> t" "leads (sys_threads y u) k n"
      by (auto simp: refresh_release_def split: if_splits)
    have t: "leads (sys_threads y t) key slot" using release(1) by simp
    have "k \<noteq> key"
    proof
      assume "k = key"
      then have "n = slot" using u(2) t release(3) unfolding flights_ok_def by (metis option.inject)
      then show False using u slots_okD(4)[OF release(2) u(2)] t by blast
    qed
    then show "hm_get (eng_in_flight (sys_engine (refresh_release t key slot r y))) k = Some n"
      using u(2) release(3) by (simp add: flights_ok_def refresh_release_def)
  qed
next
  case (operation op y now)
  then show ?case by (simp add: flights_ok_def run_op_in_flight)
next
  case (wait y t key slot)
  then show ?case by (intro flights_ok_phase[OF wait(3), where t = t and p = "Waiting key slot"]) (simp_all add: slot_waiting_def)
next
  case (pull y t key slot)
  then show ?case by (intro flights_ok_phase[OF pull(3), where t = t and p = "Fetching key slot
       \<lparr>pull_partition_key = key, pull_pending_invalidation = hm_get (eng_pending (sys_engine y)) key\<rparr>"])
      (simp_all add: refresh_pull_def)
next
  case (complete y t key slot r)
  then show ?case by (intro flights_ok_phase[OF complete(3), where t = t and p = "Releasing key slot r"]) (simp_all add: slot_complete_def)
next
  case (wake y t key slot r)
  then show ?case by (intro flights_ok_phase[OF wake(4), where t = t and p = "Returned key (Some slot) r"]) (simp_all)
qed

lemma flights_ok_reachable: "refresh_reachable env bound False y \<Longrightarrow> flights_ok y"
proof -
  assume "refresh_reachable env bound False y"
  then have "slots_ok y \<and> flights_ok y"
    unfolding refresh_reachable_def
    by (induction rule: rtranclp_induct)
      (auto simp: slots_ok_init slots_ok_step flights_ok_step, simp add: flights_ok_def refresh_init_def)
  then show ?thesis ..
qed

section \<open>Progress\<close>

abbreviation refresh_steps :: "digest_env \<Rightarrow> nat \<Rightarrow> bool \<Rightarrow> refresh_system \<Rightarrow> refresh_system \<Rightarrow> bool" where
  "refresh_steps env bound purge \<equiv> (refresh_step env bound purge)\<^sup>*\<^sup>*"

lemma steps_publish:
  assumes "sys_threads y t = Publishing k n r"
  shows "\<exists>y'. refresh_steps env bound purge y y' \<and> sys_threads y' t = Releasing k n r \<and> sys_results y' n = Some r
    \<and> (\<forall>u. u \<noteq> t \<longrightarrow> sys_threads y' u = sys_threads y u)"
  using refresh_step.complete[OF assms, of env bound purge]
  by (intro exI[of _ "slot_complete t k n r y"]) (auto simp: slot_complete_def)

lemma steps_fetch:
  assumes "sys_threads y t = Fetching k n c"
  shows "\<exists>y' r. refresh_steps env bound purge y y' \<and> sys_threads y' t = Releasing k n r \<and> sys_results y' n = Some r
    \<and> (\<forall>u. u \<noteq> t \<longrightarrow> sys_threads y' u = sys_threads y u)"
proof -
  let ?y = "refresh_fetched env bound [] None t k n y"
  have y: "sys_threads ?y t = Publishing k n (refused FetchFailed k (hm_get (eng_partitions (sys_engine y)) k))"
      "u \<noteq> t \<Longrightarrow> sys_threads ?y u = sys_threads y u" for u
    by (simp_all add: refresh_fetched_def)
  obtain y' where "refresh_steps env bound purge ?y y'" "sys_threads y' t = Releasing k n (refused FetchFailed k (hm_get (eng_partitions (sys_engine y)) k))"
      "sys_results y' n = Some (refused FetchFailed k (hm_get (eng_partitions (sys_engine y)) k))"
      "\<forall>u. u \<noteq> t \<longrightarrow> sys_threads y' u = sys_threads ?y u"
    using steps_publish[OF y(1)] by blast
  then show ?thesis
    using converse_rtranclp_into_rtranclp[of "refresh_step env bound purge", OF refresh_step.fetch[OF assms]] y(2)
    by (intro exI[of _ y'] exI) auto
qed

lemma steps_leader:
  assumes "owes (sys_threads y t) k n"
  shows "\<exists>y' r. refresh_steps env bound purge y y' \<and> sys_threads y' t = Releasing k n r \<and> sys_results y' n = Some r
    \<and> (\<forall>u. u \<noteq> t \<longrightarrow> sys_threads y' u = sys_threads y u)"
proof (cases "sys_threads y t")
  case (Leading k' n')
  then have l: "sys_threads y t = Leading k n" using assms by simp
  let ?y = "refresh_pull t k n y"
  have y: "sys_threads ?y t = Fetching k n \<lparr>pull_partition_key = k, pull_pending_invalidation = hm_get (eng_pending (sys_engine y)) k\<rparr>"
      "u \<noteq> t \<Longrightarrow> sys_threads ?y u = sys_threads y u" for u
    by (simp_all add: refresh_pull_def)
  obtain y' r where "refresh_steps env bound purge ?y y'" "sys_threads y' t = Releasing k n r" "sys_results y' n = Some r"
      "\<forall>u. u \<noteq> t \<longrightarrow> sys_threads y' u = sys_threads ?y u"
    using steps_fetch[OF y(1)] by blast
  then show ?thesis
    using converse_rtranclp_into_rtranclp[of "refresh_step env bound purge", OF refresh_step.pull[OF l]] y(2)
    by (intro exI[of _ y'] exI) auto
next
  case (Fetching k' n' c)
  then show ?thesis using steps_fetch[of y t k n c] assms by simp
next
  case (Publishing k' n' r)
  then show ?thesis using steps_publish[of y t k n r env bound purge] assms by (auto intro: exI)
qed (use assms in simp_all)

definition returned :: "phase \<Rightarrow> bool" where
  "returned p \<longleftrightarrow> (\<exists>k n r. p = Returned k n r)"

lemma steps_release:
  assumes "sys_threads y t = Releasing k n r"
  shows "\<exists>y'. refresh_steps env bound purge y y' \<and> returned (sys_threads y' t)"
  using refresh_step.release[OF assms, of env bound purge]
  by (intro exI[of _ "refresh_release t k n r y"]) (auto simp: refresh_release_def returned_def)

lemma steps_wake:
  assumes "sys_threads y t = Waiting k n" "sys_results y n = Some r"
  shows "\<exists>y'. refresh_steps env bound purge y y' \<and> returned (sys_threads y' t)"
  using refresh_step.wake[OF assms, of env bound purge]
  by (intro exI[of _ "set_phase t (Returned k (Some n) r) y"]) (auto simp: returned_def)

lemma steps_waiting:
  assumes ok: "slots_ok y" and t: "sys_threads y t = Waiting k n"
  shows "\<exists>y'. refresh_steps env bound purge y y' \<and> returned (sys_threads y' t)"
proof (cases "sys_results y n")
  case None
  have "n < sys_next_slot y" using slots_okD(3)[OF ok, of t n] t by simp
  from slots_okD(7)[OF ok this None] obtain u k' where u: "owes (sys_threads y u) k' n" by blast
  then have "u \<noteq> t" using t by auto
  obtain y' r where y': "refresh_steps env bound purge y y'" "sys_results y' n = Some r" "\<forall>v. v \<noteq> u \<longrightarrow> sys_threads y' v = sys_threads y v"
    using steps_leader[OF u] by blast
  then have "sys_threads y' t = Waiting k n" using t \<open>u \<noteq> t\<close> by auto
  from steps_wake[OF this y'(2)] show ?thesis using y'(1) rtranclp_trans by fast
qed (use steps_wake[OF t] in blast)

lemma steps_return:
  assumes ok: "slots_ok y" and t: "sys_threads y t \<noteq> Idle"
  shows "\<exists>y'. refresh_steps env bound purge y y' \<and> returned (sys_threads y' t)"
proof (cases "sys_threads y t")
  case (Joined k n)
  have step: "refresh_step env bound purge y (slot_waiting t k n y)" by (rule refresh_step.wait[OF Joined])
  have "sys_threads (slot_waiting t k n y) t = Waiting k n" by (simp add: slot_waiting_def)
  from steps_waiting[OF slots_ok_step[OF step ok] this] show ?thesis
    using converse_rtranclp_into_rtranclp[of "refresh_step env bound purge", OF step] by blast
next
  case (Waiting k n)
  then show ?thesis by (rule steps_waiting[OF ok])
next
  case (Releasing k n r)
  then show ?thesis by (rule steps_release)
next
  case (Returned k n r)
  then show ?thesis by (intro exI[of _ y]) (simp add: returned_def)
next
  case Idle
  then show ?thesis using t by simp
next
  case (Leading k n)
  then have "owes (sys_threads y t) k n" by simp
  from steps_leader[OF this] show ?thesis using steps_release rtranclp_trans by (metis (no_types, lifting))
next
  case (Fetching k n c)
  then have "owes (sys_threads y t) k n" by simp
  from steps_leader[OF this] show ?thesis using steps_release rtranclp_trans by (metis (no_types, lifting))
next
  case (Publishing k n r)
  then have "owes (sys_threads y t) k n" by simp
  from steps_leader[OF this] show ?thesis using steps_release rtranclp_trans by (metis (no_types, lifting))
qed

end
