(* ===== verification/Catalog_Properties.thy ===== *)
theory Catalog_Properties
  imports Catalog_Refresh
begin

text \<open>
  The properties of the catalog convergence engine, over every sequence of its operations and,
  for the coalesced refresh, over every interleaving of threads.
\<close>

section \<open>Samples\<close>

definition sample_env :: digest_env where
  "sample_env = \<lparr>env_sha256 = (\<lambda>_. []), env_json_text = (\<lambda>_. [])\<rparr>"

definition sample_fetch :: "i64 \<Rightarrow> fetched_snapshot" where
  "sample_fetch r = \<lparr>fet_source_revision = r, fet_catalog_revision = [99], fet_audience_revision = r,
     fet_tools = [tool_named [116]]\<rparr>"

definition sample_note :: "i64 \<Rightarrow> notification" where
  "sample_note r = \<lparr>note_affected_partitions = [[112]], note_partition_key = None, note_source_revision = r,
     note_catalog_revision = [99], note_audience_revision = r, note_reason_code = []\<rparr>"

lemma trim_visible: "\<not> white_space c \<Longrightarrow> trim [c] = [c]"
  by (simp add: trim_def)

lemmas sample_defs = sample_env_def sample_fetch_def sample_note_def tool_named_def

lemma visible [simp]: "\<not> white_space 112" "\<not> white_space 99" "\<not> white_space 116"
  by (simp_all add: white_space_def)

lemmas catalog_eval = replace_partition_def snapshot_from_fetched_def snapshot_malformed_def check_pending_def
  check_current_def install_snapshot_def Let_def trim_visible hm_contains_def MAX_TOOLS_PER_PARTITION_def

lemma sample_replace:
  "snd (replace_partition sample_env 64 [] [112] (sample_fetch 1) engine_new)
     = install_snapshot [112] [] (snapshot_from_fetched sample_env [112] (sample_fetch 1) []) engine_new"
  by (simp add: catalog_eval sample_defs engine_new_def)

lemma sample_store:
  "eng_partitions (run_ops sample_env 64 [([], OpReplace [112] (sample_fetch 1))] engine_new) =
     [([112], snapshot_from_fetched sample_env [112] (sample_fetch 1) [])]"
  by (simp add: sample_replace install_snapshot_def) (simp add: engine_new_def)

section \<open>The engine\<close>

text \<open>
  bounded and authentic. After any sequence of operations the engine stores at most
  max_partitions snapshots, tracks at most twice as many keys (a replacement may add a key that
  the invalidations did not track), every stored snapshot sits under its own key, is well
  formed and carries the digest of its contents, and a recorded UI revision is one that the
  stored snapshot of its partition has reached.
\<close>

theorem catalog_bounded_and_authentic:
  assumes "s = run_ops env bound ops engine_new"
  shows "length (eng_partitions s) \<le> bound \<and> tracked_partition_count s \<le> 2 * bound
    \<and> (\<forall>(key, snap)\<in>set (eng_partitions s). stored_ok env key snap)
    \<and> (\<forall>(key, v)\<in>set (eng_ui_observed_revisions s).
         \<exists>snap. hm_get (eng_partitions s) key = Some snap \<and> v \<le> snap_audience_revision snap)"
proof -
  have ok: "engine_ok env bound s" using run_ops_ok[OF engine_new_ok] assms by simp
  let ?P = "keys (eng_partitions s)" and ?C = "keys (eng_cohort s)"
  have "card ?C \<le> card (?C - ?P) + card ?P"
    using card_Un_le[of "?C - ?P" ?P] card_mono[of "?C - ?P \<union> ?P" ?C] by fastforce
  moreover have "card ?P \<le> bound" "card (?C - ?P) \<le> bound" "length (eng_partitions s) \<le> bound"
    using ok hm_wf_length[of "eng_partitions s"] by (auto simp: engine_ok_def)
  ultimately have "tracked_partition_count s \<le> 2 * bound" using tracked_card[OF ok] by simp
  moreover have "stored_ok env key snap" if "(key, snap) \<in> set (eng_partitions s)" for key snap
    using ok that map_of_is_SomeI[of "eng_partitions s" key snap] ok_stored[OF ok] by (simp add: engine_ok_def hm_wf_def)
  moreover have "\<exists>snap. hm_get (eng_partitions s) key = Some snap \<and> v \<le> snap_audience_revision snap"
    if "(key, v) \<in> set (eng_ui_observed_revisions s)" for key v
    using ok that map_of_is_SomeI[of "eng_ui_observed_revisions s" key v] ok_observed[OF ok, of key v]
    by (auto simp: engine_ok_def hm_wf_def)
  ultimately show ?thesis using \<open>length (eng_partitions s) \<le> bound\<close> by fast
qed

theorem catalog_bounded_and_authentic_witness:
  "stored_ok sample_env [112] (snapshot_from_fetched sample_env [112] (sample_fetch 1) [])"
  using catalog_bounded_and_authentic[OF refl, of sample_env 64 "[([], OpReplace [112] (sample_fetch 1))]"]
  unfolding sample_store by simp

text \<open>
  C29: the catalog never rolls back. Once a partition is stored, any further sequence of
  operations without its removal keeps a snapshot of it, and that snapshot is the same one or
  is strictly newer: neither revision decreased and one of them increased.
\<close>

theorem catalog_never_rolls_back:
  assumes "s = run_ops env bound before engine_new" and "hm_get (eng_partitions s) key = Some p"
    and "\<forall>(now, op)\<in>set after. \<not> removes key op"
  shows "\<exists>p'. hm_get (eng_partitions (run_ops env bound after s)) key = Some p' \<and> (p' = p
    \<or> snap_source_revision p \<le> snap_source_revision p' \<and> snap_audience_revision p \<le> snap_audience_revision p'
      \<and> snap_source_revision p + snap_audience_revision p < snap_source_revision p' + snap_audience_revision p')"
proof -
  have "engine_ok env bound s" using run_ops_ok[OF engine_new_ok] assms(1) by simp
  from run_ops_advances[OF this assms(2), of after] assms(3)
  obtain p' where "hm_get (eng_partitions (run_ops env bound after s)) key = Some p'" "snapshot_advances p p'"
    by (auto simp: list_all_iff)
  then show ?thesis by (auto simp: snapshot_advances_def snap_revision_def)
qed

theorem catalog_never_rolls_back_witness:
  "\<exists>p'. hm_get (eng_partitions (run_ops sample_env 64 [([], OpReplace [112] (sample_fetch 0)), ([], OpReconnect)]
      (run_ops sample_env 64 [([], OpReplace [112] (sample_fetch 1))] engine_new))) [112] = Some p'
    \<and> 1 \<le> snap_source_revision p'"
proof -
  let ?p = "snapshot_from_fetched sample_env [112] (sample_fetch 1) []"
  have "hm_get (eng_partitions (run_ops sample_env 64 [([], OpReplace [112] (sample_fetch 1))] engine_new)) [112] = Some ?p"
    unfolding sample_store by simp
  from catalog_never_rolls_back[OF refl this, of "[([], OpReplace [112] (sample_fetch 0)), ([], OpReconnect)]"]
  show ?thesis by (auto simp: snapshot_from_fetched_def Let_def sample_fetch_def)
qed

text \<open>
  C28: discovery never serves a catalog that was invalidated. After an invalidation was accepted
  for a partition, and after any further operations short of removing the partition, a
  successful listing of its tools is of revisions at or past the announced ones, and at exactly
  the announced revisions it is of the announced catalog revision.
\<close>

theorem discovery_never_serves_invalidated:
  assumes "s = run_ops env bound before engine_new" and "apply_invalidation bound now n s = (r, s')"
    and "key \<in> set (accepted_partition_keys r)" and "\<forall>(now, op)\<in>set after. \<not> removes key op"
    and "d = list_tools key (run_ops env bound after s')" and "disc_ok d"
  shows "\<exists>source audience catalog. disc_source_revision d = Some source \<and> disc_audience_revision d = Some audience
    \<and> disc_catalog_revision d = Some catalog \<and> rev_le (note_revision n) (source, audience, catalog)"
proof -
  have ok: "engine_ok env bound s" using run_ops_ok[OF engine_new_ok] assms(1) by simp
  have ok': "engine_ok env bound s'" using apply_invalidation_ok[OF ok, of now n] assms(2) by simp
  have key: "trim key = key" and kn: "knows key (note_revision n) s'"
    using accepted_pending[OF assms(2,3)] .
  let ?s = "run_ops env bound after s'"
  have "knows key (note_revision n) ?s"
    using run_ops_knows[OF ok' kn] assms(4) by (auto simp: list_all_iff)
  moreover obtain p where "hm_get (eng_partitions ?s) key = Some p" "hm_get (eng_pending ?s) key = None"
    "disc_source_revision d = Some (snap_source_revision p)" "disc_audience_revision d = Some (snap_audience_revision p)"
    "disc_catalog_revision d = Some (snap_catalog_revision p)"
    using discovery_ok[of key ?s] assms(5,6) key by metis
  ultimately show ?thesis by (auto simp: knows_def snap_revision_def)
qed

theorem discovery_never_serves_invalidated_witness:
  "\<exists>source. disc_source_revision (list_tools [112] (run_ops sample_env 64 [([], OpReplace [112] (sample_fetch 3))]
      (snd (apply_invalidation 64 [] (sample_note 2) engine_new)))) = Some source \<and> 2 \<le> source"
proof -
  have inv: "apply_invalidation 64 [] (sample_note 2) engine_new =
    (\<lparr>accepted_partition_keys = [[112]], pending_count = 1\<rparr>,
     (mark_pending (sample_note 2) [] [112] engine_new)\<lparr>eng_last_known_audience_revision := 2\<rparr>)"
    by (simp add: apply_invalidation_def invalidation_keys_def sample_note_def engine_new_def trim_visible Let_def
        invalidation_refused_def tracks_key_def hm_contains_def tracked_partition_count_def mark_pending_def)
  let ?s = "run_ops sample_env 64 [([], OpReplace [112] (sample_fetch 3))] (snd (apply_invalidation 64 [] (sample_note 2) engine_new))"
  have ok: "disc_ok (list_tools [112] ?s)"
    unfolding inv by (simp add: catalog_eval sample_fetch_def tool_named_def mark_pending_def engine_new_def list_tools_def sample_note_def)
  show ?thesis
    using discovery_never_serves_invalidated[of engine_new sample_env 64 "[]", OF _ inv, of "[112]"
        "[([], OpReplace [112] (sample_fetch 3))]", OF _ _ _ refl] ok
    unfolding inv by (auto simp: note_revision_def sample_note_def)
qed

text \<open>
  replacement is exact. In a reachable engine a fetched snapshot is installed exactly when it
  is well formed, reaches the pending revision, is strictly ahead of the stored snapshot and
  there is room; every other outcome leaves the state as it was and returns no new snapshot.
\<close>

theorem replacement_exact:
  assumes "s = run_ops env bound ops engine_new" and "replace_partition env bound now k f s = (r, s')"
    and "snap = snapshot_from_fetched env (trim k) f now"
  shows "(ref_outcome r = Replaced \<longleftrightarrow>
      \<not> snapshot_malformed (trim k) snap
      \<and> (case hm_get (eng_pending s) (trim k) of None \<Rightarrow> True | Some q \<Rightarrow> rev_le (pend_revision q) (snap_revision snap))
      \<and> (case hm_get (eng_partitions s) (trim k) of
           None \<Rightarrow> length (eng_partitions s) < bound
         | Some p \<Rightarrow> snap_source_revision p \<le> snap_source_revision snap \<and> snap_audience_revision p \<le> snap_audience_revision snap
             \<and> snap_source_revision p + snap_audience_revision p < snap_source_revision snap + snap_audience_revision snap))
    \<and> (if ref_outcome r = Replaced then ref_snapshot r = Some snap \<and> s' = install_snapshot (trim k) now snap s
       else ref_snapshot r = None \<and> s' = s)"
proof -
  have ok: "engine_ok env bound s" using run_ops_ok[OF engine_new_ok] assms(1) by simp
  have pending: "check_pending (trim k) snap s = None \<longleftrightarrow>
      (case hm_get (eng_pending s) (trim k) of None \<Rightarrow> True | Some q \<Rightarrow> rev_le (pend_revision q) (snap_revision snap))"
    by (auto simp: check_pending_def Let_def pend_revision_def snap_revision_def split: option.splits)
  have current: "check_current (trim k) snap s = None \<longleftrightarrow>
      snap_source_revision p \<le> snap_source_revision snap \<and> snap_audience_revision p \<le> snap_audience_revision snap
      \<and> snap_source_revision p + snap_audience_revision p < snap_source_revision snap + snap_audience_revision snap"
    if p: "hm_get (eng_partitions s) (trim k) = Some p" and wf: "\<not> snapshot_malformed (trim k) snap" for p
  proof -
    have "0 \<le> snap_source_revision snap" "0 \<le> snap_audience_revision snap"
      using wf by (auto simp: snapshot_malformed_def)
    then show ?thesis
      using p stored_revisions(1,2)[OF ok_stored[OF ok p]]
      by (auto simp: check_current_def Let_def is_stale_candidate_def)
  qed
  show ?thesis
  proof (cases rule: replace_partition_cases[of env bound now k f s])
    case refused
    then have "\<not> (\<not> snapshot_malformed (trim k) snap \<and> check_pending (trim k) snap s = None \<and> check_current (trim k) snap s = None
        \<and> (length (eng_partitions s) < bound \<or> hm_contains (eng_partitions s) (trim k)))"
      using assms(3) by (auto simp: replace_partition_def Let_def)
    then show ?thesis
      using refused assms(2) pending current by (auto simp: hm_contains_def check_current_def split: option.splits)
  next
    case (replaced sn)
    then have "sn = snap" using assms(3) by simp
    then show ?thesis
      using replaced assms(2) pending current by (auto simp: hm_contains_def split: option.splits)
  qed
qed

theorem replacement_exact_witness:
  "ref_outcome (fst (replace_partition sample_env 64 [] [112] (sample_fetch 1) engine_new)) = Replaced"
  using replacement_exact[of engine_new sample_env 64 "[]" "[]" "[112]" "sample_fetch 1"
      "fst (replace_partition sample_env 64 [] [112] (sample_fetch 1) engine_new)"
      "snd (replace_partition sample_env 64 [] [112] (sample_fetch 1) engine_new)" _, OF _ _ refl]
  by (simp add: trim_visible snapshot_malformed_def snapshot_from_fetched_def Let_def sample_fetch_def tool_named_def
      MAX_TOOLS_PER_PARTITION_def engine_new_def)

text \<open>
  a stored snapshot survives a restart. Restoring what a reachable engine stored into a new
  engine with room passes the digest check, installs the same snapshot but for the time of the
  restore, and discovery lists its tools.
\<close>

theorem restore_roundtrip:
  assumes "s = run_ops env bound ops engine_new" and "hm_get (eng_partitions s) key = Some p" and "0 < bound'"
    and "restore_partition env bound' now p engine_new = (r, s')"
  shows "ref_outcome r = Replaced \<and> ref_snapshot r = Some (p\<lparr>snap_fetched_at := now\<rparr>)
    \<and> disc_ok (list_tools key s') \<and> disc_tools (list_tools key s') = snap_tools p"
proof -
  have "engine_ok env bound s" using run_ops_ok[OF engine_new_ok] assms(1) by simp
  then have st: "stored_ok env key p" using ok_stored assms(2) by blast
  then have key: "snap_partition_key p = key" "trim key = key"
    and dig: "snap_digest p = digest_catalog_snapshot env key (snap_source_revision p) (snap_catalog_revision p)
        (snap_audience_revision p) (snap_tools p)"
    and cnt: "snap_tool_count p = length (snap_tools p)" and cat: "trim (snap_catalog_revision p) = snap_catalog_revision p"
    and wf: "\<not> snapshot_malformed key p"
    by (auto simp: stored_ok_def)
  let ?f = "\<lparr>fet_source_revision = snap_source_revision p, fet_catalog_revision = snap_catalog_revision p,
         fet_audience_revision = snap_audience_revision p, fet_tools = snap_tools p\<rparr>"
  have snap: "snapshot_from_fetched env key ?f now = p\<lparr>snap_fetched_at := now\<rparr>"
    using key dig cnt cat by (cases p) (simp add: snapshot_from_fetched_def Let_def)
  have "\<not> snapshot_malformed key (p\<lparr>snap_fetched_at := now\<rparr>)" using wf by (simp add: snapshot_malformed_def)
  then have "restore_partition env bound' now p engine_new =
     (\<lparr>ref_outcome = Replaced, ref_partition_key = key, ref_snapshot = Some (p\<lparr>snap_fetched_at := now\<rparr>), ref_retained = None\<rparr>,
      install_snapshot key now (p\<lparr>snap_fetched_at := now\<rparr>) engine_new)"
    using assms(3) key dig cnt snap
    by (simp add: restore_partition_def replace_partition_def Let_def check_pending_def check_current_def engine_new_def)
  then show ?thesis using assms(4) key
    by (auto simp: list_tools_def Let_def install_snapshot_def engine_new_def hm_contains_def)
qed

theorem restore_roundtrip_witness:
  "disc_tools (list_tools [112] (snd (restore_partition sample_env 1 []
     (snapshot_from_fetched sample_env [112] (sample_fetch 1) []) engine_new))) = [tool_named [116]]"
proof -
  let ?p = "snapshot_from_fetched sample_env [112] (sample_fetch 1) []"
  have p: "hm_get (eng_partitions (run_ops sample_env 64 [([], OpReplace [112] (sample_fetch 1))] engine_new)) [112] = Some ?p"
    unfolding sample_store by simp
  obtain r s' where r: "restore_partition sample_env 1 [] ?p engine_new = (r, s')" by fastforce
  have "snap_tools ?p = [tool_named [116]]" by (simp add: snapshot_from_fetched_def Let_def sample_fetch_def)
  then show ?thesis using restore_roundtrip[OF refl p _ r] r by simp
qed

section \<open>The coalesced refresh\<close>

text \<open>
  C30: one refresh per partition. As long as the engine is not purged, at most one thread is
  between registering a refresh of a partition and releasing it, in every interleaving.
\<close>

theorem refresh_single_flight:
  assumes "refresh_reachable env bound False y"
    and "leads (sys_threads y t) key slot" and "leads (sys_threads y t') key slot'"
  shows "t = t'"
proof -
  have ok: "slots_ok y" by (rule slots_ok_reachable[OF assms(1)])
  have "slot = slot'"
    using flights_ok_reachable[OF assms(1)] assms(2,3) unfolding flights_ok_def by (metis option.inject)
  then show ?thesis using slots_okD(4)[OF ok assms(2)] assms(3) by blast
qed

lemma sample_refresh:
  "refresh_reachable env bound purge (refresh_enter 7 [112] refresh_init)"
  "sys_threads (refresh_enter 7 [112] refresh_init) 7 = Leading [112] 0"
  unfolding refresh_reachable_def
  by (rule r_into_rtranclp, rule refresh_step.enter) (simp_all add: refresh_init_def refresh_enter_def trim_visible engine_new_def Let_def)

theorem refresh_single_flight_witness:
  "leads (sys_threads (refresh_enter 7 [112] refresh_init) 7) [112] 0
    \<and> \<not> leads (sys_threads (refresh_enter 7 [112] refresh_init) 8) [112] 0"
  using refresh_single_flight[OF sample_refresh(1), of 8 "[112]" 0 7 0] by (auto simp: sample_refresh(2))

text \<open>
  A refresh is answered once and for all. Whatever runs concurrently, purges included, all
  threads that returned from one slot returned the same result, and a thread that waits or
  has led a slot sees a result that never changes.
\<close>

theorem refresh_answers_agree:
  assumes "refresh_reachable env bound purge y"
    and "sys_threads y t = Returned key (Some slot) r" and "sys_threads y t' = Returned key' (Some slot) r'"
  shows "r = r'"
proof -
  have ok: "slots_ok y" by (rule slots_ok_reachable[OF assms(1)])
  show ?thesis using slots_okD(8)[OF ok, of t slot r] slots_okD(8)[OF ok, of t' slot r'] assms(2,3) by simp
qed

text \<open>Thread 7 leads, thread 8 joins, the fetcher panics, both return.\<close>

definition sample_answered :: "digest_env \<Rightarrow> nat \<Rightarrow> refresh_system" where
  "sample_answered env bound =
     (let y = refresh_enter 8 [112] (refresh_enter 7 [112] refresh_init);
          y = refresh_fetched env bound [] None 7 [112] 0 (refresh_pull 7 [112] 0 (slot_waiting 8 [112] 0 y));
          r = refused FetchFailed [112] None in
      set_phase 8 (Returned [112] (Some 0) r) (refresh_release 7 [112] 0 r (slot_complete 7 [112] 0 r y)))"

lemma refresh_next: "refresh_reachable env bound purge y \<Longrightarrow> refresh_step env bound purge y y' \<Longrightarrow> refresh_reachable env bound purge y'"
  by (simp add: refresh_reachable_def)

lemma sample_answered:
  "refresh_reachable env bound purge (sample_answered env bound)"
  "sys_threads (sample_answered env bound) 7 = Returned [112] (Some 0) (refused FetchFailed [112] None)"
  "\<exists>r. sys_threads (sample_answered env bound) 8 = Returned [112] (Some 0) r"
proof -
  note e = refresh_init_def refresh_enter_def trim_visible engine_new_def Let_def slot_waiting_def refresh_pull_def
    refresh_fetched_def slot_complete_def refresh_release_def
  show "refresh_reachable env bound purge (sample_answered env bound)"
    unfolding sample_answered_def Let_def
    apply (rule refresh_next[OF _ refresh_step.wake[where t = 8 and slot = 0]])
      apply (rule refresh_next[OF _ refresh_step.release])
       apply (rule refresh_next[OF _ refresh_step.complete])
        apply (rule refresh_next[OF _ refresh_step.fetch])
         apply (rule refresh_next[OF _ refresh_step.pull])
          apply (rule refresh_next[OF _ refresh_step.wait])
           apply (rule refresh_next[OF sample_refresh(1) refresh_step.enter])
           apply (simp_all add: e)
    done
  show "sys_threads (sample_answered env bound) 7 = Returned [112] (Some 0) (refused FetchFailed [112] None)"
    "\<exists>r. sys_threads (sample_answered env bound) 8 = Returned [112] (Some 0) r"
    by (simp_all add: sample_answered_def e)
qed

theorem refresh_answers_agree_witness:
  "sys_threads (sample_answered sample_env 64) 8 = Returned [112] (Some 0) (refused FetchFailed [112] None)"
  using sample_answered(3)[of sample_env 64]
    refresh_answers_agree[OF sample_answered(1,2), of sample_env 64 8 "[112]"] by auto

text \<open>
  With a concurrent purge the single flight is lost: the purge forgets the slot in flight, so a
  second thread leads a refresh of the same partition.
\<close>

lemma purge_breaks_single_flight:
  "\<exists>y. refresh_reachable env bound True y \<and> leads (sys_threads y 7) [112] 0 \<and> leads (sys_threads y 8) [112] 1"
proof -
  let ?y = "refresh_enter 7 [112] refresh_init"
  let ?z = "?y\<lparr>sys_engine := run_op env bound [] OpPurge (sys_engine ?y)\<rparr>"
  have "refresh_reachable env bound True ?z"
    by (rule refresh_next[OF sample_refresh(1) refresh_step.operation]) simp
  then have "refresh_reachable env bound True (refresh_enter 8 [112] ?z)"
    by (rule refresh_next[OF _ refresh_step.enter]) (simp add: refresh_init_def refresh_enter_def trim_visible engine_new_def Let_def)
  moreover have "leads (sys_threads (refresh_enter 8 [112] ?z) 7) [112] 0" "leads (sys_threads (refresh_enter 8 [112] ?z) 8) [112] 1"
    by (simp_all add: refresh_init_def refresh_enter_def trim_visible engine_new_def Let_def purge_all_def)
  ultimately show ?thesis by blast
qed

text \<open>
  no refresh is abandoned. In every reachable state of every interleaving, purges
  included, each call that has started can return: some continuation of the threads already
  running leads to its return.
\<close>

theorem refresh_can_return:
  assumes "refresh_reachable env bound purge y" and "sys_threads y t \<noteq> Idle"
  shows "\<exists>y'. (refresh_step env bound purge)\<^sup>*\<^sup>* y y' \<and> returned (sys_threads y' t)"
  by (rule steps_return[OF slots_ok_reachable[OF assms(1)] assms(2)])

theorem refresh_can_return_witness:
  "\<exists>y'. (refresh_step sample_env 64 True)\<^sup>*\<^sup>* (refresh_enter 7 [112] refresh_init) y' \<and> returned (sys_threads y' 7)"
  by (rule refresh_can_return[OF sample_refresh(1)]) (simp add: sample_refresh(2))

end
