(* ===== verification/Catalog_Receipt.thy ===== *)
theory Catalog_Receipt
  imports Catalog_Model
begin

text \<open>
  Official client receipts (\<open>receipt.rs\<close>): validation of the receipt context, the privacy scan of
  JSON values, the summary and receipt digests, and the receipt itself.
\<close>

datatype receipt_error = ReceiptUnknownTarget | ReceiptMissingField | ReceiptStaleRevision
  | ReceiptCohortInvalid | ReceiptPrivacyUnsafe

record outcome_record =
  out_ok :: bool
  out_reason_code :: rstr

record receipt =
  rec_schema_version :: rstr
  rec_target :: rstr
  rec_platform :: rstr
  rec_runtime :: rstr
  rec_source_digest :: rstr
  rec_negotiated_capability :: rstr
  rec_opaque_partition_key :: rstr
  rec_source_revision :: i64
  rec_catalog_revision :: rstr
  rec_audience_revision :: i64
  rec_applied_revision :: i64
  rec_cache_digest :: rstr
  rec_cohort_outcome :: rstr
  rec_ui_observed_revision :: i64
  rec_restart_result :: outcome_record
  rec_privacy_result :: outcome_record
  rec_summary_digest :: rstr
  rec_receipt_digest :: rstr
  rec_observed_at :: "rstr option"

record receipt_context =
  ctx_target :: rstr
  ctx_platform :: rstr
  ctx_runtime :: rstr
  ctx_source_digest :: rstr
  ctx_negotiated_capability :: rstr
  ctx_opaque_partition_key :: rstr
  ctx_source_revision :: i64
  ctx_catalog_revision :: rstr
  ctx_audience_revision :: i64
  ctx_applied_revision :: i64
  ctx_cache_digest :: rstr
  ctx_cohort_outcome :: rstr
  ctx_ui_observed_revision :: i64
  ctx_restart_ok :: bool
  ctx_restart_reason_code :: rstr
  ctx_observed_at :: "rstr option"

definition OFFICIAL_CLIENT_RECEIPT_SCHEMA :: rstr where
  "OFFICIAL_CLIENT_RECEIPT_SCHEMA = lit ''v0.0.1:upstream-gateway:official-client-receipt-1''"

definition PRIVACY_FORBIDDEN_KEYS :: "rstr list" where
  "PRIVACY_FORBIDDEN_KEYS = map lit
    [''tools'', ''catalog'', ''catalogEntries'', ''catalogTools'', ''tag'', ''tags'', ''tagRows'',
     ''tagPolicy'', ''credential'', ''credentials'', ''secret'', ''secrets'', ''token'', ''tokens'',
     ''bearer'', ''bearerToken'', ''certificate'', ''certificates'', ''cert'', ''certPem'', ''pem'',
     ''filePath'', ''filesystemPath'', ''absolutePath'', ''cwd'', ''workingDirectory'', ''grant'',
     ''grants'', ''manifest'', ''upstreamUrl'', ''baseUrl'']"

section \<open>Validation\<close>

definition validate_inputs :: "receipt_context \<Rightarrow> receipt_error + unit" where
  "validate_inputs c =
     ensure (to_ascii_lowercase (trim (ctx_target c)) \<in> set ALLOWED_CLIENT_TARGETS) ReceiptUnknownTarget
     (ensure (is_hex_digest (ctx_source_digest c)) ReceiptMissingField
     (ensure (is_hex_digest (ctx_cache_digest c)) ReceiptMissingField
     (ensure (is_opaque_partition_key (ctx_opaque_partition_key c)) ReceiptMissingField
     (ensure (revision_number (ctx_source_revision c) \<ge> 0 \<and> revision_number (ctx_audience_revision c) \<ge> 0
         \<and> revision_number (ctx_applied_revision c) \<ge> 0 \<and> revision_number (ctx_ui_observed_revision c) \<ge> 0
         \<and> trim (ctx_catalog_revision c) \<noteq> []) ReceiptMissingField
     (ensure (ctx_applied_revision c \<ge> ctx_audience_revision c
         \<and> ctx_ui_observed_revision c \<ge> ctx_applied_revision c) ReceiptStaleRevision
     (ensure (ctx_cohort_outcome c \<in> {lit ''applied'', lit ''disconnected'', lit ''fenced''}) ReceiptCohortInvalid
     (Inr ())))))))"

section \<open>The privacy scan\<close>

fun starts_with :: "rstr \<Rightarrow> rstr \<Rightarrow> bool" where
  "starts_with [] v = True"
| "starts_with (p # ps) [] = False"
| "starts_with (p # ps) (c # v) = (p = c \<and> starts_with ps v)"

fun str_contains :: "rstr \<Rightarrow> rstr \<Rightarrow> bool" where
  "str_contains p [] = (p = [])"
| "str_contains p (c # v) = (starts_with p (c # v) \<or> str_contains p v)"

text \<open>\<open>split_once\<close> at a character.\<close>

definition split_once :: "nat \<Rightarrow> rstr \<Rightarrow> (rstr \<times> rstr) option" where
  "split_once sep v =
     (case dropWhile (\<lambda>c. c \<noteq> sep) v of
        [] \<Rightarrow> None
      | _ # rest \<Rightarrow> Some (takeWhile (\<lambda>c. c \<noteq> sep) v, rest))"

definition is_sensitive_unix_absolute_path :: "rstr \<Rightarrow> bool" where
  "is_sensitive_unix_absolute_path v =
     (case v of
        [] \<Rightarrow> False
      | c # relative \<Rightarrow>
          if c \<noteq> 47 then False
          else case split_once 47 relative of
            None \<Rightarrow> False
          | Some (root, _) \<Rightarrow> root \<in> {lit ''Users'', lit ''home'', lit ''private''})"

definition is_ascii_alphabetic :: "nat \<Rightarrow> bool" where
  "is_ascii_alphabetic c \<longleftrightarrow> 65 \<le> c \<and> c \<le> 90 \<or> 97 \<le> c \<and> c \<le> 122"

fun is_windows_absolute_path :: "rstr \<Rightarrow> bool" where
  "is_windows_absolute_path (drive # colon # slash # _) = (is_ascii_alphabetic drive \<and> colon = 58 \<and> slash = 92)"
| "is_windows_absolute_path _ = False"

definition scan_privacy_text :: "rstr \<Rightarrow> receipt_error + unit" where
  "scan_privacy_text v =
     (let n = trim v in
      if n = [] then Inr ()
      else if starts_with (lit ''Bearer '') n \<or> starts_with (lit ''bearer '') n then Inl ReceiptPrivacyUnsafe
      else if str_contains (lit ''-----BEGIN'') n then Inl ReceiptPrivacyUnsafe
      else if is_sensitive_unix_absolute_path n then Inl ReceiptPrivacyUnsafe
      else if is_windows_absolute_path n then Inl ReceiptPrivacyUnsafe
      else Inr ())"

text \<open>The scan of a value and of an object call each other; the third function is the loop over items.\<close>

fun scan_privacy_value :: "json \<Rightarrow> receipt_error + unit"
  and scan_privacy_map :: "(rstr \<times> json) list \<Rightarrow> receipt_error + unit"
  and scan_privacy_items :: "json list \<Rightarrow> receipt_error + unit" where
  "scan_privacy_value (JString s) = scan_privacy_text s"
| "scan_privacy_value (JArray items) = scan_privacy_items items"
| "scan_privacy_value (JObject m) = scan_privacy_map m"
| "scan_privacy_value JNull = Inr ()"
| "scan_privacy_value (JBool b) = Inr ()"
| "scan_privacy_value (JNumber n) = Inr ()"
| "scan_privacy_map [] = Inr ()"
| "scan_privacy_map ((key, v) # m) =
     (if key \<in> set PRIVACY_FORBIDDEN_KEYS then Inl ReceiptPrivacyUnsafe
      else and_then (if key = lit ''path'' then (case v of JString s \<Rightarrow> scan_privacy_text s | _ \<Rightarrow> Inr ()) else Inr ()) (\<lambda>_.
           and_then (scan_privacy_value v) (\<lambda>_. scan_privacy_map m)))"
| "scan_privacy_items [] = Inr ()"
| "scan_privacy_items (v # vs) = and_then (scan_privacy_value v) (\<lambda>_. scan_privacy_items vs)"

section \<open>Digests and the receipt\<close>

definition outcome_json :: "bool \<Rightarrow> rstr \<Rightarrow> rstr \<Rightarrow> json" where
  "outcome_json ok reason_code label =
     (let reason = trim reason_code; normalized = (if reason = [] then label @ lit ''_unknown'' else reason) in
      JObject (json_map [(lit ''ok'', JBool ok), (lit ''reasonCode'', JString normalized)]))"

definition context_to_map :: "receipt_context \<Rightarrow> (rstr \<times> json) list" where
  "context_to_map c = json_map
     [(lit ''target'', JString (ctx_target c)), (lit ''platform'', JString (ctx_platform c)),
      (lit ''runtime'', JString (ctx_runtime c)), (lit ''sourceDigest'', JString (ctx_source_digest c)),
      (lit ''negotiatedCapability'', JString (ctx_negotiated_capability c)),
      (lit ''opaquePartitionKey'', JString (ctx_opaque_partition_key c)),
      (lit ''catalogRevision'', JString (ctx_catalog_revision c)),
      (lit ''cacheDigest'', JString (ctx_cache_digest c)), (lit ''cohortOutcome'', JString (ctx_cohort_outcome c))]"

definition build_summary_digest :: "digest_env \<Rightarrow> receipt_context \<Rightarrow> receipt_error + rstr" where
  "build_summary_digest env c =
     and_then (validate_inputs c) (\<lambda>_.
     Inr (sha256_hex env (canonical_json_map env
       [(lit ''appliedRevision'', json_i64 (revision_number (ctx_applied_revision c))),
        (lit ''audienceRevision'', json_i64 (revision_number (ctx_audience_revision c))),
        (lit ''cacheDigest'', JString (trim (ctx_cache_digest c))),
        (lit ''catalogRevision'', JString (trim (ctx_catalog_revision c))),
        (lit ''cohortOutcome'', JString (trim (ctx_cohort_outcome c))),
        (lit ''opaquePartitionKey'', JString (trim (ctx_opaque_partition_key c))),
        (lit ''sourceDigest'', JString (trim (ctx_source_digest c))),
        (lit ''sourceRevision'', json_i64 (revision_number (ctx_source_revision c))),
        (lit ''target'', JString (to_ascii_lowercase (trim (ctx_target c)))),
        (lit ''uiObservedRevision'', json_i64 (revision_number (ctx_ui_observed_revision c)))])))"

definition build_receipt_digest :: "digest_env \<Rightarrow> receipt_context \<Rightarrow> rstr \<Rightarrow> receipt_error + rstr" where
  "build_receipt_digest env c summary_digest =
     and_then (validate_inputs c) (\<lambda>_.
     and_then (scan_privacy_map (context_to_map c)) (\<lambda>_.
     Inr (sha256_hex env (canonical_json_map env
       [(lit ''appliedRevision'', json_i64 (revision_number (ctx_applied_revision c))),
        (lit ''audienceRevision'', json_i64 (revision_number (ctx_audience_revision c))),
        (lit ''cacheDigest'', JString (trim (ctx_cache_digest c))),
        (lit ''catalogRevision'', JString (trim (ctx_catalog_revision c))),
        (lit ''cohortOutcome'', JString (trim (ctx_cohort_outcome c))),
        (lit ''negotiatedCapability'', JString (trim (ctx_negotiated_capability c))),
        (lit ''opaquePartitionKey'', JString (trim (ctx_opaque_partition_key c))),
        (lit ''platform'', JString (trim (ctx_platform c))),
        (lit ''privacyResult'', outcome_json True (lit ''privacy_safe'') (lit ''privacy'')),
        (lit ''restartResult'', outcome_json (ctx_restart_ok c) (ctx_restart_reason_code c) (lit ''restart'')),
        (lit ''runtime'', JString (trim (ctx_runtime c))),
        (lit ''schemaVersion'', JString OFFICIAL_CLIENT_RECEIPT_SCHEMA),
        (lit ''sourceDigest'', JString (trim (ctx_source_digest c))),
        (lit ''sourceRevision'', json_i64 (revision_number (ctx_source_revision c))),
        (lit ''summaryDigest'', JString (trim summary_digest)),
        (lit ''target'', JString (to_ascii_lowercase (trim (ctx_target c)))),
        (lit ''uiObservedRevision'', json_i64 (revision_number (ctx_ui_observed_revision c)))]))))"

definition restart_reason :: "receipt_context \<Rightarrow> rstr" where
  "restart_reason c =
     (if trim (ctx_restart_reason_code c) = []
      then (if ctx_restart_ok c then lit ''restart_recovered'' else lit ''restart_failed'')
      else trim (ctx_restart_reason_code c))"

definition build_official_client_receipt :: "digest_env \<Rightarrow> receipt_context \<Rightarrow> receipt_error + receipt" where
  "build_official_client_receipt env c =
     and_then (validate_inputs c) (\<lambda>_.
     and_then (scan_privacy_map (context_to_map c)) (\<lambda>_.
     and_then (build_summary_digest env c) (\<lambda>summary.
     and_then (build_receipt_digest env c summary) (\<lambda>digest.
     Inr \<lparr>rec_schema_version = OFFICIAL_CLIENT_RECEIPT_SCHEMA,
       rec_target = to_ascii_lowercase (trim (ctx_target c)),
       rec_platform = trim (ctx_platform c), rec_runtime = trim (ctx_runtime c),
       rec_source_digest = trim (ctx_source_digest c),
       rec_negotiated_capability = trim (ctx_negotiated_capability c),
       rec_opaque_partition_key = trim (ctx_opaque_partition_key c),
       rec_source_revision = revision_number (ctx_source_revision c),
       rec_catalog_revision = trim (ctx_catalog_revision c),
       rec_audience_revision = revision_number (ctx_audience_revision c),
       rec_applied_revision = revision_number (ctx_applied_revision c),
       rec_cache_digest = trim (ctx_cache_digest c), rec_cohort_outcome = trim (ctx_cohort_outcome c),
       rec_ui_observed_revision = revision_number (ctx_ui_observed_revision c),
       rec_restart_result = \<lparr>out_ok = ctx_restart_ok c, out_reason_code = restart_reason c\<rparr>,
       rec_privacy_result = \<lparr>out_ok = True, out_reason_code = lit ''privacy_safe''\<rparr>,
       rec_summary_digest = summary, rec_receipt_digest = digest,
       rec_observed_at = ctx_observed_at c\<rparr>))))"

section \<open>What a receipt guarantees\<close>

definition privacy_safe :: "rstr \<Rightarrow> bool" where
  "privacy_safe v \<longleftrightarrow> \<not> starts_with (lit ''Bearer '') v \<and> \<not> starts_with (lit ''bearer '') v
     \<and> \<not> str_contains (lit ''-----BEGIN'') v \<and> \<not> is_sensitive_unix_absolute_path v \<and> \<not> is_windows_absolute_path v"

text \<open>The digest of a receipt recomputed from the receipt alone.\<close>

definition receipt_digest_of :: "digest_env \<Rightarrow> receipt \<Rightarrow> rstr" where
  "receipt_digest_of env r = sha256_hex env (canonical_json_map env
     [(lit ''appliedRevision'', json_i64 (rec_applied_revision r)),
      (lit ''audienceRevision'', json_i64 (rec_audience_revision r)),
      (lit ''cacheDigest'', JString (rec_cache_digest r)), (lit ''catalogRevision'', JString (rec_catalog_revision r)),
      (lit ''cohortOutcome'', JString (rec_cohort_outcome r)),
      (lit ''negotiatedCapability'', JString (rec_negotiated_capability r)),
      (lit ''opaquePartitionKey'', JString (rec_opaque_partition_key r)), (lit ''platform'', JString (rec_platform r)),
      (lit ''privacyResult'', JObject (json_map [(lit ''ok'', JBool (out_ok (rec_privacy_result r))),
         (lit ''reasonCode'', JString (out_reason_code (rec_privacy_result r)))])),
      (lit ''restartResult'', JObject (json_map [(lit ''ok'', JBool (out_ok (rec_restart_result r))),
         (lit ''reasonCode'', JString (out_reason_code (rec_restart_result r)))])),
      (lit ''runtime'', JString (rec_runtime r)), (lit ''schemaVersion'', JString (rec_schema_version r)),
      (lit ''sourceDigest'', JString (rec_source_digest r)), (lit ''sourceRevision'', json_i64 (rec_source_revision r)),
      (lit ''summaryDigest'', JString (rec_summary_digest r)), (lit ''target'', JString (rec_target r)),
      (lit ''uiObservedRevision'', json_i64 (rec_ui_observed_revision r))])"

lemma scan_text_safe: "scan_privacy_text v = Inr () \<Longrightarrow> privacy_safe (trim v)"
proof (cases "trim v = []")
  case True
  then show ?thesis by (simp add: privacy_safe_def lit_def is_sensitive_unix_absolute_path_def)
qed (auto simp: scan_privacy_text_def privacy_safe_def Let_def split: if_splits)

lemma scan_map_values: "scan_privacy_map m = Inr () \<Longrightarrow> (k, v) \<in> set m \<Longrightarrow> scan_privacy_value v = Inr ()"
  by (induction m) (auto simp: and_then_Inr_iff split: if_splits)

lemma scan_map_get: "scan_privacy_map m = Inr () \<Longrightarrow> map_of m k = Some (JString v) \<Longrightarrow> privacy_safe (trim v)"
  using scan_map_values[of m k "JString v"] map_of_SomeD[of m k] scan_text_safe by fastforce

text \<open>Hexadecimal digests survive trimming and hashing: a lower-case digest is its own trim.\<close>

lemma hexdigit_visible: "is_hexdigit c \<Longrightarrow> \<not> white_space c"
  by (auto simp: is_hexdigit_def white_space_def)

lemma dropWhile_visible: "(\<And>c. c \<in> set v \<Longrightarrow> \<not> P c) \<Longrightarrow> dropWhile P v = v"
  by (cases v) auto

lemma trim_printable: "\<forall>c\<in>set v. \<not> white_space c \<Longrightarrow> trim v = v"
  using dropWhile_visible[of v white_space] dropWhile_visible[of "rev v" white_space] by (auto simp: trim_def)

lemma trim_hex: "\<forall>c\<in>set v. is_hexdigit c \<Longrightarrow> trim v = v"
  using hexdigit_visible by (blast intro: trim_printable)

lemma trim_sha256_hex [simp]: "trim (sha256_hex env v) = sha256_hex env v"
  by (rule trim_hex) (simp add: sha256_hex_def hex_encode_digits)

lemma summary_trim: "build_summary_digest env c = Inr d \<Longrightarrow> trim d = d"
  by (auto simp: build_summary_digest_def and_then_Inr_iff)

text \<open>
  a receipt is valid and private. A receipt is only built for a known target, with
  revisions ordered audience, applied, observed, and none of its scanned fields is a bearer
  token, a PEM block or an absolute path under a user's directories.
\<close>

theorem receipt_valid_and_private:
  assumes "build_official_client_receipt env c = Inr r"
  shows "rec_target r \<in> set ALLOWED_CLIENT_TARGETS \<and> 0 \<le> rec_audience_revision r
    \<and> rec_audience_revision r \<le> rec_applied_revision r \<and> rec_applied_revision r \<le> rec_ui_observed_revision r
    \<and> is_hex_digest (rec_source_digest r) \<and> is_hex_digest (rec_cache_digest r)
    \<and> privacy_safe (rec_platform r) \<and> privacy_safe (rec_runtime r) \<and> privacy_safe (rec_negotiated_capability r)
    \<and> privacy_safe (rec_opaque_partition_key r) \<and> privacy_safe (rec_catalog_revision r) \<and> privacy_safe (rec_cohort_outcome r)"
proof -
  have v: "validate_inputs c = Inr ()" and scan: "scan_privacy_map (context_to_map c) = Inr ()"
    using assms by (auto simp: build_official_client_receipt_def and_then_Inr_iff)
  have rev: "0 \<le> ctx_source_revision c" "0 \<le> ctx_audience_revision c" "0 \<le> ctx_applied_revision c" "0 \<le> ctx_ui_observed_revision c"
    using v by (auto simp: validate_inputs_def ensure_Inr_iff revision_number_def split: if_splits)
  have get: "map_of (context_to_map c) (lit ''platform'') = Some (JString (ctx_platform c))"
    "map_of (context_to_map c) (lit ''runtime'') = Some (JString (ctx_runtime c))"
    "map_of (context_to_map c) (lit ''negotiatedCapability'') = Some (JString (ctx_negotiated_capability c))"
    "map_of (context_to_map c) (lit ''opaquePartitionKey'') = Some (JString (ctx_opaque_partition_key c))"
    "map_of (context_to_map c) (lit ''catalogRevision'') = Some (JString (ctx_catalog_revision c))"
    "map_of (context_to_map c) (lit ''cohortOutcome'') = Some (JString (ctx_cohort_outcome c))"
    by (simp_all add: context_to_map_def lookup_json_map lit_def)
  note safe = get[THEN scan_map_get[OF scan]]
  have r: "rec_target r = to_ascii_lowercase (trim (ctx_target c))" "rec_platform r = trim (ctx_platform c)"
    "rec_runtime r = trim (ctx_runtime c)" "rec_negotiated_capability r = trim (ctx_negotiated_capability c)"
    "rec_opaque_partition_key r = trim (ctx_opaque_partition_key c)" "rec_catalog_revision r = trim (ctx_catalog_revision c)"
    "rec_cohort_outcome r = trim (ctx_cohort_outcome c)" "rec_source_digest r = trim (ctx_source_digest c)"
    "rec_cache_digest r = trim (ctx_cache_digest c)" "rec_audience_revision r = ctx_audience_revision c"
    "rec_applied_revision r = ctx_applied_revision c" "rec_ui_observed_revision r = ctx_ui_observed_revision c"
    using assms rev by (auto simp: build_official_client_receipt_def and_then_Inr_iff revision_number_def)
  have "is_hex_digest (trim (ctx_source_digest c))" "is_hex_digest (trim (ctx_cache_digest c))"
      "to_ascii_lowercase (trim (ctx_target c)) \<in> set ALLOWED_CLIENT_TARGETS"
      "ctx_audience_revision c \<le> ctx_applied_revision c" "ctx_applied_revision c \<le> ctx_ui_observed_revision c"
    using v by (simp_all add: validate_inputs_def ensure_Inr_iff is_hex_digest_def)
  then show ?thesis using safe rev unfolding r by blast
qed

definition sample_context :: "rstr \<Rightarrow> receipt_context" where
  "sample_context reason =
     \<lparr>ctx_target = lit ''macos'', ctx_platform = lit ''desktop'', ctx_runtime = lit ''native'',
      ctx_source_digest = replicate 64 97, ctx_negotiated_capability = lit ''list'',
      ctx_opaque_partition_key = replicate 64 98, ctx_source_revision = 5, ctx_catalog_revision = lit ''r5'',
      ctx_audience_revision = 7, ctx_applied_revision = 7, ctx_cache_digest = replicate 64 99,
      ctx_cohort_outcome = lit ''applied'', ctx_ui_observed_revision = 7, ctx_restart_ok = True,
      ctx_restart_reason_code = reason, ctx_observed_at = None\<rparr>"

lemma is_hex_digest_trim [simp]: "is_hex_digest (trim v) = is_hex_digest v"
  by (simp add: is_hex_digest_def)

lemma is_hex_digest_replicate: "97 \<le> c \<Longrightarrow> c \<le> 102 \<Longrightarrow> is_hex_digest (replicate 64 c)"
proof -
  assume c: "97 \<le> c" "c \<le> 102"
  then have "trim (replicate 64 c) = replicate 64 c" by (intro trim_hex) (auto simp: is_hexdigit_def)
  moreover have "str_len (replicate 64 c) = 64"
    using c hex_str_len[of "replicate 64 c"] by (auto simp: is_hexdigit_def)
  ultimately show ?thesis using c by (auto simp: is_hex_digest_def Let_def is_hexdigit_def)
qed

lemma sample_context_builds: "\<exists>r. build_official_client_receipt env (sample_context reason) = Inr r
    \<and> rec_restart_result r = \<lparr>out_ok = True, out_reason_code = restart_reason (sample_context reason)\<rparr>"
proof -
  let ?c = "sample_context reason"
  have tr: "trim [109, 97, 99, 111, 115] = [109, 97, 99, 111, 115]" "trim [114, 53] = [114, 53]"
    by (simp_all add: trim_def white_space_def)
  have v: "validate_inputs ?c = Inr ()"
    by (simp add: validate_inputs_def sample_context_def is_hex_digest_replicate is_opaque_partition_key_def Let_def
        revision_number_def ALLOWED_CLIENT_TARGETS_def to_ascii_lowercase_def
        tr lit_def)
  have hexsafe: "scan_privacy_text (replicate 64 c) = Inr ()" if "97 \<le> c" "c \<le> 102" for c
  proof -
    have rep: "replicate 64 c = c # c # c # replicate 61 c" by (simp add: numeral_eq_Suc)
    have "trim (replicate 64 c) = replicate 64 c" using that by (intro trim_hex) (auto simp: is_hexdigit_def)
    moreover have "\<not> str_contains (lit ''-----BEGIN'') (replicate n c)" for n
      using that by (induction n) (auto simp: lit_def)
    moreover have "\<not> str_contains (lit ''-----BEGIN'') (replicate 64 c)" by (rule calculation(2))
    moreover have "\<not> starts_with (lit ''Bearer '') (replicate 64 c)" "\<not> starts_with (lit ''bearer '') (replicate 64 c)"
        "\<not> is_sensitive_unix_absolute_path (replicate 64 c)" "\<not> is_windows_absolute_path (replicate 64 c)"
      unfolding rep using that by (auto simp: lit_def is_sensitive_unix_absolute_path_def)
    ultimately show ?thesis by (simp add: scan_privacy_text_def)
  qed
  have "scan_privacy_map (context_to_map ?c) = Inr ()"
    by (simp add: context_to_map_def json_map_def sample_context_def PRIVACY_FORBIDDEN_KEYS_def hexsafe lit_def)
      (simp add: scan_privacy_text_def trim_def white_space_def lit_def split_once_def is_sensitive_unix_absolute_path_def)
  then show ?thesis using v
    by (simp add: build_official_client_receipt_def build_summary_digest_def build_receipt_digest_def sample_context_def)
qed

theorem receipt_valid_and_private_witness:
  "\<exists>r. build_official_client_receipt \<lparr>env_sha256 = (\<lambda>_. []), env_json_text = (\<lambda>_. [])\<rparr> (sample_context []) = Inr r
     \<and> rec_audience_revision r \<le> rec_ui_observed_revision r \<and> privacy_safe (rec_platform r)"
proof -
  obtain r where r: "build_official_client_receipt \<lparr>env_sha256 = (\<lambda>_. []), env_json_text = (\<lambda>_. [])\<rparr> (sample_context []) = Inr r"
    using sample_context_builds by blast
  show ?thesis using receipt_valid_and_private[OF r] r by auto
qed

text \<open>
  The digest covers the receipt. When the caller gives a restart reason, the digest of a
  receipt can be recomputed from the receipt's own fields.
\<close>

theorem receipt_digest_recomputable:
  assumes "build_official_client_receipt env c = Inr r" and "trim (ctx_restart_reason_code c) \<noteq> []"
  shows "rec_receipt_digest r = receipt_digest_of env r"
proof -
  obtain d where d: "build_summary_digest env c = Inr d" using assms(1)
    by (auto simp: build_official_client_receipt_def and_then_Inr_iff)
  have "trim (lit ''privacy_safe'') = lit ''privacy_safe''"
    by (simp add: trim_def lit_def white_space_def)
  moreover have "lit ''privacy_safe'' \<noteq> []" by (simp add: lit_def)
  ultimately show ?thesis
    using assms d summary_trim[OF d]
    by (auto simp: build_official_client_receipt_def build_receipt_digest_def and_then_Inr_iff receipt_digest_of_def
        outcome_json_def restart_reason_def Let_def)
qed

theorem receipt_digest_recomputable_witness:
  "\<exists>r. build_official_client_receipt \<lparr>env_sha256 = (\<lambda>_. []), env_json_text = (\<lambda>_. [])\<rparr> (sample_context [120]) = Inr r
     \<and> rec_receipt_digest r = receipt_digest_of \<lparr>env_sha256 = (\<lambda>_. []), env_json_text = (\<lambda>_. [])\<rparr> r"
proof -
  obtain r where r: "build_official_client_receipt \<lparr>env_sha256 = (\<lambda>_. []), env_json_text = (\<lambda>_. [])\<rparr> (sample_context [120]) = Inr r"
    using sample_context_builds by blast
  have "trim (ctx_restart_reason_code (sample_context [120])) \<noteq> []"
    by (simp add: sample_context_def trim_def white_space_def)
  from receipt_digest_recomputable[OF r this] r show ?thesis by auto
qed

text \<open>
  Two gaps. The restart reason is copied into the receipt without the privacy scan; and a
  blank reason is stored as restart_recovered but digested as restart_unknown.
\<close>

lemma reason_code_not_scanned:
  "\<exists>r. build_official_client_receipt env (sample_context (lit ''/home/user/key'')) = Inr r
     \<and> \<not> privacy_safe (out_reason_code (rec_restart_result r))"
proof -
  have t: "trim (lit ''/home/user/key'') = lit ''/home/user/key''"
    by (simp add: trim_def lit_def white_space_def)
  have "restart_reason (sample_context (lit ''/home/user/key'')) = lit ''/home/user/key''"
    using t by (simp add: restart_reason_def sample_context_def) (simp add: lit_def)
  moreover have "\<not> privacy_safe (lit ''/home/user/key'')"
    by (simp add: privacy_safe_def lit_def is_sensitive_unix_absolute_path_def split_once_def)
  ultimately show ?thesis using sample_context_builds[of env "lit ''/home/user/key''"] by auto
qed

lemma blank_reason_digest:
  "outcome_json ok [] (lit ''restart'') = JObject (json_map [(lit ''ok'', JBool ok), (lit ''reasonCode'', JString (lit ''restart_unknown''))])"
  "restart_reason (sample_context []) = lit ''restart_recovered''"
  by (simp_all add: outcome_json_def trim_def lit_def restart_reason_def sample_context_def)

end
