(* ===== verification/Catalog_Dispatch.thy ===== *)
theory Catalog_Dispatch
  imports Catalog_Proofs Catalog_Receipt Stateful
begin

text \<open>
  The command surface of the catalog crate (\<open>dispatch.rs\<close>): parameters are read from a JSON
  object, one engine operation runs, its result is rendered as JSON. The engine is the state
  passed through; the static engine of the crate has 64 partitions.
\<close>

datatype dispatch_error = MissingCatalogField rstr | UnsupportedCommand rstr | ReceiptRefused receipt_error

definition DEFAULT_MAX_PARTITIONS :: nat where "DEFAULT_MAX_PARTITIONS = 64"

section \<open>Reading parameters\<close>

definition nonempty_trimmed :: "rstr option \<Rightarrow> rstr option" where
  "nonempty_trimmed v = (case v of None \<Rightarrow> None | Some s \<Rightarrow> if trim s = [] then None else Some (trim s))"

definition get_str :: "json \<Rightarrow> rstr \<Rightarrow> rstr option" where
  "get_str params key = Option.bind (json_get params key) as_str"

definition optional_string :: "json \<Rightarrow> rstr \<Rightarrow> rstr option" where
  "optional_string params key = nonempty_trimmed (get_str params key)"

definition required_string :: "json \<Rightarrow> rstr \<Rightarrow> dispatch_error + rstr" where
  "required_string params key = ok_or (MissingCatalogField key) (nonempty_trimmed (get_str params key))"

text \<open>\<open>str::parse::<i64>\<close>: a sign, at least one digit, and no overflow.\<close>

definition parse_i64 :: "rstr \<Rightarrow> i64 option" where
  "parse_i64 s =
     (let neg = (s \<noteq> [] \<and> hd s = 45); ds = (if s \<noteq> [] \<and> (hd s = 45 \<or> hd s = 43) then tl s else s) in
      if ds = [] \<or> (\<exists>d\<in>set ds. d < 48 \<or> 57 < d) then None
      else let v = foldl (\<lambda>a d. 10 * a + int (d - 48)) 0 ds; v = (if neg then - v else v) in
        if - (2 ^ 63) \<le> v \<and> v < 2 ^ 63 then Some v else None)"

definition read_i64 :: "json \<Rightarrow> i64 option" where
  "read_i64 v =
     (case as_i64 v of Some i \<Rightarrow> Some i
      | None \<Rightarrow> case (case as_u64 v of Some n \<Rightarrow> (if uint n < 2 ^ 63 then Some (uint n) else None) | None \<Rightarrow> None) of
          Some i \<Rightarrow> Some i
        | None \<Rightarrow> (case as_str v of Some s \<Rightarrow> parse_i64 (trim s) | None \<Rightarrow> None))"

definition required_i64 :: "json \<Rightarrow> rstr \<Rightarrow> dispatch_error + i64" where
  "required_i64 params key = ok_or (MissingCatalogField key) (Option.bind (json_get params key) read_i64)"

definition required_bool :: "json \<Rightarrow> rstr \<Rightarrow> dispatch_error + bool" where
  "required_bool params key = ok_or (MissingCatalogField key) (Option.bind (json_get params key) as_bool)"

definition string_list :: "json \<Rightarrow> rstr \<Rightarrow> rstr list" where
  "string_list params key =
     (case Option.bind (json_get params key) as_array of
        None \<Rightarrow> []
      | Some items \<Rightarrow> filter (\<lambda>v. v \<noteq> []) (map trim (List.map_filter as_str items)))"

definition tool_of_json :: "json \<Rightarrow> tool_entry option" where
  "tool_of_json item =
     (case as_object item of
        None \<Rightarrow> None
      | Some obj \<Rightarrow> (case Option.bind (map_of obj (lit ''name'')) as_str of
          None \<Rightarrow> None
        | Some name \<Rightarrow> if trim name = [] then None
            else Some \<lparr>tool_name = trim name, tool_descriptor = filter (\<lambda>(k, _). k \<noteq> lit ''name'') obj\<rparr>))"

definition tool_list :: "json \<Rightarrow> tool_entry list" where
  "tool_list params =
     (case Option.bind (json_get params (lit ''tools'')) as_array of
        None \<Rightarrow> []
      | Some items \<Rightarrow> List.map_filter tool_of_json items)"

section \<open>Rendering results\<close>

definition opt_field :: "rstr \<Rightarrow> json option \<Rightarrow> (rstr \<times> json) list" where
  "opt_field key v = (case v of None \<Rightarrow> [] | Some j \<Rightarrow> [(key, j)])"

fun refresh_outcome_name :: "refresh_outcome \<Rightarrow> rstr" where
  "refresh_outcome_name Replaced = lit ''replaced''"
| "refresh_outcome_name Unchanged = lit ''unchanged''"
| "refresh_outcome_name FetchFailed = lit ''fetchFailed''"
| "refresh_outcome_name RejectedStale = lit ''rejectedStale''"
| "refresh_outcome_name RejectedConflict = lit ''rejectedConflict''"
| "refresh_outcome_name RejectedCapacity = lit ''rejectedCapacity''"

definition snapshot_json :: "snapshot \<Rightarrow> json" where
  "snapshot_json p = JObject (json_map
     [(lit ''partitionKey'', JString (snap_partition_key p)), (lit ''sourceRevision'', json_i64 (snap_source_revision p)),
      (lit ''catalogRevision'', JString (snap_catalog_revision p)), (lit ''audienceRevision'', json_i64 (snap_audience_revision p)),
      (lit ''tools'', JArray (map tool_json (snap_tools p))), (lit ''toolCount'', json_u64 (of_nat (snap_tool_count p))),
      (lit ''fetchedAt'', JString (snap_fetched_at p)), (lit ''digest'', JString (snap_digest p))])"

definition refresh_json :: "refresh_result \<Rightarrow> json" where
  "refresh_json r = JObject (json_map
     ([(lit ''outcome'', JString (refresh_outcome_name (ref_outcome r))), (lit ''partitionKey'', JString (ref_partition_key r))]
      @ opt_field (lit ''snapshot'') (map_option snapshot_json (ref_snapshot r))
      @ opt_field (lit ''retained'') (map_option snapshot_json (ref_retained r))))"

definition invalidation_json :: "invalidation_result \<Rightarrow> json" where
  "invalidation_json r = JObject (json_map
     [(lit ''acceptedPartitionKeys'', JArray (map JString (accepted_partition_keys r))),
      (lit ''pendingCount'', json_u64 (of_nat (pending_count r)))])"

definition discovery_json :: "discovery_result \<Rightarrow> json" where
  "discovery_json d = JObject (json_map
     ([(lit ''ok'', JBool (disc_ok d)), (lit ''reasonCode'', JString (disc_reason_code d)),
       (lit ''tools'', JArray (map tool_json (disc_tools d)))]
      @ opt_field (lit ''sourceRevision'') (map_option json_i64 (disc_source_revision d))
      @ opt_field (lit ''catalogRevision'') (map_option JString (disc_catalog_revision d))
      @ opt_field (lit ''audienceRevision'') (map_option json_i64 (disc_audience_revision d))))"

definition outcome_record_json :: "outcome_record \<Rightarrow> json" where
  "outcome_record_json r = JObject (json_map
     [(lit ''ok'', JBool (out_ok r)), (lit ''reasonCode'', JString (out_reason_code r))])"

definition receipt_json :: "receipt \<Rightarrow> json" where
  "receipt_json r = JObject (json_map
     ([(lit ''schemaVersion'', JString (rec_schema_version r)), (lit ''target'', JString (rec_target r)),
       (lit ''platform'', JString (rec_platform r)), (lit ''runtime'', JString (rec_runtime r)),
       (lit ''sourceDigest'', JString (rec_source_digest r)),
       (lit ''negotiatedCapability'', JString (rec_negotiated_capability r)),
       (lit ''opaquePartitionKey'', JString (rec_opaque_partition_key r)),
       (lit ''sourceRevision'', json_i64 (rec_source_revision r)), (lit ''catalogRevision'', JString (rec_catalog_revision r)),
       (lit ''audienceRevision'', json_i64 (rec_audience_revision r)), (lit ''appliedRevision'', json_i64 (rec_applied_revision r)),
       (lit ''cacheDigest'', JString (rec_cache_digest r)), (lit ''cohortOutcome'', JString (rec_cohort_outcome r)),
       (lit ''uiObservedRevision'', json_i64 (rec_ui_observed_revision r)),
       (lit ''restartResult'', outcome_record_json (rec_restart_result r)),
       (lit ''privacyResult'', outcome_record_json (rec_privacy_result r)),
       (lit ''summaryDigest'', JString (rec_summary_digest r)), (lit ''receiptDigest'', JString (rec_receipt_digest r))]
      @ opt_field (lit ''observedAt'') (map_option JString (rec_observed_at r))))"

section \<open>Handlers\<close>

definition read_notification :: "json \<Rightarrow> dispatch_error + notification" where
  "read_notification params =
     and_then (required_i64 params (lit ''sourceRevision'')) (\<lambda>source.
     and_then (required_string params (lit ''catalogRevision'')) (\<lambda>catalog.
     and_then (required_i64 params (lit ''audienceRevision'')) (\<lambda>audience.
     Inr \<lparr>note_affected_partitions = string_list params (lit ''affectedPartitions''),
          note_partition_key = optional_string params (lit ''partitionKey''), note_source_revision = source,
          note_catalog_revision = catalog, note_audience_revision = audience,
          note_reason_code = (case optional_string params (lit ''reasonCode'') of None \<Rightarrow> [] | Some v \<Rightarrow> v)\<rparr>)))"

definition handle_invalidate :: "nat \<Rightarrow> rstr \<Rightarrow> json \<Rightarrow> engine_state \<Rightarrow> (dispatch_error + json) \<times> engine_state" where
  "handle_invalidate bound now params s =
     (case read_notification params of
        Inl e \<Rightarrow> (Inl e, s)
      | Inr n \<Rightarrow> (let (r, s') = apply_invalidation bound now n s in (Inr (invalidation_json r), s')))"

definition read_fetched :: "json \<Rightarrow> dispatch_error + (rstr \<times> fetched_snapshot)" where
  "read_fetched params =
     and_then (required_string params (lit ''partitionKey'')) (\<lambda>key.
     and_then (required_i64 params (lit ''sourceRevision'')) (\<lambda>source.
     and_then (required_string params (lit ''catalogRevision'')) (\<lambda>catalog.
     and_then (required_i64 params (lit ''audienceRevision'')) (\<lambda>audience.
     Inr (key, \<lparr>fet_source_revision = source, fet_catalog_revision = catalog, fet_audience_revision = audience,
                fet_tools = tool_list params\<rparr>)))))"

definition handle_refresh ::
    "digest_env \<Rightarrow> nat \<Rightarrow> rstr \<Rightarrow> json \<Rightarrow> engine_state \<Rightarrow> (dispatch_error + json) \<times> engine_state" where
  "handle_refresh env bound now params s =
     (case read_fetched params of
        Inl e \<Rightarrow> (Inl e, s)
      | Inr (key, f) \<Rightarrow> (let (r, s') = replace_partition env bound now key f s in (Inr (refresh_json r), s')))"

definition read_receipt_context :: "json \<Rightarrow> dispatch_error + receipt_context" where
  "read_receipt_context params =
     and_then (required_string params (lit ''target'')) (\<lambda>target.
     and_then (required_string params (lit ''platform'')) (\<lambda>platform.
     and_then (required_string params (lit ''runtime'')) (\<lambda>runtime.
     and_then (required_string params (lit ''sourceDigest'')) (\<lambda>source_digest.
     and_then (required_string params (lit ''negotiatedCapability'')) (\<lambda>capability.
     and_then (required_string params (lit ''opaquePartitionKey'')) (\<lambda>partition_key.
     and_then (required_i64 params (lit ''sourceRevision'')) (\<lambda>source.
     and_then (required_string params (lit ''catalogRevision'')) (\<lambda>catalog.
     and_then (required_i64 params (lit ''audienceRevision'')) (\<lambda>audience.
     and_then (required_i64 params (lit ''appliedRevision'')) (\<lambda>applied.
     and_then (required_string params (lit ''cacheDigest'')) (\<lambda>cache_digest.
     and_then (required_string params (lit ''cohortOutcome'')) (\<lambda>cohort.
     and_then (required_i64 params (lit ''uiObservedRevision'')) (\<lambda>ui.
     and_then (required_bool params (lit ''restartOk'')) (\<lambda>restart_ok.
     and_then (required_string params (lit ''restartReasonCode'')) (\<lambda>reason.
     Inr \<lparr>ctx_target = target, ctx_platform = platform, ctx_runtime = runtime, ctx_source_digest = source_digest,
          ctx_negotiated_capability = capability, ctx_opaque_partition_key = partition_key,
          ctx_source_revision = source, ctx_catalog_revision = catalog, ctx_audience_revision = audience,
          ctx_applied_revision = applied, ctx_cache_digest = cache_digest, ctx_cohort_outcome = cohort,
          ctx_ui_observed_revision = ui, ctx_restart_ok = restart_ok, ctx_restart_reason_code = reason,
          ctx_observed_at = optional_string params (lit ''observedAt'')\<rparr>)))))))))))))))"

definition handle_receipt :: "digest_env \<Rightarrow> json \<Rightarrow> dispatch_error + json" where
  "handle_receipt env params =
     and_then (read_receipt_context params) (\<lambda>c.
     and_then (map_err ReceiptRefused (build_official_client_receipt env c)) (\<lambda>r. Inr (receipt_json r)))"

definition handle_purge :: "json \<Rightarrow> engine_state \<Rightarrow> (dispatch_error + json) \<times> engine_state" where
  "handle_purge params s =
     (case optional_string params (lit ''partitionKey'') of
        Some key \<Rightarrow> (let (removed, s') = remove_partition key s in
          (Inr (JObject (json_map [(lit ''removed'', JBool removed), (lit ''partitionKey'', JString key)])), s'))
      | None \<Rightarrow> (Inr (JObject [(lit ''purged'', JBool True)]), purge_all s))"

definition handle_list :: "json \<Rightarrow> engine_state \<Rightarrow> dispatch_error + json" where
  "handle_list params s =
     and_then (required_string params (lit ''partitionKey'')) (\<lambda>key. Inr (discovery_json (list_tools key s)))"

definition handle_observe :: "json \<Rightarrow> engine_state \<Rightarrow> (dispatch_error + json) \<times> engine_state" where
  "handle_observe params s =
     (case required_string params (lit ''partitionKey'') of
        Inl e \<Rightarrow> (Inl e, s)
      | Inr key \<Rightarrow> (let (revision, s') = observe_ui_revision key s in
          (Inr (JObject (json_map
             [(lit ''observed'', JBool (revision \<noteq> None)),
              (lit ''uiObservedRevision'', json_i64 (case revision of None \<Rightarrow> - 1 | Some v \<Rightarrow> v))])), s')))"

definition dispatch_with_engine ::
    "digest_env \<Rightarrow> nat \<Rightarrow> rstr \<Rightarrow> rstr list \<Rightarrow> json \<Rightarrow> engine_state \<Rightarrow> (dispatch_error + json) \<times> engine_state" where
  "dispatch_with_engine env bound now args params s =
     (let command = (if 1 < length args then args ! 1 else lit ''status'') in
      if command = lit ''status'' then (Inr (engine_state_json s), s)
      else if command = lit ''invalidate'' then handle_invalidate bound now params s
      else if command = lit ''refresh'' then handle_refresh env bound now params s
      else if command = lit ''receipt'' then (handle_receipt env params, s)
      else if command = lit ''purge'' then handle_purge params s
      else if command = lit ''reconnect'' then (let (r, s') = begin_reconnect s in (Inr r, s'))
      else if command = lit ''list'' then (handle_list params s, s)
      else if command = lit ''observe'' then handle_observe params s
      else (Inl (UnsupportedCommand command), s))"

section \<open>Commands\<close>

text \<open>
  What a command asks for, which word names it, what its parameters have to be field by field, the
  engine operation it stands for and what its answer shows of the engine. Nothing here refers to the
  handlers.
\<close>

datatype catalog_command =
    AskStatus
  | Invalidate notification
  | Refresh rstr fetched_snapshot
  | IssueReceipt receipt_context
  | Remove rstr
  | Purge
  | Reconnect
  | ListTools rstr
  | Observe rstr

fun command_word :: "catalog_command \<Rightarrow> rstr" where
  "command_word AskStatus = lit ''status''"
| "command_word (Invalidate _) = lit ''invalidate''"
| "command_word (Refresh _ _) = lit ''refresh''"
| "command_word (IssueReceipt _) = lit ''receipt''"
| "command_word (Remove _) = lit ''purge''"
| "command_word Purge = lit ''purge''"
| "command_word Reconnect = lit ''reconnect''"
| "command_word (ListTools _) = lit ''list''"
| "command_word (Observe _) = lit ''observe''"

fun carries :: "json \<Rightarrow> catalog_command \<Rightarrow> bool" where
  "carries params AskStatus = True"
| "carries params (Invalidate n) =
     (required_i64 params (lit ''sourceRevision'') = Inr (note_source_revision n)
      \<and> required_string params (lit ''catalogRevision'') = Inr (note_catalog_revision n)
      \<and> required_i64 params (lit ''audienceRevision'') = Inr (note_audience_revision n)
      \<and> string_list params (lit ''affectedPartitions'') = note_affected_partitions n
      \<and> optional_string params (lit ''partitionKey'') = note_partition_key n
      \<and> note_reason_code n = (case optional_string params (lit ''reasonCode'') of None \<Rightarrow> [] | Some v \<Rightarrow> v))"
| "carries params (Refresh key f) =
     (required_string params (lit ''partitionKey'') = Inr key
      \<and> required_i64 params (lit ''sourceRevision'') = Inr (fet_source_revision f)
      \<and> required_string params (lit ''catalogRevision'') = Inr (fet_catalog_revision f)
      \<and> required_i64 params (lit ''audienceRevision'') = Inr (fet_audience_revision f)
      \<and> tool_list params = fet_tools f)"
| "carries params (IssueReceipt ctx) =
     (required_string params (lit ''target'') = Inr (ctx_target ctx)
      \<and> required_string params (lit ''platform'') = Inr (ctx_platform ctx)
      \<and> required_string params (lit ''runtime'') = Inr (ctx_runtime ctx)
      \<and> required_string params (lit ''sourceDigest'') = Inr (ctx_source_digest ctx)
      \<and> required_string params (lit ''negotiatedCapability'') = Inr (ctx_negotiated_capability ctx)
      \<and> required_string params (lit ''opaquePartitionKey'') = Inr (ctx_opaque_partition_key ctx)
      \<and> required_i64 params (lit ''sourceRevision'') = Inr (ctx_source_revision ctx)
      \<and> required_string params (lit ''catalogRevision'') = Inr (ctx_catalog_revision ctx)
      \<and> required_i64 params (lit ''audienceRevision'') = Inr (ctx_audience_revision ctx)
      \<and> required_i64 params (lit ''appliedRevision'') = Inr (ctx_applied_revision ctx)
      \<and> required_string params (lit ''cacheDigest'') = Inr (ctx_cache_digest ctx)
      \<and> required_string params (lit ''cohortOutcome'') = Inr (ctx_cohort_outcome ctx)
      \<and> required_i64 params (lit ''uiObservedRevision'') = Inr (ctx_ui_observed_revision ctx)
      \<and> required_bool params (lit ''restartOk'') = Inr (ctx_restart_ok ctx)
      \<and> required_string params (lit ''restartReasonCode'') = Inr (ctx_restart_reason_code ctx)
      \<and> optional_string params (lit ''observedAt'') = ctx_observed_at ctx)"
| "carries params (Remove key) = (optional_string params (lit ''partitionKey'') = Some key)"
| "carries params Purge = (optional_string params (lit ''partitionKey'') = None)"
| "carries params Reconnect = True"
| "carries params (ListTools key) = (required_string params (lit ''partitionKey'') = Inr key)"
| "carries params (Observe key) = (required_string params (lit ''partitionKey'') = Inr key)"

text \<open>The command that the arguments and parameters of a call make.\<close>

definition asked :: "rstr list \<Rightarrow> json \<Rightarrow> catalog_command \<Rightarrow> bool" where
  "asked args params cmd \<longleftrightarrow> (if 1 < length args then args ! 1 else lit ''status'') = command_word cmd \<and> carries params cmd"

fun engine_operation :: "catalog_command \<Rightarrow> engine_op option" where
  "engine_operation (Invalidate n) = Some (OpInvalidate n)"
| "engine_operation (Refresh key f) = Some (OpReplace key f)"
| "engine_operation (Remove key) = Some (OpRemove key)"
| "engine_operation Purge = Some OpPurge"
| "engine_operation Reconnect = Some OpReconnect"
| "engine_operation (Observe key) = Some (OpObserve key)"
| "engine_operation _ = None"

definition effect_of :: "digest_env \<Rightarrow> nat \<Rightarrow> rstr \<Rightarrow> catalog_command \<Rightarrow> engine_state \<Rightarrow> engine_state" where
  "effect_of env bound now cmd s = (case engine_operation cmd of None \<Rightarrow> s | Some op \<Rightarrow> run_op env bound now op s)"

definition shows_fields :: "json \<Rightarrow> (rstr \<times> json option) list \<Rightarrow> bool" where
  "shows_fields j fs \<longleftrightarrow> list_all (\<lambda>(k, v). json_get j k = v) fs"

fun answers :: "digest_env \<Rightarrow> nat \<Rightarrow> rstr \<Rightarrow> catalog_command \<Rightarrow> engine_state \<Rightarrow> json \<Rightarrow> bool" where
  "answers env bound now AskStatus s j = shows_fields j
     [(lit ''partitionCount'', Some (json_u64 (of_nat (length (eng_partitions s))))),
      (lit ''pendingInvalidationCount'', Some (json_u64 (of_nat (length (eng_pending s))))),
      (lit ''reconnectFenceCount'', Some (json_u64 (of_nat (card (eng_reconnect_fences s))))),
      (lit ''lastKnownAudienceRevision'', Some (json_i64 (eng_last_known_audience_revision s))),
      (lit ''uiObservedRevision'', Some (json_i64 (ui_observed_revision s)))]"
| "answers env bound now (Invalidate n) s j =
     (let (r, s') = apply_invalidation bound now n s in shows_fields j
       [(lit ''acceptedPartitionKeys'', Some (JArray (map JString (accepted_partition_keys r)))),
        (lit ''pendingCount'', Some (json_u64 (of_nat (length (eng_pending s')))))])"
| "answers env bound now (Refresh key f) s j =
     (let r = fst (replace_partition env bound now key f s) in shows_fields j
       [(lit ''outcome'', Some (JString (refresh_outcome_name (ref_outcome r)))),
        (lit ''partitionKey'', Some (JString (ref_partition_key r))),
        (lit ''snapshot'', map_option snapshot_json (ref_snapshot r)),
        (lit ''retained'', map_option snapshot_json (ref_retained r))])"
| "answers env bound now (IssueReceipt ctx) s j =
     (case build_official_client_receipt env ctx of
        Inl _ \<Rightarrow> False
      | Inr r \<Rightarrow> shows_fields j
         [(lit ''opaquePartitionKey'', Some (JString (rec_opaque_partition_key r))),
          (lit ''sourceRevision'', Some (json_i64 (rec_source_revision r))),
          (lit ''audienceRevision'', Some (json_i64 (rec_audience_revision r))),
          (lit ''appliedRevision'', Some (json_i64 (rec_applied_revision r))),
          (lit ''uiObservedRevision'', Some (json_i64 (rec_ui_observed_revision r))),
          (lit ''cacheDigest'', Some (JString (rec_cache_digest r))),
          (lit ''summaryDigest'', Some (JString (rec_summary_digest r))),
          (lit ''receiptDigest'', Some (JString (rec_receipt_digest r)))])"
| "answers env bound now (Remove key) s j = shows_fields j
     [(lit ''removed'', Some (JBool (hm_contains (eng_partitions s) (trim key)))),
      (lit ''partitionKey'', Some (JString key))]"
| "answers env bound now Purge s j = shows_fields j [(lit ''purged'', Some (JBool True))]"
| "answers env bound now Reconnect s j = shows_fields j
     [(lit ''reconnectFence'', Some (JBool (eng_partitions s \<noteq> []))),
      (lit ''lastKnownAudienceRevision'', Some (json_i64 (eng_last_known_audience_revision s))),
      (lit ''pendingInvalidationCount'', Some (json_u64 (of_nat (length (eng_pending s)))))]"
| "answers env bound now (ListTools key) s j =
     (let d = list_tools key s in shows_fields j
       [(lit ''ok'', Some (JBool (disc_ok d))), (lit ''reasonCode'', Some (JString (disc_reason_code d))),
        (lit ''tools'', Some (JArray (map tool_json (disc_tools d)))),
        (lit ''sourceRevision'', map_option json_i64 (disc_source_revision d)),
        (lit ''catalogRevision'', map_option JString (disc_catalog_revision d)),
        (lit ''audienceRevision'', map_option json_i64 (disc_audience_revision d))])"
| "answers env bound now (Observe key) s j =
     (let v = fst (observe_ui_revision key s) in shows_fields j
       [(lit ''observed'', Some (JBool (v \<noteq> None))),
        (lit ''uiObservedRevision'', Some (json_i64 (case v of None \<Rightarrow> - 1 | Some i \<Rightarrow> i)))])"

text \<open>The command a call may get an error for: there is none, or its receipt is refused.\<close>

definition refusable :: "digest_env \<Rightarrow> rstr list \<Rightarrow> json \<Rightarrow> dispatch_error \<Rightarrow> bool" where
  "refusable env args params e \<longleftrightarrow>
     (case e of
        ReceiptRefused why \<Rightarrow> \<exists>ctx. asked args params (IssueReceipt ctx) \<and> build_official_client_receipt env ctx = Inl why
      | _ \<Rightarrow> \<not> (\<exists>cmd. asked args params cmd))"

section \<open>Every call is its command\<close>

definition performs ::
    "digest_env \<Rightarrow> nat \<Rightarrow> rstr \<Rightarrow> rstr list \<Rightarrow> json \<Rightarrow> engine_state \<Rightarrow> (dispatch_error + json) \<times> engine_state \<Rightarrow> bool" where
  "performs env bound now args params s = (\<lambda>(r, s').
     case r of
       Inl e \<Rightarrow> s' = s \<and> refusable env args params e
     | Inr j \<Rightarrow> \<exists>cmd. asked args params cmd \<and> s' = effect_of env bound now cmd s \<and> answers env bound now cmd s j)"

abbreviation call_word :: "rstr list \<Rightarrow> rstr" where
  "call_word args \<equiv> if 1 < length args then args ! 1 else lit ''status''"

lemma lit_eq_iff [simp]: "lit a = lit b \<longleftrightarrow> a = b"
proof -
  have "inj (of_char :: char \<Rightarrow> nat)" by (rule inj_on_inverseI[where g = char_of]) simp
  then show ?thesis by (simp add: lit_def inj_map_eq_map)
qed

lemma word_iff:
  "command_word cmd = lit ''status'' \<longleftrightarrow> cmd = AskStatus"
  "command_word cmd = lit ''invalidate'' \<longleftrightarrow> (\<exists>n. cmd = Invalidate n)"
  "command_word cmd = lit ''refresh'' \<longleftrightarrow> (\<exists>key f. cmd = Refresh key f)"
  "command_word cmd = lit ''receipt'' \<longleftrightarrow> (\<exists>ctx. cmd = IssueReceipt ctx)"
  "command_word cmd = lit ''list'' \<longleftrightarrow> (\<exists>key. cmd = ListTools key)"
  "command_word cmd = lit ''observe'' \<longleftrightarrow> (\<exists>key. cmd = Observe key)"
  by (cases cmd; simp)+

lemma asked_word: "call_word args = w \<Longrightarrow> asked args params cmd \<longleftrightarrow> command_word cmd = w \<and> carries params cmd"
  by (auto simp: asked_def)

lemma performs_error: "refusable env args params e \<Longrightarrow> performs env bound now args params s (Inl e, s)"
  by (simp add: performs_def)

lemma performs_command:
  "asked args params cmd \<Longrightarrow> s' = effect_of env bound now cmd s \<Longrightarrow> answers env bound now cmd s j \<Longrightarrow>
    performs env bound now args params s (Inr j, s')"
  by (auto simp: performs_def)

lemma shows_fields_simps [simp]:
  "shows_fields j [] = True"
  "shows_fields (JObject (json_map kvs)) ((k, v) # fs) \<longleftrightarrow> map_of (rev kvs) k = v \<and> shows_fields (JObject (json_map kvs)) fs"
  by (simp_all add: shows_fields_def lookup_json_map)

text \<open>Reading the parameters finds the command, and fails only when there is none.\<close>

lemma read_notification_iff: "read_notification params = Inr n \<longleftrightarrow> carries params (Invalidate n)"
  by (cases n) (auto simp: read_notification_def result_simps)

lemma read_fetched_iff: "read_fetched params = Inr (key, f) \<longleftrightarrow> carries params (Refresh key f)"
  by (cases f) (auto simp: read_fetched_def result_simps)

lemma read_receipt_context_iff: "read_receipt_context params = Inr ctx \<longleftrightarrow> carries params (IssueReceipt ctx)"
  by (cases ctx) (auto simp: read_receipt_context_def result_simps)

lemma required_errors:
  "required_string params k = Inl e \<Longrightarrow> e = MissingCatalogField k"
  "required_i64 params k = Inl e \<Longrightarrow> e = MissingCatalogField k"
  "required_bool params k = Inl e \<Longrightarrow> e = MissingCatalogField k"
  by (auto simp: required_string_def required_i64_def required_bool_def ok_or_def split: option.splits)

lemma and_then_missing:
  "(\<And>e. r = Inl e \<Longrightarrow> \<exists>k. e = MissingCatalogField k) \<Longrightarrow> (\<And>x e. k x = Inl e \<Longrightarrow> \<exists>k. e = MissingCatalogField k) \<Longrightarrow>
     and_then r k = Inl e \<Longrightarrow> \<exists>k. e = MissingCatalogField k"
  by (cases r) auto

lemma read_errors:
  "read_notification params = Inl e \<Longrightarrow> \<exists>k. e = MissingCatalogField k"
  "read_fetched params = Inl e \<Longrightarrow> \<exists>k. e = MissingCatalogField k"
  "read_receipt_context params = Inl e \<Longrightarrow> \<exists>k. e = MissingCatalogField k"
  unfolding read_notification_def read_fetched_def read_receipt_context_def
  by (erule and_then_missing[rotated 2] | blast dest: required_errors | simp)+

lemma performs_status:
  "call_word args = lit ''status'' \<Longrightarrow> performs env bound now args params s (Inr (engine_state_json s), s)"
  by (rule performs_command[where cmd = AskStatus]) (simp_all add: asked_def effect_of_def engine_state_json_def)

lemma performs_invalidate:
  assumes "call_word args = lit ''invalidate''"
  shows "performs env bound now args params s (handle_invalidate bound now params s)"
proof (cases "read_notification params")
  case (Inl e)
  then have "refusable env args params e"
    using read_errors(1)[OF Inl] read_notification_iff[of params] by (auto simp: refusable_def asked_word[OF assms] word_iff simp del: carries.simps)
  then show ?thesis by (simp add: handle_invalidate_def Inl performs_error)
next
  case (Inr n)
  then have "asked args params (Invalidate n)" using assms read_notification_iff by (simp add: asked_def)
  then show ?thesis
    by (cases "apply_invalidation bound now n s")
      (auto simp: handle_invalidate_def Inr effect_of_def invalidation_json_def apply_invalidation_def Let_def
        split: prod.splits intro!: performs_command)
qed

lemma performs_refresh:
  assumes "call_word args = lit ''refresh''"
  shows "performs env bound now args params s (handle_refresh env bound now params s)"
proof (cases "read_fetched params")
  case (Inl e)
  then have "refusable env args params e"
    using read_errors(2)[OF Inl] read_fetched_iff[of params] by (auto simp: refusable_def asked_word[OF assms] word_iff simp del: carries.simps)
  then show ?thesis by (simp add: handle_refresh_def Inl performs_error)
next
  case (Inr kf)
  obtain key f where kf: "kf = (key, f)" by (cases kf)
  then have "asked args params (Refresh key f)" using Inr assms read_fetched_iff[of params key f] by (simp add: asked_def)
  then show ?thesis
    by (cases "replace_partition env bound now key f s")
      (auto simp: handle_refresh_def Inr kf effect_of_def refresh_json_def opt_field_def
        split: option.splits intro!: performs_command)
qed

lemma performs_purge:
  assumes "call_word args = lit ''purge''"
  shows "performs env bound now args params s (handle_purge params s)"
proof (cases "optional_string params (lit ''partitionKey'')")
  case None
  then have "asked args params Purge" using assms by (simp add: asked_def)
  then show ?thesis
    by (auto simp: handle_purge_def None effect_of_def shows_fields_def intro!: performs_command)
next
  case (Some key)
  then have "asked args params (Remove key)" using assms by (simp add: asked_def)
  then show ?thesis
    by (auto simp: handle_purge_def Some effect_of_def remove_partition_def Let_def intro!: performs_command)
qed

lemma performs_observe:
  assumes "call_word args = lit ''observe''"
  shows "performs env bound now args params s (handle_observe params s)"
proof (cases "required_string params (lit ''partitionKey'')")
  case (Inl e)
  then have "refusable env args params e"
    using required_errors(1)[OF Inl] by (auto simp: refusable_def asked_word[OF assms] word_iff)
  then show ?thesis by (simp add: handle_observe_def Inl performs_error)
next
  case (Inr key)
  then have "asked args params (Observe key)" using assms by (simp add: asked_def)
  then show ?thesis
    by (cases "observe_ui_revision key s") (auto simp: handle_observe_def Inr effect_of_def Let_def intro!: performs_command)
qed

lemma performs_list:
  assumes "call_word args = lit ''list''"
  shows "performs env bound now args params s (handle_list params s, s)"
proof (cases "required_string params (lit ''partitionKey'')")
  case (Inl e)
  then have "refusable env args params e"
    using required_errors(1)[OF Inl] by (auto simp: refusable_def asked_word[OF assms] word_iff)
  then show ?thesis by (simp add: handle_list_def Inl performs_error)
next
  case (Inr key)
  then have "asked args params (ListTools key)" using assms by (simp add: asked_def)
  then show ?thesis
    by (auto simp: handle_list_def Inr effect_of_def discovery_json_def opt_field_def Let_def
        split: option.splits intro!: performs_command)
qed

lemma performs_receipt:
  assumes "call_word args = lit ''receipt''"
  shows "performs env bound now args params s (handle_receipt env params, s)"
proof (cases "read_receipt_context params")
  case (Inl e)
  then have "refusable env args params e"
    using read_errors(3)[OF Inl] read_receipt_context_iff[of params] by (auto simp: refusable_def asked_word[OF assms] word_iff simp del: carries.simps)
  then show ?thesis by (simp add: handle_receipt_def Inl performs_error)
next
  case (Inr ctx)
  then have asked: "asked args params (IssueReceipt ctx)" using assms read_receipt_context_iff by (simp add: asked_def)
  show ?thesis
  proof (cases "build_official_client_receipt env ctx")
    case (Inl why)
    then show ?thesis
      using asked by (auto simp: handle_receipt_def Inr map_err_def refusable_def intro!: performs_error)
  next
    case (Inr r)
    then show ?thesis
      using asked \<open>read_receipt_context params = Inr ctx\<close>
      by (auto simp: handle_receipt_def map_err_def effect_of_def receipt_json_def opt_field_def
          split: option.splits intro!: performs_command)
  qed
qed

lemma performs_reconnect:
  "call_word args = lit ''reconnect'' \<Longrightarrow>
    performs env bound now args params s (case begin_reconnect s of (r, s') \<Rightarrow> (Inr r, s'))"
  by (auto simp: begin_reconnect_def Let_def asked_def effect_of_def intro!: performs_command[where cmd = Reconnect])

lemma performs_unsupported:
  assumes "call_word args = w"
    and "w \<notin> {lit ''status'', lit ''invalidate'', lit ''refresh'', lit ''receipt'', lit ''purge'', lit ''reconnect'', lit ''list'', lit ''observe''}"
  shows "performs env bound now args params s (Inl (UnsupportedCommand w), s)"
proof -
  have "command_word cmd \<noteq> w" for cmd using assms(2) by (cases cmd) auto
  then show ?thesis by (intro performs_error) (simp add: refusable_def asked_word[OF assms(1)])
qed

lemma performs_if:
  "(P \<Longrightarrow> performs env bound now args params s a) \<Longrightarrow> (\<not> P \<Longrightarrow> performs env bound now args params s b) \<Longrightarrow>
    performs env bound now args params s (if P then a else b)"
  by simp

lemma dispatch_performs: "performs env bound now args params s (dispatch_with_engine env bound now args params s)"
proof -
  obtain w where w: "call_word args = w" by simp
  show ?thesis
    unfolding dispatch_with_engine_def Let_def w
    by (intro performs_if performs_status performs_invalidate performs_refresh performs_receipt performs_purge
        performs_reconnect performs_list performs_observe performs_unsupported) (simp_all only: w, simp)
qed

text \<open>
  C31: The command surface refines the engine, command by command. Every call either is refused, leaves the
  engine as it is, and there was no command in it, or a receipt that the receipt rules refuse; or its word and its
  parameters, field by field, make a command, the engine is changed by the operation that command stands for, with
  exactly these parameters, or not at all, and the answer shows the results of that operation. Purging one key
  is never purging all, listing changes nothing, and no well-formed command is refused.
\<close>

theorem dispatch_refines_engine:
  "case dispatch_with_engine env bound now args params s of (r, s') \<Rightarrow>
     (case r of
        Inl e \<Rightarrow> s' = s \<and> refusable env args params e
      | Inr j \<Rightarrow> \<exists>cmd. asked args params cmd \<and> s' = effect_of env bound now cmd s \<and> answers env bound now cmd s j)"
  using dispatch_performs[of env bound now args params s] by (simp add: performs_def)

text \<open>Purging one key of an engine with two observed revisions, with the parameter untrimmed.\<close>

definition sample_purge :: json where
  "sample_purge = JObject [(lit ''partitionKey'', JString (lit '' p ''))]"

definition sample_engine :: engine_state where
  "sample_engine = engine_new\<lparr>eng_ui_observed_revisions := [(lit ''p'', 1), (lit ''q'', 2)]\<rparr>"

theorem dispatch_refines_engine_witness:
  "\<forall>env. \<exists>j s'. dispatch_with_engine env 64 [] [lit ''catalog'', lit ''purge''] sample_purge sample_engine = (Inr j, s')
     \<and> eng_ui_observed_revisions s' = [(lit ''q'', 2)] \<and> json_get j (lit ''removed'') = Some (JBool False)"
proof
  fix env
  let ?args = "[lit ''catalog'', lit ''purge'']"
  have "trim (lit '' p '') = lit ''p''" and p: "trim (lit ''p'') = lit ''p''" "lit ''p'' \<noteq> []"
    by (simp_all add: trim_def lit_def white_space_def)
  then have key: "optional_string sample_purge (lit ''partitionKey'') = Some (lit ''p'')"
    by (simp add: sample_purge_def optional_string_def get_str_def nonempty_trimmed_def)
  have cmd: "cmd = Remove (lit ''p'')" if "asked ?args sample_purge cmd" for cmd
    using that key by (cases cmd) (auto simp: asked_def)
  from p(1) have effect: "eng_ui_observed_revisions (effect_of env 64 [] (Remove (lit ''p'')) sample_engine) = [(lit ''q'', 2)]"
    by (simp add: effect_of_def remove_partition_def Let_def sample_engine_def engine_new_def)
  obtain r s' where d: "dispatch_with_engine env 64 [] ?args sample_purge sample_engine = (r, s')"
    by (cases "dispatch_with_engine env 64 [] ?args sample_purge sample_engine")
  have asked: "asked ?args sample_purge (Remove (lit ''p''))" using key by (simp add: asked_def)
  note R = dispatch_refines_engine[where env = env and bound = 64 and now = "[]" and args = ?args and params = sample_purge
      and s = sample_engine, unfolded d prod.case]
  obtain j where j: "r = Inr j"
    using R asked cmd by (cases r) (auto simp: refusable_def split: dispatch_error.splits)
  then obtain cmd' where "asked ?args sample_purge cmd'" "s' = effect_of env 64 [] cmd' sample_engine"
    "answers env 64 [] cmd' sample_engine j" using R by auto
  then have "s' = effect_of env 64 [] (Remove (lit ''p'')) sample_engine \<and> answers env 64 [] (Remove (lit ''p'')) sample_engine j"
    using cmd by blast
  then show "\<exists>j s'. dispatch_with_engine env 64 [] ?args sample_purge sample_engine = (Inr j, s')
     \<and> eng_ui_observed_revisions s' = [(lit ''q'', 2)] \<and> json_get j (lit ''removed'') = Some (JBool False)"
    using d j effect by (auto simp: shows_fields_def sample_engine_def engine_new_def hm_contains_def)
qed

end
