(* ===== verification/Flywheel_Definition.thy ===== *)
theory Flywheel_Definition
  imports Digest "HOL-Library.Product_Lexorder"
begin

text \<open>
  The declarations of a strategy graph (\<open>adaptive_flywheel/definition.rs\<close>, constants of \<open>mod.rs\<close>):
  states, transitions with guards and modes, actor slots, runtimes, worksets and limits, and
  the statuses and decisions of a run. Errors carry the code of the source; \<open>Panic\<close> is a path
  where the source would panic.
\<close>

datatype failure = Code rstr | Panic

abbreviation fail :: "string \<Rightarrow> failure + 'a" where
  "fail s \<equiv> Inl (Code (lit s))"

abbreviation require :: "bool \<Rightarrow> string \<Rightarrow> failure + 'a \<Rightarrow> failure + 'a" where
  "require b s k \<equiv> ensure b (Code (lit s)) k"

definition WORKFLOW_SCHEMA_VERSION :: rstr where
  "WORKFLOW_SCHEMA_VERSION = lit ''licoup.adaptive-flywheel.workflow.v1''"
definition MAX_ACTIVE_EFFECTS :: nat where "MAX_ACTIVE_EFFECTS = 8"
definition MAX_GRAPH_STATES :: nat where "MAX_GRAPH_STATES = 512"
definition MAX_GRAPH_TRANSITIONS :: nat where "MAX_GRAPH_TRANSITIONS = 2048"
definition MAX_BINDING_SLOTS :: nat where "MAX_BINDING_SLOTS = 64"
definition MAX_RUNTIME_REQUIREMENTS :: nat where "MAX_RUNTIME_REQUIREMENTS = 16"
definition MAX_WORKSET_ITEMS :: nat where "MAX_WORKSET_ITEMS = 256"
definition MAX_RETRY_ATTEMPTS :: u8 where "MAX_RETRY_ATTEMPTS = 8"

section \<open>Slots, runtimes, worksets, limits\<close>

record workflow_metadata =
  wm_id :: rstr
  wm_name :: rstr
  wm_version :: rstr
  wm_description :: rstr

record workflow_limits =
  lim_max_parallelism :: u8
  lim_max_workset_items :: u16
  lim_max_attempts :: u8

definition default_limits :: workflow_limits where
  "default_limits = \<lparr>lim_max_parallelism = 8, lim_max_workset_items = 256, lim_max_attempts = 3\<rparr>"

datatype binding_kind = BindActor | BindRuntime | BindWorkspace

record slot_fallback_policy =
  after_transient_attempts :: u8
  on_quota :: bool

definition default_fallback :: slot_fallback_policy where
  "default_fallback = \<lparr>after_transient_attempts = 2, on_quota = True\<rparr>"

datatype session_policy = SessionNew | SessionResume | SessionSticky

record actor_slot =
  slot_id :: rstr
  slot_kind :: binding_kind
  slot_label :: rstr
  slot_required :: bool
  slot_session_policy :: session_policy
  slot_entry :: bool
  slot_fallback :: slot_fallback_policy

definition required_actor :: "rstr \<Rightarrow> rstr \<Rightarrow> actor_slot" where
  "required_actor i label = \<lparr>slot_id = i, slot_kind = BindActor, slot_label = label, slot_required = True,
     slot_session_policy = SessionNew, slot_entry = True, slot_fallback = default_fallback\<rparr>"

datatype runtime_kind = Python | Node

record runtime_requirement =
  rt_id :: rstr
  rt_kind :: runtime_kind
  rt_version_requirement :: rstr

record workset_template =
  ws_id :: rstr
  ws_item_binding :: rstr
  ws_predecessor_field :: rstr

section \<open>States and transitions\<close>

datatype graph_state_kind = KPass | KChoice | KFork | KJoin | KAuthorization | KActor | KScript | KWorkset
  | KSucceed | KFail | KBlocked

record retry_policy =
  retry_max_attempts :: u8
  retry_transient_only :: bool

definition default_retry :: retry_policy where
  "default_retry = \<lparr>retry_max_attempts = 1, retry_transient_only = True\<rparr>"

record graph_state =
  gs_id :: rstr
  gs_kind :: graph_state_kind
  gs_label :: rstr
  gs_instruction :: rstr
  gs_binding :: "rstr option"
  gs_runtime :: "rstr option"
  gs_entry :: "rstr option"
  gs_workset :: "rstr option"
  gs_retry :: retry_policy

datatype transition_event = Complete | Success | Failure

datatype transition_mode = Flow | Callback

record guard_expression =
  guard_path :: rstr
  guard_equals :: "json option"
  guard_exists :: bool

record transition =
  tr_id :: rstr
  tr_from :: rstr
  tr_to :: rstr
  tr_event :: transition_event
  tr_mode :: transition_mode
  tr_guard :: "guard_expression option"

record workflow_definition =
  def_schema :: rstr
  def_metadata :: workflow_metadata
  def_limits :: workflow_limits
  def_actor_slots :: "actor_slot list"
  def_runtimes :: "runtime_requirement list"
  def_worksets :: "workset_template list"
  def_initial :: rstr
  def_states :: "graph_state list"
  def_transitions :: "transition list"

definition has_supported_schema :: "workflow_definition \<Rightarrow> bool" where
  "has_supported_schema d \<longleftrightarrow> def_schema d = WORKFLOW_SCHEMA_VERSION"

section \<open>Runs\<close>

record pending_callback =
  cb_state_id :: rstr
  cb_state_visit :: u64
  cb_transition_id :: rstr
  cb_event :: transition_event
  cb_target :: rstr

datatype callback_decision = Advance | Return | Terminate

datatype run_status = RunPending | AuthorizationRequired | RuntimeMissing | Running | WaitingRun | RetryableRun
  | CancelRequestedRun | CancelInDoubt | BlockedRun | CancelledRun | FailedRun | Completed

datatype failure_class = Transient | Permanent | Authority | Runtime | Sandbox | InDoubt

record fallback_receipt =
  fallback_from :: rstr
  fallback_to :: rstr
  fallback_receipt_reason :: rstr
  fallback_attempts :: u8

text \<open>The derived order of \<open>TransitionEvent\<close>, which the transition index is keyed by.\<close>

fun event_rank :: "transition_event \<Rightarrow> nat" where
  "event_rank Complete = 0"
| "event_rank Success = 1"
| "event_rank Failure = 2"

instantiation transition_event :: linorder
begin

definition less_eq_transition_event :: "transition_event \<Rightarrow> transition_event \<Rightarrow> bool" where
  "less_eq_transition_event a b \<longleftrightarrow> event_rank a \<le> event_rank b"

definition less_transition_event :: "transition_event \<Rightarrow> transition_event \<Rightarrow> bool" where
  "less_transition_event a b \<longleftrightarrow> event_rank a < event_rank b"

instance
proof
  fix a b :: transition_event
  show "a \<le> b \<Longrightarrow> b \<le> a \<Longrightarrow> a = b"
    by (cases a; cases b) (simp_all add: less_eq_transition_event_def)
qed (auto simp: less_eq_transition_event_def less_transition_event_def)

end

end
