(* ===== verification/Flywheel_Graph.thy ===== *)
theory Flywheel_Graph
  imports Flywheel_Definition
begin

text \<open>
  Compilation of a strategy graph (\<open>adaptive_flywheel/graph.rs\<close>): the validation of a
  declaration, the legacy normalisations, the lookup indexes of the compiled workflow, the
  guard and edge rules, the parallel regions between forks and joins, reachability, and the
  rejection of cycles the machine would run through without an effect. The order of the
  checks, and so the error of a bad declaration, is the order of the source.

  A depth-first search of the source keeps the set of nodes it is visiting in a variable and
  takes out what it put in before it returns; here the set is an argument. Its two searches
  differ in the edges they follow, which is the parameter \<open>edges\<close> of \<open>visit\<close>.
\<close>

section \<open>The compiled workflow\<close>

record compiled_workflow =
  cw_definition :: workflow_definition
  cw_state_indexes :: "(rstr \<times> nat) list"
  cw_transition_indexes :: "((rstr \<times> transition_event) \<times> nat list) list"
  cw_outgoing_indexes :: "(rstr \<times> nat list) list"
  cw_predecessors :: "(rstr \<times> rstr set) list"
  cw_reachable :: "rstr set"

type_synonym state_indexes = "(rstr \<times> nat) list"
type_synonym event_indexes = "((rstr \<times> transition_event) \<times> nat list) list"
type_synonym out_indexes = "(rstr \<times> nat list) list"

definition state_at :: "workflow_definition \<Rightarrow> state_indexes \<Rightarrow> rstr \<Rightarrow> graph_state option" where
  "state_at d idx s = map_option (\<lambda>i. def_states d ! i) (map_of idx s)"

definition trs_at :: "workflow_definition \<Rightarrow> event_indexes \<Rightarrow> rstr \<Rightarrow> transition_event \<Rightarrow> transition list" where
  "trs_at d ti s e = map (\<lambda>i. def_transitions d ! i) (get_or [] ti (s, e))"

definition out_at :: "workflow_definition \<Rightarrow> out_indexes \<Rightarrow> rstr \<Rightarrow> transition list" where
  "out_at d oi s = map (\<lambda>i. def_transitions d ! i) (get_or [] oi s)"

definition cw_state :: "compiled_workflow \<Rightarrow> rstr \<Rightarrow> graph_state option" where
  "cw_state w s = state_at (cw_definition w) (cw_state_indexes w) s"

definition cw_transitions :: "compiled_workflow \<Rightarrow> rstr \<Rightarrow> transition_event \<Rightarrow> transition list" where
  "cw_transitions w s e = trs_at (cw_definition w) (cw_transition_indexes w) s e"

definition cw_outgoing :: "compiled_workflow \<Rightarrow> rstr \<Rightarrow> transition list" where
  "cw_outgoing w s = out_at (cw_definition w) (cw_outgoing_indexes w) s"

definition predecessors :: "compiled_workflow \<Rightarrow> rstr \<Rightarrow> rstr set" where
  "predecessors w s = get_or {} (cw_predecessors w) s"

text \<open>\<open>str::split\<close> on a character.\<close>

fun split_on :: "nat \<Rightarrow> rstr \<Rightarrow> rstr list" where
  "split_on c [] = [[]]"
| "split_on c (x # s) =
     (if x = c then [] # split_on c s
      else (case split_on c s of p # ps \<Rightarrow> (x # p) # ps | [] \<Rightarrow> [[x]]))"

fun get_path :: "json \<Rightarrow> rstr list \<Rightarrow> json option" where
  "get_path v [] = Some v"
| "get_path v (p # ps) = (case json_get v p of None \<Rightarrow> None | Some v' \<Rightarrow> get_path v' ps)"

text \<open>Equality of JSON values is structural, but for floats, where -0.0 equals 0.0.\<close>

fun json_canon :: "json \<Rightarrow> json" where
  "json_canon (JNumber (Float64 b)) = JNumber (Float64 (if b = push_bit 63 1 then 0 else b))"
| "json_canon (JArray xs) = JArray (map json_canon xs)"
| "json_canon (JObject m) = JObject (map (\<lambda>(k, v). (k, json_canon v)) m)"
| "json_canon v = v"

definition json_eq :: "json \<Rightarrow> json \<Rightarrow> bool" where
  "json_eq a b \<longleftrightarrow> json_canon a = json_canon b"

definition guard_matches :: "guard_expression \<Rightarrow> json \<Rightarrow> bool" where
  "guard_matches g payload =
     (let value = get_path payload (filter (\<lambda>p. p \<noteq> []) (split_on (of_char CHR ''.'') (guard_path g)))
      in if guard_exists g \<and> value = None then False
         else (case guard_equals g of None \<Rightarrow> True
               | Some expected \<Rightarrow> (case value of None \<Rightarrow> False | Some v \<Rightarrow> json_eq v expected)))"

fun select_step :: "json \<Rightarrow> transition option \<times> transition option \<Rightarrow> transition \<Rightarrow>
    failure + transition option \<times> transition option" where
  "select_step payload (selected, fallback) t =
     (case tr_guard t of
        Some g \<Rightarrow>
          (if guard_matches g payload
           then require (selected = None) ''graph_guard_ambiguous_at_runtime'' (Inr (Some t, fallback))
           else Inr (selected, fallback))
      | None \<Rightarrow> Inr (selected, Some t))"

definition select_transition ::
    "compiled_workflow \<Rightarrow> rstr \<Rightarrow> transition_event \<Rightarrow> json \<Rightarrow> failure + transition option" where
  "select_transition w s e payload =
     and_then (run_all (select_step payload) (None, None) (cw_transitions w s e))
       (\<lambda>(selected, fallback). Inr (case selected of Some t \<Rightarrow> Some t | None \<Rightarrow> fallback))"

section \<open>Texts and identifiers\<close>

definition is_ascii_lowercase :: "nat \<Rightarrow> bool" where
  "is_ascii_lowercase c \<longleftrightarrow> 97 \<le> c \<and> c \<le> 122"

definition is_ascii_digit :: "nat \<Rightarrow> bool" where
  "is_ascii_digit c \<longleftrightarrow> 48 \<le> c \<and> c \<le> 57"

definition is_control :: "nat \<Rightarrow> bool" where
  "is_control c \<longleftrightarrow> c < 32 \<or> 127 \<le> c \<and> c \<le> 159"

definition is_identifier :: "rstr \<Rightarrow> bool" where
  "is_identifier s \<longleftrightarrow> (case s of [] \<Rightarrow> False
     | c # cs \<Rightarrow> is_ascii_lowercase c \<and> str_len s \<le> 96
         \<and> list_all (\<lambda>x. is_ascii_lowercase x \<or> is_ascii_digit x
              \<or> x = of_char CHR ''-'' \<or> x = of_char CHR ''_'' \<or> x = of_char CHR ''.'') cs)"

definition validate_identifier :: "rstr \<Rightarrow> string \<Rightarrow> failure + unit" where
  "validate_identifier s label = require (is_identifier s) (label @ ''_invalid'') (Inr ())"

definition validate_text :: "rstr \<Rightarrow> nat \<Rightarrow> string \<Rightarrow> failure + unit" where
  "validate_text s limit label =
     require (s = trim s \<and> s \<noteq> [] \<and> str_len s \<le> limit \<and> \<not> list_ex is_control s) (label @ ''_invalid'') (Inr ())"

definition validate_script_entry :: "rstr \<Rightarrow> failure + unit" where
  "validate_script_entry s =
     require (take 8 s = lit ''scripts/'' \<and> str_len s \<le> 240 \<and> 92 \<notin> set s \<and> 0 \<notin> set s
       \<and> list_all (\<lambda>p. p \<noteq> [] \<and> p \<noteq> lit ''.'' \<and> p \<noteq> lit ''..'') (split_on 47 s))
       ''workflow_script_entry_invalid'' (Inr ())"

definition validate_guard :: "digest_env \<Rightarrow> guard_expression \<Rightarrow> failure + unit" where
  "validate_guard env g =
     require (guard_path g \<noteq> [] \<and> str_len (guard_path g) \<le> 256
         \<and> list_all is_identifier (split_on (of_char CHR ''.'') (guard_path g))) ''workflow_guard_path_invalid''
     (require (guard_exists g \<or> guard_equals g \<noteq> None) ''workflow_guard_operation_missing''
     (case guard_equals g of
        None \<Rightarrow> Inr ()
      | Some v \<Rightarrow> require (str_len (env_json_text env v) \<le> 4 * 1024) ''workflow_guard_value_too_large'' (Inr ())))"

text \<open>The JSON text of a guard, with \<open>equals\<close> left out when it is absent.\<close>

definition guard_text :: "digest_env \<Rightarrow> guard_expression \<Rightarrow> rstr" where
  "guard_text env g =
     lit ''{\"path\":'' @ env_json_text env (JString (guard_path g))
     @ (case guard_equals g of None \<Rightarrow> [] | Some v \<Rightarrow> lit '',\"equals\":'' @ env_json_text env v)
     @ lit '',\"exists\":'' @ (if guard_exists g then lit ''true'' else lit ''false'') @ lit ''}''"

section \<open>Limits, slots, runtimes and worksets\<close>

fun unique_step :: "string \<Rightarrow> rstr set \<Rightarrow> rstr \<Rightarrow> failure + rstr set" where
  "unique_step label seen v =
     and_then (validate_identifier v label) (\<lambda>_.
     require (v \<notin> seen) ''workflow_identifier_duplicate'' (Inr (insert v seen)))"

definition unique_ids :: "string \<Rightarrow> rstr list \<Rightarrow> failure + rstr set" where
  "unique_ids label vs = run_all (unique_step label) {} vs"

definition check_limits :: "workflow_definition \<Rightarrow> failure + unit" where
  "check_limits d =
     require (has_supported_schema d) ''workflow_schema_unsupported''
     (and_then (validate_identifier (wm_id (def_metadata d)) ''workflow_metadata_id'') (\<lambda>_.
      and_then (validate_text (wm_name (def_metadata d)) 128 ''workflow_metadata_name'') (\<lambda>_.
      and_then (validate_text (wm_version (def_metadata d)) 64 ''workflow_metadata_version'') (\<lambda>_.
      require (def_states d \<noteq> [] \<and> length (def_states d) \<le> MAX_GRAPH_STATES) ''workflow_state_limit''
      (require (def_transitions d \<noteq> [] \<and> length (def_transitions d) \<le> MAX_GRAPH_TRANSITIONS) ''workflow_transition_limit''
      (require (length (def_actor_slots d) \<le> MAX_BINDING_SLOTS) ''workflow_binding_limit''
      (require (length (def_runtimes d) \<le> MAX_RUNTIME_REQUIREMENTS) ''workflow_runtime_limit''
      (require (1 \<le> lim_max_parallelism (def_limits d) \<and> lim_max_parallelism (def_limits d) \<le> of_nat MAX_ACTIVE_EFFECTS)
         ''workflow_parallelism_invalid''
      (require (1 \<le> lim_max_workset_items (def_limits d) \<and> lim_max_workset_items (def_limits d) \<le> of_nat MAX_WORKSET_ITEMS)
         ''workflow_workset_limit_invalid''
      (require (1 \<le> lim_max_attempts (def_limits d) \<and> lim_max_attempts (def_limits d) \<le> MAX_RETRY_ATTEMPTS)
         ''workflow_retry_limit_invalid'' (Inr ())))))))))))"

definition check_slot :: "actor_slot \<Rightarrow> failure + unit" where
  "check_slot s =
     and_then (validate_text (slot_label s) 128 ''workflow_binding_label'') (\<lambda>_.
     require (1 \<le> after_transient_attempts (slot_fallback s) \<and> after_transient_attempts (slot_fallback s) \<le> MAX_RETRY_ATTEMPTS)
       ''workflow_fallback_invalid''
     (if slot_kind s \<noteq> BindActor then require (\<not> slot_entry s) ''workflow_entry_slot_invalid'' (Inr ()) else Inr ()))"

text \<open>Declarations from before entry slots: the first actor becomes the entry.\<close>

fun mark_first_actor :: "actor_slot list \<Rightarrow> actor_slot list" where
  "mark_first_actor [] = []"
| "mark_first_actor (s # ss) =
     (if slot_kind s = BindActor then s\<lparr>slot_entry := True\<rparr> # ss else s # mark_first_actor ss)"

definition normalize_entry_slot :: "workflow_definition \<Rightarrow> workflow_definition" where
  "normalize_entry_slot d =
     (if list_ex (\<lambda>s. slot_kind s = BindActor \<and> slot_entry s) (def_actor_slots d) then d
      else d\<lparr>def_actor_slots := mark_first_actor (def_actor_slots d)\<rparr>)"

definition binding_slots :: "workflow_definition \<Rightarrow> (rstr \<times> actor_slot) list" where
  "binding_slots d = bt_of_list (map (\<lambda>s. (slot_id s, s)) (def_actor_slots d))"

definition check_workset :: "workset_template \<Rightarrow> failure + unit" where
  "check_workset ws =
     and_then (validate_identifier (ws_item_binding ws) ''workflow_workset_item_binding'') (\<lambda>_.
     if ws_predecessor_field ws \<noteq> [] then
       and_then (validate_identifier (ws_predecessor_field ws) ''workflow_workset_predecessor_field'') (\<lambda>_.
       require (ws_predecessor_field ws \<noteq> ws_item_binding ws) ''workflow_workset_field_conflict'' (Inr ()))
     else Inr ())"

text \<open>The slots of a declaration with its entry marked, then the identifiers of its runtimes and worksets.\<close>

definition check_bindings :: "workflow_definition \<Rightarrow> failure + rstr set \<times> rstr set" where
  "check_bindings d =
     (let actors = filter (\<lambda>s. slot_kind s = BindActor) (def_actor_slots d);
          entries = filter (\<lambda>s. slot_entry s) actors
      in require (actors = [] \<or> length entries = 1) ''workflow_entry_slot_invalid''
        (and_then (unique_ids ''workflow_runtime_id'' (map rt_id (def_runtimes d))) (\<lambda>runtimes.
         and_then (check_each (\<lambda>r. require (case map_of (binding_slots d) (rt_id r) of None \<Rightarrow> False
             | Some s \<Rightarrow> slot_kind s = BindRuntime \<and> slot_required s) ''workflow_runtime_binding_invalid'' (Inr ()))
             (def_runtimes d)) (\<lambda>_.
         and_then (check_each (\<lambda>s. require (slot_id s \<in> runtimes) ''workflow_runtime_binding_invalid'' (Inr ()))
             (filter (\<lambda>s. slot_kind s = BindRuntime) (def_actor_slots d))) (\<lambda>_.
         and_then (unique_ids ''workflow_workset_id'' (map ws_id (def_worksets d))) (\<lambda>worksets.
         and_then (check_each check_workset (def_worksets d)) (\<lambda>_.
         Inr (runtimes, worksets))))))))"

section \<open>States\<close>

definition flow_entered :: "workflow_definition \<Rightarrow> rstr set" where
  "flow_entered d = insert (def_initial d)
     (set (map tr_to (filter (\<lambda>t. tr_mode t = Flow) (def_transitions d))))"

text \<open>A required actor slot, which actors and worksets are bound to.\<close>

definition actor_bound :: "(rstr \<times> actor_slot) list \<Rightarrow> rstr \<Rightarrow> bool" where
  "actor_bound slots b = (case map_of slots b of None \<Rightarrow> False | Some s \<Rightarrow> slot_kind s = BindActor \<and> slot_required s)"

definition member_opt :: "rstr option \<Rightarrow> rstr set \<Rightarrow> bool" where
  "member_opt x A = (case x of None \<Rightarrow> False | Some v \<Rightarrow> v \<in> A)"

fun check_state_fields :: "workflow_definition \<Rightarrow> rstr set \<Rightarrow> rstr set \<Rightarrow> graph_state_kind \<Rightarrow> graph_state \<Rightarrow> failure + unit" where
  "check_state_fields d runtimes worksets KActor st =
     and_then (case gs_binding st of
         Some b \<Rightarrow> require (actor_bound (binding_slots d) b) ''workflow_actor_binding_invalid'' (Inr ())
       | None \<Rightarrow> ensure (gs_id st \<notin> flow_entered d) (Code (lit ''workflow_flow_target_incomplete:'' @ gs_id st)) (Inr ())) (\<lambda>_.
     require (gs_runtime st = None \<and> gs_entry st = None \<and> gs_workset st = None) ''workflow_state_field_invalid'' (Inr ()))"
| "check_state_fields d runtimes worksets KScript st =
     require (gs_binding st = None \<and> gs_workset st = None \<and> gs_instruction st = []) ''workflow_state_field_invalid''
     (require (member_opt (gs_runtime st) runtimes) ''workflow_script_runtime_invalid''
     (and_then (ok_or (Code (lit ''workflow_script_entry_missing'')) (gs_entry st)) validate_script_entry))"
| "check_state_fields d runtimes worksets KWorkset st =
     require (member_opt (gs_workset st) worksets) ''workflow_workset_reference_invalid''
     (require (case gs_binding st of None \<Rightarrow> False | Some b \<Rightarrow> actor_bound (binding_slots d) b) ''workflow_workset_binding_invalid''
     (require (gs_runtime st = None \<and> gs_entry st = None) ''workflow_state_field_invalid'' (Inr ())))"
| "check_state_fields d runtimes worksets k st =
     require (gs_binding st = None \<and> gs_runtime st = None \<and> gs_entry st = None \<and> gs_workset st = None
       \<and> gs_instruction st = []) ''workflow_state_field_invalid'' (Inr ())"

fun index_state :: "workflow_definition \<Rightarrow> rstr set \<Rightarrow> rstr set \<Rightarrow> state_indexes \<Rightarrow> nat \<times> graph_state \<Rightarrow> failure + state_indexes" where
  "index_state d runtimes worksets idx (i, st) =
     and_then (validate_identifier (gs_id st) ''workflow_state_id'') (\<lambda>_.
     and_then (validate_text (gs_label st) 128 ''workflow_state_label'') (\<lambda>_.
     and_then (if gs_instruction st \<noteq> [] then validate_text (gs_instruction st) (16 * 1024) ''workflow_state_instruction''
               else Inr ()) (\<lambda>_.
     require (map_of idx (gs_id st) = None) ''workflow_state_duplicate''
     (require (1 \<le> retry_max_attempts (gs_retry st) \<and> retry_max_attempts (gs_retry st) \<le> MAX_RETRY_ATTEMPTS)
        ''workflow_state_retry_invalid''
     (and_then (check_state_fields d runtimes worksets (gs_kind st) st) (\<lambda>_.
     Inr (bt_insert (gs_id st) i idx)))))))"

definition index_states :: "workflow_definition \<Rightarrow> rstr set \<Rightarrow> rstr set \<Rightarrow> failure + state_indexes" where
  "index_states d runtimes worksets =
     and_then (run_all (index_state d runtimes worksets) [] (enumerate 0 (def_states d))) (\<lambda>idx.
     require (map_of idx (def_initial d) \<noteq> None) ''workflow_initial_unknown'' (Inr idx))"

section \<open>Legacy routing of effects\<close>

definition is_effect_state :: "graph_state_kind \<Rightarrow> bool" where
  "is_effect_state k \<longleftrightarrow> k \<in> {KAuthorization, KActor, KScript, KWorkset}"

text \<open>Names with a numeric suffix, tried in order until one is free.\<close>

definition suffixed :: "rstr \<Rightarrow> nat \<Rightarrow> rstr" where
  "suffixed base n = (if n = 0 then base else base @ lit ''-'' @ dec n)"

definition dec_value :: "rstr \<Rightarrow> nat" where
  "dec_value s = foldl (\<lambda>n c. 10 * n + (c - 48)) 0 s"

lemma dec_value_dec: "dec_value (dec n) = n"
proof -
  have "dec_value (dec_digits n) = n"
  proof (induction n rule: dec_digits.induct)
    case (1 n)
    show ?case
    proof (cases "n < 10")
      case True
      then show ?thesis by (simp add: dec_digits.simps[of n] dec_value_def)
    next
      case False
      then show ?thesis using 1 by (simp add: dec_digits.simps[of n] dec_value_def)
    qed
  qed
  then show ?thesis by (simp add: dec_def)
qed

lemma dec_eq_iff [simp]: "dec m = dec n \<longleftrightarrow> m = n"
  using dec_value_dec by metis

lemma suffixed_inj: "suffixed base m = suffixed base n \<Longrightarrow> m = n"
  by (auto simp: suffixed_def lit_def split: if_splits)

lemma finite_suffixed: "finite {k. n \<le> k \<and> suffixed base k \<in> set taken}"
proof (rule finite_subset)
  show "{k. n \<le> k \<and> suffixed base k \<in> set taken} \<subseteq> suffixed base -` set taken" by auto
  show "finite (suffixed base -` set taken)"
    by (rule finite_vimageI) (auto intro: injI suffixed_inj)
qed

function fresh_name :: "rstr list \<Rightarrow> rstr \<Rightarrow> nat \<Rightarrow> rstr" where
  "fresh_name taken base n =
     (if suffixed base n \<in> set taken then fresh_name taken base (Suc n) else suffixed base n)"
  by auto

termination
proof (relation "measure (\<lambda>(taken, base, n). card {k. n \<le> k \<and> suffixed base k \<in> set taken})")
  fix taken :: "rstr list" and base :: rstr and n :: nat
  assume "suffixed base n \<in> set taken"
  then have "{k. Suc n \<le> k \<and> suffixed base k \<in> set taken} \<subset> {k. n \<le> k \<and> suffixed base k \<in> set taken}"
    by (metis (mono_tags, lifting) Suc_leD mem_Collect_eq not_less_eq_eq order_refl psubsetI subsetI)
  then show "((taken, base, Suc n), taken, base, n) \<in> measure (\<lambda>(taken, base, n). card {k. n \<le> k \<and> suffixed base k \<in> set taken})"
    using psubset_card_mono[OF finite_suffixed] by (simp only: in_measure prod.case)
qed simp

declare fresh_name.simps [simp del]

fun collect_routed :: "rstr set \<Rightarrow> rstr set \<times> rstr set \<Rightarrow> transition \<Rightarrow> rstr set \<times> rstr set" where
  "collect_routed effects (hs, hf) t =
     (if tr_from t \<notin> effects then (hs, hf)
      else case tr_event t of
        Success \<Rightarrow> (insert (tr_from t) hs, hf)
      | Failure \<Rightarrow> (hs, insert (tr_from t) hf)
      | Complete \<Rightarrow> (hs, hf))"

fun relabel_step :: "rstr set \<Rightarrow> (rstr set \<times> rstr set) \<times> transition list \<Rightarrow> transition \<Rightarrow>
    (rstr set \<times> rstr set) \<times> transition list" where
  "relabel_step effects ((hs, hf), ts) t =
     (if tr_from t \<notin> effects \<or> tr_event t \<noteq> Complete then ((hs, hf), ts @ [t])
      else if tr_from t \<notin> hs then ((insert (tr_from t) hs, hf), ts @ [t\<lparr>tr_event := Success\<rparr>])
      else if tr_from t \<notin> hf then ((hs, insert (tr_from t) hf), ts @ [t\<lparr>tr_event := Failure\<rparr>])
      else ((hs, hf), ts @ [t]))"

definition blocked_state :: "rstr \<Rightarrow> graph_state" where
  "blocked_state i = \<lparr>gs_id = i, gs_kind = KBlocked, gs_label = lit ''Blocked'', gs_instruction = [],
     gs_binding = None, gs_runtime = None, gs_entry = None, gs_workset = None, gs_retry = default_retry\<rparr>"

definition legacy_terminal :: "workflow_definition \<Rightarrow> state_indexes \<Rightarrow>
    failure + (workflow_definition \<times> state_indexes \<times> rstr)" where
  "legacy_terminal d idx =
     (case find (\<lambda>st. gs_kind st \<in> {KBlocked, KFail}) (def_states d) of
        Some st \<Rightarrow> Inr (d, idx, gs_id st)
      | None \<Rightarrow>
          (let i = fresh_name (map fst idx) (lit ''blocked'') 0;
               d' = d\<lparr>def_states := def_states d @ [blocked_state i]\<rparr>
           in and_then (validate_identifier i ''workflow_state_id'') (\<lambda>_.
              require (map_of idx i = None) ''workflow_state_duplicate''
                (Inr (d', bt_insert i (length (def_states d') - 1) idx, i)))))"

definition add_legacy_failure :: "rstr \<Rightarrow> rstr list \<times> transition list \<Rightarrow> rstr \<Rightarrow> failure + rstr list \<times> transition list" where
  "add_legacy_failure terminal = (\<lambda>(ids, ts) s.
     (let i = fresh_name ids (s @ lit ''-legacy-failure'') 0
      in and_then (validate_identifier i ''workflow_transition_id'') (\<lambda>_.
         Inr (i # ids, ts @ [\<lparr>tr_id = i, tr_from = s, tr_to = terminal, tr_event = Failure, tr_mode = Flow,
           tr_guard = None\<rparr>]))))"

definition effect_ids :: "workflow_definition \<Rightarrow> rstr set" where
  "effect_ids d = set (map gs_id (filter (\<lambda>st. is_effect_state (gs_kind st)) (def_states d)))"

definition relabel_effects :: "workflow_definition \<Rightarrow> (rstr set \<times> rstr set) \<times> workflow_definition" where
  "relabel_effects d =
     (let effects = effect_ids d;
          (routed, ts) = foldl (relabel_step effects)
            (foldl (collect_routed effects) ({}, {}) (def_transitions d), []) (def_transitions d)
      in (routed, d\<lparr>def_transitions := filter (\<lambda>t. \<not> (tr_from t \<in> effects \<and> tr_event t = Complete)) ts\<rparr>))"

definition normalize_legacy_effect_routing ::
    "workflow_definition \<Rightarrow> state_indexes \<Rightarrow> failure + workflow_definition \<times> state_indexes" where
  "normalize_legacy_effect_routing d idx =
     (if effect_ids d = {} then Inr (d, idx)
      else
        (let ((hs, hf), d1) = relabel_effects d;
             missing = filter (\<lambda>i. i \<in> hs \<and> i \<notin> hf) (sorted_list_of_set (effect_ids d))
         in if missing = [] then Inr (d1, idx)
            else and_then (legacy_terminal d1 idx) (\<lambda>(d2, idx', terminal).
                 and_then (run_all (add_legacy_failure terminal) (map tr_id (def_transitions d2), def_transitions d2) missing) (\<lambda>(_, ts').
                 Inr (d2\<lparr>def_transitions := ts'\<rparr>, idx')))))"

section \<open>Transitions\<close>

record transition_index =
  ti_ids :: "rstr set"
  ti_events :: event_indexes
  ti_outgoing :: out_indexes
  ti_predecessors :: "(rstr \<times> rstr set) list"

definition index_transition :: "digest_env \<Rightarrow> workflow_definition \<Rightarrow> state_indexes \<Rightarrow> transition_index \<Rightarrow>
    nat \<times> transition \<Rightarrow> failure + transition_index" where
  "index_transition env d idx x = (\<lambda>(i, t).
     and_then (validate_identifier (tr_id t) ''workflow_transition_id'') (\<lambda>_.
     require (tr_id t \<notin> ti_ids x) ''workflow_transition_duplicate''
     (require (map_of idx (tr_from t) \<noteq> None \<and> map_of idx (tr_to t) \<noteq> None) ''workflow_transition_state_unknown''
     (require (tr_mode t = Flow \<or> map_option gs_kind (state_at d idx (tr_from t)) \<noteq> Some KFork) ''workflow_transition_mode_invalid''
     (and_then (case tr_guard t of None \<Rightarrow> Inr () | Some g \<Rightarrow> validate_guard env g) (\<lambda>_.
     Inr (x\<lparr>ti_ids := insert (tr_id t) (ti_ids x),
       ti_events := bt_update [] (tr_from t, tr_event t) (\<lambda>is. is @ [i]) (ti_events x),
       ti_outgoing := bt_update [] (tr_from t) (\<lambda>is. is @ [i]) (ti_outgoing x),
       ti_predecessors := bt_update {} (tr_to t) (insert (tr_from t)) (ti_predecessors x)\<rparr>)))))))"

definition index_transitions :: "digest_env \<Rightarrow> workflow_definition \<Rightarrow> state_indexes \<Rightarrow> failure + transition_index" where
  "index_transitions env d idx =
     run_all (index_transition env d idx) \<lparr>ti_ids = {}, ti_events = [], ti_outgoing = [], ti_predecessors = []\<rparr>
       (enumerate 0 (def_transitions d))"

fun guard_step :: "digest_env \<Rightarrow> nat \<times> (rstr \<times> rstr set) list \<Rightarrow> transition \<Rightarrow> failure + nat \<times> (rstr \<times> rstr set) list" where
  "guard_step env (fallbacks, paths) t =
     (case tr_guard t of
        Some g \<Rightarrow> require (guard_text env g \<notin> get_or {} paths (guard_path g)) ''workflow_guard_duplicate''
          (Inr (fallbacks, bt_update {} (guard_path g) (insert (guard_text env g)) paths))
      | None \<Rightarrow> Inr (Suc fallbacks, paths))"

definition guard_count :: "(rstr \<times> rstr set) list \<Rightarrow> nat" where
  "guard_count paths = sum_list (map (\<lambda>(_, texts). card texts) paths)"

definition check_guard_set :: "digest_env \<Rightarrow> transition list \<Rightarrow> failure + unit" where
  "check_guard_set env ts =
     and_then (run_all (guard_step env) (0, []) ts) (\<lambda>(fallbacks, paths).
     (let guards = guard_count paths
      in require (fallbacks \<le> 1) ''workflow_guard_ambiguous''
        (require (guards = 0 \<or> fallbacks = 1) ''workflow_guard_ambiguous''
        (and_then (if guards > 1 then
             require (length paths = 1 \<and> (case paths of [] \<Rightarrow> False | (_, texts) # _ \<Rightarrow> card texts = guards)
               \<and> list_all (\<lambda>t. case tr_guard t of None \<Rightarrow> True | Some g \<Rightarrow> guard_equals g \<noteq> None \<and> \<not> guard_exists g) ts)
               ''workflow_guard_partition_invalid'' (Inr ())
           else Inr ()) (\<lambda>_.
         require (guards > 0 \<or> length ts \<le> 1) ''workflow_transition_ambiguous'' (Inr ()))))))"

definition is_fork_fanout :: "workflow_definition \<Rightarrow> state_indexes \<Rightarrow> rstr \<times> transition_event \<Rightarrow> bool" where
  "is_fork_fanout d idx = (\<lambda>(s, e). e = Complete \<and> map_option gs_kind (state_at d idx s) = Some KFork)"

definition validate_guard_sets :: "digest_env \<Rightarrow> workflow_definition \<Rightarrow> state_indexes \<Rightarrow> event_indexes \<Rightarrow> failure + unit" where
  "validate_guard_sets env d idx ti =
     check_each (\<lambda>(k, is). if is_fork_fanout d idx k then Inr ()
       else check_guard_set env (map (\<lambda>i. def_transitions d ! i) is)) ti"

definition check_edges :: "workflow_definition \<Rightarrow> event_indexes \<Rightarrow> out_indexes \<Rightarrow> graph_state \<Rightarrow> failure + unit" where
  "check_edges d ti oi st =
     (let out = out_at d oi (gs_id st);
          branches = trs_at d ti (gs_id st) Complete
      in if gs_kind st \<in> {KSucceed, KFail, KBlocked} then
           require (out = []) ''workflow_terminal_has_outgoing_edge'' (Inr ())
         else if gs_kind st \<in> {KPass, KJoin} then
           require (case out of [t] \<Rightarrow> tr_event t = Complete \<and> tr_guard t = None | _ \<Rightarrow> False)
             ''workflow_automatic_transition_invalid'' (Inr ())
         else if gs_kind st = KChoice then
           require (out \<noteq> [] \<and> list_all (\<lambda>t. tr_event t = Complete) out) ''workflow_choice_transition_invalid''
           (require (list_ex (\<lambda>t. tr_guard t = None) out) ''workflow_choice_requires_fallback'' (Inr ()))
         else if gs_kind st = KFork then
           require (length branches \<ge> 2 \<and> list_all (\<lambda>t. tr_guard t = None) branches) ''workflow_fork_requires_branches''
           (require (card (set (map tr_to branches)) = length branches) ''workflow_fork_branch_duplicate''
           (require (list_all (\<lambda>t. tr_event t = Complete) out) ''workflow_fork_requires_branches'' (Inr ())))
         else
           ensure (trs_at d ti (gs_id st) Success \<noteq> [] \<and> trs_at d ti (gs_id st) Failure \<noteq> []
               \<and> list_all (\<lambda>t. tr_event t = Success \<or> tr_event t = Failure) out)
             (Code (lit ''workflow_effect_routing_incomplete:'' @ gs_id st)) (Inr ()))"

definition validate_state_edges :: "workflow_definition \<Rightarrow> event_indexes \<Rightarrow> out_indexes \<Rightarrow> failure + unit" where
  "validate_state_edges d ti oi = check_each (check_edges d ti oi) (def_states d)"

section \<open>Searches\<close>

lemma out_at_key: "out_at d oi s \<noteq> [] \<Longrightarrow> s \<in> fst ` set oi"
  by (auto simp: out_at_def get_or_def split: option.splits dest: map_of_SomeD intro: rev_image_eqI)

lemma unseen_step:
  assumes "s \<notin> seen"
  shows "card (fst ` set oi - insert s seen) < card (fst ` set oi - seen)
    \<or> fst ` set oi - insert s seen = fst ` set oi - seen \<and> out_at d oi s = []"
proof (cases "s \<in> fst ` set oi")
  case True
  then have "fst ` set oi - insert s seen \<subset> fst ` set oi - seen" using assms by auto
  then show ?thesis by (intro disjI1 psubset_card_mono) auto
next
  case False
  then have "out_at d oi s = []" using out_at_key[of d oi s] by blast
  then show ?thesis using False by simp
qed

text \<open>
  \<open>edges s\<close> is what the search of the source reads when it enters \<open>s\<close>: which of the outgoing
  transitions it follows (or the panic of an index out of range). The error \<open>e\<close> reports a cycle.
\<close>

function visit :: "(rstr \<Rightarrow> failure + (transition \<Rightarrow> bool)) \<Rightarrow> failure \<Rightarrow> workflow_definition \<Rightarrow> out_indexes \<Rightarrow>
    rstr set \<Rightarrow> rstr set \<Rightarrow> rstr list \<Rightarrow> failure + rstr set" where
  "visit edges e d oi visiting visited [] = Inr visited"
| "visit edges e d oi visiting visited (s # ss) =
     (if s \<in> visiting then Inl e
      else if s \<in> visited then visit edges e d oi visiting visited ss
      else and_then (edges s) (\<lambda>follow.
        and_then (visit edges e d oi (insert s visiting) visited (map tr_to (filter follow (out_at d oi s)))) (\<lambda>visited'.
        visit edges e d oi visiting (insert s visited') ss)))"
  by pat_completeness auto

termination
proof (relation "inv_image ({(m, n). m < n} <*lex*> {(m, n). m < n})
    (\<lambda>(edges, e, d, oi, visiting, visited, ss). (card (fst ` set oi - visiting), length ss))")
  show "wf (inv_image ({(m::nat, n). m < n} <*lex*> {(m::nat, n). m < n})
    (\<lambda>(edges :: rstr \<Rightarrow> failure + (transition \<Rightarrow> bool), e :: failure, d :: workflow_definition, oi :: out_indexes,
       visiting :: rstr set, visited :: rstr set, ss :: rstr list). (card (fst ` set oi - visiting), length ss)))"
    by (intro wf_inv_image wf_lex_prod wf_less)
next
  fix edges :: "rstr \<Rightarrow> failure + (transition \<Rightarrow> bool)" and e :: failure and d oi and visiting visited :: "rstr set"
    and s :: rstr and ss follow
  assume new: "s \<notin> visiting"
  let ?next = "map tr_to (filter follow (out_at d oi s))"
  from unseen_step[OF new, of oi d]
  show "((edges, e, d, oi, insert s visiting, visited, ?next), edges, e, d, oi, visiting, visited, s # ss)
      \<in> inv_image ({(m, n). m < n} <*lex*> {(m, n). m < n})
        (\<lambda>(edges, e, d, oi, visiting, visited, ss). (card (fst ` set oi - visiting), length ss))"
    by auto
qed auto

definition branch_has_cycle :: "workflow_definition \<Rightarrow> out_indexes \<Rightarrow> rstr set \<Rightarrow> bool" where
  "branch_has_cycle d oi branch =
     (case visit (\<lambda>_. Inr (\<lambda>t. tr_to t \<in> branch)) Panic d oi {} {} (sorted_list_of_set branch) of
        Inl _ \<Rightarrow> True | Inr _ \<Rightarrow> False)"

fun automatic_edge :: "graph_state_kind \<Rightarrow> transition \<Rightarrow> bool" where
  "automatic_edge KWorkset t = (tr_event t = Success)"
| "automatic_edge k t = (k \<in> {KPass, KChoice, KFork, KJoin})"

definition automatic_edges :: "workflow_definition \<Rightarrow> state_indexes \<Rightarrow> rstr \<Rightarrow> failure + (transition \<Rightarrow> bool)" where
  "automatic_edges d idx s =
     (case state_at d idx s of None \<Rightarrow> Inl Panic | Some st \<Rightarrow> Inr (automatic_edge (gs_kind st)))"

definition reject_effect_free_cycles :: "workflow_definition \<Rightarrow> state_indexes \<Rightarrow> out_indexes \<Rightarrow> failure + unit" where
  "reject_effect_free_cycles d idx oi =
     and_then (visit (automatic_edges d idx) (Code (lit ''workflow_effect_free_cycle'')) d oi {} {}
       (map gs_id (def_states d))) (\<lambda>_. Inr ())"

function reach_from :: "workflow_definition \<Rightarrow> out_indexes \<Rightarrow> rstr set \<Rightarrow> rstr list \<Rightarrow> rstr set" where
  "reach_from d oi seen [] = seen"
| "reach_from d oi seen (s # queue) =
     (if s \<in> seen then reach_from d oi seen queue
      else reach_from d oi (insert s seen) (queue @ map tr_to (out_at d oi s)))"
  by pat_completeness auto

termination
proof (relation "inv_image ({(m, n). m < n} <*lex*> {(m, n). m < n})
    (\<lambda>(d, oi, seen, queue). (card (fst ` set oi - seen), length queue))")
  fix d oi s queue and seen :: "rstr set"
  assume "s \<notin> seen"
  from unseen_step[OF this, of oi d]
  show "((d, oi, insert s seen, queue @ map tr_to (out_at d oi s)), d, oi, seen, s # queue)
      \<in> inv_image ({(m, n). m < n} <*lex*> {(m, n). m < n})
        (\<lambda>(d, oi, seen, queue). (card (fst ` set oi - seen), length queue))"
    by auto
qed (auto intro: wf_inv_image wf_lex_prod wf_less)

definition reachable_states :: "workflow_definition \<Rightarrow> out_indexes \<Rightarrow> rstr set" where
  "reachable_states d oi = reach_from d oi {} [def_initial d]"

section \<open>Parallel regions\<close>

text \<open>The walk through one branch of a fork, up to the join.\<close>

record region =
  r_branch :: "rstr set"
  r_branch_exits :: "rstr set"
  r_exits :: "rstr set"
  r_join :: "rstr option"
  r_queue :: "rstr list"

definition region_error :: failure where
  "region_error = Code (lit ''workflow_parallel_region_invalid'')"

definition region_join :: "rstr \<Rightarrow> region \<Rightarrow> failure + region" where
  "region_join j r = (case r_join r of
      Some expected \<Rightarrow> ensure (expected = j) region_error (Inr r)
    | None \<Rightarrow> Inr (r\<lparr>r_join := Some j\<rparr>))"

definition region_edge :: "workflow_definition \<Rightarrow> state_indexes \<Rightarrow> rstr \<Rightarrow> region \<Rightarrow> transition \<Rightarrow> failure + region" where
  "region_edge d idx s r t =
     and_then (ok_or (Code (lit ''workflow_state_unknown'')) (state_at d idx (tr_to t))) (\<lambda>target.
     if gs_kind target \<in> {KFork, KSucceed, KFail, KBlocked} then Inl region_error
     else if gs_kind target = KJoin then
       and_then (region_join (tr_to t) r) (\<lambda>r.
       Inr (r\<lparr>r_exits := insert s (r_exits r), r_branch_exits := insert s (r_branch_exits r)\<rparr>))
     else Inr (r\<lparr>r_queue := r_queue r @ [tr_to t]\<rparr>))"

definition region_node :: "workflow_definition \<Rightarrow> state_indexes \<Rightarrow> out_indexes \<Rightarrow> rstr set \<Rightarrow> rstr \<Rightarrow> region \<Rightarrow> failure + region" where
  "region_node d idx oi covered s r =
     and_then (ok_or (Code (lit ''workflow_state_unknown'')) (state_at d idx s)) (\<lambda>st.
     if gs_kind st \<in> {KFork, KSucceed, KFail, KBlocked} then Inl region_error
     else if gs_kind st = KJoin then region_join s r
     else ensure (s \<notin> covered) region_error (run_all (region_edge d idx s) r (out_at d oi s)))"

lemma region_join_frame:
  "region_join j r = Inr r' \<Longrightarrow> r_queue r' = r_queue r \<and> r_branch r' = r_branch r"
  by (auto simp: region_join_def result_simps split: option.splits)

lemma region_edge_frame: "region_edge d idx s r t = Inr r' \<Longrightarrow> r_branch r' = r_branch r"
  by (auto simp: region_edge_def result_simps dest: region_join_frame split: if_splits)

lemma region_node_frame:
  assumes "region_node d idx oi covered s r = Inr r'"
  shows "r_branch r' = r_branch r" "out_at d oi s = [] \<Longrightarrow> r_queue r' = r_queue r"
proof -
  have run: "r_branch r2 = r_branch r" if "run_all (region_edge d idx s) r (out_at d oi s) = Inr r2" for r2
    by (rule run_all_invariant[OF that]) (simp_all add: region_edge_frame)
  show "r_branch r' = r_branch r"
    using assms by (auto simp: region_node_def result_simps dest: region_join_frame run split: if_splits)
  show "r_queue r' = r_queue r" if "out_at d oi s = []"
    using assms that by (auto simp: region_node_def result_simps dest: region_join_frame split: if_splits)
qed

function region_walk :: "workflow_definition \<Rightarrow> state_indexes \<Rightarrow> out_indexes \<Rightarrow> rstr set \<Rightarrow> region \<Rightarrow> failure + region" where
  "region_walk d idx oi covered r =
     (case r_queue r of
        [] \<Rightarrow> Inr r
      | s # queue \<Rightarrow>
          if s \<in> r_branch r then region_walk d idx oi covered (r\<lparr>r_queue := queue\<rparr>)
          else and_then (region_node d idx oi covered s (r\<lparr>r_queue := queue, r_branch := insert s (r_branch r)\<rparr>))
            (region_walk d idx oi covered))"
  by auto

termination
proof (relation "inv_image ({(m, n). m < n} <*lex*> {(m, n). m < n})
    (\<lambda>(d, idx, oi, covered, r). (card (fst ` set oi - r_branch r), length (r_queue r)))")
  fix d idx oi covered r s queue r'
  assume q: "r_queue r = s # queue" and new: "s \<notin> r_branch r"
    and step: "region_node d idx oi covered s (r\<lparr>r_queue := queue, r_branch := insert s (r_branch r)\<rparr>) = Inr r'"
  from region_node_frame[OF step] unseen_step[OF new, of oi d] q
  show "((d, idx, oi, covered, r'), d, idx, oi, covered, r) \<in> inv_image ({(m, n). m < n} <*lex*> {(m, n). m < n})
    (\<lambda>(d, idx, oi, covered, r). (card (fst ` set oi - r_branch r), length (r_queue r)))"
    by auto
qed (auto intro: wf_inv_image wf_lex_prod wf_less)

declare region_walk.simps [simp del]

text \<open>One fork: its branches one after the other, then the join they meet in.\<close>

record fork_scan =
  f_join :: "rstr option"
  f_covered :: "rstr set"
  f_exits :: "rstr set"

definition scan_branch :: "workflow_definition \<Rightarrow> state_indexes \<Rightarrow> out_indexes \<Rightarrow> (rstr \<times> rstr set) list \<Rightarrow> rstr \<Rightarrow>
    fork_scan \<Rightarrow> transition \<Rightarrow> failure + fork_scan" where
  "scan_branch d idx oi preds fork f t =
     (let start = tr_to t
      in and_then (region_walk d idx oi (f_covered f) \<lparr>r_branch = {}, r_branch_exits = {}, r_exits = f_exits f,
            r_join = f_join f, r_queue = [start]\<rparr>) (\<lambda>r.
         ensure (r_branch r \<noteq> {}) region_error
         (ensure (card (r_branch_exits r) = 1) region_error
         (ensure (\<not> branch_has_cycle d oi (r_branch r)) region_error
         (ensure (\<forall>s\<in>r_branch r. s = start \<or> Some s = r_join r \<or> get_or {} preds s \<subseteq> r_branch r) region_error
         (ensure (get_or {} preds start = {fork}) region_error
         (Inr \<lparr>f_join = r_join r, f_covered = f_covered f \<union> r_branch r, f_exits = r_exits r\<rparr>)))))))"

definition scan_fork :: "workflow_definition \<Rightarrow> state_indexes \<Rightarrow> event_indexes \<Rightarrow> out_indexes \<Rightarrow>
    (rstr \<times> rstr set) list \<Rightarrow> rstr set \<Rightarrow> graph_state \<Rightarrow> failure + rstr set" where
  "scan_fork d idx ti oi preds joins fork =
     (case map_of ti (gs_id fork, Complete) of
        None \<Rightarrow> Inr joins
      | Some _ \<Rightarrow>
          and_then (run_all (scan_branch d idx oi preds (gs_id fork)) \<lparr>f_join = None, f_covered = {}, f_exits = {}\<rparr>
            (trs_at d ti (gs_id fork) Complete)) (\<lambda>f.
          and_then (ok_or region_error (f_join f)) (\<lambda>j.
          ensure (map_of preds j = Some (f_exits f)) region_error
          (ensure (j \<notin> joins) region_error (Inr (insert j joins))))))"

definition validate_parallel_regions :: "workflow_definition \<Rightarrow> state_indexes \<Rightarrow> event_indexes \<Rightarrow> out_indexes \<Rightarrow>
    (rstr \<times> rstr set) list \<Rightarrow> failure + rstr set" where
  "validate_parallel_regions d idx ti oi preds =
     run_all (scan_fork d idx ti oi preds) {} (filter (\<lambda>st. gs_kind st = KFork) (def_states d))"

section \<open>Compilation\<close>

definition compile_graph :: "digest_env \<Rightarrow> workflow_definition \<Rightarrow> state_indexes \<Rightarrow> failure + compiled_workflow" where
  "compile_graph env d idx =
     and_then (index_transitions env d idx) (\<lambda>x.
     and_then (validate_guard_sets env d idx (ti_events x)) (\<lambda>_.
     and_then (validate_state_edges d (ti_events x) (ti_outgoing x)) (\<lambda>_.
     and_then (validate_parallel_regions d idx (ti_events x) (ti_outgoing x) (ti_predecessors x)) (\<lambda>joins.
     and_then (check_each (\<lambda>st. require (card (get_or {} (ti_predecessors x) (gs_id st)) = 1 \<or> gs_id st \<in> joins)
         ''workflow_join_topology_invalid'' (Inr ())) (filter (\<lambda>st. gs_kind st = KJoin) (def_states d))) (\<lambda>_.
     (let reachable = reachable_states d (ti_outgoing x)
      in require (card reachable = length (def_states d)) ''workflow_state_unreachable''
        (require (list_ex (\<lambda>st. gs_id st \<in> reachable \<and> gs_kind st \<in> {KSucceed, KFail, KBlocked}) (def_states d))
           ''workflow_terminal_unreachable''
        (and_then (reject_effect_free_cycles d idx (ti_outgoing x)) (\<lambda>_.
         Inr \<lparr>cw_definition = d, cw_state_indexes = idx, cw_transition_indexes = ti_events x,
           cw_outgoing_indexes = ti_outgoing x, cw_predecessors = ti_predecessors x, cw_reachable = reachable\<rparr>)))))))))"

definition compile_workflow_inner :: "digest_env \<Rightarrow> workflow_definition \<Rightarrow> bool \<Rightarrow> failure + compiled_workflow" where
  "compile_workflow_inner env d0 fill_legacy =
     and_then (check_limits d0) (\<lambda>_.
     and_then (unique_ids ''workflow_binding_id'' (map slot_id (def_actor_slots d0))) (\<lambda>_.
     and_then (check_each check_slot (def_actor_slots d0)) (\<lambda>_.
     (let d = normalize_entry_slot d0
      in and_then (check_bindings d) (\<lambda>(runtimes, worksets).
         and_then (index_states d runtimes worksets) (\<lambda>idx.
         and_then (if fill_legacy
             then and_then (normalize_legacy_effect_routing d idx) (\<lambda>(d', idx').
               require (length (def_states d') \<le> MAX_GRAPH_STATES) ''workflow_state_limit''
               (require (length (def_transitions d') \<le> MAX_GRAPH_TRANSITIONS) ''workflow_transition_limit''
                 (Inr (d', idx'))))
             else Inr (d, idx)) (\<lambda>(d', idx').
         compile_graph env d' idx')))))))"

definition compile_workflow :: "digest_env \<Rightarrow> workflow_definition \<Rightarrow> failure + compiled_workflow" where
  "compile_workflow env d = compile_workflow_inner env d False"

definition compile_persisted_workflow :: "digest_env \<Rightarrow> workflow_definition \<Rightarrow> failure + compiled_workflow" where
  "compile_persisted_workflow env d = compile_workflow_inner env d True"

end
