(* ===== verification/Flywheel_Reducer.thy ===== *)
theory Flywheel_Reducer
  imports Flywheel_Graph
begin

text \<open>
  The reducer of a strategy run (\<open>adaptive_flywheel/reducer.rs\<close>): a run is a snapshot, an event
  takes it to the next one and emits commands. The working state of one step is the record
  \<open>machine\<close>; every method of the source is a function from machine to machine that may fail. A
  run that \<open>unwrap\<close>s or indexes what is not there fails with \<open>Panic\<close>. \<open>enter\<close> and
  \<open>complete_fork\<close> call each other: \<open>enter\<close> has fuel, and one fork below another is the only
  nesting a compiled workflow could ask for, so \<open>enter_fuel\<close> is enough.
\<close>

section \<open>Commands, snapshots and events\<close>

datatype command_kind = AuthorizationCommand | ActorCommand | ScriptCommand | WorksetItemCommand

datatype command_status = CmdPending | CmdClaimed | CmdRunning | CmdSucceeded | CmdFailed | CmdRetryable
  | CmdCancelRequested | CmdCancelled | CmdInDoubt

record run_command =
  cmd_id :: rstr
  cmd_state_id :: rstr
  cmd_state_visit :: u64
  cmd_kind :: command_kind
  cmd_status :: command_status
  cmd_attempt :: u8
  cmd_attempt_token :: rstr
  cmd_binding_id :: "rstr option"
  cmd_runtime_id :: "rstr option"
  cmd_entry :: "rstr option"
  cmd_item_id :: "rstr option"
  cmd_session_policy :: session_policy
  cmd_binding_ordinal :: u8
  cmd_resume_session_id :: "rstr option"
  cmd_input_digest :: rstr
  cmd_input :: json
  cmd_output_digest :: "rstr option"
  cmd_failure_class :: "failure_class option"
  cmd_failure_code :: "rstr option"

record run_snapshot =
  snap_run_id :: rstr
  snap_definition_digest :: rstr
  snap_semantics_digest :: rstr
  snap_status :: run_status
  snap_sequence :: u64
  snap_input :: json
  snap_active :: "rstr set"
  snap_completed :: "rstr set"
  snap_visits :: "(rstr \<times> u64) list"
  snap_join_arrivals :: "(rstr \<times> rstr set) list"
  snap_actor_sessions :: "(rstr \<times> rstr) list"
  snap_slot_ordinals :: "(rstr \<times> u8) list"
  snap_slot_candidates :: "(rstr \<times> u8) list"
  snap_lineage :: "(rstr \<times> u8) list"
  snap_merge_sources :: "(rstr \<times> rstr) list"
  snap_fallbacks :: "fallback_receipt list"
  snap_conversation_id :: "rstr option"
  snap_membership_id :: "rstr option"
  snap_route_receipt :: "json option"
  snap_cwd :: "rstr option"
  snap_callbacks :: "pending_callback list"
  snap_commands :: "(rstr \<times> run_command) list"
  snap_diagnostic :: "rstr option"

definition empty_snapshot :: "rstr \<Rightarrow> rstr \<Rightarrow> rstr \<Rightarrow> run_snapshot" where
  "empty_snapshot run d s = \<lparr>snap_run_id = run, snap_definition_digest = d, snap_semantics_digest = s,
     snap_status = RunPending, snap_sequence = 0, snap_input = JObject [], snap_active = {}, snap_completed = {},
     snap_visits = [], snap_join_arrivals = [], snap_actor_sessions = [], snap_slot_ordinals = [],
     snap_slot_candidates = [], snap_lineage = [], snap_merge_sources = [], snap_fallbacks = [],
     snap_conversation_id = None, snap_membership_id = None, snap_route_receipt = None, snap_cwd = None,
     snap_callbacks = [], snap_commands = [], snap_diagnostic = None\<rparr>"

datatype reducer_event =
    Start json
  | AuthorizationGranted rstr
  | AuthorizationDenied
  | AuthorizationRevoked
  | CommandClaimed rstr rstr
  | CommandStarted rstr rstr
  | CommandSucceeded rstr rstr json
  | CommandFailed rstr rstr failure_class rstr
  | AssistantEffectFailed rstr rstr failure_class rstr
  | AssistantDriveFailed rstr
  | CallbackDecision rstr u64 callback_decision
  | RetryRequested rstr
  | CancelRequested
  | CancellationAcknowledged rstr rstr
  | CancellationUnknown rstr rstr
  | FallbackIssued rstr u8 json rstr rstr rstr u8

record reducer_output =
  out_snapshot :: run_snapshot
  out_emitted :: "run_command list"
  out_applied :: bool

record machine =
  m_snapshot :: run_snapshot
  m_emitted :: "run_command list"
  m_automatic :: "(rstr \<times> transition_event \<times> json) list"
  m_applied :: bool

abbreviation on_snapshot :: "(run_snapshot \<Rightarrow> run_snapshot) \<Rightarrow> machine \<Rightarrow> machine" where
  "on_snapshot f m \<equiv> m\<lparr>m_snapshot := f (m_snapshot m)\<rparr>"

abbreviation set_status :: "run_status \<Rightarrow> machine \<Rightarrow> machine" where
  "set_status st \<equiv> on_snapshot (\<lambda>s. s\<lparr>snap_status := st\<rparr>)"

abbreviation set_diagnostic :: "rstr option \<Rightarrow> machine \<Rightarrow> machine" where
  "set_diagnostic d \<equiv> on_snapshot (\<lambda>s. s\<lparr>snap_diagnostic := d\<rparr>)"

abbreviation commands :: "machine \<Rightarrow> (rstr \<times> run_command) list" where
  "commands m \<equiv> snap_commands (m_snapshot m)"

abbreviation put_command :: "rstr \<Rightarrow> run_command \<Rightarrow> machine \<Rightarrow> machine" where
  "put_command i c \<equiv> on_snapshot (\<lambda>s. s\<lparr>snap_commands := bt_insert i c (snap_commands s)\<rparr>)"

text \<open>\<open>values_mut\<close> over the commands.\<close>

definition map_commands :: "(run_command \<Rightarrow> run_command) \<Rightarrow> machine \<Rightarrow> machine" where
  "map_commands f = on_snapshot (\<lambda>s. s\<lparr>snap_commands := map (\<lambda>(i, c). (i, f c)) (snap_commands s)\<rparr>)"

section \<open>Keys and texts\<close>

definition nul_join :: "rstr list \<Rightarrow> rstr" where
  "nul_join parts = (case parts of [] \<Rightarrow> [] | p # ps \<Rightarrow> p @ concat (map (\<lambda>q. 0 # q) ps))"

fun lineage_key :: "rstr \<Rightarrow> u64 \<Rightarrow> rstr option \<Rightarrow> rstr option \<Rightarrow> rstr" where
  "lineage_key s v (Some slot) (Some item) = nul_join [s, dec (unat v), slot, item]"
| "lineage_key s v (Some slot) None = nul_join [s, dec (unat v), slot]"
| "lineage_key s v None (Some item) = nul_join [s, dec (unat v), item]"
| "lineage_key s v None None = nul_join [s, dec (unat v)]"

definition ordinal_key :: "rstr \<Rightarrow> u64 \<Rightarrow> rstr \<Rightarrow> rstr option \<Rightarrow> rstr" where
  "ordinal_key s v slot item = lineage_key s v (Some slot) item"

definition binding_session_key :: "rstr \<Rightarrow> u8 \<Rightarrow> rstr" where
  "binding_session_key slot ordinal = nul_join [slot, dec (unat ordinal)]"

definition saturating_inc :: "u8 \<Rightarrow> u8" where
  "saturating_inc x = (if x = 255 then 255 else x + 1)"

definition lineage_within_budget :: "run_snapshot \<Rightarrow> rstr \<Rightarrow> u64 \<Rightarrow> rstr option \<Rightarrow> rstr option \<Rightarrow> u8 \<Rightarrow> bool" where
  "lineage_within_budget s st v slot item limit \<longleftrightarrow>
     saturating_inc (get_or 0 (snap_lineage s) (lineage_key st v slot item)) \<le> limit"

definition max_attempts :: "compiled_workflow \<Rightarrow> u8" where
  "max_attempts w = lim_max_attempts (def_limits (cw_definition w))"

definition find_slot :: "compiled_workflow \<Rightarrow> rstr \<Rightarrow> actor_slot option" where
  "find_slot w b = find (\<lambda>s. slot_id s = b) (def_actor_slots (cw_definition w))"

definition effect_input_for :: "digest_env \<Rightarrow> compiled_workflow \<Rightarrow> rstr \<Rightarrow> json \<Rightarrow> failure + json" where
  "effect_input_for env w s input =
     and_then (ok_or (Code (lit ''strategy_state_unknown'')) (cw_state w s)) (\<lambda>st.
     if trim (gs_instruction st) = [] then Inr input
     else Inr (JObject (json_map [(lit ''prompt'', JString (gs_instruction st @ [10, 10] @ lit ''State: '' @ gs_id st
                 @ [10] @ lit ''Input JSON:'' @ [10] @ env_json_text env input)),
               (lit ''context'', input)])))"

definition validate_failure_code :: "rstr \<Rightarrow> failure + unit" where
  "validate_failure_code code =
     require (code \<noteq> [] \<and> str_len code \<le> 96
       \<and> list_all (\<lambda>c. is_ascii_lowercase c \<or> is_ascii_digit c \<or> c = of_char CHR ''-'' \<or> c = of_char CHR ''_'') code)
       ''strategy_failure_code_invalid'' (Inr ())"

section \<open>Retry and fallback rules\<close>

definition retry_policy_allows :: "compiled_workflow \<Rightarrow> run_command \<Rightarrow> failure_class \<Rightarrow> rstr \<Rightarrow> bool" where
  "retry_policy_allows w c cls code =
     (if cmd_kind c = AuthorizationCommand \<or> cls = InDoubt then False
      else (case cw_state w (cmd_state_id c) of None \<Rightarrow> False | Some st \<Rightarrow>
        if cls = Permanent \<and> code = lit ''quota_exhausted'' then False
        else if cls = Permanent \<and> retry_transient_only (gs_retry st) then False
        else
          (let limit =
             (if cmd_kind c \<in> {ActorCommand, WorksetItemCommand} \<and> cls = Transient then
                (case Option.bind (gs_binding st) (find_slot w) of
                   None \<Rightarrow> retry_max_attempts (gs_retry st)
                 | Some slot \<Rightarrow> min (retry_max_attempts (gs_retry st)) (after_transient_attempts (slot_fallback slot)))
              else retry_max_attempts (gs_retry st))
           in cmd_attempt c < limit)))"

definition fallback_reason_base :: "compiled_workflow \<Rightarrow> run_snapshot \<Rightarrow> run_command \<Rightarrow> rstr option" where
  "fallback_reason_base w s c =
     (if cmd_status c \<noteq> CmdFailed \<or> cmd_kind c \<notin> {ActorCommand, WorksetItemCommand} \<or> cmd_state_id c \<notin> snap_active s
      then None
      else Option.bind (cmd_binding_id c) (\<lambda>slot_name.
           Option.bind (find_slot w slot_name) (\<lambda>slot.
           Option.bind (cmd_failure_class c) (\<lambda>cls.
           Option.bind (if cls = Transient then Some (lit ''transient-exhausted'')
                 else if cls = Permanent \<and> cmd_failure_code c = Some (lit ''quota_exhausted'') \<and> on_quota (slot_fallback slot)
                 then Some (lit ''quota'') else None) (\<lambda>reason.
           if saturating_inc (cmd_binding_ordinal c) \<ge> get_or 0 (snap_slot_candidates s) slot_name
              \<or> \<not> lineage_within_budget s (cmd_state_id c) (cmd_state_visit c) (cmd_binding_id c) (cmd_item_id c) (max_attempts w)
           then None else Some reason)))))"

definition unsettled_status :: "command_status \<Rightarrow> bool" where
  "unsettled_status st \<longleftrightarrow> st \<in> {CmdPending, CmdClaimed, CmdRunning, CmdRetryable, CmdCancelRequested, CmdInDoubt}"

definition fallback_reason :: "compiled_workflow \<Rightarrow> run_snapshot \<Rightarrow> run_command \<Rightarrow> rstr option" where
  "fallback_reason w s c =
     Option.bind (fallback_reason_base w s c) (\<lambda>reason.
     if cmd_kind c = WorksetItemCommand \<and> list_ex (\<lambda>(_, other).
          cmd_id other \<noteq> cmd_id c \<and> cmd_state_id other = cmd_state_id c \<and> cmd_state_visit other = cmd_state_visit c
          \<and> (unsettled_status (cmd_status other)
             \<or> cmd_status other = CmdFailed \<and> fallback_reason_base w s other = None)) (snap_commands s)
     then None else Some reason)"

section \<open>Merging outputs into the run input\<close>

definition merge_key :: "rstr \<Rightarrow> (rstr \<times> rstr) list \<Rightarrow> rstr \<Rightarrow> bool" where
  "merge_key key sources command =
     (case map_of sources key of None \<Rightarrow> True | Some source \<Rightarrow> source < command)"

definition merge_entry :: "rstr \<Rightarrow> rstr \<Rightarrow> (rstr \<times> json) list \<times> (rstr \<times> rstr) list \<Rightarrow> rstr \<times> json \<Rightarrow>
    (rstr \<times> json) list \<times> (rstr \<times> rstr) list" where
  "merge_entry namespace command = (\<lambda>(target, sources) (key, value).
     if merge_key (nul_join [namespace, key]) sources command
     then (bt_insert key value target, bt_insert (nul_join [namespace, key]) command sources)
     else (target, sources))"

definition stable_merge_object :: "rstr \<Rightarrow> rstr \<Rightarrow> (rstr \<times> json) list \<Rightarrow> (rstr \<times> json) list \<times> (rstr \<times> rstr) list \<Rightarrow>
    (rstr \<times> json) list \<times> (rstr \<times> rstr) list" where
  "stable_merge_object namespace command incoming st = foldl (merge_entry namespace command) st incoming"

definition object_or_empty :: "json option \<Rightarrow> (rstr \<times> json) list" where
  "object_or_empty v = (case Option.bind v as_object of None \<Rightarrow> [] | Some m \<Rightarrow> m)"

definition merge_namespace :: "string \<Rightarrow> rstr \<Rightarrow> json \<Rightarrow> (rstr \<times> json) list \<times> (rstr \<times> rstr) list \<Rightarrow>
    (rstr \<times> json) list \<times> (rstr \<times> rstr) list" where
  "merge_namespace namespace command output = (\<lambda>(target, sources).
     case Option.bind (json_get output (lit namespace)) as_object of
       None \<Rightarrow> (target, sources)
     | Some incoming \<Rightarrow>
         (let (destination, sources) =
            stable_merge_object (lit namespace) command incoming (object_or_empty (map_of target (lit namespace)), sources)
          in (bt_insert (lit namespace) (JObject destination) target, sources)))"

definition merge_run_context :: "json \<Rightarrow> rstr \<Rightarrow> json \<times> (rstr \<times> rstr) list \<Rightarrow> json \<times> (rstr \<times> rstr) list" where
  "merge_run_context output command = (\<lambda>(input, sources).
     case as_object output of
       None \<Rightarrow> (input, sources)
     | Some _ \<Rightarrow>
         (let (target, sources) = merge_namespace ''context'' command output
                (merge_namespace ''worksets'' command output (object_or_empty (Some input), sources))
          in (JObject target, sources)))"

section \<open>Emitting commands\<close>

definition bump_attempt_lineage :: "compiled_workflow \<Rightarrow> rstr \<Rightarrow> u64 \<Rightarrow> rstr option \<Rightarrow> rstr option \<Rightarrow> machine \<Rightarrow> failure + machine" where
  "bump_attempt_lineage w st v slot item m =
     (let key = lineage_key st v slot item;
          used = get_or 0 (snap_lineage (m_snapshot m)) key
      in require (saturating_inc used \<le> max_attempts w) ''strategy_attempt_budget_exhausted''
           (Inr (on_snapshot (\<lambda>s. s\<lparr>snap_lineage := bt_insert key (used + 1) (snap_lineage s)\<rparr>) m)))"

definition command_identity :: "digest_env \<Rightarrow> rstr \<Rightarrow> rstr \<Rightarrow> u64 \<Rightarrow> rstr option \<Rightarrow> u8 \<Rightarrow> rstr" where
  "command_identity env run s v item ordinal =
     lit ''command:'' @ sha256_hex env (nul_join [run, s, dec (unat v), (case item of None \<Rightarrow> [] | Some i \<Rightarrow> i),
       dec (unat ordinal), dec 1])"

definition attempt_token :: "digest_env \<Rightarrow> rstr \<Rightarrow> nat \<Rightarrow> rstr" where
  "attempt_token env command n = lit ''attempt:'' @ sha256_hex env (nul_join [command, dec n])"

definition insert_command :: "run_command \<Rightarrow> machine \<Rightarrow> failure + machine" where
  "insert_command c m =
     require (map_of (commands m) (cmd_id c) = None) ''strategy_command_identity_conflict''
       (Inr ((put_command (cmd_id c) c m)\<lparr>m_emitted := m_emitted m @ [c]\<rparr>))"

text \<open>The command of a state in its current visit, for the slot with the given ordinal.\<close>

definition new_command :: "digest_env \<Rightarrow> compiled_workflow \<Rightarrow> run_snapshot \<Rightarrow> graph_state \<Rightarrow> u64 \<Rightarrow> command_kind \<Rightarrow>
    rstr option \<Rightarrow> u8 \<Rightarrow> rstr option \<Rightarrow> json \<Rightarrow> run_command" where
  "new_command env w s st v kind item ordinal resume input =
     (let i = command_identity env (snap_run_id s) (gs_id st) v item ordinal
      in \<lparr>cmd_id = i, cmd_state_id = gs_id st, cmd_state_visit = v, cmd_kind = kind, cmd_status = CmdPending,
        cmd_attempt = 1, cmd_attempt_token = attempt_token env i 1, cmd_binding_id = gs_binding st,
        cmd_runtime_id = gs_runtime st, cmd_entry = gs_entry st, cmd_item_id = item,
        cmd_session_policy = (case Option.bind (gs_binding st) (find_slot w) of
            None \<Rightarrow> SessionNew | Some slot \<Rightarrow> slot_session_policy slot),
        cmd_binding_ordinal = ordinal, cmd_resume_session_id = resume,
        cmd_input_digest = sha256_hex env (env_json_text env input), cmd_input = input, cmd_output_digest = None,
        cmd_failure_class = None, cmd_failure_code = None\<rparr>)"

definition emit_command :: "digest_env \<Rightarrow> compiled_workflow \<Rightarrow> rstr \<Rightarrow> command_kind \<Rightarrow> rstr option \<Rightarrow> json \<Rightarrow> machine \<Rightarrow> failure + machine" where
  "emit_command env w s kind item input m =
     and_then (ok_or Panic (cw_state w s)) (\<lambda>st.
     and_then (ok_or Panic (map_of (snap_visits (m_snapshot m)) s)) (\<lambda>v.
     (let ordinal = (case gs_binding st of None \<Rightarrow> 0
            | Some slot \<Rightarrow> get_or 0 (snap_slot_ordinals (m_snapshot m)) (ordinal_key s v slot item));
          resume = Option.bind (gs_binding st) (\<lambda>b.
            map_of (snap_actor_sessions (m_snapshot m)) (binding_session_key b ordinal))
      in and_then (bump_attempt_lineage w s v (gs_binding st) item m) (\<lambda>m.
         insert_command (new_command env w (m_snapshot m) st v kind item ordinal resume input) m))))"

definition emit_fallback_command :: "digest_env \<Rightarrow> compiled_workflow \<Rightarrow> rstr \<Rightarrow> command_kind \<Rightarrow> rstr option \<Rightarrow> u8 \<Rightarrow> json \<Rightarrow>
    machine \<Rightarrow> failure + machine" where
  "emit_fallback_command env w s kind item ordinal input m =
     and_then (ok_or Panic (cw_state w s)) (\<lambda>st.
     and_then (ok_or Panic (map_of (snap_visits (m_snapshot m)) s)) (\<lambda>v.
     insert_command (new_command env w (m_snapshot m) st v kind item ordinal None input) m))"

section \<open>Worksets\<close>

definition short_text :: "json option \<Rightarrow> rstr option" where
  "short_text v = Option.bind (Option.bind v as_str) (\<lambda>s. if s \<noteq> [] \<and> str_len s \<le> 96 then Some s else None)"

fun collect_predecessors :: "json list \<Rightarrow> failure + rstr set" where
  "collect_predecessors [] = Inr {}"
| "collect_predecessors (v # vs) =
     and_then (ok_or (Code (lit ''strategy_workset_predecessor_invalid'')) (short_text (Some v))) (\<lambda>p.
     and_then (collect_predecessors vs) (\<lambda>ps. Inr (insert p ps)))"

definition item_predecessors :: "workset_template \<Rightarrow> json \<Rightarrow> failure + rstr set" where
  "item_predecessors template item =
     (if ws_predecessor_field template = [] then Inr {}
      else (case json_get item (ws_predecessor_field template) of
          None \<Rightarrow> Inr {}
        | Some JNull \<Rightarrow> Inr {}
        | Some (JArray vs) \<Rightarrow> collect_predecessors vs
        | Some _ \<Rightarrow> fail ''strategy_workset_predecessor_invalid''))"

type_synonym work_item = "rstr \<times> rstr set \<times> json"

fun normalize_item :: "workset_template \<Rightarrow> work_item list \<Rightarrow> json \<Rightarrow> failure + work_item list" where
  "normalize_item template items item =
     and_then (ok_or (Code (lit ''strategy_workset_item_id_invalid'')) (short_text (json_get item (ws_item_binding template)))) (\<lambda>i.
     require (i \<notin> fst ` set items) ''strategy_workset_item_duplicate''
     (and_then (item_predecessors template item) (\<lambda>ps.
      require (i \<notin> ps) ''strategy_workset_predecessor_invalid'' (Inr (items @ [(i, ps, item)])))))"

definition ready_items :: "work_item list \<Rightarrow> rstr set \<Rightarrow> rstr list" where
  "ready_items items taken = map fst (filter (\<lambda>(i, ps, _). i \<notin> taken \<and> ps \<subseteq> taken) items)"

text \<open>The loop that takes items whose predecessors are all taken, until none is ready.\<close>

function topological :: "work_item list \<Rightarrow> rstr set \<Rightarrow> rstr set" where
  "topological items taken =
     (let ready = ready_items items taken
      in if ready = [] then taken else topological items (taken \<union> set ready))"
  by auto

termination
proof (relation "measure (\<lambda>(items, taken). card (fst ` set items - taken))")
  fix items :: "work_item list" and ready and taken :: "rstr set"
  assume ready: "ready = ready_items items taken" "ready \<noteq> []"
  then obtain i where i: "i \<in> set ready" by (metis list.set_intros(1) neq_Nil_conv)
  then have "i \<in> fst ` set items" "i \<notin> taken" using ready(1) by (force simp: ready_items_def)+
  then have "fst ` set items - (taken \<union> set ready) \<subset> fst ` set items - taken" using i by auto
  then show "((items, taken \<union> set ready), items, taken) \<in> measure (\<lambda>(items, taken). card (fst ` set items - taken))"
    by (auto intro: psubset_card_mono)
qed simp

declare topological.simps [simp del]

definition workset_items :: "compiled_workflow \<Rightarrow> rstr \<Rightarrow> json \<Rightarrow> failure + json list" where
  "workset_items w workset input =
     (let items = (case Option.bind (Option.bind (json_get input (lit ''worksets'')) (\<lambda>v. json_get v workset)) as_array of
          None \<Rightarrow> [] | Some xs \<Rightarrow> xs)
      in require (length items \<le> unat (lim_max_workset_items (def_limits (cw_definition w))) \<and> length items \<le> MAX_WORKSET_ITEMS)
           ''strategy_workset_limit'' (Inr items))"

definition normalize_workset :: "workset_template \<Rightarrow> json list \<Rightarrow> failure + work_item list" where
  "normalize_workset template items =
     and_then (run_all (normalize_item template) [] items) (\<lambda>normalized.
     require (list_all (\<lambda>(_, ps, _). ps \<subseteq> fst ` set normalized) normalized) ''strategy_workset_predecessor_unknown''
     (require (card (topological normalized {}) = length normalized) ''strategy_workset_cycle'' (Inr normalized)))"

definition visit_commands :: "run_snapshot \<Rightarrow> rstr \<Rightarrow> u64 \<Rightarrow> run_command list" where
  "visit_commands s st v = filter (\<lambda>c. cmd_state_id c = st \<and> cmd_state_visit c = v) (map snd (snap_commands s))"

definition item_ids :: "run_command list \<Rightarrow> rstr set" where
  "item_ids cs = set (List.map_filter cmd_item_id cs)"

text \<open>
  The index \<open>state_visits[state_id]\<close> is read inside the filter over the commands, so only when
  a command of the state exists.
\<close>

definition indexed_visit :: "run_snapshot \<Rightarrow> rstr \<Rightarrow> failure + u64" where
  "indexed_visit s st =
     (if list_ex (\<lambda>(_, c). cmd_state_id c = st) (snap_commands s)
      then ok_or Panic (map_of (snap_visits s) st) else Inr (get_or 0 (snap_visits s) st))"

definition emit_item :: "digest_env \<Rightarrow> compiled_workflow \<Rightarrow> rstr \<Rightarrow> machine \<Rightarrow> work_item \<Rightarrow> failure + machine" where
  "emit_item env w s m = (\<lambda>(i, _, item).
     and_then (effect_input_for env w s item) (\<lambda>input.
     emit_command env w s WorksetItemCommand (Some i) input m))"

text \<open>\<open>True\<close>: nothing is left to do.\<close>

definition schedule_workset :: "digest_env \<Rightarrow> compiled_workflow \<Rightarrow> rstr \<Rightarrow> machine \<Rightarrow> failure + bool \<times> machine" where
  "schedule_workset env w s m =
     and_then (ok_or Panic (cw_state w s)) (\<lambda>st.
     and_then (ok_or Panic (gs_workset st)) (\<lambda>workset.
     and_then (workset_items w workset (snap_input (m_snapshot m))) (\<lambda>items.
     if items = [] then Inr (True, m)
     else and_then (ok_or Panic (find (\<lambda>t. ws_id t = workset) (def_worksets (cw_definition w)))) (\<lambda>template.
       and_then (normalize_workset template items) (\<lambda>normalized.
       and_then (indexed_visit (m_snapshot m) s) (\<lambda>v.
       (let succeeded = item_ids (filter (\<lambda>c. cmd_status c = CmdSucceeded) (visit_commands (m_snapshot m) s v));
            issued = item_ids (visit_commands (m_snapshot m) s v)
        in if card succeeded = length normalized then Inr (True, m)
           else and_then (run_all (emit_item env w s) m
               (filter (\<lambda>(i, ps, _). i \<notin> issued \<and> ps \<subseteq> succeeded) normalized)) (\<lambda>m. Inr (False, m)))))))))"

section \<open>Entering states\<close>

definition join_gate :: "compiled_workflow \<Rightarrow> graph_state \<Rightarrow> rstr option \<Rightarrow> machine \<Rightarrow> bool \<times> machine" where
  "join_gate w st predecessor m =
     (if gs_kind st \<noteq> KJoin then (True, m)
      else
        (let m = (case predecessor of None \<Rightarrow> m
               | Some p \<Rightarrow> on_snapshot (\<lambda>s. s\<lparr>snap_join_arrivals := bt_update {} (gs_id st) (insert p) (snap_join_arrivals s)\<rparr>) m)
         in if map_of (snap_join_arrivals (m_snapshot m)) (gs_id st) \<noteq> Some (predecessors w (gs_id st))
            then (False, set_status WaitingRun m)
            else (True, on_snapshot (\<lambda>s. s\<lparr>snap_join_arrivals := bt_remove (gs_id st) (snap_join_arrivals s)\<rparr>) m)))"

definition activate :: "rstr \<Rightarrow> machine \<Rightarrow> machine" where
  "activate i = on_snapshot (\<lambda>s. s\<lparr>snap_completed := snap_completed s - {i}, snap_active := insert i (snap_active s),
     snap_visits := bt_update 0 i (\<lambda>v. v + 1) (snap_visits s), snap_status := Running, snap_diagnostic := None\<rparr>)"

definition leave :: "rstr \<Rightarrow> machine \<Rightarrow> machine" where
  "leave i = on_snapshot (\<lambda>s. s\<lparr>snap_active := snap_active s - {i}, snap_completed := insert i (snap_completed s)\<rparr>)"

definition push_automatic :: "rstr \<Rightarrow> transition_event \<Rightarrow> machine \<Rightarrow> machine" where
  "push_automatic i e m = m\<lparr>m_automatic := m_automatic m @ [(i, e, snap_input (m_snapshot m))]\<rparr>"

definition complete_fork :: "compiled_workflow \<Rightarrow> (rstr \<Rightarrow> rstr option \<Rightarrow> machine \<Rightarrow> failure + machine) \<Rightarrow> rstr \<Rightarrow>
    machine \<Rightarrow> failure + machine" where
  "complete_fork w enter_state s m =
     (let targets = map tr_to (cw_transitions w s Complete)
      in require (length targets \<ge> 2) ''strategy_fork_invalid''
           (run_all (\<lambda>m t. enter_state t (Some s) m) (leave s m) targets))"

definition enter_kind :: "digest_env \<Rightarrow> compiled_workflow \<Rightarrow> (rstr \<Rightarrow> rstr option \<Rightarrow> machine \<Rightarrow> failure + machine) \<Rightarrow>
    graph_state \<Rightarrow> machine \<Rightarrow> failure + machine" where
  "enter_kind env w enter_state st m =
     (case gs_kind st of
        KPass \<Rightarrow> Inr (push_automatic (gs_id st) Complete m)
      | KChoice \<Rightarrow> Inr (push_automatic (gs_id st) Complete m)
      | KJoin \<Rightarrow> Inr (push_automatic (gs_id st) Complete m)
      | KFork \<Rightarrow> complete_fork w enter_state (gs_id st) m
      | KAuthorization \<Rightarrow>
          and_then (emit_command env w (gs_id st) AuthorizationCommand None JNull m) (\<lambda>m.
          Inr (set_status AuthorizationRequired m))
      | KActor \<Rightarrow>
          and_then (effect_input_for env w (gs_id st) (snap_input (m_snapshot m))) (\<lambda>input.
          emit_command env w (gs_id st) ActorCommand None input m)
      | KScript \<Rightarrow> emit_command env w (gs_id st) ScriptCommand None (snap_input (m_snapshot m)) m
      | KWorkset \<Rightarrow>
          and_then (schedule_workset env w (gs_id st) m) (\<lambda>(satisfied, m).
          Inr (if satisfied then push_automatic (gs_id st) Success m else m))
      | KSucceed \<Rightarrow> Inr (set_status Completed (leave (gs_id st) m))
      | KFail \<Rightarrow> Inr (set_status FailedRun (on_snapshot (\<lambda>s. s\<lparr>snap_active := snap_active s - {gs_id st}\<rparr>) m))
      | KBlocked \<Rightarrow> Inr (set_status BlockedRun (on_snapshot (\<lambda>s. s\<lparr>snap_active := snap_active s - {gs_id st}\<rparr>) m)))"

primrec enter_within :: "nat \<Rightarrow> digest_env \<Rightarrow> compiled_workflow \<Rightarrow> rstr \<Rightarrow> rstr option \<Rightarrow> machine \<Rightarrow> failure + machine" where
  "enter_within 0 env w s predecessor m = Inl Panic"
| "enter_within (Suc n) env w s predecessor m =
     and_then (ok_or (Code (lit ''strategy_state_unknown'')) (cw_state w s)) (\<lambda>st.
     (case join_gate w st predecessor m of
        (False, m) \<Rightarrow> Inr m
      | (True, m) \<Rightarrow> enter_kind env w (enter_within n env w) st (activate (gs_id st) m)))"

definition enter_fuel :: nat where
  "enter_fuel = 2"

definition enter :: "digest_env \<Rightarrow> compiled_workflow \<Rightarrow> rstr \<Rightarrow> rstr option \<Rightarrow> machine \<Rightarrow> failure + machine" where
  "enter = enter_within enter_fuel"

definition park_callback :: "rstr \<Rightarrow> transition_event \<Rightarrow> transition \<Rightarrow> machine \<Rightarrow> machine" where
  "park_callback s e t m =
     set_status WaitingRun (on_snapshot (\<lambda>sn. sn\<lparr>snap_callbacks := snap_callbacks sn @
       [\<lparr>cb_state_id = s, cb_state_visit = get_or 0 (snap_visits sn) s, cb_transition_id = tr_id t, cb_event = e,
         cb_target = tr_to t\<rparr>]\<rparr>) m)"

definition complete_state :: "digest_env \<Rightarrow> compiled_workflow \<Rightarrow> rstr \<Rightarrow> transition_event \<Rightarrow> json \<Rightarrow> machine \<Rightarrow> failure + machine" where
  "complete_state env w s e payload m =
     (let m = leave s m
      in and_then (select_transition w s e payload) (\<lambda>selected.
         and_then (ok_or (Code (lit ''strategy_transition_missing'')) selected) (\<lambda>t.
         if tr_mode t = Callback then Inr (park_callback s (tr_event t) t m)
         else enter env w (tr_to t) (Some s) m)))"

text \<open>The loop over the automatic completions, with the limit of the source.\<close>

primrec drain_within :: "nat \<Rightarrow> digest_env \<Rightarrow> compiled_workflow \<Rightarrow> machine \<Rightarrow> failure + machine" where
  "drain_within 0 env w m = require (m_automatic m = []) ''strategy_automatic_transition_limit'' (Inr m)"
| "drain_within (Suc n) env w m =
     (case m_automatic m of
        [] \<Rightarrow> Inr m
      | (s, e, payload) # rest \<Rightarrow>
          and_then (complete_state env w s e payload (m\<lparr>m_automatic := rest\<rparr>)) (drain_within n env w))"

definition drain_automatic :: "digest_env \<Rightarrow> compiled_workflow \<Rightarrow> machine \<Rightarrow> failure + machine" where
  "drain_automatic env w m = drain_within (max (length (def_states (cw_definition w)) * 4) 16) env w m"

section \<open>Callbacks and cancellation\<close>

definition run_settled :: "run_status \<Rightarrow> bool" where
  "run_settled st \<longleftrightarrow> st \<in> {Completed, CancelledRun, FailedRun, BlockedRun, CancelInDoubt}"

definition cancel_command :: "run_command \<Rightarrow> run_command" where
  "cancel_command c =
     (if cmd_status c \<in> {CmdPending, CmdClaimed, CmdRetryable} then c\<lparr>cmd_status := CmdCancelled\<rparr>
      else if cmd_status c \<in> {CmdRunning, CmdCancelRequested} then c\<lparr>cmd_status := CmdCancelRequested\<rparr>
      else c)"

definition cancel :: "machine \<Rightarrow> machine" where
  "cancel m =
     (if snap_status (m_snapshot m) \<in> {Completed, CancelledRun, FailedRun} then m\<lparr>m_applied := False\<rparr>
      else
        (let in_flight = list_ex (\<lambda>(_, c). cmd_status c \<in> {CmdRunning, CmdCancelRequested}) (commands m)
         in set_status (if in_flight then CancelRequestedRun else CancelledRun)
              (map_commands cancel_command (on_snapshot (\<lambda>s. s\<lparr>snap_callbacks := []\<rparr>) m))))"

definition apply_callback_decision :: "digest_env \<Rightarrow> compiled_workflow \<Rightarrow> rstr \<Rightarrow> u64 \<Rightarrow> callback_decision \<Rightarrow>
    machine \<Rightarrow> failure + machine" where
  "apply_callback_decision env w s v decision m =
     (case snap_callbacks (m_snapshot m) of
        [] \<Rightarrow> fail ''strategy_callback_stale''
      | pending # rest \<Rightarrow>
          require (cb_state_id pending = s \<and> cb_state_visit pending = v) ''strategy_callback_stale''
          (let m = on_snapshot (\<lambda>sn. sn\<lparr>snap_callbacks := rest\<rparr>) m
           in case decision of
                Advance \<Rightarrow> enter env w (cb_target pending) (Some (cb_state_id pending)) (set_status Running m)
              | Return \<Rightarrow> enter env w (cb_state_id pending) None (set_status Running m)
              | Terminate \<Rightarrow> Inr (cancel m)))"

definition transition_command :: "rstr \<Rightarrow> rstr \<Rightarrow> command_status \<Rightarrow> command_status \<Rightarrow> machine \<Rightarrow> failure + machine" where
  "transition_command i token expected nxt m =
     and_then (ok_or (Code (lit ''strategy_callback_stale'')) (map_of (commands m) i)) (\<lambda>c.
     require (cmd_attempt_token c = token) ''strategy_callback_stale''
     (require (cmd_status c = expected) ''strategy_callback_conflict''
        (Inr (put_command i (c\<lparr>cmd_status := nxt\<rparr>) m))))"

definition start_command :: "rstr \<Rightarrow> rstr \<Rightarrow> machine \<Rightarrow> failure + machine" where
  "start_command i token m =
     and_then (ok_or (Code (lit ''strategy_callback_stale'')) (map_of (commands m) i)) (\<lambda>c.
     require (cmd_status c \<in> {CmdPending, CmdClaimed}) ''strategy_callback_conflict''
       (transition_command i token (cmd_status c) CmdRunning m))"

definition cancel_acknowledged :: "rstr \<Rightarrow> rstr \<Rightarrow> machine \<Rightarrow> failure + machine" where
  "cancel_acknowledged i token m =
     and_then (transition_command i token CmdCancelRequested CmdCancelled m) (\<lambda>m.
     Inr (if list_all (\<lambda>(_, c). cmd_status c \<notin> {CmdRunning, CmdCancelRequested}) (commands m)
          then set_status CancelledRun m else m))"

definition cancel_unknown :: "rstr \<Rightarrow> rstr \<Rightarrow> machine \<Rightarrow> failure + machine" where
  "cancel_unknown i token m =
     and_then (transition_command i token CmdCancelRequested CmdInDoubt m) (\<lambda>m.
     Inr (set_diagnostic (Some (lit ''cancellation_outcome_unknown'')) (set_status CancelInDoubt m)))"

definition cancel_unstarted :: "machine \<Rightarrow> machine" where
  "cancel_unstarted = map_commands (\<lambda>c.
     if cmd_status c \<in> {CmdPending, CmdRetryable, CmdCancelRequested} then c\<lparr>cmd_status := CmdCancelled\<rparr> else c)"

section \<open>Worksets with failures\<close>

fun min_by_key :: "('a \<Rightarrow> 'k::linorder) \<Rightarrow> 'a list \<Rightarrow> 'a option" where
  "min_by_key f [] = None"
| "min_by_key f (x # xs) =
     (case min_by_key f xs of None \<Rightarrow> Some x | Some y \<Rightarrow> if f x \<le> f y then Some x else Some y)"

definition failure_pending :: "compiled_workflow \<Rightarrow> run_snapshot \<Rightarrow> run_command \<Rightarrow> bool" where
  "failure_pending w s c \<longleftrightarrow> cmd_status c = CmdFailed \<and> fallback_reason_base w s c = None"

definition failure_admissible :: "compiled_workflow \<Rightarrow> run_snapshot \<Rightarrow> run_command \<Rightarrow> bool" where
  "failure_admissible w s c \<longleftrightarrow> cmd_status c = CmdFailed \<and> fallback_reason_base w s c \<noteq> None"

definition workset_failure_pending :: "compiled_workflow \<Rightarrow> rstr \<Rightarrow> machine \<Rightarrow> bool" where
  "workset_failure_pending w st m =
     (let s = m_snapshot m
      in list_ex (failure_pending w s) (visit_commands s st (get_or 0 (snap_visits s) st)))"

definition visit_unsettled :: "compiled_workflow \<Rightarrow> rstr \<Rightarrow> u64 \<Rightarrow> machine \<Rightarrow> bool" where
  "visit_unsettled w st v m =
     list_ex (\<lambda>c. unsettled_status (cmd_status c) \<or> failure_admissible w (m_snapshot m) c) (visit_commands (m_snapshot m) st v)"

definition refresh_workset_status :: "rstr \<Rightarrow> machine \<Rightarrow> machine" where
  "refresh_workset_status st m =
     (let s = m_snapshot m;
          cs = visit_commands s st (get_or 0 (snap_visits s) st);
          status =
            (if list_ex (\<lambda>c. cmd_status c = CmdInDoubt) cs then CancelInDoubt
             else if list_ex (\<lambda>c. cmd_status c = CmdRetryable \<and> cmd_failure_class c = Some Authority) cs
             then AuthorizationRequired
             else if list_ex (\<lambda>c. cmd_status c = CmdRetryable \<and> cmd_failure_class c \<in> {Some Runtime, Some Sandbox}) cs
             then RuntimeMissing
             else if list_ex (\<lambda>c. cmd_status c = CmdRetryable) cs then RetryableRun
             else Running);
          code = Option.bind (min_by_key cmd_id
            (filter (\<lambda>c. cmd_status c \<in> {CmdFailed, CmdRetryable, CmdInDoubt}) cs)) cmd_failure_code
      in set_diagnostic code (set_status status m))"

definition cancel_of_visit :: "compiled_workflow \<Rightarrow> rstr \<Rightarrow> u64 \<Rightarrow> machine \<Rightarrow> machine" where
  "cancel_of_visit w st v m =
     (let ids = set (map cmd_id (filter (\<lambda>c. cmd_status c \<in> {CmdPending, CmdClaimed, CmdRetryable}
            \<or> failure_admissible w (m_snapshot m) c) (visit_commands (m_snapshot m) st v)))
      in map_commands (\<lambda>c. if cmd_state_id c = st \<and> cmd_state_visit c = v \<and> cmd_id c \<in> ids
           then c\<lparr>cmd_status := CmdCancelled\<rparr> else c) m)"

definition deactivate :: "rstr \<Rightarrow> machine \<Rightarrow> machine" where
  "deactivate st = on_snapshot (\<lambda>s. s\<lparr>snap_active := snap_active s - {st}\<rparr>)"

definition item_or_id :: "run_command \<Rightarrow> rstr" where
  "item_or_id c = (case cmd_item_id c of None \<Rightarrow> cmd_id c | Some i \<Rightarrow> i)"

definition take_failure :: "digest_env \<Rightarrow> compiled_workflow \<Rightarrow> rstr \<Rightarrow> transition \<Rightarrow> machine \<Rightarrow> failure + machine" where
  "take_failure env w st t m =
     (let m = deactivate st m
      in if tr_mode t = Callback then Inr (park_callback st Failure t m)
         else enter env w (tr_to t) (Some st) m)"

definition workset_failure_ready :: "digest_env \<Rightarrow> compiled_workflow \<Rightarrow> rstr \<Rightarrow> machine \<Rightarrow> failure + bool \<times> machine" where
  "workset_failure_ready env w st m =
     (let v = get_or 0 (snap_visits (m_snapshot m)) st;
          m = cancel_of_visit w st v m
      in if visit_unsettled w st v m then Inr (False, refresh_workset_status st m)
         else (case min_by_key (\<lambda>c. (item_or_id c, cmd_id c))
                 (filter (\<lambda>c. cmd_status c = CmdFailed) (visit_commands (m_snapshot m) st v)) of
             None \<Rightarrow> Inr (False, m)
           | Some primary \<Rightarrow>
               (let code = (case cmd_failure_code primary of None \<Rightarrow> lit ''effect_failed'' | Some c \<Rightarrow> c);
                    payload = JObject (json_map [(lit ''code'', JString code), (lit ''itemId'', JString (item_or_id primary))])
                in and_then (select_transition w st Failure payload) (\<lambda>selected.
                   and_then (ok_or (Code (lit ''strategy_transition_missing'')) selected) (\<lambda>t.
                   and_then (take_failure env w st t m) (\<lambda>m. Inr (True, m)))))))"

section \<open>Fallback and retry\<close>

definition receipt_order :: "fallback_receipt \<Rightarrow> rstr \<times> rstr \<times> rstr \<times> u8" where
  "receipt_order r = (fallback_from r, fallback_to r, fallback_receipt_reason r, fallback_attempts r)"

definition with_locator :: "json \<Rightarrow> json \<Rightarrow> json" where
  "with_locator input locator =
     (case input of
        JObject m \<Rightarrow> JObject (bt_insert (lit ''predecessorLocator'') locator m)
      | _ \<Rightarrow> JObject (json_map [(lit ''context'', input), (lit ''predecessorLocator'', locator)]))"

text \<open>What is left to do once the fallback is admitted and its attempt is counted.\<close>

definition apply_fallback :: "digest_env \<Rightarrow> compiled_workflow \<Rightarrow> rstr \<Rightarrow> run_command \<Rightarrow> rstr \<Rightarrow> u8 \<Rightarrow> json \<Rightarrow> fallback_receipt \<Rightarrow>
    machine \<Rightarrow> failure + machine" where
  "apply_fallback env w i old slot ordinal locator receipt m =
     (let m = on_snapshot (\<lambda>s. s\<lparr>snap_slot_ordinals := bt_insert
                  (ordinal_key (cmd_state_id old) (cmd_state_visit old) slot (cmd_item_id old)) ordinal (snap_slot_ordinals s),
                snap_fallbacks := sort_key receipt_order (snap_fallbacks s @ [receipt])\<rparr>) m;
          m = put_command i (old\<lparr>cmd_status := CmdCancelled\<rparr>) m
      in and_then (emit_fallback_command env w (cmd_state_id old) (cmd_kind old) (cmd_item_id old) ordinal
            (with_locator (cmd_input old) locator) m) (\<lambda>m.
         Inr (if cmd_kind old = WorksetItemCommand then refresh_workset_status (cmd_state_id old) m
              else set_diagnostic None (set_status Running m))))"

definition issue_fallback :: "digest_env \<Rightarrow> compiled_workflow \<Rightarrow> rstr \<Rightarrow> u8 \<Rightarrow> json \<Rightarrow> rstr \<Rightarrow> rstr \<Rightarrow> rstr \<Rightarrow> u8 \<Rightarrow>
    machine \<Rightarrow> failure + machine" where
  "issue_fallback env w i ordinal locator from_value to_value reason attempts m =
     and_then (ok_or (Code (lit ''strategy_callback_stale'')) (map_of (commands m) i)) (\<lambda>old.
     require (cmd_status old = CmdFailed) ''strategy_callback_conflict''
     (require (lineage_within_budget (m_snapshot m) (cmd_state_id old) (cmd_state_visit old) (cmd_binding_id old)
        (cmd_item_id old) (max_attempts w)) ''strategy_attempt_budget_exhausted''
     (and_then (ok_or (Code (lit ''strategy_fallback_not_admissible'')) (fallback_reason w (m_snapshot m) old)) (\<lambda>expected.
      require (reason = expected) ''strategy_fallback_reason_invalid''
      (and_then (ok_or (Code (lit ''binding_incomplete'')) (cmd_binding_id old)) (\<lambda>slot.
       require (ordinal = saturating_inc (cmd_binding_ordinal old)) ''strategy_fallback_ordinal_invalid''
       (require (attempts = cmd_attempt old) ''strategy_fallback_attempts_invalid''
       (require (ordinal < get_or 1 (snap_slot_candidates (m_snapshot m)) slot) ''strategy_fallback_exhausted''
       (and_then (bump_attempt_lineage w (cmd_state_id old) (cmd_state_visit old) (cmd_binding_id old) (cmd_item_id old) m)
         (apply_fallback env w i old slot ordinal locator \<lparr>fallback_from = from_value, fallback_to = to_value,
            fallback_receipt_reason = reason, fallback_attempts = attempts\<rparr>))))))))))"

definition retry_command :: "digest_env \<Rightarrow> run_command \<Rightarrow> run_command" where
  "retry_command env old =
     (let attempt = cmd_attempt old + 1;
          i = lit ''command:'' @ sha256_hex env (nul_join [cmd_id old, dec (unat attempt)])
      in old\<lparr>cmd_id := i, cmd_status := CmdPending, cmd_attempt := attempt,
             cmd_attempt_token := attempt_token env i (unat attempt), cmd_output_digest := None,
             cmd_failure_class := None, cmd_failure_code := None\<rparr>)"

definition apply_retry :: "rstr \<Rightarrow> run_command \<Rightarrow> run_command \<Rightarrow> machine \<Rightarrow> machine" where
  "apply_retry i old c m =
     (let m = put_command (cmd_id c) c (put_command i (old\<lparr>cmd_status := CmdCancelled\<rparr>) m);
          m = (if cmd_kind old = WorksetItemCommand then refresh_workset_status (cmd_state_id old) m
               else set_diagnostic None (set_status Running m))
      in m\<lparr>m_emitted := m_emitted m @ [c]\<rparr>)"

definition retry :: "digest_env \<Rightarrow> compiled_workflow \<Rightarrow> rstr \<Rightarrow> machine \<Rightarrow> failure + machine" where
  "retry env w i m =
     and_then (ok_or (Code (lit ''strategy_callback_stale'')) (map_of (commands m) i)) (\<lambda>old.
     require (cmd_status old = CmdRetryable) ''strategy_run_not_retryable''
     (require (lineage_within_budget (m_snapshot m) (cmd_state_id old) (cmd_state_visit old) (cmd_binding_id old)
        (cmd_item_id old) (max_attempts w)) ''strategy_attempt_budget_exhausted''
     (and_then (ok_or (Code (lit ''strategy_run_not_retryable'')) (cmd_failure_class old)) (\<lambda>cls.
      and_then (ok_or (Code (lit ''strategy_run_not_retryable'')) (cmd_failure_code old)) (\<lambda>code.
      require (retry_policy_allows w old cls code) ''strategy_run_not_retryable''
      (let c = retry_command env old
       in require (map_of (commands m) (cmd_id c) = None) ''strategy_command_identity_conflict''
          (and_then (bump_attempt_lineage w (cmd_state_id old) (cmd_state_visit old) (cmd_binding_id old) (cmd_item_id old) m)
            (\<lambda>m. Inr (apply_retry i old c m)))))))))"

section \<open>Settling commands\<close>

definition token_matches :: "rstr option \<Rightarrow> run_command \<Rightarrow> bool" where
  "token_matches token c \<longleftrightarrow> (case token of None \<Rightarrow> True | Some t \<Rightarrow> cmd_attempt_token c = t)"

definition open_status :: "command_status \<Rightarrow> bool" where
  "open_status st \<longleftrightarrow> st \<in> {CmdPending, CmdClaimed, CmdRunning}"

definition session_of_output :: "json \<Rightarrow> rstr option" where
  "session_of_output output =
     Option.bind (Option.bind (case json_get output (lit ''nativeSessionId'') of
          None \<Rightarrow> json_get output (lit ''sessionId'') | Some v \<Rightarrow> Some v) as_str)
       (\<lambda>s. if s \<noteq> [] \<and> str_len s \<le> 160 \<and> \<not> list_ex is_control s then Some s else None)"

definition merge_session :: "run_command \<Rightarrow> rstr \<Rightarrow> json \<Rightarrow> run_snapshot \<Rightarrow> run_snapshot" where
  "merge_session c i output s =
     (case (cmd_binding_id c, session_of_output output) of
        (Some binding, Some session) \<Rightarrow>
          (let key = binding_session_key binding (cmd_binding_ordinal c);
               source = nul_join [lit ''session'', key]
           in if cmd_session_policy c \<noteq> SessionNew \<and> merge_key source (snap_merge_sources s) i
              then s\<lparr>snap_actor_sessions := bt_insert key session (snap_actor_sessions s),
                     snap_merge_sources := bt_insert source i (snap_merge_sources s)\<rparr>
              else s)
      | _ \<Rightarrow> s)"

definition merge_output :: "run_command \<Rightarrow> rstr \<Rightarrow> json \<Rightarrow> run_snapshot \<Rightarrow> run_snapshot" where
  "merge_output c i output s =
     (let (input, sources) = merge_run_context output i (snap_input s, snap_merge_sources s)
      in merge_session c i output (s\<lparr>snap_input := input, snap_merge_sources := sources\<rparr>))"

definition route_success :: "digest_env \<Rightarrow> compiled_workflow \<Rightarrow> rstr \<Rightarrow> json \<Rightarrow> machine \<Rightarrow> failure + machine" where
  "route_success env w s output m =
     and_then (ok_or Panic (cw_state w s)) (\<lambda>st.
     if gs_kind st = KWorkset then
       (if workset_failure_pending w s m then and_then (workset_failure_ready env w s m) (\<lambda>(_, m). Inr m)
        else and_then (schedule_workset env w s m) (\<lambda>(satisfied, m).
             if satisfied then complete_state env w s Success (snap_input (m_snapshot m)) m
             else Inr (refresh_workset_status s m)))
     else complete_state env w s Success output m)"

definition settle_success :: "digest_env \<Rightarrow> compiled_workflow \<Rightarrow> rstr \<Rightarrow> rstr option \<Rightarrow> json \<Rightarrow> machine \<Rightarrow> failure + machine" where
  "settle_success env w i token output m =
     (let digest = sha256_hex env (env_json_text env output)
      in and_then (ok_or (Code (lit ''strategy_callback_stale'')) (map_of (commands m) i)) (\<lambda>c.
         require (token_matches token c) ''strategy_callback_stale''
         (if cmd_status c = CmdSucceeded then
            require (cmd_output_digest c = Some digest) ''strategy_callback_conflict'' (Inr (m\<lparr>m_applied := False\<rparr>))
          else
            require (open_status (cmd_status c)) ''strategy_callback_conflict''
            (let m = put_command i (c\<lparr>cmd_status := CmdSucceeded, cmd_output_digest := Some digest\<rparr>) m;
                 m = on_snapshot (merge_output c i output) m
             in route_success env w (cmd_state_id c) output m))))"

definition route_failure :: "digest_env \<Rightarrow> compiled_workflow \<Rightarrow> rstr \<Rightarrow> rstr \<Rightarrow> run_status \<Rightarrow> machine \<Rightarrow> failure + machine" where
  "route_failure env w s code otherwise m =
     and_then (select_transition w s Failure (JObject [(lit ''code'', JString code)])) (\<lambda>selected.
     case selected of
       Some t \<Rightarrow> take_failure env w s t m
     | None \<Rightarrow> Inr (set_status otherwise m))"

definition retry_status :: "failure_class \<Rightarrow> run_status" where
  "retry_status cls = (case cls of Authority \<Rightarrow> AuthorizationRequired | Runtime \<Rightarrow> RuntimeMissing
     | Sandbox \<Rightarrow> RuntimeMissing | _ \<Rightarrow> RetryableRun)"

definition settle_final :: "digest_env \<Rightarrow> compiled_workflow \<Rightarrow> run_command \<Rightarrow> rstr \<Rightarrow> failure_class \<Rightarrow> rstr \<Rightarrow>
    machine \<Rightarrow> failure + machine" where
  "settle_final env w current i cls code m =
     (let s = m_snapshot m; st = cmd_state_id current; workset = (cmd_kind current = WorksetItemCommand);
          other_final = workset \<and> list_ex (failure_pending w s)
            (filter (\<lambda>c. cmd_id c \<noteq> i) (visit_commands s st (cmd_state_visit current)))
      in if \<not> other_final \<and> (case map_of (snap_commands s) i of None \<Rightarrow> False
              | Some c \<Rightarrow> fallback_reason_base w s c \<noteq> None)
         then Inr (if workset then refresh_workset_status st m else set_status Running m)
         else if cls = InDoubt
         then Inr (if workset then refresh_workset_status st m else set_status CancelInDoubt m)
         else if workset then and_then (workset_failure_ready env w st m) (\<lambda>(_, m). Inr m)
         else route_failure env w st code FailedRun m)"

definition settle_failure :: "digest_env \<Rightarrow> compiled_workflow \<Rightarrow> rstr \<Rightarrow> rstr option \<Rightarrow> failure_class \<Rightarrow> rstr \<Rightarrow>
    machine \<Rightarrow> failure + machine" where
  "settle_failure env w i token cls code m =
     and_then (validate_failure_code code) (\<lambda>_.
     and_then (ok_or (Code (lit ''strategy_callback_stale'')) (map_of (commands m) i)) (\<lambda>current.
     require (token_matches token current) ''strategy_callback_stale''
     (if cmd_status current \<in> {CmdFailed, CmdRetryable, CmdCancelled} \<and> cmd_failure_class current = Some cls
         \<and> cmd_failure_code current = Some code
      then Inr (m\<lparr>m_applied := False\<rparr>)
      else
        require (open_status (cmd_status current)) ''strategy_callback_conflict''
        (let retryable = retry_policy_allows w current cls code
               \<and> lineage_within_budget (m_snapshot m) (cmd_state_id current) (cmd_state_visit current)
                   (cmd_binding_id current) (cmd_item_id current) (max_attempts w);
             status = (if retryable then CmdRetryable else if cls = InDoubt then CmdInDoubt else CmdFailed);
             m = put_command i (current\<lparr>cmd_status := status, cmd_failure_class := Some cls, cmd_failure_code := Some code\<rparr>) m;
             m = set_diagnostic (Some code) m
         in if cmd_kind current = AuthorizationCommand then route_failure env w (cmd_state_id current) code BlockedRun m
            else if retryable then
              Inr (if cmd_kind current = WorksetItemCommand then refresh_workset_status (cmd_state_id current) m
                   else set_status (retry_status cls) m)
            else settle_final env w current i cls code m))))"

definition settle_assistant_effect_failure :: "rstr \<Rightarrow> rstr \<Rightarrow> failure_class \<Rightarrow> rstr \<Rightarrow> machine \<Rightarrow> failure + machine" where
  "settle_assistant_effect_failure i token cls code m =
     and_then (validate_failure_code code) (\<lambda>_.
     and_then (ok_or (Code (lit ''strategy_callback_stale'')) (map_of (commands m) i)) (\<lambda>current.
     require (cmd_attempt_token current = token) ''strategy_callback_stale''
     (if cmd_status current \<in> {CmdFailed, CmdInDoubt} \<and> cmd_failure_class current = Some cls
         \<and> cmd_failure_code current = Some code
      then Inr (m\<lparr>m_applied := False\<rparr>)
      else
        require (open_status (cmd_status current)) ''strategy_callback_conflict''
        (let m = put_command i (current\<lparr>cmd_status := (if cls = InDoubt then CmdInDoubt else CmdFailed),
               cmd_failure_class := Some cls, cmd_failure_code := Some code\<rparr>) m;
             m = cancel_unstarted (on_snapshot (\<lambda>s. s\<lparr>snap_callbacks := []\<rparr>) m)
         in Inr (set_diagnostic (Some code) (set_status (if cls = InDoubt then CancelInDoubt else FailedRun) m))))))"

definition settle_assistant_drive_failure :: "rstr \<Rightarrow> machine \<Rightarrow> failure + machine" where
  "settle_assistant_drive_failure code m =
     and_then (validate_failure_code code) (\<lambda>_.
     if run_settled (snap_status (m_snapshot m)) then Inr (m\<lparr>m_applied := False\<rparr>)
     else
       (let m = on_snapshot (\<lambda>s. s\<lparr>snap_callbacks := []\<rparr>) (cancel_unstarted m);
            m = map_commands (\<lambda>c. if cmd_status c \<in> {CmdClaimed, CmdRunning}
                 then c\<lparr>cmd_status := CmdInDoubt, cmd_failure_class := Some InDoubt, cmd_failure_code := Some code\<rparr> else c) m
        in Inr (set_diagnostic (Some code) (set_status CancelInDoubt m))))"

section \<open>The step\<close>

definition pending_authorization :: "run_snapshot \<Rightarrow> failure + rstr" where
  "pending_authorization s =
     ok_or (Code (lit ''strategy_authorization_not_pending''))
       (map_option (\<lambda>(_, c). cmd_id c)
         (find (\<lambda>(_, c). cmd_kind c = AuthorizationCommand \<and> cmd_status c = CmdPending) (snap_commands s)))"

definition revoke_authorization :: "machine \<Rightarrow> machine" where
  "revoke_authorization m =
     (if run_settled (snap_status (m_snapshot m)) then m\<lparr>m_applied := False\<rparr>
      else set_diagnostic (Some (lit ''authorization_revoked'')) (set_status AuthorizationRequired m))"

definition start_run :: "digest_env \<Rightarrow> compiled_workflow \<Rightarrow> run_snapshot \<Rightarrow> json \<Rightarrow> machine \<Rightarrow> failure + machine" where
  "start_run env w previous input m =
     require (snap_status previous = RunPending \<and> snap_sequence previous = 0) ''strategy_run_already_started''
     (require (str_len (env_json_text env input) \<le> 1024 * 1024) ''strategy_run_input_too_large''
       (enter env w (def_initial (cw_definition w)) None
         (on_snapshot (\<lambda>s. s\<lparr>snap_input := input, snap_status := Running\<rparr>) m)))"

definition handle_event :: "digest_env \<Rightarrow> compiled_workflow \<Rightarrow> run_snapshot \<Rightarrow> reducer_event \<Rightarrow> machine \<Rightarrow> failure + machine" where
  "handle_event env w previous ev m =
     (case ev of
        Start input \<Rightarrow> start_run env w previous input m
      | AuthorizationGranted digest \<Rightarrow>
          require (digest = snap_semantics_digest previous) ''strategy_authorization_stale''
          (and_then (pending_authorization (m_snapshot m)) (\<lambda>i.
           settle_success env w i None (JObject [(lit ''authorized'', JBool True)]) m))
      | AuthorizationDenied \<Rightarrow>
          and_then (pending_authorization (m_snapshot m)) (\<lambda>i.
          settle_failure env w i None Authority (lit ''authorization_denied'') m)
      | AuthorizationRevoked \<Rightarrow> Inr (revoke_authorization m)
      | CommandClaimed i token \<Rightarrow> transition_command i token CmdPending CmdClaimed m
      | CommandStarted i token \<Rightarrow> start_command i token m
      | CommandSucceeded i token output \<Rightarrow> settle_success env w i (Some token) output m
      | CommandFailed i token cls code \<Rightarrow> settle_failure env w i (Some token) cls code m
      | AssistantEffectFailed i token cls code \<Rightarrow> settle_assistant_effect_failure i token cls code m
      | AssistantDriveFailed code \<Rightarrow> settle_assistant_drive_failure code m
      | CallbackDecision s v decision \<Rightarrow> apply_callback_decision env w s v decision m
      | RetryRequested i \<Rightarrow> retry env w i m
      | CancelRequested \<Rightarrow> Inr (cancel m)
      | CancellationAcknowledged i token \<Rightarrow> cancel_acknowledged i token m
      | CancellationUnknown i token \<Rightarrow> cancel_unknown i token m
      | FallbackIssued i ordinal locator from_value to_value reason attempts \<Rightarrow>
          issue_fallback env w i ordinal locator from_value to_value reason attempts m)"

definition initial_machine :: "run_snapshot \<Rightarrow> machine" where
  "initial_machine previous = \<lparr>m_snapshot = previous\<lparr>snap_sequence := snap_sequence previous + 1\<rparr>, m_emitted = [],
     m_automatic = [], m_applied = True\<rparr>"

definition reduce :: "digest_env \<Rightarrow> compiled_workflow \<Rightarrow> run_snapshot \<Rightarrow> reducer_event \<Rightarrow> failure + reducer_output" where
  "reduce env w previous ev =
     require (snap_sequence previous \<noteq> - 1) ''strategy_event_sequence_overflow''
     (and_then (handle_event env w previous ev (initial_machine previous)) (\<lambda>m.
      and_then (drain_automatic env w m) (\<lambda>m.
      Inr \<lparr>out_snapshot = (if m_applied m then m_snapshot m
             else (m_snapshot m)\<lparr>snap_sequence := snap_sequence previous\<rparr>),
           out_emitted = m_emitted m, out_applied = m_applied m\<rparr>)))"

end
