(* ===== verification/Flywheel_Progress.thy ===== *)
theory Flywheel_Progress
  imports Flywheel_Reducer
begin

text \<open>
  What a step of the reducer can do to the commands of a run, as an abstract relation: existing
  commands evolve along the table of their statuses and keep their identity, and each new
  command uses up one unit of the attempt budget. Every operation of the machine is shown to
  be such a \<open>progress\<close>; the properties of runs then follow by rule induction.
\<close>

section \<open>The abstract relation\<close>

definition final_status :: "command_status \<Rightarrow> bool" where
  "final_status st \<longleftrightarrow> st \<in> {CmdSucceeded, CmdCancelled, CmdInDoubt}"

text \<open>The statuses a command can reach from a status, over any number of steps.\<close>

fun later_status :: "command_status \<Rightarrow> command_status set" where
  "later_status CmdPending = UNIV - {CmdPending}"
| "later_status CmdClaimed = UNIV - {CmdPending, CmdClaimed}"
| "later_status CmdRunning = UNIV - {CmdPending, CmdClaimed, CmdRunning}"
| "later_status CmdRetryable = {CmdCancelled}"
| "later_status CmdFailed = {CmdCancelled}"
| "later_status CmdCancelRequested = {CmdCancelled, CmdInDoubt}"
| "later_status _ = {}"

lemma later_status_trans: "b \<in> later_status a \<Longrightarrow> c \<in> later_status b \<Longrightarrow> c \<in> later_status a"
  by (cases a; cases b; cases c) simp_all

text \<open>What stays of a command when it is settled: everything but its status and outcome.\<close>

definition command_identity_of :: "run_command \<Rightarrow> run_command" where
  "command_identity_of c = c\<lparr>cmd_status := CmdPending, cmd_output_digest := None, cmd_failure_class := None,
     cmd_failure_code := None\<rparr>"

definition evolves :: "run_command \<Rightarrow> run_command \<Rightarrow> bool" where
  "evolves c c' \<longleftrightarrow> c' = c \<or> cmd_status c' \<in> later_status (cmd_status c) \<and> command_identity_of c' = command_identity_of c"

lemma evolves_refl [simp, intro]: "evolves c c"
  by (simp add: evolves_def)

lemma evolves_trans: "evolves a b \<Longrightarrow> evolves b c \<Longrightarrow> evolves a c"
  by (auto simp: evolves_def intro: later_status_trans)

lemma evolves_final: "evolves c c' \<Longrightarrow> final_status (cmd_status c) \<Longrightarrow> c' = c"
  by (auto simp: evolves_def final_status_def)

lemma evolves_status [intro]:
  "st \<in> later_status (cmd_status c) \<Longrightarrow> evolves c (c\<lparr>cmd_status := st\<rparr>)"
  "st \<in> later_status (cmd_status c) \<Longrightarrow> evolves c (c\<lparr>cmd_status := st, cmd_output_digest := d\<rparr>)"
  "st \<in> later_status (cmd_status c) \<Longrightarrow> evolves c (c\<lparr>cmd_status := st, cmd_failure_class := cls, cmd_failure_code := code\<rparr>)"
  by (simp_all add: evolves_def command_identity_of_def)

text \<open>The fields of a run no step changes.\<close>

definition run_identity :: "run_snapshot \<Rightarrow> rstr \<times> rstr \<times> rstr \<times> u64 \<times> (rstr \<times> u8) list \<times> rstr option \<times> rstr option \<times> json option \<times> rstr option" where
  "run_identity s = (snap_run_id s, snap_definition_digest s, snap_semantics_digest s, snap_sequence s,
     snap_slot_candidates s, snap_conversation_id s, snap_membership_id s, snap_route_receipt s, snap_cwd s)"

definition quiet :: "machine \<Rightarrow> machine \<Rightarrow> bool" where
  "quiet m m' \<longleftrightarrow> fst ` set (commands m') = fst ` set (commands m)
     \<and> (\<forall>i c. map_of (commands m) i = Some c \<longrightarrow> (\<exists>c'. map_of (commands m') i = Some c' \<and> evolves c c'))
     \<and> (bt_wf (commands m) \<longrightarrow> bt_wf (commands m'))
     \<and> snap_lineage (m_snapshot m') = snap_lineage (m_snapshot m)
     \<and> m_emitted m' = m_emitted m \<and> m_applied m' = m_applied m
     \<and> run_identity (m_snapshot m') = run_identity (m_snapshot m)"

text \<open>An event that is ignored: a replay, or a cancellation of a run that is over.\<close>

definition ignored :: "machine \<Rightarrow> machine \<Rightarrow> bool" where
  "ignored m m' \<longleftrightarrow> m' = m\<lparr>m_applied := False\<rparr>"

inductive progress :: "compiled_workflow \<Rightarrow> machine \<Rightarrow> machine \<Rightarrow> bool" for w where
  quiet: "quiet m m' \<Longrightarrow> progress w m m'"
| issue: "bump_attempt_lineage w st v slot item m = Inr m1 \<Longrightarrow> quiet m1 m2 \<Longrightarrow> map_of (commands m2) (cmd_id c) = None
    \<Longrightarrow> cmd_status c = CmdPending \<Longrightarrow> progress w m ((put_command (cmd_id c) c m2)\<lparr>m_emitted := m_emitted m2 @ [c]\<rparr>)"
| trans: "progress w m m1 \<Longrightarrow> progress w m1 m2 \<Longrightarrow> progress w m m2"

section \<open>Quiet changes\<close>

lemma quietI:
  assumes "snap_commands (m_snapshot m') = snap_commands (m_snapshot m)"
    "snap_lineage (m_snapshot m') = snap_lineage (m_snapshot m)" "m_emitted m' = m_emitted m" "m_applied m' = m_applied m"
    "run_identity (m_snapshot m') = run_identity (m_snapshot m)"
  shows "quiet m m'"
  using assms by (simp add: quiet_def)

lemma quietD:
  assumes "quiet m m'"
  shows "fst ` set (commands m') = fst ` set (commands m)"
    "map_of (commands m) i = Some c \<Longrightarrow> \<exists>c'. map_of (commands m') i = Some c' \<and> evolves c c'"
    "bt_wf (commands m) \<Longrightarrow> bt_wf (commands m')" "snap_lineage (m_snapshot m') = snap_lineage (m_snapshot m)"
    "m_emitted m' = m_emitted m" "m_applied m' = m_applied m" "run_identity (m_snapshot m') = run_identity (m_snapshot m)"
  using assms by (simp_all add: quiet_def)

lemma quiet_trans:
  assumes "quiet a b" "quiet b c"
  shows "quiet a c"
  unfolding quiet_def
proof (intro conjI allI impI)
  fix i x assume "map_of (commands a) i = Some x"
  then obtain y where y: "map_of (commands b) i = Some y" "evolves x y" using quietD(2)[OF assms(1)] by blast
  then obtain z where "map_of (commands c) i = Some z" "evolves y z" using quietD(2)[OF assms(2)] by blast
  then show "\<exists>z. map_of (commands c) i = Some z \<and> evolves x z" using evolves_trans[OF y(2)] by blast
qed (use quietD[OF assms(1)] quietD[OF assms(2)] in simp_all)

lemma quiet_put:
  assumes "map_of (commands m) i = Some c" "evolves c c'"
  shows "quiet m (put_command i c' m)"
proof -
  have "i \<in> fst ` set (commands m)" using assms(1) by (auto dest: map_of_SomeD intro: rev_image_eqI)
  then show ?thesis
    using assms by (auto simp: quiet_def keys_bt_insert map_of_bt_insert bt_wf_insert run_identity_def)
qed

lemma quiet_map:
  assumes "\<And>c. evolves c (f c)"
  shows "quiet m (map_commands f m)"
proof -
  have look: "map_of (map (\<lambda>(i, c). (i, f c)) l) i = map_option f (map_of l i)" for l :: "(rstr \<times> run_command) list" and i
    by (induction l) auto
  have keys: "map fst (map (\<lambda>(i, c). (i, f c)) l) = map fst l" for l :: "(rstr \<times> run_command) list"
    by (induction l) auto
  then have "fst ` set (map (\<lambda>(i, c). (i, f c)) l) = fst ` set l" for l :: "(rstr \<times> run_command) list"
    by (metis list.set_map)
  moreover have "bt_wf (map (\<lambda>(i, c). (i, f c)) l) = bt_wf l" for l :: "(rstr \<times> run_command) list"
    by (simp only: bt_wf_def keys)
  ultimately show ?thesis
    using assms look unfolding quiet_def map_commands_def run_identity_def by auto
qed

named_theorems quiet_rules

text \<open>Updates of the other fields.\<close>

lemma quiet_frame [quiet_rules]:
  "quiet m m" "quiet m (set_status st m)" "quiet m (set_diagnostic d m)" "quiet m (activate i m)" "quiet m (leave i m)"
  "quiet m (deactivate i m)" "quiet m (push_automatic i e m)" "quiet m (park_callback i e t m)"
  "quiet m (refresh_workset_status i m)" "quiet m (m\<lparr>m_automatic := q\<rparr>)"
  "quiet m (on_snapshot (\<lambda>s. s\<lparr>snap_callbacks := cbs\<rparr>) m)" "quiet m (on_snapshot (\<lambda>s. s\<lparr>snap_active := f s\<rparr>) m)"
  "quiet m (on_snapshot (\<lambda>s. s\<lparr>snap_input := input, snap_status := st\<rparr>) m)"
  "quiet m (on_snapshot (merge_output c i output) m)"
  by (auto intro!: quietI simp: run_identity_def activate_def leave_def deactivate_def push_automatic_def park_callback_def
      refresh_workset_status_def Let_def merge_output_def merge_session_def split: prod.splits option.splits)

lemma quiet_join_gate: "join_gate w st p m = (b, m') \<Longrightarrow> quiet m m'"
  by (auto intro!: quietI simp: join_gate_def Let_def run_identity_def split: if_splits option.splits)

lemma quiet_cancel_command: "evolves c (cancel_command c)"
proof (cases "cmd_status c = CmdCancelRequested")
  case True
  then have "cancel_command c = c" by (simp add: cancel_command_def)
  then show ?thesis by simp
next
  case False
  then show ?thesis by (cases "cmd_status c") (auto simp: cancel_command_def)
qed

lemma quiet_cancel: "ignored m (cancel m) \<or> quiet m (cancel m)"
proof (cases "snap_status (m_snapshot m) \<in> {Completed, CancelledRun, FailedRun}")
  case False
  have "quiet m (map_commands cancel_command (on_snapshot (\<lambda>s. s\<lparr>snap_callbacks := []\<rparr>) m))"
    by (rule quiet_trans[OF quiet_frame(11) quiet_map[OF quiet_cancel_command]])
  from quiet_trans[OF this quiet_frame(2)] show ?thesis
    using False by (simp add: cancel_def Let_def)
qed (simp add: cancel_def ignored_def)

lemma quiet_cancel_unstarted [quiet_rules]: "quiet m (cancel_unstarted m)"
  unfolding cancel_unstarted_def by (rule quiet_map) auto


text \<open>The commands are keyed by their identifiers.\<close>

definition keyed :: "(rstr \<times> run_command) list \<Rightarrow> bool" where
  "keyed cs \<longleftrightarrow> bt_wf cs \<and> (\<forall>i c. map_of cs i = Some c \<longrightarrow> cmd_id c = i)"

lemma keyedD: "keyed cs \<Longrightarrow> map_of cs i = Some c \<Longrightarrow> cmd_id c = i" "keyed cs \<Longrightarrow> bt_wf cs"
  by (simp_all add: keyed_def)

lemma evolves_id: "evolves c c' \<Longrightarrow> command_identity_of c' = command_identity_of c"
  by (auto simp: evolves_def)

lemma identity_fields:
  "command_identity_of c' = command_identity_of c \<Longrightarrow>
     cmd_id c' = cmd_id c \<and> cmd_state_id c' = cmd_state_id c \<and> cmd_state_visit c' = cmd_state_visit c \<and> cmd_kind c' = cmd_kind c
     \<and> cmd_attempt c' = cmd_attempt c \<and> cmd_attempt_token c' = cmd_attempt_token c \<and> cmd_binding_id c' = cmd_binding_id c
     \<and> cmd_item_id c' = cmd_item_id c \<and> cmd_binding_ordinal c' = cmd_binding_ordinal c \<and> cmd_input c' = cmd_input c"
  by (cases c; cases c') (simp add: command_identity_of_def)

lemmas evolves_fields = identity_fields[OF evolves_id]

lemma quiet_back:
  assumes "quiet m m'" "map_of (commands m') i = Some c'"
  shows "\<exists>c. map_of (commands m) i = Some c \<and> evolves c c'"
proof -
  have "i \<in> fst ` set (commands m)" using assms quietD(1) by (metis map_of_eq_None_iff option.distinct(1))
  then obtain c where c: "map_of (commands m) i = Some c" by (metis map_of_eq_None_iff option.exhaust)
  with quietD(2)[OF assms(1) c] assms(2) show ?thesis by auto
qed

lemma quiet_keyed:
  assumes "quiet m m'" "keyed (commands m)"
  shows "keyed (commands m')"
  unfolding keyed_def
proof (intro conjI allI impI)
  show "bt_wf (commands m')" by (rule quietD(3)[OF assms(1) keyedD(2)[OF assms(2)]])
  fix i c' assume "map_of (commands m') i = Some c'"
  then obtain c where "map_of (commands m) i = Some c" "evolves c c'" using quiet_back[OF assms(1)] by blast
  then show "cmd_id c' = i" using keyedD(1)[OF assms(2)] evolves_fields by simp
qed

lemma keyed_mem: "keyed cs \<Longrightarrow> (i, c) \<in> set cs \<longleftrightarrow> map_of cs i = Some c"
  by (rule bt_mem[OF keyedD(2)])

lemma keyed_unique:
  assumes "keyed cs" "(i, c) \<in> set cs" "(j, d) \<in> set cs" "cmd_id c = cmd_id d"
  shows "c = d \<and> i = j"
proof -
  have "map_of cs i = Some c" "map_of cs j = Some d" using assms(2,3) by (simp_all only: keyed_mem[OF assms(1)])
  moreover have "i = j" using calculation[THEN keyedD(1)[OF assms(1)]] assms(4) by simp
  ultimately show ?thesis by simp
qed

text \<open>\<open>values_mut\<close> with a change that may look at the command's place in the map.\<close>

lemma quiet_map_keyed:
  assumes "keyed (commands m)" "\<And>i c. (i, c) \<in> set (commands m) \<Longrightarrow> evolves c (f c)"
  shows "quiet m (map_commands f m)"
proof -
  let ?g = "\<lambda>c. if evolves c (f c) then f c else c"
  have "map (\<lambda>(i, c). (i, f c)) (commands m) = map (\<lambda>(i, c). (i, ?g c)) (commands m)"
    using assms(2) by (intro map_cong) auto
  then have "map_commands f m = map_commands ?g m" by (simp add: map_commands_def)
  moreover have "quiet m (map_commands ?g m)" by (rule quiet_map) simp
  ultimately show ?thesis by simp
qed

lemma quiet_cancel_of_visit:
  assumes "keyed (commands m)"
  shows "quiet m (cancel_of_visit w st v m)"
  unfolding cancel_of_visit_def Let_def
proof (rule quiet_map_keyed[OF assms])
  fix i c
  let ?ids = "set (map cmd_id (filter (\<lambda>c. cmd_status c \<in> {CmdPending, CmdClaimed, CmdRetryable}
            \<or> failure_admissible w (m_snapshot m) c) (visit_commands (m_snapshot m) st v)))"
  assume c: "(i, c) \<in> set (commands m)"
  show "evolves c (if cmd_state_id c = st \<and> cmd_state_visit c = v \<and> cmd_id c \<in> ?ids then c\<lparr>cmd_status := CmdCancelled\<rparr> else c)"
  proof (cases "cmd_id c \<in> ?ids")
    case True
    then obtain j d where d: "(j, d) \<in> set (commands m)" "cmd_id d = cmd_id c"
      "cmd_status d \<in> {CmdPending, CmdClaimed, CmdRetryable} \<or> failure_admissible w (m_snapshot m) d"
      by (auto simp: visit_commands_def)
    then have "d = c" using keyed_unique[OF assms c d(1)] by simp
    then have "CmdCancelled \<in> later_status (cmd_status c)" using d(3) by (auto simp: failure_admissible_def)
    then show ?thesis by auto
  qed simp
qed

section \<open>Every operation is progress\<close>

lemmas progress_intros = progress.quiet progress.trans

lemma quiet_progress: "quiet m m1 \<Longrightarrow> progress w m1 m2 \<Longrightarrow> progress w m m2"
  by (blast intro: progress_intros)

lemma progress_quiet: "progress w m m1 \<Longrightarrow> quiet m1 m2 \<Longrightarrow> progress w m m2"
  by (blast intro: progress_intros)

lemma progress_refl [simp, intro]: "progress w m m"
  by (rule progress.quiet[OF quiet_frame(1)])

lemma progress_run_all:
  assumes "run_all f m xs = Inr m'" "\<And>m x m'. f m x = Inr m' \<Longrightarrow> progress w m m'"
  shows "progress w m m'"
  by (rule run_all_invariant[OF assms(1), where P = "progress w m"]) (auto intro: progress.trans assms(2))

lemma progress_insert:
  assumes "bump_attempt_lineage w st v slot item m = Inr m1" "quiet m1 m2" "insert_command c m2 = Inr m'" "cmd_status c = CmdPending"
  shows "progress w m m'"
  using assms(3) progress.issue[OF assms(1,2) _ assms(4)] by (auto simp: insert_command_def result_simps)

lemma new_command_pending [simp]:
  "cmd_status (new_command env w s st v k item ordinal resume input) = CmdPending"
  by (simp add: new_command_def Let_def)

lemma progress_emit: "emit_command env w s k item input m = Inr m' \<Longrightarrow> progress w m m'"
  by (auto simp: emit_command_def Let_def result_simps intro: progress_insert[OF _ quiet_frame(1)])

lemma progress_emit_item: "emit_item env w s m x = Inr m' \<Longrightarrow> progress w m m'"
  by (auto simp: emit_item_def result_simps split: prod.splits intro: progress_emit)

lemma progress_schedule: "schedule_workset env w s m = Inr (b, m') \<Longrightarrow> progress w m m'"
  by (auto simp: schedule_workset_def Let_def result_simps split: if_splits
      intro: progress_run_all[OF _ progress_emit_item])

lemma progress_enter_kind:
  assumes "enter_kind env w enter_state st m = Inr m'"
    and "\<And>t p m m'. enter_state t p m = Inr m' \<Longrightarrow> progress w m m'"
  shows "progress w m m'"
proof (cases "gs_kind st")
  case KFork
  then have "run_all (\<lambda>m t. enter_state t (Some (gs_id st)) m) (leave (gs_id st) m)
      (map tr_to (cw_transitions w (gs_id st) Complete)) = Inr m'"
    using assms(1) by (simp add: enter_kind_def complete_fork_def Let_def result_simps)
  then have "progress w (leave (gs_id st) m) m'" by (rule progress_run_all) (rule assms(2))
  then show ?thesis by (rule quiet_progress[OF quiet_frame(5)])
next
  case KWorkset
  then obtain b m1 where "schedule_workset env w (gs_id st) m = Inr (b, m1)"
    "m' = (if b then push_automatic (gs_id st) Success m1 else m1)"
    using assms(1) by (auto simp: enter_kind_def result_simps)
  then show ?thesis by (auto intro: progress_quiet[OF progress_schedule] quiet_rules progress_schedule)
next
  case KSucceed
  then show ?thesis using assms(1)
    by (auto simp: enter_kind_def leave_def run_identity_def intro!: progress.quiet quietI)
next
  case KFail
  then show ?thesis using assms(1)
    by (auto simp: enter_kind_def leave_def run_identity_def intro!: progress.quiet quietI)
next
  case KBlocked
  then show ?thesis using assms(1)
    by (auto simp: enter_kind_def leave_def run_identity_def intro!: progress.quiet quietI)
qed (use assms(1) in \<open>auto simp: enter_kind_def result_simps intro: progress.quiet quiet_rules progress_emit
     progress_quiet[OF progress_emit]\<close>)

lemma progress_enter_within: "enter_within n env w s p m = Inr m' \<Longrightarrow> progress w m m'"
proof (induction n arbitrary: s p m m')
  case (Suc n)
  from Suc.prems obtain st where st: "(case join_gate w st p m of (False, m) \<Rightarrow> Inr m
      | (True, m) \<Rightarrow> enter_kind env w (enter_within n env w) st (activate (gs_id st) m)) = Inr m'"
    by (auto simp: result_simps)
  obtain b m1 where gate: "join_gate w st p m = (b, m1)" by fastforce
  note q = quiet_join_gate[OF gate]
  show ?case
  proof (cases b)
    case True
    then have "enter_kind env w (enter_within n env w) st (activate (gs_id st) m1) = Inr m'" using st gate by simp
    then have "progress w (activate (gs_id st) m1) m'" by (rule progress_enter_kind) (rule Suc.IH)
    then show ?thesis by (rule quiet_progress[OF quiet_trans[OF q quiet_frame(4)]])
  next
    case False
    then show ?thesis using st gate q by (auto intro: progress.quiet)
  qed
qed simp

lemma progress_enter: "enter env w s p m = Inr m' \<Longrightarrow> progress w m m'"
  unfolding enter_def by (rule progress_enter_within)

lemma progress_complete_state:
  assumes "complete_state env w s e payload m = Inr m'"
  shows "progress w m m'"
proof -
  from assms obtain t where "tr_mode t = Callback \<and> m' = park_callback s (tr_event t) t (leave s m)
      \<or> enter env w (tr_to t) (Some s) (leave s m) = Inr m'"
    by (auto simp: complete_state_def Let_def result_simps split: if_splits)
  then show ?thesis
    by (auto intro: progress.quiet quiet_trans quiet_rules quiet_progress[OF quiet_frame(5) progress_enter])
qed

lemma progress_take_failure: "take_failure env w s t m = Inr m' \<Longrightarrow> progress w m m'"
  by (auto simp: take_failure_def Let_def split: if_splits
      intro: progress.quiet quiet_trans quiet_rules quiet_progress[OF quiet_frame(6) progress_enter])

lemma progress_route_failure: "route_failure env w s code otherwise m = Inr m' \<Longrightarrow> progress w m m'"
  by (auto simp: route_failure_def result_simps split: option.splits intro: progress_take_failure progress.quiet quiet_rules)

lemma progress_drain_within: "drain_within n env w m = Inr m' \<Longrightarrow> progress w m m'"
proof (induction n arbitrary: m)
  case (Suc n)
  show ?case
  proof (cases "m_automatic m")
    case (Cons a rest)
    obtain s e payload where a: "a = (s, e, payload)" by (cases a)
    from Suc.prems Cons a obtain m1 where m1: "complete_state env w s e payload (m\<lparr>m_automatic := rest\<rparr>) = Inr m1"
      "drain_within n env w m1 = Inr m'"
      by (auto simp: result_simps)
    from quiet_progress[OF quiet_frame(10) progress_complete_state[OF m1(1)]] Suc.IH[OF m1(2)]
    show ?thesis by (rule progress.trans)
  qed (use Suc.prems in auto)
qed (auto simp: result_simps)

lemma bump_frame:
  assumes "bump_attempt_lineage w st v slot item m = Inr m'"
  shows "commands m' = commands m" "m_emitted m' = m_emitted m" "run_identity (m_snapshot m') = run_identity (m_snapshot m)"
    "snap_status (m_snapshot m') = snap_status (m_snapshot m)" "snap_callbacks (m_snapshot m') = snap_callbacks (m_snapshot m)"
    "m_automatic m' = m_automatic m" "m_applied m' = m_applied m"
  using assms by (auto simp: bump_attempt_lineage_def Let_def result_simps run_identity_def)

lemma progress_keyed: "progress w m m' \<Longrightarrow> keyed (commands m) \<Longrightarrow> keyed (commands m')"
proof (induction rule: progress.induct)
  case (quiet m m')
  then show ?case by (rule quiet_keyed)
next
  case (issue st v slot item m m1 m2 c)
  have "keyed (commands m2)" by (rule quiet_keyed[OF issue(2)]) (simp add: bump_frame(1)[OF issue(1)] issue.prems)
  then show ?case by (auto simp: keyed_def bt_wf_insert map_of_bt_insert)
qed blast

lemma progress_failure_ready:
  assumes "workset_failure_ready env w st m = Inr (b, m')" "keyed (commands m)"
  shows "progress w m m'"
proof -
  let ?m = "cancel_of_visit w st (get_or 0 (snap_visits (m_snapshot m)) st) m"
  have q: "quiet m ?m" by (rule quiet_cancel_of_visit[OF assms(2)])
  from assms(1) consider "m' = refresh_workset_status st ?m" | "m' = ?m" | t where "take_failure env w st t ?m = Inr m'"
    by (auto simp: workset_failure_ready_def Let_def result_simps split: if_splits option.splits)
  then show ?thesis
  proof cases
    case 1
    then show ?thesis using quiet_trans[OF q quiet_frame(9)] by (auto intro: progress.quiet)
  next
    case 2
    then show ?thesis using q by (auto intro: progress.quiet)
  next
    case 3
    then show ?thesis by (rule quiet_progress[OF q progress_take_failure])
  qed
qed

lemma progress_route_success:
  assumes "route_success env w s output m = Inr m'" "keyed (commands m)"
  shows "progress w m m'"
proof -
  from assms(1) consider b where "workset_failure_ready env w s m = Inr (b, m')"
    | b m1 where "schedule_workset env w s m = Inr (b, m1)"
        "b \<and> complete_state env w s Success (snap_input (m_snapshot m1)) m1 = Inr m' \<or> m' = refresh_workset_status s m1"
    | "complete_state env w s Success output m = Inr m'"
    by (auto simp: route_success_def result_simps split: if_splits)
  then show ?thesis
  proof cases
    case 1
    then show ?thesis by (rule progress_failure_ready[OF _ assms(2)])
  next
    case 2
    have p: "progress w m m1" by (rule progress_schedule[OF 2(1)])
    from 2(2) show ?thesis
      by (auto intro: progress.trans[OF p progress_complete_state] progress_quiet[OF p] quiet_rules)
  next
    case 3
    then show ?thesis by (rule progress_complete_state)
  qed
qed

lemma evolves_open:
  "open_status (cmd_status c) \<Longrightarrow> evolves c (c\<lparr>cmd_status := CmdSucceeded, cmd_output_digest := d\<rparr>)"
  "open_status (cmd_status c) \<Longrightarrow> st \<in> {CmdRetryable, CmdInDoubt, CmdFailed} \<Longrightarrow>
     evolves c (c\<lparr>cmd_status := st, cmd_failure_class := cls, cmd_failure_code := code\<rparr>)"
  by (auto simp: open_status_def intro!: evolves_status)

lemma progress_settle_success:
  assumes "settle_success env w i token output m = Inr m'" "keyed (commands m)"
  shows "ignored m m' \<or> progress w m m'"
proof -
  from assms(1) obtain c where c: "map_of (commands m) i = Some c" and
    go: "ignored m m' \<or> open_status (cmd_status c) \<and> route_success env w (cmd_state_id c) output
      (on_snapshot (merge_output c i output) (put_command i (c\<lparr>cmd_status := CmdSucceeded,
        cmd_output_digest := Some (sha256_hex env (env_json_text env output))\<rparr>) m)) = Inr m'"
    by (auto simp: settle_success_def ignored_def Let_def result_simps split: if_splits)
  from go show ?thesis
  proof (elim disjE conjE)
    let ?m = "on_snapshot (merge_output c i output) (put_command i (c\<lparr>cmd_status := CmdSucceeded,
        cmd_output_digest := Some (sha256_hex env (env_json_text env output))\<rparr>) m)"
    assume "open_status (cmd_status c)" and route: "route_success env w (cmd_state_id c) output ?m = Inr m'"
    then have q: "quiet m ?m" by (intro quiet_trans[OF quiet_put[OF c evolves_open(1)] quiet_frame(14)])
    show ?thesis by (rule disjI2[OF quiet_progress[OF q progress_route_success[OF route quiet_keyed[OF q assms(2)]]]])
  qed simp
qed

lemma progress_settle_final:
  assumes "settle_final env w current i cls code m = Inr m'" "keyed (commands m)"
  shows "progress w m m'"
proof -
  from assms(1) consider "quiet m m'" | b where "workset_failure_ready env w (cmd_state_id current) m = Inr (b, m')"
    | "route_failure env w (cmd_state_id current) code FailedRun m = Inr m'"
    by (auto simp: settle_final_def Let_def result_simps intro: quiet_rules split: if_splits)
  then show ?thesis
    by cases (auto intro: progress.quiet progress_failure_ready[OF _ assms(2)] progress_route_failure)
qed

lemma progress_settle_failure:
  assumes "settle_failure env w i token cls code m = Inr m'" "keyed (commands m)"
  shows "ignored m m' \<or> progress w m m'"
proof -
  from assms(1) obtain current where c: "map_of (commands m) i = Some current"
    by (auto simp: settle_failure_def result_simps)
  show ?thesis
  proof (cases "ignored m m'")
    case False
    let ?set = "\<lambda>st. set_diagnostic (Some code) (put_command i (current\<lparr>cmd_status := st, cmd_failure_class := Some cls,
      cmd_failure_code := Some code\<rparr>) m)"
    from assms(1) False obtain st where st: "open_status (cmd_status current)" "st \<in> {CmdRetryable, CmdInDoubt, CmdFailed}"
      "route_failure env w (cmd_state_id current) code BlockedRun (?set st) = Inr m'
       \<or> m' = refresh_workset_status (cmd_state_id current) (?set st) \<or> m' = set_status (retry_status cls) (?set st)
       \<or> settle_final env w current i cls code (?set st) = Inr m'"
      unfolding settle_failure_def Let_def ignored_def by (auto simp: c result_simps split: if_splits)
    have q: "quiet m (?set st)" by (rule quiet_trans[OF quiet_put[OF c evolves_open(2)[OF st(1,2)]] quiet_frame(3)])
    note k = quiet_keyed[OF q assms(2)]
    from st(3) have "progress w (?set st) m'"
    proof (elim disjE)
      assume "m' = refresh_workset_status (cmd_state_id current) (?set st)"
      then show ?thesis by (simp only: progress.quiet[OF quiet_frame(9)])
    next
      assume "m' = set_status (retry_status cls) (?set st)"
      then show ?thesis by (simp only: progress.quiet[OF quiet_frame(2)])
    qed (erule progress_route_failure, erule progress_settle_final[OF _ k])
    then show ?thesis by (rule disjI2[OF quiet_progress[OF q]])
  qed simp
qed

lemma progress_transition:
  assumes "transition_command i token expected nxt m = Inr m'" "nxt \<in> later_status expected"
  shows "quiet m m'"
  using assms by (auto simp: transition_command_def result_simps intro!: quiet_put evolves_status)

lemma progress_start_command: "start_command i token m = Inr m' \<Longrightarrow> quiet m m'"
  by (auto simp: start_command_def result_simps intro!: progress_transition)

lemma progress_cancel_acknowledged: "cancel_acknowledged i token m = Inr m' \<Longrightarrow> quiet m m'"
proof -
  assume "cancel_acknowledged i token m = Inr m'"
  then obtain m1 where m1: "transition_command i token CmdCancelRequested CmdCancelled m = Inr m1"
    "m' = set_status CancelledRun m1 \<or> m' = m1"
    by (auto simp: cancel_acknowledged_def result_simps split: if_splits)
  have "quiet m m1" by (rule progress_transition[OF m1(1)]) simp
  then show ?thesis using m1(2) quiet_trans[OF _ quiet_frame(2)] by blast
qed

lemma progress_cancel_unknown: "cancel_unknown i token m = Inr m' \<Longrightarrow> quiet m m'"
proof -
  assume "cancel_unknown i token m = Inr m'"
  then obtain m1 where m1: "transition_command i token CmdCancelRequested CmdInDoubt m = Inr m1"
    "m' = set_diagnostic (Some (lit ''cancellation_outcome_unknown'')) (set_status CancelInDoubt m1)"
    by (auto simp: cancel_unknown_def result_simps)
  have "quiet m m1" by (rule progress_transition[OF m1(1)]) simp
  then show ?thesis unfolding m1(2) by (rule quiet_trans[OF _ quiet_trans[OF quiet_frame(2) quiet_frame(3)]])
qed

lemma progress_assistant_failure:
  assumes "settle_assistant_effect_failure i token cls code m = Inr m'"
  shows "ignored m m' \<or> progress w m m'"
proof -
  from assms obtain c st where c: "map_of (commands m) i = Some c" "ignored m m' \<or>
      open_status (cmd_status c) \<and> st \<in> {CmdRetryable, CmdInDoubt, CmdFailed} \<and>
      m' = set_diagnostic (Some code) (set_status (if cls = InDoubt then CancelInDoubt else FailedRun)
        (cancel_unstarted (on_snapshot (\<lambda>s. s\<lparr>snap_callbacks := []\<rparr>) (put_command i (c\<lparr>cmd_status := st,
          cmd_failure_class := Some cls, cmd_failure_code := Some code\<rparr>) m))))"
    by (fastforce simp: settle_assistant_effect_failure_def ignored_def Let_def result_simps split: if_splits)
  from c(2) show ?thesis
  proof (elim disjE conjE)
    assume "open_status (cmd_status c)" "st \<in> {CmdRetryable, CmdInDoubt, CmdFailed}"
    note q = quiet_put[OF c(1) evolves_open(2)[OF this, where cls = "Some cls" and code = "Some code"]]
    assume m': "m' = set_diagnostic (Some code) (set_status (if cls = InDoubt then CancelInDoubt else FailedRun)
        (cancel_unstarted (on_snapshot (\<lambda>s. s\<lparr>snap_callbacks := []\<rparr>) (put_command i (c\<lparr>cmd_status := st,
          cmd_failure_class := Some cls, cmd_failure_code := Some code\<rparr>) m))))"
    show ?thesis
      unfolding m'
      by (rule disjI2, rule progress.quiet[OF quiet_trans[OF q quiet_trans[OF quiet_frame(11)
          quiet_trans[OF quiet_cancel_unstarted quiet_trans[OF quiet_frame(2) quiet_frame(3)]]]]])
  qed simp
qed

lemma progress_drive_failure:
  assumes "settle_assistant_drive_failure code m = Inr m'"
  shows "ignored m m' \<or> progress w m m'"
proof -
  let ?f = "\<lambda>c. if cmd_status c \<in> {CmdClaimed, CmdRunning}
      then c\<lparr>cmd_status := CmdInDoubt, cmd_failure_class := Some InDoubt, cmd_failure_code := Some code\<rparr> else c"
  from assms consider "ignored m m'"
    | "m' = set_diagnostic (Some code) (set_status CancelInDoubt
        (map_commands ?f (on_snapshot (\<lambda>s. s\<lparr>snap_callbacks := []\<rparr>) (cancel_unstarted m))))"
    by (auto simp: settle_assistant_drive_failure_def ignored_def Let_def result_simps split: if_splits)
  then show ?thesis
  proof cases
    case 2
    have "quiet (on_snapshot (\<lambda>s. s\<lparr>snap_callbacks := []\<rparr>) (cancel_unstarted m))
      (map_commands ?f (on_snapshot (\<lambda>s. s\<lparr>snap_callbacks := []\<rparr>) (cancel_unstarted m)))"
      by (rule quiet_map) (auto intro!: evolves_status)
    from quiet_trans[OF quiet_cancel_unstarted quiet_trans[OF quiet_frame(11) quiet_trans[OF this
          quiet_trans[OF quiet_frame(2) quiet_frame(3)]]]]
    show ?thesis unfolding 2 by (rule disjI2[OF progress.quiet])
  qed simp
qed

lemma emit_fallback_insert:
  "emit_fallback_command env w s kind item ordinal input m = Inr m' \<Longrightarrow>
     \<exists>st v. insert_command (new_command env w (m_snapshot m) st v kind item ordinal None input) m = Inr m'"
  by (auto simp: emit_fallback_command_def result_simps)

lemma progress_fallback:
  assumes "issue_fallback env w i ordinal locator from_value to_value reason attempts m = Inr m'"
  shows "progress w m m'"
proof -
  let ?slots = "\<lambda>old slot receipt s. s\<lparr>snap_slot_ordinals := bt_insert
                  (ordinal_key (cmd_state_id old) (cmd_state_visit old) slot (cmd_item_id old)) ordinal (snap_slot_ordinals s),
                snap_fallbacks := sort_key receipt_order (snap_fallbacks s @ [receipt])\<rparr>"
  from assms obtain old slot receipt m1 where old: "map_of (commands m) i = Some old" "cmd_status old = CmdFailed"
    and bump: "bump_attempt_lineage w (cmd_state_id old) (cmd_state_visit old) (cmd_binding_id old) (cmd_item_id old) m = Inr m1"
    and fb: "apply_fallback env w i old slot ordinal locator receipt m1 = Inr m'"
    unfolding issue_fallback_def by (auto simp: result_simps)
  let ?m1 = "on_snapshot (?slots old slot receipt) m1"
  let ?m2 = "put_command i (old\<lparr>cmd_status := CmdCancelled\<rparr>) ?m1"
  from fb obtain m3 where emit: "emit_fallback_command env w (cmd_state_id old) (cmd_kind old) (cmd_item_id old) ordinal
        (with_locator (cmd_input old) locator) ?m2 = Inr m3"
    and m': "m' = refresh_workset_status (cmd_state_id old) m3 \<or> m' = set_diagnostic None (set_status Running m3)"
    unfolding apply_fallback_def Let_def by (auto simp: result_simps split: if_splits)
  have q1: "quiet m1 ?m1" by (rule quietI) (simp_all add: run_identity_def)
  have "map_of (commands ?m1) i = Some old" using old(1) bump_frame(1)[OF bump] by simp
  then have q2: "quiet ?m1 ?m2" by (rule quiet_put) (auto simp: old(2) intro!: evolves_status)
  from emit_fallback_insert[OF emit] obtain st v where
    "insert_command (new_command env w (m_snapshot ?m2) st v (cmd_kind old)
      (cmd_item_id old) ordinal None (with_locator (cmd_input old) locator)) ?m2 = Inr m3" by blast
  then have p: "progress w m m3" by (rule progress_insert[OF bump quiet_trans[OF q1 q2]]) (rule new_command_pending)
  from m' show ?thesis
    by (elim disjE) (simp_all only: progress_quiet[OF p quiet_frame(9)] progress_quiet[OF p quiet_trans[OF quiet_frame(2) quiet_frame(3)]])
qed

lemma emitted_frame:
  "refresh_workset_status s (m\<lparr>m_emitted := e\<rparr>) = (refresh_workset_status s m)\<lparr>m_emitted := e\<rparr>"
  "m_emitted (refresh_workset_status s m) = m_emitted m"
  by (simp_all add: refresh_workset_status_def Let_def)

lemma progress_retry:
  assumes "retry env w i m = Inr m'"
  shows "progress w m m'"
proof -
  from assms obtain old m1 where old: "map_of (commands m) i = Some old" "cmd_status old = CmdRetryable"
    and fresh: "map_of (commands m) (cmd_id (retry_command env old)) = None"
    and bump: "bump_attempt_lineage w (cmd_state_id old) (cmd_state_visit old) (cmd_binding_id old) (cmd_item_id old) m = Inr m1"
    and m': "m' = apply_retry i old (retry_command env old) m1"
    unfolding retry_def Let_def by (auto simp: result_simps)
  define c where "c = retry_command env old"
  have c: "cmd_status c = CmdPending" by (simp add: c_def retry_command_def Let_def)
  let ?m2 = "put_command i (old\<lparr>cmd_status := CmdCancelled\<rparr>) m1"
  let ?m3 = "(put_command (cmd_id c) c ?m2)\<lparr>m_emitted := m_emitted ?m2 @ [c]\<rparr>"
  have "map_of (commands m1) i = Some old" using old(1) bump_frame(1)[OF bump] by simp
  then have q: "quiet m1 ?m2" by (rule quiet_put) (auto simp: old(2) intro!: evolves_status)
  have "map_of (commands ?m2) (cmd_id c) = None"
    using fresh old(1) bump_frame(1)[OF bump] by (auto simp: map_of_bt_insert c_def)
  from progress.issue[OF bump q this c] have p: "progress w m ?m3" .
  have "m' = (if cmd_kind old = WorksetItemCommand then refresh_workset_status (cmd_state_id old) ?m3
      else set_diagnostic None (set_status Running ?m3))"
    unfolding m' apply_retry_def Let_def by (simp add: emitted_frame c_def)
  then show ?thesis
    using progress_quiet[OF p quiet_frame(9)] progress_quiet[OF p quiet_trans[OF quiet_frame(2) quiet_frame(3)]] by metis
qed

lemma progress_decision:
  assumes "apply_callback_decision env w s v decision m = Inr m'"
  shows "(decision = Terminate \<and> ignored (on_snapshot (\<lambda>sn. sn\<lparr>snap_callbacks := tl (snap_callbacks sn)\<rparr>) m) m')
    \<or> progress w m m'"
proof -
  from assms obtain t p where
    "enter env w t p (set_status Running (on_snapshot (\<lambda>sn. sn\<lparr>snap_callbacks := tl (snap_callbacks (m_snapshot m))\<rparr>) m)) = Inr m'
     \<or> decision = Terminate \<and> m' = cancel (on_snapshot (\<lambda>sn. sn\<lparr>snap_callbacks := tl (snap_callbacks (m_snapshot m))\<rparr>) m)"
    by (auto simp: apply_callback_decision_def Let_def result_simps split: list.splits callback_decision.splits)
  moreover define m1 where "m1 = on_snapshot (\<lambda>sn. sn\<lparr>snap_callbacks := tl (snap_callbacks (m_snapshot m))\<rparr>) m"
  ultimately have m1: "enter env w t p (set_status Running m1) = Inr m' \<or> decision = Terminate \<and> m' = cancel m1" by simp
  have q: "quiet m m1" unfolding m1_def by (rule quiet_frame(11))
  from m1 show ?thesis
  proof (elim disjE conjE)
    assume "enter env w t p (set_status Running m1) = Inr m'"
    then show ?thesis by (rule disjI2[OF quiet_progress[OF quiet_trans[OF q quiet_frame(2)] progress_enter]])
  next
    assume "m' = cancel m1" "decision = Terminate"
    then show ?thesis using quiet_cancel[of m1] progress.quiet[OF quiet_trans[OF q]] by (auto simp: m1_def)
  qed
qed

section \<open>The step\<close>

text \<open>What an event does when it is ignored: nothing, but that a decision to terminate a run that is over is consumed.\<close>

definition event_ignored :: "reducer_event \<Rightarrow> machine \<Rightarrow> machine \<Rightarrow> bool" where
  "event_ignored ev m m' \<longleftrightarrow> ignored m m'
     \<or> (\<exists>s v. ev = CallbackDecision s v Terminate) \<and> ignored (on_snapshot (\<lambda>sn. sn\<lparr>snap_callbacks := tl (snap_callbacks sn)\<rparr>) m) m'"

lemma progress_handle:
  assumes "handle_event env w previous ev m = Inr m'" "keyed (commands m)"
  shows "event_ignored ev m m' \<or> progress w m m'"
proof (cases ev)
  case (Start input)
  then have "enter env w (def_initial (cw_definition w)) None
      (on_snapshot (\<lambda>s. s\<lparr>snap_input := input, snap_status := Running\<rparr>) m) = Inr m'"
    using assms(1) by (simp add: handle_event_def start_run_def result_simps)
  then show ?thesis by (rule disjI2[OF quiet_progress[OF quiet_frame(13) progress_enter]])
next
  case (AuthorizationGranted digest)
  then obtain i where "settle_success env w i None (JObject [(lit ''authorized'', JBool True)]) m = Inr m'"
    using assms(1) by (auto simp: handle_event_def result_simps)
  from progress_settle_success[OF this assms(2)] show ?thesis by (auto simp: event_ignored_def)
next
  case AuthorizationDenied
  then obtain i where "settle_failure env w i None Authority (lit ''authorization_denied'') m = Inr m'"
    using assms(1) by (auto simp: handle_event_def result_simps)
  from progress_settle_failure[OF this assms(2)] show ?thesis by (auto simp: event_ignored_def)
next
  case AuthorizationRevoked
  have "ignored m (revoke_authorization m) \<or> quiet m (revoke_authorization m)"
    using quiet_trans[OF quiet_frame(2) quiet_frame(3)] by (simp add: revoke_authorization_def ignored_def)
  then show ?thesis
    using assms(1) AuthorizationRevoked by (auto simp: handle_event_def event_ignored_def intro: progress.quiet)
next
  case (CommandClaimed i token)
  then have "transition_command i token CmdPending CmdClaimed m = Inr m'" using assms(1) by (simp add: handle_event_def)
  then have "quiet m m'" by (rule progress_transition) simp
  then show ?thesis by (rule disjI2[OF progress.quiet])
next
  case (CommandSucceeded i token result)
  then show ?thesis
    using assms(1) progress_settle_success[OF _ assms(2)] by (auto simp: handle_event_def event_ignored_def)
next
  case (CommandFailed i token cls code)
  then show ?thesis
    using assms(1) progress_settle_failure[OF _ assms(2)] by (auto simp: handle_event_def event_ignored_def)
next
  case (AssistantEffectFailed i token cls code)
  then show ?thesis
    using assms(1) progress_assistant_failure by (auto simp: handle_event_def event_ignored_def)
next
  case (AssistantDriveFailed code)
  then show ?thesis
    using assms(1) progress_drive_failure by (auto simp: handle_event_def event_ignored_def)
next
  case (CallbackDecision s v decision)
  then show ?thesis
    using assms(1) progress_decision by (auto simp: handle_event_def event_ignored_def)
next
  case CancelRequested
  then show ?thesis
    using assms(1) quiet_cancel[of m] by (auto simp: handle_event_def event_ignored_def intro: progress.quiet)
qed (use assms in \<open>auto simp: handle_event_def intro: progress.quiet progress_start_command progress_retry progress_fallback
      progress_cancel_acknowledged progress_cancel_unknown\<close>)

lemma reduceE:
  assumes "reduce env w previous ev = Inr out"
  obtains m1 m2 where "handle_event env w previous ev (initial_machine previous) = Inr m1"
    "drain_automatic env w m1 = Inr m2" "snap_sequence previous \<noteq> - 1"
    "out = \<lparr>out_snapshot = (if m_applied m2 then m_snapshot m2
             else (m_snapshot m2)\<lparr>snap_sequence := snap_sequence previous\<rparr>),
           out_emitted = m_emitted m2, out_applied = m_applied m2\<rparr>"
  using assms by (auto simp: reduce_def result_simps)

lemma progress_applied: "progress w m m' \<Longrightarrow> m_applied m' = m_applied m"
  by (induction rule: progress.induct) (simp_all add: quietD bump_frame)

lemma progress_run_identity: "progress w m m' \<Longrightarrow> run_identity (m_snapshot m') = run_identity (m_snapshot m)"
proof (induction rule: progress.induct)
  case (issue st v slot item m m1 m2 c)
  then show ?case using quietD(7)[OF issue(2)] bump_frame(3)[OF issue(1)] by (simp add: run_identity_def)
qed (simp_all add: quietD)

lemma drain_empty: "m_automatic m = [] \<Longrightarrow> drain_within n env w m = Inr m"
  by (cases n) simp_all

lemma sequence_restored:
  "s\<lparr>snap_sequence := snap_sequence s\<rparr> = s"
  "s\<lparr>snap_callbacks := cbs, snap_sequence := snap_sequence s\<rparr> = s\<lparr>snap_callbacks := cbs\<rparr>" for s :: run_snapshot
  by (cases s, simp)+

text \<open>
  A step either is ignored and leaves the run as it was, or it is applied and is a progress from
  the snapshot with the next sequence number.
\<close>

lemma reduce_cases:
  assumes "reduce env w previous ev = Inr out" "keyed (snap_commands previous)"
  shows "(\<not> out_applied out \<and> out_emitted out = [] \<and> (out_snapshot out = previous
        \<or> (\<exists>s v. ev = CallbackDecision s v Terminate) \<and> out_snapshot out = previous\<lparr>snap_callbacks := tl (snap_callbacks previous)\<rparr>))
    \<or> (out_applied out \<and> (\<exists>m. progress w (initial_machine previous) m \<and> m_emitted m = out_emitted out \<and> m_snapshot m = out_snapshot out))"
proof -
  let ?m = "initial_machine previous"
  from assms(1) obtain m1 m2 where r: "handle_event env w previous ev ?m = Inr m1"
    "drain_automatic env w m1 = Inr m2"
    "out = \<lparr>out_snapshot = (if m_applied m2 then m_snapshot m2
             else (m_snapshot m2)\<lparr>snap_sequence := snap_sequence previous\<rparr>),
           out_emitted = m_emitted m2, out_applied = m_applied m2\<rparr>"
    by (rule reduceE)
  have "keyed (commands ?m)" using assms(2) by (simp add: initial_machine_def)
  from progress_handle[OF r(1) this] show ?thesis
  proof
    assume p: "progress w ?m m1"
    from progress.trans[OF p progress_drain_within[OF r(2)[unfolded drain_automatic_def]]]
    have p: "progress w ?m m2" .
    then have "m_applied m2" using progress_applied[OF p] by (simp add: initial_machine_def)
    then show ?thesis using p r(3) by (intro disjI2 conjI exI[of _ m2]) simp_all
  next
    assume ig: "event_ignored ev ?m m1"
    then have "m_automatic m1 = []" "\<not> m_applied m1" "m_emitted m1 = []"
      by (auto simp: event_ignored_def ignored_def initial_machine_def)
    then have m2: "m2 = m1" using r(2) drain_empty by (simp add: drain_automatic_def)
    have "m_snapshot m1 = previous\<lparr>snap_sequence := snap_sequence previous + 1\<rparr> \<or> (\<exists>s v. ev = CallbackDecision s v Terminate)
        \<and> m_snapshot m1 = previous\<lparr>snap_callbacks := tl (snap_callbacks previous), snap_sequence := snap_sequence previous + 1\<rparr>"
      using ig by (auto simp: event_ignored_def ignored_def initial_machine_def)
    then have "out_snapshot out = previous \<or> (\<exists>s v. ev = CallbackDecision s v Terminate)
        \<and> out_snapshot out = previous\<lparr>snap_callbacks := tl (snap_callbacks previous)\<rparr>"
      using r(3) m2 \<open>\<not> m_applied m1\<close> by (elim disjE conjE) (simp_all add: sequence_restored)
    then show ?thesis
      using r(3) m2 \<open>\<not> m_applied m1\<close> \<open>m_emitted m1 = []\<close> by (intro disjI1) simp
  qed
qed

end
