(* ===== verification/Flywheel_Compile.thy ===== *)
theory Flywheel_Compile
  imports Flywheel_Graph
begin

text \<open>
  What a successful compilation establishes, in the order of the compiler: the state index is
  exact, the transition indexes list the declared transitions in order, and the searches
  compute reachability and reject cycles.
\<close>

section \<open>The state index\<close>

definition states_ok :: "graph_state list \<Rightarrow> state_indexes \<Rightarrow> bool" where
  "states_ok sts idx \<longleftrightarrow> (\<forall>s i. map_of idx s = Some i \<longleftrightarrow> i < length sts \<and> gs_id (sts ! i) = s)"

lemma states_okD: "states_ok sts idx \<Longrightarrow> map_of idx s = Some i \<longleftrightarrow> i < length sts \<and> gs_id (sts ! i) = s"
  by (simp add: states_ok_def)

lemma states_ok_distinct:
  assumes "states_ok sts idx"
  shows "distinct (map gs_id sts)"
  unfolding distinct_conv_nth
proof (intro allI impI)
  fix i j
  assume "i < length (map gs_id sts)" "j < length (map gs_id sts)" "i \<noteq> j"
  then show "map gs_id sts ! i \<noteq> map gs_id sts ! j"
    using states_okD[OF assms, of "gs_id (sts ! i)"] by (metis length_map nth_map option.inject)
qed

lemma states_ok_snoc:
  assumes "states_ok sts idx" "map_of idx (gs_id st) = None"
  shows "states_ok (sts @ [st]) (bt_insert (gs_id st) (length sts) idx)"
  unfolding states_ok_def
proof (intro allI)
  fix s i
  have old: "map_of idx s = Some i \<longleftrightarrow> i < length sts \<and> gs_id (sts ! i) = s" for s i
    by (rule states_okD[OF assms(1)])
  show "map_of (bt_insert (gs_id st) (length sts) idx) s = Some i
      \<longleftrightarrow> i < length (sts @ [st]) \<and> gs_id ((sts @ [st]) ! i) = s"
  proof (cases "s = gs_id st")
    case True
    then have "\<not> (i < length sts \<and> gs_id (sts ! i) = s)" using old assms(2) by (metis option.distinct(1))
    then show ?thesis using True by (auto simp: map_of_bt_insert nth_append less_Suc_eq)
  qed (auto simp: map_of_bt_insert nth_append old less_Suc_eq)
qed

lemma state_at_iff:
  assumes "states_ok (def_states d) idx"
  shows "state_at d idx s = Some st \<longleftrightarrow> st \<in> set (def_states d) \<and> gs_id st = s"
  by (auto simp: state_at_def in_set_conv_nth states_okD[OF assms])

lemma state_at_known:
  fixes d :: workflow_definition
  assumes "states_ok (def_states d) idx"
  shows "map_of idx s \<noteq> None \<longleftrightarrow> s \<in> gs_id ` set (def_states d)"
proof -
  have "map_of idx s \<noteq> None \<longleftrightarrow> (\<exists>st. state_at d idx s = Some st)" by (auto simp: state_at_def)
  also have "\<dots> \<longleftrightarrow> s \<in> gs_id ` set (def_states d)" by (auto simp: state_at_iff[OF assms])
  finally show ?thesis .
qed

text \<open>The loop over the states keeps the index exact for the states it has seen.\<close>

lemma index_state_run:
  assumes "run_all (index_state d rts wss) idx (enumerate (length sts) sts') = Inr idx'" "states_ok sts idx"
  shows "states_ok (sts @ sts') idx' \<and> (\<forall>st\<in>set sts'. is_identifier (gs_id st)
    \<and> 1 \<le> retry_max_attempts (gs_retry st) \<and> retry_max_attempts (gs_retry st) \<le> MAX_RETRY_ATTEMPTS
    \<and> check_state_fields d rts wss (gs_kind st) st = Inr ())"
  using assms
proof (induction sts' arbitrary: sts idx)
  case (Cons st sts')
  from Cons.prems(1) obtain idx1 where
    step: "index_state d rts wss idx (length sts, st) = Inr idx1" and
    rest: "run_all (index_state d rts wss) idx1 (enumerate (length (sts @ [st])) sts') = Inr idx'"
    by (auto simp: result_simps)
  from step have "map_of idx (gs_id st) = None" and idx1: "idx1 = bt_insert (gs_id st) (length sts) idx"
    and st: "is_identifier (gs_id st)" "1 \<le> retry_max_attempts (gs_retry st)"
      "retry_max_attempts (gs_retry st) \<le> MAX_RETRY_ATTEMPTS"
      "check_state_fields d rts wss (gs_kind st) st = Inr ()"
    by (auto simp: result_simps validate_identifier_def)
  then have "states_ok (sts @ [st]) idx1" using Cons.prems(2) by (simp add: states_ok_snoc)
  from Cons.IH[OF rest this] st show ?case by simp
qed simp

lemma index_states_ok:
  assumes "index_states d rts wss = Inr idx"
  shows "states_ok (def_states d) idx" "def_initial d \<in> gs_id ` set (def_states d)"
    "st \<in> set (def_states d) \<Longrightarrow> is_identifier (gs_id st) \<and> 1 \<le> retry_max_attempts (gs_retry st)
      \<and> retry_max_attempts (gs_retry st) \<le> MAX_RETRY_ATTEMPTS \<and> check_state_fields d rts wss (gs_kind st) st = Inr ()"
proof -
  from assms have run: "run_all (index_state d rts wss) [] (enumerate 0 (def_states d)) = Inr idx"
    and i: "map_of idx (def_initial d) \<noteq> None"
    by (auto simp: index_states_def result_simps)
  have "states_ok [] []" by (simp add: states_ok_def)
  with index_state_run[of d rts wss "[]" "[]" "def_states d" idx] run
  have ok: "states_ok (def_states d) idx \<and> (\<forall>st\<in>set (def_states d). is_identifier (gs_id st)
    \<and> 1 \<le> retry_max_attempts (gs_retry st) \<and> retry_max_attempts (gs_retry st) \<le> MAX_RETRY_ATTEMPTS
    \<and> check_state_fields d rts wss (gs_kind st) st = Inr ())" by simp
  then show "states_ok (def_states d) idx" by simp
  then show "def_initial d \<in> gs_id ` set (def_states d)" using i state_at_known by blast
  show "is_identifier (gs_id st) \<and> 1 \<le> retry_max_attempts (gs_retry st)
      \<and> retry_max_attempts (gs_retry st) \<le> MAX_RETRY_ATTEMPTS \<and> check_state_fields d rts wss (gs_kind st) st = Inr ()"
    if "st \<in> set (def_states d)" using ok that by blast
qed

section \<open>Legacy routing\<close>

lemma fresh_name_fresh: "fresh_name taken base n \<notin> set taken"
proof (induction taken base n rule: fresh_name.induct)
  case (1 taken base n)
  then show ?case by (subst fresh_name.simps) simp
qed

lemma legacy_terminal_ok:
  assumes "legacy_terminal d idx = Inr (d', idx', t)" "states_ok (def_states d) idx"
  shows "states_ok (def_states d') idx' \<and> t \<in> gs_id ` set (def_states d')
    \<and> (d' = d \<or> is_identifier t \<and> d' = d\<lparr>def_states := def_states d @ [blocked_state t]\<rparr>)"
proof (cases "find (\<lambda>st. gs_kind st \<in> {KBlocked, KFail}) (def_states d)")
  case None
  from assms(1)[unfolded legacy_terminal_def None] have "map_of idx t = None" "d' = d\<lparr>def_states := def_states d @ [blocked_state t]\<rparr>"
    "idx' = bt_insert t (length (def_states d)) idx" "is_identifier t"
    by (auto simp: Let_def result_simps validate_identifier_def)
  with states_ok_snoc[OF assms(2), of "blocked_state t"]
  show ?thesis by (simp add: blocked_state_def)
next
  case (Some st)
  then have "st \<in> set (def_states d)" by (metis find_Some_iff nth_mem)
  then show ?thesis using assms(1)[unfolded legacy_terminal_def Some] assms(2) by auto
qed


lemma normalize_legacy_frame:
  assumes "normalize_legacy_effect_routing d idx = Inr (d', idx')" "states_ok (def_states d) idx"
  shows "states_ok (def_states d') idx' \<and> def_actor_slots d' = def_actor_slots d \<and> def_worksets d' = def_worksets d
    \<and> def_limits d' = def_limits d \<and> def_initial d' = def_initial d
    \<and> (def_states d' = def_states d \<or> (\<exists>t. is_identifier t \<and> def_states d' = def_states d @ [blocked_state t]))"
proof -
  obtain hs hf d1 where relabel: "relabel_effects d = ((hs, hf), d1)" by (metis surj_pair)
  then obtain ts where d1: "d1 = d\<lparr>def_transitions := ts\<rparr>"
    by (auto simp: relabel_effects_def Let_def split: prod.splits)
  consider "d' = d" "idx' = idx" | "d' = d1" "idx' = idx"
    | d2 t ts' where "legacy_terminal d1 idx = Inr (d2, idx', t)" "d' = d2\<lparr>def_transitions := ts'\<rparr>"
    using assms(1) unfolding normalize_legacy_effect_routing_def Let_def relabel prod.case
    by (auto simp: result_simps split: if_splits)
  then show ?thesis
  proof cases
    case 3
    then show ?thesis using legacy_terminal_ok[OF 3(1)] assms(2) d1 by auto
  qed (use assms(2) d1 in simp_all)
qed

section \<open>The transition indexes\<close>

lemma filter_nth_snoc:
  "filter (\<lambda>i. P ((ts @ [t]) ! i)) [0..<length (ts @ [t])] =
     filter (\<lambda>i. P (ts ! i)) [0..<length ts] @ (if P t then [length ts] else [])"
proof -
  have "filter (\<lambda>i. P ((ts @ [t]) ! i)) [0..<length ts] = filter (\<lambda>i. P (ts ! i)) [0..<length ts]"
    by (rule filter_cong) (auto simp: nth_append)
  then show ?thesis by simp
qed

lemma map_nth_filter: "map ((!) ts) (filter (\<lambda>i. P (ts ! i)) [0..<length ts]) = filter P ts"
proof (induction ts rule: rev_induct)
  case (snoc t ts)
  have "map ((!) (ts @ [t])) (filter (\<lambda>i. P (ts ! i)) [0..<length ts]) = map ((!) ts) (filter (\<lambda>i. P (ts ! i)) [0..<length ts])"
    by (rule map_cong) (auto simp: nth_append)
  then show ?case using snoc by (simp add: filter_nth_snoc del: length_append)
qed simp

definition indexed :: "transition list \<Rightarrow> transition_index \<Rightarrow> bool" where
  "indexed ts x \<longleftrightarrow>
     (\<forall>s. get_or [] (ti_outgoing x) s = filter (\<lambda>i. tr_from (ts ! i) = s) [0..<length ts])
   \<and> (\<forall>s e. get_or [] (ti_events x) (s, e) = filter (\<lambda>i. tr_from (ts ! i) = s \<and> tr_event (ts ! i) = e) [0..<length ts])
   \<and> (\<forall>s. get_or {} (ti_predecessors x) s = tr_from ` {t \<in> set ts. tr_to t = s})"

lemma indexedD:
  assumes "indexed ts x"
  shows "get_or [] (ti_outgoing x) s = filter (\<lambda>i. tr_from (ts ! i) = s) [0..<length ts]"
    "get_or [] (ti_events x) (s, e) = filter (\<lambda>i. tr_from (ts ! i) = s \<and> tr_event (ts ! i) = e) [0..<length ts]"
    "get_or {} (ti_predecessors x) s = tr_from ` {t \<in> set ts. tr_to t = s}"
  using assms by (simp_all add: indexed_def)

lemma indexed_snoc:
  assumes "indexed ts x"
  shows "indexed (ts @ [t]) (x\<lparr>ti_ids := insert (tr_id t) (ti_ids x),
       ti_events := bt_update [] (tr_from t, tr_event t) (\<lambda>is. is @ [length ts]) (ti_events x),
       ti_outgoing := bt_update [] (tr_from t) (\<lambda>is. is @ [length ts]) (ti_outgoing x),
       ti_predecessors := bt_update {} (tr_to t) (insert (tr_from t)) (ti_predecessors x)\<rparr>)"
  unfolding indexed_def
  using filter_nth_snoc[of "\<lambda>t. tr_from t = s" ts t for s]
    filter_nth_snoc[of "\<lambda>t. tr_from t = s \<and> tr_event t = e" ts t for s e]
  by (auto simp: indexedD[OF assms] simp del: length_append upt_Suc)

text \<open>What is checked of every transition.\<close>

definition transition_ok :: "digest_env \<Rightarrow> workflow_definition \<Rightarrow> state_indexes \<Rightarrow> transition \<Rightarrow> bool" where
  "transition_ok env d idx t \<longleftrightarrow> is_identifier (tr_id t)
     \<and> map_of idx (tr_from t) \<noteq> None \<and> map_of idx (tr_to t) \<noteq> None
     \<and> (tr_mode t = Flow \<or> map_option gs_kind (state_at d idx (tr_from t)) \<noteq> Some KFork)
     \<and> (\<forall>g. tr_guard t = Some g \<longrightarrow> validate_guard env g = Inr ())"

lemma index_transition_step:
  assumes "index_transition env d idx x (i, t) = Inr x'"
  shows "transition_ok env d idx t" "tr_id t \<notin> ti_ids x" "ti_ids x' = insert (tr_id t) (ti_ids x)"
    "x' = x\<lparr>ti_ids := insert (tr_id t) (ti_ids x),
       ti_events := bt_update [] (tr_from t, tr_event t) (\<lambda>is. is @ [i]) (ti_events x),
       ti_outgoing := bt_update [] (tr_from t) (\<lambda>is. is @ [i]) (ti_outgoing x),
       ti_predecessors := bt_update {} (tr_to t) (insert (tr_from t)) (ti_predecessors x)\<rparr>"
  using assms by (auto simp: index_transition_def transition_ok_def result_simps validate_identifier_def)

lemma index_transition_run:
  assumes "run_all (index_transition env d idx) x (enumerate (length ts) ts') = Inr x'"
    "indexed ts x" "ti_ids x = tr_id ` set ts" "distinct (map tr_id ts)"
  shows "indexed (ts @ ts') x' \<and> distinct (map tr_id (ts @ ts')) \<and> (\<forall>t\<in>set ts'. transition_ok env d idx t)"
  using assms
proof (induction ts' arbitrary: ts x)
  case (Cons t ts')
  from Cons.prems(1) obtain x1 where
    step: "index_transition env d idx x (length ts, t) = Inr x1" and
    rest: "run_all (index_transition env d idx) x1 (enumerate (length (ts @ [t])) ts') = Inr x'"
    by (auto simp: result_simps)
  note st = index_transition_step[OF step]
  have "indexed (ts @ [t]) x1" using indexed_snoc[OF Cons.prems(2), of t] st(4) by simp
  moreover have "ti_ids x1 = tr_id ` set (ts @ [t])" "distinct (map tr_id (ts @ [t]))"
    using st(2,3) Cons.prems(3,4) by auto
  ultimately have "indexed ((ts @ [t]) @ ts') x' \<and> distinct (map tr_id ((ts @ [t]) @ ts'))
      \<and> (\<forall>t\<in>set ts'. transition_ok env d idx t)"
    by (rule Cons.IH[OF rest])
  then show ?case using st(1) by simp
qed simp

lemma index_transitions_ok:
  assumes "index_transitions env d idx = Inr x"
  shows "indexed (def_transitions d) x" "distinct (map tr_id (def_transitions d))"
    "t \<in> set (def_transitions d) \<Longrightarrow> transition_ok env d idx t"
proof -
  have "indexed [] \<lparr>ti_ids = {}, ti_events = [], ti_outgoing = [], ti_predecessors = []\<rparr>"
    by (simp add: indexed_def)
  with index_transition_run[of env d idx "\<lparr>ti_ids = {}, ti_events = [], ti_outgoing = [], ti_predecessors = []\<rparr>"
      "[]" "def_transitions d" x] assms
  have "indexed (def_transitions d) x \<and> distinct (map tr_id (def_transitions d))
      \<and> (\<forall>t\<in>set (def_transitions d). transition_ok env d idx t)"
    by (simp add: index_transitions_def)
  then show "indexed (def_transitions d) x" "distinct (map tr_id (def_transitions d))"
    "t \<in> set (def_transitions d) \<Longrightarrow> transition_ok env d idx t" by blast+
qed

lemma indexed_out_at: "indexed (def_transitions d) x \<Longrightarrow> out_at d (ti_outgoing x) s = filter (\<lambda>t. tr_from t = s) (def_transitions d)"
  using map_nth_filter[where P = "\<lambda>t. tr_from t = s"] by (simp add: out_at_def indexedD)

lemma indexed_trs_at:
  "indexed (def_transitions d) x \<Longrightarrow>
     trs_at d (ti_events x) s e = filter (\<lambda>t. tr_from t = s \<and> tr_event t = e) (def_transitions d)"
  using map_nth_filter[where P = "\<lambda>t. tr_from t = s \<and> tr_event t = e"] by (simp add: trs_at_def indexedD)

section \<open>Searches\<close>

definition edge_rel :: "(rstr \<Rightarrow> failure + (transition \<Rightarrow> bool)) \<Rightarrow> workflow_definition \<Rightarrow> out_indexes \<Rightarrow> (rstr \<times> rstr) set" where
  "edge_rel edges d oi = {(s, tr_to t) |s t follow. edges s = Inr follow \<and> t \<in> set (out_at d oi s) \<and> follow t}"

text \<open>A set that is closed under the followed edges and on no cycle.\<close>

definition settled :: "(rstr \<times> rstr) set \<Rightarrow> rstr set \<Rightarrow> bool" where
  "settled R V \<longleftrightarrow> R `` V \<subseteq> V \<and> (\<forall>v\<in>V. (v, v) \<notin> R\<^sup>+)"

lemma settled_trancl:
  assumes "settled R V" "(a, b) \<in> R\<^sup>*" "a \<in> V"
  shows "b \<in> V"
  using assms(2,1,3) by (induction rule: rtrancl_induct) (auto simp: settled_def)

lemma settled_insert:
  assumes "settled R V" "s \<notin> V" "R `` {s} \<subseteq> V"
  shows "settled R (insert s V)"
proof -
  have "(s, s) \<notin> R\<^sup>+"
  proof
    assume "(s, s) \<in> R\<^sup>+"
    then obtain c where "(s, c) \<in> R" "(c, s) \<in> R\<^sup>*" by (meson tranclD)
    then show False using settled_trancl[OF assms(1)] assms(2,3) by blast
  qed
  then show ?thesis using assms by (auto simp: settled_def)
qed

lemma visit_settles:
  assumes "visit edges e d oi visiting visited ss = Inr visited'"
    and "settled (edge_rel edges d oi) visited" "visited \<inter> visiting = {}"
  shows "settled (edge_rel edges d oi) visited' \<and> visited' \<inter> visiting = {} \<and> visited \<subseteq> visited' \<and> set ss \<subseteq> visited'"
  using assms
proof (induction edges e d oi visiting visited ss arbitrary: visited' rule: visit.induct)
  case (2 edges e d oi visiting visited s ss)
  show ?case
  proof (cases "s \<in> visited")
    case True
    then have "s \<notin> visiting" using "2.prems"(3) by blast
    then show ?thesis using "2.IH"(1)[of visited'] "2.prems" True by auto
  next
    case False
    have new: "s \<notin> visiting" using "2.prems"(1) by (auto split: if_splits)
    from "2.prems"(1) False new obtain follow v1 where
      follow: "edges s = Inr follow" and
      v1: "visit edges e d oi (insert s visiting) visited (map tr_to (filter follow (out_at d oi s))) = Inr v1" and
      rest: "visit edges e d oi visiting (insert s v1) ss = Inr visited'"
      by (auto simp: result_simps)
    have ih: "settled (edge_rel edges d oi) v1 \<and> v1 \<inter> insert s visiting = {} \<and> visited \<subseteq> v1
        \<and> set (map tr_to (filter follow (out_at d oi s))) \<subseteq> v1"
      by (rule "2.IH"(2)[OF new False follow v1]) (use "2.prems"(2,3) False in auto)
    have "edge_rel edges d oi `` {s} \<subseteq> v1"
      using ih follow by (auto simp: edge_rel_def)
    with ih have settled: "settled (edge_rel edges d oi) (insert s v1)" by (auto intro: settled_insert)
    have "settled (edge_rel edges d oi) visited' \<and> visited' \<inter> visiting = {} \<and> insert s v1 \<subseteq> visited' \<and> set ss \<subseteq> visited'"
      by (rule "2.IH"(3)[OF new False follow v1 rest settled]) (use ih new in auto)
    then show ?thesis using ih by auto
  qed
qed simp

text \<open>Reachability: what the search has seen or queued covers everything reachable.\<close>

definition graph_rel :: "workflow_definition \<Rightarrow> out_indexes \<Rightarrow> (rstr \<times> rstr) set" where
  "graph_rel d oi = {(s, tr_to t) |s t. t \<in> set (out_at d oi s)}"

lemma reach_from_eq:
  assumes "graph_rel d oi `` seen \<subseteq> seen \<union> set queue"
  shows "reach_from d oi seen queue = seen \<union> (graph_rel d oi)\<^sup>* `` set queue"
  using assms
proof (induction d oi seen queue rule: reach_from.induct)
  case (1 d oi seen)
  then show ?case by simp
next
  case (2 d oi seen s queue)
  let ?R = "graph_rel d oi"
  show ?case
  proof (cases "s \<in> seen")
    case True
    have "?R\<^sup>* `` {s} \<subseteq> seen \<union> ?R\<^sup>* `` set queue"
    proof
      fix b assume "b \<in> ?R\<^sup>* `` {s}"
      then have "(s, b) \<in> ?R\<^sup>*" by simp
      then show "b \<in> seen \<union> ?R\<^sup>* `` set queue"
      proof (induction rule: rtrancl_induct)
        case (step b c)
        then show ?case
        proof (cases "b \<in> seen")
          case True
          with step(2) "2.prems" \<open>s \<in> seen\<close> have "c \<in> seen \<union> set queue" by auto
          then show ?thesis by auto
        next
          case False
          with step(3) obtain q where "q \<in> set queue" "(q, b) \<in> ?R\<^sup>*" by auto
          with step(2) show ?thesis by (auto intro: rtrancl_into_rtrancl)
        qed
      qed (simp add: True)
    qed
    moreover have "?R `` seen \<subseteq> seen \<union> set queue" using "2.prems" True by auto
    ultimately have "reach_from d oi seen queue = seen \<union> ?R\<^sup>* `` set queue" using "2.IH"(1)[OF True] by blast
    moreover have "?R\<^sup>* `` set (s # queue) = ?R\<^sup>* `` {s} \<union> ?R\<^sup>* `` set queue" by auto
    ultimately show ?thesis using True \<open>?R\<^sup>* `` {s} \<subseteq> seen \<union> ?R\<^sup>* `` set queue\<close> by auto
  next
    case False
    have succ: "?R `` {s} = tr_to ` set (out_at d oi s)" by (auto simp: graph_rel_def)
    have "?R `` insert s seen \<subseteq> insert s seen \<union> set (queue @ map tr_to (out_at d oi s))"
      using "2.prems" succ by auto
    from "2.IH"(2)[OF False this]
    have "reach_from d oi seen (s # queue) = insert s seen \<union> ?R\<^sup>* `` (set queue \<union> ?R `` {s})"
      using False by (simp add: succ)
    also have "\<dots> = seen \<union> ?R\<^sup>* `` set (s # queue)"
    proof -
      have "insert s (?R\<^sup>* `` (?R `` {s})) = ?R\<^sup>* `` {s}"
        by (auto intro: converse_rtrancl_into_rtrancl elim: converse_rtranclE)
      then show ?thesis by (auto simp: Image_Un)
    qed
    finally show ?thesis .
  qed
qed

lemma reachable_states_eq: "reachable_states d oi = (graph_rel d oi)\<^sup>* `` {def_initial d}"
  using reach_from_eq[of d oi "{}" "[def_initial d]"] by (simp add: reachable_states_def del: reach_from.simps)

end
