(* ===== verification/Flywheel_Routing.thy ===== *)
theory Flywheel_Routing
  imports Flywheel_Compile
begin

text \<open>
  The guarantees of a compiled workflow (\<open>graph.rs\<close>): routing finds exactly one transition,
  every state is reachable, no cycle is free of effects, and every fork opens a closed
  parallel region that ends in its own join.
\<close>

section \<open>A compiled workflow\<close>

definition graph_ok :: "compiled_workflow \<Rightarrow> bool" where
  "graph_ok w \<longleftrightarrow> (let d = cw_definition w in
     states_ok (def_states d) (cw_state_indexes w)
   \<and> (\<forall>s. cw_outgoing w s = filter (\<lambda>t. tr_from t = s) (def_transitions d))
   \<and> (\<forall>s e. cw_transitions w s e = filter (\<lambda>t. tr_from t = s \<and> tr_event t = e) (def_transitions d))
   \<and> (\<forall>s. predecessors w s = tr_from ` {t \<in> set (def_transitions d). tr_to t = s})
   \<and> (\<forall>t\<in>set (def_transitions d). tr_from t \<in> gs_id ` set (def_states d) \<and> tr_to t \<in> gs_id ` set (def_states d))
   \<and> def_initial d \<in> gs_id ` set (def_states d)
   \<and> (\<forall>st\<in>set (def_states d). check_edges d (cw_transition_indexes w) (cw_outgoing_indexes w) st = Inr ()))"

lemma graph_okD:
  assumes "graph_ok w"
  shows "states_ok (def_states (cw_definition w)) (cw_state_indexes w)"
    "cw_outgoing w s = filter (\<lambda>t. tr_from t = s) (def_transitions (cw_definition w))"
    "cw_transitions w s e = filter (\<lambda>t. tr_from t = s \<and> tr_event t = e) (def_transitions (cw_definition w))"
    "predecessors w s = tr_from ` {t \<in> set (def_transitions (cw_definition w)). tr_to t = s}"
    "t \<in> set (def_transitions (cw_definition w)) \<Longrightarrow> tr_from t \<in> gs_id ` set (def_states (cw_definition w))"
    "t \<in> set (def_transitions (cw_definition w)) \<Longrightarrow> tr_to t \<in> gs_id ` set (def_states (cw_definition w))"
    "def_initial (cw_definition w) \<in> gs_id ` set (def_states (cw_definition w))"
    "st \<in> set (def_states (cw_definition w)) \<Longrightarrow>
       check_edges (cw_definition w) (cw_transition_indexes w) (cw_outgoing_indexes w) st = Inr ()"
  using assms by (simp_all add: graph_ok_def Let_def)

lemma graph_state_iff:
  "graph_ok w \<Longrightarrow> cw_state w s = Some st \<longleftrightarrow> st \<in> set (def_states (cw_definition w)) \<and> gs_id st = s"
  unfolding cw_state_def by (rule state_at_iff[OF graph_okD(1)])

lemma graph_state_known: "graph_ok w \<Longrightarrow> s \<in> gs_id ` set (def_states (cw_definition w)) \<Longrightarrow> \<exists>st. cw_state w s = Some st"
  by (auto simp: graph_state_iff)

text \<open>The stages of \<open>compile_graph\<close>.\<close>

lemma compile_graphE:
  assumes "compile_graph env d idx = Inr w"
  obtains x joins where "index_transitions env d idx = Inr x"
    "validate_guard_sets env d idx (ti_events x) = Inr ()"
    "validate_state_edges d (ti_events x) (ti_outgoing x) = Inr ()"
    "validate_parallel_regions d idx (ti_events x) (ti_outgoing x) (ti_predecessors x) = Inr joins"
    "\<forall>st\<in>set (def_states d). gs_kind st = KJoin \<longrightarrow>
       card (get_or {} (ti_predecessors x) (gs_id st)) = 1 \<or> gs_id st \<in> joins"
    "card (reachable_states d (ti_outgoing x)) = length (def_states d)"
    "reject_effect_free_cycles d idx (ti_outgoing x) = Inr ()"
    "w = \<lparr>cw_definition = d, cw_state_indexes = idx, cw_transition_indexes = ti_events x,
       cw_outgoing_indexes = ti_outgoing x, cw_predecessors = ti_predecessors x,
       cw_reachable = reachable_states d (ti_outgoing x)\<rparr>"
  using assms by (auto simp: compile_graph_def Let_def result_simps)

lemma compile_graph_ok:
  assumes "compile_graph env d idx = Inr w" "states_ok (def_states d) idx" "def_initial d \<in> gs_id ` set (def_states d)"
  shows "graph_ok w"
proof -
  from assms(1) obtain x joins where x: "index_transitions env d idx = Inr x"
    and edges: "validate_state_edges d (ti_events x) (ti_outgoing x) = Inr ()"
    and w: "w = \<lparr>cw_definition = d, cw_state_indexes = idx, cw_transition_indexes = ti_events x,
       cw_outgoing_indexes = ti_outgoing x, cw_predecessors = ti_predecessors x,
       cw_reachable = reachable_states d (ti_outgoing x)\<rparr>"
    by (rule compile_graphE)
  note ok = index_transitions_ok[OF x]
  have known: "tr_from t \<in> gs_id ` set (def_states d) \<and> tr_to t \<in> gs_id ` set (def_states d)"
    if "t \<in> set (def_transitions d)" for t
    using ok(3)[OF that] state_at_known[OF assms(2)] by (simp add: transition_ok_def)
  show ?thesis
    unfolding graph_ok_def Let_def w
    using assms(2,3) known edges
    by (simp add: cw_outgoing_def cw_transitions_def predecessors_def indexed_out_at[OF ok(1)]
        indexed_trs_at[OF ok(1)] indexedD(3)[OF ok(1)] validate_state_edges_def check_each_Inr)
qed

text \<open>The stages of \<open>compile_workflow_inner\<close>: what is known of the definition that is compiled.\<close>

lemma compile_innerE:
  assumes "compile_workflow_inner env d0 legacy = Inr w"
  obtains d1 idx1 rts wss d idx where
    "check_limits d0 = Inr ()" "d1 = normalize_entry_slot d0" "check_bindings d1 = Inr (rts, wss)"
    "index_states d1 rts wss = Inr idx1"
    "legacy \<and> normalize_legacy_effect_routing d1 idx1 = Inr (d, idx) \<or> \<not> legacy \<and> (d, idx) = (d1, idx1)"
    "length (def_states d) \<le> MAX_GRAPH_STATES" "length (def_transitions d) \<le> MAX_GRAPH_TRANSITIONS"
    "compile_graph env d idx = Inr w"
proof -
  have norm: "def_states (normalize_entry_slot d0) = def_states d0" "def_transitions (normalize_entry_slot d0) = def_transitions d0"
    by (simp_all add: normalize_entry_slot_def)
  have "length (def_states d0) \<le> MAX_GRAPH_STATES" "length (def_transitions d0) \<le> MAX_GRAPH_TRANSITIONS"
    if "check_limits d0 = Inr ()"
    using that by (simp_all add: check_limits_def result_simps)
  with assms that norm show ?thesis
    by (cases legacy) (auto simp: compile_workflow_inner_def Let_def result_simps)
qed

lemma compile_inner_graph:
  assumes "compile_workflow_inner env d0 legacy = Inr w"
  shows "graph_ok w" "compile_graph env (cw_definition w) (cw_state_indexes w) = Inr w"
proof -
  from assms obtain d1 idx1 rts wss d idx where
    states: "index_states d1 rts wss = Inr idx1" and
    legacy: "legacy \<and> normalize_legacy_effect_routing d1 idx1 = Inr (d, idx) \<or> \<not> legacy \<and> (d, idx) = (d1, idx1)" and
    graph: "compile_graph env d idx = Inr w"
    by (rule compile_innerE)
  note ok = index_states_ok[OF states]
  have "states_ok (def_states d) idx \<and> def_initial d \<in> gs_id ` set (def_states d)"
    using legacy normalize_legacy_frame[OF _ ok(1)] ok(1,2) by auto
  then show "graph_ok w" using compile_graph_ok[OF graph] by blast
  show "compile_graph env (cw_definition w) (cw_state_indexes w) = Inr w"
  proof -
    from graph have "cw_definition w = d \<and> cw_state_indexes w = idx" by (rule compile_graphE) simp
    with graph show ?thesis by simp
  qed
qed

section \<open>Reachability and cycles\<close>

definition flow_edges :: "compiled_workflow \<Rightarrow> (rstr \<times> rstr) set" where
  "flow_edges w = {(tr_from t, tr_to t) |t. t \<in> set (def_transitions (cw_definition w))}"

text \<open>The edges the machine takes on its own, without an effect in between.\<close>

definition automatic_steps :: "compiled_workflow \<Rightarrow> (rstr \<times> rstr) set" where
  "automatic_steps w = {(gs_id st, tr_to t) |st t. st \<in> set (def_states (cw_definition w))
     \<and> t \<in> set (def_transitions (cw_definition w)) \<and> tr_from t = gs_id st \<and> automatic_edge (gs_kind st) t}"

lemma compiled_reachable:
  assumes "compile_workflow_inner env d0 legacy = Inr w"
  shows "cw_reachable w = (flow_edges w)\<^sup>* `` {def_initial (cw_definition w)}
    \<and> cw_reachable w = gs_id ` set (def_states (cw_definition w))"
proof -
  note g = compile_inner_graph[OF assms]
  let ?d = "cw_definition w"
  from g(2) obtain x where x: "index_transitions env ?d (cw_state_indexes w) = Inr x"
    and card: "card (reachable_states ?d (ti_outgoing x)) = length (def_states ?d)"
    and w: "w = \<lparr>cw_definition = ?d, cw_state_indexes = cw_state_indexes w, cw_transition_indexes = ti_events x,
       cw_outgoing_indexes = ti_outgoing x, cw_predecessors = ti_predecessors x,
       cw_reachable = reachable_states ?d (ti_outgoing x)\<rparr>"
    by (rule compile_graphE)
  have "graph_rel ?d (ti_outgoing x) = flow_edges w"
    using indexed_out_at[OF index_transitions_ok(1)[OF x]] by (auto simp: graph_rel_def flow_edges_def)
  moreover have "cw_reachable w = reachable_states ?d (ti_outgoing x)" by (subst w) simp
  ultimately have r: "cw_reachable w = (flow_edges w)\<^sup>* `` {def_initial ?d}" by (simp add: reachable_states_eq)
  have "cw_reachable w \<subseteq> gs_id ` set (def_states ?d)"
  proof
    fix s assume "s \<in> cw_reachable w"
    then have "(def_initial ?d, s) \<in> (flow_edges w)\<^sup>*" using r by simp
    then show "s \<in> gs_id ` set (def_states ?d)"
      by (induction rule: rtrancl_induct) (auto simp: flow_edges_def graph_okD[OF g(1)])
  qed
  moreover have "card (gs_id ` set (def_states ?d)) = card (cw_reachable w)"
    using card \<open>cw_reachable w = reachable_states ?d (ti_outgoing x)\<close> states_ok_distinct[OF graph_okD(1)[OF g(1)]]
    by (metis distinct_card length_map set_map)
  ultimately have "cw_reachable w = gs_id ` set (def_states ?d)"
    by (intro card_subset_eq) auto
  with r show ?thesis by simp
qed

lemma automatic_edges_iff:
  "automatic_edges d idx s = Inr f \<longleftrightarrow> (\<exists>st. state_at d idx s = Some st \<and> f = automatic_edge (gs_kind st))"
  by (auto simp: automatic_edges_def split: option.splits)

lemma compiled_acyclic:
  assumes "compile_workflow_inner env d0 legacy = Inr w"
  shows "acyclic (automatic_steps w)"
proof -
  note g = compile_inner_graph[OF assms]
  let ?d = "cw_definition w" and ?idx = "cw_state_indexes w"
  from g(2) obtain x where x: "index_transitions env ?d ?idx = Inr x"
    and cyc: "reject_effect_free_cycles ?d ?idx (ti_outgoing x) = Inr ()"
    by (rule compile_graphE)
  let ?R = "edge_rel (automatic_edges ?d ?idx) ?d (ti_outgoing x)"
  have rel: "automatic_steps w = ?R"
  proof (intro set_eqI iffI)
    fix p assume "p \<in> automatic_steps w"
    then obtain st t where p: "p = (gs_id st, tr_to t)" "st \<in> set (def_states ?d)" "t \<in> set (def_transitions ?d)"
      "tr_from t = gs_id st" "automatic_edge (gs_kind st) t"
      unfolding automatic_steps_def by blast
    then have "automatic_edges ?d ?idx (gs_id st) = Inr (automatic_edge (gs_kind st))"
      using state_at_iff[OF graph_okD(1)[OF g(1)]] by (metis automatic_edges_iff)
    with p show "p \<in> ?R"
      unfolding edge_rel_def indexed_out_at[OF index_transitions_ok(1)[OF x]] by auto
  next
    fix p assume "p \<in> ?R"
    then obtain s t st where p: "p = (s, tr_to t)" "state_at ?d ?idx s = Some st"
      "t \<in> set (def_transitions ?d)" "tr_from t = s" "automatic_edge (gs_kind st) t"
      unfolding edge_rel_def indexed_out_at[OF index_transitions_ok(1)[OF x]] automatic_edges_iff by auto
    from p(2) have st: "st \<in> set (def_states ?d)" "gs_id st = s"
      by (simp_all add: state_at_iff[OF graph_okD(1)[OF g(1)]])
    with p have "p = (gs_id st, tr_to t)" "tr_from t = gs_id st" by simp_all
    with p st(1) show "p \<in> automatic_steps w" unfolding automatic_steps_def by blast
  qed
  from cyc obtain V where "visit (automatic_edges ?d ?idx) (Code (lit ''workflow_effect_free_cycle'')) ?d
      (ti_outgoing x) {} {} (map gs_id (def_states ?d)) = Inr V"
    by (auto simp: reject_effect_free_cycles_def result_simps)
  then have "settled ?R V \<and> V \<inter> {} = {} \<and> {} \<subseteq> V \<and> set (map gs_id (def_states ?d)) \<subseteq> V"
    by (rule visit_settles) (simp_all add: settled_def)
  then have V: "settled ?R V" "gs_id ` set (def_states ?d) \<subseteq> V" by auto
  show ?thesis
    unfolding acyclic_def
  proof (intro allI notI)
    fix s assume s: "(s, s) \<in> (automatic_steps w)\<^sup>+"
    then obtain c where "(s, c) \<in> automatic_steps w" by (meson tranclD)
    then have "s \<in> V" using V(2) by (auto simp: automatic_steps_def)
    then show False using V(1) s rel by (auto simp: settled_def)
  qed
qed

section \<open>Guards\<close>

definition guards_of :: "transition list \<Rightarrow> guard_expression list" where
  "guards_of ts = List.map_filter tr_guard ts"

lemma guards_of_simps [simp]:
  "guards_of [] = []"
  "guards_of (ts @ us) = guards_of ts @ guards_of us"
  "guards_of [t] = (case tr_guard t of None \<Rightarrow> [] | Some g \<Rightarrow> [g])"
  by (simp_all add: guards_of_def map_filter_def split: option.splits)

lemma guard_count_insert:
  "bt_wf m \<Longrightarrow> guard_count (bt_insert k v m) + card (get_or {} m k) = card v + guard_count m"
proof (induction k v m rule: bt_insert.induct)
  case (2 k v k' v' m)
  have wf: "bt_wf m" and above: "\<forall>x\<in>fst ` set m. k' < x" using 2(2) by (auto simp: bt_wf_def)
  consider "k < k'" | "k = k'" | "k' < k" by (rule linorder_cases)
  then show ?case
  proof cases
    case 1
    then have "map_of m k = None" using above by (force simp: map_of_eq_None_iff)
    then show ?thesis using 1 by (simp add: guard_count_def get_or_def)
  next
    case 3
    have "guard_count (bt_insert k v m) + card (get_or {} m k) = card v + guard_count m"
      using 2(1) 3 wf by simp
    moreover have "k \<noteq> k'" "\<not> k < k'" using 3 by auto
    ultimately show ?thesis by (simp add: guard_count_def get_or_def)
  qed (simp add: guard_count_def get_or_def)
qed (simp add: guard_count_def get_or_def)

lemma guards_of_iff: "g \<in> set (guards_of ts) \<longleftrightarrow> (\<exists>t\<in>set ts. tr_guard t = Some g)"
  by (induction ts) (auto simp: guards_of_def map_filter_simps split: option.splits)

definition guard_table :: "digest_env \<Rightarrow> transition list \<Rightarrow> nat \<times> (rstr \<times> rstr set) list \<Rightarrow> bool" where
  "guard_table env ts = (\<lambda>(fallbacks, paths). bt_wf paths
     \<and> fallbacks = length (filter (\<lambda>t. tr_guard t = None) ts)
     \<and> guard_count paths = length (guards_of ts)
     \<and> (\<forall>p. get_or {} paths p = guard_text env ` {g \<in> set (guards_of ts). guard_path g = p})
     \<and> fst ` set paths = guard_path ` set (guards_of ts)
     \<and> distinct (map (\<lambda>g. (guard_path g, guard_text env g)) (guards_of ts)))"

lemma guard_table_step:
  assumes "guard_step env st t = Inr st'" "guard_table env ts st"
  shows "guard_table env (ts @ [t]) st'"
proof (cases st)
  case (Pair fallbacks paths)
  show ?thesis
  proof (cases "tr_guard t")
    case None
    then show ?thesis using assms Pair by (auto simp: guard_table_def)
  next
    case (Some g)
    have new: "guard_text env g \<notin> get_or {} paths (guard_path g)"
      and st': "st' = (fallbacks, bt_update {} (guard_path g) (insert (guard_text env g)) paths)"
      using assms(1) Pair Some by (auto simp: result_simps)
    have old: "bt_wf paths" "guard_count paths = length (guards_of ts)"
      "get_or {} paths p = guard_text env ` {g \<in> set (guards_of ts). guard_path g = p}"
      "distinct (map (\<lambda>g. (guard_path g, guard_text env g)) (guards_of ts))" for p
      using assms(2) Pair by (auto simp: guard_table_def)
    have "finite (get_or {} paths (guard_path g))" using old(3) by simp
    then have "guard_count (bt_update {} (guard_path g) (insert (guard_text env g)) paths) = Suc (length (guards_of ts))"
      using guard_count_insert[OF old(1), of "guard_path g" "insert (guard_text env g) (get_or {} paths (guard_path g))"]
        new old(2) by (simp add: bt_update_def)
    moreover have "guard_text env g \<notin> guard_text env ` {g' \<in> set (guards_of ts). guard_path g' = guard_path g}"
      using new old(3) by simp
    ultimately show ?thesis
      using assms(2) Pair Some st' old
      by (auto simp: guard_table_def bt_wf_update keys_bt_update)
  qed
qed

lemma guard_table_run:
  assumes "run_all (guard_step env) st ts' = Inr st'" "guard_table env ts st"
  shows "guard_table env (ts @ ts') st'"
  using assms
proof (induction ts' arbitrary: ts st)
  case (Cons t ts')
  from Cons.prems(1) obtain st1 where
    step: "guard_step env st t = Inr st1" and rest: "run_all (guard_step env) st1 ts' = Inr st'"
    by (auto simp: result_simps)
  have "guard_table env ((ts @ [t]) @ ts') st'"
    by (rule Cons.IH[OF rest guard_table_step[OF step Cons.prems(2)]])
  then show ?case by simp
qed simp

text \<open>What the guard rules give for one state and event that is not the fan-out of a fork.\<close>

lemma check_guard_setD:
  assumes "check_guard_set env ts = Inr ()"
  shows "distinct (map (\<lambda>g. (guard_path g, guard_text env g)) (guards_of ts))"
    and "guards_of ts \<noteq> [] \<Longrightarrow> \<exists>t\<in>set ts. tr_guard t = None"
    and "guards_of ts = [] \<Longrightarrow> length ts \<le> 1"
    and "1 < length (guards_of ts) \<Longrightarrow> g \<in> set (guards_of ts) \<Longrightarrow> h \<in> set (guards_of ts) \<Longrightarrow> guard_path g = guard_path h"
    and "1 < length (guards_of ts) \<Longrightarrow> g \<in> set (guards_of ts) \<Longrightarrow> guard_equals g \<noteq> None \<and> \<not> guard_exists g"
proof -
  from assms obtain fallbacks paths where
    run: "run_all (guard_step env) (0, []) ts = Inr (fallbacks, paths)" and
    fb: "guard_count paths = 0 \<or> fallbacks = 1" and
    many: "guard_count paths > 1 \<Longrightarrow> length paths = 1 \<and> list_all (\<lambda>t. case tr_guard t of None \<Rightarrow> True
        | Some g \<Rightarrow> guard_equals g \<noteq> None \<and> \<not> guard_exists g) ts" and
    few: "guard_count paths > 0 \<or> length ts \<le> 1"
    by (auto simp: check_guard_set_def Let_def result_simps split: if_splits)
  have "guard_table env [] (0, [])" by (simp add: guard_table_def guard_count_def)
  from guard_table_run[OF run this] have table: "guard_table env ts (fallbacks, paths)" by simp
  then have size: "guard_count paths = length (guards_of ts)"
    and keys: "fst ` set paths = guard_path ` set (guards_of ts)"
    and fallbacks: "fallbacks = length (filter (\<lambda>t. tr_guard t = None) ts)"
    by (simp_all add: guard_table_def)
  show "distinct (map (\<lambda>g. (guard_path g, guard_text env g)) (guards_of ts))"
    using table by (simp add: guard_table_def)
  show "\<exists>t\<in>set ts. tr_guard t = None" if "guards_of ts \<noteq> []"
  proof -
    have "filter (\<lambda>t. tr_guard t = None) ts \<noteq> []" using that fb fallbacks size by auto
    then show ?thesis by (simp add: filter_empty_conv)
  qed
  show "length ts \<le> 1" if "guards_of ts = []" using few size that by simp
  show "guard_path g = guard_path h"
    if "1 < length (guards_of ts)" "g \<in> set (guards_of ts)" "h \<in> set (guards_of ts)"
  proof -
    have "length paths = 1" using many that(1) size by simp
    then obtain kv where "paths = [kv]" by (auto simp: length_Suc_conv)
    moreover have "guard_path g \<in> fst ` set paths" "guard_path h \<in> fst ` set paths"
      using keys that by simp_all
    ultimately show ?thesis by simp
  qed
  show "guard_equals g \<noteq> None \<and> \<not> guard_exists g" if "1 < length (guards_of ts)" "g \<in> set (guards_of ts)"
  proof -
    obtain t where "t \<in> set ts" "tr_guard t = Some g"
      using \<open>g \<in> set (guards_of ts)\<close> by (auto simp: guards_of_iff)
    then show ?thesis using many that(1) size by (fastforce simp: list_all_iff)
  qed
qed

text \<open>A guard that compares with no negative zero.\<close>

definition plain_guard :: "transition \<Rightarrow> bool" where
  "plain_guard t = (case tr_guard t of None \<Rightarrow> True
     | Some g \<Rightarrow> (case guard_equals g of None \<Rightarrow> True | Some v \<Rightarrow> json_canon v = v))"

lemma guard_matches_value:
  assumes "guard_matches g payload" "guard_equals g = Some a"
  shows "map_option json_canon (get_path payload (filter (\<lambda>p. p \<noteq> []) (split_on (of_char CHR ''.'') (guard_path g))))
    = Some (json_canon a)"
  using assms by (simp add: guard_matches_def json_eq_def Let_def split: option.splits if_splits)

lemma guards_exclusive:
  assumes "check_guard_set env ts = Inr ()" "\<forall>t\<in>set ts. plain_guard t"
  shows "length (filter (\<lambda>g. guard_matches g payload) (guards_of ts)) \<le> 1"
proof (rule ccontr)
  let ?m = "filter (\<lambda>g. guard_matches g payload) (guards_of ts)"
  assume "\<not> length ?m \<le> 1"
  then have two: "1 < length ?m" by simp
  then have many: "1 < length (guards_of ts)" by (meson length_filter_le less_le_trans)
  have "distinct (map (\<lambda>g. (guard_path g, guard_text env g)) ?m)"
    using check_guard_setD(1)[OF assms(1)] by (simp add: distinct_map_filter)
  obtain g h gs where m: "?m = g # h # gs"
    using two by (cases ?m; cases "tl ?m") auto
  have mem: "g \<in> set (guards_of ts)" "h \<in> set (guards_of ts)" "guard_matches g payload" "guard_matches h payload"
    using m[THEN arg_cong[where f = set]] by auto
  obtain a b where eq: "guard_equals g = Some a" "guard_equals h = Some b" "\<not> guard_exists g" "\<not> guard_exists h"
    using check_guard_setD(5)[OF assms(1) many mem(1)] check_guard_setD(5)[OF assms(1) many mem(2)] by auto
  have path: "guard_path g = guard_path h" using check_guard_setD(4)[OF assms(1) many] mem by blast
  have "json_canon a = a" "json_canon b = b"
    using assms(2) mem(1,2) eq(1,2) unfolding guards_of_iff by (auto simp: plain_guard_def)
  moreover have "json_canon a = json_canon b"
    using trans[OF guard_matches_value[OF mem(3) eq(1), unfolded path, symmetric] guard_matches_value[OF mem(4) eq(2)]]
    by (simp only: option.inject)
  ultimately have "a = b" by metis
  then have "g = h" using eq path by (intro guard_expression.equality) simp_all
  then show False
    using \<open>distinct (map (\<lambda>g. (guard_path g, guard_text env g)) ?m)\<close> m by simp
qed

definition selects :: "json \<Rightarrow> transition list \<Rightarrow> transition option \<Rightarrow> transition option \<Rightarrow>
    transition option \<Rightarrow> transition option \<Rightarrow> bool" where
  "selects payload ts sel fb sel' fb' \<longleftrightarrow>
     run_all (select_step payload) (sel, fb) ts = Inr (sel', fb')
   \<and> (sel' = None \<longleftrightarrow> sel = None \<and> (\<forall>g\<in>set (guards_of ts). \<not> guard_matches g payload))
   \<and> (fb' = None \<longleftrightarrow> fb = None \<and> (\<forall>t\<in>set ts. tr_guard t \<noteq> None))
   \<and> set_option sel' \<subseteq> set_option sel \<union> set ts \<and> set_option fb' \<subseteq> set_option fb \<union> set ts"

lemma select_run:
  assumes "length (filter (\<lambda>g. guard_matches g payload) (guards_of ts)) + (if sel = None then 0 else 1) \<le> 1"
  shows "\<exists>sel' fb'. selects payload ts sel fb sel' fb'"
  using assms
proof (induction ts arbitrary: sel fb)
  case Nil
  show ?case by (auto simp: selects_def)
next
  case (Cons t ts)
  have split: "guards_of (t # ts) = guards_of [t] @ guards_of ts"
    using guards_of_simps(2)[of "[t]" ts] by simp
  have extend: "\<exists>sel' fb'. selects payload (t # ts) sel fb sel' fb'"
    if "selects payload [t] sel fb sel1 fb1"
      "length (filter (\<lambda>g. guard_matches g payload) (guards_of ts)) + (if sel1 = None then 0 else 1) \<le> 1" for sel1 fb1
  proof -
    from Cons.IH[OF that(2), of fb1] obtain sel' fb' where ih: "selects payload ts sel1 fb1 sel' fb'" by blast
    have "run_all (select_step payload) (sel, fb) (t # ts) = Inr (sel', fb')"
      using ih that(1) by (auto simp: selects_def result_simps)
    moreover have "set_option sel' \<subseteq> set_option sel \<union> set (t # ts)" "set_option fb' \<subseteq> set_option fb \<union> set (t # ts)"
      using ih that(1) by (auto simp: selects_def)
    moreover have "sel' = None \<longleftrightarrow> sel = None \<and> (\<forall>g\<in>set (guards_of (t # ts)). \<not> guard_matches g payload)"
      using ih that(1) unfolding selects_def split set_append ball_Un by blast
    moreover have "fb' = None \<longleftrightarrow> fb = None \<and> (\<forall>u\<in>set (t # ts). tr_guard u \<noteq> None)"
      using ih that(1) unfolding selects_def by simp
    ultimately show ?thesis unfolding selects_def by blast
  qed
  show ?case
  proof (cases "tr_guard t")
    case None
    show ?thesis
      by (rule extend[of sel "Some t"]) (use Cons.prems None in \<open>auto simp: selects_def split\<close>)
  next
    case (Some g)
    show ?thesis
    proof (cases "guard_matches g payload")
      case True
      then have "sel = None" using Cons.prems Some by (simp add: split split: if_splits)
      then show ?thesis
        by (intro extend[of "Some t" fb]) (use Cons.prems Some True in \<open>auto simp: selects_def split\<close>)
    next
      case False
      then show ?thesis
        by (intro extend[of sel fb]) (use Cons.prems Some False in \<open>auto simp: selects_def split\<close>)
    qed
  qed
qed

text \<open>The events a state of a kind is completed with.\<close>

fun routable :: "graph_state_kind \<Rightarrow> transition_event \<Rightarrow> bool" where
  "routable k Complete = (k \<in> {KPass, KChoice, KJoin})"
| "routable k e = (k \<in> {KAuthorization, KActor, KScript, KWorkset})"

lemma check_edges_routable:
  assumes "check_edges d ti oi st = Inr ()" "routable (gs_kind st) e"
    and "\<And>s. out_at d oi s = filter (\<lambda>t. tr_from t = s) ts"
    and "\<And>s e. trs_at d ti s e = filter (\<lambda>t. tr_from t = s \<and> tr_event t = e) ts"
  shows "trs_at d ti (gs_id st) e \<noteq> []"
proof (cases e)
  case Complete
  have mem: "\<exists>t. t \<in> set (out_at d oi (gs_id st)) \<and> tr_event t = Complete"
  proof (cases "gs_kind st = KChoice")
    case True
    then have "out_at d oi (gs_id st) \<noteq> []" "list_all (\<lambda>t. tr_event t = Complete) (out_at d oi (gs_id st))"
      using assms(1) by (simp_all add: check_edges_def Let_def result_simps)
    then show ?thesis by (cases "out_at d oi (gs_id st)") auto
  next
    case False
    then have "case out_at d oi (gs_id st) of [t] \<Rightarrow> tr_event t = Complete \<and> tr_guard t = None | _ \<Rightarrow> False"
      using assms(1,2) Complete by (auto simp: check_edges_def Let_def result_simps)
    then show ?thesis by (auto split: list.splits)
  qed
  then show ?thesis using Complete by (auto simp: assms(3,4) filter_empty_conv)
qed (use assms(1,2) in \<open>auto simp: check_edges_def Let_def result_simps\<close>)

lemma routing_total_aux:
  assumes "compile_workflow_inner env d0 legacy = Inr w"
    and "st \<in> set (def_states (cw_definition w))" "routable (gs_kind st) e"
    and "list_all plain_guard (def_transitions (cw_definition w))"
  shows "\<exists>t\<in>set (def_transitions (cw_definition w)). tr_from t = gs_id st \<and> tr_event t = e
    \<and> select_transition w (gs_id st) e payload = Inr (Some t)"
proof -
  let ?d = "cw_definition w" and ?ts = "cw_transitions w (gs_id st) e"
  note g = compile_inner_graph[OF assms(1)]
  note ok = graph_okD[OF g(1)]
  from g(2) obtain x where x: "index_transitions env ?d (cw_state_indexes w) = Inr x"
    and guards: "validate_guard_sets env ?d (cw_state_indexes w) (ti_events x) = Inr ()"
    and w: "w = \<lparr>cw_definition = ?d, cw_state_indexes = cw_state_indexes w, cw_transition_indexes = ti_events x,
       cw_outgoing_indexes = ti_outgoing x, cw_predecessors = ti_predecessors x,
       cw_reachable = reachable_states ?d (ti_outgoing x)\<rparr>"
    by (rule compile_graphE)
  have ti: "cw_transition_indexes w = ti_events x" by (subst w) simp
  have ne: "?ts \<noteq> []"
    using check_edges_routable[OF ok(8)[OF assms(2)] assms(3)] ok(2,3) by (simp add: cw_outgoing_def cw_transitions_def)
  then obtain ixs where look: "map_of (ti_events x) (gs_id st, e) = Some ixs"
    by (auto simp: cw_transitions_def trs_at_def get_or_def ti split: option.splits)
  have "\<not> is_fork_fanout ?d (cw_state_indexes w) (gs_id st, e)"
    using assms(2,3) graph_state_iff[OF g(1), of "gs_id st" st] by (cases e) (auto simp: is_fork_fanout_def cw_state_def)
  then have check: "check_guard_set env ?ts = Inr ()"
    using guards map_of_SomeD[OF look] look
    by (fastforce simp: validate_guard_sets_def check_each_Inr cw_transitions_def trs_at_def get_or_def ti)
  have plain: "\<forall>t\<in>set ?ts. plain_guard t" using assms(4) ok(3) by (simp add: list_all_iff)
  from select_run[of payload ?ts None None] guards_exclusive[OF check plain, of payload]
  obtain sel fb where sel: "selects payload ?ts None None sel fb" by auto
  have "\<exists>t\<in>set ?ts. tr_guard t = None"
  proof (cases "guards_of ?ts = []")
    case True
    obtain t where t: "t \<in> set ?ts" using ne by (cases ?ts) auto
    then have "tr_guard t = None" using True guards_of_iff[of _ ?ts] by (cases "tr_guard t") auto
    with t show ?thesis by blast
  qed (use check_guard_setD(2)[OF check] in blast)
  then have "fb \<noteq> None" using sel unfolding selects_def by blast
  then obtain t where "select_transition w (gs_id st) e payload = Inr (Some t)" "t \<in> set ?ts"
    using sel by (cases sel) (auto simp: select_transition_def selects_def)
  then show ?thesis using ok(3) by auto
qed

end
