(* ===== verification/Flywheel_Regions.thy ===== *)
theory Flywheel_Regions
  imports Flywheel_Routing
begin

text \<open>
  The parallel regions the compiler accepts (\<open>validate_parallel_regions\<close> of \<open>graph.rs\<close>): what
  the walk through a branch establishes, and from it the shape of the region of every fork.
\<close>

section \<open>The walk through a branch\<close>

definition kind_at :: "workflow_definition \<Rightarrow> state_indexes \<Rightarrow> rstr \<Rightarrow> graph_state_kind option" where
  "kind_at d idx s = map_option gs_kind (state_at d idx s)"

definition inner_kind :: "graph_state_kind option \<Rightarrow> bool" where
  "inner_kind k \<longleftrightarrow> k \<in> Some ` {KPass, KChoice, KAuthorization, KActor, KScript, KWorkset}"

definition join_edge :: "workflow_definition \<Rightarrow> state_indexes \<Rightarrow> transition \<Rightarrow> bool" where
  "join_edge d idx t \<longleftrightarrow> kind_at d idx (tr_to t) = Some KJoin"

lemma region_joinD:
  assumes "region_join j r = Inr r'"
  shows "r' = r\<lparr>r_join := Some j\<rparr>" "r_join r \<noteq> None \<Longrightarrow> r_join r = Some j"
  using assms by (auto simp: region_join_def result_simps split: option.splits)

lemma region_edge_cases:
  assumes "region_edge d idx s r t = Inr r'"
  shows "join_edge d idx t \<and> (r_join r = None \<or> r_join r = Some (tr_to t))
      \<and> r' = r\<lparr>r_join := Some (tr_to t), r_exits := insert s (r_exits r), r_branch_exits := insert s (r_branch_exits r)\<rparr>
    \<or> inner_kind (kind_at d idx (tr_to t)) \<and> r' = r\<lparr>r_queue := r_queue r @ [tr_to t]\<rparr>"
proof -
  from assms obtain st where st: "state_at d idx (tr_to t) = Some st"
    by (auto simp: region_edge_def result_simps)
  have k: "kind_at d idx (tr_to t) = Some (gs_kind st)" by (simp add: kind_at_def st)
  show ?thesis
  proof (cases "gs_kind st = KJoin")
    case True
    then obtain r1 where "region_join (tr_to t) r = Inr r1"
      "r' = r1\<lparr>r_exits := insert s (r_exits r1), r_branch_exits := insert s (r_branch_exits r1)\<rparr>"
      using assms by (auto simp: region_edge_def st result_simps)
    with region_joinD[of "tr_to t" r r1] show ?thesis
      using True k by (intro disjI1) (cases "r_join r"; auto simp: join_edge_def)
  next
    case False
    then have "gs_kind st \<notin> {KFork, KSucceed, KFail, KBlocked}" "r' = r\<lparr>r_queue := r_queue r @ [tr_to t]\<rparr>"
      using assms by (auto simp: region_edge_def st result_simps split: if_splits)
    then show ?thesis using False k by (intro disjI2) (cases "gs_kind st"; simp add: inner_kind_def)
  qed
qed

definition edge_done :: "workflow_definition \<Rightarrow> state_indexes \<Rightarrow> region \<Rightarrow> transition \<Rightarrow> bool" where
  "edge_done d idx r t \<longleftrightarrow> join_edge d idx t \<and> r_join r = Some (tr_to t)
     \<or> inner_kind (kind_at d idx (tr_to t)) \<and> tr_to t \<in> r_branch r \<union> set (r_queue r)"

lemma region_edges_run:
  assumes "run_all (region_edge d idx s) r ts = Inr r'"
  shows "r_branch r' = r_branch r \<and> set (r_queue r) \<subseteq> set (r_queue r')
    \<and> (\<forall>q\<in>set (r_queue r'). q \<in> set (r_queue r) \<or> inner_kind (kind_at d idx q))
    \<and> (r_join r \<noteq> None \<longrightarrow> r_join r' = r_join r)
    \<and> r_join r' \<in> insert (r_join r) (Some ` {j. kind_at d idx j = Some KJoin})
    \<and> r_branch_exits r' = r_branch_exits r \<union> {x. x = s \<and> list_ex (join_edge d idx) ts}
    \<and> r_exits r' = r_exits r \<union> {x. x = s \<and> list_ex (join_edge d idx) ts}
    \<and> (\<forall>t\<in>set ts. edge_done d idx r' t)"
  using assms
proof (induction ts arbitrary: r)
  case (Cons t ts)
  from Cons.prems obtain r1 where step: "region_edge d idx s r t = Inr r1"
    and rest: "run_all (region_edge d idx s) r1 ts = Inr r'"
    by (auto simp: result_simps)
  note ih = Cons.IH[OF rest]
  from region_edge_cases[OF step] consider
    (join) "join_edge d idx t" "r_join r = None \<or> r_join r = Some (tr_to t)"
      "r1 = r\<lparr>r_join := Some (tr_to t), r_exits := insert s (r_exits r), r_branch_exits := insert s (r_branch_exits r)\<rparr>"
    | (inner) "inner_kind (kind_at d idx (tr_to t))" "r1 = r\<lparr>r_queue := r_queue r @ [tr_to t]\<rparr>"
    by blast
  then show ?case
  proof cases
    case join
    have r1: "r_branch r1 = r_branch r" "r_queue r1 = r_queue r" "r_join r1 = Some (tr_to t)"
      "r_exits r1 = insert s (r_exits r)" "r_branch_exits r1 = insert s (r_branch_exits r)"
      by (simp_all add: join)
    have "r_join r' = Some (tr_to t)" "kind_at d idx (tr_to t) = Some KJoin"
      using ih r1 join(1) by (simp_all add: join_edge_def)
    moreover have "edge_done d idx r' t" using calculation by (simp add: edge_done_def join_edge_def)
    ultimately show ?thesis
    proof (intro conjI)
      show "r_join r \<noteq> None \<longrightarrow> r_join r' = r_join r" using join(2) \<open>r_join r' = Some (tr_to t)\<close> by auto
      show "r_branch_exits r' = r_branch_exits r \<union> {x. x = s \<and> list_ex (join_edge d idx) (t # ts)}"
        using ih r1(5) join(1) by auto
      show "r_exits r' = r_exits r \<union> {x. x = s \<and> list_ex (join_edge d idx) (t # ts)}"
        using ih r1(4) join(1) by auto
    qed (use ih r1(1,2) in simp_all)
  next
    case inner
    have r1: "r_branch r1 = r_branch r" "r_queue r1 = r_queue r @ [tr_to t]" "r_join r1 = r_join r"
      "r_exits r1 = r_exits r" "r_branch_exits r1 = r_branch_exits r"
      by (simp_all add: inner)
    have no: "\<not> join_edge d idx t" using inner(1) by (auto simp: join_edge_def inner_kind_def)
    have "tr_to t \<in> set (r_queue r')" using ih r1(2) by simp
    then have "edge_done d idx r' t" using inner(1) by (simp add: edge_done_def)
    then show ?thesis
    proof (intro conjI)
      show "\<forall>q\<in>set (r_queue r'). q \<in> set (r_queue r) \<or> inner_kind (kind_at d idx q)"
      proof
        fix q assume "q \<in> set (r_queue r')"
        then have "q \<in> set (r_queue r1) \<or> inner_kind (kind_at d idx q)" using ih by blast
        then show "q \<in> set (r_queue r) \<or> inner_kind (kind_at d idx q)" using inner(1) r1(2) by auto
      qed
    qed (use ih r1 no in simp_all)
  qed
qed auto

text \<open>
  The invariant of the walk from an inner state: every state of the branch is done, what is
  queued is an inner state, and the exits are the states with an edge to the join.
\<close>

definition walk_inv :: "workflow_definition \<Rightarrow> state_indexes \<Rightarrow> out_indexes \<Rightarrow> rstr set \<Rightarrow> rstr set \<Rightarrow> rstr option \<Rightarrow> region \<Rightarrow> bool" where
  "walk_inv d idx oi covered exits join r \<longleftrightarrow>
     (\<forall>s\<in>r_branch r \<union> set (r_queue r). inner_kind (kind_at d idx s))
   \<and> (\<forall>s\<in>r_branch r. s \<notin> covered \<and> list_all (edge_done d idx r) (out_at d oi s))
   \<and> r_branch_exits r = {s \<in> r_branch r. list_ex (join_edge d idx) (out_at d oi s)}
   \<and> r_exits r = exits \<union> r_branch_exits r
   \<and> (join \<noteq> None \<longrightarrow> r_join r = join)
   \<and> r_join r \<in> insert join (Some ` {j. kind_at d idx j = Some KJoin})"

lemma walk_invD:
  assumes "walk_inv d idx oi covered exits join r"
  shows "s \<in> r_branch r \<union> set (r_queue r) \<Longrightarrow> inner_kind (kind_at d idx s)"
    "s \<in> r_branch r \<Longrightarrow> s \<notin> covered" "s \<in> r_branch r \<Longrightarrow> t \<in> set (out_at d oi s) \<Longrightarrow> edge_done d idx r t"
    "r_branch_exits r = {s \<in> r_branch r. list_ex (join_edge d idx) (out_at d oi s)}"
    "r_exits r = exits \<union> r_branch_exits r" "join \<noteq> None \<Longrightarrow> r_join r = join"
    "r_join r \<in> insert join (Some ` {j. kind_at d idx j = Some KJoin})"
  using assms by (simp_all add: walk_inv_def list_all_iff)

lemma walk_inv_node:
  assumes inv: "walk_inv d idx oi covered exits join r" and q: "r_queue r = s # queue" and new: "s \<notin> r_branch r"
    and step: "region_node d idx oi covered s (r\<lparr>r_queue := queue, r_branch := insert s (r_branch r)\<rparr>) = Inr r'"
  shows "walk_inv d idx oi covered exits join r'"
proof -
  let ?r = "r\<lparr>r_queue := queue, r_branch := insert s (r_branch r)\<rparr>"
  note I = walk_invD[OF inv]
  have ks: "inner_kind (kind_at d idx s)" using I(1) q by simp
  then obtain st where st: "state_at d idx s = Some st" "gs_kind st \<notin> {KFork, KSucceed, KFail, KBlocked}" "gs_kind st \<noteq> KJoin"
    by (auto simp: inner_kind_def kind_at_def)
  then have cov: "s \<notin> covered" and run: "run_all (region_edge d idx s) ?r (out_at d oi s) = Inr r'"
    using step by (simp_all add: region_node_def result_simps)
  note R = region_edges_run[OF run]
  have keep: "edge_done d idx r' t" if "edge_done d idx r t" for t
    using that R q by (auto simp: edge_done_def)
  show ?thesis
    unfolding walk_inv_def
  proof (intro conjI ballI)
    fix u assume "u \<in> r_branch r' \<union> set (r_queue r')"
    then have "u \<in> insert s (r_branch r) \<union> set queue \<or> inner_kind (kind_at d idx u)" using R by auto
    then show "inner_kind (kind_at d idx u)" using I(1)[of u] q ks by auto
  next
    fix u assume u: "u \<in> r_branch r'"
    show "u \<notin> covered" using u R cov I(2) by auto
    show "list_all (edge_done d idx r') (out_at d oi u)"
    proof (cases "u = s")
      case True
      then show ?thesis using R by (simp add: list_all_iff)
    next
      case False
      then have "u \<in> r_branch r" using u R by auto
      then show ?thesis using I(3) keep by (simp add: list_all_iff)
    qed
  next
    show "r_branch_exits r' = {s \<in> r_branch r'. list_ex (join_edge d idx) (out_at d oi s)}"
      using R I(4) new by auto
    show "r_exits r' = exits \<union> r_branch_exits r'" using R I(5) by auto
    show "join \<noteq> None \<longrightarrow> r_join r' = join" using R I(6) by auto
    show "r_join r' \<in> insert join (Some ` {j. kind_at d idx j = Some KJoin})" using R I(7) by auto
  qed
qed

lemma region_walk_inv:
  assumes "region_walk d idx oi covered r = Inr r'" "walk_inv d idx oi covered exits join r"
  shows "walk_inv d idx oi covered exits join r' \<and> r_queue r' = [] \<and> r_branch r \<union> set (r_queue r) \<subseteq> r_branch r'"
  using assms
proof (induction d idx oi covered r rule: region_walk.induct)
  case (1 d idx oi covered r)
  show ?case
  proof (cases "r_queue r")
    case Nil
    then show ?thesis using "1.prems" by (simp add: region_walk.simps)
  next
    case (Cons s queue)
    show ?thesis
    proof (cases "s \<in> r_branch r")
      case True
      then have go: "region_walk d idx oi covered (r\<lparr>r_queue := queue\<rparr>) = Inr r'"
        using "1.prems"(1) Cons by (subst (asm) region_walk.simps) simp
      have "walk_inv d idx oi covered exits join (r\<lparr>r_queue := queue\<rparr>)"
        using "1.prems"(2) Cons True unfolding walk_inv_def edge_done_def by (simp add: list_all_iff) blast
      from "1.IH"(1)[OF Cons True go this] show ?thesis using Cons True by auto
    next
      case False
      from "1.prems"(1) Cons False obtain r1 where
        step: "region_node d idx oi covered s (r\<lparr>r_queue := queue, r_branch := insert s (r_branch r)\<rparr>) = Inr r1"
        and go: "region_walk d idx oi covered r1 = Inr r'"
        by (subst (asm) region_walk.simps) (auto simp: result_simps)
      note inv = walk_inv_node[OF "1.prems"(2) Cons False step]
      from "1.IH"(2)[OF Cons False step go inv]
      have ih: "walk_inv d idx oi covered exits join r' \<and> r_queue r' = [] \<and> r_branch r1 \<union> set (r_queue r1) \<subseteq> r_branch r'" .
      have "r_branch r1 = insert s (r_branch r)" using region_node_frame(1)[OF step] by simp
      moreover have "set queue \<subseteq> set (r_queue r1)"
      proof -
        have "inner_kind (kind_at d idx s)" using walk_invD(1)[OF "1.prems"(2)] Cons by simp
        then obtain st where "state_at d idx s = Some st" "gs_kind st \<notin> {KFork, KSucceed, KFail, KBlocked}" "gs_kind st \<noteq> KJoin"
          by (auto simp: inner_kind_def kind_at_def)
        then have "run_all (region_edge d idx s) (r\<lparr>r_queue := queue, r_branch := insert s (r_branch r)\<rparr>) (out_at d oi s) = Inr r1"
          using step by (simp add: region_node_def result_simps)
        from region_edges_run[OF this] show ?thesis by simp
      qed
      ultimately show ?thesis using ih Cons by auto
    qed
  qed
qed

text \<open>A branch that starts with a join has no exit.\<close>

lemma region_walk_join:
  assumes "kind_at d idx s = Some KJoin"
    and "region_walk d idx oi covered \<lparr>r_branch = {}, r_branch_exits = {}, r_exits = exits, r_join = join, r_queue = [s]\<rparr> = Inr r"
  shows "r_branch_exits r = {}"
proof -
  let ?r = "\<lparr>r_branch = {s}, r_branch_exits = {}, r_exits = exits, r_join = join, r_queue = []\<rparr>"
  from assms(1) obtain st where st: "state_at d idx s = Some st" "gs_kind st = KJoin" by (auto simp: kind_at_def)
  have "and_then (region_node d idx oi covered s ?r) (region_walk d idx oi covered) = Inr r"
    using assms(2) by (subst (asm) region_walk.simps) simp
  then obtain r1 where r1: "region_join s ?r = Inr r1" "region_walk d idx oi covered r1 = Inr r"
    using st by (auto simp: result_simps region_node_def)
  then have "r1 = ?r\<lparr>r_join := Some s\<rparr>" using region_joinD(1) by blast
  then have "Inr r = (Inr (?r\<lparr>r_join := Some s\<rparr>) :: failure + region)"
    using r1(2) by (subst (asm) region_walk.simps) simp
  then show ?thesis by simp
qed

section \<open>The region of a fork\<close>

text \<open>
  A branch between a fork and its join: it is entered only by the edge from the fork, left only
  to the join and by one state, consists of inner states and has no cycle.
\<close>

definition branch_region :: "compiled_workflow \<Rightarrow> rstr \<Rightarrow> rstr \<Rightarrow> rstr \<Rightarrow> rstr set \<Rightarrow> bool" where
  "branch_region w fork join start B \<longleftrightarrow>
     start \<in> B \<and> predecessors w start = {fork}
   \<and> (\<forall>s\<in>B. inner_kind (map_option gs_kind (cw_state w s))
        \<and> (s \<noteq> start \<longrightarrow> predecessors w s \<subseteq> B)
        \<and> (\<forall>t\<in>set (cw_outgoing w s). tr_to t = join \<or> tr_to t \<in> B)
        \<and> (s, s) \<notin> (flow_edges w \<inter> UNIV \<times> B)\<^sup>+)
   \<and> card {s \<in> B. \<exists>t\<in>set (cw_outgoing w s). tr_to t = join} = 1"

definition fork_targets :: "compiled_workflow \<Rightarrow> rstr \<Rightarrow> rstr set" where
  "fork_targets w fork = tr_to ` set (cw_transitions w fork Complete)"

definition parallel_region :: "compiled_workflow \<Rightarrow> rstr \<Rightarrow> rstr \<Rightarrow> (rstr \<Rightarrow> rstr set) \<Rightarrow> bool" where
  "parallel_region w fork join B \<longleftrightarrow>
     map_option gs_kind (cw_state w join) = Some KJoin
   \<and> (\<forall>s\<in>fork_targets w fork. branch_region w fork join s (B s))
   \<and> (\<forall>s\<in>fork_targets w fork. \<forall>s'\<in>fork_targets w fork. s \<noteq> s' \<longrightarrow> B s \<inter> B s' = {})
   \<and> predecessors w join \<subseteq> \<Union> (B ` fork_targets w fork)"

text \<open>What the scan of one branch establishes, over the indexes.\<close>

definition scanned :: "workflow_definition \<Rightarrow> state_indexes \<Rightarrow> out_indexes \<Rightarrow> (rstr \<times> rstr set) list \<Rightarrow> rstr \<Rightarrow>
    rstr \<Rightarrow> rstr \<Rightarrow> rstr set \<Rightarrow> bool" where
  "scanned d idx oi preds fork join start B \<longleftrightarrow>
     start \<in> B \<and> get_or {} preds start = {fork}
   \<and> (\<forall>s\<in>B. inner_kind (kind_at d idx s) \<and> (s \<noteq> start \<longrightarrow> get_or {} preds s \<subseteq> B)
        \<and> (\<forall>t\<in>set (out_at d oi s). tr_to t = join \<or> tr_to t \<in> B))
   \<and> {s \<in> B. list_ex (join_edge d idx) (out_at d oi s)} = {s \<in> B. \<exists>t\<in>set (out_at d oi s). tr_to t = join}
   \<and> card {s \<in> B. \<exists>t\<in>set (out_at d oi s). tr_to t = join} = 1
   \<and> \<not> branch_has_cycle d oi B"

lemma inner_kind_finite:
  assumes "\<forall>s\<in>B. inner_kind (kind_at d idx s)"
  shows "finite B"
proof (rule finite_subset)
  show "B \<subseteq> fst ` set idx"
  proof
    fix s assume "s \<in> B"
    then have "map_of idx s \<noteq> None" using assms by (auto simp: inner_kind_def kind_at_def state_at_def)
    then show "s \<in> fst ` set idx" by (auto simp: map_of_eq_None_iff)
  qed
qed simp

lemma start_inner:
  assumes "region_walk d idx oi covered \<lparr>r_branch = {}, r_branch_exits = {}, r_exits = exits, r_join = join, r_queue = [s]\<rparr> = Inr r"
    and "card (r_branch_exits r) = 1"
  shows "inner_kind (kind_at d idx s)"
proof -
  have "kind_at d idx s \<noteq> Some KJoin" using region_walk_join[OF _ assms(1)] assms(2) by auto
  moreover from assms(1) obtain r1 where
    "region_node d idx oi covered s \<lparr>r_branch = {s}, r_branch_exits = {}, r_exits = exits, r_join = join, r_queue = []\<rparr> = Inr r1"
    by (subst (asm) region_walk.simps) (auto simp: result_simps)
  then obtain st where "state_at d idx s = Some st" "gs_kind st \<notin> {KFork, KSucceed, KFail, KBlocked}"
    by (auto simp: region_node_def result_simps split: if_splits)
  ultimately show ?thesis by (cases "gs_kind st") (auto simp: inner_kind_def kind_at_def)
qed

lemma scan_branch_ok:
  assumes "scan_branch d idx oi preds fork f t = Inr f'"
  obtains B j where "f_join f' = Some j" "f_join f \<in> {None, Some j}" "f_covered f' = f_covered f \<union> B"
    "f_exits f' = f_exits f \<union> {s \<in> B. \<exists>t\<in>set (out_at d oi s). tr_to t = j}" "B \<inter> f_covered f = {}"
    "scanned d idx oi preds fork j (tr_to t) B" "kind_at d idx j = Some KJoin \<or> f_join f = Some j"
proof -
  from assms obtain r where
    walk: "region_walk d idx oi (f_covered f) \<lparr>r_branch = {}, r_branch_exits = {}, r_exits = f_exits f,
            r_join = f_join f, r_queue = [tr_to t]\<rparr> = Inr r" and
    exit1: "card (r_branch_exits r) = 1" and acyc: "\<not> branch_has_cycle d oi (r_branch r)" and
    preds: "\<forall>s\<in>r_branch r. s = tr_to t \<or> Some s = r_join r \<or> get_or {} preds s \<subseteq> r_branch r" and
    entry: "get_or {} preds (tr_to t) = {fork}" and
    f': "f' = \<lparr>f_join = r_join r, f_covered = f_covered f \<union> r_branch r, f_exits = r_exits r\<rparr>"
    by (auto simp: scan_branch_def Let_def result_simps)
  have "walk_inv d idx oi (f_covered f) (f_exits f) (f_join f)
      \<lparr>r_branch = {}, r_branch_exits = {}, r_exits = f_exits f, r_join = f_join f, r_queue = [tr_to t]\<rparr>"
    using start_inner[OF walk exit1] by (simp add: walk_inv_def)
  from region_walk_inv[OF walk this] have inv: "walk_inv d idx oi (f_covered f) (f_exits f) (f_join f) r"
    and q: "r_queue r = []" and start: "tr_to t \<in> r_branch r"
    by auto
  note I = walk_invD[OF inv]
  have edone: "edge_done d idx r u" if "s \<in> r_branch r" "u \<in> set (out_at d oi s)" for s u
    using I(3) that by blast
  have "r_branch_exits r \<noteq> {}" using exit1 by auto
  then obtain s u where su: "s \<in> r_branch r" "u \<in> set (out_at d oi s)" "join_edge d idx u"
    using I(4) by (auto simp: list_ex_iff)
  then have j: "r_join r = Some (tr_to u)" "kind_at d idx (tr_to u) = Some KJoin"
    using edone[OF su(1,2)] by (auto simp: edge_done_def join_edge_def inner_kind_def)
  let ?j = "tr_to u"
  have je: "join_edge d idx v \<longleftrightarrow> tr_to v = ?j" if "s \<in> r_branch r" "v \<in> set (out_at d oi s)" for s v
    using edone[OF that] j by (auto simp: edge_done_def join_edge_def inner_kind_def)
  have exits: "{s \<in> r_branch r. list_ex (join_edge d idx) (out_at d oi s)} = {s \<in> r_branch r. \<exists>v\<in>set (out_at d oi s). tr_to v = ?j}"
    using je by (auto simp: list_ex_iff)
  have notj: "Some s \<noteq> r_join r" if "s \<in> r_branch r" for s
    using I(1)[of s] that j by (auto simp: inner_kind_def)
  have scanned: "scanned d idx oi preds fork ?j (tr_to t) (r_branch r)"
    unfolding scanned_def
  proof (intro conjI ballI impI)
    show "tr_to v = ?j \<or> tr_to v \<in> r_branch r" if "s \<in> r_branch r" "v \<in> set (out_at d oi s)" for s v
      using edone[OF that] j q by (auto simp: edge_done_def)
    show "get_or {} preds s \<subseteq> r_branch r" if "s \<in> r_branch r" "s \<noteq> tr_to t" for s
      using preds notj that by blast
    show "card {s \<in> r_branch r. \<exists>v\<in>set (out_at d oi s). tr_to v = ?j} = 1" using exit1 I(4) exits by simp
  qed (use start entry I(1) exits acyc in auto)
  show thesis
  proof (rule that[of ?j "r_branch r"])
    show "f_join f \<in> {None, Some ?j}" using I(6) j(1) by (cases "f_join f") simp_all
    show "f_exits f' = f_exits f \<union> {s \<in> r_branch r. \<exists>v\<in>set (out_at d oi s). tr_to v = ?j}"
      using f' I(4,5) exits by simp
    show "r_branch r \<inter> f_covered f = {}" using I(2) by blast
  qed (use f' j scanned in auto)
qed

lemma subset_chain: "X \<subseteq> Y \<union> U \<Longrightarrow> U \<subseteq> V \<Longrightarrow> Y \<subseteq> Z \<union> b \<Longrightarrow> b \<subseteq> V \<Longrightarrow> X \<subseteq> Z \<union> V"
  by blast

definition branches_ok :: "workflow_definition \<Rightarrow> state_indexes \<Rightarrow> out_indexes \<Rightarrow> (rstr \<times> rstr set) list \<Rightarrow> rstr \<Rightarrow>
    rstr set \<Rightarrow> rstr set \<Rightarrow> rstr \<Rightarrow> (rstr \<Rightarrow> rstr set) \<Rightarrow> bool" where
  "branches_ok d idx oi preds fork targets covered j B \<longleftrightarrow>
     (\<forall>s\<in>targets. scanned d idx oi preds fork j s (B s) \<and> B s \<inter> covered = {})
   \<and> (\<forall>s\<in>targets. \<forall>s'\<in>targets. s \<noteq> s' \<longrightarrow> B s \<inter> B s' = {})"

lemma scan_branches:
  assumes "run_all (scan_branch d idx oi preds fork) f ts = Inr f'" "ts \<noteq> []"
  shows "\<exists>B j. f_join f' = Some j \<and> f_join f \<in> {None, Some j}
    \<and> (kind_at d idx j = Some KJoin \<or> f_join f = Some j)
    \<and> branches_ok d idx oi preds fork (tr_to ` set ts) (f_covered f) j B
    \<and> f_exits f' \<subseteq> f_exits f \<union> \<Union> (B ` tr_to ` set ts)"
  using assms
proof (induction ts arbitrary: f)
  case (Cons t ts)
  from Cons.prems obtain f1 where step: "scan_branch d idx oi preds fork f t = Inr f1"
    and rest: "run_all (scan_branch d idx oi preds fork) f1 ts = Inr f'"
    by (auto simp: result_simps)
  obtain B0 j where b:
    "f_join f1 = Some j" "f_join f \<in> {None, Some j}" "f_covered f1 = f_covered f \<union> B0"
    "f_exits f1 = f_exits f \<union> {s \<in> B0. \<exists>t\<in>set (out_at d oi s). tr_to t = j}" "B0 \<inter> f_covered f = {}"
    "scanned d idx oi preds fork j (tr_to t) B0" "kind_at d idx j = Some KJoin \<or> f_join f = Some j"
    by (rule scan_branch_ok[OF step])
  have start: "tr_to t \<in> B0" using b(6) by (simp add: scanned_def)
  have "\<exists>B. f_join f' = Some j \<and> branches_ok d idx oi preds fork (tr_to ` set ts) (f_covered f1) j B
    \<and> f_exits f' \<subseteq> f_exits f1 \<union> \<Union> (B ` tr_to ` set ts)"
  proof (cases "ts = []")
    case True
    then show ?thesis using rest b(1) by (simp add: branches_ok_def)
  next
    case False
    from Cons.IH[OF rest False] obtain B j' where ih: "f_join f' = Some j'" "f_join f1 \<in> {None, Some j'}"
      "branches_ok d idx oi preds fork (tr_to ` set ts) (f_covered f1) j' B"
      "f_exits f' \<subseteq> f_exits f1 \<union> \<Union> (B ` tr_to ` set ts)"
      by (elim exE conjE)
    from ih(2) b(1) have "j' = j" by simp
    with ih(1,3,4) show ?thesis by (intro exI[of _ B]) simp
  qed
  then obtain B where B: "f_join f' = Some j"
    "branches_ok d idx oi preds fork (tr_to ` set ts) (f_covered f1) j B"
    "f_exits f' \<subseteq> f_exits f1 \<union> \<Union> (B ` tr_to ` set ts)"
    by blast
  have Bs: "scanned d idx oi preds fork j s (B s)" "B s \<inter> f_covered f1 = {}" if "s \<in> tr_to ` set ts" for s
    using B(2) that unfolding branches_ok_def by blast+
  have disj: "B s \<inter> B s' = {}" if "s \<in> tr_to ` set ts" "s' \<in> tr_to ` set ts" "s \<noteq> s'" for s s'
    using B(2) that unfolding branches_ok_def by blast
  let ?B = "B(tr_to t := B0)"
  have other: "s \<noteq> tr_to t" if "s \<in> tr_to ` set ts" for s
  proof
    assume "s = tr_to t"
    then have "s \<in> B s" "s \<in> f_covered f1" using Bs(1)[OF that] start b(3) by (auto simp: scanned_def)
    then show False using Bs(2)[OF that] by blast
  qed
  have B0: "B s \<inter> B0 = {}" "B s \<inter> f_covered f = {}" if "s \<in> tr_to ` set ts" for s
    using Bs(2)[OF that] b(3) by auto
  have same: "?B s = B s" if "s \<in> tr_to ` set ts" for s using other[OF that] by simp
  have "scanned d idx oi preds fork j s (?B s) \<and> ?B s \<inter> f_covered f = {}" if "s \<in> tr_to ` set (t # ts)" for s
  proof (cases "s \<in> tr_to ` set ts")
    case True
    then show ?thesis using Bs(1) B0(2) same by simp
  next
    case False
    then have "s = tr_to t" using that by simp
    then show ?thesis using b(5,6) by simp
  qed
  moreover have "?B s \<inter> ?B s' = {}" if mem: "s \<in> tr_to ` set (t # ts)" "s' \<in> tr_to ` set (t # ts)" "s \<noteq> s'" for s s'
  proof -
    consider "s = tr_to t" "s' \<in> tr_to ` set ts" | "s' = tr_to t" "s \<in> tr_to ` set ts"
      | "s \<in> tr_to ` set ts" "s' \<in> tr_to ` set ts"
      using mem by auto
    then show ?thesis
    proof cases
      case 1
      then show ?thesis using B0(1)[of s'] same[of s'] by auto
    next
      case 2
      then show ?thesis using B0(1)[of s] same[of s] by auto
    next
      case 3
      then show ?thesis using disj same mem(3) by simp
    qed
  qed
  ultimately have ok: "branches_ok d idx oi preds fork (tr_to ` set (t # ts)) (f_covered f) j ?B"
    unfolding branches_ok_def by blast
  have u1: "\<Union> (B ` tr_to ` set ts) \<subseteq> \<Union> (?B ` tr_to ` set (t # ts))"
    using same by (intro UN_least) (metis UN_upper image_insert insertI2 list.simps(15))
  have u2: "f_exits f1 \<subseteq> f_exits f \<union> ?B (tr_to t)" using b(4) by auto
  have u3: "?B (tr_to t) \<subseteq> \<Union> (?B ` tr_to ` set (t # ts))" by (rule UN_upper) simp
  have "f_exits f' \<subseteq> f_exits f \<union> \<Union> (?B ` tr_to ` set (t # ts))" by (rule subset_chain[OF B(3) u1 u2 u3])
  then show ?case using B(1) b(2,7) ok by blast
qed simp

lemma scan_fork_ok:
  assumes "scan_fork d idx ti oi preds joins st = Inr joins'" "trs_at d ti (gs_id st) Complete \<noteq> []"
  shows "\<exists>B j. joins' = insert j joins \<and> j \<notin> joins \<and> kind_at d idx j = Some KJoin
    \<and> branches_ok d idx oi preds (gs_id st) (tr_to ` set (trs_at d ti (gs_id st) Complete)) {} j B
    \<and> get_or {} preds j \<subseteq> \<Union> (B ` tr_to ` set (trs_at d ti (gs_id st) Complete))"
proof -
  have "map_of ti (gs_id st, Complete) \<noteq> None"
    using assms(2) by (auto simp: trs_at_def get_or_def split: option.splits)
  with assms(1) obtain f j where
    run: "run_all (scan_branch d idx oi preds (gs_id st)) \<lparr>f_join = None, f_covered = {}, f_exits = {}\<rparr>
      (trs_at d ti (gs_id st) Complete) = Inr f" and
    j: "f_join f = Some j" "map_of preds j = Some (f_exits f)" "j \<notin> joins" "joins' = insert j joins"
    by (auto simp: scan_fork_def result_simps)
  from scan_branches[OF run assms(2)] obtain B j' where B: "f_join f = Some j'"
    "kind_at d idx j' = Some KJoin"
    "branches_ok d idx oi preds (gs_id st) (tr_to ` set (trs_at d ti (gs_id st) Complete)) {} j' B"
    "f_exits f \<subseteq> \<Union> (B ` tr_to ` set (trs_at d ti (gs_id st) Complete))"
    by auto
  have "get_or {} preds j = f_exits f" using j(2) by (simp add: get_or_def)
  moreover have "j' = j" using B(1) j(1) by simp
  ultimately show ?thesis using j B by (intro exI[of _ B] exI[of _ j]) simp
qed

lemma scan_forks:
  assumes "run_all (scan_fork d idx ti oi preds) joins forks = Inr joins'"
    and "\<forall>st\<in>set forks. trs_at d ti (gs_id st) Complete \<noteq> []" "distinct (map gs_id forks)"
  shows "\<exists>J B. joins' = joins \<union> J ` gs_id ` set forks \<and> inj_on J (gs_id ` set forks) \<and> J ` gs_id ` set forks \<inter> joins = {}
    \<and> (\<forall>s\<in>gs_id ` set forks. kind_at d idx (J s) = Some KJoin
        \<and> branches_ok d idx oi preds s (tr_to ` set (trs_at d ti s Complete)) {} (J s) (B s)
        \<and> get_or {} preds (J s) \<subseteq> \<Union> (B s ` tr_to ` set (trs_at d ti s Complete)))"
  using assms
proof (induction forks arbitrary: joins)
  case (Cons st forks)
  from Cons.prems(1) obtain joins1 where step: "scan_fork d idx ti oi preds joins st = Inr joins1"
    and rest: "run_all (scan_fork d idx ti oi preds) joins1 forks = Inr joins'"
    by (auto simp: result_simps)
  have "trs_at d ti (gs_id st) Complete \<noteq> []" using Cons.prems(2) by simp
  from scan_fork_ok[OF step this] obtain B0 j where b: "joins1 = insert j joins" "j \<notin> joins" "kind_at d idx j = Some KJoin"
    "branches_ok d idx oi preds (gs_id st) (tr_to ` set (trs_at d ti (gs_id st) Complete)) {} j B0"
    "get_or {} preds j \<subseteq> \<Union> (B0 ` tr_to ` set (trs_at d ti (gs_id st) Complete))"
    by (elim exE conjE)
  have new: "gs_id st \<notin> gs_id ` set forks" using Cons.prems(3) by simp
  have p: "\<forall>st\<in>set forks. trs_at d ti (gs_id st) Complete \<noteq> []" "distinct (map gs_id forks)"
    using Cons.prems(2,3) by simp_all
  from Cons.IH[OF rest p] obtain J B where JB: "joins' = joins1 \<union> J ` gs_id ` set forks"
    "inj_on J (gs_id ` set forks)" "J ` gs_id ` set forks \<inter> joins1 = {}"
    "\<forall>s\<in>gs_id ` set forks. kind_at d idx (J s) = Some KJoin
        \<and> branches_ok d idx oi preds s (tr_to ` set (trs_at d ti s Complete)) {} (J s) (B s)
        \<and> get_or {} preds (J s) \<subseteq> \<Union> (B s ` tr_to ` set (trs_at d ti s Complete))"
    by (elim exE conjE)
  let ?J = "J(gs_id st := j)" and ?B = "B(gs_id st := B0)"
  have same: "?J s = J s" "?B s = B s" if "s \<in> gs_id ` set forks" for s
  proof -
    from that new have "s \<noteq> gs_id st" by metis
    then show "?J s = J s" "?B s = B s" by simp_all
  qed
  have img: "?J ` gs_id ` set forks = J ` gs_id ` set forks" using same(1) by (rule image_cong[OF refl])
  have "?J ` gs_id ` set (st # forks) = insert (?J (gs_id st)) (?J ` gs_id ` set forks)"
    by (simp only: list.set image_insert)
  then have "?J ` gs_id ` set (st # forks) = insert j (J ` gs_id ` set forks)" unfolding img by simp
  then have "joins' = joins \<union> ?J ` gs_id ` set (st # forks)" "?J ` gs_id ` set (st # forks) \<inter> joins = {}"
    using JB(1,3) b(1,2) by auto
  moreover have "inj_on ?J (gs_id ` set (st # forks))"
  proof -
    have "inj_on ?J (gs_id ` set forks)" using JB(2) same(1) by (simp add: inj_on_def)
    moreover have "j \<notin> ?J ` gs_id ` set forks" using img JB(3) b(1) by auto
    ultimately show ?thesis using new by simp
  qed
  moreover have "\<forall>s\<in>gs_id ` set (st # forks). kind_at d idx (?J s) = Some KJoin
        \<and> branches_ok d idx oi preds s (tr_to ` set (trs_at d ti s Complete)) {} (?J s) (?B s)
        \<and> get_or {} preds (?J s) \<subseteq> \<Union> (?B s ` tr_to ` set (trs_at d ti s Complete))"
  proof
    fix s assume "s \<in> gs_id ` set (st # forks)"
    then consider "s = gs_id st" | "s \<in> gs_id ` set forks" by auto
    then show "kind_at d idx (?J s) = Some KJoin
        \<and> branches_ok d idx oi preds s (tr_to ` set (trs_at d ti s Complete)) {} (?J s) (?B s)
        \<and> get_or {} preds (?J s) \<subseteq> \<Union> (?B s ` tr_to ` set (trs_at d ti s Complete))"
    proof cases
      case 1
      then show ?thesis using b by simp
    next
      case 2
      show ?thesis unfolding same[OF 2] by (rule bspec[OF JB(4) 2])
    qed
  qed
  ultimately show ?case by blast
qed auto

text \<open>A search that ends without error visited no cycle.\<close>

lemma no_branch_cycle:
  assumes "\<not> branch_has_cycle d oi B" "finite B" "s \<in> B"
  shows "(s, s) \<notin> {(a, tr_to t) |a t. t \<in> set (out_at d oi a) \<and> tr_to t \<in> B}\<^sup>+"
proof -
  let ?edges = "\<lambda>_. Inr (\<lambda>t. tr_to t \<in> B) :: failure + (transition \<Rightarrow> bool)"
  from assms(1) obtain V where "visit ?edges Panic d oi {} {} (sorted_list_of_set B) = Inr V"
    by (auto simp: branch_has_cycle_def split: sum.splits)
  then have "settled (edge_rel ?edges d oi) V \<and> V \<inter> {} = {} \<and> {} \<subseteq> V \<and> set (sorted_list_of_set B) \<subseteq> V"
    by (rule visit_settles) (simp_all add: settled_def)
  then have "(s, s) \<notin> (edge_rel ?edges d oi)\<^sup>+" using assms(2,3) by (auto simp: settled_def)
  moreover have "edge_rel ?edges d oi = {(a, tr_to t) |a t. t \<in> set (out_at d oi a) \<and> tr_to t \<in> B}"
    by (auto simp: edge_rel_def)
  ultimately show ?thesis by simp
qed

lemma branches_region:
  assumes "graph_ok w"
    and "branches_ok (cw_definition w) (cw_state_indexes w) (cw_outgoing_indexes w) (cw_predecessors w) fork
      (fork_targets w fork) {} join B"
    and "s \<in> fork_targets w fork"
  shows "branch_region w fork join s (B s)"
proof -
  let ?d = "cw_definition w" and ?oi = "cw_outgoing_indexes w"
  from assms(2,3) have sc: "scanned ?d (cw_state_indexes w) ?oi (cw_predecessors w) fork join s (B s)"
    by (simp add: branches_ok_def)
  then have fin: "finite (B s)" using inner_kind_finite[of "B s" ?d "cw_state_indexes w"] by (simp add: scanned_def)
  have "{(a, tr_to t) |a t. t \<in> set (out_at ?d ?oi a) \<and> tr_to t \<in> B s} = flow_edges w \<inter> UNIV \<times> B s"
    using graph_okD(2)[OF assms(1)] by (auto simp: flow_edges_def cw_outgoing_def)
  then have "(u, u) \<notin> (flow_edges w \<inter> UNIV \<times> B s)\<^sup>+" if "u \<in> B s" for u
    using no_branch_cycle[of ?d ?oi "B s" u] fin that sc by (simp add: scanned_def)
  then show ?thesis
    using sc unfolding branch_region_def scanned_def
    by (simp add: cw_outgoing_def predecessors_def cw_state_def kind_at_def)
qed

lemma compiled_regions:
  assumes "compile_workflow_inner env d0 legacy = Inr w"
  shows "\<exists>J B. inj_on J {gs_id st |st. st \<in> set (def_states (cw_definition w)) \<and> gs_kind st = KFork}
    \<and> (\<forall>st\<in>set (def_states (cw_definition w)). gs_kind st = KFork \<longrightarrow> parallel_region w (gs_id st) (J (gs_id st)) (B (gs_id st)))
    \<and> (\<forall>st\<in>set (def_states (cw_definition w)). gs_kind st = KJoin \<longrightarrow>
        card (predecessors w (gs_id st)) = 1 \<or>
        (\<exists>fork\<in>set (def_states (cw_definition w)). gs_kind fork = KFork \<and> gs_id st = J (gs_id fork)))"
proof -
  note g = compile_inner_graph[OF assms]
  let ?d = "cw_definition w" and ?idx = "cw_state_indexes w"
  let ?forks = "filter (\<lambda>st. gs_kind st = KFork) (def_states ?d)"
  from g(2) obtain x :: transition_index and joins where regions: "validate_parallel_regions ?d ?idx (ti_events x) (ti_outgoing x) (ti_predecessors x) = Inr joins"
    and jn: "\<forall>st\<in>set (def_states ?d). gs_kind st = KJoin \<longrightarrow>
       card (get_or {} (ti_predecessors x) (gs_id st)) = 1 \<or> gs_id st \<in> joins"
    and w: "w = \<lparr>cw_definition = ?d, cw_state_indexes = ?idx, cw_transition_indexes = ti_events x,
       cw_outgoing_indexes = ti_outgoing x, cw_predecessors = ti_predecessors x,
       cw_reachable = reachable_states ?d (ti_outgoing x)\<rparr>"
    by (rule compile_graphE)
  have fields: "cw_transition_indexes w = ti_events x" "cw_outgoing_indexes w = ti_outgoing x" "cw_predecessors w = ti_predecessors x"
    by (subst w, simp)+
  have branches: "\<forall>st\<in>set ?forks. trs_at ?d (ti_events x) (gs_id st) Complete \<noteq> []"
  proof
    fix st assume "st \<in> set ?forks"
    then have "check_edges ?d (ti_events x) (ti_outgoing x) st = Inr ()" "gs_kind st = KFork"
      using graph_okD(8)[OF g(1)] fields by simp_all
    then show "trs_at ?d (ti_events x) (gs_id st) Complete \<noteq> []" by (auto simp: check_edges_def Let_def result_simps)
  qed
  have run: "run_all (scan_fork ?d ?idx (ti_events x) (ti_outgoing x) (ti_predecessors x)) {} ?forks = Inr joins"
    using regions by (simp add: validate_parallel_regions_def)
  have "distinct (map gs_id ?forks)"
    using states_ok_distinct[OF graph_okD(1)[OF g(1)]] by (simp add: distinct_map_filter)
  from scan_forks[OF run branches this] obtain J B where JB: "joins = {} \<union> J ` gs_id ` set ?forks" "inj_on J (gs_id ` set ?forks)"
    "J ` gs_id ` set ?forks \<inter> {} = {}"
    "\<forall>s\<in>gs_id ` set ?forks. kind_at ?d ?idx (J s) = Some KJoin
        \<and> branches_ok ?d ?idx (ti_outgoing x) (ti_predecessors x) s (tr_to ` set (trs_at ?d (ti_events x) s Complete)) {} (J s) (B s)
        \<and> get_or {} (ti_predecessors x) (J s) \<subseteq> \<Union> (B s ` tr_to ` set (trs_at ?d (ti_events x) s Complete))"
    by (elim exE conjE)
  have "parallel_region w s (J s) (B s)" if "s \<in> gs_id ` set ?forks" for s
  proof -
    have targets: "fork_targets w s = tr_to ` set (trs_at ?d (ti_events x) s Complete)"
      by (simp add: fork_targets_def cw_transitions_def fields)
    have ok: "branches_ok ?d ?idx (cw_outgoing_indexes w) (cw_predecessors w) s (fork_targets w s) {} (J s) (B s)"
      and "kind_at ?d ?idx (J s) = Some KJoin" "predecessors w (J s) \<subseteq> \<Union> (B s ` fork_targets w s)"
      using bspec[OF JB(4) that] unfolding fields targets predecessors_def by blast+
    then show ?thesis
      using branches_region[OF g(1) ok] ok unfolding parallel_region_def branches_ok_def
      by (simp add: cw_state_def kind_at_def)
  qed
  moreover have "gs_id ` set ?forks = {gs_id st |st. st \<in> set (def_states ?d) \<and> gs_kind st = KFork}" by auto
  moreover have "card (predecessors w (gs_id st)) = 1 \<or>
      (\<exists>fork\<in>set (def_states ?d). gs_kind fork = KFork \<and> gs_id st = J (gs_id fork))"
    if "st \<in> set (def_states ?d)" "gs_kind st = KJoin" for st
    using jn that JB(1) fields by (auto simp: predecessors_def)
  ultimately show ?thesis using JB(2) by (intro exI[of _ J] exI[of _ B]) auto
qed

end
