(* ===== verification/Flywheel_Run.thy ===== *)
theory Flywheel_Run
  imports Flywheel_Progress Flywheel_Regions
begin

text \<open>
  Runs: the sequences of snapshots the reducer produces. The life of a command, the budget of
  attempts, what replays do, and that a cancelled run issues nothing more.
\<close>

section \<open>Reachable snapshots\<close>

text \<open>A run before its start: its registration may set identities, slot candidates and sessions.\<close>

definition unstarted :: "run_snapshot \<Rightarrow> bool" where
  "unstarted s \<longleftrightarrow> snap_status s = RunPending \<and> snap_sequence s = 0 \<and> snap_commands s = [] \<and> snap_lineage s = []
     \<and> snap_active s = {} \<and> snap_callbacks s = []"

inductive run_reaches :: "digest_env \<Rightarrow> compiled_workflow \<Rightarrow> run_snapshot \<Rightarrow> bool" for env w where
  start: "unstarted s \<Longrightarrow> run_reaches env w s"
| step: "run_reaches env w s \<Longrightarrow> reduce env w s ev = Inr out \<Longrightarrow> run_reaches env w (out_snapshot out)"

lemma reach_keyed: "run_reaches env w s \<Longrightarrow> keyed (snap_commands s)"
proof (induction rule: run_reaches.induct)
  case (start s)
  then show ?case by (simp add: unstarted_def keyed_def)
next
  case (step s ev out)
  from reduce_cases[OF step(2,3)] show ?case
  proof (elim disjE conjE exE)
    fix m assume p: "progress w (initial_machine s) m" "m_snapshot m = out_snapshot out"
    have "keyed (commands (initial_machine s))" using step(3) by (simp add: initial_machine_def)
    from progress_keyed[OF p(1) this] show ?case using p(2) by simp
  qed (use step(3) in simp_all)
qed

section \<open>The life of a command\<close>

lemma progress_evolves:
  assumes "progress w m m'"
  shows "map_of (commands m) i = Some c \<Longrightarrow> \<exists>c'. map_of (commands m') i = Some c' \<and> evolves c c'"
  using assms
proof (induction arbitrary: c rule: progress.induct)
  case (quiet m m')
  show ?case by (rule quietD(2)[OF quiet(1) quiet(2)])
next
  case (issue st v slot item m m1 m2 new)
  then obtain c' where c': "map_of (commands m2) i = Some c'" "evolves c c'"
    using quietD(2)[OF issue(2)] bump_frame(1)[OF issue(1)] by metis
  then have "i \<noteq> cmd_id new" using issue(3) by auto
  then show ?case using c' by (simp add: map_of_bt_insert)
next
  case (trans m m1 m2)
  then show ?case using evolves_trans by metis
qed

lemma progress_new:
  assumes "progress w m m'"
  shows "set (m_emitted m) \<subseteq> set (m_emitted m') \<and> (map_of (commands m') i = Some c' \<longrightarrow> map_of (commands m) i = None \<longrightarrow>
    (\<exists>c\<in>set (m_emitted m'). cmd_id c = i \<and> cmd_status c = CmdPending \<and> evolves c c'))"
  using assms
proof (induction arbitrary: c' rule: progress.induct)
  case (quiet m m')
  then show ?case using quiet_back[OF quiet] quietD(5)[OF quiet] by fastforce
next
  case (issue st v slot item m m1 m2 new)
  have "m_emitted m2 = m_emitted m" using quietD(5)[OF issue(2)] bump_frame(2)[OF issue(1)] by simp
  moreover have "map_of (commands m) i \<noteq> None" if "map_of (commands m2) i = Some c'"
    using quiet_back[OF issue(2) that] bump_frame(1)[OF issue(1)] by auto
  ultimately show ?case using issue(4) by (auto simp: map_of_bt_insert)
next
  case (trans m m1 m2)
  show ?case
  proof (intro conjI impI)
    show "set (m_emitted m) \<subseteq> set (m_emitted m2)" using trans.IH by blast
    assume c': "map_of (commands m2) i = Some c'" "map_of (commands m) i = None"
    show "\<exists>c\<in>set (m_emitted m2). cmd_id c = i \<and> cmd_status c = CmdPending \<and> evolves c c'"
    proof (cases "map_of (commands m1) i")
      case None
      then show ?thesis using trans.IH(2) c'(1) by blast
    next
      case (Some c1)
      then obtain c where "c \<in> set (m_emitted m1)" "cmd_id c = i" "cmd_status c = CmdPending" "evolves c c1"
        using trans.IH(1) c'(2) by blast
      moreover have "evolves c1 c'" using progress_evolves[OF trans(2) Some] c'(1) by auto
      ultimately show ?thesis using trans.IH(2) evolves_trans by blast
    qed
  qed
qed

section \<open>The budget of attempts\<close>

definition lineage_total :: "(rstr \<times> u8) list \<Rightarrow> nat" where
  "lineage_total l = (\<Sum>k\<in>fst ` set l. unat (get_or 0 l k))"

lemma lineage_total_bump:
  assumes "used = get_or 0 l k" "used \<noteq> 255"
  shows "lineage_total (bt_insert k (used + 1) l) = Suc (lineage_total l)"
proof -
  have inc: "unat (used + 1) = Suc (unat used)"
  proof -
    have "1 + used \<noteq> 0"
    proof
      assume "1 + used = 0"
      then have "used = - 1" by (simp add: add_eq_0_iff)
      then show False using assms(2) by simp
    qed
    then show ?thesis using unatSuc[of used] by (simp add: add.commute)
  qed
  let ?K = "fst ` set l"
  have "lineage_total (bt_insert k (used + 1) l)
      = (\<Sum>j\<in>insert k (?K - {k}). unat (get_or 0 (bt_insert k (used + 1) l) j))"
    by (simp add: lineage_total_def keys_bt_insert)
  also have "\<dots> = unat (used + 1) + (\<Sum>j\<in>?K - {k}. unat (get_or 0 l j))"
    by (subst sum.insert) auto
  also have "\<dots> = Suc (unat used + (\<Sum>j\<in>?K - {k}. unat (get_or 0 l j)))" by (simp add: inc)
  also have "unat used + (\<Sum>j\<in>?K - {k}. unat (get_or 0 l j)) = lineage_total l"
  proof (cases "k \<in> ?K")
    case True
    then show ?thesis by (simp add: lineage_total_def assms(1) sum.remove[of ?K k])
  next
    case False
    then have "used = 0" by (simp add: assms(1) get_or_def map_of_eq_None_iff[THEN iffD2])
    then show ?thesis using False by (simp add: lineage_total_def)
  qed
  finally show ?thesis .
qed

lemma progress_budget:
  assumes "progress w m m'" "max_attempts w < 255" "\<forall>k. get_or 0 (snap_lineage (m_snapshot m)) k \<le> max_attempts w"
  shows "(\<forall>k. get_or 0 (snap_lineage (m_snapshot m')) k \<le> max_attempts w)
    \<and> card (fst ` set (commands m')) + lineage_total (snap_lineage (m_snapshot m))
      = card (fst ` set (commands m)) + lineage_total (snap_lineage (m_snapshot m'))"
  using assms
proof (induction rule: progress.induct)
  case (quiet m m')
  then show ?case by (simp add: quietD)
next
  case (issue st v slot item m m1 m2 c)
  let ?l = "snap_lineage (m_snapshot m)" and ?k = "lineage_key st v slot item"
  from issue(1) have b: "saturating_inc (get_or 0 ?l ?k) \<le> max_attempts w"
    "snap_lineage (m_snapshot m1) = bt_insert ?k (get_or 0 ?l ?k + 1) ?l"
    by (auto simp: bump_attempt_lineage_def Let_def result_simps)
  have ne: "get_or 0 ?l ?k \<noteq> 255"
  proof
    assume "get_or 0 ?l ?k = 255"
    then have "(255 :: u8) \<le> max_attempts w" using issue.prems(2) by metis
    then show False using issue.prems(1) by simp
  qed
  have l2: "snap_lineage (m_snapshot m2) = bt_insert ?k (get_or 0 ?l ?k + 1) ?l"
    using quietD(4)[OF issue(2)] b(2) by simp
  have keys: "fst ` set (commands m2) = fst ` set (commands m)"
    using quietD(1)[OF issue(2)] bump_frame(1)[OF issue(1)] by simp
  have "cmd_id c \<notin> fst ` set (commands m2)" using issue(3) by (simp add: map_of_eq_None_iff)
  then have "card (fst ` set (bt_insert (cmd_id c) c (commands m2))) = Suc (card (fst ` set (commands m)))"
    by (simp add: keys_bt_insert keys)
  moreover have "get_or 0 ?l ?k + 1 \<le> max_attempts w" using b(1) ne by (simp add: saturating_inc_def)
  ultimately show ?case
    using issue.prems(2) l2 lineage_total_bump[OF refl ne] by simp
next
  case (trans m m1 m2)
  then show ?case by simp
qed

section \<open>Cancelled runs\<close>

text \<open>A run in which nothing is waiting to be done: no command is open or retryable, no callback is pending.\<close>

definition closed_status :: "command_status \<Rightarrow> bool" where
  "closed_status st \<longleftrightarrow> st \<notin> {CmdPending, CmdClaimed, CmdRunning, CmdRetryable}"

definition run_closed :: "run_snapshot \<Rightarrow> bool" where
  "run_closed s \<longleftrightarrow> snap_status s \<noteq> RunPending \<and> snap_callbacks s = []
     \<and> list_all (\<lambda>(_, c). closed_status (cmd_status c)) (snap_commands s)"

lemma run_closed_look: "run_closed s \<Longrightarrow> map_of (snap_commands s) i = Some c \<Longrightarrow> closed_status (cmd_status c)"
  by (auto simp: run_closed_def list_all_iff dest: map_of_SomeD)

lemma set_bt_insert: "set (bt_insert k v m) \<subseteq> insert (k, v) (set m)"
  by (induction k v m rule: bt_insert.induct) auto

lemma closed_put: "list_all (\<lambda>(_, c). P c) m \<Longrightarrow> P c \<Longrightarrow> list_all (\<lambda>(_, c). P c) (bt_insert i c m)"
  using set_bt_insert[of i c m] by (fastforce simp: list_all_iff)

lemma closed_map: "(\<And>c. P (f c)) \<Longrightarrow> list_all (\<lambda>(_, c). P c) (map (\<lambda>(i, c). (i, f c)) m)"
  by (auto simp: list_all_iff)

lemma cancel_closes:
  assumes "m_applied (cancel m)" "m_applied m"
  shows "run_closed (m_snapshot (cancel m)) \<and> m_emitted (cancel m) = m_emitted m
    \<and> snap_status (m_snapshot (cancel m)) \<in> {CancelRequestedRun, CancelledRun}"
proof -
  have "closed_status (cmd_status (cancel_command c))" for c
    by (cases "cmd_status c") (simp_all add: cancel_command_def closed_status_def)
  then show ?thesis
    using assms by (auto simp: cancel_def Let_def map_commands_def run_closed_def intro!: closed_map)
qed

text \<open>On a closed run every event but a fallback is refused, ignored, or leaves it closed without a new command.\<close>

definition stays_closed :: "machine \<Rightarrow> machine \<Rightarrow> bool" where
  "stays_closed m m' \<longleftrightarrow> run_closed (m_snapshot m') \<and> m_emitted m' = m_emitted m \<and> m_automatic m' = m_automatic m"

lemma stays_closed_refl: "run_closed (m_snapshot m) \<Longrightarrow> stays_closed m m"
  by (simp add: stays_closed_def)

lemma closed_settle_success:
  assumes "run_closed (m_snapshot m)" "settle_success env w i token output m = Inr m'"
  shows "stays_closed m m'"
  using assms run_closed_look[OF assms(1), of i]
  by (auto simp: settle_success_def Let_def result_simps open_status_def closed_status_def stays_closed_def split: if_splits)

lemma closed_settle_failure:
  assumes "run_closed (m_snapshot m)" "settle_failure env w i token cls code m = Inr m'"
  shows "stays_closed m m'"
proof -
  from assms(2) obtain c where c: "map_of (commands m) i = Some c" by (auto simp: settle_failure_def result_simps)
  have "\<not> open_status (cmd_status c)"
    using run_closed_look[OF assms(1) c] by (auto simp: open_status_def closed_status_def)
  then have "m' = m\<lparr>m_applied := False\<rparr>"
    using assms(2) unfolding settle_failure_def by (auto simp: c result_simps split: if_splits)
  then show ?thesis using assms(1) by (simp add: stays_closed_def)
qed

lemma closed_assistant_failure:
  assumes "run_closed (m_snapshot m)" "settle_assistant_effect_failure i token cls code m = Inr m'"
  shows "stays_closed m m'"
proof -
  from assms(2) obtain c where c: "map_of (commands m) i = Some c" by (auto simp: settle_assistant_effect_failure_def result_simps)
  have "\<not> open_status (cmd_status c)"
    using run_closed_look[OF assms(1) c] by (auto simp: open_status_def closed_status_def)
  then have "m' = m\<lparr>m_applied := False\<rparr>"
    using assms(2) unfolding settle_assistant_effect_failure_def by (auto simp: c result_simps split: if_splits)
  then show ?thesis using assms(1) by (simp add: stays_closed_def)
qed

lemma closed_transition:
  assumes "run_closed (m_snapshot m)" "transition_command i token expected nxt m = Inr m'" "closed_status nxt"
  shows "stays_closed m m'"
  using assms by (auto simp: transition_command_def result_simps stays_closed_def run_closed_def intro!: closed_put)

lemma closed_not_open:
  assumes "run_closed (m_snapshot m)" "transition_command i token expected nxt m = Inr m'"
  shows "closed_status expected"
  using assms(2) run_closed_look[OF assms(1)] by (auto simp: transition_command_def result_simps)

lemma closed_map_commands:
  assumes "run_closed (m_snapshot m)" "\<And>c. closed_status (cmd_status c) \<Longrightarrow> closed_status (cmd_status (f c))"
  shows "run_closed (m_snapshot (map_commands f m))"
  using assms by (auto simp: run_closed_def map_commands_def list_all_iff)

lemma closed_drive_failure:
  assumes "run_closed (m_snapshot m)" "settle_assistant_drive_failure code m = Inr m'"
  shows "stays_closed m m'"
proof (cases "run_settled (snap_status (m_snapshot m))")
  case True
  then show ?thesis using assms by (auto simp: settle_assistant_drive_failure_def result_simps stays_closed_def)
next
  case False
  let ?f = "\<lambda>c. if cmd_status c \<in> {CmdClaimed, CmdRunning}
      then c\<lparr>cmd_status := CmdInDoubt, cmd_failure_class := Some InDoubt, cmd_failure_code := Some code\<rparr> else c"
  let ?m1 = "cancel_unstarted m"
  have "run_closed (m_snapshot ?m1)"
    unfolding cancel_unstarted_def by (rule closed_map_commands[OF assms(1)]) (simp add: closed_status_def)
  then have "run_closed (m_snapshot (on_snapshot (\<lambda>s. s\<lparr>snap_callbacks := []\<rparr>) ?m1))" by (simp add: run_closed_def)
  then have "run_closed (m_snapshot (map_commands ?f (on_snapshot (\<lambda>s. s\<lparr>snap_callbacks := []\<rparr>) ?m1)))"
    by (rule closed_map_commands) (simp add: closed_status_def)
  moreover have "m' = set_diagnostic (Some code) (set_status CancelInDoubt
      (map_commands ?f (on_snapshot (\<lambda>s. s\<lparr>snap_callbacks := []\<rparr>) ?m1)))"
    using False assms(2) by (simp add: settle_assistant_drive_failure_def result_simps Let_def)
  ultimately show ?thesis
    by (simp add: stays_closed_def run_closed_def cancel_unstarted_def map_commands_def)
qed

lemma closed_pending_authorization:
  assumes "run_closed s"
  shows "pending_authorization s \<noteq> Inr i"
proof
  assume "pending_authorization s = Inr i"
  then obtain j c where "find (\<lambda>(_, c). cmd_kind c = AuthorizationCommand \<and> cmd_status c = CmdPending) (snap_commands s) = Some (j, c)"
    by (auto simp: pending_authorization_def result_simps)
  then have "(j, c) \<in> set (snap_commands s)" "cmd_status c = CmdPending"
    by (auto simp: find_Some_iff intro: nth_mem) (metis nth_mem)
  then show False using assms by (auto simp: run_closed_def closed_status_def list_all_iff)
qed

definition is_fallback :: "reducer_event \<Rightarrow> bool" where
  "is_fallback ev = (case ev of FallbackIssued _ _ _ _ _ _ _ \<Rightarrow> True | _ \<Rightarrow> False)"

lemma closed_cancel:
  assumes "run_closed (m_snapshot m)"
  shows "stays_closed m (cancel m)"
proof -
  have "closed_status (cmd_status (cancel_command c))" for c
    by (cases "cmd_status c") (simp_all add: cancel_command_def closed_status_def)
  then show ?thesis
    using assms by (auto simp: stays_closed_def cancel_def Let_def map_commands_def run_closed_def intro!: closed_map)
qed

lemma closed_handle:
  assumes "handle_event env w previous ev m = Inr m'" "run_closed (m_snapshot m)" "\<not> is_fallback ev"
    and "snap_status previous = snap_status (m_snapshot m)"
  shows "stays_closed m m'"
proof (cases ev)
  case (Start input)
  then show ?thesis
    using assms by (simp add: handle_event_def start_run_def result_simps run_closed_def)
next
  case (AuthorizationGranted digest)
  then show ?thesis
    using assms(1) closed_pending_authorization[OF assms(2)] by (auto simp: handle_event_def result_simps)
next
  case AuthorizationDenied
  then show ?thesis
    using assms(1) closed_pending_authorization[OF assms(2)] by (auto simp: handle_event_def result_simps)
next
  case AuthorizationRevoked
  then show ?thesis
    using assms(1,2)
    by (cases "run_settled (snap_status (m_snapshot m))")
      (auto simp: handle_event_def revoke_authorization_def stays_closed_def run_closed_def)
next
  case (CommandClaimed i token)
  then show ?thesis
    using assms(1) closed_not_open[OF assms(2)] by (fastforce simp: handle_event_def closed_status_def)
next
  case (CommandStarted i token)
  then obtain c where "map_of (commands m) i = Some c" "cmd_status c \<in> {CmdPending, CmdClaimed}"
    using assms(1) by (auto simp: handle_event_def start_command_def result_simps)
  then show ?thesis using run_closed_look[OF assms(2)] by (auto simp: closed_status_def)
next
  case (CallbackDecision s v decision)
  then show ?thesis
    using assms(1,2) by (simp add: handle_event_def apply_callback_decision_def run_closed_def)
next
  case (RetryRequested i)
  then obtain c where "map_of (commands m) i = Some c" "cmd_status c = CmdRetryable"
    using assms(1) by (auto simp: handle_event_def retry_def result_simps)
  then show ?thesis using run_closed_look[OF assms(2)] by (auto simp: closed_status_def)
next
  case CancelRequested
  then show ?thesis using assms(1) closed_cancel[OF assms(2)] by (auto simp: handle_event_def)
next
  case (CancellationAcknowledged i token)
  then obtain m1 where m1: "transition_command i token CmdCancelRequested CmdCancelled m = Inr m1" "m' = m1 \<or> m' = set_status CancelledRun m1"
    using assms(1) by (auto simp: handle_event_def cancel_acknowledged_def result_simps split: if_splits)
  have "stays_closed m m1" by (rule closed_transition[OF assms(2) m1(1)]) (simp add: closed_status_def)
  then show ?thesis using m1(2) by (auto simp: stays_closed_def run_closed_def)
next
  case (CancellationUnknown i token)
  then obtain m1 where m1: "transition_command i token CmdCancelRequested CmdInDoubt m = Inr m1"
    "m' = set_diagnostic (Some (lit ''cancellation_outcome_unknown'')) (set_status CancelInDoubt m1)"
    using assms(1) by (auto simp: handle_event_def cancel_unknown_def result_simps)
  have "stays_closed m m1" by (rule closed_transition[OF assms(2) m1(1)]) (simp add: closed_status_def)
  then show ?thesis using m1(2) by (auto simp: stays_closed_def run_closed_def)
qed (use assms in \<open>auto simp: handle_event_def is_fallback_def intro: closed_settle_success closed_settle_failure
      closed_assistant_failure closed_drive_failure\<close>)

lemma closed_reduce:
  assumes "reduce env w s ev = Inr out" "run_closed s" "\<not> is_fallback ev"
  shows "run_closed (out_snapshot out) \<and> out_emitted out = []"
proof -
  from assms(1) obtain m1 m2 where r: "handle_event env w s ev (initial_machine s) = Inr m1"
    "drain_automatic env w m1 = Inr m2"
    "out = \<lparr>out_snapshot = (if m_applied m2 then m_snapshot m2
             else (m_snapshot m2)\<lparr>snap_sequence := snap_sequence s\<rparr>),
           out_emitted = m_emitted m2, out_applied = m_applied m2\<rparr>"
    by (rule reduceE)
  have "run_closed (m_snapshot (initial_machine s))" using assms(2) by (simp add: initial_machine_def run_closed_def)
  from closed_handle[OF r(1) this assms(3)] have c: "stays_closed (initial_machine s) m1" by (simp add: initial_machine_def)
  then have "m2 = m1" using r(2) drain_empty[of m1] by (simp add: stays_closed_def initial_machine_def drain_automatic_def)
  then show ?thesis using c r(3) by (auto simp: stays_closed_def initial_machine_def run_closed_def)
qed

text \<open>Runs of several events, with everything they emit.\<close>

fun reduce_all :: "digest_env \<Rightarrow> compiled_workflow \<Rightarrow> run_snapshot \<Rightarrow> reducer_event list \<Rightarrow> failure + run_snapshot \<times> run_command list" where
  "reduce_all env w s [] = Inr (s, [])"
| "reduce_all env w s (ev # evs) =
     and_then (reduce env w s ev) (\<lambda>out.
     and_then (reduce_all env w (out_snapshot out) evs) (\<lambda>(s', emitted). Inr (s', out_emitted out @ emitted)))"

lemma closed_reduce_all:
  assumes "reduce_all env w s evs = Inr (s', emitted)" "run_closed s" "list_all (\<lambda>ev. \<not> is_fallback ev) evs"
  shows "run_closed s' \<and> emitted = []"
  using assms
proof (induction evs arbitrary: s s' emitted)
  case (Cons ev evs)
  from Cons.prems(1) obtain out em where out: "reduce env w s ev = Inr out"
    "reduce_all env w (out_snapshot out) evs = Inr (s', em)" "emitted = out_emitted out @ em"
    by (auto simp: result_simps)
  have c: "run_closed (out_snapshot out)" "out_emitted out = []"
    using closed_reduce[OF out(1) Cons.prems(2)] Cons.prems(3) by simp_all
  from Cons.IH[OF out(2) c(1)] Cons.prems(3) show ?case using out(3) c(2) by simp
qed simp

end
