(* ===== verification/Flywheel_Safety.thy ===== *)
theory Flywheel_Safety
  imports Flywheel_Run
begin

text \<open>
  The reducer never panics on a compiled workflow: the states of all commands are known and
  visited, worksets have their template, and forks are not nested, so that the fuel of
  \<open>enter\<close> suffices. \<open>never_panics\<close> is a Hoare triple for fallible computations.
\<close>

section \<open>Triples\<close>

definition never_panics :: "('a \<Rightarrow> bool) \<Rightarrow> failure + 'a \<Rightarrow> bool" where
  "never_panics P r = (case r of Inl e \<Rightarrow> e \<noteq> Panic | Inr x \<Rightarrow> P x)"

lemma np_simps [simp]:
  "never_panics P (Inr x) = P x" "never_panics P (Inl (Code e))" "\<not> never_panics P (Inl Panic)"
  by (simp_all add: never_panics_def)

lemma np_and_then:
  assumes "never_panics Q r" "\<And>x. r = Inr x \<Longrightarrow> Q x \<Longrightarrow> never_panics P (f x)"
  shows "never_panics P (and_then r f)"
  using assms by (cases r) (auto simp: never_panics_def)

lemma np_then:
  assumes "never_panics (\<lambda>_. True) r" "\<And>x. r = Inr x \<Longrightarrow> never_panics P (f x)"
  shows "never_panics P (and_then r f)"
  by (rule np_and_then[OF assms(1)]) (rule assms(2))

lemma np_ensure [simp]: "never_panics P (ensure b (Code e) k) \<longleftrightarrow> (b \<longrightarrow> never_panics P k)"
  by (cases b) simp_all

lemma np_ok_or [simp]:
  "never_panics P (ok_or (Code e) opt) \<longleftrightarrow> (\<forall>x. opt = Some x \<longrightarrow> P x)"
  "never_panics P (ok_or Panic opt) \<longleftrightarrow> (\<exists>x. opt = Some x \<and> P x)"
  by (cases opt; simp)+

lemma np_ok_then:
  "never_panics P (and_then (ok_or (Code e) opt) f) \<longleftrightarrow> (\<forall>x. opt = Some x \<longrightarrow> never_panics P (f x))"
  by (cases opt) simp_all

lemma np_run_all:
  assumes "P s" "\<And>s x. x \<in> set xs \<Longrightarrow> P s \<Longrightarrow> never_panics P (f s x)"
  shows "never_panics P (run_all f s xs)"
  using assms by (induction xs arbitrary: s) (auto intro!: np_and_then)

lemma np_weaken: "never_panics P r \<Longrightarrow> (\<And>x. r = Inr x \<Longrightarrow> P x \<Longrightarrow> Q x) \<Longrightarrow> never_panics Q r"
  by (cases r) (auto simp: never_panics_def)

section \<open>What compilation gives\<close>

definition runnable :: "compiled_workflow \<Rightarrow> bool" where
  "runnable w \<longleftrightarrow> graph_ok w
   \<and> (\<forall>st\<in>set (def_states (cw_definition w)). gs_kind st = KWorkset \<longrightarrow>
        (\<exists>i t. gs_workset st = Some i \<and> find (\<lambda>t. ws_id t = i) (def_worksets (cw_definition w)) = Some t))
   \<and> (\<forall>st s st'. cw_state w (gs_id st) = Some st \<longrightarrow> gs_kind st = KFork \<longrightarrow> s \<in> fork_targets w (gs_id st) \<longrightarrow> cw_state w s = Some st' \<longrightarrow> gs_kind st' \<noteq> KFork)
   \<and> max_attempts w \<le> MAX_RETRY_ATTEMPTS"

lemma unique_ids_set: "unique_ids label vs = Inr A \<Longrightarrow> A = set vs"
proof -
  have "run_all (unique_step label) S vs = Inr A \<Longrightarrow> A = S \<union> set vs" for S
    by (induction vs arbitrary: S) (auto simp: result_simps validate_identifier_def)
  from this[of "{}"] show "unique_ids label vs = Inr A \<Longrightarrow> A = set vs" by (simp add: unique_ids_def)
qed

lemma compiled_runnable:
  assumes "compile_workflow_inner env d0 legacy = Inr w"
  shows "runnable w"
proof -
  note g = compile_inner_graph[OF assms]
  let ?d = "cw_definition w"
  from assms obtain d1 idx1 rts wss d idx where
    limits: "check_limits d0 = Inr ()" and d1: "d1 = normalize_entry_slot d0" and bind: "check_bindings d1 = Inr (rts, wss)" and
    states: "index_states d1 rts wss = Inr idx1" and
    legacy: "legacy \<and> normalize_legacy_effect_routing d1 idx1 = Inr (d, idx) \<or> \<not> legacy \<and> (d, idx) = (d1, idx1)" and
    graph: "compile_graph env d idx = Inr w"
    by (rule compile_innerE)
  have d: "?d = d" by (rule compile_graphE[OF graph]) simp
  note ok = index_states_ok[OF states]
  have frame: "def_worksets d = def_worksets d1 \<and> def_limits d = def_limits d1
      \<and> (def_states d = def_states d1 \<or> (\<exists>t. def_states d = def_states d1 @ [blocked_state t]))"
    using legacy normalize_legacy_frame[OF _ ok(1)] by auto
  have "unique_ids ''workflow_workset_id'' (map ws_id (def_worksets d1)) = Inr wss"
    using bind by (auto simp: check_bindings_def Let_def result_simps)
  then have wss: "wss = set (map ws_id (def_worksets d1))" by (rule unique_ids_set)
  have "\<exists>i t. gs_workset st = Some i \<and> find (\<lambda>t. ws_id t = i) (def_worksets ?d) = Some t"
    if st: "st \<in> set (def_states ?d)" "gs_kind st = KWorkset" for st
  proof -
    have "st \<in> set (def_states d1)" using st frame d by (auto simp: blocked_state_def)
    then have "check_state_fields d1 rts wss KWorkset st = Inr ()" using ok(3)[of st] st(2) by simp
    then obtain i where i: "gs_workset st = Some i" "i \<in> wss"
      by (auto simp: result_simps member_opt_def split: option.splits)
    then have "find (\<lambda>t. ws_id t = i) (def_worksets d1) \<noteq> None" using wss by (auto simp: find_None_iff)
    then show ?thesis using i frame d by auto
  qed
  moreover have "gs_kind st' \<noteq> KFork"
    if st: "cw_state w (gs_id st) = Some st" "gs_kind st = KFork" "s \<in> fork_targets w (gs_id st)" "cw_state w s = Some st'" for st s st'
  proof -
    from compiled_regions[OF assms] obtain J B where
      "\<forall>st\<in>set (def_states ?d). gs_kind st = KFork \<longrightarrow> parallel_region w (gs_id st) (J (gs_id st)) (B (gs_id st))" by blast
    moreover have "st \<in> set (def_states ?d)" using st(1) graph_state_iff[OF g(1)] by blast
    ultimately have "branch_region w (gs_id st) (J (gs_id st)) s (B (gs_id st) s)"
      using st(2,3) by (simp add: parallel_region_def)
    then have "inner_kind (map_option gs_kind (cw_state w s))" by (simp add: branch_region_def)
    then show ?thesis using st(4) by (auto simp: inner_kind_def)
  qed
  moreover have "max_attempts w \<le> MAX_RETRY_ATTEMPTS"
  proof -
    have "lim_max_attempts (def_limits d0) \<le> MAX_RETRY_ATTEMPTS" using limits by (simp add: check_limits_def result_simps)
    then show ?thesis using frame d d1 by (simp add: max_attempts_def normalize_entry_slot_def)
  qed
  ultimately show ?thesis using g(1) unfolding runnable_def by blast
qed

section \<open>The invariant\<close>

definition visited :: "run_snapshot \<Rightarrow> rstr \<Rightarrow> bool" where
  "visited s i \<longleftrightarrow> map_of (snap_visits s) i \<noteq> None"

definition cmds_known :: "compiled_workflow \<Rightarrow> machine \<Rightarrow> bool" where
  "cmds_known w m \<longleftrightarrow> (\<forall>i c. map_of (commands m) i = Some c \<longrightarrow>
     cw_state w (cmd_state_id c) \<noteq> None \<and> visited (m_snapshot m) (cmd_state_id c))"

lemma cmds_knownD:
  "cmds_known w m \<Longrightarrow> map_of (commands m) i = Some c \<Longrightarrow> \<exists>st. cw_state w (cmd_state_id c) = Some st"
  "cmds_known w m \<Longrightarrow> map_of (commands m) i = Some c \<Longrightarrow> visited (m_snapshot m) (cmd_state_id c)"
  by (auto simp: cmds_known_def)

lemma known_quiet:
  assumes "cmds_known w m" "quiet m m'" "\<And>i. visited (m_snapshot m) i \<Longrightarrow> visited (m_snapshot m') i"
  shows "cmds_known w m'"
  unfolding cmds_known_def
proof (intro allI impI)
  fix i c' assume "map_of (commands m') i = Some c'"
  then obtain c where c: "map_of (commands m) i = Some c" "evolves c c'" using quiet_back[OF assms(2)] by blast
  then show "cw_state w (cmd_state_id c') \<noteq> None \<and> visited (m_snapshot m') (cmd_state_id c')"
    using cmds_knownD[OF assms(1) c(1)] evolves_fields[OF c(2)] assms(3) by auto
qed

lemma visited_frame [simp]:
  "visited (s\<lparr>snap_status := st\<rparr>) i = visited s i" "visited (s\<lparr>snap_diagnostic := x\<rparr>) i = visited s i"
  "visited (s\<lparr>snap_commands := cs\<rparr>) i = visited s i" "visited (s\<lparr>snap_lineage := l\<rparr>) i = visited s i"
  "visited (s\<lparr>snap_callbacks := cbs\<rparr>) i = visited s i" "visited (s\<lparr>snap_active := a\<rparr>) i = visited s i"
  "visited (s\<lparr>snap_completed := a\<rparr>) i = visited s i" "visited (s\<lparr>snap_join_arrivals := ja\<rparr>) i = visited s i"
  "visited (s\<lparr>snap_input := x'\<rparr>) i = visited s i" "visited (s\<lparr>snap_sequence := q\<rparr>) i = visited s i"
  "visited (s\<lparr>snap_slot_ordinals := so\<rparr>) i = visited s i" "visited (s\<lparr>snap_fallbacks := fb\<rparr>) i = visited s i"
  "visited (s\<lparr>snap_visits := bt_update 0 j f v\<rparr>) i = (i = j \<or> map_of v i \<noteq> None)"
  by (auto simp: visited_def map_of_bt_update)

lemma visited_ops [simp]:
  "visited (m_snapshot (leave j m)) i = visited (m_snapshot m) i"
  "visited (m_snapshot (deactivate j m)) i = visited (m_snapshot m) i"
  "visited (m_snapshot (push_automatic j e m)) i = visited (m_snapshot m) i"
  "visited (m_snapshot (park_callback j e t m)) i = visited (m_snapshot m) i"
  "visited (m_snapshot (refresh_workset_status j m)) i = visited (m_snapshot m) i"
  "visited (m_snapshot (map_commands f m)) i = visited (m_snapshot m) i"
  "visited (m_snapshot (activate j m)) i = (i = j \<or> visited (m_snapshot m) i)"
  "visited (merge_output c k output s) i = visited s i"
  by (auto simp: leave_def deactivate_def push_automatic_def park_callback_def refresh_workset_status_def map_commands_def
      activate_def merge_output_def merge_session_def Let_def visited_def map_of_bt_update split: prod.splits option.splits)

lemmas known_ops = known_quiet[OF _ quiet_frame(2)] known_quiet[OF _ quiet_frame(3)] known_quiet[OF _ quiet_frame(4)]
  known_quiet[OF _ quiet_frame(5)] known_quiet[OF _ quiet_frame(6)] known_quiet[OF _ quiet_frame(7)]
  known_quiet[OF _ quiet_frame(8)] known_quiet[OF _ quiet_frame(9)]

lemma visited_bump: "bump_attempt_lineage w st v slot item m = Inr m' \<Longrightarrow> visited (m_snapshot m') i = visited (m_snapshot m) i"
  by (auto simp: bump_attempt_lineage_def Let_def result_simps visited_def)

section \<open>Operations\<close>

lemma np_insert:
  assumes "cmds_known w m" "cw_state w (cmd_state_id c) \<noteq> None" "visited (m_snapshot m) (cmd_state_id c)"
  shows "never_panics (\<lambda>m'. cmds_known w m' \<and> (\<forall>i. visited (m_snapshot m') i = visited (m_snapshot m) i)) (insert_command c m)"
  using assms by (auto simp: insert_command_def cmds_known_def map_of_bt_insert)

lemma new_command_state [simp]:
  "cmd_state_id (new_command env w s st v k item ordinal resume input) = gs_id st"
  by (simp add: new_command_def Let_def)

lemma np_bump: "never_panics (\<lambda>m'. bump_attempt_lineage w st v slot item m = Inr m') (bump_attempt_lineage w st v slot item m)"
  by (simp add: bump_attempt_lineage_def Let_def)

lemma known_bump: "bump_attempt_lineage w st v slot item m = Inr m' \<Longrightarrow> cmds_known w m \<Longrightarrow> cmds_known w m'"
  by (simp add: cmds_known_def bump_frame visited_bump)

lemma np_emit:
  assumes "runnable w" "cmds_known w m" "cw_state w s = Some st" "visited (m_snapshot m) s"
  shows "never_panics (\<lambda>m'. cmds_known w m' \<and> (\<forall>i. visited (m_snapshot m') i = visited (m_snapshot m) i)) (emit_command env w s k item input m)"
proof -
  have id: "gs_id st = s" using assms(1,3) graph_state_iff[of w s st] by (simp add: runnable_def)
  obtain v where v: "map_of (snap_visits (m_snapshot m)) s = Some v" using assms(4) by (auto simp: visited_def)
  show ?thesis
    unfolding emit_command_def Let_def assms(3) v ok_or_simps and_then_simps
  proof (rule np_and_then[OF np_bump])
    fix m1 assume m1: "bump_attempt_lineage w s v (gs_binding st) item m = Inr m1"
    show "never_panics (\<lambda>m'. cmds_known w m' \<and> (\<forall>i. visited (m_snapshot m') i = visited (m_snapshot m) i))
      (insert_command (new_command env w (m_snapshot m1) st v k item
        (case gs_binding st of None \<Rightarrow> 0 | Some slot \<Rightarrow> get_or 0 (snap_slot_ordinals (m_snapshot m)) (ordinal_key s v slot item))
        (Option.bind (gs_binding st) (\<lambda>b. map_of (snap_actor_sessions (m_snapshot m)) (binding_session_key b
          (case gs_binding st of None \<Rightarrow> 0 | Some slot \<Rightarrow> get_or 0 (snap_slot_ordinals (m_snapshot m)) (ordinal_key s v slot item)))))
        input) m1)"
      by (rule np_weaken[OF np_insert[OF known_bump[OF m1 assms(2)]]])
        (use assms(3,4) id visited_bump[OF m1] in auto)
  qed
qed

lemma np_effect_input: "never_panics (\<lambda>_. True) (effect_input_for env w s input)"
  unfolding effect_input_for_def by (rule np_then) simp_all

lemma np_emit_item:
  assumes "runnable w" "cmds_known w m" "cw_state w s = Some st" "visited (m_snapshot m) s"
  shows "never_panics (\<lambda>m'. cmds_known w m' \<and> visited (m_snapshot m') s) (emit_item env w s m x)"
proof (cases x)
  case (fields i ps item)
  have "never_panics (\<lambda>m'. cmds_known w m' \<and> visited (m_snapshot m') s) (emit_command env w s WorksetItemCommand (Some i) input m)" for input
    by (rule np_weaken[OF np_emit[OF assms]]) (simp add: assms(4))
  then show ?thesis unfolding emit_item_def fields prod.case by (intro np_then[OF np_effect_input])
qed

lemma np_collect: "never_panics (\<lambda>_. True) (collect_predecessors vs)"
proof (induction vs)
  case (Cons v vs)
  then show ?case unfolding collect_predecessors.simps by (intro np_then) simp_all
qed simp

lemma np_item_predecessors: "never_panics (\<lambda>_. True) (item_predecessors template item)"
  by (simp add: item_predecessors_def np_collect split: option.splits json.splits)

lemma np_normalize_item: "never_panics (\<lambda>_. True) (normalize_item template items x)"
  unfolding normalize_item.simps
  by (intro np_then) (simp_all add: np_item_predecessors np_then[OF np_item_predecessors])

lemma np_normalize: "never_panics (\<lambda>_. True) (normalize_workset template items)"
  unfolding normalize_workset_def
  by (intro np_then np_run_all np_normalize_item) simp_all

lemma np_indexed_visit:
  assumes "cmds_known w m" "keyed (commands m)"
  shows "never_panics (\<lambda>_. True) (indexed_visit (m_snapshot m) s)"
proof -
  have "\<exists>v. map_of (snap_visits (m_snapshot m)) s = Some v" if "list_ex (\<lambda>(_, c). cmd_state_id c = s) (commands m)"
  proof -
    from that obtain i c where "(i, c) \<in> set (commands m)" "cmd_state_id c = s" by (auto simp: list_ex_iff)
    then have "visited (m_snapshot m) s" using cmds_knownD(2)[OF assms(1)] keyed_mem[OF assms(2)] by auto
    then show ?thesis by (auto simp: visited_def)
  qed
  then show ?thesis by (auto simp: indexed_visit_def)
qed

lemma np_schedule:
  assumes "runnable w" "cmds_known w m" "keyed (commands m)" "cw_state w s = Some st" "gs_kind st = KWorkset" "visited (m_snapshot m) s"
  shows "never_panics (\<lambda>(b, m'). cmds_known w m') (schedule_workset env w s m)"
proof -
  have "st \<in> set (def_states (cw_definition w))" using assms(1,4) graph_state_iff by (auto simp: runnable_def)
  then obtain i t where it: "gs_workset st = Some i" "find (\<lambda>t. ws_id t = i) (def_worksets (cw_definition w)) = Some t"
    using assms(1,5) unfolding runnable_def by blast
  have emit: "never_panics (\<lambda>m'. cmds_known w m' \<and> visited (m_snapshot m') s) (run_all (emit_item env w s) m xs)" for xs
    by (rule np_run_all) (use assms(2,6) in \<open>auto intro: np_emit_item[OF assms(1) _ assms(4)]\<close>)
  have "never_panics (\<lambda>_. True) (workset_items w i input)" for input
    by (simp add: workset_items_def Let_def)
  then show ?thesis
    unfolding schedule_workset_def assms(4) it ok_or_simps and_then_simps
    by (intro np_and_then[of "\<lambda>_. True"])
      (auto simp: Let_def assms(2) it intro!: np_and_then[OF np_normalize] np_and_then[OF np_indexed_visit[OF assms(2,3)]]
        np_and_then[OF emit])
qed

text \<open>Entering a state: a fork enters states that are not forks, so two levels of fuel suffice.\<close>

abbreviation good :: "compiled_workflow \<Rightarrow> machine \<Rightarrow> bool" where
  "good w m \<equiv> cmds_known w m \<and> keyed (commands m)"

lemma good_op:
  assumes "good w m" "quiet m m'" "\<And>i. visited (m_snapshot m) i \<Longrightarrow> visited (m_snapshot m') i"
  shows "good w m'"
  using assms known_quiet quiet_keyed by blast

lemma np_good:
  assumes "never_panics (cmds_known w) r" "\<And>m'. r = Inr m' \<Longrightarrow> progress w m m'" "keyed (commands m)"
  shows "never_panics (good w) r"
  using assms progress_keyed by (intro np_weaken[OF assms(1)]) blast

lemma np_enter_kind:
  assumes "runnable w" "good w m" "cw_state w s = Some st" "visited (m_snapshot m) s"
    and fork: "\<And>t p m. gs_kind st = KFork \<Longrightarrow> t \<in> fork_targets w s \<Longrightarrow> good w m \<Longrightarrow> never_panics (good w) (enter_state t p m)"
    and prog: "\<And>t p m m'. enter_state t p m = Inr m' \<Longrightarrow> progress w m m'"
  shows "never_panics (good w) (enter_kind env w enter_state st m)"
proof (rule np_good[where m = m])
  have id: "gs_id st = s" using assms(1,3) graph_state_iff[of w s st] by (simp add: runnable_def)
  have emit: "never_panics (cmds_known w) (emit_command env w s k item input m)" for k item input
    by (rule np_weaken[OF np_emit[OF assms(1) _ assms(3,4)]]) (use assms(2) in simp_all)
  show "never_panics (cmds_known w) (enter_kind env w enter_state st m)"
  proof (cases "gs_kind st")
    case KFork
    have "never_panics (good w) (run_all (\<lambda>m t. enter_state t (Some s) m) (leave s m) (map tr_to (cw_transitions w s Complete)))"
    proof (rule np_run_all)
      show "good w (leave s m)" by (rule good_op[OF assms(2) quiet_frame(5)]) simp
      show "never_panics (good w) (enter_state t (Some s) m)" if "t \<in> set (map tr_to (cw_transitions w s Complete))" "good w m" for m t
        using fork[OF KFork _ that(2)] that(1) by (simp add: fork_targets_def)
    qed
    then have "never_panics (cmds_known w) (run_all (\<lambda>m t. enter_state t (Some s) m) (leave s m) (map tr_to (cw_transitions w s Complete)))"
      by (rule np_weaken) simp
    then show ?thesis by (simp add: enter_kind_def KFork complete_fork_def Let_def id)
  next
    case KWorkset
    have "never_panics (\<lambda>(b, m'). cmds_known w m') (schedule_workset env w s m)"
      by (rule np_schedule[OF assms(1) _ _ assms(3) KWorkset assms(4)]) (use assms(2) in simp_all)
    then show ?thesis
      unfolding enter_kind_def KWorkset id graph_state_kind.case
      by (rule np_and_then) (auto intro: known_quiet[OF _ quiet_frame(7)] split: prod.splits)
  next
    case KAuthorization
    show ?thesis
      unfolding enter_kind_def KAuthorization id graph_state_kind.case
      by (rule np_and_then[OF emit]) (simp add: known_quiet[OF _ quiet_frame(2)])
  next
    case KActor
    show ?thesis
      unfolding enter_kind_def KActor id graph_state_kind.case
      by (rule np_then[OF np_effect_input emit])
  next
    case KFail
    then show ?thesis using assms(2) by (simp add: enter_kind_def cmds_known_def)
  next
    case KBlocked
    then show ?thesis using assms(2) by (simp add: enter_kind_def cmds_known_def)
  qed (use assms(2) emit in \<open>auto simp: enter_kind_def id intro: known_quiet[OF _ quiet_frame(7)]
        intro!: known_quiet[OF _ quiet_trans[OF quiet_frame(5) quiet_frame(2)]]\<close>)
  show "progress w m m'" if "enter_kind env w enter_state st m = Inr m'" for m'
    by (rule progress_enter_kind[OF that prog])
  show "keyed (commands m)" using assms(2) by simp
qed

lemma visited_join_gate: "join_gate w st p m = (b, m') \<Longrightarrow> visited (m_snapshot m') i = visited (m_snapshot m) i"
  by (auto simp: join_gate_def Let_def split: if_splits option.splits)

lemma np_enter_step:
  assumes "runnable w" "good w m"
    and "\<And>st t p m. cw_state w s = Some st \<Longrightarrow> gs_kind st = KFork \<Longrightarrow> t \<in> fork_targets w s \<Longrightarrow> good w m \<Longrightarrow>
      never_panics (good w) (enter_within n env w t p m)"
  shows "never_panics (good w) (enter_within (Suc n) env w s p m)"
proof (cases "cw_state w s")
  case (Some st)
  obtain b m1 where gate: "join_gate w st p m = (b, m1)" by fastforce
  have m1: "good w m1"
    by (rule good_op[OF assms(2) quiet_join_gate[OF gate]]) (simp add: visited_join_gate[OF gate])
  have id: "gs_id st = s" using assms(1) Some graph_state_iff[of w s st] by (simp add: runnable_def)
  have "never_panics (good w) (enter_kind env w (enter_within n env w) st (activate s m1))"
  proof (rule np_enter_kind[OF assms(1) _ Some])
    show "good w (activate s m1)" by (rule good_op[OF m1 quiet_frame(4)]) simp
    show "never_panics (good w) (enter_within n env w t p m)"
      if "gs_kind st = KFork" "t \<in> fork_targets w s" "good w m" for t p m
      by (rule assms(3)[OF Some that])
    show "progress w m m'" if "enter_within n env w t p m = Inr m'" for t p m m' by (rule progress_enter_within[OF that])
  qed simp
  then show ?thesis using gate m1 Some id by (cases b) simp_all
qed simp

lemma np_enter:
  assumes "runnable w" "good w m"
  shows "never_panics (good w) (enter env w s p m)"
  unfolding enter_def enter_fuel_def numeral_2_eq_2
proof (rule np_enter_step[OF assms])
  fix st t p m
  assume st: "cw_state w s = Some st" "gs_kind st = KFork" "t \<in> fork_targets w s" and m: "good w m"
  show "never_panics (good w) (enter_within (Suc 0) env w t p m)"
  proof (rule np_enter_step[OF assms(1) m])
    fix st' assume st': "cw_state w t = Some st'" "gs_kind st' = KFork"
    have "gs_id st = s" using assms(1) st(1) graph_state_iff[of w s st] by (simp add: runnable_def)
    then have "gs_kind st' \<noteq> KFork" using assms(1) st st'(1) unfolding runnable_def by blast
    with st'(2) show "never_panics (good w) (enter_within 0 env w t' p' m')" for t' p' m' by simp
  qed
qed

lemma np_select: "never_panics (\<lambda>_. True) (select_transition w s e payload)"
proof -
  have "never_panics (\<lambda>_. True) (run_all (select_step payload) st ts)" for st ts
    by (rule np_run_all) (auto split: option.splits)
  then show ?thesis unfolding select_transition_def by (rule np_then) (simp split: prod.splits)
qed

lemma good_park: "good w m \<Longrightarrow> good w (park_callback s e t m)"
  by (rule good_op[OF _ quiet_frame(8)]) simp_all

lemma np_complete_state:
  assumes "runnable w" "good w m"
  shows "never_panics (good w) (complete_state env w s e payload m)"
proof -
  have m: "good w (leave s m)" by (rule good_op[OF assms(2) quiet_frame(5)]) simp
  show ?thesis
    unfolding complete_state_def Let_def
    by (rule np_then[OF np_select], rule np_then) (simp_all add: good_park[OF m] np_enter[OF assms(1) m])
qed

lemma np_drain: "runnable w \<Longrightarrow> good w m \<Longrightarrow> never_panics (good w) (drain_within n env w m)"
proof (induction n arbitrary: m)
  case (Suc n)
  show ?case
  proof (cases "m_automatic m")
    case (Cons a rest)
    obtain s e payload where a: "a = (s, e, payload)" by (cases a)
    have "good w (m\<lparr>m_automatic := rest\<rparr>)" by (rule good_op[OF Suc.prems(2) quiet_frame(10)]) simp
    from np_and_then[OF np_complete_state[OF Suc.prems(1) this] Suc.IH[OF Suc.prems(1)]]
    show ?thesis by (simp add: Cons a)
  qed (use Suc.prems in simp)
qed simp

lemma np_take_failure:
  assumes "runnable w" "good w m"
  shows "never_panics (good w) (take_failure env w s t m)"
proof -
  have m: "good w (deactivate s m)" by (rule good_op[OF assms(2) quiet_frame(6)]) simp
  show ?thesis by (simp add: take_failure_def Let_def good_park[OF m] np_enter[OF assms(1) m])
qed

lemma np_route_failure:
  assumes "runnable w" "good w m"
  shows "never_panics (good w) (route_failure env w s code otherwise m)"
proof -
  have "good w (set_status otherwise m)" by (rule good_op[OF assms(2) quiet_frame(2)]) simp
  then show ?thesis
    unfolding route_failure_def
    by (intro np_then[OF np_select]) (simp add: np_take_failure[OF assms] split: option.splits)
qed

lemma np_failure_ready:
  assumes "runnable w" "good w m"
  shows "never_panics (\<lambda>(_, m'). good w m') (workset_failure_ready env w st m)"
proof -
  let ?v = "get_or 0 (snap_visits (m_snapshot m)) st"
  let ?m = "cancel_of_visit w st ?v m"
  have m: "good w ?m"
    by (rule good_op[OF assms(2) quiet_cancel_of_visit]) (use assms(2) in \<open>simp_all add: cancel_of_visit_def Let_def\<close>)
  have m': "good w (refresh_workset_status st ?m)" by (rule good_op[OF m quiet_frame(9)]) simp
  have go: "never_panics (\<lambda>(_, m'). good w m') (and_then (select_transition w st Failure payload) (\<lambda>selected.
      and_then (ok_or (Code (lit ''strategy_transition_missing'')) selected) (\<lambda>t.
      and_then (take_failure env w st t ?m) (\<lambda>m. Inr (True, m)))))" for payload
    by (rule np_then[OF np_select], rule np_then, simp, rule np_and_then[OF np_take_failure[OF assms(1) m]]) simp
  show ?thesis
    unfolding workset_failure_ready_def Let_def using m m' go by (auto split: option.splits)
qed

lemma refresh_commands [simp]: "commands (refresh_workset_status s m) = commands m"
  by (simp add: refresh_workset_status_def Let_def)

lemma np_route_success:
  assumes "runnable w" "good w m" "cw_state w s = Some st" "visited (m_snapshot m) s"
  shows "never_panics (good w) (route_success env w s output m)"
proof (cases "gs_kind st = KWorkset")
  case True
  have "never_panics (\<lambda>(b, m'). good w m') (schedule_workset env w s m)"
    by (rule np_weaken[OF np_schedule[OF assms(1) _ _ assms(3) True assms(4)]])
      (use assms(2) progress_keyed[OF progress_schedule] in \<open>auto split: prod.splits\<close>)
  then have "never_panics (good w) (and_then (schedule_workset env w s m) (\<lambda>(satisfied, m).
             if satisfied then complete_state env w s Success (snap_input (m_snapshot m)) m
             else Inr (refresh_workset_status s m)))"
  proof (rule np_and_then)
    fix x :: "bool \<times> machine" assume "case x of (b, m') \<Rightarrow> good w m'"
    then show "never_panics (good w) (case x of (satisfied, m) \<Rightarrow>
        if satisfied then complete_state env w s Success (snap_input (m_snapshot m)) m
        else Inr (refresh_workset_status s m))"
      by (cases x) (simp add: np_complete_state[OF assms(1)] good_op[OF _ quiet_frame(9)])
  qed
  moreover have "never_panics (good w) (and_then (workset_failure_ready env w s m) (\<lambda>(_, m). Inr m))"
    by (rule np_and_then[OF np_failure_ready[OF assms(1,2)]]) (simp split: prod.splits)
  ultimately show ?thesis by (simp add: route_success_def assms(3) True)
qed (simp add: route_success_def assms(3) np_complete_state[OF assms(1,2)])

lemma good_put:
  assumes "good w m" "map_of (commands m) i = Some c" "evolves c c'"
  shows "good w (put_command i c' m)"
  by (rule good_op[OF assms(1) quiet_put[OF assms(2,3)]]) simp

lemma good_ignored: "good w m \<Longrightarrow> good w (m\<lparr>m_applied := b\<rparr>)"
  by (simp add: cmds_known_def)

lemma np_settle_success:
  assumes "runnable w" "good w m"
  shows "never_panics (good w) (settle_success env w i token output m)"
proof (cases "map_of (commands m) i")
  case (Some c)
  obtain st where st: "cw_state w (cmd_state_id c) = Some st" using cmds_knownD(1)[OF _ Some] assms(2) by blast
  let ?m = "put_command i (c\<lparr>cmd_status := CmdSucceeded, cmd_output_digest := Some (sha256_hex env (env_json_text env output))\<rparr>) m"
  have route: "never_panics (good w) (route_success env w (cmd_state_id c) output (on_snapshot (merge_output c i output) ?m))"
    if open_: "open_status (cmd_status c)"
  proof (rule np_route_success[OF assms(1) _ st])
    have "good w ?m" by (rule good_put[OF assms(2) Some evolves_open(1)[OF open_]])
    then show "good w (on_snapshot (merge_output c i output) ?m)" by (rule good_op[OF _ quiet_frame(14)]) simp
    show "visited (m_snapshot (on_snapshot (merge_output c i output) ?m)) (cmd_state_id c)"
      using cmds_knownD(2)[of w m i c] Some assms(2) by simp
  qed
  show ?thesis using route good_ignored[OF assms(2)] by (simp add: settle_success_def Let_def Some)
qed (simp add: settle_success_def Let_def)

lemma np_settle_final:
  assumes "runnable w" "good w m"
  shows "never_panics (good w) (settle_final env w current i cls code m)"
proof -
  have "never_panics (good w) (and_then (workset_failure_ready env w (cmd_state_id current) m) (\<lambda>(_, m). Inr m))"
    by (rule np_and_then[OF np_failure_ready[OF assms]]) (simp split: prod.splits)
  then show ?thesis
    unfolding settle_final_def Let_def
    using np_route_failure[OF assms] good_op[OF assms(2) quiet_frame(9)] good_op[OF assms(2) quiet_frame(2)] by simp
qed

lemma np_settle_failure:
  assumes "runnable w" "good w m"
  shows "never_panics (good w) (settle_failure env w i token cls code m)"
proof (cases "map_of (commands m) i")
  case (Some c)
  let ?set = "\<lambda>st. set_diagnostic (Some code) (put_command i (c\<lparr>cmd_status := st, cmd_failure_class := Some cls,
      cmd_failure_code := Some code\<rparr>) m)"
  have m: "good w (?set st)" if "open_status (cmd_status c)" "st \<in> {CmdRetryable, CmdInDoubt, CmdFailed}" for st
    by (rule good_op[OF good_put[OF assms(2) Some evolves_open(2)[OF that]] quiet_frame(3)]) simp
  have np: "never_panics (good w) (route_failure env w s code' otherwise (?set st))"
    "never_panics (good w) (settle_final env w c i cls code' (?set st))"
    "good w (refresh_workset_status s (?set st))" "good w (set_status rs (?set st))"
    if "open_status (cmd_status c)" "st \<in> {CmdRetryable, CmdInDoubt, CmdFailed}" for st s code' otherwise rs
    by (rule np_route_failure[OF assms(1) m[OF that]], rule np_settle_final[OF assms(1) m[OF that]],
        rule good_op[OF m[OF that] quiet_frame(9)], simp, rule good_op[OF m[OF that] quiet_frame(2)], simp)
  have valid: "never_panics (\<lambda>_. True) (validate_failure_code code)" by (simp add: validate_failure_code_def)
  show ?thesis
    unfolding settle_failure_def Let_def Some ok_or_simps and_then_simps
    by (rule np_then[OF valid]) (use np good_ignored[OF assms(2)] in \<open>auto\<close>)
qed (auto simp: settle_failure_def validate_failure_code_def intro!: np_then)

lemma np_apply_fallback:
  assumes "runnable w" "good w m" "map_of (commands m) i = Some old" "cmd_status old = CmdFailed"
  shows "never_panics (cmds_known w) (apply_fallback env w i old slot ordinal locator receipt m)"
proof -
  let ?m1 = "on_snapshot (\<lambda>s. s\<lparr>snap_slot_ordinals := bt_insert
                  (ordinal_key (cmd_state_id old) (cmd_state_visit old) slot (cmd_item_id old)) ordinal (snap_slot_ordinals s),
                snap_fallbacks := sort_key receipt_order (snap_fallbacks s @ [receipt])\<rparr>) m"
  let ?m2 = "put_command i (old\<lparr>cmd_status := CmdCancelled\<rparr>) ?m1"
  have look: "map_of (commands ?m1) i = Some old" using assms(3) by simp
  have m1: "good w ?m1" using assms(2) by (simp add: cmds_known_def)
  have m2: "good w ?m2" by (rule good_put[OF m1 look]) (auto simp: assms(4) intro!: evolves_status)
  obtain st where st: "cw_state w (cmd_state_id old) = Some st" "visited (m_snapshot ?m2) (cmd_state_id old)"
    using cmds_knownD[of w ?m1 i old] m1 look by auto
  then obtain v where v: "map_of (snap_visits (m_snapshot ?m2)) (cmd_state_id old) = Some v" by (auto simp: visited_def)
  have "gs_id st = cmd_state_id old" using assms(1) st(1) graph_state_iff by (auto simp: runnable_def)
  then have "never_panics (\<lambda>m'. cmds_known w m' \<and> (\<forall>i. visited (m_snapshot m') i = visited (m_snapshot ?m2) i))
      (insert_command (new_command env w (m_snapshot ?m2) st v (cmd_kind old) (cmd_item_id old) ordinal None
        (with_locator (cmd_input old) locator)) ?m2)"
    using m2 st by (intro np_insert) simp_all
  then have "never_panics (cmds_known w) (emit_fallback_command env w (cmd_state_id old) (cmd_kind old) (cmd_item_id old) ordinal
      (with_locator (cmd_input old) locator) ?m2)"
    unfolding emit_fallback_command_def st(1) v ok_or_simps and_then_simps by (rule np_weaken) simp
  then show ?thesis
    unfolding apply_fallback_def Let_def
    by (rule np_and_then) (simp add: cmds_known_def)
qed

lemma np_fallback:
  assumes "runnable w" "good w m"
  shows "never_panics (good w) (issue_fallback env w i ordinal locator from_value to_value reason attempts m)"
proof (rule np_good)
  show "never_panics (cmds_known w) (issue_fallback env w i ordinal locator from_value to_value reason attempts m)"
  proof (cases "map_of (commands m) i")
    case (Some old)
    have "never_panics (cmds_known w) (and_then (bump_attempt_lineage w (cmd_state_id old) (cmd_state_visit old) (cmd_binding_id old)
        (cmd_item_id old) m) (apply_fallback env w i old slot ordinal locator receipt))" if failed: "cmd_status old = CmdFailed" for slot receipt
    proof (rule np_and_then[OF np_bump])
      fix m1 assume bump: "bump_attempt_lineage w (cmd_state_id old) (cmd_state_visit old) (cmd_binding_id old) (cmd_item_id old) m = Inr m1"
      show "never_panics (cmds_known w) (apply_fallback env w i old slot ordinal locator receipt m1)"
        by (rule np_apply_fallback[OF assms(1) _ _ failed])
          (use known_bump[OF bump] assms(2) Some bump_frame(1)[OF bump] in simp_all)
    qed
    then show ?thesis
      unfolding issue_fallback_def Some ok_or_simps and_then_simps np_ensure np_ok_then by blast
  qed (simp add: issue_fallback_def)
  show "progress w m m'" if "issue_fallback env w i ordinal locator from_value to_value reason attempts m = Inr m'" for m' by (rule progress_fallback[OF that])
qed (use assms(2) in simp)

lemma np_retry:
  assumes "runnable w" "good w m"
  shows "never_panics (good w) (retry env w i m)"
proof (rule np_good)
  show "never_panics (cmds_known w) (retry env w i m)"
  proof (cases "map_of (commands m) i")
    case (Some old)
    have known: "cw_state w (cmd_state_id old) \<noteq> None" "visited (m_snapshot m) (cmd_state_id old)"
      using cmds_knownD[of w m i old] assms(2) Some by auto
    let ?c = "retry_command env old"
    have same: "cmd_state_id ?c = cmd_state_id old" by (simp add: retry_command_def Let_def)
    have "never_panics (cmds_known w) (and_then (bump_attempt_lineage w (cmd_state_id old) (cmd_state_visit old) (cmd_binding_id old)
        (cmd_item_id old) m) (\<lambda>m. Inr (apply_retry i old ?c m)))"
    proof (rule np_and_then[OF np_bump])
      fix m1 assume bump: "bump_attempt_lineage w (cmd_state_id old) (cmd_state_visit old) (cmd_binding_id old) (cmd_item_id old) m = Inr m1"
      have "cmds_known w (put_command (cmd_id ?c) ?c (put_command i (old\<lparr>cmd_status := CmdCancelled\<rparr>) m1))"
        using known_bump[OF bump] assms(2) known same bump_frame(1)[OF bump] visited_bump[OF bump]
        by (auto simp: cmds_known_def map_of_bt_insert)
      then show "never_panics (cmds_known w) (Inr (apply_retry i old ?c m1))"
        by (simp add: apply_retry_def Let_def cmds_known_def)
    qed
    then show ?thesis
      unfolding retry_def Some Let_def ok_or_simps and_then_simps np_ensure np_ok_then by blast
  qed (simp add: retry_def)
  show "progress w m m'" if "retry env w i m = Inr m'" for m' by (rule progress_retry[OF that])
qed (use assms(2) in simp)

section \<open>The step\<close>

lemma good_quiet_same:
  assumes "good w m" "quiet m m'" "snap_visits (m_snapshot m') = snap_visits (m_snapshot m)"
  shows "good w m'"
  by (rule good_op[OF assms(1,2)]) (simp add: visited_def assms(3))

lemma cancel_visits [simp]: "snap_visits (m_snapshot (cancel m)) = snap_visits (m_snapshot m)"
  "snap_visits (m_snapshot (cancel_unstarted m)) = snap_visits (m_snapshot m)"
  by (simp_all add: cancel_def cancel_unstarted_def map_commands_def Let_def)

lemma np_quiet:
  assumes "good w m" "\<And>m'. r = Inr m' \<Longrightarrow> ignored m m' \<or> quiet m m'"
    and "\<And>m'. r = Inr m' \<Longrightarrow> snap_visits (m_snapshot m') = snap_visits (m_snapshot m)" "r \<noteq> Inl Panic"
  shows "never_panics (good w) r"
proof (cases r)
  case (Inr m')
  from assms(2)[OF Inr] show ?thesis
    using good_quiet_same[OF assms(1) _ assms(3)[OF Inr]] good_ignored[OF assms(1)] Inr
    by (auto simp: ignored_def)
qed (use assms(4) in \<open>auto simp: never_panics_def\<close>)

lemma np_transition:
  assumes "good w m" "b \<in> later_status a"
  shows "never_panics (good w) (transition_command i token a b m)"
proof -
  have "never_panics (\<lambda>m'. transition_command i token a b m = Inr m' \<and>
      snap_visits (m_snapshot m') = snap_visits (m_snapshot m)) (transition_command i token a b m)"
    by (simp add: transition_command_def np_ok_then)
  then show ?thesis
    by (rule np_weaken) (use good_quiet_same[OF assms(1)] progress_transition[OF _ assms(2)] in blast)
qed

lemma np_start_command: "good w m \<Longrightarrow> never_panics (good w) (start_command i token m)"
  by (auto simp: start_command_def np_ok_then intro!: np_transition)

lemma np_cancel_settled:
  assumes "good w m"
  shows "never_panics (good w) (cancel_acknowledged i token m)" "never_panics (good w) (cancel_unknown i token m)"
  unfolding cancel_acknowledged_def cancel_unknown_def
  by (rule np_and_then[OF np_transition[OF assms]]; simp add: cmds_known_def)+

lemma np_valid_code: "never_panics (\<lambda>_. True) (validate_failure_code code)"
  by (simp add: validate_failure_code_def)

lemma good_cancel_unstarted: "good w m \<Longrightarrow> good w (cancel_unstarted m)"
  by (rule good_quiet_same[OF _ quiet_cancel_unstarted]) simp_all

lemma good_sets: "good w m \<Longrightarrow> good w (set_diagnostic d (set_status st (on_snapshot (\<lambda>s. s\<lparr>snap_callbacks := cbs\<rparr>) m)))"
  "good w m \<Longrightarrow> good w (on_snapshot (\<lambda>s. s\<lparr>snap_callbacks := cbs\<rparr>) m)"
  "good w m \<Longrightarrow> good w (set_diagnostic d (set_status st m))" "good w m \<Longrightarrow> good w (set_status st m)"
  by (simp_all add: cmds_known_def)

lemma np_assistant_failure:
  assumes "good w m"
  shows "never_panics (good w) (settle_assistant_effect_failure i token cls code m)"
proof (cases "map_of (commands m) i")
  case (Some c)
  have "good w (set_diagnostic (Some code) (set_status rs (cancel_unstarted (on_snapshot (\<lambda>s. s\<lparr>snap_callbacks := []\<rparr>)
      (put_command i (c\<lparr>cmd_status := st, cmd_failure_class := Some cls, cmd_failure_code := Some code\<rparr>) m)))))"
    if "open_status (cmd_status c)" "st \<in> {CmdRetryable, CmdInDoubt, CmdFailed}" for st rs
    by (rule good_sets(3)[OF good_cancel_unstarted[OF good_sets(2)[OF good_put[OF assms Some evolves_open(2)[OF that]]]]])
  then show ?thesis
    unfolding settle_assistant_effect_failure_def Let_def Some ok_or_simps and_then_simps
    by (intro np_then[OF np_valid_code]) (use good_ignored[OF assms] in auto)
qed (auto simp: settle_assistant_effect_failure_def intro!: np_then[OF np_valid_code])

lemma good_map:
  assumes "good w m" "\<And>c. evolves c (f c)"
  shows "good w (map_commands f m)"
  by (rule good_quiet_same[OF assms(1) quiet_map[OF assms(2)]]) (simp add: map_commands_def)

lemma np_drive_failure:
  assumes "good w m"
  shows "never_panics (good w) (settle_assistant_drive_failure code m)"
proof -
  let ?f = "\<lambda>c. if cmd_status c \<in> {CmdClaimed, CmdRunning}
      then c\<lparr>cmd_status := CmdInDoubt, cmd_failure_class := Some InDoubt, cmd_failure_code := Some code\<rparr> else c"
  have ev: "evolves c (?f c)" for c by (auto intro!: evolves_status)
  have "good w (set_diagnostic (Some code) (set_status CancelInDoubt (map_commands ?f
      (on_snapshot (\<lambda>s. s\<lparr>snap_callbacks := []\<rparr>) (cancel_unstarted m)))))"
    by (rule good_sets(3)[OF good_map[OF good_sets(2)[OF good_cancel_unstarted[OF assms]] ev]])
  then show ?thesis
    unfolding settle_assistant_drive_failure_def Let_def
    by (intro np_then[OF np_valid_code]) (use good_ignored[OF assms] in simp)
qed

lemma good_cancel: "good w m \<Longrightarrow> good w (cancel m)"
  using quiet_cancel[of m] good_ignored good_quiet_same[OF _ _ cancel_visits(1)] by (auto simp: ignored_def)

lemma np_decision:
  assumes "runnable w" "good w m"
  shows "never_panics (good w) (apply_callback_decision env w s v decision m)"
proof (cases "snap_callbacks (m_snapshot m)")
  case (Cons pending rest)
  let ?m = "on_snapshot (\<lambda>sn. sn\<lparr>snap_callbacks := rest\<rparr>) m"
  have m: "good w ?m" by (rule good_sets(2)[OF assms(2)])
  show ?thesis
    unfolding apply_callback_decision_def Let_def Cons
    using np_enter[OF assms(1) good_sets(4)[OF m]] good_cancel[OF m]
    by (cases decision) (simp_all del: cancel_visits)
qed (simp add: apply_callback_decision_def)

lemma np_pending: "never_panics (\<lambda>_. True) (pending_authorization s)"
  by (simp add: pending_authorization_def)

lemma np_handle:
  assumes "runnable w" "good w m"
  shows "never_panics (good w) (handle_event env w previous ev m)"
proof (cases ev)
  case (Start input)
  have "good w (on_snapshot (\<lambda>s. s\<lparr>snap_input := input, snap_status := Running\<rparr>) m)"
    using assms(2) by (simp add: cmds_known_def)
  from np_enter[OF assms(1) this] show ?thesis by (simp add: Start handle_event_def start_run_def)
next
  case (AuthorizationGranted digest)
  then show ?thesis using np_then[OF np_pending np_settle_success[OF assms]] by (simp add: handle_event_def)
next
  case AuthorizationDenied
  then show ?thesis using np_then[OF np_pending np_settle_failure[OF assms]] by (simp add: handle_event_def)
next
  case AuthorizationRevoked
  then show ?thesis using good_sets(3)[OF assms(2)] good_ignored[OF assms(2)] by (simp add: handle_event_def revoke_authorization_def)
next
  case (CommandClaimed i token)
  then show ?thesis using np_transition[OF assms(2), of CmdClaimed CmdPending] by (simp add: handle_event_def)
next
  case CancelRequested
  then show ?thesis using good_cancel[OF assms(2)] by (simp add: handle_event_def del: cancel_visits)
qed (simp_all add: handle_event_def np_start_command np_settle_success np_settle_failure np_assistant_failure np_drive_failure
    np_decision np_retry np_cancel_settled np_fallback assms del: cancel_visits)

lemma good_initial: "keyed (snap_commands s) \<Longrightarrow> cmds_known w (initial_machine s) \<Longrightarrow> good w (initial_machine s)"
  by (simp add: initial_machine_def)

lemma np_reduce:
  assumes "runnable w" "good w (initial_machine s)"
  shows "never_panics (\<lambda>out. cmds_known w (initial_machine (out_snapshot out))) (reduce env w s ev)"
proof -
  have drain: "never_panics (good w) (drain_automatic env w m)" if "good w m" for m
    unfolding drain_automatic_def by (rule np_drain[OF assms(1) that])
  have fin: "cmds_known w (initial_machine (if b then m_snapshot m else (m_snapshot m)\<lparr>snap_sequence := n\<rparr>))"
    if "good w m" for b m n
    using that by (simp add: cmds_known_def initial_machine_def)
  show ?thesis
    unfolding reduce_def np_ensure
    by (intro impI np_and_then[OF np_handle[OF assms]] np_and_then[OF drain]) (simp_all add: fin)
qed

lemma reach_good:
  assumes "runnable w" "run_reaches env w s"
  shows "good w (initial_machine s)"
  using assms(2)
proof (induction rule: run_reaches.induct)
  case (start s)
  then show ?case by (simp add: unstarted_def cmds_known_def initial_machine_def keyed_def)
next
  case (step s ev out)
  have "cmds_known w (initial_machine (out_snapshot out))" using np_reduce[OF assms(1) step(3)] step(2) by (metis np_simps(1))
  then show ?case by (intro good_initial reach_keyed[OF run_reaches.step[OF step(1,2)]])
qed

lemma compiled_never_panics:
  assumes "compile_workflow_inner env d legacy = Inr w" "run_reaches env w s"
  shows "reduce env w s ev \<noteq> Inl Panic"
proof
  assume "reduce env w s ev = Inl Panic"
  then show False
    using np_reduce[OF compiled_runnable[OF assms(1)] reach_good[OF compiled_runnable[OF assms(1)] assms(2)], of env ev] by simp
qed

end
