(* ===== verification/Flywheel_Context.thy ===== *)
theory Flywheel_Context
  imports Flywheel_Progress "HOL-Library.Multiset"
begin

text \<open>
  The run context and worksets: outputs of parallel commands merge into the input of the run in
  any order with the same result, and a workset issues its items in the order of their
  predecessors and does not stall.
\<close>

section \<open>Merging is independent of the order\<close>

definition pair_wf :: "(rstr \<times> json) list \<times> (rstr \<times> rstr) list \<Rightarrow> bool" where
  "pair_wf = (\<lambda>(target, sources). bt_wf target \<and> bt_wf sources)"

lemma stable_merge_simps [simp]:
  "stable_merge_object ns c [] st = st"
  "stable_merge_object ns c ((k, v) # incoming) (target, sources) =
     (if merge_key (nul_join [ns, k]) sources c
      then stable_merge_object ns c incoming (bt_insert k v target, bt_insert (nul_join [ns, k]) c sources)
      else stable_merge_object ns c incoming (target, sources))"
  by (simp_all add: stable_merge_object_def merge_entry_def)

lemma stable_merge_wf: "pair_wf st \<Longrightarrow> pair_wf (stable_merge_object ns c incoming st)"
proof (induction incoming arbitrary: st)
  case (Cons e incoming)
  obtain k v where "e = (k, v)" by (cases e)
  moreover obtain target sources where "st = (target, sources)" by (cases st)
  ultimately show ?case using Cons by (simp add: pair_wf_def bt_wf_insert)
qed simp

text \<open>The source key of an entry determines its namespace and key.\<close>

definition merge_namespaces :: "rstr set" where
  "merge_namespaces = {lit ''worksets'', lit ''context''}"

lemma source_key_eq:
  "ns \<in> merge_namespaces \<Longrightarrow> ns' \<in> merge_namespaces \<Longrightarrow> nul_join [ns, k] = nul_join [ns', k'] \<longleftrightarrow> ns = ns' \<and> k = k'"
  by (auto simp: merge_namespaces_def nul_join_def lit_def)

text \<open>What a merge does to one key of its namespace, and to the source of one entry.\<close>

definition wins :: "rstr \<Rightarrow> rstr \<Rightarrow> (rstr \<times> json) list \<Rightarrow> (rstr \<times> rstr) list \<Rightarrow> rstr \<Rightarrow> bool" where
  "wins ns c incoming sources k \<longleftrightarrow> map_of incoming k \<noteq> None \<and> merge_key (nul_join [ns, k]) sources c"

definition merged :: "rstr \<Rightarrow> rstr \<Rightarrow> (rstr \<times> json) list \<Rightarrow> (rstr \<times> json) list \<times> (rstr \<times> rstr) list \<Rightarrow>
    (rstr \<times> json) list \<times> (rstr \<times> rstr) list \<Rightarrow> bool" where
  "merged ns c incoming = (\<lambda>(target, sources) (target', sources').
     (\<forall>k. map_of target' k = (if wins ns c incoming sources k then map_of incoming k else map_of target k))
   \<and> (\<forall>k. map_of sources' (nul_join [ns, k]) = (if wins ns c incoming sources k then Some c else map_of sources (nul_join [ns, k])))
   \<and> (\<forall>q. (\<forall>k. q \<noteq> nul_join [ns, k]) \<longrightarrow> map_of sources' q = map_of sources q))"

lemma stable_merge_merged:
  assumes "ns \<in> merge_namespaces"
  shows "distinct (map fst incoming) \<Longrightarrow> merged ns c incoming st (stable_merge_object ns c incoming st)"
proof (induction incoming arbitrary: st)
  case Nil
  then show ?case by (simp add: merged_def wins_def split: prod.splits)
next
  case (Cons e incoming)
  obtain k0 v0 where e: "e = (k0, v0)" by (cases e)
  obtain target sources where st: "st = (target, sources)" by (cases st)
  have fresh: "map_of incoming k0 = None" using Cons.prems(1) e by (simp add: map_of_eq_None_iff)
  have d: "distinct (map fst incoming)" using Cons.prems by simp
  note key = source_key_eq[OF assms assms]
  show ?case
  proof (cases "merge_key (nul_join [ns, k0]) sources c")
    case True
    let ?st = "(bt_insert k0 v0 target, bt_insert (nul_join [ns, k0]) c sources)"
    have "wins ns c incoming (snd ?st) j \<longleftrightarrow> wins ns c incoming sources j" for j
      using fresh key[of j k0] by (cases "j = k0") (simp_all add: wins_def merge_key_def map_of_bt_insert)
    moreover have "wins ns c (e # incoming) sources j \<longleftrightarrow> j = k0 \<or> wins ns c incoming sources j" for j
      using True by (auto simp: wins_def e)
    moreover have "\<not> wins ns c incoming sources k0" using fresh by (simp add: wins_def)
    ultimately show ?thesis
      using Cons.IH[OF d, of ?st] True key by (auto simp: merged_def st e map_of_bt_insert split: prod.splits)
  next
    case False
    then have "wins ns c (e # incoming) sources j \<longleftrightarrow> wins ns c incoming sources j" for j
      using fresh by (auto simp: wins_def e)
    moreover have "\<not> wins ns c incoming sources k0" using fresh by (simp add: wins_def)
    ultimately show ?thesis
      using Cons.IH[OF d, of st] False by (auto simp: merged_def st e split: prod.splits)
  qed
qed

lemma mergedD:
  assumes "merged ns c incoming st st'"
  shows "map_of (fst st') k = (if wins ns c incoming (snd st) k then map_of incoming k else map_of (fst st) k)"
    "map_of (snd st') (nul_join [ns, k]) = (if wins ns c incoming (snd st) k then Some c else map_of (snd st) (nul_join [ns, k]))"
    "\<forall>k. q \<noteq> nul_join [ns, k] \<Longrightarrow> map_of (snd st') q = map_of (snd st) q"
  using assms by (simp_all add: merged_def split: prod.splits)

lemma swap_choice:
  assumes "lt \<longrightarrow> ma \<longrightarrow> mb" "\<not> lt \<longrightarrow> mb \<longrightarrow> ma"
  shows "(if db \<and> (if da \<and> ma then lt else mb) then x else if da \<and> ma then y else z)
      = (if da \<and> (if db \<and> mb then \<not> lt else ma) then y else if db \<and> mb then x else z)"
proof (cases lt)
  case True
  then show ?thesis using assms(1) by (cases ma) auto
next
  case False
  then show ?thesis using assms(2) by (cases mb) auto
qed

lemma merged_swap:
  assumes "a \<noteq> b" "merged ns a ia st st1" "merged ns b ib st1 st12" "merged ns b ib st st2" "merged ns a ia st2 st21"
  shows "map_of (fst st12) = map_of (fst st21)" "map_of (snd st12) = map_of (snd st21)"
proof -
  let ?s = "snd st"
  have gt: "b < a \<longleftrightarrow> \<not> a < b" using assms(1) by auto
  have less: "merge_key q ?s x \<Longrightarrow> x < y \<Longrightarrow> merge_key q ?s y" for q x y
    by (auto simp: merge_key_def split: option.splits)
  have key1: "merge_key (nul_join [ns, k]) (snd st1) b = (if wins ns a ia ?s k then a < b else merge_key (nul_join [ns, k]) ?s b)" for k
    by (simp add: merge_key_def mergedD(2)[OF assms(2)])
  have key2: "merge_key (nul_join [ns, k]) (snd st2) a = (if wins ns b ib ?s k then \<not> a < b else merge_key (nul_join [ns, k]) ?s a)" for k
    by (simp add: merge_key_def mergedD(2)[OF assms(4)] gt)
  show "map_of (fst st12) = map_of (fst st21)"
  proof
    fix k
    have "(if wins ns b ib (snd st1) k then map_of ib k else if wins ns a ia ?s k then map_of ia k else map_of (fst st) k)
      = (if wins ns a ia (snd st2) k then map_of ia k else if wins ns b ib ?s k then map_of ib k else map_of (fst st) k)"
      unfolding wins_def[of ns b ib "snd st1"] wins_def[of ns a ia "snd st2"] key1 key2
      unfolding wins_def by (rule swap_choice) (use less gt in blast)+
    then show "map_of (fst st12) k = map_of (fst st21) k"
      unfolding mergedD(1)[OF assms(3)] mergedD(1)[OF assms(5)] mergedD(1)[OF assms(2)] mergedD(1)[OF assms(4)] .
  qed
  show "map_of (snd st12) = map_of (snd st21)"
  proof
    fix q
    show "map_of (snd st12) q = map_of (snd st21) q"
    proof (cases "\<exists>k. q = nul_join [ns, k]")
      case True
      then obtain k where q: "q = nul_join [ns, k]" by blast
      have "(if wins ns b ib (snd st1) k then Some b else if wins ns a ia ?s k then Some a else map_of ?s q)
        = (if wins ns a ia (snd st2) k then Some a else if wins ns b ib ?s k then Some b else map_of ?s q)"
        unfolding wins_def[of ns b ib "snd st1"] wins_def[of ns a ia "snd st2"] key1 key2
        unfolding wins_def by (rule swap_choice) (use less gt in blast)+
      then show ?thesis
        unfolding q mergedD(2)[OF assms(3)] mergedD(2)[OF assms(5)] mergedD(2)[OF assms(2)] mergedD(2)[OF assms(4)] .
    next
      case False
      then have q: "\<forall>k. q \<noteq> nul_join [ns, k]" by blast
      show ?thesis
        by (simp only: mergedD(3)[OF assms(3) q] mergedD(3)[OF assms(5) q] mergedD(3)[OF assms(2) q] mergedD(3)[OF assms(4) q])
    qed
  qed
qed

text \<open>Different namespaces do not touch each other's sources.\<close>

lemma merged_other:
  assumes "ns \<in> merge_namespaces" "ns' \<in> merge_namespaces" "ns \<noteq> ns'" "merged ns c incoming st st'"
  shows "map_of (snd st') (nul_join [ns', k]) = map_of (snd st) (nul_join [ns', k])"
    "wins ns' c' incoming' (snd st') k \<longleftrightarrow> wins ns' c' incoming' (snd st) k"
proof -
  show *: "map_of (snd st') (nul_join [ns', k]) = map_of (snd st) (nul_join [ns', k])"
    using assms source_key_eq[OF assms(2,1)] by (simp add: merged_def split: prod.splits)
  show "wins ns' c' incoming' (snd st') k \<longleftrightarrow> wins ns' c' incoming' (snd st) k"
    by (simp add: wins_def merge_key_def *)
qed

text \<open>The context is well formed: sorted objects in both namespaces and sorted sources.\<close>

definition namespaces :: "string set" where
  "namespaces = {''worksets'', ''context''}"

definition context_wf :: "(rstr \<times> json) list \<times> (rstr \<times> rstr) list \<Rightarrow> bool" where
  "context_wf = (\<lambda>(target, sources). bt_wf target \<and> bt_wf sources
     \<and> (\<forall>n\<in>namespaces. bt_wf (object_or_empty (map_of target (lit n)))))"

definition output_wf :: "json \<Rightarrow> bool" where
  "output_wf output \<longleftrightarrow> (\<forall>n\<in>namespaces. \<forall>m. Option.bind (json_get output (lit n)) as_object = Some m \<longrightarrow> bt_wf m)"

lemma lit_namespace: "n \<in> namespaces \<Longrightarrow> lit n \<in> merge_namespaces"
  "n \<in> namespaces \<Longrightarrow> n' \<in> namespaces \<Longrightarrow> lit n = lit n' \<longleftrightarrow> n = n'"
  by (auto simp: namespaces_def merge_namespaces_def lit_def)

lemma object_JObject [simp]: "object_or_empty (Some (JObject m)) = m"
  by (simp add: object_or_empty_def)

text \<open>One namespace of one output: its object and the sources are merged, the rest stays.\<close>

lemma merge_namespaceE:
  assumes "n \<in> namespaces" "context_wf st" "output_wf output"
    "Option.bind (json_get output (lit n)) as_object = Some incoming"
  obtains destination sources' where
    "merge_namespace n c output st = (bt_insert (lit n) (JObject destination) (fst st), sources')"
    "merged (lit n) c incoming (object_or_empty (map_of (fst st) (lit n)), snd st) (destination, sources')"
    "bt_wf destination" "bt_wf sources'"
proof -
  obtain target sources where st: "st = (target, sources)" by (cases st)
  let ?old = "(object_or_empty (map_of target (lit n)), sources)"
  obtain destination sources' where m: "stable_merge_object (lit n) c incoming ?old = (destination, sources')"
    by (cases "stable_merge_object (lit n) c incoming ?old")
  have "bt_wf incoming" using assms(1,3,4) by (auto simp: output_wf_def)
  then have "merged (lit n) c incoming ?old (destination, sources')"
    using stable_merge_merged[OF lit_namespace(1)[OF assms(1)] bt_wf_distinct] m by metis
  moreover have "pair_wf ?old" using assms(1,2) by (simp add: context_wf_def pair_wf_def st)
  then have "pair_wf (destination, sources')" using stable_merge_wf[of ?old] m by metis
  ultimately show ?thesis
    using that m assms(4) by (simp add: merge_namespace_def st pair_wf_def)
qed

lemma merge_namespace_None:
  "Option.bind (json_get output (lit n)) as_object = None \<Longrightarrow> merge_namespace n c output st = st"
  by (cases st) (simp add: merge_namespace_def)

lemma merge_namespace_wf:
  assumes "n \<in> namespaces" "context_wf st" "output_wf output"
  shows "context_wf (merge_namespace n c output st)"
proof (cases "Option.bind (json_get output (lit n)) as_object")
  case None
  then show ?thesis by (simp add: merge_namespace_None assms(2))
next
  case (Some incoming)
  obtain destination sources' where
    m: "merge_namespace n c output st = (bt_insert (lit n) (JObject destination) (fst st), sources')"
    and wf: "bt_wf destination" "bt_wf sources'"
    by (rule merge_namespaceE[OF assms Some]) blast
  show ?thesis
    using assms(1,2) wf by (auto simp: m context_wf_def map_of_bt_insert bt_wf_insert split: prod.splits)
qed

lemma context_ext:
  assumes "context_wf st" "context_wf st'" "map_of (fst st) = map_of (fst st')" "map_of (snd st) = map_of (snd st')"
  shows "st = st'"
  using assms by (cases st; cases st') (simp add: context_wf_def bt_ext)

lemma merge_namespace_commute:
  assumes "a \<noteq> b" "n \<in> namespaces" "n' \<in> namespaces" "context_wf st" "output_wf oa" "output_wf ob"
  shows "merge_namespace n' b ob (merge_namespace n a oa st) = merge_namespace n a oa (merge_namespace n' b ob st)"
proof (cases "Option.bind (json_get oa (lit n)) as_object = None \<or> Option.bind (json_get ob (lit n')) as_object = None")
  case True
  then show ?thesis by (elim disjE) (simp_all add: merge_namespace_None)
next
  case False
  then obtain ia ib where ia: "Option.bind (json_get oa (lit n)) as_object = Some ia"
    and ib: "Option.bind (json_get ob (lit n')) as_object = Some ib" by (simp add: not_None_eq) blast
  let ?a = "merge_namespace n a oa" and ?b = "merge_namespace n' b ob"
  note wfa = merge_namespace_wf[OF assms(2) _ assms(5), of _ a] and wfb = merge_namespace_wf[OF assms(3) _ assms(6), of _ b]
  obtain da sa where 1: "?a st = (bt_insert (lit n) (JObject da) (fst st), sa)"
      "merged (lit n) a ia (object_or_empty (map_of (fst st) (lit n)), snd st) (da, sa)" "bt_wf da"
    by (rule merge_namespaceE[OF assms(2,4,5) ia, of a]) blast
  obtain db sb where 2: "?b st = (bt_insert (lit n') (JObject db) (fst st), sb)"
      "merged (lit n') b ib (object_or_empty (map_of (fst st) (lit n')), snd st) (db, sb)" "bt_wf db"
    by (rule merge_namespaceE[OF assms(3,4,6) ib, of b]) blast
  obtain dab sab where 12: "?b (?a st) = (bt_insert (lit n') (JObject dab) (fst (?a st)), sab)"
      "merged (lit n') b ib (object_or_empty (map_of (fst (?a st)) (lit n')), snd (?a st)) (dab, sab)" "bt_wf dab"
    by (rule merge_namespaceE[OF assms(3) wfa[OF assms(4)] assms(6) ib, of b]) blast
  obtain dba sba where 21: "?a (?b st) = (bt_insert (lit n) (JObject dba) (fst (?b st)), sba)"
      "merged (lit n) a ia (object_or_empty (map_of (fst (?b st)) (lit n)), snd (?b st)) (dba, sba)" "bt_wf dba"
    by (rule merge_namespaceE[OF assms(2) wfb[OF assms(4)] assms(5) ia, of a]) blast
  have "map_of (fst (?b (?a st))) = map_of (fst (?a (?b st))) \<and> map_of (snd (?b (?a st))) = map_of (snd (?a (?b st)))"
  proof (cases "n = n'")
    case True
    have m: "merged (lit n) b ib (da, sa) (dab, sab)" "merged (lit n) a ia (db, sb) (dba, sba)"
      using 12(2) 21(2) by (simp_all add: 1(1)[unfolded True] 2(1) True map_of_bt_insert)
    note swap = merged_swap[OF assms(1) 1(2) m(1) 2(2)[folded True] m(2)]
    have "dab = dba" using swap(1) by (intro bt_ext 12(3) 21(3)) simp
    then show ?thesis using swap(2) unfolding 12(1) 21(1) unfolding 1(1) 2(1) by (simp add: True map_of_bt_insert)
  next
    case False
    have ns: "lit n \<in> merge_namespaces" "lit n' \<in> merge_namespaces" "lit n \<noteq> lit n'"
      using assms(2,3) False lit_namespace by simp_all
    have m: "merged (lit n') b ib (object_or_empty (map_of (fst st) (lit n')), sa) (dab, sab)"
      "merged (lit n) a ia (object_or_empty (map_of (fst st) (lit n)), sb) (dba, sba)"
      using 12(2) 21(2) ns(3) by (simp_all add: 1(1) 2(1) map_of_bt_insert)
    note other = merged_other[OF ns 1(2)] merged_other[OF ns(2,1) ns(3)[symmetric] 2(2)]
    have "dab = db"
      by (rule bt_ext[OF 12(3) 2(3)]) (simp add: fun_eq_iff mergedD(1)[OF m(1), simplified] mergedD(1)[OF 2(2), simplified] other(2)[simplified])
    moreover have "dba = da"
      by (rule bt_ext[OF 21(3) 1(3)]) (simp add: fun_eq_iff mergedD(1)[OF m(2), simplified] mergedD(1)[OF 1(2), simplified] other(4)[simplified])
    moreover have "map_of sab = map_of sba"
    proof
      fix q
      consider (left) k where "q = nul_join [lit n, k]" | (right) k where "q = nul_join [lit n', k]"
        | (neither) "\<forall>k. q \<noteq> nul_join [lit n, k]" "\<forall>k. q \<noteq> nul_join [lit n', k]" by blast
      then show "map_of sab q = map_of sba q"
      proof cases
        case left
        then show ?thesis
          using mergedD(2)[OF m(2), of k] mergedD(2)[OF 1(2), of k] other(4)[of a ia k] merged_other(1)[OF ns(2,1) ns(3)[symmetric] m(1), of k]
            other(3)[of k] by simp
      next
        case right
        then show ?thesis
          using mergedD(2)[OF m(1), of k] mergedD(2)[OF 2(2), of k] other(2)[of b ib k] merged_other(1)[OF ns m(2), of k]
            other(1)[of k] by simp
      next
        case neither
        then show ?thesis using mergedD(3)[OF m(1)] mergedD(3)[OF m(2)] mergedD(3)[OF 1(2)] mergedD(3)[OF 2(2)] by simp
      qed
    qed
    ultimately show ?thesis
      using ns(3) unfolding 12(1) 21(1) unfolding 1(1) 2(1) by (simp add: map_of_bt_insert fun_eq_iff)
  qed
  then show ?thesis
    using context_ext[OF wfb[OF wfa[OF assms(4)]] wfa[OF wfb[OF assms(4)]]] by blast
qed

text \<open>All outputs of a run, one after the other.\<close>

lemma merge_namespaces_commute:
  assumes "a \<noteq> b" "context_wf st" "output_wf oa" "output_wf ob"
  shows "merge_namespace ''context'' b ob (merge_namespace ''worksets'' b ob
      (merge_namespace ''context'' a oa (merge_namespace ''worksets'' a oa st)))
    = merge_namespace ''context'' a oa (merge_namespace ''worksets'' a oa
      (merge_namespace ''context'' b ob (merge_namespace ''worksets'' b ob st)))"
proof -
  let ?C = "merge_namespace ''context''" and ?W = "merge_namespace ''worksets''"
  have n: "''context'' \<in> namespaces" "''worksets'' \<in> namespaces" by (simp_all add: namespaces_def)
  note wf = merge_namespace_wf[OF n(1)] merge_namespace_wf[OF n(2)]
  have "?W b ob (?C a oa (?W a oa st)) = ?C a oa (?W b ob (?W a oa st))"
    by (rule merge_namespace_commute[OF assms(1) n wf(2)[OF assms(2,3)] assms(3,4)])
  also have "?W b ob (?W a oa st) = ?W a oa (?W b ob st)"
    by (rule merge_namespace_commute[OF assms(1) n(2,2) assms(2-4)])
  finally have "?C b ob (?W b ob (?C a oa (?W a oa st))) = ?C b ob (?C a oa (?W a oa (?W b ob st)))" by simp
  also have "\<dots> = ?C a oa (?C b ob (?W a oa (?W b ob st)))"
    by (rule merge_namespace_commute[OF assms(1) n(1,1) wf(2)[OF wf(2)[OF assms(2,4)] assms(3)] assms(3,4)])
  also have "?C b ob (?W a oa (?W b ob st)) = ?W a oa (?C b ob (?W b ob st))"
    by (rule merge_namespace_commute[OF assms(1) n(2,1) wf(2)[OF assms(2,4)] assms(3,4)])
  finally show ?thesis .
qed

definition run_context_wf :: "json \<times> (rstr \<times> rstr) list \<Rightarrow> bool" where
  "run_context_wf = (\<lambda>(input, sources). context_wf (object_or_empty (Some input), sources))"

lemma merge_run_context_simp:
  "merge_run_context output c (input, sources) = (case as_object output of None \<Rightarrow> (input, sources)
     | Some _ \<Rightarrow> map_prod JObject id (merge_namespace ''context'' c output
         (merge_namespace ''worksets'' c output (object_or_empty (Some input), sources))))"
  by (simp add: merge_run_context_def split: option.splits prod.splits)

lemma run_context_wf_merge:
  assumes "run_context_wf st" "output_wf output"
  shows "run_context_wf (merge_run_context output c st)"
proof -
  obtain input sources where st: "st = (input, sources)" by (cases st)
  have n: "''context'' \<in> namespaces" "''worksets'' \<in> namespaces" by (simp_all add: namespaces_def)
  have "context_wf (merge_namespace ''context'' c output (merge_namespace ''worksets'' c output
      (object_or_empty (Some input), sources)))"
    using assms(1) merge_namespace_wf[OF n(1) merge_namespace_wf[OF n(2) _ assms(2)] assms(2)] by (simp add: run_context_wf_def st)
  then show ?thesis using assms(1)
    by (cases "merge_namespace ''context'' c output (merge_namespace ''worksets'' c output (object_or_empty (Some input), sources))")
      (auto simp: st merge_run_context_simp run_context_wf_def split: option.splits)
qed

lemma merge_run_context_commute:
  assumes "a \<noteq> b" "run_context_wf st" "output_wf oa" "output_wf ob"
  shows "merge_run_context ob b (merge_run_context oa a st) = merge_run_context oa a (merge_run_context ob b st)"
proof -
  obtain input sources where st: "st = (input, sources)" by (cases st)
  let ?m = "\<lambda>c out. (\<lambda>st. merge_namespace ''context'' c out (merge_namespace ''worksets'' c out st))"
  have again: "merge_run_context out c (map_prod JObject id st') =
      (case as_object out of None \<Rightarrow> map_prod JObject id st' | Some _ \<Rightarrow> map_prod JObject id (?m c out st'))" for out c st'
    by (cases st') (simp add: merge_run_context_simp split: option.splits)
  have "?m b ob (?m a oa (object_or_empty (Some input), sources)) = ?m a oa (?m b ob (object_or_empty (Some input), sources))"
    using merge_namespaces_commute[OF assms(1) _ assms(3,4)] assms(2) by (simp add: run_context_wf_def st)
  then show ?thesis
    by (cases "as_object oa"; cases "as_object ob") (simp_all add: st merge_run_context_simp again)
qed

definition merge_outputs :: "(rstr \<times> json) list \<Rightarrow> json \<times> (rstr \<times> rstr) list \<Rightarrow> json \<times> (rstr \<times> rstr) list" where
  "merge_outputs outs st = fold (\<lambda>(c, output). merge_run_context output c) outs st"

lemma merge_outputs_simps [simp]:
  "merge_outputs [] st = st" "merge_outputs ((c, output) # outs) st = merge_outputs outs (merge_run_context output c st)"
  "merge_outputs (xs @ ys) st = merge_outputs ys (merge_outputs xs st)"
  by (simp_all add: merge_outputs_def)

lemma merge_outputs_move:
  assumes "run_context_wf st" "output_wf output" "list_all (\<lambda>(_, out). output_wf out) outs" "c \<notin> fst ` set outs"
  shows "merge_run_context output c (merge_outputs outs st) = merge_outputs outs (merge_run_context output c st)"
  using assms
proof (induction outs arbitrary: st)
  case (Cons x outs)
  obtain c' out' where x: "x = (c', out')" by (cases x)
  have "merge_run_context output c (merge_run_context out' c' st) = merge_run_context out' c' (merge_run_context output c st)"
    by (rule merge_run_context_commute) (use Cons.prems x in auto)
  then show ?case
    using Cons.IH[of "merge_run_context out' c' st"] Cons.prems run_context_wf_merge[of st out' c'] by (simp add: x)
qed simp

lemma merge_outputs_perm:
  assumes "mset xs = mset ys" "distinct (map fst xs)" "list_all (\<lambda>(_, out). output_wf out) xs" "run_context_wf st"
  shows "merge_outputs xs st = merge_outputs ys st"
  using assms
proof (induction xs arbitrary: ys st)
  case (Cons x xs)
  obtain c out where x: "x = (c, out)" by (cases x)
  have "x \<in> set ys" using mset_eq_setD[OF Cons.prems(1)] by auto
  then obtain ys1 ys2 where ys: "ys = ys1 @ x # ys2" by (meson split_list)
  have m: "mset xs = mset (ys1 @ ys2)" using Cons.prems(1) by (simp add: ys)
  have wf: "output_wf out" "list_all (\<lambda>(_, out). output_wf out) (ys1 @ ys2)"
    using Cons.prems(3) mset_eq_setD[OF m] by (simp_all add: x list_all_iff)
  have "c \<notin> fst ` set ys1" using Cons.prems(2) mset_eq_setD[OF m] by (auto simp: x)
  then have "merge_outputs ys st = merge_outputs (ys1 @ ys2) (merge_run_context out c st)"
    using merge_outputs_move[OF Cons.prems(4) wf(1), of ys1 c] wf(2) by (simp add: ys x)
  also have "\<dots> = merge_outputs xs (merge_run_context out c st)"
    using Cons.IH[OF m, of "merge_run_context out c st"] Cons.prems run_context_wf_merge[OF Cons.prems(4) wf(1)] by simp
  finally show ?case by (simp add: x)
qed simp

section \<open>Worksets are issued in the order of their predecessors and do not stall\<close>

lemma normalize_items_distinct:
  assumes "run_all (normalize_item template) acc items = Inr plan" "distinct (map fst acc)"
  shows "distinct (map fst plan)"
  by (rule run_all_invariant[OF assms(1), where P = "\<lambda>items. distinct (map fst items)"]) (use assms(2) in \<open>auto simp: result_simps\<close>)

lemma normalize_length:
  assumes "normalize_workset template items = Inr plan"
  shows "length plan = length items"
proof -
  have "run_all (normalize_item template) acc items = Inr plan \<Longrightarrow> length plan = length acc + length items" for acc
    by (induction items arbitrary: acc) (auto simp: result_simps)
  from this[of "[]"] assms show ?thesis by (auto simp: normalize_workset_def result_simps)
qed

lemma topological_subset: "taken \<subseteq> fst ` set plan \<Longrightarrow> topological plan taken \<subseteq> fst ` set plan"
proof (induction plan taken rule: topological.induct)
  case (1 plan taken)
  have "set (ready_items plan taken) \<subseteq> fst ` set plan" by (auto simp: ready_items_def)
  then show ?case using 1 by (subst topological.simps) (simp add: Let_def)
qed

text \<open>A set that no item outside it is ready for bounds what the loop takes.\<close>

lemma topological_bound:
  "\<forall>(i, ps, x)\<in>set plan. i \<in> S \<or> \<not> ps \<subseteq> S \<Longrightarrow> taken \<subseteq> S \<Longrightarrow> topological plan taken \<subseteq> S"
proof (induction plan taken rule: topological.induct)
  case (1 plan taken)
  have "i \<in> S" if "(i, ps, x) \<in> set plan" "ps \<subseteq> taken" for i ps x
    using bspec[OF 1(2) that(1)] subset_trans[OF that(2) 1(3)] by simp
  then have "set (ready_items plan taken) \<subseteq> S" by (force simp: ready_items_def)
  then show ?case using 1 by (subst topological.simps) (simp add: Let_def)
qed

lemma plan_ready:
  assumes "normalize_workset template items = Inr plan" "\<not> fst ` set plan \<subseteq> S"
  shows "\<exists>(i, ps, x)\<in>set plan. i \<notin> S \<and> ps \<subseteq> S"
proof (rule ccontr)
  assume "\<not> (\<exists>(i, ps, x)\<in>set plan. i \<notin> S \<and> ps \<subseteq> S)"
  then have "\<forall>(i, ps, x)\<in>set plan. i \<in> S \<or> \<not> ps \<subseteq> S" by blast
  then have bound: "topological plan {} \<subseteq> S" by (rule topological_bound) simp
  from assms(1) have "card (topological plan {}) = length plan" and run: "run_all (normalize_item template) [] items = Inr plan"
    by (auto simp: normalize_workset_def result_simps)
  moreover have "distinct (map fst plan)" by (rule normalize_items_distinct[OF run]) simp
  ultimately have "card (topological plan {}) = card (fst ` set plan)" by (metis distinct_card length_map list.set_map)
  then have "topological plan {} = fst ` set plan" by (intro card_subset_eq topological_subset) simp_all
  then show False using bound assms(2) by simp
qed

lemma plan_ids:
  assumes "normalize_workset template items = Inr plan"
  shows "card (fst ` set plan) = length plan"
proof -
  from assms have "run_all (normalize_item template) [] items = Inr plan"
    by (auto simp: normalize_workset_def result_simps)
  then have "distinct (map fst plan)" by (rule normalize_items_distinct) simp
  then show ?thesis by (metis distinct_card length_map list.set_map)
qed

definition workset_plan :: "compiled_workflow \<Rightarrow> rstr \<Rightarrow> json \<Rightarrow> failure + work_item list" where
  "workset_plan w s input =
     and_then (ok_or Panic (Option.bind (cw_state w s) gs_workset)) (\<lambda>workset.
     and_then (workset_items w workset input) (\<lambda>items.
     if items = [] then Inr [] else
     and_then (ok_or Panic (find (\<lambda>t. ws_id t = workset) (def_worksets (cw_definition w)))) (\<lambda>template.
     normalize_workset template items)))"

definition succeeded_items :: "run_snapshot \<Rightarrow> rstr \<Rightarrow> rstr set" where
  "succeeded_items sn s = item_ids (filter (\<lambda>c. cmd_status c = CmdSucceeded) (visit_commands sn s (get_or 0 (snap_visits sn) s)))"

definition issued_items :: "run_snapshot \<Rightarrow> rstr \<Rightarrow> rstr set" where
  "issued_items sn s = item_ids (visit_commands sn s (get_or 0 (snap_visits sn) s))"

definition workset_ready :: "run_snapshot \<Rightarrow> rstr \<Rightarrow> work_item list \<Rightarrow> work_item list" where
  "workset_ready sn s plan = filter (\<lambda>(i, ps, _). i \<notin> issued_items sn s \<and> ps \<subseteq> succeeded_items sn s) plan"

lemma emit_item_emitted:
  "emit_item env w s m x = Inr m' \<Longrightarrow> \<exists>c. m_emitted m' = m_emitted m @ [c] \<and> cmd_item_id c = Some (fst x)
     \<and> cmd_kind c = WorksetItemCommand \<and> cmd_status c = CmdPending"
  by (auto simp: emit_item_def emit_command_def insert_command_def bump_attempt_lineage_def new_command_def Let_def result_simps
      split: prod.splits)

lemma emit_items_emitted:
  "run_all (emit_item env w s) m xs = Inr m' \<Longrightarrow> \<exists>new. m_emitted m' = m_emitted m @ new
     \<and> map cmd_item_id new = map (\<lambda>x. Some (fst x)) xs
     \<and> list_all (\<lambda>c. cmd_kind c = WorksetItemCommand \<and> cmd_status c = CmdPending) new"
proof (induction xs arbitrary: m)
  case (Cons x xs)
  then obtain m1 where m1: "emit_item env w s m x = Inr m1" "run_all (emit_item env w s) m1 xs = Inr m'"
    by (auto simp: result_simps)
  from emit_item_emitted[OF m1(1)] obtain c where "m_emitted m1 = m_emitted m @ [c]" "cmd_item_id c = Some (fst x)"
    "cmd_kind c = WorksetItemCommand" "cmd_status c = CmdPending" by blast
  moreover from Cons.IH[OF m1(2)] obtain new where "m_emitted m' = m_emitted m1 @ new"
    "map cmd_item_id new = map (\<lambda>x. Some (fst x)) xs"
    "list_all (\<lambda>c. cmd_kind c = WorksetItemCommand \<and> cmd_status c = CmdPending) new" by blast
  ultimately show ?case by (intro exI[of _ "c # new"]) simp
qed simp

lemma schedule_plan:
  assumes "schedule_workset env w s m = Inr (satisfied, m')" "workset_plan w s (snap_input (m_snapshot m)) = Inr plan"
  shows "satisfied = (plan = [] \<or> card (succeeded_items (m_snapshot m) s) = length plan)
    \<and> (satisfied \<longrightarrow> m' = m)
    \<and> (\<not> satisfied \<longrightarrow> run_all (emit_item env w s) m (workset_ready (m_snapshot m) s plan) = Inr m')"
proof -
  have visit: "v = get_or 0 (snap_visits sn) s" if "indexed_visit sn s = Inr v" for sn v
    using that by (auto simp: indexed_visit_def get_or_def split: if_splits option.splits)
  from assms show ?thesis
    by (auto simp: schedule_workset_def workset_plan_def result_simps Let_def succeeded_items_def issued_items_def workset_ready_def
        dest!: visit dest: normalize_length split: if_splits)
qed

end
