(* ===== verification/Flywheel_Samples.thy ===== *)
theory Flywheel_Samples
  imports Flywheel_Safety Flywheel_Context
begin

text \<open>
  Concrete graphs and runs, evaluated once for the witnesses: a graph with a fork that compiles,
  and the first step of a run with one actor.
\<close>

section \<open>A sample graph and a sample run\<close>

definition flow_env :: digest_env where
  "flow_env = \<lparr>env_sha256 = (\<lambda>_. []), env_json_text = (\<lambda>_. [])\<rparr>"

definition plain_state :: "rstr \<Rightarrow> graph_state_kind \<Rightarrow> rstr option \<Rightarrow> graph_state" where
  "plain_state i k binding = \<lparr>gs_id = i, gs_kind = k, gs_label = i, gs_instruction = [],
     gs_binding = binding, gs_runtime = None, gs_entry = None, gs_workset = None,
     gs_retry = default_retry\<rparr>"

definition edge :: "rstr \<Rightarrow> rstr \<Rightarrow> transition_event \<Rightarrow> rstr \<Rightarrow> transition" where
  "edge i s e t = \<lparr>tr_id = i, tr_from = s, tr_to = t, tr_event = e, tr_mode = Flow, tr_guard = None\<rparr>"

text \<open>A fork with an actor and a pass-through branch that join and succeed.\<close>

definition flow_sample :: workflow_definition where
  "flow_sample = \<lparr>def_schema = WORKFLOW_SCHEMA_VERSION,
     def_metadata = \<lparr>wm_id = [119], wm_name = [119], wm_version = [49], wm_description = []\<rparr>,
     def_limits = default_limits, def_actor_slots = [required_actor [115] [115]], def_runtimes = [],
     def_worksets = [], def_initial = [102],
     def_states = [plain_state [102] KFork None, plain_state [98] KActor (Some [115]), plain_state [99] KPass None,
       plain_state [106] KJoin None, plain_state [107] KSucceed None],
     def_transitions = [edge [97] [102] Complete [98], edge [98] [102] Complete [99], edge [99] [98] Success [106],
       edge [100] [98] Failure [106], edge [101] [99] Complete [106], edge [102] [106] Complete [107]]\<rparr>"

definition flow_compiled :: compiled_workflow where
  "flow_compiled = \<lparr>cw_definition = flow_sample,
     cw_state_indexes = [([98], 1), ([99], 2), ([102], 0), ([106], 3), ([107], 4)],
     cw_transition_indexes = [(([98], Success), [2]), (([98], Failure), [3]), (([99], Complete), [4]),
       (([102], Complete), [0, 1]), (([106], Complete), [5])],
     cw_outgoing_indexes = [([98], [2, 3]), ([99], [4]), ([102], [0, 1]), ([106], [5])],
     cw_predecessors = [([98], {[102]}), ([99], {[102]}), ([106], {[98], [99]}), ([107], {[106]})],
     cw_reachable = {[98], [99], [102], [106], [107]}\<rparr>"


lemmas flow_defs = flow_sample_def plain_state_def edge_def required_actor_def default_retry_def default_limits_def
  default_fallback_def
lemmas text_defs = validate_identifier_def validate_text_def is_identifier_def is_ascii_lowercase_def is_ascii_digit_def
  is_control_def str_len_def check_each_def utf8_char_def trim_def white_space_def

lemma flow_limits: "check_limits flow_sample = Inr ()"
  by (simp add: check_limits_def flow_defs text_defs has_supported_schema_def MAX_GRAPH_STATES_def
   MAX_GRAPH_TRANSITIONS_def MAX_BINDING_SLOTS_def MAX_RUNTIME_REQUIREMENTS_def MAX_ACTIVE_EFFECTS_def MAX_WORKSET_ITEMS_def MAX_RETRY_ATTEMPTS_def)
lemma flow_slot_ids: "unique_ids ''workflow_binding_id'' (map slot_id (def_actor_slots flow_sample)) = Inr {[115]}"
  by (simp add: unique_ids_def flow_defs text_defs)
lemma flow_slots: "check_each check_slot (def_actor_slots flow_sample) = Inr ()"
  by (simp add: check_slot_def flow_defs text_defs MAX_RETRY_ATTEMPTS_def)
lemma flow_entry: "normalize_entry_slot flow_sample = flow_sample"
  by (simp add: normalize_entry_slot_def flow_defs)
lemma flow_bindings: "check_bindings flow_sample = Inr ({}, {})"
  by (simp add: check_bindings_def flow_defs text_defs unique_ids_def)
lemma flow_states: "index_states flow_sample {} {} = Inr (cw_state_indexes flow_compiled)"
  by (simp add: index_states_def flow_compiled_def flow_defs text_defs MAX_RETRY_ATTEMPTS_def actor_bound_def binding_slots_def bt_of_list_def)
definition flow_index :: transition_index where
  "flow_index = \<lparr>ti_ids = {[97], [98], [99], [100], [101], [102]}, ti_events = cw_transition_indexes flow_compiled,
     ti_outgoing = cw_outgoing_indexes flow_compiled, ti_predecessors = cw_predecessors flow_compiled\<rparr>"

lemma flow_transitions: "index_transitions flow_env flow_sample (cw_state_indexes flow_compiled) = Inr flow_index"
  by (simp add: index_transitions_def index_transition_def flow_compiled_def flow_index_def flow_defs text_defs bt_update_def get_or_def less_transition_event_def insert_commute)
lemma flow_guards: "validate_guard_sets flow_env flow_sample (cw_state_indexes flow_compiled) (cw_transition_indexes flow_compiled) = Inr ()"
  by (simp add: validate_guard_sets_def flow_compiled_def flow_defs is_fork_fanout_def state_at_def check_guard_set_def check_each_def guard_count_def)
lemma flow_edge_rules: "validate_state_edges flow_sample (cw_transition_indexes flow_compiled) (cw_outgoing_indexes flow_compiled) = Inr ()"
  by (simp add: validate_state_edges_def check_edges_def flow_compiled_def flow_defs out_at_def trs_at_def get_or_def check_each_def insert_commute)
lemma flow_regions: "validate_parallel_regions flow_sample (cw_state_indexes flow_compiled) (cw_transition_indexes flow_compiled) (cw_outgoing_indexes flow_compiled) (cw_predecessors flow_compiled) = Inr {[106]}"
  by (simp add: validate_parallel_regions_def scan_fork_def scan_branch_def region_walk.simps region_node_def region_edge_def region_join_def
    branch_has_cycle_def Let_def state_at_def
    check_edges_def flow_compiled_def flow_defs out_at_def trs_at_def get_or_def check_each_def insert_commute)
lemma flow_reachable: "reachable_states flow_sample (cw_outgoing_indexes flow_compiled) = cw_reachable flow_compiled"
  by (simp add: reachable_states_def flow_compiled_def flow_defs out_at_def get_or_def insert_commute)
lemma flow_acyclic: "reject_effect_free_cycles flow_sample (cw_state_indexes flow_compiled) (cw_outgoing_indexes flow_compiled) = Inr ()"
  by (simp add: reject_effect_free_cycles_def automatic_edges_def state_at_def flow_compiled_def flow_defs out_at_def get_or_def insert_commute)

lemma flow_join: "check_each (\<lambda>st. require (card (get_or {} (ti_predecessors flow_index) (gs_id st)) = 1 \<or> gs_id st \<in> {[106]})
    ''workflow_join_topology_invalid'' (Inr ())) (filter (\<lambda>st. gs_kind st = KJoin) (def_states flow_sample)) = Inr ()"
  by (simp add: flow_defs check_each_def)

lemma flow_terminal: "card (reachable_states flow_sample (cw_outgoing_indexes flow_compiled)) = length (def_states flow_sample)"
  "list_ex (\<lambda>st. gs_id st \<in> reachable_states flow_sample (cw_outgoing_indexes flow_compiled) \<and> gs_kind st \<in> {KSucceed, KFail, KBlocked}) (def_states flow_sample)"
  unfolding flow_reachable by (simp_all add: flow_compiled_def flow_defs)

lemma flow_index_fields: "ti_events flow_index = cw_transition_indexes flow_compiled"
  "ti_outgoing flow_index = cw_outgoing_indexes flow_compiled" "ti_predecessors flow_index = cw_predecessors flow_compiled"
  by (simp_all add: flow_index_def)

lemma flow_compiles: "compile_workflow flow_env flow_sample = Inr flow_compiled"
proof -
  have "compile_graph flow_env flow_sample (cw_state_indexes flow_compiled) = Inr flow_compiled"
    using flow_transitions flow_guards flow_edge_rules flow_regions flow_join flow_terminal flow_acyclic
    by (simp add: compile_graph_def flow_index_fields Let_def flow_reachable) (simp add: flow_compiled_def)
  then show ?thesis
    unfolding compile_workflow_def compile_workflow_inner_def
    by (simp add: flow_limits flow_slot_ids flow_slots flow_entry flow_bindings flow_states Let_def)
qed

lemma flow_state: "plain_state [98] KActor (Some [115]) \<in> set (def_states (cw_definition flow_compiled))"
  by (simp add: flow_compiled_def flow_sample_def)

definition one_actor :: compiled_workflow where
  "one_actor = \<lparr>cw_definition = flow_sample\<lparr>def_initial := [98]\<rparr>, cw_state_indexes = [([98], 1)], cw_transition_indexes = [],
     cw_outgoing_indexes = [], cw_predecessors = [], cw_reachable = {[98]}\<rparr>"

definition run0 :: run_snapshot where "run0 = empty_snapshot [114] [100] [115]"

definition actor_command :: "rstr \<Rightarrow> run_command" where
  "actor_command i = \<lparr>cmd_id = i, cmd_state_id = [98], cmd_state_visit = 1,
     cmd_kind = ActorCommand, cmd_status = CmdPending, cmd_attempt = 1, cmd_attempt_token = lit ''attempt:'',
     cmd_binding_id = Some [115], cmd_runtime_id = None, cmd_entry = None, cmd_item_id = None,
     cmd_session_policy = SessionNew, cmd_binding_ordinal = 0, cmd_resume_session_id = None, cmd_input_digest = [],
     cmd_input = JNull, cmd_output_digest = None, cmd_failure_class = None, cmd_failure_code = None\<rparr>"

definition run1 :: run_snapshot where
  "run1 = run0\<lparr>snap_status := Running, snap_sequence := 1, snap_input := JNull, snap_active := {[98]},
     snap_visits := [([98], 1)], snap_lineage := [(lineage_key [98] 1 (Some [115]) None, 1)],
     snap_commands := [(lit ''command:'', actor_command (lit ''command:''))]\<rparr>"

lemma one_actor_state: "cw_state one_actor [98] = Some (plain_state [98] KActor (Some [115]))"
  by (simp add: one_actor_def cw_state_def state_at_def flow_sample_def)

definition entered :: machine where
  "entered = \<lparr>m_snapshot = run0\<lparr>snap_status := Running, snap_sequence := 1, snap_input := JNull, snap_active := {[98]},
     snap_visits := [([98], 1)]\<rparr>, m_emitted = [], m_automatic = [], m_applied = True\<rparr>"

lemma one_actor_facts: "max_attempts one_actor = 3" "def_initial (cw_definition one_actor) = [98]"
  "Option.bind (find_slot one_actor [115]) (\<lambda>s. Some (slot_session_policy s)) = Some SessionNew"
  "find_slot one_actor [115] = Some (required_actor [115] [115])"
  by (simp_all add: one_actor_def max_attempts_def find_slot_def flow_sample_def default_limits_def required_actor_def)

lemma actor_emits:
  "emit_command flow_env one_actor [98] ActorCommand None JNull entered
     = Inr (entered\<lparr>m_snapshot := run1, m_emitted := [actor_command (lit ''command:'')]\<rparr>)"
  by (simp add: emit_command_def one_actor_state entered_def run0_def empty_snapshot_def plain_state_def Let_def
    bump_attempt_lineage_def saturating_inc_def one_actor_facts
    insert_command_def new_command_def run1_def actor_command_def command_identity_def attempt_token_def sha256_hex_def
    flow_env_def required_actor_def get_or_def hex_encode_def)

lemma start_run1:
  "reduce flow_env one_actor run0 (Start JNull) = Inr \<lparr>out_snapshot = run1, out_emitted = [actor_command (lit ''command:'')], out_applied = True\<rparr>"
proof -
  have "enter flow_env one_actor [98] None m = emit_command flow_env one_actor [98] ActorCommand None JNull (activate [98] m)"
    if "snap_input (m_snapshot m) = JNull" for m
    using that by (simp add: enter_def enter_fuel_def numeral_2_eq_2 one_actor_state join_gate_def plain_state_def enter_kind_def effect_input_for_def
        activate_def trim_def)
  moreover have "activate [98] (on_snapshot (\<lambda>s. s\<lparr>snap_input := JNull, snap_status := Running\<rparr>) (initial_machine run0)) = entered"
    by (simp add: activate_def initial_machine_def entered_def run0_def empty_snapshot_def bt_update_def get_or_def)
  ultimately have "handle_event flow_env one_actor run0 (Start JNull) (initial_machine run0)
      = Inr (entered\<lparr>m_snapshot := run1, m_emitted := [actor_command (lit ''command:'')]\<rparr>)"
    using actor_emits by (simp add: handle_event_def start_run_def run0_def empty_snapshot_def initial_machine_def flow_env_def str_len_def one_actor_facts)
  then show ?thesis
    by (simp add: reduce_def drain_automatic_def drain_empty entered_def run0_def empty_snapshot_def run1_def)
qed

lemma run0_unstarted: "unstarted run0"
  by (simp add: unstarted_def run0_def empty_snapshot_def)

lemma run1_reached: "run_reaches flow_env one_actor run1"
  using run_reaches.step[OF run_reaches.start[OF run0_unstarted] start_run1] by simp

definition run2 :: run_snapshot where
  "run2 = run1\<lparr>snap_status := CancelledRun, snap_sequence := 2,
     snap_commands := [(lit ''command:'', (actor_command (lit ''command:''))\<lparr>cmd_status := CmdCancelled\<rparr>)]\<rparr>"

lemma run1_cancelled:
  "reduce flow_env one_actor run1 CancelRequested = Inr \<lparr>out_snapshot = run2, out_emitted = [], out_applied = True\<rparr>"
proof -
  have "handle_event flow_env one_actor run1 CancelRequested (initial_machine run1)
      = Inr \<lparr>m_snapshot = run2, m_emitted = [], m_automatic = [], m_applied = True\<rparr>"
    by (simp add: handle_event_def cancel_def map_commands_def cancel_command_def initial_machine_def run1_def run2_def run0_def
        empty_snapshot_def actor_command_def)
  then show ?thesis
    by (simp add: reduce_def drain_automatic_def drain_empty run1_def)
qed

lemma run2_cancelled_again:
  "reduce flow_env one_actor run2 CancelRequested = Inr \<lparr>out_snapshot = run2, out_emitted = [], out_applied = False\<rparr>"
  by (simp add: reduce_def handle_event_def cancel_def initial_machine_def drain_automatic_def drain_empty run2_def run1_def run0_def
      empty_snapshot_def)

text \<open>A workset of two items, the second after the first.\<close>

definition work_items :: "json list" where
  "work_items = [JObject [([105], JString [97])], JObject [([105], JString [98]), ([112], JArray [JString [97]])]]"

definition work_state :: graph_state where
  "work_state = (plain_state [98] KWorkset (Some [115]))\<lparr>gs_workset := Some [120]\<rparr>"

definition work_flow :: compiled_workflow where
  "work_flow = one_actor\<lparr>cw_definition := flow_sample\<lparr>def_worksets := [\<lparr>ws_id = [120], ws_item_binding = [105],
     ws_predecessor_field = [112]\<rparr>], def_states := [work_state]\<rparr>, cw_state_indexes := [([98], 0)]\<rparr>"

definition work_machine :: machine where
  "work_machine = \<lparr>m_snapshot = run0\<lparr>snap_input := JObject [(lit ''worksets'', JObject [([120], JArray work_items)])],
     snap_visits := [([98], 1)]\<rparr>, m_emitted = [], m_automatic = [], m_applied = True\<rparr>"

definition work_plan :: "work_item list" where
  "work_plan = [([97], {}, JObject [([105], JString [97])]),
     ([98], {[97]}, JObject [([105], JString [98]), ([112], JArray [JString [97]])])]"

lemma work_facts:
  "cw_state work_flow [98] = Some work_state" "gs_workset work_state = Some [120]"
  "find (\<lambda>t. ws_id t = [120]) (def_worksets (cw_definition work_flow))
     = Some \<lparr>ws_id = [120], ws_item_binding = [105], ws_predecessor_field = [112]\<rparr>"
  "workset_items work_flow [120] (snap_input (m_snapshot work_machine)) = Inr work_items"
  "max_attempts work_flow = 3" "gs_binding work_state = Some [115]" "gs_id work_state = [98]" "gs_instruction work_state = []"
  by (simp_all add: work_flow_def work_state_def plain_state_def cw_state_def state_at_def workset_items_def work_machine_def
      work_items_def flow_sample_def default_limits_def MAX_WORKSET_ITEMS_def max_attempts_def)

lemma work_topological: "topological work_plan {} = {[97], [98]}"
proof -
  have "topological work_plan {[97], [98]} = {[97], [98]}"
    by (subst topological.simps) (simp add: ready_items_def work_plan_def)
  moreover have "ready_items work_plan {} = [[97]]" "ready_items work_plan {[97]} = [[98]]"
    by (simp_all add: ready_items_def work_plan_def)
  ultimately show ?thesis
    by (subst topological.simps, simp) (subst topological.simps, simp add: insert_commute)
qed

lemma work_normalized:
  "normalize_workset \<lparr>ws_id = [120], ws_item_binding = [105], ws_predecessor_field = [112]\<rparr> work_items = Inr work_plan"
proof -
  have "run_all (normalize_item \<lparr>ws_id = [120], ws_item_binding = [105], ws_predecessor_field = [112]\<rparr>) [] work_items = Inr work_plan"
    by (simp add: work_items_def work_plan_def short_text_def item_predecessors_def str_len_def utf8_char_def)
  then show ?thesis using work_topological by (simp add: normalize_workset_def) (simp add: work_plan_def)
qed

lemma work_planned: "workset_plan work_flow [98] (snap_input (m_snapshot work_machine)) = Inr work_plan"
  using work_normalized by (simp add: workset_plan_def work_facts) (simp add: work_items_def)

lemma work_emitted: "\<exists>m'. emit_item flow_env work_flow [98] work_machine ([97], {}, item) = Inr m'"
  by (simp add: emit_item_def effect_input_for_def work_facts trim_def emit_command_def work_machine_def run0_def empty_snapshot_def Let_def
      bump_attempt_lineage_def saturating_inc_def get_or_def insert_command_def)

lemma work_scheduled: "\<exists>m'. schedule_workset flow_env work_flow [98] work_machine = Inr (False, m')"
proof -
  have "indexed_visit (m_snapshot work_machine) [98] = Inr 1" "visit_commands (m_snapshot work_machine) [98] 1 = []"
    by (simp_all add: indexed_visit_def get_or_def work_machine_def run0_def empty_snapshot_def visit_commands_def)
  moreover obtain m' where "emit_item flow_env work_flow [98] work_machine ([97], {}, JObject [([105], JString [97])]) = Inr m'"
    using work_emitted by blast
  moreover have "work_items \<noteq> []" by (simp add: work_items_def)
  moreover have "run_all f s (filter (\<lambda>(i, ps, _). i \<notin> {} \<and> ps \<subseteq> {}) work_plan) = run_all f s [([97], {}, JObject [([105], JString [97])])]"
    "length work_plan = 2" "work_plan \<noteq> []" for f :: "machine \<Rightarrow> work_item \<Rightarrow> failure + machine" and s
    by (simp_all add: work_plan_def)
  ultimately show ?thesis
    using work_normalized by (simp add: schedule_workset_def work_facts item_ids_def)
qed

end
