(* ===== verification/Flywheel_Properties.thy ===== *)
theory Flywheel_Properties
  imports Flywheel_Samples
begin

text \<open>
  The properties of strategy graphs and runs: what compilation guarantees for every accepted
  declaration, and what the reducer keeps along every run.
\<close>

section \<open>Compiled graphs\<close>

lemma compiled_inner: "compile_workflow env d = Inr w \<or> compile_persisted_workflow env d = Inr w \<Longrightarrow>
    \<exists>legacy. compile_workflow_inner env d legacy = Inr w"
  by (auto simp: compile_workflow_def compile_persisted_workflow_def)

text \<open>
  C32: routing never gets stuck, for graphs none of whose guards compares with a negative zero. In a
  compiled graph of this kind every effect, pass, choice and join state finds, for each event it
  can end with and for every payload, a transition of its own on that event: guards are never ambiguous
  at run time and a fallback is always there. Two guards that compare with 0.0 and with -0.0 are
  outside this property: they compile and are ambiguous at run time.
\<close>

theorem compiled_routing_total:
  assumes "compile_workflow env d = Inr w \<or> compile_persisted_workflow env d = Inr w"
    and "st \<in> set (def_states (cw_definition w))" "routable (gs_kind st) e"
    and "list_all plain_guard (def_transitions (cw_definition w))"
  shows "\<exists>t\<in>set (def_transitions (cw_definition w)). tr_from t = gs_id st \<and> tr_event t = e
    \<and> select_transition w (gs_id st) e payload = Inr (Some t)"
  using compiled_inner[OF assms(1)] routing_total_aux[OF _ assms(2-4)] by blast

lemma compiled_routing_total_witness:
  "\<exists>t\<in>set (def_transitions (cw_definition flow_compiled)). tr_from t = [98] \<and> tr_event t = Failure
    \<and> select_transition flow_compiled [98] Failure JNull = Inr (Some t)"
proof -
  have "list_all plain_guard (def_transitions (cw_definition flow_compiled))"
    by (simp add: flow_compiled_def flow_sample_def edge_def plain_guard_def)
  from compiled_routing_total[OF disjI1[OF flow_compiles] flow_state _ this, of Failure JNull] show ?thesis
    by (simp add: plain_state_def)
qed

text \<open>
  C33: the reachable states of a compiled graph, as the code computes them, are exactly the states
  the initial one leads to, and these are all states; and no cycle can be run through
  automatically: every cycle of the graph contains an effect that has to be settled.
\<close>

theorem compiled_graph_sound:
  assumes "compile_workflow env d = Inr w \<or> compile_persisted_workflow env d = Inr w"
  shows "cw_reachable w = (flow_edges w)\<^sup>* `` {def_initial (cw_definition w)}
    \<and> cw_reachable w = gs_id ` set (def_states (cw_definition w)) \<and> acyclic (automatic_steps w)"
  using compiled_inner[OF assms] compiled_reachable compiled_acyclic by blast

lemma compiled_graph_sound_witness:
  "([102], [107]) \<in> (flow_edges flow_compiled)\<^sup>* \<and> acyclic (automatic_steps flow_compiled)"
proof -
  note sound = compiled_graph_sound[OF disjI1[OF flow_compiles]]
  have "[107] \<in> cw_reachable flow_compiled" "def_initial (cw_definition flow_compiled) = [102]"
    by (simp_all add: flow_compiled_def flow_sample_def)
  then show ?thesis using sound by simp
qed

text \<open>
  C34: parallel branches are structured. In a compiled graph every fork has its own join; each of its
  branches starts at the fork only, is entered nowhere else, holds no fork and no terminal
  state, leads to nothing but the join, through exactly one state, and has no cycle; branches
  of a fork are disjoint; and a join that closes no fork has exactly one predecessor.
\<close>

theorem compiled_forks_structured:
  assumes "compile_workflow env d = Inr w \<or> compile_persisted_workflow env d = Inr w"
  shows "\<exists>J B. inj_on J {gs_id st |st. st \<in> set (def_states (cw_definition w)) \<and> gs_kind st = KFork}
    \<and> (\<forall>st\<in>set (def_states (cw_definition w)). gs_kind st = KFork \<longrightarrow> parallel_region w (gs_id st) (J (gs_id st)) (B (gs_id st)))
    \<and> (\<forall>st\<in>set (def_states (cw_definition w)). gs_kind st = KJoin \<longrightarrow>
        card (predecessors w (gs_id st)) = 1 \<or>
        (\<exists>fork\<in>set (def_states (cw_definition w)). gs_kind fork = KFork \<and> gs_id st = J (gs_id fork)))"
  using compiled_inner[OF assms] compiled_regions by blast

lemma compiled_forks_structured_witness: "\<exists>J B. parallel_region flow_compiled [102] J B"
proof -
  have "plain_state [102] KFork None \<in> set (def_states (cw_definition flow_compiled))"
    by (simp add: flow_compiled_def flow_sample_def)
  then show ?thesis
    using compiled_forks_structured[OF disjI1[OF flow_compiles]] by (fastforce simp: plain_state_def)
qed

section \<open>Runs\<close>

text \<open>
  C35: on a run of a compiled graph the reducer never panics, whatever event arrives: the lookups the
  code unwraps or indexes always succeed and two levels of nested entry are enough. It answers
  with a new snapshot or with one of its error codes.
\<close>

theorem reducer_never_panics:
  assumes "compile_workflow env d = Inr w \<or> compile_persisted_workflow env d = Inr w" "run_reaches env w s"
  shows "reduce env w s ev \<noteq> Inl Panic"
  using compiled_inner[OF assms(1)] compiled_never_panics[OF _ assms(2)] by blast

lemma reducer_never_panics_witness: "reduce flow_env flow_compiled run0 (Start JNull) \<noteq> Inl Panic"
  by (rule reducer_never_panics[OF disjI1[OF flow_compiles] run_reaches.start[OF run0_unstarted]])

text \<open>
  C36: the life of a command. A step keeps every command of the run: it changes at most the status,
  along the table of later statuses, and the outcome, and a settled command stays as it is;
  every command that is new after the step was emitted by it, as pending.
\<close>

theorem command_lifecycle:
  assumes "run_reaches env w s" "reduce env w s ev = Inr out"
  shows "(\<forall>c. map_of (snap_commands s) i = Some c \<longrightarrow>
      (\<exists>c'. map_of (snap_commands (out_snapshot out)) i = Some c' \<and> evolves c c' \<and> (final_status (cmd_status c) \<longrightarrow> c' = c)))
    \<and> (\<forall>c'. map_of (snap_commands (out_snapshot out)) i = Some c' \<longrightarrow> map_of (snap_commands s) i = None \<longrightarrow>
      (\<exists>c\<in>set (out_emitted out). cmd_id c = i \<and> cmd_status c = CmdPending \<and> evolves c c'))"
proof -
  have same: "snap_commands (out_snapshot out) = snap_commands s \<or>
      (\<exists>m. progress w (initial_machine s) m \<and> m_emitted m = out_emitted out \<and> m_snapshot m = out_snapshot out)"
    using reduce_cases[OF assms(2) reach_keyed[OF assms(1)]] by auto
  have init: "commands (initial_machine s) = snap_commands s" by (simp add: initial_machine_def)
  have "\<exists>c'. map_of (snap_commands (out_snapshot out)) i = Some c' \<and> evolves c c' \<and> (final_status (cmd_status c) \<longrightarrow> c' = c)"
    if c: "map_of (snap_commands s) i = Some c" for c
    using same progress_evolves[of w "initial_machine s" _ i c] c evolves_final by (fastforce simp: init)
  moreover have "\<exists>c\<in>set (out_emitted out). cmd_id c = i \<and> cmd_status c = CmdPending \<and> evolves c c'"
    if "map_of (snap_commands (out_snapshot out)) i = Some c'" "map_of (snap_commands s) i = None" for c'
    using same progress_new[of w "initial_machine s" _ i c'] that by (fastforce simp: init)
  ultimately show ?thesis by blast
qed

lemma command_lifecycle_witness:
  "\<exists>c'. map_of (snap_commands run2) (lit ''command:'') = Some c' \<and> evolves (actor_command (lit ''command:'')) c'"
  using command_lifecycle[OF run1_reached run1_cancelled, of "lit ''command:''"] by (auto simp: run1_def)

text \<open>
  an event is applied or it changes nothing. An applied step raises the sequence number by one and
  keeps the identity of the run; an ignored one (a replayed result, a cancellation of a run that
  is over) emits nothing and leaves the snapshot as it was, but for a decision to terminate,
  whose callback is consumed even then.
\<close>

theorem events_apply_or_change_nothing:
  assumes "run_reaches env w s" "reduce env w s ev = Inr out"
  shows "(out_applied out \<and> snap_sequence (out_snapshot out) = snap_sequence s + 1 \<and> snap_sequence s \<noteq> - 1
      \<and> run_identity (out_snapshot out) = run_identity (s\<lparr>snap_sequence := snap_sequence s + 1\<rparr>))
    \<or> (\<not> out_applied out \<and> out_emitted out = [] \<and> (out_snapshot out = s
      \<or> (\<exists>i v. ev = CallbackDecision i v Terminate) \<and> out_snapshot out = s\<lparr>snap_callbacks := tl (snap_callbacks s)\<rparr>))"
proof -
  have sequence: "snap_sequence s \<noteq> - 1" using assms(2) by (rule reduceE)
  from reduce_cases[OF assms(2) reach_keyed[OF assms(1)]] show ?thesis
  proof (elim disjE)
    assume "out_applied out \<and> (\<exists>m. progress w (initial_machine s) m \<and> m_emitted m = out_emitted out \<and> m_snapshot m = out_snapshot out)"
    then obtain m where p: "out_applied out" "progress w (initial_machine s) m" "m_snapshot m = out_snapshot out" by blast
    have "run_identity (out_snapshot out) = run_identity (s\<lparr>snap_sequence := snap_sequence s + 1\<rparr>)"
      using progress_run_identity[OF p(2)] p(3) by (simp add: initial_machine_def)
    moreover from this have "snap_sequence (out_snapshot out) = snap_sequence s + 1" by (simp add: run_identity_def)
    ultimately show ?thesis using p(1) sequence by simp
  qed simp
qed

lemma events_apply_or_change_nothing_witness: "snap_sequence run2 = snap_sequence run1 + 1"
  using events_apply_or_change_nothing[OF run1_reached run1_cancelled] by (simp add: run1_def)

text \<open>
  C37: the attempt budget. Along every run each lineage (a state, its visit, the slot and the item) stays
  within the attempts the graph allows, and the commands of the run, retries and fallbacks
  included, are as many as the attempts counted: no command is issued outside the budget.
\<close>

theorem attempts_within_budget:
  assumes "run_reaches env w s" "max_attempts w < 255"
  shows "get_or 0 (snap_lineage s) k \<le> max_attempts w
    \<and> card (fst ` set (snap_commands s)) = lineage_total (snap_lineage s)"
proof -
  have "(\<forall>k. get_or 0 (snap_lineage s) k \<le> max_attempts w) \<and> card (fst ` set (snap_commands s)) = lineage_total (snap_lineage s)"
    using assms(1)
  proof (induction rule: run_reaches.induct)
    case (start s)
    then show ?case by (simp add: unstarted_def lineage_total_def)
  next
    case (step s ev out)
    have "(snap_commands (out_snapshot out) = snap_commands s \<and> snap_lineage (out_snapshot out) = snap_lineage s)
        \<or> (\<exists>m. progress w (initial_machine s) m \<and> m_snapshot m = out_snapshot out)"
      using reduce_cases[OF step(2) reach_keyed[OF step(1)]] by auto
    then show ?case
    proof (elim disjE exE conjE)
      fix m assume p: "progress w (initial_machine s) m" "m_snapshot m = out_snapshot out"
      from progress_budget[OF p(1) assms(2)] step(3) show ?thesis by (simp add: p(2) initial_machine_def)
    qed (use step(3) in simp)
  qed
  then show ?thesis by blast
qed

lemma attempts_within_budget_witness: "card (fst ` set (snap_commands run1)) = lineage_total (snap_lineage run1)"
  using attempts_within_budget[OF run1_reached] by (simp add: one_actor_facts)

text \<open>
  C38: a cancelled run stays cancelled. Once a cancellation is applied, whatever events follow (late
  results, retries, decisions, authorizations), no command is ever issued again, no callback
  waits and no command of the run is open or retryable. Only the fallback event, which the
  reducer does not check against the status of the run, is excluded.
\<close>

theorem cancelled_run_issues_nothing:
  assumes "reduce env w s CancelRequested = Inr out" "out_applied out"
    and "reduce_all env w (out_snapshot out) evs = Inr (s', emitted)" "list_all (\<lambda>ev. \<not> is_fallback ev) evs"
  shows "out_emitted out = [] \<and> emitted = [] \<and> run_closed s'"
proof -
  let ?m = "cancel (initial_machine s)"
  from assms(1) obtain m2 where m2: "drain_automatic env w ?m = Inr m2"
    "out = \<lparr>out_snapshot = (if m_applied m2 then m_snapshot m2 else (m_snapshot m2)\<lparr>snap_sequence := snap_sequence s\<rparr>),
       out_emitted = m_emitted m2, out_applied = m_applied m2\<rparr>"
    by (rule reduceE) (simp add: handle_event_def)
  have "m_automatic ?m = []" by (simp add: cancel_def initial_machine_def map_commands_def Let_def)
  then have eq: "m2 = ?m" using m2(1) drain_empty by (simp add: drain_automatic_def)
  then have closed: "run_closed (m_snapshot ?m) \<and> m_emitted ?m = m_emitted (initial_machine s)"
    using cancel_closes[of "initial_machine s"] assms(2) m2(2) by (simp add: initial_machine_def)
  then have "run_closed (out_snapshot out)" "out_emitted out = []"
    using assms(2) m2(2) eq by (simp_all add: initial_machine_def)
  then show ?thesis using closed_reduce_all[OF assms(3) _ assms(4)] by blast
qed

lemma cancelled_run_issues_nothing_witness: "run_closed run2"
proof -
  have "reduce_all flow_env one_actor run2 [CancelRequested] = Inr (run2, [])" by (simp add: run2_cancelled_again)
  then show ?thesis
    using cancelled_run_issues_nothing[OF run1_cancelled, of "[CancelRequested]" run2 "[]"] by (simp add: is_fallback_def)
qed

section \<open>Context and worksets\<close>

text \<open>
  C39: parallel results merge deterministically. Whatever order the outputs of distinct commands arrive
  in, the run input and the record of who wrote what come out the same: of two commands that
  write the same key the one with the larger identity wins, early or late.
\<close>

theorem outputs_merge_in_any_order:
  assumes "mset xs = mset ys" "distinct (map fst xs)" "list_all (\<lambda>(_, out). output_wf out) xs" "run_context_wf st"
  shows "merge_outputs xs st = merge_outputs ys st"
  by (rule merge_outputs_perm[OF assms])

definition sample_output :: "bool \<Rightarrow> json" where
  "sample_output b = JObject [(lit ''context'', JObject [([107], JBool b)])]"

lemma outputs_merge_in_any_order_witness:
  "merge_outputs [([97], sample_output True), ([98], sample_output False)] (JObject [], [])
    = merge_outputs [([98], sample_output False), ([97], sample_output True)] (JObject [], [])"
  by (rule outputs_merge_in_any_order)
    (simp_all add: output_wf_def sample_output_def namespaces_def run_context_wf_def context_wf_def object_or_empty_def bt_wf_def lit_def)

text \<open>
  C40: worksets are scheduled in the order of their predecessors. A scheduling step is satisfied when
  the list is empty or as many items have succeeded as it has; otherwise it issues, in the order
  of the list, one pending command for exactly the items not yet issued whose predecessors have all succeeded.
  As long as every item that has succeeded is still in the list it does not stall: when all issued items have
  succeeded it issues at least one more. A list that was shortened below its succeeded items is outside this
  last part: there the workset is not satisfied and issues nothing.
\<close>

theorem workset_issues_ready:
  assumes "schedule_workset env w s m = Inr (satisfied, m')" "workset_plan w s (snap_input (m_snapshot m)) = Inr plan"
  shows "satisfied = (plan = [] \<or> card (succeeded_items (m_snapshot m) s) = length plan)
    \<and> (\<exists>new. m_emitted m' = m_emitted m @ new
        \<and> map cmd_item_id new = (if satisfied then [] else map (\<lambda>x. Some (fst x)) (workset_ready (m_snapshot m) s plan))
        \<and> list_all (\<lambda>c. cmd_kind c = WorksetItemCommand \<and> cmd_status c = CmdPending) new
        \<and> (\<not> satisfied \<and> issued_items (m_snapshot m) s \<subseteq> succeeded_items (m_snapshot m) s
            \<and> succeeded_items (m_snapshot m) s \<subseteq> fst ` set plan \<longrightarrow> new \<noteq> []))"
proof -
  let ?sn = "m_snapshot m"
  note sched = schedule_plan[OF assms]
  have never: "workset_ready ?sn s plan \<noteq> []"
    if "\<not> satisfied" "issued_items ?sn s \<subseteq> succeeded_items ?sn s" "succeeded_items ?sn s \<subseteq> fst ` set plan"
  proof -
    from that(1) have "plan \<noteq> []" "card (succeeded_items ?sn s) \<noteq> length plan" using sched by simp_all
    then obtain template items where "normalize_workset template items = Inr plan"
      using assms(2) by (auto simp: workset_plan_def result_simps split: if_splits)
    note plan = plan_ids[OF this] plan_ready[OF this]
    have "\<not> fst ` set plan \<subseteq> succeeded_items ?sn s"
      using that(3) plan(1) \<open>card (succeeded_items ?sn s) \<noteq> length plan\<close> by (metis subset_antisym)
    then obtain i ps x where "(i, ps, x) \<in> set plan" "i \<notin> succeeded_items ?sn s" "ps \<subseteq> succeeded_items ?sn s"
      using plan(2) by blast
    then have "(i, ps, x) \<in> set (workset_ready ?sn s plan)" using that(2) by (auto simp: workset_ready_def)
    then show ?thesis by auto
  qed
  show ?thesis
  proof (cases satisfied)
    case False
    then obtain new where new: "m_emitted m' = m_emitted m @ new"
      "map cmd_item_id new = map (\<lambda>x. Some (fst x)) (workset_ready ?sn s plan)"
      "list_all (\<lambda>c. cmd_kind c = WorksetItemCommand \<and> cmd_status c = CmdPending) new"
      using emit_items_emitted sched by blast
    moreover have "new = [] \<longleftrightarrow> workset_ready ?sn s plan = []" using new(2) by (metis map_is_Nil_conv)
    ultimately show ?thesis using sched never False by auto
  qed (use sched in auto)
qed

lemma workset_issues_ready_witness:
  "\<exists>m' new. schedule_workset flow_env work_flow [98] work_machine = Inr (False, m')
    \<and> m_emitted m' = new \<and> map cmd_item_id new = [Some [97]]"
proof -
  obtain m' where m': "schedule_workset flow_env work_flow [98] work_machine = Inr (False, m')" using work_scheduled by blast
  have "workset_ready (m_snapshot work_machine) [98] work_plan = [([97], {}, JObject [([105], JString [97])])]" "m_emitted work_machine = []"
    by (simp_all add: workset_ready_def work_plan_def issued_items_def succeeded_items_def visit_commands_def item_ids_def
        work_machine_def run0_def empty_snapshot_def)
  then show ?thesis using workset_issues_ready[OF m' work_planned] m' by auto
qed

end
