(* ===== verification/Spec2Isabelle.thy ===== *)
theory Spec2Isabelle
  imports Braid_Properties Spq_Properties Spq_Network Content_Properties Pairwise_Properties KT_Directory Catalog_Properties Catalog_Dispatch
    Flywheel_Properties
begin

text \<open>
  A verification development for the core logic of LicoUp (Rust, crates under
  \<open>src/crates\<close>). LicoUp connects a person's devices through an end-to-end encrypted mesh,
  serves a catalog of agents and skills to them, and runs strategy graphs that coordinate
  agents. The development models the parts that carry this logic and do not depend on the
  operating system; each theory says at its top which files it translates.

  \<^bold>\<open>Parts and theories\<close>

  \<^item> \<^emph>\<open>Shared.\<close> \<open>Prelude\<close>: machine words, the result type \<open>'e + 'a\<close> with \<open>and_then\<close> (the operator
    \<open>?\<close>), \<open>ensure\<close> and \<open>ok_or\<close>, slices, big-endian codecs, \<open>BTreeMap\<close> as a sorted association list.
    \<open>Stateful\<close>: the same for methods that keep what they changed when they fail. \<open>Utf8\<close>: encoding.
    \<open>Rust_Text\<close>: strings as lists of code points, \<open>trim\<close>, case mapping, ordering. \<open>Json\<close>: JSON
    values with ordered keys. \<open>Digest\<close>: length-prefixed and canonical digests over a SHA-256
    parameter.
  \<^item> \<^emph>\<open>ML-KEM braid\<close> (\<open>core/secure_mesh_mlkem_braid\<close>), the sparse continuous key agreement:
    \<open>Gf16\<close> and \<open>Lagrange\<close> (field arithmetic, interpolation), \<open>Erasure\<close> (encoder, decoder),
    \<open>Braid_Base\<close>, \<open>Braid_Wire\<close> (messages), \<open>Braid_Crypto\<close> (authenticator, encapsulation),
    \<open>Braid_State\<close>, \<open>Braid_Send\<close>, \<open>Braid_Receive\<close> (the twelve states, one definition per arm),
    \<open>Braid_Session\<close> (session object, persistence, steps), \<open>Braid_Properties\<close>. \<open>Braid_Agreement\<close>
    follows two sessions that talk to each other and proves that they put out the same epoch keys.
  \<^item> \<^emph>\<open>Sparse post-quantum ratchet\<close> (\<open>core/secure_mesh_sparse_pq_ratchet.rs\<close>), which turns the epoch
    keys of a braid session into message keys: \<open>Spq_Ratchet\<close> (the code, over the operations of its
    session as a parameter), \<open>Spq_Chains\<close>, \<open>Spq_Invariant\<close>, \<open>Spq_Agreement\<close> (locale \<open>key_agreement\<close>,
    interpreted on the braid session), \<open>Spq_Network\<close> (two ratchets on real braid sessions over
    a network that may lose, repeat and reorder), \<open>Spq_Properties\<close>.
  \<^item> \<^emph>\<open>Content encryption\<close> (\<open>core/secure_mesh_crypto\<close>): \<open>Content_Codec\<close> (length-prefixed fields; the
    locale \<open>item_codec\<close> is the contract of one coded item), \<open>Content_Frame\<close>, \<open>Content_Padding\<close>,
    \<open>Content_Payload\<close> (sealing and opening), \<open>Content_Proofs\<close>, \<open>Content_Samples\<close>, \<open>Content_Properties\<close>.
  \<^item> \<^emph>\<open>Pairwise session\<close> (\<open>core/secure_mesh_pairwise\<close>), the Double Ratchet that mixes its keys with
    those of the post-quantum ratchet and carries content payloads: \<open>Pairwise_Session\<close>,
    \<open>Pairwise_Messages\<close> (the code), \<open>Pairwise_Window\<close> and \<open>Pairwise_Run\<close> (abstract receive window and
    its refinement), \<open>Pairwise_Sync\<close> and \<open>Pairwise_Delivery\<close> (two sessions in step), \<open>Pairwise_Limits\<close>,
    \<open>Pairwise_Binding\<close>, \<open>Pairwise_Samples\<close>, \<open>Pairwise_Properties\<close>.
  \<^item> \<^emph>\<open>Key transparency\<close> (\<open>core/secure_mesh_transparency\<close>): \<open>KT_Merkle\<close>, \<open>KT_Proofs\<close> (inclusion and
    consistency proofs), \<open>KT_Codec\<close>, \<open>KT_Directory\<close> (signed heads, freshness, sparse directory map).
  \<^item> \<^emph>\<open>Catalog convergence\<close> (\<open>crates/lico-catalog-convergence\<close>): \<open>Catalog_Model\<close>, \<open>Catalog_Engine\<close>,
    \<open>Catalog_Refresh\<close> (threads of the coalesced refresh as a step relation), \<open>Catalog_Receipt\<close>,
    \<open>Catalog_Dispatch\<close> (commands, and for every command the engine operation it stands for, the
    fields it reads and the fields it answers with), \<open>Catalog_Proofs\<close>, \<open>Catalog_Properties\<close>.
  \<^item> \<^emph>\<open>Strategy graphs\<close> (\<open>domain/adaptive_flywheel\<close>): \<open>Flywheel_Definition\<close> (\<open>definition.rs\<close>),
    \<open>Flywheel_Graph\<close> (\<open>graph.rs\<close>: the compiler), \<open>Flywheel_Reducer\<close> (\<open>reducer.rs\<close>: the run machine);
    proofs in \<open>Flywheel_Compile\<close>, \<open>Flywheel_Routing\<close>, \<open>Flywheel_Regions\<close>, \<open>Flywheel_Progress\<close>,
    \<open>Flywheel_Run\<close>, \<open>Flywheel_Safety\<close>, \<open>Flywheel_Context\<close>, \<open>Flywheel_Samples\<close>, \<open>Flywheel_Properties\<close>.

  \<^bold>\<open>State and operations\<close>

  A struct is a record with its fields in order, an enum a datatype with its variants, a method
  on \<open>&mut self\<close> a function that returns the state afterwards beside its result. A braid session
  is its \<open>protocol_state\<close>; \<open>session_step\<close> is what a caller may do to it and \<open>session_reach\<close> the
  sequences of it. A post-quantum ratchet is the record \<open>spq_ratchet\<close> around such a session, a
  pairwise session the record \<open>pairwise_session\<close> around such a ratchet. \<open>spq_net\<close> holds two ratchets
  and what each has sent, and \<open>spq_net_reach\<close> are the states of that network. A catalog engine is the record \<open>engine\<close>, with \<open>engine_step\<close> for its operations
  and a step relation over threads for the coalesced refresh, whose condition variable
  makes interleaving observable. A strategy run is a \<open>run_snapshot\<close>; \<open>reduce\<close> takes an event to
  the next snapshot and the commands it emits; \<open>run_reaches\<close> are the snapshots of a run.
  Errors are values with the source's code or a constructor per message; \<open>Panic\<close> marks the paths
  on which the source would panic, so that a theorem can say they are never taken.

  \<^bold>\<open>What is shown\<close>

  Erasure code: any \<open>k\<close> chunks decode, transfers are faithful, points never repeat; field laws.
  Braid: invariant, transition table, tags checked before use (and, as lemmas, errors are final
  and persistence is a round trip). Post-quantum ratchet: bounds, no key used twice, restore,
  and both ends of a network derive the same message keys, with the agreement of the braid
  sessions on every epoch key derived from the correctness of the key encapsulation; also a
  defect: at the end of epoch 0 messages of that epoch are refused. Content: round trip, binding
  to the context, authenticity, and the size bucket as all that a length reveals (at most twice
  the frame, 256 bytes at least). Pairwise: between sessions in step a message opens to what was
  sealed, or the post-quantum ratchet of the receiver refuses its header, as that defect makes it
  do, and opening fails with that error and leaves the session as it was; no message opens
  twice; the window is bounded and every run refines it; headers are bound; two limits of the
  code on which messages are lost. Transparency: proofs generated verify, and proofs verified are about the
  committed log; freshness windows; unambiguous transcripts. Catalog: never serves
  invalidated data, never rolls back, single-flight refresh (as a lemma, no
  refresh is abandoned); each command does what its engine operation does, on the fields of its
  parameters, or changes nothing. Strategy graphs: routing is total and unambiguous when no
  guard compares with \<open>-0.0\<close> (the compiler takes \<open>0.0\<close> and \<open>-0.0\<close> for different guards and the
  reducer does not), reachability is exact, forks are structured; the reducer never panics, command lifecycle,
  attempt budget, cancellation, order-independent merging; a workset does not
  stall as long as its succeeded items are still in its list.

  \<^bold>\<open>Bounds and fuel\<close>

  Machine integers keep their width (\<open>u16\<close>, \<open>u32\<close>, \<open>u64\<close> words) wherever the code can reach the
  boundary; lengths and counters that are bounded by a checked limit are \<open>nat\<close>. Counters of the
  reducer wrap as in a release build. \<open>enter\<close> and \<open>complete_fork\<close> of the reducer call each other;
  the model has fuel \<open>enter_fuel\<close> = 2, enough because a compiled graph has no fork directly below
  a fork (\<open>Flywheel_Safety\<close>: the reducer never fails, fuel included). \<open>drain_automatic\<close> has the
  limit of the source. \<open>store_skipped_loop\<close> of the pairwise session has fuel \<open>MAX_SKIPPED_KEYS\<close>;
  the checks before it keep it within that, and \<open>opening_terminates\<close> shows that the outcome
  \<open>SkipLoopUnfinished\<close> never occurs. All other recursions terminate structurally or by a measure.

  \<^bold>\<open>Parameters\<close>

  Code that is not in the repository is an argument of the definitions: SHA-256, HKDF, HMAC,
  ML-KEM, X25519, the authenticated cipher, base64url, Ed25519 verification, the text form of JSON
  (\<open>serde_json\<close>), time parsing. What a theorem needs of them is a named hypothesis
  (\<open>crypto_sizes\<close>, \<open>kem_correct\<close>, \<open>pairwise_laws\<close>, \<open>braid_laws\<close>); a binding is claimed up to an
  explicit collision. The witness of the theorem instantiates it.

  \<^bold>\<open>Not modelled\<close>

  Persistence over SQLite and files, network and process drivers, platform bridges, the FFI and
  RPC surfaces, and the parsers of agent histories, which are input and output around the
  logic above; the conversation store and the strategy service, whose core is SQL text; the
  MLS and handshake layers, which are mostly calls of their packages; persistence, relay headers
  and fan-out of pairwise sessions, which enter the model as the handshake leaves them. The manifest lists every
  part with its reason.
\<close>

end
